(* ===== verification/Prelude.thy ===== *)
theory Prelude
  imports Main "HOL-Library.Word"
begin

text \<open>
  Types, memory helpers and lemma collections that every component of the development shares.
  \<^item> The C integer types are words of their width; \<open>size_t\<close> is a \<open>nat\<close>, and where a length read
    from untrusted input can overflow it the model writes the reduction modulo \<open>2 ^ 64\<close> out
    (\<open>sz\<close>, \<open>sz_add\<close>).
  \<^item> A C buffer passed as a pointer and a length is the list of its bytes. A write buffer that may
    be \<open>NULL\<close> is a \<open>wbuf\<close>: \<open>None\<close> for \<open>NULL\<close>, \<open>Some d\<close> for a buffer of \<open>length d\<close> bytes.
  \<^item> A serializer of the C code returns the bytes written, or needed when its buffer is \<open>NULL\<close>.
    The locales \<open>serializer\<close> and \<open>strict_serializer\<close> state that contract once; the theories that
    model a serializer interpret them.
\<close>

unbundle bit_operations_syntax

type_synonym u8 = "8 word"
type_synonym u16 = "16 word"
type_synonym u32 = "32 word"
type_synonym u64 = "64 word"
type_synonym size_t = nat
type_synonym wbuf = "u8 list option"

named_theorems cint_simps \<open>reading back what the integer setters wrote\<close>
named_theorems len_simps \<open>lengths of encodings and of memory updates\<close>
named_theorems mem_simps \<open>reads and writes of memory\<close>

definition SIZE_MAX :: size_t where
  "SIZE_MAX = 2 ^ 64 - 1"

definition sz :: "nat \<Rightarrow> size_t" where
  "sz n = n mod 2 ^ 64"

definition sz_add :: "size_t \<Rightarrow> size_t \<Rightarrow> size_t" where
  "sz_add a b = (a + b) mod 2 ^ 64"

lemma sz_small [simp]: "n < 2 ^ 64 \<Longrightarrow> sz n = n"
  by (simp add: sz_def)

lemma sz_add_small: "a + b < 2 ^ 64 \<Longrightarrow> sz_add a b = a + b"
  by (simp add: sz_add_def)

section \<open>Memory\<close>

text \<open>\<open>memcpy(&d[off], bs, n)\<close> into a buffer that has room for it.\<close>

definition memcpy_at :: "'a list \<Rightarrow> nat \<Rightarrow> 'a list \<Rightarrow> 'a list" where
  "memcpy_at d off bs = take off d @ bs @ drop (off + length bs) d"

lemma length_memcpy_at [len_simps, simp]:
  "off + length bs \<le> length d \<Longrightarrow> length (memcpy_at d off bs) = length d"
  by (simp add: memcpy_at_def)

lemma memcpy_at_0 [mem_simps]: "memcpy_at d 0 bs = bs @ drop (length bs) d"
  by (simp add: memcpy_at_def)

lemma memcpy_at_append [mem_simps]:
  "length xs = off \<Longrightarrow> memcpy_at (xs @ d) off bs = xs @ bs @ drop (length bs) d"
  by (simp add: memcpy_at_def)

lemma memcpy_at_Nil [mem_simps]: "memcpy_at d off [] = d"
  by (simp add: memcpy_at_def)

text \<open>A guarded write of the C serializers:
  \<open>if (data && off + n <= dataLen) memcpy(&data[off], bs, n)\<close>.\<close>

definition put :: "wbuf \<Rightarrow> nat \<Rightarrow> u8 list \<Rightarrow> wbuf" where
  "put b off bs =
     (case b of None \<Rightarrow> None
      | Some d \<Rightarrow> if off + length bs \<le> length d then Some (memcpy_at d off bs) else Some d)"

text \<open>A call of a serializer on the rest of the buffer:
  \<open>f((data ? &data[off] : NULL), (off <= dataLen ? dataLen - off : 0), ...)\<close>.\<close>

definition at_off :: "nat \<Rightarrow> (wbuf \<Rightarrow> size_t \<times> wbuf) \<Rightarrow> wbuf \<Rightarrow> size_t \<times> wbuf" where
  "at_off off f b =
     (case b of None \<Rightarrow> f None
      | Some d \<Rightarrow> (let (r, b') = f (Some (drop off d)) in (r, map_option (\<lambda>d'. take off d @ d') b')))"

lemma put_None [mem_simps, simp]: "put None off bs = None"
  by (simp add: put_def)

lemma put_Some_append [mem_simps]:
  "length xs = off \<Longrightarrow> length bs \<le> length d \<Longrightarrow>
   put (Some (xs @ d)) off bs = Some (xs @ bs @ drop (length bs) d)"
  by (simp add: put_def memcpy_at_append)

lemma put_Some_0 [mem_simps]:
  "length bs \<le> length d \<Longrightarrow> put (Some d) 0 bs = Some (bs @ drop (length bs) d)"
  using put_Some_append [of "[]" 0 bs d] by simp

section \<open>The contract of a C serializer\<close>

text \<open>\<open>writes f bs\<close>: with a \<open>NULL\<close> buffer \<open>f\<close> returns the length of \<open>bs\<close>, and with a buffer that has
  room it returns that length, writes \<open>bs\<close> at the start and leaves the rest as it was.\<close>

definition writes :: "(wbuf \<Rightarrow> size_t \<times> wbuf) \<Rightarrow> u8 list \<Rightarrow> bool" where
  "writes f bs \<longleftrightarrow> f None = (length bs, None) \<and>
     (\<forall>d. length bs \<le> length d \<longrightarrow> f (Some d) = (length bs, Some (bs @ drop (length bs) d)))"

lemma writesI [intro?]:
  assumes "f None = (length bs, None)"
    and "\<And>d. length bs \<le> length d \<Longrightarrow> f (Some d) = (length bs, Some (bs @ drop (length bs) d))"
  shows "writes f bs"
  using assms by (simp add: writes_def)

lemma writes_None: "writes f bs \<Longrightarrow> f None = (length bs, None)"
  by (simp add: writes_def)

lemma writes_Some: "writes f bs \<Longrightarrow> length bs \<le> length d \<Longrightarrow>
    f (Some d) = (length bs, Some (bs @ drop (length bs) d))"
  by (simp add: writes_def)

lemma writes_at_off_None: "writes f bs \<Longrightarrow> at_off off f None = (length bs, None)"
  by (simp add: at_off_def writes_None)

lemma writes_at_off_Some:
  "writes f bs \<Longrightarrow> length xs = off \<Longrightarrow> length bs \<le> length d \<Longrightarrow>
   at_off off f (Some (xs @ d)) = (length bs, Some (xs @ bs @ drop (length bs) d))"
  by (simp add: at_off_def writes_Some)

text \<open>The bytes that the two calls of the code get from a serializer: a first one with \<open>NULL\<close> for the
  length, and a second one with a buffer of that length.\<close>

definition bytes_written :: "(wbuf \<Rightarrow> size_t \<times> wbuf) \<Rightarrow> u8 list" where
  "bytes_written f = (case snd (f (Some (replicate (fst (f None)) 0))) of None \<Rightarrow> [] | Some d \<Rightarrow> d)"

lemma bytes_written_writes: "writes f bs \<Longrightarrow> bytes_written f = bs"
  by (simp add: bytes_written_def writes_None writes_Some)

text \<open>Every serializer is called twice by the code: once with \<open>NULL\<close> to learn the length, then with a
  buffer of that length. The locale gives what such a pair of calls does.\<close>

locale serializer =
  fixes ser :: "'a \<Rightarrow> wbuf \<Rightarrow> size_t \<times> wbuf"
    and enc :: "'a \<Rightarrow> u8 list"
    and valid :: "'a \<Rightarrow> bool"
  assumes ser_writes: "valid x \<Longrightarrow> writes (ser x) (enc x)"
begin

lemma two_calls:
  assumes "valid x" and "length d = fst (ser x None)"
  shows "ser x (Some d) = (length (enc x), Some (enc x))"
  using writes_None [OF ser_writes [OF assms(1)]] writes_Some [OF ser_writes [OF assms(1)], of d]
    assms(2)
  by simp

lemma appended:
  assumes "valid x" and "length (enc x) \<le> length d"
  shows "at_off (length xs) (ser x) (Some (xs @ d)) =
    (length (enc x), Some (xs @ enc x @ drop (length (enc x)) d))"
  using assms by (simp add: writes_at_off_Some ser_writes)

end

text \<open>A serializer that also reports a buffer that is too small, by returning 0 and writing nothing.\<close>

locale strict_serializer = serializer +
  assumes ser_short: "valid x \<Longrightarrow> length d < length (enc x) \<Longrightarrow> ser x (Some d) = (0, Some d)"
begin

lemma result_iff:
  assumes "valid x" and "enc x \<noteq> []"
  shows "fst (ser x (Some d)) = length (enc x) \<longleftrightarrow> length (enc x) \<le> length d"
proof (cases "length (enc x) \<le> length d")
  case True
  then show ?thesis using writes_Some [OF ser_writes [OF assms(1)] True] by simp
next
  case False
  then show ?thesis using ser_short [OF assms(1), of d] assms(2) by simp
qed

end

section \<open>Narrowing casts\<close>

lemma unat_ucast_small:
  "unat (w :: 'a::len word) < 2 ^ LENGTH('b) \<Longrightarrow> unat (ucast w :: 'b::len word) = unat w"
  by (simp add: unsigned_ucast_eq take_bit_nat_eq_self)

lemma ucast_ucast_small:
  "unat (w :: 'a::len word) < 2 ^ LENGTH('b) \<Longrightarrow> ucast (ucast w :: 'b::len word) = w"
  by (rule unsigned_word_eqI [where 'a = nat])
    (simp add: unsigned_ucast_eq unsigned_take_bit_eq take_bit_nat_eq_self)

section \<open>Lists\<close>

lemma nth_append_drop: "i < length bs \<Longrightarrow> (bs @ xs) ! i = bs ! i"
  by (simp add: nth_append)

lemma take_append_len: "length xs = n \<Longrightarrow> take n (xs @ ys) = xs"
  by simp

lemma drop_append_len: "length xs = n \<Longrightarrow> drop n (xs @ ys) = ys"
  by simp

lemma list_update_append_here: "(xs @ x # ys)[length xs := y] = xs @ y # ys"
  by simp

end
