(* ===== verification/CInt.thy ===== *)
theory CInt
  imports Prelude
begin

text \<open>
  \<^verbatim>\<open>Libraries/loafwallet-core/BRInt.h\<close>: the large-integer unions and the unaligned memory access
  helpers. A \<open>UInt256\<close> is a 256-bit word whose byte \<open>u8[i]\<close> is bits \<open>8i .. 8i+7\<close> (the memory order of
  the little-endian targets of the SDK), so the \<open>u32[i]\<close> and \<open>u64[i]\<close> views of the union are the
  corresponding bit fields. Reads take the list of bytes at the pointer.
\<close>

type_synonym UInt128 = "128 word"
type_synonym UInt160 = "160 word"
type_synonym UInt256 = "256 word"
type_synonym UInt512 = "512 word"

section \<open>Little-endian byte lists in general\<close>

definition le_bytes :: "nat \<Rightarrow> 'a::len word \<Rightarrow> u8 list" where
  "le_bytes n w = map (\<lambda>i. ucast (drop_bit (8 * i) w)) [0..<n]"

fun le_word :: "u8 list \<Rightarrow> 'a::len word" where
  "le_word [] = 0"
| "le_word (b # bs) = ucast b OR push_bit 8 (le_word bs)"

lemma length_le_bytes [len_simps, simp]: "length (le_bytes n w) = n"
  by (simp add: le_bytes_def)

lemma nth_le_bytes: "i < n \<Longrightarrow> le_bytes n w ! i = ucast (drop_bit (8 * i) w)"
  by (simp add: le_bytes_def)

lemma bit_le_word:
  "bit (le_word bs :: 'a::len word) k \<longleftrightarrow>
     k < LENGTH('a) \<and> k div 8 < length bs \<and> bit (bs ! (k div 8)) (k mod 8)"
proof (induction bs arbitrary: k)
  case Nil
  then show ?case by simp
next
  case (Cons b bs)
  show ?case
  proof (cases "k < 8")
    case True
    then show ?thesis by (auto simp: bit_simps)
  next
    case False
    then obtain j where j: "k = j + 8" by (metis add.commute le_iff_add not_less)
    have nb: "\<not> bit b (j + 8)" using bit_imp_le_length [of b "j + 8"] by auto
    have dm: "(j + 8) div 8 = Suc (j div 8)" "(j + 8) mod 8 = j mod 8" by simp_all
    have "bit (le_word (b # bs) :: 'a word) k \<longleftrightarrow>
        k < LENGTH('a) \<and> bit (le_word bs :: 'a word) j"
      using j nb by (auto simp: bit_simps)
    also have "\<dots> \<longleftrightarrow> k < LENGTH('a) \<and> k div 8 < length (b # bs) \<and>
        bit ((b # bs) ! (k div 8)) (k mod 8)"
      using j by (auto simp: Cons.IH dm)
    finally show ?thesis .
  qed
qed

lemma le_word_le_bytes:
  assumes "LENGTH('a) \<le> 8 * n"
  shows "le_word (le_bytes n (w :: 'a::len word)) = w"
proof (rule bit_word_eqI)
  fix k assume k: "k < LENGTH('a)"
  then have "k div 8 < n" using assms by linarith
  then show "bit (le_word (le_bytes n w) :: 'a word) k = bit w k"
    using k by (simp add: bit_le_word nth_le_bytes bit_simps)
qed

lemma le_bytes_le_word:
  assumes "8 * length bs \<le> LENGTH('a)"
  shows "le_bytes (length bs) (le_word bs :: 'a::len word) = bs"
proof (rule nth_equalityI)
  show "length (le_bytes (length bs) (le_word bs :: 'a word)) = length bs" by simp
next
  fix i assume "i < length (le_bytes (length bs) (le_word bs :: 'a word))"
  then have i: "i < length bs" by simp
  show "le_bytes (length bs) (le_word bs :: 'a word) ! i = bs ! i"
  proof (rule bit_word_eqI)
    fix k assume "k < LENGTH(8)"
    then have k: "k < 8" by simp
    have "8 * i + k < LENGTH('a)" using assms i k by linarith
    moreover have "(8 * i + k) div 8 = i" "(8 * i + k) mod 8 = k" using k by auto
    ultimately show "bit (le_bytes (length bs) (le_word bs :: 'a word) ! i) k = bit (bs ! i) k"
      using i k by (simp add: nth_le_bytes bit_simps bit_le_word)
  qed
qed

lemma le_bytes_inj: "LENGTH('a) \<le> 8 * n \<Longrightarrow> le_bytes n v = le_bytes n (w :: 'a::len word) \<Longrightarrow> v = w"
  by (metis le_word_le_bytes)

section \<open>Unaligned memory access helpers\<close>

definition UInt16SetBE :: "u16 \<Rightarrow> u8 list" where
  "UInt16SetBE u = [ucast (drop_bit 8 u AND 0xff), ucast (u AND 0xff)]"

definition UInt16SetLE :: "u16 \<Rightarrow> u8 list" where
  "UInt16SetLE u = [ucast (u AND 0xff), ucast (drop_bit 8 u AND 0xff)]"

definition UInt32SetBE :: "u32 \<Rightarrow> u8 list" where
  "UInt32SetBE u = [ucast (drop_bit 24 u AND 0xff), ucast (drop_bit 16 u AND 0xff),
     ucast (drop_bit 8 u AND 0xff), ucast (u AND 0xff)]"

definition UInt32SetLE :: "u32 \<Rightarrow> u8 list" where
  "UInt32SetLE u = [ucast (u AND 0xff), ucast (drop_bit 8 u AND 0xff),
     ucast (drop_bit 16 u AND 0xff), ucast (drop_bit 24 u AND 0xff)]"

definition UInt64SetBE :: "u64 \<Rightarrow> u8 list" where
  "UInt64SetBE u = [ucast (drop_bit 56 u AND 0xff), ucast (drop_bit 48 u AND 0xff),
     ucast (drop_bit 40 u AND 0xff), ucast (drop_bit 32 u AND 0xff),
     ucast (drop_bit 24 u AND 0xff), ucast (drop_bit 16 u AND 0xff),
     ucast (drop_bit 8 u AND 0xff), ucast (u AND 0xff)]"

definition UInt64SetLE :: "u64 \<Rightarrow> u8 list" where
  "UInt64SetLE u = [ucast (u AND 0xff), ucast (drop_bit 8 u AND 0xff),
     ucast (drop_bit 16 u AND 0xff), ucast (drop_bit 24 u AND 0xff),
     ucast (drop_bit 32 u AND 0xff), ucast (drop_bit 40 u AND 0xff),
     ucast (drop_bit 48 u AND 0xff), ucast (drop_bit 56 u AND 0xff)]"

definition UInt16GetBE :: "u8 list \<Rightarrow> u16" where
  "UInt16GetBE b = push_bit 8 (ucast (b ! 0)) OR ucast (b ! 1)"

definition UInt16GetLE :: "u8 list \<Rightarrow> u16" where
  "UInt16GetLE b = push_bit 8 (ucast (b ! 1)) OR ucast (b ! 0)"

definition UInt32GetBE :: "u8 list \<Rightarrow> u32" where
  "UInt32GetBE b = push_bit 24 (ucast (b ! 0)) OR push_bit 16 (ucast (b ! 1)) OR
     push_bit 8 (ucast (b ! 2)) OR ucast (b ! 3)"

definition UInt32GetLE :: "u8 list \<Rightarrow> u32" where
  "UInt32GetLE b = push_bit 24 (ucast (b ! 3)) OR push_bit 16 (ucast (b ! 2)) OR
     push_bit 8 (ucast (b ! 1)) OR ucast (b ! 0)"

definition UInt64GetBE :: "u8 list \<Rightarrow> u64" where
  "UInt64GetBE b = push_bit 56 (ucast (b ! 0)) OR push_bit 48 (ucast (b ! 1)) OR
     push_bit 40 (ucast (b ! 2)) OR push_bit 32 (ucast (b ! 3)) OR
     push_bit 24 (ucast (b ! 4)) OR push_bit 16 (ucast (b ! 5)) OR
     push_bit 8 (ucast (b ! 6)) OR ucast (b ! 7)"

definition UInt64GetLE :: "u8 list \<Rightarrow> u64" where
  "UInt64GetLE b = push_bit 56 (ucast (b ! 7)) OR push_bit 48 (ucast (b ! 6)) OR
     push_bit 40 (ucast (b ! 5)) OR push_bit 32 (ucast (b ! 4)) OR
     push_bit 24 (ucast (b ! 3)) OR push_bit 16 (ucast (b ! 2)) OR
     push_bit 8 (ucast (b ! 1)) OR ucast (b ! 0)"

text \<open>The large integers are copied byte by byte.\<close>

definition UInt128Set :: "UInt128 \<Rightarrow> u8 list" where
  "UInt128Set u = map (\<lambda>i. ucast (drop_bit (8 * i) u)) [0..<16]"

definition UInt160Set :: "UInt160 \<Rightarrow> u8 list" where
  "UInt160Set u = map (\<lambda>i. ucast (drop_bit (8 * i) u)) [0..<20]"

definition UInt256Set :: "UInt256 \<Rightarrow> u8 list" where
  "UInt256Set u = map (\<lambda>i. ucast (drop_bit (8 * i) u)) [0..<32]"

definition UInt128Get :: "u8 list \<Rightarrow> UInt128" where
  "UInt128Get b = le_word (take 16 b)"

definition UInt160Get :: "u8 list \<Rightarrow> UInt160" where
  "UInt160Get b = le_word (take 20 b)"

definition UInt256Get :: "u8 list \<Rightarrow> UInt256" where
  "UInt256Get b = le_word (take 32 b)"

text \<open>The 8, 32 and 64 bit views of the \<open>UInt256\<close> union.\<close>

definition u8_of :: "UInt256 \<Rightarrow> nat \<Rightarrow> u8" where
  "u8_of u i = ucast (drop_bit (8 * i) u)"

definition u32_of :: "UInt256 \<Rightarrow> nat \<Rightarrow> u32" where
  "u32_of u i = ucast (drop_bit (32 * i) u)"

definition u64_of :: "UInt256 \<Rightarrow> nat \<Rightarrow> u64" where
  "u64_of u i = ucast (drop_bit (64 * i) u)"

definition UInt256Eq :: "UInt256 \<Rightarrow> UInt256 \<Rightarrow> bool" where
  "UInt256Eq a b \<longleftrightarrow> u64_of a 0 = u64_of b 0 \<and> u64_of a 1 = u64_of b 1 \<and>
     u64_of a 2 = u64_of b 2 \<and> u64_of a 3 = u64_of b 3"

definition UInt256IsZero :: "UInt256 \<Rightarrow> bool" where
  "UInt256IsZero u \<longleftrightarrow> (u64_of u 0 OR u64_of u 1 OR u64_of u 2 OR u64_of u 3) = 0"

definition UInt256Reverse :: "UInt256 \<Rightarrow> UInt256" where
  "UInt256Reverse u = UInt256Get (map (\<lambda>i. u8_of u (31 - i)) [0..<32])"

definition UINT256_ZERO :: UInt256 where
  "UINT256_ZERO = 0"

section \<open>Hex encoding and decoding\<close>

text \<open>Characters are their ASCII codes: \<open>'0' = 48\<close>, \<open>'a' = 97\<close>, \<open>'A' = 65\<close>.\<close>

definition hexc :: "u8 \<Rightarrow> u8" where
  "hexc u = (u AND 0x0f) + (if (u AND 0x0f) \<le> 9 then 48 else 97 - 0x0a)"

definition hexu :: "u8 \<Rightarrow> u8" where
  "hexu c = (if c \<ge> 48 \<and> c \<le> 57 then c - 48
     else if c \<ge> 97 \<and> c \<le> 102 then c - (97 - 0x0a)
     else if c \<ge> 65 \<and> c \<le> 70 then c - (65 - 0x0a) else 0)"

definition u256_hex_encode :: "UInt256 \<Rightarrow> u8 list" where
  "u256_hex_encode u =
     concat (map (\<lambda>i. [hexc (drop_bit 4 (u8_of u i)), hexc (u8_of u i)]) [0..<32]) @ [0]"

definition u256_hex_decode :: "u8 list \<Rightarrow> UInt256" where
  "u256_hex_decode s =
     UInt256Get (map (\<lambda>i. push_bit 4 (hexu (s ! (2 * i))) OR hexu (s ! (2 * i + 1))) [0..<32])"

section \<open>Lemmas\<close>

lemma mask_ff: "(ucast (w AND 0xff) :: u8) = ucast (w :: 'a::len word)"
proof -
  have "(0xff :: 'a word) = mask 8" by (simp add: mask_eq_exp_minus_1)
  show ?thesis
    unfolding \<open>0xff = mask 8\<close> by (auto intro!: bit_word_eqI simp: bit_simps bit_imp_le_length)
qed

lemma UInt16SetLE_le: "UInt16SetLE u = le_bytes 2 u"
  by (simp add: UInt16SetLE_def le_bytes_def mask_ff upt_rec)

lemma UInt32SetLE_le: "UInt32SetLE u = le_bytes 4 u"
  by (simp add: UInt32SetLE_def le_bytes_def mask_ff upt_rec)

lemma UInt64SetLE_le: "UInt64SetLE u = le_bytes 8 u"
  by (simp add: UInt64SetLE_def le_bytes_def mask_ff upt_rec)

lemma UInt16SetBE_rev: "UInt16SetBE u = rev (UInt16SetLE u)"
  by (simp add: UInt16SetBE_def UInt16SetLE_def)

lemma UInt32SetBE_rev: "UInt32SetBE u = rev (UInt32SetLE u)"
  by (simp add: UInt32SetBE_def UInt32SetLE_def)

lemma UInt64SetBE_rev: "UInt64SetBE u = rev (UInt64SetLE u)"
  by (simp add: UInt64SetBE_def UInt64SetLE_def)

lemma UInt256Set_le: "UInt256Set u = le_bytes 32 u"
  by (simp add: UInt256Set_def le_bytes_def)

lemma UInt128Set_le: "UInt128Set u = le_bytes 16 u"
  by (simp add: UInt128Set_def le_bytes_def)

lemma UInt160Set_le: "UInt160Set u = le_bytes 20 u"
  by (simp add: UInt160Set_def le_bytes_def)

lemma length_UIntSet [len_simps, simp]:
  "length (UInt16SetLE a) = 2" "length (UInt32SetLE b) = 4" "length (UInt64SetLE c) = 8"
  "length (UInt16SetBE a) = 2" "length (UInt32SetBE b) = 4" "length (UInt64SetBE c) = 8"
  "length (UInt128Set d) = 16" "length (UInt160Set e) = 20" "length (UInt256Set u) = 32"
  by (simp_all add: UInt16SetLE_def UInt32SetLE_def UInt64SetLE_def UInt16SetBE_def
      UInt32SetBE_def UInt64SetBE_def UInt128Set_def UInt160Set_def UInt256Set_def)

lemma list_n_cases:
  "2 \<le> length b \<Longrightarrow> \<exists>x0 x1 r. b = x0 # x1 # r"
  "4 \<le> length b \<Longrightarrow> \<exists>x0 x1 x2 x3 r. b = x0 # x1 # x2 # x3 # r"
  by (auto simp: Suc_le_length_iff numeral_eq_Suc)

lemma list_8_cases:
  "8 \<le> length b \<Longrightarrow> \<exists>x0 x1 x2 x3 x4 x5 x6 x7 r. b = x0 # x1 # x2 # x3 # x4 # x5 # x6 # x7 # r"
  by (auto simp: Suc_le_length_iff numeral_eq_Suc)

lemma UInt16GetLE_le: "2 \<le> length b \<Longrightarrow> UInt16GetLE b = le_word (take 2 b)"
  by (auto dest!: list_n_cases simp: UInt16GetLE_def or.commute)

lemma UInt32GetLE_le: "4 \<le> length b \<Longrightarrow> UInt32GetLE b = le_word (take 4 b)"
  by (auto dest!: list_n_cases simp: UInt32GetLE_def push_bit_or or.commute or.left_commute
      or.assoc)

lemma UInt64GetLE_le: "8 \<le> length b \<Longrightarrow> UInt64GetLE b = le_word (take 8 b)"
  by (auto dest!: list_8_cases simp: UInt64GetLE_def push_bit_or or.commute or.left_commute
      or.assoc)

lemma UIntGetLE_append [cint_simps]:
  "UInt16GetLE (UInt16SetLE a @ r) = a"
  "UInt32GetLE (UInt32SetLE b @ r) = b"
  "UInt64GetLE (UInt64SetLE c @ r) = c"
  by (simp_all add: UInt16GetLE_le UInt32GetLE_le UInt64GetLE_le UInt16SetLE_le UInt32SetLE_le
      UInt64SetLE_le le_word_le_bytes)

lemma UInt256Get_append [cint_simps]: "UInt256Get (UInt256Set u @ r) = u"
  by (simp add: UInt256Get_def UInt256Set_le le_word_le_bytes)

lemma UInt128Get_append [cint_simps]: "UInt128Get (UInt128Set u @ r) = u"
  by (simp add: UInt128Get_def UInt128Set_le le_word_le_bytes)

lemma UInt160Get_append [cint_simps]: "UInt160Get (UInt160Set u @ r) = u"
  by (simp add: UInt160Get_def UInt160Set_le le_word_le_bytes)

lemma UIntSetLE_Get:
  "length b = 2 \<Longrightarrow> UInt16SetLE (UInt16GetLE b) = b"
  "length b = 4 \<Longrightarrow> UInt32SetLE (UInt32GetLE b) = b"
  "length b = 8 \<Longrightarrow> UInt64SetLE (UInt64GetLE b) = b"
  "length b = 32 \<Longrightarrow> UInt256Set (UInt256Get b) = b"
  using le_bytes_le_word [of b, where 'a = 16] le_bytes_le_word [of b, where 'a = 32]
    le_bytes_le_word [of b, where 'a = 64] le_bytes_le_word [of b, where 'a = 256]
  by (simp_all add: UInt16SetLE_le UInt32SetLE_le UInt64SetLE_le UInt16GetLE_le UInt32GetLE_le
      UInt64GetLE_le UInt256Set_le UInt256Get_def)

lemma UIntGetBE_rev:
  "length b = 2 \<Longrightarrow> UInt16GetBE b = UInt16GetLE (rev b)"
  "length b = 4 \<Longrightarrow> UInt32GetBE b = UInt32GetLE (rev b)"
  "length b = 8 \<Longrightarrow> UInt64GetBE b = UInt64GetLE (rev b)"
  by (auto simp: UInt16GetBE_def UInt16GetLE_def UInt32GetBE_def UInt32GetLE_def UInt64GetBE_def
      UInt64GetLE_def numeral_eq_Suc length_Suc_conv)

lemma UInt256Set_inj: "UInt256Set a = UInt256Set b \<Longrightarrow> a = b"
  by (metis UInt256Get_append append_Nil2)

lemma nth_UInt256Set: "i < 32 \<Longrightarrow> UInt256Set u ! i = u8_of u i"
  by (simp add: UInt256Set_def u8_of_def)

lemma u8_of_Get: "i < 32 \<Longrightarrow> length b = 32 \<Longrightarrow> u8_of (UInt256Get b) i = b ! i"
  by (metis UIntSetLE_Get(4) nth_UInt256Set)

lemma UInt256_eqI: "(\<And>i. i < 32 \<Longrightarrow> u8_of a i = u8_of b i) \<Longrightarrow> a = b"
  by (rule UInt256Set_inj) (simp add: list_eq_iff_nth_eq nth_UInt256Set)

lemma u64_of_eq_bits: "u64_of a i = u64_of b i \<longleftrightarrow> (\<forall>k<64. bit a (64 * i + k) = bit b (64 * i + k))"
  by (auto simp: u64_of_def bit_eq_iff bit_simps)

lemma UInt256Eq_iff [simp]: "UInt256Eq a b \<longleftrightarrow> a = b"
proof
  assume "UInt256Eq a b"
  then have *: "\<forall>j<64. bit a (64 * i + j) = bit b (64 * i + j)" if "i \<in> {0, 1, 2, 3}" for i
    using that unfolding UInt256Eq_def u64_of_eq_bits by auto
  show "a = b"
  proof (rule bit_word_eqI)
    fix k assume "k < LENGTH(256)"
    then have "k div 64 < 4" by simp
    then have "k div 64 \<in> {0, 1, 2, 3}" by auto
    from * [OF this] have "k mod 64 < 64 \<longrightarrow>
        bit a (64 * (k div 64) + k mod 64) = bit b (64 * (k div 64) + k mod 64)" by blast
    then show "bit a k = bit b k" by simp
  qed
qed (simp add: UInt256Eq_def)

lemma or_word_eq_0: "(x OR y = 0) \<longleftrightarrow> x = 0 \<and> y = (0 :: 'a::len word)"
  by (metis or.left_idem or_eq_0_iff)

lemma UInt256IsZero_iff [simp]: "UInt256IsZero u \<longleftrightarrow> u = 0"
proof -
  have "u64_of 0 i = 0" for i by (simp add: u64_of_def)
  then have "UInt256IsZero u \<longleftrightarrow> UInt256Eq u 0"
    by (auto simp: UInt256IsZero_def UInt256Eq_def or_word_eq_0 simp del: UInt256Eq_iff)
  then show ?thesis by simp
qed

lemma hexu_hexc: "hexu (hexc x) = x AND 0x0f"
proof -
  define y where "y = x AND 0x0f"
  have "y \<le> 15" by (simp add: y_def word_and_le1)
  then have "unat y < 16" by (simp add: word_le_nat_alt)
  moreover have "y = of_nat (unat y)" by simp
  moreover have "\<forall>n \<in> set [0..<16]. hexu (of_nat n + (if of_nat n \<le> (9 :: u8) then 48 else 97 - 0x0a)) =
      of_nat n"
    by (simp add: upt_rec hexu_def)
  ultimately have "hexu (y + (if y \<le> 9 then 48 else 97 - 0x0a)) = y"
    by (metis atLeastLessThan_iff set_upt zero_le)
  then show ?thesis by (simp add: hexc_def y_def)
qed

lemma nibbles: "push_bit 4 (drop_bit 4 x AND 0x0f) OR (x AND 0x0f) = (x :: u8)"
proof -
  have "(0x0f :: u8) = mask 4" by (simp add: mask_eq_exp_minus_1)
  show ?thesis
    unfolding \<open>0x0f = mask 4\<close> by (rule bit_word_eqI) (auto simp: bit_simps)
qed

lemma length_concat_pairs: "length (concat (map (\<lambda>i. [f i, g i]) xs)) = 2 * length xs"
  by (induction xs) auto

lemma nth_concat_pairs:
  "i < n \<Longrightarrow> (concat (map (\<lambda>i. [f i, g i]) [0..<n]) @ r) ! (2 * i) = f i"
  "i < n \<Longrightarrow> (concat (map (\<lambda>i. [f i, g i]) [0..<n]) @ r) ! (Suc (2 * i)) = g i"
proof (induction n arbitrary: r)
  case (Suc n)
  case 1
  show ?case
    using 1 Suc.IH(1) [of "[f n, g n] @ r"]
    by (cases "i < n") (auto simp: nth_append length_concat_pairs less_Suc_eq)
  case 2
  show ?case
    using 2 Suc.IH(2) [of "[f n, g n] @ r"]
    by (cases "i < n") (auto simp: nth_append length_concat_pairs less_Suc_eq)
qed auto

section \<open>Properties\<close>

text \<open>Each unaligned getter of the library reads back exactly the value its setter stored, in both
  byte orders and whatever bytes follow it in the buffer.\<close>

theorem unaligned_roundtrip:
  "UInt16GetLE (UInt16SetLE a @ r) = a \<and> UInt16GetBE (UInt16SetBE a @ r) = a \<and>
   UInt32GetLE (UInt32SetLE b @ r) = b \<and> UInt32GetBE (UInt32SetBE b @ r) = b \<and>
   UInt64GetLE (UInt64SetLE c @ r) = c \<and> UInt64GetBE (UInt64SetBE c @ r) = c \<and>
   UInt256Get (UInt256Set u @ r) = u"
proof -
  have be: "UInt16GetBE (xs @ r) = UInt16GetBE xs" if "length xs = 2" for xs
    using that by (simp add: UInt16GetBE_def nth_append)
  have be4: "UInt32GetBE (xs @ r) = UInt32GetBE xs" if "length xs = 4" for xs
    using that by (simp add: UInt32GetBE_def nth_append)
  have be8: "UInt64GetBE (xs @ r) = UInt64GetBE xs" if "length xs = 8" for xs
    using that by (simp add: UInt64GetBE_def nth_append)
  show ?thesis
    using UIntGetLE_append [of _ "[]"]
    by (simp add: cint_simps be be4 be8 UIntGetBE_rev UInt16SetBE_rev UInt32SetBE_rev
        UInt64SetBE_rev)
qed

text \<open>Decoding the 64 hex digits that the encoder produced for a 256-bit integer gives the integer
  back.\<close>

theorem hex_roundtrip: "u256_hex_decode (u256_hex_encode u) = u"
proof (rule UInt256_eqI)
  fix i :: nat assume i: "i < 32"
  have "u8_of (u256_hex_decode (u256_hex_encode u)) i =
      push_bit 4 (hexu (hexc (drop_bit 4 (u8_of u i)))) OR hexu (hexc (u8_of u i))"
    using i by (simp add: u256_hex_decode_def u256_hex_encode_def u8_of_Get nth_concat_pairs)
  then show "u8_of (u256_hex_decode (u256_hex_encode u)) i = u8_of u i"
    by (simp only: hexu_hexc nibbles)
qed

text \<open>Reversing the byte order twice is the identity.\<close>

lemma UInt256Reverse_Reverse: "UInt256Reverse (UInt256Reverse u) = u"
  by (rule UInt256_eqI) (simp add: UInt256Reverse_def u8_of_Get)

end
