(* ===== verification/Script.thy ===== *)
theory Script
  imports CInt
begin

text \<open>
  The first half of \<^verbatim>\<open>Libraries/loafwallet-core/BRAddress.c\<close>: variable length integers and the elements
  of bitcoin scripts. A \<open>NULL\<close> read buffer behaves as the empty one. Pointers into a script are offsets.
  The lemmas give the codec laws of the varint, the contract of the two serializers, and that the
  elements \<open>BRScriptElements\<close> accepts tile the script, so that reading their data stays inside it.
\<close>

section \<open>Variable length integers\<close>

definition VAR_INT16_HEADER :: u8 where "VAR_INT16_HEADER = 0xfd"
definition VAR_INT32_HEADER :: u8 where "VAR_INT32_HEADER = 0xfe"
definition VAR_INT64_HEADER :: u8 where "VAR_INT64_HEADER = 0xff"

text \<open>The value and the length stored in \<open>intLen\<close>.\<close>

definition BRVarInt :: "u8 list \<Rightarrow> u64 \<times> size_t" where
  "BRVarInt buf =
     (let h = (if 1 \<le> length buf then buf ! 0 else 0) in
      if h = VAR_INT16_HEADER
      then (if 1 + 2 \<le> length buf then ucast (UInt16GetLE (drop 1 buf)) else 0, 1 + 2)
      else if h = VAR_INT32_HEADER
      then (if 1 + 4 \<le> length buf then ucast (UInt32GetLE (drop 1 buf)) else 0, 1 + 4)
      else if h = VAR_INT64_HEADER
      then (if 1 + 8 \<le> length buf then UInt64GetLE (drop 1 buf) else 0, 1 + 8)
      else (ucast h, 1))"

definition BRVarIntSet :: "u64 \<Rightarrow> wbuf \<Rightarrow> size_t \<times> wbuf" where
  "BRVarIntSet i buf =
     (let fits = (\<lambda>n. case buf of None \<Rightarrow> True | Some d \<Rightarrow> n \<le> length d);
          wr = (\<lambda>bs. (if fits (length bs) then length bs else 0, put buf 0 bs)) in
      if i < ucast VAR_INT16_HEADER then wr [ucast i]
      else if i \<le> 0xffff then wr (VAR_INT16_HEADER # UInt16SetLE (ucast i))
      else if i \<le> 0xffffffff then wr (VAR_INT32_HEADER # UInt32SetLE (ucast i))
      else wr (VAR_INT64_HEADER # UInt64SetLE i))"

definition BRVarIntSize :: "u64 \<Rightarrow> size_t" where
  "BRVarIntSize i = fst (BRVarIntSet i None)"

text \<open>The bytes of the encoding, as a value.\<close>

definition varint_bytes :: "u64 \<Rightarrow> u8 list" where
  "varint_bytes i =
     (if i < 0xfd then [ucast i]
      else if i \<le> 0xffff then 0xfd # UInt16SetLE (ucast i)
      else if i \<le> 0xffffffff then 0xfe # UInt32SetLE (ucast i)
      else 0xff # UInt64SetLE i)"

lemma VarIntSet_bytes:
  "BRVarIntSet i buf =
     (if (case buf of None \<Rightarrow> True | Some d \<Rightarrow> length (varint_bytes i) \<le> length d)
      then length (varint_bytes i) else 0, put buf 0 (varint_bytes i))"
proof -
  have h: "ucast VAR_INT16_HEADER = (0xfd :: u64)" by (simp add: VAR_INT16_HEADER_def)
  consider "i < 0xfd" | "\<not> i < 0xfd" "i \<le> 0xffff" | "\<not> i < 0xfd" "\<not> i \<le> 0xffff" "i \<le> 0xffffffff"
    | "\<not> i < 0xfd" "\<not> i \<le> 0xffff" "\<not> i \<le> 0xffffffff" by blast
  then show ?thesis
    by cases (simp_all add: BRVarIntSet_def varint_bytes_def h VAR_INT16_HEADER_def [symmetric]
        VAR_INT32_HEADER_def [symmetric] VAR_INT64_HEADER_def [symmetric] Let_def split: option.split)
qed

interpretation varint: strict_serializer BRVarIntSet varint_bytes "\<lambda>_. True"
  by unfold_locales (auto simp: writes_def VarIntSet_bytes put_def memcpy_at_def)

lemmas VarIntSet_writes = varint.ser_writes [OF TrueI]

lemma varint_nonempty [simp]: "varint_bytes i \<noteq> []"
  by (simp add: varint_bytes_def)

lemma BRVarIntSize_length: "BRVarIntSize i = length (varint_bytes i)"
  by (simp add: BRVarIntSize_def VarIntSet_bytes)

lemma BRVarIntSize_bound: "1 \<le> BRVarIntSize i" "BRVarIntSize i \<le> 9"
  by (simp_all add: BRVarIntSize_length varint_bytes_def)

lemma BRVarInt_append [cint_simps]:
  "BRVarInt (varint_bytes i @ r) = (i, length (varint_bytes i))"
proof -
  have cmp: "i < 0xfd \<longleftrightarrow> unat i < 0xfd" "i \<le> 0xffff \<longleftrightarrow> unat i \<le> 0xffff"
    "i \<le> 0xffffffff \<longleftrightarrow> unat i \<le> 0xffffffff"
    by (simp_all add: word_less_nat_alt word_le_nat_alt)
  consider (a) "i < 0xfd" | (b) "\<not> i < 0xfd" "i \<le> 0xffff" | (c) "\<not> i \<le> 0xffff" "i \<le> 0xffffffff"
    | (d) "\<not> i \<le> 0xffffffff" by blast
  then show ?thesis
  proof cases
    case a
    then have n: "unat i < 0xfd" by (simp only: cmp)
    then have u: "unat (ucast i :: u8) = unat i" by (simp add: unat_ucast_small)
    have v: "ucast (ucast i :: u8) = i" using n by (simp add: ucast_ucast_small)
    have "(ucast i :: u8) \<noteq> h" if "0xfd \<le> unat h" for h
      using that n u by auto
    then show ?thesis using a v
      by (simp add: BRVarInt_def varint_bytes_def VAR_INT16_HEADER_def VAR_INT32_HEADER_def VAR_INT64_HEADER_def)
  next
    case b
    then have "unat i \<le> 0xffff" by (simp only: cmp)
    then have v: "ucast (ucast i :: u16) = i" by (simp add: ucast_ucast_small)
    show ?thesis using b v
      by (simp add: BRVarInt_def varint_bytes_def VAR_INT16_HEADER_def cint_simps)
  next
    case c
    then have "unat i \<le> 0xffffffff" by (simp only: cmp)
    then have v: "ucast (ucast i :: u32) = i" by (simp add: ucast_ucast_small)
    have "\<not> i < 0xfd" using c(1) unfolding cmp by linarith
    then show ?thesis using c v
      by (simp add: BRVarInt_def varint_bytes_def VAR_INT16_HEADER_def VAR_INT32_HEADER_def cint_simps)
  next
    case d
    then have "\<not> i < 0xfd" "\<not> i \<le> 0xffff" unfolding cmp by linarith+
    then show ?thesis using d
      by (simp add: BRVarInt_def varint_bytes_def VAR_INT16_HEADER_def VAR_INT32_HEADER_def
          VAR_INT64_HEADER_def cint_simps)
  qed
qed

section \<open>Script elements\<close>

definition OP_0 :: u8 where "OP_0 = 0x00"
definition OP_PUSHDATA1 :: u8 where "OP_PUSHDATA1 = 0x4c"
definition OP_PUSHDATA2 :: u8 where "OP_PUSHDATA2 = 0x4d"
definition OP_PUSHDATA4 :: u8 where "OP_PUSHDATA4 = 0x4e"
definition OP_DUP :: u8 where "OP_DUP = 0x76"
definition OP_EQUAL :: u8 where "OP_EQUAL = 0x87"
definition OP_EQUALVERIFY :: u8 where "OP_EQUALVERIFY = 0x88"
definition OP_HASH160 :: u8 where "OP_HASH160 = 0xa9"
definition OP_CHECKSIG :: u8 where "OP_CHECKSIG = 0xac"

lemmas op_defs = OP_0_def OP_PUSHDATA1_def OP_PUSHDATA2_def OP_PUSHDATA4_def OP_DUP_def OP_EQUAL_def
  OP_EQUALVERIFY_def OP_HASH160_def OP_CHECKSIG_def

text \<open>One round of the loop of \<open>BRScriptElements\<close>: the new \<open>off\<close> (before \<open>off += len\<close>) and \<open>len\<close>. A
  length that is cut off by the end of the script leaves \<open>len\<close> as the previous round left it.\<close>

definition elem_header :: "u8 list \<Rightarrow> nat \<Rightarrow> nat \<Rightarrow> nat \<times> nat" where
  "elem_header script off len =
     (let n = length script; b = script ! off in
      if b = OP_PUSHDATA1
      then (off + 1 + 1, if off + 1 + 1 \<le> n then unat (script ! (off + 1)) else len)
      else if b = OP_PUSHDATA2
      then (off + 1 + 2, if off + 1 + 2 \<le> n then unat (UInt16GetLE (drop (off + 1) script)) else len)
      else if b = OP_PUSHDATA4
      then (off + 1 + 4, if off + 1 + 4 \<le> n then unat (UInt32GetLE (drop (off + 1) script)) else len)
      else (off + 1, if b > OP_PUSHDATA4 then 0 else unat b))"

lemma elem_header_grows: "off < fst (elem_header script off len)"
  by (simp add: elem_header_def Let_def)

lemma elem_header_decr:
  "off < n \<Longrightarrow> n - (fst (elem_header script off len) + snd (elem_header script off len)) < n - off"
  using elem_header_grows [of off script len] by linarith

text \<open>The loop: the offsets of the elements, and the final \<open>off\<close>.\<close>

function elems_loop :: "u8 list \<Rightarrow> nat \<Rightarrow> nat \<Rightarrow> nat list \<times> nat" where
  "elems_loop script off len =
     (if off < length script
      then (let h = elem_header script off len;
                r = elems_loop script (fst h + snd h) (snd h)
            in (off # fst r, snd r))
      else ([], off))"
  by auto
termination
  by (relation "measure (\<lambda>(script, off, len). length script - off)")
    (simp_all add: elem_header_decr del: fst_conv snd_conv)

declare elems_loop.simps [simp del]

lemma elems_loop_step:
  assumes "off < length script" "elem_header script off len = (a, l)"
  shows "elems_loop script off len =
    (off # fst (elems_loop script (a + l) l), snd (elems_loop script (a + l) l))"
  using assms by (subst elems_loop.simps) (simp add: Let_def)

text \<open>\<open>elems\<close> is \<open>None\<close> for a \<open>NULL\<close> array and else its capacity; the result is the return value and the
  element pointers written to the array.\<close>

definition BRScriptElements :: "size_t option \<Rightarrow> u8 list \<Rightarrow> size_t \<times> nat list" where
  "BRScriptElements elems script =
     (let (ps, off) = elems_loop script 0 0 in
      (if (case elems of None \<Rightarrow> True | Some c \<Rightarrow> length ps \<le> c) \<and> off = length script then length ps else 0,
       case elems of None \<Rightarrow> [] | Some c \<Rightarrow> take c ps))"

text \<open>\<open>BRScriptData\<close> reads from the pointer \<open>elem\<close> without a bound: \<open>None\<close> is a read behind the end. The
  result is \<open>dataLen\<close> and the returned pointer as an offset from \<open>elem\<close>.\<close>

definition BRScriptData :: "u8 list \<Rightarrow> (size_t \<times> nat option) option" where
  "BRScriptData elem =
     (let res = (\<lambda>len off. Some (len, if len > 0 then Some off else None)) in
      if elem = [] then None
      else if elem ! 0 = OP_PUSHDATA1
      then (if 2 \<le> length elem then res (unat (elem ! 1)) (1 + 1) else None)
      else if elem ! 0 = OP_PUSHDATA2
      then (if 3 \<le> length elem then res (unat (UInt16GetLE (drop 1 elem))) (1 + 2) else None)
      else if elem ! 0 = OP_PUSHDATA4
      then (if 5 \<le> length elem then res (unat (UInt32GetLE (drop 1 elem))) (1 + 4) else None)
      else res (if elem ! 0 > OP_PUSHDATA4 then 0 else unat (elem ! 0)) 1)"

definition push_header :: "size_t \<Rightarrow> u8 list" where
  "push_header n =
     (if n < unat OP_PUSHDATA1 then [word_of_nat n]
      else if n < 0xff then [OP_PUSHDATA1, word_of_nat n]
      else if n < 0xffff then OP_PUSHDATA2 # UInt16SetLE (word_of_nat n)
      else OP_PUSHDATA4 # UInt32SetLE (word_of_nat n))"

definition BRScriptPushData :: "u8 list option \<Rightarrow> size_t \<Rightarrow> wbuf \<Rightarrow> size_t \<times> wbuf" where
  "BRScriptPushData data dataLen script =
     (if data = None \<and> dataLen \<noteq> 0 then (0, script)
      else let bs = push_header dataLen @ take dataLen (case data of None \<Rightarrow> [] | Some d \<Rightarrow> d);
               len = length (push_header dataLen) + dataLen in
        case script of
          None \<Rightarrow> (len, None)
        | Some d \<Rightarrow> if len \<le> length d then (len, put script 0 bs) else (0, script))"

definition push_bytes :: "u8 list \<Rightarrow> u8 list" where
  "push_bytes d = push_header (length d) @ d"

interpretation push: strict_serializer "\<lambda>d. BRScriptPushData (Some d) (length d)" push_bytes "\<lambda>_. True"
  by unfold_locales (auto simp: writes_def BRScriptPushData_def push_bytes_def put_def memcpy_at_def)

section \<open>The accepted elements tile the script\<close>

definition header_len :: "u8 \<Rightarrow> nat" where
  "header_len b = (if b = OP_PUSHDATA1 then 2 else if b = OP_PUSHDATA2 then 3 else if b = OP_PUSHDATA4 then 5 else 1)"

definition elem_fits :: "u8 list \<Rightarrow> nat \<Rightarrow> nat \<Rightarrow> bool" where
  "elem_fits script p q \<longleftrightarrow> p < q \<and> q \<le> length script \<and>
     (\<exists>len. BRScriptData (drop p script) = Some (len, if len > 0 then Some (header_len (script ! p)) else None) \<and>
        p + header_len (script ! p) + len = q)"

fun tiles :: "u8 list \<Rightarrow> nat list \<Rightarrow> bool" where
  "tiles script [] = True"
| "tiles script [p] = elem_fits script p (length script)"
| "tiles script (p # q # ps) = (elem_fits script p q \<and> tiles script (q # ps))"

lemma elems_loop_end: "snd (elems_loop script off len) = length script \<Longrightarrow> off \<le> length script"
proof (induction script off len rule: elems_loop.induct)
  case (1 script off len)
  then show ?case
    by (subst (asm) elems_loop.simps) (auto simp: Let_def split: if_splits)
qed

lemma header_data:
  assumes "off < length script" and "fst (elem_header script off len) + snd (elem_header script off len) \<le> length script"
  shows "elem_fits script off (fst (elem_header script off len) + snd (elem_header script off len))"
proof -
  let ?h = "elem_header script off len"
  have ne: "drop off script \<noteq> []" "drop off script ! 0 = script ! off" "length (drop off script) = length script - off"
    using assms(1) by simp_all
  have nx: "drop off script ! 1 = script ! Suc off" if "Suc off < length script" using that by simp
  have hl: "fst ?h = off + header_len (script ! off)"
    by (simp add: elem_header_def header_len_def Let_def)
  have "BRScriptData (drop off script) = Some (snd ?h, if snd ?h > 0 then Some (header_len (script ! off)) else None)"
  proof -
    consider (a) "script ! off = OP_PUSHDATA1" | (b) "script ! off = OP_PUSHDATA2"
      | (c) "script ! off = OP_PUSHDATA4"
      | (d) "script ! off \<noteq> OP_PUSHDATA1" "script ! off \<noteq> OP_PUSHDATA2" "script ! off \<noteq> OP_PUSHDATA4" by blast
    then show ?thesis
    proof cases
      case a
      with assms have "Suc (Suc off) \<le> length script" by (simp add: elem_header_def Let_def)
      then have "2 \<le> length script - off" "Suc (Suc off) \<le> length script" by linarith+
      with a ne(1,2,3) nx show ?thesis by (simp add: BRScriptData_def elem_header_def header_len_def Let_def)
    next
      case b
      with assms have "off + 3 \<le> length script" by (simp add: elem_header_def Let_def op_defs)
      then have "3 \<le> length script - off" "off + 3 \<le> length script" by linarith+
      with b ne(1,2,3) show ?thesis
        by (simp add: BRScriptData_def elem_header_def header_len_def Let_def op_defs add.commute)
    next
      case c
      with assms have "off + 5 \<le> length script" by (simp add: elem_header_def Let_def op_defs)
      then have "5 \<le> length script - off" "off + 5 \<le> length script" by linarith+
      with c ne(1,2,3) show ?thesis
        by (simp add: BRScriptData_def elem_header_def header_len_def Let_def op_defs add.commute)
    next
      case d
      then show ?thesis using ne(1,2) by (simp add: BRScriptData_def elem_header_def header_len_def Let_def)
    qed
  qed
  then show ?thesis
    using assms elem_header_grows [of off script len] hl unfolding elem_fits_def
    by (intro conjI exI [of _ "snd ?h"]) auto
qed

lemma elems_loop_tiles:
  "snd (elems_loop script off len) = length script \<Longrightarrow>
   tiles script (fst (elems_loop script off len)) \<and>
   (fst (elems_loop script off len) = [] \<longleftrightarrow> off = length script) \<and>
   (fst (elems_loop script off len) \<noteq> [] \<longrightarrow> hd (fst (elems_loop script off len)) = off)"
proof (induction script off len rule: elems_loop.induct)
  case (1 script off len)
  let ?h = "elem_header script off len"
  let ?o = "fst ?h + snd ?h"
  show ?case
  proof (cases "off < length script")
    case False
    then have "elems_loop script off len = ([], off)" by (subst elems_loop.simps) simp
    then show ?thesis using 1(2) by simp
  next
    case True
    let ?r = "elems_loop script ?o (snd ?h)"
    have eq: "elems_loop script off len = (off # fst ?r, snd ?r)"
      using True by (subst elems_loop.simps) (simp add: Let_def)
    have "snd ?r = length script" using 1(2) eq by simp
    note ih = 1(1) [OF True refl this] and le = elems_loop_end [OF this]
    have fit: "elem_fits script off ?o" using header_data [OF True le] .
    have "tiles script (off # fst ?r)"
      using ih fit by (cases "fst ?r") auto
    then show ?thesis using True unfolding eq by auto
  qed
qed

section \<open>What was pushed is read back\<close>

lemma push_small: "n < 0x4c \<Longrightarrow> unat (word_of_nat n :: u8) = n"
  by (simp add: unat_of_nat take_bit_nat_eq_self)

lemma header_push:
  assumes "length d < 2 ^ 32"
  shows "elem_header (pre @ push_bytes d @ rest) (length pre) len =
    (length pre + length (push_header (length d)), length d)"
proof -
  let ?n = "length d"
  consider (a) "?n < 0x4c" | (b) "\<not> ?n < 0x4c" "?n < 0xff" | (c) "\<not> ?n < 0xff" "?n < 0xffff"
    | (d) "\<not> ?n < 0xffff" by linarith
  then show ?thesis
  proof cases
    case a
    have u: "unat (word_of_nat ?n :: u8) = ?n" using a by (rule push_small)
    then have "(word_of_nat ?n :: u8) \<noteq> 0x4c" "(word_of_nat ?n :: u8) \<noteq> 0x4d" "(word_of_nat ?n :: u8) \<noteq> 0x4e"
      "\<not> 0x4e < (word_of_nat ?n :: u8)"
      using a by (auto simp: word_unat_eq_iff word_less_nat_alt)
    then show ?thesis
      using a u by (simp add: elem_header_def push_bytes_def push_header_def op_defs nth_append)
  next
    case b
    then have "unat (word_of_nat ?n :: u8) = ?n" by (simp add: unat_of_nat take_bit_nat_eq_self)
    then show ?thesis
      using b by (simp add: elem_header_def push_bytes_def push_header_def op_defs nth_append)
  next
    case c
    then have "unat (word_of_nat ?n :: u16) = ?n" by (simp add: unat_of_nat take_bit_nat_eq_self)
    then show ?thesis
      using c by (simp add: elem_header_def push_bytes_def push_header_def op_defs nth_append cint_simps)
  next
    case d
    then have "unat (word_of_nat ?n :: u32) = ?n" using assms by (simp add: unat_of_nat take_bit_nat_eq_self)
    then show ?thesis
      using d by (simp add: elem_header_def push_bytes_def push_header_def op_defs nth_append cint_simps)
  qed
qed

lemma push_header_ne [simp]: "push_header n \<noteq> []"
  by (simp add: push_header_def)

lemma length_push_header: "0 < length (push_header n)"
  by simp

definition pushes :: "u8 list list \<Rightarrow> u8 list" where
  "pushes ds = concat (map push_bytes ds)"

lemma pushes_Cons: "pushes (d # ds) = push_bytes d @ pushes ds"
  by (simp add: pushes_def)

fun starts :: "nat \<Rightarrow> u8 list list \<Rightarrow> nat list" where
  "starts off [] = []"
| "starts off (d # ds) = off # starts (off + length (push_bytes d)) ds"

lemma elems_loop_pushes:
  "\<forall>d\<in>set ds. length d < 2 ^ 32 \<Longrightarrow>
   elems_loop (pre @ pushes ds) (length pre) len = (starts (length pre) ds, length (pre @ pushes ds))"
proof (induction ds arbitrary: pre len)
  case Nil
  then show ?case by (subst elems_loop.simps) (simp add: pushes_def)
next
  case (Cons d ds)
  have h: "elem_header (pre @ pushes (d # ds)) (length pre) len =
      (length pre + length (push_header (length d)), length d)"
    using header_push [of d pre "pushes ds" len] Cons.prems by (simp add: pushes_Cons)
  have lp: "0 < length (push_bytes d)" using length_push_header by (simp add: push_bytes_def)
  have "elems_loop (pre @ pushes (d # ds)) (length (pre @ push_bytes d)) (length d) =
      (starts (length (pre @ push_bytes d)) ds, length (pre @ pushes (d # ds)))"
    using Cons.IH [of "pre @ push_bytes d" "length d"] Cons.prems by (simp add: pushes_Cons)
  then show ?case
    using lp by (subst elems_loop_step [OF _ h])
      (simp_all add: pushes_Cons push_bytes_def add.assoc)
qed

lemma drop_starts:
  "i < length ds \<Longrightarrow> \<exists>r. drop (starts (length pre) ds ! i) (pre @ pushes ds) = push_bytes (ds ! i) @ r"
proof (induction ds arbitrary: i pre)
  case (Cons d ds)
  show ?case
  proof (cases i)
    case (Suc j)
    then show ?thesis using Cons.IH [of j "pre @ push_bytes d"] Cons.prems by (simp add: pushes_Cons)
  qed (simp add: pushes_Cons)
qed simp

lemma push_data:
  assumes "length d < 2 ^ 32"
  shows "BRScriptData (push_bytes d @ r) =
    Some (length d, if d = [] then None else Some (length (push_header (length d))))"
proof -
  have h: "elem_header (push_bytes d @ r) 0 0 = (length (push_header (length d)), length d)"
    using header_push [OF assms, of "[]" r 0] by simp
  have l: "0 < length (push_bytes d @ r)" using length_push_header [of "length d"] by (simp add: push_bytes_def)
  have "fst (elem_header (push_bytes d @ r) 0 0) + snd (elem_header (push_bytes d @ r) 0 0) \<le> length (push_bytes d @ r)"
    unfolding h by (simp add: push_bytes_def)
  from header_data [OF l this] obtain n off where
    n: "BRScriptData (push_bytes d @ r) = Some (n, if n > 0 then Some off else None)"
      "off + n = length (push_header (length d)) + length d"
    unfolding elem_fits_def h by auto
  show ?thesis
  proof (cases "d = []")
    case True
    then show ?thesis by (simp add: BRScriptData_def push_bytes_def push_header_def op_defs)
  next
    case False
    have "n = length d"
      using n(1) h by (auto simp: BRScriptData_def elem_header_def Let_def split: if_splits)
    then show ?thesis using n False by simp
  qed
qed

section \<open>Properties\<close>

text \<open>Writing a 64-bit integer as a varint and reading it back, with anything behind it, gives the
  integer and the length written; \<open>BRVarIntSet\<close> reports that length for a \<open>NULL\<close> buffer and 0 exactly for
  a buffer that is too short, which it leaves unchanged; the encoding is never longer than 9 bytes.\<close>

theorem varint_roundtrip:
  "BRVarIntSet i None = (BRVarIntSize i, None) \<and>
   fst (BRVarIntSet i (Some d)) = (if BRVarIntSize i \<le> length d then BRVarIntSize i else 0) \<and>
   (\<exists>d'. snd (BRVarIntSet i (Some d)) = Some d' \<and> length d' = length d \<and>
     (if BRVarIntSize i \<le> length d then BRVarInt d' = (i, BRVarIntSize i) else d' = d)) \<and>
   1 \<le> BRVarIntSize i \<and> BRVarIntSize i \<le> 9"
  using writes_Some [OF VarIntSet_writes [of i], of d] varint.ser_short [of d i]
  by (simp add: BRVarIntSize_length BRVarInt_append writes_None [OF VarIntSet_writes [of i]]
      BRVarIntSize_bound [unfolded BRVarIntSize_length, simplified])

text \<open>C19: the elements that \<open>BRScriptElements\<close> accepts start at the beginning of the script and tile it:
  \<open>BRScriptData\<close> of each element reads inside the script and its data ends exactly where the next
  element (or the end of the script) is. A first call with a \<open>NULL\<close> array gives the capacity the second
  call needs.\<close>

theorem BRScriptElements_tile:
  assumes "fst (BRScriptElements None script) = n" and "0 < n"
  shows "\<exists>ps. BRScriptElements (Some n) script = (n, ps) \<and> length ps = n \<and> hd ps = 0 \<and> tiles script ps"
proof -
  let ?r = "elems_loop script 0 0"
  have n: "snd ?r = length script" "length (fst ?r) = n"
    using assms by (auto simp: BRScriptElements_def split_beta Let_def split: if_splits)
  then show ?thesis
    using elems_loop_tiles [of script 0 0] assms(2)
    by (intro exI [of _ "fst ?r"]) (auto simp: BRScriptElements_def split_beta Let_def)
qed

theorem BRScriptElements_tile_witness:
  "\<exists>ps. BRScriptElements (Some 3) [0xa9, 2, 7, 8, 0x87] = (3, ps) \<and> length ps = 3 \<and> hd ps = 0 \<and>
     tiles [0xa9, 2, 7, 8, 0x87] ps"
proof -
  have "fst (BRScriptElements None [0xa9, 2, 7, 8, 0x87]) = 3" by code_simp
  from BRScriptElements_tile [OF this] show ?thesis by simp
qed

text \<open>A script that \<open>BRScriptPushData\<close> built from data pieces is read back exactly:
  \<open>BRScriptElements\<close> finds one element per piece, and \<open>BRScriptData\<close> of an element returns a pointer to
  its piece (or \<open>NULL\<close> for an empty one); the push of a piece has the length announced for a \<open>NULL\<close>
  buffer.\<close>

theorem BRScriptPushData_roundtrip:
  assumes "\<forall>d\<in>set ds. length d < 2 ^ 32" and "i < length ds"
  shows "\<exists>ps. BRScriptElements (Some (length ds)) (pushes ds) = (length ds, ps) \<and> length ps = length ds \<and>
    (\<exists>off. BRScriptData (drop (ps ! i) (pushes ds)) =
        Some (length (ds ! i), if ds ! i = [] then None else Some off) \<and>
      take (length (ds ! i)) (drop (ps ! i + off) (pushes ds)) = ds ! i) \<and>
    BRScriptPushData (Some (ds ! i)) (length (ds ! i)) None = (length (push_bytes (ds ! i)), None) \<and>
    BRScriptPushData (Some (ds ! i)) (length (ds ! i)) (Some (replicate (length (push_bytes (ds ! i))) 0)) =
      (length (push_bytes (ds ! i)), Some (push_bytes (ds ! i)))"
proof -
  have loop: "elems_loop (pushes ds) 0 0 = (starts 0 ds, length (pushes ds))"
    using elems_loop_pushes [OF assms(1), of "[]"] by simp
  have len: "length (starts off ds) = length ds" for off
    by (induction ds arbitrary: off) auto
  obtain r where r: "drop (starts 0 ds ! i) (pushes ds) = push_bytes (ds ! i) @ r"
    using drop_starts [OF assms(2), of "[]"] by auto
  have "length (ds ! i) < 2 ^ 32" using assms by simp
  note data = push_data [OF this, of r]
  have "take (length (ds ! i)) (drop (starts 0 ds ! i + length (push_header (length (ds ! i)))) (pushes ds)) = ds ! i"
    by (subst add.commute, subst drop_drop [symmetric], unfold r) (simp add: push_bytes_def)
  moreover have "BRScriptElements (Some (length ds)) (pushes ds) = (length ds, starts 0 ds)"
    by (simp add: BRScriptElements_def loop len)
  moreover have "BRScriptPushData (Some (ds ! i)) (length (ds ! i)) None = (length (push_bytes (ds ! i)), None)"
    "BRScriptPushData (Some (ds ! i)) (length (ds ! i)) (Some (replicate (length (push_bytes (ds ! i))) 0)) =
      (length (push_bytes (ds ! i)), Some (push_bytes (ds ! i)))"
    using writes_None [OF push.ser_writes] writes_Some [OF push.ser_writes] by auto
  ultimately show ?thesis
    using data len unfolding r [symmetric] by (intro exI [of _ "starts 0 ds"]) auto
qed

theorem BRScriptPushData_roundtrip_witness:
  "\<exists>ps. BRScriptElements (Some 2) (pushes [[1, 2], [3]]) = (2, ps) \<and>
    (\<exists>off. BRScriptData (drop (ps ! 1) (pushes [[1, 2], [3]])) = Some (1, Some off))"
proof -
  have "\<forall>d\<in>set [[1, 2], [3 :: u8]]. length d < 2 ^ 32" by simp
  moreover have "1 < length [[1, 2], [3 :: u8]]" "length [[1, 2], [3 :: u8]] = 2" "[[1, 2], [3 :: u8]] ! 1 = [3]" by simp_all
  note BRScriptPushData_roundtrip [OF _ this(1), unfolded this(2,3)]
  ultimately show ?thesis by (elim meta_mp [THEN exE]) auto
qed

end
