(* ===== verification/Hash.thy ===== *)
theory Hash
  imports CInt
begin

text \<open>
  The hash functions of \<^verbatim>\<open>Libraries/loafwallet-core/BRCrypto.c\<close>: SHA-1, SHA-2, RIPEMD-160, SHA-3, Keccak,
  MD5 and MurmurHash3. A block buffer \<open>x\<close> is the list of its bytes, which the compression functions read
  as words of the little-endian targets (\<open>le32\<close> is the identity there, \<open>be32\<close> swaps). The hash state is
  the list \<open>buf\<close>. The clean-up of temporaries on the stack has no effect on results and is left out.
  The main lemma shows that the streaming loop with its in-place padding computes the function the
  standards specify: the compression function folded over the blocks of the padded message.
\<close>

section \<open>Words of a block\<close>

definition be32 :: "u32 \<Rightarrow> u32" where
  "be32 x = push_bit 24 (x AND 0xff) OR push_bit 8 (x AND 0xff00) OR drop_bit 8 (x AND 0xff0000) OR
     drop_bit 24 (x AND 0xff000000)"

definition be64 :: "u64 \<Rightarrow> u64" where
  "be64 x = ucast (be32 (ucast (drop_bit 32 x))) OR push_bit 32 (ucast (be32 (ucast x)))"

definition rol32 :: "u32 \<Rightarrow> nat \<Rightarrow> u32" where
  "rol32 a b = push_bit b a OR drop_bit (32 - b) a"

definition ror32 :: "u32 \<Rightarrow> nat \<Rightarrow> u32" where
  "ror32 a b = drop_bit b a OR push_bit (32 - b) a"

definition ror64 :: "u64 \<Rightarrow> nat \<Rightarrow> u64" where
  "ror64 a b = drop_bit b a OR push_bit (64 - b) a"

definition rol64 :: "u64 \<Rightarrow> nat \<Rightarrow> u64" where
  "rol64 a b = push_bit b a XOR drop_bit (64 - b) a"

text \<open>A byte buffer read as an array of words, and an array of words written as bytes.\<close>

definition words32 :: "nat \<Rightarrow> u8 list \<Rightarrow> u32 list" where
  "words32 n x = map (\<lambda>i. UInt32GetLE (drop (4 * i) x)) [0..<n]"

definition words64 :: "nat \<Rightarrow> u8 list \<Rightarrow> u64 list" where
  "words64 n x = map (\<lambda>i. UInt64GetLE (drop (8 * i) x)) [0..<n]"

definition bytes32 :: "u32 list \<Rightarrow> u8 list" where
  "bytes32 ws = concat (map UInt32SetLE ws)"

definition bytes64 :: "u64 list \<Rightarrow> u8 list" where
  "bytes64 ws = concat (map UInt64SetLE ws)"

text \<open>\<open>w[i] = f(w)\<close> for \<open>n\<close> further entries of a schedule.\<close>

primrec extend :: "nat \<Rightarrow> ('a list \<Rightarrow> 'a) \<Rightarrow> 'a list \<Rightarrow> 'a list" where
  "extend 0 f w = w"
| "extend (Suc n) f w = extend n f (w @ [f w])"

section \<open>The block loop of the Merkle-Damgard hashes\<close>

text \<open>\<open>for (i = 0; i < len; i += blk) { memcpy(x, data + i, ...); if (i + blk > len) break; compress(buf, x); }\<close>
  on the rest \<open>data + i\<close> of the message; the rest left at the end is what \<open>x\<close> holds.\<close>

function block_loop :: "nat \<Rightarrow> ('s \<Rightarrow> u8 list \<Rightarrow> 's) \<Rightarrow> 's \<Rightarrow> u8 list \<Rightarrow> 's \<times> u8 list" where
  "block_loop blk compress buf data =
     (if 0 < blk \<and> blk \<le> length data
      then block_loop blk compress (compress buf (take blk data)) (drop blk data)
      else (buf, data))"
  by auto
termination by (relation "measure (\<lambda>(blk, compress, buf, data). length data)") auto

declare block_loop.simps [simp del]

text \<open>The code behind the loop: clear the rest of \<open>x\<close>, append \<open>0x80\<close>, move the length to a block of its
  own if it does not fit, append the length, compress.\<close>

definition md_finish :: "nat \<Rightarrow> ('s \<Rightarrow> u8 list \<Rightarrow> 's) \<Rightarrow> u8 list \<Rightarrow> 's \<times> u8 list \<Rightarrow> 's" where
  "md_finish blk compress lenBytes r =
     (let (buf, rest) = r;
          x = (rest @ replicate (blk - length rest) 0)[length rest := 0x80];
          (buf, x) = (if length rest \<ge> blk - length lenBytes then (compress buf x, replicate blk 0) else (buf, x))
      in compress buf (memcpy_at x (blk - length lenBytes) lenBytes))"

definition len_be :: "size_t \<Rightarrow> u8 list" where
  "len_be len = bytes32 [be32 (word_of_nat (len div 2 ^ 29)), be32 (word_of_nat (len * 8))]"

definition len_le :: "size_t \<Rightarrow> u8 list" where
  "len_le len = bytes32 [word_of_nat (len * 8), word_of_nat (len div 2 ^ 29)]"

definition len_be128 :: "size_t \<Rightarrow> u8 list" where
  "len_be128 len = bytes64 [0, be64 (word_of_nat (len * 8))]"

section \<open>SHA-1\<close>

definition sha1_f1 :: "u32 \<Rightarrow> u32 \<Rightarrow> u32 \<Rightarrow> u32" where
  "sha1_f1 x y z = (x AND y) OR (NOT x AND z)"

definition sha1_f2 :: "u32 \<Rightarrow> u32 \<Rightarrow> u32 \<Rightarrow> u32" where
  "sha1_f2 x y z = x XOR y XOR z"

definition sha1_f3 :: "u32 \<Rightarrow> u32 \<Rightarrow> u32 \<Rightarrow> u32" where
  "sha1_f3 x y z = (x AND y) OR (x AND z) OR (y AND z)"

definition sha1_op :: "(u32 \<Rightarrow> u32 \<Rightarrow> u32 \<Rightarrow> u32) \<Rightarrow> u32 \<Rightarrow> u32 \<times> u32 \<times> u32 \<times> u32 \<times> u32 \<Rightarrow> u32 \<Rightarrow>
    u32 \<times> u32 \<times> u32 \<times> u32 \<times> u32" where
  "sha1_op f y v z =
     (let (a, b, c, d, e) = v; t = rol32 a 5 + f b c d + e + y + z in (t, a, rol32 b 30, c, d))"

definition sha1_next :: "u32 list \<Rightarrow> u32" where
  "sha1_next x = (let i = length x in rol32 (x ! (i - 3) XOR x ! (i - 8) XOR x ! (i - 14) XOR x ! (i - 16)) 1)"

definition BRSHA1Compress :: "u32 list \<Rightarrow> u8 list \<Rightarrow> u32 list" where
  "BRSHA1Compress r block =
     (let x = extend 64 sha1_next (map be32 (words32 16 block));
          v = (r ! 0, r ! 1, r ! 2, r ! 3, r ! 4);
          v = foldl (sha1_op sha1_f1 0x5a827999) v (take 20 x);
          v = foldl (sha1_op sha1_f2 0x6ed9eba1) v (take 20 (drop 20 x));
          v = foldl (sha1_op sha1_f3 0x8f1bbcdc) v (take 20 (drop 40 x));
          (a, b, c, d, e) = foldl (sha1_op sha1_f2 0xca62c1d6) v (drop 60 x)
      in [r ! 0 + a, r ! 1 + b, r ! 2 + c, r ! 3 + d, r ! 4 + e])"

definition sha1_init :: "u32 list" where
  "sha1_init = [0x67452301, 0xefcdab89, 0x98badcfe, 0x10325476, 0xc3d2e1f0]"

definition BRSHA1 :: "u8 list \<Rightarrow> u8 list" where
  "BRSHA1 data =
     (let buf = md_finish 64 BRSHA1Compress (len_be (length data)) (block_loop 64 BRSHA1Compress sha1_init data)
      in bytes32 (map be32 buf))"

section \<open>SHA-2\<close>

definition ch :: "'a::len word \<Rightarrow> 'a word \<Rightarrow> 'a word \<Rightarrow> 'a word" where
  "ch x y z = (x AND y) XOR (NOT x AND z)"

definition maj :: "'a::len word \<Rightarrow> 'a word \<Rightarrow> 'a word \<Rightarrow> 'a word" where
  "maj x y z = (x AND y) XOR (x AND z) XOR (y AND z)"

definition sha_s0 :: "u32 \<Rightarrow> u32" where "sha_s0 x = ror32 x 2 XOR ror32 x 13 XOR ror32 x 22"
definition sha_s1 :: "u32 \<Rightarrow> u32" where "sha_s1 x = ror32 x 6 XOR ror32 x 11 XOR ror32 x 25"
definition sha_s2 :: "u32 \<Rightarrow> u32" where "sha_s2 x = ror32 x 7 XOR ror32 x 18 XOR drop_bit 3 x"
definition sha_s3 :: "u32 \<Rightarrow> u32" where "sha_s3 x = ror32 x 17 XOR ror32 x 19 XOR drop_bit 10 x"

text \<open>The round constants of SHA-2, in decimal (hexadecimal in the code).\<close>

definition sha256_k :: "u32 list" where
  "sha256_k =
    [1116352408, 1899447441, 3049323471, 3921009573, 961987163, 1508970993, 2453635748, 2870763221,
     3624381080, 310598401, 607225278, 1426881987, 1925078388, 2162078206, 2614888103, 3248222580,
     3835390401, 4022224774, 264347078, 604807628, 770255983, 1249150122, 1555081692, 1996064986,
     2554220882, 2821834349, 2952996808, 3210313671, 3336571891, 3584528711, 113926993, 338241895,
     666307205, 773529912, 1294757372, 1396182291, 1695183700, 1986661051, 2177026350, 2456956037,
     2730485921, 2820302411, 3259730800, 3345764771, 3516065817, 3600352804, 4094571909, 275423344,
     430227734, 506948616, 659060556, 883997877, 958139571, 1322822218, 1537002063, 1747873779,
     1955562222, 2024104815, 2227730452, 2361852424, 2428436474, 2756734187, 3204031479, 3329325298]"

type_synonym 'w sha_vars = "'w \<times> 'w \<times> 'w \<times> 'w \<times> 'w \<times> 'w \<times> 'w \<times> 'w"

definition sha_round :: "('a::len word \<Rightarrow> 'a word) \<Rightarrow> ('a word \<Rightarrow> 'a word) \<Rightarrow> 'a word sha_vars \<Rightarrow>
    'a word \<times> 'a word \<Rightarrow> 'a word sha_vars" where
  "sha_round S1 S0 v kw =
     (let (a, b, c, d, e, f, g, h) = v; (k, w) = kw;
          t1 = h + S1 e + ch e f g + k + w;
          t2 = S0 a + maj a b c
      in (t1 + t2, a, b, c, d + t1, e, f, g))"

definition sha_vars_of :: "'w list \<Rightarrow> 'w sha_vars" where
  "sha_vars_of r = (r ! 0, r ! 1, r ! 2, r ! 3, r ! 4, r ! 5, r ! 6, r ! 7)"

definition sha_add :: "'w::plus list \<Rightarrow> 'w sha_vars \<Rightarrow> 'w list" where
  "sha_add r v = (let (a, b, c, d, e, f, g, h) = v in
     [r ! 0 + a, r ! 1 + b, r ! 2 + c, r ! 3 + d, r ! 4 + e, r ! 5 + f, r ! 6 + g, r ! 7 + h])"

definition sha256_next :: "u32 list \<Rightarrow> u32" where
  "sha256_next w = (let i = length w in sha_s3 (w ! (i - 2)) + w ! (i - 7) + sha_s2 (w ! (i - 15)) + w ! (i - 16))"

definition BRSHA256Compress :: "u32 list \<Rightarrow> u8 list \<Rightarrow> u32 list" where
  "BRSHA256Compress r x =
     (let w = extend 48 sha256_next (map be32 (words32 16 x))
      in sha_add r (foldl (sha_round sha_s1 sha_s0) (sha_vars_of r) (zip sha256_k w)))"

definition sha224_init :: "u32 list" where
  "sha224_init = [0xc1059ed8, 0x367cd507, 0x3070dd17, 0xf70e5939, 0xffc00b31, 0x68581511, 0x64f98fa7, 0xbefa4fa4]"

definition BRSHA224 :: "u8 list \<Rightarrow> u8 list" where
  "BRSHA224 data =
     (let buf = md_finish 64 BRSHA256Compress (len_be (length data)) (block_loop 64 BRSHA256Compress sha224_init data)
      in bytes32 (map be32 (take 7 buf)))"

definition sha256_init :: "u32 list" where
  "sha256_init = [0x6a09e667, 0xbb67ae85, 0x3c6ef372, 0xa54ff53a, 0x510e527f, 0x9b05688c, 0x1f83d9ab, 0x5be0cd19]"

definition BRSHA256 :: "u8 list \<Rightarrow> u8 list" where
  "BRSHA256 data =
     (let buf = md_finish 64 BRSHA256Compress (len_be (length data)) (block_loop 64 BRSHA256Compress sha256_init data)
      in bytes32 (map be32 buf))"

definition BRSHA256_2 :: "u8 list \<Rightarrow> u8 list" where
  "BRSHA256_2 data = BRSHA256 (BRSHA256 data)"

definition sha_S0 :: "u64 \<Rightarrow> u64" where "sha_S0 x = ror64 x 28 XOR ror64 x 34 XOR ror64 x 39"
definition sha_S1 :: "u64 \<Rightarrow> u64" where "sha_S1 x = ror64 x 14 XOR ror64 x 18 XOR ror64 x 41"
definition sha_S2 :: "u64 \<Rightarrow> u64" where "sha_S2 x = ror64 x 1 XOR ror64 x 8 XOR drop_bit 7 x"
definition sha_S3 :: "u64 \<Rightarrow> u64" where "sha_S3 x = ror64 x 19 XOR ror64 x 61 XOR drop_bit 6 x"

definition sha512_k :: "u64 list" where
  "sha512_k =
    [4794697086780616226, 8158064640168781261, 13096744586834688815, 16840607885511220156, 4131703408338449720,
     6480981068601479193, 10538285296894168987, 12329834152419229976, 15566598209576043074, 1334009975649890238,
     2608012711638119052, 6128411473006802146, 8268148722764581231, 9286055187155687089, 11230858885718282805,
     13951009754708518548, 16472876342353939154, 17275323862435702243, 1135362057144423861, 2597628984639134821,
     3308224258029322869, 5365058923640841347, 6679025012923562964, 8573033837759648693, 10970295158949994411,
     12119686244451234320, 12683024718118986047, 13788192230050041572, 14330467153632333762, 15395433587784984357,
     489312712824947311, 1452737877330783856, 2861767655752347644, 3322285676063803686, 5560940570517711597,
     5996557281743188959, 7280758554555802590, 8532644243296465576, 9350256976987008742, 10552545826968843579,
     11727347734174303076, 12113106623233404929, 14000437183269869457, 14369950271660146224, 15101387698204529176,
     15463397548674623760, 17586052441742319658, 1182934255886127544, 1847814050463011016, 2177327727835720531,
     2830643537854262169, 3796741975233480872, 4115178125766777443, 5681478168544905931, 6601373596472566643,
     7507060721942968483, 8399075790359081724, 8693463985226723168, 9568029438360202098, 10144078919501101548,
     10430055236837252648, 11840083180663258601, 13761210420658862357, 14299343276471374635, 14566680578165727644,
     15097957966210449927, 16922976911328602910, 17689382322260857208, 500013540394364858, 748580250866718886,
     1242879168328830382, 1977374033974150939, 2944078676154940804, 3659926193048069267, 4368137639120453308,
     4836135668995329356, 5532061633213252278, 6448918945643986474, 6902733635092675308, 7801388544844847127]"

definition sha512_next :: "u64 list \<Rightarrow> u64" where
  "sha512_next w = (let i = length w in sha_S3 (w ! (i - 2)) + w ! (i - 7) + sha_S2 (w ! (i - 15)) + w ! (i - 16))"

definition BRSHA512Compress :: "u64 list \<Rightarrow> u8 list \<Rightarrow> u64 list" where
  "BRSHA512Compress r x =
     (let w = extend 64 sha512_next (map be64 (words64 16 x))
      in sha_add r (foldl (sha_round sha_S1 sha_S0) (sha_vars_of r) (zip sha512_k w)))"

definition sha384_init :: "u64 list" where
  "sha384_init = [0xcbbb9d5dc1059ed8, 0x629a292a367cd507, 0x9159015a3070dd17, 0x152fecd8f70e5939,
     0x67332667ffc00b31, 0x8eb44a8768581511, 0xdb0c2e0d64f98fa7, 0x47b5481dbefa4fa4]"

definition BRSHA384 :: "u8 list \<Rightarrow> u8 list" where
  "BRSHA384 data =
     (let buf = md_finish 128 BRSHA512Compress (len_be128 (length data))
                  (block_loop 128 BRSHA512Compress sha384_init data)
      in bytes64 (map be64 (take 6 buf)))"

definition sha512_init :: "u64 list" where
  "sha512_init = [0x6a09e667f3bcc908, 0xbb67ae8584caa73b, 0x3c6ef372fe94f82b, 0xa54ff53a5f1d36f1,
     0x510e527fade682d1, 0x9b05688c2b3e6c1f, 0x1f83d9abfb41bd6b, 0x5be0cd19137e2179]"

definition BRSHA512 :: "u8 list \<Rightarrow> u8 list" where
  "BRSHA512 data =
     (let buf = md_finish 128 BRSHA512Compress (len_be128 (length data))
                  (block_loop 128 BRSHA512Compress sha512_init data)
      in bytes64 (map be64 buf))"

section \<open>RIPEMD-160\<close>

definition rmd_f :: "u32 \<Rightarrow> u32 \<Rightarrow> u32 \<Rightarrow> u32" where "rmd_f x y z = x XOR y XOR z"
definition rmd_g :: "u32 \<Rightarrow> u32 \<Rightarrow> u32 \<Rightarrow> u32" where "rmd_g x y z = (x AND y) OR (NOT x AND z)"
definition rmd_h :: "u32 \<Rightarrow> u32 \<Rightarrow> u32 \<Rightarrow> u32" where "rmd_h x y z = (x OR NOT y) XOR z"
definition rmd_i :: "u32 \<Rightarrow> u32 \<Rightarrow> u32 \<Rightarrow> u32" where "rmd_i x y z = (x AND z) OR (y AND NOT z)"
definition rmd_j :: "u32 \<Rightarrow> u32 \<Rightarrow> u32 \<Rightarrow> u32" where "rmd_j x y z = x XOR (y OR NOT z)"

text \<open>The variables of a line are \<open>(a, b, c, d, e)\<close>; a round runs over the pairs of a word index and a shift.\<close>

type_synonym rmd_vars = "u32 \<times> u32 \<times> u32 \<times> u32 \<times> u32"

definition rmd_op :: "(u32 \<Rightarrow> u32 \<Rightarrow> u32 \<Rightarrow> u32) \<Rightarrow> u32 \<Rightarrow> u32 list \<Rightarrow> rmd_vars \<Rightarrow> nat \<times> nat \<Rightarrow> rmd_vars" where
  "rmd_op fn k x v rs =
     (let (a, b, c, d, e) = v;
          t = rol32 (a + fn b c d + x ! fst rs + k) (snd rs) + e
      in (e, t, b, rol32 c 10, d))"

definition rmd_left :: "((u32 \<Rightarrow> u32 \<Rightarrow> u32 \<Rightarrow> u32) \<times> u32 \<times> (nat \<times> nat) list) list" where
  "rmd_left =
    [(rmd_f, 0x00000000, zip [0, 1, 2, 3, 4, 5, 6, 7, 8, 9, 10, 11, 12, 13, 14, 15]
        [11, 14, 15, 12, 5, 8, 7, 9, 11, 13, 14, 15, 6, 7, 9, 8]),
     (rmd_g, 0x5a827999, zip [7, 4, 13, 1, 10, 6, 15, 3, 12, 0, 9, 5, 2, 14, 11, 8]
        [7, 6, 8, 13, 11, 9, 7, 15, 7, 12, 15, 9, 11, 7, 13, 12]),
     (rmd_h, 0x6ed9eba1, zip [3, 10, 14, 4, 9, 15, 8, 1, 2, 7, 0, 6, 13, 11, 5, 12]
        [11, 13, 6, 7, 14, 9, 13, 15, 14, 8, 13, 6, 5, 12, 7, 5]),
     (rmd_i, 0x8f1bbcdc, zip [1, 9, 11, 10, 0, 8, 12, 4, 13, 3, 7, 15, 14, 5, 6, 2]
        [11, 12, 14, 15, 14, 15, 9, 8, 9, 14, 5, 6, 8, 6, 5, 12]),
     (rmd_j, 0xa953fd4e, zip [4, 0, 5, 9, 7, 12, 2, 10, 14, 1, 3, 8, 11, 6, 15, 13]
        [9, 15, 5, 11, 6, 8, 13, 12, 5, 12, 13, 14, 11, 8, 5, 6])]"

definition rmd_right :: "((u32 \<Rightarrow> u32 \<Rightarrow> u32 \<Rightarrow> u32) \<times> u32 \<times> (nat \<times> nat) list) list" where
  "rmd_right =
    [(rmd_j, 0x50a28be6, zip [5, 14, 7, 0, 9, 2, 11, 4, 13, 6, 15, 8, 1, 10, 3, 12]
        [8, 9, 9, 11, 13, 15, 15, 5, 7, 7, 8, 11, 14, 14, 12, 6]),
     (rmd_i, 0x5c4dd124, zip [6, 11, 3, 7, 0, 13, 5, 10, 14, 15, 8, 12, 4, 9, 1, 2]
        [9, 13, 15, 7, 12, 8, 9, 11, 7, 7, 12, 7, 6, 15, 13, 11]),
     (rmd_h, 0x6d703ef3, zip [15, 5, 1, 3, 7, 14, 6, 9, 11, 8, 12, 2, 10, 0, 4, 13]
        [9, 7, 15, 11, 8, 6, 6, 14, 12, 13, 5, 14, 13, 13, 7, 5]),
     (rmd_g, 0x7a6d76e9, zip [8, 6, 4, 1, 3, 11, 15, 0, 5, 12, 2, 13, 9, 7, 10, 14]
        [15, 5, 8, 11, 14, 14, 6, 14, 6, 9, 12, 9, 12, 5, 15, 8]),
     (rmd_f, 0x00000000, zip [12, 15, 10, 4, 1, 5, 8, 7, 6, 2, 13, 14, 0, 3, 9, 11]
        [8, 5, 12, 9, 12, 5, 14, 6, 8, 13, 6, 5, 15, 13, 11, 11])]"

definition rmd_line :: "u32 list \<Rightarrow> rmd_vars \<Rightarrow> ((u32 \<Rightarrow> u32 \<Rightarrow> u32 \<Rightarrow> u32) \<times> u32 \<times> (nat \<times> nat) list) list \<Rightarrow>
    rmd_vars" where
  "rmd_line x v line = foldl (\<lambda>v (fn, k, rs). foldl (rmd_op fn k x) v rs) v line"

definition BRRMDCompress :: "u32 list \<Rightarrow> u8 list \<Rightarrow> u32 list" where
  "BRRMDCompress r block =
     (let x = words32 16 block;
          v = (r ! 0, r ! 1, r ! 2, r ! 3, r ! 4);
          (al, bl, cl, dl, el) = rmd_line x v rmd_left;
          (ar, br, cr, dr, er) = rmd_line x v rmd_right
      in [r ! 1 + cl + dr, r ! 2 + dl + er, r ! 3 + el + ar, r ! 4 + al + br, r ! 0 + bl + cr])"

definition BRRMD160 :: "u8 list \<Rightarrow> u8 list" where
  "BRRMD160 data =
     (let buf = md_finish 64 BRRMDCompress (len_le (length data)) (block_loop 64 BRRMDCompress sha1_init data)
      in bytes32 buf)"

definition BRHash160 :: "u8 list \<Rightarrow> u8 list" where
  "BRHash160 data = BRRMD160 (BRSHA256 data)"

section \<open>SHA-3 and Keccak\<close>

definition keccak_k :: "u64 list" where
  "keccak_k =
    [0x0000000000000001, 0x0000000000008082, 0x800000000000808a, 0x8000000080008000, 0x000000000000808b,
     0x0000000080000001, 0x8000000080008081, 0x8000000000008009, 0x000000000000008a, 0x0000000000000088,
     0x0000000080008009, 0x000000008000000a, 0x000000008000808b, 0x800000000000008b, 0x8000000000008089,
     0x8000000000008003, 0x8000000000008002, 0x8000000000000080, 0x000000000000800a, 0x800000008000000a,
     0x8000000080008081, 0x8000000000008080, 0x0000000080000001, 0x8000000080008008]"

definition keccak_theta :: "u64 list \<Rightarrow> u64 list" where
  "keccak_theta r =
     (let a = map (\<lambda>j. r ! j XOR r ! (j + 5) XOR r ! (j + 10) XOR r ! (j + 15) XOR r ! (j + 20)) [0..<5];
          b = [rol64 (a ! 1) 1 XOR a ! 4, rol64 (a ! 2) 1 XOR a ! 0, rol64 (a ! 3) 1 XOR a ! 1,
               rol64 (a ! 4) 1 XOR a ! 2, rol64 (a ! 0) 1 XOR a ! 3]
      in map (\<lambda>j. r ! j XOR b ! (j mod 5)) [0..<25])"

definition keccak_rho :: "u64 list \<Rightarrow> u64 list" where
  "keccak_rho r = r ! 0 # map (\<lambda>(j, n). rol64 (r ! j) n) (zip [1..<25]
     [1, 62, 28, 27, 36, 44, 6, 55, 20, 3, 10, 43, 25, 39, 41, 45, 15, 21, 8, 18, 2, 61, 56, 14])"

text \<open>\<open>pi\<close> moves the content of one cell to the next along the assignments of the code.\<close>

definition keccak_pi :: "u64 list \<Rightarrow> u64 list" where
  "keccak_pi r =
     (let r1 = r ! 1 in
      (foldl (\<lambda>r (i, j). r[i := r ! j]) r
        [(1, 6), (6, 9), (9, 22), (22, 14), (14, 20), (20, 2), (2, 12), (12, 13), (13, 19), (19, 23), (23, 15),
         (15, 4), (4, 24), (24, 21), (21, 8), (8, 16), (16, 5), (5, 3), (3, 18), (18, 17), (17, 11), (11, 7), (7, 10)])
        [10 := r1])"

definition keccak_chi :: "u64 list \<Rightarrow> u64 list" where
  "keccak_chi r = map (\<lambda>i. let j = i div 5 * 5; k = i mod 5 in
      r ! i XOR (NOT (r ! (j + (k + 1) mod 5)) AND r ! (j + (k + 2) mod 5))) [0..<25]"

definition BRSHA3Compress :: "nat \<Rightarrow> u64 list \<Rightarrow> u8 list \<Rightarrow> u64 list" where
  "BRSHA3Compress blockSize r block =
     (let x = words64 (blockSize div 8) block;
          r = map (\<lambda>(i, v). if i < blockSize div 8 then v XOR x ! i else v) (zip [0..<25] r)
      in foldl (\<lambda>r k. let r = keccak_chi (keccak_pi (keccak_rho (keccak_theta r))) in r[0 := r ! 0 XOR k])
           r keccak_k)"

definition sponge_finish :: "u8 \<Rightarrow> u64 list \<times> u8 list \<Rightarrow> u64 list" where
  "sponge_finish p r =
     (let (buf, rest) = r;
          x = rest @ replicate (136 - length rest) 0;
          x = x[length rest := x ! length rest OR p];
          x = x[135 := x ! 135 OR 0x80]
      in BRSHA3Compress 136 buf x)"

definition BRSHA3_256 :: "u8 list \<Rightarrow> u8 list" where
  "BRSHA3_256 data =
     bytes64 (take 4 (sponge_finish 0x06 (block_loop 136 (BRSHA3Compress 136) (replicate 25 0) data)))"

definition BRKeccak256 :: "u8 list \<Rightarrow> u8 list" where
  "BRKeccak256 data =
     bytes64 (take 4 (sponge_finish 0x01 (block_loop 136 (BRSHA3Compress 136) (replicate 25 0) data)))"

section \<open>MD5\<close>

definition md5_F :: "u32 \<Rightarrow> u32 \<Rightarrow> u32 \<Rightarrow> u32" where "md5_F x y z = z XOR (x AND (y XOR z))"
definition md5_G :: "u32 \<Rightarrow> u32 \<Rightarrow> u32 \<Rightarrow> u32" where "md5_G x y z = y XOR (z AND (x XOR y))"
definition md5_H :: "u32 \<Rightarrow> u32 \<Rightarrow> u32 \<Rightarrow> u32" where "md5_H x y z = x XOR y XOR z"
definition md5_I :: "u32 \<Rightarrow> u32 \<Rightarrow> u32 \<Rightarrow> u32" where "md5_I x y z = y XOR (x OR NOT z)"

definition md5_k :: "u32 list" where
  "md5_k =
    [0xd76aa478, 0xe8c7b756, 0x242070db, 0xc1bdceee, 0xf57c0faf, 0x4787c62a, 0xa8304613, 0xfd469501,
     0x698098d8, 0x8b44f7af, 0xffff5bb1, 0x895cd7be, 0x6b901122, 0xfd987193, 0xa679438e, 0x49b40821,
     0xf61e2562, 0xc040b340, 0x265e5a51, 0xe9b6c7aa, 0xd62f105d, 0x02441453, 0xd8a1e681, 0xe7d3fbc8,
     0x21e1cde6, 0xc33707d6, 0xf4d50d87, 0x455a14ed, 0xa9e3e905, 0xfcefa3f8, 0x676f02d9, 0x8d2a4c8a,
     0xfffa3942, 0x8771f681, 0x6d9d6122, 0xfde5380c, 0xa4beea44, 0x4bdecfa9, 0xf6bb4b60, 0xbebfbc70,
     0x289b7ec6, 0xeaa127fa, 0xd4ef3085, 0x04881d05, 0xd9d4d039, 0xe6db99e5, 0x1fa27cf8, 0xc4ac5665,
     0xf4292244, 0x432aff97, 0xab9423a7, 0xfc93a039, 0x655b59c3, 0x8f0ccc92, 0xffeff47d, 0x85845dd1,
     0x6fa87e4f, 0xfe2ce6e0, 0xa3014314, 0x4e0811a1, 0xf7537e82, 0xbd3af235, 0x2ad7d2bb, 0xeb86d391]"

definition md5_s :: "nat list" where
  "md5_s = [7, 12, 17, 22, 5, 9, 14, 20, 4, 11, 16, 23, 6, 10, 15, 21]"

definition md5_op :: "(u32 \<Rightarrow> u32 \<Rightarrow> u32 \<Rightarrow> u32) \<Rightarrow> (nat \<Rightarrow> nat) \<Rightarrow> nat \<Rightarrow> u32 list \<Rightarrow>
    u32 \<times> u32 \<times> u32 \<times> u32 \<Rightarrow> nat \<Rightarrow> u32 \<times> u32 \<times> u32 \<times> u32" where
  "md5_op fn idx s0 x v i =
     (let (a, b, c, d) = v;
          a = a + (fn b c d + x ! idx i + md5_k ! i);
          a = rol32 a (md5_s ! (s0 + i mod 4));
          a = a + b
      in (d, a, b, c))"

definition BRMD5Compress :: "u32 list \<Rightarrow> u8 list \<Rightarrow> u32 list" where
  "BRMD5Compress r block =
     (let x = words32 16 block;
          v = (r ! 0, r ! 1, r ! 2, r ! 3);
          v = foldl (md5_op md5_F (\<lambda>i. i) 0 x) v [0..<16];
          v = foldl (md5_op md5_G (\<lambda>i. (5 * i + 1) mod 16) 4 x) v [16..<32];
          v = foldl (md5_op md5_H (\<lambda>i. (3 * i + 5) mod 16) 8 x) v [32..<48];
          (a, b, c, d) = foldl (md5_op md5_I (\<lambda>i. (7 * i) mod 16) 12 x) v [48..<64]
      in [r ! 0 + a, r ! 1 + b, r ! 2 + c, r ! 3 + d])"

definition BRMD5 :: "u8 list \<Rightarrow> u8 list" where
  "BRMD5 data =
     (let buf = md_finish 64 BRMD5Compress (len_le (length data)) (block_loop 64 BRMD5Compress (take 4 sha1_init) data)
      in bytes32 buf)"

section \<open>MurmurHash3\<close>

definition murmur_C1 :: u32 where "murmur_C1 = 0xcc9e2d51"
definition murmur_C2 :: u32 where "murmur_C2 = 0x1b873593"

definition fmix32 :: "u32 \<Rightarrow> u32" where
  "fmix32 h =
     (let h = h XOR drop_bit 16 h; h = h * 0x85ebca6b; h = h XOR drop_bit 13 h; h = h * 0xc2b2ae35
      in h XOR drop_bit 16 h)"

definition murmur_block :: "u32 \<Rightarrow> u32 \<Rightarrow> u32" where
  "murmur_block h w =
     (let k = w * murmur_C1; k = rol32 k 15 * murmur_C2; h = h XOR k in rol32 h 13 * 5 + 0xe6546b64)"

definition BRMurmur3_32 :: "u8 list \<Rightarrow> u32 \<Rightarrow> u32" where
  "BRMurmur3_32 data seed =
     (let len = length data; i = len div 4;
          h = foldl murmur_block seed (words32 i data);
          k = 0;
          k = (if len mod 4 \<ge> 3 then k XOR push_bit 16 (ucast (data ! (i * 4 + 2))) else k);
          k = (if len mod 4 \<ge> 2 then k XOR push_bit 8 (ucast (data ! (i * 4 + 1))) else k);
          h = (if len mod 4 \<ge> 1
               then let k = k XOR ucast (data ! (i * 4)); k = k * murmur_C1 in h XOR rol32 k 15 * murmur_C2
               else h);
          h = h XOR word_of_nat len
      in fmix32 h)"

section \<open>The streaming loop computes the padded hash\<close>

function blocks :: "nat \<Rightarrow> 'a list \<Rightarrow> 'a list list" where
  "blocks n xs = (if 0 < n \<and> xs \<noteq> [] then take n xs # blocks n (drop n xs) else [])"
  by auto
termination by (relation "measure (\<lambda>(n, xs). length xs)") auto

declare blocks.simps [simp del]

lemma blocks_Nil [simp]: "blocks n [] = []"
  by (subst blocks.simps) simp

lemma blocks_append: "0 < n \<Longrightarrow> length b = n \<Longrightarrow> blocks n (b @ xs) = b # blocks n xs"
  by (subst blocks.simps) auto

lemma blocks_single: "0 < n \<Longrightarrow> length b = n \<Longrightarrow> blocks n b = [b]"
  using blocks_append [of n b "[]"] by simp

text \<open>The padding of the standards: a one bit, the least number of zeros, and the message length.\<close>

definition md_padded :: "nat \<Rightarrow> u8 list \<Rightarrow> u8 list \<Rightarrow> u8 list" where
  "md_padded blk lenBytes data =
     data @ 0x80 # replicate ((blk - (length data + 1 + length lenBytes) mod blk) mod blk) 0 @ lenBytes"

text \<open>The contract between a compression function and the shared loop.\<close>

locale md_hash =
  fixes blk :: nat
    and compress :: "'s \<Rightarrow> u8 list \<Rightarrow> 's"
    and lenBytes :: "size_t \<Rightarrow> u8 list"
    and lw :: nat
  assumes lw: "length (lenBytes n) = lw" and lw_blk: "lw < blk"
begin

lemma loop_blocks:
  assumes "block_loop blk compress buf data = (buf', rest)"
  shows "foldl compress buf (blocks blk (data @ t)) = foldl compress buf' (blocks blk (rest @ t)) \<and>
    length rest < blk \<and> length rest mod blk = length data mod blk"
  using assms
proof (induction data arbitrary: buf rule: length_induct)
  case (1 data)
  have pos: "0 < blk" using lw_blk by simp
  show ?case
  proof (cases "blk \<le> length data")
    case True
    then have "block_loop blk compress (compress buf (take blk data)) (drop blk data) = (buf', rest)"
      using 1(2) pos by (subst (asm) block_loop.simps) simp
    moreover have "length (drop blk data) < length data" using True pos by simp
    ultimately have ih: "foldl compress (compress buf (take blk data)) (blocks blk (drop blk data @ t)) =
        foldl compress buf' (blocks blk (rest @ t)) \<and>
        length rest < blk \<and> length rest mod blk = length (drop blk data) mod blk"
      using 1(1) by blast
    have "blocks blk (data @ t) = take blk data # blocks blk (drop blk data @ t)"
      using True pos by (subst blocks.simps) auto
    moreover have "(length data - blk) mod blk = length data mod blk"
      using True by (simp add: le_mod_geq)
    ultimately show ?thesis using ih by simp
  next
    case False
    then have "block_loop blk compress buf data = (buf, data)" by (subst block_loop.simps) simp
    then show ?thesis using 1(2) False by simp
  qed
qed

lemma zeros:
  assumes "r < blk" "n mod blk = r mod blk"
  shows "(blk - (n + 1 + lw) mod blk) mod blk =
    (if blk - lw \<le> r then 2 * blk - (r + 1 + lw) else blk - (r + 1 + lw))"
proof -
  have "(n + 1 + lw) mod blk = (r + 1 + lw) mod blk"
    using assms(2) by (metis mod_add_left_eq)
  moreover have "(r + 1 + lw) mod blk = r + 1 + lw - blk" if "blk - lw \<le> r"
  proof -
    have "blk \<le> r + 1 + lw" "r + 1 + lw - blk < blk" using that assms(1) lw_blk by linarith+
    then show ?thesis by (simp add: le_mod_geq)
  qed
  moreover have "(blk - (r + 1 + lw) mod blk) mod blk = blk - (r + 1 + lw)" if "\<not> blk - lw \<le> r"
  proof (cases "r + 1 + lw = blk")
    case False
    then have "r + 1 + lw < blk" using that by linarith
    then show ?thesis by simp
  qed simp
  ultimately show ?thesis using assms(1) lw_blk by (simp add: mult_2)
qed

theorem streaming:
  "md_finish blk compress (lenBytes (length data)) (block_loop blk compress buf data) =
   foldl compress buf (blocks blk (md_padded blk (lenBytes (length data)) data))"
proof -
  obtain buf' rest where br: "block_loop blk compress buf data = (buf', rest)" by fastforce
  let ?L = "lenBytes (length data)"
  let ?z = "(blk - (length data + 1 + length ?L) mod blk) mod blk"
  let ?r = "length rest"
  note lb = loop_blocks [OF br, of "0x80 # replicate ?z 0 @ ?L"]
  have r: "?r < blk" and rm: "length data mod blk = ?r mod blk" using lb by auto
  have z: "?z = (if blk - lw \<le> ?r then 2 * blk - (?r + 1 + lw) else blk - (?r + 1 + lw))"
    using zeros [OF r rm] lw by simp
  have x: "(rest @ replicate (blk - ?r) 0)[?r := 0x80] = rest @ 0x80 # replicate (blk - ?r - 1) (0 :: u8)"
    using r by (cases "blk - ?r") auto
  have "md_finish blk compress ?L (buf', rest) = foldl compress buf' (blocks blk (rest @ 0x80 # replicate ?z 0 @ ?L))"
  proof (cases "blk - lw \<le> ?r")
    case True
    have "?z = (blk - ?r - 1) + (blk - lw)" using z True r lw_blk by auto
    then have split: "rest @ 0x80 # replicate ?z 0 @ ?L =
        (rest @ 0x80 # replicate (blk - ?r - 1) 0) @ (replicate (blk - lw) 0 @ ?L)"
      by (simp add: replicate_add)
    have m: "memcpy_at (replicate blk 0) (blk - lw) ?L = replicate (blk - lw) 0 @ ?L"
      using lw lw_blk by (simp add: memcpy_at_def min_def)
    show ?thesis
      unfolding split using r lw_blk lw True
      by (simp add: md_finish_def x m blocks_append [where n = blk and xs = "replicate (blk - lw) 0 @ ?L"]
          blocks_single del: append_assoc append_Cons)
  next
    case False
    have zz: "?z = blk - (?r + 1 + lw)" using z False by simp
    have n: "blk - ?r - 1 = ?z + lw" using zz False by linarith
    have len: "length (rest @ 0x80 # replicate ?z 0) = blk - lw" using zz False by simp
    have "rest @ 0x80 # replicate (blk - ?r - 1) 0 = (rest @ 0x80 # replicate ?z 0) @ replicate lw (0 :: u8)"
      unfolding n by (simp add: replicate_add)
    then have "memcpy_at (rest @ 0x80 # replicate (blk - ?r - 1) 0) (blk - lw) ?L = rest @ 0x80 # replicate ?z 0 @ ?L"
      using memcpy_at_append [OF len, of "replicate lw 0" ?L] lw by simp
    then show ?thesis
      using r lw_blk lw False zz by (simp add: md_finish_def x blocks_single)
  qed
  then show ?thesis
    using lb br by (simp add: md_padded_def)
qed

end

interpretation sha1: md_hash 64 BRSHA1Compress len_be 8
  by unfold_locales (simp_all add: len_be_def bytes32_def)

interpretation sha256: md_hash 64 BRSHA256Compress len_be 8
  by unfold_locales (simp_all add: len_be_def bytes32_def)

interpretation sha512: md_hash 128 BRSHA512Compress len_be128 16
  by unfold_locales (simp_all add: len_be128_def bytes64_def)

interpretation rmd160: md_hash 64 BRRMDCompress len_le 8
  by unfold_locales (simp_all add: len_le_def bytes32_def)

interpretation md5: md_hash 64 BRMD5Compress len_le 8
  by unfold_locales (simp_all add: len_le_def bytes32_def)

section \<open>Byte order\<close>

lemma be32_masks: "(0xff :: u32) = mask 8" "(0xff00 :: u32) = push_bit 8 (mask 8)"
  "(0xff0000 :: u32) = push_bit 16 (mask 8)" "(0xff000000 :: u32) = push_bit 24 (mask 8)"
  by (simp_all add: mask_eq_exp_minus_1 push_bit_eq_mult)

lemma UInt32SetLE_be32: "UInt32SetLE (be32 w) = UInt32SetBE w"
proof -
  have m: "(0xff :: u32) = mask 8" by (simp add: be32_masks)
  have "UInt32SetLE (be32 w) ! i = UInt32SetBE w ! i" if "i < 4" for i
  proof -
    have "i = 0 \<or> i = 1 \<or> i = 2 \<or> i = 3" using that by auto
    then show ?thesis
      by (elim disjE) (auto intro!: bit_word_eqI simp: UInt32SetLE_def UInt32SetBE_def be32_def be32_masks bit_simps)
  qed
  then show ?thesis by (simp add: list_eq_iff_nth_eq)
qed

lemma UInt64SetBE_split: "UInt64SetBE u = UInt32SetBE (ucast (drop_bit 32 u)) @ UInt32SetBE (ucast u)"
proof -
  have "UInt64SetBE u ! i = (UInt32SetBE (ucast (drop_bit 32 u)) @ UInt32SetBE (ucast u)) ! i" if "i < 8" for i
  proof -
    have "i = 0 \<or> i = 1 \<or> i = 2 \<or> i = 3 \<or> i = 4 \<or> i = 5 \<or> i = 6 \<or> i = 7" using that by auto
    then show ?thesis
      by (elim disjE)
        (auto intro!: bit_word_eqI simp: UInt64SetBE_def UInt32SetBE_def mask_ff bit_simps add.commute)
  qed
  then show ?thesis by (simp add: list_eq_iff_nth_eq)
qed

lemma len_be_value:
  assumes "n < 2 ^ 61"
  shows "len_be n = UInt64SetBE (word_of_nat (8 * n))"
proof -
  have "unat (word_of_nat (8 * n) :: u64) = 8 * n"
    using assms by (simp add: unat_of_nat take_bit_nat_eq_self del: of_nat_mult)
  then have "unat (drop_bit 32 (word_of_nat (8 * n) :: u64)) = n div 2 ^ 29"
    unfolding unat_drop_bit_eq by (simp add: drop_bit_eq_div del: of_nat_mult)
  then have "drop_bit 32 (word_of_nat (8 * n) :: u64) = word_of_nat (n div 2 ^ 29)"
    by (metis of_nat_unat ucast_id)
  then have h: "ucast (drop_bit 32 (word_of_nat (8 * n) :: u64)) = (word_of_nat (n div 2 ^ 29) :: u32)"
    by (simp add: word_unat_eq_iff unsigned_ucast_eq unat_of_nat take_bit_eq_mod mod_mod_cancel del: of_nat_mult)
  have l: "ucast (word_of_nat (8 * n) :: u64) = (word_of_nat (n * 8) :: u32)"
    by (simp add: mult.commute word_unat_eq_iff unsigned_ucast_eq unat_of_nat take_bit_eq_mod mod_mod_cancel del: of_nat_mult)
  show ?thesis
    unfolding UInt64SetBE_split h l by (simp add: len_be_def bytes32_def UInt32SetLE_be32)
qed

section \<open>Digest lengths\<close>

lemma length_bytes32 [simp, len_simps]: "length (bytes32 ws) = 4 * length ws"
  by (induction ws) (simp_all add: bytes32_def)

lemma length_bytes64 [simp, len_simps]: "length (bytes64 ws) = 8 * length ws"
  by (induction ws) (simp_all add: bytes64_def)

lemma length_foldl:
  "(\<And>r x. length (f r x) = n) \<Longrightarrow> length r = n \<Longrightarrow> length (foldl f r xs) = n"
  by (induction xs arbitrary: r) simp_all

lemma length_compress:
  "length (BRSHA1Compress r x) = 5" "length (BRSHA256Compress r' x) = 8" "length (BRSHA512Compress r'' x) = 8"
  "length (BRRMDCompress r x) = 5" "length (BRMD5Compress r x) = 4"
  by (simp_all add: BRSHA1Compress_def BRSHA256Compress_def BRSHA512Compress_def BRRMDCompress_def
      BRMD5Compress_def sha_add_def Let_def split_beta)

lemma length_digest [simp, len_simps]:
  "length (BRSHA1 d) = 20" "length (BRSHA224 d) = 28" "length (BRSHA256 d) = 32"
  "length (BRSHA384 d) = 48" "length (BRSHA512 d) = 64" "length (BRRMD160 d) = 20" "length (BRMD5 d) = 16"
  by (simp_all add: BRSHA1_def BRSHA224_def BRSHA256_def BRSHA384_def BRSHA512_def BRRMD160_def
      BRMD5_def sha1.streaming sha256.streaming sha512.streaming rmd160.streaming md5.streaming
      length_foldl length_compress sha1_init_def sha224_init_def sha256_init_def sha384_init_def sha512_init_def)

lemma length_digest2 [simp, len_simps]: "length (BRSHA256_2 d) = 32" "length (BRHash160 d) = 20"
  by (simp_all add: BRSHA256_2_def BRHash160_def)

section \<open>Properties\<close>

text \<open>C31: the streaming SHA-1, SHA-224, SHA-256, SHA-384, SHA-512, RIPEMD-160 and MD5 functions, with
  their partial last block, in-place padding and length that may move to a block of its own, compute the
  compression function folded over the blocks of the padded message, for every message; and for messages
  below \<open>2^61\<close> bytes the length bytes SHA-1 and SHA-256 append are the bit length in 64-bit big-endian.\<close>

theorem hash_streaming_padded:
  assumes "length data < 2 ^ 61"
  shows "BRSHA256 data = bytes32 (map be32 (foldl BRSHA256Compress sha256_init
      (blocks 64 (md_padded 64 (UInt64SetBE (word_of_nat (8 * length data))) data)))) \<and>
    BRSHA224 data = bytes32 (map be32 (take 7 (foldl BRSHA256Compress sha224_init
      (blocks 64 (md_padded 64 (UInt64SetBE (word_of_nat (8 * length data))) data))))) \<and>
    BRSHA1 data = bytes32 (map be32 (foldl BRSHA1Compress sha1_init
      (blocks 64 (md_padded 64 (UInt64SetBE (word_of_nat (8 * length data))) data)))) \<and>
    BRSHA512 data = bytes64 (map be64 (foldl BRSHA512Compress sha512_init
      (blocks 128 (md_padded 128 (len_be128 (length data)) data)))) \<and>
    BRSHA384 data = bytes64 (map be64 (take 6 (foldl BRSHA512Compress sha384_init
      (blocks 128 (md_padded 128 (len_be128 (length data)) data))))) \<and>
    BRRMD160 data = bytes32 (foldl BRRMDCompress sha1_init
      (blocks 64 (md_padded 64 (len_le (length data)) data))) \<and>
    BRMD5 data = bytes32 (foldl BRMD5Compress (take 4 sha1_init)
      (blocks 64 (md_padded 64 (len_le (length data)) data)))"
  unfolding len_be_value [OF assms, symmetric]
  by (simp add: BRSHA256_def BRSHA224_def BRSHA1_def BRSHA512_def BRSHA384_def BRRMD160_def BRMD5_def
      sha1.streaming sha256.streaming sha512.streaming rmd160.streaming md5.streaming)

theorem hash_streaming_padded_witness:
  "BRSHA256 [97, 98, 99] = bytes32 (map be32 (foldl BRSHA256Compress sha256_init
     [[97, 98, 99, 0x80] @ replicate 52 0 @ [0, 0, 0, 0, 0, 0, 0, 24]]))"
proof -
  have p: "blocks 64 (md_padded 64 (UInt64SetBE (word_of_nat (8 * length [97, 98, 99 :: u8]))) [97, 98, 99]) =
      [[97, 98, 99, 0x80] @ replicate 52 0 @ [0, 0, 0, 0, 0, 0, 0, 24]]"
    by code_simp
  show ?thesis
    unfolding p [symmetric] by (rule hash_streaming_padded [THEN conjunct1]) simp
qed

end
