(* ===== verification/Base58.thy ===== *)
theory Base58
  imports Hash
begin

text \<open>
  \<^verbatim>\<open>Libraries/loafwallet-core/BRBase58.c\<close>: base58 and base58check. A C string is the list of its bytes
  without the terminating 0, which the encoders write and count. The buffers are big-endian digit lists
  as in the code; the inner loops run from the end of the buffer, so they are recursions over the
  reversed buffer. The lemmas show that the two digit conversions keep the number they represent, that
  the sizes computed with 138/100 and 733/1000 always have room for it, and hence that decoding what was
  encoded gives the data back.
\<close>

section \<open>Model\<close>

definition base58chars :: "u8 list" where
  "base58chars = map (of_char :: char \<Rightarrow> u8) ''123456789ABCDEFGHJKLMNPQRSTUVWXYZabcdefghijkmnopqrstuvwxyz''"

primrec enc_carry :: "u8 list \<Rightarrow> u32 \<Rightarrow> u8 list" where
  "enc_carry [] carry = []"
| "enc_carry (b # bs) carry =
     (let carry = carry + push_bit 8 (ucast b) in ucast (carry mod 58) # enc_carry bs (carry div 58))"

definition enc_step :: "u8 list \<Rightarrow> u8 \<Rightarrow> u8 list" where
  "enc_step buf x = rev (enc_carry (rev buf) (ucast x))"

definition zcount_of :: "u8 \<Rightarrow> u8 list \<Rightarrow> nat" where
  "zcount_of z data = length (takeWhile (\<lambda>b. b = z) data)"

text \<open>The digits: leading zeroes of the data as they are, then the buffer without its leading zeroes.\<close>

definition b58_digits :: "u8 list \<Rightarrow> u8 list" where
  "b58_digits data =
     (let zcount = zcount_of 0 data;
          buf = replicate ((length data - zcount) * 138 div 100 + 1) 0;
          buf = foldl enc_step buf (drop zcount data)
      in dropWhile (\<lambda>b. b = 0) buf)"

definition b58_string :: "u8 list \<Rightarrow> u8 list" where
  "b58_string data =
     replicate (zcount_of 0 data) (base58chars ! 0) @ map (\<lambda>d. base58chars ! unat d) (b58_digits data)"

definition BRBase58Encode :: "u8 list \<Rightarrow> wbuf \<Rightarrow> size_t \<times> wbuf" where
  "BRBase58Encode data str =
     (let s = b58_string data; len = length s + 1 in
      case str of
        None \<Rightarrow> (len, None)
      | Some d \<Rightarrow> if len \<le> length d then (len, put str 0 (s @ [0])) else (0, str))"

text \<open>The switch of \<open>BRBase58Decode\<close>, on the character codes.\<close>

definition b58_carry :: "u8 \<Rightarrow> u32" where
  "b58_carry c =
     (let carry = ucast c in
      if 49 \<le> c \<and> c \<le> 57 then carry - 49
      else if 65 \<le> c \<and> c \<le> 72 then carry + (9 - 65)
      else if 74 \<le> c \<and> c \<le> 78 then carry + (17 - 74)
      else if 80 \<le> c \<and> c \<le> 90 then carry + (22 - 80)
      else if 97 \<le> c \<and> c \<le> 107 then carry + (33 - 97)
      else if 109 \<le> c \<and> c \<le> 122 then carry + (44 - 109)
      else 0xffffffff)"

primrec dec_carry :: "u8 list \<Rightarrow> u32 \<Rightarrow> u8 list" where
  "dec_carry [] carry = []"
| "dec_carry (b # bs) carry =
     (let carry = carry + ucast b * 58 in ucast (carry AND 0xff) # dec_carry bs (drop_bit 8 carry))"

definition dec_step :: "u8 list \<Rightarrow> u32 \<Rightarrow> u8 list" where
  "dec_step buf carry = rev (dec_carry (rev buf) carry)"

text \<open>The loop over the characters stops at the first one that is not a base58 digit.\<close>

primrec dec_loop :: "u8 list \<Rightarrow> u8 list \<Rightarrow> u8 list" where
  "dec_loop [] buf = buf"
| "dec_loop (c # cs) buf = (let carry = b58_carry c in if carry \<ge> 58 then buf else dec_loop cs (dec_step buf carry))"

definition b58_data :: "u8 list \<Rightarrow> u8 list" where
  "b58_data str =
     (let zcount = zcount_of (base58chars ! 0) str;
          str = drop zcount str;
          buf = dec_loop str (replicate (length str * 733 div 1000 + 1) 0)
      in replicate zcount 0 @ dropWhile (\<lambda>b. b = 0) buf)"

definition BRBase58Decode :: "u8 list \<Rightarrow> wbuf \<Rightarrow> size_t \<times> wbuf" where
  "BRBase58Decode str data =
     (let bs = b58_data str; len = length bs in
      case data of
        None \<Rightarrow> (len, None)
      | Some d \<Rightarrow> if len \<le> length d then (len, put data 0 bs) else (0, data))"

definition BRBase58CheckEncode :: "u8 list \<Rightarrow> wbuf \<Rightarrow> size_t \<times> wbuf" where
  "BRBase58CheckEncode data str =
     (let buf = data @ BRSHA256_2 data in BRBase58Encode (take (length data + 4) buf) str)"

text \<open>The scratch buffer of \<open>BRBase58CheckDecode\<close> has \<open>strlen(str)\<close> bytes; what it held before is never
  read, so the model fills it with zeroes.\<close>

definition BRBase58CheckDecode :: "u8 list \<Rightarrow> wbuf \<Rightarrow> size_t \<times> wbuf" where
  "BRBase58CheckDecode str data =
     (let (len, b) = BRBase58Decode str (Some (replicate (length str) 0)); buf = the b;
          len' = (if len \<ge> 4
                  then let n = len - 4; md = BRSHA256_2 (take n buf) in
                    if take 4 (drop n buf) = take 4 md then n else 0
                  else 0)
      in (if (case data of None \<Rightarrow> True | Some d \<Rightarrow> len' \<le> length d) then len' else 0,
          if len \<ge> 4 then put data 0 (take len' buf) else data))"

interpretation b58enc: strict_serializer BRBase58Encode "\<lambda>data. b58_string data @ [0]" "\<lambda>_. True"
  by unfold_locales (auto simp: writes_def BRBase58Encode_def Let_def put_def memcpy_at_def)

interpretation b58dec: strict_serializer BRBase58Decode b58_data "\<lambda>_. True"
  by unfold_locales (auto simp: writes_def BRBase58Decode_def Let_def put_def memcpy_at_def)

section \<open>Digit lists as numbers\<close>

fun val :: "nat \<Rightarrow> nat list \<Rightarrow> nat" where
  "val b [] = 0"
| "val b (d # ds) = d + b * val b ds"

lemma val_append: "val b (xs @ ys) = val b xs + b ^ length xs * val b ys"
  by (induction xs) (simp_all add: algebra_simps)

lemma val_replicate_0 [simp]: "val b (replicate n 0) = 0"
  by (induction n) simp_all

lemma val_bound: "0 < b \<Longrightarrow> \<forall>d\<in>set ds. d < b \<Longrightarrow> val b ds < b ^ length ds"
proof (induction ds)
  case (Cons d ds)
  then have "d < b" "val b ds + 1 \<le> b ^ length ds" by auto
  then have "b * (val b ds + 1) \<le> b * b ^ length ds" by (intro mult_le_mono2)
  with \<open>d < b\<close> show ?case by simp
qed simp

text \<open>A number has one representation without leading zeroes.\<close>

lemma val_inj:
  "0 < b \<Longrightarrow> \<forall>d\<in>set xs. d < b \<Longrightarrow> \<forall>d\<in>set ys. d < b \<Longrightarrow> length xs = length ys \<Longrightarrow>
   val b xs = val b ys \<Longrightarrow> xs = ys"
proof (induction xs arbitrary: ys)
  case (Cons x xs)
  then obtain y zs where y: "ys = y # zs" by (cases ys) auto
  have "x + b * val b xs = y + b * val b zs" using Cons.prems(5) y by simp
  moreover have "x < b" "y < b" using Cons.prems y by auto
  moreover have "(x + b * val b xs) mod b = x" "(y + b * val b zs) mod b = y"
    using \<open>x < b\<close> \<open>y < b\<close> by simp_all
  ultimately have "x = y" by metis
  with \<open>x + b * val b xs = y + b * val b zs\<close> have "val b xs = val b zs" using Cons.prems(1) by simp
  then show ?case using Cons.IH [of zs] Cons.prems y \<open>x = y\<close> by simp
qed simp

definition bval :: "nat \<Rightarrow> u8 list \<Rightarrow> nat" where
  "bval b ds = val b (map unat (rev ds))"

lemma bval_snoc: "bval b (ds @ [d]) = unat d + b * bval b ds"
  by (simp add: bval_def)

lemma bval_zeros [simp]: "bval b (replicate n 0) = 0" "bval b [] = 0"
  by (simp_all add: bval_def)

lemma bval_append_zeros [simp]: "bval b (replicate n 0 @ ds) = bval b ds"
  by (simp add: bval_def val_append)

lemma bval_dropWhile: "bval b (dropWhile (\<lambda>d. d = 0) ds) = bval b ds"
  by (induction ds) (auto simp: bval_def val_append)

lemma bval_bound: "0 < b \<Longrightarrow> \<forall>d\<in>set ds. unat d < b \<Longrightarrow> bval b ds < b ^ length ds"
  using val_bound [of b "map unat (rev ds)"] by (simp add: bval_def)

text \<open>The digits of a number without leading zeroes.\<close>

lemma bval_inj_len:
  assumes "0 < b" "\<forall>d\<in>set xs. unat d < b" "\<forall>d\<in>set ys. unat d < b" "length xs = length ys" "bval b xs = bval b ys"
  shows "xs = ys"
proof -
  have "map unat (rev xs) = map unat (rev ys)"
    using assms by (intro val_inj [of b]) (auto simp: bval_def)
  then have "rev xs = rev ys" by (rule map_injective) (simp add: inj_def word_unat_eq_iff)
  then show ?thesis by simp
qed

definition stripped :: "u8 list \<Rightarrow> bool" where
  "stripped ds \<longleftrightarrow> (ds \<noteq> [] \<longrightarrow> hd ds \<noteq> 0)"

lemma stripped_dropWhile [simp]: "stripped (dropWhile (\<lambda>d. d = 0) ds)"
  using hd_dropWhile [of "\<lambda>d. d = 0" ds] by (auto simp: stripped_def simp del: dropWhile_eq_Nil_conv)

lemma bval_stripped_lower:
  assumes "stripped ds" "ds \<noteq> []"
  shows "b ^ (length ds - 1) \<le> bval b ds"
proof -
  obtain d es where d: "ds = d # es" using assms(2) by (cases ds) auto
  have "0 < unat d" using assms(1) d by (simp add: stripped_def unat_gt_0)
  then have "b ^ length es * 1 \<le> b ^ length es * unat d" by (intro mult_le_mono2) simp
  then show ?thesis by (simp add: d bval_def val_append trans_le_add2)
qed

lemma bval_inj_stripped:
  assumes b: "1 < b" and "stripped xs" "stripped ys" "\<forall>d\<in>set xs. unat d < b" "\<forall>d\<in>set ys. unat d < b"
    "bval b xs = bval b ys"
  shows "xs = ys"
proof -
  have le: "length u \<le> length v" if "stripped u" "\<forall>d\<in>set v. unat d < b" "bval b u = bval b v" for u v
  proof (cases "u = []")
    case False
    have "b ^ (length u - 1) \<le> bval b u" using bval_stripped_lower [OF that(1) False] .
    also have "\<dots> < b ^ length v" unfolding that(3) by (rule bval_bound [OF less_trans [OF zero_less_one b] that(2)])
    finally have "b ^ (length u - 1) < b ^ length v" .
    then have "length u - 1 < length v" by (rule power_less_imp_less_exp [OF b])
    then show ?thesis by linarith
  qed simp
  have "length xs = length ys"
    using le [OF assms(2,5,6)] le [OF assms(3,4) assms(6) [symmetric]] by (rule le_antisym)
  then show ?thesis by (rule bval_inj_len [OF less_trans [OF zero_less_one b] assms(4,5) _ assms(6)])
qed

section \<open>The conversion steps keep the number\<close>

lemma unat_carry32:
  assumes "unat c \<le> 1024" and "k \<le> 256"
  shows "unat (c + word_of_nat k * ucast (b :: u8) :: u32) = unat c + k * unat b"
proof -
  have b: "unat b < 256" using unsigned_less [of b, where 'a = nat] by simp
  have "k * unat b \<le> 256 * 256" using assms(2) b by (intro mult_mono) auto
  then have lt: "unat c + k * unat b < 2 ^ 32" using assms(1) by simp
  have "c + word_of_nat k * ucast b = (word_of_nat (unat c + k * unat b) :: u32)"
    by simp
  then show ?thesis using lt by (simp add: unat_of_nat take_bit_nat_eq_self del: of_nat_add of_nat_mult)
qed

lemma carry_split:
  "0 < m \<Longrightarrow> (a + m * w) mod (m * M) = m * ((a div m + w) mod M) + a mod (m :: nat)"
  by (simp add: mod_mult2_eq add.commute)

lemma enc_carry_val:
  "\<forall>b\<in>set bs. unat b < 58 \<Longrightarrow> unat c \<le> 256 \<Longrightarrow>
   length (enc_carry bs c) = length bs \<and> (\<forall>b\<in>set (enc_carry bs c). unat b < 58) \<and>
   val 58 (map unat (enc_carry bs c)) = (unat c + 256 * val 58 (map unat bs)) mod 58 ^ length bs"
proof (induction bs arbitrary: c)
  case (Cons b bs)
  let ?c = "c + push_bit 8 (ucast b)"
  let ?n = "unat c + 256 * unat b"
  have "push_bit 8 (ucast b :: u32) = word_of_nat 256 * ucast b"
    by (simp add: push_bit_eq_mult mult.commute)
  then have n: "unat ?c = ?n" using unat_carry32 [of c 256 b] Cons.prems(2) by simp
  have b58: "unat b < 58" using Cons.prems by simp
  have m: "unat (ucast (?c mod 58) :: u8) = ?n mod 58"
    using n by (subst unat_ucast_small) (simp_all add: unat_mod_distrib)
  have d: "unat (?c div 58) = ?n div 58" using n by (simp add: unat_div_distrib)
  then have "unat (?c div 58) \<le> 256" using b58 Cons.prems(2) by linarith
  then have ih: "length (enc_carry bs (?c div 58)) = length bs \<and> (\<forall>b\<in>set (enc_carry bs (?c div 58)). unat b < 58) \<and>
      val 58 (map unat (enc_carry bs (?c div 58))) = (?n div 58 + 256 * val 58 (map unat bs)) mod 58 ^ length bs"
    using Cons.IH [of "?c div 58"] Cons.prems(1) d by simp
  have "(?n + 58 * (256 * val 58 (map unat bs))) mod (58 * 58 ^ length bs) =
      58 * ((?n div 58 + 256 * val 58 (map unat bs)) mod 58 ^ length bs) + ?n mod 58"
    by (rule carry_split) simp
  moreover have "?n + 58 * (256 * val 58 (map unat bs)) = unat c + 256 * val 58 (map unat (b # bs))"
    by (simp add: algebra_simps)
  ultimately show ?case using ih m by (simp add: Let_def ac_simps)
qed simp

lemma enc_step_val:
  assumes "\<forall>b\<in>set buf. unat b < 58"
  shows "length (enc_step buf x) = length buf" "\<forall>b\<in>set (enc_step buf x). unat b < 58"
    "bval 58 (enc_step buf x) = (unat x + 256 * bval 58 buf) mod 58 ^ length buf"
proof -
  have x: "unat (ucast x :: u32) = unat x" by (simp add: unat_ucast_small less_trans [OF unsigned_less])
  then have "unat (ucast x :: u32) \<le> 256" using unsigned_less [of x, where 'a = nat] by simp
  note * = enc_carry_val [of "rev buf", OF _ this]
  show "length (enc_step buf x) = length buf" "\<forall>b\<in>set (enc_step buf x). unat b < 58"
    "bval 58 (enc_step buf x) = (unat x + 256 * bval 58 buf) mod 58 ^ length buf"
    using * assms x by (simp_all add: enc_step_def bval_def)
qed

lemma enc_fold_val:
  assumes "\<forall>b\<in>set buf. unat b < 58" "bval 256 xs + 256 ^ length xs * bval 58 buf < 58 ^ length buf"
  shows "length (foldl enc_step buf xs) = length buf \<and> (\<forall>b\<in>set (foldl enc_step buf xs). unat b < 58) \<and>
    bval 58 (foldl enc_step buf xs) = bval 256 xs + 256 ^ length xs * bval 58 buf"
  using assms(2)
proof (induction xs rule: rev_induct)
  case (snoc x xs)
  let ?v = "bval 256 xs + 256 ^ length xs * bval 58 buf"
  have e: "bval 256 (xs @ [x]) + 256 ^ length (xs @ [x]) * bval 58 buf = unat x + 256 * ?v"
    by (simp add: bval_snoc algebra_simps)
  have "?v \<le> unat x + 256 * ?v" by simp
  also have "\<dots> < 58 ^ length buf" using snoc.prems unfolding e .
  finally have "?v < 58 ^ length buf" .
  note ih = snoc.IH [OF this]
  then show ?case
    using enc_step_val [of "foldl enc_step buf xs" x] snoc.prems e by simp
qed (simp add: assms(1))

lemma dec_carry_val:
  "unat c < 58 \<Longrightarrow> length (dec_carry bs c) = length bs \<and>
   val 256 (map unat (dec_carry bs c)) = (unat c + 58 * val 256 (map unat bs)) mod 256 ^ length bs"
proof (induction bs arbitrary: c)
  case (Cons b bs)
  let ?c = "c + ucast b * 58"
  let ?n = "unat c + 58 * unat b"
  have b: "unat b < 256" using unsigned_less [of b, where 'a = nat] by simp
  have n: "unat ?c = ?n" using unat_carry32 [of c 58 b] Cons.prems by (simp add: mult.commute)
  have "?c AND 0xff = take_bit 8 ?c" by (simp add: take_bit_eq_mask mask_eq_exp_minus_1)
  then have "unat (?c AND 0xff) = ?n mod 256" using n by (simp add: take_bit_eq_mod unat_mod_distrib)
  then have m: "unat (ucast (?c AND 0xff) :: u8) = ?n mod 256" by (subst unat_ucast_small) simp_all
  have d: "unat (drop_bit 8 ?c) = ?n div 256" unfolding unat_drop_bit_eq n by (simp add: drop_bit_eq_div)
  then have "unat (drop_bit 8 ?c) < 58" using b Cons.prems by linarith
  then have ih: "length (dec_carry bs (drop_bit 8 ?c)) = length bs \<and>
      val 256 (map unat (dec_carry bs (drop_bit 8 ?c))) = (?n div 256 + 58 * val 256 (map unat bs)) mod 256 ^ length bs"
    using Cons.IH [of "drop_bit 8 ?c"] d by simp
  have "(?n + 256 * (58 * val 256 (map unat bs))) mod (256 * 256 ^ length bs) =
      256 * ((?n div 256 + 58 * val 256 (map unat bs)) mod 256 ^ length bs) + ?n mod 256"
    by (rule carry_split) simp
  moreover have "?n + 256 * (58 * val 256 (map unat bs)) = unat c + 58 * val 256 (map unat (b # bs))"
    by (simp add: algebra_simps)
  ultimately show ?case using ih m by (simp add: Let_def ac_simps)
qed simp

lemma dec_step_val:
  "unat c < 58 \<Longrightarrow> length (dec_step buf c) = length buf \<and>
   bval 256 (dec_step buf c) = (unat c + 58 * bval 256 buf) mod 256 ^ length buf"
  using dec_carry_val [of c "rev buf"] by (simp add: dec_step_def bval_def)

lemma b58_carry_char:
  assumes "unat (d :: u8) < 58"
  shows "b58_carry (base58chars ! unat d) = ucast d"
proof -
  have "\<forall>k\<in>set [0..<58]. b58_carry (base58chars ! k) = ucast (word_of_nat k :: u8)" by code_simp
  then have "b58_carry (base58chars ! unat d) = ucast (word_of_nat (unat d) :: u8)" using assms by simp
  then show ?thesis by (simp add: ucast_id)
qed

lemma dec_loop_val:
  assumes "\<forall>d\<in>set ds. unat d < 58"
    and "bval 58 ds + 58 ^ length ds * bval 256 buf < 256 ^ length buf"
  shows "length (dec_loop (map (\<lambda>d. base58chars ! unat d) ds) buf) = length buf \<and>
    bval 256 (dec_loop (map (\<lambda>d. base58chars ! unat d) ds) buf) = bval 58 ds + 58 ^ length ds * bval 256 buf"
  using assms
proof (induction ds arbitrary: buf)
  case (Cons d ds)
  have d: "unat d < 58" "unat (ucast d :: u32) = unat d"
    using Cons.prems(1) by (auto simp: unat_ucast_small less_trans [OF unsigned_less])
  then have c: "\<not> 58 \<le> (ucast d :: u32)" by (simp add: word_le_nat_alt)
  have e: "bval 58 (d # ds) = bval 58 ds + 58 ^ length ds * unat d" by (simp add: bval_def val_append)
  have tot: "bval 58 (d # ds) + 58 ^ length (d # ds) * bval 256 buf =
      bval 58 ds + 58 ^ length ds * (unat d + 58 * bval 256 buf)"
    by (simp add: e algebra_simps)
  have "unat d + 58 * bval 256 buf \<le> 58 ^ length ds * (unat d + 58 * bval 256 buf)" by simp
  then have "unat d + 58 * bval 256 buf < 256 ^ length buf" using Cons.prems(2) tot by linarith
  then have st: "length (dec_step buf (ucast d)) = length buf"
    "bval 256 (dec_step buf (ucast d)) = unat d + 58 * bval 256 buf"
    using dec_step_val [of "ucast d" buf] d by simp_all
  have "bval 58 ds + 58 ^ length ds * bval 256 (dec_step buf (ucast d)) < 256 ^ length (dec_step buf (ucast d))"
    using Cons.prems(2) tot st by simp
  from Cons.IH [OF _ this] Cons.prems(1) show ?case
    using c st tot b58_carry_char [OF d(1)] by (simp add: Let_def)
qed simp

section \<open>The buffers are large enough\<close>

lemma enc_room: "256 ^ n < (58 :: nat) ^ (n * 138 div 100 + 1)"
proof -
  let ?m = "n * 138 div 100 + 1"
  have "n * 138 < 100 * ?m" using dividend_less_div_times [of 100 "n * 138"] by simp
  have base: "(256 :: nat) ^ 100 \<le> 58 ^ 138" by simp
  have "((256 :: nat) ^ n) ^ 100 = (256 ^ 100) ^ n" by (simp only: power_mult [symmetric] mult.commute)
  also have "\<dots> \<le> (58 ^ 138) ^ n" using base by (rule power_mono) simp
  also have "\<dots> = 58 ^ (n * 138)" by (simp only: power_mult [symmetric] mult.commute)
  also have "\<dots> < 58 ^ (100 * ?m)" using \<open>n * 138 < 100 * ?m\<close> by (rule power_strict_increasing) simp
  also have "\<dots> = (58 ^ ?m) ^ 100" by (simp only: power_mult [symmetric] mult.commute)
  finally show ?thesis by (rule power_less_imp_less_base) simp
qed

lemma dec_room: "58 ^ n < (256 :: nat) ^ (n * 733 div 1000 + 1)"
proof -
  let ?m = "n * 733 div 1000 + 1"
  have "n * 733 < 1000 * ?m" using dividend_less_div_times [of 1000 "n * 733"] by simp
  then have m: "n * 52 < 71 * ?m" by linarith
  have base: "(58 :: nat) ^ 71 \<le> 256 ^ 52" by simp
  have "((58 :: nat) ^ n) ^ 71 = (58 ^ 71) ^ n" by (simp only: power_mult [symmetric] mult.commute)
  also have "\<dots> \<le> (256 ^ 52) ^ n" using base by (rule power_mono) simp
  also have "\<dots> = 256 ^ (n * 52)" by (simp only: power_mult [symmetric] mult.commute)
  also have "\<dots> < 256 ^ (71 * ?m)" using m by (rule power_strict_increasing) simp
  also have "\<dots> = (256 ^ ?m) ^ 71" by (simp only: power_mult [symmetric] mult.commute)
  finally show ?thesis by (rule power_less_imp_less_base) simp
qed

section \<open>Round trips\<close>

lemma zcount_split:
  "data = replicate (zcount_of z data) z @ drop (zcount_of z data) data"
  "drop (zcount_of z data) data = [] \<or> hd (drop (zcount_of z data) data) \<noteq> z"
proof -
  have t: "takeWhile (\<lambda>b. b = z) data = replicate (zcount_of z data) z"
    unfolding zcount_of_def by (rule replicate_length_same [symmetric]) (auto dest: set_takeWhileD)
  have d: "drop (zcount_of z data) data = dropWhile (\<lambda>b. b = z) data"
    by (simp add: zcount_of_def dropWhile_eq_drop)
  show "data = replicate (zcount_of z data) z @ drop (zcount_of z data) data"
    unfolding d t [symmetric] by simp
  show "drop (zcount_of z data) data = [] \<or> hd (drop (zcount_of z data) data) \<noteq> z"
    unfolding d using hd_dropWhile [of "\<lambda>b. b = z" data] by blast
qed

lemma zcount_replicate: "ys = [] \<or> hd ys \<noteq> z \<Longrightarrow> zcount_of z (replicate n z @ ys) = n"
  by (cases ys) (auto simp: zcount_of_def takeWhile_append)

lemma digits_val:
  "bval 58 (b58_digits data) = bval 256 (drop (zcount_of 0 data) data)"
  "stripped (b58_digits data)" "\<forall>d\<in>set (b58_digits data). unat d < 58"
proof -
  let ?xs = "drop (zcount_of 0 data) data"
  let ?m = "(length data - zcount_of 0 data) * 138 div 100 + 1"
  have l: "length ?xs = length data - zcount_of 0 data" by simp
  have "bval 256 ?xs < 256 ^ length ?xs"
    by (rule bval_bound) (use unsigned_less [where 'a = nat and 'b = 8] in auto)
  also have "\<dots> < 58 ^ ?m" unfolding l by (rule enc_room)
  finally have fits: "bval 256 ?xs + 256 ^ length ?xs * bval 58 (replicate ?m 0) < 58 ^ length (replicate ?m (0 :: u8))"
    by (simp del: power_Suc add_Suc_right)
  have z: "\<forall>b\<in>set (replicate ?m (0 :: u8)). unat b < 58" by simp
  note * = enc_fold_val [OF z fits]
  show "stripped (b58_digits data)" by (simp add: b58_digits_def Let_def)
  show "bval 58 (b58_digits data) = bval 256 ?xs"
    using * by (simp add: b58_digits_def Let_def bval_dropWhile del: replicate.simps)
  show "\<forall>d\<in>set (b58_digits data). unat d < 58"
    using * by (auto simp: b58_digits_def Let_def simp del: replicate.simps dest!: set_dropWhileD)
qed

lemma base58_first: "unat (d :: u8) < 58 \<Longrightarrow> base58chars ! unat d = base58chars ! 0 \<Longrightarrow> d = 0"
proof -
  assume d: "unat d < 58" and e: "base58chars ! unat d = base58chars ! 0"
  then have "(ucast d :: u32) = 0" using b58_carry_char [OF d] b58_carry_char [of 0] by simp
  moreover have "unat (ucast d :: u32) = unat d" using d by (simp add: unat_ucast_small)
  ultimately show "d = 0" by (simp add: unat_eq_zero)
qed

lemma b58_data_string: "b58_data (b58_string data) = data"
proof -
  let ?z = "zcount_of 0 data"
  let ?ds = "b58_digits data"
  let ?cs = "map (\<lambda>d. base58chars ! unat d) ?ds"
  note dv = digits_val [of data]
  have "?cs = [] \<or> hd ?cs \<noteq> base58chars ! 0"
  proof (cases ?ds)
    case (Cons d ds)
    then have "d \<noteq> 0" "unat d < 58" using dv(2,3) by (auto simp: stripped_def)
    then show ?thesis using base58_first [of d] Cons by auto
  qed simp
  then have zc: "zcount_of (base58chars ! 0) (b58_string data) = ?z"
    unfolding b58_string_def by (rule zcount_replicate)
  then have rest: "drop ?z (b58_string data) = ?cs" by (simp add: b58_string_def)
  have len: "length (b58_string data) - ?z = length ?ds" by (simp add: b58_string_def)
  let ?m = "length ?cs * 733 div 1000 + 1"
  have "bval 58 ?ds < 58 ^ length ?ds" by (rule bval_bound) (use dv(3) in auto)
  also have "\<dots> < 256 ^ ?m" using dec_room [of "length ?ds"] by simp
  finally have "bval 58 ?ds + 58 ^ length ?ds * bval 256 (replicate ?m 0) < 256 ^ length (replicate ?m (0 :: u8))"
    by (simp del: power_Suc add_Suc_right)
  note * = dec_loop_val [OF dv(3) this]
  let ?b = "dec_loop ?cs (replicate ?m 0)"
  have "bval 256 (dropWhile (\<lambda>b. b = 0) ?b) = bval 256 (drop ?z data)"
    using * dv(1) by (simp add: bval_dropWhile del: replicate.simps)
  moreover have "stripped (drop ?z data)"
    using zcount_split(2) [of 0 data] by (auto simp: stripped_def)
  moreover have "\<forall>d\<in>set xs. unat d < 256" for xs :: "u8 list"
    using unsigned_less [where 'a = nat and 'b = 8] by auto
  ultimately have "dropWhile (\<lambda>b. b = 0) ?b = drop ?z data"
    by (intro bval_inj_stripped [of 256]) auto
  then show ?thesis
    using zcount_split(1) [of data 0] by (simp add: b58_data_def Let_def zc rest len)
qed

lemma dec_loop_length: "length (dec_loop cs buf) = length buf"
proof (induction cs arbitrary: buf)
  case (Cons c cs)
  have "length (dec_carry bs k) = length bs" for bs k
    by (induction bs arbitrary: k) (simp_all add: Let_def)
  then have "length (dec_step buf k) = length buf" for k by (simp add: dec_step_def)
  then show ?case using Cons.IH by (simp add: Let_def)
qed simp

text \<open>The decoded data is never longer than the string, so \<open>strlen(str)\<close> bytes of scratch are enough.\<close>

lemma b58_data_length: "length (b58_data str) \<le> length str"
proof -
  let ?z = "zcount_of (base58chars ! 0) str"
  let ?s = "drop ?z str"
  have z: "?z \<le> length str" by (simp add: zcount_of_def length_takeWhile_le)
  show ?thesis
  proof (cases "?s = []")
    case True
    then show ?thesis using z by (simp add: b58_data_def Let_def)
  next
    case False
    then have n: "1 \<le> length ?s" by (cases ?s) auto
    have "length (dropWhile (\<lambda>b. b = 0) (dec_loop ?s (replicate (length ?s * 733 div 1000 + 1) 0))) \<le>
        length ?s * 733 div 1000 + 1"
      using length_dropWhile_le dec_loop_length by (metis length_replicate)
    also have "\<dots> \<le> length ?s" using n by linarith
    finally show ?thesis using z by (simp add: b58_data_def Let_def del: replicate.simps)
  qed
qed

lemma base58chars_nonzero: "unat (d :: u8) < 58 \<Longrightarrow> base58chars ! unat d \<noteq> 0"
proof -
  assume "unat d < 58"
  moreover have "\<forall>k\<in>set [0..<58]. base58chars ! k \<noteq> 0" by code_simp
  ultimately show ?thesis by simp
qed

lemma b58_string_nonzero: "0 \<notin> set (b58_string data)"
  using digits_val(3) [of data] base58chars_nonzero base58chars_nonzero [of 0]
  by (auto simp: b58_string_def)

lemma check_decode_eq:
  "BRBase58CheckDecode str data =
     (let bs = b58_data str; n = length bs - 4;
          len = (if 4 \<le> length bs \<and> drop n bs = take 4 (BRSHA256_2 (take n bs)) then n else 0)
      in (if (case data of None \<Rightarrow> True | Some d \<Rightarrow> len \<le> length d) then len else 0,
          if 4 \<le> length bs then put data 0 (take len bs) else data))"
proof -
  let ?bs = "b58_data str"
  have "BRBase58Decode str (Some (replicate (length str) 0)) =
      (length ?bs, Some (?bs @ drop (length ?bs) (replicate (length str) 0)))"
    using b58_data_length [of str] by (intro writes_Some [OF b58dec.ser_writes]) simp_all
  then show ?thesis by (cases data) (simp_all add: BRBase58CheckDecode_def Let_def)
qed

lemma CheckEncode_eq: "BRBase58CheckEncode data b = BRBase58Encode (data @ take 4 (BRSHA256_2 data)) b"
  by (simp add: BRBase58CheckEncode_def Let_def)

section \<open>Properties\<close>

text \<open>Base58 encoding of any data is a C string without inner terminator, of exactly the length
  announced for a \<open>NULL\<close> buffer, and decoding it gives the data back, leading zeroes included; the
  buffers sized with 138/100 and 733/1000 always have room.\<close>

theorem base58_roundtrip:
  "\<exists>s. BRBase58Encode data None = (length s + 1, None) \<and>
     BRBase58Encode data (Some (replicate (length s + 1) 0)) = (length s + 1, Some (s @ [0])) \<and> 0 \<notin> set s \<and>
     BRBase58Decode s None = (length data, None) \<and>
     BRBase58Decode s (Some (replicate (length data) 0)) = (length data, Some data)"
  using writes_None [OF b58enc.ser_writes, of data] writes_None [OF b58dec.ser_writes, of "b58_string data"]
    writes_Some [OF b58enc.ser_writes, of data "replicate (length (b58_string data) + 1) 0"]
    writes_Some [OF b58dec.ser_writes, of "b58_string data" "replicate (length data) 0"]
  by (intro exI [of _ "b58_string data"]) (simp add: b58_data_string b58_string_nonzero)

text \<open>\<open>BRBase58CheckDecode\<close> accepts a string exactly when it decodes to at least 4 bytes of which
  the last 4 are the first 4 of the double SHA-256 of the rest, and then returns the rest; every string
  written by \<open>BRBase58CheckEncode\<close> is accepted and gives the payload back.\<close>

theorem base58check_roundtrip:
  "BRBase58CheckDecode str None =
     (let bs = b58_data str; n = length bs - 4
      in (if 4 \<le> length bs \<and> drop n bs = take 4 (BRSHA256_2 (take n bs)) then n else 0, None)) \<and>
   (\<exists>s. BRBase58CheckEncode data (Some (replicate (fst (BRBase58CheckEncode data None)) 0)) =
          (length s + 1, Some (s @ [0])) \<and>
      BRBase58CheckDecode s None = (length data, None) \<and>
      BRBase58CheckDecode s (Some (replicate (length data) 0)) = (length data, Some data))"
proof
  show "BRBase58CheckDecode str None =
     (let bs = b58_data str; n = length bs - 4
      in (if 4 \<le> length bs \<and> drop n bs = take 4 (BRSHA256_2 (take n bs)) then n else 0, None))"
    by (simp add: check_decode_eq Let_def)
  let ?p = "data @ take 4 (BRSHA256_2 data)"
  let ?s = "b58_string ?p"
  note e = CheckEncode_eq [of data]
  have "BRBase58CheckEncode data (Some (replicate (fst (BRBase58CheckEncode data None)) 0)) =
      (length ?s + 1, Some (?s @ [0]))"
    using writes_None [OF b58enc.ser_writes, of ?p]
      writes_Some [OF b58enc.ser_writes, of ?p "replicate (length ?s + 1) 0"] unfolding e by simp
  moreover have "BRBase58CheckDecode ?s None = (length data, None)"
    "BRBase58CheckDecode ?s (Some (replicate (length data) 0)) = (length data, Some data)"
    by (simp_all add: check_decode_eq Let_def b58_data_string put_def memcpy_at_def)
  ultimately show "\<exists>s. BRBase58CheckEncode data (Some (replicate (fst (BRBase58CheckEncode data None)) 0)) =
          (length s + 1, Some (s @ [0])) \<and> BRBase58CheckDecode s None = (length data, None) \<and>
      BRBase58CheckDecode s (Some (replicate (length data) 0)) = (length data, Some data)"
    by blast
qed

end
