(* ===== verification/Address.thy ===== *)
theory Address
  imports Script Base58
begin

text \<open>
  The second half of \<^verbatim>\<open>Libraries/loafwallet-core/BRAddress.c\<close> (and \<^verbatim>\<open>BRAddress.h\<close>): addresses of output
  and input scripts and back, in the build without \<open>BITCOIN_TESTNET\<close>. An address is a C string. \<open>None\<close> is
  a read outside the script, which the lemmas exclude for every script. They also show which output
  scripts have an address, and that the script of an address has that address again.
\<close>

section \<open>Model\<close>

definition MAX_SCRIPT_LENGTH :: nat where "MAX_SCRIPT_LENGTH = 0x100"
definition BITCOIN_PUBKEY_ADDRESS :: u8 where "BITCOIN_PUBKEY_ADDRESS = 48"
definition BITCOIN_SCRIPT_ADDRESS :: u8 where "BITCOIN_SCRIPT_ADDRESS = 50"

text \<open>\<open>BRScriptData\<close> of the element at offset \<open>p\<close>, with the bytes behind the returned pointer.\<close>

definition elem_data :: "u8 list \<Rightarrow> nat \<Rightarrow> (size_t \<times> u8 list option) option" where
  "elem_data script p =
     (case BRScriptData (drop p script) of
        None \<Rightarrow> None
      | Some (l, None) \<Rightarrow> Some (l, None)
      | Some (l, Some off) \<Rightarrow>
          if p + off + l \<le> length script then Some (l, Some (take l (drop (p + off) script))) else None)"

text \<open>\<open>return (d) ? BRBase58CheckEncode(addr, addrLen, data, sizeof(data)) : 0\<close>\<close>

definition encode_or_0 :: "u8 list option \<Rightarrow> wbuf \<Rightarrow> size_t \<times> wbuf" where
  "encode_or_0 data addr = (case data of None \<Rightarrow> (0, addr) | Some bs \<Rightarrow> BRBase58CheckEncode bs addr)"

definition BRAddressFromScriptPubKey :: "u8 list \<Rightarrow> wbuf \<Rightarrow> (size_t \<times> wbuf) option" where
  "BRAddressFromScriptPubKey script addr =
     (if script = [] \<or> length script > MAX_SCRIPT_LENGTH then Some (0, addr)
      else
        let (count, ps) = BRScriptElements (Some (fst (BRScriptElements None script))) script;
            elem = (\<lambda>k. script ! (ps ! k)) in
        if count = 5 \<and> elem 0 = OP_DUP \<and> elem 1 = OP_HASH160 \<and> elem 2 = 20 \<and>
           elem 3 = OP_EQUALVERIFY \<and> elem 4 = OP_CHECKSIG
        then map_option (\<lambda>(l, d). encode_or_0
               (map_option (\<lambda>d. BITCOIN_PUBKEY_ADDRESS # take 20 d) (if l \<noteq> 20 then None else d)) addr)
               (elem_data script (ps ! 2))
        else if count = 3 \<and> elem 0 = OP_HASH160 \<and> elem 1 = 20 \<and> elem 2 = OP_EQUAL
        then map_option (\<lambda>(l, d). encode_or_0
               (map_option (\<lambda>d. BITCOIN_SCRIPT_ADDRESS # take 20 d) (if l \<noteq> 20 then None else d)) addr)
               (elem_data script (ps ! 1))
        else if count = 2 \<and> (elem 0 = 65 \<or> elem 0 = 33) \<and> elem 1 = OP_CHECKSIG
        then map_option (\<lambda>(l, d). encode_or_0
               (map_option (\<lambda>d. BITCOIN_PUBKEY_ADDRESS # BRHash160 d) (if l \<noteq> 65 \<and> l \<noteq> 33 then None else d)) addr)
               (elem_data script (ps ! 0))
        else Some (0, addr))"

definition BRAddressFromScriptSig :: "u8 list \<Rightarrow> wbuf \<Rightarrow> (size_t \<times> wbuf) option" where
  "BRAddressFromScriptSig script addr =
     (if script = [] \<or> length script > MAX_SCRIPT_LENGTH then Some (0, addr)
      else
        let (count, ps) = BRScriptElements (Some (fst (BRScriptElements None script))) script;
            elem = (\<lambda>k. script ! (ps ! k)) in
        if count \<ge> 2 \<and> elem (count - 2) \<le> OP_PUSHDATA4 \<and> (elem (count - 1) = 65 \<or> elem (count - 1) = 33)
        then map_option (\<lambda>(l, d). encode_or_0
               (map_option (\<lambda>d. BITCOIN_PUBKEY_ADDRESS # BRHash160 d) (if l \<noteq> 65 \<and> l \<noteq> 33 then None else d)) addr)
               (elem_data script (ps ! (count - 1)))
        else if count \<ge> 2 \<and> elem (count - 2) \<le> OP_PUSHDATA4 \<and> elem (count - 1) \<le> OP_PUSHDATA4 \<and> elem (count - 1) > 0
        then map_option (\<lambda>(l, d). encode_or_0 (map_option (\<lambda>d. BITCOIN_SCRIPT_ADDRESS # BRHash160 d) d) addr)
               (elem_data script (ps ! (count - 1)))
        else Some (0, addr))"

text \<open>\<open>BRBase58CheckDecode(data, sizeof(data), addr) == 21\<close>, with the 21 bytes if so.\<close>

definition decode21 :: "u8 list \<Rightarrow> u8 list option" where
  "decode21 addr =
     (let (n, d) = BRBase58CheckDecode addr (Some (replicate 21 0)) in if n = 21 then d else None)"

definition BRAddressScriptPubKey :: "u8 list \<Rightarrow> wbuf \<Rightarrow> size_t \<times> wbuf" where
  "BRAddressScriptPubKey addr script =
     (let fits = (\<lambda>n. case script of None \<Rightarrow> True | Some d \<Rightarrow> n \<le> length d) in
      case decode21 addr of
        None \<Rightarrow> (0, script)
      | Some data \<Rightarrow>
          if data ! 0 = BITCOIN_PUBKEY_ADDRESS
          then (if fits 25 then 25 else 0,
                put script 0 ([OP_DUP, OP_HASH160, 20] @ take 20 (drop 1 data) @ [OP_EQUALVERIFY, OP_CHECKSIG]))
          else if data ! 0 = BITCOIN_SCRIPT_ADDRESS
          then (if fits 23 then 23 else 0,
                put script 0 ([OP_HASH160, 20] @ take 20 (drop 1 data) @ [OP_EQUAL]))
          else (0, script))"

definition BRAddressIsValid :: "u8 list \<Rightarrow> bool" where
  "BRAddressIsValid addr =
     (case decode21 addr of None \<Rightarrow> False
      | Some data \<Rightarrow> data ! 0 = BITCOIN_PUBKEY_ADDRESS \<or> data ! 0 = BITCOIN_SCRIPT_ADDRESS)"

text \<open>The 20 bytes written to \<open>md20\<close> if the call returns true.\<close>

definition BRAddressHash160 :: "u8 list \<Rightarrow> u8 list option" where
  "BRAddressHash160 addr = map_option (\<lambda>data. take 20 (drop 1 data)) (decode21 addr)"

definition BRAddressHash :: "u8 list \<Rightarrow> size_t" where
  "BRAddressHash addr = unat (BRMurmur3_32 addr 0)"

text \<open>\<open>strncmp\<close> over the 36 bytes of a \<open>BRAddress\<close>.\<close>

definition BRAddressEq :: "u8 list \<Rightarrow> u8 list \<Rightarrow> bool" where
  "BRAddressEq addr otherAddr \<longleftrightarrow> take 36 addr = take 36 otherAddr"

section \<open>No read leaves the script\<close>

lemma tiles_nth: "tiles script ps \<Longrightarrow> k < length ps \<Longrightarrow>
    elem_fits script (ps ! k) (if Suc k < length ps then ps ! Suc k else length script)"
proof (induction script ps arbitrary: k rule: tiles.induct)
  case (3 script p q ps)
  show ?case
  proof (cases k)
    case (Suc j)
    then show ?thesis using "3.IH" [of j] "3.prems" by (simp split: if_splits)
  qed (use "3.prems" in simp)
qed auto

lemma elem_fits_data: "elem_fits script p q \<Longrightarrow> \<exists>l d. elem_data script p = Some (l, d)"
  by (auto simp: elem_fits_def elem_data_def)

lemma elements_tile:
  assumes "BRScriptElements (Some (fst (BRScriptElements None script))) script = (count, ps)"
  shows "0 < count \<Longrightarrow> length ps = count \<and> hd ps = 0 \<and> tiles script ps"
proof -
  let ?r = "elems_loop script 0 0"
  assume c: "0 < count"
  then have "snd ?r = length script" "ps = fst ?r" "count = length (fst ?r)"
    using assms by (auto simp: BRScriptElements_def split_beta Let_def split: if_splits)
  then show ?thesis using elems_loop_tiles [of script 0 0] c by auto
qed

lemma elem_data_total:
  assumes "BRScriptElements (Some (fst (BRScriptElements None script))) script = (count, ps)" "k < count"
  shows "\<exists>l d. elem_data script (ps ! k) = Some (l, d)"
proof -
  have "length ps = count \<and> tiles script ps" using elements_tile [OF assms(1)] assms(2) by simp
  then show ?thesis using tiles_nth [of script ps k] assms(2) elem_fits_data by auto
qed

lemma if_not_None: "(c \<Longrightarrow> a \<noteq> None) \<Longrightarrow> (\<not> c \<Longrightarrow> b \<noteq> None) \<Longrightarrow> (if c then a else b) \<noteq> None"
  by simp

lemma map_not_None: "a \<noteq> None \<Longrightarrow> map_option f a \<noteq> None"
  by simp

lemma from_script_safe:
  "BRAddressFromScriptPubKey script addr \<noteq> None \<and> BRAddressFromScriptSig script addr \<noteq> None"
proof -
  obtain count ps where e: "BRScriptElements (Some (fst (BRScriptElements None script))) script = (count, ps)"
    by fastforce
  have d: "k < count \<Longrightarrow> elem_data script (ps ! k) \<noteq> None" for k
    using elem_data_total [OF e] by auto
  show ?thesis
    unfolding BRAddressFromScriptPubKey_def BRAddressFromScriptSig_def e Let_def prod.case
    by (intro conjI; intro if_not_None map_not_None d) auto
qed

text \<open>For every script, of any content and length, deriving the address of an output or an input
  never reads outside the script: the elements \<open>BRScriptElements\<close> found always have their data in it.\<close>

theorem address_from_script_safe:
  "BRAddressFromScriptPubKey script addr \<noteq> None \<and> BRAddressFromScriptSig script addr \<noteq> None"
  by (rule from_script_safe)

section \<open>Which output scripts have an address\<close>

lemma fits_op: "elem_fits script p q \<Longrightarrow> OP_PUSHDATA4 < script ! p \<Longrightarrow> q = p + 1"
  by (auto simp: elem_fits_def header_len_def BRScriptData_def op_defs Let_def split: if_splits)

lemma fits_push:
  assumes "elem_fits script p q" "0 < script ! p" "script ! p < OP_PUSHDATA1"
  shows "q = p + 1 + unat (script ! p)"
    "elem_data script p = Some (unat (script ! p), Some (take (unat (script ! p)) (drop (p + 1) script)))"
proof -
  have ne: "script ! p \<noteq> OP_PUSHDATA1" "script ! p \<noteq> OP_PUSHDATA2" "script ! p \<noteq> OP_PUSHDATA4"
    "\<not> script ! p > OP_PUSHDATA4" using assms(3) by (auto simp: op_defs word_less_nat_alt)
  have p: "drop p script \<noteq> []" "drop p script ! 0 = script ! p" using assms(1) by (auto simp: elem_fits_def)
  have pos: "0 < unat (script ! p)" using assms(2) by (simp add: word_less_nat_alt)
  have d: "BRScriptData (drop p script) = Some (unat (script ! p), Some 1)"
    using p ne pos by (simp add: BRScriptData_def)
  show q: "q = p + 1 + unat (script ! p)"
    using d assms(1) ne by (auto simp: elem_fits_def header_len_def split: if_splits)
  have "q \<le> length script" using assms(1) by (simp add: elem_fits_def)
  then have "p + 1 + unat (script ! p) \<le> length script" unfolding q .
  then show "elem_data script p = Some (unat (script ! p), Some (take (unat (script ! p)) (drop (p + 1) script)))"
    unfolding elem_data_def d by simp
qed

text \<open>The three templates: pay to public key hash, to script hash, and to a public key of 65 or 33 bytes.\<close>

definition template_payload :: "u8 list \<Rightarrow> u8 list option" where
  "template_payload script =
     (if length script = 25 \<and> take 3 script = [OP_DUP, OP_HASH160, 20] \<and> drop 23 script = [OP_EQUALVERIFY, OP_CHECKSIG]
      then Some (BITCOIN_PUBKEY_ADDRESS # take 20 (drop 3 script))
      else if length script = 23 \<and> take 2 script = [OP_HASH160, 20] \<and> drop 22 script = [OP_EQUAL]
      then Some (BITCOIN_SCRIPT_ADDRESS # take 20 (drop 2 script))
      else if length script \<in> {67, 35} \<and> unat (script ! 0) = length script - 2 \<and>
          script ! (length script - 1) = OP_CHECKSIG
      then Some (BITCOIN_PUBKEY_ADDRESS # BRHash160 (take (length script - 2) (drop 1 script)))
      else None)"

lemma take_nths: "k \<le> length xs \<Longrightarrow> take k xs = map (nth xs) [0..<k]"
  by (simp add: list_eq_iff_nth_eq)

lemma drop_nths: "length xs = n \<Longrightarrow> drop k xs = map (nth xs) [k..<n]"
  by (simp add: list_eq_iff_nth_eq)

lemma header_op: "OP_PUSHDATA4 < script ! p \<Longrightarrow> elem_header script p len = (p + 1, 0)"
  by (auto simp: elem_header_def op_defs Let_def)

lemma header_small: "script ! p < OP_PUSHDATA1 \<Longrightarrow> elem_header script p len = (p + 1, unat (script ! p))"
  by (auto simp: elem_header_def op_defs Let_def word_less_nat_alt)

lemma loop_op: "p < length script \<Longrightarrow> OP_PUSHDATA4 < script ! p \<Longrightarrow>
    elems_loop script p len = (p # fst (elems_loop script (p + 1) 0), snd (elems_loop script (p + 1) 0))"
  using elems_loop_step [OF _ header_op [of script p len]] by simp

lemma loop_small: "p < length script \<Longrightarrow> script ! p < OP_PUSHDATA1 \<Longrightarrow> unat (script ! p) = n \<Longrightarrow>
    elems_loop script p len = (p # fst (elems_loop script (p + 1 + n) n), snd (elems_loop script (p + 1 + n) n))"
  using elems_loop_step [OF _ header_small [of script p len]] by simp

lemma loop_done: "length script \<le> p \<Longrightarrow> elems_loop script p len = ([], p)"
  by (subst elems_loop.simps) simp

lemma elements_of_loop:
  assumes "elems_loop script 0 0 = (ps, length script)"
  shows "BRScriptElements (Some (fst (BRScriptElements None script))) script = (length ps, ps)"
  by (simp add: BRScriptElements_def assms)

lemma p2pkh_elements:
  assumes "length script = 25" "take 3 script = [OP_DUP, OP_HASH160, 20]" "drop 23 script = [OP_EQUALVERIFY, OP_CHECKSIG]"
  shows "elems_loop script 0 0 = ([0, 1, 2, 23, 24], length script)"
    "script ! 0 = OP_DUP" "script ! 1 = OP_HASH160" "script ! 2 = 20" "script ! 23 = OP_EQUALVERIFY" "script ! 24 = OP_CHECKSIG"
proof -
  show op: "script ! 0 = OP_DUP" "script ! 1 = OP_HASH160" "script ! 2 = 20"
    using assms(2) take_nths [of 3 script] assms(1) by (simp_all add: upt_rec numeral_2_eq_2)
  show op': "script ! 23 = OP_EQUALVERIFY" "script ! 24 = OP_CHECKSIG"
    using assms(3) drop_nths [OF assms(1), of 23] by (simp_all add: upt_rec)
  have u: "unat (script ! 2) = 20" "script ! 2 < OP_PUSHDATA1" using op by (simp_all add: op_defs)
  have g: "OP_PUSHDATA4 < script ! 0" "OP_PUSHDATA4 < script ! 1" "OP_PUSHDATA4 < script ! 23" "OP_PUSHDATA4 < script ! 24"
    using op op' by (simp_all add: op_defs)
  show "elems_loop script 0 0 = ([0, 1, 2, 23, 24], length script)"
    using loop_op [of 0 script 0] loop_op [of 1 script 0] loop_small [OF _ u(2,1), of 0]
      loop_op [of 23 script 20] loop_op [of 24 script 0] loop_done [of script 25 0] g assms(1)
    by (simp add: numeral_2_eq_2 [symmetric])
qed

lemma p2sh_elements:
  assumes "length script = 23" "take 2 script = [OP_HASH160, 20]" "drop 22 script = [OP_EQUAL]"
  shows "elems_loop script 0 0 = ([0, 1, 22], length script)"
    "script ! 0 = OP_HASH160" "script ! 1 = 20" "script ! 22 = OP_EQUAL"
proof -
  show op: "script ! 0 = OP_HASH160" "script ! 1 = 20"
    using assms(2) take_nths [of 2 script] assms(1) by (simp_all add: upt_rec)
  show op': "script ! 22 = OP_EQUAL" using assms(3) drop_nths [OF assms(1), of 22] by (simp add: upt_rec)
  have u: "unat (script ! 1) = 20" "script ! 1 < OP_PUSHDATA1" using op by (simp_all add: op_defs)
  have g: "OP_PUSHDATA4 < script ! 0" "OP_PUSHDATA4 < script ! 22" using op op' by (simp_all add: op_defs)
  show "elems_loop script 0 0 = ([0, 1, 22], length script)"
    using loop_op [of 0 script 0] loop_small [OF _ u(2,1), of 0] loop_op [of 22 script 20]
      loop_done [of script 23 0] g assms(1) by simp
qed

lemma p2pk_elements:
  assumes "length script = n + 2" "unat (script ! 0) = n" "n = 65 \<or> n = 33" "script ! (n + 1) = OP_CHECKSIG"
  shows "elems_loop script 0 0 = ([0, n + 1], length script)"
proof -
  have u: "script ! 0 < OP_PUSHDATA1" using assms(2,3) by (auto simp: op_defs word_less_nat_alt)
  have g: "OP_PUSHDATA4 < script ! (n + 1)" unfolding assms(4) by (simp add: op_defs)
  show ?thesis
    using loop_small [OF _ u assms(2), of 0] loop_op [of "n + 1" script n] loop_done [of script "n + 2" 0] g assms(1)
    by simp
qed

text \<open>Conversely, the opcodes at the element positions determine the template.\<close>

lemma p2pkh_template:
  assumes "tiles script [0, p1, p2, p3, p4]"
    and "script ! 0 = OP_DUP" "script ! p1 = OP_HASH160" "script ! p2 = 20"
    "script ! p3 = OP_EQUALVERIFY" "script ! p4 = OP_CHECKSIG"
  shows "length script = 25 \<and> take 3 script = [OP_DUP, OP_HASH160, 20] \<and>
      drop 23 script = [OP_EQUALVERIFY, OP_CHECKSIG] \<and>
      elem_data script p2 = Some (20, Some (take 20 (drop 3 script)))"
proof -
  have t: "elem_fits script 0 p1" "elem_fits script p1 p2" "elem_fits script p2 p3" "elem_fits script p3 p4"
    "elem_fits script p4 (length script)" using assms(1) by simp_all
  have p: "p1 = 1" "p2 = 2"
    using fits_op [OF t(1)] fits_op [OF t(2)] assms(2,3) by (simp_all add: op_defs)
  have p3: "p3 = 23" and d: "elem_data script p2 = Some (20, Some (take 20 (drop 3 script)))"
    using fits_push [OF t(3)] assms(4) p(2) by (simp_all add: op_defs)
  have p4: "p4 = 24" using fits_op [OF t(4)] assms(5) p3 by (simp add: op_defs)
  have l: "length script = 25" using fits_op [OF t(5)] assms(6) p4 by (simp add: op_defs)
  have "take 3 script = [OP_DUP, OP_HASH160, 20]"
    using take_nths [of 3 script] l assms(2-4) p by (simp add: upt_rec numeral_2_eq_2)
  moreover have "drop 23 script = [OP_EQUALVERIFY, OP_CHECKSIG]"
    using drop_nths [OF l, of 23] assms(5,6) p3 p4 by (simp add: upt_rec)
  ultimately show ?thesis using l d by simp
qed

lemma p2sh_template:
  assumes "tiles script [0, p1, p2]"
    and "script ! 0 = OP_HASH160" "script ! p1 = 20" "script ! p2 = OP_EQUAL"
  shows "length script = 23 \<and> take 2 script = [OP_HASH160, 20] \<and> drop 22 script = [OP_EQUAL] \<and>
      elem_data script p1 = Some (20, Some (take 20 (drop 2 script)))"
proof -
  have t: "elem_fits script 0 p1" "elem_fits script p1 p2" "elem_fits script p2 (length script)"
    using assms(1) by simp_all
  have p: "p1 = 1" using fits_op [OF t(1)] assms(2) by (simp add: op_defs)
  have p2: "p2 = 22" and d0: "elem_data script p1 = Some (20, Some (take 20 (drop (Suc (Suc 0)) script)))"
    using fits_push [OF t(2)] assms(3) p by (simp_all add: op_defs)
  have d: "elem_data script p1 = Some (20, Some (take 20 (drop 2 script)))"
    using d0 by (simp add: numeral_2_eq_2)
  have l: "length script = 23" using fits_op [OF t(3)] assms(4) p2 by (simp add: op_defs)
  have "take 2 script = [OP_HASH160, 20]"
    using take_nths [of 2 script] l assms(2,3) p by (simp add: upt_rec)
  moreover have "drop 22 script = [OP_EQUAL]"
    using drop_nths [OF l, of 22] assms(4) p2 by (simp add: upt_rec)
  ultimately show ?thesis using l d by simp
qed

lemma p2pk_template:
  assumes "tiles script [0, p1]"
    and "unat (script ! 0) = n" "n = 65 \<or> n = 33" "script ! p1 = OP_CHECKSIG"
  shows "length script = n + 2 \<and> script ! (n + 1) = OP_CHECKSIG \<and>
      elem_data script 0 = Some (n, Some (take n (drop 1 script)))"
proof -
  have t: "elem_fits script 0 p1" "elem_fits script p1 (length script)" using assms(1) by simp_all
  have "0 < script ! 0" "script ! 0 < OP_PUSHDATA1"
    using assms(2,3) by (auto simp: word_less_nat_alt op_defs)
  then have p: "p1 = n + 1" and d: "elem_data script 0 = Some (n, Some (take n (drop 1 script)))"
    using fits_push [OF t(1)] assms(2) by simp_all
  then show ?thesis using fits_op [OF t(2)] assms(4) by (simp add: op_defs)
qed

definition is_p2pkh :: "u8 list \<Rightarrow> bool" where
  "is_p2pkh script \<longleftrightarrow> length script = 25 \<and> take 3 script = [OP_DUP, OP_HASH160, 20] \<and>
     drop 23 script = [OP_EQUALVERIFY, OP_CHECKSIG]"

definition is_p2sh :: "u8 list \<Rightarrow> bool" where
  "is_p2sh script \<longleftrightarrow> length script = 23 \<and> take 2 script = [OP_HASH160, 20] \<and> drop 22 script = [OP_EQUAL]"

definition is_p2pk :: "u8 list \<Rightarrow> bool" where
  "is_p2pk script \<longleftrightarrow> length script \<in> {67, 35} \<and> unat (script ! 0) = length script - 2 \<and>
     script ! (length script - 1) = OP_CHECKSIG"

lemma guard_p2pkh:
  assumes "BRScriptElements (Some (fst (BRScriptElements None script))) script = (count, ps)"
  shows "count = 5 \<and> script ! (ps ! 0) = OP_DUP \<and> script ! (ps ! 1) = OP_HASH160 \<and> script ! (ps ! 2) = 20 \<and>
      script ! (ps ! 3) = OP_EQUALVERIFY \<and> script ! (ps ! 4) = OP_CHECKSIG \<longleftrightarrow> is_p2pkh script"
    and "is_p2pkh script \<Longrightarrow> elem_data script (ps ! 2) = Some (20, Some (take 20 (drop 3 script)))"
proof -
  have T: "count = 5 \<and> ps = [0, 1, 2, 23, 24] \<and> tiles script ps \<and> script ! 0 = OP_DUP \<and> script ! 1 = OP_HASH160 \<and>
      script ! 2 = 20 \<and> script ! 23 = OP_EQUALVERIFY \<and> script ! 24 = OP_CHECKSIG" if "is_p2pkh script"
    using elements_of_loop [OF p2pkh_elements(1)] p2pkh_elements(2-) that assms elements_tile [OF assms]
    by (simp add: is_p2pkh_def)
  have G: "is_p2pkh script" if g: "count = 5 \<and> script ! (ps ! 0) = OP_DUP \<and> script ! (ps ! 1) = OP_HASH160 \<and>
      script ! (ps ! 2) = 20 \<and> script ! (ps ! 3) = OP_EQUALVERIFY \<and> script ! (ps ! 4) = OP_CHECKSIG"
  proof -
    have "length ps = 5" "hd ps = 0" "tiles script ps" using elements_tile [OF assms] g by simp_all
    moreover from this(1) obtain p0 p1 p2 p3 p4 where "ps = [p0, p1, p2, p3, p4]"
      by (auto simp: numeral_eq_Suc length_Suc_conv)
    ultimately show ?thesis using p2pkh_template [of script p1 p2 p3 p4] g by (simp add: is_p2pkh_def)
  qed
  show "count = 5 \<and> script ! (ps ! 0) = OP_DUP \<and> script ! (ps ! 1) = OP_HASH160 \<and> script ! (ps ! 2) = 20 \<and>
      script ! (ps ! 3) = OP_EQUALVERIFY \<and> script ! (ps ! 4) = OP_CHECKSIG \<longleftrightarrow> is_p2pkh script"
  proof
    assume "is_p2pkh script"
    from T [OF this] show "count = 5 \<and> script ! (ps ! 0) = OP_DUP \<and> script ! (ps ! 1) = OP_HASH160 \<and>
      script ! (ps ! 2) = 20 \<and> script ! (ps ! 3) = OP_EQUALVERIFY \<and> script ! (ps ! 4) = OP_CHECKSIG"
      by (elim conjE) simp
  qed (rule G)
  show "elem_data script (ps ! 2) = Some (20, Some (take 20 (drop 3 script)))" if "is_p2pkh script"
    using T [OF that] p2pkh_template [of script 1 2 23 24] by (elim conjE) simp
qed

lemma guard_p2sh:
  assumes "BRScriptElements (Some (fst (BRScriptElements None script))) script = (count, ps)"
  shows "count = 3 \<and> script ! (ps ! 0) = OP_HASH160 \<and> script ! (ps ! 1) = 20 \<and> script ! (ps ! 2) = OP_EQUAL \<longleftrightarrow>
      is_p2sh script"
    and "is_p2sh script \<Longrightarrow> elem_data script (ps ! 1) = Some (20, Some (take 20 (drop 2 script)))"
proof -
  have T: "count = 3 \<and> ps = [0, 1, 22] \<and> tiles script ps \<and> script ! 0 = OP_HASH160 \<and> script ! 1 = 20 \<and>
      script ! 22 = OP_EQUAL" if "is_p2sh script"
    using elements_of_loop [OF p2sh_elements(1)] p2sh_elements(2-) that assms elements_tile [OF assms]
    by (simp add: is_p2sh_def)
  have G: "is_p2sh script" if g: "count = 3 \<and> script ! (ps ! 0) = OP_HASH160 \<and> script ! (ps ! 1) = 20 \<and>
      script ! (ps ! 2) = OP_EQUAL"
  proof -
    have "length ps = 3" "hd ps = 0" "tiles script ps" using elements_tile [OF assms] g by simp_all
    moreover from this(1) obtain p0 p1 p2 where "ps = [p0, p1, p2]"
      by (auto simp: numeral_eq_Suc length_Suc_conv)
    ultimately show ?thesis using p2sh_template [of script p1 p2] g by (simp add: is_p2sh_def)
  qed
  show "count = 3 \<and> script ! (ps ! 0) = OP_HASH160 \<and> script ! (ps ! 1) = 20 \<and> script ! (ps ! 2) = OP_EQUAL \<longleftrightarrow>
      is_p2sh script"
  proof
    assume "is_p2sh script"
    from T [OF this] show "count = 3 \<and> script ! (ps ! 0) = OP_HASH160 \<and> script ! (ps ! 1) = 20 \<and>
        script ! (ps ! 2) = OP_EQUAL" by (elim conjE) simp
  qed (rule G)
  show "elem_data script (ps ! 1) = Some (20, Some (take 20 (drop 2 script)))" if "is_p2sh script"
    using T [OF that] p2sh_template [of script 1 22] by (elim conjE) simp
qed

lemma guard_p2pk:
  assumes "BRScriptElements (Some (fst (BRScriptElements None script))) script = (count, ps)"
  shows "count = 2 \<and> (script ! (ps ! 0) = 65 \<or> script ! (ps ! 0) = 33) \<and> script ! (ps ! 1) = OP_CHECKSIG \<longleftrightarrow>
      is_p2pk script"
    and "is_p2pk script \<Longrightarrow>
      elem_data script (ps ! 0) = Some (length script - 2, Some (take (length script - 2) (drop 1 script)))"
proof -
  have T: "count = 2 \<and> ps = [0, n + 1] \<and> tiles script ps \<and> unat (script ! 0) = n \<and> (n = 65 \<or> n = 33) \<and>
      script ! (n + 1) = OP_CHECKSIG \<and> length script = n + 2" if "is_p2pk script" "n = length script - 2" for n
  proof -
    have n: "length script = n + 2" "unat (script ! 0) = n" "n = 65 \<or> n = 33" "script ! (n + 1) = OP_CHECKSIG"
      using that by (auto simp: is_p2pk_def)
    have "(count, ps) = (2, [0, n + 1])"
      using elements_of_loop [OF p2pk_elements [OF n]] assms by simp
    then have "count = 2" "ps = [0, n + 1]" by simp_all
    moreover have "tiles script ps" using elements_tile [OF assms] \<open>count = 2\<close> by simp
    ultimately show ?thesis using n by blast
  qed
  have G: "is_p2pk script" if g: "count = 2 \<and> (script ! (ps ! 0) = 65 \<or> script ! (ps ! 0) = 33) \<and>
      script ! (ps ! 1) = OP_CHECKSIG"
  proof -
    have "length ps = 2" "hd ps = 0" "tiles script ps" using elements_tile [OF assms] g by simp_all
    moreover from this(1) obtain p0 p1 where "ps = [p0, p1]" by (auto simp: numeral_eq_Suc length_Suc_conv)
    ultimately have p: "ps = [0, p1]" "tiles script [0, p1]" by simp_all
    have cs: "script ! p1 = OP_CHECKSIG" using g p(1) by simp
    obtain n where n: "unat (script ! 0) = n" "n = 65 \<or> n = 33" using g p(1) by auto
    have "length script = n + 2" "script ! (n + 1) = OP_CHECKSIG"
      using p2pk_template [OF p(2) n cs] by simp_all
    then show ?thesis using n unfolding is_p2pk_def by (elim disjE) simp_all
  qed
  show "count = 2 \<and> (script ! (ps ! 0) = 65 \<or> script ! (ps ! 0) = 33) \<and> script ! (ps ! 1) = OP_CHECKSIG \<longleftrightarrow>
      is_p2pk script"
  proof
    assume "is_p2pk script"
    from T [OF this refl] show "count = 2 \<and> (script ! (ps ! 0) = 65 \<or> script ! (ps ! 0) = 33) \<and>
        script ! (ps ! 1) = OP_CHECKSIG" by (auto simp: word_unat_eq_iff)
  qed (rule G)
  show "elem_data script (ps ! 0) = Some (length script - 2, Some (take (length script - 2) (drop 1 script)))"
    if "is_p2pk script"
  proof -
    define n where "n = length script - 2"
    from T [OF that this] p2pk_template [of script "n + 1" n]
    have "elem_data script (ps ! 0) = Some (n, Some (take n (drop 1 script)))" by (elim conjE) simp
    then show ?thesis by (simp add: n_def)
  qed
qed

lemma from_script_templates:
  "BRAddressFromScriptPubKey script addr = Some (encode_or_0 (template_payload script) addr)"
proof -
  obtain count ps where e: "BRScriptElements (Some (fst (BRScriptElements None script))) script = (count, ps)"
    by fastforce
  note g = guard_p2pkh [OF e] guard_p2sh [OF e] guard_p2pk [OF e]
  have t: "template_payload script = (if is_p2pkh script then Some (BITCOIN_PUBKEY_ADDRESS # take 20 (drop 3 script))
      else if is_p2sh script then Some (BITCOIN_SCRIPT_ADDRESS # take 20 (drop 2 script))
      else if is_p2pk script then Some (BITCOIN_PUBKEY_ADDRESS # BRHash160 (take (length script - 2) (drop 1 script)))
      else None)"
    by (simp add: template_payload_def is_p2pkh_def is_p2sh_def is_p2pk_def)
  show ?thesis
  proof (cases "script = [] \<or> length script > MAX_SCRIPT_LENGTH")
    case True
    then have "template_payload script = None"
      by (auto simp: t is_p2pkh_def is_p2sh_def is_p2pk_def MAX_SCRIPT_LENGTH_def)
    then show ?thesis using True by (auto simp: BRAddressFromScriptPubKey_def encode_or_0_def)
  next
    case False
    have p2pk: "length script - 2 = 65 \<or> length script - 2 = 33" if "is_p2pk script"
      using that by (auto simp: is_p2pk_def)
    show ?thesis
    proof (cases "is_p2pkh script")
      case True
      then show ?thesis
        unfolding BRAddressFromScriptPubKey_def e Let_def prod.case t g(1) using False g(2) by simp
    next
      case not1: False
      show ?thesis
      proof (cases "is_p2sh script")
        case True
        then show ?thesis
          unfolding BRAddressFromScriptPubKey_def e Let_def prod.case t g(1,3) using False not1 g(4) by simp
      next
        case not2: False
        show ?thesis
          unfolding BRAddressFromScriptPubKey_def e Let_def prod.case t g(1,3,5)
          using False not1 not2 g(6) p2pk by (cases "is_p2pk script") (auto simp: encode_or_0_def)
      qed
    qed
  qed
qed

text \<open>An output script has an address exactly if it is one of the three templates (pay to public
  key hash, to script hash, to a 65 or 33 byte public key), and the address is then the base58check
  encoding of the version byte and the hash the template holds; for every other script the result is 0.\<close>

theorem BRAddressFromScriptPubKey_templates:
  "BRAddressFromScriptPubKey script addr = Some (encode_or_0 (template_payload script) addr)"
  by (rule from_script_templates)

section \<open>Addresses and their scripts\<close>

lemma decode21_encoded:
  assumes "length data = 21"
  shows "decode21 (b58_string (data @ take 4 (BRSHA256_2 data))) = Some data"
  using assms by (simp add: decode21_def check_decode_eq Let_def b58_data_string put_def memcpy_at_def)

definition script_of :: "u8 \<Rightarrow> u8 list \<Rightarrow> u8 list" where
  "script_of v h = (if v = BITCOIN_PUBKEY_ADDRESS then [OP_DUP, OP_HASH160, 20] @ h @ [OP_EQUALVERIFY, OP_CHECKSIG]
     else [OP_HASH160, 20] @ h @ [OP_EQUAL])"

lemma script_of_template:
  assumes "length h = 20" "v = BITCOIN_PUBKEY_ADDRESS \<or> v = BITCOIN_SCRIPT_ADDRESS"
  shows "template_payload (script_of v h) = Some (v # h)"
  using assms by (auto simp: template_payload_def script_of_def BITCOIN_PUBKEY_ADDRESS_def BITCOIN_SCRIPT_ADDRESS_def)

text \<open>C38: for every 20-byte hash and either version byte, the base58check string is a valid address with
  that hash; \<open>BRAddressScriptPubKey\<close> writes its output script (and announces the length for a \<open>NULL\<close>
  buffer); and \<open>BRAddressFromScriptPubKey\<close> of that script is the address again.\<close>

theorem address_script_roundtrip:
  assumes "length h = 20" and "v = BITCOIN_PUBKEY_ADDRESS \<or> v = BITCOIN_SCRIPT_ADDRESS"
  shows "\<exists>s script. BRBase58CheckEncode (v # h) None = (length s + 1, None) \<and>
    BRBase58CheckEncode (v # h) (Some (replicate (length s + 1) 0)) = (length s + 1, Some (s @ [0])) \<and>
    BRAddressIsValid s \<and> BRAddressHash160 s = Some h \<and>
    BRAddressScriptPubKey s None = (length script, None) \<and>
    BRAddressScriptPubKey s (Some (replicate (length script) 0)) = (length script, Some script) \<and>
    BRAddressFromScriptPubKey script (Some (replicate (length s + 1) 0)) = Some (length s + 1, Some (s @ [0]))"
proof -
  let ?p = "v # h" let ?q = "?p @ take 4 (BRSHA256_2 ?p)" let ?s = "b58_string ?q" let ?sc = "script_of v h"
  note e = CheckEncode_eq [of ?p]
  have enc: "BRBase58CheckEncode ?p None = (length ?s + 1, None)"
    "BRBase58CheckEncode ?p (Some (replicate (length ?s + 1) 0)) = (length ?s + 1, Some (?s @ [0]))"
    unfolding e using writes_None [OF b58enc.ser_writes, of ?q]
      writes_Some [OF b58enc.ser_writes, of ?q "replicate (length ?s + 1) 0"] by simp_all
  have d: "decode21 ?s = Some ?p" using decode21_encoded [of ?p] assms(1) by simp
  have len: "length ?sc = (if v = BITCOIN_PUBKEY_ADDRESS then 25 else 23)" using assms(1) by (simp add: script_of_def)
  have sc: "BRAddressScriptPubKey ?s None = (length ?sc, None)"
    "BRAddressScriptPubKey ?s (Some (replicate (length ?sc) 0)) = (length ?sc, Some ?sc)"
    using assms len d by (auto simp: BRAddressScriptPubKey_def script_of_def put_def memcpy_at_def Let_def)
  have "BRAddressFromScriptPubKey ?sc (Some (replicate (length ?s + 1) 0)) = Some (length ?s + 1, Some (?s @ [0]))"
    unfolding from_script_templates script_of_template [OF assms] encode_or_0_def
    using enc(2) by simp
  then show ?thesis
    using enc sc d assms by (intro exI [of _ ?s] exI [of _ ?sc])
      (simp add: BRAddressIsValid_def BRAddressHash160_def)
qed

theorem address_script_roundtrip_witness:
  "\<exists>s script. BRBase58CheckEncode (48 # replicate 20 7) None = (length s + 1, None) \<and>
    BRAddressIsValid s \<and> BRAddressHash160 s = Some (replicate 20 7) \<and>
    BRAddressScriptPubKey s None = (length script, None) \<and>
    BRAddressFromScriptPubKey script (Some (replicate (length s + 1) 0)) = Some (length s + 1, Some (s @ [0]))"
  using address_script_roundtrip [of "replicate 20 7" 48]
  by (simp only: length_replicate BITCOIN_PUBKEY_ADDRESS_def simp_thms) blast

end
