(* ===== verification/Writer.thy ===== *)
theory Writer
  imports Script
begin

text \<open>
  The style in which the C serializers build their output: a running offset \<open>off\<close>, guarded writes
  \<open>if (data && off + n <= dataLen) ...; off += n\<close>, nested serializer calls on the rest of the buffer, and
  a final \<open>return (! data || off <= dataLen) ? off : 0\<close>. The state of a writer is the offset and the
  buffer. \<open>emits\<close> is the contract of such a step, which composes.
\<close>

type_synonym wstate = "size_t \<times> wbuf"

definition w_put :: "u8 list \<Rightarrow> wstate \<Rightarrow> wstate" where
  "w_put bs s = (fst s + length bs, put (snd s) (fst s) bs)"

text \<open>\<open>off += f((data ? &data[off] : NULL), (off <= dataLen ? dataLen - off : 0))\<close>\<close>

definition w_call :: "(wbuf \<Rightarrow> size_t \<times> wbuf) \<Rightarrow> wstate \<Rightarrow> wstate" where
  "w_call f s = (let r = at_off (fst s) f (snd s) in (fst s + fst r, snd r))"

definition w_return :: "wstate \<Rightarrow> size_t \<times> wbuf" where
  "w_return s = (if (case snd s of None \<Rightarrow> True | Some d \<Rightarrow> fst s \<le> length d) then fst s else 0, snd s)"

definition emits :: "(wstate \<Rightarrow> wstate) \<Rightarrow> u8 list \<Rightarrow> bool" where
  "emits w bs \<longleftrightarrow> (\<forall>off. w (off, None) = (off + length bs, None)) \<and>
     (\<forall>xs d. length bs \<le> length d \<longrightarrow>
        w (length xs, Some (xs @ d)) = (length (xs @ bs), Some (xs @ bs @ drop (length bs) d)))"

lemma emits_None: "emits w bs \<Longrightarrow> w (off, None) = (off + length bs, None)"
  by (simp add: emits_def)

lemma emits_Some: "emits w bs \<Longrightarrow> length bs \<le> length d \<Longrightarrow>
    w (length xs, Some (xs @ d)) = (length (xs @ bs), Some (xs @ bs @ drop (length bs) d))"
  by (simp add: emits_def)

lemma emits_put: "emits (w_put bs) bs"
  by (simp add: emits_def w_put_def put_def memcpy_at_def)

lemma emits_call: "writes f bs \<Longrightarrow> emits (w_call f) bs"
  by (simp add: emits_def w_call_def Let_def writes_at_off_None writes_at_off_Some)

lemma emits_id: "emits (\<lambda>s. s) []"
  by (simp add: emits_def)

lemma emits_comp:
  assumes "emits v as" "emits w bs"
  shows "emits (\<lambda>s. w (v s)) (as @ bs)"
  unfolding emits_def
proof (intro conjI allI impI)
  fix off show "w (v (off, None)) = (off + length (as @ bs), None)"
    by (simp add: emits_None [OF assms(1)] emits_None [OF assms(2)])
next
  fix xs d :: "u8 list" assume l: "length (as @ bs) \<le> length d"
  then have "v (length xs, Some (xs @ d)) = (length (xs @ as), Some ((xs @ as) @ drop (length as) d))"
    using emits_Some [OF assms(1), of d xs] by simp
  moreover have "w (length (xs @ as), Some ((xs @ as) @ drop (length as) d)) =
      (length ((xs @ as) @ bs), Some ((xs @ as) @ bs @ drop (length bs) (drop (length as) d)))"
    using l by (intro emits_Some [OF assms(2)]) simp
  ultimately show "w (v (length xs, Some (xs @ d))) =
      (length (xs @ as @ bs), Some (xs @ (as @ bs) @ drop (length (as @ bs)) d))"
    by (simp add: add.commute)
qed

lemma emits_foldl:
  assumes "\<And>x. x \<in> set xs \<Longrightarrow> emits (w x) (enc x)"
  shows "emits (\<lambda>s. foldl (\<lambda>s x. w x s) s xs) (concat (map enc xs))"
  using assms
proof (induction xs)
  case Nil
  then show ?case using emits_id by simp
next
  case (Cons x xs)
  have "emits (\<lambda>s. foldl (\<lambda>s x. w x s) (w x s) xs) (enc x @ concat (map enc xs))"
    using Cons by (intro emits_comp) auto
  then show ?case by simp
qed

text \<open>The forms in which the steps appear in the serializers.\<close>

lemma emits_put_after: "emits v as \<Longrightarrow> emits (\<lambda>s. w_put bs (v s)) (as @ bs)"
  by (rule emits_comp [OF _ emits_put])

lemma emits_call_after: "emits v as \<Longrightarrow> writes f bs \<Longrightarrow> emits (\<lambda>s. w_call f (v s)) (as @ bs)"
  by (rule emits_comp [OF _ emits_call])

lemma emits_varint_after: "emits v as \<Longrightarrow> emits (\<lambda>s. w_call (BRVarIntSet i) (v s)) (as @ varint_bytes i)"
  by (rule emits_call_after [OF _ VarIntSet_writes])

lemma emits_foldl_after:
  "(\<And>x. x \<in> set xs \<Longrightarrow> emits (w x) (enc x)) \<Longrightarrow> emits v as \<Longrightarrow>
   emits (\<lambda>s. foldl (\<lambda>s x. w x s) (v s) xs) (as @ concat (map enc xs))"
  using emits_comp [OF _ emits_foldl] by blast

lemma emits_if: "(c \<Longrightarrow> emits v as) \<Longrightarrow> (\<not> c \<Longrightarrow> emits w bs) \<Longrightarrow>
    emits (\<lambda>s. if c then v s else w s) (if c then as else bs)"
  by simp

lemma emits_eq: "emits w as \<Longrightarrow> as = bs \<Longrightarrow> emits w bs"
  by simp

lemma emits_return:
  assumes "emits w bs"
  shows "writes (\<lambda>b. w_return (w (0, b))) bs"
proof
  show "w_return (w (0, None)) = (length bs, None)"
    using emits_None [OF assms, of 0] by (simp add: w_return_def)
  fix d :: "u8 list" assume "length bs \<le> length d"
  then show "w_return (w (0, Some d)) = (length bs, Some (bs @ drop (length bs) d))"
    using emits_Some [OF assms, of d "[]"] by (simp add: w_return_def)
qed

lemmas emits_steps = emits_put_after emits_varint_after emits_id

end
