(* ===== verification/Reader.thy ===== *)
theory Reader
  imports Script
begin

text \<open>
  The steps in which the parsers read a buffer that came from the network: guarded reads of integers at a
  running offset, sub-ranges, and guarded copies into fresh memory. Offsets are computed modulo \<open>2 ^ 64\<close>, as
  in the code; a read that leaves the buffer although its guard passed has no defined behaviour. The
  lemmas say what each step gives on a buffer that holds the corresponding encoding at the offset.
\<close>

text \<open>\<open>(off + n <= bufLen) ? get(&buf[off]) : 0\<close>. The sum may wrap; a read that then leaves the buffer is
  \<open>None\<close>.\<close>

definition rd :: "nat \<Rightarrow> (u8 list \<Rightarrow> 'a::zero) \<Rightarrow> size_t \<Rightarrow> u8 list \<Rightarrow> 'a option" where
  "rd n get off buf =
     (if sz_add off n \<le> length buf then if off + n \<le> length buf then Some (get (drop off buf)) else None
      else Some 0)"

text \<open>The bytes \<open>&buf[off]\<close> of length \<open>n\<close>, if they are in the buffer.\<close>

definition sub_bytes :: "size_t \<Rightarrow> size_t \<Rightarrow> u8 list \<Rightarrow> u8 list option" where
  "sub_bytes off n buf = (if off + n \<le> length buf then Some (take n (drop off buf)) else None)"

text \<open>\<open>(off + len <= bufLen) ? malloc(len) : NULL\<close> and the copy. If the sum wraps around, \<open>len\<close> is so
  large that \<open>malloc\<close> fails.\<close>

definition alloc_copy :: "size_t \<Rightarrow> size_t \<Rightarrow> u8 list \<Rightarrow> u8 list option" where
  "alloc_copy off len buf =
     (if sz_add off len \<le> length buf \<and> off + len \<le> length buf then Some (take len (drop off buf)) else None)"

section \<open>Reading what was written\<close>

lemma rd_at:
  assumes "buf = p @ bs @ r" "length buf < 2 ^ 64" "off = length p" "n = length bs"
  shows "rd n get off buf = Some (get (bs @ r))" "sz_add off n = off + n"
  using assms by (simp_all add: rd_def sz_add_small)

lemma rd_ints:
  assumes "length buf < 2 ^ 64" "off = length p"
  shows "buf = p @ UInt256Set u @ r \<Longrightarrow> rd 32 UInt256Get off buf = Some u \<and> sz_add off 32 = off + 32"
    "buf = p @ UInt32SetLE x @ r \<Longrightarrow> rd 4 UInt32GetLE off buf = Some x \<and> sz_add off 4 = off + 4"
    "buf = p @ UInt64SetLE y @ r \<Longrightarrow> rd 8 UInt64GetLE off buf = Some y \<and> sz_add off 8 = off + 8"
  using assms by (simp_all add: rd_def sz_add_small cint_simps)

lemma rd_byte:
  "buf = p @ b # r \<Longrightarrow> length buf < 2 ^ 64 \<Longrightarrow> off = length p \<Longrightarrow>
   rd 1 (\<lambda>b. b ! 0) off buf = Some b \<and> sz_add off 1 = off + 1"
  by (simp add: rd_def sz_add_def)

lemma sub_bytes_at: "buf = p @ bs @ r \<Longrightarrow> off = length p \<Longrightarrow> n = length bs \<Longrightarrow> sub_bytes off n buf = Some bs"
  by (simp add: sub_bytes_def)

lemma varint_at: "buf = p @ varint_bytes i @ r \<Longrightarrow> off = length p \<Longrightarrow>
    BRVarInt (drop off buf) = (i, length (varint_bytes i))"
  by (simp add: BRVarInt_append)

lemma unat_len: "n < 2 ^ 64 \<Longrightarrow> unat (word_of_nat n :: u64) = n"
  by (simp add: unat_of_nat take_bit_nat_eq_self)

lemma alloc_copy_at: "buf = p @ bs @ r \<Longrightarrow> length buf < 2 ^ 64 \<Longrightarrow> off = length p \<Longrightarrow> n = length bs \<Longrightarrow>
    alloc_copy off n buf = Some bs"
  by (simp add: alloc_copy_def sz_add_small)

end
