(* ===== verification/Transaction.thy ===== *)
theory Transaction
  imports Address Writer Reader "HOL-Library.Monad_Syntax"
begin

text \<open>
  \<^verbatim>\<open>Libraries/loafwallet-core/BRTransaction.c\<close>: transactions, their serialized form, parsing, the data to
  be signed, sizes and fees. \<open>script\<close> and \<open>signature\<close> are \<open>None\<close> for \<open>NULL\<close>; \<open>scriptLen\<close> and \<open>sigLen\<close> are
  the lengths of the lists. The growable arrays are lists; an \<open>array_set_count\<close> whose byte size overflows
  \<open>size_t\<close> has no defined behaviour (\<open>None\<close>), as a read outside the parsed buffer, while a failing
  allocation is not modelled. The offset arithmetic of the parser is modulo \<open>2 ^ 64\<close> as in the code,
  since its lengths come from the network.
\<close>

section \<open>Constants and data\<close>

definition TX_VERSION :: u32 where "TX_VERSION = 0x00000001"
definition TX_LOCKTIME :: u32 where "TX_LOCKTIME = 0x00000000"
definition SIGHASH_ALL :: u32 where "SIGHASH_ALL = 0x01"
definition SIGHASH_NONE :: u32 where "SIGHASH_NONE = 0x02"
definition SIGHASH_SINGLE :: u32 where "SIGHASH_SINGLE = 0x03"
definition SIGHASH_ANYONECANPAY :: u32 where "SIGHASH_ANYONECANPAY = 0x80"
definition SIGHASH_FORKID :: u32 where "SIGHASH_FORKID = 0x40"
definition TX_FEE_PER_KB :: u64 where "TX_FEE_PER_KB = 1000"
definition TX_OUTPUT_SIZE :: nat where "TX_OUTPUT_SIZE = 34"
definition TX_INPUT_SIZE :: nat where "TX_INPUT_SIZE = 148"
definition TX_MIN_OUTPUT_AMOUNT :: u64 where "TX_MIN_OUTPUT_AMOUNT = TX_FEE_PER_KB * 3 * (34 + 148) div 1000"
definition TX_MAX_SIZE :: nat where "TX_MAX_SIZE = 100000"
definition TX_UNCONFIRMED :: u32 where "TX_UNCONFIRMED = 0x7fffffff"
definition TX_MAX_LOCK_HEIGHT :: u32 where "TX_MAX_LOCK_HEIGHT = 500000000"
definition TXIN_SEQUENCE :: u32 where "TXIN_SEQUENCE = 0xffffffff"
definition SATOSHIS :: u64 where "SATOSHIS = 100000000"
definition MAX_MONEY :: u64 where "MAX_MONEY = 84000000 * SATOSHIS"

record BRTxInput =
  in_txHash :: UInt256
  in_index :: u32
  in_address :: "u8 list"
  in_amount :: u64
  in_script :: "u8 list option"
  in_signature :: "u8 list option"
  in_sequence :: u32

record BRTxOutput =
  out_address :: "u8 list"
  out_amount :: u64
  out_script :: "u8 list option"

record BRTransaction =
  tx_txHash :: UInt256
  tx_version :: u32
  tx_inputs :: "BRTxInput list"
  tx_outputs :: "BRTxOutput list"
  tx_lockTime :: u32
  tx_blockHeight :: u32
  tx_timestamp :: u32

definition bytes_of :: "u8 list option \<Rightarrow> u8 list" where
  "bytes_of b = (case b of None \<Rightarrow> [] | Some bs \<Rightarrow> bs)"

text \<open>The content of a \<open>char[36]\<close> after a call that may have written an address to it.\<close>

definition addr36 :: "(size_t \<times> wbuf) option \<Rightarrow> u8 list" where
  "addr36 r = (case r of Some (n, Some b) \<Rightarrow> takeWhile (\<lambda>c. c \<noteq> 0) b | _ \<Rightarrow> [])"

definition buf36 :: wbuf where
  "buf36 = Some (replicate 36 0)"

section \<open>Inputs and outputs\<close>

definition BRTxInputSetAddress :: "BRTxInput \<Rightarrow> u8 list option \<Rightarrow> BRTxInput" where
  "BRTxInputSetAddress input address =
     (case address of
        None \<Rightarrow> input\<lparr>in_script := None, in_address := []\<rparr>
      | Some a \<Rightarrow>
          let n = fst (BRAddressScriptPubKey a None) in
          input\<lparr>in_address := take 35 a,
                in_script := Some (bytes_of (snd (BRAddressScriptPubKey a (Some (replicate n 0)))))\<rparr>)"

definition BRTxInputSetScript :: "BRTxInput \<Rightarrow> u8 list option \<Rightarrow> BRTxInput" where
  "BRTxInputSetScript input script =
     (case script of
        None \<Rightarrow> input\<lparr>in_script := None, in_address := []\<rparr>
      | Some s \<Rightarrow> input\<lparr>in_script := Some s, in_address := addr36 (BRAddressFromScriptPubKey s buf36)\<rparr>)"

definition BRTxInputSetSignature :: "BRTxInput \<Rightarrow> u8 list option \<Rightarrow> BRTxInput" where
  "BRTxInputSetSignature input signature =
     (case signature of
        None \<Rightarrow> input\<lparr>in_signature := None\<rparr>
      | Some s \<Rightarrow>
          input\<lparr>in_signature := Some s,
                in_address := (if in_address input = [] then addr36 (BRAddressFromScriptSig s buf36)
                               else in_address input)\<rparr>)"

definition w_input :: "BRTxInput \<Rightarrow> wstate \<Rightarrow> wstate" where
  "w_input input s =
     (let s = w_put (UInt256Set (in_txHash input)) s;
          s = w_put (UInt32SetLE (in_index input)) s;
          s = w_call (BRVarIntSet (word_of_nat (length (bytes_of (in_signature input))))) s;
          s = w_put (bytes_of (in_signature input)) s;
          s = (if in_amount input \<noteq> 0 then w_put (UInt64SetLE (in_amount input)) s else s)
      in w_put (UInt32SetLE (in_sequence input)) s)"

definition BRTxInputData :: "BRTxInput \<Rightarrow> wbuf \<Rightarrow> size_t \<times> wbuf" where
  "BRTxInputData input data = w_return (w_input input (0, data))"

definition BRTxOutputSetAddress :: "BRTxOutput \<Rightarrow> u8 list option \<Rightarrow> BRTxOutput" where
  "BRTxOutputSetAddress output address =
     (case address of
        None \<Rightarrow> output\<lparr>out_script := None, out_address := []\<rparr>
      | Some a \<Rightarrow>
          let n = fst (BRAddressScriptPubKey a None) in
          output\<lparr>out_address := take 35 a,
                 out_script := Some (bytes_of (snd (BRAddressScriptPubKey a (Some (replicate n 0)))))\<rparr>)"

definition BRTxOutputSetScript :: "BRTxOutput \<Rightarrow> u8 list option \<Rightarrow> BRTxOutput" where
  "BRTxOutputSetScript output script =
     (case script of
        None \<Rightarrow> output\<lparr>out_script := None, out_address := []\<rparr>
      | Some s \<Rightarrow> output\<lparr>out_script := Some s, out_address := addr36 (BRAddressFromScriptPubKey s buf36)\<rparr>)"

definition w_output :: "BRTxOutput \<Rightarrow> wstate \<Rightarrow> wstate" where
  "w_output output s =
     (let s = w_put (UInt64SetLE (out_amount output)) s;
          s = w_call (BRVarIntSet (word_of_nat (length (bytes_of (out_script output))))) s
      in w_put (bytes_of (out_script output)) s)"

definition w_outputs :: "BRTxOutput list \<Rightarrow> wstate \<Rightarrow> wstate" where
  "w_outputs outs s = foldl (\<lambda>s out. w_output out s) s outs"

definition BRTransactionOutputData :: "BRTransaction \<Rightarrow> size_t \<Rightarrow> wbuf \<Rightarrow> size_t \<times> wbuf" where
  "BRTransactionOutputData tx index data =
     w_return (w_outputs (if index = SIZE_MAX then tx_outputs tx else take 1 (drop index (tx_outputs tx))) (0, data))"

section \<open>The data to be hashed and signed\<close>

text \<open>The hash of a scratch buffer that \<open>f\<close> fills after a first call with \<open>NULL\<close> gave its size.\<close>

definition hash_of :: "(wbuf \<Rightarrow> size_t \<times> wbuf) \<Rightarrow> u8 list" where
  "hash_of f = (let n = fst (f None); (m, b) = f (Some (replicate n 0)) in BRSHA256_2 (take m (bytes_of b)))"

definition w_witness :: "BRTransaction \<Rightarrow> size_t \<Rightarrow> u32 \<Rightarrow> wstate \<Rightarrow> wstate" where
  "w_witness tx index hashType s =
     (let anyoneCanPay = (hashType AND SIGHASH_ANYONECANPAY) \<noteq> 0; sigHash = hashType AND 0x1f;
          zero = UInt256Set UINT256_ZERO;
          s = w_put (UInt32SetLE (tx_version tx)) s;
          s = w_put (if \<not> anyoneCanPay
                     then BRSHA256_2 (concat (map (\<lambda>i. UInt256Set (in_txHash i) @ UInt32SetLE (in_index i)) (tx_inputs tx)))
                     else zero) s;
          s = w_put (if \<not> anyoneCanPay \<and> sigHash \<noteq> SIGHASH_SINGLE \<and> sigHash \<noteq> SIGHASH_NONE
                     then BRSHA256_2 (concat (map (\<lambda>i. UInt32SetLE (in_sequence i)) (tx_inputs tx)))
                     else zero) s;
          input = tx_inputs tx ! index;
          s = w_call (BRTxInputData (input\<lparr>in_signature := in_script input\<rparr>)) s;
          s = w_put (if sigHash \<noteq> SIGHASH_SINGLE \<and> sigHash \<noteq> SIGHASH_NONE
                     then hash_of (BRTransactionOutputData tx SIZE_MAX)
                     else if sigHash = SIGHASH_SINGLE \<and> index < length (tx_outputs tx)
                     then hash_of (BRTransactionOutputData tx index)
                     else zero) s;
          s = w_put (UInt32SetLE (tx_lockTime tx)) s
      in w_put (UInt32SetLE hashType) s)"

definition BRTransactionWitnessData :: "BRTransaction \<Rightarrow> size_t \<Rightarrow> u32 \<Rightarrow> wbuf \<Rightarrow> size_t \<times> wbuf" where
  "BRTransactionWitnessData tx index hashType data =
     (if index \<ge> length (tx_inputs tx) then (0, data) else w_return (w_witness tx index hashType (0, data)))"

text \<open>The copy of input \<open>i\<close> that is serialized: with the script in place of the signature if it is the
  one to be signed or has none, without signature if another one is to be signed.\<close>

definition signing_input :: "size_t \<Rightarrow> u32 \<Rightarrow> nat \<Rightarrow> BRTxInput \<Rightarrow> BRTxInput" where
  "signing_input index sigHash i input =
     (if index = i \<or> index = SIZE_MAX \<and> in_signature input = None
      then let input = input\<lparr>in_signature := in_script input\<rparr> in
        if index = i then input\<lparr>in_amount := 0\<rparr> else input
      else if index \<noteq> SIZE_MAX
      then let input = input\<lparr>in_signature := None\<rparr>;
               input = (if sigHash = SIGHASH_NONE \<or> sigHash = SIGHASH_SINGLE then input\<lparr>in_sequence := 0\<rparr> else input)
        in input\<lparr>in_amount := 0\<rparr>
      else input\<lparr>in_amount := 0\<rparr>)"

definition w_inputs :: "BRTransaction \<Rightarrow> size_t \<Rightarrow> u32 \<Rightarrow> wstate \<Rightarrow> wstate" where
  "w_inputs tx index hashType s =
     (if hashType AND SIGHASH_ANYONECANPAY = 0
      then foldl (\<lambda>s (i, input). w_call (BRTxInputData (signing_input index (hashType AND 0x1f) i input)) s)
             (w_call (BRVarIntSet (word_of_nat (length (tx_inputs tx)))) s)
             (zip [0..<length (tx_inputs tx)] (tx_inputs tx))
      else let input = tx_inputs tx ! index in
        w_call (BRTxInputData (input\<lparr>in_signature := in_script input, in_amount := 0\<rparr>)) (w_call (BRVarIntSet 1) s))"

definition w_blank_outputs :: "nat \<Rightarrow> wstate \<Rightarrow> wstate" where
  "w_blank_outputs n s = foldl (\<lambda>s _. w_call (BRVarIntSet 0) (w_put (UInt64SetLE (- 1)) s)) s [0..<n]"

definition w_sig_outputs :: "BRTransaction \<Rightarrow> size_t \<Rightarrow> u32 \<Rightarrow> wstate \<Rightarrow> wstate" where
  "w_sig_outputs tx index hashType s =
     (let sigHash = hashType AND 0x1f; outCount = length (tx_outputs tx) in
      if sigHash \<noteq> SIGHASH_SINGLE \<and> sigHash \<noteq> SIGHASH_NONE
      then w_call (BRTransactionOutputData tx SIZE_MAX) (w_call (BRVarIntSet (word_of_nat outCount)) s)
      else if sigHash = SIGHASH_SINGLE \<and> index < outCount
      then w_call (BRTransactionOutputData tx index)
             (w_blank_outputs index (w_call (BRVarIntSet (word_of_nat (index + 1))) s))
      else w_call (BRVarIntSet 0) s)"

definition w_transaction :: "BRTransaction \<Rightarrow> size_t \<Rightarrow> u32 \<Rightarrow> wstate \<Rightarrow> wstate" where
  "w_transaction tx index hashType s =
     (let s = w_put (UInt32SetLE (tx_version tx)) s;
          s = w_inputs tx index hashType s;
          s = w_sig_outputs tx index hashType s;
          s = w_put (UInt32SetLE (tx_lockTime tx)) s
      in if index \<noteq> SIZE_MAX then w_put (UInt32SetLE hashType) s else s)"

definition BRTransactionData :: "BRTransaction \<Rightarrow> size_t \<Rightarrow> u32 \<Rightarrow> wbuf \<Rightarrow> size_t \<times> wbuf" where
  "BRTransactionData tx index hashType data =
     (if hashType AND SIGHASH_FORKID \<noteq> 0 then BRTransactionWitnessData tx index hashType data
      else if hashType AND SIGHASH_ANYONECANPAY \<noteq> 0 \<and> index \<ge> length (tx_inputs tx) then (0, data)
      else w_return (w_transaction tx index hashType (0, data)))"

definition BRTransactionSerialize :: "BRTransaction \<Rightarrow> wbuf \<Rightarrow> size_t \<times> wbuf" where
  "BRTransactionSerialize tx buf = BRTransactionData tx SIZE_MAX SIGHASH_ALL buf"

section \<open>Building transactions\<close>

definition BRTransactionNew :: BRTransaction where
  "BRTransactionNew = \<lparr>tx_txHash = 0, tx_version = TX_VERSION, tx_inputs = [], tx_outputs = [],
     tx_lockTime = TX_LOCKTIME, tx_blockHeight = TX_UNCONFIRMED, tx_timestamp = 0\<rparr>"

definition input_zero :: BRTxInput where
  "input_zero = \<lparr>in_txHash = 0, in_index = 0, in_address = [], in_amount = 0, in_script = None,
     in_signature = None, in_sequence = 0\<rparr>"

definition output_zero :: BRTxOutput where
  "output_zero = \<lparr>out_address = [], out_amount = 0, out_script = None\<rparr>"

definition BRTransactionAddInput :: "BRTransaction \<Rightarrow> UInt256 \<Rightarrow> u32 \<Rightarrow> u64 \<Rightarrow> u8 list option \<Rightarrow> u8 list option \<Rightarrow>
    u32 \<Rightarrow> BRTransaction" where
  "BRTransactionAddInput tx txHash index amount script signature sequence =
     (let input = \<lparr>in_txHash = txHash, in_index = index, in_address = [], in_amount = amount, in_script = None,
            in_signature = None, in_sequence = sequence\<rparr>;
          input = (if script \<noteq> None then BRTxInputSetScript input script else input);
          input = (if signature \<noteq> None then BRTxInputSetSignature input signature else input)
      in tx\<lparr>tx_inputs := tx_inputs tx @ [input]\<rparr>)"

definition BRTransactionAddOutput :: "BRTransaction \<Rightarrow> u64 \<Rightarrow> u8 list option \<Rightarrow> BRTransaction" where
  "BRTransactionAddOutput tx amount script =
     tx\<lparr>tx_outputs := tx_outputs tx @ [BRTxOutputSetScript (output_zero\<lparr>out_amount := amount\<rparr>) script]\<rparr>"

text \<open>\<open>BRRand\<close> draws from the C library's \<open>rand\<close>: the drawn values are an argument, one for each round.\<close>

fun shuffle_loop :: "nat \<Rightarrow> nat list \<Rightarrow> BRTxOutput list \<Rightarrow> BRTxOutput list" where
  "shuffle_loop i [] outs = outs"
| "shuffle_loop i (r # rs) outs =
     (if i + 1 < length outs
      then let j = i + r mod (length outs - i);
               outs = (if j \<noteq> i then outs[i := outs ! j, j := outs ! i] else outs)
        in shuffle_loop (i + 1) rs outs
      else outs)"

definition BRTransactionShuffleOutputs :: "nat list \<Rightarrow> BRTransaction \<Rightarrow> BRTransaction" where
  "BRTransactionShuffleOutputs rands tx = tx\<lparr>tx_outputs := shuffle_loop 0 rands (tx_outputs tx)\<rparr>"

definition BRTransactionSize :: "BRTransaction \<Rightarrow> size_t" where
  "BRTransactionSize tx =
     8 + BRVarIntSize (word_of_nat (length (tx_inputs tx))) + BRVarIntSize (word_of_nat (length (tx_outputs tx))) +
     sum_list (map (\<lambda>input. case in_signature input of
         Some sig \<Rightarrow> 32 + 4 + BRVarIntSize (word_of_nat (length sig)) + length sig + 4
       | None \<Rightarrow> TX_INPUT_SIZE) (tx_inputs tx)) +
     sum_list (map (\<lambda>output. 8 + BRVarIntSize (word_of_nat (length (bytes_of (out_script output)))) +
         length (bytes_of (out_script output))) (tx_outputs tx))"

definition BRTransactionStandardFee :: "BRTransaction \<Rightarrow> u64" where
  "BRTransactionStandardFee tx = word_of_nat ((BRTransactionSize tx + 999) div 1000) * TX_FEE_PER_KB"

definition BRTransactionIsSigned :: "BRTransaction \<Rightarrow> bool" where
  "BRTransactionIsSigned tx \<longleftrightarrow> list_all (\<lambda>input. in_signature input \<noteq> None) (tx_inputs tx)"

definition BRTransactionHash :: "BRTransaction \<Rightarrow> size_t" where
  "BRTransactionHash tx = unat (u32_of (tx_txHash tx) 0)"

definition BRTransactionEq :: "BRTransaction \<Rightarrow> BRTransaction \<Rightarrow> bool" where
  "BRTransactionEq tx otherTx \<longleftrightarrow> UInt256Eq (tx_txHash tx) (tx_txHash otherTx)"

section \<open>Signing\<close>

text \<open>The functions of \<^verbatim>\<open>BRKey.c\<close>, which rest on the secp256k1 library, are parameters.\<close>

record 'k key_api =
  keyAddress :: "'k \<Rightarrow> u8 list option"
  keyPubKey :: "'k \<Rightarrow> u8 list"
  keySign :: "'k \<Rightarrow> UInt256 \<Rightarrow> u8 list"

definition find_key :: "'k key_api \<Rightarrow> 'k list \<Rightarrow> u8 list \<Rightarrow> 'k option" where
  "find_key api keys address =
     List.find (\<lambda>k. BRAddressEq (case keyAddress api k of None \<Rightarrow> [] | Some a \<Rightarrow> a) address) keys"

definition sign_script :: "'k key_api \<Rightarrow> u32 \<Rightarrow> BRTransaction \<Rightarrow> nat \<Rightarrow> BRTxInput \<Rightarrow> 'k \<Rightarrow> u8 list" where
  "sign_script api forkId tx i input key =
     (let (elemsCount, elems) = BRScriptElements (Some (fst (BRScriptElements None (bytes_of (in_script input)))))
            (bytes_of (in_script input));
          pubKey = keyPubKey api key;
          md = UInt256Get (hash_of (BRTransactionData tx i (forkId OR SIGHASH_ALL)));
          sig = take 72 (keySign api key md) @ [ucast (forkId OR SIGHASH_ALL)];
          cap = 1 + 73 + 1 + length pubKey;
          (n, b) = BRScriptPushData (Some sig) (length sig) (Some (replicate cap 0)) in
      if elemsCount \<ge> 2 \<and> bytes_of (in_script input) ! (elems ! (elemsCount - 2)) = OP_EQUALVERIFY
      then let (m, b) = at_off n (BRScriptPushData (Some pubKey) (length pubKey)) b in take (n + m) (bytes_of b)
      else take n (bytes_of b))"

fun sign_loop :: "'k key_api \<Rightarrow> u32 \<Rightarrow> 'k list \<Rightarrow> nat \<Rightarrow> nat \<Rightarrow> BRTransaction \<Rightarrow> BRTransaction" where
  "sign_loop api forkId keys 0 i tx = tx"
| "sign_loop api forkId keys (Suc n) i tx =
     (let input = tx_inputs tx ! i;
          r = BRAddressFromScriptPubKey (bytes_of (in_script input)) buf36;
          tx = (if (case r of Some (m, _) \<Rightarrow> m | None \<Rightarrow> 0) = 0 then tx
                else case find_key api keys (addr36 r) of
                  None \<Rightarrow> tx
                | Some key \<Rightarrow>
                    tx\<lparr>tx_inputs := (tx_inputs tx)[i :=
                        BRTxInputSetSignature input (Some (sign_script api forkId tx i input key))]\<rparr>)
      in sign_loop api forkId keys n (i + 1) tx)"

definition BRTransactionSign :: "'k key_api \<Rightarrow> u32 \<Rightarrow> 'k list \<Rightarrow> BRTransaction \<Rightarrow> bool \<times> BRTransaction" where
  "BRTransactionSign api forkId keys tx =
     (let tx = sign_loop api forkId keys (length (tx_inputs tx)) 0 tx in
      if BRTransactionIsSigned tx
      then (True, tx\<lparr>tx_txHash := UInt256Get (hash_of (BRTransactionData tx SIZE_MAX 0))\<rparr>)
      else (False, tx))"

section \<open>Parsing\<close>

text \<open>\<open>array_set_count\<close> to \<open>n\<close> items of \<open>siz\<close> bytes, two \<open>size_t\<close> in front, in \<open>size_t\<close> arithmetic.\<close>

definition array_fits :: "size_t \<Rightarrow> nat \<Rightarrow> bool" where
  "array_fits n siz \<longleftrightarrow> n * siz + 16 < 2 ^ 64"

definition TX_INPUT_BYTES :: nat where "TX_INPUT_BYTES = 120"
definition TX_OUTPUT_BYTES :: nat where "TX_OUTPUT_BYTES = 64"

definition parse_input :: "u8 list \<Rightarrow> size_t \<Rightarrow> bool \<Rightarrow> (BRTxInput \<times> size_t \<times> bool) option" where
  "parse_input buf off isSigned =
     do {
       txHash \<leftarrow> rd 32 UInt256Get off buf;
       let off = sz_add off 32;
       index \<leftarrow> rd 4 UInt32GetLE off buf;
       let off = sz_add off 4;
       let (v, len) = BRVarInt (drop off buf);
       let sLen = unat v;
       let off = sz_add off len;
       let input = input_zero\<lparr>in_txHash := txHash, in_index := index\<rparr>;
       (input, off, isSigned) \<leftarrow>
         (if sz_add off sLen \<le> length buf
          then do {
            isScript \<leftarrow> (if sLen = 0 \<or> sLen > MAX_SCRIPT_LENGTH then Some False
                        else do {
                          s \<leftarrow> sub_bytes off sLen buf;
                          r \<leftarrow> BRAddressFromScriptPubKey s None;
                          Some (fst r > 0) });
            s \<leftarrow> sub_bytes off sLen buf;
            if isScript
            then do {
              amount \<leftarrow> rd 8 UInt64GetLE (sz_add off sLen) buf;
              Some ((BRTxInputSetScript input (Some s))\<lparr>in_amount := amount\<rparr>, sz_add off 8, False) }
            else Some (BRTxInputSetSignature input (Some s), off, isSigned) }
          else Some (input, off, isSigned));
       let off = sz_add off sLen;
       sequence \<leftarrow> rd 4 UInt32GetLE off buf;
       Some (input\<lparr>in_sequence := sequence\<rparr>, sz_add off 4, isSigned)
     }"

fun parse_inputs :: "nat \<Rightarrow> u8 list \<Rightarrow> size_t \<Rightarrow> bool \<Rightarrow> (BRTxInput list \<times> size_t \<times> bool) option" where
  "parse_inputs 0 buf off isSigned = Some ([], off, isSigned)"
| "parse_inputs (Suc n) buf off isSigned =
     (if off \<le> length buf
      then do {
        (input, off, isSigned) \<leftarrow> parse_input buf off isSigned;
        (inputs, off, isSigned) \<leftarrow> parse_inputs n buf off isSigned;
        Some (input # inputs, off, isSigned) }
      else Some (replicate (Suc n) input_zero, off, isSigned))"

definition parse_output :: "u8 list \<Rightarrow> size_t \<Rightarrow> (BRTxOutput \<times> size_t) option" where
  "parse_output buf off =
     do {
       amount \<leftarrow> rd 8 UInt64GetLE off buf;
       let off = sz_add off 8;
       let (v, len) = BRVarInt (drop off buf);
       let sLen = unat v;
       let off = sz_add off len;
       let output = output_zero\<lparr>out_amount := amount\<rparr>;
       output \<leftarrow> (if sz_add off sLen \<le> length buf
                  then do { s \<leftarrow> sub_bytes off sLen buf; Some (BRTxOutputSetScript output (Some s)) }
                  else Some output);
       Some (output, sz_add off sLen)
     }"

fun parse_outputs :: "nat \<Rightarrow> u8 list \<Rightarrow> size_t \<Rightarrow> (BRTxOutput list \<times> size_t) option" where
  "parse_outputs 0 buf off = Some ([], off)"
| "parse_outputs (Suc n) buf off =
     (if off \<le> length buf
      then do {
        (output, off) \<leftarrow> parse_output buf off;
        (outputs, off) \<leftarrow> parse_outputs n buf off;
        Some (output # outputs, off) }
      else Some (replicate (Suc n) output_zero, off))"

text \<open>\<open>None\<close> has no defined behaviour; \<open>Some None\<close> is the result \<open>NULL\<close>.\<close>

definition BRTransactionParse :: "u8 list \<Rightarrow> BRTransaction option option" where
  "BRTransactionParse buf =
     do {
       version \<leftarrow> rd 4 UInt32GetLE 0 buf;
       let off = sz_add 0 4;
       let (v, len) = BRVarInt (drop off buf);
       let inCount = unat v;
       let off = sz_add off len;
       if \<not> array_fits inCount TX_INPUT_BYTES then None
       else do {
         (inputs, off, isSigned) \<leftarrow> parse_inputs inCount buf off True;
         let (v, len) = BRVarInt (drop off buf);
         let outCount = unat v;
         let off = sz_add off len;
         if \<not> array_fits outCount TX_OUTPUT_BYTES then None
         else do {
           (outputs, off) \<leftarrow> parse_outputs outCount buf off;
           lockTime \<leftarrow> rd 4 UInt32GetLE off buf;
           let off = sz_add off 4;
           let tx = BRTransactionNew\<lparr>tx_version := version, tx_inputs := inputs, tx_outputs := outputs,
                      tx_lockTime := lockTime\<rparr>;
           if inCount = 0 \<or> off > length buf then Some None
           else Some (Some (if isSigned then tx\<lparr>tx_txHash := UInt256Get (BRSHA256_2 (take off buf))\<rparr> else tx))
         }
       }
     }"

end
