(* ===== verification/TransactionLaws.thy ===== *)
theory TransactionLaws
  imports Transaction
begin

text \<open>
  Properties of \<^verbatim>\<open>Libraries/loafwallet-core/BRTransaction.c\<close>: every serializer writes a fixed byte string
  of the announced length, parsing what was serialized gives the transaction back, the size computed for
  the fee is the serialized size, and signing changes nothing but signatures and the hash.
\<close>

section \<open>What the serializers write\<close>

definition input_bytes :: "BRTxInput \<Rightarrow> u8 list" where
  "input_bytes input = UInt256Set (in_txHash input) @ UInt32SetLE (in_index input) @
     varint_bytes (word_of_nat (length (bytes_of (in_signature input)))) @ bytes_of (in_signature input) @
     (if in_amount input \<noteq> 0 then UInt64SetLE (in_amount input) else []) @ UInt32SetLE (in_sequence input)"

definition output_bytes :: "BRTxOutput \<Rightarrow> u8 list" where
  "output_bytes output = UInt64SetLE (out_amount output) @
     varint_bytes (word_of_nat (length (bytes_of (out_script output)))) @ bytes_of (out_script output)"

lemma emits_input: "emits (w_input input) (input_bytes input)"
  unfolding w_input_def Let_def
  by (rule emits_eq, (rule emits_if emits_steps)+) (simp add: input_bytes_def)

lemma TxInputData_writes: "writes (BRTxInputData input) (input_bytes input)"
  unfolding BRTxInputData_def using emits_return [OF emits_input] .

lemma emits_output: "emits (w_output output) (output_bytes output)"
  unfolding w_output_def Let_def
  by (rule emits_eq, (rule emits_steps)+) (simp add: output_bytes_def)

lemma OutputData_writes:
  "writes (BRTransactionOutputData tx index) (concat (map output_bytes
     (if index = SIZE_MAX then tx_outputs tx else take 1 (drop index (tx_outputs tx)))))"
  unfolding BRTransactionOutputData_def w_outputs_def
  by (intro emits_return emits_foldl emits_output)

definition sel_outputs :: "BRTransaction \<Rightarrow> size_t \<Rightarrow> BRTxOutput list" where
  "sel_outputs tx index = (if index = SIZE_MAX then tx_outputs tx else take 1 (drop index (tx_outputs tx)))"

lemma hash_of_writes: "writes f bs \<Longrightarrow> hash_of f = BRSHA256_2 bs"
  by (simp add: hash_of_def writes_None writes_Some bytes_of_def)

text \<open>The preimage of a BIP143 style signature hash.\<close>

definition witness_bytes :: "BRTransaction \<Rightarrow> size_t \<Rightarrow> u32 \<Rightarrow> u8 list" where
  "witness_bytes tx index hashType =
     (let acp = (hashType AND SIGHASH_ANYONECANPAY) \<noteq> 0; sh = hashType AND 0x1f;
          single = (sh = SIGHASH_SINGLE); none = (sh = SIGHASH_NONE); zero = replicate 32 0;
          input = tx_inputs tx ! index in
      UInt32SetLE (tx_version tx) @
      (if acp then zero
       else BRSHA256_2 (concat (map (\<lambda>i. UInt256Set (in_txHash i) @ UInt32SetLE (in_index i)) (tx_inputs tx)))) @
      (if acp \<or> single \<or> none then zero
       else BRSHA256_2 (concat (map (\<lambda>i. UInt32SetLE (in_sequence i)) (tx_inputs tx)))) @
      input_bytes (input\<lparr>in_signature := in_script input\<rparr>) @
      (if \<not> single \<and> \<not> none then BRSHA256_2 (concat (map output_bytes (tx_outputs tx)))
       else if single \<and> index < length (tx_outputs tx)
       then BRSHA256_2 (concat (map output_bytes (sel_outputs tx index)))
       else zero) @
      UInt32SetLE (tx_lockTime tx) @ UInt32SetLE hashType)"

lemma UInt256Set_zero: "UInt256Set UINT256_ZERO = replicate 32 0"
  by (simp add: UInt256Set_def UINT256_ZERO_def list_eq_iff_nth_eq)

lemma emits_witness: "emits (w_witness tx index hashType) (witness_bytes tx index hashType)"
  unfolding w_witness_def Let_def
  apply (rule emits_eq)
   apply (rule emits_steps emits_call_after TxInputData_writes)+
  unfolding hash_of_writes [OF OutputData_writes]
  by (simp add: witness_bytes_def Let_def UInt256Set_zero sel_outputs_def)

definition inputs_bytes :: "BRTransaction \<Rightarrow> size_t \<Rightarrow> u32 \<Rightarrow> u8 list" where
  "inputs_bytes tx index hashType =
     (if hashType AND SIGHASH_ANYONECANPAY = 0
      then varint_bytes (word_of_nat (length (tx_inputs tx))) @
        concat (map (\<lambda>(i, input). input_bytes (signing_input index (hashType AND 0x1f) i input))
          (zip [0..<length (tx_inputs tx)] (tx_inputs tx)))
      else varint_bytes 1 @ input_bytes ((tx_inputs tx ! index)
        \<lparr>in_signature := in_script (tx_inputs tx ! index), in_amount := 0\<rparr>))"

definition sig_outputs_bytes :: "BRTransaction \<Rightarrow> size_t \<Rightarrow> u32 \<Rightarrow> u8 list" where
  "sig_outputs_bytes tx index hashType =
     (let sh = hashType AND 0x1f in
      if sh \<noteq> SIGHASH_SINGLE \<and> sh \<noteq> SIGHASH_NONE
      then varint_bytes (word_of_nat (length (tx_outputs tx))) @ concat (map output_bytes (tx_outputs tx))
      else if sh = SIGHASH_SINGLE \<and> index < length (tx_outputs tx)
      then varint_bytes (word_of_nat (index + 1)) @
        concat (replicate index (UInt64SetLE (- 1) @ varint_bytes 0)) @
        concat (map output_bytes (sel_outputs tx index))
      else varint_bytes 0)"

lemma emits_inputs: "emits (w_inputs tx index hashType) (inputs_bytes tx index hashType)"
proof -
  have "emits (\<lambda>s. case p of (i, input) \<Rightarrow> w_call (BRTxInputData (signing_input index sh i input)) s)
      (case p of (i, input) \<Rightarrow> input_bytes (signing_input index sh i input))" for p sh
    by (cases p) (simp add: emits_call TxInputData_writes)
  note f = emits_foldl_after [OF this emits_varint_after [OF emits_id]]
  show ?thesis
    unfolding w_inputs_def Let_def
    apply (rule emits_eq)
     apply (rule emits_if)
      apply (rule f [unfolded case_prod_unfold] | rule f)
     apply (rule emits_call_after emits_id TxInputData_writes VarIntSet_writes)+
    by (simp add: inputs_bytes_def)
qed

lemma emits_blank: "emits (w_blank_outputs n) (concat (replicate n (UInt64SetLE (- 1) @ varint_bytes 0)))"
proof -
  have "emits (\<lambda>s. w_call (BRVarIntSet 0) (w_put (UInt64SetLE (- 1)) s)) (UInt64SetLE (- 1) @ varint_bytes 0)"
    by (rule emits_varint_after [OF emits_put])
  from emits_foldl [of "[0..<n]" "\<lambda>_. \<lambda>s. w_call (BRVarIntSet 0) (w_put (UInt64SetLE (- 1)) s)", OF this]
  show ?thesis by (simp add: w_blank_outputs_def [abs_def] map_replicate_const)
qed

lemma emits_sig_outputs: "emits (w_sig_outputs tx index hashType) (sig_outputs_bytes tx index hashType)"
  unfolding w_sig_outputs_def Let_def
  apply (rule emits_eq)
   apply (rule emits_if emits_call_after OutputData_writes)+
     apply (rule emits_id VarIntSet_writes emits_if emits_call_after OutputData_writes emits_comp [OF _ emits_blank])+
  by (simp add: sig_outputs_bytes_def Let_def sel_outputs_def)

definition data_bytes :: "BRTransaction \<Rightarrow> size_t \<Rightarrow> u32 \<Rightarrow> u8 list" where
  "data_bytes tx index hashType =
     (if hashType AND SIGHASH_FORKID \<noteq> 0
      then if index \<ge> length (tx_inputs tx) then [] else witness_bytes tx index hashType
      else if hashType AND SIGHASH_ANYONECANPAY \<noteq> 0 \<and> index \<ge> length (tx_inputs tx) then []
      else UInt32SetLE (tx_version tx) @ inputs_bytes tx index hashType @ sig_outputs_bytes tx index hashType @
        UInt32SetLE (tx_lockTime tx) @ (if index \<noteq> SIZE_MAX then UInt32SetLE hashType else []))"

lemma emits_transaction: "emits (w_transaction tx index hashType)
    (UInt32SetLE (tx_version tx) @ inputs_bytes tx index hashType @ sig_outputs_bytes tx index hashType @
        UInt32SetLE (tx_lockTime tx) @ (if index \<noteq> SIZE_MAX then UInt32SetLE hashType else []))"
  unfolding w_transaction_def Let_def
  apply (rule emits_eq)
   apply (rule emits_if emits_put_after emits_id emits_comp [OF _ emits_sig_outputs] emits_comp [OF _ emits_inputs])+
  by simp

lemma Data_writes: "writes (BRTransactionData tx index hashType) (data_bytes tx index hashType)"
proof -
  consider (a) "hashType AND SIGHASH_FORKID \<noteq> 0" "index \<ge> length (tx_inputs tx)"
    | (b) "hashType AND SIGHASH_FORKID \<noteq> 0" "\<not> index \<ge> length (tx_inputs tx)"
    | (c) "\<not> hashType AND SIGHASH_FORKID \<noteq> 0" "hashType AND SIGHASH_ANYONECANPAY \<noteq> 0 \<and> index \<ge> length (tx_inputs tx)"
    | (d) "\<not> hashType AND SIGHASH_FORKID \<noteq> 0" "\<not> (hashType AND SIGHASH_ANYONECANPAY \<noteq> 0 \<and> index \<ge> length (tx_inputs tx))"
    by blast
  then show ?thesis
  proof cases
    case a
    then show ?thesis by (simp add: BRTransactionData_def BRTransactionWitnessData_def data_bytes_def writes_def)
  next
    case b
    then have "BRTransactionData tx index hashType = (\<lambda>b. w_return (w_witness tx index hashType (0, b)))"
      by (simp add: fun_eq_iff BRTransactionData_def BRTransactionWitnessData_def)
    then show ?thesis using b emits_return [OF emits_witness] by (simp add: data_bytes_def)
  next
    case c
    then show ?thesis by (simp add: BRTransactionData_def data_bytes_def writes_def)
  next
    case d
    then have "BRTransactionData tx index hashType = (\<lambda>b. w_return (w_transaction tx index hashType (0, b)))"
      unfolding fun_eq_iff BRTransactionData_def by (simp only: if_False simp_thms)
    then show ?thesis using d emits_return [OF emits_transaction, of tx index hashType]
      unfolding data_bytes_def by (simp only: if_False simp_thms)
  qed
qed

text \<open>The serialized transaction.\<close>

definition tx_bytes :: "BRTransaction \<Rightarrow> u8 list" where
  "tx_bytes tx = UInt32SetLE (tx_version tx) @
     varint_bytes (word_of_nat (length (tx_inputs tx))) @
     concat (map (\<lambda>i. input_bytes (if in_signature i = None then i\<lparr>in_signature := in_script i\<rparr>
       else i\<lparr>in_amount := 0\<rparr>)) (tx_inputs tx)) @
     varint_bytes (word_of_nat (length (tx_outputs tx))) @ concat (map output_bytes (tx_outputs tx)) @
     UInt32SetLE (tx_lockTime tx)"

lemma signing_input_all:
  "i < SIZE_MAX \<Longrightarrow> signing_input SIZE_MAX h i input =
    (if in_signature input = None then input\<lparr>in_signature := in_script input\<rparr> else input\<lparr>in_amount := 0\<rparr>)"
  by (simp add: signing_input_def)

lemma map_zip_ignore:
  "(\<And>i x. i < n + length xs \<Longrightarrow> f i x = g x) \<Longrightarrow> map (\<lambda>(i, x). f i x) (zip [n..<n + length xs] xs) = map g xs"
proof (induction xs arbitrary: n)
  case (Cons x xs)
  have "[n..<n + length (x # xs)] = n # [Suc n..<Suc n + length xs]" by (simp add: upt_rec)
  then show ?case using Cons.IH [of "Suc n"] Cons.prems by simp
qed simp

lemma data_bytes_all:
  assumes "length (tx_inputs tx) \<le> SIZE_MAX" "h = 0 \<or> h = SIGHASH_ALL"
  shows "data_bytes tx SIZE_MAX h = tx_bytes tx"
proof -
  have m: "map (\<lambda>(i, x). input_bytes (signing_input SIZE_MAX sh i x)) (zip [0..<length (tx_inputs tx)] (tx_inputs tx)) =
      map (\<lambda>i. input_bytes (if in_signature i = None then i\<lparr>in_signature := in_script i\<rparr> else i\<lparr>in_amount := 0\<rparr>))
        (tx_inputs tx)" for sh
    using map_zip_ignore [of 0 "tx_inputs tx" "\<lambda>i x. input_bytes (signing_input SIZE_MAX sh i x)"
        "\<lambda>i. input_bytes (if in_signature i = None then i\<lparr>in_signature := in_script i\<rparr> else i\<lparr>in_amount := 0\<rparr>)"]
      assms(1) signing_input_all by simp
  show ?thesis
    using assms(2) m
    by (auto simp: data_bytes_def inputs_bytes_def sig_outputs_bytes_def tx_bytes_def Let_def
        SIGHASH_ALL_def SIGHASH_FORKID_def SIGHASH_ANYONECANPAY_def SIGHASH_SINGLE_def SIGHASH_NONE_def)
qed

definition countable_tx :: "BRTransaction \<Rightarrow> bool" where
  "countable_tx tx \<longleftrightarrow> length (tx_inputs tx) \<le> SIZE_MAX"

interpretation txser: serializer BRTransactionSerialize tx_bytes countable_tx
  using Data_writes data_bytes_all
  by unfold_locales (metis BRTransactionSerialize_def countable_tx_def ext)

section \<open>Parsing what was serialized\<close>

lemma scriptPubKey_positive:
  "BRAddressFromScriptPubKey s None = Some r \<Longrightarrow> 0 < fst r \<longleftrightarrow> template_payload s \<noteq> None"
  unfolding from_script_templates encode_or_0_def CheckEncode_eq
  by (auto simp: writes_None [OF b58enc.ser_writes] split: option.splits)

lemma template_short: "template_payload s \<noteq> None \<Longrightarrow> s \<noteq> [] \<and> length s \<le> MAX_SCRIPT_LENGTH"
  by (auto simp: template_payload_def MAX_SCRIPT_LENGTH_def split: if_splits)

text \<open>The inputs and outputs the parser produces: an input is either signed, with a signature that does
  not read as an output script and no amount, or unsigned, with the standard script and the amount of
  the output it spends.\<close>

definition wf_input :: "BRTxInput \<Rightarrow> bool" where
  "wf_input i \<longleftrightarrow>
     (case in_signature i of
        Some sig \<Rightarrow> in_script i = None \<and> in_amount i = 0 \<and> template_payload sig = None \<and>
          in_address i = addr36 (BRAddressFromScriptSig sig buf36)
      | None \<Rightarrow> (case in_script i of
          None \<Rightarrow> False
        | Some s \<Rightarrow> in_amount i \<noteq> 0 \<and> template_payload s \<noteq> None \<and>
            in_address i = addr36 (BRAddressFromScriptPubKey s buf36)))"

definition wf_output :: "BRTxOutput \<Rightarrow> bool" where
  "wf_output out \<longleftrightarrow> (case out_script out of None \<Rightarrow> False
     | Some s \<Rightarrow> out_address out = addr36 (BRAddressFromScriptPubKey s buf36))"

definition ser_input :: "BRTxInput \<Rightarrow> BRTxInput" where
  "ser_input i = (if in_signature i = None then i\<lparr>in_signature := in_script i\<rparr> else i\<lparr>in_amount := 0\<rparr>)"

lemma parse_input_bytes:
  assumes wf: "wf_input i" and buf: "buf = pre @ input_bytes (ser_input i) @ rest" and len: "length buf < 2 ^ 64"
  shows "parse_input buf (length pre) b =
    Some (i, length pre + length (input_bytes (ser_input i)), b \<and> in_signature i \<noteq> None)"
proof -
  define S where "S = bytes_of (in_signature (ser_input i))"
  define V where "V = varint_bytes (word_of_nat (length S))"
  define M where "M = (if in_amount (ser_input i) \<noteq> 0 then UInt64SetLE (in_amount (ser_input i)) else [])"
  let ?H = "UInt256Set (in_txHash i)" and ?X = "UInt32SetLE (in_index i)" and ?Q = "UInt32SetLE (in_sequence i)"
  have eq: "in_txHash (ser_input i) = in_txHash i" "in_index (ser_input i) = in_index i"
    "in_sequence (ser_input i) = in_sequence i" by (simp_all add: ser_input_def)
  have b: "input_bytes (ser_input i) = ?H @ ?X @ V @ S @ M @ ?Q"
    by (simp add: input_bytes_def eq S_def V_def M_def)
  then have buf': "buf = pre @ ?H @ ?X @ V @ S @ M @ ?Q @ rest" using buf by simp
  let ?o2 = "length pre + 32" let ?o3 = "length pre + 36" let ?o4 = "length pre + 36 + length V"
  have lS: "length S < 2 ^ 64" using len buf' by simp
  have r1: "rd 32 UInt256Get (length pre) buf = Some (in_txHash i)" "sz_add (length pre) 32 = ?o2"
    using rd_ints(1) [OF len, of "length pre" pre "in_txHash i" "?X @ V @ S @ M @ ?Q @ rest"] buf' by simp_all
  have r2: "rd 4 UInt32GetLE ?o2 buf = Some (in_index i)" "sz_add ?o2 4 = ?o3"
    using rd_ints(2) [OF len, of ?o2 "pre @ ?H" "in_index i" "V @ S @ M @ ?Q @ rest"] buf' by simp_all
  have r3: "BRVarInt (drop ?o3 buf) = (word_of_nat (length S), length V)"
    using varint_at [of buf "pre @ ?H @ ?X" "word_of_nat (length S)" "S @ M @ ?Q @ rest" ?o3] buf' by (simp add: V_def)
  have r3': "sz_add ?o3 (length V) = ?o4" using len buf' by (simp add: sz_add_small)
  have r4: "sz_add ?o4 (length S) = ?o4 + length S" using len buf' by (simp add: sz_add_small)
  have r4': "?o4 + length S \<le> length buf" using buf' by simp
  have s: "sub_bytes ?o4 (length S) buf = Some S"
    using sub_bytes_at [of buf "pre @ ?H @ ?X @ V" S "M @ ?Q @ rest" ?o4] buf' by simp
  have q: "rd 4 UInt32GetLE (?o4 + length S + length M) buf = Some (in_sequence i)"
    "sz_add (?o4 + length S + length M) 4 = ?o4 + length S + length M + 4"
    using rd_ints(2) [OF len, of "?o4 + length S + length M" "pre @ ?H @ ?X @ V @ S @ M" "in_sequence i" rest] buf'
    by simp_all
  obtain r where r: "BRAddressFromScriptPubKey S None = Some r" using from_script_safe [of S None] by auto
  note pos = scriptPubKey_positive [OF r]
  have tot: "length pre + length (input_bytes (ser_input i)) = ?o4 + length S + length M + 4" unfolding b by simp
  have isS: "(if length S = 0 \<or> length S > MAX_SCRIPT_LENGTH then Some False
      else do { s \<leftarrow> sub_bytes ?o4 (length S) buf; r \<leftarrow> BRAddressFromScriptPubKey s None; Some (0 < fst r) }) =
      Some (template_payload S \<noteq> None)"
    using template_short [of S] pos s r by auto
  show ?thesis
  proof (cases "in_signature i")
    case (Some sig)
    then have S: "S = sig" "M = []" "template_payload S = None" "in_amount i = 0" "in_script i = None"
      "in_address i = addr36 (BRAddressFromScriptSig S buf36)"
      using wf by (simp_all add: wf_input_def ser_input_def S_def M_def bytes_of_def)
    have i: "BRTxInputSetSignature (input_zero\<lparr>in_txHash := in_txHash i, in_index := in_index i\<rparr>) (Some S)
        \<lparr>in_sequence := in_sequence i\<rparr> = i"
      using Some S by (simp add: BRTxInputSetSignature_def input_zero_def)
    show ?thesis
      unfolding parse_input_def r1 r2 tot bind.bind_lunit Let_def r3 prod.case r3' unat_len [OF lS] r4 isS s
      using r4' S(2,3) q i Some pos by (simp add: unat_len [OF lS] r4 s r)
  next
    case None
    then obtain sc where sc: "in_script i = Some sc" using wf by (auto simp: wf_input_def split: option.splits)
    then have S: "S = sc" "M = UInt64SetLE (in_amount i)" "template_payload S \<noteq> None" "in_amount i \<noteq> 0"
      "in_address i = addr36 (BRAddressFromScriptPubKey S buf36)"
      using wf None by (simp_all add: wf_input_def ser_input_def S_def M_def bytes_of_def)
    have a: "rd 8 UInt64GetLE (?o4 + length S) buf = Some (in_amount i)"
      using rd_ints(3) [OF len, of "?o4 + length S" "pre @ ?H @ ?X @ V @ S" "in_amount i" "?Q @ rest"] buf' S(2)
      by simp
    have o: "sz_add ?o4 8 = ?o4 + 8" "sz_add (?o4 + 8) (length S) = ?o4 + length S + length M"
      using len buf' S(2) by (simp_all add: sz_add_small)
    have i: "(BRTxInputSetScript (input_zero\<lparr>in_txHash := in_txHash i, in_index := in_index i\<rparr>) (Some S))
        \<lparr>in_amount := in_amount i, in_sequence := in_sequence i\<rparr> = i"
      using None sc S by (simp add: BRTxInputSetScript_def input_zero_def)
    show ?thesis
      unfolding parse_input_def r1 r2 tot bind.bind_lunit Let_def r3 prod.case r3' unat_len [OF lS] r4 isS s
      using r4' S(3) template_short [OF S(3)] q i None a o pos by (simp add: unat_len [OF lS] r4 s r)
  qed
qed

lemma parse_inputs_bytes:
  assumes "list_all wf_input ins" "buf = pre @ concat (map (\<lambda>i. input_bytes (ser_input i)) ins) @ rest"
    "length buf < 2 ^ 64"
  shows "parse_inputs (length ins) buf (length pre) b =
    Some (ins, length pre + length (concat (map (\<lambda>i. input_bytes (ser_input i)) ins)),
      b \<and> list_all (\<lambda>i. in_signature i \<noteq> None) ins)"
  using assms
proof (induction ins arbitrary: pre b)
  case (Cons i ins)
  let ?B = "input_bytes (ser_input i)" and ?R = "concat (map (\<lambda>i. input_bytes (ser_input i)) ins)"
  have buf: "buf = pre @ ?B @ ?R @ rest" "buf = (pre @ ?B) @ ?R @ rest" using Cons.prems(2) by simp_all
  have 1: "parse_input buf (length pre) b = Some (i, length pre + length ?B, b \<and> in_signature i \<noteq> None)"
    using Cons.prems by (intro parse_input_bytes [OF _ buf(1)]) simp_all
  have 2: "parse_inputs (length ins) buf (length (pre @ ?B)) c =
      Some (ins, length (pre @ ?B) + length ?R, c \<and> list_all (\<lambda>i. in_signature i \<noteq> None) ins)" for c
    using Cons.prems(1,3) by (intro Cons.IH [OF _ buf(2)]) simp_all
  show ?case using 1 2 buf(1) by (simp add: add.assoc conj_ac)
qed simp

lemma parse_output_bytes:
  assumes wf: "wf_output out" and buf: "buf = pre @ output_bytes out @ rest" and len: "length buf < 2 ^ 64"
  shows "parse_output buf (length pre) = Some (out, length pre + length (output_bytes out))"
proof -
  obtain S where S: "out_script out = Some S" "out_address out = addr36 (BRAddressFromScriptPubKey S buf36)"
    using wf by (auto simp: wf_output_def split: option.splits)
  define V where "V = varint_bytes (word_of_nat (length S))"
  let ?A = "UInt64SetLE (out_amount out)" let ?o2 = "length pre + 8" let ?o3 = "length pre + 8 + length V"
  have b: "output_bytes out = ?A @ V @ S" using S by (simp add: output_bytes_def V_def bytes_of_def)
  then have buf': "buf = pre @ ?A @ V @ S @ rest" using buf by simp
  have lS: "length S < 2 ^ 64" using len buf' by simp
  have r1: "rd 8 UInt64GetLE (length pre) buf = Some (out_amount out)" "sz_add (length pre) 8 = ?o2"
    using rd_ints(3) [OF len, of "length pre" pre "out_amount out" "V @ S @ rest"] buf' by simp_all
  have r2: "BRVarInt (drop ?o2 buf) = (word_of_nat (length S), length V)"
    using varint_at [of buf "pre @ ?A" "word_of_nat (length S)" "S @ rest" ?o2] buf' by (simp add: V_def)
  have r3: "sz_add ?o2 (length V) = ?o3" "sz_add ?o3 (length S) = ?o3 + length S" "?o3 + length S \<le> length buf"
    using len buf' by (simp_all add: sz_add_small)
  have s: "sub_bytes ?o3 (length S) buf = Some S"
    using sub_bytes_at [of buf "pre @ ?A @ V" S rest ?o3] buf' by simp
  have o: "BRTxOutputSetScript (output_zero\<lparr>out_amount := out_amount out\<rparr>) (Some S) = out"
    using S by (simp add: BRTxOutputSetScript_def output_zero_def)
  have tot: "length pre + length (output_bytes out) = ?o3 + length S" unfolding b by simp
  show ?thesis
    unfolding parse_output_def r1 tot bind.bind_lunit Let_def r2 prod.case r3(1) unat_len [OF lS] s
    using r3 s o by (simp add: unat_len [OF lS])
qed

lemma parse_outputs_bytes:
  assumes "list_all wf_output outs" "buf = pre @ concat (map output_bytes outs) @ rest" "length buf < 2 ^ 64"
  shows "parse_outputs (length outs) buf (length pre) =
    Some (outs, length pre + length (concat (map output_bytes outs)))"
  using assms
proof (induction outs arbitrary: pre)
  case (Cons out outs)
  let ?B = "output_bytes out" and ?R = "concat (map output_bytes outs)"
  have buf: "buf = pre @ ?B @ ?R @ rest" "buf = (pre @ ?B) @ ?R @ rest" using Cons.prems(2) by simp_all
  have 1: "parse_output buf (length pre) = Some (out, length pre + length ?B)"
    using Cons.prems by (intro parse_output_bytes [OF _ buf(1)]) simp_all
  have 2: "parse_outputs (length outs) buf (length (pre @ ?B)) = Some (outs, length (pre @ ?B) + length ?R)"
    using Cons.prems(1,3) by (intro Cons.IH [OF _ buf(2)]) simp_all
  show ?case using 1 2 buf(1) by (simp add: add.assoc)
qed simp

text \<open>The transactions a parse can produce.\<close>

definition wf_tx :: "BRTransaction \<Rightarrow> bool" where
  "wf_tx tx \<longleftrightarrow> tx_inputs tx \<noteq> [] \<and> list_all wf_input (tx_inputs tx) \<and> list_all wf_output (tx_outputs tx) \<and>
     tx_blockHeight tx = TX_UNCONFIRMED \<and> tx_timestamp tx = 0 \<and>
     tx_txHash tx = (if BRTransactionIsSigned tx then UInt256Get (BRSHA256_2 (tx_bytes tx)) else 0)"

lemma length_input_bytes: "40 \<le> length (input_bytes i)"
  by (simp add: input_bytes_def)

lemma length_output_bytes: "8 \<le> length (output_bytes out)"
  by (simp add: output_bytes_def)

lemma concat_at_least: "(\<And>x. x \<in> set xs \<Longrightarrow> n \<le> length (f x)) \<Longrightarrow> n * length xs \<le> length (concat (map f xs))"
  by (induction xs) (simp_all add: add_mono)

lemma tx_bytes_ser: "tx_bytes tx = UInt32SetLE (tx_version tx) @ varint_bytes (word_of_nat (length (tx_inputs tx))) @
     concat (map (\<lambda>i. input_bytes (ser_input i)) (tx_inputs tx)) @
     varint_bytes (word_of_nat (length (tx_outputs tx))) @ concat (map output_bytes (tx_outputs tx)) @
     UInt32SetLE (tx_lockTime tx)"
  by (simp add: tx_bytes_def ser_input_def)

lemma tx_bytes_fits:
  assumes "length (tx_bytes tx) < 2 ^ 60"
  shows "array_fits (length (tx_inputs tx)) TX_INPUT_BYTES" "array_fits (length (tx_outputs tx)) TX_OUTPUT_BYTES"
    "length (tx_inputs tx) < 2 ^ 60" "length (tx_outputs tx) < 2 ^ 60"
proof -
  have "40 * length (tx_inputs tx) + 8 * length (tx_outputs tx) \<le> length (tx_bytes tx)"
    using concat_at_least [of "tx_inputs tx" 40 "\<lambda>i. input_bytes (ser_input i)"]
      concat_at_least [of "tx_outputs tx" 8 output_bytes] length_input_bytes length_output_bytes
    by (simp add: tx_bytes_ser)
  then show "array_fits (length (tx_inputs tx)) TX_INPUT_BYTES" "array_fits (length (tx_outputs tx)) TX_OUTPUT_BYTES"
    "length (tx_inputs tx) < 2 ^ 60" "length (tx_outputs tx) < 2 ^ 60"
    using assms by (simp_all add: array_fits_def TX_INPUT_BYTES_def TX_OUTPUT_BYTES_def)
qed

lemma parse_tx_bytes:
  assumes wf: "wf_tx tx" and len: "length (tx_bytes tx @ rest) < 2 ^ 60"
  shows "BRTransactionParse (tx_bytes tx @ rest) = Some (Some tx)"
proof -
  define I where "I = varint_bytes (word_of_nat (length (tx_inputs tx)))"
  define P where "P = varint_bytes (word_of_nat (length (tx_outputs tx)))"
  define Is where "Is = concat (map (\<lambda>i. input_bytes (ser_input i)) (tx_inputs tx))"
  define Os where "Os = concat (map output_bytes (tx_outputs tx))"
  define buf where "buf = tx_bytes tx @ rest"
  let ?V = "UInt32SetLE (tx_version tx)" and ?L = "UInt32SetLE (tx_lockTime tx)"
  have b: "buf = ?V @ I @ Is @ P @ Os @ ?L @ rest"
    by (simp add: buf_def tx_bytes_ser I_def P_def Is_def Os_def)
  have len': "length buf < 2 ^ 64" "length (tx_bytes tx) < 2 ^ 60" using len by (simp_all add: buf_def)
  note fits = tx_bytes_fits [OF len'(2)]
  have un: "unat (word_of_nat (length (tx_inputs tx)) :: u64) = length (tx_inputs tx)"
    "unat (word_of_nat (length (tx_outputs tx)) :: u64) = length (tx_outputs tx)"
    using fits(3,4) by (simp_all add: unat_len)
  have r1: "rd 4 UInt32GetLE 0 buf = Some (tx_version tx)" "sz_add 0 4 = 4"
    using rd_ints(2) [OF len'(1), of 0 "[]" "tx_version tx"] b by simp_all
  have r2: "BRVarInt (drop 4 buf) = (word_of_nat (length (tx_inputs tx)), length I)" "sz_add 4 (length I) = 4 + length I"
    using varint_at [of buf ?V "word_of_nat (length (tx_inputs tx))" _ 4] b len'
    by (simp_all add: I_def sz_add_small)
  have r3: "parse_inputs (length (tx_inputs tx)) buf (4 + length I) True =
      Some (tx_inputs tx, 4 + length I + length Is, BRTransactionIsSigned tx)"
    using parse_inputs_bytes [of "tx_inputs tx" buf "?V @ I" "P @ Os @ ?L @ rest" True] wf b len'
    by (simp add: wf_tx_def Is_def BRTransactionIsSigned_def)
  let ?o = "4 + length I + length Is"
  have r4: "BRVarInt (drop ?o buf) = (word_of_nat (length (tx_outputs tx)), length P)"
      "sz_add ?o (length P) = ?o + length P"
    using varint_at [of buf "?V @ I @ Is" "word_of_nat (length (tx_outputs tx))" "Os @ ?L @ rest" ?o] b len'
    by (simp_all add: P_def sz_add_small)
  have r5: "parse_outputs (length (tx_outputs tx)) buf (?o + length P) = Some (tx_outputs tx, ?o + length P + length Os)"
    using parse_outputs_bytes [of "tx_outputs tx" buf "?V @ I @ Is @ P" "?L @ rest"] wf b len'
    by (simp add: wf_tx_def Os_def add.assoc)
  let ?e = "?o + length P + length Os"
  have r6: "rd 4 UInt32GetLE ?e buf = Some (tx_lockTime tx)" "sz_add ?e 4 = ?e + 4"
    using rd_ints(2) [OF len'(1), of ?e "?V @ I @ Is @ P @ Os" "tx_lockTime tx"] b by simp_all
  have e: "?e + 4 = length (tx_bytes tx)" "take (?e + 4) buf = tx_bytes tx" "?e + 4 \<le> length buf"
    "length (tx_inputs tx) \<noteq> 0"
    using wf by (simp_all add: tx_bytes_ser I_def P_def Is_def Os_def buf_def wf_tx_def)
  have t: "(if BRTransactionIsSigned tx
      then BRTransactionNew\<lparr>tx_version := tx_version tx, tx_inputs := tx_inputs tx, tx_outputs := tx_outputs tx,
        tx_lockTime := tx_lockTime tx\<rparr>\<lparr>tx_txHash := UInt256Get (BRSHA256_2 (tx_bytes tx))\<rparr>
      else BRTransactionNew\<lparr>tx_version := tx_version tx, tx_inputs := tx_inputs tx, tx_outputs := tx_outputs tx,
        tx_lockTime := tx_lockTime tx\<rparr>) = tx"
    using wf by (simp add: wf_tx_def BRTransactionNew_def)
  have "BRTransactionParse buf = Some (Some tx)"
    unfolding BRTransactionParse_def r1 bind.bind_lunit Let_def r2 prod.case un r3
    using fits e t by (simp only: r4 r5 r6 un bind.bind_lunit Let_def prod.case if_False simp_thms not_less [symmetric])
  then show ?thesis by (simp add: buf_def)
qed

text \<open>The size of a signed transaction.\<close>

lemma BRTransactionSize_signed:
  assumes "BRTransactionIsSigned tx"
  shows "BRTransactionSize tx = length (tx_bytes tx)"
proof -
  have i: "list_all (\<lambda>i. in_signature i \<noteq> None) xs \<Longrightarrow>
      sum_list (map (\<lambda>input. case in_signature input of
         Some sig \<Rightarrow> 32 + 4 + BRVarIntSize (word_of_nat (length sig)) + length sig + 4
       | None \<Rightarrow> TX_INPUT_SIZE) xs) = length (concat (map (\<lambda>i. input_bytes (ser_input i)) xs))" for xs
    by (induction xs) (auto simp: ser_input_def input_bytes_def bytes_of_def BRVarIntSize_length)
  have o: "sum_list (map (\<lambda>output. 8 + BRVarIntSize (word_of_nat (length (bytes_of (out_script output)))) +
      length (bytes_of (out_script output))) ys) = length (concat (map output_bytes ys))" for ys
    by (induction ys) (simp_all add: output_bytes_def BRVarIntSize_length)
  have "list_all (\<lambda>i. in_signature i \<noteq> None) (tx_inputs tx)"
    using assms by (simp add: BRTransactionIsSigned_def)
  note i [OF this]
  then show ?thesis
    unfolding BRTransactionSize_def o by (simp add: tx_bytes_ser BRVarIntSize_length)
qed

section \<open>Properties\<close>

text \<open>The serializer writes, for every transaction, input index and hash type (and so for every
  signature hash preimage, of either signature scheme), exactly the bytes of the specification
  \<open>data_bytes\<close>: called with \<open>NULL\<close> it returns their number, and into a buffer that has room it writes them
  at the start, changes nothing behind them and returns the same number.\<close>

theorem BRTransactionData_contract: "writes (BRTransactionData tx index hashType) (data_bytes tx index hashType)"
  by (rule Data_writes)

text \<open>C1: parsing a serialized transaction gives the transaction back, with its hash, whatever bytes
  follow it in the buffer: every transaction with at least one input whose inputs are signed (with no
  amount) or unsigned (with a standard script and a non-zero amount), below \<open>2 ^ 60\<close> bytes.\<close>

theorem BRTransaction_roundtrip:
  assumes "wf_tx tx" and "length (tx_bytes tx @ rest) < 2 ^ 60"
    and "bs = bytes_of (snd (BRTransactionSerialize tx (Some (replicate (fst (BRTransactionSerialize tx None)) 0))))"
  shows "BRTransactionParse (bs @ rest) = Some (Some tx)"
proof -
  have "countable_tx tx"
    using tx_bytes_fits(3) [of tx] assms(2) by (simp add: countable_tx_def SIZE_MAX_def)
  from txser.two_calls [OF this, of "replicate (fst (BRTransactionSerialize tx None)) 0"]
  have "bs = tx_bytes tx" using assms(3) by (simp add: bytes_of_def)
  then show ?thesis using parse_tx_bytes [OF assms(1,2)] by simp
qed

definition demo_body :: BRTransaction where
  "demo_body = BRTransactionAddOutput (BRTransactionAddInput BRTransactionNew 5 1 0 None (Some []) TXIN_SEQUENCE)
     1000 (Some [OP_DUP])"

definition demo_tx :: BRTransaction where
  "demo_tx = demo_body\<lparr>tx_txHash := UInt256Get (BRSHA256_2 (tx_bytes demo_body))\<rparr>"

lemmas demo_defs = demo_body_def BRTransactionAddInput_def BRTransactionAddOutput_def
  BRTransactionNew_def BRTxInputSetSignature_def BRTxOutputSetScript_def output_zero_def Let_def

lemma demo_tx_wf: "wf_tx demo_tx" "length (tx_bytes demo_tx) = 61"
proof -
  have "tx_bytes demo_tx = tx_bytes demo_body" by (simp add: demo_tx_def tx_bytes_def)
  then show "wf_tx demo_tx" "length (tx_bytes demo_tx) = 61"
    by (simp_all add: wf_tx_def demo_tx_def wf_input_def wf_output_def BRTransactionIsSigned_def demo_defs
        template_payload_def BRAddressFromScriptSig_def addr36_def buf36_def tx_bytes_def input_bytes_def
        output_bytes_def bytes_of_def varint_bytes_def)
qed

theorem BRTransaction_roundtrip_witness:
  "BRTransactionParse (bytes_of (snd (BRTransactionSerialize demo_tx
     (Some (replicate (fst (BRTransactionSerialize demo_tx None)) 0)))) @ [1, 2, 3]) = Some (Some demo_tx)"
  using BRTransaction_roundtrip [OF demo_tx_wf(1) _ refl, of "[1, 2, 3]"] demo_tx_wf(2) by simp

text \<open>The size from which the fee is computed is, for a signed transaction, the exact number of
  bytes that are sent.\<close>

theorem BRTransactionSize_exact:
  assumes "BRTransactionIsSigned tx" and "length (tx_inputs tx) \<le> SIZE_MAX"
  shows "BRTransactionSize tx = fst (BRTransactionSerialize tx None)"
  using BRTransactionSize_signed [OF assms(1)] writes_None [OF txser.ser_writes, of tx] assms(2)
  by (simp add: countable_tx_def)

theorem BRTransactionSize_exact_witness:
  "BRTransactionSize demo_body = fst (BRTransactionSerialize demo_body None)"
  using BRTransactionSize_exact [of demo_body]
  by (simp add: BRTransactionIsSigned_def demo_defs SIZE_MAX_def)

text \<open>C40: the parser has no defined behaviour on a 50-byte message whose one input announces a script
  of \<open>2 ^ 64 - 1\<close> bytes: the bounds test \<open>off + sLen <= bufLen\<close> wraps around and passes, and the script is
  copied from behind the buffer. The version, the previous hash and the index are arbitrary.\<close>

theorem BRTransactionParse_overread:
  "BRTransactionParse (UInt32SetLE v @ [1] @ UInt256Set h @ UInt32SetLE x @ [0xff] @ UInt64SetLE (- 1)) = None"
  (is "BRTransactionParse ?buf = None")
proof -
  have len: "length ?buf = 50" by simp
  then have len': "length ?buf < 2 ^ 64" by simp
  have r1: "rd 4 UInt32GetLE 0 ?buf = Some v \<and> sz_add 0 4 = 0 + 4" by (rule rd_ints(2) [OF len' _, of _ "[]"]) simp_all
  have r2: "BRVarInt (drop 4 ?buf) = (1, 1)" by (simp add: BRVarInt_def VAR_INT16_HEADER_def VAR_INT32_HEADER_def VAR_INT64_HEADER_def)
  have r3: "rd 32 UInt256Get 5 ?buf = Some h \<and> sz_add 5 32 = 5 + 32"
    by (rule rd_ints(1) [OF len' _, of _ "UInt32SetLE v @ [1]"]) simp_all
  have r4: "rd 4 UInt32GetLE 37 ?buf = Some x \<and> sz_add 37 4 = 37 + 4"
    by (rule rd_ints(2) [OF len' _, of _ "UInt32SetLE v @ [1] @ UInt256Set h"]) simp_all
  have r5: "BRVarInt (drop 41 ?buf) = (- 1, 9)"
    using UIntGetLE_append(3) [of "- 1" "[]"] by (simp add: BRVarInt_def VAR_INT16_HEADER_def VAR_INT32_HEADER_def VAR_INT64_HEADER_def)
  have u: "unat (- 1 :: u64) = 2 ^ 64 - 1" by (simp add: unsigned_minus_1_eq_mask mask_eq_exp_minus_1)
  have p: "parse_input ?buf 5 True = None"
    unfolding parse_input_def using r3 r4 r5 len
    by (simp add: sz_add_def u MAX_SCRIPT_LENGTH_def sub_bytes_def del: append.simps append_Cons append_Nil)
  show ?thesis
    unfolding BRTransactionParse_def using r1 r2 p len
    by (simp add: sz_add_def array_fits_def TX_INPUT_BYTES_def del: append.simps append_Cons append_Nil)
qed

end
