(* ===== verification/TransactionSign.thy ===== *)
theory TransactionSign
  imports TransactionLaws
begin

text \<open>
  \<open>BRTransactionSign\<close> of \<^verbatim>\<open>Libraries/loafwallet-core/BRTransaction.c\<close>: the loop signs the inputs one after
  the other and changes the transaction it hashes, but what is hashed for an input does not depend on the
  signatures of the other inputs, so the result is the one of signing every input of the given transaction.
\<close>

section \<open>What is hashed does not depend on the signatures\<close>

definition unsig :: "BRTxInput \<Rightarrow> BRTxInput" where
  "unsig i = i\<lparr>in_signature := None, in_address := []\<rparr>"

lemma unsig_sel:
  assumes "unsig a = unsig b"
  shows "in_txHash a = in_txHash b" "in_index a = in_index b" "in_amount a = in_amount b"
    "in_script a = in_script b" "in_sequence a = in_sequence b"
  using arg_cong [OF assms, of in_txHash] arg_cong [OF assms, of in_index] arg_cong [OF assms, of in_amount]
    arg_cong [OF assms, of in_script] arg_cong [OF assms, of in_sequence]
  by (simp_all add: unsig_def)

lemma unsig_set:
  "unsig (i\<lparr>in_signature := s\<rparr>) = unsig i" "unsig (i\<lparr>in_address := a\<rparr>) = unsig i"
  by (simp_all add: unsig_def)

lemma unsig_SetSignature: "unsig (BRTxInputSetSignature i s) = unsig i"
  by (simp add: BRTxInputSetSignature_def unsig_set split: option.splits)

lemma unsig_nth: "map unsig xs = map unsig ys \<Longrightarrow> i < length xs \<Longrightarrow> unsig (xs ! i) = unsig (ys ! i)"
  by (metis length_map nth_map)

lemma signing_input_unsig:
  assumes "unsig a = unsig b" "index \<noteq> SIZE_MAX"
  shows "input_bytes (signing_input index sh i a) = input_bytes (signing_input index sh i b)"
  using unsig_sel [OF assms(1)] assms(2) by (simp add: signing_input_def input_bytes_def Let_def)

lemma scripted_unsig:
  assumes "unsig a = unsig b"
  shows "input_bytes (a\<lparr>in_signature := in_script a\<rparr>) = input_bytes (b\<lparr>in_signature := in_script b\<rparr>)"
    "input_bytes (a\<lparr>in_signature := in_script a, in_amount := 0\<rparr>) =
     input_bytes (b\<lparr>in_signature := in_script b, in_amount := 0\<rparr>)"
  using unsig_sel [OF assms] by (simp_all add: input_bytes_def)

lemma map_unsig_cong:
  assumes "map unsig xs = map unsig ys" "\<And>a b. unsig a = unsig b \<Longrightarrow> f a = f b"
  shows "map f xs = map f ys"
proof (rule nth_equalityI)
  show l: "length (map f xs) = length (map f ys)" using assms(1) by (metis length_map)
  fix k assume k: "k < length (map f xs)"
  then have "f (xs ! k) = f (ys ! k)" by (intro assms(2) unsig_nth [OF assms(1)]) simp
  then show "map f xs ! k = map f ys ! k" using k l by simp
qed

lemma map_zip_unsig:
  assumes "map unsig xs = map unsig ys" "\<And>i a b. unsig a = unsig b \<Longrightarrow> f i a = f i b"
  shows "map (\<lambda>(i, a). f i a) (zip [0..<length xs] xs) = map (\<lambda>(i, a). f i a) (zip [0..<length ys] ys)"
proof (rule nth_equalityI)
  have l: "length xs = length ys" using assms(1) by (metis length_map)
  then show "length (map (\<lambda>(i, a). f i a) (zip [0..<length xs] xs)) =
      length (map (\<lambda>(i, a). f i a) (zip [0..<length ys] ys))" by simp
  fix k assume k: "k < length (map (\<lambda>(i, a). f i a) (zip [0..<length xs] xs))"
  then have "f k (xs ! k) = f k (ys ! k)" by (intro assms(2) unsig_nth [OF assms(1)]) simp
  then show "map (\<lambda>(i, a). f i a) (zip [0..<length xs] xs) ! k = map (\<lambda>(i, a). f i a) (zip [0..<length ys] ys) ! k"
    using k l by simp
qed

lemma data_bytes_unsig:
  assumes u: "map unsig (tx_inputs tx) = map unsig ins" and i: "index \<noteq> SIZE_MAX"
  shows "data_bytes (tx\<lparr>tx_inputs := ins\<rparr>) index h = data_bytes tx index h"
proof -
  have l: "length ins = length (tx_inputs tx)" using u by (metis length_map)
  have m: "map (\<lambda>x. UInt256Set (in_txHash x) @ UInt32SetLE (in_index x)) ins =
      map (\<lambda>x. UInt256Set (in_txHash x) @ UInt32SetLE (in_index x)) (tx_inputs tx)"
    "map (\<lambda>x. UInt32SetLE (in_sequence x)) ins = map (\<lambda>x. UInt32SetLE (in_sequence x)) (tx_inputs tx)"
    by (rule map_unsig_cong [OF u [symmetric]], frule unsig_sel(1), drule unsig_sel(2), simp,
        rule map_unsig_cong [OF u [symmetric]], drule unsig_sel(5), simp)
  have z: "map (\<lambda>(k, x). input_bytes (signing_input index sh k x)) (zip [0..<length ins] ins) =
      map (\<lambda>(k, x). input_bytes (signing_input index sh k x)) (zip [0..<length (tx_inputs tx)] (tx_inputs tx))" for sh
    using u by (intro map_zip_unsig signing_input_unsig [OF _ i]) simp_all
  have n: "unsig (ins ! index) = unsig (tx_inputs tx ! index)" if "index < length (tx_inputs tx)"
    using unsig_nth [OF u that] by simp
  have w: "witness_bytes (tx\<lparr>tx_inputs := ins\<rparr>) index h = witness_bytes tx index h"
    if "index < length (tx_inputs tx)"
    using m scripted_unsig(1) [OF n [OF that]] by (simp add: witness_bytes_def Let_def sel_outputs_def)
  have b: "inputs_bytes (tx\<lparr>tx_inputs := ins\<rparr>) index h = inputs_bytes tx index h"
    if "\<not> (h AND SIGHASH_ANYONECANPAY \<noteq> 0 \<and> index \<ge> length (tx_inputs tx))"
  proof (cases "h AND SIGHASH_ANYONECANPAY = 0")
    case True
    then show ?thesis using z [of "h AND 0x1f"] l by (simp add: inputs_bytes_def)
  next
    case False
    then show ?thesis using scripted_unsig(2) [OF n] that by (simp add: inputs_bytes_def)
  qed
  have o: "sig_outputs_bytes (tx\<lparr>tx_inputs := ins\<rparr>) index h = sig_outputs_bytes tx index h"
    by (simp add: sig_outputs_bytes_def Let_def sel_outputs_def)
  show ?thesis using w b o l by (simp add: data_bytes_def)
qed

section \<open>The signature script\<close>

lemma writes_at_off_rest: "writes f bs \<Longrightarrow> length bs \<le> length d - off \<Longrightarrow> off \<le> length d \<Longrightarrow>
    at_off off f (Some d) = (length bs, Some (take off d @ bs @ drop (off + length bs) d))"
  by (simp add: at_off_def writes_Some add.commute)

text \<open>The signed hash, the DER signature with its hash type, and the script that holds it.\<close>

definition sig_hash :: "BRTransaction \<Rightarrow> nat \<Rightarrow> u32 \<Rightarrow> UInt256" where
  "sig_hash tx i hashType = UInt256Get (BRSHA256_2 (data_bytes tx i hashType))"

definition sig_script :: "'k key_api \<Rightarrow> u32 \<Rightarrow> BRTransaction \<Rightarrow> nat \<Rightarrow> u8 list \<Rightarrow> 'k \<Rightarrow> u8 list" where
  "sig_script api forkId tx i script key =
     push_bytes (take 72 (keySign api key (sig_hash tx i (forkId OR SIGHASH_ALL))) @ [ucast (forkId OR SIGHASH_ALL)]) @
     (if is_p2pkh script then push_bytes (keyPubKey api key) else [])"

lemma push_len: "length d < 0x4c \<Longrightarrow> length (push_bytes d) = 1 + length d"
  by (simp add: push_bytes_def push_header_def op_defs)

lemma template_elements:
  assumes "template_payload s \<noteq> None"
    and "BRScriptElements (Some (fst (BRScriptElements None s))) s = (count, ps)"
  shows "(count \<ge> 2 \<and> s ! (ps ! (count - 2)) = OP_EQUALVERIFY) = is_p2pkh s"
proof -
  have "is_p2pkh s \<or> is_p2sh s \<or> is_p2pk s"
    using assms(1) by (simp add: template_payload_def is_p2pkh_def is_p2sh_def is_p2pk_def split: if_splits)
  then consider (a) "is_p2pkh s" | (b) "is_p2sh s" "\<not> is_p2pkh s" | (c) "is_p2pk s" "\<not> is_p2pkh s" by blast
  then show ?thesis
  proof cases
    case a
    note e = p2pkh_elements [of s]
    have "(count, ps) = (5, [0, 1, 2, 23, 24])" "s ! 23 = OP_EQUALVERIFY"
      using elements_of_loop [OF e(1)] e(5) a assms(2) by (simp_all add: is_p2pkh_def)
    then show ?thesis using a by simp
  next
    case b
    note e = p2sh_elements [of s]
    have "(count, ps) = (3, [0, 1, 22])" "s ! 1 = 20"
      using elements_of_loop [OF e(1)] e(3) b(1) assms(2) by (simp_all add: is_p2sh_def)
    then show ?thesis using b(2) by (simp add: op_defs)
  next
    case c
    define n where "n = length s - 2"
    have n: "length s = n + 2" "unat (s ! 0) = n" "n = 65 \<or> n = 33" "s ! (n + 1) = OP_CHECKSIG"
      using c(1) by (auto simp: is_p2pk_def n_def)
    have "(count, ps) = (2, [0, n + 1])"
      using elements_of_loop [OF p2pk_elements [OF n]] assms(2) by simp
    moreover have "s ! 0 \<noteq> OP_EQUALVERIFY" using n(2,3) by (auto simp: op_defs)
    ultimately show ?thesis using c(2) by simp
  qed
qed

lemma sign_script_eq:
  assumes "length (keyPubKey api key) < 0x4c" and "template_payload (bytes_of (in_script input)) \<noteq> None"
  shows "sign_script api forkId tx i input key = sig_script api forkId tx i (bytes_of (in_script input)) key"
proof -
  obtain count ps where e: "BRScriptElements (Some (fst (BRScriptElements None (bytes_of (in_script input)))))
      (bytes_of (in_script input)) = (count, ps)" by fastforce
  have h: "UInt256Get (hash_of (BRTransactionData tx i h)) = sig_hash tx i h" for h
    by (simp add: hash_of_writes [OF Data_writes] sig_hash_def)
  define sig where "sig = take 72 (keySign api key (sig_hash tx i (forkId OR SIGHASH_ALL))) @ [ucast (forkId OR SIGHASH_ALL)]"
  define cap where "cap = 1 + 73 + 1 + length (keyPubKey api key)"
  define rest where "rest = replicate (cap - length (push_bytes sig)) (0 :: u8)"
  have l: "length (push_bytes sig) = 1 + length sig" "length sig \<le> 73"
      "length (push_bytes (keyPubKey api key)) = 1 + length (keyPubKey api key)"
    using assms(1) by (simp_all add: sig_def push_len)
  have p: "BRScriptPushData (Some sig) (length sig) (Some (replicate cap 0)) =
      (length (push_bytes sig), Some (push_bytes sig @ rest))"
    using writes_Some [OF push.ser_writes [OF TrueI], of sig "replicate cap 0"] l by (simp add: cap_def rest_def)
  have q: "at_off (length (push_bytes sig)) (BRScriptPushData (Some (keyPubKey api key)) (length (keyPubKey api key)))
        (Some (push_bytes sig @ rest)) =
      (length (push_bytes (keyPubKey api key)), Some (push_bytes sig @ push_bytes (keyPubKey api key) @
        drop (length (push_bytes (keyPubKey api key))) rest))"
    by (rule writes_at_off_Some [OF push.ser_writes [OF TrueI] refl]) (use l in \<open>simp add: rest_def cap_def\<close>)
  show ?thesis
    unfolding sign_script_def e prod.case Let_def h sig_def [symmetric] cap_def [symmetric] p
      template_elements [OF assms(2) e] q sig_script_def
    by (simp add: bytes_of_def)
qed

section \<open>The loop\<close>

text \<open>The key whose address is the one of the script.\<close>

definition script_key :: "'k key_api \<Rightarrow> 'k list \<Rightarrow> u8 list \<Rightarrow> 'k option" where
  "script_key api keys script =
     (let r = BRAddressFromScriptPubKey script buf36 in
      if (case r of Some (m, _) \<Rightarrow> m | None \<Rightarrow> 0) = 0 then None else find_key api keys (addr36 r))"

lemma script_key_template: "script_key api keys script = Some k \<Longrightarrow> template_payload script \<noteq> None"
  by (cases "template_payload script") (auto simp: script_key_def from_script_templates encode_or_0_def)

lemma script_key_mem: "script_key api keys script = Some k \<Longrightarrow> k \<in> set keys"
  by (auto simp: script_key_def Let_def find_key_def find_Some_iff split: if_splits)

definition signed_input :: "'k key_api \<Rightarrow> u32 \<Rightarrow> 'k list \<Rightarrow> BRTransaction \<Rightarrow> nat \<Rightarrow> BRTxInput" where
  "signed_input api forkId keys tx i =
     (let input = tx_inputs tx ! i; script = bytes_of (in_script input) in
      case script_key api keys script of
        None \<Rightarrow> input
      | Some key \<Rightarrow> BRTxInputSetSignature input (Some (sig_script api forkId tx i script key)))"

lemma unsig_signed_input: "unsig (signed_input api forkId keys tx i) = unsig (tx_inputs tx ! i)"
  by (simp add: signed_input_def Let_def unsig_SetSignature split: option.splits)

lemma sign_step:
  assumes "\<forall>k\<in>set keys. length (keyPubKey api k) < 0x4c" "i < length ins" "i \<noteq> SIZE_MAX"
    and "map unsig (tx_inputs tx) = map unsig ins" "ins ! i = tx_inputs tx ! i"
  shows "sign_loop api forkId keys (Suc n) i (tx\<lparr>tx_inputs := ins\<rparr>) =
    sign_loop api forkId keys n (i + 1) (tx\<lparr>tx_inputs := ins[i := signed_input api forkId keys tx i]\<rparr>)"
proof -
  let ?in = "tx_inputs tx ! i" let ?s = "bytes_of (in_script ?in)"
  let ?r = "BRAddressFromScriptPubKey ?s buf36"
  have d: "sig_hash (tx\<lparr>tx_inputs := ins\<rparr>) i h = sig_hash tx i h" for h
    using data_bytes_unsig [OF assms(4,3)] by (simp add: sig_hash_def)
  have id: "ins[i := ?in] = ins" using assms(5) by (metis list_update_id)
  show ?thesis
  proof (cases "script_key api keys ?s")
    case None
    then have s: "signed_input api forkId keys tx i = ?in" by (simp add: signed_input_def)
    have "(case ?r of Some (m, _) \<Rightarrow> m | None \<Rightarrow> 0) = 0 \<or> find_key api keys (addr36 ?r) = None"
      using None by (simp add: script_key_def Let_def split: if_splits)
    then show ?thesis using assms(5) by (auto simp: Let_def s id)
  next
    case (Some key)
    then have k: "(case ?r of Some (m, _) \<Rightarrow> m | None \<Rightarrow> 0) \<noteq> 0" "find_key api keys (addr36 ?r) = Some key"
      by (simp_all add: script_key_def Let_def split: if_splits)
    have e: "sign_script api forkId (tx\<lparr>tx_inputs := ins\<rparr>) i ?in key = sig_script api forkId tx i ?s key"
      using sign_script_eq [of api key ?in] assms(1) script_key_mem [OF Some] script_key_template [OF Some] d
      by (simp add: sig_script_def)
    show ?thesis
      using k Some assms(5) e by (simp add: Let_def signed_input_def)
  qed
qed

lemma sign_loop_all:
  assumes "\<forall>k\<in>set keys. length (keyPubKey api k) < 0x4c" "length (tx_inputs tx) \<le> SIZE_MAX"
  shows "i + n = length (tx_inputs tx) \<Longrightarrow>
    sign_loop api forkId keys n i (tx\<lparr>tx_inputs := map (signed_input api forkId keys tx) [0..<i] @ drop i (tx_inputs tx)\<rparr>) =
    tx\<lparr>tx_inputs := map (signed_input api forkId keys tx) [0..<length (tx_inputs tx)]\<rparr>"
proof (induction n arbitrary: i)
  case (Suc n)
  let ?f = "signed_input api forkId keys tx"
  let ?ins = "map ?f [0..<i] @ drop i (tx_inputs tx)"
  have i: "i < length (tx_inputs tx)" "i \<noteq> SIZE_MAX" using Suc.prems assms(2) by simp_all
  have "map unsig (tx_inputs tx) = map unsig ?ins"
    using i by (intro nth_equalityI) (simp_all add: nth_append unsig_signed_input)
  moreover have "?ins ! i = tx_inputs tx ! i" "i < length ?ins" using i by (simp_all add: nth_append)
  ultimately have "sign_loop api forkId keys (Suc n) i (tx\<lparr>tx_inputs := ?ins\<rparr>) =
      sign_loop api forkId keys n (i + 1) (tx\<lparr>tx_inputs := ?ins[i := ?f i]\<rparr>)"
    using i(2) by (intro sign_step [OF assms(1)])
  moreover have "?ins[i := ?f i] = map ?f [0..<i + 1] @ drop (i + 1) (tx_inputs tx)"
    using i by (simp add: list_update_append Cons_nth_drop_Suc [symmetric])
  ultimately show ?case using Suc.IH [of "i + 1"] Suc.prems by simp
qed simp

lemma tx_bytes_txHash: "tx_bytes (tx\<lparr>tx_txHash := h\<rparr>) = tx_bytes tx"
  by (simp add: tx_bytes_def)

lemma BRTransactionSign_eq:
  assumes "\<forall>k\<in>set keys. length (keyPubKey api k) < 0x4c" "length (tx_inputs tx) \<le> SIZE_MAX"
  shows "BRTransactionSign api forkId keys tx =
    (let tx' = tx\<lparr>tx_inputs := map (signed_input api forkId keys tx) [0..<length (tx_inputs tx)]\<rparr> in
     if \<forall>i\<in>set (tx_inputs tx'). in_signature i \<noteq> None
     then (True, tx'\<lparr>tx_txHash := UInt256Get (BRSHA256_2 (tx_bytes tx'))\<rparr>) else (False, tx'))"
proof -
  define tx' where "tx' = tx\<lparr>tx_inputs := map (signed_input api forkId keys tx) [0..<length (tx_inputs tx)]\<rparr>"
  have l: "sign_loop api forkId keys (length (tx_inputs tx)) 0 tx = tx'"
    using sign_loop_all [OF assms, of 0] by (simp add: tx'_def)
  have d: "data_bytes tx' SIZE_MAX 0 = tx_bytes tx'"
    by (rule data_bytes_all) (use assms(2) in \<open>simp_all add: tx'_def\<close>)
  show ?thesis
    unfolding BRTransactionSign_def l tx'_def [symmetric] Let_def hash_of_writes [OF Data_writes] d
    by (simp add: BRTransactionIsSigned_def list_all_iff)
qed

lemma signed_input_size:
  assumes "\<forall>k\<in>set keys. length (keyPubKey api k) \<le> 33" "\<forall>k md. length (keySign api k md) \<le> 71"
    and "i < length (tx_inputs tx)"
    and "in_signature (tx_inputs tx ! i) = None" "is_p2pkh (bytes_of (in_script (tx_inputs tx ! i)))"
  shows "length (input_bytes (ser_input (signed_input api forkId keys tx i))) \<le> TX_INPUT_SIZE"
proof -
  let ?in = "tx_inputs tx ! i" let ?s = "bytes_of (in_script ?in)"
  have small: "length (varint_bytes (word_of_nat n)) = 1" if "n < 0xfd" for n
    using that by (simp add: varint_bytes_def word_less_nat_alt word_le_nat_alt unat_of_nat)
  have s: "length ?s = 25" using assms(5) by (simp add: is_p2pkh_def)
  show ?thesis
  proof (cases "script_key api keys ?s")
    case None
    then have "ser_input (signed_input api forkId keys tx i) = ?in\<lparr>in_signature := in_script ?in\<rparr>"
      using assms(4) by (simp add: signed_input_def ser_input_def)
    then show ?thesis using s small [of 25] by (simp add: input_bytes_def TX_INPUT_SIZE_def)
  next
    case (Some k)
    let ?g = "sig_script api forkId tx i ?s k"
    have sg: "length (keySign api k md) \<le> 71" for md using assms(2) by simp
    have "length (keyPubKey api k) \<le> 33" using script_key_mem [OF Some] assms(1) by simp
    then have "length ?g \<le> 107"
      using assms(5) sg [of "sig_hash tx i (forkId OR SIGHASH_ALL)"] by (simp add: sig_script_def push_len)
    moreover have "in_signature (ser_input (signed_input api forkId keys tx i)) = Some ?g"
      "in_amount (ser_input (signed_input api forkId keys tx i)) = 0"
      using Some by (simp_all add: signed_input_def Let_def ser_input_def BRTxInputSetSignature_def)
    ultimately show ?thesis using small [of "length ?g"]
      by (simp add: input_bytes_def TX_INPUT_SIZE_def bytes_of_def)
  qed
qed

lemma concat_at_most: "(\<And>x. x \<in> set xs \<Longrightarrow> length (f x) \<le> n) \<Longrightarrow> length (concat (map f xs)) \<le> n * length xs"
  by (induction xs) (simp_all add: add_mono)

section \<open>Properties\<close>

text \<open>C3: signing computes, for every input whose script has the address of one of the keys, the
  signature script over the signature hash of the \<^emph>\<open>given\<close> transaction, although the loop has already
  replaced the signatures of the inputs before it; every other input, and everything else in the
  transaction, stays as it was. The result is true exactly if then every input has a signature, and only
  then the hash is set, to the double SHA-256 of the serialized transaction. An input that already has a
  signature is signed again, and its signature replaced, if one of the keys has its address: the comment of
  the function says that only inputs with \<open>NULL\<close> signatures are signed.\<close>

theorem BRTransactionSign_correct:
  assumes "\<forall>k\<in>set keys. length (keyPubKey api k) < 0x4c" "length (tx_inputs tx) \<le> SIZE_MAX"
  shows "BRTransactionSign api forkId keys tx =
    (let tx' = tx\<lparr>tx_inputs := map (signed_input api forkId keys tx) [0..<length (tx_inputs tx)]\<rparr> in
     if \<forall>i\<in>set (tx_inputs tx'). in_signature i \<noteq> None
     then (True, tx'\<lparr>tx_txHash := UInt256Get (BRSHA256_2 (tx_bytes tx'))\<rparr>) else (False, tx'))"
  using assms by (rule BRTransactionSign_eq)

definition demo_script :: "u8 list" where
  "demo_script = script_of BITCOIN_PUBKEY_ADDRESS (replicate 20 7)"

definition demo_api :: "u8 key_api" where
  "demo_api = \<lparr>keyAddress = \<lambda>k. Some (addr36 (BRAddressFromScriptPubKey (script_of BITCOIN_PUBKEY_ADDRESS (replicate 20 k)) buf36)),
     keyPubKey = \<lambda>k. replicate 33 k, keySign = \<lambda>k md. replicate 71 k\<rparr>"

definition demo_unsigned :: BRTransaction where
  "demo_unsigned = BRTransactionAddInput (BRTransactionAddInput BRTransactionNew 5 1 900 (Some demo_script) None TXIN_SEQUENCE)
     6 0 700 (Some demo_script) None TXIN_SEQUENCE"

lemmas demo_unsigned_defs = demo_unsigned_def BRTransactionAddInput_def BRTransactionNew_def BRTxInputSetScript_def
  demo_script_def script_of_def is_p2pkh_def bytes_of_def

theorem BRTransactionSign_correct_witness:
  "snd (BRTransactionSign demo_api SIGHASH_FORKID [3, 7] demo_unsigned)\<lparr>tx_txHash := 0\<rparr> =
     demo_unsigned\<lparr>tx_inputs := [signed_input demo_api SIGHASH_FORKID [3, 7] demo_unsigned 0,
       signed_input demo_api SIGHASH_FORKID [3, 7] demo_unsigned 1]\<rparr>"
proof -
  have l: "length (tx_inputs demo_unsigned) = 2" "tx_txHash demo_unsigned = 0" by (simp_all add: demo_unsigned_defs Let_def)
  have t: "tx\<lparr>tx_inputs := x, tx_txHash := 0\<rparr> = tx\<lparr>tx_inputs := x\<rparr>" if "tx_txHash tx = 0" for tx x
    using that by (cases tx) simp
  have "\<forall>k\<in>set [3, 7]. length (keyPubKey demo_api k) < 0x4c" by (simp add: demo_api_def)
  from BRTransactionSign_correct [OF this, of demo_unsigned SIGHASH_FORKID] show ?thesis
    using t [OF l(2)] by (simp add: l SIZE_MAX_def Let_def upt_rec)
qed

text \<open>C39: the size estimate that \<open>BRTransactionSize\<close> makes for unsigned pay-to-pubkey-hash inputs is
  an upper bound of the size after signing, so that the fee computed from it is enough, for keys with
  compressed public keys and signatures of at most 71 bytes (what the library produces).\<close>

theorem BRTransactionSize_estimate:
  assumes "\<forall>k\<in>set keys. length (keyPubKey api k) \<le> 33" "\<forall>k md. length (keySign api k md) \<le> 71"
    and "\<forall>i\<in>set (tx_inputs tx). in_signature i = None \<and> is_p2pkh (bytes_of (in_script i))"
    and "length (tx_inputs tx) \<le> SIZE_MAX"
  shows "length (tx_bytes (snd (BRTransactionSign api forkId keys tx))) \<le> BRTransactionSize tx"
proof -
  define ins where "ins = map (signed_input api forkId keys tx) [0..<length (tx_inputs tx)]"
  have k: "\<forall>k\<in>set keys. length (keyPubKey api k) < 0x4c" using assms(1) by fastforce
  have "tx_bytes (snd (BRTransactionSign api forkId keys tx)) = tx_bytes (tx\<lparr>tx_inputs := ins\<rparr>)"
    unfolding BRTransactionSign_eq [OF k assms(4)] ins_def Let_def by (simp add: tx_bytes_txHash)
  moreover have "length (concat (map (\<lambda>i. input_bytes (ser_input i)) ins)) \<le> TX_INPUT_SIZE * length ins"
    using assms(3) by (intro concat_at_most) (auto simp: ins_def intro!: signed_input_size [OF assms(1,2)])
  moreover have "sum_list (map (\<lambda>input. case in_signature input of
         Some sig \<Rightarrow> 32 + 4 + BRVarIntSize (word_of_nat (length sig)) + length sig + 4
       | None \<Rightarrow> TX_INPUT_SIZE) xs) = TX_INPUT_SIZE * length xs" if "\<forall>i\<in>set xs. in_signature i = None" for xs
    using that by (induction xs) auto
  from this [of "tx_inputs tx"] have "sum_list (map (\<lambda>input. case in_signature input of
         Some sig \<Rightarrow> 32 + 4 + BRVarIntSize (word_of_nat (length sig)) + length sig + 4
       | None \<Rightarrow> TX_INPUT_SIZE) (tx_inputs tx)) = TX_INPUT_SIZE * length ins"
    using assms(3) by (simp add: ins_def)
  moreover have "sum_list (map (\<lambda>output. 8 + BRVarIntSize (word_of_nat (length (bytes_of (out_script output)))) +
      length (bytes_of (out_script output))) ys) = length (concat (map output_bytes ys))" for ys
    by (induction ys) (simp_all add: output_bytes_def BRVarIntSize_length)
  ultimately show ?thesis
    unfolding BRTransactionSize_def by (simp add: tx_bytes_ser BRVarIntSize_length ins_def)
qed

theorem BRTransactionSize_estimate_witness:
  "length (tx_bytes (snd (BRTransactionSign demo_api 0 [3, 7] demo_unsigned))) \<le> BRTransactionSize demo_unsigned"
  by (rule BRTransactionSize_estimate)
    (simp_all add: demo_api_def demo_unsigned_defs Let_def SIZE_MAX_def op_defs)

end
