(* ===== verification/HashSetOps.thy ===== *)
theory HashSetOps
  imports HashSet
begin

text \<open>
  What the operations of \<^verbatim>\<open>Libraries/loafwallet-core/BRSet.c\<close> do to the stored items: adding (with the
  growth of the table), removing (with the cleanup of the cluster behind the removed item), and the
  operations on two sets. All of them keep \<open>set_ok\<close>.
\<close>

section \<open>Adding an item\<close>

definition put_item :: "'a BRSet \<Rightarrow> nat \<Rightarrow> 'a \<Rightarrow> 'a BRSet" where
  "put_item s i x = s\<lparr>itemCount := (if table s ! i = None then itemCount s + 1 else itemCount s),
     table := (table s)[i := Some x]\<rparr>"

lemma put_item_simps [simp]:
  "bsize (put_item s i x) = bsize s" "hashf (put_item s i x) = hashf s"
  "eqf (put_item s i x) = eqf s" "table (put_item s i x) = (table s)[i := Some x]"
  "itemCount (put_item s i x) = (if table s ! i = None then itemCount s + 1 else itemCount s)"
  by (simp_all add: put_item_def)

text \<open>The invariant without the bound on the load, which a full table breaks until it has grown.\<close>

definition shape0 :: "'a BRSet \<Rightarrow> bool" where
  "shape0 s \<longleftrightarrow> hash_contract (hashf s) (eqf s) \<and> length (table s) = bsize s \<and>
     bsize s \<in> set (tl tableSizes) \<and>
     itemCount s = length (filter (\<lambda>t. t \<noteq> None) (table s)) \<and>
     (\<forall>k<bsize s. \<forall>l<bsize s. \<forall>x y. table s ! k = Some x \<longrightarrow> table s ! l = Some y \<longrightarrow> eqf s x y \<longrightarrow> k = l)"

lemma shape_shape0: "shape s \<longleftrightarrow> shape0 s \<and> itemCount s \<le> limit (bsize s)"
  by (auto simp: shape_def shape0_def)

lemma items_update:
  assumes "i < length (table s)"
  shows "{x. Some x \<in> set ((table s)[i := v])} =
     (case v of None \<Rightarrow> {} | Some y \<Rightarrow> {y}) \<union> {x. \<exists>k<length (table s). k \<noteq> i \<and> table s ! k = Some x}"
  using assms by (auto simp: in_set_conv_nth nth_list_update split: option.splits if_splits)

text \<open>Where \<open>locate\<close> stops, the equal items of the set are exactly the content of that bucket.\<close>

lemma items_other:
  assumes ok: "shape0 s" and j: "j < bsize s"
    and hit: "\<And>t. table s ! j = Some t \<Longrightarrow> eqf s t item"
    and miss: "\<And>y. table s ! j = None \<Longrightarrow> y \<in> items s \<Longrightarrow> \<not> eqf s y item"
  shows "{x. \<exists>k<length (table s). k \<noteq> j \<and> table s ! k = Some x} = {x \<in> items s. \<not> eqf s x item}"
proof -
  have hc: "hash_contract (hashf s) (eqf s)" and len: "length (table s) = bsize s"
    using ok by (simp_all add: shape0_def)
  have uniq: "k = l" if "k < bsize s" "l < bsize s" "table s ! k = Some x" "table s ! l = Some y"
    "eqf s x y" for k l x y
    using ok that unfolding shape0_def by blast
  have "\<not> eqf s x item" if k: "k < bsize s" "k \<noteq> j" "table s ! k = Some x" for k x
  proof (cases "table s ! j")
    case None
    then show ?thesis using miss k len by (auto simp: items_index)
  next
    case (Some t)
    show ?thesis
    proof
      assume "eqf s x item"
      then have "eqf s x t"
        using hit [OF Some] hash_contract.e_trans [OF hc] hash_contract.e_sym [OF hc] by blast
      from uniq [OF k(1) j k(3) Some this] k(2) show False by simp
    qed
  qed
  moreover have "k \<noteq> j" if "table s ! k = Some x" "\<not> eqf s x item" for k x
    using hit that by auto
  ultimately show ?thesis
    unfolding items_index len by blast
qed

lemma put_item_shape:
  assumes ok: "shape0 s" and j: "j < bsize s"
    and hit: "\<And>t. table s ! j = Some t \<Longrightarrow> eqf s t item"
    and miss: "\<And>y. table s ! j = None \<Longrightarrow> y \<in> items s \<Longrightarrow> \<not> eqf s y item"
  shows "shape0 (put_item s j item)"
    and "items (put_item s j item) = insert item {x \<in> items s. \<not> eqf s x item}"
proof -
  let ?s = "put_item s j item"
  have hc: "hash_contract (hashf s) (eqf s)" and len: "length (table s) = bsize s"
    using ok by (simp_all add: shape0_def)
  have other: "{x. \<exists>k<length (table s). k \<noteq> j \<and> table s ! k = Some x} = {x \<in> items s. \<not> eqf s x item}"
    using items_other [OF ok j hit miss] .
  have ne: "\<not> eqf s x item \<and> \<not> eqf s item x" if "k < bsize s" "k \<noteq> j" "table s ! k = Some x" for k x
  proof -
    have "x \<in> {x. \<exists>k<length (table s). k \<noteq> j \<and> table s ! k = Some x}" using that len by auto
    then have "\<not> eqf s x item" unfolding other by simp
    then show ?thesis using hash_contract.e_sym [OF hc, of item x] by auto
  qed
  show "items ?s = insert item {x \<in> items s. \<not> eqf s x item}"
    using items_update [of j s "Some item"] j len other by (simp add: items_def)
  have cnt: "itemCount ?s = length (filter (\<lambda>t. t \<noteq> None) (table ?s))"
    using count_update [of j "table s" "\<lambda>t. t \<noteq> None" "Some item"] ok j len
    by (auto simp: shape0_def)
  have "k = l" if kl: "k < bsize s" "l < bsize s" "table ?s ! k = Some x" "table ?s ! l = Some y"
    "eqf s x y" for k l x y
  proof (cases "k = j \<or> l = j")
    case True
    then show ?thesis using kl ne [of k x] ne [of l y] len j by (auto simp: nth_list_update split: if_splits)
  next
    case False
    then have "table s ! k = Some x" "table s ! l = Some y" using kl by simp_all
    with kl ok show ?thesis unfolding shape0_def by blast
  qed
  then have uniq: "\<forall>k<bsize s. \<forall>l<bsize s. \<forall>x y. table ?s ! k = Some x \<longrightarrow>
      table ?s ! l = Some y \<longrightarrow> eqf s x y \<longrightarrow> k = l" by blast
  have "bsize s \<in> set (tl tableSizes)" using ok by (simp add: shape0_def)
  then show "shape0 ?s"
    unfolding shape0_def put_item_simps(1-3) using hc len cnt uniq by simp
qed

lemma put_item_placed:
  assumes ok: "placed s" and len: "length (table s) = bsize s" and j: "j < bsize s"
    and D: "D < bsize s" "(hashf s item + D) mod bsize s = j"
      "\<And>d. d < D \<Longrightarrow> occupied (table s) ((hashf s item + d) mod bsize s)"
  shows "placed (put_item s j item)"
proof -
  let ?s = "put_item s j item"
  show ?thesis
    unfolding placed_def
  proof (intro allI impI)
    fix k x assume k: "k < bsize ?s" "table ?s ! k = Some x"
    show "reachable_at (table ?s) (bsize ?s) (hashf ?s x) k"
    proof (cases "k = j")
      case True
      then have "x = item" using k j len by simp
      moreover have "path (table ?s) (bsize s) (hashf s item) D"
        using D j len by (auto simp: path_def occupied_update le_eq_less_or_eq)
      ultimately show ?thesis using D(1,2) True by (auto simp: reachable_at_def)
    next
      case False
      then have "reachable_at (table s) (bsize s) (hashf s x) k"
        using k ok by (auto simp: placed_def)
      then show ?thesis
        using path_fill [of "table s" "bsize s"] len j by (fastforce simp: reachable_at_def)
    qed
  qed
qed

lemma locate_put_item:
  assumes ok: "set_ok s" and loc: "locate s item = Some j"
  shows "shape0 (put_item s j item)" and "placed (put_item s j item)"
    and "items (put_item s j item) = insert item {x \<in> items s. \<not> eqf s x item}"
proof -
  have sh: "shape s" "shape0 s" "placed s" using ok by (auto simp: set_ok_def shape_shape0)
  from locate_Some [OF loc] obtain D where D: "D < bsize s" "j = (hashf s item + D) mod bsize s"
    "\<And>d. d < D \<Longrightarrow> \<not> stops s item ((hashf s item + d) mod bsize s)" by blast
  have occ: "occupied (table s) ((hashf s item + d) mod bsize s)" if "d < D" for d
    using D(3) [OF that] by (auto simp: stops_def occupied_def split: option.splits)
  note * = put_item_shape [OF sh(2) locate_bound [OF loc] locate_hit [OF sh(1) loc]
      locate_miss [OF ok loc]]
  show "shape0 (put_item s j item)"
    "items (put_item s j item) = insert item {x \<in> items s. \<not> eqf s x item}"
    by (rule *; assumption)+
  have "length (table s) = bsize s" using sh(2) by (simp add: shape0_def)
  then show "placed (put_item s j item)"
    using put_item_placed [OF sh(3) _ locate_bound [OF loc] D(1) D(2) [symmetric] occ] by simp
qed

lemma add_depth_Suc:
  assumes "locate s item = Some j"
  shows "add_depth (Suc d) s item =
    (if itemCount (put_item s j item) > limit (bsize s)
     then map_option (Pair (table s ! j)) (BRSetGrow (add_depth d) (put_item s j item) (bsize s))
     else Some (table s ! j, put_item s j item))"
  using assms by (simp add: add_depth.simps(2) put_item_def limit_def Let_def)

text \<open>What adding \<open>x\<close> does to the items of a set: equal items are replaced.\<close>

definition added :: "'a BRSet \<Rightarrow> 'a \<Rightarrow> 'a BRSet \<Rightarrow> bool" where
  "added s x s' \<longleftrightarrow> set_ok s' \<and> items s' = insert x {y \<in> items s. \<not> eqf s y x} \<and>
     hashf s' = hashf s \<and> eqf s' = eqf s"

text \<open>Adding to a table that has room: no growth, whatever the depth.\<close>

lemma add_room:
  assumes ok: "set_ok s" and room: "itemCount s < limit (bsize s)"
  shows "\<exists>t s'. (\<forall>d. add_depth (Suc d) s item = Some (t, s')) \<and> added s item s' \<and>
    itemCount s' \<le> Suc (itemCount s) \<and> bsize s' = bsize s"
proof -
  have sh: "shape s" using ok by (simp add: set_ok_def)
  obtain j where j: "locate s item = Some j" using locate_total [OF sh] by blast
  have "\<not> itemCount (put_item s j item) > limit (bsize s)" using room by simp
  then have "add_depth (Suc d) s item = Some (table s ! j, put_item s j item)" for d
    by (simp only: add_depth_Suc [OF j] if_False)
  moreover have "set_ok (put_item s j item)"
    using locate_put_item [OF ok j] room by (simp add: set_ok_def shape_shape0)
  ultimately show ?thesis
    using locate_put_item(3) [OF ok j]
    by (intro exI [of _ "table s ! j"] exI [of _ "put_item s j item"]) (simp add: added_def)
qed

lemma set_ok_empty:
  assumes "hash_contract h e" "m \<in> set (tl tableSizes)"
  shows "set_ok \<lparr>table = replicate m None, bsize = m, itemCount = 0, hashf = h, eqf = e\<rparr>"
    and "items \<lparr>table = replicate m None, bsize = m, itemCount = 0, hashf = h, eqf = e\<rparr> = {}"
  using assms by (auto simp: set_ok_def shape_def placed_def items_def)

text \<open>The union loop over a table of pairwise different items, into a table with room for them.\<close>

definition filled :: "'a option list \<Rightarrow> nat" where
  "filled tb = length (filter (\<lambda>t. t \<noteq> None) tb)"

definition fresh :: "'a BRSet \<Rightarrow> 'a option list \<Rightarrow> bool" where
  "fresh s tb \<longleftrightarrow> (\<forall>x. Some x \<in> set tb \<longrightarrow> (\<forall>y\<in>items s. \<not> eqf s y x))"

fun apart :: "('a \<Rightarrow> 'a \<Rightarrow> bool) \<Rightarrow> 'a option list \<Rightarrow> bool" where
  "apart e [] = True"
| "apart e (None # tb) = apart e tb"
| "apart e (Some x # tb) = ((\<forall>y. Some y \<in> set tb \<longrightarrow> \<not> e x y) \<and> apart e tb)"

lemma apartI:
  assumes "\<forall>k<length tb. \<forall>l<length tb. \<forall>x y. tb ! k = Some x \<longrightarrow> tb ! l = Some y \<longrightarrow> e x y \<longrightarrow> k = l"
  shows "apart e tb"
  using assms
proof (induction tb)
  case (Cons t tb)
  have tb: "apart e tb"
  proof (rule Cons.IH, intro allI impI)
    fix k l x y assume "k < length tb" "l < length tb" "tb ! k = Some x" "tb ! l = Some y" "e x y"
    then show "k = l" using Cons.prems [rule_format, of "Suc k" "Suc l" x y] by simp
  qed
  show ?case
  proof (cases t)
    case (Some x)
    have "\<not> e x y" if y: "Some y \<in> set tb" for y
    proof -
      obtain l where "l < length tb" "tb ! l = Some y" using y by (auto simp: in_set_conv_nth)
      then show ?thesis using Cons.prems [rule_format, of 0 "Suc l" x y] Some by auto
    qed
    with Some tb show ?thesis by simp
  qed (simp add: tb)
qed simp

lemma union_loop_room:
  assumes "set_ok s" "itemCount s + filled tb \<le> limit (bsize s)" "fresh s tb" "apart (eqf s) tb"
  shows "\<exists>s'. (\<forall>d. union_loop (add_depth (Suc d)) s tb = Some s') \<and> set_ok s' \<and>
    items s' = items s \<union> {x. Some x \<in> set tb} \<and> bsize s' = bsize s \<and> hashf s' = hashf s \<and> eqf s' = eqf s"
  using assms
proof (induction tb arbitrary: s)
  case Nil
  then show ?case by simp
next
  case (Cons t tb)
  show ?case
  proof (cases t)
    case None
    have "itemCount s + filled tb \<le> limit (bsize s)" using Cons.prems(2) None by (simp add: filled_def)
    moreover have "fresh s tb" "apart (eqf s) tb" using Cons.prems(3,4) None by (simp_all add: fresh_def)
    ultimately show ?thesis using Cons.IH [OF Cons.prems(1)] None by simp
  next
    case (Some x)
    have fl: "filled (t # tb) = Suc (filled tb)" using Some by (simp add: filled_def)
    then have room: "itemCount s < limit (bsize s)" using Cons.prems(2) by linarith
    from add_room [OF Cons.prems(1) room, of x] obtain r s' where
      ad: "\<forall>d. add_depth (Suc d) s x = Some (r, s')" "added s x s'" and
      sz': "itemCount s' \<le> Suc (itemCount s)" "bsize s' = bsize s" by blast
    have s': "set_ok s'" "items s' = insert x {y \<in> items s. \<not> eqf s y x}"
      "hashf s' = hashf s" "eqf s' = eqf s" using ad(2) by (simp_all add: added_def)
    have it: "items s' = insert x (items s)" using s'(2) Cons.prems(3) Some by (auto simp: fresh_def)
    have "itemCount s' + filled tb \<le> limit (bsize s')"
      using sz' fl Cons.prems(2) by simp
    moreover have "fresh s' tb" "apart (eqf s') tb"
      using Cons.prems(3,4) Some it s'(4) by (auto simp: fresh_def)
    ultimately obtain u where
      "\<forall>d. union_loop (add_depth (Suc d)) s' tb = Some u" "set_ok u"
      "items u = items s' \<union> {x. Some x \<in> set tb}" "bsize u = bsize s'" "hashf u = hashf s'" "eqf u = eqf s'"
      using Cons.IH [OF s'(1)] by blast
    then show ?thesis using s' sz' ad(1) it Some by (intro exI [of _ u]) auto
  qed
qed

lemma filled_put_item:
  assumes "shape0 s"
  shows "filled (table s) = itemCount s"
  using assms by (simp add: shape0_def filled_def)

lemma grow_ok:
  assumes s: "shape0 s" and cnt: "itemCount s \<le> Suc (limit (bsize s))" and last: "bsize s < last tableSizes"
  shows "\<exists>s'. (\<forall>d. BRSetGrow (add_depth (Suc d)) s (bsize s) = Some s') \<and> set_ok s' \<and>
    items s' = items s \<and> hashf s' = hashf s \<and> eqf s' = eqf s"
proof -
  have hc: "hash_contract (hashf s) (eqf s)" and len: "length (table s) = bsize s"
    using s by (simp_all add: shape0_def)
  have "bsize s \<in> set (tl tableSizes)" using s by (simp add: shape0_def)
  from nextSize_grow [OF this last] obtain m where
    m: "nextSize (bsize s) = Some m" "m \<in> set (tl tableSizes)" "limit (bsize s) + 1 \<le> limit m" by blast
  let ?n = "\<lparr>table = replicate m None, bsize = m, itemCount = 0, hashf = hashf s, eqf = eqf s\<rparr>"
  have init: "BRSetInit (hashf s) (eqf s) (bsize s) = Some ?n" by (simp add: BRSetInit_def m)
  have room: "itemCount ?n + filled (table s) \<le> limit (bsize ?n)"
    using cnt m(3) filled_put_item [OF s] by simp
  have "\<forall>k<length (table s). \<forall>l<length (table s). \<forall>x y. table s ! k = Some x \<longrightarrow>
      table s ! l = Some y \<longrightarrow> eqf s x y \<longrightarrow> k = l" using s len by (simp add: shape0_def)
  then have ap: "apart (eqf ?n) (table s)" using apartI [of "table s" "eqf s"] by simp
  have fr: "fresh ?n (table s)" using set_ok_empty(2) [OF hc m(2)] by (simp add: fresh_def)
  from union_loop_room [OF set_ok_empty(1) [OF hc m(2)] room fr ap] obtain u where
    u: "\<forall>d. union_loop (add_depth (Suc d)) ?n (table s) = Some u" "set_ok u"
    "items u = items s" "bsize u = m" "hashf u = hashf s" "eqf u = eqf s"
    using set_ok_empty(2) [OF hc m(2)] by (auto simp: items_def)
  let ?s = "s\<lparr>table := table u, bsize := bsize u, itemCount := itemCount u\<rparr>"
  have "?s = u" using u(5,6) by simp
  moreover have "BRSetGrow (add_depth (Suc d)) s (bsize s) = Some ?s" for d
    by (simp add: BRSetGrow_def init u(1))
  ultimately show ?thesis using u by (intro exI [of _ u]) simp
qed

theorem add_any_depth:
  assumes ok: "set_ok s" and room: "bsize s < last tableSizes \<or> itemCount s < limit (bsize s)"
  shows "\<exists>t s'. (\<forall>d. add_depth (Suc (Suc d)) s item = Some (t, s')) \<and> added s item s' \<and>
    BRSetGet s item = Some t"
proof -
  have sh: "shape s" "itemCount s \<le> limit (bsize s)" using ok by (auto simp: set_ok_def shape_shape0)
  obtain j where j: "locate s item = Some j" using locate_total [OF sh(1)] by blast
  let ?s = "put_item s j item"
  note put = locate_put_item [OF ok j]
  have get: "BRSetGet s item = Some (table s ! j)" by (simp add: BRSetGet_def j)
  show ?thesis
  proof (cases "itemCount ?s > limit (bsize s)")
    case True
    then have "itemCount s = limit (bsize s)" using sh(2) by (auto split: if_splits)
    then have "itemCount ?s \<le> Suc (limit (bsize ?s))" "bsize ?s < last tableSizes" using room by auto
    from grow_ok [OF put(1) this] obtain s' where
      s': "\<forall>d. BRSetGrow (add_depth (Suc d)) ?s (bsize s) = Some s'" "set_ok s'"
      "items s' = items ?s" "hashf s' = hashf s" "eqf s' = eqf s" by auto
    have "add_depth (Suc (Suc d)) s item = Some (table s ! j, s')" for d
      unfolding add_depth_Suc [OF j] using True s'(1) by simp
    then show ?thesis using s' put(3) get by (auto simp: added_def)
  next
    case False
    then have "add_depth (Suc (Suc d)) s item = Some (table s ! j, ?s)" for d
      unfolding add_depth_Suc [OF j] by simp
    moreover have "added s item ?s"
      using put False by (simp add: added_def set_ok_def shape_shape0)
    ultimately show ?thesis using get by blast
  qed
qed

lemma add_ok:
  assumes "set_ok s" "bsize s < last tableSizes \<or> itemCount s < limit (bsize s)"
  shows "\<exists>t s'. BRSetAdd s item = Some (t, s') \<and> added s item s' \<and> BRSetGet s item = Some t"
proof -
  from add_any_depth [OF assms] obtain t s' where
    "\<forall>d. add_depth (Suc (Suc d)) s item = Some (t, s')" "added s item s'" "BRSetGet s item = Some t" by blast
  then show ?thesis unfolding BRSetAdd_def numeral_2_eq_2 by blast
qed

end
