(* ===== verification/HashSetRemove.thy ===== *)
theory HashSetRemove
  imports HashSetOps
begin

text \<open>
  Removing an item from the hash table of \<^verbatim>\<open>Libraries/loafwallet-core/BRSet.c\<close>: \<open>BRSetRemove\<close> empties the
  bucket of the item and adds the rest of its cluster again, so that the probes of the other items
  never meet the hole; and the operations on two sets, which add or remove the items of one of them.
\<close>

section \<open>Removing an item\<close>

text \<open>Emptying bucket \<open>(a + c) mod n\<close> of a cluster that runs from there to the empty bucket
  \<open>(a + E) mod n\<close> can only break the paths of the items behind it in the cluster.\<close>

lemma path_through_hole:
  assumes pth: "path tb n b D" and D: "D < n" and e: "\<not> occupied tb ((a + E) mod n)" "c < E" "E \<le> c + n"
    and hole: "d \<le> D" "(b + d) mod n = (a + c) mod n"
  shows "\<exists>x. c \<le> x \<and> x < E \<and> (b + D) mod n = (a + x) mod n"
proof -
  have shift: "(b + (d + m)) mod n = (a + (c + m)) mod n" for m
    using hole(2) by (metis ab_semigroup_add_class.add_ac(1) mod_add_left_eq)
  have "c + (D - d) < E"
  proof (rule ccontr)
    assume "\<not> c + (D - d) < E"
    then have "d + (E - c) \<le> D" using hole(1) e(2) by linarith
    then have "occupied tb ((b + (d + (E - c))) mod n)" using pth by (simp add: path_def)
    then show False using e shift [of "E - c"] by simp
  qed
  moreover have "(b + D) mod n = (a + (c + (D - d))) mod n"
    using shift [of "D - d"] hole(1) by simp
  ultimately show ?thesis by (intro exI [of _ "c + (D - d)"]) simp
qed

definition drop_item :: "'a BRSet \<Rightarrow> nat \<Rightarrow> 'a BRSet" where
  "drop_item s i = s\<lparr>itemCount := itemCount s - 1, table := (table s)[i := None]\<rparr>"

lemma drop_item_simps [simp]:
  "bsize (drop_item s i) = bsize s" "hashf (drop_item s i) = hashf s" "eqf (drop_item s i) = eqf s"
  "table (drop_item s i) = (table s)[i := None]" "itemCount (drop_item s i) = itemCount s - 1"
  by (simp_all add: drop_item_def)

lemma drop_item_shape:
  assumes sh: "shape s" and i: "i < bsize s" "table s ! i = Some r"
  shows "shape (drop_item s i)" and "itemCount (drop_item s i) < limit (bsize s)"
    and "items (drop_item s i) = items s - {r}" and "\<not> (\<exists>y\<in>items (drop_item s i). eqf s y r)"
proof -
  have hc: "hash_contract (hashf s) (eqf s)" and len: "length (table s) = bsize s"
    and cnt: "itemCount s = length (filter (\<lambda>t. t \<noteq> None) (table s))" "itemCount s \<le> limit (bsize s)"
    and n: "bsize s \<in> set (tl tableSizes)"
    using sh by (simp_all add: shape_def)
  have uniq: "k = l" if "k < bsize s" "l < bsize s" "table s ! k = Some x" "table s ! l = Some y"
    "eqf s x y" for k l x y
    using sh that unfolding shape_def by blast
  have pos: "0 < itemCount s" using count_occupied_pos [of i "table s" r] i len cnt(1) by simp
  then show lim: "itemCount (drop_item s i) < limit (bsize s)" using cnt(2) by simp
  have keep: "table s ! k = Some x" if "(table s)[i := None] ! k = Some x" for k x
    using that i len by (cases "k = i") simp_all
  have "itemCount (drop_item s i) = length (filter (\<lambda>t. t \<noteq> None) ((table s)[i := None]))"
    using count_update [of i "table s" "\<lambda>t. t \<noteq> None" None] i len cnt(1) pos by simp
  moreover have "\<forall>k<bsize s. \<forall>l<bsize s. \<forall>x y. (table s)[i := None] ! k = Some x \<longrightarrow>
      (table s)[i := None] ! l = Some y \<longrightarrow> eqf s x y \<longrightarrow> k = l"
    by (intro allI impI) (rule uniq; (assumption | erule keep))
  ultimately show "shape (drop_item s i)"
    unfolding shape_def drop_item_simps(1-4) using hc len n lim by simp
  have it: "items (drop_item s i) = {x. \<exists>k<length (table s). k \<noteq> i \<and> table s ! k = Some x}"
    using items_update [of i s None] i len by (simp add: items_def)
  have e: "eqf s r r" using hash_contract.e_refl [OF hc] .
  have ne: "\<not> eqf s x r" if "k < bsize s" "k \<noteq> i" "table s ! k = Some x" for k x
    using uniq [OF that(1) i(1) that(3) i(2)] that(2) by blast
  have "x \<noteq> r" if "k < bsize s" "k \<noteq> i" "table s ! k = Some x" for k x
    using ne [OF that] e by auto
  moreover have "k \<noteq> i" if "table s ! k = Some x" "x \<noteq> r" for k x
    using that i(2) by auto
  ultimately show "items (drop_item s i) = items s - {r}"
    unfolding it set_eq_iff Diff_iff items_index len mem_Collect_eq singleton_iff by blast
  show "\<not> (\<exists>y\<in>items (drop_item s i). eqf s y r)"
    unfolding it len using ne by auto
qed

text \<open>The state of the cleanup loop, \<open>c\<close> buckets behind the emptied bucket \<open>a\<close> of \<open>s0\<close>, where the
  cluster of \<open>a\<close> ends at the empty bucket \<open>(a + E)\<close>: the buckets of the cluster not yet visited are as
  they were and need not be reachable, all other items are, and no item has moved below \<open>a\<close> that was
  not there before.\<close>

definition cluster :: "'a BRSet \<Rightarrow> nat \<Rightarrow> nat \<Rightarrow> bool" where
  "cluster s a E \<longleftrightarrow> a < bsize s \<and> 0 < E \<and> E < bsize s \<and>
     (\<forall>x<E. occupied (table s) ((a + x) mod bsize s)) \<and> \<not> occupied (table s) ((a + E) mod bsize s)"

definition cleaning :: "'a BRSet \<Rightarrow> 'a BRSet \<Rightarrow> nat \<Rightarrow> nat \<Rightarrow> nat \<Rightarrow> bool" where
  "cleaning s0 s a c E \<longleftrightarrow>
     shape s \<and> bsize s = bsize s0 \<and> hashf s = hashf s0 \<and> eqf s = eqf s0 \<and>
     (\<forall>k<bsize s. (\<forall>x<c. k \<noteq> (a + x) mod bsize s) \<longrightarrow> table s ! k = table s0 ! k) \<and>
     (\<forall>k<bsize s. \<forall>x. table s ! k = Some x \<longrightarrow>
        (\<forall>y. c \<le> y \<longrightarrow> y < E \<longrightarrow> k \<noteq> (a + y) mod bsize s) \<longrightarrow>
        reachable_at (table s) (bsize s) (hashf s x) k) \<and>
     (\<forall>k<a. \<forall>x. table s ! k = Some x \<longrightarrow> (\<exists>l<a. table s0 ! l = Some x))"

lemma cyc_before: "c < n \<Longrightarrow> \<forall>x<c. (a + c) mod n \<noteq> (a + x) mod (n :: nat)"
  by (metis cyc_inj less_irrefl less_trans)

lemma cleaning_done: "cleaning s0 s a E E \<Longrightarrow> set_ok s"
  by (auto simp: cleaning_def set_ok_def placed_def)

lemma cluster_exists:
  assumes "shape s" "a < bsize s" "occupied (table s) a"
  shows "\<exists>E. cluster s a E"
proof -
  let ?P = "\<lambda>d. \<not> occupied (table s) ((a + d) mod bsize s)"
  obtain k where k: "k < bsize s" "\<not> occupied (table s) k" using shape_empty_bucket [OF assms(1)] by auto
  obtain d where d: "d < bsize s" "(a + d) mod bsize s = k" using cyc_surj [OF k(1)] by blast
  define E where "E = (LEAST d. ?P d)"
  have "?P d" using d k by simp
  then have E: "?P E" "E \<le> d" unfolding E_def by (rule LeastI, rule Least_le)
  moreover have "\<forall>x<E. \<not> ?P x" unfolding E_def using not_less_Least by blast
  moreover have "E \<noteq> 0" using E(1) assms(2,3) by (intro notI) simp
  ultimately show ?thesis using assms(2) d(1) unfolding cluster_def by (intro exI [of _ E]) simp
qed

lemma drop_reachable:
  assumes r: "reachable_at (table s) (bsize s) b k" and len: "length (table s) = bsize s"
    and e: "\<not> occupied (table s) ((a + E) mod bsize s)" "c < E" "E < bsize s"
    and k: "\<forall>y. c \<le> y \<longrightarrow> y < E \<longrightarrow> k \<noteq> (a + y) mod bsize s"
  shows "reachable_at ((table s)[(a + c) mod bsize s := None]) (bsize s) b k"
proof -
  obtain D where D: "D < bsize s" "(b + D) mod bsize s = k" "path (table s) (bsize s) b D"
    using r by (auto simp: reachable_at_def)
  have "(b + d) mod bsize s \<noteq> (a + c) mod bsize s" if "d \<le> D" for d
  proof
    assume "(b + d) mod bsize s = (a + c) mod bsize s"
    from path_through_hole [OF D(3,1) e(1,2) _ that this] e(3) D(2) k show False by auto
  qed
  then have "path ((table s)[(a + c) mod bsize s := None]) (bsize s) b D"
    using D(1,3) len by (simp add: path_def occupied_update)
  with D show ?thesis by (auto simp: reachable_at_def)
qed

lemma cleaning_start:
  assumes ok: "set_ok s" and cl: "cluster s a E" and a: "table s ! a = Some r"
  shows "cleaning s (drop_item s a) a 1 E"
proof -
  have sh: "shape s" "placed s" "length (table s) = bsize s" using ok by (simp_all add: set_ok_def shape_def)
  have ab: "a < bsize s" "E < bsize s" "0 < E" and e: "\<not> occupied (table s) ((a + E) mod bsize s)"
    using cl by (simp_all add: cluster_def)
  have am: "(a + 0) mod bsize s = a" using ab by simp
  have keep: "k \<noteq> a \<and> table s ! k = Some x" if "(table s)[a := None] ! k = Some x" for k x
    using that ab sh(3) by (cases "k = a") simp_all
  have "reachable_at ((table s)[a := None]) (bsize s) (hashf s x) k"
    if k: "k < bsize s" "(table s)[a := None] ! k = Some x"
      "\<forall>y. 1 \<le> y \<longrightarrow> y < E \<longrightarrow> k \<noteq> (a + y) mod bsize s" for k x
  proof -
    have "reachable_at (table s) (bsize s) (hashf s x) k"
      using sh(2) k(1) keep [OF k(2)] by (simp add: placed_def)
    moreover have "\<forall>y. 0 \<le> y \<longrightarrow> y < E \<longrightarrow> k \<noteq> (a + y) mod bsize s"
    proof (intro allI impI)
      fix y assume "y < E"
      then show "k \<noteq> (a + y) mod bsize s" using k(3) keep [OF k(2)] am by (cases y) auto
    qed
    ultimately show ?thesis
      using drop_reachable [OF _ sh(3) e ab(3,2), of "hashf s x" k] am by simp
  qed
  moreover have "\<forall>k<bsize s. (\<forall>x<1. k \<noteq> (a + x) mod bsize s) \<longrightarrow> (table s)[a := None] ! k = table s ! k"
    using am by simp
  moreover have "\<forall>k<a. \<forall>x. (table s)[a := None] ! k = Some x \<longrightarrow> (\<exists>l<a. table s ! l = Some x)"
    using keep by blast
  ultimately show ?thesis
    using drop_item_shape(1) [OF sh(1) ab(1) a] by (simp add: cleaning_def)
qed

text \<open>One step of the cleanup: the item \<open>t\<close> of bucket \<open>(a + c)\<close> is taken out and added again.\<close>

lemma cleaning_target:
  assumes ok0: "set_ok s0" and cl: "cluster s0 a E" and cg: "cleaning s0 s a c E" and c: "c < E"
    and t: "table s ! ((a + c) mod bsize s) = Some t"
  shows "\<exists>D x. D < bsize s \<and> x \<le> c \<and> locate (drop_item s ((a + c) mod bsize s)) t = Some ((a + x) mod bsize s) \<and>
    (hashf s t + D) mod bsize s = (a + x) mod bsize s \<and>
    \<not> occupied ((table s)[(a + c) mod bsize s := None]) ((a + x) mod bsize s) \<and>
    (\<forall>d<D. occupied ((table s)[(a + c) mod bsize s := None]) ((hashf s t + d) mod bsize s))"
proof -
  let ?n = "bsize s" and ?i = "(a + c) mod bsize s"
  let ?s = "drop_item s ?i"
  have sh: "shape s" "bsize s = bsize s0" "hashf s = hashf s0" "eqf s = eqf s0"
    using cg by (simp_all add: cleaning_def)
  then have sh: "shape s" "bsize s = bsize s0" "hashf s = hashf s0" "eqf s = eqf s0" "length (table s) = ?n"
    by (simp_all add: shape_def)
  have frame: "table s ! k = table s0 ! k" if "k < ?n" "\<forall>x<c. k \<noteq> (a + x) mod ?n" for k
    using cg that by (simp add: cleaning_def)
  have n: "0 < ?n" "E < ?n" using cl sh(2) by (simp_all add: cluster_def)
  have i: "?i < ?n" using n by simp
  note drop = drop_item_shape [OF sh(1) i t]
  obtain p where p: "locate ?s t = Some p" using locate_total [OF drop(1)] by blast
  from locate_Some [OF p] obtain D where D: "D < ?n" "p = (hashf s t + D) mod ?n" "stops ?s t p"
    "\<forall>d<D. \<not> stops ?s t ((hashf s t + d) mod ?n)" by auto
  have pn: "p < ?n" using locate_bound [OF p] by simp
  have emp: "\<not> occupied ((table s)[?i := None]) p"
  proof
    assume "occupied ((table s)[?i := None]) p"
    then obtain y where y: "(table s)[?i := None] ! p = Some y" by (auto simp: occupied_def)
    then have "eqf s y t" using locate_hit [OF drop(1) p, of y] by simp
    moreover have "y \<in> items ?s" using y pn sh(5) by (auto simp: items_index)
    ultimately show False using drop(4) by blast
  qed
  have occ: "\<forall>d<D. occupied ((table s)[?i := None]) ((hashf s t + d) mod ?n)"
    using D(4) by (auto simp: stops_def occupied_def split: option.splits)
  have "\<forall>x<c. ?i \<noteq> (a + x) mod ?n" using cyc_before [of c ?n a] n c by simp
  then have "table s0 ! ?i = Some t" using frame [OF i] t by simp
  then have "reachable_at (table s0) ?n (hashf s t) ?i"
    using ok0 i sh by (simp add: set_ok_def placed_def)
  then obtain D0 where D0: "D0 < ?n" "(hashf s t + D0) mod ?n = ?i" "path (table s0) ?n (hashf s t) D0"
    by (auto simp: reachable_at_def)
  have "D \<le> D0"
  proof (rule ccontr)
    assume "\<not> D \<le> D0"
    then have "occupied ((table s)[?i := None]) ((hashf s t + D0) mod ?n)" using occ by simp
    then have "occupied ((table s)[?i := None]) ?i" unfolding D0(2) .
    then show False using i sh(5) by (simp add: occupied_def)
  qed
  then have o0: "occupied (table s0) p" using D0(3) D(2) by (simp add: path_def)
  have "\<exists>x\<le>c. p = (a + x) mod ?n"
  proof (rule ccontr)
    assume no: "\<not> ?thesis"
    then have "p \<noteq> ?i" "\<forall>x<c. p \<noteq> (a + x) mod ?n" by auto
    then have "occupied ((table s)[?i := None]) p"
      using frame [OF pn] o0 pn sh(5) by (simp add: occupied_def)
    with emp show False ..
  qed
  then obtain x where x: "x \<le> c" "p = (a + x) mod ?n" by blast
  show ?thesis
    using D(1,2) x p emp occ by (intro exI [of _ D] exI [of _ x]) simp
qed

lemma cleaning_step:
  assumes ok0: "set_ok s0" and cl: "cluster s0 a E" and cg: "cleaning s0 s a c E" and c: "c < E"
    and t: "table s ! ((a + c) mod bsize s) = Some t"
  shows "\<exists>r s'. BRSetAdd (drop_item s ((a + c) mod bsize s)) t = Some (r, s') \<and>
    cleaning s0 s' a (Suc c) E \<and> items s' = items s"
proof -
  let ?n = "bsize s" and ?i = "(a + c) mod bsize s"
  let ?s = "drop_item s ?i"
  have cgs: "shape s" "?n = bsize s0" "hashf s = hashf s0" "eqf s = eqf s0"
    "\<forall>k<?n. (\<forall>x<c. k \<noteq> (a + x) mod ?n) \<longrightarrow> table s ! k = table s0 ! k"
    "\<forall>k<?n. \<forall>x. table s ! k = Some x \<longrightarrow>
        (\<forall>y. c \<le> y \<longrightarrow> y < E \<longrightarrow> k \<noteq> (a + y) mod ?n) \<longrightarrow> reachable_at (table s) ?n (hashf s x) k"
    "\<forall>k<a. \<forall>x. table s ! k = Some x \<longrightarrow> (\<exists>l<a. table s0 ! l = Some x)"
    using cg unfolding cleaning_def by blast+
  have cls: "a < ?n" "E < ?n" "0 < ?n" "\<not> occupied (table s0) ((a + E) mod ?n)"
    using cl cgs(2) by (simp_all add: cluster_def)
  have len: "length (table s) = ?n" using cgs(1) by (simp add: shape_def)
  have i: "?i < ?n" using cls by simp
  note drop = drop_item_shape [OF cgs(1) i t]
  obtain D x where D: "D < ?n" "x \<le> c" "locate ?s t = Some ((a + x) mod ?n)"
    "(hashf s t + D) mod ?n = (a + x) mod ?n"
    "\<not> occupied ((table s)[?i := None]) ((a + x) mod ?n)"
    "\<forall>d<D. occupied ((table s)[?i := None]) ((hashf s t + d) mod ?n)"
    using cleaning_target [OF ok0 cl cg c t] by blast
  let ?p = "(a + x) mod bsize s"
  let ?s' = "put_item ?s ?p t"
  have p: "?p < ?n" using cls by simp
  have none: "(table s)[?i := None] ! ?p = None" using D(5) by (simp add: occupied_def)
  have put: "shape0 ?s'" "items ?s' = insert t {y \<in> items ?s. \<not> eqf s y t}"
    using put_item_shape [of ?s ?p t] drop(1,4) p none by (auto simp: shape_shape0)
  have cnt: "itemCount ?s' \<le> limit ?n" using drop(2) by simp
  then have sh': "shape ?s'" using put(1) by (simp add: shape_shape0)
  have "BRSetAdd ?s t = Some ((table s)[?i := None] ! ?p, ?s')"
    using add_depth_Suc [OF D(3), of 1] cnt by (simp add: BRSetAdd_def numeral_2_eq_2)
  moreover have "items ?s' = items s"
  proof -
    have "t \<in> items s" using t i len by (auto simp: items_index)
    then show ?thesis using put(2) drop(3,4) by auto
  qed
  moreover have "cleaning s0 ?s' a (Suc c) E"
  proof -
    have at: "table ?s' ! k = (if k = ?p then Some t else if k = ?i then None else table s ! k)" if "k < ?n" for k
      using that len by (simp add: nth_list_update)
    have e: "\<not> occupied (table s) ((a + E) mod ?n)"
    proof -
      have "\<forall>x<c. (a + E) mod ?n \<noteq> (a + x) mod ?n" using cyc_before [of E ?n a] cls(2) c by simp
      then show ?thesis using cgs(5) cls(3,4) by (simp add: occupied_def)
    qed
    have reach: "reachable_at (table ?s') ?n (hashf s y) k"
      if k: "k < ?n" "table ?s' ! k = Some y" "\<forall>z. Suc c \<le> z \<longrightarrow> z < E \<longrightarrow> k \<noteq> (a + z) mod ?n" for k y
    proof (cases "k = ?p")
      case True
      then have "y = t" using k(1,2) at by simp
      moreover have "path (table ?s') ?n (hashf s t) D"
        using D(4,6) len p by (auto simp: path_def occupied_update le_eq_less_or_eq)
      ultimately show ?thesis using D(1,4) True by (auto simp: reachable_at_def)
    next
      case False
      then have ki: "k \<noteq> ?i" "table s ! k = Some y" using k(2) at [OF k(1)] by (auto split: if_splits)
      have "\<forall>z. c \<le> z \<longrightarrow> z < E \<longrightarrow> k \<noteq> (a + z) mod ?n"
        using k(3) ki(1) by (metis Suc_leI le_eq_less_or_eq)
      then have "reachable_at ((table s)[?i := None]) ?n (hashf s y) k"
        using drop_reachable [OF _ len e c cls(2)] cgs(6) k(1) ki(2) by blast
      then show ?thesis
        using path_fill [of "(table s)[?i := None]" ?n _ _ ?p t] len cls(3) by (fastforce simp: reachable_at_def)
    qed
    have frame: "table ?s' ! k = table s0 ! k" if "k < ?n" "\<forall>z<Suc c. k \<noteq> (a + z) mod ?n" for k
      using at [OF that(1)] that cgs(5) D(2) by simp
    have low: "\<exists>l<a. table s0 ! l = Some y" if k: "k < a" "table ?s' ! k = Some y" for k y
    proof (cases "k = ?p")
      case True
      then have yt: "y = t" using k cls(1) at by simp
      have "?p < a" using True k by simp
      then have "a + x \<ge> ?n" using cls(1) by (metis le_add1 linorder_not_less mod_less)
      then have "?i < a" using D(2) c cls(1,2) by (simp add: le_mod_geq)
      then show ?thesis using cgs(7) t yt by blast
    next
      case False
      then have "table s ! k = Some y" using k at [of k] cls(1) by (simp split: if_splits)
      then show ?thesis using k(1) cgs(7) by blast
    qed
    show ?thesis
      using sh' cgs(2-4) reach frame low unfolding cleaning_def by simp
  qed
  ultimately show ?thesis by blast
qed

lemma cleanup_ok:
  assumes ok0: "set_ok s0" and cl: "cluster s0 a E"
    and "cleaning s0 s a c E" "c \<le> E" "E - c < m"
  shows "\<exists>s'. cleanup m (bsize s) s ((a + c) mod bsize s) = Some s' \<and> cleaning s0 s' a E E \<and> items s' = items s"
  using assms(3-)
proof (induction m arbitrary: s c)
  case 0
  then show ?case by simp
next
  case (Suc m)
  have n: "bsize s = bsize s0" and frame: "\<forall>k<bsize s. (\<forall>x<c. k \<noteq> (a + x) mod bsize s) \<longrightarrow> table s ! k = table s0 ! k"
    using Suc.prems(1) by (simp_all add: cleaning_def)
  have E: "E < bsize s" "0 < bsize s" using cl n by (simp_all add: cluster_def)
  then have "\<forall>x<c. (a + c) mod bsize s \<noteq> (a + x) mod bsize s"
    using cyc_before [of c "bsize s" a] Suc.prems(2) by simp
  then have tab: "table s ! ((a + c) mod bsize s) = table s0 ! ((a + c) mod bsize s0)"
    using frame E(2) n by simp
  show ?case
  proof (cases "c = E")
    case True
    then have "table s ! ((a + c) mod bsize s) = None" using tab cl by (simp add: cluster_def occupied_def)
    then show ?thesis using True Suc.prems(1) by simp
  next
    case False
    then have c: "c < E" using Suc.prems(2) by simp
    then obtain t where t: "table s ! ((a + c) mod bsize s) = Some t"
      using tab cl by (auto simp: cluster_def occupied_def)
    from cleaning_step [OF ok0 cl Suc.prems(1) c t] obtain r s' where
      s': "BRSetAdd (drop_item s ((a + c) mod bsize s)) t = Some (r, s')" "cleaning s0 s' a (Suc c) E"
      "items s' = items s" by blast
    have n': "bsize s' = bsize s" using s'(2) n by (simp add: cleaning_def)
    from Suc.IH [OF s'(2)] c Suc.prems(3) n' obtain u where
      u: "cleanup m (bsize s) s' ((a + Suc c) mod bsize s) = Some u" "cleaning s0 u a E E" "items u = items s'"
      by (metis Suc_diff_Suc Suc_leI less_Suc_eq_le Suc_le_lessD)
    then show ?thesis using s' t by (simp add: drop_item_def mod_Suc_eq)
  qed
qed

text \<open>Removing keeps the invariant, returns the stored equal item and takes exactly it out.\<close>

definition removed :: "'a BRSet \<Rightarrow> 'a \<Rightarrow> 'a BRSet \<Rightarrow> bool" where
  "removed s x s' \<longleftrightarrow> set_ok s' \<and> items s' = {y \<in> items s. \<not> eqf s y x} \<and>
     bsize s' = bsize s \<and> hashf s' = hashf s \<and> eqf s' = eqf s"

lemma remove_at:
  assumes ok: "set_ok s" and loc: "locate s x = Some a" and a: "table s ! a = Some r"
  shows "\<exists>s'. BRSetRemove s x = Some (Some r, s') \<and> set_ok s' \<and> items s' = items s - {r} \<and>
     bsize s' = bsize s \<and> hashf s' = hashf s \<and> eqf s' = eqf s \<and>
     (\<forall>k<a. \<forall>y. table s' ! k = Some y \<longrightarrow> (\<exists>l<a. table s ! l = Some y))"
proof -
  have sh: "shape s" using ok by (simp add: set_ok_def)
  have ab: "a < bsize s" using locate_bound [OF loc] .
  obtain E where cl: "cluster s a E"
    using cluster_exists [OF sh ab] a by (auto simp: occupied_def)
  have E: "1 \<le> E" "E - 1 < bsize s" using cl by (auto simp: cluster_def)
  from cleanup_ok [OF ok cl cleaning_start [OF ok cl a] E] obtain s' where
    s': "cleanup (bsize s) (bsize s) (drop_item s a) ((a + 1) mod bsize s) = Some s'"
    "cleaning s s' a E E" "items s' = items (drop_item s a)" by auto
  have "BRSetRemove s x = Some (Some r, s')"
    using s'(1) by (simp add: BRSetRemove_def loc a drop_item_def)
  then show ?thesis
    using cleaning_done [OF s'(2)] s'(2,3) drop_item_shape(3) [OF sh ab a] by (auto simp: cleaning_def)
qed

lemma remove_ok:
  assumes ok: "set_ok s"
  shows "\<exists>t s'. BRSetRemove s x = Some (t, s') \<and> BRSetGet s x = Some t \<and> removed s x s'"
proof -
  have sh: "shape s" using ok by (simp add: set_ok_def)
  obtain j where j: "locate s x = Some j" using locate_total [OF sh] by blast
  show ?thesis
  proof (cases "table s ! j")
    case None
    then have "\<forall>y\<in>items s. \<not> eqf s y x" using locate_miss [OF ok j] by blast
    then have "removed s x s" using ok by (auto simp: removed_def)
    then show ?thesis using None j by (simp add: BRSetRemove_def BRSetGet_def)
  next
    case (Some r)
    have e: "eqf s r x" using locate_hit [OF sh j Some] .
    have r: "r \<in> items s" using Some locate_bound [OF j] sh by (auto simp: items_index shape_def)
    have "y = r" if "y \<in> items s" "eqf s y x" for y
      using items_unique [OF sh that(1) r] that(2) e
        hash_contract.e_right [OF hash_contract_of [OF sh] e, of y] hash_contract.e_sym [OF hash_contract_of [OF sh]]
        hash_contract.e_trans [OF hash_contract_of [OF sh]] by blast
    then have "items s - {r} = {y \<in> items s. \<not> eqf s y x}" using e by auto
    then show ?thesis
      using remove_at [OF ok j Some] j Some by (auto simp: removed_def BRSetGet_def)
  qed
qed

end
