(* ===== verification/HashSetLaws.thy ===== *)
theory HashSetLaws
  imports HashSetRemove
begin

text \<open>
  The laws of the operations of \<^verbatim>\<open>Libraries/loafwallet-core/BRSet.c\<close> over the sets of their items, as the
  wallet, the peer manager and the payment protocol use them, and the operations on two sets. The
  locale \<open>set_laws\<close> states what such a client relies on; the hash table is an instance of it.
\<close>

section \<open>The number of items\<close>

definition set_capacity :: nat where
  "set_capacity = limit (last tableSizes)"

lemma count_card:
  assumes "shape s"
  shows "finite (items s)" and "itemCount s = card (items s)"
proof -
  let ?K = "{k. k < length (table s) \<and> table s ! k \<noteq> None}"
  have len: "length (table s) = bsize s"
    and hc: "hash_contract (hashf s) (eqf s)" using assms by (simp_all add: shape_def)
  have img: "items s = (\<lambda>k. the (table s ! k)) ` ?K"
    by (force simp: items_index image_iff)
  have "inj_on (\<lambda>k. the (table s ! k)) ?K"
  proof (rule inj_onI)
    fix k l assume "k \<in> ?K" "l \<in> ?K" "the (table s ! k) = the (table s ! l)"
    then obtain x where "k < bsize s" "l < bsize s" "table s ! k = Some x" "table s ! l = Some x"
      using len by auto
    moreover have "eqf s x x" using hash_contract.e_refl [OF hc] .
    ultimately show "k = l" using assms unfolding shape_def by blast
  qed
  then show "itemCount s = card (items s)"
    using assms by (simp add: img card_image shape_def length_filter_conv_card)
  show "finite (items s)" by (simp add: img)
qed

lemma room_card:
  assumes "set_ok s" "card (items s) < set_capacity"
  shows "bsize s < last tableSizes \<or> itemCount s < limit (bsize s)"
proof (cases "bsize s < last tableSizes")
  case False
  have "\<forall>n\<in>set (tl tableSizes). n \<le> last tableSizes" by (simp add: tableSizes_def)
  then have "bsize s = last tableSizes"
    using assms(1) False by (auto simp: set_ok_def shape_def dest: le_antisym)
  then show ?thesis using assms count_card(2) [of s] by (simp add: set_ok_def set_capacity_def)
qed simp

lemma new_ok:
  assumes "hash_contract h e" "BRSetNew h e capacity = Some s"
  shows "set_ok s" "items s = {}" "hashf s = h" "eqf s = e"
proof -
  obtain m where m: "nextSize capacity = Some m"
    "s = \<lparr>table = replicate m None, bsize = m, itemCount = 0, hashf = h, eqf = e\<rparr>"
    using assms(2) by (auto simp: BRSetNew_def BRSetInit_def)
  show "set_ok s" "items s = {}" unfolding m(2) by (rule set_ok_empty [OF assms(1) nextSize_mem [OF m(1)]])+
  show "hashf s = h" "eqf s = e" by (simp_all add: m(2))
qed

lemma new_Some: "capacity \<le> 2609407319 \<Longrightarrow> \<exists>s. BRSetNew h e capacity = Some s"
  using nextSize_Some [of capacity] by (auto simp: BRSetNew_def BRSetInit_def)

section \<open>The laws of one set\<close>

definition same_funs :: "'a BRSet \<Rightarrow> 'a BRSet \<Rightarrow> bool" where
  "same_funs s s' \<longleftrightarrow> hashf s' = hashf s \<and> eqf s' = eqf s"

locale set_laws =
  fixes ok :: "'s \<Rightarrow> bool"
    and els :: "'s \<Rightarrow> 'a set"
    and eqv :: "'s \<Rightarrow> 'a \<Rightarrow> 'a \<Rightarrow> bool"
    and cap :: nat
    and add :: "'s \<Rightarrow> 'a \<Rightarrow> ('a option \<times> 's) option"
    and remove :: "'s \<Rightarrow> 'a \<Rightarrow> ('a option \<times> 's) option"
    and get :: "'s \<Rightarrow> 'a \<Rightarrow> 'a option option"
  assumes els_finite: "ok s \<Longrightarrow> finite (els s)"
    and eqv_refl: "ok s \<Longrightarrow> eqv s x x"
    and add_law: "ok s \<Longrightarrow> card (els s) < cap \<Longrightarrow> \<exists>s'. add s x = Some (the (get s x), s') \<and> ok s' \<and>
      els s' = insert x {y \<in> els s. \<not> eqv s y x} \<and> eqv s' = eqv s"
    and remove_law: "ok s \<Longrightarrow> \<exists>s'. remove s x = Some (the (get s x), s') \<and> ok s' \<and>
      els s' = {y \<in> els s. \<not> eqv s y x} \<and> eqv s' = eqv s"
    and get_law: "ok s \<Longrightarrow> \<exists>r. get s x = Some r \<and>
      (\<forall>y. r = Some y \<longrightarrow> y \<in> els s \<and> eqv s y x) \<and> (r = None \<longrightarrow> (\<forall>y\<in>els s. \<not> eqv s y x))"
begin

lemma get_after_add:
  assumes "ok s" "card (els s) < cap" "add s x = Some (t, s')"
  shows "get s' x = Some (Some x)"
proof -
  have s': "ok s'" "els s' = insert x {y \<in> els s. \<not> eqv s y x}" "eqv s' = eqv s"
    using add_law [OF assms(1,2), of x] assms(3) by auto
  obtain r where r: "get s' x = Some r" "\<forall>y. r = Some y \<longrightarrow> y \<in> els s' \<and> eqv s' y x"
    "r = None \<longrightarrow> (\<forall>y\<in>els s'. \<not> eqv s' y x)" using get_law [OF s'(1)] by blast
  have "r \<noteq> None" using r(3) s'(2) eqv_refl [OF s'(1)] by auto
  then obtain y where y: "r = Some y" by blast
  with r(2) s'(2,3) have "y = x" by auto
  with r(1) y show ?thesis by simp
qed

lemma get_after_remove:
  assumes "ok s" "remove s x = Some (t, s')"
  shows "get s' x = Some None"
proof -
  have s': "ok s'" "els s' = {y \<in> els s. \<not> eqv s y x}" "eqv s' = eqv s"
    using remove_law [OF assms(1), of x] assms(2) by auto
  from get_law [OF s'(1), of x] show ?thesis using s'(2,3) by fastforce
qed

lemma card_after_add:
  assumes "ok s" "card (els s) < cap" "add s x = Some (t, s')"
  shows "card (els s') \<le> Suc (card (els s))"
proof -
  have "els s' = insert x {y \<in> els s. \<not> eqv s y x}"
    using add_law [OF assms(1,2), of x] assms(3) by auto
  moreover have "card {y \<in> els s. \<not> eqv s y x} \<le> card (els s)"
    by (rule card_mono) (use els_finite [OF assms(1)] in auto)
  moreover have "card (insert x A) \<le> Suc (card A)" for A :: "'a set"
    by (cases "finite A") (simp_all add: card_insert_if)
  ultimately show ?thesis by (metis (no_types, lifting) le_trans Suc_le_mono)
qed

end

lemma get_total: "set_ok s \<Longrightarrow> \<exists>r. BRSetGet s x = Some r \<and>
    (\<forall>y. r = Some y \<longrightarrow> y \<in> items s \<and> eqf s y x) \<and> (r = None \<longrightarrow> (\<forall>y\<in>items s. \<not> eqf s y x))"
proof -
  assume ok: "set_ok s"
  then obtain r where r: "BRSetGet s x = Some r" using get_Some_iff(3) [OF ok] by blast
  have "\<forall>y. r = Some y \<longrightarrow> y \<in> items s \<and> eqf s y x" using get_Some_iff(2) [OF ok, of x] r by simp
  moreover have "r = None \<longrightarrow> (\<forall>y\<in>items s. \<not> eqf s y x)" using get_Some_iff(1) [OF ok, of x] r by auto
  ultimately show ?thesis using r by blast
qed

interpretation hset: set_laws set_ok items eqf set_capacity BRSetAdd BRSetRemove BRSetGet
proof (unfold_locales, goal_cases)
  case (1 s)
  then show ?case using count_card(1) [of s] by (simp add: set_ok_def)
next
  case (2 s x)
  then show ?case using hash_contract.e_refl [OF hash_contract_of [of s]] by (simp add: set_ok_def)
next
  case (3 s x)
  then show ?case using add_ok [OF 3(1) room_card [OF 3], of x] by (auto simp: added_def)
next
  case (4 s x)
  then show ?case using remove_ok [OF 4, of x] by (auto simp: removed_def)
next
  case (5 s x)
  then show ?case by (rule get_total)
qed

lemma contains_ok: "set_ok s \<Longrightarrow> BRSetContains s x = Some (\<exists>y\<in>items s. eqf s y x)"
  using get_total [of s x] by (auto simp: BRSetContains_def)

section \<open>Operations on two sets\<close>

lemma union_loop_ok:
  assumes "set_ok s" "card (items s) + filled tb \<le> set_capacity" "apart (eqf s) tb"
  shows "\<exists>s'. union_loop BRSetAdd s tb = Some s' \<and> set_ok s' \<and> same_funs s s' \<and>
    items s' = {x. Some x \<in> set tb} \<union> {y \<in> items s. \<forall>x. Some x \<in> set tb \<longrightarrow> \<not> eqf s y x}"
  using assms
proof (induction tb arbitrary: s)
  case Nil
  then show ?case by (simp add: same_funs_def)
next
  case (Cons t tb)
  show ?case
  proof (cases t)
    case None
    then show ?thesis using Cons.IH [OF Cons.prems(1)] Cons.prems(2,3) by (simp add: filled_def)
  next
    case (Some x)
    have fl: "filled (t # tb) = Suc (filled tb)" using Some by (simp add: filled_def)
    then have room: "card (items s) < set_capacity" using Cons.prems(2) by linarith
    from hset.add_law [OF Cons.prems(1) room, of x] obtain s' where
      s': "BRSetAdd s x = Some (the (BRSetGet s x), s')" "set_ok s'"
      "items s' = insert x {y \<in> items s. \<not> eqf s y x}" "eqf s' = eqf s" by blast
    have h': "hashf s' = hashf s"
      using add_ok [OF Cons.prems(1) room_card [OF Cons.prems(1) room], of x] s'(1) by (auto simp: added_def)
    have "card (items s') + filled tb \<le> set_capacity"
      using hset.card_after_add [OF Cons.prems(1) room s'(1)] fl Cons.prems(2) by linarith
    moreover have ap: "apart (eqf s') tb" "\<forall>y. Some y \<in> set tb \<longrightarrow> \<not> eqf s x y"
      using Cons.prems(3) Some s'(4) by simp_all
    ultimately obtain u where u: "union_loop BRSetAdd s' tb = Some u" "set_ok u" "same_funs s' u"
      "items u = {x. Some x \<in> set tb} \<union> {y \<in> items s'. \<forall>x. Some x \<in> set tb \<longrightarrow> \<not> eqf s' y x}"
      using Cons.IH [OF s'(2)] by blast
    have "items u = {x. Some x \<in> set (t # tb)} \<union> {y \<in> items s. \<forall>x. Some x \<in> set (t # tb) \<longrightarrow> \<not> eqf s y x}"
      (is "_ = ?R")
    proof (rule set_eqI)
      fix z
      have "z \<in> items u \<longleftrightarrow> Some z \<in> set tb \<or>
          (z = x \<or> z \<in> items s \<and> \<not> eqf s z x) \<and> (\<forall>y. Some y \<in> set tb \<longrightarrow> \<not> eqf s z y)"
        unfolding u(4) s'(3,4) by simp
      also have "\<dots> \<longleftrightarrow> Some z \<in> set tb \<or> z = x \<or>
          z \<in> items s \<and> \<not> eqf s z x \<and> (\<forall>y. Some y \<in> set tb \<longrightarrow> \<not> eqf s z y)"
        using ap(2) by metis
      also have "\<dots> \<longleftrightarrow> z \<in> ?R" unfolding Some by (simp, metis)
      finally show "z \<in> items u \<longleftrightarrow> z \<in> ?R" .
    qed
    moreover have "same_funs s u" using u(3) h' s'(4) by (simp add: same_funs_def)
    ultimately show ?thesis using u(1,2) s'(1) Some by simp
  qed
qed

lemma apart_table: "shape s \<Longrightarrow> apart (eqf s) (table s)"
  by (rule apartI) (simp add: shape_def)

lemma filled_card:
  assumes "shape s" shows "filled (table s) = card (items s)"
proof -
  have "filled (table s) = itemCount s" using assms by (simp add: shape_def filled_def)
  then show ?thesis using count_card(2) [OF assms] by simp
qed

lemma union_ok:
  assumes "set_ok s" "set_ok s2" "eqf s2 = eqf s" "card (items s) + card (items s2) \<le> set_capacity"
  shows "\<exists>s'. BRSetUnion s s2 = Some s' \<and> set_ok s' \<and> same_funs s s' \<and>
    items s' = items s2 \<union> {y \<in> items s. \<forall>x\<in>items s2. \<not> eqf s y x}"
proof -
  have "shape s2" using assms(2) by (simp add: set_ok_def)
  then have "apart (eqf s) (table s2)" "filled (table s2) = card (items s2)"
    using apart_table [of s2] assms(3) filled_card by auto
  with union_loop_ok [OF assms(1), of "table s2"] assms(4) show ?thesis
    by (auto simp: BRSetUnion_def items_def)
qed

lemma minus_loop_ok:
  assumes "set_ok s"
  shows "\<exists>s'. minus_loop s tb = Some s' \<and> set_ok s' \<and> same_funs s s' \<and>
    items s' = {y \<in> items s. \<forall>x. Some x \<in> set tb \<longrightarrow> \<not> eqf s y x}"
  using assms
proof (induction tb arbitrary: s)
  case Nil
  then show ?case by (simp add: same_funs_def)
next
  case (Cons t tb)
  show ?case
  proof (cases t)
    case None
    then show ?thesis using Cons.IH [OF Cons.prems(1)] by simp
  next
    case (Some x)
    from remove_ok [OF Cons.prems(1), of x] obtain r s' where
      s': "BRSetRemove s x = Some (r, s')" "removed s x s'" by blast
    then have "set_ok s'" by (simp add: removed_def)
    from Cons.IH [OF this] s' Some show ?thesis by (auto simp: removed_def same_funs_def)
  qed
qed

lemma minus_ok:
  assumes "set_ok s"
  shows "\<exists>s'. BRSetMinus s s2 = Some s' \<and> set_ok s' \<and> same_funs s s' \<and>
    items s' = {y \<in> items s. \<forall>x\<in>items s2. \<not> eqf s y x}"
  using minus_loop_ok [OF assms, of "table s2"] by (auto simp: BRSetMinus_def items_def)

lemma intersects_loop_ok:
  "set_ok s \<Longrightarrow> intersects_loop s tb = Some (\<exists>x. Some x \<in> set tb \<and> (\<exists>y\<in>items s. eqf s y x))"
proof (induction s tb rule: intersects_loop.induct)
  case (3 s t ts)
  then show ?case using get_total [OF 3(2), of t] by (auto split: option.splits)
qed auto

lemma intersects_ok:
  "set_ok s \<Longrightarrow> BRSetIntersects s s2 = Some (\<exists>x\<in>items s2. \<exists>y\<in>items s. eqf s y x)"
  by (auto simp: BRSetIntersects_def intersects_loop_ok items_def)

text \<open>\<open>BRSetIntersect\<close> revisits a bucket after a removal. A removal moves no unvisited item below it.\<close>

lemma intersect_loop_ok:
  assumes "set_ok s" "set_ok s2" "bsize s = n" "card (items s) + (n - i) < m"
    and "\<forall>k<i. \<forall>x. k < n \<longrightarrow> table s ! k = Some x \<longrightarrow> (\<exists>z\<in>items s2. eqf s2 z x)"
  shows "\<exists>s'. intersect_loop m n s s2 i = Some s' \<and> set_ok s' \<and> same_funs s s' \<and>
    items s' = {y \<in> items s. \<exists>z\<in>items s2. eqf s2 z y}"
  using assms
proof (induction m arbitrary: s i)
  case 0
  then show ?case by simp
next
  case (Suc m)
  have sh: "shape s" and len: "length (table s) = n" using Suc.prems(1,3) by (simp_all add: set_ok_def shape_def)
  show ?case
  proof (cases "i < n")
    case False
    then have "\<exists>z\<in>items s2. eqf s2 z y" if "y \<in> items s" for y
    proof -
      obtain k where "k < n" "table s ! k = Some y" using \<open>y \<in> items s\<close> len by (auto simp: items_index)
      moreover have "k < i" using \<open>k < n\<close> False by linarith
      ultimately show ?thesis using Suc.prems(5) by blast
    qed
    then have "items s = {y \<in> items s. \<exists>z\<in>items s2. eqf s2 z y}" by blast
    then show ?thesis using False Suc.prems(1) by (simp add: same_funs_def)
  next
    case True
    have step: ?thesis if keep: "\<forall>x. table s ! i = Some x \<longrightarrow> (\<exists>z\<in>items s2. eqf s2 z x)"
      and eq: "intersect_loop (Suc m) n s s2 i = intersect_loop m n s s2 (i + 1)"
    proof -
      have "\<forall>k<i + 1. \<forall>x. k < n \<longrightarrow> table s ! k = Some x \<longrightarrow> (\<exists>z\<in>items s2. eqf s2 z x)"
        using keep Suc.prems(5) by (simp add: less_Suc_eq)
      moreover have "card (items s) + (n - (i + 1)) < m" using True Suc.prems(4) by linarith
      ultimately show ?thesis using Suc.IH [OF Suc.prems(1-3), of "i + 1"] eq by simp
    qed
    show ?thesis
    proof (cases "table s ! i")
      case None
      then show ?thesis by (intro step) (simp_all add: True)
    next
      case (Some t)
      have tin: "t \<in> items s" using Some True len by (auto simp: items_index)
      note cont = contains_ok [OF Suc.prems(2), of t]
      show ?thesis
      proof (cases "\<exists>z\<in>items s2. eqf s2 z t")
        case True
        then have "BRSetContains s2 t = Some True" using cont by simp
        then show ?thesis using Some True \<open>i < n\<close> by (intro step) simp_all
      next
        case False
        obtain a where a: "locate s t = Some a" using locate_total [OF sh] by blast
        have at: "table s ! a = Some t \<and> a = i"
        proof -
          have e: "eqf s t t" using hset.eqv_refl [OF Suc.prems(1)] .
          have "table s ! a \<noteq> None" using locate_miss [OF Suc.prems(1) a _ tin] e by auto
          then obtain u where u: "table s ! a = Some u" by auto
          have "eqf s u t" using locate_hit [OF sh a u] .
          then have "a = i" using sh u Some locate_bound [OF a] \<open>i < n\<close> Suc.prems(3) unfolding shape_def by blast
          with Some u show ?thesis by simp
        qed
        from remove_at [OF Suc.prems(1) a] at obtain s' where s': "BRSetRemove s t = Some (Some t, s')"
          "set_ok s'" "items s' = items s - {t}" "bsize s' = bsize s" "same_funs s s'"
          "\<forall>k<i. \<forall>y. table s' ! k = Some y \<longrightarrow> (\<exists>l<i. table s ! l = Some y)"
          by (auto simp: same_funs_def)
        have eq: "intersect_loop (Suc m) n s s2 i = intersect_loop m n s' s2 i"
          using Some \<open>i < n\<close> False cont s'(1) by simp
        have "\<forall>k<i. \<forall>x. k < n \<longrightarrow> table s' ! k = Some x \<longrightarrow> (\<exists>z\<in>items s2. eqf s2 z x)"
          using s'(6) Suc.prems(5) \<open>i < n\<close> by (meson less_trans)
        moreover have "card (items s') < card (items s)"
          unfolding s'(3) using count_card(1) [OF sh] tin by (rule card_Diff1_less)
        then have "card (items s') + (n - i) < m" using Suc.prems(4) by linarith
        ultimately obtain u where u: "intersect_loop m n s' s2 i = Some u" "set_ok u" "same_funs s' u"
          "items u = {y \<in> items s'. \<exists>z\<in>items s2. eqf s2 z y}"
          using Suc.IH [OF s'(2) Suc.prems(2), of i] s'(4) Suc.prems(3) by auto
        have "items u = {y \<in> items s. \<exists>z\<in>items s2. eqf s2 z y}"
          unfolding u(4) s'(3) using False by blast
        then show ?thesis using u(1-3) eq s'(5) by (simp add: same_funs_def)
      qed
    qed
  qed
qed

lemma intersect_ok:
  assumes "set_ok s" "set_ok s2"
  shows "\<exists>s'. BRSetIntersect s s2 = Some s' \<and> set_ok s' \<and> same_funs s s' \<and>
    items s' = {y \<in> items s. \<exists>z\<in>items s2. eqf s2 z y}"
proof -
  have "itemCount s = card (items s)" using count_card(2) [of s] assms(1) by (simp add: set_ok_def)
  then show ?thesis
    using intersect_loop_ok [OF assms refl, of 0 "bsize s + itemCount s + 1"] by (simp add: BRSetIntersect_def)
qed

section \<open>Properties\<close>

lemma get_same:
  assumes "set_ok s" "set_ok s'" "eqf s' = eqf s"
    and "\<forall>z. eqf s z y \<longrightarrow> (z \<in> items s' \<longleftrightarrow> z \<in> items s)"
  shows "BRSetGet s' y = BRSetGet s y"
proof -
  obtain r where r: "BRSetGet s y = Some r" "\<forall>z. r = Some z \<longrightarrow> z \<in> items s \<and> eqf s z y"
    "r = None \<longrightarrow> (\<forall>z\<in>items s. \<not> eqf s z y)" using get_total [OF assms(1)] by blast
  obtain r' where r': "BRSetGet s' y = Some r'" "\<forall>z. r' = Some z \<longrightarrow> z \<in> items s' \<and> eqf s z y"
    "r' = None \<longrightarrow> (\<forall>z\<in>items s'. \<not> eqf s z y)" using get_total [OF assms(2)] assms(3) by metis
  have sh: "shape s" using assms(1) by (simp add: set_ok_def)
  have "r' = r"
  proof (cases r)
    case None
    then show ?thesis using r(3) r'(2) assms(4) by (cases r') auto
  next
    case (Some u)
    then have u: "u \<in> items s" "eqf s u y" using r(2) by auto
    then have "r' \<noteq> None" using r'(3) assms(4) by auto
    then obtain v where v: "r' = Some v" by auto
    then have v': "v \<in> items s" "eqf s v y" using r'(2) assms(4) by auto
    have "eqf s u v"
      using u(2) v'(2) hash_contract.e_trans [OF hash_contract_of [OF sh]]
        hash_contract.e_sym [OF hash_contract_of [OF sh]] by blast
    then have "u = v" by (rule items_unique [OF sh u(1) v'(1)])
    with v Some show ?thesis by simp
  qed
  then show ?thesis using r(1) r'(1) by simp
qed

text \<open>C20: \<open>BRSetAdd\<close> on a well-formed set always returns (the recursion through \<open>_BRSetGrow\<close> and
  \<open>BRSetUnion\<close> included), returns the equal item it replaces or \<open>NULL\<close>, keeps the set well formed,
  and stores exactly the new item and the old items that are not equal to it; afterwards the item is
  found, every lookup of another item answers as before, and the count is the number of items.\<close>

theorem BRSetAdd_correct:
  assumes "set_ok s" and "card (items s) < set_capacity"
  shows "\<exists>s'. BRSetAdd s x = Some (the (BRSetGet s x), s') \<and> set_ok s' \<and>
    items s' = insert x {y \<in> items s. \<not> eqf s y x} \<and> BRSetCount s' = card (items s') \<and>
    BRSetGet s' x = Some (Some x) \<and> (\<forall>y. \<not> eqf s x y \<longrightarrow> BRSetGet s' y = BRSetGet s y)"
proof -
  from hset.add_law [OF assms, of x] obtain s' where
    s': "BRSetAdd s x = Some (the (BRSetGet s x), s')" "set_ok s'"
    "items s' = insert x {y \<in> items s. \<not> eqf s y x}" "eqf s' = eqf s" by blast
  have hc: "hash_contract (hashf s) (eqf s)" using assms(1) by (simp add: set_ok_def shape_def)
  have "BRSetGet s' y = BRSetGet s y" if ne: "\<not> eqf s x y" for y
  proof (rule get_same [OF assms(1) s'(2,4)], intro allI impI)
    fix z assume z: "eqf s z y"
    then have "\<not> eqf s z x" using ne hash_contract.e_sym [OF hc] hash_contract.e_trans [OF hc] by blast
    then show "z \<in> items s' \<longleftrightarrow> z \<in> items s" using s'(3) z ne by auto
  qed
  moreover have "BRSetCount s' = card (items s')"
    using count_card(2) s'(2) unfolding BRSetCount_def set_ok_def by blast
  ultimately show ?thesis using s' hset.get_after_add [OF assms s'(1)] by blast
qed

text \<open>C2: \<open>BRSetRemove\<close> on a well-formed set always returns, returns the stored item equal to its
  argument or \<open>NULL\<close>, and takes exactly that item out; the cluster behind the emptied bucket is
  repaired, so that every lookup of another item still answers as before.\<close>

theorem BRSetRemove_correct:
  assumes "set_ok s"
  shows "\<exists>s'. BRSetRemove s x = Some (the (BRSetGet s x), s') \<and> set_ok s' \<and>
    items s' = {y \<in> items s. \<not> eqf s y x} \<and> BRSetCount s' = card (items s') \<and>
    BRSetGet s' x = Some None \<and> (\<forall>y. \<not> eqf s x y \<longrightarrow> BRSetGet s' y = BRSetGet s y)"
proof -
  from hset.remove_law [OF assms, of x] obtain s' where
    s': "BRSetRemove s x = Some (the (BRSetGet s x), s')" "set_ok s'"
    "items s' = {y \<in> items s. \<not> eqf s y x}" "eqf s' = eqf s" by blast
  have hc: "hash_contract (hashf s) (eqf s)" using assms(1) by (simp add: set_ok_def shape_def)
  have "BRSetGet s' y = BRSetGet s y" if ne: "\<not> eqf s x y" for y
  proof (rule get_same [OF assms s'(2,4)], intro allI impI)
    fix z assume "eqf s z y"
    then have "\<not> eqf s z x" using ne hash_contract.e_sym [OF hc] hash_contract.e_trans [OF hc] by blast
    then show "z \<in> items s' \<longleftrightarrow> z \<in> items s" using s'(3) by auto
  qed
  moreover have "BRSetCount s' = card (items s')"
    using count_card(2) s'(2) unfolding BRSetCount_def set_ok_def by blast
  ultimately show ?thesis using s' hset.get_after_remove [OF assms s'(1)] by blast
qed

text \<open>\<open>BRSetUnion\<close>, \<open>BRSetMinus\<close>, \<open>BRSetIntersect\<close> and \<open>BRSetIntersects\<close> on well-formed sets with the
  same \<open>eq\<close> always return and compute union, difference, intersection and overlap of the item sets up to
  \<open>eq\<close>; the loop of \<open>BRSetIntersect\<close>, which removes from the table it walks over, misses no item.\<close>

theorem BRSet_operations_correct:
  assumes "set_ok s" "set_ok s2" "eqf s2 = eqf s" "card (items s) + card (items s2) \<le> set_capacity"
  shows "\<exists>u m i. BRSetUnion s s2 = Some u \<and> BRSetMinus s s2 = Some m \<and> BRSetIntersect s s2 = Some i \<and>
    set_ok u \<and> set_ok m \<and> set_ok i \<and>
    items u = items s2 \<union> {y \<in> items s. \<forall>x\<in>items s2. \<not> eqf s y x} \<and>
    items m = {y \<in> items s. \<forall>x\<in>items s2. \<not> eqf s y x} \<and>
    items i = {y \<in> items s. \<exists>x\<in>items s2. eqf s x y} \<and>
    BRSetIntersects s s2 = Some (\<exists>x\<in>items s2. \<exists>y\<in>items s. eqf s y x)"
  using union_ok [OF assms] minus_ok [OF assms(1), of s2] intersect_ok [OF assms(1,2)]
    intersects_ok [OF assms(1), of s2] assms(3)
  by auto

text \<open>Concrete sets: numbers hashed to four classes, so that the probe of 1 passes the bucket of 5.\<close>

definition demo_set :: "nat option list \<Rightarrow> size_t \<Rightarrow> nat BRSet" where
  "demo_set t c = \<lparr>table = t, bsize = 3, itemCount = c, hashf = (\<lambda>n. n mod 4), eqf = (=)\<rparr>"

lemma demo_contract: "hash_contract (\<lambda>n. n mod 4) ((=) :: nat \<Rightarrow> _)"
  by unfold_locales auto

lemma demo_set_ok: "set_ok (demo_set [None, Some 5, Some 9] 2)" (is "set_ok ?s")
proof -
  have at: "k = 1 \<and> x = 5 \<or> k = 2 \<and> x = 9" if "k < 3" "[None, Some 5, Some 9] ! k = Some x" for k and x :: nat
    using that by (auto simp: less_Suc_eq numeral_3_eq_3)
  have "k = l" if "k < 3" "l < 3" "[None, Some 5, Some 9] ! k = Some x" "[None, Some 5, Some 9] ! l = Some x"
    for k l and x :: nat
    using at [OF that(1,3)] at [OF that(2,4)] by auto
  then have "shape ?s"
    using demo_contract by (simp add: shape_def demo_set_def tableSizes_def limit_def)
  moreover have "placed ?s"
    unfolding placed_def
  proof (intro allI impI)
    fix k x assume "k < bsize ?s" "table ?s ! k = Some x"
    then have "k = 1 \<and> x = 5 \<or> k = 2 \<and> x = 9" using at by (simp add: demo_set_def)
    then show "reachable_at (table ?s) (bsize ?s) (hashf ?s x) k"
    proof
      assume "k = 1 \<and> x = 5"
      then show ?thesis
        unfolding reachable_at_def by (intro exI [of _ 0]) (simp add: demo_set_def path_def occupied_def)
    next
      assume "k = 2 \<and> x = 9"
      then show ?thesis
        unfolding reachable_at_def
        by (intro exI [of _ 1]) (auto simp: demo_set_def path_def occupied_def le_Suc_eq)
    qed
  qed
  ultimately show ?thesis by (simp add: set_ok_def)
qed

lemma demo_empty_ok: "set_ok (demo_set [None, None, None] 0)"
  using set_ok_empty(1) [OF demo_contract, of 3]
  by (simp add: demo_set_def tableSizes_def numeral_3_eq_3)

lemma demo_items: "items (demo_set [None, Some 5, Some 9] 2) = {5, 9}" "items (demo_set [None, None, None] 0) = {}"
  by (auto simp: items_def demo_set_def)

lemma set_capacity_value: "set_capacity = 2609407362"
  by (simp add: set_capacity_def tableSizes_def limit_def)

lemma demo_card: "card (items (demo_set [None, Some 5, Some 9] 2)) = 2"
  by (simp add: demo_items)

theorem BRSetAdd_correct_witness: "\<exists>s'. BRSetAdd (demo_set [None, Some 5, Some 9] 2) 13 = Some (None, s') \<and>
    items s' = insert 13 {5, 9} \<and> BRSetGet s' 13 = Some (Some 13)"
proof -
  have g: "BRSetGet (demo_set [None, Some 5, Some 9] 2) 13 = Some None"
    by code_simp
  have "{y \<in> items (demo_set [None, Some 5, Some 9] 2). \<not> eqf (demo_set [None, Some 5, Some 9] 2) y 13} = {5, 9}"
    unfolding demo_items by (auto simp: demo_set_def)
  moreover have "card (items (demo_set [None, Some 5, Some 9] 2)) < set_capacity"
    by (simp add: demo_card set_capacity_value)
  note BRSetAdd_correct [OF demo_set_ok this, of 13]
  ultimately show ?thesis
    by (simp only: g option.sel) (elim exE conjE, intro exI conjI)
qed

theorem BRSetRemove_correct_witness: "\<exists>s'. BRSetRemove (demo_set [None, Some 5, Some 9] 2) 5 = Some (Some 5, s') \<and>
    items s' = {9} \<and> BRSetGet s' 9 = Some (Some 9)"
proof -
  have g: "BRSetGet (demo_set [None, Some 5, Some 9] 2) 5 = Some (Some 5)"
    "BRSetGet (demo_set [None, Some 5, Some 9] 2) 9 = Some (Some 9)"
    by code_simp+
  have i: "{y \<in> items (demo_set [None, Some 5, Some 9] 2). \<not> eqf (demo_set [None, Some 5, Some 9] 2) y 5} = {9}"
    "\<not> eqf (demo_set [None, Some 5, Some 9] 2) 5 9"
    unfolding demo_items by (auto simp: demo_set_def)
  from BRSetRemove_correct [OF demo_set_ok, of 5] show ?thesis
    by (simp only: i(1) g(1) option.sel) (elim exE conjE, intro exI conjI, assumption+, simp add: i(2) g(2))
qed

theorem BRSet_operations_correct_witness:
  "\<exists>u i. BRSetUnion (demo_set [None, None, None] 0) (demo_set [None, Some 5, Some 9] 2) = Some u \<and>
     items u = {5, 9} \<and>
     BRSetIntersect (demo_set [None, None, None] 0) (demo_set [None, Some 5, Some 9] 2) = Some i \<and> items i = {}"
proof -
  have e: "eqf (demo_set [None, Some 5, Some 9] 2) = eqf (demo_set [None, None, None] 0)"
    by (simp add: demo_set_def)
  have "card (items (demo_set [None, None, None] 0)) + card (items (demo_set [None, Some 5, Some 9] 2)) \<le> set_capacity"
    by (simp add: demo_items set_capacity_value)
  from BRSet_operations_correct [OF demo_empty_ok demo_set_ok e this] show ?thesis
    unfolding demo_items by (elim exE conjE) (simp add: demo_items)
qed

end
