(* ===== verification/Kdf.thy ===== *)
theory Kdf
  imports Hash
begin

text \<open>
  The keyed constructions of \<^verbatim>\<open>Libraries/loafwallet-core/BRCrypto.c\<close> that stand on the hash functions: HMAC,
  the HMAC random bit generator, PBKDF2, and scrypt with its salsa20/8 core. The hash is a parameter, as the
  function pointer of the code, with its digest length \<open>hashLen\<close>. Buffers that the code views as arrays of
  32 or 64 bit words only to xor them are byte lists; the cleaning of temporaries is left out.
\<close>

section \<open>HMAC\<close>

definition hmac_key :: "(u8 list \<Rightarrow> u8 list) \<Rightarrow> nat \<Rightarrow> u8 list \<Rightarrow> u8 list" where
  "hmac_key hash blockLen key =
     (let key = (if length key > blockLen then hash key else key) in key @ replicate (blockLen - length key) 0)"

definition BRHMAC :: "(u8 list \<Rightarrow> u8 list) \<Rightarrow> nat \<Rightarrow> u8 list \<Rightarrow> u8 list \<Rightarrow> u8 list" where
  "BRHMAC hash hashLen key data =
     (let blockLen = (if hashLen > 32 then 128 else 64); k = hmac_key hash blockLen key;
          kipad = map (\<lambda>b. b XOR 0x36) k; kopad = map (\<lambda>b. b XOR 0x5c) k
      in hash (kopad @ hash (kipad @ data)))"

section \<open>The random bit generator\<close>

function drbg_loop :: "(u8 list \<Rightarrow> u8 list) \<Rightarrow> nat \<Rightarrow> u8 list \<Rightarrow> nat \<Rightarrow> nat \<Rightarrow> u8 list \<Rightarrow> u8 list \<times> u8 list" where
  "drbg_loop hash hashLen K outLen i V =
     (if 0 < hashLen \<and> i * hashLen < outLen
      then let V = BRHMAC hash hashLen K V; (out, V') = drbg_loop hash hashLen K outLen (i + 1) V
        in (take (if i * hashLen + hashLen \<le> outLen then hashLen else outLen mod hashLen) V @ out, V')
      else ([], V))"
  by auto
termination
  by (relation "measure (\<lambda>(hash, hashLen, K, outLen, i, V). outLen - i * hashLen)") auto

declare drbg_loop.simps [simp del]

definition opt_bytes :: "u8 list option \<Rightarrow> u8 list" where
  "opt_bytes b = (case b of None \<Rightarrow> [] | Some bs \<Rightarrow> bs)"

text \<open>The result is the output with the new \<open>K\<close> and \<open>V\<close>.\<close>

definition BRHMACDRBG :: "(u8 list \<Rightarrow> u8 list) \<Rightarrow> nat \<Rightarrow> nat \<Rightarrow> u8 list \<Rightarrow> u8 list \<Rightarrow> u8 list option \<Rightarrow>
    u8 list option \<Rightarrow> u8 list option \<Rightarrow> u8 list \<times> u8 list \<times> u8 list" where
  "BRHMACDRBG hash hashLen outLen K V seed nonce ps =
     (let fresh = (seed \<noteq> None \<or> nonce \<noteq> None \<or> ps \<noteq> None);
          extra = opt_bytes seed @ opt_bytes nonce @ opt_bytes ps;
          (K, V) = (if fresh then (replicate hashLen 0, replicate hashLen 1) else (K, V));
          K = BRHMAC hash hashLen K (V @ [0] @ extra);
          V = BRHMAC hash hashLen K V;
          (K, V) = (if fresh
                    then let K = BRHMAC hash hashLen K (V @ [1] @ extra) in (K, BRHMAC hash hashLen K V)
                    else (K, V));
          (out, V) = drbg_loop hash hashLen K outLen 0 V
      in (out, K, V))"

section \<open>PBKDF2\<close>

definition xor_bytes :: "'a::semiring_bit_operations list \<Rightarrow> 'a list \<Rightarrow> 'a list" where
  "xor_bytes T U = map2 (XOR) T U"

definition pbkdf2_T :: "(u8 list \<Rightarrow> u8 list) \<Rightarrow> nat \<Rightarrow> u8 list \<Rightarrow> u8 list \<Rightarrow> nat \<Rightarrow> nat \<Rightarrow> u8 list" where
  "pbkdf2_T hash hashLen pw salt rounds i =
     (let U = BRHMAC hash hashLen pw (salt @ UInt32SetLE (be32 (word_of_nat (i + 1)))) in
      snd (foldl (\<lambda>(U, T) _. let U = BRHMAC hash hashLen pw U in (U, xor_bytes T U)) (U, U) [1..<rounds]))"

definition BRPBKDF2 :: "nat \<Rightarrow> (u8 list \<Rightarrow> u8 list) \<Rightarrow> nat \<Rightarrow> u8 list \<Rightarrow> u8 list \<Rightarrow> nat \<Rightarrow> u8 list" where
  "BRPBKDF2 dkLen hash hashLen pw salt rounds =
     concat (map (\<lambda>i. take (if i * hashLen + hashLen \<le> dkLen then hashLen else dkLen mod hashLen)
         (pbkdf2_T hash hashLen pw salt rounds i))
       [0..<(dkLen + hashLen - 1) div hashLen])"

section \<open>Scrypt\<close>

text \<open>\<open>xa ^= rol32(xb + xc, n)\<close>, in the order of the code.\<close>

definition salsa_columns :: "(nat \<times> nat \<times> nat \<times> nat) list" where
  "salsa_columns =
    [(0x4, 0x0, 0xc, 7), (0x8, 0x4, 0x0, 9), (0xc, 0x8, 0x4, 13), (0x0, 0xc, 0x8, 18),
     (0x9, 0x5, 0x1, 7), (0xd, 0x9, 0x5, 9), (0x1, 0xd, 0x9, 13), (0x5, 0x1, 0xd, 18),
     (0xe, 0xa, 0x6, 7), (0x2, 0xe, 0xa, 9), (0x6, 0x2, 0xe, 13), (0xa, 0x6, 0x2, 18),
     (0x3, 0xf, 0xb, 7), (0x7, 0x3, 0xf, 9), (0xb, 0x7, 0x3, 13), (0xf, 0xb, 0x7, 18)]"

definition salsa_rows :: "(nat \<times> nat \<times> nat \<times> nat) list" where
  "salsa_rows =
    [(0x1, 0x0, 0x3, 7), (0x2, 0x1, 0x0, 9), (0x3, 0x2, 0x1, 13), (0x0, 0x3, 0x2, 18),
     (0x6, 0x5, 0x4, 7), (0x7, 0x6, 0x5, 9), (0x4, 0x7, 0x6, 13), (0x5, 0x4, 0x7, 18),
     (0xb, 0xa, 0x9, 7), (0x8, 0xb, 0xa, 9), (0x9, 0x8, 0xb, 13), (0xa, 0x9, 0x8, 18),
     (0xc, 0xf, 0xe, 7), (0xd, 0xc, 0xf, 9), (0xe, 0xd, 0xc, 13), (0xf, 0xe, 0xd, 18)]"

definition salsa_op :: "u32 list \<Rightarrow> nat \<times> nat \<times> nat \<times> nat \<Rightarrow> u32 list" where
  "salsa_op x q = (let (a, b, c, n) = q in x[a := x ! a XOR rol32 (x ! b + x ! c) n])"

definition salsa20_8 :: "u32 list \<Rightarrow> u32 list" where
  "salsa20_8 b = map2 (+) b (foldl (\<lambda>x _. foldl salsa_op x (salsa_columns @ salsa_rows)) b [0..<4])"

text \<open>The arrays of \<open>16 * r\<close> 64-bit words are lists of \<open>32 * r\<close> 32-bit words. Round \<open>k\<close> is \<open>i = 2 * k\<close>.\<close>

definition blockmix_step :: "nat \<Rightarrow> u32 list \<Rightarrow> u32 list \<times> u32 list \<Rightarrow> nat \<Rightarrow> u32 list \<times> u32 list" where
  "blockmix_step r src s k =
     (let (dest, b) = s;
          b = salsa20_8 (xor_bytes b (take 16 (drop (32 * k) src)));
          dest = memcpy_at dest (16 * k) b;
          b = salsa20_8 (xor_bytes b (take 16 (drop (32 * k + 16) src)));
          dest = memcpy_at dest (16 * k + 16 * r) b
      in (dest, b))"

definition blockmix_salsa8 :: "u32 list \<Rightarrow> u32 list \<Rightarrow> nat \<Rightarrow> u32 list" where
  "blockmix_salsa8 dest src r =
     fst (foldl (blockmix_step r src) (dest, take 16 (drop ((2 * r - 1) * 16) src)) [0..<r])"

text \<open>The index into \<open>v\<close>: \<open>le64(x[(2*r - 1)*8]) & (n - 1)\<close>.\<close>

definition scrypt_m :: "nat \<Rightarrow> nat \<Rightarrow> u32 list \<Rightarrow> nat" where
  "scrypt_m n r x =
     unat ((ucast (x ! ((2 * r - 1) * 16)) OR push_bit 32 (ucast (x ! ((2 * r - 1) * 16 + 1)))) AND
       (word_of_nat (n - 1) :: u64))"

text \<open>Both loops advance by two: \<open>n\<close> is even (a power of two).\<close>

definition scrypt_fill :: "nat \<Rightarrow> nat \<Rightarrow> u32 list \<Rightarrow> u32 list \<Rightarrow> u32 list list \<times> u32 list \<times> u32 list" where
  "scrypt_fill n r x y =
     foldl (\<lambda>(v, x, y) _.
         let y' = blockmix_salsa8 y x r in (v @ [x, y'], blockmix_salsa8 x y' r, y'))
       ([], x, y) [0..<(n + 1) div 2]"

definition scrypt_mix :: "nat \<Rightarrow> nat \<Rightarrow> u32 list list \<Rightarrow> u32 list \<Rightarrow> u32 list \<Rightarrow> u32 list \<times> u32 list" where
  "scrypt_mix n r v x y =
     foldl (\<lambda>(x, y) _.
         let x = xor_bytes x (v ! scrypt_m n r x); y = blockmix_salsa8 y x r;
             y = xor_bytes y (v ! scrypt_m n r y); x = blockmix_salsa8 x y r
         in (x, y))
       (x, y) [0..<(n + 1) div 2]"

definition scrypt_block :: "nat \<Rightarrow> nat \<Rightarrow> u32 list \<Rightarrow> u32 list" where
  "scrypt_block n r x =
     (let (v, x, y) = scrypt_fill n r x (replicate (32 * r) 0) in fst (scrypt_mix n r v x y))"

definition BRScrypt :: "nat \<Rightarrow> u8 list \<Rightarrow> u8 list \<Rightarrow> nat \<Rightarrow> nat \<Rightarrow> nat \<Rightarrow> u8 list" where
  "BRScrypt dkLen pw salt n r p =
     (let b = words32 (32 * r * p) (BRPBKDF2 (128 * r * p) BRSHA256 32 pw salt 1);
          b = concat (map (\<lambda>i. scrypt_block n r (take (32 * r) (drop (i * 32 * r) b))) [0..<p])
      in BRPBKDF2 dkLen BRSHA256 32 pw (bytes32 b) 1)"

section \<open>The constructions over a hash with digests of a fixed length\<close>

text \<open>The first \<open>d\<close> bytes of a sequence of digests, as the output loops write them: whole digests and then
  the start of one.\<close>

lemma upt_split: "q \<le> n \<Longrightarrow> [0..<n] = [0..<q] @ [q..<n]"
  by (metis upt_add_eq_append le_add_diff_inverse le0)

lemma length_concat_const: "(\<And>i. length (T i) = h) \<Longrightarrow> length (concat (map T xs)) = h * length xs"
  by (induction xs) simp_all

lemma output_blocks:
  fixes T :: "nat \<Rightarrow> 'a list"
  assumes h: "0 < h" and T: "\<And>i. length (T i) = h" and d: "d \<le> n * h"
  shows "concat (map (\<lambda>i. take (if i * h + h \<le> d then h else d mod h) (T i)) [0..<(d + h - 1) div h]) =
    take d (concat (map T [0..<n]))" (is "concat (map ?f _) = _")
proof -
  define q where "q = d div h"
  define m where "m = d mod h"
  have dq: "d = q * h + m" "m < h" using h by (simp_all add: q_def m_def)
  have "q * h \<le> n * h" using d dq(1) by linarith
  then have qn: "q \<le> n" using h by simp
  have f: "?f i = T i" if "i < q" for i
  proof -
    have "(i + 1) * h \<le> q * h" using that by (intro mult_right_mono) simp_all
    then show ?thesis using dq(1) T [of i] by simp
  qed
  have "map ?f [0..<q] = map T [0..<q]" by (rule map_cong [OF refl]) (simp only: f set_upt atLeastLessThan_iff)
  then have F: "concat (map ?f [0..<q]) = concat (map T [0..<q])" by (simp only:)
  have L: "length (concat (map T [0..<q])) = q * h" using length_concat_const [of T h "[0..<q]"] T by simp
  have S: "take d (concat (map T [0..<n])) = concat (map T [0..<q]) @ take m (concat (map T [q..<n]))"
    using L dq(1) by (simp add: upt_split [OF qn])
  show ?thesis
  proof (cases "m = 0")
    case True
    have "(d + h - 1) div h = q" using True dq h by (simp add: div_eq_dividend_iff algebra_simps div_nat_eqI)
    then show ?thesis using S F True by simp
  next
    case False
    have c: "(d + h - 1) div h = Suc q" using False dq h by (intro div_nat_eqI) (simp_all add: mult.commute)
    have "?f q = take m (T q)" using dq by (simp add: m_def [symmetric])
    moreover have "q < n"
    proof (rule ccontr)
      assume "\<not> q < n"
      then have "q = n" using qn by simp
      then show False using d dq(1) False by simp
    qed
    then have "take m (concat (map T [q..<n])) = take m (T q)" using T [of q] dq(2) by (simp add: upt_rec [of q n])
    ultimately show ?thesis using S F c by simp
  qed
qed

lemma length_xor_bytes [simp, len_simps]: "length (xor_bytes a b) = min (length a) (length b)"
  by (simp add: xor_bytes_def)

definition pbkdf2_U :: "(u8 list \<Rightarrow> u8 list) \<Rightarrow> nat \<Rightarrow> u8 list \<Rightarrow> u8 list \<Rightarrow> nat \<Rightarrow> nat \<Rightarrow> u8 list" where
  "pbkdf2_U hash hashLen pw salt i r =
     (BRHMAC hash hashLen pw ^^ r) (BRHMAC hash hashLen pw (salt @ UInt32SetBE (word_of_nat (i + 1))))"

definition pbkdf2_block :: "(u8 list \<Rightarrow> u8 list) \<Rightarrow> nat \<Rightarrow> u8 list \<Rightarrow> u8 list \<Rightarrow> nat \<Rightarrow> nat \<Rightarrow> u8 list" where
  "pbkdf2_block hash hashLen pw salt rounds i =
     foldl xor_bytes (pbkdf2_U hash hashLen pw salt i 0) (map (pbkdf2_U hash hashLen pw salt i) [1..<rounds])"

lemma pbkdf2_T_block: "pbkdf2_T hash hashLen pw salt rounds i = pbkdf2_block hash hashLen pw salt rounds i"
proof -
  let ?U = "pbkdf2_U hash hashLen pw salt i"
  have "foldl (\<lambda>(U, T) _. let U = BRHMAC hash hashLen pw U in (U, xor_bytes T U)) (?U 0, ?U 0) [1..<n] =
      (?U (n - 1), foldl xor_bytes (?U 0) (map ?U [1..<n]))" for n
  proof (induction n)
    case (Suc n)
    show ?case
    proof (cases n)
      case (Suc k)
      then have "BRHMAC hash hashLen pw (?U (n - 1)) = ?U n" by (simp add: pbkdf2_U_def)
      then show ?thesis using Suc.IH Suc by (simp add: Let_def)
    qed simp
  qed simp
  from this [of rounds] show ?thesis
    by (simp add: pbkdf2_T_def pbkdf2_block_def Let_def UInt32SetLE_be32 pbkdf2_U_def)
qed

text \<open>The output of the generator: the iterates of the HMAC on \<open>V\<close>.\<close>

definition drbg_V :: "(u8 list \<Rightarrow> u8 list) \<Rightarrow> nat \<Rightarrow> u8 list \<Rightarrow> u8 list \<Rightarrow> nat \<Rightarrow> u8 list" where
  "drbg_V hash hashLen K V i = (BRHMAC hash hashLen K ^^ (i + 1)) V"

lemma drbg_loop_blocks:
  "drbg_loop hash hashLen K outLen i V =
     (concat (map (\<lambda>k. take (if k * hashLen + hashLen \<le> outLen then hashLen else outLen mod hashLen)
         (drbg_V hash hashLen K V (k - i))) [i..<(outLen + hashLen - 1) div hashLen]),
      (BRHMAC hash hashLen K ^^ ((outLen + hashLen - 1) div hashLen - i)) V)"
proof (induction hash hashLen K outLen i V rule: drbg_loop.induct)
  case (1 hash hashLen K outLen i V)
  let ?c = "(outLen + hashLen - 1) div hashLen" and ?H = "BRHMAC hash hashLen K"
  have lt: "i < ?c" if "0 < hashLen" "i * hashLen < outLen"
  proof -
    have "Suc i * hashLen \<le> outLen + hashLen - 1" using that by simp
    then show ?thesis using that(1) by (simp add: less_eq_div_iff_mult_less_eq less_eq_Suc_le)
  qed
  have ge: "?c \<le> i" if "\<not> (0 < hashLen \<and> i * hashLen < outLen)"
  proof (cases "hashLen = 0")
    case False
    have "outLen + hashLen - 1 < Suc i * hashLen" using that False by simp
    then show ?thesis using False by (simp add: div_less_iff_less_mult less_Suc_eq_le [symmetric])
  qed simp
  show ?case
  proof (cases "0 < hashLen \<and> i * hashLen < outLen")
    case True
    note l = lt [OF conjunct1 [OF True] conjunct2 [OF True]]
    have v: "drbg_V hash hashLen K (?H V) (k - Suc i) = drbg_V hash hashLen K V (k - i)" if "i < k" for k
    proof -
      from that obtain j where "k = i + Suc j" by (metis add_Suc_right less_iff_Suc_add)
      then show ?thesis by (simp add: drbg_V_def funpow_swap1)
    qed
    have m: "map (\<lambda>k. take (b k) (drbg_V hash hashLen K (?H V) (k - Suc i))) [Suc i..<?c] =
        map (\<lambda>k. take (b k) (drbg_V hash hashLen K V (k - i))) [Suc i..<?c]" for b :: "nat \<Rightarrow> nat"
      by (rule map_cong [OF refl]) (simp add: v)
    have p: "(?H ^^ (?c - Suc i)) (?H V) = (?H ^^ (?c - i)) V"
      using l by (metis Suc_diff_Suc funpow_simps_right(2) comp_apply)
    have u: "[i..<?c] = i # [Suc i..<?c]" using l by (simp add: upt_rec)
    have "drbg_loop hash hashLen K outLen (i + 1) (?H V) =
        (concat (map (\<lambda>k. take (if k * hashLen + hashLen \<le> outLen then hashLen else outLen mod hashLen)
           (drbg_V hash hashLen K V (k - i))) [Suc i..<?c]), (?H ^^ (?c - i)) V)"
      using 1 [OF True refl] by (simp only: m p Suc_eq_plus1 [symmetric])
    then show ?thesis
      using True unfolding u by (subst drbg_loop.simps) (simp add: drbg_V_def Let_def)
  next
    case False
    then show ?thesis using ge [OF False] by (subst drbg_loop.simps) (simp only: if_False upt_conv_Nil diff_is_0_eq' list.map concat.simps funpow_0)
  qed
qed

locale digest =
  fixes hash :: "u8 list \<Rightarrow> u8 list" and hashLen :: nat
  assumes hashLen_pos: "0 < hashLen" and length_hash: "length (hash x) = hashLen"
begin

lemma length_HMAC: "length (BRHMAC hash hashLen k x) = hashLen"
  by (simp add: BRHMAC_def Let_def length_hash)

lemma length_pbkdf2_block: "length (pbkdf2_block hash hashLen pw salt rounds i) = hashLen"
proof -
  have f: "length T = hashLen \<Longrightarrow> (\<And>x. x \<in> set xs \<Longrightarrow> length x = hashLen) \<Longrightarrow>
      length (foldl xor_bytes T xs) = hashLen" for T xs
    by (induction xs arbitrary: T) simp_all
  have u: "length (pbkdf2_U hash hashLen pw salt i r) = hashLen" for r
    by (cases r) (simp_all add: pbkdf2_U_def length_HMAC)
  show ?thesis unfolding pbkdf2_block_def by (rule f) (auto simp: u)
qed

lemma pbkdf2_spec:
  "dkLen \<le> n * hashLen \<Longrightarrow> BRPBKDF2 dkLen hash hashLen pw salt rounds =
     take dkLen (concat (map (pbkdf2_block hash hashLen pw salt rounds) [0..<n]))"
  unfolding BRPBKDF2_def pbkdf2_T_block
  by (rule output_blocks [OF hashLen_pos length_pbkdf2_block])

lemma length_pbkdf2: "length (BRPBKDF2 dkLen hash hashLen pw salt rounds) = dkLen"
proof -
  have "dkLen \<le> dkLen * hashLen" using hashLen_pos by (cases hashLen) simp_all
  from pbkdf2_spec [OF this] show ?thesis
    using length_concat_const [of "pbkdf2_block hash hashLen pw salt rounds" hashLen "[0..<dkLen]"]
      length_pbkdf2_block \<open>dkLen \<le> dkLen * hashLen\<close> by (simp add: mult.commute)
qed

lemma drbg_spec:
  "outLen \<le> n * hashLen \<Longrightarrow> fst (drbg_loop hash hashLen K outLen 0 V) =
     take outLen (concat (map (drbg_V hash hashLen K V) [0..<n]))"
  unfolding drbg_loop_blocks fst_conv diff_zero
  by (rule output_blocks [OF hashLen_pos]) (simp_all add: drbg_V_def length_HMAC)

end

interpretation dsha256: digest BRSHA256 32 by unfold_locales simp_all
interpretation dsha512: digest BRSHA512 64 by unfold_locales simp_all
interpretation dsha1: digest BRSHA1 20 by unfold_locales simp_all

section \<open>Scrypt and its specification\<close>

text \<open>\<open>BlockMix\<close> and \<open>ROMix\<close> as RFC 7914 has them: the even outputs come before the odd ones, and the
  memory holds the first \<open>n\<close> iterates.\<close>

definition salsa_in :: "u32 list \<Rightarrow> nat \<Rightarrow> u32 list" where
  "salsa_in src j = take 16 (drop (16 * j) src)"

primrec salsa_Y :: "u32 list \<Rightarrow> nat \<Rightarrow> nat \<Rightarrow> u32 list" where
  "salsa_Y src r 0 = salsa20_8 (xor_bytes (salsa_in src (2 * r - 1)) (salsa_in src 0))"
| "salsa_Y src r (Suc j) = salsa20_8 (xor_bytes (salsa_Y src r j) (salsa_in src (Suc j)))"

definition BlockMix :: "nat \<Rightarrow> u32 list \<Rightarrow> u32 list" where
  "BlockMix r src = concat (map (\<lambda>k. salsa_Y src r (2 * k)) [0..<r]) @
     concat (map (\<lambda>k. salsa_Y src r (2 * k + 1)) [0..<r])"

definition ROMix :: "nat \<Rightarrow> nat \<Rightarrow> u32 list \<Rightarrow> u32 list" where
  "ROMix n r X =
     (let V = map (\<lambda>i. (BlockMix r ^^ i) X) [0..<n] in
      ((\<lambda>Y. BlockMix r (xor_bytes Y (V ! scrypt_m n r Y))) ^^ n) ((BlockMix r ^^ n) X))"

lemma length_salsa_ops: "length (foldl salsa_op x qs) = length x"
  by (induction qs arbitrary: x) (simp_all add: salsa_op_def Let_def split: prod.splits)

lemma length_salsa [simp, len_simps]: "length (salsa20_8 b) = length b"
proof -
  have "length (foldl (\<lambda>x _. foldl salsa_op x qs) b ns) = length b" for qs and ns :: "nat list"
    by (induction ns arbitrary: b) (simp_all add: length_salsa_ops)
  then show ?thesis by (simp add: salsa20_8_def del: foldl_append)
qed

lemma length_salsa_in: "16 * j + 16 \<le> length src \<Longrightarrow> length (salsa_in src j) = 16"
  by (simp add: salsa_in_def)

lemma length_salsa_Y: "0 < r \<Longrightarrow> length src = 32 * r \<Longrightarrow> j < 2 * r \<Longrightarrow> length (salsa_Y src r j) = 16"
  by (induction j) (simp_all add: length_salsa_in)

lemma length_concat_map: "(\<And>k. k \<in> set ks \<Longrightarrow> length (f k) = h) \<Longrightarrow> length (concat (map f ks)) = h * length ks"
  by (induction ks) simp_all

lemma length_BlockMix: "0 < r \<Longrightarrow> length src = 32 * r \<Longrightarrow> length (BlockMix r src) = 32 * r"
  unfolding BlockMix_def length_append
  by (subst length_concat_map [of _ _ 16], simp add: length_salsa_Y del: salsa_Y.simps)+ simp

lemma blockmix_loop:
  assumes r: "0 < r" and src: "length src = 32 * r" and dest: "length dest = 32 * r"
  shows "k \<le> r \<Longrightarrow> \<exists>X Z. length X = 16 * (r - k) \<and> length Z = 16 * (r - k) \<and>
    foldl (blockmix_step r src) (dest, salsa_in src (2 * r - 1)) [0..<k] =
      (concat (map (\<lambda>k. salsa_Y src r (2 * k)) [0..<k]) @ X @
       concat (map (\<lambda>k. salsa_Y src r (2 * k + 1)) [0..<k]) @ Z,
       if k = 0 then salsa_in src (2 * r - 1) else salsa_Y src r (2 * k - 1))"
proof (induction k)
  case 0
  show ?case by (rule exI [of _ "take (16 * r) dest"], rule exI [of _ "drop (16 * r) dest"]) (simp add: dest)
next
  case (Suc k)
  let ?Y = "salsa_Y src r"
  define E where "E = concat (map (\<lambda>k. ?Y (2 * k)) [0..<k])"
  define D where "D = concat (map (\<lambda>k. ?Y (2 * k + 1)) [0..<k])"
  from Suc obtain X Z where XZ: "length X = 16 * (r - k)" "length Z = 16 * (r - k)" and
    f: "foldl (blockmix_step r src) (dest, salsa_in src (2 * r - 1)) [0..<k] =
      (E @ X @ D @ Z, if k = 0 then salsa_in src (2 * r - 1) else ?Y (2 * k - 1))"
    unfolding E_def D_def by (metis Suc_leD)
  have l: "length E = 16 * k" "length D = 16 * k"
    unfolding E_def D_def using Suc.prems
    by (subst length_concat_map [of _ _ 16], simp_all add: length_salsa_Y [OF r src] del: salsa_Y.simps)+
  have s: "take 16 (drop (32 * k) src) = salsa_in src (2 * k)"
    "take 16 (drop (32 * k + 16) src) = salsa_in src (2 * k + 1)"
    by (simp_all add: salsa_in_def add.commute)
  have y1: "salsa20_8 (xor_bytes (if k = 0 then salsa_in src (2 * r - 1) else ?Y (2 * k - 1)) (salsa_in src (2 * k))) = ?Y (2 * k)"
    by (cases k) simp_all
  have y2: "salsa20_8 (xor_bytes (?Y (2 * k)) (salsa_in src (2 * k + 1))) = ?Y (2 * k + 1)" by simp
  have ly: "length (?Y (2 * k)) = 16" "length (?Y (2 * k + 1)) = 16"
    using Suc.prems by (intro length_salsa_Y [OF r src]; simp)+
  have m1: "memcpy_at (E @ X @ D @ Z) (16 * k) (?Y (2 * k)) = (E @ ?Y (2 * k) @ drop 16 X @ D) @ Z"
    using memcpy_at_append [OF l(1), of "X @ D @ Z" "?Y (2 * k)"] ly(1) XZ(1) Suc.prems by simp
  have lp: "length (E @ ?Y (2 * k) @ drop 16 X @ D) = 16 * k + 16 * r"
    using l ly(1) XZ(1) Suc.prems by simp
  have m2: "memcpy_at ((E @ ?Y (2 * k) @ drop 16 X @ D) @ Z) (16 * k + 16 * r) (?Y (2 * k + 1)) =
      (E @ ?Y (2 * k)) @ drop 16 X @ (D @ ?Y (2 * k + 1)) @ drop 16 Z"
    using memcpy_at_append [OF lp, of Z "?Y (2 * k + 1)"] unfolding ly(2) by simp
  have "foldl (blockmix_step r src) (dest, salsa_in src (2 * r - 1)) [0..<Suc k] =
      ((E @ ?Y (2 * k)) @ drop 16 X @ (D @ ?Y (2 * k + 1)) @ drop 16 Z, ?Y (2 * k + 1))"
    unfolding upt_Suc_append [OF le0] foldl_append f foldl.simps blockmix_step_def Let_def prod.case s y1 y2 m1 m2 by simp
  then show ?case
    using XZ by (intro exI [of _ "drop 16 X"] exI [of _ "drop 16 Z"]) (simp add: E_def D_def)
qed

lemma blockmix_spec:
  assumes "0 < r" "length src = 32 * r" "length dest = 32 * r"
  shows "blockmix_salsa8 dest src r = BlockMix r src"
  using blockmix_loop [OF assms, of r] unfolding blockmix_salsa8_def salsa_in_def [symmetric] BlockMix_def
  by (auto simp: mult.commute salsa_in_def)

lemma length_BlockMix_pow: "0 < r \<Longrightarrow> length X = 32 * r \<Longrightarrow> length ((BlockMix r ^^ i) X) = 32 * r"
  by (induction i) (simp_all add: length_BlockMix)

lemma scrypt_fill_spec:
  assumes "0 < r" "length X = 32 * r" "length Y = 32 * r"
  shows "\<exists>y. length y = 32 * r \<and> foldl (\<lambda>(v, x, y) _.
         let y' = blockmix_salsa8 y x r in (v @ [x, y'], blockmix_salsa8 x y' r, y')) ([], X, Y) [0..<m] =
     (map (\<lambda>i. (BlockMix r ^^ i) X) [0..<2 * m], (BlockMix r ^^ (2 * m)) X, y)"
proof (induction m)
  case (Suc m)
  then obtain y where y: "length y = 32 * r" "foldl (\<lambda>(v, x, y) _.
         let y' = blockmix_salsa8 y x r in (v @ [x, y'], blockmix_salsa8 x y' r, y')) ([], X, Y) [0..<m] =
     (map (\<lambda>i. (BlockMix r ^^ i) X) [0..<2 * m], (BlockMix r ^^ (2 * m)) X, y)" by blast
  let ?x = "(BlockMix r ^^ (2 * m)) X"
  have lx: "length ?x = 32 * r" by (rule length_BlockMix_pow [OF assms(1,2)])
  have b1: "blockmix_salsa8 y ?x r = BlockMix r ?x" by (rule blockmix_spec [OF assms(1) lx y(1)])
  have lb: "length (BlockMix r ?x) = 32 * r" by (rule length_BlockMix [OF assms(1) lx])
  have b2: "blockmix_salsa8 ?x (BlockMix r ?x) r = BlockMix r (BlockMix r ?x)" by (rule blockmix_spec [OF assms(1) lb lx])
  have e: "(BlockMix r ^^ (2 * Suc m)) X = BlockMix r (BlockMix r ?x)"
    "map (\<lambda>i. (BlockMix r ^^ i) X) [0..<2 * Suc m] = map (\<lambda>i. (BlockMix r ^^ i) X) [0..<2 * m] @ [?x, BlockMix r ?x]"
    by simp_all
  show ?case
    unfolding e upt_Suc_append [OF le0] foldl_append y(2)
    by (intro exI [of _ "BlockMix r ?x"] conjI lb) (simp only: foldl.simps prod.case Let_def b1 b2)
qed (use assms in auto)

lemma scrypt_m_less: "0 < n \<Longrightarrow> n \<le> 2 ^ 32 \<Longrightarrow> scrypt_m n r x < n"
proof -
  assume n: "0 < n" "n \<le> 2 ^ 32"
  have "scrypt_m n r x \<le> unat (word_of_nat (n - 1) :: u64)"
    unfolding scrypt_m_def by (rule word_le_nat_alt [THEN iffD1]) (rule word_and_le1)
  moreover have "unat (word_of_nat (n - 1) :: u64) = n - 1"
    using n unfolding unat_of_nat by (intro mod_less) simp
  ultimately show ?thesis using n by linarith
qed

lemma scrypt_mix_spec:
  assumes r: "0 < r" and len: "length X = 32 * r" "length Y = 32 * r" and n: "0 < n" "n \<le> 2 ^ 32"
    and v: "\<forall>i<n. length (v ! i) = 32 * r"
  shows "\<exists>y. length y = 32 * r \<and> length (((\<lambda>Y. BlockMix r (xor_bytes Y (v ! scrypt_m n r Y))) ^^ (2 * m)) X) = 32 * r \<and>
    foldl (\<lambda>(x, y) _.
         let x = xor_bytes x (v ! scrypt_m n r x); y = blockmix_salsa8 y x r;
             y = xor_bytes y (v ! scrypt_m n r y); x = blockmix_salsa8 x y r
         in (x, y)) (X, Y) [0..<m] =
     (((\<lambda>Y. BlockMix r (xor_bytes Y (v ! scrypt_m n r Y))) ^^ (2 * m)) X, y)"
proof (induction m)
  case 0
  show ?case using len by auto
next
  case (Suc m)
  let ?g = "\<lambda>Y. xor_bytes Y (v ! scrypt_m n r Y)" let ?x = "((\<lambda>Y. BlockMix r (?g Y)) ^^ (2 * m)) X"
  from Suc obtain y where y: "length y = 32 * r" and lx: "length ?x = 32 * r" and f: "foldl (\<lambda>(x, y) _.
         let x = ?g x; y = blockmix_salsa8 y x r; y = ?g y; x = blockmix_salsa8 x y r
         in (x, y)) (X, Y) [0..<m] = (?x, y)" by blast
  have g: "length (?g z) = 32 * r" if "length z = 32 * r" for z
    using that v scrypt_m_less [OF n] by simp
  have b1: "blockmix_salsa8 y (?g ?x) r = BlockMix r (?g ?x)" by (rule blockmix_spec [OF r g [OF lx] y])
  have lb: "length (BlockMix r (?g ?x)) = 32 * r" by (rule length_BlockMix [OF r g [OF lx]])
  have b2: "blockmix_salsa8 (?g ?x) (?g (BlockMix r (?g ?x))) r = BlockMix r (?g (BlockMix r (?g ?x)))"
    by (rule blockmix_spec [OF r g [OF lb] g [OF lx]])
  have e: "((\<lambda>Y. BlockMix r (?g Y)) ^^ (2 * Suc m)) X = BlockMix r (?g (BlockMix r (?g ?x)))" by simp
  show ?case
    unfolding e upt_Suc_append [OF le0] foldl_append f
    by (intro exI [of _ "?g (BlockMix r (?g ?x))"] conjI g [OF lb] length_BlockMix [OF r g [OF lb]])
      (simp only: foldl.simps prod.case Let_def b1 b2)
qed

lemma scrypt_block_spec:
  assumes "0 < r" "length X = 32 * r" "0 < n" "n \<le> 2 ^ 32" "even n"
  shows "scrypt_block n r X = ROMix n r X"
proof -
  define V where "V = map (\<lambda>i. (BlockMix r ^^ i) X) [0..<n]"
  have n2: "2 * ((n + 1) div 2) = n" using assms(5) by simp
  have ly: "length (replicate (32 * r) (0 :: u32)) = 32 * r" by simp
  obtain y where y: "length y = 32 * r" and f: "scrypt_fill n r X (replicate (32 * r) 0) = (V, (BlockMix r ^^ n) X, y)"
    using scrypt_fill_spec [OF assms(1,2) ly, of "(n + 1) div 2"] unfolding scrypt_fill_def n2 V_def by blast
  have lx: "length ((BlockMix r ^^ n) X) = 32 * r" by (rule length_BlockMix_pow [OF assms(1,2)])
  have v: "\<forall>i<n. length (V ! i) = 32 * r" by (simp add: V_def length_BlockMix_pow [OF assms(1,2)])
  have "fst (scrypt_mix n r V ((BlockMix r ^^ n) X) y) =
      ((\<lambda>Y. BlockMix r (xor_bytes Y (V ! scrypt_m n r Y))) ^^ n) ((BlockMix r ^^ n) X)"
    using scrypt_mix_spec [OF assms(1) lx y assms(3,4) v, of "(n + 1) div 2"] unfolding scrypt_mix_def n2 by force
  then show ?thesis unfolding scrypt_block_def f ROMix_def V_def Let_def by simp
qed

section \<open>Properties\<close>

text \<open>PBKDF2 over SHA-256 and over SHA-512, for any length, password, salt and number of rounds, is the
  start of the sequence of blocks of RFC 8018, block \<open>i\<close> being the xor of the iterated HMACs of the salt
  followed by the big-endian number \<open>i + 1\<close>; and the random bit generator, from any state, outputs the start
  of the sequence of iterated HMACs of \<open>V\<close>.\<close>

theorem BRPBKDF2_spec:
  "BRPBKDF2 dkLen BRSHA256 32 pw salt rounds =
     take dkLen (concat (map (pbkdf2_block BRSHA256 32 pw salt rounds) [0..<dkLen])) \<and>
   BRPBKDF2 dkLen BRSHA512 64 pw salt rounds =
     take dkLen (concat (map (pbkdf2_block BRSHA512 64 pw salt rounds) [0..<dkLen])) \<and>
   length (BRPBKDF2 dkLen BRSHA512 64 pw salt rounds) = dkLen \<and>
   fst (drbg_loop BRSHA256 32 K dkLen 0 V) = take dkLen (concat (map (drbg_V BRSHA256 32 K V) [0..<dkLen]))"
  by (intro conjI dsha256.pbkdf2_spec dsha512.pbkdf2_spec dsha512.length_pbkdf2 dsha256.drbg_spec) simp_all

text \<open>Scrypt, whose loops swap two buffers and advance by two, computes \<open>ROMix\<close> of RFC 7914 on every
  block, between the two PBKDF2 steps, for every even \<open>n\<close> up to \<open>2 ^ 32\<close>.\<close>

theorem BRScrypt_spec:
  assumes "0 < r" "0 < n" "n \<le> 2 ^ 32" "even n"
  shows "BRScrypt dkLen pw salt n r p =
    (let B = words32 (32 * r * p) (BRPBKDF2 (128 * r * p) BRSHA256 32 pw salt 1) in
     BRPBKDF2 dkLen BRSHA256 32 pw
       (bytes32 (concat (map (\<lambda>i. ROMix n r (take (32 * r) (drop (i * 32 * r) B))) [0..<p]))) 1)"
proof -
  define B where "B = words32 (32 * r * p) (BRPBKDF2 (128 * r * p) BRSHA256 32 pw salt 1)"
  have lB: "length B = 32 * r * p" by (simp add: B_def words32_def)
  have "map (\<lambda>i. scrypt_block n r (take (32 * r) (drop (i * 32 * r) B))) [0..<p] =
      map (\<lambda>i. ROMix n r (take (32 * r) (drop (i * 32 * r) B))) [0..<p]"
  proof (rule map_cong [OF refl])
    fix i assume "i \<in> set [0..<p]"
    then have "(i + 1) * (32 * r) \<le> p * (32 * r)" by (intro mult_right_mono) simp_all
    then have "length (take (32 * r) (drop (i * 32 * r) B)) = 32 * r"
      using lB by (simp add: algebra_simps)
    then show "scrypt_block n r (take (32 * r) (drop (i * 32 * r) B)) = ROMix n r (take (32 * r) (drop (i * 32 * r) B))"
      by (rule scrypt_block_spec [OF assms(1) _ assms(2-4)])
  qed
  then show ?thesis unfolding BRScrypt_def B_def [symmetric] Let_def by (simp only:)
qed

theorem BRScrypt_spec_witness:
  "BRScrypt 32 [1, 2] [1, 2] 1024 1 1 =
     BRPBKDF2 32 BRSHA256 32 [1, 2] (bytes32 (ROMix 1024 1 (words32 32 (BRPBKDF2 128 BRSHA256 32 [1, 2] [1, 2] 1)))) 1"
  using BRScrypt_spec [of 1 1024 32 "[1, 2]" "[1, 2]" 1] by (simp add: words32_def)

end
