(* ===== verification/MerkleBlock.thy ===== *)
theory MerkleBlock
  imports Kdf Reader "HOL-Library.Monad_Syntax"
begin

text \<open>
  \<^verbatim>\<open>Libraries/loafwallet-core/BRMerkleBlock.c\<close>: block headers with a partial merkle tree (BIP37), their
  serialized form, the merkle root and the matched transactions, and the validity of a block. \<open>hashes\<close> and
  \<open>flags\<close> are \<open>None\<close> for \<open>NULL\<close>; the counts are fields of their own, as in the code, where they need not
  agree with what was allocated. \<open>None\<close> as a result of an operation is a read or write outside an
  object, or a loop that does not end. The two recursive walks are structural in the height that is left,
  \<open>_ceil_log2(totalTx) - depth\<close>.
\<close>

section \<open>Data\<close>

definition MAX_PROOF_OF_WORK :: u32 where "MAX_PROOF_OF_WORK = 0x1e0fffff"
definition BLOCK_DIFFICULTY_INTERVAL :: u32 where "BLOCK_DIFFICULTY_INTERVAL = 2016"
definition BLOCK_UNKNOWN_HEIGHT :: u32 where "BLOCK_UNKNOWN_HEIGHT = 0x7fffffff"
definition BLOCK_MAX_TIME_DRIFT :: u32 where "BLOCK_MAX_TIME_DRIFT = 2 * 60 * 60"

record BRMerkleBlock =
  mb_blockHash :: UInt256
  mb_powHash :: UInt256
  mb_version :: u32
  mb_prevBlock :: UInt256
  mb_merkleRoot :: UInt256
  mb_timestamp :: u32
  mb_target :: u32
  mb_nonce :: u32
  mb_totalTx :: u32
  mb_hashes :: "UInt256 list option"
  mb_hashesCount :: size_t
  mb_flags :: "u8 list option"
  mb_flagsLen :: size_t
  mb_height :: u32

definition BRMerkleBlockNew :: BRMerkleBlock where
  "BRMerkleBlockNew = \<lparr>mb_blockHash = 0, mb_powHash = 0, mb_version = 0, mb_prevBlock = 0, mb_merkleRoot = 0,
     mb_timestamp = 0, mb_target = 0, mb_nonce = 0, mb_totalTx = 0, mb_hashes = None, mb_hashesCount = 0,
     mb_flags = None, mb_flagsLen = 0, mb_height = BLOCK_UNKNOWN_HEIGHT\<rparr>"

text \<open>\<open>_ceil_log2(int x)\<close>: the argument is converted from \<open>uint32_t\<close>, and for a negative one the
  arithmetic shift never reaches zero.\<close>

fun log2_loop :: "nat \<Rightarrow> nat \<Rightarrow> nat" where
  "log2_loop x r = (if x div 2 \<noteq> 0 then log2_loop (x div 2) (r + 1) else r)"

declare log2_loop.simps [simp del]

definition ceil_log2 :: "u32 \<Rightarrow> nat option" where
  "ceil_log2 x = (if sint x < 0 then None
     else Some (log2_loop (unat x) (if x AND (x - 1) \<noteq> 0 then 1 else 0)))"

section \<open>Parsing and serializing\<close>

definition hashes_of :: "u8 list \<Rightarrow> UInt256 list" where
  "hashes_of bs = map (\<lambda>i. UInt256Get (drop (32 * i) bs)) [0..<length bs div 32]"

definition BRMerkleBlockParse :: "u8 list \<Rightarrow> BRMerkleBlock option" where
  "BRMerkleBlockParse buf =
     (if 80 \<le> length buf
      then
        let block = BRMerkleBlockNew\<lparr>mb_version := UInt32GetLE buf, mb_prevBlock := UInt256Get (drop 4 buf),
              mb_merkleRoot := UInt256Get (drop 36 buf), mb_timestamp := UInt32GetLE (drop 68 buf),
              mb_target := UInt32GetLE (drop 72 buf), mb_nonce := UInt32GetLE (drop 76 buf)\<rparr>;
            off = 80;
            block = (if sz_add off 4 \<le> length buf
              then
                let totalTx = UInt32GetLE (drop off buf); off = sz_add off 4;
                    (v, len) = BRVarInt (drop off buf); hashesCount = unat v; off = sz_add off len;
                    len = sz (hashesCount * 32);
                    hashes = map_option hashes_of (alloc_copy off len buf); off = sz_add off len;
                    (v, len) = BRVarInt (drop off buf); flagsLen = unat v; off = sz_add off len;
                    flags = alloc_copy off flagsLen buf
                in block\<lparr>mb_totalTx := totalTx, mb_hashesCount := hashesCount, mb_hashes := hashes,
                     mb_flagsLen := flagsLen, mb_flags := flags\<rparr>
              else block);
            hdr = take 80 buf
        in Some (block\<lparr>mb_blockHash := UInt256Get (BRSHA256_2 hdr),
             mb_powHash := UInt256Get (BRScrypt 32 hdr hdr 1024 1 1)\<rparr>)
      else None)"

definition block_header :: "BRMerkleBlock \<Rightarrow> u8 list" where
  "block_header block = UInt32SetLE (mb_version block) @ UInt256Set (mb_prevBlock block) @
     UInt256Set (mb_merkleRoot block) @ UInt32SetLE (mb_timestamp block) @ UInt32SetLE (mb_target block) @
     UInt32SetLE (mb_nonce block)"

text \<open>\<open>if (p) memcpy(&buf[off], p, n)\<close>: with \<open>NULL\<close> the bytes stay as they were, and a copy of more than is
  allocated at \<open>p\<close> is undefined.\<close>

definition copy_opt :: "u8 list \<Rightarrow> nat \<Rightarrow> nat \<Rightarrow> u8 list option \<Rightarrow> u8 list option" where
  "copy_opt d off n p = (case p of None \<Rightarrow> Some d
     | Some bs \<Rightarrow> if n \<le> length bs then Some (memcpy_at d off (take n bs)) else None)"

definition BRMerkleBlockSerialize :: "BRMerkleBlock \<Rightarrow> wbuf \<Rightarrow> (size_t \<times> wbuf) option" where
  "BRMerkleBlockSerialize block buf =
     (let hc = word_of_nat (mb_hashesCount block) :: u64; hlen = sz (mb_hashesCount block * 32);
          fl = word_of_nat (mb_flagsLen block) :: u64;
          len = (if mb_totalTx block > 0
                 then sz (80 + 4 + BRVarIntSize hc + hlen + BRVarIntSize fl + mb_flagsLen block) else 80) in
      case buf of
        None \<Rightarrow> Some (len, None)
      | Some d \<Rightarrow>
          if len \<le> length d
          then do {
            let d = memcpy_at d 0 (block_header block);
            if mb_totalTx block > 0
            then do {
              let d = memcpy_at d 80 (UInt32SetLE (mb_totalTx block));
              let (n, b) = at_off 84 (BRVarIntSet hc) (Some d);
              let off = 84 + n;
              d \<leftarrow> copy_opt (case b of None \<Rightarrow> [] | Some d \<Rightarrow> d) off hlen
                     (map_option (\<lambda>hs. concat (map UInt256Set hs)) (mb_hashes block));
              let off = off + hlen;
              let (n, b) = at_off off (BRVarIntSet fl) (Some d);
              let off = off + n;
              d \<leftarrow> copy_opt (case b of None \<Rightarrow> [] | Some d \<Rightarrow> d) off (mb_flagsLen block) (mb_flags block);
              Some (len, Some d) }
            else Some (len, Some d) }
          else Some (0, Some d))"

definition BRMerkleBlockSetTxHashes :: "BRMerkleBlock \<Rightarrow> UInt256 list \<Rightarrow> u8 list \<Rightarrow> BRMerkleBlock" where
  "BRMerkleBlockSetTxHashes block hashes flags =
     block\<lparr>mb_hashes := (if length hashes > 0 then Some hashes else None),
           mb_flags := (if length flags > 0 then Some flags else None)\<rparr>"

section \<open>Walking the partial merkle tree\<close>

definition get_flag :: "BRMerkleBlock \<Rightarrow> size_t \<Rightarrow> bool option" where
  "get_flag block flagIdx = (case mb_flags block of None \<Rightarrow> None
     | Some f \<Rightarrow> if flagIdx div 8 < length f then Some (bit (f ! (flagIdx div 8)) (flagIdx mod 8)) else None)"

definition get_hash :: "BRMerkleBlock \<Rightarrow> size_t \<Rightarrow> UInt256 option" where
  "get_hash block i = (case mb_hashes block of None \<Rightarrow> None | Some hs \<Rightarrow> if i < length hs then Some (hs ! i) else None)"

text \<open>\<open>cap\<close> is \<open>None\<close> for \<open>txHashes == NULL\<close>, else the size of the array; the state is \<open>idx\<close>, what was
  written to the array, \<open>hashIdx\<close> and \<open>flagIdx\<close>.\<close>

type_synonym walk = "nat \<times> UInt256 list \<times> size_t \<times> size_t"

fun tx_hashes_r :: "BRMerkleBlock \<Rightarrow> size_t option \<Rightarrow> nat \<Rightarrow> walk \<Rightarrow> walk option" where
  "tx_hashes_r block cap h (idx, out, hashIdx, flagIdx) =
     (if flagIdx div 8 < mb_flagsLen block \<and> hashIdx < mb_hashesCount block
      then do {
        flag \<leftarrow> get_flag block flagIdx;
        let flagIdx = flagIdx + 1;
        case h of
          0 \<Rightarrow>
            if flag \<and> idx < (case cap of None \<Rightarrow> SIZE_MAX | Some c \<Rightarrow> c)
            then (if cap = None then Some (idx + 1, out, hashIdx + 1, flagIdx)
                  else do { x \<leftarrow> get_hash block hashIdx; Some (idx + 1, out @ [x], hashIdx + 1, flagIdx) })
            else Some (idx, out, hashIdx + 1, flagIdx)
        | Suc h' \<Rightarrow>
            if \<not> flag then Some (idx, out, hashIdx + 1, flagIdx)
            else do {
              s \<leftarrow> tx_hashes_r block cap h' (idx, out, hashIdx, flagIdx);
              tx_hashes_r block cap h' s } }
      else Some (idx, out, hashIdx, flagIdx))"

text \<open>A walk from the root. The height is only computed behind a flag that is set.\<close>

definition from_root :: "BRMerkleBlock \<Rightarrow> (nat \<Rightarrow> 'a option) \<Rightarrow> 'a option" where
  "from_root block f = (case ceil_log2 (mb_totalTx block) of
       Some h \<Rightarrow> f h
     | None \<Rightarrow> if 0 < mb_flagsLen block \<and> 0 < mb_hashesCount block \<and> get_flag block 0 \<noteq> Some False then None else f 0)"

definition BRMerkleBlockTxHashes :: "BRMerkleBlock \<Rightarrow> size_t option \<Rightarrow> (size_t \<times> UInt256 list) option" where
  "BRMerkleBlockTxHashes block cap =
     do { (idx, out, _) \<leftarrow> from_root block (\<lambda>h. tx_hashes_r block cap h (0, [], 0, 0)); Some (idx, out) }"

fun root_r :: "BRMerkleBlock \<Rightarrow> nat \<Rightarrow> size_t \<times> size_t \<Rightarrow> (UInt256 \<times> size_t \<times> size_t) option" where
  "root_r block h (hashIdx, flagIdx) =
     (if flagIdx div 8 < mb_flagsLen block \<and> hashIdx < mb_hashesCount block
      then do {
        flag \<leftarrow> get_flag block flagIdx;
        let flagIdx = flagIdx + 1;
        case h of
          0 \<Rightarrow> do { md \<leftarrow> get_hash block hashIdx; Some (md, hashIdx + 1, flagIdx) }
        | Suc h' \<Rightarrow>
            if flag
            then do {
              (left, s) \<leftarrow> root_r block h' (hashIdx, flagIdx);
              (right, hashIdx, flagIdx) \<leftarrow> root_r block h' s;
              if \<not> UInt256IsZero left \<and> \<not> UInt256Eq left right
              then let right = (if UInt256IsZero right then left else right) in
                Some (UInt256Get (BRSHA256_2 (UInt256Set left @ UInt256Set right)), hashIdx, flagIdx)
              else Some (UINT256_ZERO, SIZE_MAX, flagIdx) }
            else do { md \<leftarrow> get_hash block hashIdx; Some (md, hashIdx + 1, flagIdx) } }
      else Some (UINT256_ZERO, hashIdx, flagIdx))"

section \<open>Validity\<close>

text \<open>The loop that compares the proof of work with the target, from the most significant byte \<open>i - 1\<close>.\<close>

fun pow_loop :: "UInt256 \<Rightarrow> u8 list \<Rightarrow> nat \<Rightarrow> bool" where
  "pow_loop powHash t 0 = True"
| "pow_loop powHash t (Suc i) =
     (if u8_of powHash i < t ! i then True else if u8_of powHash i > t ! i then False else pow_loop powHash t i)"

definition BRMerkleBlockIsValid :: "BRMerkleBlock \<Rightarrow> u32 \<Rightarrow> bool option" where
  "BRMerkleBlockIsValid block currentTime =
     do {
       let maxsize = drop_bit 24 MAX_PROOF_OF_WORK;
       let maxtarget = MAX_PROOF_OF_WORK AND 0x00ffffff;
       let size = drop_bit 24 (mb_target block);
       let target = mb_target block AND 0x00ffffff;
       (merkleRoot, _) \<leftarrow> from_root block (\<lambda>h. root_r block h (0, 0));
       let r = \<not> (mb_totalTx block > 0 \<and> \<not> UInt256Eq merkleRoot (mb_merkleRoot block));
       let r = (r \<and> \<not> mb_timestamp block > currentTime + BLOCK_MAX_TIME_DRIFT);
       let r = (r \<and> \<not> (target = 0 \<or> target AND 0x00800000 \<noteq> 0 \<or> size > maxsize \<or> size = maxsize \<and> target > maxtarget));
       t \<leftarrow> (if size > 3
             then (if unat size - 3 + 4 \<le> 32
                   then Some (memcpy_at (replicate 32 0) (unat size - 3) (UInt32SetLE target)) else None)
             else Some (memcpy_at (replicate 32 0) 0 (UInt32SetLE (drop_bit ((3 - unat size) * 8) target))));
       Some (r \<and> pow_loop (mb_powHash block) t 32)
     }"

function contains_loop :: "BRMerkleBlock \<Rightarrow> UInt256 \<Rightarrow> nat \<Rightarrow> bool option" where
  "contains_loop block txHash i =
     (if i < mb_hashesCount block
      then do { h \<leftarrow> get_hash block i; if UInt256Eq h txHash then Some True else contains_loop block txHash (i + 1) }
      else Some False)"
  by auto
termination by (relation "measure (\<lambda>(block, txHash, i). mb_hashesCount block - i)") auto

declare contains_loop.simps [simp del]

definition BRMerkleBlockContainsTxHash :: "BRMerkleBlock \<Rightarrow> UInt256 \<Rightarrow> bool option" where
  "BRMerkleBlockContainsTxHash block txHash = contains_loop block txHash 0"

definition BRMerkleBlockVerifyDifficulty :: "BRMerkleBlock \<Rightarrow> BRMerkleBlock option \<Rightarrow> u32 \<Rightarrow> bool" where
  "BRMerkleBlockVerifyDifficulty block previous transitionTime =
     (let r = (case previous of None \<Rightarrow> False
          | Some p \<Rightarrow> UInt256Eq (mb_prevBlock block) (mb_blockHash p) \<and> mb_height block = mb_height p + 1)
      in r \<and> \<not> (mb_height block mod BLOCK_DIFFICULTY_INTERVAL = 0 \<and> transitionTime = 0))"

definition BRMerkleBlockHash :: "BRMerkleBlock \<Rightarrow> size_t" where
  "BRMerkleBlockHash block = unat (u32_of (mb_blockHash block) 0)"

definition BRMerkleBlockEq :: "BRMerkleBlock \<Rightarrow> BRMerkleBlock \<Rightarrow> bool" where
  "BRMerkleBlockEq block otherBlock \<longleftrightarrow> UInt256Eq (mb_blockHash block) (mb_blockHash otherBlock)"

declare tx_hashes_r.simps [simp del] root_r.simps [simp del]

end
