(* ===== verification/MerkleLaws.thy ===== *)
theory MerkleLaws
  imports MerkleBlock
begin

text \<open>
  Properties of \<^verbatim>\<open>Libraries/loafwallet-core/BRMerkleBlock.c\<close>: the walks over the flat flags and hashes compute
  the root and the matched transactions of the partial merkle tree they encode, the proof-of-work test
  compares with the number that the compact target stands for, and blocks survive serializing and parsing.
\<close>

section \<open>The height of the tree\<close>

lemma log2_loop_all: "0 < x \<Longrightarrow> \<exists>k. (\<forall>r. log2_loop x r = r + k) \<and> 2 ^ k \<le> x \<and> x < 2 ^ Suc k"
proof (induction x rule: less_induct)
  case (less x)
  show ?case
  proof (cases "x div 2 = 0")
    case True
    then have "x = 1" using less.prems by linarith
    then have "log2_loop x r = r + 0" for r by (simp add: log2_loop.simps [of "Suc 0"])
    then show ?thesis using \<open>x = 1\<close> by (intro exI [of _ 0]) simp
  next
    case False
    then obtain k where k: "\<forall>r. log2_loop (x div 2) r = r + k" "2 ^ k \<le> x div 2" "x div 2 < 2 ^ Suc k"
      using less.IH [of "x div 2"] less.prems by auto
    have "log2_loop x r = r + Suc k" for r using False k(1) by (simp add: log2_loop.simps [of x])
    moreover have "2 ^ Suc k \<le> x" "x < 2 ^ Suc (Suc k)" using k(2,3) by simp_all
    ultimately show ?thesis by blast
  qed
qed

lemma bit_nat_range: "2 ^ k \<le> n \<Longrightarrow> n < 2 ^ Suc k \<Longrightarrow> bit (n :: nat) k"
proof -
  assume "2 ^ k \<le> n" "n < 2 ^ Suc k"
  then have "n div 2 ^ k = 1" by (intro div_nat_eqI) simp_all
  then show ?thesis by (simp add: bit_iff_odd)
qed

lemma power_and_pred: "(2 ^ k AND (2 ^ k - 1) :: nat) = 0"
proof -
  have "(2 ^ k - 1 :: nat) = mask k" by (simp add: mask_eq_exp_minus_1)
  then show ?thesis by (simp only: take_bit_eq_mask [symmetric]) (simp add: take_bit_eq_mod)
qed

lemma unat_and_pred: "x \<noteq> 0 \<Longrightarrow> unat (x AND (x - 1)) = unat x AND (unat x - 1)"
  for x :: "'a::len word"
  by (simp add: unsigned_and_eq unat_minus_one)

lemma ceil_log2_bounds:
  assumes "0 < x" "x < 2 ^ 31"
  shows "\<exists>h. ceil_log2 x = Some h \<and> unat x \<le> 2 ^ h \<and> (h = 0 \<or> 2 ^ (h - 1) < unat x)"
proof -
  have x: "0 < unat x" "unat x < 2 ^ 31" using assms by (simp_all add: word_less_nat_alt unat_gt_0)
  have "\<not> bit (unat x) 31" using x(2) by (simp add: bit_iff_odd)
  then have "\<not> bit (uint x) 31" by (simp add: bit_unsigned_iff)
  then have s: "\<not> sint x < 0" by (simp add: sint_uint signed_take_bit_eq_if_positive)
  obtain k where k: "\<forall>r. log2_loop (unat x) r = r + k" "2 ^ k \<le> unat x" "unat x < 2 ^ Suc k"
    using log2_loop_all [OF x(1)] by blast
  have nz: "x \<noteq> 0" using x(1) by auto
  have a: "x AND (x - 1) = 0 \<longleftrightarrow> unat x AND (unat x - 1) = 0"
    using unat_and_pred [OF nz] by (metis unat_eq_zero)
  show ?thesis
  proof (cases "unat x = 2 ^ k")
    case True
    then have "x AND (x - 1) = 0" using a power_and_pred by simp
    then show ?thesis using s k True by (cases k) (simp_all add: ceil_log2_def)
  next
    case False
    then have "2 ^ k \<le> unat x - 1" "unat x - 1 < 2 ^ Suc k" using k by linarith+
    then have "bit (unat x AND (unat x - 1)) k" using bit_nat_range k(2,3) by (simp add: bit_and_iff)
    then have "x AND (x - 1) \<noteq> 0" using a by auto
    then show ?thesis using s k False by (simp add: ceil_log2_def)
  qed
qed

section \<open>The partial merkle tree\<close>

text \<open>The tree that is encoded: a node whose subtree has no match is pruned to its hash, and the right
  child of a node may be missing, in which case the hash of the left one stands for both.\<close>

datatype pmt = Pruned UInt256 | Matched UInt256 | Branch pmt pmt | Half pmt

definition node_hash :: "UInt256 \<Rightarrow> UInt256 \<Rightarrow> UInt256" where
  "node_hash l r = UInt256Get (BRSHA256_2 (UInt256Set l @ UInt256Set r))"

fun pmt_root :: "pmt \<Rightarrow> UInt256" where
  "pmt_root (Pruned x) = x"
| "pmt_root (Matched x) = x"
| "pmt_root (Branch l r) = node_hash (pmt_root l) (pmt_root r)"
| "pmt_root (Half l) = node_hash (pmt_root l) (pmt_root l)"

fun pmt_bits :: "pmt \<Rightarrow> bool list" where
  "pmt_bits (Pruned x) = [False]"
| "pmt_bits (Matched x) = [True]"
| "pmt_bits (Branch l r) = True # pmt_bits l @ pmt_bits r"
| "pmt_bits (Half l) = True # pmt_bits l"

fun pmt_hashes :: "pmt \<Rightarrow> UInt256 list" where
  "pmt_hashes (Pruned x) = [x]"
| "pmt_hashes (Matched x) = [x]"
| "pmt_hashes (Branch l r) = pmt_hashes l @ pmt_hashes r"
| "pmt_hashes (Half l) = pmt_hashes l"

fun pmt_matched :: "pmt \<Rightarrow> UInt256 list" where
  "pmt_matched (Pruned x) = []"
| "pmt_matched (Matched x) = [x]"
| "pmt_matched (Branch l r) = pmt_matched l @ pmt_matched r"
| "pmt_matched (Half l) = pmt_matched l"

text \<open>A tree of height \<open>h\<close>: matches are leaves, only the last node of a row may lack its sibling, and no
  node has two equal children (CVE-2012-2459) or a zero one.\<close>

fun pmt_ok :: "nat \<Rightarrow> bool \<Rightarrow> pmt \<Rightarrow> bool" where
  "pmt_ok h fin (Pruned x) \<longleftrightarrow> True"
| "pmt_ok h fin (Matched x) \<longleftrightarrow> h = 0"
| "pmt_ok (Suc h) fin (Branch l r) \<longleftrightarrow> pmt_ok h False l \<and> pmt_ok h fin r \<and>
     pmt_root l \<noteq> 0 \<and> pmt_root r \<noteq> 0 \<and> pmt_root l \<noteq> pmt_root r"
| "pmt_ok (Suc h) fin (Half l) \<longleftrightarrow> fin \<and> pmt_ok h True l \<and> pmt_root l \<noteq> 0"
| "pmt_ok 0 fin _ \<longleftrightarrow> False"

lemma pmt_nonempty: "pmt_bits t \<noteq> []" "pmt_hashes t \<noteq> []"
  by (induction t) auto

text \<open>\<open>g\<close> reads the list \<open>xs\<close> from position \<open>p\<close> on.\<close>

definition reads :: "(nat \<Rightarrow> 'a option) \<Rightarrow> nat \<Rightarrow> 'a list \<Rightarrow> bool" where
  "reads g p xs \<longleftrightarrow> (\<forall>j<length xs. g (p + j) = Some (xs ! j))"

lemma reads_append: "reads g p (xs @ ys) \<longleftrightarrow> reads g p xs \<and> reads g (p + length xs) ys"
proof
  assume a: "reads g p (xs @ ys)"
  have "g (p + j) = Some (xs ! j)" if "j < length xs" for j
    using a [unfolded reads_def, rule_format, of j] that by (simp add: nth_append)
  moreover have "g (p + length xs + j) = Some (ys ! j)" if "j < length ys" for j
    using a [unfolded reads_def, rule_format, of "length xs + j"] that by (simp add: nth_append add.assoc)
  ultimately show "reads g p xs \<and> reads g (p + length xs) ys" by (simp add: reads_def)
next
  assume a: "reads g p xs \<and> reads g (p + length xs) ys"
  show "reads g p (xs @ ys)"
    unfolding reads_def
  proof (intro allI impI)
    fix j assume j: "j < length (xs @ ys)"
    show "g (p + j) = Some ((xs @ ys) ! j)"
    proof (cases "j < length xs")
      case True
      then show ?thesis using a by (simp add: reads_def nth_append)
    next
      case False
      have i: "j - length xs < length ys" "p + length xs + (j - length xs) = p + j" using False j by simp_all
      then have "g (p + j) = Some (ys ! (j - length xs))"
        using conjunct2 [OF a, unfolded reads_def, rule_format, OF i(1)] by (simp only:)
      then show ?thesis using False by (simp add: nth_append)
    qed
  qed
qed

lemma reads_Cons: "reads g p (x # xs) \<longleftrightarrow> g p = Some x \<and> reads g (p + 1) xs"
  using reads_append [of g p "[x]" xs] by (simp add: reads_def)

lemma reads_Nil: "reads g p []"
  by (simp add: reads_def)

text \<open>The tree is stored in the block from the given positions on.\<close>

definition stored :: "BRMerkleBlock \<Rightarrow> pmt \<Rightarrow> nat \<Rightarrow> nat \<Rightarrow> bool \<Rightarrow> bool" where
  "stored b t hi fi fin \<longleftrightarrow> reads (get_hash b) hi (pmt_hashes t) \<and> reads (get_flag b) fi (pmt_bits t) \<and>
     hi + length (pmt_hashes t) \<le> mb_hashesCount b \<and> fi + length (pmt_bits t) \<le> 8 * mb_flagsLen b \<and>
     (fin \<longrightarrow> hi + length (pmt_hashes t) = mb_hashesCount b)"

lemma stored_guard: "stored b t hi fi fin \<Longrightarrow> fi div 8 < mb_flagsLen b \<and> hi < mb_hashesCount b"
proof -
  assume "stored b t hi fi fin"
  then have "hi + length (pmt_hashes t) \<le> mb_hashesCount b" "fi + length (pmt_bits t) \<le> 8 * mb_flagsLen b"
    by (simp_all add: stored_def)
  moreover have "0 < length (pmt_bits t)" "0 < length (pmt_hashes t)"
    using pmt_nonempty by (simp_all add: length_greater_0_conv)
  ultimately have "fi < 8 * mb_flagsLen b" "hi < mb_hashesCount b" by linarith+
  then show ?thesis by (simp add: div_less_iff_less_mult mult.commute)
qed

lemma stored_flag: "stored b t hi fi fin \<Longrightarrow> get_flag b fi = Some (hd (pmt_bits t))"
  by (cases t) (simp_all add: stored_def reads_Cons)

lemma stored_Branch: "stored b (Branch l r) hi fi fin \<Longrightarrow>
    stored b l hi (fi + 1) False \<and> stored b r (hi + length (pmt_hashes l)) (fi + 1 + length (pmt_bits l)) fin"
  by (auto simp: stored_def reads_append reads_Cons)

lemma stored_Half: "stored b (Half l) hi fi fin \<Longrightarrow> stored b l hi (fi + 1) fin"
  by (auto simp: stored_def reads_Cons)

lemma stored_leaf: "stored b t hi fi fin \<Longrightarrow> t = Pruned x \<or> t = Matched x \<Longrightarrow> get_hash b hi = Some x"
  by (auto simp: stored_def reads_Cons)

lemma root_r_leaf:
  assumes "stored b t hi fi fin" "t = Pruned x \<or> t = Matched x" "pmt_ok h fin t"
  shows "root_r b h (hi, fi) = Some (x, hi + 1, fi + 1)"
  using stored_guard [OF assms(1)] stored_flag [OF assms(1)] stored_leaf [OF assms(1,2)] assms(2,3)
  by (subst root_r.simps) (auto split: nat.splits)

lemma root_r_spec:
  "pmt_ok h fin t \<Longrightarrow> stored b t hi fi fin \<Longrightarrow>
   root_r b h (hi, fi) = Some (pmt_root t, hi + length (pmt_hashes t), fi + length (pmt_bits t))"
proof (induction h fin t arbitrary: hi fi rule: pmt_ok.induct)
  case (1 h fin x)
  then show ?case using root_r_leaf [OF "1.prems"(2) _ "1.prems"(1)] by simp
next
  case (2 h fin x)
  then show ?case using root_r_leaf [OF "2.prems"(2) _ "2.prems"(1)] by simp
next
  case (3 h fin l r)
  note s = stored_Branch [OF "3.prems"(2)]
  have l: "root_r b h (hi, Suc fi) = Some (pmt_root l, hi + length (pmt_hashes l), fi + 1 + length (pmt_bits l))"
    using "3.IH"(1) [of hi "fi + 1"] s "3.prems"(1) by simp
  have r: "root_r b h (hi + length (pmt_hashes l), fi + 1 + length (pmt_bits l)) =
      Some (pmt_root r, hi + length (pmt_hashes l) + length (pmt_hashes r), fi + 1 + length (pmt_bits l) + length (pmt_bits r))"
    using "3.IH"(2) [of "hi + length (pmt_hashes l)" "fi + 1 + length (pmt_bits l)"] s "3.prems"(1) by simp
  show ?case
    using stored_guard [OF "3.prems"(2)] stored_flag [OF "3.prems"(2)] "3.prems"(1) l r
    by (subst root_r.simps) (simp add: node_hash_def Let_def add.assoc)
next
  case (4 h fin l)
  note s = stored_Half [OF "4.prems"(2)]
  have t: "fin" "pmt_ok h True l" "pmt_root l \<noteq> 0" using "4.prems"(1) by simp_all
  have l: "root_r b h (hi, Suc fi) = Some (pmt_root l, hi + length (pmt_hashes l), fi + 1 + length (pmt_bits l))"
    using "4.IH" [of hi "fi + 1"] s t by simp
  have "hi + length (pmt_hashes l) = mb_hashesCount b" using s t(1) by (simp add: stored_def)
  then have r: "root_r b h (hi + length (pmt_hashes l), fi + 1 + length (pmt_bits l)) =
      Some (UINT256_ZERO, hi + length (pmt_hashes l), fi + 1 + length (pmt_bits l))"
    by (subst root_r.simps) simp
  show ?case
    using stored_guard [OF "4.prems"(2)] stored_flag [OF "4.prems"(2)] t l r
    by (subst root_r.simps) (simp add: node_hash_def Let_def UINT256_ZERO_def)
qed simp_all

text \<open>What the other walk writes: as much of the matches as the array has room for.\<close>

definition fits_in :: "size_t option \<Rightarrow> nat \<Rightarrow> nat \<Rightarrow> nat" where
  "fits_in cap idx n = min n ((case cap of None \<Rightarrow> SIZE_MAX | Some c \<Rightarrow> c) - idx)"

definition written :: "size_t option \<Rightarrow> nat \<Rightarrow> UInt256 list \<Rightarrow> UInt256 list" where
  "written cap idx xs = (if cap = None then [] else take (fits_in cap idx (length xs)) xs)"

lemma fits_in_add: "fits_in cap idx m + fits_in cap (idx + fits_in cap idx m) n = fits_in cap idx (m + n)"
  by (simp add: fits_in_def split: option.splits)

lemma take_eq_take_min: "take (min n (length xs)) xs = take n xs"
  by (cases "n \<le> length xs") simp_all

lemma written_append: "written cap idx (xs @ ys) =
    written cap idx xs @ written cap (idx + fits_in cap idx (length xs)) ys"
proof (cases cap)
  case (Some c)
  then have e: "written cap k zs = take (c - k) zs" for k and zs
    by (simp add: written_def fits_in_def min.commute [of "length zs"] take_eq_take_min)
  show ?thesis
    using Some unfolding e by (cases "c - idx \<le> length xs") (simp_all add: fits_in_def)
qed (simp add: written_def)

lemma tx_hashes_leaf:
  assumes "stored b t hi fi fin" "t = Pruned x \<or> t = Matched x" "pmt_ok h fin t"
  shows "tx_hashes_r b cap h (idx, out, hi, fi) =
    Some (idx + fits_in cap idx (length (pmt_matched t)), out @ written cap idx (pmt_matched t), hi + 1, fi + 1)"
  using stored_guard [OF assms(1)] stored_flag [OF assms(1)] stored_leaf [OF assms(1,2)] assms(2,3)
  by (subst tx_hashes_r.simps) (auto simp: fits_in_def written_def split: nat.splits option.splits)

lemma tx_hashes_spec:
  "pmt_ok h fin t \<Longrightarrow> stored b t hi fi fin \<Longrightarrow>
   tx_hashes_r b cap h (idx, out, hi, fi) =
     Some (idx + fits_in cap idx (length (pmt_matched t)), out @ written cap idx (pmt_matched t),
       hi + length (pmt_hashes t), fi + length (pmt_bits t))"
proof (induction h fin t arbitrary: idx out hi fi rule: pmt_ok.induct)
  case (1 h fin x)
  then show ?case using tx_hashes_leaf [OF "1.prems"(2) _ "1.prems"(1)] by simp
next
  case (2 h fin x)
  then show ?case using tx_hashes_leaf [OF "2.prems"(2) _ "2.prems"(1)] by simp
next
  case (3 h fin l r)
  note s = stored_Branch [OF "3.prems"(2)]
  let ?i = "idx + fits_in cap idx (length (pmt_matched l))"
  have l: "tx_hashes_r b cap h (idx, out, hi, Suc fi) =
      Some (?i, out @ written cap idx (pmt_matched l), hi + length (pmt_hashes l), fi + 1 + length (pmt_bits l))"
    using "3.IH"(1) [of hi "fi + 1" idx out] s "3.prems"(1) by simp
  have r: "tx_hashes_r b cap h (?i, out', hi + length (pmt_hashes l), fi + 1 + length (pmt_bits l)) =
      Some (?i + fits_in cap ?i (length (pmt_matched r)), out' @ written cap ?i (pmt_matched r),
        hi + length (pmt_hashes l) + length (pmt_hashes r), fi + 1 + length (pmt_bits l) + length (pmt_bits r))" for out'
    using "3.IH"(2) [of "hi + length (pmt_hashes l)" "fi + 1 + length (pmt_bits l)" ?i out'] s "3.prems"(1) by simp
  show ?case
    using stored_guard [OF "3.prems"(2)] stored_flag [OF "3.prems"(2)] l r
      fits_in_add [of cap idx "length (pmt_matched l)" "length (pmt_matched r)"]
    by (subst tx_hashes_r.simps) (simp add: written_append add.assoc)
next
  case (4 h fin l)
  note s = stored_Half [OF "4.prems"(2)]
  have t: "fin" "pmt_ok h True l" using "4.prems"(1) by simp_all
  let ?i = "idx + fits_in cap idx (length (pmt_matched l))"
  have l: "tx_hashes_r b cap h (idx, out, hi, Suc fi) =
      Some (?i, out @ written cap idx (pmt_matched l), hi + length (pmt_hashes l), fi + 1 + length (pmt_bits l))"
    using "4.IH" [of hi "fi + 1" idx out] s t by simp
  have "hi + length (pmt_hashes l) = mb_hashesCount b" using s t(1) by (simp add: stored_def)
  then have r: "tx_hashes_r b cap h (i, out', hi + length (pmt_hashes l), f) = Some (i, out', hi + length (pmt_hashes l), f)"
    for i out' f by (subst tx_hashes_r.simps) simp
  show ?case
    using stored_guard [OF "4.prems"(2)] stored_flag [OF "4.prems"(2)] l r
    by (subst tx_hashes_r.simps) simp
qed simp_all

section \<open>The proof of work\<close>

fun le_val :: "u8 list \<Rightarrow> nat" where
  "le_val [] = 0"
| "le_val (b # bs) = unat b + 256 * le_val bs"

lemma le_val_append: "le_val (xs @ ys) = le_val xs + 256 ^ length xs * le_val ys"
  by (induction xs) (simp_all add: algebra_simps)

lemma le_val_zeros [simp]: "le_val (replicate n 0) = 0"
  by (induction n) simp_all

lemma unat_drop_bit_div: "unat (drop_bit k w) = unat w div 2 ^ k" for w :: "'a::len word"
proof -
  have "unat (drop_bit k w) = drop_bit k (unat w)"
    using take_bit_nat_eq_self [OF unsigned_less [of w, where 'a = nat]] by (simp add: unsigned_drop_bit_eq)
  then show ?thesis by (simp only: drop_bit_eq_div [of k "unat w"])
qed

lemma unat_byte_of: "unat (ucast (drop_bit k w) :: u8) = unat w div 2 ^ k mod 256" for w :: "'a::len word"
proof -
  show ?thesis using unat_drop_bit_div [of k w] by (simp only: unsigned_ucast_eq take_bit_eq_mod) simp
qed

lemma le_val_le_bytes: "le_val (le_bytes n w) = unat w mod 256 ^ n" for w :: "'a::len word"
proof (induction n)
  case (Suc n)
  have "le_bytes (Suc n) w = le_bytes n w @ [ucast (drop_bit (8 * n) w)]" by (simp add: le_bytes_def)
  moreover have "(2 :: nat) ^ (8 * n) = 256 ^ n" by (simp add: power_mult)
  ultimately have "le_val (le_bytes (Suc n) w) = unat w mod 256 ^ n + 256 ^ n * (unat w div 256 ^ n mod 256)"
    using Suc by (simp add: le_val_append unat_byte_of)
  then show ?case unfolding power_Suc2 mod_mult2_eq by simp
qed (simp add: le_bytes_def)

lemma le_val_Set: "le_val (UInt256Set u) = unat u" "le_val (UInt32SetLE x) = unat x"
proof -
  have "unat u < 256 ^ 32" "unat x < 256 ^ 4" using unsigned_less [of u] unsigned_less [of x] by simp_all
  then show "le_val (UInt256Set u) = unat u" "le_val (UInt32SetLE x) = unat x"
    by (simp_all add: UInt256Set_le UInt32SetLE_le le_val_le_bytes)
qed

lemma le_val_take_less: "le_val (take i xs) < 256 ^ i"
proof (induction i arbitrary: xs)
  case (Suc i)
  show ?case
  proof (cases xs)
    case (Cons b bs)
    have "unat b < 256" using unsigned_less [of b] by simp
    then show ?thesis using Suc [of bs] Cons by simp
  qed simp
qed simp

lemma le_val_take_Suc: "i < length xs \<Longrightarrow> le_val (take (Suc i) xs) = le_val (take i xs) + 256 ^ i * unat (xs ! i)"
  by (simp add: take_Suc_conv_app_nth le_val_append)

lemma digit_le:
  assumes "a < b" "x < (m :: nat)"
  shows "x + m * a \<le> y + m * b"
proof -
  have "m * Suc a \<le> m * b" using assms(1) by (intro mult_left_mono) simp_all
  then show ?thesis using assms(2) by simp
qed

lemma pow_loop_spec:
  "i \<le> 32 \<Longrightarrow> length t = 32 \<Longrightarrow> pow_loop p t i \<longleftrightarrow> le_val (take i (UInt256Set p)) \<le> le_val (take i t)"
proof (induction i)
  case (Suc i)
  let ?P = "UInt256Set p"
  have u: "u8_of p i = ?P ! i" using Suc.prems by (simp add: nth_UInt256Set)
  have s: "le_val (take (Suc i) ?P) = le_val (take i ?P) + 256 ^ i * unat (?P ! i)"
    "le_val (take (Suc i) t) = le_val (take i t) + 256 ^ i * unat (t ! i)"
    using Suc.prems by (intro le_val_take_Suc; simp)+
  have b: "le_val (take i ?P) < 256 ^ i" "le_val (take i t) < 256 ^ i" by (rule le_val_take_less)+
  consider "?P ! i < t ! i" | "?P ! i = t ! i" | "t ! i < ?P ! i" by fastforce
  then show ?case
  proof cases
    case 1
    then show ?thesis using u s digit_le [OF _ b(1), of "unat (?P ! i)" "unat (t ! i)"] by (simp add: word_less_nat_alt)
  next
    case 2
    then show ?thesis using u s Suc by simp
  next
    case 3
    then have "unat (t ! i) < unat (?P ! i)" by (simp add: word_less_nat_alt)
    then have "256 ^ i * Suc (unat (t ! i)) \<le> 256 ^ i * unat (?P ! i)" by (intro mult_left_mono) simp_all
    then have "le_val (take i t) + 256 ^ i * unat (t ! i) < le_val (take i ?P) + 256 ^ i * unat (?P ! i)"
      using b(2) by simp
    then show ?thesis using u s 3 by (simp add: order_less_imp_not_less)
  qed
qed simp

text \<open>The number a compact target stands for.\<close>

definition compact_target :: "u32 \<Rightarrow> nat" where
  "compact_target c =
     (let size = unat (drop_bit 24 c); mant = unat (c AND 0x00ffffff) in
      if size > 3 then mant * 256 ^ (size - 3) else mant div 256 ^ (3 - size))"

lemma three_less: "(3 :: u32) < s \<longleftrightarrow> 3 < unat s"
  by (simp add: word_less_nat_alt)

lemma target_value:
  assumes "length bs = 4" "off + 4 \<le> 32"
  shows "le_val (memcpy_at (replicate 32 0) off bs) = 256 ^ off * le_val bs"
    "length (memcpy_at (replicate 32 0) off bs) = 32"
  using assms by (simp_all add: memcpy_at_def le_val_append min_def)

text \<open>The conditions under which a block with the given root is valid.\<close>

definition block_valid :: "BRMerkleBlock \<Rightarrow> u32 \<Rightarrow> UInt256 \<Rightarrow> bool" where
  "block_valid b now root \<longleftrightarrow>
     (mb_totalTx b > 0 \<longrightarrow> root = mb_merkleRoot b) \<and> mb_timestamp b \<le> now + BLOCK_MAX_TIME_DRIFT \<and>
     (let size = drop_bit 24 (mb_target b); mant = mb_target b AND 0x00ffffff in
       mant \<noteq> 0 \<and> mant AND 0x00800000 = 0 \<and> (size < 0x1e \<or> size = 0x1e \<and> mant \<le> 0x0fffff)) \<and>
     unat (mb_powHash b) \<le> compact_target (mb_target b)"

lemma drop_bit_bytes: "unat (drop_bit (n * 8) (w :: u32)) = unat w div 256 ^ n"
proof -
  have "(2 :: nat) ^ (n * 8) = 256 ^ n" by (simp add: power_mult mult.commute [of n])
  then show ?thesis by (simp only: unat_drop_bit_div)
qed

lemma IsValid_spec:
  "BRMerkleBlockIsValid b now =
    (case from_root b (\<lambda>h. root_r b h (0, 0)) of
       None \<Rightarrow> None
     | Some (root, _) \<Rightarrow> if 31 < unat (drop_bit 24 (mb_target b)) then None else Some (block_valid b now root))"
proof (cases "from_root b (\<lambda>h. root_r b h (0, 0))")
  case None
  then show ?thesis by (simp add: BRMerkleBlockIsValid_def)
next
  case (Some r)
  obtain root s where r: "r = (root, s)" by (cases r)
  let ?size = "drop_bit 24 (mb_target b)" and ?mant = "mb_target b AND 0x00ffffff"
  define T where "T = (if 3 < ?size
      then memcpy_at (replicate 32 0) (unat ?size - 3) (UInt32SetLE ?mant)
      else memcpy_at (replicate 32 0) 0 (UInt32SetLE (drop_bit ((3 - unat ?size) * 8) ?mant)))"
  have c: "drop_bit 24 MAX_PROOF_OF_WORK = 0x1e" "MAX_PROOF_OF_WORK AND 0x00ffffff = 0x0fffff"
    by (simp_all add: MAX_PROOF_OF_WORK_def)
  have pow: "pow_loop (mb_powHash b) T 32 \<longleftrightarrow> unat (mb_powHash b) \<le> compact_target (mb_target b)"
    if "unat ?size \<le> 31"
  proof -
    have "length T = 32 \<and> le_val T = compact_target (mb_target b)"
    proof (cases "3 < unat ?size")
      case True
      then show ?thesis
        using that target_value [of "UInt32SetLE ?mant" "unat ?size - 3"]
        by (simp add: T_def three_less compact_target_def Let_def le_val_Set)
    next
      case False
      define m where "m = ?mant"
      show ?thesis
        using False target_value [of "UInt32SetLE (drop_bit ((3 - unat ?size) * 8) m)" 0]
        by (simp add: T_def three_less compact_target_def Let_def le_val_Set m_def [symmetric] drop_bit_bytes)
    qed
    then show ?thesis using pow_loop_spec [of 32 T "mb_powHash b"] by (simp add: le_val_Set)
  qed
  have eq: "(if 3 < ?size
      then (if unat ?size - 3 + 4 \<le> 32
            then Some (memcpy_at (replicate 32 0) (unat ?size - 3) (UInt32SetLE ?mant)) else None)
      else Some (memcpy_at (replicate 32 0) 0 (UInt32SetLE (drop_bit ((3 - unat ?size) * 8) ?mant)))) =
      (if 31 < unat ?size then None else Some T)"
    by (auto simp: T_def three_less)
  show ?thesis
    unfolding BRMerkleBlockIsValid_def Some r Let_def bind.bind_lunit prod.case option.case eq c
    by (cases "31 < unat ?size") (auto simp: pow block_valid_def Let_def not_less not_le)
qed

section \<open>The serialized block\<close>

text \<open>The blocks a parse of well-formed bytes produces: the counts are those of the lists.\<close>

definition wf_block :: "BRMerkleBlock \<Rightarrow> bool" where
  "wf_block b \<longleftrightarrow>
     (if mb_totalTx b > 0
      then (\<exists>hs f. mb_hashes b = Some hs \<and> mb_hashesCount b = length hs \<and> mb_flags b = Some f \<and>
              mb_flagsLen b = length f \<and> length hs < 2 ^ 40 \<and> length f < 2 ^ 40)
      else mb_hashes b = None \<and> mb_hashesCount b = 0 \<and> mb_flags b = None \<and> mb_flagsLen b = 0) \<and>
     mb_height b = BLOCK_UNKNOWN_HEIGHT \<and>
     mb_blockHash b = UInt256Get (BRSHA256_2 (block_header b)) \<and>
     mb_powHash b = UInt256Get (BRScrypt 32 (block_header b) (block_header b) 1024 1 1)"

definition tree_bytes :: "UInt256 list \<Rightarrow> u8 list \<Rightarrow> u8 list" where
  "tree_bytes hs f = varint_bytes (word_of_nat (length hs)) @ concat (map UInt256Set hs) @
     varint_bytes (word_of_nat (length f)) @ f"

definition block_bytes :: "BRMerkleBlock \<Rightarrow> u8 list" where
  "block_bytes b = block_header b @ (if mb_totalTx b > 0 then UInt32SetLE (mb_totalTx b) @
     tree_bytes (case mb_hashes b of None \<Rightarrow> [] | Some hs \<Rightarrow> hs) (case mb_flags b of None \<Rightarrow> [] | Some f \<Rightarrow> f) else [])"

lemma length_hash_bytes [simp]: "length (concat (map UInt256Set hs)) = 32 * length hs"
  by (induction hs) simp_all

lemma length_block_header [simp]: "length (block_header b) = 80"
  by (simp add: block_header_def)

lemma memcpy_over: "length xs = off \<Longrightarrow> length bs \<le> length d \<Longrightarrow>
    memcpy_at (xs @ d) off bs = (xs @ bs) @ drop (length bs) d"
  by (simp add: memcpy_at_append)

lemma varint_over: "length xs = off \<Longrightarrow> length (varint_bytes i) \<le> length d \<Longrightarrow>
    at_off off (BRVarIntSet i) (Some (xs @ d)) = (length (varint_bytes i), Some ((xs @ varint_bytes i) @ drop (length (varint_bytes i)) d))"
  using writes_at_off_Some [OF VarIntSet_writes] by simp

lemma Serialize_tree:
  assumes t: "mb_totalTx b > 0" and s: "mb_hashes b = Some hs" "mb_hashesCount b = length hs" "mb_flags b = Some f"
    "mb_flagsLen b = length f" "length hs < 2 ^ 40" "length f < 2 ^ 40"
  shows "BRMerkleBlockSerialize b None = Some (length (block_bytes b), None)"
    "length (block_bytes b) \<le> length d \<Longrightarrow>
      BRMerkleBlockSerialize b (Some d) = Some (length (block_bytes b), Some (block_bytes b @ drop (length (block_bytes b)) d))"
proof -
  define V where "V = varint_bytes (word_of_nat (length hs))"
  define W where "W = varint_bytes (word_of_nat (length f))"
  let ?H = "concat (map UInt256Set hs)" and ?T = "UInt32SetLE (mb_totalTx b)"
  have v: "length V \<le> 9" "length W \<le> 9"
    using BRVarIntSize_bound(2) by (simp_all add: V_def W_def BRVarIntSize_length [symmetric])
  have B: "block_bytes b = block_header b @ ?T @ V @ ?H @ W @ f"
    using t s by (simp add: block_bytes_def tree_bytes_def V_def W_def)
  have hl: "sz (length hs * 32) = 32 * length hs" using s(5) by (simp add: sz_def)
  have len: "sz (80 + 4 + length V + 32 * length hs + length W + length f) = length (block_bytes b)"
    using s(5,6) v unfolding B by (simp add: sz_def)
  show "BRMerkleBlockSerialize b None = Some (length (block_bytes b), None)"
    unfolding BRMerkleBlockSerialize_def Let_def s hl BRVarIntSize_length V_def [symmetric] W_def [symmetric] len
    using t by (simp add: len)
  assume d: "length (block_bytes b) \<le> length d"
  then have dl: "84 + length V + 32 * length hs + length W + length f \<le> length d" unfolding B by simp
  have 1: "memcpy_at d 0 (block_header b) = block_header b @ drop 80 d" by (simp add: memcpy_at_def)
  have 2: "memcpy_at (block_header b @ drop 80 d) 80 ?T = (block_header b @ ?T) @ drop 84 d"
    using memcpy_over [of "block_header b" 80 ?T "drop 80 d"] dl by simp
  have 3: "at_off 84 (BRVarIntSet (word_of_nat (length hs))) (Some ((block_header b @ ?T) @ drop 84 d)) =
      (length V, Some (((block_header b @ ?T) @ V) @ drop (84 + length V) d))"
    using varint_over [of "block_header b @ ?T" 84 "word_of_nat (length hs)" "drop 84 d"] dl
    by (simp add: V_def add.commute)
  have 4: "memcpy_at (((block_header b @ ?T) @ V) @ drop (84 + length V) d) (84 + length V) ?H =
      (((block_header b @ ?T) @ V) @ ?H) @ drop (84 + length V + 32 * length hs) d"
    using memcpy_over [of "(block_header b @ ?T) @ V" "84 + length V" ?H "drop (84 + length V) d"] dl
    by (simp add: add.commute)
  have 5: "at_off (84 + length V + 32 * length hs) (BRVarIntSet (word_of_nat (length f)))
        (Some ((((block_header b @ ?T) @ V) @ ?H) @ drop (84 + length V + 32 * length hs) d)) =
      (length W, Some (((((block_header b @ ?T) @ V) @ ?H) @ W) @ drop (84 + length V + 32 * length hs + length W) d))"
    using varint_over [of "((block_header b @ ?T) @ V) @ ?H" "84 + length V + 32 * length hs" "word_of_nat (length f)"
        "drop (84 + length V + 32 * length hs) d"] dl by (simp add: W_def add.commute)
  have 6: "memcpy_at (((((block_header b @ ?T) @ V) @ ?H) @ W) @ drop (84 + length V + 32 * length hs + length W) d)
        (84 + length V + 32 * length hs + length W) f =
      block_bytes b @ drop (length (block_bytes b)) d"
    using memcpy_over [of "(((block_header b @ ?T) @ V) @ ?H) @ W" "84 + length V + 32 * length hs + length W" f
        "drop (84 + length V + 32 * length hs + length W) d"] dl unfolding B by (simp add: add.commute add.left_commute)
  show "BRMerkleBlockSerialize b (Some d) = Some (length (block_bytes b), Some (block_bytes b @ drop (length (block_bytes b)) d))"
    unfolding BRMerkleBlockSerialize_def Let_def s hl BRVarIntSize_length V_def [symmetric] W_def [symmetric] len option.case
      if_P [OF t] len if_P [OF d] 1 2 3 prod.case copy_opt_def
    by (simp only: option.map option.case length_hash_bytes order_refl if_True take_all bind.bind_lunit 4 5 6 prod.case)
qed

lemma Serialize_header:
  assumes "\<not> mb_totalTx b > 0"
  shows "BRMerkleBlockSerialize b None = Some (length (block_bytes b), None)"
    "length (block_bytes b) \<le> length d \<Longrightarrow>
      BRMerkleBlockSerialize b (Some d) = Some (length (block_bytes b), Some (block_bytes b @ drop (length (block_bytes b)) d))"
  using assms by (simp_all add: BRMerkleBlockSerialize_def block_bytes_def memcpy_at_def Let_def)

lemma hashes_of_bytes: "hashes_of (concat (map UInt256Set hs)) = hs"
proof (rule nth_equalityI)
  show "length (hashes_of (concat (map UInt256Set hs))) = length hs" by (simp add: hashes_of_def)
  have d: "drop (32 * i) (concat (map UInt256Set hs)) = concat (map UInt256Set (drop i hs))" for i and hs
  proof (induction i arbitrary: hs)
    case (Suc i)
    then show ?case by (cases hs) simp_all
  qed simp
  fix i assume "i < length (hashes_of (concat (map UInt256Set hs)))"
  then have i: "i < length hs" by (simp add: hashes_of_def)
  then have "drop i hs = hs ! i # drop (Suc i) hs" by (simp add: Cons_nth_drop_Suc)
  then show "hashes_of (concat (map UInt256Set hs)) ! i = hs ! i"
    using i by (simp add: hashes_of_def d UInt256Get_append)
qed

lemma header_fields:
  assumes "buf = block_header b @ r"
  shows "UInt32GetLE buf = mb_version b" "UInt256Get (drop 4 buf) = mb_prevBlock b"
    "UInt256Get (drop 36 buf) = mb_merkleRoot b" "UInt32GetLE (drop 68 buf) = mb_timestamp b"
    "UInt32GetLE (drop 72 buf) = mb_target b" "UInt32GetLE (drop 76 buf) = mb_nonce b" "take 80 buf = block_header b"
  using assms by (simp_all add: block_header_def cint_simps)

lemma parse_block_bytes:
  assumes wf: "wf_block b"
  shows "BRMerkleBlockParse (block_bytes b) = Some b"
proof (cases "mb_totalTx b > 0")
  case False
  then have B: "block_bytes b = block_header b @ []" by (simp add: block_bytes_def)
  have n: "\<not> sz_add 80 4 \<le> length (block_bytes b)" by (simp add: B sz_add_small)
  have z: "mb_totalTx b = 0" using False by (simp add: word_gt_0)
  show ?thesis
    unfolding BRMerkleBlockParse_def header_fields [OF B] Let_def if_not_P [OF n]
    using wf z by (simp add: B wf_block_def BRMerkleBlockNew_def)
next
  case True
  then obtain hs f where s: "mb_hashes b = Some hs" "mb_hashesCount b = length hs" "mb_flags b = Some f"
    "mb_flagsLen b = length f" "length hs < 2 ^ 40" "length f < 2 ^ 40" using wf by (auto simp: wf_block_def)
  define V where "V = varint_bytes (word_of_nat (length hs))"
  define W where "W = varint_bytes (word_of_nat (length f))"
  let ?H = "concat (map UInt256Set hs)" and ?T = "UInt32SetLE (mb_totalTx b)" and ?h = "block_header b"
  define buf where "buf = block_bytes b"
  have B: "buf = ?h @ ?T @ V @ ?H @ W @ f"
    using True s by (simp add: buf_def block_bytes_def tree_bytes_def V_def W_def)
  have v: "length V \<le> 9" "length W \<le> 9"
    using BRVarIntSize_bound(2) by (simp_all add: V_def W_def BRVarIntSize_length [symmetric])
  have len: "length buf = 84 + length V + 32 * length hs + length W + length f" "length buf < 2 ^ 50"
    using v s(5,6) by (simp_all add: B)
  have u: "unat (word_of_nat (length hs) :: u64) = length hs" "unat (word_of_nat (length f) :: u64) = length f"
    using s(5,6) unfolding unat_of_nat by (intro mod_less; simp)+
  have c: "sz_add 80 4 = 84" by (simp add: sz_add_small)
  have t: "UInt32GetLE (drop 80 buf) = mb_totalTx b" by (simp add: B cint_simps)
  have v1: "BRVarInt (drop 84 buf) = (word_of_nat (length hs), length V)"
    by (simp add: B V_def BRVarInt_append)
  have a1: "sz_add 84 (length V) = 84 + length V" "sz (length hs * 32) = 32 * length hs"
    "sz_add (84 + length V) (32 * length hs) = 84 + length V + 32 * length hs"
    using len s(5) by (simp_all add: sz_add_small sz_def)
  have h: "alloc_copy (84 + length V) (32 * length hs) buf = Some ?H"
    by (rule alloc_copy_at [of _ "?h @ ?T @ V" _ "W @ f"]) (use len in \<open>simp_all add: B\<close>)
  have v2: "BRVarInt (drop (84 + length V + 32 * length hs) buf) = (word_of_nat (length f), length W)"
    by (simp add: B W_def BRVarInt_append)
  have a2: "sz_add (84 + length V + 32 * length hs) (length W) = 84 + length V + 32 * length hs + length W"
    using len by (simp add: sz_add_small)
  have g: "alloc_copy (84 + length V + 32 * length hs + length W) (length f) buf = Some f"
    by (rule alloc_copy_at [of _ "?h @ ?T @ V @ ?H @ W" _ "[]"]) (use len in \<open>simp_all add: B\<close>)
  have ok: "80 \<le> length buf" "84 \<le> length buf" using len by simp_all
  have "BRMerkleBlockParse buf = Some b"
    unfolding BRMerkleBlockParse_def header_fields [OF B] Let_def c if_P [OF ok(1)] if_P [OF ok(2)] t v1 prod.case u a1 h v2 a2 g
      option.map hashes_of_bytes
    using wf s by (simp add: wf_block_def BRMerkleBlockNew_def)
  then show ?thesis by (simp add: buf_def)
qed

section \<open>Properties\<close>

text \<open>C36: if a block holds the flags and hashes of a partial merkle tree (BIP37) of the height of its
  transaction count, then the root that is computed is the root of the tree, and the two calls of
  \<open>BRMerkleBlockTxHashes\<close> give the number of the matched transactions and then exactly these, in order.\<close>

theorem merkle_tree_correct:
  assumes "ceil_log2 (mb_totalTx b) = Some h" "pmt_ok h True t" "stored b t 0 0 True" "mb_hashesCount b < SIZE_MAX"
  shows "map_option fst (from_root b (\<lambda>h. root_r b h (0, 0))) = Some (pmt_root t) \<and>
    BRMerkleBlockTxHashes b None = Some (length (pmt_matched t), []) \<and>
    BRMerkleBlockTxHashes b (Some (length (pmt_matched t))) = Some (length (pmt_matched t), pmt_matched t)"
proof -
  have "length (pmt_matched t) \<le> length (pmt_hashes t)" by (induction t) simp_all
  then have "length (pmt_matched t) \<le> SIZE_MAX" using assms(3,4) by (simp add: stored_def)
  then show ?thesis
    using root_r_spec [OF assms(2,3)] tx_hashes_spec [OF assms(2,3), of _ 0 "[]"] assms(1)
    by (simp add: from_root_def BRMerkleBlockTxHashes_def fits_in_def written_def)
qed

definition demo_tree :: pmt where
  "demo_tree = Branch (Pruned 7) (Matched 9)"

definition demo_block :: BRMerkleBlock where
  "demo_block = BRMerkleBlockNew\<lparr>mb_totalTx := 2, mb_hashes := Some [7, 9], mb_hashesCount := 2,
     mb_flags := Some [5], mb_flagsLen := 1\<rparr>"

lemma demo_block_stored: "ceil_log2 2 = Some 1" "stored demo_block demo_tree 0 0 True"
proof -
  show "ceil_log2 2 = Some 1" by (simp add: ceil_log2_def log2_loop.simps)
  have f: "bit (5 :: u8) 0" "\<not> bit (5 :: u8) 1" "bit (5 :: u8) 2" by (simp_all add: bit_simps bit_numeral_simps)
  show "stored demo_block demo_tree 0 0 True"
    using f by (simp add: stored_def reads_Cons reads_Nil demo_tree_def demo_block_def get_hash_def get_flag_def numeral_2_eq_2 [symmetric])
qed

theorem merkle_tree_correct_witness:
  "BRMerkleBlockTxHashes demo_block None = Some (1, []) \<and> BRMerkleBlockTxHashes demo_block (Some 1) = Some (1, [9])"
  using merkle_tree_correct [of demo_block 1 demo_tree] demo_block_stored
  by (simp add: demo_block_def demo_tree_def SIZE_MAX_def)

text \<open>C37: a block is accepted exactly if its computed root is the one in the header, its time is at most two
  hours ahead, its compact target is in range and its proof-of-work hash, as a number, is at most the number
  the target stands for; but for a target whose size byte exceeds 31 the function has no defined behaviour,
  since it writes the target behind its 32-byte buffer before it rejects the block.\<close>

theorem BRMerkleBlockIsValid_iff:
  "BRMerkleBlockIsValid b now =
    (case from_root b (\<lambda>h. root_r b h (0, 0)) of
       None \<Rightarrow> None
     | Some (root, _) \<Rightarrow> if 31 < unat (drop_bit 24 (mb_target b)) then None else Some (block_valid b now root))"
  by (rule IsValid_spec)

text \<open>The height of the tree is the smallest one with room for the transactions, for every count up to
  \<open>2 ^ 31\<close>; beyond, the loop that computes it does not end.\<close>

theorem ceil_log2_correct:
  "(case ceil_log2 x of
      Some h \<Rightarrow> x < 2 ^ 31 \<and> unat x \<le> 2 ^ h \<and> (h = 0 \<or> 2 ^ (h - 1) < unat x)
    | None \<Rightarrow> 2 ^ 31 \<le> x)"
proof (cases "x < 2 ^ 31")
  case True
  show ?thesis
  proof (cases "x = 0")
    case True
    have "log2_loop 0 0 = 0" by (simp add: log2_loop.simps)
    then show ?thesis using True by (simp add: ceil_log2_def)
  next
    case False
    then have "0 < x" by (simp add: word_gt_0)
    then show ?thesis using ceil_log2_bounds [OF _ True] True by auto
  qed
next
  case False
  then have "2 ^ 31 \<le> unat x" by (simp add: word_less_nat_alt)
  moreover have "unat x < 2 ^ 32" using unsigned_less [of x] by simp
  ultimately have "bit (unat x) 31" using bit_nat_range [of 31 "unat x"] by simp
  then have "bit (uint x) 31" by (simp add: bit_unsigned_iff)
  then have "sint x < 0" by (simp add: sint_uint signed_take_bit_negative_iff)
  then show ?thesis using False by (simp add: ceil_log2_def)
qed

text \<open>A block serialized with the two calls (length, then buffer) and parsed again is the same block,
  with its block hash and scrypt proof-of-work hash computed from the header.\<close>

theorem BRMerkleBlock_roundtrip:
  assumes "wf_block b"
  shows "\<exists>n bs. BRMerkleBlockSerialize b None = Some (n, None) \<and>
    BRMerkleBlockSerialize b (Some (replicate n 0)) = Some (n, Some bs) \<and> BRMerkleBlockParse bs = Some b"
proof -
  let ?n = "length (block_bytes b)"
  have "BRMerkleBlockSerialize b None = Some (?n, None) \<and>
      BRMerkleBlockSerialize b (Some (replicate ?n 0)) = Some (?n, Some (block_bytes b))"
  proof (cases "mb_totalTx b > 0")
    case True
    then obtain hs f where s: "mb_hashes b = Some hs" "mb_hashesCount b = length hs" "mb_flags b = Some f"
      "mb_flagsLen b = length f" "length hs < 2 ^ 40" "length f < 2 ^ 40" using assms by (auto simp: wf_block_def)
    show ?thesis using Serialize_tree(1) [OF True s] Serialize_tree(2) [OF True s, of "replicate ?n 0"] by simp
  next
    case False
    show ?thesis using Serialize_header(1) [OF False] Serialize_header(2) [OF False, of "replicate ?n 0"] by simp
  qed
  then show ?thesis using parse_block_bytes [OF assms] by blast
qed

definition demo_wf_block :: BRMerkleBlock where
  "demo_wf_block = demo_block\<lparr>mb_blockHash := UInt256Get (BRSHA256_2 (block_header demo_block)),
     mb_powHash := UInt256Get (BRScrypt 32 (block_header demo_block) (block_header demo_block) 1024 1 1)\<rparr>"

theorem BRMerkleBlock_roundtrip_witness:
  "\<exists>n bs. BRMerkleBlockSerialize demo_wf_block None = Some (n, None) \<and>
    BRMerkleBlockSerialize demo_wf_block (Some (replicate n 0)) = Some (n, Some bs) \<and>
    BRMerkleBlockParse bs = Some demo_wf_block"
proof -
  have "block_header demo_wf_block = block_header demo_block"
    by (simp add: demo_wf_block_def block_header_def)
  then have "wf_block demo_wf_block"
    by (simp add: wf_block_def) (simp add: demo_wf_block_def demo_block_def BRMerkleBlockNew_def)
  then show ?thesis by (rule BRMerkleBlock_roundtrip)
qed

text \<open>\<open>BRMerkleBlockSetTxHashes\<close> stores the arrays but not their sizes, so that a block made by
  \<open>BRMerkleBlockNew\<close> and this call contains no transaction, whatever hashes it was given.\<close>

theorem BRMerkleBlockSetTxHashes_counts:
  "BRMerkleBlockContainsTxHash (BRMerkleBlockSetTxHashes BRMerkleBlockNew hashes flags) h = Some False \<and>
   BRMerkleBlockTxHashes (BRMerkleBlockSetTxHashes BRMerkleBlockNew hashes flags) cap = Some (0, [])"
proof -
  have "ceil_log2 0 = Some 0" by (simp add: ceil_log2_def log2_loop.simps)
  then show ?thesis
    by (simp add: BRMerkleBlockContainsTxHash_def contains_loop.simps BRMerkleBlockSetTxHashes_def BRMerkleBlockNew_def
        BRMerkleBlockTxHashes_def from_root_def tx_hashes_r.simps)
qed

end
