(* ===== verification/Bloom.thy ===== *)
theory Bloom
  imports Hash Writer Reader "HOL-Library.Monad_Syntax"
begin

text \<open>
  \<^verbatim>\<open>Libraries/loafwallet-core/BRBloomFilter.c\<close>: the BIP37 bloom filter. \<open>BRBloomFilterNew\<close> computes its
  length and number of hash functions in floating point; the two results of these computations, converted
  to integers, are arguments of the model. A filter parsed from a message may have the length 0, on which
  the hash index is a division by zero (\<open>None\<close>). A pointer that is \<open>NULL\<close> is \<open>None\<close>.
\<close>

section \<open>The filter\<close>

definition BLOOM_MAX_FILTER_LENGTH :: nat where "BLOOM_MAX_FILTER_LENGTH = 36000"
definition BLOOM_MAX_HASH_FUNCS :: u32 where "BLOOM_MAX_HASH_FUNCS = 50"

record BRBloomFilter =
  bf_filter :: "u8 list"
  bf_length :: size_t
  bf_hashFuncs :: u32
  bf_elemCount :: size_t
  bf_tweak :: u32
  bf_flags :: u8

definition BRBloomFilterHash :: "BRBloomFilter \<Rightarrow> u8 list \<Rightarrow> u32 \<Rightarrow> nat option" where
  "BRBloomFilterHash f data hashNum =
     (if bf_length f * 8 = 0 then None
      else Some (unat (BRMurmur3_32 data (hashNum * 0xfba4c795 + bf_tweak f)) mod (bf_length f * 8)))"

text \<open>\<open>floatLength\<close> is the value of the expression for the length (which already is the maximum for a rate
  below the machine precision), \<open>floatFuncs\<close> that for the number of hash functions at the final length.\<close>

definition BRBloomFilterNew :: "nat \<Rightarrow> (nat \<Rightarrow> u32) \<Rightarrow> u32 \<Rightarrow> u8 \<Rightarrow> BRBloomFilter" where
  "BRBloomFilterNew floatLength floatFuncs tweak flags =
     (let len = floatLength;
          len = (if len > BLOOM_MAX_FILTER_LENGTH then BLOOM_MAX_FILTER_LENGTH else len);
          len = (if len < 1 then 1 else len);
          hashFuncs = floatFuncs len;
          hashFuncs = (if hashFuncs > BLOOM_MAX_HASH_FUNCS then BLOOM_MAX_HASH_FUNCS else hashFuncs)
      in \<lparr>bf_filter = replicate len 0, bf_length = len, bf_hashFuncs = hashFuncs, bf_elemCount = 0,
          bf_tweak = tweak, bf_flags = flags\<rparr>)"

text \<open>\<open>None\<close> is undefined, \<open>Some None\<close> the result \<open>NULL\<close>.\<close>

definition BRBloomFilterParse :: "u8 list \<Rightarrow> BRBloomFilter option option" where
  "BRBloomFilterParse buf =
     do {
       let (v, len) = BRVarInt buf;
       let flen = unat v;
       let off = len;
       let fil = (if flen \<le> BLOOM_MAX_FILTER_LENGTH then alloc_copy off flen buf else None);
       let off = sz_add off flen;
       hashFuncs \<leftarrow> rd 4 UInt32GetLE off buf;
       let off = sz_add off 4;
       tweak \<leftarrow> rd 4 UInt32GetLE off buf;
       let off = sz_add off 4;
       flags \<leftarrow> rd 1 (\<lambda>b. b ! 0) off buf;
       Some (case fil of None \<Rightarrow> None
         | Some f \<Rightarrow> Some \<lparr>bf_filter = f, bf_length = flen, bf_hashFuncs = hashFuncs, bf_elemCount = 0,
              bf_tweak = tweak, bf_flags = flags\<rparr>)
     }"

definition w_bloom :: "BRBloomFilter \<Rightarrow> wstate \<Rightarrow> wstate" where
  "w_bloom f s =
     (let s = w_call (BRVarIntSet (word_of_nat (bf_length f))) s;
          s = w_put (take (bf_length f) (bf_filter f)) s;
          s = w_put (UInt32SetLE (bf_hashFuncs f)) s;
          s = w_put (UInt32SetLE (bf_tweak f)) s
      in w_put [bf_flags f] s)"

definition BRBloomFilterSerialize :: "BRBloomFilter \<Rightarrow> wbuf \<Rightarrow> size_t \<times> wbuf" where
  "BRBloomFilterSerialize f buf =
     (let len = BRVarIntSize (word_of_nat (bf_length f)) + bf_length f + 4 + 4 + 1 in
      case buf of None \<Rightarrow> (len, None)
      | Some d \<Rightarrow> if len \<le> length d then (len, snd (w_bloom f (0, Some d))) else (0, Some d))"

section \<open>Insertion and lookup\<close>

fun contains_from :: "BRBloomFilter \<Rightarrow> u8 list \<Rightarrow> nat \<Rightarrow> u32 \<Rightarrow> bool option" where
  "contains_from f data 0 i = Some True"
| "contains_from f data (Suc n) i =
     do {
       idx \<leftarrow> BRBloomFilterHash f data i;
       if \<not> bit (bf_filter f ! (idx div 8)) (idx mod 8) then Some False else contains_from f data n (i + 1)
     }"

definition BRBloomFilterContainsData :: "BRBloomFilter \<Rightarrow> u8 list option \<Rightarrow> bool option" where
  "BRBloomFilterContainsData f data =
     (case data of None \<Rightarrow> Some False | Some d \<Rightarrow> contains_from f d (unat (bf_hashFuncs f)) 0)"

definition set_filter_bit :: "u8 list \<Rightarrow> nat \<Rightarrow> u8 list" where
  "set_filter_bit bs idx = bs[idx div 8 := bs ! (idx div 8) OR push_bit (idx mod 8) 1]"

fun insert_from :: "BRBloomFilter \<Rightarrow> u8 list \<Rightarrow> nat \<Rightarrow> u32 \<Rightarrow> BRBloomFilter option" where
  "insert_from f data 0 i = Some f"
| "insert_from f data (Suc n) i =
     do {
       idx \<leftarrow> BRBloomFilterHash f data i;
       insert_from (f\<lparr>bf_filter := set_filter_bit (bf_filter f) idx\<rparr>) data n (i + 1)
     }"

definition BRBloomFilterInsertData :: "BRBloomFilter \<Rightarrow> u8 list option \<Rightarrow> BRBloomFilter option" where
  "BRBloomFilterInsertData f data =
     (case data of None \<Rightarrow> Some f
      | Some d \<Rightarrow> do { f \<leftarrow> insert_from f d (unat (bf_hashFuncs f)) 0; Some (f\<lparr>bf_elemCount := bf_elemCount f + 1\<rparr>) })"

text \<open>A sequence of insertions.\<close>

fun bloom_inserts :: "BRBloomFilter \<Rightarrow> u8 list list \<Rightarrow> BRBloomFilter option" where
  "bloom_inserts f [] = Some f"
| "bloom_inserts f (d # ds) = do { f \<leftarrow> BRBloomFilterInsertData f (Some d); bloom_inserts f ds }"

section \<open>The invariant\<close>

definition bloom_ok :: "BRBloomFilter \<Rightarrow> bool" where
  "bloom_ok f \<longleftrightarrow> 0 < bf_length f \<and> bf_length f \<le> BLOOM_MAX_FILTER_LENGTH \<and> length (bf_filter f) = bf_length f"

lemma New_ok: "bloom_ok (BRBloomFilterNew l g t fl)"
  by (simp add: bloom_ok_def BRBloomFilterNew_def BLOOM_MAX_FILTER_LENGTH_def Let_def)

lemma hash_in_range:
  assumes "bloom_ok f"
  obtains idx where "BRBloomFilterHash f d i = Some idx" "idx div 8 < length (bf_filter f)"
proof -
  let ?idx = "unat (BRMurmur3_32 d (i * 0xfba4c795 + bf_tweak f)) mod (bf_length f * 8)"
  have "?idx < bf_length f * 8" using assms by (simp add: bloom_ok_def)
  then have "?idx div 8 < bf_length f" by (simp add: div_less_iff_less_mult)
  then show ?thesis using that [of ?idx] assms by (simp add: BRBloomFilterHash_def bloom_ok_def)
qed

text \<open>Two filters that differ only in their bits, the second with more of them set.\<close>

definition more_bits :: "BRBloomFilter \<Rightarrow> BRBloomFilter \<Rightarrow> bool" where
  "more_bits f g \<longleftrightarrow> bf_length g = bf_length f \<and> bf_hashFuncs g = bf_hashFuncs f \<and> bf_tweak g = bf_tweak f \<and>
     length (bf_filter g) = length (bf_filter f) \<and>
     (\<forall>k<length (bf_filter f). \<forall>j. bit (bf_filter f ! k) j \<longrightarrow> bit (bf_filter g ! k) j)"

lemma more_bits_refl: "more_bits f f"
  by (simp add: more_bits_def)

lemma more_bits_trans: "more_bits f g \<Longrightarrow> more_bits g h \<Longrightarrow> more_bits f h"
  by (simp add: more_bits_def)

lemma more_bits_ok: "more_bits f g \<Longrightarrow> bloom_ok f \<Longrightarrow> bloom_ok g"
  by (simp add: more_bits_def bloom_ok_def)

lemma more_bits_hash: "more_bits f g \<Longrightarrow> BRBloomFilterHash g d i = BRBloomFilterHash f d i"
  by (simp add: more_bits_def BRBloomFilterHash_def)

lemma more_bits_set:
  assumes "idx div 8 < length (bf_filter f)"
  shows "more_bits f (f\<lparr>bf_filter := set_filter_bit (bf_filter f) idx\<rparr>)"
    "bit (set_filter_bit (bf_filter f) idx ! (idx div 8)) (idx mod 8)"
  using assms by (auto simp: more_bits_def set_filter_bit_def nth_list_update bit_simps)

lemma contains_more:
  assumes "more_bits f g" "bloom_ok f"
  shows "contains_from f d n i = Some True \<Longrightarrow> contains_from g d n i = Some True"
proof (induction n arbitrary: i)
  case (Suc n)
  obtain idx where x: "BRBloomFilterHash f d i = Some idx" "idx div 8 < length (bf_filter f)"
    using hash_in_range [OF assms(2)] .
  then have "bit (bf_filter f ! (idx div 8)) (idx mod 8)" "contains_from f d n (i + 1) = Some True"
    using Suc.prems by (simp_all split: if_splits)
  moreover from this have "bit (bf_filter g ! (idx div 8)) (idx mod 8)"
    using assms(1) x(2) by (simp add: more_bits_def)
  ultimately show ?case using Suc.IH x(1) more_bits_hash [OF assms(1)] by simp
qed simp

lemma insert_from_ok:
  "bloom_ok f \<Longrightarrow> \<exists>g. insert_from f d n i = Some g \<and> more_bits f g \<and> contains_from g d n i = Some True \<and>
     bf_elemCount g = bf_elemCount f \<and> bf_flags g = bf_flags f"
proof (induction n arbitrary: f i)
  case (Suc n)
  obtain idx where x: "BRBloomFilterHash f d i = Some idx" "idx div 8 < length (bf_filter f)"
    using hash_in_range [OF Suc.prems] .
  define f' where "f' = f\<lparr>bf_filter := set_filter_bit (bf_filter f) idx\<rparr>"
  have m: "more_bits f f'" and b: "bit (bf_filter f' ! (idx div 8)) (idx mod 8)"
    using more_bits_set [OF x(2)] by (simp_all add: f'_def)
  from Suc.IH [OF more_bits_ok [OF m Suc.prems], of "i + 1"]
  obtain g where g: "insert_from f' d n (i + 1) = Some g" "more_bits f' g" "contains_from g d n (i + 1) = Some True"
    "bf_elemCount g = bf_elemCount f'" "bf_flags g = bf_flags f'" by blast
  have fg: "more_bits f g" by (rule more_bits_trans [OF m g(2)])
  have "idx div 8 < length (bf_filter f')" using x(2) m by (simp add: more_bits_def)
  then have "bit (bf_filter g ! (idx div 8)) (idx mod 8)" using g(2) b by (simp add: more_bits_def)
  then show ?case
    using x(1) g fg more_bits_hash [OF fg] by (intro exI [of _ g]) (simp add: f'_def)
qed (simp add: more_bits_refl)

lemma more_bits_count: "more_bits f (g\<lparr>bf_elemCount := n\<rparr>) = more_bits f g"
  by (simp add: more_bits_def)

lemma contains_count: "contains_from (g\<lparr>bf_elemCount := k\<rparr>) d n i = contains_from g d n i"
  by (induction n arbitrary: i) (simp_all add: BRBloomFilterHash_def)

lemma insert_ok:
  assumes "bloom_ok f"
  shows "\<exists>g. BRBloomFilterInsertData f (Some d) = Some g \<and> more_bits f g \<and>
    BRBloomFilterContainsData g (Some d) = Some True \<and> bf_elemCount g = bf_elemCount f + 1"
proof -
  obtain g where g: "insert_from f d (unat (bf_hashFuncs f)) 0 = Some g" "more_bits f g"
    "contains_from g d (unat (bf_hashFuncs f)) 0 = Some True" "bf_elemCount g = bf_elemCount f"
    using insert_from_ok [OF assms] by blast
  then show ?thesis
    by (intro exI [of _ "g\<lparr>bf_elemCount := bf_elemCount f + 1\<rparr>"])
      (simp add: BRBloomFilterInsertData_def BRBloomFilterContainsData_def more_bits_count contains_count,
       simp add: more_bits_def)
qed

lemma contains_data_more:
  "more_bits f g \<Longrightarrow> bloom_ok f \<Longrightarrow> BRBloomFilterContainsData f d = Some True \<Longrightarrow>
   BRBloomFilterContainsData g d = Some True"
  using contains_more [of f g] by (auto simp: BRBloomFilterContainsData_def more_bits_def split: option.splits)

lemma inserts_ok:
  "bloom_ok f \<Longrightarrow> \<exists>g. bloom_inserts f ds = Some g \<and> more_bits f g \<and> bf_elemCount g = bf_elemCount f + length ds \<and>
     (\<forall>d\<in>set ds. BRBloomFilterContainsData g (Some d) = Some True)"
proof (induction ds arbitrary: f)
  case (Cons d ds)
  obtain f' where f': "BRBloomFilterInsertData f (Some d) = Some f'" "more_bits f f'"
    "BRBloomFilterContainsData f' (Some d) = Some True" "bf_elemCount f' = bf_elemCount f + 1"
    using insert_ok [OF Cons.prems] by blast
  have ok: "bloom_ok f'" by (rule more_bits_ok [OF f'(2) Cons.prems])
  obtain g where g: "bloom_inserts f' ds = Some g" "more_bits f' g" "bf_elemCount g = bf_elemCount f' + length ds"
    "\<forall>d\<in>set ds. BRBloomFilterContainsData g (Some d) = Some True" using Cons.IH [OF ok] by blast
  then show ?case
    using f' more_bits_trans [OF f'(2) g(2)] contains_data_more [OF g(2) ok f'(3)]
    by (intro exI [of _ g]) simp
qed (simp add: more_bits_refl)

section \<open>The serialized filter\<close>

definition bloom_bytes :: "BRBloomFilter \<Rightarrow> u8 list" where
  "bloom_bytes f = varint_bytes (word_of_nat (bf_length f)) @ take (bf_length f) (bf_filter f) @
     UInt32SetLE (bf_hashFuncs f) @ UInt32SetLE (bf_tweak f) @ [bf_flags f]"

lemma emits_bloom: "emits (w_bloom f) (bloom_bytes f)"
  unfolding w_bloom_def Let_def
  by (rule emits_eq, (rule emits_steps)+) (simp add: bloom_bytes_def)

interpretation bloomser: strict_serializer BRBloomFilterSerialize bloom_bytes bloom_ok
proof
  fix f assume ok: "bloom_ok f"
  then have len: "BRVarIntSize (word_of_nat (bf_length f)) + bf_length f + 4 + 4 + 1 = length (bloom_bytes f)"
    by (simp add: bloom_bytes_def BRVarIntSize_length bloom_ok_def)
  show "writes (BRBloomFilterSerialize f) (bloom_bytes f)"
    using emits_Some [OF emits_bloom, of f _ "[]"]
    unfolding writes_def BRBloomFilterSerialize_def Let_def len by simp
  show "BRBloomFilterSerialize f (Some d) = (0, Some d)" if "length d < length (bloom_bytes f)" for d
    using that unfolding BRBloomFilterSerialize_def Let_def len by simp
qed

lemma parse_bloom_bytes:
  assumes ok: "bloom_ok f"
  shows "BRBloomFilterParse (bloom_bytes f) = Some (Some (f\<lparr>bf_elemCount := 0\<rparr>))"
proof -
  define V where "V = varint_bytes (word_of_nat (bf_length f))"
  let ?F = "bf_filter f" and ?H = "UInt32SetLE (bf_hashFuncs f)" and ?T = "UInt32SetLE (bf_tweak f)"
  define buf where "buf = bloom_bytes f"
  have B: "buf = V @ ?F @ ?H @ ?T @ [bf_flags f]" using ok by (simp add: buf_def bloom_bytes_def V_def bloom_ok_def)
  have v: "length V \<le> 9" using BRVarIntSize_bound(2) by (simp add: V_def BRVarIntSize_length [symmetric])
  have n: "bf_length f \<le> 36000" "length ?F = bf_length f" using ok by (simp_all add: bloom_ok_def BLOOM_MAX_FILTER_LENGTH_def)
  have len: "length buf = length V + bf_length f + 9" "length buf < 2 ^ 64" using n v by (simp_all add: B)
  have 1: "BRVarInt buf = (word_of_nat (bf_length f), length V)" by (simp add: B V_def BRVarInt_append)
  have u: "unat (word_of_nat (bf_length f) :: u64) = bf_length f" using n(1) by (simp add: unat_len)
  have 2: "alloc_copy (length V) (bf_length f) buf = Some ?F"
    by (rule alloc_copy_at [of _ V _ "?H @ ?T @ [bf_flags f]"]) (use n len in \<open>simp_all add: B\<close>)
  have o1: "sz_add (length V) (bf_length f) = length V + bf_length f" using len by (simp add: sz_add_small)
  have 3: "rd 4 UInt32GetLE (length V + bf_length f) buf = Some (bf_hashFuncs f)"
    "sz_add (length V + bf_length f) 4 = length V + bf_length f + 4"
    using rd_ints(2) [OF len(2), of "length V + bf_length f" "V @ ?F" "bf_hashFuncs f" "?T @ [bf_flags f]"] n
    by (simp_all add: B)
  have 4: "rd 4 UInt32GetLE (length V + bf_length f + 4) buf = Some (bf_tweak f)"
    "sz_add (length V + bf_length f + 4) 4 = length V + bf_length f + 8"
    using rd_ints(2) [OF len(2), of "length V + bf_length f + 4" "V @ ?F @ ?H" "bf_tweak f" "[bf_flags f]"] n
    by (simp_all add: B)
  have 5: "rd 1 (\<lambda>b. b ! 0) (length V + bf_length f + 8) buf = Some (bf_flags f)"
    using rd_byte [of buf "V @ ?F @ ?H @ ?T" "bf_flags f" "[]" "length V + bf_length f + 8"] len(2) n by (simp add: B)
  have "BRBloomFilterParse buf = Some (Some (f\<lparr>bf_elemCount := 0\<rparr>))"
    unfolding BRBloomFilterParse_def 1 prod.case Let_def u 2 o1 3 4 5 bind.bind_lunit
    using n by (simp add: BLOOM_MAX_FILTER_LENGTH_def)
  then show ?thesis by (simp add: buf_def)
qed

section \<open>Properties\<close>

text \<open>A bloom filter has no false negatives: whatever was inserted in a sequence of insertions is
  contained, everything contained before still is, no operation leaves the filter's memory, and the element
  count is that of the insertions.\<close>

theorem bloom_no_false_negatives:
  assumes "bloom_ok f"
  shows "\<exists>g. bloom_inserts f ds = Some g \<and> bloom_ok g \<and> bf_elemCount g = bf_elemCount f + length ds \<and>
    (\<forall>d. d \<in> set ds \<or> BRBloomFilterContainsData f (Some d) = Some True \<longrightarrow>
       BRBloomFilterContainsData g (Some d) = Some True)"
proof -
  obtain g where g: "bloom_inserts f ds = Some g" "more_bits f g" "bf_elemCount g = bf_elemCount f + length ds"
    "\<forall>d\<in>set ds. BRBloomFilterContainsData g (Some d) = Some True" using inserts_ok [OF assms] by blast
  then show ?thesis using more_bits_ok [OF g(2) assms] contains_data_more [OF g(2) assms] by blast
qed

theorem bloom_no_false_negatives_witness:
  "\<exists>g. bloom_inserts (BRBloomFilterNew 100 (\<lambda>_. 11) 42 0) [[1, 2, 3], [4]] = Some g \<and>
    BRBloomFilterContainsData g (Some [1, 2, 3]) = Some True \<and> BRBloomFilterContainsData g (Some [4]) = Some True"
  using bloom_no_false_negatives [OF New_ok, of 100 "\<lambda>_. 11" 42 0 "[[1, 2, 3], [4]]"] by force

text \<open>A filter that is serialized with the two calls (length, then buffer) and parsed again is the same
  filter, with its element count at zero, which is not sent.\<close>

theorem bloom_roundtrip:
  assumes "bloom_ok f"
  shows "BRBloomFilterParse (bytes_written (BRBloomFilterSerialize f)) = Some (Some (f\<lparr>bf_elemCount := 0\<rparr>))"
proof -
  have "bytes_written (BRBloomFilterSerialize f) = bloom_bytes f"
    by (rule bytes_written_writes [OF bloomser.ser_writes [OF assms]])
  then show ?thesis using parse_bloom_bytes [OF assms] by simp
qed

theorem bloom_roundtrip_witness:
  "BRBloomFilterParse (bytes_written (BRBloomFilterSerialize (BRBloomFilterNew 100 (\<lambda>_. 11) 42 0))) =
     Some (Some (BRBloomFilterNew 100 (\<lambda>_. 11) 42 0))"
  using bloom_roundtrip [OF New_ok, of 100 "\<lambda>_. 11" 42 0] by (simp add: BRBloomFilterNew_def)

text \<open>A filter of length 0, which the parser accepts from a message, makes the next lookup and insertion
  of the code divide by zero.\<close>

theorem bloom_zero_length:
  "BRBloomFilterParse ([0] @ UInt32SetLE n @ UInt32SetLE t @ [fl]) =
     Some (Some \<lparr>bf_filter = [], bf_length = 0, bf_hashFuncs = n, bf_elemCount = 0, bf_tweak = t, bf_flags = fl\<rparr>) \<and>
   BRBloomFilterContainsData \<lparr>bf_filter = [], bf_length = 0, bf_hashFuncs = 1, bf_elemCount = 0, bf_tweak = t, bf_flags = fl\<rparr>
     (Some d) = None"
proof -
  let ?buf = "[0] @ UInt32SetLE n @ UInt32SetLE t @ [fl]"
  have len: "length ?buf < 2 ^ 64" by simp
  have 1: "BRVarInt ?buf = (0, 1)" by (simp add: BRVarInt_def VAR_INT16_HEADER_def VAR_INT32_HEADER_def VAR_INT64_HEADER_def)
  have 2: "alloc_copy 1 0 ?buf = Some []" by (simp add: alloc_copy_def sz_add_def)
  have 3: "rd 4 UInt32GetLE 1 ?buf = Some n \<and> sz_add 1 4 = 1 + 4" by (rule rd_ints(2) [OF len _, of _ "[0]"]) simp_all
  have 4: "rd 4 UInt32GetLE 5 ?buf = Some t \<and> sz_add 5 4 = 5 + 4"
    by (rule rd_ints(2) [OF len _, of _ "[0] @ UInt32SetLE n"]) simp_all
  have 5: "rd 1 (\<lambda>b. b ! 0) 9 ?buf = Some fl"
    using rd_byte [OF _ len, of "[0] @ UInt32SetLE n @ UInt32SetLE t" fl "[]" 9] by simp
  have "sz_add 1 0 = 1" by (simp add: sz_add_def)
  then show ?thesis
    unfolding BRBloomFilterParse_def 1 prod.case Let_def
    using 2 3 4 5 by (simp add: BRBloomFilterContainsData_def BRBloomFilterHash_def del: append.simps append_Cons append_Nil)
qed

end
