(* ===== verification/Poly1305.thy ===== *)
theory Poly1305
  imports Hash
begin

text \<open>
  The Poly1305 authenticator of \<^verbatim>\<open>Libraries/loafwallet-core/BRCrypto.c\<close>: a polynomial over the prime
  \<open>2 ^ 130 - 5\<close>, computed on five limbs of 26 bits in 32-bit words with 64-bit products and partial carries.
  The lemmas show that no intermediate value overflows its width, that the limbs always represent the
  polynomial modulo the prime, and that the final reduction and the addition of the pad give exactly the
  authenticator that RFC 7539 defines on numbers.
\<close>

section \<open>Model\<close>

definition poly_r :: "u8 list \<Rightarrow> u32 \<times> u32 \<times> u32 \<times> u32 \<times> u32" where
  "poly_r key32 =
     (let x = words32 4 key32; t0 = x ! 0; t1 = x ! 1; t2 = x ! 2; t3 = x ! 3
      in (t0 AND 0x03ffffff, (drop_bit 26 t0 OR push_bit 6 t1) AND 0x03ffff03,
          (drop_bit 20 t1 OR push_bit 12 t2) AND 0x03ffc0ff,
          (drop_bit 14 t2 OR push_bit 18 t3) AND 0x03f03fff, drop_bit 8 t3 AND 0x000fffff))"

text \<open>The block at \<open>data + i\<close> in \<open>x\<close>, padded when it is the last and short.\<close>

definition poly_x :: "u8 list \<Rightarrow> u8 list" where
  "poly_x chunk =
     (if length chunk < 16 then (chunk @ replicate (16 - length chunk) 0)[length chunk := 1] else chunk)"

definition poly_add :: "u32 list \<Rightarrow> u8 list \<Rightarrow> u32 list" where
  "poly_add h chunk =
     (let x = words32 4 (poly_x chunk); t0 = x ! 0; t1 = x ! 1; t2 = x ! 2; t3 = x ! 3
      in [h ! 0 + (t0 AND 0x03ffffff), h ! 1 + ((drop_bit 26 t0 OR push_bit 6 t1) AND 0x03ffffff),
          h ! 2 + ((drop_bit 20 t1 OR push_bit 12 t2) AND 0x03ffffff),
          h ! 3 + ((drop_bit 14 t2 OR push_bit 18 t3) AND 0x03ffffff),
          h ! 4 + (drop_bit 8 t3 OR (if 16 \<le> length chunk then push_bit 24 1 else 0))])"

definition poly_mul :: "u32 \<times> u32 \<times> u32 \<times> u32 \<times> u32 \<Rightarrow> u32 list \<Rightarrow> u64 list" where
  "poly_mul r h =
     (let (r0, r1, r2, r3, r4) = map_prod ucast (map_prod ucast (map_prod ucast (map_prod ucast ucast))) r;
          h0 = ucast (h ! 0); h1 = ucast (h ! 1); h2 = ucast (h ! 2); h3 = ucast (h ! 3); h4 = ucast (h ! 4)
      in [h0 * r0 + h1 * r4 * 5 + h2 * r3 * 5 + h3 * r2 * 5 + h4 * r1 * 5,
          h0 * r1 + h1 * r0 + h2 * r4 * 5 + h3 * r3 * 5 + h4 * r2 * 5,
          h0 * r2 + h1 * r1 + h2 * r0 + h3 * r4 * 5 + h4 * r3 * 5,
          h0 * r3 + h1 * r2 + h2 * r1 + h3 * r0 + h4 * r4 * 5,
          h0 * r4 + h1 * r3 + h2 * r2 + h3 * r1 + h4 * r0])"

definition poly_carry :: "u64 list \<Rightarrow> u32 list" where
  "poly_carry d =
     (let d0 = d ! 0;
          d1 = d ! 1 + ucast (ucast (drop_bit 26 d0) :: u32); h1 = ucast (d1 AND 0x03ffffff);
          d2 = d ! 2 + ucast (ucast (drop_bit 26 d1) :: u32); h2 = ucast (d2 AND 0x03ffffff);
          d3 = d ! 3 + ucast (ucast (drop_bit 26 d2) :: u32); h3 = ucast (d3 AND 0x03ffffff);
          d4 = d ! 4 + ucast (ucast (drop_bit 26 d3) :: u32); h4 = ucast (d4 AND 0x03ffffff);
          h0 = ucast ((d0 AND 0x03ffffff) + ucast ((ucast (drop_bit 26 d4) :: u32) * 5));
          h1 = h1 + drop_bit 26 h0; h0 = h0 AND 0x03ffffff
      in [h0, h1, h2, h3, h4])"

definition poly_step :: "u8 list \<Rightarrow> u32 list \<Rightarrow> u8 list \<Rightarrow> u32 list" where
  "poly_step key32 h chunk = poly_carry (poly_mul (poly_r key32) (poly_add h chunk))"

function poly_loop :: "u8 list \<Rightarrow> u32 list \<Rightarrow> u8 list \<Rightarrow> u32 list" where
  "poly_loop key32 h data =
     (if data = [] then h else poly_loop key32 (poly_step key32 h (take 16 data)) (drop 16 data))"
  by auto
termination by (relation "measure (\<lambda>(key32, h, data). length data)") auto

declare poly_loop.simps [simp del]

definition poly_full_carry :: "u32 list \<Rightarrow> u32 list" where
  "poly_full_carry h =
     (let h0 = h ! 0; h1 = h ! 1; h2 = h ! 2; h3 = h ! 3; h4 = h ! 4;
          h2 = h2 + drop_bit 26 h1; h1 = h1 AND 0x03ffffff;
          h3 = h3 + drop_bit 26 h2; h2 = h2 AND 0x03ffffff;
          h4 = h4 + drop_bit 26 h3; h3 = h3 AND 0x03ffffff;
          h0 = h0 + drop_bit 26 h4 * 5; h4 = h4 AND 0x03ffffff;
          h1 = h1 + drop_bit 26 h0; h0 = h0 AND 0x03ffffff
      in [h0, h1, h2, h3, h4])"

definition poly_select :: "u32 list \<Rightarrow> u32 list" where
  "poly_select h =
     (let t0 = h ! 0 + 5; t1 = h ! 1 + drop_bit 26 t0; t0 = t0 AND 0x03ffffff;
          t2 = h ! 2 + drop_bit 26 t1; t1 = t1 AND 0x03ffffff;
          t3 = h ! 3 + drop_bit 26 t2; t2 = t2 AND 0x03ffffff;
          t4 = h ! 4 + drop_bit 26 t3 - push_bit 26 1; t3 = t3 AND 0x03ffffff;
          b = drop_bit 31 t4 - 1
      in [(h ! 0 AND NOT b) OR (t0 AND b), (h ! 1 AND NOT b) OR (t1 AND b), (h ! 2 AND NOT b) OR (t2 AND b),
          (h ! 3 AND NOT b) OR (t3 AND b), (h ! 4 AND NOT b) OR (t4 AND b)])"

definition poly_pack :: "u32 list \<Rightarrow> u32 list" where
  "poly_pack h = [h ! 0 OR push_bit 26 (h ! 1), drop_bit 6 (h ! 1) OR push_bit 20 (h ! 2),
     drop_bit 12 (h ! 2) OR push_bit 14 (h ! 3), drop_bit 18 (h ! 3) OR push_bit 8 (h ! 4), h ! 4]"

definition poly_pad :: "u8 list \<Rightarrow> u32 list \<Rightarrow> u32 list" where
  "poly_pad key32 h =
     (let x = words32 4 (drop 16 key32);
          d0 = ucast (h ! 0) + ucast (x ! 0) :: u64;
          d1 = ucast (h ! 1) + ucast (x ! 1) + drop_bit 32 d0;
          d2 = ucast (h ! 2) + ucast (x ! 2) + drop_bit 32 d1;
          d3 = ucast (h ! 3) + ucast (x ! 3) + drop_bit 32 d2
      in [ucast d0, ucast d1, ucast d2, ucast d3, h ! 4])"

definition BRPoly1305Compress :: "u32 list \<Rightarrow> u8 list \<Rightarrow> u8 list \<Rightarrow> bool \<Rightarrow> u32 list" where
  "BRPoly1305Compress h key32 data final =
     (let h = poly_loop key32 h data
      in if final then poly_pad key32 (poly_pack (poly_select (poly_full_carry h))) else h)"

definition BRPoly1305 :: "u8 list \<Rightarrow> u8 list \<Rightarrow> u8 list" where
  "BRPoly1305 key32 data = take 16 (bytes32 (BRPoly1305Compress [0, 0, 0, 0, 0] key32 data True))"
section \<open>Words as numbers\<close>

lemma unat_plus: "unat a + unat b < 2 ^ LENGTH('a) \<Longrightarrow> unat (a + b) = unat a + unat (b :: 'a::len word)"
  by (simp add: unat_word_ariths)

lemma unat_times: "unat a * unat b < 2 ^ LENGTH('a) \<Longrightarrow> unat (a * b) = unat a * unat (b :: 'a::len word)"
  by (simp add: unat_word_ariths)

lemma unat_low:
  fixes d :: "'a::len word"
  assumes "26 \<le> LENGTH('a)"
  shows "unat (d AND 0x03ffffff) = unat d mod 2 ^ 26"
proof -
  have "(0x03ffffff :: 'a word) = mask 26" by (simp add: mask_eq_exp_minus_1)
  then have "d AND 0x03ffffff = take_bit 26 d" by (simp only: take_bit_eq_mask)
  then show ?thesis by (simp only: unsigned_take_bit_eq) (simp add: take_bit_eq_mod)
qed

lemma unat_shift: "unat (drop_bit n d) = unat d div 2 ^ n" for d :: "'a::len word"
  by (simp only: unsigned_drop_bit_eq) (simp add: drop_bit_eq_div take_bit_nat_eq_self)

lemma unat_up [simp]: "unat (ucast (x :: u32) :: u64) = unat x"
  using unsigned_less [of x, where 'a = nat] by (simp add: unsigned_ucast_eq take_bit_nat_eq_self)

lemma unat_down: "unat (ucast (x :: u64) :: u32) = unat x mod 2 ^ 32"
  by (simp add: unsigned_ucast_eq take_bit_eq_mod)

lemma div_26: "x < 2 ^ 58 \<Longrightarrow> x div 2 ^ 26 < (2 ^ 32 :: nat)"
  by (intro less_mult_imp_div_less) simp

lemma carry64: "unat a < 2 ^ 58 \<Longrightarrow> unat b < 2 ^ 58 \<Longrightarrow>
    unat (a + ucast (ucast (drop_bit 26 b) :: u32)) = unat (a :: u64) + unat (b :: u64) div 2 ^ 26"
proof -
  assume a: "unat a < 2 ^ 58" and b: "unat b < 2 ^ 58"
  have "unat b div 2 ^ 26 < 2 ^ 32" using b by (intro less_mult_imp_div_less) simp
  then have "unat (ucast (ucast (drop_bit 26 b) :: u32) :: u64) = unat b div 2 ^ 26"
    by (simp add: unat_down unat_shift)
  then show ?thesis using a \<open>unat b div 2 ^ 26 < 2 ^ 32\<close> by (subst unat_plus) simp_all
qed

section \<open>The carries after a product\<close>

definition pv :: "u32 list \<Rightarrow> nat" where
  "pv h = unat (h ! 0) + unat (h ! 1) * 2 ^ 26 + unat (h ! 2) * 2 ^ 52 + unat (h ! 3) * 2 ^ 78 + unat (h ! 4) * 2 ^ 104"

definition poly_prime :: nat where
  "poly_prime = 2 ^ 130 - 5"

definition limbs_ok :: "u32 list \<Rightarrow> bool" where
  "limbs_ok h \<longleftrightarrow> length h = 5 \<and> unat (h ! 0) < 2 ^ 26 \<and> unat (h ! 1) < 2 ^ 26 + 2 ^ 7 \<and>
     unat (h ! 2) < 2 ^ 26 \<and> unat (h ! 3) < 2 ^ 26 \<and> unat (h ! 4) < 2 ^ 26"

definition products_ok :: "u64 list \<Rightarrow> bool" where
  "products_ok d \<longleftrightarrow> (\<forall>i<4. unat (d ! i) < 17 * 2 ^ 53) \<and> unat (d ! 4) < 6 * 2 ^ 53"

lemma carry_identity:
  fixes D0 :: nat
  assumes "D0 = q0 * 2 ^ 26 + m0" "D1 + q0 = q1 * 2 ^ 26 + m1" "D2 + q1 = q2 * 2 ^ 26 + m2"
    "D3 + q2 = q3 * 2 ^ 26 + m3" "D4 + q3 = q4 * 2 ^ 26 + m4" "c * 2 ^ 26 + n0 = m0 + q4 * 5"
  shows "n0 + (m1 + c) * 2 ^ 26 + m2 * 2 ^ 52 + m3 * 2 ^ 78 + m4 * 2 ^ 104 + q4 * poly_prime =
    D0 + D1 * 2 ^ 26 + D2 * 2 ^ 52 + D3 * 2 ^ 78 + D4 * 2 ^ 104"
proof -
  have g: "(2 :: nat) ^ 26 = 67108864" "(2 :: nat) ^ 52 = 4503599627370496" "(2 :: nat) ^ 78 = 302231454903657293676544"
    "(2 :: nat) ^ 104 = 20282409603651670423947251286016" by simp_all
  have "q4 * poly_prime + q4 * 5 = q4 * 1361129467683753853853498429727072845824" by (simp add: poly_prime_def)
  then show ?thesis using assms unfolding g distrib_right by linarith
qed

lemma poly_carry_value:
  assumes "products_ok d"
  shows "limbs_ok (poly_carry d)"
    and "pv (poly_carry d) mod poly_prime = (unat (d ! 0) + unat (d ! 1) * 2 ^ 26 + unat (d ! 2) * 2 ^ 52 +
      unat (d ! 3) * 2 ^ 78 + unat (d ! 4) * 2 ^ 104) mod poly_prime"
proof -
  have d: "unat (d ! 0) < 17 * 2 ^ 53" "unat (d ! 1) < 17 * 2 ^ 53" "unat (d ! 2) < 17 * 2 ^ 53"
    "unat (d ! 3) < 17 * 2 ^ 53" "unat (d ! 4) < 6 * 2 ^ 53"
    using assms by (simp_all add: products_ok_def)
  define d1 d2 d3 d4 where "d1 = d ! 1 + ucast (ucast (drop_bit 26 (d ! 0)) :: u32)"
    and "d2 = d ! 2 + ucast (ucast (drop_bit 26 d1) :: u32)"
    and "d3 = d ! 3 + ucast (ucast (drop_bit 26 d2) :: u32)"
    and "d4 = d ! 4 + ucast (ucast (drop_bit 26 d3) :: u32)"
  have u1: "unat d1 = unat (d ! 1) + unat (d ! 0) div 2 ^ 26"
    unfolding d1_def by (rule carry64) (use d in simp_all)
  then have b1: "unat d1 < 2 ^ 58" using d div_26 [of "unat (d ! 0)"] by simp
  have u2: "unat d2 = unat (d ! 2) + unat d1 div 2 ^ 26"
    unfolding d2_def by (rule carry64) (use d b1 in simp_all)
  then have b2: "unat d2 < 2 ^ 58" using d div_26 [OF b1] by simp
  have u3: "unat d3 = unat (d ! 3) + unat d2 div 2 ^ 26"
    unfolding d3_def by (rule carry64) (use d b2 in simp_all)
  then have b3: "unat d3 < 2 ^ 58" using d div_26 [OF b2] by simp
  have u4: "unat d4 = unat (d ! 4) + unat d3 div 2 ^ 26"
    unfolding d4_def by (rule carry64) (use d b3 in simp_all)
  then have b4: "unat d4 < 6 * 2 ^ 53 + 2 ^ 32" using d div_26 [OF b3] by simp
  define h0 where "h0 = (ucast ((d ! 0 AND 0x03ffffff) + ucast ((ucast (drop_bit 26 d4) :: u32) * 5)) :: u32)"
  have c: "unat d4 div 2 ^ 26 < 6 * 2 ^ 27 + 2 ^ 6" by (rule less_mult_imp_div_less) (use b4 in simp)
  have s5: "unat ((ucast (drop_bit 26 d4) :: u32) * 5) = unat d4 div 2 ^ 26 * 5"
    using c by (subst unat_times) (simp_all add: unat_down unat_shift)
  have h0: "unat h0 = unat (d ! 0) mod 2 ^ 26 + unat d4 div 2 ^ 26 * 5"
    unfolding h0_def unat_down
    using c mod_less_divisor [of "2 ^ 26" "unat (d ! 0)"]
    by (subst unat_plus) (simp_all add: s5 unat_low)
  have e: "poly_carry d = [h0 AND 0x03ffffff, ucast (d1 AND 0x03ffffff) + drop_bit 26 h0, ucast (d2 AND 0x03ffffff),
      ucast (d3 AND 0x03ffffff), ucast (d4 AND 0x03ffffff)]"
    by (simp add: poly_carry_def Let_def d1_def d2_def d3_def d4_def h0_def)
  have low: "unat (ucast (w AND 0x03ffffff) :: u32) = unat w mod 2 ^ 26" for w :: u64
    by (simp add: unat_down unat_low)
  have c0: "unat h0 div 2 ^ 26 < 2 ^ 6"
    by (rule less_mult_imp_div_less) (use h0 c mod_less_divisor [of "2 ^ 26" "unat (d ! 0)"] in simp)
  have h1: "unat (ucast (d1 AND 0x03ffffff) + drop_bit 26 h0) = unat d1 mod 2 ^ 26 + unat h0 div 2 ^ 26"
    using c0 mod_less_divisor [of "2 ^ 26" "unat d1"] by (subst unat_plus) (simp_all add: low unat_shift)
  have l: "unat (poly_carry d ! 0) = unat h0 mod 2 ^ 26" "unat (poly_carry d ! 1) = unat d1 mod 2 ^ 26 + unat h0 div 2 ^ 26"
    "unat (poly_carry d ! 2) = unat d2 mod 2 ^ 26" "unat (poly_carry d ! 3) = unat d3 mod 2 ^ 26"
    "unat (poly_carry d ! 4) = unat d4 mod 2 ^ 26" "length (poly_carry d) = 5"
    by (simp_all add: e low h1) (simp add: unat_low)
  show "limbs_ok (poly_carry d)" unfolding limbs_ok_def l using c0 by simp
  have "pv (poly_carry d) + unat d4 div 2 ^ 26 * poly_prime =
      unat (d ! 0) + unat (d ! 1) * 2 ^ 26 + unat (d ! 2) * 2 ^ 52 + unat (d ! 3) * 2 ^ 78 + unat (d ! 4) * 2 ^ 104"
    unfolding pv_def l
    by (rule carry_identity [of _ "unat (d ! 0) div 2 ^ 26" "unat (d ! 0) mod 2 ^ 26" _ "unat d1 div 2 ^ 26" _ _
          "unat d2 div 2 ^ 26" _ _ "unat d3 div 2 ^ 26"])
      (simp_all only: u1 [symmetric] u2 [symmetric] u3 [symmetric] u4 [symmetric] h0 [symmetric] div_mult_mod_eq)
  then show "pv (poly_carry d) mod poly_prime = (unat (d ! 0) + unat (d ! 1) * 2 ^ 26 + unat (d ! 2) * 2 ^ 52 +
      unat (d ! 3) * 2 ^ 78 + unat (d ! 4) * 2 ^ 104) mod poly_prime"
    using mod_mult_self1 [of "pv (poly_carry d)" "unat d4 div 2 ^ 26" poly_prime] by (simp only:)
qed

section \<open>The product\<close>

lemma unat_sum5:
  fixes a b c d e :: u64
  assumes "unat a + unat b + unat c + unat d + unat e < 2 ^ 64"
  shows "unat (a + b + c + d + e) = unat a + unat b + unat c + unat d + unat e"
  using assms unat_plus [of a b] unat_plus [of "a + b" c] unat_plus [of "a + b + c" d] unat_plus [of "a + b + c + d" e]
  by simp

lemma unat_prod:
  "unat h < 2 ^ 28 \<Longrightarrow> unat r < 2 ^ 26 \<Longrightarrow> unat (ucast h * ucast r :: u64) = unat h * unat (r :: u32)"
  "unat h < 2 ^ 28 \<Longrightarrow> unat r < 2 ^ 26 \<Longrightarrow> unat (ucast h * ucast r * 5 :: u64) = unat h * unat r * 5"
  for h :: u32
proof -
  assume h: "unat h < 2 ^ 28" "unat r < 2 ^ 26"
  then have b: "unat h * unat r < 2 ^ 28 * 2 ^ 26" by (intro mult_strict_mono) simp_all
  then show p: "unat (ucast h * ucast r :: u64) = unat h * unat r" by (subst unat_times) simp_all
  then show "unat (ucast h * ucast r * 5 :: u64) = unat h * unat r * 5" using b by (subst unat_times) simp_all
qed

definition rv :: "u32 \<times> u32 \<times> u32 \<times> u32 \<times> u32 \<Rightarrow> nat" where
  "rv r = (case r of (r0, r1, r2, r3, r4) \<Rightarrow> pv [r0, r1, r2, r3, r4])"

definition key_ok :: "u32 \<times> u32 \<times> u32 \<times> u32 \<times> u32 \<Rightarrow> bool" where
  "key_ok r \<longleftrightarrow> (case r of (r0, r1, r2, r3, r4) \<Rightarrow> unat r0 < 2 ^ 26 \<and> unat r1 < 2 ^ 26 \<and> unat r2 < 2 ^ 26 \<and>
     unat r3 < 2 ^ 26 \<and> unat r4 < 2 ^ 20)"

definition added_ok :: "u32 list \<Rightarrow> bool" where
  "added_ok h \<longleftrightarrow> (\<forall>i<4. unat (h ! i) < 2 ^ 27 + 2 ^ 7) \<and> unat (h ! 4) < 2 ^ 27"

lemma mul_identity:
  fixes h0 :: nat
  assumes P: "P + 5 = B ^ 5"
  shows "(h0 * r0 + h1 * r4 * 5 + h2 * r3 * 5 + h3 * r2 * 5 + h4 * r1 * 5) +
      (h0 * r1 + h1 * r0 + h2 * r4 * 5 + h3 * r3 * 5 + h4 * r2 * 5) * B +
      (h0 * r2 + h1 * r1 + h2 * r0 + h3 * r4 * 5 + h4 * r3 * 5) * B ^ 2 +
      (h0 * r3 + h1 * r2 + h2 * r1 + h3 * r0 + h4 * r4 * 5) * B ^ 3 +
      (h0 * r4 + h1 * r3 + h2 * r2 + h3 * r1 + h4 * r0) * B ^ 4 +
      ((h1 * r4 + h2 * r3 + h3 * r2 + h4 * r1) + (h2 * r4 + h3 * r3 + h4 * r2) * B + (h3 * r4 + h4 * r3) * B ^ 2 +
       h4 * r4 * B ^ 3) * P =
    (h0 + h1 * B + h2 * B ^ 2 + h3 * B ^ 3 + h4 * B ^ 4) * (r0 + r1 * B + r2 * B ^ 2 + r3 * B ^ 3 + r4 * B ^ 4)"
proof -
  define k where "k = (h1 * r4 + h2 * r3 + h3 * r2 + h4 * r1) + (h2 * r4 + h3 * r3 + h4 * r2) * B +
      (h3 * r4 + h4 * r3) * B ^ 2 + h4 * r4 * B ^ 3"
  have "k * P + k * 5 = k * B ^ 5" by (simp only: P [symmetric] distrib_left)
  moreover have "(h0 * r0 + h1 * r4 * 5 + h2 * r3 * 5 + h3 * r2 * 5 + h4 * r1 * 5) +
      (h0 * r1 + h1 * r0 + h2 * r4 * 5 + h3 * r3 * 5 + h4 * r2 * 5) * B +
      (h0 * r2 + h1 * r1 + h2 * r0 + h3 * r4 * 5 + h4 * r3 * 5) * B ^ 2 +
      (h0 * r3 + h1 * r2 + h2 * r1 + h3 * r0 + h4 * r4 * 5) * B ^ 3 +
      (h0 * r4 + h1 * r3 + h2 * r2 + h3 * r1 + h4 * r0) * B ^ 4 + k * B ^ 5 =
    (h0 + h1 * B + h2 * B ^ 2 + h3 * B ^ 3 + h4 * B ^ 4) * (r0 + r1 * B + r2 * B ^ 2 + r3 * B ^ 3 + r4 * B ^ 4) + k * 5"
    unfolding k_def by algebra
  ultimately show ?thesis unfolding k_def [symmetric] by linarith
qed

lemma poly_mul_value:
  assumes h: "added_ok h" and r: "key_ok r"
  shows "products_ok (poly_mul r h)"
    and "(unat (poly_mul r h ! 0) + unat (poly_mul r h ! 1) * 2 ^ 26 + unat (poly_mul r h ! 2) * 2 ^ 52 +
      unat (poly_mul r h ! 3) * 2 ^ 78 + unat (poly_mul r h ! 4) * 2 ^ 104) mod poly_prime = pv h * rv r mod poly_prime"
proof -
  obtain r0 r1 r2 r3 r4 where re: "r = (r0, r1, r2, r3, r4)" by (cases r) auto
  have rb: "unat r0 \<le> 2 ^ 26 - 1" "unat r1 \<le> 2 ^ 26 - 1" "unat r2 \<le> 2 ^ 26 - 1" "unat r3 \<le> 2 ^ 26 - 1" "unat r4 \<le> 2 ^ 20 - 1"
    using r by (simp_all add: key_ok_def re)
  have hb: "unat (h ! 0) \<le> 2 ^ 27 + 2 ^ 7" "unat (h ! 1) \<le> 2 ^ 27 + 2 ^ 7" "unat (h ! 2) \<le> 2 ^ 27 + 2 ^ 7"
    "unat (h ! 3) \<le> 2 ^ 27 + 2 ^ 7" "unat (h ! 4) \<le> 2 ^ 27 + 2 ^ 7"
    using h by (simp_all add: added_ok_def less_imp_le)
  have hs: "unat (h ! 0) < 2 ^ 28" "unat (h ! 1) < 2 ^ 28" "unat (h ! 2) < 2 ^ 28" "unat (h ! 3) < 2 ^ 28"
    "unat (h ! 4) < 2 ^ 28" using hb by simp_all
  have rs: "unat r0 < 2 ^ 26" "unat r1 < 2 ^ 26" "unat r2 < 2 ^ 26" "unat r3 < 2 ^ 26" "unat r4 < 2 ^ 26"
    using rb by simp_all
  note ps =
    unat_prod(1) [OF hs(1) rs(1)] unat_prod(2) [OF hs(2) rs(5)] unat_prod(2) [OF hs(3) rs(4)] unat_prod(2) [OF hs(4) rs(3)] unat_prod(2) [OF hs(5) rs(2)]
    unat_prod(1) [OF hs(1) rs(2)] unat_prod(1) [OF hs(2) rs(1)] unat_prod(2) [OF hs(3) rs(5)] unat_prod(2) [OF hs(4) rs(4)] unat_prod(2) [OF hs(5) rs(3)]
    unat_prod(1) [OF hs(1) rs(3)] unat_prod(1) [OF hs(2) rs(2)] unat_prod(1) [OF hs(3) rs(1)] unat_prod(2) [OF hs(4) rs(5)] unat_prod(2) [OF hs(5) rs(4)]
    unat_prod(1) [OF hs(1) rs(4)] unat_prod(1) [OF hs(2) rs(3)] unat_prod(1) [OF hs(3) rs(2)] unat_prod(1) [OF hs(4) rs(1)] unat_prod(2) [OF hs(5) rs(5)]
    unat_prod(1) [OF hs(1) rs(5)] unat_prod(1) [OF hs(2) rs(4)] unat_prod(1) [OF hs(3) rs(3)] unat_prod(1) [OF hs(4) rs(2)] unat_prod(1) [OF hs(5) rs(1)]
  note q = mult_le_mono [OF hb(1) rb(1)] mult_le_mono [OF hb(1) rb(2)] mult_le_mono [OF hb(1) rb(3)] mult_le_mono [OF hb(1) rb(4)]
    mult_le_mono [OF hb(1) rb(5)]
    mult_le_mono [OF hb(2) rb(1)] mult_le_mono [OF hb(2) rb(2)] mult_le_mono [OF hb(2) rb(3)] mult_le_mono [OF hb(2) rb(4)]
    mult_le_mono [OF hb(3) rb(1)] mult_le_mono [OF hb(3) rb(2)] mult_le_mono [OF hb(3) rb(3)] mult_le_mono [OF hb(3) rb(4)]
    mult_le_mono [OF hb(4) rb(1)] mult_le_mono [OF hb(4) rb(2)] mult_le_mono [OF hb(4) rb(3)] mult_le_mono [OF hb(4) rb(4)]
    mult_le_mono [OF hb(5) rb(1)] mult_le_mono [OF hb(5) rb(2)] mult_le_mono [OF hb(5) rb(3)] mult_le_mono [OF hb(5) rb(4)]
    mult_le_mono [OF hb(2) rb(5)] mult_le_mono [OF hb(3) rb(5)] mult_le_mono [OF hb(4) rb(5)] mult_le_mono [OF hb(5) rb(5)]
  let ?h = "\<lambda>i. unat (h ! i)"
  let ?d0 = "?h 0 * unat r0 + ?h 1 * unat r4 * 5 + ?h 2 * unat r3 * 5 + ?h 3 * unat r2 * 5 + ?h 4 * unat r1 * 5"
  let ?d1 = "?h 0 * unat r1 + ?h 1 * unat r0 + ?h 2 * unat r4 * 5 + ?h 3 * unat r3 * 5 + ?h 4 * unat r2 * 5"
  let ?d2 = "?h 0 * unat r2 + ?h 1 * unat r1 + ?h 2 * unat r0 + ?h 3 * unat r4 * 5 + ?h 4 * unat r3 * 5"
  let ?d3 = "?h 0 * unat r3 + ?h 1 * unat r2 + ?h 2 * unat r1 + ?h 3 * unat r0 + ?h 4 * unat r4 * 5"
  let ?d4 = "?h 0 * unat r4 + ?h 1 * unat r3 + ?h 2 * unat r2 + ?h 3 * unat r1 + ?h 4 * unat r0"
  have b: "?d0 < 17 * 2 ^ 53" "?d1 < 17 * 2 ^ 53" "?d2 < 17 * 2 ^ 53" "?d3 < 17 * 2 ^ 53" "?d4 < 6 * 2 ^ 53"
    using q by simp_all
  have e: "poly_mul r h = [ucast (h ! 0) * ucast r0 + ucast (h ! 1) * ucast r4 * 5 + ucast (h ! 2) * ucast r3 * 5 +
        ucast (h ! 3) * ucast r2 * 5 + ucast (h ! 4) * ucast r1 * 5,
      ucast (h ! 0) * ucast r1 + ucast (h ! 1) * ucast r0 + ucast (h ! 2) * ucast r4 * 5 +
        ucast (h ! 3) * ucast r3 * 5 + ucast (h ! 4) * ucast r2 * 5,
      ucast (h ! 0) * ucast r2 + ucast (h ! 1) * ucast r1 + ucast (h ! 2) * ucast r0 +
        ucast (h ! 3) * ucast r4 * 5 + ucast (h ! 4) * ucast r3 * 5,
      ucast (h ! 0) * ucast r3 + ucast (h ! 1) * ucast r2 + ucast (h ! 2) * ucast r1 +
        ucast (h ! 3) * ucast r0 + ucast (h ! 4) * ucast r4 * 5,
      ucast (h ! 0) * ucast r4 + ucast (h ! 1) * ucast r3 + ucast (h ! 2) * ucast r2 +
        ucast (h ! 3) * ucast r1 + ucast (h ! 4) * ucast r0]"
    by (simp only: poly_mul_def re Let_def map_prod_simp prod.case)
  have n: "xs ! 0 = a" "xs ! 1 = b" "xs ! 2 = c" "xs ! 3 = d" "xs ! 4 = f" if "xs = [a, b, c, d, f]" for xs and a b c d f :: u64
    unfolding that by simp_all
  have lt: "x < 2 ^ 64" if "x < 17 * 2 ^ 53 \<or> x < 6 * 2 ^ 53" for x :: nat
    using that by (elim disjE) (erule order_less_trans, simp)+
  have d: "unat (poly_mul r h ! 0) = ?d0" "unat (poly_mul r h ! 1) = ?d1" "unat (poly_mul r h ! 2) = ?d2"
    "unat (poly_mul r h ! 3) = ?d3" "unat (poly_mul r h ! 4) = ?d4"
    unfolding n [OF e] by (subst unat_sum5; unfold ps; intro lt refl; use b in blast)+
  show "products_ok (poly_mul r h)"
    unfolding products_ok_def
  proof (intro conjI allI impI)
    fix i :: nat assume "i < 4"
    then consider "i = 0" | "i = 1" | "i = 2" | "i = 3" by linarith
    then show "unat (poly_mul r h ! i) < 17 * 2 ^ 53" by cases (simp_all only: d b)
  qed (simp only: d b)
  show "(unat (poly_mul r h ! 0) + unat (poly_mul r h ! 1) * 2 ^ 26 + unat (poly_mul r h ! 2) * 2 ^ 52 +
      unat (poly_mul r h ! 3) * 2 ^ 78 + unat (poly_mul r h ! 4) * 2 ^ 104) mod poly_prime = pv h * rv r mod poly_prime"
  proof -
    have P: "poly_prime + 5 = (2 ^ 26) ^ 5" by (simp add: poly_prime_def)
    have B: "(2 :: nat) ^ 52 = (2 ^ 26) ^ 2" "(2 :: nat) ^ 78 = (2 ^ 26) ^ 3" "(2 :: nat) ^ 104 = (2 ^ 26) ^ 4"
      by (simp_all only: power_mult [symmetric]) simp_all
    have R: "rv r = unat r0 + unat r1 * 2 ^ 26 + unat r2 * (2 ^ 26) ^ 2 + unat r3 * (2 ^ 26) ^ 3 + unat r4 * (2 ^ 26) ^ 4"
      by (simp add: rv_def pv_def re B)
    show ?thesis
      unfolding d pv_def R B mul_identity [OF P, symmetric] by (simp only: mod_mult_self1)
  qed
qed

section \<open>Blocks and the key as numbers\<close>

primrec le_nat :: "u8 list \<Rightarrow> nat" where
  "le_nat [] = 0"
| "le_nat (b # bs) = unat b + 256 * le_nat bs"

lemma le_nat_append: "le_nat (xs @ ys) = le_nat xs + 256 ^ length xs * le_nat ys"
  by (induction xs) (simp_all add: algebra_simps)

lemma le_nat_bound: "le_nat bs < 256 ^ length bs"
proof (induction bs)
  case (Cons b bs)
  have "unat b < 256" using unsigned_less [of b, where 'a = nat] by simp
  then show ?case using Cons by simp
qed simp

lemma le_word_of_nat: "le_word bs = (word_of_nat (le_nat bs) :: 'a::len word)"
proof (induction bs)
  case (Cons b bs)
  have b: "\<not> bit b n" if "8 \<le> n" for n using bit_imp_le_length [of b n] that by auto
  have "ucast b OR push_bit 8 (le_word bs) = (ucast b + push_bit 8 (le_word bs) :: 'a word)"
    by (rule disjunctive_add_eq_or [symmetric]) (rule bit_word_eqI, simp add: bit_simps, use b in force)
  then show ?case by (simp add: Cons push_bit_eq_mult mult.commute of_nat_unat)
qed simp

lemma unat_le_word: "8 * length bs \<le> LENGTH('a) \<Longrightarrow> unat (le_word bs :: 'a::len word) = le_nat bs"
proof -
  assume l: "8 * length bs \<le> LENGTH('a)"
  have "le_nat bs < (2 ^ 8) ^ length bs" using le_nat_bound [of bs] by simp
  also have "\<dots> \<le> 2 ^ LENGTH('a)" unfolding power_mult [symmetric] by (rule power_increasing [OF l]) simp
  finally show ?thesis by (simp add: le_word_of_nat unat_of_nat)
qed

text \<open>The limbs of a 128-bit number, and the words the code takes them from.\<close>

definition limb_of :: "128 word \<Rightarrow> nat \<Rightarrow> u32" where
  "limb_of x i = ucast (take_bit 26 (drop_bit (26 * i) x))"

lemma words32_word:
  assumes "length bs = 16"
  shows "words32 4 bs = map (\<lambda>i. ucast (drop_bit (32 * i) (le_word bs :: 128 word))) [0..<4]"
  unfolding words32_def
proof (rule map_cong [OF refl])
  fix i assume "i \<in> set [0..<4]"
  then have i: "i < 4" by simp
  have l: "4 \<le> length (drop (4 * i) bs)" using i assms by simp
  show "UInt32GetLE (drop (4 * i) bs) = ucast (drop_bit (32 * i) (le_word bs :: 128 word))"
    unfolding UInt32GetLE_le [OF l]
  proof (rule bit_word_eqI)
    fix k assume k: "k < LENGTH(32)"
    have "(32 * i + k) mod 8 = (k + 4 * i * 8) mod 8" by (simp add: add.commute)
    then have d: "(32 * i + k) div 8 = 4 * i + k div 8" "(32 * i + k) mod 8 = k mod 8"
      unfolding mod_mult_self1 by simp_all
    have "k div 8 < 4" using k by (simp add: less_mult_imp_div_less)
    then show "bit (le_word (take 4 (drop (4 * i) bs)) :: u32) k = bit (ucast (drop_bit (32 * i) (le_word bs :: 128 word)) :: u32) k"
      using k i assms by (simp add: bit_le_word bit_simps d)
  qed
qed

lemma limbs_of_words:
  fixes x :: "128 word"
  assumes t_def: "t = (\<lambda>i. (ucast (drop_bit (32 * i) x) :: u32))"
  shows "t 0 AND 0x03ffffff = limb_of x 0"
    and "(drop_bit 26 (t 0) OR push_bit 6 (t 1)) AND 0x03ffffff = limb_of x 1"
    and "(drop_bit 20 (t 1) OR push_bit 12 (t 2)) AND 0x03ffffff = limb_of x 2"
    and "(drop_bit 14 (t 2) OR push_bit 18 (t 3)) AND 0x03ffffff = limb_of x 3"
    and "drop_bit 8 (t 3) = limb_of x 4"
proof -
  have m: "(0x03ffffff :: u32) = mask 26" by (simp add: mask_eq_exp_minus_1)
  show "t 0 AND 0x03ffffff = limb_of x 0"
    "(drop_bit 26 (t 0) OR push_bit 6 (t 1)) AND 0x03ffffff = limb_of x 1"
    "(drop_bit 20 (t 1) OR push_bit 12 (t 2)) AND 0x03ffffff = limb_of x 2"
    "(drop_bit 14 (t 2) OR push_bit 18 (t 3)) AND 0x03ffffff = limb_of x 3"
    unfolding m t_def limb_of_def
    by (rule bit_word_eqI; auto simp: bit_simps)+
  show "drop_bit 8 (t 3) = limb_of x 4"
    unfolding t_def limb_of_def
    by (rule bit_word_eqI) (use bit_imp_le_length [of x] in \<open>fastforce simp: bit_simps\<close>)
qed

lemma unat_limb_of: "unat (limb_of x i) = unat x div 2 ^ (26 * i) mod 2 ^ 26"
proof -
  have "unat (take_bit 26 (drop_bit (26 * i) x)) = unat x div 2 ^ (26 * i) mod 2 ^ 26"
    by (simp only: unsigned_take_bit_eq unat_shift) (simp add: take_bit_eq_mod)
  then show ?thesis
    unfolding limb_of_def unsigned_ucast_eq by (simp add: take_bit_eq_mod mod_mod_cancel)
qed

lemma limb_of_bound: "unat (limb_of x i) < 2 ^ 26" "unat (limb_of x 4) < 2 ^ 24"
proof -
  show "unat (limb_of x i) < 2 ^ 26" unfolding unat_limb_of by simp
  have "unat x < 2 ^ 24 * 2 ^ 104" using unsigned_less [of x, where 'a = nat] by simp
  then have "unat x div 2 ^ 104 < 2 ^ 24" by (rule less_mult_imp_div_less)
  then show "unat (limb_of x 4) < 2 ^ 24" unfolding unat_limb_of by simp
qed

lemma split_limbs:
  fixes n :: nat
  assumes "n < 2 ^ 130"
  shows "n mod 2 ^ 26 + n div 2 ^ 26 mod 2 ^ 26 * 2 ^ 26 + n div 2 ^ 52 mod 2 ^ 26 * 2 ^ 52 +
    n div 2 ^ 78 mod 2 ^ 26 * 2 ^ 78 + n div 2 ^ 104 mod 2 ^ 26 * 2 ^ 104 = n"
proof -
  have s: "n div 2 ^ j mod 2 ^ 26 * 2 ^ j + n div 2 ^ k * 2 ^ k = n div 2 ^ j * 2 ^ j" if "k = j + 26" for j k
  proof -
    have "n div 2 ^ k = n div 2 ^ j div 2 ^ 26" by (simp only: that power_add div_mult2_eq)
    moreover have "n div 2 ^ j mod 2 ^ 26 + n div 2 ^ j div 2 ^ 26 * 2 ^ 26 = n div 2 ^ j" by (rule mod_div_mult_eq)
    ultimately show ?thesis
      by (simp only: that power_add mult.commute [of "2 ^ j" "2 ^ 26"] mult.assoc [symmetric] distrib_right [symmetric])
  qed
  have "n div 2 ^ 104 < 2 ^ 26" by (rule less_mult_imp_div_less) (use assms in simp)
  then have "n div 2 ^ 104 mod 2 ^ 26 = n div 2 ^ 104" by (rule mod_less)
  moreover have "n mod 2 ^ 26 + n div 2 ^ 26 * 2 ^ 26 = n" by (rule mod_div_mult_eq)
  moreover have "n div 2 ^ 26 mod 2 ^ 26 * 2 ^ 26 + n div 2 ^ 52 * 2 ^ 52 = n div 2 ^ 26 * 2 ^ 26"
    "n div 2 ^ 52 mod 2 ^ 26 * 2 ^ 52 + n div 2 ^ 78 * 2 ^ 78 = n div 2 ^ 52 * 2 ^ 52"
    "n div 2 ^ 78 mod 2 ^ 26 * 2 ^ 78 + n div 2 ^ 104 * 2 ^ 104 = n div 2 ^ 78 * 2 ^ 78"
    by (rule s, simp)+
  ultimately show ?thesis by (simp only: add.assoc)
qed

lemma pv_limbs: "pv [limb_of x 0, limb_of x 1, limb_of x 2, limb_of x 3, limb_of x 4] = unat x"
  using split_limbs [of "unat x"] unsigned_less [of x, where 'a = nat]
  by (simp add: pv_def unat_limb_of)

lemma limb_of_and: "limb_of (x AND m) i = limb_of x i AND limb_of m i"
  unfolding limb_of_def by (rule bit_word_eqI) (auto simp: bit_simps)

definition clamp :: "128 word" where
  "clamp = 0x0ffffffc0ffffffc0ffffffc0fffffff"

lemma limb_of_clamp:
  "limb_of clamp 0 = 0x03ffffff" "limb_of clamp 1 = 0x03ffff03" "limb_of clamp 2 = 0x03ffc0ff"
  "limb_of clamp 3 = 0x03f03fff" "limb_of clamp 4 = 0x000fffff"
  by (simp_all add: limb_of_def clamp_def)

lemma words32_take: "4 * n \<le> length bs \<Longrightarrow> 4 * n = m \<Longrightarrow> words32 n (take m bs) = words32 n bs"
  unfolding words32_def
  by (rule map_cong [OF refl]) (auto simp: UInt32GetLE_def)

lemma poly_r_limbs:
  assumes "16 \<le> length key"
  defines "x \<equiv> le_word (take 16 key) AND clamp"
  shows "poly_r key = (limb_of x 0, limb_of x 1, limb_of x 2, limb_of x 3, limb_of x 4)"
proof -
  define y t where "y = (le_word (take 16 key) :: 128 word)" and "t = (\<lambda>i. (ucast (drop_bit (32 * i) y) :: u32))"
  have "words32 4 key = words32 4 (take 16 key)" by (rule words32_take [symmetric]) (use assms(1) in simp_all)
  also have "\<dots> = map t [0..<4]" unfolding t_def y_def by (rule words32_word) (use assms(1) in simp)
  finally have w: "words32 4 key ! 0 = t 0" "words32 4 key ! 1 = t 1" "words32 4 key ! 2 = t 2" "words32 4 key ! 3 = t 3"
    by (simp_all add: numeral_2_eq_2)
  have m: "z AND 0x03ffff03 = (z AND 0x03ffffff) AND 0x03ffff03" "z AND 0x03ffc0ff = (z AND 0x03ffffff) AND 0x03ffc0ff"
    "z AND 0x03f03fff = (z AND 0x03ffffff) AND 0x03f03fff" for z :: u32
    by (simp_all add: and.assoc)
  have l0: "limb_of y 0 AND 0x03ffffff = limb_of y 0"
    unfolding limbs_of_words(1) [OF t_def, symmetric] and.assoc by simp
  show ?thesis
    unfolding poly_r_def w Let_def x_def y_def [symmetric] limb_of_and limb_of_clamp
      m(1) [of "drop_bit 26 (t 0) OR push_bit 6 (t 1)"] m(2) [of "drop_bit 20 (t 1) OR push_bit 12 (t 2)"]
      m(3) [of "drop_bit 14 (t 2) OR push_bit 18 (t 3)"]
    unfolding limbs_of_words [OF t_def] l0 by (rule refl)
qed

lemma rv_poly_r:
  assumes "16 \<le> length key"
  shows "rv (poly_r key) = unat (le_word (take 16 key) AND clamp)" and "key_ok (poly_r key)"
proof -
  define x where "x = le_word (take 16 key) AND clamp"
  note r = poly_r_limbs [OF assms, folded x_def]
  show "rv (poly_r key) = unat (le_word (take 16 key) AND clamp)"
    unfolding r rv_def prod.case pv_limbs by (simp add: x_def)
  have "limb_of x 4 = take_bit 20 (limb_of x 4)"
  proof -
    have "(0x000fffff :: u32) = mask 20" by (simp add: mask_eq_exp_minus_1)
    then have "limb_of x 4 = limb_of (le_word (take 16 key)) 4 AND mask 20"
      by (simp add: x_def limb_of_and limb_of_clamp)
    then show ?thesis by (simp add: take_bit_eq_mask and.assoc)
  qed
  then have "unat (limb_of x 4) = unat (limb_of x 4) mod 2 ^ 20"
    by (metis take_bit_eq_mod unsigned_take_bit_eq)
  then have "unat (limb_of x 4) < 2 ^ 20" by (metis mod_less_divisor zero_less_numeral zero_less_power)
  then show "key_ok (poly_r key)"
    unfolding r key_ok_def prod.case using limb_of_bound(1) by blast
qed

section \<open>Adding a block\<close>

lemma unat_limb_plus: "unat a < 2 ^ 28 \<Longrightarrow> unat b < 2 ^ 28 \<Longrightarrow> unat (a + b) = unat a + unat (b :: u32)"
  by (rule unat_plus) simp

lemma limbs_ok_added:
  assumes h: "limbs_ok h" and c: "length chunk \<le> 16" "chunk \<noteq> []"
  shows "added_ok (poly_add h chunk)" and "pv (poly_add h chunk) = pv h + le_nat (chunk @ [1])"
proof -
  define bs where "bs = poly_x chunk"
  define x t where "x = (le_word bs :: 128 word)" and "t = (\<lambda>i. (ucast (drop_bit (32 * i) x) :: u32))"
  have lb: "length bs = 16" using c by (simp add: bs_def poly_x_def)
  have w: "words32 4 bs ! 0 = t 0" "words32 4 bs ! 1 = t 1" "words32 4 bs ! 2 = t 2" "words32 4 bs ! 3 = t 3"
    unfolding words32_word [OF lb] t_def x_def by (simp_all add: numeral_2_eq_2)
  define hi :: u32 where "hi = (if 16 \<le> length chunk then push_bit 24 1 else 0)"
  have e: "poly_add h chunk = [h ! 0 + limb_of x 0, h ! 1 + limb_of x 1, h ! 2 + limb_of x 2, h ! 3 + limb_of x 3,
      h ! 4 + (limb_of x 4 OR hi)]"
    unfolding poly_add_def bs_def [symmetric] w Let_def limbs_of_words [OF t_def] hi_def by (rule refl)
  have "limb_of x 4 AND hi = 0"
  proof (rule bit_word_eqI)
    fix n
    have "n = 24" if "bit hi n" using that unfolding hi_def by (auto simp only: bit_push_bit_iff bit_1_iff bit_0_eq split: if_splits)
    moreover have "n < 24" if "bit (limb_of x 4) n"
      using that bit_imp_le_length [of "t 3" "8 + n"] unfolding limbs_of_words(5) [OF t_def, symmetric] bit_drop_bit_eq by simp
    ultimately show "bit (limb_of x 4 AND hi) n = bit 0 n" by (auto simp: bit_and_iff)
  qed
  then have o: "limb_of x 4 OR hi = limb_of x 4 + hi" by (rule disjunctive_add_eq_or [symmetric])
  have uhi: "unat hi = (if 16 \<le> length chunk then 2 ^ 24 else 0)" by (simp add: hi_def)
  have ux: "unat x + unat hi * 2 ^ 104 = le_nat (chunk @ [1])"
  proof -
    have "unat x = le_nat bs" unfolding x_def by (rule unat_le_word) (simp add: lb)
    moreover have "le_nat bs + unat hi * 2 ^ 104 = le_nat (chunk @ [1])"
    proof (cases "length chunk = 16")
      case True
      have "(256 :: nat) ^ 16 = 2 ^ 24 * 2 ^ 104" by simp
      then show ?thesis by (simp add: bs_def poly_x_def True uhi le_nat_append)
    next
      case False
      then obtain k where k: "16 - length chunk = Suc k" using c by (cases "16 - length chunk") auto
      have "bs = (chunk @ [1]) @ replicate k 0"
        using False c unfolding bs_def poly_x_def k by (simp add: list_update_append)
      moreover have "le_nat (replicate k 0) = 0" by (induction k) simp_all
      ultimately show ?thesis using False c by (simp add: uhi le_nat_append [of "chunk @ [1]"] del: append_assoc)
    qed
    ultimately show ?thesis by simp
  qed
  have hb: "unat (h ! 0) < 2 ^ 26" "unat (h ! 1) < 2 ^ 26 + 2 ^ 7" "unat (h ! 2) < 2 ^ 26" "unat (h ! 3) < 2 ^ 26"
    "unat (h ! 4) < 2 ^ 26" using h by (simp_all add: limbs_ok_def)
  have o': "unat (limb_of x 4 + hi) = unat (limb_of x 4) + unat hi"
    using limb_of_bound(2) [of x] uhi by (subst unat_plus) (simp_all split: if_splits)
  have bhi: "unat (limb_of x 4 + hi) < 2 ^ 25" using limb_of_bound(2) [of x] uhi unfolding o' by simp
  have n: "xs ! 0 = a" "xs ! 1 = b" "xs ! 2 = c" "xs ! 3 = d" "xs ! 4 = f" if "xs = [a, b, c, d, f]" for xs and a b c d f :: u32
    unfolding that by simp_all
  have u: "unat (poly_add h chunk ! 0) = unat (h ! 0) + unat (limb_of x 0)"
    "unat (poly_add h chunk ! 1) = unat (h ! 1) + unat (limb_of x 1)"
    "unat (poly_add h chunk ! 2) = unat (h ! 2) + unat (limb_of x 2)"
    "unat (poly_add h chunk ! 3) = unat (h ! 3) + unat (limb_of x 3)"
    "unat (poly_add h chunk ! 4) = unat (h ! 4) + (unat (limb_of x 4) + unat hi)"
    unfolding n [OF e] o o' [symmetric] using hb limb_of_bound(1) [of x 0] limb_of_bound(1) [of x 1]
      limb_of_bound(1) [of x 2] limb_of_bound(1) [of x 3] bhi
    by (intro unat_limb_plus; simp)+
  have b: "unat (poly_add h chunk ! 0) < 2 ^ 27 + 2 ^ 7" "unat (poly_add h chunk ! 1) < 2 ^ 27 + 2 ^ 7"
    "unat (poly_add h chunk ! 2) < 2 ^ 27 + 2 ^ 7" "unat (poly_add h chunk ! 3) < 2 ^ 27 + 2 ^ 7"
    "unat (poly_add h chunk ! 4) < 2 ^ 27"
    unfolding u o' [symmetric] using hb limb_of_bound(1) [of x 0] limb_of_bound(1) [of x 1]
      limb_of_bound(1) [of x 2] limb_of_bound(1) [of x 3] bhi
    by simp_all
  show "added_ok (poly_add h chunk)"
    unfolding added_ok_def
  proof (intro conjI allI impI b)
    fix i :: nat assume "i < 4"
    then consider "i = 0" | "i = 1" | "i = 2" | "i = 3" by linarith
    then show "unat (poly_add h chunk ! i) < 2 ^ 27 + 2 ^ 7" by cases (simp_all only: b)
  qed
  show "pv (poly_add h chunk) = pv h + le_nat (chunk @ [1])"
    using pv_limbs [of x] unfolding pv_def u ux [symmetric] by simp
qed

section \<open>The loop over the message\<close>

text \<open>The polynomial as RFC 7539 has it, on numbers.\<close>

function poly_acc :: "nat \<Rightarrow> nat \<Rightarrow> u8 list \<Rightarrow> nat" where
  "poly_acc r a data =
     (if data = [] then a
      else poly_acc r ((a + le_nat (take 16 data @ [1])) * r mod poly_prime) (drop 16 data))"
  by auto
termination by (relation "measure (\<lambda>(r, a, data). length data)") auto

declare poly_acc.simps [simp del]

lemma poly_step_value:
  assumes "limbs_ok h" "length chunk \<le> 16" "chunk \<noteq> []" "16 \<le> length key"
  shows "limbs_ok (poly_step key h chunk)"
    and "pv (poly_step key h chunk) mod poly_prime = (pv h + le_nat (chunk @ [1])) * rv (poly_r key) mod poly_prime"
proof -
  note a = limbs_ok_added [OF assms(1-3)]
  note m = poly_mul_value [OF a(1) rv_poly_r(2) [OF assms(4)]]
  note c = poly_carry_value [OF m(1)]
  show "limbs_ok (poly_step key h chunk)" unfolding poly_step_def by (rule c(1))
  show "pv (poly_step key h chunk) mod poly_prime = (pv h + le_nat (chunk @ [1])) * rv (poly_r key) mod poly_prime"
    unfolding poly_step_def c(2) m(2) a(2) by (rule refl)
qed

lemma poly_loop_value:
  "16 \<le> length key \<Longrightarrow> limbs_ok h \<Longrightarrow> limbs_ok (poly_loop key h data) \<and>
    pv (poly_loop key h data) mod poly_prime = poly_acc (rv (poly_r key)) (pv h mod poly_prime) data mod poly_prime"
proof (induction key h data rule: poly_loop.induct)
  case (1 key h data)
  show ?case
  proof (cases "data = []")
    case True
    then show ?thesis using "1.prems" by (simp add: poly_loop.simps poly_acc.simps)
  next
    case False
    let ?h = "poly_step key h (take 16 data)"
    have s: "limbs_ok ?h" "pv ?h mod poly_prime = (pv h + le_nat (take 16 data @ [1])) * rv (poly_r key) mod poly_prime"
      by (rule poly_step_value; use "1.prems" False in simp)+
    have "(pv h mod poly_prime + le_nat (take 16 data @ [1])) * rv (poly_r key) mod poly_prime = pv ?h mod poly_prime"
      unfolding s(2) by (metis mod_mult_left_eq mod_add_left_eq)
    then show ?thesis
      using "1.IH" [OF False "1.prems"(1) s(1)] False
      by (simp add: poly_loop.simps [of key h data] poly_acc.simps [of _ _ data])
  qed
qed

lemma poly_acc_bound: "a < poly_prime \<Longrightarrow> poly_acc r a data < poly_prime"
proof (induction r a data rule: poly_acc.induct)
  case (1 r a data)
  have "0 < poly_prime" by (simp add: poly_prime_def)
  then show ?case using 1 by (subst poly_acc.simps) simp
qed

section \<open>The final reduction and the pad\<close>

definition limbs_full :: "u32 list \<Rightarrow> bool" where
  "limbs_full h \<longleftrightarrow> length h = 5 \<and> (\<forall>i<5. unat (h ! i) < 2 ^ 26)"

lemma limbs_full_list:
  "limbs_full [a, b, c, d, e] \<longleftrightarrow>
     unat a < 2 ^ 26 \<and> unat b < 2 ^ 26 \<and> unat c < 2 ^ 26 \<and> unat d < 2 ^ 26 \<and> unat e < 2 ^ 26"
proof -
  have n5: "(5 :: nat) = Suc (Suc (Suc (Suc (Suc 0))))" by simp
  have "(\<forall>i<5. P i) \<longleftrightarrow>
      P 0 \<and> P (Suc 0) \<and> P (Suc (Suc 0)) \<and> P (Suc (Suc (Suc 0))) \<and> P (Suc (Suc (Suc (Suc 0))))" for P :: "nat \<Rightarrow> bool"
    unfolding n5 All_less_Suc by auto
  then show ?thesis unfolding limbs_full_def by simp
qed

lemma limbs_full_cases:
  assumes "limbs_full h"
  obtains a b c d e where "h = [a, b, c, d, e]"
proof -
  have "length h = Suc (Suc (Suc (Suc (Suc 0))))" using assms by (simp add: limbs_full_def)
  then show ?thesis using that by (auto simp: length_Suc_conv)
qed

lemma poly_full_carry_value:
  assumes "limbs_ok h"
  shows "limbs_full (poly_full_carry h)" and "pv (poly_full_carry h) mod poly_prime = pv h mod poly_prime"
proof -
  have hb: "unat (h ! 0) < 2 ^ 26" "unat (h ! 1) < 2 ^ 26 + 2 ^ 7" "unat (h ! 2) < 2 ^ 26" "unat (h ! 3) < 2 ^ 26"
    "unat (h ! 4) < 2 ^ 26" using assms by (simp_all add: limbs_ok_def)
  define h2 h3 h4 h0 where "h2 = h ! 2 + drop_bit 26 (h ! 1)" and "h3 = h ! 3 + drop_bit 26 h2"
    and "h4 = h ! 4 + drop_bit 26 h3" and "h0 = h ! 0 + drop_bit 26 h4 * 5"
  have c1: "unat (h ! 1) div 2 ^ 26 \<le> 1" using hb by simp
  have u2: "unat h2 = unat (h ! 2) + unat (h ! 1) div 2 ^ 26"
    unfolding h2_def using hb c1 by (subst unat_limb_plus) (simp_all add: unat_shift)
  have c2: "unat h2 div 2 ^ 26 \<le> unat (h ! 1) div 2 ^ 26" using u2 hb c1 by simp
  have u3: "unat h3 = unat (h ! 3) + unat h2 div 2 ^ 26"
    unfolding h3_def using hb c1 c2 by (subst unat_limb_plus) (simp_all add: unat_shift)
  have c3: "unat h3 div 2 ^ 26 \<le> unat h2 div 2 ^ 26" using u3 hb c1 c2 by simp
  have u4: "unat h4 = unat (h ! 4) + unat h3 div 2 ^ 26"
    unfolding h4_def using hb c1 c2 c3 by (subst unat_limb_plus) (simp_all add: unat_shift)
  have c4: "unat h4 div 2 ^ 26 \<le> unat h3 div 2 ^ 26" using u4 hb c1 c2 c3 by simp
  have s4: "unat (drop_bit 26 h4 * 5) = unat h4 div 2 ^ 26 * 5"
    using c1 c2 c3 c4 by (subst unat_times) (simp_all add: unat_shift)
  have u0: "unat h0 = unat (h ! 0) + unat h4 div 2 ^ 26 * 5"
    unfolding h0_def using hb c1 c2 c3 c4 s4 by (subst unat_limb_plus) simp_all
  have c0: "unat h0 div 2 ^ 26 \<le> unat h4 div 2 ^ 26" 
  proof -
    have "unat h4 div 2 ^ 26 = 0 \<or> unat h4 div 2 ^ 26 = 1" using c1 c2 c3 c4 by linarith
    then have "unat h0 < Suc (unat h4 div 2 ^ 26) * 2 ^ 26" using u0 hb by (elim disjE) simp_all
    then show ?thesis by (intro less_Suc_eq_le [THEN iffD1] less_mult_imp_div_less)
  qed
  have m1: "unat (h ! 1) mod 2 ^ 26 + unat h0 div 2 ^ 26 < 2 ^ 26"
  proof (cases "unat (h ! 1) div 2 ^ 26 = 0")
    case True
    then show ?thesis using c0 c1 c2 c3 c4 by simp
  next
    case False
    then have d: "unat (h ! 1) div 2 ^ 26 = 1" using c1 by linarith
    have "unat (h ! 1) mod 2 ^ 26 + 1 * 2 ^ 26 = unat (h ! 1)"
      using mod_div_mult_eq [of "unat (h ! 1)" "2 ^ 26"] unfolding d .
    then have "unat (h ! 1) mod 2 ^ 26 < 2 ^ 7" using hb by linarith
    then show ?thesis using c0 c1 c2 c3 c4 by simp
  qed
  have e: "poly_full_carry h = [h0 AND 0x03ffffff, (h ! 1 AND 0x03ffffff) + drop_bit 26 h0, h2 AND 0x03ffffff,
      h3 AND 0x03ffffff, h4 AND 0x03ffffff]"
    by (simp add: poly_full_carry_def Let_def h0_def h2_def h3_def h4_def)
  have m1': "unat ((h ! 1 AND 0x03ffffff) + drop_bit 26 h0) = unat (h ! 1) mod 2 ^ 26 + unat h0 div 2 ^ 26"
    using m1 by (subst unat_plus) (simp_all add: unat_low unat_shift)
  have l: "unat (poly_full_carry h ! 0) = unat h0 mod 2 ^ 26"
    "unat (poly_full_carry h ! 1) = unat (h ! 1) mod 2 ^ 26 + unat h0 div 2 ^ 26"
    "unat (poly_full_carry h ! 2) = unat h2 mod 2 ^ 26" "unat (poly_full_carry h ! 3) = unat h3 mod 2 ^ 26"
    "unat (poly_full_carry h ! 4) = unat h4 mod 2 ^ 26" "length (poly_full_carry h) = 5"
    using m1' by (simp_all add: e unat_low)
  show "limbs_full (poly_full_carry h)"
    unfolding limbs_full_def
  proof (intro conjI allI impI l(6))
    fix i :: nat assume "i < 5"
    then consider "i = 0" | "i = 1" | "i = 2" | "i = 3" | "i = 4" by linarith
    then show "unat (poly_full_carry h ! i) < 2 ^ 26" by cases (simp_all only: l m1, simp_all)
  qed
  have "pv (poly_full_carry h) + unat h4 div 2 ^ 26 * poly_prime = pv h"
    unfolding pv_def l
    by (rule carry_identity [of _ 0 "unat (h ! 0)" _ "unat (h ! 1) div 2 ^ 26" _ _ "unat h2 div 2 ^ 26" _ _ "unat h3 div 2 ^ 26"])
      (simp_all only: u0 [symmetric] u2 [symmetric] u3 [symmetric] u4 [symmetric] div_mult_mod_eq mult_0 add_0 add_0_right)
  then show "pv (poly_full_carry h) mod poly_prime = pv h mod poly_prime"
    using mod_mult_self1 [of "pv (poly_full_carry h)" "unat h4 div 2 ^ 26" poly_prime] by (simp only:)
qed

lemma all_ones: "(0 :: u32) - 1 = NOT 0" "NOT (0 - 1) = (0 :: u32)"
  by simp_all

lemma poly_select_value:
  assumes "limbs_full h"
  shows "limbs_full (poly_select h)" and "pv (poly_select h) = pv h mod poly_prime"
proof -
  have hb: "unat (h ! 0) < 2 ^ 26" "unat (h ! 1) < 2 ^ 26" "unat (h ! 2) < 2 ^ 26" "unat (h ! 3) < 2 ^ 26"
    "unat (h ! 4) < 2 ^ 26" using assms by (simp_all add: limbs_full_def)
  define t0 t1 t2 t3 where "t0 = h ! 0 + 5" and "t1 = h ! 1 + drop_bit 26 t0" and "t2 = h ! 2 + drop_bit 26 t1"
    and "t3 = h ! 3 + drop_bit 26 t2"
  define t4 where "t4 = h ! 4 + drop_bit 26 t3 - push_bit 26 1"
  define b where "b = drop_bit 31 t4 - 1"
  have u0: "unat t0 = unat (h ! 0) + 5" unfolding t0_def using hb by (subst unat_limb_plus) simp_all
  have u1: "unat t1 = unat (h ! 1) + unat t0 div 2 ^ 26"
    unfolding t1_def using hb u0 by (subst unat_limb_plus) (simp_all add: unat_shift)
  have c0: "unat t0 div 2 ^ 26 \<le> 1" using u0 hb by simp
  have c1: "unat t1 div 2 ^ 26 \<le> 1" using u1 c0 hb by simp
  have u2: "unat t2 = unat (h ! 2) + unat t1 div 2 ^ 26"
    unfolding t2_def using hb c1 by (subst unat_limb_plus) (simp_all add: unat_shift)
  have c2: "unat t2 div 2 ^ 26 \<le> 1" using u2 c1 hb by simp
  have u3: "unat t3 = unat (h ! 3) + unat t2 div 2 ^ 26"
    unfolding t3_def using hb c2 by (subst unat_limb_plus) (simp_all add: unat_shift)
  have c3: "unat t3 div 2 ^ 26 \<le> 1" using u3 c2 hb by simp
  define s where "s = unat (h ! 4) + unat t3 div 2 ^ 26"
  have us: "unat (h ! 4 + drop_bit 26 t3) = s"
    unfolding s_def using hb c3 by (subst unat_limb_plus) (simp_all add: unat_shift)
  have sb: "s \<le> 2 ^ 26" using hb c3 by (simp add: s_def)
  have e: "poly_select h = [(h ! 0 AND NOT b) OR ((t0 AND 0x03ffffff) AND b), (h ! 1 AND NOT b) OR ((t1 AND 0x03ffffff) AND b),
      (h ! 2 AND NOT b) OR ((t2 AND 0x03ffffff) AND b), (h ! 3 AND NOT b) OR ((t3 AND 0x03ffffff) AND b),
      (h ! 4 AND NOT b) OR (t4 AND b)]"
    by (simp only: poly_select_def Let_def t0_def [symmetric] t1_def [symmetric] t2_def [symmetric] t3_def [symmetric]
      t4_def [symmetric] b_def [symmetric])
  have P: "unat t0 mod 2 ^ 26 + unat t1 mod 2 ^ 26 * 2 ^ 26 + unat t2 mod 2 ^ 26 * 2 ^ 52 + unat t3 mod 2 ^ 26 * 2 ^ 78 +
      s * 2 ^ 104 = pv h + 5"
  proof -
    have "unat t0 mod 2 ^ 26 + (unat t1 mod 2 ^ 26 + 0) * 2 ^ 26 + unat t2 mod 2 ^ 26 * 2 ^ 52 + unat t3 mod 2 ^ 26 * 2 ^ 78 +
        s * 2 ^ 104 + 0 * poly_prime = unat t0 + unat (h ! 1) * 2 ^ 26 + unat (h ! 2) * 2 ^ 52 + unat (h ! 3) * 2 ^ 78 +
        unat (h ! 4) * 2 ^ 104"
      by (rule carry_identity [of _ "unat t0 div 2 ^ 26" "unat t0 mod 2 ^ 26" _ "unat t1 div 2 ^ 26" _ _ "unat t2 div 2 ^ 26"
            _ _ "unat t3 div 2 ^ 26"])
        (simp_all only: u1 [symmetric] u2 [symmetric] u3 [symmetric] s_def [symmetric] div_mult_mod_eq mult_0 add_0 add_0_right)
    then show ?thesis unfolding pv_def by (simp add: u0)
  qed
  have pb: "pv h < 2 ^ 130" unfolding pv_def using hb by simp
  have w: "h ! 4 + drop_bit 26 t3 = word_of_nat s" unfolding us [symmetric] by simp
  show "limbs_full (poly_select h)" and "pv (poly_select h) = pv h mod poly_prime"
  proof (atomize (full), cases "s = 2 ^ 26")
    case True
    have "t4 = 0" unfolding t4_def w True by simp
    then have b: "b = NOT 0" by (simp add: b_def)
    have l: "poly_select h = [t0 AND 0x03ffffff, t1 AND 0x03ffffff, t2 AND 0x03ffffff, t3 AND 0x03ffffff, 0]"
      unfolding e b \<open>t4 = 0\<close> by simp
    have n: "xs ! 0 = a" "xs ! 1 = b" "xs ! 2 = c" "xs ! 3 = d" "xs ! 4 = f" if "xs = [a, b, c, d, f]"
      for xs and a b c d f :: u32 unfolding that by simp_all
    have u: "unat (t AND 0x03ffffff) = unat t mod 2 ^ 26" for t :: u32 by (rule unat_low) simp
    have "pv (poly_select h) + 2 ^ 26 * 2 ^ 104 = pv h + 5"
      unfolding P [symmetric] True pv_def [of "poly_select h"] n [OF l] unat_0 mult_0 add_0_right u by (rule refl)
    then have v: "pv (poly_select h) + poly_prime = pv h" by (simp add: poly_prime_def)
    moreover have "pv h < poly_prime + poly_prime" using pb by (simp add: poly_prime_def)
    ultimately have "pv (poly_select h) < poly_prime" by linarith
    then have "pv (poly_select h) = pv h mod poly_prime" unfolding v [symmetric] by simp
    moreover have "limbs_full (poly_select h)"
      unfolding l limbs_full_list u by simp
    ultimately show "limbs_full (poly_select h) \<and> pv (poly_select h) = pv h mod poly_prime" by simp
  next
    case False
    then have s: "s < 2 ^ 26" using sb by simp
    have "t4 = word_of_nat (s + (2 ^ 32 - 2 ^ 26))" unfolding t4_def w by simp
    moreover have "unat (word_of_nat (s + (2 ^ 32 - 2 ^ 26)) :: u32) = s + (2 ^ 32 - 2 ^ 26)"
      unfolding unat_of_nat by (rule mod_less) (use s in simp)
    ultimately have "unat t4 = s + (2 ^ 32 - 2 ^ 26)" by (simp only:)
    then have "unat (drop_bit 31 t4) = 1" unfolding unat_shift using s by (intro div_nat_eqI) simp_all
    then have "drop_bit 31 t4 = 1" by (simp only: word_unat_eq_iff unat_1)
    then have b: "b = 0" by (simp add: b_def)
    have "pv h < poly_prime"
    proof -
      have "pv h + 5 < 2 ^ 130" unfolding P [symmetric]
        using s mod_less_divisor [of "2 ^ 26" "unat t0"] mod_less_divisor [of "2 ^ 26" "unat t1"]
          mod_less_divisor [of "2 ^ 26" "unat t2"] mod_less_divisor [of "2 ^ 26" "unat t3"] by simp
      then show ?thesis by (simp add: poly_prime_def)
    qed
    moreover have "poly_select h = [h ! 0, h ! 1, h ! 2, h ! 3, h ! 4]" unfolding e b by simp
    moreover have "h = [h ! 0, h ! 1, h ! 2, h ! 3, h ! 4]"
      using assms limbs_full_cases by fastforce
    ultimately show "limbs_full (poly_select h) \<and> pv (poly_select h) = pv h mod poly_prime" using assms by simp
  qed
qed

lemma unat_pack:
  fixes a b :: u32
  assumes "unat a < 2 ^ k" "k \<le> 32"
  shows "unat (a OR push_bit k b) = unat a + unat b mod 2 ^ (32 - k) * 2 ^ k"
proof -
  have a: "a = take_bit k a" using assms(1) by (simp add: word_unat_eq_iff unsigned_take_bit_eq take_bit_nat_eq_self)
  have "a AND push_bit k b = 0" by (subst a) (auto simp: bit_eq_iff bit_simps)
  then have o: "a OR push_bit k b = a + push_bit k b" by (rule disjunctive_add_eq_or [symmetric])
  have "unat (push_bit k b) = unat b * 2 ^ k mod 2 ^ (32 - k + k)"
    using assms(2) by (simp only: unsigned_push_bit_eq) (simp add: push_bit_eq_mult take_bit_eq_mod)
  also have "\<dots> = unat b mod 2 ^ (32 - k) * 2 ^ k" unfolding power_add by (rule mult_mod_left [symmetric])
  finally have p: "unat (push_bit k b) = unat b mod 2 ^ (32 - k) * 2 ^ k" .
  have "unat b mod 2 ^ (32 - k) + 1 \<le> 2 ^ (32 - k)" by (simp add: Suc_le_eq)
  then have "(unat b mod 2 ^ (32 - k) + 1) * 2 ^ k \<le> 2 ^ (32 - k) * 2 ^ k" by (rule mult_right_mono) simp
  then have "unat a + unat b mod 2 ^ (32 - k) * 2 ^ k < 2 ^ 32"
    using assms by (simp add: power_add [symmetric] del: power_add)
  then show ?thesis unfolding o using p by (subst unat_plus) simp_all
qed

definition wv :: "u32 list \<Rightarrow> nat" where
  "wv w = unat (w ! 0) + unat (w ! 1) * 2 ^ 32 + unat (w ! 2) * 2 ^ 64 + unat (w ! 3) * 2 ^ 96"

lemma pack_identity:
  fixes h0 :: nat
  assumes "h1 = q1 * 2 ^ 6 + m1" "h2 = q2 * 2 ^ 12 + m2" "h3 = q3 * 2 ^ 18 + m3" "h4 = q4 * 2 ^ 24 + m4"
  shows "(h0 + m1 * 2 ^ 26) + (q1 + m2 * 2 ^ 20) * 2 ^ 32 + (q2 + m3 * 2 ^ 14) * 2 ^ 64 + (q3 + m4 * 2 ^ 8) * 2 ^ 96 + q4 * 2 ^ 128 =
    h0 + h1 * 2 ^ 26 + h2 * 2 ^ 52 + h3 * 2 ^ 78 + h4 * 2 ^ 104"
  unfolding assms by (simp add: distrib_right)

lemma poly_pack_value:
  assumes "limbs_full h"
  shows "wv (poly_pack h) mod 2 ^ 128 = pv h mod 2 ^ 128"
proof -
  have hb: "unat (h ! 0) < 2 ^ 26" "unat (h ! 1) < 2 ^ 26" "unat (h ! 2) < 2 ^ 26" "unat (h ! 3) < 2 ^ 26"
    using assms by (simp_all add: limbs_full_def)
  have d: "unat (h ! 1) div 2 ^ 6 < 2 ^ 20" "unat (h ! 2) div 2 ^ 12 < 2 ^ 14" "unat (h ! 3) div 2 ^ 18 < 2 ^ 8"
    by (rule less_mult_imp_div_less; use hb in simp)+
  have p: "unat (h ! 0 OR push_bit 26 (h ! 1)) = unat (h ! 0) + unat (h ! 1) mod 2 ^ 6 * 2 ^ 26"
    "unat (drop_bit 6 (h ! 1) OR push_bit 20 (h ! 2)) = unat (h ! 1) div 2 ^ 6 + unat (h ! 2) mod 2 ^ 12 * 2 ^ 20"
    "unat (drop_bit 12 (h ! 2) OR push_bit 14 (h ! 3)) = unat (h ! 2) div 2 ^ 12 + unat (h ! 3) mod 2 ^ 18 * 2 ^ 14"
    "unat (drop_bit 18 (h ! 3) OR push_bit 8 (h ! 4)) = unat (h ! 3) div 2 ^ 18 + unat (h ! 4) mod 2 ^ 24 * 2 ^ 8"
    using unat_pack [of "h ! 0" 26 "h ! 1"] unat_pack [of "drop_bit 6 (h ! 1)" 20 "h ! 2"]
      unat_pack [of "drop_bit 12 (h ! 2)" 14 "h ! 3"] unat_pack [of "drop_bit 18 (h ! 3)" 8 "h ! 4"] hb(1) d
    unfolding unat_shift by simp_all
  have l: "unat (poly_pack h ! 0) = unat (h ! 0) + unat (h ! 1) mod 2 ^ 6 * 2 ^ 26"
    "unat (poly_pack h ! 1) = unat (h ! 1) div 2 ^ 6 + unat (h ! 2) mod 2 ^ 12 * 2 ^ 20"
    "unat (poly_pack h ! 2) = unat (h ! 2) div 2 ^ 12 + unat (h ! 3) mod 2 ^ 18 * 2 ^ 14"
    "unat (poly_pack h ! 3) = unat (h ! 3) div 2 ^ 18 + unat (h ! 4) mod 2 ^ 24 * 2 ^ 8"
    unfolding p [symmetric] by (simp_all add: poly_pack_def)
  have "wv (poly_pack h) + unat (h ! 4) div 2 ^ 24 * 2 ^ 128 = pv h"
    unfolding wv_def pv_def l by (rule pack_identity) (simp_all only: div_mult_mod_eq)
  then show ?thesis by (metis mod_mult_self1)
qed

lemma pad_identity:
  fixes a0 :: nat
  assumes "a0 = q0 * 2 ^ 32 + m0" "a1 + q0 = q1 * 2 ^ 32 + m1" "a2 + q1 = q2 * 2 ^ 32 + m2" "a3 + q2 = q3 * 2 ^ 32 + m3"
  shows "m0 + m1 * 2 ^ 32 + m2 * 2 ^ 64 + m3 * 2 ^ 96 + q3 * 2 ^ 128 = a0 + a1 * 2 ^ 32 + a2 * 2 ^ 64 + a3 * 2 ^ 96"
  using assms by simp

lemma poly_pad_value:
  "wv (poly_pad key h) mod 2 ^ 128 = (wv h + wv (words32 4 (drop 16 key))) mod 2 ^ 128"
proof -
  define x where "x = words32 4 (drop 16 key)"
  define d0 d1 d2 d3 where "d0 = (ucast (h ! 0) + ucast (x ! 0) :: u64)"
    and "d1 = (ucast (h ! 1) + ucast (x ! 1) + drop_bit 32 d0 :: u64)"
    and "d2 = (ucast (h ! 2) + ucast (x ! 2) + drop_bit 32 d1 :: u64)"
    and "d3 = (ucast (h ! 3) + ucast (x ! 3) + drop_bit 32 d2 :: u64)"
  have sum: "unat (ucast a + ucast b + drop_bit 32 d :: u64) = unat a + unat b + unat d div 2 ^ 32" for a b :: u32 and d :: u64
  proof -
    have ab: "unat a < 2 ^ 32" "unat b < 2 ^ 32" using unsigned_less [of a, where 'a = nat] unsigned_less [of b, where 'a = nat] by simp_all
    have "unat d < 2 ^ 32 * 2 ^ 32" using unsigned_less [of d, where 'a = nat] by simp
    then have d: "unat d div 2 ^ 32 < 2 ^ 32" by (rule less_mult_imp_div_less)
    have "unat (ucast a + ucast b :: u64) = unat a + unat b" using ab by (subst unat_plus) simp_all
    then show ?thesis using ab d by (subst unat_plus) (simp_all add: unat_shift)
  qed
  have u0: "unat d0 = unat (h ! 0) + unat (x ! 0)" using sum [of "h ! 0" "x ! 0" 0] by (simp add: d0_def)
  have u: "unat d1 = unat (h ! 1) + unat (x ! 1) + unat d0 div 2 ^ 32" "unat d2 = unat (h ! 2) + unat (x ! 2) + unat d1 div 2 ^ 32"
    "unat d3 = unat (h ! 3) + unat (x ! 3) + unat d2 div 2 ^ 32"
    unfolding d1_def d2_def d3_def by (rule sum)+
  have e: "poly_pad key h = [ucast d0, ucast d1, ucast d2, ucast d3, h ! 4]"
    by (simp only: poly_pad_def Let_def x_def d0_def d1_def d2_def d3_def)
  have l: "unat (poly_pad key h ! 0) = unat d0 mod 2 ^ 32" "unat (poly_pad key h ! 1) = unat d1 mod 2 ^ 32"
    "unat (poly_pad key h ! 2) = unat d2 mod 2 ^ 32" "unat (poly_pad key h ! 3) = unat d3 mod 2 ^ 32"
    by (simp_all add: e unat_down)
  have "wv (poly_pad key h) + unat d3 div 2 ^ 32 * 2 ^ 128 =
      unat d0 + (unat (h ! 1) + unat (x ! 1)) * 2 ^ 32 + (unat (h ! 2) + unat (x ! 2)) * 2 ^ 64 + (unat (h ! 3) + unat (x ! 3)) * 2 ^ 96"
    unfolding wv_def l
    by (rule pad_identity [of _ "unat d0 div 2 ^ 32" _ _ "unat d1 div 2 ^ 32" _ _ "unat d2 div 2 ^ 32"])
      (simp_all only: u [symmetric] div_mult_mod_eq)
  also have "\<dots> = wv h + wv x" unfolding wv_def u0 by simp
  finally show ?thesis unfolding x_def by (metis mod_mult_self1)
qed

section \<open>Properties\<close>

lemma wv_bytes: "le_nat (take 16 (bytes32 (w0 # w1 # w2 # w3 # ws))) = wv (w0 # w1 # w2 # w3 # ws)"
proof -
  have w: "le_nat (UInt32SetLE w) = unat w" for w
  proof -
    have "le_word (le_bytes 4 w) = w" by (rule le_word_le_bytes) simp
    then show ?thesis using unat_le_word [of "le_bytes 4 w", where 'a = 32] by (simp add: UInt32SetLE_le)
  qed
  have l: "length (UInt32SetLE w) = 4" for w by simp
  have "take 16 (bytes32 (w0 # w1 # w2 # w3 # ws)) = UInt32SetLE w0 @ UInt32SetLE w1 @ UInt32SetLE w2 @ UInt32SetLE w3"
    unfolding bytes32_def list.map concat.simps take_append by (simp add: l)
  then show ?thesis by (simp add: le_nat_append w l wv_def distrib_left)
qed

lemma le_nat_bytes: "length bs = 16 \<Longrightarrow> bs = le_bytes 16 (word_of_nat (le_nat bs) :: 128 word)"
  using le_bytes_le_word [of bs, where 'a = 128] by (simp add: le_word_of_nat)

text \<open>The authenticator of RFC 7539: the polynomial of the padded blocks at the clamped first half of the key,
  plus the second half, modulo \<open>2 ^ 128\<close>.\<close>

definition Poly1305 :: "u8 list \<Rightarrow> u8 list \<Rightarrow> u8 list" where
  "Poly1305 key data =
     le_bytes 16 (word_of_nat (poly_acc (unat (le_word (take 16 key) AND clamp)) 0 data +
       le_nat (take 16 (drop 16 key))) :: 128 word)"

lemma wv_words:
  assumes "16 \<le> length bs"
  shows "wv (words32 4 bs) = le_nat (take 16 bs)"
proof -
  have g: "unat (UInt32GetLE (drop k bs)) = le_nat (take 4 (drop k bs))" if "k \<le> 12" for k
    using that assms by (subst UInt32GetLE_le, simp, subst unat_le_word) simp_all
  have w: "words32 4 bs ! 0 = UInt32GetLE (drop 0 bs)" "words32 4 bs ! 1 = UInt32GetLE (drop 4 bs)"
    "words32 4 bs ! 2 = UInt32GetLE (drop 8 bs)" "words32 4 bs ! 3 = UInt32GetLE (drop 12 bs)"
    by (simp_all add: words32_def)
  have t: "take (4 + m) (drop k bs) = take 4 (drop k bs) @ take m (drop (k + 4) bs)" for k m
    unfolding take_add drop_drop by (simp only: add.commute)
  have "take 16 bs = take 4 (drop 0 bs) @ take 4 (drop 4 bs) @ take 4 (drop 8 bs) @ take 4 (drop 12 bs)"
    using t [of 12 0] t [of 8 4] t [of 4 8] by simp
  moreover have "length (take 4 (drop k bs)) = 4" if "k \<le> 12" for k using that assms by simp
  ultimately show ?thesis
    unfolding wv_def w by (simp only: g le_nat_append) (simp add: g distrib_left)
qed

lemma BRPoly1305Compress_final:
  assumes key: "length key = 32" and h: "limbs_ok h"
  shows "take 16 (bytes32 (BRPoly1305Compress h key data True)) =
    le_bytes 16 (word_of_nat (poly_acc (unat (le_word (take 16 key) AND clamp)) (pv h mod poly_prime) data +
       le_nat (take 16 (drop 16 key))) :: 128 word)"
proof -
  have k16: "16 \<le> length key" using key by simp
  define r where "r = unat (le_word (take 16 key) AND clamp)"
  define a where "a = poly_acc r (pv h mod poly_prime) data"
  define l where "l = poly_loop key h data"
  have "a < poly_prime" unfolding a_def by (rule poly_acc_bound) (simp add: poly_prime_def)
  moreover have lv: "limbs_ok l" "pv l mod poly_prime = a mod poly_prime"
    using poly_loop_value [OF k16 h, of data] unfolding l_def a_def r_def rv_poly_r(1) [OF k16] by blast+
  moreover note f = poly_full_carry_value [OF lv(1)]
  moreover note s = poly_select_value [OF f(1)]
  ultimately have pvs: "pv (poly_select (poly_full_carry l)) = a" by simp
  define q where "q = poly_pad key (poly_pack (poly_select (poly_full_carry l)))"
  have "wv q mod 2 ^ 128 = (a + le_nat (take 16 (drop 16 key))) mod 2 ^ 128"
    unfolding q_def poly_pad_value
    using poly_pack_value [OF s(1)] wv_words [of "drop 16 key"] key pvs by (metis length_drop mod_add_left_eq
        diff_add_inverse le_refl numeral_Bit0)
  then have q: "(word_of_nat (wv q) :: 128 word) = word_of_nat (a + le_nat (take 16 (drop 16 key)))"
    by (simp only: word_unat_eq_iff unat_of_nat) simp
  obtain w0 w1 w2 w3 ws where e: "q = w0 # w1 # w2 # w3 # ws" unfolding q_def poly_pad_def Let_def by blast
  have "take 16 (bytes32 q) = le_bytes 16 (word_of_nat (wv q) :: 128 word)"
    unfolding e wv_bytes [symmetric] by (rule le_nat_bytes) (simp add: bytes32_def)
  then show ?thesis
    unfolding q by (simp add: BRPoly1305Compress_def l_def [symmetric] q_def a_def r_def)
qed

lemma limbs_ok_0: "limbs_ok [0, 0, 0, 0, 0]" "pv [0, 0, 0, 0, 0] = 0"
  by (simp_all add: limbs_ok_def pv_def)

text \<open>A message may be handed over in parts, all but the last of them in whole blocks.\<close>

lemma poly_loop_append:
  "16 dvd length xs \<Longrightarrow> poly_loop key h (xs @ ys) = poly_loop key (poly_loop key h xs) ys"
proof (induction key h xs rule: poly_loop.induct)
  case (1 key h xs)
  show ?case
  proof (cases "xs = []")
    case True
    then show ?thesis by (simp add: poly_loop.simps [of key h "[]"])
  next
    case False
    then have l: "16 \<le> length xs" using "1.prems" by (auto dest: dvd_imp_le)
    then have d: "16 dvd length (drop 16 xs)" using "1.prems" by (simp add: dvd_diff_nat)
    show ?thesis
      using "1.IH" [OF False d] False l
      by (simp add: poly_loop.simps [of key h "xs @ ys"] poly_loop.simps [of key h xs])
  qed
qed

lemma BRPoly1305Compress_append:
  "16 dvd length xs \<Longrightarrow>
    BRPoly1305Compress (BRPoly1305Compress h key xs False) key ys final = BRPoly1305Compress h key (xs @ ys) final"
  by (simp add: BRPoly1305Compress_def poly_loop_append)

text \<open>C21: Poly1305: for every 32-byte key and every message, the limb arithmetic with its partial carries,
  constant-time selection and packing computes the authenticator of RFC 7539, the polynomial of the blocks
  modulo \<open>2 ^ 130 - 5\<close> plus the pad modulo \<open>2 ^ 128\<close>; and so does the same computation when the message
  arrives in two parts of which the first is a whole number of blocks.\<close>

theorem BRPoly1305_spec:
  assumes "length key = 32" and "16 dvd length xs"
  shows "BRPoly1305 key data = Poly1305 key data \<and>
    take 16 (bytes32 (BRPoly1305Compress (BRPoly1305Compress [0, 0, 0, 0, 0] key xs False) key ys True)) =
      Poly1305 key (xs @ ys)"
  unfolding BRPoly1305_def Poly1305_def BRPoly1305Compress_append [OF assms(2)]
    BRPoly1305Compress_final [OF assms(1) limbs_ok_0(1)] limbs_ok_0(2)
  by simp

theorem BRPoly1305_spec_witness:
  "BRPoly1305 (replicate 32 1) [1, 2, 3] = Poly1305 (replicate 32 1) [1, 2, 3] \<and>
   take 16 (bytes32 (BRPoly1305Compress (BRPoly1305Compress [0, 0, 0, 0, 0] (replicate 32 1) (replicate 16 7) False)
     (replicate 32 1) [5] True)) = Poly1305 (replicate 32 1) (replicate 16 7 @ [5])"
  using BRPoly1305_spec [of "replicate 32 1" "replicate 16 7" "[1, 2, 3]" "[5]"] by simp

end
