(* ===== verification/Chacha.thy ===== *)
theory Chacha
  imports Hash
begin

text \<open>
  The ChaCha20 stream cipher of \<^verbatim>\<open>Libraries/loafwallet-core/BRCrypto.c\<close>. The state \<open>s\<close> and the key
  stream block \<open>b\<close> are as in the code, where the block is recomputed at every 64th byte and the two words
  \<open>s[12]\<close>, \<open>s[13]\<close> count blocks with a carry. The lemmas show that byte \<open>i\<close> of the output is byte \<open>i\<close> of the
  data xor byte \<open>i mod 64\<close> of the block of the 64-bit counter plus \<open>i div 64\<close>.
\<close>

section \<open>Model\<close>

definition qr :: "nat \<times> nat \<times> nat \<times> nat \<Rightarrow> u32 list \<Rightarrow> u32 list" where
  "qr q x =
     (let (a, b, c, d) = q;
          x = x[a := x ! a + x ! b]; x = x[d := rol32 (x ! d XOR x ! a) 16];
          x = x[c := x ! c + x ! d]; x = x[b := rol32 (x ! b XOR x ! c) 12];
          x = x[a := x ! a + x ! b]; x = x[d := rol32 (x ! d XOR x ! a) 8];
          x = x[c := x ! c + x ! d]; x = x[b := rol32 (x ! b XOR x ! c) 7]
      in x)"

definition chacha_qrs :: "(nat \<times> nat \<times> nat \<times> nat) list" where
  "chacha_qrs = [(0, 4, 8, 12), (1, 5, 9, 13), (2, 6, 10, 14), (3, 7, 11, 15),
     (0, 5, 10, 15), (1, 6, 11, 12), (2, 7, 8, 13), (3, 4, 9, 14)]"

definition chacha_rounds :: "u32 list \<Rightarrow> u32 list" where
  "chacha_rounds s = foldl (\<lambda>x j. fold qr chacha_qrs x) s [0..<10]"

definition chacha_block :: "u32 list \<Rightarrow> u8 list" where
  "chacha_block s = bytes32 (map2 (+) s (chacha_rounds s))"

definition sigma :: "u8 list" where
  "sigma = map (of_char :: char \<Rightarrow> u8) ''expand 32-byte k''"

definition chacha_init :: "u8 list \<Rightarrow> u8 list \<Rightarrow> u64 \<Rightarrow> u32 list" where
  "chacha_init key32 iv8 counter =
     words32 4 sigma @ words32 8 key32 @ [ucast counter, ucast (drop_bit 32 counter)] @ words32 2 iv8"

definition chacha_count :: "u32 list \<Rightarrow> u32 list" where
  "chacha_count s = (let s = s[12 := s ! 12 + 1] in if s ! 12 = 0 then s[13 := s ! 13 + 1] else s)"

definition chacha_step :: "u8 list \<Rightarrow> u32 list \<times> u8 list \<times> u8 list \<Rightarrow> nat \<Rightarrow> u32 list \<times> u8 list \<times> u8 list" where
  "chacha_step data r i =
     (let (s, b, out) = r; (s, b) = (if i mod 64 = 0 then (chacha_count s, chacha_block s) else (s, b))
      in (s, b, out @ [data ! i XOR b ! (i mod 64)]))"

definition BRChacha20 :: "u8 list \<Rightarrow> u8 list \<Rightarrow> u8 list \<Rightarrow> u64 \<Rightarrow> u8 list" where
  "BRChacha20 key32 iv8 data counter =
     snd (snd (foldl (chacha_step data) (chacha_init key32 iv8 counter, [], []) [0..<length data]))"

section \<open>The block counter\<close>

lemma length_chacha_init [simp]: "length (chacha_init key iv c) = 16"
  by (simp add: chacha_init_def words32_def)

lemma ucast_of_nat_64_32: "ucast (word_of_nat n :: u64) = (word_of_nat n :: u32)"
proof -
  have "n mod (2 ^ 32 * 2 ^ 32) mod 2 ^ 32 = n mod 2 ^ 32" by (rule mod_mod_cancel) simp
  then show ?thesis
    by (simp add: word_unat_eq_iff unsigned_ucast_eq take_bit_eq_mod unat_of_nat)
qed

lemma high_of_nat:
  assumes "n < 2 ^ 64"
  shows "ucast (drop_bit 32 (word_of_nat n :: u64)) = (word_of_nat (n div 2 ^ 32) :: u32)"
proof -
  have "unat (word_of_nat n :: u64) = n" using assms by (simp add: unat_of_nat)
  then have "unat (drop_bit 32 (word_of_nat n :: u64)) = n div 2 ^ 32"
    using unat_div [of "word_of_nat n :: u64" "2 ^ 32"] by (simp add: drop_bit_eq_div)
  then have "drop_bit 32 (word_of_nat n :: u64) = word_of_nat (n div 2 ^ 32)"
    by (metis of_nat_unat ucast_id)
  then show ?thesis by (simp only: ucast_of_nat_64_32)
qed

lemma counter_words:
  fixes c :: u64
  shows "ucast (c + 1) = (ucast c + 1 :: u32)"
    and "ucast (drop_bit 32 (c + 1)) = (if ucast c + 1 = (0 :: u32) then ucast (drop_bit 32 c) + 1 else ucast (drop_bit 32 c) :: u32)"
proof -
  define n where "n = unat c"
  have c: "c = word_of_nat n" and n: "n < 2 ^ 64" using unsigned_less [of c] by (simp_all add: n_def)
  have c1: "c + 1 = word_of_nat (n + 1)" by (simp add: c)
  have lo: "ucast c + 1 = (word_of_nat (n + 1) :: u32)" by (simp add: c ucast_of_nat_64_32)
  show "ucast (c + 1) = (ucast c + 1 :: u32)" unfolding lo c1 by (rule ucast_of_nat_64_32)
  have z: "(word_of_nat (n + 1) :: u32) = 0 \<longleftrightarrow> (n + 1) mod 2 ^ 32 = 0"
    by (simp only: word_unat_eq_iff unat_of_nat unat_0) simp
  have d: "(n + 1) div 2 ^ 32 = (if (n + 1) mod 2 ^ 32 = 0 then n div 2 ^ 32 + 1 else n div 2 ^ 32)"
    by (simp add: div_Suc)
  show "ucast (drop_bit 32 (c + 1)) = (if ucast c + 1 = (0 :: u32) then ucast (drop_bit 32 c) + 1 else ucast (drop_bit 32 c) :: u32)"
  proof (cases "n + 1 < 2 ^ 64")
    case True
    show ?thesis unfolding lo z c1 high_of_nat [OF True] d unfolding c high_of_nat [OF n] by simp
  next
    case False
    then have "n = 2 ^ 64 - 1" using n by linarith
    then show ?thesis by (simp add: c)
  qed
qed

lemma chacha_count_words:
  assumes "length A = 12"
  shows "chacha_count (A @ x # y # B) = A @ (x + 1) # (if x + 1 = 0 then y + 1 else y) # B"
proof -
  have e: "(A @ u # v # B)[12 := z] = A @ z # v # B" "(A @ u # v # B)[13 := z] = A @ u # z # B"
    "(A @ u # v # B) ! 12 = u" "(A @ u # v # B) ! 13 = v" for u v z
    by (simp_all add: list_update_append nth_append assms)
  show ?thesis unfolding chacha_count_def Let_def e by simp
qed

lemma chacha_count_init: "chacha_count (chacha_init key iv c) = chacha_init key iv (c + 1)"
proof -
  have l: "length (words32 4 sigma @ words32 8 key) = 12" by (simp add: words32_def)
  show ?thesis
    using chacha_count_words [OF l] unfolding chacha_init_def counter_words by simp
qed

section \<open>Properties\<close>

definition key_stream :: "u8 list \<Rightarrow> u8 list \<Rightarrow> u64 \<Rightarrow> nat \<Rightarrow> u8" where
  "key_stream key iv c i = chacha_block (chacha_init key iv (c + word_of_nat (i div 64))) ! (i mod 64)"

lemma chacha_loop:
  "foldl (chacha_step data) (chacha_init key iv c, [], []) [0..<n] =
     (chacha_init key iv (c + word_of_nat ((n + 63) div 64)),
      if n = 0 then [] else chacha_block (chacha_init key iv (c + word_of_nat ((n - 1) div 64))),
      map (\<lambda>i. data ! i XOR key_stream key iv c i) [0..<n])"
proof (induction n)
  case (Suc n)
  show ?case
  proof (cases "n mod 64 = 0")
    case True
    then obtain q where q: "n = 64 * q" by (auto elim: dvdE)
    have d: "(n + 63) div 64 = n div 64" "(Suc n + 63) div 64 = Suc (n div 64)" unfolding q by simp_all
    have e: "c + word_of_nat (n div 64) + 1 = c + word_of_nat (Suc (n div 64))" by simp
    have k: "key_stream key iv c n = chacha_block (chacha_init key iv (c + word_of_nat (n div 64))) ! (n mod 64)"
      by (rule key_stream_def)
    have s: "chacha_step data (s, b, out) n =
        (chacha_count s, chacha_block s, out @ [data ! n XOR chacha_block s ! (n mod 64)])" for s b out
      by (simp add: chacha_step_def True)
    show ?thesis
      unfolding upt_Suc_append [OF le0] foldl_append Suc.IH foldl.simps s
        chacha_count_init e d map_append list.map k diff_Suc_1 if_not_P [OF nat.discI [OF refl]]
      by (rule refl)
  next
    case False
    define q r where "q = n div 64" and "r = n mod 64 - 1"
    have q: "n = 64 * q + Suc r" and r: "r < 63"
      using False div_mult_mod_eq [of n 64] mod_less_divisor [of 64 n] by (auto simp: q_def r_def)
    have "(Suc n + 63) div 64 = Suc q" "(n + 63) div 64 = Suc q" "(n - 1) div 64 = q" "n div 64 = q"
      by (rule div_nat_eqI; use q r in simp)+
    then have d: "n \<noteq> 0" "(Suc n + 63) div 64 = (n + 63) div 64" "(n - 1) div 64 = n div 64"
      using q by simp_all
    have s: "chacha_step data (s, b, out) n = (s, b, out @ [data ! n XOR b ! (n mod 64)])" for s b out
      using False by (simp add: chacha_step_def)
    show ?thesis
      unfolding upt_Suc_append [OF le0] foldl_append Suc.IH foldl.simps s d if_not_P [OF d(1)]
      by (simp add: key_stream_def)
  qed
qed simp

lemma BRChacha20_blocks: "BRChacha20 key iv data c = map (\<lambda>i. data ! i XOR key_stream key iv c i) [0..<length data]"
  by (simp add: BRChacha20_def chacha_loop)

lemma length_BRChacha20 [simp, len_simps]: "length (BRChacha20 key iv data c) = length data"
  by (simp add: BRChacha20_blocks)

lemma BRChacha20_Nil [simp]: "BRChacha20 key iv [] c = []"
  by (simp add: BRChacha20_blocks)

lemma BRChacha20_twice [simp]: "BRChacha20 key iv (BRChacha20 key iv data c) c = data"
  by (rule nth_equalityI) (simp_all add: BRChacha20_blocks xor.assoc)

lemma key_stream_seek: "key_stream key iv (c + word_of_nat k) i = key_stream key iv c (i + 64 * k)"
  by (simp add: key_stream_def ac_simps)

lemma BRChacha20_split:
  "BRChacha20 key iv (take (64 * k) data) c @ BRChacha20 key iv (drop (64 * k) data) (c + word_of_nat k) =
     BRChacha20 key iv data c"
  by (rule nth_equalityI) (auto simp: BRChacha20_blocks key_stream_seek nth_append)

text \<open>ChaCha20 is the xor of the data with the key stream that the block function gives for the 64-bit
  counters \<open>counter\<close>, \<open>counter + 1\<close>, ..., whatever the length and however the counter wraps around; so applying
  it twice gives the data back, and the stream can be entered at any block.\<close>

theorem BRChacha20_spec:
  "BRChacha20 key iv data c = map (\<lambda>i. data ! i XOR
     chacha_block (chacha_init key iv (c + word_of_nat (i div 64))) ! (i mod 64)) [0..<length data] \<and>
   BRChacha20 key iv (BRChacha20 key iv data c) c = data \<and>
   BRChacha20 key iv (take (64 * k) data) c @ BRChacha20 key iv (drop (64 * k) data) (c + word_of_nat k) =
     BRChacha20 key iv data c"
  by (intro conjI BRChacha20_twice BRChacha20_split) (simp add: BRChacha20_blocks key_stream_def)

end
