(* ===== verification/Rfc7539.thy ===== *)
theory Rfc7539
  imports Poly1305 Chacha
begin

text \<open>
  The ciphers of RFC 7539 (ChaCha20 and Poly1305 for IETF protocols), as the document states them and apart from the code:
  the quarter round on four words (2.1), the block function with a 32-bit block counter and a 96-bit nonce (2.3), the
  encryption (2.4), the one-time key of the authenticator (2.6), and the construction of the authenticated encryption (2.8).
  The state is a function of the 16 positions; numbers are read from bytes as little-endian sums. The lemmas relate the
  64-bit counter and 64-bit nonce of \<^verbatim>\<open>BRCrypto.c\<close> to this layout.
\<close>

section \<open>The document\<close>

type_synonym chacha_state = "nat \<Rightarrow> u32"

definition quarter_round :: "u32 \<times> u32 \<times> u32 \<times> u32 \<Rightarrow> u32 \<times> u32 \<times> u32 \<times> u32" where
  "quarter_round q =
     (let (a, b, c, d) = q;
          a = a + b; d = word_rotl 16 (d XOR a);
          c = c + d; b = word_rotl 12 (b XOR c);
          a = a + b; d = word_rotl 8 (d XOR a);
          c = c + d; b = word_rotl 7 (b XOR c)
      in (a, b, c, d))"

text \<open>\<open>QUARTERROUND(x, y, z, w)\<close>\<close>

definition QUARTERROUND :: "nat \<times> nat \<times> nat \<times> nat \<Rightarrow> chacha_state \<Rightarrow> chacha_state" where
  "QUARTERROUND q s =
     (let (x, y, z, w) = q; (a, b, c, d) = quarter_round (s x, s y, s z, s w) in s(x := a, y := b, z := c, w := d))"

definition inner_block :: "chacha_state \<Rightarrow> chacha_state" where
  "inner_block s =
     (let s = QUARTERROUND (0, 4, 8, 12) s; s = QUARTERROUND (1, 5, 9, 13) s;
          s = QUARTERROUND (2, 6, 10, 14) s; s = QUARTERROUND (3, 7, 11, 15) s;
          s = QUARTERROUND (0, 5, 10, 15) s; s = QUARTERROUND (1, 6, 11, 12) s;
          s = QUARTERROUND (2, 7, 8, 13) s; s = QUARTERROUND (3, 4, 9, 14) s
      in s)"

text \<open>Word \<open>k\<close> of a string of bytes.\<close>

definition le32_at :: "u8 list \<Rightarrow> nat \<Rightarrow> u32" where
  "le32_at bs k = of_nat (le_nat (take 4 (drop (4 * k) bs)))"

definition rfc_state :: "u8 list \<Rightarrow> u32 \<Rightarrow> u8 list \<Rightarrow> chacha_state" where
  "rfc_state key counter nonce i =
     (if i < 4 then [0x61707865, 0x3320646e, 0x79622d32, 0x6b206574] ! i
      else if i < 12 then le32_at key (i - 4)
      else if i = 12 then counter
      else le32_at nonce (i - 13))"

definition rfc_block :: "u8 list \<Rightarrow> u32 \<Rightarrow> u8 list \<Rightarrow> u8 list" where
  "rfc_block key counter nonce =
     (let s = rfc_state key counter nonce; w = (inner_block ^^ 10) s
      in concat (map (\<lambda>i. le_bytes 4 (w i + s i)) [0..<16]))"

definition rfc_chacha20 :: "u8 list \<Rightarrow> u32 \<Rightarrow> u8 list \<Rightarrow> u8 list \<Rightarrow> u8 list" where
  "rfc_chacha20 key counter nonce plaintext =
     map (\<lambda>i. plaintext ! i XOR rfc_block key (counter + of_nat (i div 64)) nonce ! (i mod 64)) [0..<length plaintext]"

text \<open>\<open>pad16\<close>, and the data of the authenticator\<close>

definition pad16 :: "u8 list \<Rightarrow> u8 list" where
  "pad16 xs = xs @ replicate ((16 - length xs mod 16) mod 16) 0"

definition aead_message :: "u8 list \<Rightarrow> u8 list \<Rightarrow> u8 list" where
  "aead_message aad ciphertext = pad16 aad @ pad16 ciphertext @
     le_bytes 8 (word_of_nat (length aad) :: u64) @ le_bytes 8 (word_of_nat (length ciphertext) :: u64)"

definition rfc_tag :: "u8 list \<Rightarrow> u8 list \<Rightarrow> u8 list \<Rightarrow> u8 list \<Rightarrow> u8 list" where
  "rfc_tag key nonce aad ciphertext = Poly1305 (take 32 (rfc_block key 0 nonce)) (aead_message aad ciphertext)"

text \<open>The quarter round of section 2.1.1 of the document.\<close>

lemma quarter_round_vector:
  "quarter_round (0x11111111, 0x01020304, 0x9b8d6f43, 0x01234567) = (0xea2a92f4, 0xcb1cf8ce, 0x4581472e, 0x5881c4bb)"
  by code_simp

section \<open>The quarter rounds of the code\<close>

lemma rol32_rotl:
  assumes "0 < k" "k < 32"
  shows "rol32 a k = word_rotl k a"
proof (rule bit_word_eqI)
  fix n assume "n < LENGTH(32)"
  then have n: "n < 32" by simp
  have r: "bit (word_rotl k a) n \<longleftrightarrow> bit a ((n + (32 - k)) mod 32)"
    using n assms bit_word_rotl_iff [of k a n] by simp
  have z: "\<not> bit a i" if "32 \<le> i" for i using bit_imp_le_length [of a i] that by auto
  have l: "bit (rol32 a k) n \<longleftrightarrow> k \<le> n \<and> bit a (n - k) \<or> bit a (32 - k + n)"
    using n by (simp add: rol32_def bit_or_iff bit_push_bit_iff bit_drop_bit_eq possible_bit_def)
  show "bit (rol32 a k) n = bit (word_rotl k a) n"
  proof (cases "k \<le> n")
    case True
    then have e: "n + (32 - k) = n - k + 32" using assms by linarith
    have m: "(n + (32 - k)) mod 32 = n - k" unfolding e mod_add_self2 using n by simp
    show ?thesis unfolding r l m using z [of "32 - k + n"] True by auto
  next
    case False
    then have m: "(n + (32 - k)) mod 32 = 32 - k + n" using assms by simp
    show ?thesis unfolding r l m using False by simp
  qed
qed

text \<open>A list of the code holds a state.\<close>

definition holds :: "u32 list \<Rightarrow> chacha_state \<Rightarrow> bool" where
  "holds xs s \<longleftrightarrow> length xs = 16 \<and> (\<forall>i<16. xs ! i = s i)"

lemma holds_upd: "holds xs s \<Longrightarrow> i < 16 \<Longrightarrow> v = w \<Longrightarrow> holds (xs[i := v]) (s(i := w))"
  by (auto simp: holds_def nth_list_update)

lemma holds_nth: "holds xs s \<Longrightarrow> i < 16 \<Longrightarrow> xs ! i = s i"
  by (simp add: holds_def)

text \<open>A step \<open>x = f (x, y)\<close> of the quarter round, on the state as a function.\<close>

definition upd :: "nat \<Rightarrow> (chacha_state \<Rightarrow> u32) \<Rightarrow> chacha_state \<Rightarrow> chacha_state" where
  "upd i f s = s(i := f s)"

lemma holds_step: "holds xs s \<Longrightarrow> i < 16 \<Longrightarrow> v = f s \<Longrightarrow> holds (xs[i := v]) (upd i f s)"
  by (simp add: upd_def holds_upd)

definition add_step :: "nat \<Rightarrow> nat \<Rightarrow> chacha_state \<Rightarrow> chacha_state" where
  "add_step i j = upd i (\<lambda>s. s i + s j)"

definition rot_step :: "nat \<Rightarrow> nat \<Rightarrow> nat \<Rightarrow> chacha_state \<Rightarrow> chacha_state" where
  "rot_step i j k = upd i (\<lambda>s. word_rotl k (s i XOR s j))"

lemma holds_add: "holds xs s \<Longrightarrow> i < 16 \<Longrightarrow> j < 16 \<Longrightarrow> holds (xs[i := xs ! i + xs ! j]) (add_step i j s)"
  unfolding add_step_def by (rule holds_step) (simp_all add: holds_nth)

lemma holds_rot:
  "holds xs s \<Longrightarrow> i < 16 \<Longrightarrow> j < 16 \<Longrightarrow> 0 < k \<Longrightarrow> k < 32 \<Longrightarrow>
    holds (xs[i := rol32 (xs ! i XOR xs ! j) k]) (rot_step i j k s)"
  unfolding rot_step_def by (rule holds_step) (simp_all add: holds_nth rol32_rotl)

lemma QUARTERROUND_steps:
  assumes "distinct [a, b, c, d]"
  shows "QUARTERROUND (a, b, c, d) s =
    rot_step b c 7 (add_step c d (rot_step d a 8 (add_step a b (rot_step b c 12 (add_step c d (rot_step d a 16 (add_step a b s)))))))"
proof -
  have d: "a \<noteq> b" "a \<noteq> c" "a \<noteq> d" "b \<noteq> c" "b \<noteq> d" "c \<noteq> d" using assms by simp_all
  note n = d d [symmetric]
  show ?thesis
    unfolding QUARTERROUND_def quarter_round_def rot_step_def add_step_def upd_def Let_def
    by (rule ext) (simp add: n)
qed

lemma holds_qr:
  assumes "holds xs s" "a < 16" "b < 16" "c < 16" "d < 16" "distinct [a, b, c, d]"
  shows "holds (qr (a, b, c, d) xs) (QUARTERROUND (a, b, c, d) s)"
  unfolding QUARTERROUND_steps [OF assms(6)] qr_def Let_def prod.case
  by (intro holds_add holds_rot assms) simp_all

lemma holds_round: "holds xs s \<Longrightarrow> holds (fold qr chacha_qrs xs) (inner_block s)"
  by (simp add: chacha_qrs_def inner_block_def Let_def holds_qr)

lemma holds_rounds:
  assumes "holds xs s"
  shows "holds (chacha_rounds xs) ((inner_block ^^ 10) s)"
proof -
  have "holds (foldl (\<lambda>x j. fold qr chacha_qrs x) xs [0..<n]) ((inner_block ^^ n) s)" for n
    by (induction n) (simp_all add: assms holds_round)
  then show ?thesis by (simp only: chacha_rounds_def)
qed

lemma holds_block:
  assumes "holds xs s"
  shows "chacha_block xs = concat (map (\<lambda>i. le_bytes 4 ((inner_block ^^ 10) s i + s i)) [0..<16])"
proof -
  have "map2 (+) xs (chacha_rounds xs) = map (\<lambda>i. (inner_block ^^ 10) s i + s i) [0..<16]"
    using assms holds_rounds [OF assms] by (intro nth_equalityI) (auto simp: holds_def add.commute)
  then show ?thesis by (simp add: chacha_block_def bytes32_def UInt32SetLE_le comp_def)
qed

section \<open>The counter and the nonce\<close>

lemma GetLE_at:
  assumes "4 * k + 4 \<le> length bs"
  shows "UInt32GetLE (drop (4 * k) bs) = le32_at bs k"
  using assms by (simp add: UInt32GetLE_le le_word_of_nat le32_at_def)

lemma sigma_words: "words32 4 sigma = [0x61707865, 0x3320646e, 0x79622d32, 0x6b206574]"
  by code_simp

lemma counter_halves:
  fixes w :: u32
  assumes "j < 2 ^ 32"
  shows "ucast (push_bit 32 (ucast w) + word_of_nat j :: u64) = (word_of_nat j :: u32)"
    and "ucast (drop_bit 32 (push_bit 32 (ucast w) + word_of_nat j :: u64)) = w"
proof -
  define n where "n = unat w * 2 ^ 32 + j"
  have w: "unat w < 2 ^ 32" using unsigned_less [of w, where 'a = nat] by simp
  have n: "n < 2 ^ 64" using w assms by (simp add: n_def)
  have "push_bit 32 (ucast w :: u64) = word_of_nat (unat w * 2 ^ 32)"
    by (simp add: push_bit_eq_mult of_nat_unat)
  then have e: "push_bit 32 (ucast w) + word_of_nat j = (word_of_nat n :: u64)" by (simp add: n_def)
  have m: "n mod 2 ^ 32 = j" "n div 2 ^ 32 = unat w" using assms by (simp_all add: n_def)
  show "ucast (push_bit 32 (ucast w) + word_of_nat j :: u64) = (word_of_nat j :: u32)"
    unfolding e ucast_of_nat_64_32 using m(1) by (simp add: word_unat_eq_iff unat_of_nat)
  show "ucast (drop_bit 32 (push_bit 32 (ucast w) + word_of_nat j :: u64)) = w"
    unfolding e high_of_nat [OF n] m(2) by simp
qed

lemma holds_init:
  assumes "length key = 32" "length nonce = 12" "j < 2 ^ 32"
  shows "holds (chacha_init key (drop 4 nonce) (push_bit 32 (ucast (UInt32GetLE nonce)) + word_of_nat j))
    (rfc_state key (word_of_nat j) nonce)"
  unfolding holds_def
proof (intro conjI allI impI)
  have k: "UInt32GetLE (drop (4 * i) key) = le32_at key i" if "i < 8" for i
    using that assms(1) by (intro GetLE_at) simp
  have n: "UInt32GetLE (drop (4 * i) nonce) = le32_at nonce i" if "i < 3" for i
    using that assms(2) by (intro GetLE_at) simp
  have wk: "words32 8 key = map (le32_at key) [0..<8]"
    unfolding words32_def by (rule map_cong [OF refl]) (simp add: k)
  have wn: "UInt32GetLE nonce = le32_at nonce 0" "UInt32GetLE (drop 4 nonce) = le32_at nonce 1"
    "UInt32GetLE (drop 4 (drop 4 nonce)) = le32_at nonce 2"
    using n [of 0] n [of 1] n [of 2] by simp_all
  have wn2: "words32 2 (drop 4 nonce) = [le32_at nonce 1, le32_at nonce 2]"
    using wn(2,3) by (simp add: words32_def upt_rec)
  have e: "chacha_init key (drop 4 nonce) (push_bit 32 (ucast (UInt32GetLE nonce)) + word_of_nat j) =
      [0x61707865, 0x3320646e, 0x79622d32, 0x6b206574] @ map (le32_at key) [0..<8] @
      [word_of_nat j, le32_at nonce 0, le32_at nonce 1, le32_at nonce 2]"
    unfolding chacha_init_def sigma_words wk wn(1) counter_halves [OF assms(3)] wn2 by simp
  fix i :: nat assume i: "i < 16"
  define k where "k = i - 4"
  define cs :: "u32 list" where "cs = [0x61707865, 0x3320646e, 0x79622d32, 0x6b206574]"
  have l: "length cs = 4" by (simp add: cs_def)
  consider "i < 4" | "i = 4 + k" "k < 8" | "i = 12" | "i = 13" | "i = 14" | "i = 15"
    using i by (fastforce simp: k_def)
  then show "chacha_init key (drop 4 nonce) (push_bit 32 (ucast (UInt32GetLE nonce)) + word_of_nat j) ! i =
      rfc_state key (word_of_nat j) nonce i"
    unfolding e rfc_state_def cs_def [symmetric] by cases (simp_all add: nth_append l)
qed simp

lemma block_rfc:
  assumes "length key = 32" "length nonce = 12" "j < 2 ^ 32"
  shows "chacha_block (chacha_init key (drop 4 nonce) (push_bit 32 (ucast (UInt32GetLE nonce)) + word_of_nat j)) =
    rfc_block key (word_of_nat j) nonce"
  unfolding holds_block [OF holds_init [OF assms]] rfc_block_def Let_def ..

text \<open>The two uses of the cipher: the encryption from block 1 on, and the one-time key from block 0.\<close>

lemma BRChacha20_rfc:
  assumes "length key = 32" "length nonce = 12" "k + length data div 64 < 2 ^ 32"
  shows "BRChacha20 key (drop 4 nonce) data (push_bit 32 (ucast (UInt32GetLE nonce)) + word_of_nat k) =
    rfc_chacha20 key (word_of_nat k) nonce data"
  unfolding BRChacha20_blocks rfc_chacha20_def
proof (rule map_cong [OF refl])
  fix i assume "i \<in> set [0..<length data]"
  then have "i div 64 \<le> length data div 64" by (intro div_le_mono) simp
  then have j: "k + i div 64 < 2 ^ 32" using assms(3) by simp
  show "data ! i XOR key_stream key (drop 4 nonce) (push_bit 32 (ucast (UInt32GetLE nonce)) + word_of_nat k) i =
      data ! i XOR rfc_block key (word_of_nat k + word_of_nat (i div 64)) nonce ! (i mod 64)"
    using block_rfc [OF assms(1,2) j] by (simp add: key_stream_def add.assoc)
qed

lemma length_rfc_block: "length (rfc_block key n nonce) = 64"
  by (simp add: rfc_block_def Let_def length_concat comp_def sum_list_triv)

lemma one_time_key:
  assumes "length key = 32" "length nonce = 12"
  shows "BRChacha20 key (drop 4 nonce) (replicate 32 0) (push_bit 32 (ucast (UInt32GetLE nonce))) = take 32 (rfc_block key 0 nonce)"
  using BRChacha20_rfc [OF assms, of 0 "replicate 32 0"]
  by (intro nth_equalityI) (simp_all add: rfc_chacha20_def length_rfc_block)

end
