(* ===== verification/Aead.thy ===== *)
theory Aead
  imports Rfc7539
begin

text \<open>
  The authenticated encryption of \<^verbatim>\<open>Libraries/loafwallet-core/BRCrypto.c\<close>: ChaCha20 with Poly1305 over the
  associated data and the ciphertext. It is compared with RFC 7539 as \<open>Rfc7539\<close> states the document. The sizes of buffers are lengths of lists,
  which are below \<open>2 ^ 64 - 16\<close>, so the sums of the code do not wrap.
\<close>

section \<open>Model\<close>

definition aead_counter :: "u8 list \<Rightarrow> u64" where
  "aead_counter nonce12 = push_bit 32 (ucast (UInt32GetLE nonce12))"

text \<open>The part of a message of whole blocks, and the rest of it in the 16 bytes of \<open>pad\<close>.\<close>

definition mac_part :: "u32 list \<Rightarrow> u8 list \<Rightarrow> u8 list \<Rightarrow> u32 list" where
  "mac_part h macKey data =
     (let n = length data div 16 * 16;
          h = BRPoly1305Compress h macKey (take n data) False;
          pad = memcpy_at (replicate 16 0) 0 (drop n data)
      in if length data mod 16 \<noteq> 0 then BRPoly1305Compress h macKey pad False else h)"

definition aead_mac :: "u8 list \<Rightarrow> u8 list \<Rightarrow> u8 list \<Rightarrow> u8 list \<Rightarrow> u8 list" where
  "aead_mac key32 nonce12 ad data =
     (let iv = drop 4 nonce12; counter = aead_counter nonce12;
          macKey = BRChacha20 key32 iv (replicate 32 0) counter;
          h = mac_part [0, 0, 0, 0, 0] macKey ad;
          h = mac_part h macKey data;
          pad = UInt64SetLE (word_of_nat (length ad)) @ UInt64SetLE (word_of_nat (length data))
      in take 16 (bytes32 (BRPoly1305Compress h macKey pad True)))"

definition UINT32_MAX :: nat where "UINT32_MAX = 2 ^ 32 - 1"

definition BRChacha20Poly1305AEADEncrypt ::
    "u8 list \<Rightarrow> u8 list \<Rightarrow> u8 list \<Rightarrow> u8 list \<Rightarrow> wbuf \<Rightarrow> size_t \<times> wbuf" where
  "BRChacha20Poly1305AEADEncrypt key32 nonce12 data ad out =
     (case out of
        None \<Rightarrow> (length data + 16, None)
      | Some d \<Rightarrow>
          if length d < length data + 16 \<or> length data div 64 \<ge> UINT32_MAX then (0, Some d)
          else let d = memcpy_at d 0 (BRChacha20 key32 (drop 4 nonce12) data (aead_counter nonce12 + 1));
                   h = aead_mac key32 nonce12 ad (take (length data) d)
               in (length data + 16, Some (memcpy_at d (length data) h)))"

definition BRChacha20Poly1305AEADDecrypt ::
    "u8 list \<Rightarrow> u8 list \<Rightarrow> u8 list \<Rightarrow> u8 list \<Rightarrow> wbuf \<Rightarrow> size_t \<times> wbuf" where
  "BRChacha20Poly1305AEADDecrypt key32 nonce12 data ad out =
     (case out of
        None \<Rightarrow> (if length data < 16 then 0 else length data - 16, None)
      | Some d \<Rightarrow>
          if length data < 16 \<or> (length data - 16) div 64 \<ge> UINT32_MAX \<or> length d + 16 < length data then (0, Some d)
          else let outLen = length data - 16;
                   h = words32 4 (aead_mac key32 nonce12 ad (take outLen data));
                   mac = words32 4 (drop outLen data);
                   outLen = (if (mac ! 0 XOR h ! 0) OR (mac ! 1 XOR h ! 1) OR (mac ! 2 XOR h ! 2) OR
                               (if mac ! 3 XOR h ! 3 \<noteq> 0 then 1 else 0) \<noteq> 0 then 0 else outLen)
               in (outLen, Some (memcpy_at d 0
                    (BRChacha20 key32 (drop 4 nonce12) (take outLen data) (aead_counter nonce12 + 1)))))"

section \<open>The authenticator\<close>

definition aead_tag :: "u8 list \<Rightarrow> u8 list \<Rightarrow> u8 list \<Rightarrow> u8 list \<Rightarrow> u8 list" where
  "aead_tag key32 nonce12 ad data =
     Poly1305 (BRChacha20 key32 (drop 4 nonce12) (replicate 32 0) (aead_counter nonce12)) (aead_message ad data)"

lemma pad16_dvd: "16 dvd length (pad16 xs)"
proof (cases "length xs mod 16 = 0")
  case False
  then have "length xs + (16 - length xs mod 16) = (length xs div 16 + 1) * 16"
    using div_mult_mod_eq [of "length xs" 16] mod_less_divisor [OF zero_less_numeral, of "length xs"]
    unfolding distrib_right by linarith
  then show ?thesis using False by (simp add: pad16_def)
qed (simp add: pad16_def mod_eq_0_iff_dvd)

lemma mac_part_pad16: "mac_part h key data = BRPoly1305Compress h key (pad16 data) False"
proof -
  define n where "n = length data div 16 * 16"
  have n: "n \<le> length data" "16 dvd length (take n data)" "length (drop n data) = length data mod 16"
    by (simp_all add: n_def minus_div_mult_eq_mod)
  have t: "take n data @ drop n data = data" by simp
  show ?thesis
  proof (cases "length data mod 16 = 0")
    case True
    then have "n = length data" using n(3) n(1) by simp
    then show ?thesis by (simp add: mac_part_def Let_def n_def [symmetric] True pad16_def)
  next
    case False
    then have "pad16 data = take n data @ memcpy_at (replicate 16 0) 0 (drop n data)"
      unfolding memcpy_at_0 pad16_def n(3) drop_replicate append_assoc [symmetric] t by simp
    then show ?thesis using False
      by (simp add: mac_part_def Let_def n_def [symmetric] BRPoly1305Compress_append [OF n(2)])
  qed
qed

lemma aead_mac_tag: "aead_mac key nonce ad data = aead_tag key nonce ad data"
proof -
  define mk where "mk = BRChacha20 key (drop 4 nonce) (replicate 32 0) (aead_counter nonce)"
  have l: "length mk = 32" by (simp add: mk_def)
  define m where "m = aead_message ad data"
  have "aead_mac key nonce ad data = take 16 (bytes32 (BRPoly1305Compress [0, 0, 0, 0, 0] mk m True))"
    unfolding aead_mac_def Let_def mk_def [symmetric] mac_part_pad16 m_def aead_message_def
      BRPoly1305Compress_append [OF pad16_dvd] UInt64SetLE_le
    using BRPoly1305Compress_append [of "pad16 ad @ pad16 data"] pad16_dvd by simp
  also have "\<dots> = Poly1305 mk m"
    unfolding Poly1305_def BRPoly1305Compress_final [OF l limbs_ok_0(1)] limbs_ok_0(2) by simp
  finally show ?thesis unfolding aead_tag_def mk_def m_def .
qed

section \<open>Encryption and decryption\<close>

lemma length_aead_mac [simp]: "length (aead_mac key nonce ad data) = 16"
  by (simp add: aead_mac_tag aead_tag_def Poly1305_def)

lemma encrypt_value:
  fixes key nonce data d :: "u8 list"
  assumes "length data + 16 \<le> length d" "length data div 64 < UINT32_MAX"
  defines "ct \<equiv> BRChacha20 key (drop 4 nonce) data (aead_counter nonce + 1)"
  shows "BRChacha20Poly1305AEADEncrypt key nonce data ad (Some d) =
    (length data + 16, Some (ct @ aead_tag key nonce ad ct @ drop (length data + 16) d))"
proof -
  have l: "length ct = length data" by (simp add: ct_def)
  have t: "memcpy_at (memcpy_at d 0 ct) (length data) (aead_tag key nonce ad ct) =
      ct @ aead_tag key nonce ad ct @ drop (length data + 16) d"
    using memcpy_at_append [of ct "length data" "drop (length data) d" "aead_tag key nonce ad ct"] l
    by (simp add: memcpy_at_0 aead_mac_tag [symmetric] add.commute)
  have f: "take (length data) (memcpy_at d 0 ct) = ct" using l by (simp add: memcpy_at_0)
  show ?thesis
    using assms(1,2) by (simp add: BRChacha20Poly1305AEADEncrypt_def Let_def ct_def [symmetric] f t aead_mac_tag)
qed

lemma words_eq_iff:
  assumes "length xs = 16" "length ys = 16"
  shows "words32 4 xs = words32 4 ys \<longleftrightarrow> xs = ys"
proof
  assume e: "words32 4 xs = words32 4 ys"
  have "le_nat xs = le_nat ys"
    using wv_words [of xs] wv_words [of ys] e assms by simp
  then show "xs = ys" using le_nat_bytes [OF assms(1)] le_nat_bytes [OF assms(2)] by simp
qed simp

lemma xor_eq_0: "x XOR y = 0 \<longleftrightarrow> x = (y :: 'a::len word)"
  by (metis xor.assoc xor.left_neutral xor.right_neutral xor_self_eq)

lemma mac_compare:
  assumes "length xs = 16" "length ys = 16"
  defines "m \<equiv> words32 4 xs" and "h \<equiv> words32 4 ys"
  shows "(m ! 0 XOR h ! 0) OR (m ! 1 XOR h ! 1) OR (m ! 2 XOR h ! 2) OR (if m ! 3 XOR h ! 3 \<noteq> 0 then 1 else 0) = (0 :: u32)
    \<longleftrightarrow> xs = ys"
proof -
  have "m = h \<longleftrightarrow> m ! 0 = h ! 0 \<and> m ! 1 = h ! 1 \<and> m ! 2 = h ! 2 \<and> m ! 3 = h ! 3"
    by (auto simp: m_def h_def words32_def upt_rec numeral_2_eq_2 numeral_3_eq_3)
  moreover have "(if m ! 3 XOR h ! 3 \<noteq> 0 then 1 else 0) = (0 :: u32) \<longleftrightarrow> m ! 3 XOR h ! 3 = 0" by simp
  ultimately show ?thesis
    using words_eq_iff [OF assms(1,2)] unfolding m_def [symmetric] h_def [symmetric] or_word_eq_0
    by (simp add: xor_eq_0)
qed

lemma decrypt_value:
  fixes key nonce data d :: "u8 list"
  assumes "16 \<le> length data" "(length data - 16) div 64 < UINT32_MAX" "length data - 16 \<le> length d"
  defines "ct \<equiv> take (length data - 16) data"
  shows "BRChacha20Poly1305AEADDecrypt key nonce data ad (Some d) =
    (if drop (length data - 16) data = aead_tag key nonce ad ct
     then (length ct, Some (BRChacha20 key (drop 4 nonce) ct (aead_counter nonce + 1) @ drop (length ct) d))
     else (0, Some d))"
proof -
  have lt: "length (drop (length data - 16) data) = 16" and lc: "length ct = length data - 16"
    using assms(1) by (simp_all add: ct_def)
  note c = mac_compare [OF lt length_aead_mac [of key nonce ad ct]]
  have g: "\<not> (length data < 16 \<or> (length data - 16) div 64 \<ge> UINT32_MAX \<or> length d + 16 < length data)"
    using assms(1-3) by linarith
  show ?thesis
  proof (cases "drop (length data - 16) data = aead_tag key nonce ad ct")
    case True
    then show ?thesis
      using c lc unfolding BRChacha20Poly1305AEADDecrypt_def option.case if_not_P [OF g] Let_def ct_def [symmetric] aead_mac_tag
      by (simp add: memcpy_at_0 ct_def)
  next
    case False
    then show ?thesis
      using c lc unfolding BRChacha20Poly1305AEADDecrypt_def option.case if_not_P [OF g] Let_def ct_def [symmetric] aead_mac_tag
      by (simp add: memcpy_at_0 ct_def)
  qed
qed

lemma decrypt_rejects:
  assumes "length data < 16 \<or> (length data - 16) div 64 \<ge> UINT32_MAX \<or> length d + 16 < length data"
  shows "BRChacha20Poly1305AEADDecrypt key nonce data ad (Some d) = (0, Some d)"
  using assms by (simp add: BRChacha20Poly1305AEADDecrypt_def)

lemma decrypt_only_tagged:
  "BRChacha20Poly1305AEADDecrypt key nonce inp ad (Some e) = (0, Some e) \<or>
    (\<exists>body. inp = body @ aead_tag key nonce ad body \<and> length body div 64 < UINT32_MAX \<and>
       BRChacha20Poly1305AEADDecrypt key nonce inp ad (Some e) =
         (length body, Some (BRChacha20 key (drop 4 nonce) body (aead_counter nonce + 1) @ drop (length body) e)))"
proof -
  let ?body = "take (length inp - 16) inp"
  consider (bad) "length inp < 16 \<or> (length inp - 16) div 64 \<ge> UINT32_MAX \<or> length e + 16 < length inp"
    | (ok) "16 \<le> length inp" "(length inp - 16) div 64 < UINT32_MAX" "length inp - 16 \<le> length e" by linarith
  then show ?thesis
  proof cases
    case bad
    then show ?thesis by (simp add: decrypt_rejects)
  next
    case ok
    note d = decrypt_value [OF ok, of key nonce ad]
    show ?thesis
    proof (cases "drop (length inp - 16) inp = aead_tag key nonce ad ?body")
      case True
      then have "inp = ?body @ aead_tag key nonce ad ?body" by (metis append_take_drop_id)
      then show ?thesis using d True ok by (intro disjI2 exI [of _ ?body] conjI) (assumption, simp_all)
    next
      case False
      then show ?thesis using d by simp
    qed
  qed
qed

lemma decrypt_encrypted:
  assumes "length data div 64 < UINT32_MAX" and "length data \<le> length e"
  defines "f \<equiv> \<lambda>key nonce. BRChacha20 key (drop 4 nonce) data (aead_counter nonce + 1)"
  shows "BRChacha20Poly1305AEADDecrypt key nonce (f key nonce @ aead_tag key nonce ad (f key nonce)) ad (Some e) =
      (length data, Some (data @ drop (length data) e))"
proof -
  define ct where "ct = f key nonce"
  have l: "length ct = length data" and lt: "length (aead_tag key nonce ad ct) = 16"
    by (simp_all add: ct_def f_def flip: aead_mac_tag)
  have t: "take (length (ct @ aead_tag key nonce ad ct) - 16) (ct @ aead_tag key nonce ad ct) = ct"
    "drop (length (ct @ aead_tag key nonce ad ct) - 16) (ct @ aead_tag key nonce ad ct) = aead_tag key nonce ad ct"
    using lt by simp_all
  have "BRChacha20 key (drop 4 nonce) ct (aead_counter nonce + 1) = data" by (simp add: ct_def f_def)
  then show ?thesis
    using decrypt_value [of "ct @ aead_tag key nonce ad ct" e key nonce ad] assms(1,2) l lt
    unfolding t ct_def [symmetric] by simp
qed

section \<open>The code and RFC 7539\<close>

lemma aead_tag_rfc:
  assumes "length key = 32" "length nonce = 12"
  shows "aead_tag key nonce ad data = rfc_tag key nonce ad data"
  by (simp add: aead_tag_def rfc_tag_def aead_counter_def one_time_key [OF assms])

lemma cipher_rfc:
  assumes "length key = 32" "length nonce = 12" "length data div 64 < UINT32_MAX"
  shows "BRChacha20 key (drop 4 nonce) data (aead_counter nonce + 1) = rfc_chacha20 key 1 nonce data"
  using BRChacha20_rfc [OF assms(1,2), of 1 data] assms(3) by (simp add: aead_counter_def UINT32_MAX_def)

text \<open>C22: for a key of 32 bytes and a nonce of 12 bytes, \<open>BRChacha20Poly1305AEADEncrypt\<close> computes the authenticated
  encryption of RFC 7539, which \<open>Rfc7539\<close> states apart from the code: it writes the ciphertext of ChaCha20 with the
  96-bit nonce, whose 32-bit block counter starts at 1, and then the Poly1305 tag, under the first 32 bytes of block 0, of
  the padded associated data, the padded ciphertext and their lengths. \<open>BRChacha20Poly1305AEADDecrypt\<close> gives the data
  back from that, whatever else the output buffer holds. For any input whatever, decryption returns bytes, or touches its
  output buffer, only if the last 16 bytes of the input are the tag of the rest, and then the bytes are the cipher applied
  to the rest.\<close>

theorem AEAD_correct:
  assumes "length key = 32" and "length nonce = 12"
    and "length data div 64 < UINT32_MAX" and "length data + 16 \<le> length d" and "length data \<le> length e"
  shows "let ct = rfc_chacha20 key 1 nonce data; tag = rfc_tag key nonce ad ct in
    BRChacha20Poly1305AEADEncrypt key nonce data ad (Some d) =
      (length data + 16, Some (ct @ tag @ drop (length data + 16) d)) \<and>
    BRChacha20Poly1305AEADDecrypt key nonce (ct @ tag) ad (Some e) = (length data, Some (data @ drop (length data) e)) \<and>
    (\<forall>inp. BRChacha20Poly1305AEADDecrypt key nonce inp ad (Some e) = (0, Some e) \<or>
       (\<exists>body. inp = body @ rfc_tag key nonce ad body \<and>
          BRChacha20Poly1305AEADDecrypt key nonce inp ad (Some e) =
            (length body, Some (rfc_chacha20 key 1 nonce body @ drop (length body) e))))"
  using encrypt_value [OF assms(4,3), of key nonce ad] decrypt_encrypted [OF assms(3,5), of key nonce ad]
    decrypt_only_tagged [of key nonce _ ad e] cipher_rfc [OF assms(1,2)]
  unfolding Let_def aead_tag_rfc [OF assms(1,2)] by (simp add: assms(3)) metis

theorem AEAD_correct_witness:
  "let key = replicate 32 1; nonce = replicate 12 2; ct = rfc_chacha20 key 1 nonce [1, 2, 3] in
     BRChacha20Poly1305AEADEncrypt key nonce [1, 2, 3] [9] (Some (replicate 19 0)) = (19, Some (ct @ rfc_tag key nonce [9] ct)) \<and>
     snd (BRChacha20Poly1305AEADDecrypt key nonce (ct @ rfc_tag key nonce [9] ct) [9] (Some [0, 0, 0])) = Some [1, 2, 3]"
  using AEAD_correct [of "replicate 32 1" "replicate 12 2" "[1, 2, 3]" "replicate 19 0" "[0, 0, 0]" "[9]"]
  by (simp add: Let_def UINT32_MAX_def)

end
