(* ===== verification/Key.thy ===== *)
theory Key
  imports Address "HOL-Library.Signed_Division"
begin

text \<open>
  \<^verbatim>\<open>Libraries/loafwallet-core/BRKey.c\<close> (and \<^verbatim>\<open>BRKey.h\<close>): private and public keys, their text formats, addresses
  and signatures, in the build without \<open>BITCOIN_TESTNET\<close>. The curve library \<^verbatim>\<open>secp256k1\<close> is not in the
  repository: its functions are the fields of a record \<open>E\<close>, with opaque types of public keys and
  signatures, and \<open>ec_laws\<close> collects what its documentation promises and the lemmas use. An operation
  that updates the key struct returns it.
\<close>

section \<open>The curve library\<close>

record ('pk, 'sg, 'rsg) secp256k1 =
  ec_seckey_verify :: "UInt256 \<Rightarrow> bool"
  ec_privkey_tweak_add :: "UInt256 \<Rightarrow> UInt256 \<Rightarrow> bool \<times> UInt256"
  ec_privkey_tweak_mul :: "UInt256 \<Rightarrow> UInt256 \<Rightarrow> bool \<times> UInt256"
  ec_pubkey_create :: "UInt256 \<Rightarrow> 'pk option"
  ec_pubkey_parse :: "u8 list \<Rightarrow> 'pk option"
  ec_pubkey_serialize :: "'pk \<Rightarrow> bool \<Rightarrow> u8 list"
  ec_pubkey_tweak_add :: "'pk \<Rightarrow> UInt256 \<Rightarrow> 'pk option"
  ec_pubkey_tweak_mul :: "'pk \<Rightarrow> UInt256 \<Rightarrow> 'pk option"
  ecdsa_sign :: "UInt256 \<Rightarrow> UInt256 \<Rightarrow> 'sg option"
  ecdsa_signature_serialize_der :: "'sg \<Rightarrow> u8 list"
  ecdsa_signature_parse_der :: "u8 list \<Rightarrow> 'sg option"
  ecdsa_verify :: "'sg \<Rightarrow> UInt256 \<Rightarrow> 'pk \<Rightarrow> bool"
  ecdsa_sign_recoverable :: "UInt256 \<Rightarrow> UInt256 \<Rightarrow> 'rsg option"
  ecdsa_recoverable_signature_serialize_compact :: "'rsg \<Rightarrow> u8 list \<times> nat"
  ecdsa_recoverable_signature_parse_compact :: "u8 list \<Rightarrow> int \<Rightarrow> 'rsg option"
  ecdsa_recover :: "'rsg \<Rightarrow> UInt256 \<Rightarrow> 'pk option"

type_synonym BRECPoint = "u8 list"

definition BRSecp256k1ModAdd :: "('pk, 'sg, 'rsg) secp256k1 \<Rightarrow> UInt256 \<Rightarrow> UInt256 \<Rightarrow> bool \<times> UInt256" where
  "BRSecp256k1ModAdd E a b = ec_privkey_tweak_add E a b"

definition BRSecp256k1ModMul :: "('pk, 'sg, 'rsg) secp256k1 \<Rightarrow> UInt256 \<Rightarrow> UInt256 \<Rightarrow> bool \<times> UInt256" where
  "BRSecp256k1ModMul E a b = ec_privkey_tweak_mul E a b"

text \<open>The point operations leave \<open>p\<close> as it is when they fail.\<close>

definition BRSecp256k1PointGen :: "('pk, 'sg, 'rsg) secp256k1 \<Rightarrow> UInt256 \<Rightarrow> BRECPoint option" where
  "BRSecp256k1PointGen E i = map_option (\<lambda>pk. ec_pubkey_serialize E pk True) (ec_pubkey_create E i)"

definition BRSecp256k1PointAdd :: "('pk, 'sg, 'rsg) secp256k1 \<Rightarrow> BRECPoint \<Rightarrow> UInt256 \<Rightarrow> bool \<times> BRECPoint" where
  "BRSecp256k1PointAdd E p i =
     (case Option.bind (ec_pubkey_parse E p) (\<lambda>pk. ec_pubkey_tweak_add E pk i) of
        None \<Rightarrow> (False, p) | Some pk \<Rightarrow> (True, ec_pubkey_serialize E pk True))"

definition BRSecp256k1PointMul :: "('pk, 'sg, 'rsg) secp256k1 \<Rightarrow> BRECPoint \<Rightarrow> UInt256 \<Rightarrow> bool \<times> BRECPoint" where
  "BRSecp256k1PointMul E p i =
     (case Option.bind (ec_pubkey_parse E p) (\<lambda>pk. ec_pubkey_tweak_mul E pk i) of
        None \<Rightarrow> (False, p) | Some pk \<Rightarrow> (True, ec_pubkey_serialize E pk True))"

section \<open>Keys\<close>

definition BITCOIN_PRIVKEY :: u8 where "BITCOIN_PRIVKEY = 176"

record BRKey =
  key_secret :: UInt256
  key_pubKey :: "u8 list"
  key_compressed :: bool

definition BRKeyClean :: "BRKey \<Rightarrow> BRKey" where
  "BRKeyClean key = \<lparr>key_secret = 0, key_pubKey = replicate 65 0, key_compressed = False\<rparr>"

definition is_hexdigit :: "u8 \<Rightarrow> bool" where
  "is_hexdigit c \<longleftrightarrow> c \<in> set (map of_char ''0123456789ABCDEFabcdef'')"

definition BRPrivKeyIsValid :: "u8 list \<Rightarrow> bool" where
  "BRPrivKeyIsValid privKey =
     (let (dataLen, data) = BRBase58CheckDecode privKey (Some (replicate 34 0)); strLen = length privKey in
      if dataLen = 33 \<or> dataLen = 34 then the data ! 0 = BITCOIN_PRIVKEY
      else if (strLen = 30 \<or> strLen = 22) \<and> privKey ! 0 = of_char CHR ''S''
      then BRSHA256 (privKey @ [of_char CHR ''?'']) ! 0 = 0
      else length (takeWhile is_hexdigit privKey) = 64)"

definition BRKeySetSecret ::
    "('pk, 'sg, 'rsg) secp256k1 \<Rightarrow> BRKey \<Rightarrow> UInt256 \<Rightarrow> bool \<Rightarrow> bool \<times> BRKey" where
  "BRKeySetSecret E key secret compressed =
     (let key = (BRKeyClean key)\<lparr>key_secret := secret, key_compressed := compressed\<rparr>
      in (ec_seckey_verify E (key_secret key), key))"

text \<open>\<open>sscanf(s, "%2hhx", &b)\<close>: white space, a sign, and at most two characters of a hexadecimal number; a
  lone \<open>0x\<close> is no number.\<close>

definition is_space :: "u8 \<Rightarrow> bool" where
  "is_space c \<longleftrightarrow> c = 32 \<or> 9 \<le> c \<and> c \<le> 13"

definition sscanf_2hhx :: "u8 list \<Rightarrow> u8 option" where
  "sscanf_2hhx s =
     (let s = dropWhile is_space s;
          sign = (s \<noteq> [] \<and> (hd s = of_char CHR ''-'' \<or> hd s = of_char CHR ''+''));
          ds = (if sign then take 1 (tl s) else take 2 s);
          hs = takeWhile is_hexdigit ds
      in if hs = [] \<or> ds \<in> {map of_char ''0x'', map of_char ''0X''} then None
         else let v = foldl (\<lambda>v h. v * 16 + hexu h) 0 hs
              in Some (if sign \<and> hd s = of_char CHR ''-'' then - v else v))"

text \<open>\<open>for (len = 0; privKey[len*2] && privKey[len*2 + 1] && len < sizeof(data); len++)\<close>, with the bytes read so far.\<close>

function hex_loop :: "u8 list \<Rightarrow> u8 list \<Rightarrow> u8 list" where
  "hex_loop s acc =
     (if 2 \<le> length s \<and> length acc < 34
      then (case sscanf_2hhx s of None \<Rightarrow> acc | Some b \<Rightarrow> hex_loop (drop 2 s) (acc @ [b]))
      else acc)"
  by auto
termination by (relation "measure (\<lambda>(s, acc). length s)") auto

declare hex_loop.simps [simp del]

definition BRKeySetPrivKey :: "('pk, 'sg, 'rsg) secp256k1 \<Rightarrow> BRKey \<Rightarrow> u8 list \<Rightarrow> bool \<times> BRKey" where
  "BRKeySetPrivKey E key privKey =
     (let len = length privKey in
      if (len = 30 \<or> len = 22) \<and> privKey ! 0 = of_char CHR ''S''
      then (if \<not> BRPrivKeyIsValid privKey then (False, key)
            else BRKeySetSecret E key (UInt256Get (BRSHA256 privKey)) False)
      else
        let (len, data) = BRBase58CheckDecode privKey (Some (replicate 34 0));
            (len, data) = (if len = 0 \<or> len = 28 then BRBase58Decode privKey data else (len, data));
            (len, data) = (if len < 32 \<or> len > 32 + 2
                           then let hs = hex_loop privKey [] in (length hs, Some (memcpy_at (the data) 0 hs))
                           else (len, data));
            data = the data
        in if (len = 32 + 1 \<or> len = 32 + 2) \<and> data ! 0 = BITCOIN_PRIVKEY
           then BRKeySetSecret E key (UInt256Get (take 32 (drop 1 data))) (len = 32 + 2)
           else if len = 32 then BRKeySetSecret E key (UInt256Get (take 32 data)) False
           else (False, key))"

definition BRKeySetPubKey ::
    "('pk, 'sg, 'rsg) secp256k1 \<Rightarrow> BRKey \<Rightarrow> u8 list \<Rightarrow> (bool \<times> BRKey) option" where
  "BRKeySetPubKey E key pubKey =
     (if length pubKey = 33 \<or> length pubKey = 65
      then let key = BRKeyClean key;
               key = key\<lparr>key_pubKey := memcpy_at (key_pubKey key) 0 pubKey, key_compressed := length pubKey \<le> 33\<rparr>
           in Some (ec_pubkey_parse E (take (length pubKey) (key_pubKey key)) \<noteq> None, key)
      else None)"

definition BRKeyPrivKey :: "('pk, 'sg, 'rsg) secp256k1 \<Rightarrow> BRKey \<Rightarrow> wbuf \<Rightarrow> size_t \<times> wbuf" where
  "BRKeyPrivKey E key privKey =
     (if ec_seckey_verify E (key_secret key)
      then BRBase58CheckEncode
        (BITCOIN_PRIVKEY # UInt256Set (key_secret key) @ (if key_compressed key then [0x01] else [])) privKey
      else (0, privKey))"

definition BRKeyPubKey :: "('pk, 'sg, 'rsg) secp256k1 \<Rightarrow> BRKey \<Rightarrow> wbuf \<Rightarrow> size_t \<times> wbuf \<times> BRKey" where
  "BRKeyPubKey E key pubKey =
     (let size = (if key_compressed key then 33 else 65);
          (size, key) =
            (if take size (key_pubKey key) = replicate size 0
             then (case ec_pubkey_create E (key_secret key) of
                     Some pk \<Rightarrow> let bs = ec_pubkey_serialize E pk (key_compressed key)
                       in (length bs, key\<lparr>key_pubKey := memcpy_at (key_pubKey key) 0 bs\<rparr>)
                   | None \<Rightarrow> (0, key))
             else (size, key));
          fits = (case pubKey of None \<Rightarrow> True | Some d \<Rightarrow> size \<le> length d)
      in (if fits then size else 0, if fits then put pubKey 0 (take size (key_pubKey key)) else pubKey, key))"

definition BRKeyHash160 :: "('pk, 'sg, 'rsg) secp256k1 \<Rightarrow> BRKey \<Rightarrow> UInt160 \<times> BRKey" where
  "BRKeyHash160 E key =
     (let (len, _, key) = BRKeyPubKey E key None in
      (if len > 0 \<and> ec_pubkey_parse E (take len (key_pubKey key)) \<noteq> None
       then UInt160Get (BRHash160 (take len (key_pubKey key))) else 0, key))"

definition BRKeyAddress :: "('pk, 'sg, 'rsg) secp256k1 \<Rightarrow> BRKey \<Rightarrow> wbuf \<Rightarrow> size_t \<times> wbuf \<times> BRKey" where
  "BRKeyAddress E key addr =
     (let (hash, key) = BRKeyHash160 E key;
          (r, addr) = (if hash \<noteq> 0 then BRBase58CheckEncode (BITCOIN_PUBKEY_ADDRESS # UInt160Set hash) addr else (0, addr))
      in (r, addr, key))"

section \<open>Signatures\<close>

text \<open>\<open>None\<close>: the curve library rejects a \<open>NULL\<close> output buffer as an illegal argument.\<close>

definition BRKeySign ::
    "('pk, 'sg, 'rsg) secp256k1 \<Rightarrow> BRKey \<Rightarrow> UInt256 \<Rightarrow> wbuf \<Rightarrow> (size_t \<times> wbuf) option" where
  "BRKeySign E key md sig =
     (case ecdsa_sign E md (key_secret key) of
        None \<Rightarrow> Some (0, sig)
      | Some s \<Rightarrow>
          (case sig of
             None \<Rightarrow> None
           | Some d \<Rightarrow> let der = ecdsa_signature_serialize_der E s in
               Some (if length der \<le> length d then (length der, put sig 0 der) else (0, sig))))"

definition BRKeyVerify ::
    "('pk, 'sg, 'rsg) secp256k1 \<Rightarrow> BRKey \<Rightarrow> UInt256 \<Rightarrow> u8 list \<Rightarrow> (bool \<times> BRKey) option" where
  "BRKeyVerify E key md sig =
     (if length sig > 0
      then let (len, _, key) = BRKeyPubKey E key None in
        Some (if len > 0
              then (case (ec_pubkey_parse E (take len (key_pubKey key)), ecdsa_signature_parse_der E sig) of
                      (Some pk, Some s) \<Rightarrow> (ecdsa_verify E s md pk, key) | _ \<Rightarrow> (False, key))
              else (False, key))
      else None)"

definition BRKeyCompactSign ::
    "('pk, 'sg, 'rsg) secp256k1 \<Rightarrow> BRKey \<Rightarrow> UInt256 \<Rightarrow> wbuf \<Rightarrow> (size_t \<times> wbuf) option" where
  "BRKeyCompactSign E key md compactSig =
     (case compactSig of
        None \<Rightarrow> Some (if key_secret key \<noteq> 0 then 65 else 0, None)
      | Some d \<Rightarrow>
          if length d < 65 then None
          else if key_secret key = 0 then Some (0, compactSig)
          else (case ecdsa_sign_recoverable E md (key_secret key) of
                  None \<Rightarrow> Some (0, compactSig)
                | Some s \<Rightarrow> let (bs, recid) = ecdsa_recoverable_signature_serialize_compact E s in
                    Some (65, put compactSig 0 ((27 + word_of_nat recid + (if key_compressed key then 4 else 0)) # bs))))"

definition BRKeyRecoverPubKey ::
    "('pk, 'sg, 'rsg) secp256k1 \<Rightarrow> BRKey \<Rightarrow> UInt256 \<Rightarrow> u8 list \<Rightarrow> (bool \<times> BRKey) option" where
  "BRKeyRecoverPubKey E key md compactSig =
     (if length compactSig = 65
      then let h = int (unat (compactSig ! 0)) - 27; compressed = (h \<ge> 4); recid = h smod 4 in
        (case Option.bind (ecdsa_recoverable_signature_parse_compact E (drop 1 compactSig) recid)
            (\<lambda>s. ecdsa_recover E s md) of
           None \<Rightarrow> Some (False, key)
         | Some pk \<Rightarrow> BRKeySetPubKey E key (ec_pubkey_serialize E pk compressed))
      else None)"

section \<open>What the curve library promises\<close>

definition ec_laws :: "('pk, 'sg, 'rsg) secp256k1 \<Rightarrow> bool" where
  "ec_laws E \<longleftrightarrow>
     (\<forall>pk c. ec_pubkey_parse E (ec_pubkey_serialize E pk c) = Some pk \<and>
        length (ec_pubkey_serialize E pk c) = (if c then 33 else 65) \<and> ec_pubkey_serialize E pk c ! 0 \<noteq> 0) \<and>
     (\<forall>k. ec_seckey_verify E k \<longleftrightarrow> ec_pubkey_create E k \<noteq> None) \<and>
     (\<forall>k t k'. ec_privkey_tweak_add E k t = (True, k') \<longrightarrow>
        ec_seckey_verify E k' \<and>
        (\<exists>pk. ec_pubkey_create E k = Some pk \<and> ec_pubkey_tweak_add E pk t = ec_pubkey_create E k')) \<and>
     (\<forall>md k s. ecdsa_sign E md k = Some s \<longrightarrow>
        0 < length (ecdsa_signature_serialize_der E s) \<and>
        ecdsa_signature_parse_der E (ecdsa_signature_serialize_der E s) = Some s \<and>
        (\<forall>pk. ec_pubkey_create E k = Some pk \<longrightarrow> ecdsa_verify E s md pk)) \<and>
     (\<forall>md k s bs r. ecdsa_sign_recoverable E md k = Some s \<longrightarrow>
        ecdsa_recoverable_signature_serialize_compact E s = (bs, r) \<longrightarrow>
        length bs = 64 \<and> r < 4 \<and> ecdsa_recoverable_signature_parse_compact E bs (int r) = Some s \<and>
        ecdsa_recover E s md = ec_pubkey_create E k)"

text \<open>A tiny library that keeps these promises: keys are words, their own public keys, and their own signatures
  together with the digest.\<close>

definition demo_ec :: "(UInt256, UInt256 \<times> UInt256, UInt256 \<times> UInt256) secp256k1" where
  "demo_ec = \<lparr>
     ec_seckey_verify = (\<lambda>k. True),
     ec_privkey_tweak_add = (\<lambda>k t. (True, k + t)),
     ec_privkey_tweak_mul = (\<lambda>k t. (True, k * t)),
     ec_pubkey_create = Some,
     ec_pubkey_parse = (\<lambda>bs. if bs \<noteq> [] \<and> bs ! 0 \<in> {2, 4} then Some (UInt256Get (take 32 (drop 1 bs))) else None),
     ec_pubkey_serialize = (\<lambda>k c. if c then 2 # UInt256Set k else 4 # UInt256Set k @ replicate 32 0),
     ec_pubkey_tweak_add = (\<lambda>k t. Some (k + t)),
     ec_pubkey_tweak_mul = (\<lambda>k t. Some (k * t)),
     ecdsa_sign = (\<lambda>md k. Some (md, k)),
     ecdsa_signature_serialize_der = (\<lambda>(md, k). UInt256Set md @ UInt256Set k),
     ecdsa_signature_parse_der = (\<lambda>bs. Some (UInt256Get (take 32 bs), UInt256Get (drop 32 bs))),
     ecdsa_verify = (\<lambda>s md k. s = (md, k)),
     ecdsa_sign_recoverable = (\<lambda>md k. Some (md, k)),
     ecdsa_recoverable_signature_serialize_compact = (\<lambda>(md, k). (UInt256Set md @ UInt256Set k, 1)),
     ecdsa_recoverable_signature_parse_compact = (\<lambda>bs r. Some (UInt256Get (take 32 bs), UInt256Get (drop 32 bs))),
     ecdsa_recover = (\<lambda>s md. Some (snd s))\<rparr>"

lemma Get_Set: "UInt256Get (UInt256Set k) = k"
  using UInt256Get_append [of k "[]"] by simp

lemma Set_not_Nil: "UInt256Set k \<noteq> []"
  using length_UIntSet by (metis list.size(3) zero_neq_numeral)

lemma demo_ec_laws: "ec_laws demo_ec"
  unfolding ec_laws_def demo_ec_def by (auto simp: Get_Set Set_not_Nil)

section \<open>Text formats\<close>

definition wif_payload :: "BRKey \<Rightarrow> u8 list" where
  "wif_payload key = BITCOIN_PRIVKEY # UInt256Set (key_secret key) @ (if key_compressed key then [0x01] else [])"

definition wif :: "BRKey \<Rightarrow> u8 list" where
  "wif key = b58_string (wif_payload key @ take 4 (BRSHA256_2 (wif_payload key)))"

lemma length_wif_payload: "length (wif_payload key) = (if key_compressed key then 34 else 33)"
  by (simp add: wif_payload_def)

lemma length_sha256_2_4: "length (take 4 (BRSHA256_2 x)) = 4"
  by simp

lemma wif_data: "b58_data (wif key) = wif_payload key @ take 4 (BRSHA256_2 (wif_payload key))"
  by (simp add: wif_def b58_data_string)

lemma wif_long: "37 \<le> length (wif key)"
proof -
  have "length (b58_data (wif key)) \<le> length (wif key)" by (rule b58_data_length)
  then show ?thesis unfolding wif_data by (simp add: length_wif_payload split: if_splits)
qed

lemma wif_check: "BRBase58CheckDecode (wif key) (Some (replicate 34 0)) =
    (length (wif_payload key), Some (memcpy_at (replicate 34 0) 0 (wif_payload key)))"
  unfolding check_decode_eq wif_data by (simp add: Let_def length_wif_payload put_def)

lemma BRKeyPrivKey_wif:
  "ec_seckey_verify E (key_secret key) \<Longrightarrow> BRKeyPrivKey E key b = BRBase58Encode (wif_payload key @ take 4 (BRSHA256_2 (wif_payload key))) b"
  by (simp add: BRKeyPrivKey_def CheckEncode_eq wif_payload_def)

text \<open>C26: a private key survives its wallet import format: a valid key is written as a C string, of the length
  announced for a \<open>NULL\<close> buffer, which is recognized as a private key and from which the same secret and
  the same choice of compression are read back, whatever the key struct held before.\<close>

theorem BRKeyPrivKey_roundtrip:
  assumes "ec_seckey_verify E (key_secret key)"
  shows "\<exists>s. BRKeyPrivKey E key None = (length s + 1, None) \<and>
    BRKeyPrivKey E key (Some (replicate (length s + 1) 0)) = (length s + 1, Some (s @ [0])) \<and>
    BRPrivKeyIsValid s \<and>
    BRKeySetPrivKey E old s = (True, \<lparr>key_secret = key_secret key, key_pubKey = replicate 65 0, key_compressed = key_compressed key\<rparr>)"
proof (intro exI [of _ "wif key"] conjI)
  let ?p = "wif_payload key @ take 4 (BRSHA256_2 (wif_payload key))"
  show "BRKeyPrivKey E key None = (length (wif key) + 1, None)"
    using writes_None [OF b58enc.ser_writes, of ?p] by (simp add: BRKeyPrivKey_wif [OF assms] wif_def)
  show "BRKeyPrivKey E key (Some (replicate (length (wif key) + 1) 0)) = (length (wif key) + 1, Some (wif key @ [0]))"
    using writes_Some [OF b58enc.ser_writes, of ?p "replicate (length (wif key) + 1) 0"]
    by (simp add: BRKeyPrivKey_wif [OF assms] wif_def)
  show "BRPrivKeyIsValid (wif key)"
    unfolding BRPrivKeyIsValid_def wif_check by (simp add: length_wif_payload memcpy_at_0 wif_payload_def)
  have n: "\<not> ((length (wif key) = 30 \<or> length (wif key) = 22) \<and> wif key ! 0 = of_char CHR ''S'')"
    using wif_long [of key] by simp
  show "BRKeySetPrivKey E old (wif key) =
      (True, \<lparr>key_secret = key_secret key, key_pubKey = replicate 65 0, key_compressed = key_compressed key\<rparr>)"
    unfolding BRKeySetPrivKey_def Let_def if_not_P [OF n] wif_check
    using assms
    by (simp add: length_wif_payload memcpy_at_0 BRKeySetSecret_def BRKeyClean_def) (simp add: wif_payload_def Get_Set)
qed

theorem BRKeyPrivKey_roundtrip_witness:
  "\<exists>s. BRKeyPrivKey demo_ec \<lparr>key_secret = 5, key_pubKey = [], key_compressed = True\<rparr> None = (length s + 1, None) \<and>
     BRKeySetPrivKey demo_ec \<lparr>key_secret = 0, key_pubKey = [], key_compressed = False\<rparr> s =
       (True, \<lparr>key_secret = 5, key_pubKey = replicate 65 0, key_compressed = True\<rparr>)"
proof -
  have "ec_seckey_verify demo_ec (key_secret \<lparr>key_secret = 5, key_pubKey = [], key_compressed = True\<rparr>)"
    by (simp add: demo_ec_def)
  from BRKeyPrivKey_roundtrip [OF this, of "\<lparr>key_secret = 0, key_pubKey = [], key_compressed = False\<rparr>"]
  show ?thesis by (metis BRKey.simps(1,3))
qed

section \<open>Hexadecimal private keys\<close>

lemma hexdigit_not_space: "is_hexdigit c \<Longrightarrow> \<not> is_space c \<and> c \<noteq> of_char CHR ''-'' \<and> c \<noteq> of_char CHR ''+''"
  by (auto simp: is_hexdigit_def is_space_def)

lemma hexdigit_not_x: "is_hexdigit b \<Longrightarrow> b \<noteq> of_char CHR ''x'' \<and> b \<noteq> of_char CHR ''X''"
  by (auto simp: is_hexdigit_def)

lemma hexu_digit: "is_hexdigit c \<Longrightarrow> hexu c < 16"
  by (auto simp: is_hexdigit_def hexu_def)

lemma nibble_or: "b < 16 \<Longrightarrow> push_bit 4 a OR b = a * 16 + (b :: u8)"
proof -
  assume "b < 16"
  then have "unat b < 16" by (simp add: word_less_nat_alt)
  then have b: "b = take_bit 4 b" by (simp only: word_unat_eq_iff unsigned_take_bit_eq) (simp add: take_bit_eq_mod)
  have "push_bit 4 a AND b = 0" by (subst b) (auto simp: bit_eq_iff bit_simps)
  then show ?thesis by (simp add: disjunctive_add_eq_or [symmetric] push_bit_eq_mult)
qed

lemma sscanf_hex:
  assumes "is_hexdigit a" "is_hexdigit b"
  shows "sscanf_2hhx (a # b # s) = Some (push_bit 4 (hexu a) OR hexu b)"
  using assms hexdigit_not_space [OF assms(1)] hexdigit_not_x [OF assms(2)] nibble_or [OF hexu_digit [OF assms(2)]]
  by (auto simp: sscanf_2hhx_def Let_def)

lemma hex_loop_digits:
  "even (length s) \<Longrightarrow> length s \<le> 2 * (34 - length acc) \<Longrightarrow> \<forall>c\<in>set s. is_hexdigit c \<Longrightarrow>
    hex_loop s acc = acc @ map (\<lambda>i. push_bit 4 (hexu (s ! (2 * i))) OR hexu (s ! (2 * i + 1))) [0..<length s div 2]"
proof (induction s acc rule: hex_loop.induct)
  case (1 s acc)
  show ?case
  proof (cases "s = []")
    case True
    then show ?thesis by (simp add: hex_loop.simps)
  next
    case False
    then obtain a b t where s: "s = a # b # t" using "1.prems"(1) by (cases s; cases "tl s") auto
    have l: "length acc < 34" using "1.prems"(2) unfolding s by (cases "length acc < 34") auto
    have h: "sscanf_2hhx s = Some (push_bit 4 (hexu a) OR hexu b)" unfolding s by (rule sscanf_hex) (use "1.prems"(3) s in auto)
    let ?x = "push_bit 4 (hexu a) OR hexu b"
    have "hex_loop t (acc @ [?x]) =
        (acc @ [?x]) @ map (\<lambda>i. push_bit 4 (hexu (t ! (2 * i))) OR hexu (t ! (2 * i + 1))) [0..<length t div 2]"
      using "1.IH" [OF _ h] "1.prems" l unfolding s by simp
    moreover have "map (\<lambda>i. push_bit 4 (hexu (s ! (2 * i))) OR hexu (s ! (2 * i + 1))) [0..<length s div 2] =
        ?x # map (\<lambda>i. push_bit 4 (hexu (t ! (2 * i))) OR hexu (t ! (2 * i + 1))) [0..<length t div 2]"
      unfolding s by (simp add: upt_conv_Cons map_Suc_upt [symmetric] del: upt_Suc map_Suc_upt)
    moreover have "hex_loop s acc = hex_loop t (acc @ [?x])"
      using l h by (subst hex_loop.simps) (simp add: s)
    ultimately show ?thesis by simp
  qed
qed

lemma check_decode_lengths:
  "fst (BRBase58CheckDecode str (Some (replicate 34 0))) \<in> {0, length (b58_data str) - 4}"
  "length (b58_data str) \<le> 4 + 34 \<or> fst (BRBase58CheckDecode str (Some (replicate 34 0))) = 0"
  unfolding check_decode_eq by (auto simp: Let_def)

lemma decode34: "BRBase58Decode str (Some d) = (if length (b58_data str) \<le> length d
    then (length (b58_data str), Some (memcpy_at d 0 (b58_data str))) else (0, Some d))"
  by (simp add: BRBase58Decode_def Let_def put_def)

lemma check_decode_buffer:
  "\<exists>d. length d = 34 \<and> snd (BRBase58CheckDecode str (Some (replicate 34 0))) = Some d"
  unfolding check_decode_eq by (auto simp: Let_def put_def simp del: replicate.simps)

lemma hex_not_mini: "length s = 64 \<Longrightarrow> \<not> ((length s = 30 \<or> length s = 22) \<and> s ! 0 = of_char CHR ''S'')"
  by simp

lemma SetPrivKey_32:
  assumes "length s = 64" "length (b58_data s) = 32"
  shows "BRKeySetPrivKey E key s = BRKeySetSecret E key (UInt256Get (b58_data s)) False"
proof -
  obtain d where d: "length d = 34" "snd (BRBase58CheckDecode s (Some (replicate 34 0))) = Some d"
    using check_decode_buffer by blast
  have "fst (BRBase58CheckDecode s (Some (replicate 34 0))) \<in> {0, 28}"
    using check_decode_lengths(1) [of s] assms(2) by simp
  then obtain l where l: "BRBase58CheckDecode s (Some (replicate 34 0)) = (l, Some d)" "l = 0 \<or> l = 28"
    using d(2) by (metis insertE prod.collapse singletonD)
  show ?thesis
    using l(2) d(1) assms(2)
    unfolding BRKeySetPrivKey_def Let_def if_not_P [OF hex_not_mini [OF assms(1)]] l(1) prod.case decode34
    by (auto simp: memcpy_at_0)
qed

lemma SetPrivKey_long:
  assumes "length s = 64" "\<forall>c\<in>set s. is_hexdigit c" "38 < length (b58_data s)"
  shows "BRKeySetPrivKey E key s = BRKeySetSecret E key (u256_hex_decode s) False"
proof -
  obtain d where d: "length d = 34" "snd (BRBase58CheckDecode s (Some (replicate 34 0))) = Some d"
    using check_decode_buffer by blast
  have "fst (BRBase58CheckDecode s (Some (replicate 34 0))) = 0"
    using check_decode_lengths(2) [of s] assms(3) by simp
  then have l: "BRBase58CheckDecode s (Some (replicate 34 0)) = (0, Some d)" using d(2) by (metis prod.collapse)
  have b: "BRBase58Decode s (Some d) = (0, Some d)" unfolding decode34 using d(1) assms(3) by simp
  define h where "h = hex_loop s []"
  have h: "h = map (\<lambda>i. push_bit 4 (hexu (s ! (2 * i))) OR hexu (s ! (2 * i + 1))) [0..<32]"
    unfolding h_def using hex_loop_digits [of s "[]"] assms(1,2) by simp
  have lh: "length h = 32" unfolding h by simp
  have u: "UInt256Get h = u256_hex_decode s" unfolding u256_hex_decode_def h ..
  show ?thesis
    unfolding BRKeySetPrivKey_def Let_def if_not_P [OF hex_not_mini [OF assms(1)]] l prod.case b h_def [symmetric]
    by (simp add: b h_def [symmetric] lh memcpy_at_0 u)
qed

text \<open>A string whose base58 digits end at a character that is none.\<close>

lemma b58_data_prefix:
  fixes ds rest :: "u8 list" and c :: u8
  assumes ds: "\<forall>d\<in>set ds. unat d < 58" "ds \<noteq> []" "hd ds \<noteq> 0" and c: "b58_carry c \<ge> 58"
  defines "s \<equiv> map (\<lambda>d. base58chars ! unat d) ds @ c # rest"
  shows "bval 256 (b58_data s) = bval 58 ds" and "stripped (b58_data s)"
proof -
  let ?cs = "map (\<lambda>d. base58chars ! unat d) ds" and ?m = "length s * 733 div 1000 + 1"
  obtain d ds' where e: "ds = d # ds'" using ds(2) by (cases ds) auto
  have "base58chars ! unat d \<noteq> base58chars ! 0" using base58_first [of d] ds e by auto
  then have z: "zcount_of (base58chars ! 0) s = 0" by (simp add: zcount_of_def s_def e)
  have stop: "dec_loop (cs @ c # rest) buf = dec_loop cs buf" for cs buf
  proof (induction cs arbitrary: buf)
    case (Cons a cs)
    then show ?case by (simp add: Let_def)
  qed (use c in \<open>simp add: Let_def\<close>)
  have "bval 58 ds < 58 ^ length ds" by (rule bval_bound) (use ds in auto)
  also have "\<dots> < 256 ^ (length ds * 733 div 1000 + 1)" using dec_room [of "length ds"] by simp
  also have "\<dots> \<le> 256 ^ ?m" by (rule power_increasing) (auto simp: s_def intro!: div_le_mono)
  finally have "bval 58 ds + 58 ^ length ds * bval 256 (replicate ?m 0) < 256 ^ length (replicate ?m (0 :: u8))"
    by (simp del: power_Suc add_Suc_right)
  note * = dec_loop_val [OF ds(1) this]
  have b: "b58_data s = dropWhile (\<lambda>b. b = 0) (dec_loop ?cs (replicate ?m 0))"
    unfolding b58_data_def Let_def z by (simp add: s_def stop del: replicate.simps)
  show "bval 256 (b58_data s) = bval 58 ds" using * by (simp add: b bval_dropWhile del: replicate.simps)
  show "stripped (b58_data s)" unfolding b by (rule stripped_dropWhile)
qed

definition demo_hex :: "u8 list" where
  "demo_hex = 50 # replicate 43 49 @ 48 # replicate 19 49"

lemma demo_hex_misread:
  "length demo_hex = 64" "list_all is_hexdigit demo_hex" "BRPrivKeyIsValid demo_hex"
  "length (b58_data demo_hex) = 32" "UInt256Get (b58_data demo_hex) \<noteq> u256_hex_decode demo_hex"
proof -
  have ch: "base58chars ! 0 = 49" "base58chars ! 1 = 50" by code_simp+
  have c48: "b58_carry 48 \<ge> 58" by code_simp
  let ?ds = "1 # replicate 43 0 :: u8 list"
  have e: "demo_hex = map (\<lambda>d. base58chars ! unat d) ?ds @ 48 # replicate 19 49"
    by (simp add: demo_hex_def ch [simplified] del: replicate.simps)
  have d: "\<forall>d\<in>set ?ds. unat d < 58" "?ds \<noteq> []" "hd ?ds \<noteq> 0" by (auto simp del: replicate.simps)
  have "bval 58 ?ds = 58 ^ 43" by (simp add: bval_def val_append del: replicate.simps)
  then have v: "bval 256 (b58_data demo_hex) = 58 ^ 43" and s: "stripped (b58_data demo_hex)"
    using b58_data_prefix [OF d c48, of "replicate 19 49"] unfolding e [symmetric] by simp_all
  have ne: "b58_data demo_hex \<noteq> []" using v by (metis bval_zeros(2) power_not_zero zero_neq_numeral)
  have b: "\<forall>d\<in>set (b58_data demo_hex). unat d < 256" using unsigned_less [where 'a = nat and 'b = 8] by auto
  have lo: "256 ^ (length (b58_data demo_hex) - 1) \<le> (58 :: nat) ^ 43" using bval_stripped_lower [OF s ne, of 256] v by simp
  have hi: "(58 :: nat) ^ 43 < 256 ^ length (b58_data demo_hex)" using bval_bound [OF _ b] v by simp
  have "length (b58_data demo_hex) - 1 < 32"
    by (rule power_less_imp_less_exp [of "256 :: nat"], simp, rule order_le_less_trans [OF lo]) simp
  moreover have "31 < length (b58_data demo_hex)"
    by (rule power_less_imp_less_exp [of "256 :: nat"], simp, rule order_le_less_trans [OF _ hi]) simp
  ultimately show l: "length (b58_data demo_hex) = 32" by linarith
  show l64: "length demo_hex = 64" by (simp add: demo_hex_def)
  show hx: "list_all is_hexdigit demo_hex"
    by (simp add: demo_hex_def list_all_iff is_hexdigit_def del: replicate.simps)
  have "fst (BRBase58CheckDecode demo_hex (Some (replicate 34 0))) \<in> {0, 28}"
    using check_decode_lengths(1) [of demo_hex] l by simp
  moreover have "length (takeWhile is_hexdigit demo_hex) = 64"
    using hx l64 by (simp add: list_all_iff takeWhile_eq_all_conv [THEN iffD2])
  ultimately show "BRPrivKeyIsValid demo_hex"
    using l64 by (auto simp: BRPrivKeyIsValid_def Let_def split: prod.splits)
  have "u8_of (u256_hex_decode demo_hex) 31 = push_bit 4 (hexu (demo_hex ! 62)) OR hexu (demo_hex ! 63)"
    unfolding u256_hex_decode_def by (subst u8_of_Get) simp_all
  also have "demo_hex ! 62 = 49" by code_simp
  also have "demo_hex ! 63 = 49" by code_simp
  also have "push_bit 4 (hexu 49) OR hexu 49 = 0x11" by (simp add: hexu_def)
  finally have h: "u8_of (u256_hex_decode demo_hex) 31 = 0x11" .
  obtain xs x where xs: "b58_data demo_hex = xs @ [x]" using ne by (metis append_butlast_last_id)
  have "u8_of (UInt256Get (b58_data demo_hex)) 31 = x"
    using l by (subst u8_of_Get) (simp_all add: xs nth_append)
  moreover have "even (unat x)"
  proof -
    have "unat x + 256 * bval 256 xs = 58 ^ 43" using v unfolding xs bval_snoc .
    then have "even (unat x + 256 * bval 256 xs)" by simp
    then show ?thesis by simp
  qed
  ultimately show "UInt256Get (b58_data demo_hex) \<noteq> u256_hex_decode demo_hex" using h by auto
qed

text \<open>C27: a private key given as 64 hexadecimal digits is read as the number they denote if base58 decoding of
  the string gives more than 38 bytes. But base58 decoding stops at the first character that is not a base58
  digit, as \<open>0\<close> is none: whenever the part before it happens to decode to 32 bytes, the code takes these 32
  bytes as the secret, though the string is recognized as a valid key; such keys exist.\<close>

theorem BRKeySetPrivKey_hex:
  assumes "length s = 64" and "\<forall>c\<in>set s. is_hexdigit c"
  shows "(38 < length (b58_data s) \<longrightarrow> BRKeySetPrivKey E key s = BRKeySetSecret E key (u256_hex_decode s) False) \<and>
    (length (b58_data s) = 32 \<longrightarrow> BRKeySetPrivKey E key s = BRKeySetSecret E key (UInt256Get (b58_data s)) False) \<and>
    (\<exists>s. length s = 64 \<and> list_all is_hexdigit s \<and> BRPrivKeyIsValid s \<and> length (b58_data s) = 32 \<and>
       UInt256Get (b58_data s) \<noteq> u256_hex_decode s)"
  using SetPrivKey_long [OF assms] SetPrivKey_32 [OF assms(1)] demo_hex_misread by blast

theorem BRKeySetPrivKey_hex_witness:
  "BRKeySetPrivKey demo_ec \<lparr>key_secret = 0, key_pubKey = [], key_compressed = True\<rparr> demo_hex =
     (True, \<lparr>key_secret = UInt256Get (b58_data demo_hex), key_pubKey = replicate 65 0, key_compressed = False\<rparr>)"
  using BRKeySetPrivKey_hex [of demo_hex demo_ec "\<lparr>key_secret = 0, key_pubKey = [], key_compressed = True\<rparr>"] demo_hex_misread
  by (auto simp: list_all_iff BRKeySetSecret_def BRKeyClean_def demo_ec_def)

section \<open>Public keys and signatures\<close>

lemma BRKeyPubKey_fresh:
  assumes laws: "ec_laws E" and pk: "ec_pubkey_create E (key_secret key) = Some pk"
    and fresh: "key_pubKey key = replicate 65 0"
  defines "bs \<equiv> ec_pubkey_serialize E pk (key_compressed key)"
  shows "BRKeyPubKey E key None = (length bs, None, key\<lparr>key_pubKey := memcpy_at (key_pubKey key) 0 bs\<rparr>)"
    and "length bs = (if key_compressed key then 33 else 65)"
    and "take (length bs) (memcpy_at (key_pubKey key) 0 bs) = bs"
    and "ec_pubkey_parse E bs = Some pk"
proof -
  show l: "length bs = (if key_compressed key then 33 else 65)" and "ec_pubkey_parse E bs = Some pk"
    using laws unfolding ec_laws_def bs_def by blast+
  show "take (length bs) (memcpy_at (key_pubKey key) 0 bs) = bs" by (simp add: memcpy_at_0)
  show "BRKeyPubKey E key None = (length bs, None, key\<lparr>key_pubKey := memcpy_at (key_pubKey key) 0 bs\<rparr>)"
    using l unfolding BRKeyPubKey_def pk by (simp add: fresh Let_def bs_def)
qed

lemma recover_signed:
  assumes laws: "ec_laws E" and pk: "ec_pubkey_create E k = Some pk" and s: "ecdsa_sign_recoverable E md k = Some s"
    and key: "key_secret key = k" and nz: "k \<noteq> 0"
  shows "\<exists>sig. BRKeyCompactSign E key md (Some (replicate 65 0)) = Some (65, Some sig) \<and>
    BRKeyRecoverPubKey E other md sig = Some (True, \<lparr>key_secret = 0,
      key_pubKey = memcpy_at (replicate 65 0) 0 (ec_pubkey_serialize E pk (key_compressed key)), key_compressed = key_compressed key\<rparr>)"
proof -
  obtain bs r where c: "ecdsa_recoverable_signature_serialize_compact E s = (bs, r)" by fastforce
  have l: "length bs = 64" "r < 4" "ecdsa_recoverable_signature_parse_compact E bs (int r) = Some s"
    "ecdsa_recover E s md = Some pk"
    using laws s c pk unfolding ec_laws_def by metis+
  define b where "b = key_compressed key"
  define h where "h = (27 + word_of_nat r + (if b then 4 else 0) :: u8)"
  have h: "int (unat h) = 27 + int r + (if b then 4 else 0)"
  proof -
    have "h = word_of_nat (27 + r + (if b then 4 else 0))" by (simp add: h_def)
    moreover have "unat (word_of_nat (27 + r + (if b then 4 else 0)) :: u8) = 27 + r + (if b then 4 else 0)"
      unfolding unat_of_nat by (rule mod_less) (use l(2) in simp)
    ultimately show ?thesis by simp
  qed
  have m: "(int (unat h) - 27) smod 4 = int r" "int (unat h) - 27 \<ge> 4 \<longleftrightarrow> b"
    unfolding h using l(2) by (auto simp: smod_mod_positive)
  have mu: "(uint h - 27) smod 4 = int r" "4 \<le> uint h - 27 \<longleftrightarrow> b" using m by simp_all
  have ls: "length (ec_pubkey_serialize E pk b) = (if b then 33 else 65)"
    "ec_pubkey_parse E (ec_pubkey_serialize E pk b) = Some pk" using laws unfolding ec_laws_def by blast+
  have "BRKeyCompactSign E key md (Some (replicate 65 0)) = Some (65, Some (h # bs))"
    using nz by (simp add: BRKeyCompactSign_def key s c l(1) put_def memcpy_at_0 h_def b_def)
  moreover have "BRKeyRecoverPubKey E other md (h # bs) = Some (True, \<lparr>key_secret = 0,
      key_pubKey = memcpy_at (replicate 65 0) 0 (ec_pubkey_serialize E pk b), key_compressed = b\<rparr>)"
    unfolding BRKeyRecoverPubKey_def
    by (simp add: l Let_def mu BRKeySetPubKey_def ls BRKeyClean_def memcpy_at_0)
  ultimately show ?thesis unfolding b_def by blast
qed

lemma verify_signed:
  assumes laws: "ec_laws E" and pk: "ec_pubkey_create E k = Some pk" and s: "ecdsa_sign E md k = Some s"
    and key: "key_secret key = k" "key_pubKey key = replicate 65 0"
  defines "der \<equiv> ecdsa_signature_serialize_der E s"
  shows "BRKeySign E key md (Some (replicate (length der) 0)) = Some (length der, Some der)"
    and "map_option fst (BRKeyVerify E key md der) = Some True"
proof -
  show "BRKeySign E key md (Some (replicate (length der) 0)) = Some (length der, Some der)"
    by (simp add: BRKeySign_def key s der_def Let_def put_def memcpy_at_0)
  have d: "0 < length der" "ecdsa_signature_parse_der E der = Some s" "ecdsa_verify E s md pk"
    using laws s pk unfolding ec_laws_def der_def by metis+
  note f = BRKeyPubKey_fresh [OF laws pk [folded key(1)] key(2)]
  show "map_option fst (BRKeyVerify E key md der) = Some True"
    unfolding BRKeyVerify_def f(1) Let_def prod.case
    using d f(2-4) by (auto simp: key(2) split: if_splits)
qed

text \<open>C25: signatures: with the documented behaviour of the curve library, a key made from a valid secret
  verifies the signature that it makes of any digest, and the public key recovered from its 65-byte compact
  signature is the public key of the signing key, with the same choice of compression.\<close>

theorem BRKeySign_verifies:
  assumes "ec_laws E" and "ec_pubkey_create E k = Some pk" and "k \<noteq> 0"
    and "ecdsa_sign E md k = Some s" and "ecdsa_sign_recoverable E md k = Some s'"
  shows "let key = snd (BRKeySetSecret E old k compressed); der = ecdsa_signature_serialize_der E s in
    BRKeySign E key md (Some (replicate (length der) 0)) = Some (length der, Some der) \<and>
    map_option fst (BRKeyVerify E key md der) = Some True \<and>
    (\<exists>sig. BRKeyCompactSign E key md (Some (replicate 65 0)) = Some (65, Some sig) \<and>
       BRKeyRecoverPubKey E other md sig = Some (True, \<lparr>key_secret = 0,
         key_pubKey = memcpy_at (replicate 65 0) 0 (ec_pubkey_serialize E pk compressed), key_compressed = compressed\<rparr>))"
proof -
  define key where "key = snd (BRKeySetSecret E old k compressed)"
  have k: "key_secret key = k" "key_pubKey key = replicate 65 0" "key_compressed key = compressed"
    by (simp_all add: key_def BRKeySetSecret_def BRKeyClean_def)
  note v = verify_signed [OF assms(1,2,4) k(1,2)]
  note r = recover_signed [OF assms(1,2,5) k(1) assms(3), of other]
  show ?thesis unfolding key_def [symmetric] Let_def using v r unfolding k(3) by blast
qed

theorem BRKeySign_verifies_witness:
  "map_option fst (BRKeyVerify demo_ec (snd (BRKeySetSecret demo_ec \<lparr>key_secret = 0, key_pubKey = [], key_compressed = True\<rparr> 5 True))
     7 (UInt256Set 7 @ UInt256Set 5)) = Some True"
  using BRKeySign_verifies [OF demo_ec_laws, of 5 5 7 "(7, 5)" "(7, 5)" "\<lparr>key_secret = 0, key_pubKey = [], key_compressed = True\<rparr>" True]
  by (simp add: demo_ec_def Let_def)

end
