(* ===== verification/Bip32.thy ===== *)
theory Bip32
  imports Key Kdf "HOL-Library.Monad_Syntax"
begin

text \<open>
  \<^verbatim>\<open>Libraries/loafwallet-core/BRBIP32Sequence.c\<close>: hierarchical keys. A child key is a pair of a secret and a
  chain code, which the two derivation steps update in place. The code ignores the results of the curve
  operations; a step whose point operation fails leaves its buffer unset (\<open>None\<close>, for the private one) or
  the point as it is (for the public one). The functions that serialize and parse master keys are stubs
  in the code and return 0.
\<close>

section \<open>Model\<close>

definition BIP32_HARD :: u32 where "BIP32_HARD = 0x80000000"

definition BIP32_SEED_KEY :: "u8 list" where
  "BIP32_SEED_KEY = map of_char ''Bitcoin seed''"

record BRMasterPubKey =
  mpk_fingerPrint :: u32
  mpk_chainCode :: UInt256
  mpk_pubKey :: "u8 list"

definition BR_MASTER_PUBKEY_NONE :: BRMasterPubKey where
  "BR_MASTER_PUBKEY_NONE = \<lparr>mpk_fingerPrint = 0, mpk_chainCode = 0, mpk_pubKey = replicate 33 0\<rparr>"

text \<open>The two halves of \<open>I = HMAC-SHA512(key, data)\<close>.\<close>

definition hmac_halves :: "u8 list \<Rightarrow> u8 list \<Rightarrow> UInt256 \<times> UInt256" where
  "hmac_halves key data =
     (let I = BRHMAC BRSHA512 64 key data in (UInt256Get (take 32 I), UInt256Get (drop 32 I)))"

definition CKDpriv ::
    "('pk, 'sg, 'rsg) secp256k1 \<Rightarrow> u32 \<Rightarrow> UInt256 \<times> UInt256 \<Rightarrow> (UInt256 \<times> UInt256) option" where
  "CKDpriv E i kc = do {
     let (k, c) = kc;
     buf \<leftarrow> (if i AND BIP32_HARD \<noteq> 0 then Some (0 # UInt256Set k) else BRSecp256k1PointGen E k);
     let (IL, IR) = hmac_halves (UInt256Set c) (buf @ UInt32SetBE i);
     Some (snd (BRSecp256k1ModAdd E k IL), IR)
   }"

definition CKDpub ::
    "('pk, 'sg, 'rsg) secp256k1 \<Rightarrow> u32 \<Rightarrow> BRECPoint \<times> UInt256 \<Rightarrow> BRECPoint \<times> UInt256" where
  "CKDpub E i Kc =
     (let (K, c) = Kc in
      if i AND BIP32_HARD \<noteq> BIP32_HARD
      then let (IL, IR) = hmac_halves (UInt256Set c) (K @ UInt32SetBE i) in (snd (BRSecp256k1PointAdd E K IL), IR)
      else (K, c))"

definition key_zero :: BRKey where
  "key_zero = \<lparr>key_secret = 0, key_pubKey = replicate 65 0, key_compressed = False\<rparr>"

definition BRBIP32MasterPubKey :: "('pk, 'sg, 'rsg) secp256k1 \<Rightarrow> u8 list \<Rightarrow> BRMasterPubKey option" where
  "BRBIP32MasterPubKey E seed = do {
     let (secret, chain) = hmac_halves BIP32_SEED_KEY seed;
     let key = snd (BRKeySetSecret E key_zero secret True);
     let fingerPrint = ucast (fst (BRKeyHash160 E key));
     (secret, chain) \<leftarrow> CKDpriv E (0 OR BIP32_HARD) (secret, chain);
     let key = snd (BRKeySetSecret E key_zero secret True);
     let (r, pubKey, key) = BRKeyPubKey E key (Some (replicate 33 0));
     Some \<lparr>mpk_fingerPrint = fingerPrint, mpk_chainCode = chain, mpk_pubKey = the pubKey\<rparr>
   }"

definition BRBIP32PubKey ::
    "('pk, 'sg, 'rsg) secp256k1 \<Rightarrow> BRMasterPubKey \<Rightarrow> u32 \<Rightarrow> u32 \<Rightarrow> wbuf \<Rightarrow> (size_t \<times> wbuf) option" where
  "BRBIP32PubKey E mpk chain index pubKey =
     (if mpk = BR_MASTER_PUBKEY_NONE then None
      else case pubKey of
        None \<Rightarrow> Some (33, None)
      | Some d \<Rightarrow>
          if 33 \<le> length d
          then let (K, chainCode) = CKDpub E index (CKDpub E chain (mpk_pubKey mpk, mpk_chainCode mpk))
               in Some (33, put pubKey 0 K)
          else Some (0, pubKey))"

text \<open>The path is the list of the variable arguments.\<close>

fun derive_path ::
    "('pk, 'sg, 'rsg) secp256k1 \<Rightarrow> u32 list \<Rightarrow> UInt256 \<times> UInt256 \<Rightarrow> (UInt256 \<times> UInt256) option" where
  "derive_path E [] kc = Some kc"
| "derive_path E (i # path) kc = Option.bind (CKDpriv E i kc) (derive_path E path)"

definition BRBIP32vPrivKeyPath :: "('pk, 'sg, 'rsg) secp256k1 \<Rightarrow> BRKey \<Rightarrow> u8 list \<Rightarrow> u32 list \<Rightarrow> BRKey option" where
  "BRBIP32vPrivKeyPath E key seed path = do {
     (secret, chainCode) \<leftarrow> derive_path E path (hmac_halves BIP32_SEED_KEY seed);
     Some (snd (BRKeySetSecret E key secret True))
   }"

definition BRBIP32PrivKeyPath :: "('pk, 'sg, 'rsg) secp256k1 \<Rightarrow> BRKey \<Rightarrow> u8 list \<Rightarrow> u32 list \<Rightarrow> BRKey option" where
  "BRBIP32PrivKeyPath E key seed path = BRBIP32vPrivKeyPath E key seed path"

definition BRBIP32PrivKey :: "('pk, 'sg, 'rsg) secp256k1 \<Rightarrow> BRKey \<Rightarrow> u8 list \<Rightarrow> u32 \<Rightarrow> u32 \<Rightarrow> BRKey option" where
  "BRBIP32PrivKey E key seed chain index = BRBIP32PrivKeyPath E key seed [0 OR BIP32_HARD, chain, index]"

fun list_loop ::
    "('pk, 'sg, 'rsg) secp256k1 \<Rightarrow> UInt256 \<times> UInt256 \<Rightarrow> BRKey list \<Rightarrow> u32 list \<Rightarrow> BRKey list option" where
  "list_loop E sc (key # keys) (i # indexes) = do {
     (s, c) \<leftarrow> CKDpriv E i sc;
     keys \<leftarrow> list_loop E sc keys indexes;
     Some (snd (BRKeySetSecret E key s True) # keys)
   }"
| "list_loop E sc (key # keys) [] = None"
| "list_loop E sc [] indexes = Some []"

definition BRBIP32PrivKeyList ::
    "('pk, 'sg, 'rsg) secp256k1 \<Rightarrow> BRKey list \<Rightarrow> u8 list \<Rightarrow> u32 \<Rightarrow> u32 list \<Rightarrow> BRKey list option" where
  "BRBIP32PrivKeyList E keys seed chain indexes =
     (if keys = [] then Some []
      else do {
        sc \<leftarrow> CKDpriv E (0 OR BIP32_HARD) (hmac_halves BIP32_SEED_KEY seed);
        sc \<leftarrow> CKDpriv E chain sc;
        list_loop E sc keys indexes
      })"

definition BRBIP32APIAuthKey :: "('pk, 'sg, 'rsg) secp256k1 \<Rightarrow> BRKey \<Rightarrow> u8 list \<Rightarrow> BRKey option" where
  "BRBIP32APIAuthKey E key seed = BRBIP32PrivKeyPath E key seed [1 OR BIP32_HARD, 0]"

definition BRBIP32BitIDKey ::
    "('pk, 'sg, 'rsg) secp256k1 \<Rightarrow> BRKey \<Rightarrow> u8 list \<Rightarrow> u32 \<Rightarrow> u8 list \<Rightarrow> BRKey option" where
  "BRBIP32BitIDKey E key seed index uri =
     (let hash = BRSHA256 (UInt32SetLE index @ uri);
          part = (\<lambda>i. UInt32GetLE (drop (4 * i) hash) OR BIP32_HARD)
      in BRBIP32PrivKeyPath E key seed [13 OR BIP32_HARD, part 0, part 1, part 2, part 3])"

definition BRBIP32SerializeMasterPrivKey :: "u8 list \<Rightarrow> wbuf \<Rightarrow> size_t \<times> wbuf" where
  "BRBIP32SerializeMasterPrivKey seed str = (0, str)"

definition BRBIP32ParseMasterPrivKey :: "u8 list \<Rightarrow> wbuf \<Rightarrow> size_t \<times> wbuf" where
  "BRBIP32ParseMasterPrivKey str seed = (0, seed)"

definition BRBIP32SerializeMasterPubKey :: "BRMasterPubKey \<Rightarrow> wbuf \<Rightarrow> size_t \<times> wbuf" where
  "BRBIP32SerializeMasterPubKey mpk str = (0, str)"

definition BRBIP32ParseMasterPubKey :: "u8 list \<Rightarrow> BRMasterPubKey" where
  "BRBIP32ParseMasterPubKey str = BR_MASTER_PUBKEY_NONE"

section \<open>Private and public derivation agree\<close>

text \<open>A step is regular if its addition modulo the group order succeeds; BIP32 declares the other child keys,
  of which there are fewer than one in \<open>2 ^ 127\<close>, invalid.\<close>

definition step_regular :: "('pk, 'sg, 'rsg) secp256k1 \<Rightarrow> u32 \<Rightarrow> UInt256 \<times> UInt256 \<Rightarrow> bool" where
  "step_regular E i kc =
     (let (k, c) = kc in
      case (if i AND BIP32_HARD \<noteq> 0 then Some (0 # UInt256Set k) else BRSecp256k1PointGen E k) of
        None \<Rightarrow> False
      | Some buf \<Rightarrow> fst (BRSecp256k1ModAdd E k (fst (hmac_halves (UInt256Set c) (buf @ UInt32SetBE i)))))"

fun path_regular :: "('pk, 'sg, 'rsg) secp256k1 \<Rightarrow> u32 list \<Rightarrow> UInt256 \<times> UInt256 \<Rightarrow> bool" where
  "path_regular E [] kc \<longleftrightarrow> True"
| "path_regular E (i # path) kc \<longleftrightarrow> step_regular E i kc \<and> path_regular E path (the (CKDpriv E i kc))"

lemma CKDpriv_regular:
  assumes laws: "ec_laws E" and ok: "step_regular E i (k, c)"
  shows "\<exists>k' c' pk pk' t. CKDpriv E i (k, c) = Some (k', c') \<and> ec_pubkey_create E k = Some pk \<and>
    ec_pubkey_create E k' = Some pk' \<and> ec_pubkey_tweak_add E pk t = Some pk' \<and>
    (i AND BIP32_HARD = 0 \<longrightarrow>
       hmac_halves (UInt256Set c) (ec_pubkey_serialize E pk True @ UInt32SetBE i) = (t, c'))"
proof -
  define buf where "buf = (if i AND BIP32_HARD \<noteq> 0 then Some (0 # UInt256Set k) else BRSecp256k1PointGen E k)"
  obtain b where b: "buf = Some b" using ok unfolding step_regular_def Let_def prod.case buf_def [symmetric] by (cases buf) simp_all
  obtain t c' where h: "hmac_halves (UInt256Set c) (b @ UInt32SetBE i) = (t, c')" by fastforce
  obtain k' where k': "ec_privkey_tweak_add E k t = (True, k')"
    using ok unfolding step_regular_def Let_def prod.case buf_def [symmetric] b option.case h fst_conv BRSecp256k1ModAdd_def
    by (metis prod.collapse)
  obtain pk pk' where pk: "ec_pubkey_create E k = Some pk" "ec_pubkey_tweak_add E pk t = ec_pubkey_create E k'"
    "ec_pubkey_create E k' = Some pk'"
    using laws k' unfolding ec_laws_def by (metis not_None_eq)
  have "CKDpriv E i (k, c) = Some (k', c')"
    unfolding CKDpriv_def prod.case Let_def buf_def [symmetric] b by (simp add: h BRSecp256k1ModAdd_def k')
  moreover have "b = ec_pubkey_serialize E pk True" if "i AND BIP32_HARD = 0"
    using b that unfolding buf_def by (simp add: BRSecp256k1PointGen_def pk(1))
  ultimately show ?thesis using pk h by (metis (no_types))
qed

lemma CKDpub_regular:
  assumes laws: "ec_laws E" and ok: "step_regular E i (k, c)" and soft: "i AND BIP32_HARD = 0"
    and pk: "ec_pubkey_create E k = Some pk"
  shows "\<exists>k' c' pk'. CKDpriv E i (k, c) = Some (k', c') \<and> ec_pubkey_create E k' = Some pk' \<and>
    CKDpub E i (ec_pubkey_serialize E pk True, c) = (ec_pubkey_serialize E pk' True, c')"
proof -
  obtain k' c' pk' t where s: "CKDpriv E i (k, c) = Some (k', c')" "ec_pubkey_create E k' = Some pk'"
    "ec_pubkey_tweak_add E pk t = Some pk'"
    "hmac_halves (UInt256Set c) (ec_pubkey_serialize E pk True @ UInt32SetBE i) = (t, c')"
    using CKDpriv_regular [OF laws ok] soft pk by auto
  have p: "ec_pubkey_parse E (ec_pubkey_serialize E pk True) = Some pk" using laws unfolding ec_laws_def by blast
  have "i AND BIP32_HARD \<noteq> BIP32_HARD" unfolding soft by (simp add: BIP32_HARD_def)
  then have "CKDpub E i (ec_pubkey_serialize E pk True, c) = (ec_pubkey_serialize E pk' True, c')"
    by (simp add: CKDpub_def s BRSecp256k1PointAdd_def p)
  then show ?thesis using s by blast
qed

lemma PubKey_of_secret:
  assumes laws: "ec_laws E" and pk: "ec_pubkey_create E k = Some pk"
  shows "fst (snd (BRKeyPubKey E (snd (BRKeySetSecret E old k True)) (Some (replicate 33 0)))) =
    Some (ec_pubkey_serialize E pk True)"
proof -
  have l: "length (ec_pubkey_serialize E pk True) = 33" using laws unfolding ec_laws_def by (metis (full_types))
  show ?thesis
    unfolding BRKeyPubKey_def BRKeySetSecret_def BRKeyClean_def
    by (simp add: pk l Let_def put_def memcpy_at_0)
qed

lemma BRBIP32PrivKey_step:
  "BRBIP32PrivKey E key seed chain i =
     Option.bind (Option.bind (CKDpriv E (0 OR BIP32_HARD) (hmac_halves BIP32_SEED_KEY seed)) (CKDpriv E chain))
       (\<lambda>sc. map_option (\<lambda>(s, c). snd (BRKeySetSecret E key s True)) (CKDpriv E i sc))"
  unfolding BRBIP32PrivKey_def BRBIP32PrivKeyPath_def BRBIP32vPrivKeyPath_def
  by (auto split: bind_splits)

lemma list_loop_those:
  "length indexes = length keys \<Longrightarrow>
    list_loop E sc keys indexes =
      those (map2 (\<lambda>key i. map_option (\<lambda>(s, c). snd (BRKeySetSecret E key s True)) (CKDpriv E i sc)) keys indexes)"
proof (induction keys arbitrary: indexes)
  case (Cons key keys)
  then obtain i js where "indexes = i # js" "length js = length keys" by (cases indexes) auto
  then show ?case using Cons.IH by (auto split: option.splits bind_splits)
qed simp

lemma BRBIP32PrivKey_list:
  assumes "length indexes = length keys"
  shows "BRBIP32PrivKeyList E keys seed chain indexes = those (map2 (\<lambda>key i. BRBIP32PrivKey E key seed chain i) keys indexes)"
proof (cases "Option.bind (CKDpriv E (0 OR BIP32_HARD) (hmac_halves BIP32_SEED_KEY seed)) (CKDpriv E chain)")
  case None
  then have "BRBIP32PrivKey E key seed chain i = None" for key i unfolding BRBIP32PrivKey_step by simp
  then show ?thesis
    using None assms unfolding BRBIP32PrivKeyList_def
    by (cases keys; cases indexes) (auto split: bind_splits)
next
  case (Some sc)
  then obtain sc1 where sc: "CKDpriv E (0 OR BIP32_HARD) (hmac_halves BIP32_SEED_KEY seed) = Some sc1" "CKDpriv E chain sc1 = Some sc"
    by (auto simp: bind_eq_Some_conv)
  show ?thesis
    unfolding BRBIP32PrivKeyList_def BRBIP32PrivKey_step sc bind.bind_lunit
    using list_loop_those [OF assms, of E sc] assms by (cases "keys = []") simp_all
qed

lemma watch_only:
  assumes laws: "ec_laws E" and soft: "chain AND BIP32_HARD = 0" "index AND BIP32_HARD = 0"
    and ok: "path_regular E [0 OR BIP32_HARD, chain, index] (hmac_halves BIP32_SEED_KEY seed)"
  shows "\<exists>mpk key pk. BRBIP32MasterPubKey E seed = Some mpk \<and> BRBIP32PrivKey E old seed chain index = Some key \<and>
    ec_pubkey_create E (key_secret key) = Some pk \<and>
    BRBIP32PubKey E mpk chain index (Some (replicate 33 0)) = Some (33, Some (ec_pubkey_serialize E pk True)) \<and>
    fst (snd (BRKeyPubKey E key (Some (replicate 33 0)))) = Some (ec_pubkey_serialize E pk True)"
proof -
  obtain k0 c0 where m: "hmac_halves BIP32_SEED_KEY seed = (k0, c0)" by fastforce
  obtain k1 c1 pk1 where s1: "CKDpriv E (0 OR BIP32_HARD) (k0, c0) = Some (k1, c1)" "ec_pubkey_create E k1 = Some pk1"
    using CKDpriv_regular [OF laws, of "0 OR BIP32_HARD" k0 c0] ok by (auto simp: m)
  obtain k2 c2 pk2 where s2: "CKDpriv E chain (k1, c1) = Some (k2, c2)" "ec_pubkey_create E k2 = Some pk2"
    "CKDpub E chain (ec_pubkey_serialize E pk1 True, c1) = (ec_pubkey_serialize E pk2 True, c2)"
    using CKDpub_regular [OF laws _ soft(1) s1(2), of c1] ok s1(1) by (auto simp: m)
  obtain k3 c3 pk3 where s3: "CKDpriv E index (k2, c2) = Some (k3, c3)" "ec_pubkey_create E k3 = Some pk3"
    "CKDpub E index (ec_pubkey_serialize E pk2 True, c2) = (ec_pubkey_serialize E pk3 True, c3)"
    using CKDpub_regular [OF laws _ soft(2) s2(2), of c2] ok s1(1) s2(1) by (auto simp: m)
  have l: "length (ec_pubkey_serialize E pk True) = 33" "ec_pubkey_serialize E pk True ! 0 \<noteq> 0" for pk
    using laws unfolding ec_laws_def by (metis (full_types))+
  obtain fp where mpk: "BRBIP32MasterPubKey E seed =
      Some \<lparr>mpk_fingerPrint = fp, mpk_chainCode = c1, mpk_pubKey = ec_pubkey_serialize E pk1 True\<rparr>"
  proof -
    obtain r key' where p: "BRKeyPubKey E (snd (BRKeySetSecret E key_zero k1 True)) (Some (replicate 33 0)) =
        (r, Some (ec_pubkey_serialize E pk1 True), key')"
      using PubKey_of_secret [OF laws s1(2), of key_zero] by (metis prod.collapse)
    show thesis
      by (rule that) (simp only: BRBIP32MasterPubKey_def m Let_def prod.case s1(1) bind.bind_lunit p option.sel)
  qed
  define M where "M = \<lparr>mpk_fingerPrint = fp, mpk_chainCode = c1, mpk_pubKey = ec_pubkey_serialize E pk1 True\<rparr>"
  have "M \<noteq> BR_MASTER_PUBKEY_NONE" using l(2) [of pk1] by (auto simp: M_def BR_MASTER_PUBKEY_NONE_def)
  then have "BRBIP32PubKey E M chain index (Some (replicate 33 0)) = Some (33, Some (ec_pubkey_serialize E pk3 True))"
    by (simp add: BRBIP32PubKey_def M_def s2(3) s3(3) l put_def memcpy_at_0)
  moreover have "BRBIP32PrivKey E old seed chain index = Some (snd (BRKeySetSecret E old k3 True))"
    by (simp add: BRBIP32PrivKey_def BRBIP32PrivKeyPath_def BRBIP32vPrivKeyPath_def m s1(1) [simplified] s2(1) s3(1))
  moreover have "key_secret (snd (BRKeySetSecret E old k3 True)) = k3" by (simp add: BRKeySetSecret_def)
  ultimately show ?thesis
    using mpk s3(2) PubKey_of_secret [OF laws s3(2), of old] unfolding M_def [symmetric]
    by (intro exI [of _ M] exI [of _ "snd (BRKeySetSecret E old k3 True)"] exI [of _ pk3]) simp
qed

section \<open>Properties\<close>

text \<open>C23: the addresses of a wallet that knows the master public key only are those its seed can sign for: for
  every seed, chain and index below \<open>2 ^ 31\<close> whose derivation is regular, the public key derived from the
  master public key is the public key of the private key derived from the seed; and the list of private keys
  derived together for signing is the list of those derived one by one.\<close>

theorem BRBIP32_watch_only:
  assumes "ec_laws E" and "chain AND BIP32_HARD = 0" and "index AND BIP32_HARD = 0"
    and "path_regular E [0 OR BIP32_HARD, chain, index] (hmac_halves BIP32_SEED_KEY seed)"
    and "length indexes = length keys"
  shows "(\<exists>mpk key pk. BRBIP32MasterPubKey E seed = Some mpk \<and> BRBIP32PrivKey E old seed chain index = Some key \<and>
      ec_pubkey_create E (key_secret key) = Some pk \<and>
      BRBIP32PubKey E mpk chain index (Some (replicate 33 0)) = Some (33, Some (ec_pubkey_serialize E pk True)) \<and>
      fst (snd (BRKeyPubKey E key (Some (replicate 33 0)))) = Some (ec_pubkey_serialize E pk True)) \<and>
    BRBIP32PrivKeyList E keys seed chain indexes = those (map2 (\<lambda>key i. BRBIP32PrivKey E key seed chain i) keys indexes)"
  by (intro conjI watch_only [OF assms(1-4)] BRBIP32PrivKey_list [OF assms(5)])

lemma demo_regular: "path_regular demo_ec path kc"
  by (induction path arbitrary: kc)
    (simp_all add: step_regular_def Let_def BRSecp256k1ModAdd_def BRSecp256k1PointGen_def demo_ec_def split: prod.splits)

theorem BRBIP32_watch_only_witness:
  "\<exists>mpk key. BRBIP32MasterPubKey demo_ec [1, 2, 3] = Some mpk \<and> BRBIP32PrivKey demo_ec key_zero [1, 2, 3] 0 5 = Some key \<and>
     BRBIP32PubKey demo_ec mpk 0 5 (Some (replicate 33 0)) = Some (33, Some (2 # UInt256Set (key_secret key)))"
proof -
  have "(0 :: u32) AND BIP32_HARD = 0" "(5 :: u32) AND BIP32_HARD = 0" by (simp_all add: BIP32_HARD_def)
  from BRBIP32_watch_only [OF demo_ec_laws this demo_regular, of "[]" "[]" "[1, 2, 3]" key_zero]
  show ?thesis by (auto simp: demo_ec_def)
qed

end
