(* ===== verification/Bip39.thy ===== *)
theory Bip39
  imports Kdf "HOL-Library.Monad_Syntax"
begin

text \<open>
  \<^verbatim>\<open>Libraries/loafwallet-core/BRBIP39Mnemonic.c\<close>: mnemonic phrases. The word list is the argument of the code,
  a list of C strings; a phrase buffer is a list of bytes. A pointer into the phrase is the rest of the
  string from there, and \<open>None\<close> for \<open>NULL\<close>. An outer \<open>None\<close> is a failed assertion or a read outside the
  scratch buffer, for data of about 1000 bytes and more.
\<close>

section \<open>Encoding\<close>

definition BIP39_WORDLIST_COUNT :: nat where "BIP39_WORDLIST_COUNT = 2048"

definition enc_index :: "u8 list \<Rightarrow> nat \<Rightarrow> u32" where
  "enc_index buf i =
     drop_bit (32 - (11 + i * 11 mod 8)) (UInt32GetBE (drop (i * 11 div 8) buf)) mod word_of_nat BIP39_WORDLIST_COUNT"

definition strncpy_at :: "u8 list \<Rightarrow> nat \<Rightarrow> u8 list \<Rightarrow> u8 list" where
  "strncpy_at d off word =
     (let n = length d - off in memcpy_at d off (take n word @ replicate (n - length word) 0))"

definition enc_word :: "u8 list list \<Rightarrow> u8 list \<Rightarrow> wbuf \<times> size_t \<Rightarrow> nat \<Rightarrow> (wbuf \<times> size_t) option" where
  "enc_word wordList buf r i =
     (if i * 11 div 8 + 4 \<le> length buf
      then let (phrase, len) = r; word = wordList ! unat (enc_index buf i);
               phrase = (if i > 0 then put phrase len [32] else phrase);
               len = (if i > 0 then len + 1 else len);
               phrase = (case phrase of None \<Rightarrow> None
                         | Some d \<Rightarrow> if len < length d then Some (strncpy_at d len word) else Some d)
           in Some (phrase, len + length word)
      else None)"

fun enc_loop :: "u8 list list \<Rightarrow> u8 list \<Rightarrow> wbuf \<times> size_t \<Rightarrow> nat list \<Rightarrow> (wbuf \<times> size_t) option" where
  "enc_loop wordList buf r [] = Some r"
| "enc_loop wordList buf r (i # ks) = Option.bind (enc_word wordList buf r i) (\<lambda>r. enc_loop wordList buf r ks)"

definition BRBIP39Encode :: "u8 list list \<Rightarrow> u8 list \<Rightarrow> wbuf \<Rightarrow> (size_t \<times> wbuf) option" where
  "BRBIP39Encode wordList data phrase =
     (if length data > 0 \<and> length data mod 4 = 0
      then do {
        let buf = data @ BRSHA256 data;
        (phrase', len) \<leftarrow> enc_loop wordList buf (phrase, 0) [0..<length data * 3 div 4];
        Some (if (case phrase of None \<Rightarrow> True | Some d \<Rightarrow> len + 1 \<le> length d) then len + 1 else 0, phrase')
      }
      else None)"

section \<open>Decoding\<close>

text \<open>\<open>strncmp(word, w, strlen(w)) == 0\<close> and the next character ends the word.\<close>

definition word_matches :: "u8 list \<Rightarrow> u8 list \<Rightarrow> bool" where
  "word_matches word w \<longleftrightarrow> take (length w) word = w \<and> (length word = length w \<or> word ! length w = 32)"

fun find_word :: "nat \<Rightarrow> u8 list list \<Rightarrow> u8 list \<Rightarrow> nat option" where
  "find_word i [] word = None"
| "find_word i (w # ws) word = (if word_matches word w then Some i else find_word (Suc i) ws word)"

text \<open>\<open>word = strchr(word, ' '); if (word) word++;\<close>\<close>

definition next_word :: "u8 list \<Rightarrow> u8 list option" where
  "next_word word = (case dropWhile (\<lambda>c. c \<noteq> 32) word of [] \<Rightarrow> None | c # rest \<Rightarrow> Some rest)"

function words_loop :: "u8 list list \<Rightarrow> u8 list option \<Rightarrow> nat list \<Rightarrow> nat list \<times> u8 list option" where
  "words_loop wordList word idx =
     (case word of
        None \<Rightarrow> (idx, None)
      | Some s \<Rightarrow>
          if s \<noteq> [] \<and> length idx < 24
          then (case find_word 0 (take BIP39_WORDLIST_COUNT wordList) s of
                  None \<Rightarrow> (idx, word)
                | Some i \<Rightarrow> words_loop wordList (next_word s) (idx @ [i]))
          else (idx, word))"
  by auto
termination by (relation "measure (\<lambda>(wl, word, idx). 24 - length idx)") auto

declare words_loop.simps [simp del]

definition dec_byte :: "nat list \<Rightarrow> nat \<Rightarrow> u8" where
  "dec_byte idx i =
     (let x = word_of_nat (idx ! (i * 8 div 11)) :: u32;
          y = (if i * 8 div 11 + 1 < length idx then word_of_nat (idx ! (i * 8 div 11 + 1)) else 0);
          b = drop_bit ((i * 8 div 11 + 2) * 11 - (i + 1) * 8) (x * word_of_nat BIP39_WORDLIST_COUNT + y) AND 0xff
      in ucast b)"

definition BRBIP39Decode :: "u8 list list \<Rightarrow> u8 list \<Rightarrow> wbuf \<Rightarrow> size_t \<times> wbuf" where
  "BRBIP39Decode wordList phrase data =
     (let (idx, word) = words_loop wordList (Some phrase) []; count = length idx;
          (r, data') =
            (if count mod 3 = 0 \<and> (word = None \<or> word = Some [])
             then let buf = map (dec_byte idx) [0..<(count * 11 + 7) div 8];
                      b = (if buf = [] then 0 else last buf);
                      r = count * 4 div 3; hash = BRSHA256 (take r buf)
                  in if drop_bit (8 - count div 3) b = drop_bit (8 - count div 3) (hash ! 0)
                     then (r, put data 0 (take r buf)) else (0, data)
             else (0, data))
      in (if (case data of None \<Rightarrow> True | Some d \<Rightarrow> r \<le> length d) then r else 0, data'))"

definition BRBIP39PhraseIsValid :: "u8 list list \<Rightarrow> u8 list \<Rightarrow> bool" where
  "BRBIP39PhraseIsValid wordList phrase \<longleftrightarrow> fst (BRBIP39Decode wordList phrase None) > 0"

definition BRBIP39DeriveKey :: "u8 list \<Rightarrow> u8 list option \<Rightarrow> u8 list" where
  "BRBIP39DeriveKey phrase passphrase =
     (let salt = map of_char ''mnemonic'' @ (case passphrase of None \<Rightarrow> [] | Some p \<Rightarrow> p)
      in BRPBKDF2 64 BRSHA512 64 phrase salt 2048)"

section \<open>Bits\<close>

text \<open>Bit \<open>p\<close> of a byte string, counted from its start and from the top of each byte.\<close>

definition bit_at :: "u8 list \<Rightarrow> nat \<Rightarrow> bool" where
  "bit_at bs p \<longleftrightarrow> bit (bs ! (p div 8)) (7 - p mod 8)"

lemma flip8: "k < 8 * n \<Longrightarrow> (8 * n - 1 - k) div 8 = n - 1 - k div 8 \<and> (8 * n - 1 - k) mod 8 = 7 - k mod 8" for k n :: nat
proof -
  assume k: "k < 8 * n"
  define q r where "q = k div 8" and "r = k mod 8"
  have e: "k = 8 * q + r" "r < 8" by (simp_all add: q_def r_def)
  then have "q < n" using k by linarith
  then have f: "8 * n - 1 - k = 8 * (n - 1 - q) + (7 - r)" using e by (simp add: algebra_simps)
  show ?thesis unfolding f q_def [symmetric] r_def [symmetric] by simp
qed

lemma GetBE_bit_at:
  assumes "4 \<le> length bs" "k < 32"
  shows "bit (UInt32GetBE bs) (31 - k) \<longleftrightarrow> bit_at bs k"
proof -
  have l: "length (take 4 bs) = 4" using assms(1) by simp
  have "UInt32GetBE bs = UInt32GetBE (take 4 bs)" by (simp add: UInt32GetBE_def)
  also have "\<dots> = UInt32GetLE (rev (take 4 bs))" by (rule UIntGetBE_rev(2) [OF l])
  also have "\<dots> = le_word (rev (take 4 bs))" using l by (simp add: UInt32GetLE_le)
  finally have g: "UInt32GetBE bs = le_word (rev (take 4 bs))" .
  have d: "(31 - k) div 8 = 3 - k div 8" "(31 - k) mod 8 = 7 - k mod 8" using flip8 [of k 4] assms(2) by simp_all
  have k4: "k div 8 < 4" using assms(2) by (intro less_mult_imp_div_less) simp
  have r: "rev (take 4 bs) ! (3 - k div 8) = bs ! (k div 8)"
    using k4 assms(1) l by (subst rev_nth) (simp_all add: Suc_diff_le)
  show ?thesis
    unfolding g bit_le_word d bit_at_def r using l by (simp, linarith)
qed

lemma enc_index_bit:
  assumes "i * 11 div 8 + 4 \<le> length buf"
  shows "bit (enc_index buf i) j \<longleftrightarrow> j < 11 \<and> bit_at buf (11 * i + 10 - j)"
proof -
  define q r where "q = i * 11 div 8" and "r = i * 11 mod 8"
  have e: "11 * i = 8 * q + r" and r: "r < 8" by (simp_all add: q_def r_def mult.commute)
  have m: "(word_of_nat BIP39_WORDLIST_COUNT :: u32) = 2 ^ 11" by (simp add: BIP39_WORDLIST_COUNT_def)
  have f: "enc_index buf i = take_bit 11 (drop_bit (21 - r) (UInt32GetBE (drop q buf)))"
    by (simp only: enc_index_def m q_def r_def take_bit_eq_mod) simp
  have "bit (UInt32GetBE (drop q buf)) (21 - r + j) \<longleftrightarrow> bit_at buf (11 * i + 10 - j)" if j: "j < 11"
  proof -
    have k: "21 - r + j = 31 - (10 + r - j)" "10 + r - j < 32" using r j by linarith+
    have "8 * q + (10 + r - j) = 11 * i + 10 - j" using e j by linarith
    moreover have "bit_at (drop q buf) n = bit_at buf (8 * q + n)" for n
      using assms by (simp add: bit_at_def q_def)
    ultimately show ?thesis
      unfolding k(1) using GetBE_bit_at [of "drop q buf", OF _ k(2)] assms by (simp add: q_def)
  qed
  then show ?thesis unfolding f by (auto simp: bit_simps)
qed

lemma bit_two_fields: "y < 2048 \<Longrightarrow> bit (x * 2048 + y) k \<longleftrightarrow> (if k < 11 then bit y k else bit (x :: nat) (k - 11))"
proof -
  assume "y < 2048"
  then have y: "y = take_bit 11 y" by (simp add: take_bit_eq_mod)
  then have hi: "\<not> bit y n" if "11 \<le> n" for n using that by (metis bit_take_bit_iff not_le)
  have "push_bit 11 x AND y = 0" by (subst y) (auto simp: bit_eq_iff bit_simps)
  then have "x * 2048 + y = push_bit 11 x OR y" by (simp add: disjunctive_add_eq_or [symmetric] push_bit_eq_mult)
  then show ?thesis using hi by (auto simp: bit_simps)
qed

lemma word_count_less: "c < 11 \<Longrightarrow> c + k * 11 < 11 * n \<longleftrightarrow> k < n" for c k n :: nat
proof (cases "k < n")
  case True
  then have "k * 11 + 11 \<le> 11 * n" by simp
  then show "c < 11 \<Longrightarrow> ?thesis" using True by simp
next
  case False
  then have "11 * n \<le> k * 11" by simp
  then show ?thesis using False by simp
qed

lemma dec_byte_bit:
  assumes idx: "\<forall>x\<in>set idx. x < 2048" and i: "i * 8 div 11 < length idx" and t: "t < 8"
  defines "p \<equiv> 8 * i + 7 - t"
  shows "bit (dec_byte idx i) t \<longleftrightarrow> p < 11 * length idx \<and> bit (idx ! (p div 11)) (10 - p mod 11)"
proof -
  define w r where "w = i * 8 div 11" and "r = i * 8 mod 11"
  have e: "8 * i = 11 * w + r" and r: "r < 11" by (simp_all add: w_def r_def mult.commute)
  define x y where "x = idx ! w" and "y = (if w + 1 < length idx then idx ! (w + 1) else 0)"
  have xy: "x < 2048" "y < 2048" using idx i by (auto simp: x_def y_def w_def)
  have wy: "(if w + 1 < length idx then word_of_nat (idx ! (w + 1)) else 0) = (word_of_nat y :: u32)" by (simp add: y_def)
  have n: "x * 2048 + y < 2 ^ 32" using xy by simp
  define s where "s = 14 - r"
  have s: "(w + 2) * 11 - (i + 1) * 8 = s" using e r by (simp add: s_def algebra_simps)
  have "dec_byte idx i = ucast (drop_bit s (word_of_nat (x * 2048 + y) :: u32) AND 0xff)"
    unfolding dec_byte_def Let_def w_def [symmetric] wy s x_def [symmetric] by (simp add: BIP39_WORDLIST_COUNT_def)
  moreover have "(0xff :: u32) = mask 8" by (simp add: mask_eq_exp_minus_1)
  ultimately have b: "dec_byte idx i = ucast (take_bit 8 (drop_bit s (word_of_nat (x * 2048 + y) :: u32)))"
    by (simp only: take_bit_eq_mask)
  have "bit (dec_byte idx i) t \<longleftrightarrow> bit (word_of_nat (x * 2048 + y) :: u32) (s + t)"
    unfolding b using t r by (simp add: bit_simps s_def)
  also have "\<dots> \<longleftrightarrow> bit (x * 2048 + y) (s + t)"
  proof -
    have "bit (word_of_nat (x * 2048 + y) :: u32) (s + t) \<longleftrightarrow> bit (unat (word_of_nat (x * 2048 + y) :: u32)) (s + t)"
      by (simp only: bit_unsigned_iff) simp
    also have "unat (word_of_nat (x * 2048 + y) :: u32) = x * 2048 + y" unfolding unat_of_nat by (rule mod_less) (use n in simp)
    finally show ?thesis .
  qed
  also have "\<dots> \<longleftrightarrow> p < 11 * length idx \<and> bit (idx ! (p div 11)) (10 - p mod 11)"
  proof (cases "s + t < 11")
    case True
    have pe: "p = (10 - (s + t)) + (w + 1) * 11" using True e r t by (simp add: p_def s_def)
    have pd: "p div 11 = w + 1" "p mod 11 = 10 - (s + t)"
      unfolding pe div_mult_self3 mod_mult_self1 by simp_all
    have "p < 11 * length idx \<longleftrightarrow> w + 1 < length idx" unfolding pe by (rule word_count_less) simp
    then show ?thesis using True xy unfolding bit_two_fields [OF xy(2)] pd by (auto simp: y_def)
  next
    case False
    have pe: "p = (21 - (s + t)) + w * 11" using False e r t by (simp add: p_def s_def)
    have st: "s + t \<le> 21" using r t by (simp add: s_def)
    have pd: "p div 11 = w" "p mod 11 = 21 - (s + t)" unfolding pe div_mult_self3 mod_mult_self1 using False by simp_all
    have "p < 11 * length idx" unfolding pe using i False unfolding w_def [symmetric] by linarith
    moreover have "10 - (21 - (s + t)) = s + t - 11" using False st by linarith
    ultimately show ?thesis using False unfolding bit_two_fields [OF xy(2)] pd by (simp add: x_def)
  qed
  finally show ?thesis .
qed

section \<open>The phrase\<close>

text \<open>The words of a phrase, joined by spaces.\<close>

fun joined :: "u8 list list \<Rightarrow> u8 list" where
  "joined [] = []"
| "joined [w] = w"
| "joined (w # ws) = w @ 32 # joined ws"

definition wordlist_ok :: "u8 list list \<Rightarrow> bool" where
  "wordlist_ok wl \<longleftrightarrow> length wl = BIP39_WORDLIST_COUNT \<and> distinct wl \<and> (\<forall>w\<in>set wl. w \<noteq> [] \<and> 32 \<notin> set w)"

lemma joined_snoc: "joined (ws @ [w]) = (if ws = [] then w else joined ws @ 32 # w)"
  by (induction ws rule: joined.induct) auto

lemma joined_Cons: "joined (w # ws) = (if ws = [] then w else w @ 32 # joined ws)"
  by (cases ws) auto

lemma word_matches_start:
  assumes "32 \<notin> set w" "32 \<notin> set w'" "rest = [] \<or> hd rest = 32"
  shows "word_matches (w @ rest) w' \<longleftrightarrow> w' = w"
proof
  assume m: "word_matches (w @ rest) w'"
  then have t: "take (length w') (w @ rest) = w'" and z: "length (w @ rest) = length w' \<or> (w @ rest) ! length w' = 32"
    unfolding word_matches_def by auto
  have le: "length w' \<le> length w"
  proof (rule ccontr)
    assume "\<not> ?thesis"
    then have "length w < length w'" by simp
    moreover have "length w' \<le> length (w @ rest)" using arg_cong [OF t, of length] by simp
    ultimately have "w' ! length w = 32" using assms(3) t by (cases rest) (auto simp: nth_append dest: arg_cong [where f = "\<lambda>x. x ! length w"])
    then show False using assms(2) \<open>length w < length w'\<close> by (metis nth_mem)
  qed
  have "\<not> length w' < length w"
    using z assms(1) by (auto simp: nth_append in_set_conv_nth split: if_splits)
  then show "w' = w" using le t by simp
next
  assume "w' = w"
  then show "word_matches (w @ rest) w'" using assms(3) by (cases rest) (auto simp: word_matches_def nth_append)
qed

lemma find_word_eq:
  assumes "i < length wl" "distinct wl" "\<forall>w\<in>set wl. 32 \<notin> set w" "rest = [] \<or> hd rest = 32"
  shows "find_word n wl (wl ! i @ rest) = Some (n + i)"
  using assms
proof (induction wl arbitrary: n i)
  case (Cons w ws)
  have m: "word_matches ((w # ws) ! i @ rest) w \<longleftrightarrow> w = (w # ws) ! i"
    by (rule word_matches_start) (use Cons.prems in \<open>auto simp: nth_Cons split: nat.split\<close>)
  show ?case
  proof (cases i)
    case 0
    then show ?thesis using m by simp
  next
    case (Suc j)
    then have "w \<noteq> ws ! j" using Cons.prems by auto
    then show ?thesis using m Suc Cons.IH [of j "Suc n"] Cons.prems by simp
  qed
qed simp

lemma next_word_start: "32 \<notin> set w \<Longrightarrow> next_word (w @ 32 # rest) = Some rest"
  by (induction w) (auto simp: next_word_def)

lemma next_word_last: "32 \<notin> set w \<Longrightarrow> next_word w = None"
  by (induction w) (auto simp: next_word_def)

lemma words_loop_joined:
  assumes "wordlist_ok wl" "\<forall>i\<in>set is. i < BIP39_WORDLIST_COUNT" "is \<noteq> []" "length idx + length is \<le> 24"
  shows "words_loop wl (Some (joined (map ((!) wl) is))) idx = (idx @ is, None)"
  using assms(2-)
proof (induction "is" arbitrary: idx)
  case (Cons i "is")
  have wl: "length wl = BIP39_WORDLIST_COUNT" "distinct wl" "\<forall>w\<in>set wl. 32 \<notin> set w" "\<forall>w\<in>set wl. w \<noteq> []"
    using assms(1) by (auto simp: wordlist_ok_def)
  have i: "i < length wl" using Cons.prems wl by simp
  define rest where "rest = (if is = [] then [] else 32 # joined (map ((!) wl) is))"
  have j: "joined (map ((!) wl) (i # is)) = wl ! i @ rest" by (simp add: joined_Cons rest_def)
  have f: "find_word 0 (take BIP39_WORDLIST_COUNT wl) (wl ! i @ rest) = Some i"
    using find_word_eq [OF i wl(2,3), of rest 0] wl(1) by (simp add: rest_def)
  have n: "next_word (wl ! i @ rest) = (if is = [] then None else Some (joined (map ((!) wl) is)))"
    using wl(3) i by (simp add: rest_def next_word_start next_word_last)
  have "words_loop wl (Some (wl ! i @ rest)) idx = words_loop wl (next_word (wl ! i @ rest)) (idx @ [i])"
    using wl(4) i Cons.prems by (subst words_loop.simps) (simp add: f)
  also have "\<dots> = (idx @ i # is, None)"
  proof (cases "is = []")
    case True
    then show ?thesis by (simp add: n words_loop.simps [of _ None])
  next
    case False
    then show ?thesis using Cons.IH [of "idx @ [i]"] Cons.prems by (simp add: n)
  qed
  finally show ?case unfolding j .
qed simp
section \<open>What encoding writes\<close>

definition enc_words :: "u8 list list \<Rightarrow> u8 list \<Rightarrow> nat \<Rightarrow> u8 list list" where
  "enc_words wl buf n = map (\<lambda>i. wl ! unat (enc_index buf i)) [0..<n]"

lemma enc_index_less: "unat (enc_index buf i) < BIP39_WORDLIST_COUNT"
  by (simp add: enc_index_def BIP39_WORDLIST_COUNT_def unat_mod)

lemma enc_loop_snoc:
  "enc_loop wl buf r (ks @ [i]) = Option.bind (enc_loop wl buf r ks) (\<lambda>r. enc_word wl buf r i)"
  by (induction ks arbitrary: r) (auto split: bind_splits)

lemma enc_words_Suc: "enc_words wl buf (Suc k) = enc_words wl buf k @ [wl ! unat (enc_index buf k)]"
  by (simp add: enc_words_def)

lemma strncpy_fits:
  assumes "length pre + length w \<le> length d" "take (length pre) d = pre"
  shows "strncpy_at d (length pre) w = pre @ w @ replicate (length d - length pre - length w) 0"
proof -
  obtain rest where d: "d = pre @ rest" using assms(2) by (metis append_take_drop_id)
  have l: "length (w @ replicate (length rest - length w) (0 :: u8)) = length rest" using assms(1) by (simp add: d)
  show ?thesis
    unfolding strncpy_at_def Let_def using assms(1) l by (simp add: d memcpy_at_append memcpy_at_0)
qed

lemma enc_loop_words:
  assumes "\<forall>i<n. i * 11 div 8 + 4 \<le> length buf"
  shows "\<exists>p. enc_loop wl buf (phrase, 0) [0..<n] = Some (p, length (joined (enc_words wl buf n))) \<and>
    (phrase = None \<longrightarrow> p = None) \<and>
    (\<forall>d. phrase = Some d \<longrightarrow> (\<exists>d'. p = Some d' \<and> length d' = length d \<and>
       (0 < n \<and> length (joined (enc_words wl buf n)) < length d \<longrightarrow>
          d' = joined (enc_words wl buf n) @ replicate (length d - length (joined (enc_words wl buf n))) 0)))"
  using assms
proof (induction n)
  case (Suc k)
  define ws w where "ws = enc_words wl buf k" and "w = wl ! unat (enc_index buf k)"
  have ws: "ws = [] \<longleftrightarrow> k = 0" by (simp add: ws_def enc_words_def)
  have j: "joined (enc_words wl buf (Suc k)) = (if k = 0 then w else joined ws @ 32 # w)"
    by (simp add: enc_words_Suc joined_snoc ws flip: ws_def w_def)
  obtain p where p: "enc_loop wl buf (phrase, 0) [0..<k] = Some (p, length (joined ws))" "phrase = None \<longrightarrow> p = None"
    "\<forall>d. phrase = Some d \<longrightarrow> (\<exists>d'. p = Some d' \<and> length d' = length d \<and>
       (0 < k \<and> length (joined ws) < length d \<longrightarrow> d' = joined ws @ replicate (length d - length (joined ws)) 0))"
    using Suc unfolding ws_def by force
  have b: "k * 11 div 8 + 4 \<le> length buf" using Suc.prems by blast
  have l0: "k = 0 \<Longrightarrow> joined ws = []" using ws by simp
  show ?case
  proof (cases phrase)
    case None
    then have "p = None" using p(2) by blast
    then show ?thesis using p(1) b None l0 by (simp add: enc_loop_snoc j enc_word_def Let_def w_def [symmetric])
  next
    case (Some d)
    then obtain d' where d': "p = Some d'" "length d' = length d"
      "0 < k \<and> length (joined ws) < length d \<longrightarrow> d' = joined ws @ replicate (length d - length (joined ws)) 0"
      using p(3) by blast
    define L where "L = (if k > 0 then length (joined ws) + 1 else length (joined ws))"
    define e where "e = (if k > 0 then the (put (Some d') (length (joined ws)) [32]) else d')"
    have e: "(if k > 0 then put (Some d') (length (joined ws)) [32] else Some d') = Some e" "length e = length d"
      using d'(2) by (auto simp: e_def put_def)
    define f where "f = (if L < length e then strncpy_at e L w else e)"
    have lf: "length f = length d" using e(2) by (simp add: f_def strncpy_at_def)
    have step: "enc_loop wl buf (phrase, 0) [0..<Suc k] = Some (Some f, length (joined (enc_words wl buf (Suc k))))"
      using p(1) b l0 e(1)
      by (simp add: enc_loop_snoc d' enc_word_def Let_def j f_def L_def w_def [symmetric] split del: if_split)
        (simp add: L_def)
    have "f = joined (enc_words wl buf (Suc k)) @ replicate (length d - length (joined (enc_words wl buf (Suc k)))) 0"
      if fits: "length (joined (enc_words wl buf (Suc k))) < length d"
    proof (cases "k = 0")
      case True
      then have L: "L = 0" "e = d'" using l0 by (simp_all add: L_def e_def)
      have "f = strncpy_at d' (length []) w" using fits j True d'(2) by (auto simp: f_def L)
      then show ?thesis using strncpy_fits [of "[]" w d'] fits j True d'(2) by simp
    next
      case False
      define pre where "pre = joined ws @ [32]"
      have lp: "L = length pre" "length (joined ws) + 1 + length w < length d" using False fits j by (simp_all add: L_def pre_def)
      have d1: "d' = joined ws @ replicate (length d - length (joined ws)) 0" using d'(3) False lp(2) by simp
      obtain x where x: "length d - length (joined ws) = Suc x" using lp(2) by (cases "length d - length (joined ws)") auto
      have "e = pre @ replicate x 0"
        unfolding e_def d1 x using False by (simp add: put_def memcpy_at_append memcpy_at_0 pre_def)
      then have t: "take (length pre) e = pre" by simp
      have "f = strncpy_at e (length pre) w" unfolding f_def lp(1) using lp(2) e(2) by (simp add: pre_def)
      then show ?thesis using strncpy_fits [OF _ t, of w] lp(2) e(2) False j by (simp add: pre_def)
    qed
    then show ?thesis using step lf Some by auto
  qed
qed (simp add: enc_words_def)

section \<open>What decoding reads\<close>

lemma bit_at_byte: "t < 8 \<Longrightarrow> bit_at bs (8 * i + 7 - t) \<longleftrightarrow> bit (bs ! i) t"
proof -
  assume t: "t < 8"
  then have e: "8 * i + 7 - t = (7 - t) + i * 8" by simp
  have "(8 * i + 7 - t) div 8 = i" "(8 * i + 7 - t) mod 8 = 7 - t"
    unfolding e div_mult_self3 mod_mult_self1 by simp_all
  then show ?thesis using t by (simp add: bit_at_def)
qed

lemma dec_byte_enc:
  assumes buf: "\<forall>k<n. k * 11 div 8 + 4 \<le> length buf" and i: "i * 8 div 11 < n" and t: "t < 8"
  shows "bit (dec_byte (map (\<lambda>k. unat (enc_index buf k)) [0..<n]) i) t \<longleftrightarrow> 8 * i + 7 - t < 11 * n \<and> bit (buf ! i) t"
proof -
  let ?idx = "map (\<lambda>k. unat (enc_index buf k)) [0..<n]" and ?p = "8 * i + 7 - t"
  have m: "\<forall>x\<in>set ?idx. x < 2048" using enc_index_less by (auto simp: BIP39_WORDLIST_COUNT_def)
  have "bit (unat (enc_index buf (?p div 11))) (10 - ?p mod 11) \<longleftrightarrow> bit (buf ! i) t" if p: "?p < 11 * n"
  proof -
    have k: "?p div 11 < n" using p by (intro less_mult_imp_div_less) simp
    have less: "10 - ?p mod 11 < 11" by (rule le_less_trans [OF diff_le_self]) simp
    have r: "11 * (?p div 11) + 10 - (10 - ?p mod 11) = ?p"
    proof -
      have "?p mod 11 < 11" by simp
      moreover have "11 * (?p div 11) + ?p mod 11 = ?p" by simp
      ultimately show ?thesis by linarith
    qed
    have "bit (unat (enc_index buf (?p div 11))) (10 - ?p mod 11) \<longleftrightarrow> bit (enc_index buf (?p div 11)) (10 - ?p mod 11)"
      by (simp only: bit_unsigned_iff) simp
    also have "\<dots> \<longleftrightarrow> bit_at buf ?p" using enc_index_bit [of "?p div 11" buf "10 - ?p mod 11"] buf k r less by simp
    finally show ?thesis unfolding bit_at_byte [OF t] .
  qed
  moreover have "?p div 11 < n" if "?p < 11 * n" using that by (intro less_mult_imp_div_less) simp
  ultimately show ?thesis using dec_byte_bit [OF m, of i t] i t by auto
qed

text \<open>The numbers of words of the supported data lengths, of \<open>4 * m\<close> bytes.\<close>

lemma word_counts:
  fixes m i k :: nat
  assumes "1 \<le> m" "m \<le> 8"
  shows "(4 * m) * 3 div 4 = 3 * m" "(3 * m * 11 + 7) div 8 = 4 * m + 1" "k < 3 * m \<Longrightarrow> k * 11 div 8 + 4 \<le> 4 * m + 32"
    "i \<le> 4 * m \<Longrightarrow> i * 8 div 11 < 3 * m"
proof -
  show "(4 * m) * 3 div 4 = 3 * m" by simp
  have e: "3 * m * 11 + 7 = (m + 7) + 4 * m * 8" by simp
  have m: "(m + 7) div 8 = 1" using assms by (intro div_nat_eqI) simp_all
  show "(3 * m * 11 + 7) div 8 = 4 * m + 1" unfolding e using m by (subst div_mult_self1) simp_all
  show "k * 11 div 8 + 4 \<le> 4 * m + 32" if "k < 3 * m"
  proof -
    have "k * 11 div 8 < 4 * m + 28" using that assms by (intro less_mult_imp_div_less) simp
    then show ?thesis by simp
  qed
  show "i * 8 div 11 < 3 * m" if "i \<le> 4 * m" using that assms by (intro less_mult_imp_div_less) linarith
qed

lemma decode_words:
  assumes m: "1 \<le> m" "m \<le> 8" and l: "length data = 4 * m"
  defines "idx \<equiv> map (\<lambda>k. unat (enc_index (data @ BRSHA256 data) k)) [0..<3 * m]"
  shows "map (dec_byte idx) [0..<4 * m] = data" and
    "drop_bit (8 - m) (dec_byte idx (4 * m)) = drop_bit (8 - m) (BRSHA256 data ! 0)"
proof -
  let ?buf = "data @ BRSHA256 data"
  have b: "\<forall>k<3 * m. k * 11 div 8 + 4 \<le> length ?buf" using word_counts(3) [OF m] by (simp add: l)
  note bits = dec_byte_enc [OF b word_counts(4) [OF m], folded idx_def]
  have "dec_byte idx i = ?buf ! i" if i: "i < 4 * m" for i
  proof (rule bit_word_eqI)
    fix t assume "t < LENGTH(8)"
    then have t: "t < 8" by simp
    have "8 * i + 7 - t < 11 * (3 * m)" using i t by linarith
    then show "bit (dec_byte idx i) t \<longleftrightarrow> bit (?buf ! i) t" using bits [of i t] i t by simp
  qed
  then show "map (dec_byte idx) [0..<4 * m] = data"
    by (intro nth_equalityI) (simp_all add: l nth_append)
  show "drop_bit (8 - m) (dec_byte idx (4 * m)) = drop_bit (8 - m) (BRSHA256 data ! 0)"
  proof (rule bit_word_eqI)
    fix t assume t: "t < LENGTH(8)"
    have "bit (dec_byte idx (4 * m)) (8 - m + t) \<longleftrightarrow> bit (BRSHA256 data ! 0) (8 - m + t)" if "t < m"
    proof -
      have "8 * (4 * m) + 7 - (8 - m + t) < 11 * (3 * m)" using that m by linarith
      then show ?thesis using bits [of "4 * m" "8 - m + t"] that m by (simp add: nth_append l)
    qed
    moreover have "\<not> bit (w :: u8) (8 - m + t)" if "\<not> t < m" for w
      using that m by (intro impossible_bit) auto
    ultimately show "bit (drop_bit (8 - m) (dec_byte idx (4 * m))) t \<longleftrightarrow> bit (drop_bit (8 - m) (BRSHA256 data ! 0)) t"
      by (cases "t < m") (auto simp: bit_drop_bit_eq)
  qed
qed

lemma Decode_words:
  assumes loop: "words_loop wl (Some s) [] = (idx, word)" "word = None \<or> word = Some []"
    and m: "1 \<le> m" "m \<le> 8" "length idx = 3 * m"
  defines "data \<equiv> map (dec_byte idx) [0..<4 * m]"
  shows "BRBIP39Decode wl s d =
    (if drop_bit (8 - m) (dec_byte idx (4 * m)) = drop_bit (8 - m) (BRSHA256 data ! 0)
     then (if d = None \<or> 4 * m \<le> length (the d) then 4 * m else 0, put d 0 data) else (0, d))"
proof -
  have n: "(length idx * 11 + 7) div 8 = Suc (4 * m)" "length idx * 4 div 3 = 4 * m" "length idx div 3 = m"
    unfolding m(3) using word_counts(2) [OF m(1,2)] by simp_all
  have mod: "length idx mod 3 = 0" unfolding m(3) by simp
  have t: "take (4 * m) (map (dec_byte idx) [0..<Suc (4 * m)]) = data" by (simp add: data_def)
  have b: "last (map (dec_byte idx) [0..<Suc (4 * m)]) = dec_byte idx (4 * m)" "map (dec_byte idx) [0..<Suc (4 * m)] \<noteq> []"
    by simp_all
  show ?thesis
    unfolding BRBIP39Decode_def Let_def loop(1) prod.case n t b(1) if_not_P [OF b(2)]
    using mod loop(2) by (auto split: option.splits)
qed

lemma Encode_words:
  fixes wl data
  assumes m: "1 \<le> m" "m \<le> 8" and l: "length data = 4 * m"
  defines "s \<equiv> joined (enc_words wl (data @ BRSHA256 data) (3 * m))"
  shows "BRBIP39Encode wl data None = Some (length s + 1, None)"
    and "length s < length d \<Longrightarrow>
      BRBIP39Encode wl data (Some d) = Some (length s + 1, Some (s @ replicate (length d - length s) 0))"
    and "length d \<le> length s \<Longrightarrow> map_option fst (BRBIP39Encode wl data (Some d)) = Some 0"
proof -
  let ?buf = "data @ BRSHA256 data"
  have b: "\<forall>k<3 * m. k * 11 div 8 + 4 \<le> length ?buf" using word_counts(3) [OF m] by (simp add: l)
  note e = enc_loop_words [OF b, of wl, folded s_def]
  have n: "length data * 3 div 4 = 3 * m" "length data > 0" "length data mod 4 = 0" using m l by simp_all
  show "BRBIP39Encode wl data None = Some (length s + 1, None)"
    using e [of None] n by (auto simp: BRBIP39Encode_def)
  show "BRBIP39Encode wl data (Some d) = Some (length s + 1, Some (s @ replicate (length d - length s) 0))" if "length s < length d"
    using e [of "Some d"] n m that by (auto simp: BRBIP39Encode_def)
  show "map_option fst (BRBIP39Encode wl data (Some d)) = Some 0" if "length d \<le> length s"
    using e [of "Some d"] n m that by (auto simp: BRBIP39Encode_def)
qed

section \<open>Accepted phrases\<close>

lemma find_word_Some:
  "find_word n wl s = Some i \<Longrightarrow> \<exists>j < length wl. i = n + j \<and> word_matches s (wl ! j)"
proof (induction wl arbitrary: n)
  case (Cons w ws)
  show ?case
  proof (cases "word_matches s w")
    case False
    then obtain j where "j < length ws" "i = Suc n + j" "word_matches s (ws ! j)"
      using Cons.IH [of "Suc n"] Cons.prems by auto
    then show ?thesis by (intro exI [of _ "Suc j"]) auto
  qed (use Cons.prems in \<open>auto intro!: exI [of _ 0]\<close>)
qed simp

lemma word_matches_split:
  "word_matches s w \<Longrightarrow> s = w \<or> (\<exists>rest. s = w @ 32 # rest)"
  unfolding word_matches_def by (metis append_Nil2 append_take_drop_id drop_all id_take_nth_drop le_eq_less_or_eq length_take min.absorb_iff2 not_le take_all)

lemma words_loop_accepts:
  assumes wl: "wordlist_ok wl"
    and "words_loop wl (Some s) acc = (acc', word)" "word = None \<or> word = Some []" "length acc \<le> 24"
  shows "\<exists>is. acc' = acc @ is \<and> length acc' \<le> 24 \<and> (\<forall>i\<in>set is. i < BIP39_WORDLIST_COUNT) \<and>
    (if is = [] then s = [] else s = joined (map ((!) wl) is) \<or> s = joined (map ((!) wl) is) @ [32])"
  using assms(2-)
proof (induction "24 - length acc" arbitrary: acc s rule: less_induct)
  case less
  have len: "length wl = BIP39_WORDLIST_COUNT" and sp: "\<And>i. i < BIP39_WORDLIST_COUNT \<Longrightarrow> 32 \<notin> set (wl ! i)"
    using wl by (auto simp: wordlist_ok_def)
  show ?case
  proof (cases "s \<noteq> [] \<and> length acc < 24")
    case False
    then have "acc' = acc" "word = Some s" using less.prems(1) by (auto simp: words_loop.simps [of _ "Some _"])
    then show ?thesis using False less.prems by (intro exI [of _ "[]"]) auto
  next
    case True
    obtain i where i: "find_word 0 (take BIP39_WORDLIST_COUNT wl) s = Some i"
      using less.prems(1,2) True by (subst (asm) words_loop.simps) (auto split: option.splits)
    have i': "i < BIP39_WORDLIST_COUNT" "word_matches s (wl ! i)" using find_word_Some [OF i] len by auto
    have nxt: "words_loop wl (next_word s) (acc @ [i]) = (acc', word)"
      using less.prems(1) True i by (subst (asm) words_loop.simps) simp
    show ?thesis
    proof (cases "s = wl ! i")
      case True
      then have "acc' = acc @ [i]" using nxt next_word_last [OF sp [OF i'(1)]] by (simp add: words_loop.simps [of _ None])
      then show ?thesis using True i' \<open>s \<noteq> [] \<and> length acc < 24\<close> by (intro exI [of _ "[i]"]) auto
    next
      case False
      then obtain rest where s: "s = wl ! i @ 32 # rest" using word_matches_split [OF i'(2)] by blast
      have nr: "words_loop wl (Some rest) (acc @ [i]) = (acc', word)" using nxt next_word_start [OF sp [OF i'(1)]] by (simp add: s)
      have shorter: "24 - length (acc @ [i]) < 24 - length acc" "length (acc @ [i]) \<le> 24"
        using True diff_less_mono2 [of "length acc" "length (acc @ [i])" 24] by simp_all
      obtain js where js: "acc' = (acc @ [i]) @ js" "length acc' \<le> 24" "\<forall>i\<in>set js. i < BIP39_WORDLIST_COUNT"
        "if js = [] then rest = [] else rest = joined (map ((!) wl) js) \<or> rest = joined (map ((!) wl) js) @ [32]"
        using less.hyps [OF shorter(1) nr less.prems(2) shorter(2)] by blast
      have "s = joined (map ((!) wl) (i # js)) \<or> s = joined (map ((!) wl) (i # js)) @ [32]"
        using js(4) by (auto simp: s joined_Cons split: if_splits)
      then show ?thesis using js i' by (intro exI [of _ "i # js"]) auto
    qed
  qed
qed

lemma accepted_words:
  assumes wl: "wordlist_ok wl" and r: "fst (BRBIP39Decode wl s d) = r" "0 < r"
  obtains idx word m where "words_loop wl (Some s) [] = (idx, word)" "word = None \<or> word = Some []"
    "1 \<le> m" "m \<le> 8" "length idx = 3 * m" "\<forall>i\<in>set idx. i < BIP39_WORDLIST_COUNT"
    "s = joined (map ((!) wl) idx) \<or> s = joined (map ((!) wl) idx) @ [32]"
    "drop_bit (8 - m) (dec_byte idx (4 * m)) = drop_bit (8 - m) (BRSHA256 (map (dec_byte idx) [0..<4 * m]) ! 0)"
proof -
  obtain idx word where loop: "words_loop wl (Some s) [] = (idx, word)" by fastforce
  have "length idx mod 3 = 0 \<and> (word = None \<or> word = Some [])"
  proof (rule ccontr)
    assume n: "\<not> ?thesis"
    show False using r unfolding BRBIP39Decode_def Let_def loop prod.case if_not_P [OF n] by simp
  qed
  then have w: "word = None \<or> word = Some []" and "3 dvd length idx" by auto
  then obtain m where m: "length idx = 3 * m" by (elim dvdE)
  note a = words_loop_accepts [OF wl loop w, simplified]
  have "m \<noteq> 0"
  proof
    assume "m = 0"
    then have "idx = []" using m by simp
    then have "fst (BRBIP39Decode wl s d) = 0"
      using w by (auto simp: BRBIP39Decode_def loop Let_def split: option.splits)
    then show False using r by simp
  qed
  then have m8: "1 \<le> m" "m \<le> 8" and "idx \<noteq> []" using a m by auto
  have "drop_bit (8 - m) (dec_byte idx (4 * m)) = drop_bit (8 - m) (BRSHA256 (map (dec_byte idx) [0..<4 * m]) ! 0)"
    using r unfolding Decode_words [OF loop w m8 m] by (auto split: if_splits)
  then show thesis using that [OF loop w m8 m] a \<open>idx \<noteq> []\<close> by auto
qed

text \<open>The indices are those of the words that the decoded data is encoded as.\<close>

lemma word_of_indices:
  assumes m: "1 \<le> m" "m \<le> 8" "length idx = 3 * m" and idx: "\<forall>i\<in>set idx. i < BIP39_WORDLIST_COUNT"
  defines "data \<equiv> map (dec_byte idx) [0..<4 * m]"
  assumes sum: "drop_bit (8 - m) (dec_byte idx (4 * m)) = drop_bit (8 - m) (BRSHA256 data ! 0)"
  shows "map (\<lambda>k. unat (enc_index (data @ BRSHA256 data) k)) [0..<3 * m] = idx"
proof (rule nth_equalityI)
  let ?buf = "data @ BRSHA256 data"
  have l: "length data = 4 * m" by (simp add: data_def)
  have idx': "\<forall>i\<in>set idx. i < 2048" using idx by (simp add: BIP39_WORDLIST_COUNT_def)
  fix k assume "k < length (map (\<lambda>k. unat (enc_index ?buf k)) [0..<3 * m])"
  then have k: "k < 3 * m" by simp
  have "bit (unat (enc_index ?buf k)) j \<longleftrightarrow> bit (idx ! k) j" for j
  proof (cases "j < 11")
    case True
    define p where "p = 11 * k + 10 - j"
    have p: "p < 33 * m" "p div 11 = k" "p mod 11 = 10 - j"
    proof -
      have e: "p = (10 - j) + k * 11" using True by (simp add: p_def)
      show "p < 33 * m" using k e by linarith
      show "p div 11 = k" "p mod 11 = 10 - j" unfolding e using True by (subst div_mult_self1 mod_mult_self1; simp)+
    qed
    have t: "7 - p mod 8 < 8" "8 * (p div 8) + 7 - (7 - p mod 8) = p"
    proof -
      have "8 * (p div 8) + p mod 8 = p" "p mod 8 < 8" by simp_all
      then show "7 - p mod 8 < 8" "8 * (p div 8) + 7 - (7 - p mod 8) = p" by linarith+
    qed
    have q: "p div 8 \<le> 4 * m"
    proof -
      have "p div 8 < 4 * m + 1" using p(1) m(2) by (intro less_mult_imp_div_less) simp
      then show ?thesis by simp
    qed
    have "bit (unat (enc_index ?buf k)) j \<longleftrightarrow> bit (enc_index ?buf k) j" by (simp only: bit_unsigned_iff) simp
    also have "\<dots> \<longleftrightarrow> bit_at ?buf p"
      using enc_index_bit [of k ?buf j] word_counts(3) [OF m(1,2) k] True by (simp add: l p_def)
    also have "\<dots> \<longleftrightarrow> bit (?buf ! (p div 8)) (7 - p mod 8)" by (simp add: bit_at_def)
    also have "\<dots> \<longleftrightarrow> bit (dec_byte idx (p div 8)) (7 - p mod 8)"
    proof (cases "p div 8 < 4 * m")
      case True
      then show ?thesis by (simp add: nth_append l) (simp add: data_def)
    next
      case False
      then have e: "p div 8 = 4 * m" using q by simp
      have "p = 32 * m + p mod 8" using div_mult_mod_eq [of p 8] e by simp
      then have r: "8 - m + (7 - p mod 8 - (8 - m)) = 7 - p mod 8" using p(1) m(2) by linarith
      have "bit (drop_bit (8 - m) (dec_byte idx (4 * m))) (7 - p mod 8 - (8 - m)) \<longleftrightarrow>
          bit (drop_bit (8 - m) (BRSHA256 data ! 0)) (7 - p mod 8 - (8 - m))" by (simp only: sum)
      then show ?thesis unfolding bit_drop_bit_eq comp_def r e by (simp add: nth_append l)
    qed
    also have "\<dots> \<longleftrightarrow> bit (idx ! k) j"
    proof -
      have "p div 8 * 8 div 11 < length idx" using word_counts(4) [OF m(1,2) q] m(3) by simp
      moreover have "10 - (10 - j) = j" using True by simp
      ultimately show ?thesis
        using dec_byte_bit [OF idx' _ t(1), of "p div 8", unfolded t(2) p] p(1) m(3) by simp
    qed
    finally show ?thesis .
  next
    case False
    have "idx ! k < 2 ^ 11" "unat (enc_index ?buf k) < 2 ^ 11"
      using idx' enc_index_less [of ?buf k] k m(3) by (simp_all add: BIP39_WORDLIST_COUNT_def)
    then have "take_bit 11 (idx ! k) = idx ! k" "take_bit 11 (unat (enc_index ?buf k)) = unat (enc_index ?buf k)"
      by (simp_all only: take_bit_nat_eq_self_iff)
    then show ?thesis using False by (metis bit_take_bit_iff)
  qed
  then show "map (\<lambda>k. unat (enc_index ?buf k)) [0..<3 * m] ! k = idx ! k" using k by (simp add: bit_eq_iff)
qed (use m in simp)

lemma encode_decode:
  assumes wl: "wordlist_ok wl" and m: "1 \<le> m" "m \<le> 8" and l: "length data = 4 * m"
  defines "s \<equiv> joined (enc_words wl (data @ BRSHA256 data) (3 * m))"
  shows "BRBIP39Decode wl s d = (if d = None \<or> 4 * m \<le> length (the d) then 4 * m else 0, put d 0 data)"
proof -
  define idx where "idx = map (\<lambda>k. unat (enc_index (data @ BRSHA256 data) k)) [0..<3 * m]"
  have s: "s = joined (map ((!) wl) idx)" by (simp add: s_def enc_words_def idx_def comp_def)
  have loop: "words_loop wl (Some s) [] = (idx, None)"
    unfolding s using words_loop_joined [OF wl, of idx "[]"] enc_index_less m by (auto simp: idx_def)
  show ?thesis
    using Decode_words [OF loop _ m, of d] decode_words [OF m l, folded idx_def] by (simp add: idx_def)
qed

section \<open>Mnemonic phrases\<close>

definition demo_words :: "u8 list list" where
  "demo_words = map (\<lambda>i. [128 + word_of_nat (i div 64), 128 + word_of_nat (i mod 64)]) [0..<2048]"

lemma demo_words_ok: "wordlist_ok demo_words"
proof -
  let ?f = "\<lambda>i. [128 + word_of_nat (i div 64), 128 + word_of_nat (i mod 64)] :: u8 list"
  have u: "unat (128 + word_of_nat k :: u8) = 128 + k" if "k < 64" for k
  proof -
    have e: "(128 + word_of_nat k :: u8) = word_of_nat (128 + k)" by simp
    show ?thesis unfolding e unat_of_nat by (rule mod_less) (use that in simp)
  qed
  have d: "i div 64 < 64" "i mod 64 < 64" if "i < 2048" for i :: nat
    using that by (simp_all add: less_mult_imp_div_less)
  have "inj_on ?f {0..<2048}"
  proof (rule inj_onI)
    fix i j :: nat assume ij: "i \<in> {0..<2048}" "j \<in> {0..<2048}" "?f i = ?f j"
    then have "map unat (?f i) = map unat (?f j)" by simp
    then have "i div 64 = j div 64" "i mod 64 = j mod 64" using ij(1,2) by (simp_all add: u d del: add.commute)
    then show "i = j" by (metis div_mult_mod_eq)
  qed
  moreover have "32 \<notin> set (?f i)" if "i < 2048" for i
  proof
    assume "32 \<in> set (?f i)"
    then have "unat (32 :: u8) \<in> unat ` set (?f i)" by (rule imageI)
    also have "unat ` set (?f i) = {128 + i div 64, 128 + i mod 64}" using u [OF d(1) [OF that]] u [OF d(2) [OF that]] by simp
    finally show False by simp
  qed
  ultimately show ?thesis by (auto simp: wordlist_ok_def demo_words_def distinct_map BIP39_WORDLIST_COUNT_def simp del: upt_Suc)
qed

text \<open>C24: mnemonics: for a list of 2048 different words without spaces and 4 to 32 bytes of data, a multiple of
  4, encoding announces and writes the same phrase, padded with zeroes, or reports 0 for a buffer that is too
  small; the phrase is valid and decodes to the data. Conversely every phrase that is accepted is, up to one
  space at its end, the encoding of the data that it decodes to: the checksum leaves no other phrases.\<close>

theorem BRBIP39_roundtrip:
  assumes "wordlist_ok wl"
  shows "(\<forall>data. 4 dvd length data \<and> data \<noteq> [] \<and> length data \<le> 32 \<longrightarrow>
      (\<exists>s. BRBIP39Encode wl data None = Some (length s + 1, None) \<and>
        (\<forall>d. length s < length d \<longrightarrow>
           BRBIP39Encode wl data (Some d) = Some (length s + 1, Some (s @ replicate (length d - length s) 0))) \<and>
        (\<forall>d. length d \<le> length s \<longrightarrow> map_option fst (BRBIP39Encode wl data (Some d)) = Some 0) \<and>
        BRBIP39PhraseIsValid wl s \<and>
        (\<forall>d. length data \<le> length d \<longrightarrow> BRBIP39Decode wl s (Some d) = (length data, put (Some d) 0 data)))) \<and>
    (\<forall>s. BRBIP39PhraseIsValid wl s \<longrightarrow>
      (\<exists>data t. s \<in> {t, t @ [32]} \<and> length data = fst (BRBIP39Decode wl s None) \<and>
        BRBIP39Decode wl s (Some data) = (length data, Some data) \<and>
        BRBIP39Encode wl data (Some (replicate (length t + 1) 0)) = Some (length t + 1, Some (t @ [0]))))"
proof (intro conjI allI impI)
  fix data :: "u8 list" assume "4 dvd length data \<and> data \<noteq> [] \<and> length data \<le> 32"
  then obtain m where l: "length data = 4 * m" and "data \<noteq> []" "4 * m \<le> 32" by (auto elim!: dvdE)
  then have "1 \<le> m" "m \<le> 8" by (cases m; simp)+
  with l show "\<exists>s. BRBIP39Encode wl data None = Some (length s + 1, None) \<and>
      (\<forall>d. length s < length d \<longrightarrow>
         BRBIP39Encode wl data (Some d) = Some (length s + 1, Some (s @ replicate (length d - length s) 0))) \<and>
      (\<forall>d. length d \<le> length s \<longrightarrow> map_option fst (BRBIP39Encode wl data (Some d)) = Some 0) \<and>
      BRBIP39PhraseIsValid wl s \<and>
      (\<forall>d. length data \<le> length d \<longrightarrow> BRBIP39Decode wl s (Some d) = (length data, put (Some d) 0 data))"
    using Encode_words [where m = m and data = data and wl = wl] encode_decode [OF assms, of m data]
    by (intro exI [of _ "joined (enc_words wl (data @ BRSHA256 data) (3 * m))"]) (simp add: BRBIP39PhraseIsValid_def)
next
  fix s assume "BRBIP39PhraseIsValid wl s"
  then have pos: "0 < fst (BRBIP39Decode wl s None)" by (simp add: BRBIP39PhraseIsValid_def)
  obtain idx word m where w: "words_loop wl (Some s) [] = (idx, word)" "word = None \<or> word = Some []"
    "1 \<le> m" "m \<le> 8" "length idx = 3 * m" "\<forall>i\<in>set idx. i < BIP39_WORDLIST_COUNT"
    "s = joined (map ((!) wl) idx) \<or> s = joined (map ((!) wl) idx) @ [32]"
    "drop_bit (8 - m) (dec_byte idx (4 * m)) = drop_bit (8 - m) (BRSHA256 (map (dec_byte idx) [0..<4 * m]) ! 0)"
    by (rule accepted_words [OF assms refl pos])
  define data where "data = map (dec_byte idx) [0..<4 * m]"
  define t where "t = joined (map ((!) wl) idx)"
  have l: "length data = 4 * m" by (simp add: data_def)
  have "enc_words wl (data @ BRSHA256 data) (3 * m) = map ((!) wl) idx"
    using arg_cong [OF word_of_indices [OF w(3-6) w(8)], of "map ((!) wl)"] by (simp add: enc_words_def data_def comp_def)
  then have e: "BRBIP39Encode wl data (Some (replicate (length t + 1) 0)) = Some (length t + 1, Some (t @ [0]))"
    using Encode_words(2) [OF w(3,4) l, where wl = wl and d = "replicate (length t + 1) 0"] by (simp add: t_def del: replicate.simps) simp
  have "BRBIP39Decode wl s (Some data) = (length data, Some data)" "fst (BRBIP39Decode wl s None) = length data"
    using Decode_words [OF w(1-5)] w(8) l by (simp_all add: data_def put_def memcpy_at_0)
  then show "\<exists>data t. s \<in> {t, t @ [32]} \<and> length data = fst (BRBIP39Decode wl s None) \<and>
      BRBIP39Decode wl s (Some data) = (length data, Some data) \<and>
      BRBIP39Encode wl data (Some (replicate (length t + 1) 0)) = Some (length t + 1, Some (t @ [0]))"
    using e w(7) unfolding t_def [symmetric] by (intro exI [of _ data] exI [of _ t]) simp
qed

theorem BRBIP39_roundtrip_witness:
  "\<exists>s. BRBIP39Encode demo_words (replicate 4 0) None = Some (length s + 1, None) \<and> BRBIP39PhraseIsValid demo_words s"
  using conjunct1 [OF BRBIP39_roundtrip [OF demo_words_ok], rule_format, of "replicate 4 0"] by auto

end
