(* ===== verification/Wallet.thy ===== *)
theory Wallet
  imports Transaction
begin

text \<open>
  \<^verbatim>\<open>Libraries/loafwallet-core/BRWallet.c\<close>: the wallet, its registered transactions, balance, addresses and
  the creation of transactions.
  \<^item> The hash sets of the wallet are a map (\<open>allTx\<close>, from hash to transaction) and sets, which is what the
    hash tables of \<open>HashSet\<close> implement (\<open>HashSetLaws\<close>). A pointer to a registered transaction is its hash: the
    wallet holds at most one object for a hash, and a dereference is a lookup in \<open>allTx\<close>, with \<open>None\<close>, no
    defined behaviour, for an object that was freed or a \<open>NULL\<close>.
  \<^item> A callback is an entry of the log \<open>wl_events\<close>; all callbacks are set.
  \<^item> The environment \<open>env\<close> holds what the wallet calls: the address derivation of \<^verbatim>\<open>BRBIP32Sequence.c\<close> and
    \<^verbatim>\<open>BRKey.c\<close>, \<open>time(NULL)\<close>, the random numbers of an output shuffle, and whether \<open>realloc\<close> moves the address
    array.
  \<^item> A failed \<open>assert\<close> is \<open>None\<close>, and a recursion of the code that may not end is a partial function.
\<close>

section \<open>Data\<close>

record BRUTXO =
  utxo_hash :: UInt256
  utxo_n :: u32

definition DEFAULT_FEE_PER_KB :: u64 where "DEFAULT_FEE_PER_KB = (5000 * 1000 + 99) div 100"
definition MIN_FEE_PER_KB :: u64 where "MIN_FEE_PER_KB = (TX_FEE_PER_KB * 1000 + 190) div 191"
definition MAX_FEE_PER_KB :: u64 where "MAX_FEE_PER_KB = (1000100 * 1000 + 190) div 191"
definition SEQUENCE_GAP_LIMIT_EXTERNAL :: nat where "SEQUENCE_GAP_LIMIT_EXTERNAL = 10"
definition SEQUENCE_GAP_LIMIT_INTERNAL :: nat where "SEQUENCE_GAP_LIMIT_INTERNAL = 5"
definition SEQUENCE_EXTERNAL_CHAIN :: u32 where "SEQUENCE_EXTERNAL_CHAIN = 0"
definition SEQUENCE_INTERNAL_CHAIN :: u32 where "SEQUENCE_INTERNAL_CHAIN = 1"

definition BRUTXOHash :: "BRUTXO \<Rightarrow> size_t" where
  "BRUTXOHash u = unat ((u32_of (utxo_hash u) 0 XOR utxo_n u) * 0x01000193)"

definition BRUTXOEq :: "BRUTXO \<Rightarrow> BRUTXO \<Rightarrow> bool" where
  "BRUTXOEq u v \<longleftrightarrow> UInt256Eq (utxo_hash u) (utxo_hash v) \<and> utxo_n u = utxo_n v"

datatype wallet_event =
    BalanceChanged u64
  | TxAdded UInt256
  | TxUpdated "UInt256 list" u32 u32
  | TxDeleted UInt256 bool bool

record BRWallet =
  wl_balance :: u64
  wl_totalSent :: u64
  wl_totalReceived :: u64
  wl_feePerKb :: u64
  wl_balanceHist :: "u64 list"
  wl_blockHeight :: u32
  wl_utxos :: "BRUTXO list"
  wl_transactions :: "UInt256 list"
  wl_internalChain :: "u8 list list"
  wl_externalChain :: "u8 list list"
  wl_allTx :: "UInt256 \<rightharpoonup> BRTransaction"
  wl_invalidTx :: "UInt256 set"
  wl_pendingTx :: "UInt256 set"
  wl_spentOutputs :: "BRUTXO set"
  wl_usedAddrs :: "u8 list set"
  wl_allAddrs :: "u8 list set"
  wl_events :: "wallet_event list"

record 'k wallet_env =
  we_pubKey :: "u32 \<Rightarrow> u32 \<Rightarrow> u8 list"
  we_setPubKey :: "u8 list \<Rightarrow> 'k option"
  we_keys :: "'k key_api"
  we_privKey :: "u8 list \<Rightarrow> u32 \<Rightarrow> u32 \<Rightarrow> 'k"
  we_now :: int
  we_rands :: "nat list"
  we_moved :: bool

definition utxo_of :: "BRTxInput \<Rightarrow> BRUTXO" where
  "utxo_of i = \<lparr>utxo_hash = in_txHash i, utxo_n = in_index i\<rparr>"

definition nth_opt :: "'a list \<Rightarrow> nat \<Rightarrow> 'a option" where
  "nth_opt xs i = (if i < length xs then Some (xs ! i) else None)"

definition rm_at :: "'a list \<Rightarrow> nat \<Rightarrow> 'a list" where
  "rm_at xs i = take i xs @ drop (Suc i) xs"

text \<open>A loop that ends with the first item for which \<open>f\<close> is true.\<close>

fun any_opt :: "('a \<Rightarrow> bool option) \<Rightarrow> 'a list \<Rightarrow> bool option" where
  "any_opt f [] = Some False"
| "any_opt f (x # xs) = do { b \<leftarrow> f x; if b then Some True else any_opt f xs }"

lemma any_opt_mono [partial_function_mono]:
  assumes "\<And>x. mono_option (\<lambda>f. B x f)"
  shows "mono_option (\<lambda>f. any_opt (\<lambda>x. B x f) xs)"
proof (induction xs)
  case (Cons x xs)
  show ?case
    unfolding any_opt.simps
    by (rule bind_mono [OF assms], rule if_mono) (rule option.const_mono, rule Cons.IH)
qed (simp add: monotone_def option.leq_refl)

fun fold_opt :: "('a \<Rightarrow> 's \<Rightarrow> 's option) \<Rightarrow> 'a list \<Rightarrow> 's \<Rightarrow> 's option" where
  "fold_opt f [] s = Some s"
| "fold_opt f (x # xs) s = do { s \<leftarrow> f x s; fold_opt f xs s }"

lemma fold_opt_mono [partial_function_mono]:
  assumes "\<And>x s. mono_option (\<lambda>f. B x s f)"
  shows "mono_option (\<lambda>f. fold_opt (\<lambda>x s. B x s f) xs s)"
proof (induction xs arbitrary: s)
  case (Cons x xs)
  show ?case unfolding fold_opt.simps by (rule bind_mono [OF assms Cons.IH])
qed (simp add: monotone_def option.leq_refl)

section \<open>Fees and order\<close>

definition txFee :: "u64 \<Rightarrow> size_t \<Rightarrow> u64" where
  "txFee feePerKb siz =
     (let standardFee = word_of_nat ((siz + 999) div 1000) * TX_FEE_PER_KB;
          fee = ((word_of_nat siz * feePerKb div 1000 + 99) div 100) * 100
      in if fee > standardFee then fee else standardFee)"

fun txChainIndex_from :: "nat \<Rightarrow> BRTransaction \<Rightarrow> u8 list list \<Rightarrow> size_t" where
  "txChainIndex_from 0 tx addrChain = SIZE_MAX"
| "txChainIndex_from (Suc i) tx addrChain =
     (if list_ex (\<lambda>out. BRAddressEq (out_address out) (addrChain ! i)) (tx_outputs tx) then i
      else txChainIndex_from i tx addrChain)"

definition txChainIndex :: "BRTransaction \<Rightarrow> u8 list list \<Rightarrow> size_t" where
  "txChainIndex tx addrChain = txChainIndex_from (length addrChain) tx addrChain"

partial_function (option) BRWalletTxIsAscending ::
    "(UInt256 \<rightharpoonup> BRTransaction) \<Rightarrow> BRTransaction option \<Rightarrow> BRTransaction \<Rightarrow> bool option" where
  "BRWalletTxIsAscending allTx t1 tx2 =
     (case t1 of None \<Rightarrow> Some False
      | Some tx1 \<Rightarrow>
          if tx_blockHeight tx1 > tx_blockHeight tx2 then Some True
          else if tx_blockHeight tx1 < tx_blockHeight tx2 then Some False
          else if list_ex (\<lambda>i. UInt256Eq (in_txHash i) (tx_txHash tx2)) (tx_inputs tx1) then Some True
          else if list_ex (\<lambda>i. UInt256Eq (in_txHash i) (tx_txHash tx1)) (tx_inputs tx2) then Some False
          else any_opt (\<lambda>i. BRWalletTxIsAscending allTx (allTx (in_txHash i)) tx2) (tx_inputs tx1))"

definition BRWalletTxCompare :: "BRWallet \<Rightarrow> BRTransaction \<Rightarrow> BRTransaction \<Rightarrow> int option" where
  "BRWalletTxCompare w tx1 tx2 =
     do {
       a \<leftarrow> BRWalletTxIsAscending (wl_allTx w) (Some tx1) tx2;
       if a then Some 1
       else do {
         b \<leftarrow> BRWalletTxIsAscending (wl_allTx w) (Some tx2) tx1;
         if b then Some (-1)
         else do {
           let i = txChainIndex tx1 (wl_internalChain w);
           let j = txChainIndex tx2 (if i = SIZE_MAX then wl_externalChain w else wl_internalChain w);
           let i = (if i = SIZE_MAX \<and> j \<noteq> SIZE_MAX then txChainIndex tx1 (wl_externalChain w) else i);
           if i \<noteq> SIZE_MAX \<and> j \<noteq> SIZE_MAX \<and> i \<noteq> j then Some (if i > j then 1 else -1) else Some 0
         }
       }
     }"

fun insert_index :: "BRWallet \<Rightarrow> BRTransaction \<Rightarrow> nat \<Rightarrow> nat option" where
  "insert_index w tx 0 = Some 0"
| "insert_index w tx (Suc i) =
     do {
       t \<leftarrow> wl_allTx w (wl_transactions w ! i);
       c \<leftarrow> BRWalletTxCompare w t tx;
       if c > 0 then insert_index w tx i else Some (Suc i)
     }"

definition BRWalletInsertTx :: "BRWallet \<Rightarrow> BRTransaction \<Rightarrow> BRWallet option" where
  "BRWalletInsertTx w tx =
     do {
       i \<leftarrow> insert_index w tx (length (wl_transactions w));
       Some (w\<lparr>wl_transactions := take i (wl_transactions w) @ [tx_txHash tx] @ drop i (wl_transactions w)\<rparr>)
     }"

definition BRWalletContainsTx :: "BRWallet \<Rightarrow> BRTransaction \<Rightarrow> bool" where
  "BRWalletContainsTx w tx \<longleftrightarrow>
     list_ex (\<lambda>out. out_address out \<in> wl_allAddrs w) (tx_outputs tx) \<or>
     list_ex (\<lambda>i. case wl_allTx w (in_txHash i) of None \<Rightarrow> False
       | Some t \<Rightarrow> unat (in_index i) < length (tx_outputs t) \<and>
           out_address (tx_outputs t ! unat (in_index i)) \<in> wl_allAddrs w) (tx_inputs tx)"

section \<open>The balance\<close>

definition input_postdated :: "u32 \<Rightarrow> int \<Rightarrow> BRTransaction \<Rightarrow> BRTxInput \<Rightarrow> bool" where
  "input_postdated blockHeight now tx i \<longleftrightarrow>
     in_sequence i < -1 - 1 \<or>
     (in_sequence i < -1 \<and> tx_lockTime tx < TX_MAX_LOCK_HEIGHT \<and> tx_lockTime tx > blockHeight + 1) \<or>
     (in_sequence i < -1 \<and> uint (tx_lockTime tx) > now)"

definition tx_invalid :: "BRWallet \<Rightarrow> BRTransaction \<Rightarrow> bool" where
  "tx_invalid w tx \<longleftrightarrow> tx_blockHeight tx = TX_UNCONFIRMED \<and>
     list_ex (\<lambda>i. utxo_of i \<in> wl_spentOutputs w \<or> in_txHash i \<in> wl_invalidTx w) (tx_inputs tx)"

definition tx_pending :: "BRWallet \<Rightarrow> int \<Rightarrow> BRTransaction \<Rightarrow> bool" where
  "tx_pending w now tx \<longleftrightarrow> tx_blockHeight tx = TX_UNCONFIRMED \<and>
     (BRTransactionSize tx > TX_MAX_SIZE \<or>
      list_ex (\<lambda>out. out_amount out < TX_MIN_OUTPUT_AMOUNT) (tx_outputs tx) \<or>
      list_ex (\<lambda>i. input_postdated (wl_blockHeight w) now tx i \<or> in_txHash i \<in> wl_pendingTx w) (tx_inputs tx))"

fun add_outputs :: "UInt256 \<Rightarrow> nat \<Rightarrow> BRTxOutput list \<Rightarrow> BRWallet \<times> u64 \<Rightarrow> BRWallet \<times> u64" where
  "add_outputs h j [] s = s"
| "add_outputs h j (out # outs) (w, balance) =
     add_outputs h (j + 1) outs
       (if out_address out \<noteq> [] then
          let w = w\<lparr>wl_usedAddrs := insert (out_address out) (wl_usedAddrs w)\<rparr> in
          if out_address out \<in> wl_allAddrs w
          then (w\<lparr>wl_utxos := wl_utxos w @ [\<lparr>utxo_hash = h, utxo_n = word_of_nat j\<rparr>]\<rparr>, balance + out_amount out)
          else (w, balance)
        else (w, balance))"

fun prune_utxos :: "nat \<Rightarrow> BRWallet \<times> u64 \<Rightarrow> (BRWallet \<times> u64) option" where
  "prune_utxos 0 s = Some s"
| "prune_utxos (Suc j) (w, balance) =
     (if wl_utxos w ! j \<notin> wl_spentOutputs w then prune_utxos j (w, balance)
      else do {
        t \<leftarrow> wl_allTx w (utxo_hash (wl_utxos w ! j));
        out \<leftarrow> nth_opt (tx_outputs t) (unat (utxo_n (wl_utxos w ! j)));
        prune_utxos j (w\<lparr>wl_utxos := rm_at (wl_utxos w) j\<rparr>, balance - out_amount out)
      })"

definition balance_step :: "int \<Rightarrow> UInt256 \<Rightarrow> BRWallet \<times> u64 \<times> u64 \<Rightarrow> (BRWallet \<times> u64 \<times> u64) option" where
  "balance_step now h s =
     (case s of (w, balance, prevBalance) \<Rightarrow>
      do {
        tx \<leftarrow> wl_allTx w h;
        if tx_invalid w tx
        then Some (w\<lparr>wl_invalidTx := insert (tx_txHash tx) (wl_invalidTx w),
                     wl_balanceHist := wl_balanceHist w @ [balance]\<rparr>, balance, prevBalance)
        else do {
          let w = w\<lparr>wl_spentOutputs := foldl (\<lambda>s i. insert (utxo_of i) s) (wl_spentOutputs w) (tx_inputs tx)\<rparr>;
          if tx_pending w now tx
          then Some (w\<lparr>wl_pendingTx := insert (tx_txHash tx) (wl_pendingTx w),
                       wl_balanceHist := wl_balanceHist w @ [balance]\<rparr>, balance, prevBalance)
          else do {
            let (w, balance) = add_outputs (tx_txHash tx) 0 (tx_outputs tx) (w, balance);
            (w, balance) \<leftarrow> prune_utxos (length (wl_utxos w)) (w, balance);
            let w = (if prevBalance < balance
                     then w\<lparr>wl_totalReceived := wl_totalReceived w + (balance - prevBalance)\<rparr> else w);
            let w = (if balance < prevBalance
                     then w\<lparr>wl_totalSent := wl_totalSent w + (prevBalance - balance)\<rparr> else w);
            Some (w\<lparr>wl_balanceHist := wl_balanceHist w @ [balance]\<rparr>, balance, balance)
          }
        }
      })"

definition BRWalletUpdateBalance :: "int \<Rightarrow> BRWallet \<Rightarrow> BRWallet option" where
  "BRWalletUpdateBalance now w =
     do {
       (w, balance, _) \<leftarrow> fold_opt (balance_step now) (wl_transactions w)
         (w\<lparr>wl_utxos := [], wl_balanceHist := [], wl_spentOutputs := {}, wl_invalidTx := {}, wl_pendingTx := {},
            wl_usedAddrs := {}, wl_totalSent := 0, wl_totalReceived := 0\<rparr>, 0, 0);
       if length (wl_balanceHist w) = length (wl_transactions w) then Some (w\<lparr>wl_balance := balance\<rparr>) else None
     }"

end
