(* ===== verification/WalletOps.thy ===== *)
theory WalletOps
  imports Wallet
begin

text \<open>
  \<^verbatim>\<open>Libraries/loafwallet-core/BRWallet.c\<close>, continued: the address chains, the constructor, the registration,
  removal and update of transactions, the queries, and the creation and signing of transactions.
\<close>

section \<open>Address chains\<close>

definition derive_address :: "'k wallet_env \<Rightarrow> u32 \<Rightarrow> nat \<Rightarrow> u8 list option" where
  "derive_address env chain count =
     do {
       key \<leftarrow> we_setPubKey env (we_pubKey env chain (word_of_nat count));
       address \<leftarrow> keyAddress (we_keys env) key;
       if address = [] then None else Some address
     }"

fun unused_tail :: "u8 list set \<Rightarrow> u8 list list \<Rightarrow> nat \<Rightarrow> nat" where
  "unused_tail usedAddrs chain 0 = 0"
| "unused_tail usedAddrs chain (Suc i) = (if chain ! i \<notin> usedAddrs then unused_tail usedAddrs chain i else Suc i)"

partial_function (option) generate_addrs ::
    "(nat \<Rightarrow> u8 list option) \<Rightarrow> u8 list set \<Rightarrow> nat \<Rightarrow> nat \<Rightarrow> u8 list list \<Rightarrow> (nat \<times> u8 list list) option" where
  "generate_addrs derive usedAddrs gapLimit i chain =
     (if i + gapLimit > length chain
      then (case derive (length chain) of None \<Rightarrow> Some (i, chain)
        | Some address \<Rightarrow> generate_addrs derive usedAddrs gapLimit
            (if address \<in> usedAddrs then length chain + 1 else i) (chain @ [address]))
      else Some (i, chain))"

definition BRWalletUnusedAddrs :: "'k wallet_env \<Rightarrow> BRWallet \<Rightarrow> bool \<Rightarrow> nat \<Rightarrow> bool \<Rightarrow> (u8 list list \<times> BRWallet) option" where
  "BRWalletUnusedAddrs env w addrs gapLimit internal =
     (if gapLimit = 0 then None
      else do {
        let chain = (if internal then SEQUENCE_INTERNAL_CHAIN else SEQUENCE_EXTERNAL_CHAIN);
        let addrChain = (if internal then wl_internalChain w else wl_externalChain w);
        let startCount = length addrChain;
        let i = unused_tail (wl_usedAddrs w) addrChain startCount;
        (i, addrChain) \<leftarrow> generate_addrs (derive_address env chain) (wl_usedAddrs w) gapLimit i addrChain;
        let r = (if addrs \<and> i + gapLimit \<le> length addrChain then take gapLimit (drop i addrChain) else []);
        let w = (if internal then w\<lparr>wl_internalChain := addrChain\<rparr> else w\<lparr>wl_externalChain := addrChain\<rparr>);
        if \<not> we_moved env
        then Some (r, w\<lparr>wl_allAddrs := wl_allAddrs w \<union> set (drop startCount addrChain)\<rparr>)
        else Some (r, w\<lparr>wl_allAddrs := set (wl_internalChain w) \<union> set (wl_externalChain w)\<rparr>)
      })"

definition BRWalletReceiveAddress :: "'k wallet_env \<Rightarrow> BRWallet \<Rightarrow> (u8 list \<times> BRWallet) option" where
  "BRWalletReceiveAddress env w =
     do {
       (addrs, w) \<leftarrow> BRWalletUnusedAddrs env w True 1 False;
       Some (case addrs of [] \<Rightarrow> [] | a # _ \<Rightarrow> a, w)
     }"

definition BRWalletAllAddrs :: "BRWallet \<Rightarrow> nat option \<Rightarrow> size_t \<times> u8 list list" where
  "BRWalletAllAddrs w addrsCount =
     (case addrsCount of
        None \<Rightarrow> (length (wl_internalChain w) + length (wl_externalChain w), [])
      | Some n \<Rightarrow>
          (let internalCount = (if length (wl_internalChain w) < n then length (wl_internalChain w) else n);
               externalCount = (if length (wl_externalChain w) < n - internalCount
                                then length (wl_externalChain w) else n - internalCount)
           in (internalCount + externalCount,
               take internalCount (wl_internalChain w) @ take externalCount (wl_externalChain w))))"

definition BRWalletContainsAddress :: "BRWallet \<Rightarrow> u8 list \<Rightarrow> bool" where
  "BRWalletContainsAddress w addr \<longleftrightarrow> addr \<in> wl_allAddrs w"

definition BRWalletAddressIsUsed :: "BRWallet \<Rightarrow> u8 list \<Rightarrow> bool" where
  "BRWalletAddressIsUsed w addr \<longleftrightarrow> addr \<in> wl_usedAddrs w"

section \<open>The constructor\<close>

definition wallet_empty :: BRWallet where
  "wallet_empty = \<lparr>wl_balance = 0, wl_totalSent = 0, wl_totalReceived = 0, wl_feePerKb = DEFAULT_FEE_PER_KB,
     wl_balanceHist = [], wl_blockHeight = 0, wl_utxos = [], wl_transactions = [], wl_internalChain = [],
     wl_externalChain = [], wl_allTx = Map.empty, wl_invalidTx = {}, wl_pendingTx = {}, wl_spentOutputs = {},
     wl_usedAddrs = {}, wl_allAddrs = {}, wl_events = []\<rparr>"

definition add_tx :: "BRTransaction \<Rightarrow> BRWallet \<Rightarrow> BRWallet option" where
  "add_tx tx w = BRWalletInsertTx (w\<lparr>wl_allTx := (wl_allTx w)(tx_txHash tx \<mapsto> tx)\<rparr>) tx"

definition new_step :: "BRTransaction \<Rightarrow> BRWallet \<Rightarrow> BRWallet option" where
  "new_step tx w =
     (if \<not> BRTransactionIsSigned tx \<or> wl_allTx w (tx_txHash tx) \<noteq> None then Some w
      else do {
        w \<leftarrow> add_tx tx w;
        Some (w\<lparr>wl_usedAddrs := foldl (\<lambda>s out. if out_address out \<noteq> [] then insert (out_address out) s else s)
                  (wl_usedAddrs w) (tx_outputs tx)\<rparr>)
      })"

text \<open>The two address chains are extended to their gap limits.\<close>

definition extend_chains :: "'k wallet_env \<Rightarrow> BRWallet \<Rightarrow> BRWallet option" where
  "extend_chains env w =
     do {
       (_, w) \<leftarrow> BRWalletUnusedAddrs env w False SEQUENCE_GAP_LIMIT_EXTERNAL False;
       (_, w) \<leftarrow> BRWalletUnusedAddrs env w False SEQUENCE_GAP_LIMIT_INTERNAL True;
       Some w
     }"

text \<open>\<open>Some None\<close> is the result \<open>NULL\<close>.\<close>

definition BRWalletNew :: "'k wallet_env \<Rightarrow> BRTransaction list \<Rightarrow> BRWallet option option" where
  "BRWalletNew env transactions =
     do {
       w \<leftarrow> fold_opt new_step transactions wallet_empty;
       w \<leftarrow> extend_chains env w;
       w \<leftarrow> BRWalletUpdateBalance (we_now env) w;
       if transactions \<noteq> [] \<and> \<not> BRWalletContainsTx w (hd transactions) then Some None else Some (Some w)
     }"

section \<open>Queries\<close>

definition BRWalletBalance :: "BRWallet \<Rightarrow> u64" where "BRWalletBalance w = wl_balance w"
definition BRWalletTotalSent :: "BRWallet \<Rightarrow> u64" where "BRWalletTotalSent w = wl_totalSent w"
definition BRWalletTotalReceived :: "BRWallet \<Rightarrow> u64" where "BRWalletTotalReceived w = wl_totalReceived w"
definition BRWalletFeePerKb :: "BRWallet \<Rightarrow> u64" where "BRWalletFeePerKb w = wl_feePerKb w"

definition BRWalletSetFeePerKb :: "BRWallet \<Rightarrow> u64 \<Rightarrow> BRWallet" where
  "BRWalletSetFeePerKb w feePerKb = w\<lparr>wl_feePerKb := feePerKb\<rparr>"

text \<open>The array getters: \<open>None\<close> for a \<open>NULL\<close> array, \<open>Some n\<close> for one with room for \<open>n\<close> items.\<close>

definition copy_out :: "'a list \<Rightarrow> nat option \<Rightarrow> size_t \<times> 'a list" where
  "copy_out xs count =
     (case count of None \<Rightarrow> (length xs, [])
      | Some n \<Rightarrow> (let n = (if length xs < n then length xs else n) in (n, take n xs)))"

definition BRWalletUTXOs :: "BRWallet \<Rightarrow> nat option \<Rightarrow> size_t \<times> BRUTXO list" where
  "BRWalletUTXOs w utxosCount = copy_out (wl_utxos w) utxosCount"

definition BRWalletTransactions :: "BRWallet \<Rightarrow> nat option \<Rightarrow> size_t \<times> UInt256 list" where
  "BRWalletTransactions w txCount = copy_out (wl_transactions w) txCount"

fun unconfirmed_count :: "(UInt256 \<rightharpoonup> BRTransaction) \<Rightarrow> u32 \<Rightarrow> UInt256 list \<Rightarrow> nat option" where
  "unconfirmed_count allTx blockHeight [] = Some 0"
| "unconfirmed_count allTx blockHeight (h # hs) =
     do {
       t \<leftarrow> allTx h;
       if tx_blockHeight t \<ge> blockHeight
       then do { n \<leftarrow> unconfirmed_count allTx blockHeight hs; Some (n + 1) } else Some 0
     }"

definition BRWalletTxUnconfirmedBefore :: "BRWallet \<Rightarrow> nat option \<Rightarrow> u32 \<Rightarrow> (size_t \<times> UInt256 list) option" where
  "BRWalletTxUnconfirmedBefore w txCount blockHeight =
     do {
       n \<leftarrow> unconfirmed_count (wl_allTx w) blockHeight (rev (wl_transactions w));
       let total = length (wl_transactions w);
       Some (case txCount of None \<Rightarrow> (n, [])
         | Some m \<Rightarrow> (let c = (if n < m then n else m) in (c, take c (drop (total - n) (wl_transactions w)))))
     }"

definition BRWalletTransactionForHash :: "BRWallet \<Rightarrow> UInt256 \<Rightarrow> BRTransaction option option" where
  "BRWalletTransactionForHash w txHash = (if UInt256IsZero txHash then None else Some (wl_allTx w txHash))"

partial_function (option) BRWalletTransactionIsValid :: "BRWallet \<Rightarrow> BRTransaction \<Rightarrow> bool option" where
  "BRWalletTransactionIsValid w tx =
     (if \<not> BRTransactionIsSigned tx then None
      else if tx_blockHeight tx \<noteq> TX_UNCONFIRMED then Some True
      else if (if wl_allTx w (tx_txHash tx) = None
               then list_ex (\<lambda>i. utxo_of i \<in> wl_spentOutputs w) (tx_inputs tx)
               else tx_txHash tx \<in> wl_invalidTx w) then Some False
      else do {
        r \<leftarrow> any_opt (\<lambda>i. do {
               t \<leftarrow> BRWalletTransactionForHash w (in_txHash i);
               case t of None \<Rightarrow> Some False
               | Some t \<Rightarrow> do { v \<leftarrow> BRWalletTransactionIsValid w t; Some (\<not> v) } }) (tx_inputs tx);
        Some (\<not> r)
      })"

partial_function (option) BRWalletTransactionIsPending :: "int \<Rightarrow> BRWallet \<Rightarrow> BRTransaction \<Rightarrow> bool option" where
  "BRWalletTransactionIsPending now w tx =
     (if \<not> BRTransactionIsSigned tx then None
      else if tx_blockHeight tx \<noteq> TX_UNCONFIRMED then Some False
      else if BRTransactionSize tx > TX_MAX_SIZE \<or>
              list_ex (input_postdated (wl_blockHeight w) now tx) (tx_inputs tx) \<or>
              list_ex (\<lambda>out. out_amount out < TX_MIN_OUTPUT_AMOUNT) (tx_outputs tx) then Some True
      else any_opt (\<lambda>i. do {
             t \<leftarrow> BRWalletTransactionForHash w (in_txHash i);
             case t of None \<Rightarrow> Some False | Some t \<Rightarrow> BRWalletTransactionIsPending now w t }) (tx_inputs tx))"

partial_function (option) BRWalletTransactionIsVerified :: "int \<Rightarrow> BRWallet \<Rightarrow> BRTransaction \<Rightarrow> bool option" where
  "BRWalletTransactionIsVerified now w tx =
     (if \<not> BRTransactionIsSigned tx then None
      else if tx_blockHeight tx \<noteq> TX_UNCONFIRMED then Some True
      else if tx_timestamp tx = 0 then Some False
      else do {
        v \<leftarrow> BRWalletTransactionIsValid w tx;
        if \<not> v then Some False
        else do {
          p \<leftarrow> BRWalletTransactionIsPending now w tx;
          if p then Some False
          else do {
            r \<leftarrow> any_opt (\<lambda>i. do {
                   t \<leftarrow> BRWalletTransactionForHash w (in_txHash i);
                   case t of None \<Rightarrow> Some False
                   | Some t \<Rightarrow> do { v \<leftarrow> BRWalletTransactionIsVerified now w t; Some (\<not> v) } }) (tx_inputs tx);
            Some (\<not> r)
          }
        }
      })"

definition wallet_output :: "BRWallet \<Rightarrow> BRTxInput \<Rightarrow> BRTxOutput option" where
  "wallet_output w i =
     do {
       t \<leftarrow> wl_allTx w (in_txHash i);
       nth_opt (tx_outputs t) (unat (in_index i))
     }"

definition BRWalletAmountReceivedFromTx :: "BRWallet \<Rightarrow> BRTransaction \<Rightarrow> u64" where
  "BRWalletAmountReceivedFromTx w tx =
     foldl (\<lambda>amount out. if out_address out \<in> wl_allAddrs w then amount + out_amount out else amount) 0 (tx_outputs tx)"

definition BRWalletAmountSentByTx :: "BRWallet \<Rightarrow> BRTransaction \<Rightarrow> u64" where
  "BRWalletAmountSentByTx w tx =
     foldl (\<lambda>amount i. case wallet_output w i of None \<Rightarrow> amount
        | Some out \<Rightarrow> if out_address out \<in> wl_allAddrs w then amount + out_amount out else amount) 0 (tx_inputs tx)"

definition BRWalletFeeForTx :: "BRWallet \<Rightarrow> BRTransaction \<Rightarrow> u64" where
  "BRWalletFeeForTx w tx =
     (let amount = foldl (\<lambda>amount i. if amount = -1 then amount
            else case wallet_output w i of None \<Rightarrow> -1 | Some out \<Rightarrow> amount + out_amount out) 0 (tx_inputs tx)
      in foldl (\<lambda>amount out. if amount = -1 then amount else amount - out_amount out) amount (tx_outputs tx))"

fun last_index_of :: "UInt256 \<Rightarrow> UInt256 list \<Rightarrow> nat \<Rightarrow> nat option" where
  "last_index_of h hs 0 = None"
| "last_index_of h hs (Suc i) = (if hs ! i = h then Some i else last_index_of h hs i)"

definition BRWalletBalanceAfterTx :: "BRWallet \<Rightarrow> BRTransaction \<Rightarrow> u64 option" where
  "BRWalletBalanceAfterTx w tx =
     (if \<not> BRTransactionIsSigned tx then None
      else case last_index_of (tx_txHash tx) (wl_transactions w) (length (wl_transactions w)) of
        None \<Rightarrow> Some (wl_balance w)
      | Some i \<Rightarrow> nth_opt (wl_balanceHist w) i)"

definition BRWalletFeeForTxSize :: "BRWallet \<Rightarrow> size_t \<Rightarrow> u64" where
  "BRWalletFeeForTxSize w siz = txFee (wl_feePerKb w) siz"

definition BRWalletMinOutputAmount :: "BRWallet \<Rightarrow> u64" where
  "BRWalletMinOutputAmount w =
     (let amount = (TX_MIN_OUTPUT_AMOUNT * wl_feePerKb w + MIN_FEE_PER_KB - 1) div MIN_FEE_PER_KB
      in if amount > TX_MIN_OUTPUT_AMOUNT then amount else TX_MIN_OUTPUT_AMOUNT)"

text \<open>The output an unspent output refers to, when the wallet holds its transaction.\<close>

definition utxo_output :: "BRWallet \<Rightarrow> BRUTXO \<Rightarrow> BRTxOutput option" where
  "utxo_output w u =
     do {
       t \<leftarrow> wl_allTx w (utxo_hash u);
       nth_opt (tx_outputs t) (unat (utxo_n u))
     }"

definition BRWalletMaxOutputAmount :: "BRWallet \<Rightarrow> u64" where
  "BRWalletMaxOutputAmount w =
     (let (inCount, amount) = foldr (\<lambda>u (n, amount). case utxo_output w u of None \<Rightarrow> (n, amount)
            | Some out \<Rightarrow> (n + 1, amount + out_amount out)) (wl_utxos w) (0, 0);
          txSize = 8 + BRVarIntSize (word_of_nat inCount) + TX_INPUT_SIZE * inCount + BRVarIntSize 2 + TX_OUTPUT_SIZE * 2;
          fee = txFee (wl_feePerKb w) txSize
      in if amount > fee then amount - fee else 0)"
section \<open>Registration, removal and update of transactions\<close>

definition wallet_event :: "wallet_event \<Rightarrow> BRWallet \<Rightarrow> BRWallet" where
  "wallet_event e w = w\<lparr>wl_events := wl_events w @ [e]\<rparr>"

definition BRWalletContainsTransaction :: "BRWallet \<Rightarrow> BRTransaction \<Rightarrow> bool" where
  "BRWalletContainsTransaction w tx \<longleftrightarrow> BRWalletContainsTx w tx"

definition BRWalletRegisterTransaction :: "'k wallet_env \<Rightarrow> BRWallet \<Rightarrow> BRTransaction \<Rightarrow> (bool \<times> BRWallet) option" where
  "BRWalletRegisterTransaction env w tx =
     (if \<not> BRTransactionIsSigned tx then None
      else if wl_allTx w (tx_txHash tx) \<noteq> None then Some (True, w)
      else if BRWalletContainsTx w tx
      then do {
        w \<leftarrow> add_tx tx w;
        w \<leftarrow> BRWalletUpdateBalance (we_now env) w;
        w \<leftarrow> extend_chains env w;
        Some (True, wallet_event (TxAdded (tx_txHash tx)) (wallet_event (BalanceChanged (wl_balance w)) w))
      }
      else Some (False, if tx_blockHeight tx = TX_UNCONFIRMED
                        then w\<lparr>wl_allTx := (wl_allTx w)(tx_txHash tx \<mapsto> tx)\<rparr> else w))"

text \<open>The transactions from the end of the list on, down to the first older one, that spend an output of \<open>tx\<close>.\<close>

fun find_dependents :: "(UInt256 \<rightharpoonup> BRTransaction) \<Rightarrow> BRTransaction \<Rightarrow> UInt256 \<Rightarrow> UInt256 list \<Rightarrow> UInt256 list option" where
  "find_dependents allTx tx txHash [] = Some []"
| "find_dependents allTx tx txHash (h # hs) =
     do {
       t \<leftarrow> allTx h;
       if tx_blockHeight t < tx_blockHeight tx then Some []
       else do {
         r \<leftarrow> find_dependents allTx tx txHash hs;
         Some (if \<not> BRTransactionEq tx t \<and> list_ex (\<lambda>i. UInt256Eq (in_txHash i) txHash) (tx_inputs t)
               then tx_txHash t # r else r)
       }
     }"

text \<open>\<open>recommendRescan\<close>: all inputs are outputs of confirmed transactions of the wallet.\<close>

definition recommend_rescan :: "BRWallet \<Rightarrow> BRTransaction \<Rightarrow> bool option" where
  "recommend_rescan w tx =
     do {
       r \<leftarrow> any_opt (\<lambda>i. do {
              t \<leftarrow> BRWalletTransactionForHash w (in_txHash i);
              Some (case t of None \<Rightarrow> True | Some t \<Rightarrow> tx_blockHeight t = TX_UNCONFIRMED) }) (tx_inputs tx);
       Some (\<not> r)
     }"

definition remove_single :: "int \<Rightarrow> BRTransaction \<Rightarrow> BRWallet \<Rightarrow> BRWallet option" where
  "remove_single now tx w =
     do {
       let w = w\<lparr>wl_allTx := (wl_allTx w)(tx_txHash tx := None),
                 wl_transactions :=
                   (case last_index_of (tx_txHash tx) (wl_transactions w) (length (wl_transactions w)) of
                      None \<Rightarrow> wl_transactions w | Some i \<Rightarrow> rm_at (wl_transactions w) i)\<rparr>;
       w \<leftarrow> BRWalletUpdateBalance now w;
       notify \<leftarrow> (if BRWalletAmountSentByTx w tx > 0 then BRWalletTransactionIsValid w tx else Some False);
       rescan \<leftarrow> (if notify then recommend_rescan w tx else Some False);
       Some (wallet_event (TxDeleted (tx_txHash tx) notify rescan) (wallet_event (BalanceChanged (wl_balance w)) w))
     }"

partial_function (option) BRWalletRemoveTransaction :: "int \<Rightarrow> UInt256 \<Rightarrow> BRWallet \<Rightarrow> BRWallet option" where
  "BRWalletRemoveTransaction now txHash w =
     (if UInt256IsZero txHash then None
      else case wl_allTx w txHash of
        None \<Rightarrow> Some w
      | Some tx \<Rightarrow> do {
          hashes \<leftarrow> find_dependents (wl_allTx w) tx txHash (rev (wl_transactions w));
          if hashes \<noteq> []
          then do {
            w \<leftarrow> fold_opt (\<lambda>h w. BRWalletRemoveTransaction now h w) (rev hashes) w;
            BRWalletRemoveTransaction now txHash w
          }
          else remove_single now tx w
        })"

text \<open>A registered transaction is moved to its place in the order.\<close>

definition reinsert_tx :: "BRTransaction \<Rightarrow> BRWallet \<Rightarrow> BRWallet option" where
  "reinsert_tx tx w =
     (case last_index_of (tx_txHash tx) (wl_transactions w) (length (wl_transactions w)) of
        None \<Rightarrow> Some w
      | Some i \<Rightarrow> BRWalletInsertTx (w\<lparr>wl_transactions := rm_at (wl_transactions w) i\<rparr>) tx)"

definition update_step :: "u32 \<Rightarrow> u32 \<Rightarrow> UInt256 \<Rightarrow> BRWallet \<times> UInt256 list \<times> bool \<Rightarrow>
    (BRWallet \<times> UInt256 list \<times> bool) option" where
  "update_step blockHeight timestamp h s =
     (case s of (w, hashes, needsUpdate) \<Rightarrow>
      case wl_allTx w h of
        None \<Rightarrow> Some s
      | Some tx \<Rightarrow>
          if tx_blockHeight tx = blockHeight \<and> tx_timestamp tx = timestamp then Some s
          else do {
            let tx = tx\<lparr>tx_timestamp := timestamp, tx_blockHeight := blockHeight\<rparr>;
            let w = w\<lparr>wl_allTx := (wl_allTx w)(h \<mapsto> tx)\<rparr>;
            if BRWalletContainsTx w tx
            then do {
              w \<leftarrow> reinsert_tx tx w;
              Some (w, hashes @ [h],
                    needsUpdate \<or> tx_txHash tx \<in> wl_pendingTx w \<or> tx_txHash tx \<in> wl_invalidTx w)
            }
            else if blockHeight \<noteq> TX_UNCONFIRMED
            then Some (w\<lparr>wl_allTx := (wl_allTx w)(h := None)\<rparr>, hashes, needsUpdate)
            else Some (w, hashes, needsUpdate)
          })"

definition BRWalletUpdateTransactions :: "int \<Rightarrow> BRWallet \<Rightarrow> UInt256 list \<Rightarrow> u32 \<Rightarrow> u32 \<Rightarrow> BRWallet option" where
  "BRWalletUpdateTransactions now w txHashes blockHeight timestamp =
     do {
       let w = (if blockHeight > wl_blockHeight w then w\<lparr>wl_blockHeight := blockHeight\<rparr> else w);
       (w, hashes, needsUpdate) \<leftarrow> fold_opt (update_step blockHeight timestamp) txHashes (w, [], False);
       w \<leftarrow> (if needsUpdate then BRWalletUpdateBalance now w else Some w);
       Some (if hashes \<noteq> [] then wallet_event (TxUpdated hashes blockHeight timestamp) w else w)
     }"

fun confirmed_after :: "(UInt256 \<rightharpoonup> BRTransaction) \<Rightarrow> u32 \<Rightarrow> UInt256 list \<Rightarrow> nat \<Rightarrow> nat option" where
  "confirmed_after allTx blockHeight hs 0 = Some 0"
| "confirmed_after allTx blockHeight hs (Suc i) =
     do {
       t \<leftarrow> allTx (hs ! i);
       if tx_blockHeight t > blockHeight then confirmed_after allTx blockHeight hs i else Some (Suc i)
     }"

definition set_unconfirmed :: "UInt256 \<Rightarrow> BRWallet \<Rightarrow> BRWallet option" where
  "set_unconfirmed h w =
     do {
       t \<leftarrow> wl_allTx w h;
       Some (w\<lparr>wl_allTx := (wl_allTx w)(h \<mapsto> t\<lparr>tx_blockHeight := TX_UNCONFIRMED\<rparr>)\<rparr>)
     }"

definition BRWalletSetTxUnconfirmedAfter :: "int \<Rightarrow> BRWallet \<Rightarrow> u32 \<Rightarrow> BRWallet option" where
  "BRWalletSetTxUnconfirmedAfter now w blockHeight =
     do {
       let w = w\<lparr>wl_blockHeight := blockHeight\<rparr>;
       i \<leftarrow> confirmed_after (wl_allTx w) blockHeight (wl_transactions w) (length (wl_transactions w));
       let hashes = drop i (wl_transactions w);
       w \<leftarrow> fold_opt set_unconfirmed hashes w;
       if hashes \<noteq> []
       then do {
         w \<leftarrow> BRWalletUpdateBalance now w;
         Some (wallet_event (TxUpdated hashes TX_UNCONFIRMED 0) w)
       }
       else Some w
     }"

section \<open>Creating transactions\<close>

text \<open>The loop over the unspent outputs; the flag is set when the transaction has become too large.\<close>

definition fund_fee :: "BRWallet \<Rightarrow> u64 \<Rightarrow> BRTransaction \<Rightarrow> u64" where
  "fund_fee w amount transaction =
     (let feeAmount = txFee (wl_feePerKb w) (BRTransactionSize transaction + TX_OUTPUT_SIZE) in
      if wl_balance w > amount + feeAmount then feeAmount + (wl_balance w - (amount + feeAmount)) mod 100
      else feeAmount)"

fun fund_loop :: "BRWallet \<Rightarrow> u64 \<Rightarrow> u64 \<Rightarrow> BRUTXO list \<Rightarrow> BRTransaction \<times> u64 \<times> u64 \<Rightarrow> BRTransaction \<times> u64 \<times> u64 \<times> bool" where
  "fund_loop w amount minAmount [] (transaction, balance, feeAmount) = (transaction, balance, feeAmount, False)"
| "fund_loop w amount minAmount (u # us) (transaction, balance, feeAmount) =
     (case utxo_output w u of
        None \<Rightarrow> fund_loop w amount minAmount us (transaction, balance, feeAmount)
      | Some out \<Rightarrow>
          let transaction = BRTransactionAddInput transaction (utxo_hash u) (utxo_n u) (out_amount out)
                (out_script out) None TXIN_SEQUENCE in
          if BRTransactionSize transaction + TX_OUTPUT_SIZE > TX_MAX_SIZE
          then (transaction, balance, feeAmount, True)
          else
            let balance = balance + out_amount out;
                feeAmount = fund_fee w amount transaction in
            if balance = amount + feeAmount \<or> balance \<ge> amount + feeAmount + minAmount
            then (transaction, balance, feeAmount, False)
            else fund_loop w amount minAmount us (transaction, balance, feeAmount))"

text \<open>The end of the function: \<open>NULL\<close> for insufficient funds, or the transaction with its change output.\<close>

definition create_finish :: "'k wallet_env \<Rightarrow> BRWallet \<Rightarrow> nat \<Rightarrow> u64 \<Rightarrow> u64 \<Rightarrow> u64 \<Rightarrow> u64 \<Rightarrow> BRTransaction option \<Rightarrow>
    (BRTransaction option \<times> BRWallet) option" where
  "create_finish env w outCount balance amount feeAmount minAmount transaction =
     (case transaction of
        None \<Rightarrow> Some (None, w)
      | Some tx \<Rightarrow>
          if outCount < 1 \<or> balance < amount + feeAmount then Some (None, w)
          else if balance - (amount + feeAmount) > minAmount
          then do {
            (addrs, w) \<leftarrow> BRWalletUnusedAddrs env w True 1 True;
            let addr = (case addrs of [] \<Rightarrow> [] | a # _ \<Rightarrow> a);
            let n = fst (BRAddressScriptPubKey addr None);
            let script = bytes_of (snd (BRAddressScriptPubKey addr (Some (replicate n 0))));
            let tx = BRTransactionAddOutput tx (balance - (amount + feeAmount)) (Some script);
            Some (Some (BRTransactionShuffleOutputs (we_rands env) tx), w)
          }
          else Some (Some tx, w))"

partial_function (option) BRWalletCreateTxForOutputs ::
    "'k wallet_env \<Rightarrow> BRWallet \<Rightarrow> BRTxOutput list \<Rightarrow> (BRTransaction option \<times> BRWallet) option" where
  "BRWalletCreateTxForOutputs env w outputs =
     (if outputs = [] \<or> list_ex (\<lambda>out. bytes_of (out_script out) = []) outputs then None
      else do {
        let outCount = length outputs;
        let transaction = foldl (\<lambda>tx out. BRTransactionAddOutput tx (out_amount out) (out_script out))
              BRTransactionNew outputs;
        let amount = sum_list (map out_amount outputs);
        let minAmount = BRWalletMinOutputAmount w;
        let feeAmount = txFee (wl_feePerKb w) (BRTransactionSize transaction + TX_OUTPUT_SIZE);
        let (transaction, balance, feeAmount, tooLarge) =
              fund_loop w amount minAmount (wl_utxos w) (transaction, 0, feeAmount);
        if \<not> tooLarge then create_finish env w outCount balance amount feeAmount minAmount (Some transaction)
        else if wl_balance w < amount + txFee (wl_feePerKb w)
                  (10 + length (wl_utxos w) * TX_INPUT_SIZE + (outCount + 1) * TX_OUTPUT_SIZE)
        then create_finish env w outCount balance amount feeAmount minAmount None
        else do {
          let out = last outputs;
          (transaction, w) \<leftarrow>
            (if out_amount out > amount + feeAmount + minAmount - balance
             then BRWalletCreateTxForOutputs env w
                    (butlast outputs @ [out\<lparr>out_amount := out_amount out - (amount + feeAmount - balance)\<rparr>])
             else BRWalletCreateTxForOutputs env w (butlast outputs));
          create_finish env w outCount 0 0 0 minAmount transaction
        }
      })"

definition BRWalletCreateTransaction :: "'k wallet_env \<Rightarrow> BRWallet \<Rightarrow> u64 \<Rightarrow> u8 list \<Rightarrow>
    (BRTransaction option \<times> BRWallet) option" where
  "BRWalletCreateTransaction env w amount addr =
     (if amount = 0 \<or> \<not> BRAddressIsValid addr then None
      else BRWalletCreateTxForOutputs env w [BRTxOutputSetAddress (output_zero\<lparr>out_amount := amount\<rparr>) (Some addr)])"

definition BRWalletFeeForTxAmount :: "'k wallet_env \<Rightarrow> BRWallet \<Rightarrow> u64 \<Rightarrow> (u64 \<times> BRWallet) option" where
  "BRWalletFeeForTxAmount env w amount =
     (if amount = 0 then None
      else do {
        let dummyScript = [OP_DUP, OP_HASH160, 20] @ replicate 20 0 @ [OP_EQUALVERIFY, OP_CHECKSIG];
        let maxAmount = BRWalletMaxOutputAmount w;
        let out = BRTxOutputSetScript (output_zero\<lparr>out_amount := (if amount < maxAmount then amount else maxAmount)\<rparr>)
                    (Some dummyScript);
        (tx, w) \<leftarrow> BRWalletCreateTxForOutputs env w [out];
        Some (case tx of None \<Rightarrow> 0 | Some tx \<Rightarrow> BRWalletFeeForTx w tx, w)
      })"

section \<open>Signing\<close>

text \<open>The positions of an address in a chain, the last one first.\<close>

fun chain_indices :: "u8 list list \<Rightarrow> u8 list \<Rightarrow> nat \<Rightarrow> nat list" where
  "chain_indices chain address 0 = []"
| "chain_indices chain address (Suc j) =
     (if BRAddressEq address (chain ! j) then j # chain_indices chain address j else chain_indices chain address j)"

definition sign_indices :: "u8 list list \<Rightarrow> BRTransaction \<Rightarrow> nat list" where
  "sign_indices chain tx = concat (map (\<lambda>i. chain_indices chain (in_address i) (length chain)) (tx_inputs tx))"

text \<open>The index arrays have one element for each input: more matches than inputs are written outside of them.
  \<open>None\<close> for the seed is a cancelled authentication.\<close>

definition BRWalletSignTransaction :: "'k wallet_env \<Rightarrow> BRWallet \<Rightarrow> BRTransaction \<Rightarrow> u32 \<Rightarrow> u8 list option \<Rightarrow>
    (int \<times> BRTransaction) option" where
  "BRWalletSignTransaction env w tx forkId seed =
     (let internalIdx = sign_indices (wl_internalChain w) tx;
          externalIdx = sign_indices (wl_externalChain w) tx in
      if length internalIdx > length (tx_inputs tx) \<or> length externalIdx > length (tx_inputs tx) then None
      else case seed of
        None \<Rightarrow> Some (-1, tx)
      | Some s \<Rightarrow>
          let keys = map (\<lambda>i. we_privKey env s SEQUENCE_INTERNAL_CHAIN (word_of_nat i)) internalIdx @
                     map (\<lambda>i. we_privKey env s SEQUENCE_EXTERNAL_CHAIN (word_of_nat i)) externalIdx;
              (r, tx) = BRTransactionSign (we_keys env) forkId keys tx
          in Some (if r then 1 else 0, tx))"

end
