(* ===== verification/WalletBalance.thy ===== *)
theory WalletBalance
  imports WalletOps
begin

text \<open>
  The recomputation of the wallet's balance (\<open>_BRWalletUpdateBalance\<close>): closed forms of its inner loops, the
  invariant of its loop over the transactions, and what it leaves in the wallet. The words are those of the
  code, so that all sums are modulo \<open>2 ^ 64\<close>.
\<close>

section \<open>The store of transactions\<close>

text \<open>The objects are stored under their hashes; the ordered list holds stored transactions, each once.\<close>

definition wallet_store :: "BRWallet \<Rightarrow> bool" where
  "wallet_store w \<longleftrightarrow>
     (\<forall>h t. wl_allTx w h = Some t \<longrightarrow> tx_txHash t = h \<and> length (tx_outputs t) < 2 ^ 32) \<and>
     set (wl_transactions w) \<subseteq> dom (wl_allTx w) \<and> distinct (wl_transactions w)"

lemma wallet_storeD:
  assumes "wallet_store w"
  shows "wl_allTx w h = Some t \<Longrightarrow> tx_txHash t = h" "wl_allTx w h = Some t \<Longrightarrow> length (tx_outputs t) < 2 ^ 32"
    "h \<in> set (wl_transactions w) \<Longrightarrow> \<exists>t. wl_allTx w h = Some t" "distinct (wl_transactions w)"
  using assms by (auto simp: wallet_store_def)

text \<open>The amount of an unspent output, 0 for one the wallet does not know.\<close>

definition utxo_amount :: "BRWallet \<Rightarrow> BRUTXO \<Rightarrow> u64" where
  "utxo_amount w u = (case utxo_output w u of None \<Rightarrow> 0 | Some out \<Rightarrow> out_amount out)"

definition utxo_total :: "BRWallet \<Rightarrow> BRUTXO list \<Rightarrow> u64" where
  "utxo_total w us = sum_list (map (utxo_amount w) us)"

lemma utxo_output_cong: "wl_allTx w = wl_allTx w' \<Longrightarrow> utxo_output w = utxo_output w'"
  by (rule ext) (simp add: utxo_output_def)

lemma utxo_total_cong: "wl_allTx w = wl_allTx w' \<Longrightarrow> utxo_total w = utxo_total w'"
  by (rule ext) (simp add: utxo_total_def utxo_amount_def [abs_def] utxo_output_cong [of w w'])

lemma utxo_total_append [simp]: "utxo_total w (us @ vs) = utxo_total w us + utxo_total w vs"
  by (simp add: utxo_total_def)

lemma utxo_total_Nil [simp]: "utxo_total w [] = 0"
  by (simp add: utxo_total_def)

lemma utxo_total_Cons [simp]: "utxo_total w (u # us) = utxo_amount w u + utxo_total w us"
  by (simp add: utxo_total_def)

lemma utxo_total_filter:
  "utxo_total w (filter P us) = utxo_total w us - utxo_total w (filter (\<lambda>u. \<not> P u) us)"
  by (induction us) simp_all

section \<open>Adding the outputs of a transaction\<close>

text \<open>The wallet's own outputs among those of a transaction.\<close>

fun own_utxos :: "u8 list set \<Rightarrow> UInt256 \<Rightarrow> nat \<Rightarrow> BRTxOutput list \<Rightarrow> BRUTXO list" where
  "own_utxos A h j [] = []"
| "own_utxos A h j (out # outs) =
     (if out_address out \<noteq> [] \<and> out_address out \<in> A
      then \<lparr>utxo_hash = h, utxo_n = word_of_nat j\<rparr> # own_utxos A h (j + 1) outs
      else own_utxos A h (j + 1) outs)"

fun own_total :: "u8 list set \<Rightarrow> BRTxOutput list \<Rightarrow> u64" where
  "own_total A [] = 0"
| "own_total A (out # outs) =
     (if out_address out \<noteq> [] \<and> out_address out \<in> A then out_amount out else 0) + own_total A outs"

definition used_by :: "BRTransaction \<Rightarrow> u8 list set" where
  "used_by tx = {a \<in> out_address ` set (tx_outputs tx). a \<noteq> []}"

lemma add_outputs_eq:
  "add_outputs h j outs (w, b) =
     (w\<lparr>wl_usedAddrs := wl_usedAddrs w \<union> {a \<in> out_address ` set outs. a \<noteq> []},
        wl_utxos := wl_utxos w @ own_utxos (wl_allAddrs w) h j outs\<rparr>, b + own_total (wl_allAddrs w) outs)"
proof (induction outs arbitrary: j w b)
  case (Cons out outs)
  have 1: "{a \<in> out_address ` set (out # outs). a \<noteq> []} =
      (if out_address out \<noteq> [] then insert (out_address out) {a \<in> out_address ` set outs. a \<noteq> []}
       else {a \<in> out_address ` set outs. a \<noteq> []})" by auto
  show ?case unfolding 1 by (simp add: Cons.IH Let_def add.assoc)
qed simp

lemma own_utxos_iff:
  assumes "j + length outs < 2 ^ 32"
  shows "u \<in> set (own_utxos A h j outs) \<longleftrightarrow> utxo_hash u = h \<and> j \<le> unat (utxo_n u) \<and>
    (\<exists>out. nth_opt outs (unat (utxo_n u) - j) = Some out \<and> out_address out \<noteq> [] \<and> out_address out \<in> A)"
  using assms
proof (induction outs arbitrary: j)
  case (Cons out outs)
  have n: "utxo_n u = word_of_nat j \<longleftrightarrow> unat (utxo_n u) = j"
    using Cons.prems by (auto simp: unat_of_nat)
  have u: "u = \<lparr>utxo_hash = h, utxo_n = word_of_nat j\<rparr> \<longleftrightarrow> utxo_hash u = h \<and> unat (utxo_n u) = j"
    using n by (cases u) simp
  have IH: "u \<in> set (own_utxos A h (Suc j) outs) \<longleftrightarrow> utxo_hash u = h \<and> Suc j \<le> unat (utxo_n u) \<and>
    (\<exists>out. nth_opt outs (unat (utxo_n u) - Suc j) = Some out \<and> out_address out \<noteq> [] \<and> out_address out \<in> A)"
    by (rule Cons.IH) (use Cons.prems in simp)
  have n0: "nth_opt (out # outs) (k - j) = (if k = j then Some out else nth_opt outs (k - Suc j))"
    if "j \<le> k" for k using that by (auto simp: nth_opt_def nth_Cons' Suc_diff_Suc)
  show ?case
    by (cases "j \<le> unat (utxo_n u)") (auto simp: IH u n0)
qed (simp add: nth_opt_def)

lemma own_utxos_distinct:
  "j + length outs < 2 ^ 32 \<Longrightarrow> distinct (own_utxos A h j outs)"
proof (induction outs arbitrary: j)
  case (Cons out outs)
  have "\<lparr>utxo_hash = h, utxo_n = word_of_nat j\<rparr> \<notin> set (own_utxos A h (j + 1) outs)"
    using Cons.prems own_utxos_iff [of "j + 1" outs "\<lparr>utxo_hash = h, utxo_n = word_of_nat j\<rparr>" A h]
    by (simp add: unat_of_nat)
  then show ?case using Cons.IH [of "j + 1"] Cons.prems by simp
qed simp

lemma own_utxos_total:
  assumes "wl_allTx w h = Some tx" "length (tx_outputs tx) < 2 ^ 32"
  shows "drop j (tx_outputs tx) = outs \<Longrightarrow> j + length outs \<le> length (tx_outputs tx) \<Longrightarrow>
    utxo_total w (own_utxos A h j outs) = own_total A outs"
proof (induction outs arbitrary: j)
  case (Cons out outs)
  have j: "j < length (tx_outputs tx)" using Cons.prems by (cases "j < length (tx_outputs tx)") auto
  have d: "drop (j + 1) (tx_outputs tx) = outs" and o: "tx_outputs tx ! j = out"
    using Cons.prems(1) Cons_nth_drop_Suc [OF j] by auto
  have "unat (word_of_nat j :: u32) = j" using j assms(2) by (simp add: unat_of_nat)
  then have "utxo_amount w \<lparr>utxo_hash = h, utxo_n = word_of_nat j\<rparr> = out_amount out"
    using assms(1) j o by (simp add: utxo_amount_def utxo_output_def nth_opt_def)
  then show ?case using Cons.IH [OF d] Cons.prems(2) by simp
qed simp

section \<open>Removing the spent outputs\<close>

lemma rm_at_append: "length xs = i \<Longrightarrow> rm_at (xs @ x # ys) i = xs @ ys"
  by (simp add: rm_at_def)

lemma prune_utxos_eq:
  assumes "\<forall>u\<in>set us. utxo_output w u \<noteq> None" "wl_utxos w = us @ vs"
  shows "prune_utxos (length us) (w, b) =
    Some (w\<lparr>wl_utxos := filter (\<lambda>u. u \<notin> wl_spentOutputs w) us @ vs\<rparr>,
          b - utxo_total w (filter (\<lambda>u. u \<in> wl_spentOutputs w) us))"
  using assms
proof (induction us arbitrary: w vs b rule: rev_induct)
  case Nil then show ?case by simp
next
  case (snoc u us)
  have u: "wl_utxos w ! length us = u" using snoc.prems by simp
  show ?case
  proof (cases "u \<in> wl_spentOutputs w")
    case False
    then show ?thesis using snoc.IH [of w "u # vs" b] snoc.prems u by simp
  next
    case True
    obtain out where o: "utxo_output w u = Some out" using snoc.prems(1) by auto
    then obtain t where t: "wl_allTx w (utxo_hash u) = Some t" "nth_opt (tx_outputs t) (unat (utxo_n u)) = Some out"
      by (auto simp: utxo_output_def bind_eq_Some_conv)
    define w' where "w' = w\<lparr>wl_utxos := us @ vs\<rparr>"
    have w': "wl_allTx w' = wl_allTx w" "wl_spentOutputs w' = wl_spentOutputs w" "wl_utxos w' = us @ vs"
      by (simp_all add: w'_def)
    have "prune_utxos (length us) (w', b - out_amount out) =
      Some (w'\<lparr>wl_utxos := filter (\<lambda>u. u \<notin> wl_spentOutputs w) us @ vs\<rparr>,
        b - out_amount out - utxo_total w (filter (\<lambda>u. u \<in> wl_spentOutputs w) us))"
      using snoc.IH [of w' vs "b - out_amount out"] snoc.prems(1)
      by (simp add: w' utxo_output_cong [OF w'(1)] utxo_total_cong [OF w'(1)])
    then show ?thesis
      using True t u snoc.prems(2) o by (simp add: w'_def rm_at_append utxo_amount_def algebra_simps)
  qed
qed
section \<open>The loop over the transactions\<close>

definition tx_of :: "BRWallet \<Rightarrow> UInt256 \<Rightarrow> BRTransaction" where
  "tx_of w h = the (wl_allTx w h)"

definition inputs_of :: "BRWallet \<Rightarrow> UInt256 \<Rightarrow> BRUTXO set" where
  "inputs_of w h = utxo_of ` set (tx_inputs (tx_of w h))"

definition parents_of :: "BRWallet \<Rightarrow> UInt256 \<Rightarrow> UInt256 set" where
  "parents_of w h = in_txHash ` set (tx_inputs (tx_of w h))"

definition unconfirmed :: "BRWallet \<Rightarrow> UInt256 \<Rightarrow> bool" where
  "unconfirmed w h \<longleftrightarrow> tx_blockHeight (tx_of w h) = TX_UNCONFIRMED"

text \<open>What makes an unconfirmed transaction pending by itself: its size, its outputs and its lock time.\<close>

definition postponed :: "BRWallet \<Rightarrow> int \<Rightarrow> UInt256 \<Rightarrow> bool" where
  "postponed w now h \<longleftrightarrow>
     (let tx = tx_of w h in BRTransactionSize tx > TX_MAX_SIZE \<or>
      list_ex (\<lambda>out. out_amount out < TX_MIN_OUTPUT_AMOUNT) (tx_outputs tx) \<or>
      list_ex (input_postdated (wl_blockHeight w) now tx) (tx_inputs tx))"

text \<open>The unspent output exists and pays to an address of the wallet.\<close>

definition own_output :: "BRWallet \<Rightarrow> BRUTXO \<Rightarrow> bool" where
  "own_output w u \<longleftrightarrow>
     (\<exists>out. utxo_output w u = Some out \<and> out_address out \<noteq> [] \<and> out_address out \<in> wl_allAddrs w)"

definition spent_by :: "BRWallet \<Rightarrow> UInt256 set \<Rightarrow> BRUTXO set" where
  "spent_by w H = (\<Union>h\<in>H. inputs_of w h)"

text \<open>The part of the wallet that the recomputation reads and does not write.\<close>

definition same_base :: "BRWallet \<Rightarrow> BRWallet \<Rightarrow> bool" where
  "same_base v w \<longleftrightarrow> wl_allTx w = wl_allTx v \<and> wl_transactions w = wl_transactions v \<and> wl_allAddrs w = wl_allAddrs v \<and>
     wl_internalChain w = wl_internalChain v \<and> wl_externalChain w = wl_externalChain v \<and>
     wl_feePerKb w = wl_feePerKb v \<and> wl_blockHeight w = wl_blockHeight v \<and> wl_events w = wl_events v"

lemma same_base_refl: "same_base v v"
  by (simp add: same_base_def)

text \<open>The classification of a transaction \<open>h\<close> after the transactions \<open>hs\<close>.\<close>

definition is_invalid :: "BRWallet \<Rightarrow> UInt256 set \<Rightarrow> UInt256 list \<Rightarrow> UInt256 \<Rightarrow> bool" where
  "is_invalid w I hs h \<longleftrightarrow> unconfirmed w h \<and>
     (inputs_of w h \<inter> spent_by w (set hs - I) \<noteq> {} \<or> parents_of w h \<inter> I \<inter> set hs \<noteq> {})"

definition is_pending :: "BRWallet \<Rightarrow> int \<Rightarrow> UInt256 set \<Rightarrow> UInt256 list \<Rightarrow> UInt256 \<Rightarrow> bool" where
  "is_pending w now P hs h \<longleftrightarrow> unconfirmed w h \<and> (postponed w now h \<or> parents_of w h \<inter> P \<inter> set hs \<noteq> {})"

definition statuses :: "BRWallet \<Rightarrow> int \<Rightarrow> UInt256 set \<Rightarrow> UInt256 set \<Rightarrow> UInt256 list \<Rightarrow> bool" where
  "statuses w now I P hs \<longleftrightarrow> I \<union> P \<subseteq> set hs \<and> I \<inter> P = {} \<and>
     (\<forall>ys h zs. hs = ys @ h # zs \<longrightarrow>
        (h \<in> I \<longleftrightarrow> is_invalid w I ys h) \<and> (h \<in> P \<longleftrightarrow> h \<notin> I \<and> is_pending w now P ys h))"

lemma statuses_cong:
  assumes "I \<inter> set ys = J \<inter> set ys" "P \<inter> set ys = Q \<inter> set ys"
  shows "is_invalid w I ys h = is_invalid w J ys h" "is_pending w now P ys h = is_pending w now Q ys h"
proof -
  have "set ys - I = set ys - J" using assms(1) by blast
  then show "is_invalid w I ys h = is_invalid w J ys h"
    unfolding is_invalid_def Int_assoc assms(1) by simp
  show "is_pending w now P ys h = is_pending w now Q ys h"
    unfolding is_pending_def Int_assoc assms(2) by simp
qed

lemma statuses_snoc:
  assumes s: "statuses w now I P hs" and h: "h \<notin> set hs"
    and IJ: "J = (if is_invalid w I hs h then insert h I else I)"
    and PQ: "Q = (if \<not> is_invalid w I hs h \<and> is_pending w now P hs h then insert h P else P)"
  shows "statuses w now J Q (hs @ [h])"
  unfolding statuses_def
proof (intro conjI allI impI)
  have sub: "I \<union> P \<subseteq> set hs" "I \<inter> P = {}" using s by (simp_all add: statuses_def)
  show "J \<union> Q \<subseteq> set (hs @ [h])" using sub by (auto simp: IJ PQ)
  show "J \<inter> Q = {}" using sub h by (auto simp: IJ PQ)
  fix ys k zs assume e: "hs @ [h] = ys @ k # zs"
  have c: "I \<inter> set hs = J \<inter> set hs" "P \<inter> set hs = Q \<inter> set hs" using h by (auto simp: IJ PQ)
  have "(k \<in> J \<longleftrightarrow> is_invalid w J ys k) \<and> (k \<in> Q \<longleftrightarrow> k \<notin> J \<and> is_pending w now Q ys k)"
  proof (cases zs rule: rev_cases)
    case Nil
    then have "ys = hs" "k = h" using e by simp_all
    then show ?thesis using statuses_cong(1) [OF c, of w h] statuses_cong(2) [OF c, of w now h] h sub by (auto simp: IJ PQ)
  next
    case (snoc zs' z)
    then have hs: "hs = ys @ k # zs'" "z = h" using e by simp_all
    have k: "k \<noteq> h" using h hs by auto
    have "(k \<in> I \<longleftrightarrow> is_invalid w I ys k) \<and> (k \<in> P \<longleftrightarrow> k \<notin> I \<and> is_pending w now P ys k)"
      using s hs(1) unfolding statuses_def by blast
    moreover have m: "I \<inter> set ys = J \<inter> set ys" "P \<inter> set ys = Q \<inter> set ys"
      using h hs(1) by (auto simp: IJ PQ)
    moreover have "k \<in> J \<longleftrightarrow> k \<in> I" "k \<in> Q \<longleftrightarrow> k \<in> P" using k by (simp_all add: IJ PQ)
    ultimately show ?thesis
      by (simp only: statuses_cong(1) [OF m, of w k] statuses_cong(2) [OF m, of w now k])
  qed
  then show "k \<in> J \<longleftrightarrow> is_invalid w J ys k" "k \<in> Q \<longleftrightarrow> k \<notin> J \<and> is_pending w now Q ys k" by blast+
qed
text \<open>The invariant of the loop after the transactions \<open>hs\<close>; \<open>v\<close> is the wallet before.\<close>

definition accepted_in :: "BRWallet \<Rightarrow> UInt256 list \<Rightarrow> UInt256 set" where
  "accepted_in w hs = set hs - wl_invalidTx w - wl_pendingTx w"

definition utxos_ok :: "BRWallet \<Rightarrow> UInt256 set \<Rightarrow> BRUTXO set \<Rightarrow> BRUTXO list \<Rightarrow> bool" where
  "utxos_ok v acc spent us \<longleftrightarrow> distinct us \<and>
     (\<forall>u\<in>set us. own_output v u \<and> utxo_hash u \<in> acc \<and> u \<notin> spent_by v acc) \<and>
     (\<forall>u. own_output v u \<and> utxo_hash u \<in> acc \<and> u \<notin> spent \<longrightarrow> u \<in> set us)"

definition bal_inv :: "BRWallet \<Rightarrow> int \<Rightarrow> UInt256 list \<Rightarrow> BRWallet \<times> u64 \<times> u64 \<Rightarrow> bool" where
  "bal_inv v now hs s \<longleftrightarrow>
     (case s of (w, b, p) \<Rightarrow>
        same_base v w \<and> statuses v now (wl_invalidTx w) (wl_pendingTx w) hs \<and>
        wl_spentOutputs w = spent_by v (set hs - wl_invalidTx w) \<and>
        wl_usedAddrs w = (\<Union>h\<in>accepted_in w hs. used_by (tx_of v h)) \<and>
        utxos_ok v (accepted_in w hs) (wl_spentOutputs w) (wl_utxos w) \<and>
        b = utxo_total v (wl_utxos w) \<and> p = b \<and> wl_totalReceived w - wl_totalSent w = b \<and>
        length (wl_balanceHist w) = length hs \<and> (hs \<noteq> [] \<longrightarrow> last (wl_balanceHist w) = b))"

lemma list_ex_image: "list_ex P xs \<longleftrightarrow> (\<exists>x\<in>set xs. P x)"
  by (simp add: list_ex_iff)

lemma foldl_insert: "foldl (\<lambda>s i. insert (f i) s) S xs = S \<union> f ` set xs"
  by (induction xs arbitrary: S) auto

lemma tx_status_eq:
  assumes b: "same_base v w" and s: "statuses v now (wl_invalidTx w) (wl_pendingTx w) hs"
    and sp: "wl_spentOutputs w = spent_by v (set hs - wl_invalidTx w)" and tx: "wl_allTx w h = Some tx"
  shows "tx_invalid w tx = is_invalid v (wl_invalidTx w) hs h"
    "tx_pending (w\<lparr>wl_spentOutputs := S\<rparr>) now tx = is_pending v now (wl_pendingTx w) hs h"
proof -
  have t: "tx_of v h = tx" using b tx by (simp add: tx_of_def same_base_def)
  have "wl_invalidTx w \<subseteq> set hs" "wl_pendingTx w \<subseteq> set hs" using s by (simp_all add: statuses_def)
  then have i: "x \<in> wl_invalidTx w \<Longrightarrow> x \<in> set hs" "x \<in> wl_pendingTx w \<Longrightarrow> x \<in> set hs" for x by blast+
  show "tx_invalid w tx = is_invalid v (wl_invalidTx w) hs h"
    unfolding tx_invalid_def is_invalid_def sp unconfirmed_def inputs_of_def parents_of_def t list_ex_image
    using i(1) by fastforce
  have "wl_blockHeight w = wl_blockHeight v" using b by (simp add: same_base_def)
  then show "tx_pending (w\<lparr>wl_spentOutputs := S\<rparr>) now tx = is_pending v now (wl_pendingTx w) hs h"
    unfolding tx_pending_def is_pending_def postponed_def unconfirmed_def parents_of_def t list_ex_image
    using i(2) by (fastforce simp: Let_def list_ex_image)
qed

lemma utxos_ok_add:
  assumes st: "wallet_store v" and tx: "wl_allTx v h = Some tx" and h: "h \<notin> acc"
    and ok: "utxos_ok v acc spent us" and acc: "spent_by v acc \<subseteq> spent" "acc' = insert h acc"
    and S: "S = spent \<union> inputs_of v h"
  shows "utxos_ok v acc' S (filter (\<lambda>u. u \<notin> S) (us @ own_utxos (wl_allAddrs v) h 0 (tx_outputs tx)))"
proof -
  have len: "0 + length (tx_outputs tx) < 2 ^ 32" using wallet_storeD(2) [OF st tx] by simp
  have out: "utxo_output v u = nth_opt (tx_outputs tx) (unat (utxo_n u))" if "utxo_hash u = h" for u
    using that tx by (simp add: utxo_output_def)
  have new: "u \<in> set (own_utxos (wl_allAddrs v) h 0 (tx_outputs tx)) \<longleftrightarrow> utxo_hash u = h \<and> own_output v u" for u
    unfolding own_utxos_iff [OF len] own_output_def by (cases "utxo_hash u = h") (simp_all add: out)
  have us: "own_output v u \<and> utxo_hash u \<in> acc" if "u \<in> set us" for u
    using ok that unfolding utxos_ok_def by blast
  have old: "u \<in> set us" if "own_output v u" "utxo_hash u \<in> acc" "u \<notin> spent" for u
    using ok that unfolding utxos_ok_def by blast
  have "spent_by v acc' \<subseteq> S" using acc S by (auto simp: spent_by_def)
  moreover have "distinct us" using ok by (simp add: utxos_ok_def)
  moreover have "set us \<inter> set (own_utxos (wl_allAddrs v) h 0 (tx_outputs tx)) = {}" using us h new by auto
  ultimately show ?thesis
    unfolding utxos_ok_def using us new old own_utxos_distinct [OF len] acc(2) S
    by (auto simp del: own_utxos.simps)
qed
lemma balance_step_accept:
  assumes tx: "wl_allTx w h = Some tx" "tx_txHash tx = h" and inv: "\<not> tx_invalid w tx"
    and S: "S = wl_spentOutputs w \<union> utxo_of ` set (tx_inputs tx)"
    and pend: "\<not> tx_pending (w\<lparr>wl_spentOutputs := S\<rparr>) now tx"
    and len: "length (tx_outputs tx) < 2 ^ 32"
    and res: "\<forall>u\<in>set (wl_utxos w). utxo_output w u \<noteq> None"
    and us: "us = wl_utxos w @ own_utxos (wl_allAddrs w) h 0 (tx_outputs tx)"
    and b: "b = utxo_total w (wl_utxos w)" "b' = utxo_total w (filter (\<lambda>u. u \<notin> S) us)"
  shows "\<exists>sent received. balance_step now h (w, b, p) =
    Some (w\<lparr>wl_spentOutputs := S, wl_usedAddrs := wl_usedAddrs w \<union> used_by tx,
            wl_utxos := filter (\<lambda>u. u \<notin> S) us, wl_totalReceived := received, wl_totalSent := sent,
            wl_balanceHist := wl_balanceHist w @ [b']\<rparr>, b', b') \<and>
    received - sent = wl_totalReceived w - wl_totalSent w + (b' - p)"
proof -
  define w1 where "w1 = w\<lparr>wl_spentOutputs := S, wl_usedAddrs := wl_usedAddrs w \<union> used_by tx, wl_utxos := us\<rparr>"
  have w1: "wl_allTx w1 = wl_allTx w" "wl_spentOutputs w1 = S" "wl_utxos w1 = us @ []" by (simp_all add: w1_def)
  have add: "add_outputs (tx_txHash tx) 0 (tx_outputs tx) (w\<lparr>wl_spentOutputs := S\<rparr>, b) =
    (w1, b + own_total (wl_allAddrs w) (tx_outputs tx))"
    by (simp add: add_outputs_eq w1_def us tx(2) used_by_def)
  have new: "utxo_output w u \<noteq> None" if "u \<in> set (own_utxos (wl_allAddrs w) h 0 (tx_outputs tx))" for u
    using that len tx(1) by (auto simp: own_utxos_iff utxo_output_def)
  have r: "\<forall>u\<in>set us. utxo_output w1 u \<noteq> None"
    using res new by (auto simp: us utxo_output_cong [OF w1(1)])
  have tot: "b + own_total (wl_allAddrs w) (tx_outputs tx) = utxo_total w us"
    using own_utxos_total [OF tx(1) len, of 0 "tx_outputs tx" "wl_allAddrs w"] by (simp add: b(1) us)
  have pr: "prune_utxos (length us) (w1, utxo_total w us) = Some (w1\<lparr>wl_utxos := filter (\<lambda>u. u \<notin> S) us\<rparr>, b')"
    using prune_utxos_eq [OF r w1(3), of "utxo_total w us"] utxo_total_filter [of w "\<lambda>u. u \<notin> S" us]
    by (simp add: w1 utxo_total_cong [OF w1(1)] b(2))
  have fo: "foldl (\<lambda>s i. insert (utxo_of i) s) (wl_spentOutputs w) (tx_inputs tx) = S"
    by (simp add: foldl_insert S)
  have l: "length (wl_utxos w1) = length us" by (simp add: w1_def)
  show ?thesis
    unfolding balance_step_def prod.case tx(1) bind.bind_lunit Let_def fo if_not_P [OF inv] if_not_P [OF pend]
      add l tot pr
    by (rule exI [of _ "if b' < p then wl_totalSent w + (p - b') else wl_totalSent w"],
        rule exI [of _ "if p < b' then wl_totalReceived w + (b' - p) else wl_totalReceived w"],
        cases w, cases "p < b'"; cases "b' < p") (simp_all add: w1_def)
qed

lemma utxos_ok_mono:
  "utxos_ok v acc spent us \<Longrightarrow> spent \<subseteq> spent' \<Longrightarrow> utxos_ok v acc spent' us"
  unfolding utxos_ok_def by blast

lemma bal_invI:
  assumes "same_base v w" "statuses v now (wl_invalidTx w) (wl_pendingTx w) hs"
    "wl_spentOutputs w = spent_by v (set hs - wl_invalidTx w)"
    "wl_usedAddrs w = (\<Union>h\<in>accepted_in w hs. used_by (tx_of v h))"
    "utxos_ok v (accepted_in w hs) (wl_spentOutputs w) (wl_utxos w)"
    "b = utxo_total v (wl_utxos w)" "p = b" "wl_totalReceived w - wl_totalSent w = b"
    "length (wl_balanceHist w) = length hs" "hs \<noteq> [] \<Longrightarrow> last (wl_balanceHist w) = b"
  shows "bal_inv v now hs (w, b, p)"
  unfolding bal_inv_def prod.case by (intro conjI impI assms)

lemma balance_step_inv:
  assumes st: "wallet_store v" and h: "h \<in> set (wl_transactions v)" "h \<notin> set hs"
    and inv: "bal_inv v now hs s"
  shows "\<exists>s'. balance_step now h s = Some s' \<and> bal_inv v now (hs @ [h]) s'"
proof -
  obtain w b p where s: "s = (w, b, p)" by (cases s)
  note i = inv [unfolded bal_inv_def s prod.case]
  have base: "same_base v w" and sts: "statuses v now (wl_invalidTx w) (wl_pendingTx w) hs"
    and sp: "wl_spentOutputs w = spent_by v (set hs - wl_invalidTx w)"
    and ok: "utxos_ok v (accepted_in w hs) (wl_spentOutputs w) (wl_utxos w)" using i by blast+
  have vw: "wl_allTx w = wl_allTx v" "wl_allAddrs w = wl_allAddrs v" using base by (simp_all add: same_base_def)
  obtain tx where txv: "wl_allTx v h = Some tx" using wallet_storeD(3) [OF st h(1)] by blast
  then have tx: "wl_allTx w h = Some tx" by (simp add: vw)
  have hash: "tx_txHash tx = h" by (rule wallet_storeD(1) [OF st txv])
  have t: "tx_of v h = tx" by (simp add: tx_of_def txv)
  have sub: "wl_invalidTx w \<subseteq> set hs" "wl_pendingTx w \<subseteq> set hs" using sts by (simp_all add: statuses_def)
  define S where "S = wl_spentOutputs w \<union> utxo_of ` set (tx_inputs tx)"
  have SI: "S = wl_spentOutputs w \<union> inputs_of v h" by (simp add: S_def inputs_of_def t)
  note eq = tx_status_eq [OF base sts sp tx]
  have used: "wl_usedAddrs w = (\<Union>h\<in>accepted_in w hs. used_by (tx_of v h))"
    and len: "length (wl_balanceHist w) = length hs"
    and b: "b = utxo_total v (wl_utxos w)" "p = b" "wl_totalReceived w - wl_totalSent w = b" using i by blast+
  show ?thesis
  proof (cases "tx_invalid w tx")
    case True
    define w' where "w' = w\<lparr>wl_invalidTx := insert h (wl_invalidTx w), wl_balanceHist := wl_balanceHist w @ [b]\<rparr>"
    have st': "balance_step now h s = Some (w', b, p)"
      using True by (simp add: balance_step_def s tx w'_def hash)
    have sts': "statuses v now (wl_invalidTx w') (wl_pendingTx w') (hs @ [h])"
      by (rule statuses_snoc [OF sts h(2)]) (use True eq(1) in \<open>simp_all add: w'_def\<close>)
    have acc: "accepted_in w' (hs @ [h]) = accepted_in w hs" "set (hs @ [h]) - wl_invalidTx w' = set hs - wl_invalidTx w"
      using h(2) by (auto simp: accepted_in_def w'_def)
    have "bal_inv v now (hs @ [h]) (w', b, p)"
      by (rule bal_invI [OF _ sts'], unfold acc) (use base used len b sp ok in \<open>simp_all add: w'_def same_base_def\<close>)
    then show ?thesis using st' by blast
  next
    case inv: False
    have fo: "foldl (\<lambda>s i. insert (utxo_of i) s) (wl_spentOutputs w) (tx_inputs tx) = S"
      by (simp add: foldl_insert S_def)
    show ?thesis
    proof (cases "tx_pending (w\<lparr>wl_spentOutputs := S\<rparr>) now tx")
      case True
      define w' where "w' = w\<lparr>wl_spentOutputs := S, wl_pendingTx := insert h (wl_pendingTx w),
        wl_balanceHist := wl_balanceHist w @ [b]\<rparr>"
      have st': "balance_step now h s = Some (w', b, p)"
        using True inv by (simp add: balance_step_def s tx w'_def hash fo)
      have sts': "statuses v now (wl_invalidTx w') (wl_pendingTx w') (hs @ [h])"
        by (rule statuses_snoc [OF sts h(2)]) (use True inv eq in \<open>simp_all add: w'_def\<close>)
      have acc: "accepted_in w' (hs @ [h]) = accepted_in w hs"
        using h(2) by (auto simp: accepted_in_def w'_def)
      have sp': "wl_spentOutputs w' = spent_by v (set (hs @ [h]) - wl_invalidTx w')"
        using h(2) sub by (auto simp: SI sp spent_by_def w'_def)
      have ok': "utxos_ok v (accepted_in w hs) (wl_spentOutputs w') (wl_utxos w)"
        by (rule utxos_ok_mono [OF ok]) (simp add: S_def w'_def)
      have "bal_inv v now (hs @ [h]) (w', b, p)"
        by (rule bal_invI [OF _ sts' sp' _ _ _ b(2)], unfold acc, insert ok')
          (use base used len b(1,3) in \<open>simp_all add: w'_def same_base_def\<close>)
      then show ?thesis using st' by blast
    next
      case pend: False
      define us where "us = wl_utxos w @ own_utxos (wl_allAddrs w) h 0 (tx_outputs tx)"
      define b' where "b' = utxo_total w (filter (\<lambda>u. u \<notin> S) us)"
      have res: "\<forall>u\<in>set (wl_utxos w). utxo_output w u \<noteq> None"
      proof
        fix u assume "u \<in> set (wl_utxos w)"
        then have "own_output v u" using ok unfolding utxos_ok_def by blast
        then show "utxo_output w u \<noteq> None" unfolding own_output_def utxo_output_cong [OF vw(1)] by force
      qed
      have bw: "b = utxo_total w (wl_utxos w)" by (simp add: utxo_total_cong [OF vw(1)] b(1))
      obtain sent received where st': "balance_step now h (w, b, p) =
          Some (w\<lparr>wl_spentOutputs := S, wl_usedAddrs := wl_usedAddrs w \<union> used_by tx,
            wl_utxos := filter (\<lambda>u. u \<notin> S) us, wl_totalReceived := received, wl_totalSent := sent,
            wl_balanceHist := wl_balanceHist w @ [b']\<rparr>, b', b')"
        and rs: "received - sent = wl_totalReceived w - wl_totalSent w + (b' - p)"
        using balance_step_accept [OF tx hash inv S_def pend wallet_storeD(2) [OF st txv] res us_def bw b'_def, of p]
        by blast
      define w' where "w' = w\<lparr>wl_spentOutputs := S, wl_usedAddrs := wl_usedAddrs w \<union> used_by tx,
            wl_utxos := filter (\<lambda>u. u \<notin> S) us, wl_totalReceived := received, wl_totalSent := sent,
            wl_balanceHist := wl_balanceHist w @ [b']\<rparr>"
      have acc: "accepted_in w' (hs @ [h]) = insert h (accepted_in w hs)"
        using h(2) sub by (auto simp: accepted_in_def w'_def)
      have sts': "statuses v now (wl_invalidTx w') (wl_pendingTx w') (hs @ [h])"
        by (rule statuses_snoc [OF sts h(2)]) (use pend inv eq in \<open>simp_all add: w'_def\<close>)
      have sp': "wl_spentOutputs w' = spent_by v (set (hs @ [h]) - wl_invalidTx w')"
        using h(2) sub by (auto simp: SI sp spent_by_def w'_def)
      have "utxos_ok v (accepted_in w' (hs @ [h])) S (filter (\<lambda>u. u \<notin> S) us)"
        unfolding us_def vw(2)
        by (rule utxos_ok_add [OF st txv _ ok _ acc SI]) (use h(2) in \<open>auto simp: accepted_in_def sp spent_by_def\<close>)
      then have ok': "utxos_ok v (accepted_in w' (hs @ [h])) (wl_spentOutputs w') (wl_utxos w')" by (simp add: w'_def)
      have b': "b' = utxo_total v (wl_utxos w')" "wl_totalReceived w' - wl_totalSent w' = b'"
        using rs b(2,3) by (simp_all add: b'_def utxo_total_cong [OF vw(1)] w'_def)
      have used': "wl_usedAddrs w' = (\<Union>h\<in>accepted_in w' (hs @ [h]). used_by (tx_of v h))"
        unfolding acc using used t by (simp add: w'_def Un_commute)
      have "bal_inv v now (hs @ [h]) (w', b', b')"
        by (rule bal_invI [OF _ sts' sp' used' ok' b'(1) refl b'(2)]) (use base len in \<open>simp_all add: w'_def same_base_def\<close>)
      then show ?thesis using st' by (simp add: s w'_def)
    qed
  qed
qed
lemma fold_opt_append: "fold_opt f (xs @ ys) s = Option.bind (fold_opt f xs s) (fold_opt f ys)"
  by (induction xs arbitrary: s) (simp_all add: bind_eq_None_conv split: bind_splits)

lemma fold_opt_inv:
  assumes "\<And>ys x s. \<exists>zs. xs = ys @ x # zs \<Longrightarrow> I ys s \<Longrightarrow> \<exists>s'. f x s = Some s' \<and> I (ys @ [x]) s'" "I [] s"
  shows "\<exists>s'. fold_opt f xs s = Some s' \<and> I xs s'"
  using assms(1)
proof (induction xs rule: rev_induct)
  case Nil then show ?case using assms(2) by simp
next
  case (snoc x xs)
  have "\<exists>s'. f y s = Some s' \<and> I (ys @ [y]) s'" if "\<exists>zs. xs = ys @ y # zs" "I ys s" for ys y s
    by (rule snoc.prems [OF _ that(2)]) (use that(1) in auto)
  then obtain s' where s': "fold_opt f xs s = Some s'" "I xs s'" using snoc.IH by blast
  obtain s'' where "f x s' = Some s''" "I (xs @ [x]) s''" using snoc.prems [OF _ s'(2)] by blast
  then show ?case using s'(1) by (simp add: fold_opt_append)
qed

text \<open>The reset at the start of the recomputation.\<close>

definition balance_reset :: "BRWallet \<Rightarrow> BRWallet" where
  "balance_reset w = w\<lparr>wl_utxos := [], wl_balanceHist := [], wl_spentOutputs := {}, wl_invalidTx := {},
     wl_pendingTx := {}, wl_usedAddrs := {}, wl_totalSent := 0, wl_totalReceived := 0\<rparr>"

lemma bal_inv_start: "bal_inv v now [] (balance_reset v, 0, 0)"
  by (rule bal_invI)
    (simp_all add: balance_reset_def same_base_def statuses_def spent_by_def accepted_in_def utxos_ok_def)

lemma balance_loop:
  assumes "wallet_store v" "set hs \<subseteq> set (wl_transactions v)" "distinct hs"
  shows "\<exists>s. fold_opt (balance_step now) hs (balance_reset v, 0, 0) = Some s \<and> bal_inv v now hs s"
proof (rule fold_opt_inv [where I = "bal_inv v now", OF _ bal_inv_start])
  fix ys h s assume e: "\<exists>zs. hs = ys @ h # zs" and i: "bal_inv v now ys s"
  then have "h \<in> set (wl_transactions v)" "h \<notin> set ys" using assms(2,3) by auto
  then show "\<exists>s'. balance_step now h s = Some s' \<and> bal_inv v now (ys @ [h]) s'"
    by (rule balance_step_inv [OF assms(1) _ _ i])
qed

lemma bal_inv_balance: "bal_inv v now hs (w\<lparr>wl_balance := c\<rparr>, b, p) = bal_inv v now hs (w, b, p)"
  by (simp add: bal_inv_def same_base_def accepted_in_def)

lemma UpdateBalance_inv:
  assumes "wallet_store v"
  shows "\<exists>w. BRWalletUpdateBalance now v = Some w \<and> bal_inv v now (wl_transactions v) (w, wl_balance w, wl_balance w)"
proof -
  obtain w b p where s: "fold_opt (balance_step now) (wl_transactions v) (balance_reset v, 0, 0) = Some (w, b, p)"
    and i: "bal_inv v now (wl_transactions v) (w, b, p)"
    using balance_loop [OF assms order.refl wallet_storeD(4) [OF assms], of now] by (metis prod_cases3)
  have "length (wl_balanceHist w) = length (wl_transactions w)" "p = b"
    using i by (simp_all add: bal_inv_def same_base_def)
  then have "BRWalletUpdateBalance now v = Some (w\<lparr>wl_balance := b\<rparr>)"
    using s unfolding balance_reset_def BRWalletUpdateBalance_def by simp
  then show ?thesis using i \<open>p = b\<close> by (simp add: bal_inv_balance)
qed

lemma UpdateBalance_SomeD:
  assumes "wallet_store v" "BRWalletUpdateBalance now v = Some w"
  shows "bal_inv v now (wl_transactions v) (w, wl_balance w, wl_balance w)" "same_base v w"
proof -
  show 1: "bal_inv v now (wl_transactions v) (w, wl_balance w, wl_balance w)"
    using UpdateBalance_inv [OF assms(1), of now] assms(2) by auto
  then show "same_base v w" by (simp add: bal_inv_def)
qed

text \<open>The transactions that are neither invalid nor pending.\<close>

definition accepted_txs :: "BRWallet \<Rightarrow> UInt256 set" where
  "accepted_txs w = set (wl_transactions w) - wl_invalidTx w - wl_pendingTx w"

section \<open>Properties\<close>

text \<open>A small wallet: \<open>demo_tx\<close> is confirmed and pays 5000 and 7000 satoshi to two addresses, the second one
  of the wallet; \<open>demo_spend\<close> spends it, with a sequence number that allows its replacement.\<close>

definition demo_tx :: BRTransaction where
  "demo_tx = \<lparr>tx_txHash = 1, tx_version = 1,
     tx_inputs = [\<lparr>in_txHash = 9, in_index = 0, in_address = [], in_amount = 0, in_script = None,
       in_signature = Some [1], in_sequence = -1\<rparr>],
     tx_outputs = [\<lparr>out_address = [49], out_amount = 5000, out_script = Some [1]\<rparr>,
       \<lparr>out_address = [50], out_amount = 7000, out_script = Some [2]\<rparr>],
     tx_lockTime = 0, tx_blockHeight = 100, tx_timestamp = 0\<rparr>"

definition demo_spend :: BRTransaction where
  "demo_spend = \<lparr>tx_txHash = 2, tx_version = 1,
     tx_inputs = [\<lparr>in_txHash = 1, in_index = 1, in_address = [50], in_amount = 0, in_script = None,
       in_signature = Some [1], in_sequence = 0\<rparr>],
     tx_outputs = [\<lparr>out_address = [51], out_amount = 6000, out_script = Some [1]\<rparr>],
     tx_lockTime = 0, tx_blockHeight = TX_UNCONFIRMED, tx_timestamp = 0\<rparr>"

definition demo_wallet :: BRWallet where
  "demo_wallet = wallet_empty\<lparr>wl_transactions := [1, 2], wl_allTx := [1 \<mapsto> demo_tx, 2 \<mapsto> demo_spend],
     wl_externalChain := [[50]], wl_allAddrs := {[50]}\<rparr>"

lemma demo_store: "wallet_store demo_wallet"
  by (auto simp: wallet_store_def demo_wallet_def demo_tx_def demo_spend_def split: if_splits)

text \<open>C4: after its recomputation the wallet's balance is the total of its unspent outputs, and the difference
  of the totals received and sent; the recomputation has a result for every wallet. Each unspent output is
  listed once, exists, pays to an address of the wallet, and belongs to a registered transaction that is
  neither invalid nor pending; no such transaction spends it. Conversely every output of such a transaction
  to the wallet that no registered transaction spends is listed.\<close>

theorem UpdateBalance_correct:
  assumes "wallet_store v"
  shows "\<exists>w. BRWalletUpdateBalance now v = Some w \<and> same_base v w \<and>
    wl_balance w = utxo_total w (wl_utxos w) \<and> wl_balance w = wl_totalReceived w - wl_totalSent w \<and>
    distinct (wl_utxos w) \<and>
    (\<forall>u\<in>set (wl_utxos w). own_output w u \<and> utxo_hash u \<in> accepted_txs w \<and> u \<notin> spent_by w (accepted_txs w)) \<and>
    (\<forall>u. own_output w u \<and> utxo_hash u \<in> accepted_txs w \<and> u \<notin> wl_spentOutputs w \<longrightarrow> u \<in> set (wl_utxos w)) \<and>
    wl_spentOutputs w = spent_by w (set (wl_transactions w) - wl_invalidTx w) \<and>
    length (wl_balanceHist w) = length (wl_transactions w)"
proof -
  obtain w where w: "BRWalletUpdateBalance now v = Some w"
    and i: "bal_inv v now (wl_transactions v) (w, wl_balance w, wl_balance w)"
    using UpdateBalance_inv [OF assms] by blast
  have b: "same_base v w" using i by (simp add: bal_inv_def)
  then have e: "wl_allTx v = wl_allTx w" "wl_transactions v = wl_transactions w" "wl_allAddrs v = wl_allAddrs w"
    by (simp_all add: same_base_def)
  have f: "utxo_total v = utxo_total w" "own_output v = own_output w" "spent_by v = spent_by w"
    by (rule utxo_total_cong [OF e(1)])
      (simp_all add: fun_eq_iff own_output_def spent_by_def inputs_of_def tx_of_def e utxo_output_cong [OF e(1)])
  have a: "accepted_in w (wl_transactions w) = accepted_txs w" by (simp add: accepted_in_def accepted_txs_def)
  note j = i [unfolded bal_inv_def prod.case e(2) f a utxos_ok_def]
  show ?thesis
    by (rule exI [of _ w], intro conjI) (rule w | rule b | rule sym, use j in blast | use j in blast)+
qed
theorem UpdateBalance_correct_witness:
  "\<exists>w. BRWalletUpdateBalance 0 demo_wallet = Some w \<and> wl_balance w = utxo_total w (wl_utxos w)"
  using UpdateBalance_correct [OF demo_store, of 0] by blast

text \<open>C35: the classification of the registered transactions: an unconfirmed one is invalid exactly if it spends
  an output that an earlier transaction, itself not invalid, spends already, or one of an invalid transaction;
  it is pending if it is not invalid and its size, outputs or lock time postpone it or it depends on a pending
  one. So of two transactions that spend the same output, the later, when unconfirmed, never counts.\<close>

theorem UpdateBalance_statuses:
  assumes "wallet_store v" "BRWalletUpdateBalance now v = Some w" "wl_transactions v = ys @ h # zs"
  shows "(h \<in> wl_invalidTx w \<longleftrightarrow> is_invalid v (wl_invalidTx w) ys h) \<and>
    (h \<in> wl_pendingTx w \<longleftrightarrow> h \<notin> wl_invalidTx w \<and> is_pending v now (wl_pendingTx w) ys h) \<and>
    (unconfirmed v h \<and> h \<notin> wl_invalidTx w \<longrightarrow>
       (\<forall>k\<in>set ys - wl_invalidTx w. inputs_of v k \<inter> inputs_of v h = {}))"
proof -
  have s: "statuses v now (wl_invalidTx w) (wl_pendingTx w) (wl_transactions v)"
    using UpdateBalance_SomeD(1) [OF assms(1,2)] by (simp add: bal_inv_def)
  have 1: "h \<in> wl_invalidTx w \<longleftrightarrow> is_invalid v (wl_invalidTx w) ys h"
    "h \<in> wl_pendingTx w \<longleftrightarrow> h \<notin> wl_invalidTx w \<and> is_pending v now (wl_pendingTx w) ys h"
    using s assms(3) unfolding statuses_def by blast+
  moreover have "inputs_of v k \<inter> inputs_of v h = {}"
    if "unconfirmed v h" "h \<notin> wl_invalidTx w" "k \<in> set ys - wl_invalidTx w" for k
    using that 1(1) by (fastforce simp: is_invalid_def spent_by_def)
  ultimately show ?thesis by blast
qed

lemma demo_balance:
  assumes "BRWalletUpdateBalance 0 demo_wallet = Some w"
  shows "wl_invalidTx w = {}" "wl_pendingTx w = {2}"
proof -
  note s = UpdateBalance_SomeD(1) [OF demo_store assms, unfolded bal_inv_def prod.case statuses_def]
  have t: "wl_transactions demo_wallet = [] @ 1 # [2]" "wl_transactions demo_wallet = [1] @ 2 # []"
    by (simp_all add: demo_wallet_def)
  have x: "tx_of demo_wallet 1 = demo_tx" "tx_of demo_wallet 2 = demo_spend" by (simp_all add: tx_of_def demo_wallet_def)
  have sub: "wl_invalidTx w \<union> wl_pendingTx w \<subseteq> {1, 2}" using s by (simp add: demo_wallet_def)
  have c: "\<not> unconfirmed demo_wallet 1" by (simp add: unconfirmed_def x demo_tx_def TX_UNCONFIRMED_def)
  have p: "postponed demo_wallet 0 2" "unconfirmed demo_wallet 2"
    by (simp_all add: postponed_def x demo_spend_def Let_def input_postdated_def unconfirmed_def word_gt_0)
  have 1: "1 \<notin> wl_invalidTx w" "1 \<notin> wl_pendingTx w"
    using s t(1) c unfolding is_invalid_def is_pending_def by blast+
  have "inputs_of demo_wallet 2 \<inter> inputs_of demo_wallet 1 = {}"
    by (simp add: inputs_of_def x demo_tx_def demo_spend_def utxo_of_def)
  then have "\<not> is_invalid demo_wallet (wl_invalidTx w) [1] 2"
    using 1 by (auto simp: is_invalid_def spent_by_def)
  then have 2: "2 \<notin> wl_invalidTx w" "2 \<in> wl_pendingTx w"
    using s t(2) p unfolding is_pending_def by blast+
  show "wl_invalidTx w = {}" "wl_pendingTx w = {2}" using sub 1 2 by blast+
qed

theorem UpdateBalance_statuses_witness:
  "\<exists>w. BRWalletUpdateBalance 0 demo_wallet = Some w \<and>
    (2 \<in> wl_pendingTx w \<longleftrightarrow> 2 \<notin> wl_invalidTx w \<and> is_pending demo_wallet 0 (wl_pendingTx w) [1] 2)"
proof -
  obtain w where w: "BRWalletUpdateBalance 0 demo_wallet = Some w"
    using UpdateBalance_inv [OF demo_store] by blast
  have "wl_transactions demo_wallet = [1] @ 2 # []" by (simp add: demo_wallet_def)
  from UpdateBalance_statuses [OF demo_store w this] w show ?thesis by blast
qed

text \<open>An output that only a pending transaction of the wallet spends stays in the list of unspent outputs and
  in the balance, although it is in the set of spent ones: the check of the unspent outputs against the spent
  ones is skipped after a pending transaction. A transaction created next spends it a second time.\<close>

theorem pending_spend_stays_unspent:
  "\<exists>w. BRWalletUpdateBalance 0 demo_wallet = Some w \<and> wl_pendingTx w = {2} \<and>
    wl_utxos w = [\<lparr>utxo_hash = 1, utxo_n = 1\<rparr>] \<and> \<lparr>utxo_hash = 1, utxo_n = 1\<rparr> \<in> wl_spentOutputs w \<and>
    wl_balance w = 7000"
proof -
  have 1: "\<not> tx_invalid w demo_tx" "\<not> tx_pending w now demo_tx" for w now
    by (simp_all add: tx_invalid_def tx_pending_def demo_tx_def TX_UNCONFIRMED_def)
  have 2: "tx_pending w now demo_spend" for w now
    by (simp add: tx_pending_def demo_spend_def input_postdated_def word_gt_0)
  show ?thesis
    unfolding BRWalletUpdateBalance_def
    by (simp add: demo_wallet_def wallet_empty_def balance_step_def 1 2 tx_invalid_def,
        simp add: demo_tx_def demo_spend_def tx_invalid_def utxo_of_def Let_def numeral_2_eq_2
          2 [unfolded demo_spend_def])
qed

end
