(* ===== verification/WalletLaws.thy ===== *)
theory WalletLaws
  imports WalletBalance "HOL-Library.Multiset"
begin

text \<open>
  The order of the wallet's transactions and its address chains: termination of the comparison on an acyclic
  store, the insertion sort, the generation of addresses up to the gap limit, and the invariant of the wallet
  that registration, removal and update of transactions keep.
\<close>

section \<open>The order of transactions\<close>

text \<open>The transactions spend outputs of one another without a cycle: there is a rank that decreases from a
  transaction to those it spends.\<close>

definition ranked :: "(UInt256 \<Rightarrow> nat) \<Rightarrow> (UInt256 \<rightharpoonup> BRTransaction) \<Rightarrow> bool" where
  "ranked r allTx \<longleftrightarrow> (\<forall>h t i. allTx h = Some t \<longrightarrow> i \<in> set (tx_inputs t) \<longrightarrow> allTx (in_txHash i) \<noteq> None \<longrightarrow>
     r (in_txHash i) < r h)"

lemma any_opt_total:
  "\<forall>x\<in>set xs. \<exists>b. f x = Some b \<Longrightarrow> \<exists>b. any_opt f xs = Some b"
  by (induction xs) auto

lemma ascending_total:
  assumes r: "ranked r allTx"
  shows "allTx h = Some t \<Longrightarrow> \<exists>b. BRWalletTxIsAscending allTx (Some t) tx2 = Some b"
proof (induction "r h" arbitrary: h t rule: less_induct)
  case less
  have "\<exists>b. BRWalletTxIsAscending allTx (allTx (in_txHash i)) tx2 = Some b" if i: "i \<in> set (tx_inputs t)" for i
  proof (cases "allTx (in_txHash i)")
    case None then show ?thesis by (intro exI [of _ False]) (simp add: BRWalletTxIsAscending.simps)
  next
    case (Some u)
    then have "r (in_txHash i) < r h" using r less.prems i unfolding ranked_def by blast
    then show ?thesis using less.hyps Some by simp
  qed
  then have "\<exists>b. any_opt (\<lambda>i. BRWalletTxIsAscending allTx (allTx (in_txHash i)) tx2) (tx_inputs t) = Some b"
    by (intro any_opt_total) blast
  then show ?case by (subst BRWalletTxIsAscending.simps) (simp add: ex_bool_eq)
qed

lemma compare_total:
  assumes "ranked r (wl_allTx w)" "wl_allTx w h = Some t" "wl_allTx w k = Some u"
  shows "\<exists>c. BRWalletTxCompare w t u = Some c"
proof -
  obtain a b where "BRWalletTxIsAscending (wl_allTx w) (Some t) u = Some a"
    "BRWalletTxIsAscending (wl_allTx w) (Some u) t = Some b"
    using ascending_total [OF assms(1)] assms(2,3) by metis
  then show ?thesis by (simp add: BRWalletTxCompare_def Let_def)
qed

lemma compare_height:
  assumes "BRWalletTxCompare w t u = Some c"
  shows "tx_blockHeight t > tx_blockHeight u \<Longrightarrow> c > 0" "tx_blockHeight t < tx_blockHeight u \<Longrightarrow> c < 0"
proof -
  have a: "BRWalletTxIsAscending allTx (Some x) y = Some True" if "tx_blockHeight x > tx_blockHeight y" for allTx x y
    using that by (subst BRWalletTxIsAscending.simps) simp
  have n: "BRWalletTxIsAscending allTx (Some x) y = Some False" if "tx_blockHeight x < tx_blockHeight y" for allTx x y
    using that by (subst BRWalletTxIsAscending.simps) auto
  show "tx_blockHeight t > tx_blockHeight u \<Longrightarrow> c > 0" using assms by (simp add: BRWalletTxCompare_def a)
  show "tx_blockHeight t < tx_blockHeight u \<Longrightarrow> c < 0" using assms by (simp add: BRWalletTxCompare_def a n)
qed

definition height :: "BRWallet \<Rightarrow> UInt256 \<Rightarrow> u32" where
  "height w h = tx_blockHeight (tx_of w h)"

definition wallet_sorted :: "BRWallet \<Rightarrow> bool" where
  "wallet_sorted w \<longleftrightarrow> sorted (map (height w) (wl_transactions w))"

lemma insert_index_ok:
  assumes r: "ranked r (wl_allTx w)" and tx: "wl_allTx w k = Some tx"
    and sub: "set (wl_transactions w) \<subseteq> dom (wl_allTx w)"
  shows "n \<le> length (wl_transactions w) \<Longrightarrow> \<exists>i\<le>n. insert_index w tx n = Some i \<and>
    (\<forall>j. i \<le> j \<and> j < n \<longrightarrow> tx_blockHeight tx \<le> height w (wl_transactions w ! j)) \<and>
    (0 < i \<longrightarrow> height w (wl_transactions w ! (i - 1)) \<le> tx_blockHeight tx)"
proof (induction n)
  case (Suc n)
  have "wl_transactions w ! n \<in> set (wl_transactions w)" using Suc.prems by simp
  then obtain t where t: "wl_allTx w (wl_transactions w ! n) = Some t" using sub by blast
  obtain c where c: "BRWalletTxCompare w t tx = Some c" using compare_total [OF r t tx] by blast
  have h: "height w (wl_transactions w ! n) = tx_blockHeight t" by (simp add: height_def tx_of_def t)
  note ch = compare_height [OF c]
  show ?case
  proof (cases "c > 0")
    case True
    obtain i where i: "i \<le> n" "insert_index w tx n = Some i"
      "\<forall>j. i \<le> j \<and> j < n \<longrightarrow> tx_blockHeight tx \<le> height w (wl_transactions w ! j)"
      "0 < i \<longrightarrow> height w (wl_transactions w ! (i - 1)) \<le> tx_blockHeight tx" using Suc by auto
    have "tx_blockHeight tx \<le> tx_blockHeight t" using ch(2) True by (cases "tx_blockHeight t < tx_blockHeight tx") auto
    then have "\<forall>j. i \<le> j \<and> j < Suc n \<longrightarrow> tx_blockHeight tx \<le> height w (wl_transactions w ! j)"
      using i(3) h by (auto simp: less_Suc_eq)
    then show ?thesis using i True t c by (intro exI [of _ i]) simp
  next
    case False
    then have "tx_blockHeight t \<le> tx_blockHeight tx" using ch(1) by (cases "tx_blockHeight t > tx_blockHeight tx") auto
    then show ?thesis using False t c h by (intro exI [of _ "Suc n"]) auto
  qed
qed simp

lemma InsertTx_ok:
  assumes r: "ranked r (wl_allTx w)" and tx: "wl_allTx w (tx_txHash tx) = Some tx"
    and sub: "set (wl_transactions w) \<subseteq> dom (wl_allTx w)" and s: "wallet_sorted w"
  shows "\<exists>xs ys. wl_transactions w = xs @ ys \<and>
    BRWalletInsertTx w tx = Some (w\<lparr>wl_transactions := xs @ tx_txHash tx # ys\<rparr>) \<and>
    wallet_sorted (w\<lparr>wl_transactions := xs @ tx_txHash tx # ys\<rparr>)"
proof -
  let ?ts = "wl_transactions w" and ?h = "height w"
  obtain i where i: "i \<le> length ?ts" "insert_index w tx (length ?ts) = Some i"
    "\<forall>j. i \<le> j \<and> j < length ?ts \<longrightarrow> tx_blockHeight tx \<le> ?h (?ts ! j)"
    "0 < i \<longrightarrow> ?h (?ts ! (i - 1)) \<le> tx_blockHeight tx"
    using insert_index_ok [OF r tx sub, of "length ?ts"] by blast
  have hx: "?h (tx_txHash tx) = tx_blockHeight tx" by (simp add: height_def tx_of_def tx)
  have hw: "height (w\<lparr>wl_transactions := zs\<rparr>) = ?h" for zs by (rule ext) (simp add: height_def tx_of_def)
  have st: "sorted (map ?h (take i ?ts) @ map ?h (drop i ?ts))"
    using s unfolding wallet_sorted_def by (simp only: map_append [symmetric] append_take_drop_id)
  have hi: "\<forall>x\<in>set (drop i ?ts). tx_blockHeight tx \<le> ?h x"
  proof
    fix x assume "x \<in> set (drop i ?ts)"
    then obtain j where "j < length ?ts - i" "x = ?ts ! (i + j)" by (auto simp: in_set_conv_nth)
    then show "tx_blockHeight tx \<le> ?h x" using i(3) by simp
  qed
  have lo: "\<forall>x\<in>set (take i ?ts). ?h x \<le> tx_blockHeight tx"
  proof
    fix x assume "x \<in> set (take i ?ts)"
    then obtain j where j: "j < i" "j < length ?ts" "x = ?ts ! j" by (auto simp: in_set_conv_nth)
    have "?h (?ts ! j) \<le> ?h (?ts ! (i - 1))"
      using s j i(1) sorted_nth_mono [of "map ?h ?ts" j "i - 1"] by (simp add: wallet_sorted_def)
    then show "?h x \<le> tx_blockHeight tx" using i(4) j by simp
  qed
  have "sorted (map ?h (take i ?ts @ tx_txHash tx # drop i ?ts))"
    using st lo hi by (auto simp: sorted_append hx intro: order.trans)
  then show ?thesis
    by (intro exI [of _ "take i ?ts"] exI [of _ "drop i ?ts"])
      (simp add: BRWalletInsertTx_def i(2) wallet_sorted_def hw)
qed
section \<open>Address chains\<close>

text \<open>The addresses of the chain from \<open>i\<close> on are unused, the one before is used.\<close>

definition unused_from :: "u8 list set \<Rightarrow> u8 list list \<Rightarrow> nat \<Rightarrow> bool" where
  "unused_from U chain i \<longleftrightarrow> i \<le> length chain \<and> (\<forall>j. i \<le> j \<and> j < length chain \<longrightarrow> chain ! j \<notin> U) \<and>
     (0 < i \<longrightarrow> chain ! (i - 1) \<in> U)"

lemma unused_tail_from: "unused_from U chain (unused_tail U chain (length chain))"
proof -
  have "n \<le> length chain \<Longrightarrow> unused_tail U chain n \<le> n \<and>
    (\<forall>j. unused_tail U chain n \<le> j \<and> j < n \<longrightarrow> chain ! j \<notin> U) \<and>
    (0 < unused_tail U chain n \<longrightarrow> chain ! (unused_tail U chain n - 1) \<in> U)" for n
    by (induction n) (auto simp: less_Suc_eq)
  from this [of "length chain"] show ?thesis by (simp add: unused_from_def)
qed

lemma unused_from_snoc:
  "unused_from U chain i \<Longrightarrow> unused_from U (chain @ [a]) (if a \<in> U then length chain + 1 else i)"
  by (auto simp: unused_from_def nth_append less_Suc_eq)

text \<open>Somewhere ahead in the chain there is a gap: \<open>gap\<close> positions that are not used.\<close>

definition gap_ahead :: "(nat \<Rightarrow> u8 list option) \<Rightarrow> u8 list set \<Rightarrow> nat \<Rightarrow> nat \<Rightarrow> bool" where
  "gap_ahead derive U gap n \<longleftrightarrow> (\<exists>m\<ge>n. \<forall>k. m \<le> k \<and> k < m + gap \<longrightarrow> (\<forall>a. derive k = Some a \<longrightarrow> a \<notin> U))"

lemma gap_ahead_finite:
  assumes fin: "finite U" and inj: "\<And>i j a. i < N \<Longrightarrow> j < N \<Longrightarrow> derive i = Some a \<Longrightarrow> derive j = Some a \<Longrightarrow> i = j"
    and N: "n + (card U + 1) * gap \<le> N"
  shows "gap_ahead derive U gap n"
proof (rule ccontr)
  assume no: "\<not> gap_ahead derive U gap n"
  have "\<exists>k a. n + j * gap \<le> k \<and> k < n + j * gap + gap \<and> derive k = Some a \<and> a \<in> U" for j
    using no unfolding gap_ahead_def by (metis le_add1)
  then obtain k a where k: "\<And>j. n + j * gap \<le> k j \<and> k j < n + j * gap + gap \<and> derive (k j) = Some (a j) \<and> a j \<in> U"
    by metis
  have lt: "k i < k j" if "i < j" for i j
  proof -
    have "n + i * gap + gap \<le> n + j * gap" using mult_le_mono1 [of "Suc i" j gap] that by simp
    then show ?thesis using k [of i] k [of j] by linarith
  qed
  have bound: "k j < N" if "j \<le> card U" for j
  proof -
    have "n + j * gap + gap \<le> n + (card U + 1) * gap" using mult_le_mono1 [of "Suc j" "card U + 1" gap] that by simp
    then show ?thesis using k [of j] N by linarith
  qed
  have "inj_on a {..card U}"
  proof (rule inj_onI)
    fix i j assume ij: "i \<in> {..card U}" "j \<in> {..card U}" "a i = a j"
    then have "k i = k j" using inj [of "k i" "k j" "a i"] bound k by simp
    then show "i = j" using lt [of i j] lt [of j i] by (cases i j rule: linorder_cases) auto
  qed
  moreover have "a ` {..card U} \<subseteq> U" using k by blast
  ultimately have "card {..card U} \<le> card U" using card_inj_on_le fin by blast
  then show False by simp
qed

lemma generate_addrs_ok:
  assumes gap: "\<forall>k. m \<le> k \<and> k < m + gap \<longrightarrow> (\<forall>a. derive k = Some a \<longrightarrow> a \<notin> U)"
  shows "unused_from U chain i \<Longrightarrow> i \<le> m \<Longrightarrow> length chain \<le> m + gap \<Longrightarrow>
    \<exists>i' new. generate_addrs derive U gap i chain = Some (i', chain @ new) \<and> unused_from U (chain @ new) i' \<and>
      (\<forall>j<length new. derive (length chain + j) = Some (new ! j)) \<and>
      (i' + gap \<le> length (chain @ new) \<or> derive (length (chain @ new)) = None)"
proof (induction "m + gap - length chain" arbitrary: i chain rule: less_induct)
  case less
  consider (stop) "i + gap \<le> length chain" | (none) "\<not> i + gap \<le> length chain" "derive (length chain) = None"
    | (some) a where "\<not> i + gap \<le> length chain" "derive (length chain) = Some a" by (cases "derive (length chain)") auto
  then show ?case
  proof cases
    case stop
    then show ?thesis using less.prems
      by (intro exI [of _ i] exI [of _ "[]"]) (simp add: generate_addrs.simps [of _ _ _ i chain])
  next
    case none
    then show ?thesis using less.prems
      by (intro exI [of _ i] exI [of _ "[]"]) (simp add: generate_addrs.simps [of _ _ _ i chain])
  next
    case some
    define i2 where "i2 = (if a \<in> U then length chain + 1 else i)"
    have lt: "length chain < m + gap" using some less.prems by linarith
    have i2: "i2 \<le> m"
    proof (cases "a \<in> U")
      case True
      then have "length chain < m" using gap some(2) lt by (metis not_le)
      then show ?thesis by (simp add: i2_def True)
    qed (use less.prems i2_def in simp)
    have "unused_from U (chain @ [a]) i2" unfolding i2_def by (rule unused_from_snoc [OF less.prems(1)])
    from less.hyps [OF _ this i2] lt
    have "\<exists>i' new. generate_addrs derive U gap i2 (chain @ [a]) = Some (i', (chain @ [a]) @ new) \<and>
      unused_from U ((chain @ [a]) @ new) i' \<and>
      (\<forall>j<length new. derive (length (chain @ [a]) + j) = Some (new ! j)) \<and>
      (i' + gap \<le> length ((chain @ [a]) @ new) \<or> derive (length ((chain @ [a]) @ new)) = None)" by simp
    then obtain i' new where n: "generate_addrs derive U gap i2 (chain @ [a]) = Some (i', (chain @ [a]) @ new)"
      "unused_from U ((chain @ [a]) @ new) i'"
      "\<forall>j<length new. derive (length (chain @ [a]) + j) = Some (new ! j)"
      "i' + gap \<le> length ((chain @ [a]) @ new) \<or> derive (length ((chain @ [a]) @ new)) = None" by blast
    have "generate_addrs derive U gap i chain = generate_addrs derive U gap i2 (chain @ [a])"
      using some by (simp add: generate_addrs.simps [of _ _ _ i chain] i2_def)
    moreover have "derive (length chain + j) = Some ((a # new) ! j)" if "j < length (a # new)" for j
      using n(3) some(2) that by (cases j) simp_all
    ultimately show ?thesis using n by (intro exI [of _ i'] exI [of _ "a # new"]) simp
  qed
qed
definition addrs_consistent :: "BRWallet \<Rightarrow> bool" where
  "addrs_consistent w \<longleftrightarrow> wl_allAddrs w = set (wl_internalChain w) \<union> set (wl_externalChain w)"

definition chain_of :: "BRWallet \<Rightarrow> bool \<Rightarrow> u8 list list" where
  "chain_of w internal = (if internal then wl_internalChain w else wl_externalChain w)"

definition chain_derive :: "'k wallet_env \<Rightarrow> bool \<Rightarrow> nat \<Rightarrow> u8 list option" where
  "chain_derive env internal = derive_address env (if internal then SEQUENCE_INTERNAL_CHAIN else SEQUENCE_EXTERNAL_CHAIN)"

definition extend_chain :: "BRWallet \<Rightarrow> bool \<Rightarrow> u8 list list \<Rightarrow> BRWallet" where
  "extend_chain w internal new =
     (if internal then w\<lparr>wl_internalChain := wl_internalChain w @ new, wl_allAddrs := wl_allAddrs w \<union> set new\<rparr>
      else w\<lparr>wl_externalChain := wl_externalChain w @ new, wl_allAddrs := wl_allAddrs w \<union> set new\<rparr>)"

lemma extend_chain_consistent: "addrs_consistent w \<Longrightarrow> addrs_consistent (extend_chain w internal new)"
  by (auto simp: addrs_consistent_def extend_chain_def)

lemma chain_of_extend: "chain_of (extend_chain w internal new) internal = chain_of w internal @ new"
  by (simp add: chain_of_def extend_chain_def)

lemma UnusedAddrs_ok:
  assumes ac: "addrs_consistent w" and g: "0 < gap"
    and ga: "gap_ahead (chain_derive env internal) (wl_usedAddrs w) gap (length (chain_of w internal))"
  shows "\<exists>i new. BRWalletUnusedAddrs env w addrs gap internal =
      Some (if addrs \<and> i + gap \<le> length (chain_of w internal @ new)
            then take gap (drop i (chain_of w internal @ new)) else [], extend_chain w internal new) \<and>
    unused_from (wl_usedAddrs w) (chain_of w internal @ new) i \<and>
    (\<forall>j<length new. chain_derive env internal (length (chain_of w internal) + j) = Some (new ! j)) \<and>
    (i + gap \<le> length (chain_of w internal @ new) \<or>
     chain_derive env internal (length (chain_of w internal @ new)) = None)"
proof -
  let ?c = "chain_of w internal" and ?U = "wl_usedAddrs w" and ?d = "chain_derive env internal"
  obtain m where m: "length ?c \<le> m" "\<forall>k. m \<le> k \<and> k < m + gap \<longrightarrow> (\<forall>a. ?d k = Some a \<longrightarrow> a \<notin> ?U)"
    using ga unfolding gap_ahead_def by blast
  have u: "unused_from ?U ?c (unused_tail ?U ?c (length ?c))" by (rule unused_tail_from)
  then have "unused_tail ?U ?c (length ?c) \<le> m" using m(1) by (simp add: unused_from_def)
  from generate_addrs_ok [OF m(2) u this trans_le_add1 [OF m(1)]]
  have "\<exists>i' new. generate_addrs ?d ?U gap (unused_tail ?U ?c (length ?c)) ?c = Some (i', ?c @ new) \<and>
      unused_from ?U (?c @ new) i' \<and> (\<forall>j<length new. ?d (length ?c + j) = Some (new ! j)) \<and>
      (i' + gap \<le> length (?c @ new) \<or> ?d (length (?c @ new)) = None)" .
  then obtain i new where n: "generate_addrs ?d ?U gap (unused_tail ?U ?c (length ?c)) ?c = Some (i, ?c @ new)"
    "unused_from ?U (?c @ new) i" "\<forall>j<length new. ?d (length ?c + j) = Some (new ! j)"
    "i + gap \<le> length (?c @ new) \<or> ?d (length (?c @ new)) = None" by blast
  have gen: "generate_addrs (derive_address env (if internal then SEQUENCE_INTERNAL_CHAIN else SEQUENCE_EXTERNAL_CHAIN))
      ?U gap (unused_tail ?U (if internal then wl_internalChain w else wl_externalChain w)
        (length (if internal then wl_internalChain w else wl_externalChain w)))
      (if internal then wl_internalChain w else wl_externalChain w) = Some (i, ?c @ new)"
    using n(1) by (simp only: chain_of_def chain_derive_def)
  have un: "set (wl_internalChain w) \<union> set new \<union> set (wl_externalChain w) = wl_allAddrs w \<union> set new"
    "set (wl_internalChain w) \<union> (set (wl_externalChain w) \<union> set new) = wl_allAddrs w \<union> set new"
    using ac by (auto simp: addrs_consistent_def)
  have "BRWalletUnusedAddrs env w addrs gap internal =
      Some (if addrs \<and> i + gap \<le> length (?c @ new) then take gap (drop i (?c @ new)) else [], extend_chain w internal new)"
    unfolding BRWalletUnusedAddrs_def Let_def gen bind.bind_lunit prod.case if_not_P [OF g [THEN less_imp_neq, symmetric]]
    by (cases internal; cases "we_moved env") (simp_all add: extend_chain_def chain_of_def un)
  then show ?thesis using n(2-4) by blast
qed

end
