(* ===== verification/WalletInv.thy ===== *)
theory WalletInv
  imports WalletLaws
begin

text \<open>
  The invariant of the wallet: its store and order of transactions, its address sets, and the unspent outputs
  that back its balance. Registration, update and reorganization of transactions and the fee setting keep it,
  and have a result in every state that satisfies it.
\<close>

section \<open>The invariant\<close>

text \<open>The balance is backed by unspent outputs of the wallet, each listed once.\<close>

definition wallet_funds :: "BRWallet \<Rightarrow> bool" where
  "wallet_funds w \<longleftrightarrow> distinct (wl_utxos w) \<and> (\<forall>u\<in>set (wl_utxos w). own_output w u) \<and>
     wl_balance w = utxo_total w (wl_utxos w)"

definition wallet_order :: "BRWallet \<Rightarrow> bool" where
  "wallet_order w \<longleftrightarrow> wallet_store w \<and> wallet_sorted w \<and> addrs_consistent w \<and> (\<exists>r. ranked r (wl_allTx w)) \<and>
     (\<forall>h\<in>set (wl_transactions w). height w h \<le> TX_UNCONFIRMED \<and> BRWalletContainsTx w (tx_of w h))"

definition wallet_inv :: "BRWallet \<Rightarrow> bool" where
  "wallet_inv w \<longleftrightarrow> wallet_order w \<and> wallet_funds w \<and> length (wl_balanceHist w) = length (wl_transactions w)"

lemma wallet_orderD:
  assumes "wallet_order w"
  shows "wallet_store w" "wallet_sorted w" "addrs_consistent w" "\<exists>r. ranked r (wl_allTx w)"
    "h \<in> set (wl_transactions w) \<Longrightarrow> height w h \<le> TX_UNCONFIRMED"
    "h \<in> set (wl_transactions w) \<Longrightarrow> BRWalletContainsTx w (tx_of w h)"
  using assms unfolding wallet_order_def by blast+

text \<open>A transaction associated with the wallet, in terms of outputs.\<close>

definition owned_by :: "BRWallet \<Rightarrow> BRTransaction \<Rightarrow> bool" where
  "owned_by w t \<longleftrightarrow> (\<exists>out\<in>set (tx_outputs t). out_address out \<in> wl_allAddrs w)"

lemma contains_iff:
  "BRWalletContainsTx w tx \<longleftrightarrow> owned_by w tx \<or>
     (\<exists>i\<in>set (tx_inputs tx). \<exists>out. wallet_output w i = Some out \<and> out_address out \<in> wl_allAddrs w)"
proof -
  have "(case wl_allTx w (in_txHash i) of None \<Rightarrow> False
      | Some t \<Rightarrow> unat (in_index i) < length (tx_outputs t) \<and>
          out_address (tx_outputs t ! unat (in_index i)) \<in> wl_allAddrs w) \<longleftrightarrow>
    (\<exists>out. wallet_output w i = Some out \<and> out_address out \<in> wl_allAddrs w)" for i
    by (cases "wl_allTx w (in_txHash i)") (auto simp: wallet_output_def nth_opt_def)
  then show ?thesis by (simp add: BRWalletContainsTx_def owned_by_def list_ex_iff)
qed

lemma wallet_output_mono:
  "wl_allTx w \<subseteq>\<^sub>m wl_allTx w' \<Longrightarrow> wallet_output w i = Some out \<Longrightarrow> wallet_output w' i = Some out"
  by (auto simp: wallet_output_def bind_eq_Some_conv map_le_def dom_def)

lemma contains_mono:
  assumes "wl_allTx w \<subseteq>\<^sub>m wl_allTx w'" "wl_allAddrs w \<subseteq> wl_allAddrs w'" "BRWalletContainsTx w tx"
  shows "BRWalletContainsTx w' tx"
  using assms wallet_output_mono [OF assms(1)] unfolding contains_iff owned_by_def by blast

lemma own_output_mono:
  assumes "wl_allTx w \<subseteq>\<^sub>m wl_allTx w'" "wl_allAddrs w \<subseteq> wl_allAddrs w'" "own_output w u"
  shows "own_output w' u \<and> utxo_amount w' u = utxo_amount w u"
proof -
  obtain out where o: "utxo_output w u = Some out" "out_address out \<noteq> []" "out_address out \<in> wl_allAddrs w"
    using assms(3) by (auto simp: own_output_def)
  have "utxo_output w' u = Some out"
    using assms(1) o(1) by (auto simp: utxo_output_def bind_eq_Some_conv map_le_def dom_def)
  then show ?thesis using o assms(2) by (auto simp: own_output_def utxo_amount_def)
qed

text \<open>A wallet whose funds are those of another one, in a store and with addresses that have grown.\<close>

lemma funds_mono:
  assumes "wallet_funds w" "wl_utxos w' = wl_utxos w" "wl_balance w' = wl_balance w"
    "\<And>u. u \<in> set (wl_utxos w) \<Longrightarrow> own_output w' u \<and> utxo_amount w' u = utxo_amount w u"
  shows "wallet_funds w'"
proof -
  have "utxo_total w' (wl_utxos w) = utxo_total w (wl_utxos w)"
    unfolding utxo_total_def using assms(4) by (metis (no_types, lifting) map_eq_conv)
  then show ?thesis using assms by (simp add: wallet_funds_def)
qed

lemma height_cong: "wl_allTx w' = wl_allTx w \<Longrightarrow> height w' = height w"
  by (rule ext) (simp add: height_def tx_of_def)

lemma order_cong:
  assumes "wallet_order w" "wl_allTx w' = wl_allTx w" "wl_transactions w' = wl_transactions w"
    "addrs_consistent w'" "wl_allAddrs w \<subseteq> wl_allAddrs w'"
  shows "wallet_order w'"
proof -
  have "BRWalletContainsTx w' (tx_of w h)" if "h \<in> set (wl_transactions w)" for h
    by (rule contains_mono [OF _ assms(5) wallet_orderD(6) [OF assms(1) that]]) (simp add: assms(2))
  moreover have "tx_of w' = tx_of w" by (rule ext) (simp add: tx_of_def assms(2))
  ultimately show ?thesis
    using assms(1,4) by (simp add: wallet_order_def wallet_store_def wallet_sorted_def height_cong [OF assms(2)] assms(2,3))
qed

lemma same_base_order: "same_base v w \<Longrightarrow> wallet_order v \<Longrightarrow> wallet_order w"
  by (rule order_cong [of v]) (auto simp: same_base_def wallet_order_def addrs_consistent_def)

text \<open>The recomputation of the balance establishes the funds.\<close>

lemma UpdateBalance_ok:
  assumes "wallet_order v"
  shows "\<exists>w. BRWalletUpdateBalance now v = Some w \<and> wallet_inv w \<and> same_base v w \<and>
    wl_usedAddrs w \<subseteq> (\<Union>t\<in>ran (wl_allTx v). used_by t)"
proof -
  note st = wallet_orderD(1) [OF assms]
  obtain w where w: "BRWalletUpdateBalance now v = Some w"
    and i: "bal_inv v now (wl_transactions v) (w, wl_balance w, wl_balance w)" using UpdateBalance_inv [OF st] by blast
  have b: "same_base v w" using i by (simp add: bal_inv_def)
  have e: "wl_allTx w = wl_allTx v" "wl_allAddrs w = wl_allAddrs v" "wl_transactions w = wl_transactions v"
    using b by (simp_all add: same_base_def)
  have ok: "utxos_ok v (accepted_in w (wl_transactions v)) (wl_spentOutputs w) (wl_utxos w)"
    "wl_balance w = utxo_total v (wl_utxos w)" "length (wl_balanceHist w) = length (wl_transactions v)"
    "wl_usedAddrs w = (\<Union>h\<in>accepted_in w (wl_transactions v). used_by (tx_of v h))"
    using i unfolding bal_inv_def prod.case by blast+
  have "own_output w u" if "u \<in> set (wl_utxos w)" for u
  proof -
    have "own_output v u" using ok(1) that unfolding utxos_ok_def by blast
    then show ?thesis by (simp add: own_output_def e utxo_output_cong [OF e(1)])
  qed
  moreover have "distinct (wl_utxos w)" using ok(1) unfolding utxos_ok_def by blast
  ultimately have "wallet_funds w"
    using ok(2) by (simp add: wallet_funds_def utxo_total_cong [OF e(1)])
  moreover have "tx_of v h \<in> ran (wl_allTx v)" if "h \<in> accepted_in w (wl_transactions v)" for h
  proof -
    have "h \<in> set (wl_transactions v)" using that by (simp add: accepted_in_def)
    then obtain t where "wl_allTx v h = Some t" using wallet_storeD(3) [OF st] by blast
    then show ?thesis by (auto simp: tx_of_def ran_def)
  qed
  then have "wl_usedAddrs w \<subseteq> (\<Union>t\<in>ran (wl_allTx v). used_by t)" unfolding ok(4) by blast
  ultimately show ?thesis
    using w b same_base_order [OF b assms] ok(3) e(3) by (simp add: wallet_inv_def)
qed
lemma inv_order: "wallet_inv w \<Longrightarrow> wallet_order w"
  by (simp add: wallet_inv_def)

section \<open>Extending the address chains\<close>

text \<open>Both chains have a gap ahead of any set of used addresses of the stored transactions.\<close>

definition chain_limit :: "bool \<Rightarrow> nat" where
  "chain_limit internal = (if internal then SEQUENCE_GAP_LIMIT_INTERNAL else SEQUENCE_GAP_LIMIT_EXTERNAL)"

definition gaps_ahead :: "'k wallet_env \<Rightarrow> u8 list set \<Rightarrow> BRWallet \<Rightarrow> bool" where
  "gaps_ahead env U w \<longleftrightarrow>
     (\<forall>internal. gap_ahead (chain_derive env internal) U (chain_limit internal) (length (chain_of w internal)))"

lemma gap_ahead_mono: "gap_ahead d U gap n \<Longrightarrow> V \<subseteq> U \<Longrightarrow> gap_ahead d V gap n"
  unfolding gap_ahead_def by blast

lemma extend_chain_same:
  "wl_allTx (extend_chain w b new) = wl_allTx w" "wl_transactions (extend_chain w b new) = wl_transactions w"
  "wl_utxos (extend_chain w b new) = wl_utxos w" "wl_balance (extend_chain w b new) = wl_balance w"
  "wl_usedAddrs (extend_chain w b new) = wl_usedAddrs w" "wl_balanceHist (extend_chain w b new) = wl_balanceHist w"
  "wl_allAddrs w \<subseteq> wl_allAddrs (extend_chain w b new)" "wl_feePerKb (extend_chain w b new) = wl_feePerKb w"
  "wl_allAddrs (extend_chain w b new) = wl_allAddrs w \<union> set new"
  by (auto simp: extend_chain_def)

lemma extend_chain_other: "a \<noteq> b \<Longrightarrow> chain_of (extend_chain w b new) a = chain_of w a"
  by (cases a; cases b) (simp_all add: chain_of_def extend_chain_def)

lemma extend_chain_inv:
  assumes "wallet_inv w"
  shows "wallet_inv (extend_chain w b new)"
proof -
  note o = wallet_orderD [OF inv_order [OF assms]]
  have "wallet_order (extend_chain w b new)"
    by (rule order_cong [OF inv_order [OF assms]])
      (simp_all add: extend_chain_same extend_chain_consistent [OF o(3)])
  moreover have "wallet_funds (extend_chain w b new)"
  proof (rule funds_mono)
    show "wallet_funds w" using assms by (simp add: wallet_inv_def)
    fix u assume "u \<in> set (wl_utxos w)"
    then have "own_output w u" using assms by (simp add: wallet_inv_def wallet_funds_def)
    then show "own_output (extend_chain w b new) u \<and> utxo_amount (extend_chain w b new) u = utxo_amount w u"
      by (intro own_output_mono) (simp_all add: extend_chain_same)
  qed (simp_all add: extend_chain_same)
  ultimately show ?thesis using assms by (simp add: wallet_inv_def extend_chain_same)
qed

lemma extend_chains_ok:
  assumes w: "addrs_consistent w" and g: "gaps_ahead env (wl_usedAddrs w) w"
  shows "\<exists>new1 new2. extend_chains env w = Some (extend_chain (extend_chain w False new1) True new2)"
proof -
  note h = g [unfolded gaps_ahead_def, rule_format]
  have g1: "gap_ahead (chain_derive env False) (wl_usedAddrs w) SEQUENCE_GAP_LIMIT_EXTERNAL (length (chain_of w False))"
    using h [of False] by (simp add: chain_limit_def)
  obtain new1 where 1: "BRWalletUnusedAddrs env w False SEQUENCE_GAP_LIMIT_EXTERNAL False =
      Some ([], extend_chain w False new1)"
    using UnusedAddrs_ok [OF w _ g1, of False] by (auto simp: SEQUENCE_GAP_LIMIT_EXTERNAL_def)
  let ?w = "extend_chain w False new1"
  have "chain_of ?w True = chain_of w True" by (rule extend_chain_other) simp
  then have g2: "gap_ahead (chain_derive env True) (wl_usedAddrs ?w) SEQUENCE_GAP_LIMIT_INTERNAL (length (chain_of ?w True))"
    using h [of True] by (simp add: chain_limit_def extend_chain_same)
  obtain new2 where 2: "BRWalletUnusedAddrs env ?w False SEQUENCE_GAP_LIMIT_INTERNAL True =
      Some ([], extend_chain ?w True new2)"
    using UnusedAddrs_ok [OF extend_chain_consistent [OF w] _ g2, of False] by (auto simp: SEQUENCE_GAP_LIMIT_INTERNAL_def)
  show ?thesis using 1 2 by (intro exI [of _ new1] exI [of _ new2]) (simp add: extend_chains_def)
qed

text \<open>The invariant does not depend on the other fields.\<close>

lemma inv_cong:
  assumes "wallet_inv w" "wl_allTx w' = wl_allTx w" "wl_transactions w' = wl_transactions w"
    "wl_internalChain w' = wl_internalChain w" "wl_externalChain w' = wl_externalChain w"
    "wl_allAddrs w' = wl_allAddrs w" "wl_utxos w' = wl_utxos w" "wl_balance w' = wl_balance w"
    "wl_balanceHist w' = wl_balanceHist w"
  shows "wallet_inv w'"
proof -
  have "addrs_consistent w'" using wallet_orderD(3) [OF inv_order [OF assms(1)]] assms by (simp add: addrs_consistent_def)
  then have "wallet_order w'"
    by (rule order_cong [OF inv_order [OF assms(1)] assms(2,3)]) (simp add: assms)
  moreover have "wallet_funds w'"
  proof (rule funds_mono [OF _ assms(7,8)])
    show "wallet_funds w" using assms(1) by (simp add: wallet_inv_def)
    fix u assume "u \<in> set (wl_utxos w)"
    then have "own_output w u" using assms(1) by (simp add: wallet_inv_def wallet_funds_def)
    then show "own_output w' u \<and> utxo_amount w' u = utxo_amount w u"
      by (intro own_output_mono) (simp_all add: assms)
  qed
  ultimately show ?thesis using assms by (simp add: wallet_inv_def)
qed

lemma event_inv: "wallet_inv w \<Longrightarrow> wallet_inv (wallet_event e w)"
  by (erule inv_cong) (simp_all add: wallet_event_def)

lemma wallet_event_same:
  "wl_allTx (wallet_event e w) = wl_allTx w" "wl_transactions (wallet_event e w) = wl_transactions w"
  "wl_balance (wallet_event e w) = wl_balance w"
  by (simp_all add: wallet_event_def)

section \<open>Registration\<close>

text \<open>A transaction that can be registered: its object is well formed and closes no cycle of spending, and the
  address chains have a gap ahead of all stored addresses.\<close>

definition registrable :: "'k wallet_env \<Rightarrow> BRWallet \<Rightarrow> BRTransaction \<Rightarrow> bool" where
  "registrable env w tx \<longleftrightarrow>
     (let allTx = (wl_allTx w)(tx_txHash tx \<mapsto> tx) in
      BRTransactionIsSigned tx \<and> length (tx_outputs tx) < 2 ^ 32 \<and> tx_blockHeight tx \<le> TX_UNCONFIRMED \<and>
      (\<exists>r. ranked r allTx) \<and> gaps_ahead env (\<Union>t\<in>ran allTx. used_by t) w)"

lemma add_tx_ok:
  assumes o: "wallet_order w" and n: "wl_allTx w (tx_txHash tx) = None"
    and c: "BRWalletContainsTx w tx" and len: "length (tx_outputs tx) < 2 ^ 32" "tx_blockHeight tx \<le> TX_UNCONFIRMED"
    and r: "ranked r ((wl_allTx w)(tx_txHash tx \<mapsto> tx))"
  shows "\<exists>xs ys. wl_transactions w = xs @ ys \<and>
    add_tx tx w = Some (w\<lparr>wl_allTx := (wl_allTx w)(tx_txHash tx \<mapsto> tx), wl_transactions := xs @ tx_txHash tx # ys\<rparr>) \<and>
    wallet_order (w\<lparr>wl_allTx := (wl_allTx w)(tx_txHash tx \<mapsto> tx), wl_transactions := xs @ tx_txHash tx # ys\<rparr>)"
proof -
  let ?h = "tx_txHash tx"
  define w1 where "w1 = w\<lparr>wl_allTx := (wl_allTx w)(?h \<mapsto> tx)\<rparr>"
  note d = wallet_orderD [OF o]
  have sub: "set (wl_transactions w) \<subseteq> dom (wl_allTx w)" using d(1) by (simp add: wallet_store_def)
  then have hn: "?h \<notin> set (wl_transactions w)" using n by auto
  have old: "tx_of w1 k = tx_of w k" if "k \<in> set (wl_transactions w)" for k
    using that hn by (auto simp: tx_of_def w1_def)
  have "map (height w1) (wl_transactions w) = map (height w) (wl_transactions w)"
    using old by (simp add: height_def)
  moreover have t1: "wl_transactions w1 = wl_transactions w" by (simp add: w1_def)
  ultimately have s1: "wallet_sorted w1" using d(2) by (simp only: wallet_sorted_def)
  have "\<exists>xs ys. wl_transactions w1 = xs @ ys \<and>
    BRWalletInsertTx w1 tx = Some (w1\<lparr>wl_transactions := xs @ ?h # ys\<rparr>) \<and>
    wallet_sorted (w1\<lparr>wl_transactions := xs @ ?h # ys\<rparr>)"
    by (rule InsertTx_ok [OF _ _ _ s1]) (use r sub in \<open>auto simp: w1_def\<close>)
  then obtain xs ys where xy: "wl_transactions w = xs @ ys"
    "BRWalletInsertTx w1 tx = Some (w1\<lparr>wl_transactions := xs @ ?h # ys\<rparr>)"
    "wallet_sorted (w1\<lparr>wl_transactions := xs @ ?h # ys\<rparr>)" by (auto simp: w1_def)
  define w2 where "w2 = w1\<lparr>wl_transactions := xs @ ?h # ys\<rparr>"
  have w2: "wl_allTx w2 = (wl_allTx w)(?h \<mapsto> tx)" "wl_transactions w2 = xs @ ?h # ys" "wl_allAddrs w2 = wl_allAddrs w"
    by (simp_all add: w2_def w1_def)
  have sub2: "wl_allTx w \<subseteq>\<^sub>m wl_allTx w2" using n by (auto simp: w2 map_le_def)
  have tx2: "tx_of w2 k = (if k = ?h then tx else tx_of w k)" if "k \<in> set (wl_transactions w2)" for k
    by (simp add: tx_of_def w2)
  have "height w2 k \<le> TX_UNCONFIRMED \<and> BRWalletContainsTx w2 (tx_of w2 k)" if k: "k \<in> set (wl_transactions w2)" for k
  proof (cases "k = ?h")
    case True
    have "BRWalletContainsTx w2 tx" by (rule contains_mono [OF sub2 _ c]) (simp add: w2)
    then show ?thesis using True len(2) tx2 [OF k] by (simp add: height_def)
  next
    case False
    then have kw: "k \<in> set (wl_transactions w)" using k xy(1) by (auto simp: w2)
    have "BRWalletContainsTx w2 (tx_of w k)" by (rule contains_mono [OF sub2 _ d(6) [OF kw]]) (simp add: w2)
    then show ?thesis using False d(5) [OF kw] tx2 [OF k] by (simp add: height_def)
  qed
  moreover have "wallet_store w2"
    using d(1) hn xy(1) len(1) by (auto simp: wallet_store_def w2 split: if_splits)
  moreover have "addrs_consistent w2" using d(3) by (simp add: addrs_consistent_def w2_def w1_def)
  ultimately have "wallet_order w2"
    using xy(3) r unfolding wallet_order_def by (auto simp: w2_def w1_def)
  then show ?thesis
    using xy(1,2) by (intro exI [of _ xs] exI [of _ ys]) (simp add: add_tx_def w1_def w2_def)
qed
text \<open>Storing a transaction that is not registered keeps the invariant.\<close>

lemma inv_grow:
  assumes inv: "wallet_inv w" and sub: "wl_allTx w \<subseteq>\<^sub>m wl_allTx w'" and st: "wallet_store w'"
    and r: "\<exists>r. ranked r (wl_allTx w')"
    and e: "wl_transactions w' = wl_transactions w" "wl_internalChain w' = wl_internalChain w"
    "wl_externalChain w' = wl_externalChain w" "wl_allAddrs w' = wl_allAddrs w" "wl_utxos w' = wl_utxos w"
    "wl_balance w' = wl_balance w" "wl_balanceHist w' = wl_balanceHist w"
  shows "wallet_inv w'"
proof -
  note d = wallet_orderD [OF inv_order [OF inv]]
  have dom: "set (wl_transactions w) \<subseteq> dom (wl_allTx w)" using d(1) by (simp add: wallet_store_def)
  have t: "tx_of w' k = tx_of w k" if k: "k \<in> set (wl_transactions w)" for k
  proof -
    have "k \<in> dom (wl_allTx w)" using dom k by blast
    then have "wl_allTx w' k = wl_allTx w k" using sub by (simp add: map_le_def)
    then show ?thesis by (simp add: tx_of_def)
  qed
  have "map (height w') (wl_transactions w) = map (height w) (wl_transactions w)" using t by (simp add: height_def)
  then have "wallet_sorted w'" using d(2) by (simp only: wallet_sorted_def e)
  moreover have "height w' k \<le> TX_UNCONFIRMED \<and> BRWalletContainsTx w' (tx_of w' k)" if "k \<in> set (wl_transactions w)" for k
    using d(5,6) [OF that] t [OF that] contains_mono [OF sub] e(4) by (simp add: height_def)
  moreover have "addrs_consistent w'" using d(3) by (simp add: addrs_consistent_def e)
  ultimately have "wallet_order w'" using st r by (simp add: wallet_order_def e)
  moreover have "wallet_funds w'"
  proof (rule funds_mono [OF _ e(5,6)])
    show "wallet_funds w" using inv by (simp add: wallet_inv_def)
    fix u assume "u \<in> set (wl_utxos w)"
    then have "own_output w u" using inv by (simp add: wallet_inv_def wallet_funds_def)
    then show "own_output w' u \<and> utxo_amount w' u = utxo_amount w u"
      by (intro own_output_mono [OF sub]) (simp_all add: e)
  qed
  ultimately show ?thesis using inv e by (simp add: wallet_inv_def)
qed

lemma Register_ok:
  assumes inv: "wallet_inv w" and reg: "registrable env w tx"
  shows "\<exists>r w'. BRWalletRegisterTransaction env w tx = Some (r, w') \<and> wallet_inv w' \<and>
    (r \<longleftrightarrow> wl_allTx w (tx_txHash tx) \<noteq> None \<or> BRWalletContainsTx w tx) \<and>
    (if wl_allTx w (tx_txHash tx) \<noteq> None then w' = w
     else if r then wl_allTx w' = (wl_allTx w)(tx_txHash tx \<mapsto> tx) \<and>
       mset (wl_transactions w') = add_mset (tx_txHash tx) (mset (wl_transactions w))
     else wl_transactions w' = wl_transactions w \<and> wl_utxos w' = wl_utxos w)"
proof -
  let ?h = "tx_txHash tx"
  note o = inv_order [OF inv] and d = wallet_orderD [OF inv_order [OF inv]]
  obtain r where sg: "BRTransactionIsSigned tx" and len: "length (tx_outputs tx) < 2 ^ 32"
    and hb: "tx_blockHeight tx \<le> TX_UNCONFIRMED" and r: "ranked r ((wl_allTx w)(?h \<mapsto> tx))"
    and g: "gaps_ahead env (\<Union>t\<in>ran ((wl_allTx w)(?h \<mapsto> tx)). used_by t) w"
    using reg by (auto simp: registrable_def Let_def)
  show ?thesis
  proof (cases "wl_allTx w ?h")
    case (Some t)
    then show ?thesis using sg inv
      by (intro exI [of _ True] exI [of _ w]) (simp add: BRWalletRegisterTransaction_def)
  next
    case n: None
    show ?thesis
    proof (cases "BRWalletContainsTx w tx")
      case c: True
      obtain xs ys where xy: "wl_transactions w = xs @ ys"
        and a: "add_tx tx w = Some (w\<lparr>wl_allTx := (wl_allTx w)(?h \<mapsto> tx), wl_transactions := xs @ ?h # ys\<rparr>)"
        and o1: "wallet_order (w\<lparr>wl_allTx := (wl_allTx w)(?h \<mapsto> tx), wl_transactions := xs @ ?h # ys\<rparr>)"
        using add_tx_ok [OF o n c len hb r] by blast
      define w1 where "w1 = w\<lparr>wl_allTx := (wl_allTx w)(?h \<mapsto> tx), wl_transactions := xs @ ?h # ys\<rparr>"
      obtain w2 where u: "BRWalletUpdateBalance (we_now env) w1 = Some w2" "wallet_inv w2" "same_base w1 w2"
        "wl_usedAddrs w2 \<subseteq> (\<Union>t\<in>ran (wl_allTx w1). used_by t)"
        using UpdateBalance_ok [OF o1 [folded w1_def]] by blast
      have sb: "wl_allTx w2 = (wl_allTx w)(?h \<mapsto> tx)" "wl_transactions w2 = xs @ ?h # ys"
        "wl_internalChain w2 = wl_internalChain w" "wl_externalChain w2 = wl_externalChain w"
        using u(3) by (simp_all add: same_base_def w1_def)
      have "gap_ahead (chain_derive env i) (wl_usedAddrs w2) (chain_limit i) (length (chain_of w2 i))" for i
      proof -
        have "chain_of w2 i = chain_of w i" by (simp add: chain_of_def sb)
        moreover have "gap_ahead (chain_derive env i) (\<Union>t\<in>ran ((wl_allTx w)(?h \<mapsto> tx)). used_by t) (chain_limit i)
          (length (chain_of w i))" using g unfolding gaps_ahead_def by blast
        moreover have "wl_allTx w1 = (wl_allTx w)(?h \<mapsto> tx)" by (simp add: w1_def)
        ultimately show ?thesis using gap_ahead_mono u(4) by metis
      qed
      then have g2: "gaps_ahead env (wl_usedAddrs w2) w2" by (simp add: gaps_ahead_def)
      obtain n1 n2 where e: "extend_chains env w2 = Some (extend_chain (extend_chain w2 False n1) True n2)"
        using extend_chains_ok [OF wallet_orderD(3) [OF inv_order [OF u(2)]] g2] by blast
      define w3 where "w3 = extend_chain (extend_chain w2 False n1) True n2"
      have i3: "wallet_inv w3" unfolding w3_def by (intro extend_chain_inv u(2))
      define w4 where "w4 = wallet_event (TxAdded ?h) (wallet_event (BalanceChanged (wl_balance w3)) w3)"
      have "BRWalletRegisterTransaction env w tx = Some (True, w4)"
        using sg n c a u(1) e by (simp add: BRWalletRegisterTransaction_def w1_def w3_def w4_def)
      moreover have "wallet_inv w4" unfolding w4_def by (intro event_inv i3)
      moreover have "wl_allTx w4 = (wl_allTx w)(?h \<mapsto> tx)" "wl_transactions w4 = xs @ ?h # ys"
        by (simp_all add: w4_def w3_def wallet_event_same extend_chain_same sb)
      ultimately show ?thesis using n c xy by (intro exI [of _ True] exI [of _ w4]) simp
    next
      case c: False
      define w' where "w' = (if tx_blockHeight tx = TX_UNCONFIRMED then w\<lparr>wl_allTx := (wl_allTx w)(?h \<mapsto> tx)\<rparr> else w)"
      have R: "BRWalletRegisterTransaction env w tx = Some (False, w')"
        using sg n c by (simp add: BRWalletRegisterTransaction_def w'_def)
      have "wallet_inv w'"
      proof (rule inv_grow [OF inv])
        show "wl_allTx w \<subseteq>\<^sub>m wl_allTx w'" using n by (auto simp: w'_def map_le_def)
        show "wallet_store w'"
          using d(1) len by (cases "tx_blockHeight tx = TX_UNCONFIRMED") (auto simp: wallet_store_def w'_def)
        show "\<exists>r. ranked r (wl_allTx w')" using r d(4) by (auto simp: w'_def)
      qed (simp_all add: w'_def)
      then show ?thesis using R n c by (intro exI [of _ False] exI [of _ w']) (simp add: w'_def)
    qed
  qed
qed
section \<open>Changing heights\<close>

text \<open>Two stores that differ in heights and time stamps only.\<close>

definition same_shape :: "(UInt256 \<rightharpoonup> BRTransaction) \<Rightarrow> (UInt256 \<rightharpoonup> BRTransaction) \<Rightarrow> bool" where
  "same_shape f g \<longleftrightarrow> (\<forall>h. map_option (\<lambda>t. (tx_txHash t, tx_inputs t, tx_outputs t)) (f h) =
     map_option (\<lambda>t. (tx_txHash t, tx_inputs t, tx_outputs t)) (g h))"

lemma same_shapeD:
  assumes "same_shape f g"
  shows "f h = None \<longleftrightarrow> g h = None"
    "f h = Some t \<Longrightarrow> \<exists>u. g h = Some u \<and> tx_txHash u = tx_txHash t \<and> tx_inputs u = tx_inputs t \<and> tx_outputs u = tx_outputs t"
    "g h = Some u \<Longrightarrow> \<exists>t. f h = Some t \<and> tx_txHash u = tx_txHash t \<and> tx_inputs u = tx_inputs t \<and> tx_outputs u = tx_outputs t"
  using assms [unfolded same_shape_def, rule_format, of h] by (cases "f h"; cases "g h"; simp)+

lemma same_shape_upd:
  "f h = Some t \<Longrightarrow> same_shape f (f(h \<mapsto> t\<lparr>tx_timestamp := ts, tx_blockHeight := bh\<rparr>))"
  "f h = Some t \<Longrightarrow> same_shape f (f(h \<mapsto> t\<lparr>tx_blockHeight := bh\<rparr>))"
  by (simp_all add: same_shape_def)

lemma same_shape_refl: "same_shape f f"
  by (simp add: same_shape_def)

lemma same_shape_trans: "same_shape f g \<Longrightarrow> same_shape g h \<Longrightarrow> same_shape f h"
  by (simp add: same_shape_def)

lemma shape_ranked: "same_shape f g \<Longrightarrow> ranked r f \<Longrightarrow> ranked r g"
  unfolding ranked_def by (metis same_shapeD(1) same_shapeD(3))

lemma shape_outputs:
  assumes "same_shape (wl_allTx w) (wl_allTx w')"
  shows "wallet_output w' i = wallet_output w i" "utxo_output w' u = utxo_output w u"
proof -
  have "map_option tx_outputs (wl_allTx w' h) = map_option tx_outputs (wl_allTx w h)" for h
    using same_shapeD(1,2) [OF assms, of h] by (cases "wl_allTx w h") auto
  moreover have "Option.bind (f h) (\<lambda>t. nth_opt (tx_outputs t) n) = Option.bind (map_option tx_outputs (f h)) (\<lambda>outs. nth_opt outs n)"
    for f :: "UInt256 \<rightharpoonup> BRTransaction" and h n by (cases "f h") simp_all
  ultimately show "wallet_output w' i = wallet_output w i" "utxo_output w' u = utxo_output w u"
    by (simp_all only: wallet_output_def utxo_output_def)
qed

lemma shape_store:
  assumes "same_shape (wl_allTx w) (wl_allTx w')" "wallet_store w" "wl_transactions w' = wl_transactions w"
  shows "wallet_store w'"
  unfolding wallet_store_def
proof (intro conjI allI impI)
  fix h u assume "wl_allTx w' h = Some u"
  then show "tx_txHash u = h" "length (tx_outputs u) < 2 ^ 32"
    using same_shapeD(3) [OF assms(1)] wallet_storeD(1,2) [OF assms(2)] by metis+
next
  show "set (wl_transactions w') \<subseteq> dom (wl_allTx w')"
    using assms(2,3) same_shapeD(1) [OF assms(1)] unfolding wallet_store_def by (simp add: subset_iff dom_def)
  show "distinct (wl_transactions w')" using assms(2,3) by (simp add: wallet_store_def)
qed

lemma shape_contains:
  assumes s: "same_shape (wl_allTx w) (wl_allTx w')" and a: "wl_allAddrs w' = wl_allAddrs w"
    and t: "tx_inputs t' = tx_inputs t" "tx_outputs t' = tx_outputs t"
  shows "BRWalletContainsTx w' t' = BRWalletContainsTx w t"
  unfolding contains_iff owned_by_def shape_outputs(1) [OF s] a t by (rule refl)

lemma shape_funds:
  assumes s: "same_shape (wl_allTx w) (wl_allTx w')" and a: "wl_allAddrs w' = wl_allAddrs w"
    and e: "wl_utxos w' = wl_utxos w" "wl_balance w' = wl_balance w" and f: "wallet_funds w"
  shows "wallet_funds w'"
proof (rule funds_mono [OF f e])
  fix u assume "u \<in> set (wl_utxos w)"
  then have "own_output w u" using f by (simp add: wallet_funds_def)
  then show "own_output w' u \<and> utxo_amount w' u = utxo_amount w u"
    unfolding own_output_def utxo_amount_def shape_outputs(2) [OF s] a by simp
qed

text \<open>The part of \<open>wallet_order\<close> that the shape of the store decides, and the rest.\<close>

lemma shape_order:
  assumes s: "same_shape (wl_allTx w) (wl_allTx w')" and o: "wallet_order w"
    and e: "mset (wl_transactions w') = mset (wl_transactions w)" "wl_allAddrs w' = wl_allAddrs w" "addrs_consistent w'"
    and srt: "wallet_sorted w'" and h: "\<And>h. h \<in> set (wl_transactions w) \<Longrightarrow> height w' h \<le> TX_UNCONFIRMED"
  shows "wallet_order w'"
proof -
  note d = wallet_orderD [OF o]
  have set: "set (wl_transactions w') = set (wl_transactions w)" using mset_eq_setD [OF e(1)] .
  have dis: "distinct (wl_transactions w')" using wallet_storeD(4) [OF d(1)] mset_eq_imp_distinct_iff [OF e(1)] by simp
  have "wallet_store (w'\<lparr>wl_transactions := wl_transactions w\<rparr>)" by (rule shape_store [OF _ d(1)]) (simp_all add: s)
  then have "wallet_store w'" using dis set by (simp add: wallet_store_def)
  moreover have "\<exists>r. ranked r (wl_allTx w')" using d(4) shape_ranked [OF s] by blast
  moreover have "BRWalletContainsTx w' (tx_of w' k)" if k: "k \<in> set (wl_transactions w)" for k
  proof -
    obtain t where t: "wl_allTx w k = Some t" using wallet_storeD(3) [OF d(1) k] by blast
    then obtain u where u: "wl_allTx w' k = Some u" "tx_inputs u = tx_inputs t" "tx_outputs u = tx_outputs t"
      using same_shapeD(2) [OF s] by blast
    have "BRWalletContainsTx w t" using d(6) [OF k] t by (simp add: tx_of_def)
    then show ?thesis using shape_contains [OF s e(2) u(2,3)] u(1) by (simp add: tx_of_def)
  qed
  ultimately show ?thesis using srt e(3) h set by (simp add: wallet_order_def)
qed
section \<open>Updating transactions\<close>

lemma last_index_None: "n \<le> length hs \<Longrightarrow> last_index_of h hs n = None \<longleftrightarrow> h \<notin> set (take n hs)"
  by (induction n) (auto simp: take_Suc_conv_app_nth)

lemma last_index_Some: "last_index_of h hs n = Some i \<Longrightarrow> i < n \<and> hs ! i = h"
  by (induction n) (auto split: if_splits)

lemma last_index_split:
  assumes "h \<in> set hs"
  shows "\<exists>xs ys. hs = xs @ h # ys \<and> last_index_of h hs (length hs) = Some (length xs)"
proof -
  obtain i where i: "last_index_of h hs (length hs) = Some i"
    using assms last_index_None [of "length hs" hs h] by (cases "last_index_of h hs (length hs)") auto
  then have "i < length hs" "hs ! i = h" using last_index_Some by blast+
  then show ?thesis using i id_take_nth_drop [of i hs] by (intro exI [of _ "take i hs"] exI [of _ "drop (Suc i) hs"]) simp
qed

definition retimed :: "BRTransaction \<Rightarrow> u32 \<Rightarrow> u32 \<Rightarrow> BRTransaction" where
  "retimed t ts bh = t\<lparr>tx_timestamp := ts, tx_blockHeight := bh\<rparr>"

lemma retimed_simps [simp]:
  "tx_txHash (retimed t ts bh) = tx_txHash t" "tx_inputs (retimed t ts bh) = tx_inputs t"
  "tx_outputs (retimed t ts bh) = tx_outputs t" "tx_blockHeight (retimed t ts bh) = bh"
  by (simp_all add: retimed_def)

lemma shape_retimed: "f h = Some t \<Longrightarrow> same_shape f (f(h \<mapsto> retimed t ts bh))"
  by (simp add: same_shape_def)

text \<open>The object of a registered transaction is changed and the transaction moved to its new place.\<close>

lemma reinsert_ok:
  assumes inv: "wallet_inv w" and t: "wl_allTx w h = Some t" and h: "h \<in> set (wl_transactions w)" and bh: "bh \<le> TX_UNCONFIRMED"
  shows "\<exists>w'. reinsert_tx (retimed t ts bh) (w\<lparr>wl_allTx := (wl_allTx w)(h \<mapsto> retimed t ts bh)\<rparr>) = Some w' \<and> wallet_inv w' \<and>
    wl_allTx w' = (wl_allTx w)(h \<mapsto> retimed t ts bh) \<and> mset (wl_transactions w') = mset (wl_transactions w)"
proof -
  let ?t = "retimed t ts bh"
  note d = wallet_orderD [OF inv_order [OF inv]]
  have th: "tx_txHash t = h" by (rule wallet_storeD(1) [OF d(1) t])
  obtain xs ys where xy: "wl_transactions w = xs @ h # ys"
    and li: "last_index_of h (wl_transactions w) (length (wl_transactions w)) = Some (length xs)"
    using last_index_split [OF h] by blast
  define w2 where "w2 = w\<lparr>wl_allTx := (wl_allTx w)(h \<mapsto> ?t), wl_transactions := xs @ ys\<rparr>"
  have hn: "h \<notin> set (xs @ ys)" using wallet_storeD(4) [OF d(1)] xy by simp
  have hts: "height w2 k = height w k" if "k \<noteq> h" for k using that by (simp add: height_def tx_of_def w2_def)
  have "sorted (map (height w) (xs @ ys))"
    using d(2) unfolding wallet_sorted_def xy by (auto simp: sorted_append)
  moreover have "map (height w2) (xs @ ys) = map (height w) (xs @ ys)"
    unfolding map_eq_conv by (rule ballI, rule hts) (use hn in auto)
  moreover have "wl_transactions w2 = xs @ ys" by (simp add: w2_def)
  ultimately have s2: "wallet_sorted w2" by (simp only: wallet_sorted_def)
  have sh: "same_shape (wl_allTx w) (wl_allTx w2)" by (simp add: w2_def shape_retimed t)
  obtain r where r: "ranked r (wl_allTx w2)" using d(4) shape_ranked [OF sh] by blast
  have sub: "set (wl_transactions w2) \<subseteq> dom (wl_allTx w2)"
    using d(1) xy by (auto simp: wallet_store_def w2_def)
  have tx2: "wl_allTx w2 (tx_txHash ?t) = Some ?t" by (simp add: w2_def th)
  obtain us vs where uv: "wl_transactions w2 = us @ vs"
    "BRWalletInsertTx w2 ?t = Some (w2\<lparr>wl_transactions := us @ tx_txHash ?t # vs\<rparr>)"
    "wallet_sorted (w2\<lparr>wl_transactions := us @ tx_txHash ?t # vs\<rparr>)"
    using InsertTx_ok [OF r tx2 sub s2] by blast
  define w3 where "w3 = w2\<lparr>wl_transactions := us @ h # vs\<rparr>"
  have e: "us @ vs = xs @ ys" using uv(1) by (simp add: w2_def)
  have "mset (us @ vs) = mset (xs @ ys)" using e by simp
  then have m: "mset (wl_transactions w3) = mset (wl_transactions w)" by (simp add: w3_def xy)
  have w3: "wl_allTx w3 = (wl_allTx w)(h \<mapsto> ?t)" "wl_allAddrs w3 = wl_allAddrs w" "wl_utxos w3 = wl_utxos w"
    "wl_balance w3 = wl_balance w" "wl_balanceHist w3 = wl_balanceHist w" by (simp_all add: w3_def w2_def)
  have sh3: "same_shape (wl_allTx w) (wl_allTx w3)" by (simp add: w3 shape_retimed t)
  have "wallet_order w3"
  proof (rule shape_order [OF sh3 inv_order [OF inv] m w3(2)])
    show "addrs_consistent w3" using d(3) by (simp add: addrs_consistent_def w3_def w2_def)
    show "wallet_sorted w3" using uv(3) th by (simp add: w3_def)
    show "height w3 k \<le> TX_UNCONFIRMED" if "k \<in> set (wl_transactions w)" for k
      using d(5) [OF that] bh by (simp add: height_def tx_of_def w3)
  qed
  moreover have "wallet_funds w3"
    by (rule shape_funds [OF sh3 w3(2,3,4)]) (use inv in \<open>simp add: wallet_inv_def\<close>)
  moreover have "length (wl_transactions w3) = length (wl_transactions w)" using mset_eq_length [OF m] .
  ultimately have "wallet_inv w3" using inv w3(5) by (simp add: wallet_inv_def)
  moreover have "reinsert_tx ?t (w\<lparr>wl_allTx := (wl_allTx w)(h \<mapsto> ?t)\<rparr>) = Some w3"
    using li uv(2) th by (simp add: reinsert_tx_def xy rm_at_append w3_def w2_def)
  ultimately show ?thesis using w3(1) m by blast
qed

text \<open>The object of a transaction that is stored but not registered is changed.\<close>

lemma retime_stored_ok:
  assumes inv: "wallet_inv w" and t: "wl_allTx w h = Some t" and h: "h \<notin> set (wl_transactions w)"
  shows "wallet_inv (w\<lparr>wl_allTx := (wl_allTx w)(h \<mapsto> retimed t ts bh)\<rparr>)" (is "wallet_inv ?w")
proof -
  note d = wallet_orderD [OF inv_order [OF inv]]
  have sh: "same_shape (wl_allTx w) (wl_allTx ?w)" by (simp add: shape_retimed t)
  have hts: "height ?w k = height w k" if "k \<in> set (wl_transactions w)" for k
    using that h by (auto simp: height_def tx_of_def)
  then have m: "map (height ?w) (wl_transactions w) = map (height w) (wl_transactions w)" by simp
  have "wallet_order ?w"
  proof (rule shape_order [OF sh inv_order [OF inv]])
    have "wl_transactions ?w = wl_transactions w" by simp
    then show "wallet_sorted ?w" using d(2) m by (simp only: wallet_sorted_def)
    show "height ?w k \<le> TX_UNCONFIRMED" if "k \<in> set (wl_transactions w)" for k
      using d(5) [OF that] hts [OF that] by simp
  qed (use d(3) in \<open>simp_all add: addrs_consistent_def\<close>)
  moreover have "wallet_funds ?w"
    by (rule shape_funds [OF sh]) (use inv in \<open>simp_all add: wallet_inv_def\<close>)
  ultimately show ?thesis using inv by (simp add: wallet_inv_def)
qed

text \<open>A stored transaction without an output to the wallet that is not registered is freed.\<close>

lemma free_stored_ok:
  assumes inv: "wallet_inv w" and t: "wl_allTx w h = Some t" and h: "h \<notin> set (wl_transactions w)"
    and n: "\<not> owned_by w t"
  shows "wallet_inv (w\<lparr>wl_allTx := (wl_allTx w)(h := None)\<rparr>)" (is "wallet_inv ?w")
proof -
  note d = wallet_orderD [OF inv_order [OF inv]]
  have tx: "tx_of ?w k = tx_of w k" if "k \<in> set (wl_transactions w)" for k
    using that h by (auto simp: tx_of_def)
  then have m: "map (height ?w) (wl_transactions w) = map (height w) (wl_transactions w)" by (simp add: height_def)
  have "wl_transactions ?w = wl_transactions w" by simp
  then have srt: "wallet_sorted ?w" using d(2) m by (simp only: wallet_sorted_def)
  have out: "wallet_output ?w i = wallet_output w i"
    if "wallet_output w i = Some out" "out_address out \<in> wl_allAddrs w" for i out
    using that n t by (auto simp: wallet_output_def owned_by_def nth_opt_def split: if_splits)
  have "BRWalletContainsTx ?w u" if c: "BRWalletContainsTx w u" for u
  proof (cases "owned_by w u")
    case True
    then show ?thesis by (simp add: contains_iff owned_by_def)
  next
    case False
    then obtain i out where i: "i \<in> set (tx_inputs u)" "wallet_output w i = Some out" "out_address out \<in> wl_allAddrs w"
      using c unfolding contains_iff by blast
    then have "wallet_output ?w i = Some out" using out by simp
    then show ?thesis using i unfolding contains_iff by auto
  qed
  moreover have "wallet_store ?w" using d(1) h by (auto simp: wallet_store_def)
  moreover obtain r where "ranked r (wl_allTx w)" using d(4) by blast
  then have "ranked r (wl_allTx ?w)" by (auto simp: ranked_def split: if_splits)
  moreover have "addrs_consistent ?w" using d(3) by (simp add: addrs_consistent_def)
  moreover have "height ?w k \<le> TX_UNCONFIRMED \<and> tx_of ?w k = tx_of w k" if "k \<in> set (wl_transactions w)" for k
    using d(5) [OF that] tx [OF that] by (simp add: height_def)
  moreover note srt
  ultimately have "wallet_order ?w" using d(6) unfolding wallet_order_def by (metis \<open>wl_transactions ?w = wl_transactions w\<close>)
  moreover have "wallet_funds ?w"
  proof (rule funds_mono)
    show "wallet_funds w" using inv by (simp add: wallet_inv_def)
    fix u assume "u \<in> set (wl_utxos w)"
    then have "own_output w u" using inv by (simp add: wallet_inv_def wallet_funds_def)
    then obtain out where o: "utxo_output w u = Some out" "out_address out \<noteq> []" "out_address out \<in> wl_allAddrs w"
      by (auto simp: own_output_def)
    have "utxo_output ?w u = Some out"
      using o n t by (auto simp: utxo_output_def owned_by_def nth_opt_def split: if_splits)
    then show "own_output ?w u \<and> utxo_amount ?w u = utxo_amount w u" using o by (simp add: own_output_def utxo_amount_def)
  qed simp_all
  ultimately show ?thesis using inv by (simp add: wallet_inv_def)
qed
lemma update_step_ok:
  assumes inv: "wallet_inv w" and bh: "bh \<le> TX_UNCONFIRMED"
  shows "\<exists>w' hs' n'. update_step bh ts h (w, hs, n) = Some (w', hs', n') \<and> wallet_inv w' \<and>
    mset (wl_transactions w') = mset (wl_transactions w) \<and>
    (\<forall>k\<in>set (wl_transactions w). tx_of w' k = (if k = h then retimed (tx_of w k) ts bh else tx_of w k))"
proof (cases "wl_allTx w h")
  case None
  then have "h \<notin> set (wl_transactions w)"
    using wallet_storeD(3) [OF wallet_orderD(1) [OF inv_order [OF inv]], of h] by auto
  then show ?thesis using None inv
    by (intro exI [of _ w] exI [of _ hs] exI [of _ n]) (auto simp: update_step_def)
next
  case (Some t)
  let ?w = "w\<lparr>wl_allTx := (wl_allTx w)(h \<mapsto> retimed t ts bh)\<rparr>"
  show ?thesis
  proof (cases "tx_blockHeight t = bh \<and> tx_timestamp t = ts")
    case True
    then have "retimed t ts bh = t" by (cases t) (simp add: retimed_def)
    then show ?thesis using True Some inv
      by (intro exI [of _ w] exI [of _ hs] exI [of _ n]) (auto simp: update_step_def tx_of_def)
  next
    case upd: False
    have sh: "same_shape (wl_allTx w) (wl_allTx ?w)" by (simp add: shape_retimed Some)
    have c: "BRWalletContainsTx ?w (retimed t ts bh) = BRWalletContainsTx w t"
      by (rule shape_contains [OF sh]) simp_all
    have eq: "update_step bh ts h (w, hs, n) =
      (if BRWalletContainsTx w t
       then do {
         w' \<leftarrow> reinsert_tx (retimed t ts bh) ?w;
         Some (w', hs @ [h], n \<or> tx_txHash t \<in> wl_pendingTx w' \<or> tx_txHash t \<in> wl_invalidTx w')
       }
       else if bh \<noteq> TX_UNCONFIRMED then Some (w\<lparr>wl_allTx := (wl_allTx w)(h := None)\<rparr>, hs, n)
       else Some (?w, hs, n))"
      unfolding c [symmetric] by (simp add: update_step_def Some upd retimed_def Let_def)
    show ?thesis
    proof (cases "h \<in> set (wl_transactions w)")
      case True
      obtain w' where w': "reinsert_tx (retimed t ts bh) ?w = Some w'" "wallet_inv w'"
        "wl_allTx w' = (wl_allTx w)(h \<mapsto> retimed t ts bh)" "mset (wl_transactions w') = mset (wl_transactions w)"
        using reinsert_ok [OF inv Some True bh] by blast
      have "BRWalletContainsTx w t"
        using wallet_orderD(6) [OF inv_order [OF inv] True] Some by (simp add: tx_of_def)
      then have st: "\<exists>hs' n'. update_step bh ts h (w, hs, n) = Some (w', hs', n')" using eq w'(1) by simp
      have "\<forall>k\<in>set (wl_transactions w). tx_of w' k = (if k = h then retimed (tx_of w k) ts bh else tx_of w k)"
        using w'(3) Some by (simp add: tx_of_def)
      then show ?thesis using st w'(2,4) by blast
    next
      case h: False
      have th: "tx_txHash t = h" using wallet_storeD(1) [OF wallet_orderD(1) [OF inv_order [OF inv]] Some] .
      have li: "last_index_of h (wl_transactions w) (length (wl_transactions w)) = None"
        using h by (simp add: last_index_None)
      have i1: "wallet_inv ?w" by (rule retime_stored_ok [OF inv Some h])
      have tx: "tx_of (w\<lparr>wl_allTx := (wl_allTx w)(h := x)\<rparr>) k = tx_of w k" if "k \<in> set (wl_transactions w)" for k x
        using that h by (auto simp: tx_of_def)
      have kh: "k \<noteq> h" if "k \<in> set (wl_transactions w)" for k using that h by blast
      show ?thesis
      proof (cases "BRWalletContainsTx w t \<or> bh = TX_UNCONFIRMED")
        case True
        then have st: "\<exists>hs' n'. update_step bh ts h (w, hs, n) = Some (?w, hs', n')"
          using eq li th by (cases "BRWalletContainsTx w t") (simp_all add: reinsert_tx_def)
        have "\<forall>k\<in>set (wl_transactions w). tx_of ?w k = (if k = h then retimed (tx_of w k) ts bh else tx_of w k)"
          using tx kh by simp
        moreover have "mset (wl_transactions ?w) = mset (wl_transactions w)" by simp
        ultimately show ?thesis using st i1 by blast
      next
        case False
        let ?v = "w\<lparr>wl_allTx := (wl_allTx w)(h := None)\<rparr>"
        have "\<not> owned_by w t" using False by (auto simp: contains_iff)
        then have i2: "wallet_inv ?v" by (rule free_stored_ok [OF inv Some h])
        have st: "\<exists>hs' n'. update_step bh ts h (w, hs, n) = Some (?v, hs', n')" using eq False by simp
        have "\<forall>k\<in>set (wl_transactions w). tx_of ?v k = (if k = h then retimed (tx_of w k) ts bh else tx_of w k)"
          using tx kh by simp
        moreover have "mset (wl_transactions ?v) = mset (wl_transactions w)" by simp
        ultimately show ?thesis using st i2 by blast
      qed
    qed
  qed
qed

lemma UpdateTransactions_ok:
  assumes inv: "wallet_inv w" and bh: "bh \<le> TX_UNCONFIRMED"
  shows "\<exists>w'. BRWalletUpdateTransactions now w hs bh ts = Some w' \<and> wallet_inv w' \<and>
    mset (wl_transactions w') = mset (wl_transactions w) \<and>
    (\<forall>k\<in>set (wl_transactions w). tx_of w' k = (if k \<in> set hs then retimed (tx_of w k) ts bh else tx_of w k))"
proof -
  define w0 where "w0 = (if bh > wl_blockHeight w then w\<lparr>wl_blockHeight := bh\<rparr> else w)"
  have i0: "wallet_inv w0" by (rule inv_cong [OF inv]) (simp_all add: w0_def)
  have t0: "wl_transactions w0 = wl_transactions w" "tx_of w0 = tx_of w" by (auto simp: w0_def tx_of_def fun_eq_iff)
  let ?I = "\<lambda>ys (w', hs' :: UInt256 list, n' :: bool). wallet_inv w' \<and> mset (wl_transactions w') = mset (wl_transactions w) \<and>
    (\<forall>k\<in>set (wl_transactions w). tx_of w' k = (if k \<in> set ys then retimed (tx_of w k) ts bh else tx_of w k))"
  have "\<exists>s. fold_opt (update_step bh ts) hs (w0, [], False) = Some s \<and> ?I hs s"
  proof (rule fold_opt_inv [where I = ?I])
    fix ys h s assume i: "?I ys s"
    obtain w1 hs1 n1 where s: "s = (w1, hs1, n1)" by (cases s)
    have i1: "wallet_inv w1" "mset (wl_transactions w1) = mset (wl_transactions w)"
      "\<forall>k\<in>set (wl_transactions w). tx_of w1 k = (if k \<in> set ys then retimed (tx_of w k) ts bh else tx_of w k)"
      using i by (simp_all add: s)
    have e: "set (wl_transactions w1) = set (wl_transactions w)" by (rule mset_eq_setD [OF i1(2)])
    obtain w2 hs2 n2 where u: "update_step bh ts h (w1, hs1, n1) = Some (w2, hs2, n2)" "wallet_inv w2"
      "mset (wl_transactions w2) = mset (wl_transactions w1)"
      "\<forall>k\<in>set (wl_transactions w1). tx_of w2 k = (if k = h then retimed (tx_of w1 k) ts bh else tx_of w1 k)"
      using update_step_ok [OF i1(1) bh] by blast
    have r: "retimed (retimed t ts bh) ts bh = retimed t ts bh" for t by (simp add: retimed_def)
    have "\<forall>k\<in>set (wl_transactions w). tx_of w2 k = (if k \<in> set (ys @ [h]) then retimed (tx_of w k) ts bh else tx_of w k)"
      using u(4) i1(3) e r by simp
    then have "?I (ys @ [h]) (w2, hs2, n2)" using u(2,3) i1(2) by simp
    then show "\<exists>s'. update_step bh ts h s = Some s' \<and> ?I (ys @ [h]) s'" using u(1) s by blast
  next
    show "?I [] (w0, [], False)" using i0 by (simp add: t0)
  qed
  then obtain w1 hs1 n1 where f: "fold_opt (update_step bh ts) hs (w0, [], False) = Some (w1, hs1, n1)"
    and i1: "wallet_inv w1" "mset (wl_transactions w1) = mset (wl_transactions w)"
      "\<forall>k\<in>set (wl_transactions w). tx_of w1 k = (if k \<in> set hs then retimed (tx_of w k) ts bh else tx_of w k)" by auto
  obtain w2 where w2: "(if n1 then BRWalletUpdateBalance now w1 else Some w1) = Some w2" "wallet_inv w2"
    "wl_allTx w2 = wl_allTx w1" "wl_transactions w2 = wl_transactions w1"
    using UpdateBalance_ok [OF inv_order [OF i1(1)], of now] i1(1) by (cases n1) (auto simp: same_base_def)
  define w3 where "w3 = (if hs1 \<noteq> [] then wallet_event (TxUpdated hs1 bh ts) w2 else w2)"
  have w3: "wallet_inv w3" "wl_transactions w3 = wl_transactions w1" "tx_of w3 = tx_of w1"
    using event_inv [OF w2(2)] w2 by (auto simp: w3_def wallet_event_same tx_of_def fun_eq_iff)
  have "BRWalletUpdateTransactions now w hs bh ts = Some w3"
    unfolding BRWalletUpdateTransactions_def Let_def w0_def [symmetric] f using w2(1) by (simp add: w3_def)
  then show ?thesis using w3 i1(2,3) by simp
qed
section \<open>Reorganization\<close>

lemma confirmed_after_ok:
  assumes sub: "set (wl_transactions w) \<subseteq> dom (wl_allTx w)"
  shows "n \<le> length (wl_transactions w) \<Longrightarrow> \<exists>i\<le>n. confirmed_after (wl_allTx w) bh (wl_transactions w) n = Some i \<and>
    (\<forall>j. i \<le> j \<and> j < n \<longrightarrow> height w (wl_transactions w ! j) > bh) \<and>
    (0 < i \<longrightarrow> height w (wl_transactions w ! (i - 1)) \<le> bh)"
proof (induction n)
  case (Suc n)
  have "wl_transactions w ! n \<in> set (wl_transactions w)" using Suc.prems by simp
  then obtain t where t: "wl_allTx w (wl_transactions w ! n) = Some t" using sub by blast
  then have h: "height w (wl_transactions w ! n) = tx_blockHeight t" by (simp add: height_def tx_of_def)
  show ?case
  proof (cases "tx_blockHeight t > bh")
    case True
    obtain i where i: "i \<le> n" "confirmed_after (wl_allTx w) bh (wl_transactions w) n = Some i"
      "\<forall>j. i \<le> j \<and> j < n \<longrightarrow> height w (wl_transactions w ! j) > bh"
      "0 < i \<longrightarrow> height w (wl_transactions w ! (i - 1)) \<le> bh" using Suc by auto
    then show ?thesis using True t h by (intro exI [of _ i]) (auto simp: less_Suc_eq)
  next
    case False
    then show ?thesis using t h by (intro exI [of _ "Suc n"]) auto
  qed
qed simp

lemma set_unconfirmed_fold:
  "set hs \<subseteq> dom (wl_allTx w) \<Longrightarrow> fold_opt set_unconfirmed hs w =
    Some (w\<lparr>wl_allTx := (\<lambda>k. if k \<in> set hs then map_option (\<lambda>t. t\<lparr>tx_blockHeight := TX_UNCONFIRMED\<rparr>) (wl_allTx w k)
      else wl_allTx w k)\<rparr>)"
proof (induction hs arbitrary: w)
  case (Cons h hs)
  obtain t where t: "wl_allTx w h = Some t" using Cons.prems by auto
  define w1 where "w1 = w\<lparr>wl_allTx := (wl_allTx w)(h \<mapsto> t\<lparr>tx_blockHeight := TX_UNCONFIRMED\<rparr>)\<rparr>"
  have "set hs \<subseteq> dom (wl_allTx w1)" using Cons.prems by (auto simp: w1_def)
  from Cons.IH [OF this] show ?case
    using t by (simp add: set_unconfirmed_def w1_def [symmetric]) (simp add: w1_def fun_eq_iff)
qed simp

lemma SetTxUnconfirmedAfter_ok:
  assumes inv: "wallet_inv w" and bh: "bh \<le> TX_UNCONFIRMED"
  shows "\<exists>w'. BRWalletSetTxUnconfirmedAfter now w bh = Some w' \<and> wallet_inv w' \<and> wl_blockHeight w' = bh \<and>
    wl_transactions w' = wl_transactions w \<and>
    (\<forall>k\<in>set (wl_transactions w). height w' k = (if height w k > bh then TX_UNCONFIRMED else height w k))"
proof -
  let ?ts = "wl_transactions w"
  note d = wallet_orderD [OF inv_order [OF inv]]
  have sub: "set ?ts \<subseteq> dom (wl_allTx w)" using d(1) by (simp add: wallet_store_def)
  define w0 where "w0 = w\<lparr>wl_blockHeight := bh\<rparr>"
  have w0: "wl_allTx w0 = wl_allTx w" "wl_transactions w0 = ?ts" by (simp_all add: w0_def)
  obtain i where i: "i \<le> length ?ts" "confirmed_after (wl_allTx w) bh ?ts (length ?ts) = Some i"
    "\<forall>j. i \<le> j \<and> j < length ?ts \<longrightarrow> height w (?ts ! j) > bh" "0 < i \<longrightarrow> height w (?ts ! (i - 1)) \<le> bh"
    using confirmed_after_ok [OF sub, of "length ?ts" bh] by blast
  define xs ys where "xs = take i ?ts" "ys = drop i ?ts"
  have xy: "?ts = xs @ ys" by (simp add: xs_ys_def)
  have hi: "height w k > bh" if "k \<in> set ys" for k
    using i(3) that by (fastforce simp: xs_ys_def in_set_conv_nth)
  have lo: "height w k \<le> bh" if kx: "k \<in> set xs" for k
  proof -
    obtain j where j: "j < i" "j < length ?ts" "k = ?ts ! j" using kx by (auto simp: xs_ys_def in_set_conv_nth)
    have "height w (?ts ! j) \<le> height w (?ts ! (i - 1))"
      using d(2) j i(1) sorted_nth_mono [of "map (height w) ?ts" j "i - 1"] by (simp add: wallet_sorted_def)
    then show ?thesis using i(4) j by simp
  qed
  define w1 where "w1 = w0\<lparr>wl_allTx := (\<lambda>k. if k \<in> set ys then map_option (\<lambda>t. t\<lparr>tx_blockHeight := TX_UNCONFIRMED\<rparr>) (wl_allTx w k)
    else wl_allTx w k)\<rparr>"
  have f: "fold_opt set_unconfirmed ys w0 = Some w1"
    unfolding w1_def w0(1) [symmetric] by (rule set_unconfirmed_fold) (use sub xy in \<open>simp add: w0\<close>)
  have w1: "wl_transactions w1 = ?ts" "wl_allAddrs w1 = wl_allAddrs w" "wl_utxos w1 = wl_utxos w"
    "wl_balance w1 = wl_balance w" "wl_balanceHist w1 = wl_balanceHist w" "wl_blockHeight w1 = bh"
    by (simp_all add: w1_def w0_def)
  have sh: "same_shape (wl_allTx w) (wl_allTx w1)"
    by (auto simp: same_shape_def w1_def option.map_comp comp_def)
  have hts: "height w1 k = (if k \<in> set ys then TX_UNCONFIRMED else height w k)" if kt: "k \<in> set ?ts" for k
  proof -
    obtain t where "wl_allTx w k = Some t" using kt sub by blast
    then show ?thesis by (simp add: height_def tx_of_def w1_def)
  qed
  have "distinct (xs @ ys)" using xy wallet_storeD(4) [OF d(1)] by simp
  then have dis: "k \<notin> set ys" if "k \<in> set xs" for k using that by auto
  have m: "map (height w1) xs = map (height w) xs" "map (height w1) ys = map (\<lambda>_. TX_UNCONFIRMED) ys"
    using hts dis xy by auto
  have "sorted (map (height w) xs)" using d(2) xy by (simp add: wallet_sorted_def sorted_append)
  moreover have "\<forall>k\<in>set xs. height w k \<le> TX_UNCONFIRMED" using d(5) xy by simp
  ultimately have "sorted (map (height w1) (xs @ ys))"
    unfolding map_append m by (auto simp: sorted_append map_replicate_const)
  then have srt: "wallet_sorted w1" by (simp only: wallet_sorted_def w1(1) xy)
  have o1: "wallet_order w1"
    by (rule shape_order [OF sh inv_order [OF inv] _ w1(2) _ srt])
      (use d(3,5) hts in \<open>auto simp: w1(1), simp add: addrs_consistent_def w1_def w0_def\<close>)
  have i1: "wallet_inv w1"
    using o1 inv shape_funds [OF sh w1(2,3,4)] w1 by (simp add: wallet_inv_def)
  have end_heights: "height w1 k = (if height w k > bh then TX_UNCONFIRMED else height w k)" if "k \<in> set ?ts" for k
    using hts [OF that] hi [of k] lo [of k] that xy by auto
  have step: "BRWalletSetTxUnconfirmedAfter now w bh =
    (if ys \<noteq> [] then do { w \<leftarrow> BRWalletUpdateBalance now w1; Some (wallet_event (TxUpdated ys TX_UNCONFIRMED 0) w) }
     else Some w1)"
    unfolding BRWalletSetTxUnconfirmedAfter_def Let_def w0_def [symmetric] w0 i(2) bind.bind_lunit
      xs_ys_def(2) [symmetric] f by simp
  show ?thesis
  proof (cases "ys = []")
    case True
    then show ?thesis using step i1 w1 end_heights by simp
  next
    case False
    obtain w2 where w2: "BRWalletUpdateBalance now w1 = Some w2" "wallet_inv w2" "same_base w1 w2"
      using UpdateBalance_ok [OF o1, of now] by blast
    define w3 where "w3 = wallet_event (TxUpdated ys TX_UNCONFIRMED 0) w2"
    have "wallet_inv w3" unfolding w3_def by (rule event_inv [OF w2(2)])
    moreover have e: "wl_allTx w3 = wl_allTx w1" "wl_transactions w3 = ?ts" "wl_blockHeight w3 = bh"
      using w2(3) w1 by (simp_all add: w3_def same_base_def wallet_event_def)
    moreover have "height w3 = height w1" by (rule height_cong [OF e(1)])
    ultimately show ?thesis using step False w2(1) end_heights by (simp add: w3_def)
  qed
qed
lemma unused_from_take: "unused_from U chain i \<Longrightarrow> set (take n (drop i chain)) \<inter> U = {}"
  by (auto simp: unused_from_def in_set_conv_nth)

section \<open>Properties\<close>

text \<open>Addresses that are the bytes of their index, behind a 1.\<close>

definition demo_env :: "u8 list wallet_env" where
  "demo_env = \<lparr>we_pubKey = (\<lambda>chain i. UInt32SetLE i), we_setPubKey = Some,
     we_keys = \<lparr>keyAddress = (\<lambda>k. Some (1 # k)), keyPubKey = (\<lambda>k. k), keySign = (\<lambda>k m. [])\<rparr>,
     we_privKey = (\<lambda>seed chain i. UInt32SetLE i), we_now = 0, we_rands = [], we_moved = False\<rparr>"

definition demo_start :: BRWallet where
  "demo_start = wallet_empty\<lparr>wl_externalChain := [[50]], wl_allAddrs := {[50]}\<rparr>"

lemma demo_derive: "chain_derive demo_env internal k = Some (1 # UInt32SetLE (word_of_nat k))"
  by (simp add: chain_derive_def derive_address_def demo_env_def)

lemma demo_start_inv: "wallet_inv demo_start"
  by (simp add: wallet_inv_def wallet_order_def wallet_store_def wallet_sorted_def addrs_consistent_def
      wallet_funds_def ranked_def demo_start_def wallet_empty_def)

lemma demo_registrable: "registrable demo_env demo_start demo_tx"
proof -
  have t: "(wl_allTx demo_start)(tx_txHash demo_tx \<mapsto> demo_tx) = [1 \<mapsto> demo_tx]"
    by (simp add: demo_start_def wallet_empty_def demo_tx_def)
  have u: "(\<Union>t\<in>ran [1 \<mapsto> demo_tx]. used_by t) = {[49], [50]}" by (auto simp: used_by_def demo_tx_def)
  have "ranked (\<lambda>_. 0) [1 \<mapsto> demo_tx]" by (auto simp: ranked_def demo_tx_def split: if_splits)
  moreover have "gaps_ahead demo_env {[49], [50]} demo_start"
    by (auto simp: gaps_ahead_def gap_ahead_def demo_derive)
  moreover have "BRTransactionIsSigned demo_tx" "length (tx_outputs demo_tx) < 2 ^ 32" "tx_blockHeight demo_tx \<le> TX_UNCONFIRMED"
    by (simp_all add: BRTransactionIsSigned_def demo_tx_def TX_UNCONFIRMED_def)
  ultimately show ?thesis unfolding registrable_def Let_def t u by blast
qed

text \<open>An unconfirmed transaction that has nothing to do with the wallet is refused, and accepted the second time.\<close>

lemma register_again:
  assumes "BRTransactionIsSigned tx" "wl_allTx w (tx_txHash tx) = None" "\<not> BRWalletContainsTx w tx"
    "tx_blockHeight tx = TX_UNCONFIRMED"
  shows "\<exists>w'. BRWalletRegisterTransaction env w tx = Some (False, w') \<and>
    BRWalletRegisterTransaction env w' tx = Some (True, w') \<and> wl_transactions w' = wl_transactions w"
  using assms by (simp add: BRWalletRegisterTransaction_def)

text \<open>C5: registering a signed transaction in a wallet that satisfies its invariant returns and keeps the
  invariant, with addresses generated behind the ones it uses. It succeeds exactly if the transaction is known
  or associated with the wallet; a new one enters the ordered list once, at its place, and the store. A known
  transaction need not be associated with the wallet: an unconfirmed one that is not gives false, but is stored, so
  that registering it again gives true, where the comment of the function promises false.\<close>

theorem BRWalletRegisterTransaction_correct:
  assumes "wallet_inv w" "registrable env w tx"
  shows "\<exists>r w'. BRWalletRegisterTransaction env w tx = Some (r, w') \<and> wallet_inv w' \<and>
    (r \<longleftrightarrow> wl_allTx w (tx_txHash tx) \<noteq> None \<or> BRWalletContainsTx w tx) \<and>
    (if wl_allTx w (tx_txHash tx) \<noteq> None then w' = w
     else if r then wl_allTx w' = (wl_allTx w)(tx_txHash tx \<mapsto> tx) \<and>
       mset (wl_transactions w') = add_mset (tx_txHash tx) (mset (wl_transactions w))
     else wl_transactions w' = wl_transactions w \<and> wl_utxos w' = wl_utxos w)"
  by (rule Register_ok [OF assms])

theorem BRWalletRegisterTransaction_correct_witness:
  "\<exists>w'. BRWalletRegisterTransaction demo_env demo_start demo_tx = Some (True, w') \<and> wallet_inv w' \<and>
    mset (wl_transactions w') = {#1#}"
proof -
  have "BRWalletContainsTx demo_start demo_tx" "wl_allTx demo_start = Map.empty" "wl_transactions demo_start = []"
    "tx_txHash demo_tx = 1"
    by (simp_all add: BRWalletContainsTx_def demo_start_def wallet_empty_def demo_tx_def)
  then show ?thesis
    using BRWalletRegisterTransaction_correct [OF demo_start_inv demo_registrable] by auto
qed

text \<open>C33: giving a list of transactions a height and a time stamp returns and keeps the wallet's invariant: the
  same transactions are registered, again in the order of their heights, exactly the listed ones have the new
  height and time stamp, and nothing the unspent outputs refer to is freed.\<close>

theorem BRWalletUpdateTransactions_correct:
  assumes "wallet_inv w" "bh \<le> TX_UNCONFIRMED"
  shows "\<exists>w'. BRWalletUpdateTransactions now w hs bh ts = Some w' \<and> wallet_inv w' \<and>
    mset (wl_transactions w') = mset (wl_transactions w) \<and>
    (\<forall>k\<in>set (wl_transactions w). tx_of w' k = (if k \<in> set hs then retimed (tx_of w k) ts bh else tx_of w k))"
  by (rule UpdateTransactions_ok [OF assms])

lemma demo_inv: "\<exists>w. wallet_inv w \<and> wl_transactions w = [1] \<and> height w 1 = 100"
proof -
  have "BRWalletContainsTx demo_start demo_tx" "wl_allTx demo_start = Map.empty" "wl_transactions demo_start = []"
    "tx_txHash demo_tx = 1" "tx_blockHeight demo_tx = 100"
    by (simp_all add: BRWalletContainsTx_def demo_start_def wallet_empty_def demo_tx_def)
  then show ?thesis
    using Register_ok [OF demo_start_inv demo_registrable] by (auto simp: height_def tx_of_def)
qed

theorem BRWalletUpdateTransactions_correct_witness:
  "\<exists>w w'. wl_transactions w = [1] \<and> height w 1 = 100 \<and> BRWalletUpdateTransactions 0 w [1, 7] 120 5 = Some w' \<and>
    wl_transactions w' = [1] \<and> height w' 1 = 120"
proof -
  obtain w where w: "wallet_inv w" "wl_transactions w = [1]" "height w 1 = 100" using demo_inv by blast
  obtain w' where "BRWalletUpdateTransactions 0 w [1, 7] 120 5 = Some w'"
    "mset (wl_transactions w') = mset (wl_transactions w)"
    "\<forall>k\<in>set (wl_transactions w). tx_of w' k = (if k \<in> set [1, 7] then retimed (tx_of w k) 5 120 else tx_of w k)"
    using BRWalletUpdateTransactions_correct [OF w(1), of 120 0 "[1, 7]" 5] by (auto simp: TX_UNCONFIRMED_def)
  then show ?thesis using w by (intro exI [of _ w] exI [of _ w']) (simp add: height_def)
qed

text \<open>After a reorganization of the block chain down to a height, the registered transactions above it are
  unconfirmed and the others as they were, in an unchanged list that is still ordered, and the wallet's
  invariant holds.\<close>

theorem BRWalletSetTxUnconfirmedAfter_correct:
  assumes "wallet_inv w" "bh \<le> TX_UNCONFIRMED"
  shows "\<exists>w'. BRWalletSetTxUnconfirmedAfter now w bh = Some w' \<and> wallet_inv w' \<and> wl_blockHeight w' = bh \<and>
    wl_transactions w' = wl_transactions w \<and>
    (\<forall>k\<in>set (wl_transactions w). height w' k = (if height w k > bh then TX_UNCONFIRMED else height w k))"
  by (rule SetTxUnconfirmedAfter_ok [OF assms])

theorem BRWalletSetTxUnconfirmedAfter_correct_witness:
  "\<exists>w w'. height w 1 = 100 \<and> BRWalletSetTxUnconfirmedAfter 0 w 99 = Some w' \<and> height w' 1 = TX_UNCONFIRMED"
proof -
  obtain w where w: "wallet_inv w" "wl_transactions w = [1]" "height w 1 = 100" using demo_inv by blast
  then show ?thesis
    using BRWalletSetTxUnconfirmedAfter_correct [OF w(1), of 99 0] by (auto simp: TX_UNCONFIRMED_def)
qed

text \<open>C32: asking for unused addresses returns them: the chain is extended only at its end, by the addresses
  derived for the next indices, until \<open>gap\<close> addresses follow the last used one; these are the result, none of
  them used, and all addresses of both chains are in the set of the wallet's addresses. Only a failed
  derivation gives fewer.\<close>

theorem BRWalletUnusedAddrs_correct:
  assumes "addrs_consistent w" "0 < gap"
    "gap_ahead (chain_derive env internal) (wl_usedAddrs w) gap (length (chain_of w internal))"
  shows "\<exists>addrs w' i new. BRWalletUnusedAddrs env w True gap internal = Some (addrs, w') \<and>
    chain_of w' internal = chain_of w internal @ new \<and> addrs_consistent w' \<and>
    (\<forall>j<length new. chain_derive env internal (length (chain_of w internal) + j) = Some (new ! j)) \<and>
    unused_from (wl_usedAddrs w) (chain_of w' internal) i \<and>
    (chain_derive env internal (length (chain_of w' internal)) \<noteq> None \<longrightarrow>
       addrs = take gap (drop i (chain_of w' internal)) \<and> length addrs = gap \<and> set addrs \<inter> wl_usedAddrs w = {} \<and>
       set addrs \<subseteq> wl_allAddrs w')"
proof -
  let ?c = "chain_of w internal"
  obtain i new where r: "BRWalletUnusedAddrs env w True gap internal =
      Some (if True \<and> i + gap \<le> length (?c @ new) then take gap (drop i (?c @ new)) else [], extend_chain w internal new)"
    and u: "unused_from (wl_usedAddrs w) (?c @ new) i"
    and n: "\<forall>j<length new. chain_derive env internal (length ?c + j) = Some (new ! j)"
    and g: "i + gap \<le> length (?c @ new) \<or> chain_derive env internal (length (?c @ new)) = None"
    using UnusedAddrs_ok [OF assms, of True] by blast
  let ?w = "extend_chain w internal new" and ?a = "take gap (drop i (?c @ new))"
  have c: "chain_of ?w internal = ?c @ new" by (rule chain_of_extend)
  have "set ?a \<inter> wl_usedAddrs w = {}"
    by (rule unused_from_take [OF u])
  moreover have "addrs_consistent ?w" by (rule extend_chain_consistent [OF assms(1)])
  moreover have "set ?a \<subseteq> wl_allAddrs ?w"
  proof -
    have "set ?a \<subseteq> set (?c @ new)" using set_take_subset set_drop_subset by (metis order.trans)
    also have "\<dots> \<subseteq> wl_allAddrs ?w"
      using assms(1) by (auto simp: addrs_consistent_def extend_chain_def chain_of_def split: if_splits)
    finally show ?thesis .
  qed
  ultimately have p: "set ?a \<inter> wl_usedAddrs w = {}" "addrs_consistent ?w" "set ?a \<subseteq> wl_allAddrs ?w" by blast+
  show ?thesis
  proof (intro exI conjI impI)
    show "BRWalletUnusedAddrs env w True gap internal =
      Some (if True \<and> i + gap \<le> length (?c @ new) then ?a else [], ?w)" by (rule r)
    show "chain_of ?w internal = ?c @ new" "addrs_consistent ?w" by (rule c p(2))+
    show "\<forall>j<length new. chain_derive env internal (length ?c + j) = Some (new ! j)" by (rule n)
    show "unused_from (wl_usedAddrs w) (chain_of ?w internal) i" unfolding c by (rule u)
    assume "chain_derive env internal (length (chain_of ?w internal)) \<noteq> None"
    then have "chain_derive env internal (length (?c @ new)) \<noteq> None" by (simp only: c not_False_eq_True)
    then have i: "i + gap \<le> length (?c @ new)" using g by argo
    then have "(if True \<and> i + gap \<le> length (?c @ new) then ?a else []) = ?a" by simp
    then show "(if True \<and> i + gap \<le> length (?c @ new) then ?a else []) = take gap (drop i (chain_of ?w internal))"
      "set (if True \<and> i + gap \<le> length (?c @ new) then ?a else []) \<inter> wl_usedAddrs w = {}"
      "set (if True \<and> i + gap \<le> length (?c @ new) then ?a else []) \<subseteq> wl_allAddrs ?w"
      "length (if True \<and> i + gap \<le> length (?c @ new) then ?a else []) = gap"
      using p i by (simp_all only: c) (simp del: append_assoc)
  qed
qed

theorem BRWalletUnusedAddrs_correct_witness:
  "\<exists>addrs w'. BRWalletUnusedAddrs demo_env demo_start True 2 False = Some (addrs, w') \<and> length addrs = 2"
proof -
  have "addrs_consistent demo_start" "gap_ahead (chain_derive demo_env False) (wl_usedAddrs demo_start) 2 n" for n
    by (auto simp: addrs_consistent_def demo_start_def wallet_empty_def gap_ahead_def)
  then show ?thesis
    using BRWalletUnusedAddrs_correct [of demo_start 2 demo_env False] by (auto simp: demo_derive)
qed

end
