(* ===== verification/WalletCreate.thy ===== *)
theory WalletCreate
  imports WalletInv
begin

text \<open>
  The creation of transactions (\<open>BRWalletCreateTxForOutputs\<close>): the choice of the unspent outputs, the fee and
  the change. When all unspent outputs fit into a transaction the function returns, and what it creates spends
  listed outputs and balances; when they do not, its recursion may not end.
\<close>

section \<open>Building the transaction\<close>

definition utxo_input :: "BRUTXO \<Rightarrow> BRTxOutput \<Rightarrow> BRTxInput" where
  "utxo_input u out =
     (let input = \<lparr>in_txHash = utxo_hash u, in_index = utxo_n u, in_address = [], in_amount = out_amount out,
            in_script = None, in_signature = None, in_sequence = TXIN_SEQUENCE\<rparr>
      in if out_script out \<noteq> None then BRTxInputSetScript input (out_script out) else input)"

lemma utxo_input_simps [simp]:
  "utxo_of (utxo_input u out) = u" "in_amount (utxo_input u out) = out_amount out"
  "in_signature (utxo_input u out) = None"
  by (cases u; simp add: utxo_input_def utxo_of_def BRTxInputSetScript_def Let_def split: option.splits)+

lemma AddInput_eq:
  "BRTransactionAddInput tx (utxo_hash u) (utxo_n u) (out_amount out) (out_script out) None TXIN_SEQUENCE =
     tx\<lparr>tx_inputs := tx_inputs tx @ [utxo_input u out]\<rparr>"
  by (simp add: BRTransactionAddInput_def utxo_input_def Let_def)

definition created_output :: "BRTxOutput \<Rightarrow> BRTxOutput" where
  "created_output out = BRTxOutputSetScript (output_zero\<lparr>out_amount := out_amount out\<rparr>) (out_script out)"

lemma created_output_simps [simp]:
  "out_amount (created_output out) = out_amount out" "out_script (created_output out) = out_script out"
  by (cases "out_script out"; simp add: created_output_def BRTxOutputSetScript_def output_zero_def)+

definition created_start :: "BRTxOutput list \<Rightarrow> BRTransaction" where
  "created_start outputs = foldl (\<lambda>tx out. BRTransactionAddOutput tx (out_amount out) (out_script out)) BRTransactionNew outputs"

lemma created_start_eq: "created_start outputs = BRTransactionNew\<lparr>tx_outputs := map created_output outputs\<rparr>"
proof -
  have "foldl (\<lambda>tx out. BRTransactionAddOutput tx (out_amount out) (out_script out)) tx outs =
    tx\<lparr>tx_outputs := tx_outputs tx @ map created_output outs\<rparr>" for tx outs
    by (induction outs arbitrary: tx) (simp_all add: BRTransactionAddOutput_def created_output_def)
  then show ?thesis by (simp add: created_start_def BRTransactionNew_def)
qed

definition outputs_size :: "BRTxOutput list \<Rightarrow> nat" where
  "outputs_size outs = BRVarIntSize (word_of_nat (length outs)) +
     sum_list (map (\<lambda>output. 8 + BRVarIntSize (word_of_nat (length (bytes_of (out_script output)))) +
         length (bytes_of (out_script output))) outs)"

lemma size_unsigned:
  assumes "\<forall>i\<in>set (tx_inputs tx). in_signature i = None"
  shows "BRTransactionSize tx =
    8 + BRVarIntSize (word_of_nat (length (tx_inputs tx))) + TX_INPUT_SIZE * length (tx_inputs tx) + outputs_size (tx_outputs tx)"
proof -
  have "sum_list (map (\<lambda>input. case in_signature input of
         Some sig \<Rightarrow> 32 + 4 + BRVarIntSize (word_of_nat (length sig)) + length sig + 4
       | None \<Rightarrow> TX_INPUT_SIZE) is) = TX_INPUT_SIZE * length is" if "\<forall>i\<in>set is. in_signature i = None" for "is"
    using that by (induction "is") auto
  then show ?thesis using assms by (simp add: BRTransactionSize_def outputs_size_def)
qed

lemma outputs_size_created: "outputs_size (map created_output outputs) = outputs_size outputs"
  by (simp add: outputs_size_def comp_def)

section \<open>The choice of the unspent outputs\<close>

text \<open>All unspent outputs fit into a transaction with these outputs and one more.\<close>

definition fits :: "nat \<Rightarrow> BRTxOutput list \<Rightarrow> bool" where
  "fits n outs \<longleftrightarrow> 17 + TX_INPUT_SIZE * n + outputs_size outs + TX_OUTPUT_SIZE \<le> TX_MAX_SIZE"

definition unsigned :: "BRTransaction \<Rightarrow> bool" where
  "unsigned tx \<longleftrightarrow> (\<forall>i\<in>set (tx_inputs tx). in_signature i = None)"

lemma fits_size:
  assumes "fits n (tx_outputs tx)" "unsigned tx" "length (tx_inputs tx) \<le> n"
  shows "BRTransactionSize tx + TX_OUTPUT_SIZE \<le> 17 + TX_INPUT_SIZE * n + outputs_size (tx_outputs tx) + TX_OUTPUT_SIZE"
    "BRTransactionSize tx + TX_OUTPUT_SIZE \<le> TX_MAX_SIZE"
proof -
  have "TX_INPUT_SIZE * length (tx_inputs tx) \<le> TX_INPUT_SIZE * n" by (rule mult_le_mono2 [OF assms(3)])
  moreover have "BRTransactionSize tx =
    8 + BRVarIntSize (word_of_nat (length (tx_inputs tx))) + TX_INPUT_SIZE * length (tx_inputs tx) + outputs_size (tx_outputs tx)"
    by (rule size_unsigned) (use assms(2) in \<open>simp add: unsigned_def\<close>)
  ultimately show "BRTransactionSize tx + TX_OUTPUT_SIZE \<le> 17 + TX_INPUT_SIZE * n + outputs_size (tx_outputs tx) + TX_OUTPUT_SIZE"
    using BRVarIntSize_bound(2) [of "word_of_nat (length (tx_inputs tx))"] by linarith
  then show "BRTransactionSize tx + TX_OUTPUT_SIZE \<le> TX_MAX_SIZE" using assms(1) by (simp add: fits_def)
qed

text \<open>What the loop over the unspent outputs has when it ends: it took a first part of them.\<close>

definition funded :: "BRWallet \<Rightarrow> u64 \<Rightarrow> u64 \<Rightarrow> BRUTXO list \<Rightarrow> BRTransaction \<times> u64 \<times> u64 \<Rightarrow> BRTransaction \<times> u64 \<times> u64 \<Rightarrow> bool" where
  "funded w amount minAmount us s s' \<longleftrightarrow>
     (case (s, s') of ((tx, b, f), (tx', b', f')) \<Rightarrow>
        \<exists>us1 us2. us = us1 @ us2 \<and> b' = b + utxo_total w us1 \<and> tx_outputs tx' = tx_outputs tx \<and> unsigned tx' \<and>
          map utxo_of (tx_inputs tx') = map utxo_of (tx_inputs tx) @ us1 \<and>
          map in_amount (tx_inputs tx') = map in_amount (tx_inputs tx) @ map (utxo_amount w) us1 \<and>
          f' = (if us1 = [] then f else fund_fee w amount tx') \<and>
          (us2 = [] \<or> b' = amount + f' \<or> b' \<ge> amount + f' + minAmount))"

lemma fund_loop_ok:
  assumes "\<forall>u\<in>set us. utxo_output w u \<noteq> None" "unsigned tx" "fits (length (tx_inputs tx) + length us) (tx_outputs tx)"
  shows "\<exists>tx' b' f'. fund_loop w amount minAmount us (tx, b, f) = (tx', b', f', False) \<and>
    funded w amount minAmount us (tx, b, f) (tx', b', f')"
  using assms
proof (induction us arbitrary: tx b f)
  case Nil
  then show ?case by (simp add: funded_def)
next
  case (Cons u us)
  obtain out where o: "utxo_output w u = Some out" using Cons.prems(1) by auto
  have am: "utxo_amount w u = out_amount out" by (simp add: utxo_amount_def o)
  define tx1 where "tx1 = tx\<lparr>tx_inputs := tx_inputs tx @ [utxo_input u out]\<rparr>"
  have tx1: "tx_outputs tx1 = tx_outputs tx" "tx_inputs tx1 = tx_inputs tx @ [utxo_input u out]" by (simp_all add: tx1_def)
  have u1: "unsigned tx1" using Cons.prems(2) by (auto simp: unsigned_def tx1)
  have f1: "fits (length (tx_inputs tx1) + length us) (tx_outputs tx1)" using Cons.prems(3) by (simp add: tx1)
  have sz: "\<not> BRTransactionSize tx1 + TX_OUTPUT_SIZE > TX_MAX_SIZE" using fits_size(2) [OF f1 u1] by simp
  define b1 f2 where "b1 = b + out_amount out" "f2 = fund_fee w amount tx1"
  have step: "fund_loop w amount minAmount (u # us) (tx, b, f) =
    (if b1 = amount + f2 \<or> b1 \<ge> amount + f2 + minAmount then (tx1, b1, f2, False)
     else fund_loop w amount minAmount us (tx1, b1, f2))"
    using sz by (simp add: o AddInput_eq tx1_def [symmetric] Let_def b1_f2_def)
  show ?case
  proof (cases "b1 = amount + f2 \<or> b1 \<ge> amount + f2 + minAmount")
    case True
    have "funded w amount minAmount (u # us) (tx, b, f) (tx1, b1, f2)"
      unfolding funded_def prod.case
      by (rule exI [of _ "[u]"], rule exI [of _ us]) (use True u1 in \<open>simp add: tx1 b1_f2_def am\<close>)
    then show ?thesis using step True by auto
  next
    case False
    obtain tx' b' f' where r: "fund_loop w amount minAmount us (tx1, b1, f2) = (tx', b', f', False)"
      "funded w amount minAmount us (tx1, b1, f2) (tx', b', f')"
      using Cons.IH [OF _ u1 f1, of b1 f2] Cons.prems(1) by auto
    obtain us1 us2 where us: "us = us1 @ us2" "b' = b1 + utxo_total w us1" "tx_outputs tx' = tx_outputs tx1" "unsigned tx'"
      "map utxo_of (tx_inputs tx') = map utxo_of (tx_inputs tx1) @ us1"
      "map in_amount (tx_inputs tx') = map in_amount (tx_inputs tx1) @ map (utxo_amount w) us1"
      "f' = (if us1 = [] then f2 else fund_fee w amount tx')"
      "us2 = [] \<or> b' = amount + f' \<or> b' \<ge> amount + f' + minAmount"
      using r(2) unfolding funded_def prod.case by blast
    have "f' = fund_fee w amount tx'"
    proof (cases "us1 = []")
      case True
      have "us = []"
      proof (rule ccontr)
        assume "us \<noteq> []"
        then have "b1 = amount + f2 \<or> b1 \<ge> amount + f2 + minAmount" using us True by simp
        then show False using False by blast
      qed
      then have "tx' = tx1" using r(1) by simp
      then show ?thesis using us(7) True by (simp add: b1_f2_def)
    qed (use us(7) in simp)
    then have "funded w amount minAmount (u # us) (tx, b, f) (tx', b', f')"
      unfolding funded_def prod.case
      by (intro exI [of _ "u # us1"] exI [of _ us2]) (use us in \<open>simp add: tx1 b1_f2_def am\<close>)
    then show ?thesis using step False r(1) by auto
  qed
qed
section \<open>Fees without overflow\<close>

definition fee_nat :: "nat \<Rightarrow> nat \<Rightarrow> nat" where
  "fee_nat feePerKb siz = max ((siz + 999) div 1000 * 1000) ((siz * feePerKb div 1000 + 99) div 100 * 100)"

lemma fee_nat_mono: "s \<le> t \<Longrightarrow> fee_nat k s \<le> fee_nat k t"
  unfolding fee_nat_def by (intro max.mono mult_le_mono div_le_mono add_mono order.refl)

lemma fee_nat_bound: "s \<le> 100000 \<Longrightarrow> k \<le> 2 ^ 32 \<Longrightarrow> fee_nat k s < 2 ^ 40"
proof -
  assume a: "s \<le> 100000" "k \<le> 2 ^ 32"
  have "s * k \<le> 100000 * 2 ^ 32" by (rule mult_le_mono [OF a])
  then have "s * k div 1000 \<le> 100 * 2 ^ 32" by simp
  then have "(s * k div 1000 + 99) div 100 * 100 \<le> 100 * 2 ^ 32 + 99" by simp
  moreover have "(s + 999) div 1000 * 1000 \<le> 100999" using a(1) by simp
  ultimately show ?thesis unfolding fee_nat_def by simp
qed

lemma txFee_nat:
  assumes "s \<le> TX_MAX_SIZE" "unat k \<le> 2 ^ 32"
  shows "unat (txFee k s) = fee_nat (unat k) s"
proof -
  have s: "s \<le> 100000" using assms(1) by (simp add: TX_MAX_SIZE_def)
  have sk: "s * unat k \<le> 100000 * 2 ^ 32" by (rule mult_le_mono [OF s assms(2)])
  have d: "s * unat k div 1000 \<le> 429496729600" using div_le_mono [OF sk, of 1000] by simp
  have us: "unat (word_of_nat s :: u64) = s" using s by (simp add: unat_of_nat)
  have 1: "unat (word_of_nat s * k) = s * unat k"
    using sk unat_mult_lem [of "word_of_nat s" k] by (simp add: us)
  have 2: "unat (word_of_nat s * k div 1000) = s * unat k div 1000" by (simp add: unat_div 1)
  have 3: "unat (word_of_nat s * k div 1000 + 99) = s * unat k div 1000 + 99"
    using d unat_add_lem [of "word_of_nat s * k div 1000" 99] by (simp add: 2)
  have 4: "unat ((word_of_nat s * k div 1000 + 99) div 100) = (s * unat k div 1000 + 99) div 100" by (simp add: unat_div 3)
  have d2: "(s * unat k div 1000 + 99) div 100 < 2 ^ 40" using d by simp
  have 5: "unat ((word_of_nat s * k div 1000 + 99) div 100 * 100) = (s * unat k div 1000 + 99) div 100 * 100"
    using d2 unat_mult_lem [of "(word_of_nat s * k div 1000 + 99) div 100" 100] by (simp add: 4)
  have 6: "unat (word_of_nat ((s + 999) div 1000) :: u64) = (s + 999) div 1000" using s by (simp add: unat_of_nat)
  have s2: "(s + 999) div 1000 \<le> 100" using s by simp
  have 7: "unat (word_of_nat ((s + 999) div 1000) * TX_FEE_PER_KB :: u64) = (s + 999) div 1000 * 1000"
    using s2 unat_mult_lem [of "word_of_nat ((s + 999) div 1000) :: u64" 1000] by (simp add: TX_FEE_PER_KB_def 6)
  show ?thesis
    unfolding txFee_def Let_def fee_nat_def word_less_nat_alt 5 7
    by (simp only: 5 7 if_distrib [of unat] max_def) simp
qed

lemma fund_fee_nat:
  assumes "BRTransactionSize tx + TX_OUTPUT_SIZE \<le> TX_MAX_SIZE" "unat (wl_feePerKb w) \<le> 2 ^ 32"
    "unat amount < 2 ^ 62"
  shows "fee_nat (unat (wl_feePerKb w)) (BRTransactionSize tx + TX_OUTPUT_SIZE) \<le> unat (fund_fee w amount tx)"
    "unat (fund_fee w amount tx) < fee_nat (unat (wl_feePerKb w)) (BRTransactionSize tx + TX_OUTPUT_SIZE) + 100"
proof -
  let ?f = "txFee (wl_feePerKb w) (BRTransactionSize tx + TX_OUTPUT_SIZE)"
  let ?r = "(wl_balance w - (amount + ?f)) mod 100"
  have f: "unat ?f = fee_nat (unat (wl_feePerKb w)) (BRTransactionSize tx + TX_OUTPUT_SIZE)"
    by (rule txFee_nat [OF assms(1,2)])
  have "fee_nat (unat (wl_feePerKb w)) (BRTransactionSize tx + TX_OUTPUT_SIZE) < 2 ^ 40"
    by (rule fee_nat_bound) (use assms in \<open>simp_all add: TX_MAX_SIZE_def\<close>)
  moreover have r: "unat ?r < 100" by (simp add: unat_mod)
  ultimately have "unat (?f + ?r) = unat ?f + unat ?r" using f unat_add_lem [of ?f ?r] by simp
  then show "fee_nat (unat (wl_feePerKb w)) (BRTransactionSize tx + TX_OUTPUT_SIZE) \<le> unat (fund_fee w amount tx)"
    "unat (fund_fee w amount tx) < fee_nat (unat (wl_feePerKb w)) (BRTransactionSize tx + TX_OUTPUT_SIZE) + 100"
    using f r by (simp_all add: fund_fee_def Let_def)
qed

lemma minAmount_nat:
  assumes "unat (wl_feePerKb w) \<le> 2 ^ 32"
  shows "unat (BRWalletMinOutputAmount w) < 2 ^ 52" "0 < BRWalletMinOutputAmount w"
proof -
  have p: "unat (546 * wl_feePerKb w) = 546 * unat (wl_feePerKb w)"
    using assms unat_mult_lem [of "546 :: u64" "wl_feePerKb w"] by simp
  have q: "unat (546 * wl_feePerKb w + 5235) = 546 * unat (wl_feePerKb w) + 5235"
    using assms p unat_add_lem [of "546 * wl_feePerKb w" 5235] by simp
  have "(546 :: u64) * wl_feePerKb w + 5236 - 1 = 546 * wl_feePerKb w + 5235" by simp
  then have "unat ((546 * wl_feePerKb w + 5236 - 1) div 5236) = (546 * unat (wl_feePerKb w) + 5235) div 5236"
    using q q [unfolded add.commute [of _ 5235]] by (simp add: unat_div)
  moreover have "(546 * unat (wl_feePerKb w) + 5235) div 5236 < 2 ^ 52" using assms by simp
  ultimately show "unat (BRWalletMinOutputAmount w) < 2 ^ 52" "0 < BRWalletMinOutputAmount w"
    by (auto simp: BRWalletMinOutputAmount_def Let_def TX_MIN_OUTPUT_AMOUNT_def TX_FEE_PER_KB_def MIN_FEE_PER_KB_def)
      (erule less_trans [rotated], simp)
qed
section \<open>A created transaction is funded\<close>

lemma shuffle_mset: "mset (shuffle_loop i rs outs) = mset outs"
proof (induction i rs outs rule: shuffle_loop.induct)
  case (2 i r rs outs)
  show ?case
  proof (cases "i + 1 < length outs")
    case True
    then have "r mod (length outs - i) < length outs - i" by simp
    then have j: "i + r mod (length outs - i) < length outs" "i < length outs" using True by linarith+
    then show ?thesis using 2 True by (auto simp: Let_def mset_swap)
  qed simp
qed simp

definition in_total :: "BRTxInput list \<Rightarrow> nat" where
  "in_total ins = sum_list (map (\<lambda>i. unat (in_amount i)) ins)"

definition out_total :: "BRTxOutput list \<Rightarrow> nat" where
  "out_total outs = sum_list (map (\<lambda>out. unat (out_amount out)) outs)"

definition utxos_total :: "BRWallet \<Rightarrow> BRUTXO list \<Rightarrow> nat" where
  "utxos_total w us = sum_list (map (\<lambda>u. unat (utxo_amount w u)) us)"

lemma unat_sum_list:
  "sum_list (map unat ws) < 2 ^ 64 \<Longrightarrow> unat (sum_list (ws :: u64 list)) = sum_list (map unat ws)"
proof (induction ws)
  case (Cons x ws)
  then show ?case using unat_add_lem [of x "sum_list ws"] by simp
qed simp

lemma out_total_mset: "mset xs = mset ys \<Longrightarrow> out_total xs = out_total ys"
  unfolding out_total_def by (metis mset_map sum_mset_sum_list)

lemma out_total_append: "out_total (xs @ ys) = out_total xs + out_total ys"
  by (simp add: out_total_def)

text \<open>The fee the code demands of a transaction without its change.\<close>

definition demanded_fee :: "BRWallet \<Rightarrow> BRTransaction \<Rightarrow> nat" where
  "demanded_fee w tx = fee_nat (unat (wl_feePerKb w)) (BRTransactionSize tx + TX_OUTPUT_SIZE)"

lemma unat_add_small: "unat (a :: u64) < 2 ^ 62 \<Longrightarrow> unat b < 2 ^ 62 \<Longrightarrow> unat (a + b) = unat a + unat b"
  using unat_add_lem [of a b] by simp

lemma unat_sub_le: "b \<le> (a :: u64) \<Longrightarrow> unat (a - b) = unat a - unat b"
  by (rule unat_sub)

lemma change_chain:
  assumes inv: "wallet_inv w" and gap: "gap_ahead (chain_derive env True) (wl_usedAddrs w) 1 (length (wl_internalChain w))"
  shows "\<exists>addrs w'. BRWalletUnusedAddrs env w True 1 True = Some (addrs, w') \<and> wallet_inv w' \<and> wl_utxos w' = wl_utxos w"
proof -
  have g: "gap_ahead (chain_derive env True) (wl_usedAddrs w) 1 (length (chain_of w True))"
    using gap by (simp add: chain_of_def)
  obtain addrs new where "BRWalletUnusedAddrs env w True 1 True = Some (addrs, extend_chain w True new)"
    using UnusedAddrs_ok [OF wallet_orderD(3) [OF inv_order [OF inv]] zero_less_one g, of True] by blast
  then show ?thesis using extend_chain_inv [OF inv] extend_chain_same(3) by blast
qed

lemma create_finish_ok:
  assumes inv: "wallet_inv w" and gap: "gap_ahead (chain_derive env True) (wl_usedAddrs w) 1 (length (wl_internalChain w))"
    and n: "0 < n" and bal: "amount + feeAmount \<le> balance"
  shows "\<exists>tx' w' change. create_finish env w n balance amount feeAmount minAmount (Some tx) = Some (Some tx', w') \<and>
    wallet_inv w' \<and> wl_utxos w' = wl_utxos w \<and> tx_inputs tx' = tx_inputs tx \<and>
    mset (tx_outputs tx') = mset (tx_outputs tx @ change) \<and>
    (if balance - (amount + feeAmount) > minAmount then \<exists>c. change = [c] \<and> out_amount c = balance - (amount + feeAmount)
     else change = [])"
proof (cases "balance - (amount + feeAmount) > minAmount")
  case True
  obtain addrs w' where u: "BRWalletUnusedAddrs env w True 1 True = Some (addrs, w')" "wallet_inv w'" "wl_utxos w' = wl_utxos w"
    using change_chain [OF inv gap] by blast
  define script where "script = (let addr = (case addrs of [] \<Rightarrow> [] | a # _ \<Rightarrow> a) in
    bytes_of (snd (BRAddressScriptPubKey addr (Some (replicate (fst (BRAddressScriptPubKey addr None)) 0)))))"
  define c where "c = BRTxOutputSetScript (output_zero\<lparr>out_amount := balance - (amount + feeAmount)\<rparr>) (Some script)"
  define tx' where "tx' = BRTransactionShuffleOutputs (we_rands env) (tx\<lparr>tx_outputs := tx_outputs tx @ [c]\<rparr>)"
  have "create_finish env w n balance amount feeAmount minAmount (Some tx) = Some (Some tx', w')"
    using n bal True u(1) by (simp add: create_finish_def BRTransactionAddOutput_def tx'_def c_def script_def Let_def)
  moreover have "mset (tx_outputs tx') = mset (tx_outputs tx @ [c])" "tx_inputs tx' = tx_inputs tx"
    by (simp_all add: tx'_def BRTransactionShuffleOutputs_def shuffle_mset)
  moreover have "out_amount c = balance - (amount + feeAmount)"
    by (simp add: c_def BRTxOutputSetScript_def output_zero_def)
  ultimately show ?thesis using u(2,3) True by (intro exI [of _ tx'] exI [of _ w'] exI [of _ "[c]"]) simp
next
  case False
  have "create_finish env w n balance amount feeAmount minAmount (Some tx) = Some (Some tx, w)"
    using n bal False by (simp add: create_finish_def)
  then show ?thesis using inv False by (intro exI [of _ tx] exI [of _ w] exI [of _ "[]"]) simp
qed
lemma unsized_outputs:
  assumes "unsigned tx" "tx_outputs tx = map created_output outputs" "length (tx_inputs tx) \<le> n" "fits n outputs"
  shows "demanded_fee w tx \<le> fee_nat (unat (wl_feePerKb w)) (17 + TX_INPUT_SIZE * n + outputs_size outputs + TX_OUTPUT_SIZE)"
    "BRTransactionSize tx + TX_OUTPUT_SIZE \<le> TX_MAX_SIZE"
proof -
  have f: "fits n (tx_outputs tx)" using assms(4) by (simp add: fits_def assms(2) outputs_size_created)
  show "demanded_fee w tx \<le> fee_nat (unat (wl_feePerKb w)) (17 + TX_INPUT_SIZE * n + outputs_size outputs + TX_OUTPUT_SIZE)"
    unfolding demanded_fee_def
    by (rule fee_nat_mono) (use fits_size(1) [OF f assms(1,3)] in \<open>simp add: assms(2) outputs_size_created\<close>)
  show "BRTransactionSize tx + TX_OUTPUT_SIZE \<le> TX_MAX_SIZE" by (rule fits_size(2) [OF f assms(1,3)])
qed

text \<open>The state after the loop, in natural numbers.\<close>

lemma CreateTx_loop:
  assumes inv: "wallet_inv w" and fit: "fits (length (wl_utxos w)) outputs"
    and fee: "unat (wl_feePerKb w) \<le> 2 ^ 32"
    and money: "utxos_total w (wl_utxos w) + out_total outputs < 2 ^ 61"
  shows "\<exists>tx b f us1 us2. fund_loop w (sum_list (map out_amount outputs)) (BRWalletMinOutputAmount w) (wl_utxos w)
      (created_start outputs, 0, txFee (wl_feePerKb w) (BRTransactionSize (created_start outputs) + TX_OUTPUT_SIZE)) = (tx, b, f, False) \<and>
    wl_utxos w = us1 @ us2 \<and> unat b = utxos_total w us1 \<and> tx_outputs tx = map created_output outputs \<and> unsigned tx \<and>
    map utxo_of (tx_inputs tx) = us1 \<and> in_total (tx_inputs tx) = utxos_total w us1 \<and>
    demanded_fee w tx \<le> unat f \<and> unat f < demanded_fee w tx + 100 \<and>
    (us2 = [] \<or> out_total outputs + unat f \<le> unat b)"
proof -
  define A where "A = sum_list (map out_amount outputs)"
  define m where "m = BRWalletMinOutputAmount w"
  have A: "unat A = out_total outputs"
    using money unat_sum_list [of "map out_amount outputs"] by (simp add: A_def out_total_def comp_def)
  let ?t0 = "created_start outputs"
  have t0: "tx_outputs ?t0 = map created_output outputs" "tx_inputs ?t0 = []" "unsigned ?t0"
    by (simp_all add: created_start_eq BRTransactionNew_def unsigned_def)
  have known: "\<forall>u\<in>set (wl_utxos w). utxo_output w u \<noteq> None"
    using inv by (auto simp: wallet_inv_def wallet_funds_def own_output_def)
  have fit0: "fits (length (tx_inputs ?t0) + length (wl_utxos w)) (tx_outputs ?t0)"
    using fit by (simp add: t0 fits_def outputs_size_created)
  obtain tx b f where r: "fund_loop w A m (wl_utxos w) (?t0, 0, txFee (wl_feePerKb w) (BRTransactionSize ?t0 + TX_OUTPUT_SIZE)) =
      (tx, b, f, False)"
    and fd: "funded w A m (wl_utxos w) (?t0, 0, txFee (wl_feePerKb w) (BRTransactionSize ?t0 + TX_OUTPUT_SIZE)) (tx, b, f)"
    using fund_loop_ok [OF known t0(3) fit0] by blast
  obtain us1 us2 where us: "wl_utxos w = us1 @ us2" "b = utxo_total w us1" "tx_outputs tx = map created_output outputs"
    "unsigned tx" "map utxo_of (tx_inputs tx) = us1" "map in_amount (tx_inputs tx) = map (utxo_amount w) us1"
    "f = (if us1 = [] then txFee (wl_feePerKb w) (BRTransactionSize ?t0 + TX_OUTPUT_SIZE) else fund_fee w A tx)"
    "us2 = [] \<or> b = A + f \<or> b \<ge> A + f + m"
    using fd unfolding funded_def prod.case t0 by auto
  have le: "utxos_total w us1 \<le> utxos_total w (wl_utxos w)" by (simp add: utxos_total_def us(1))
  have b: "unat b = utxos_total w us1"
    using le money unat_sum_list [of "map (utxo_amount w) us1"] by (simp add: us(2) utxo_total_def utxos_total_def comp_def)
  have "length (tx_inputs tx) \<le> length (wl_utxos w)" using arg_cong [OF us(5), of length] by (simp add: us(1))
  note sz = unsized_outputs(2) [OF us(4,3) this fit]
  have d40: "demanded_fee w tx < 2 ^ 40"
    unfolding demanded_fee_def by (rule fee_nat_bound) (use sz fee in \<open>simp_all add: TX_MAX_SIZE_def\<close>)
  have f: "demanded_fee w tx \<le> unat f \<and> unat f < demanded_fee w tx + 100"
  proof (cases "us1 = []")
    case True
    have i0: "tx_inputs tx = []" using us(5) True by simp
    have "BRTransactionSize ?t0 = BRTransactionSize tx"
      using size_unsigned [of ?t0] size_unsigned [of tx] t0 us(3,4) i0 by (simp add: unsigned_def)
    then show ?thesis using us(7) True txFee_nat [OF sz fee] by (simp add: demanded_fee_def)
  next
    case False
    have "unat A < 2 ^ 62" using A money by simp
    then show ?thesis using us(7) False fund_fee_nat [OF sz fee] by (simp add: demanded_fee_def)
  qed
  have Af: "unat (A + f) = unat A + unat f" by (rule unat_add_small) (use A money f d40 in simp_all)
  have "unat (A + f + m) = unat A + unat f + unat m"
    unfolding Af [symmetric] by (rule unat_add_small) (use Af A money f d40 minAmount_nat(1) [OF fee] in \<open>simp_all add: m_def\<close>)
  then have "us2 = [] \<or> out_total outputs + unat f \<le> unat b"
    using us(8) Af A by (auto simp: word_le_nat_alt)
  moreover have "in_total (tx_inputs tx) = utxos_total w us1"
    using arg_cong [OF us(6), of "\<lambda>xs. sum_list (map unat xs)"] by (simp add: in_total_def utxos_total_def comp_def)
  ultimately show ?thesis
    using r us b f unfolding A_def m_def by blast
qed
lemma CreateTx_ok:
  assumes inv: "wallet_inv w" and outs: "outputs \<noteq> []" "\<forall>out\<in>set outputs. bytes_of (out_script out) \<noteq> []"
    and fit: "fits (length (wl_utxos w)) outputs" and fee: "unat (wl_feePerKb w) \<le> 2 ^ 32"
    and money: "utxos_total w (wl_utxos w) + out_total outputs < 2 ^ 61"
    and gap: "gap_ahead (chain_derive env True) (wl_usedAddrs w) 1 (length (wl_internalChain w))"
  shows "\<exists>r w'. BRWalletCreateTxForOutputs env w outputs = Some (r, w') \<and> wallet_inv w' \<and> wl_utxos w' = wl_utxos w \<and>
    (case r of
       None \<Rightarrow> utxos_total w (wl_utxos w) < out_total outputs + 100 +
         fee_nat (unat (wl_feePerKb w)) (17 + TX_INPUT_SIZE * length (wl_utxos w) + outputs_size outputs + TX_OUTPUT_SIZE)
     | Some tx \<Rightarrow> \<exists>us1 us2 change base. wl_utxos w = us1 @ us2 \<and> map utxo_of (tx_inputs tx) = us1 \<and>
         in_total (tx_inputs tx) = utxos_total w us1 \<and>
         mset (tx_outputs tx) = mset (map created_output outputs @ change) \<and> length change \<le> 1 \<and>
         (\<forall>c\<in>set change. out_amount c > BRWalletMinOutputAmount w) \<and>
         base = demanded_fee w (tx\<lparr>tx_outputs := map created_output outputs\<rparr>) \<and>
         out_total (tx_outputs tx) + base \<le> in_total (tx_inputs tx) \<and>
         in_total (tx_inputs tx) < out_total (tx_outputs tx) + base + 100 + unat (BRWalletMinOutputAmount w))"
proof -
  let ?A = "sum_list (map out_amount outputs)" and ?m = "BRWalletMinOutputAmount w" and ?n = "length (wl_utxos w)"
  obtain tx b f us1 us2 where l: "fund_loop w ?A ?m (wl_utxos w)
      (created_start outputs, 0, txFee (wl_feePerKb w) (BRTransactionSize (created_start outputs) + TX_OUTPUT_SIZE)) = (tx, b, f, False)"
    and us: "wl_utxos w = us1 @ us2" "unat b = utxos_total w us1" "tx_outputs tx = map created_output outputs" "unsigned tx"
    "map utxo_of (tx_inputs tx) = us1" "in_total (tx_inputs tx) = utxos_total w us1"
    and d: "demanded_fee w tx \<le> unat f" "unat f < demanded_fee w tx + 100"
    and stop: "us2 = [] \<or> out_total outputs + unat f \<le> unat b"
    using CreateTx_loop [OF inv fit fee money] by blast
  have A: "unat ?A = out_total outputs"
    using money unat_sum_list [of "map out_amount outputs"] by (simp add: out_total_def comp_def)
  have len: "length (tx_inputs tx) \<le> ?n" using arg_cong [OF us(5), of length] by (simp add: us(1))
  note dem = unsized_outputs [OF us(4,3) len fit]
  have d40: "demanded_fee w tx < 2 ^ 40"
    unfolding demanded_fee_def by (rule fee_nat_bound) (use dem(2) fee in \<open>simp_all add: TX_MAX_SIZE_def\<close>)
  have Af: "unat (?A + f) = out_total outputs + unat f"
    unfolding A [symmetric] by (rule unat_add_small) (use A money d d40 in simp_all)
  have ls: "\<not> list_ex (\<lambda>out. bytes_of (out_script out) = []) outputs" using outs(2) by (auto simp: list_ex_iff)
  have run: "BRWalletCreateTxForOutputs env w outputs = create_finish env w (length outputs) b ?A f ?m (Some tx)"
    by (subst BRWalletCreateTxForOutputs.simps) (simp add: outs(1) ls created_start_def [symmetric] l Let_def)
  show ?thesis
  proof (cases "?A + f \<le> b")
    case False
    then have "us2 = []" "unat b < out_total outputs + unat f" using stop Af by (auto simp: word_le_nat_alt)
    then have "utxos_total w (wl_utxos w) < out_total outputs + 100 +
       fee_nat (unat (wl_feePerKb w)) (17 + TX_INPUT_SIZE * ?n + outputs_size outputs + TX_OUTPUT_SIZE)"
      using us(1,2) d(2) dem(1) [where w = w] by simp
    moreover have "create_finish env w (length outputs) b ?A f ?m (Some tx) = Some (None, w)"
      using False by (simp add: create_finish_def not_le)
    ultimately show ?thesis using run inv by (intro exI [of _ None] exI [of _ w]) simp
  next
    case True
    have n: "0 < length outputs" using outs(1) by simp
    obtain tx' w' change where c: "create_finish env w (length outputs) b ?A f ?m (Some tx) = Some (Some tx', w')"
      "wallet_inv w'" "wl_utxos w' = wl_utxos w" "tx_inputs tx' = tx_inputs tx"
      "mset (tx_outputs tx') = mset (tx_outputs tx @ change)"
      "if b - (?A + f) > ?m then \<exists>c. change = [c] \<and> out_amount c = b - (?A + f) else change = []"
      using create_finish_ok [OF inv gap n True] by blast
    have rest: "unat (b - (?A + f)) = utxos_total w us1 - (out_total outputs + unat f)"
      using unat_sub_le [OF True] Af us(2) by simp
    have enough: "out_total outputs + unat f \<le> utxos_total w us1" using True Af us(2) by (simp add: word_le_nat_alt)
    have tot: "out_total (tx_outputs tx') = out_total outputs + out_total change"
      using out_total_mset [OF c(5)] us(3) by (simp add: out_total_append) (simp add: out_total_def comp_def)
    have it: "in_total (tx_inputs tx') = utxos_total w us1" using us(6) c(4) by simp
    have base: "demanded_fee w (tx'\<lparr>tx_outputs := map created_output outputs\<rparr>) = demanded_fee w tx"
      using c(4) us(3) by (simp add: demanded_fee_def BRTransactionSize_def)
    have "length change \<le> 1 \<and> (\<forall>c\<in>set change. out_amount c > ?m) \<and>
      out_total (tx_outputs tx') + demanded_fee w tx \<le> in_total (tx_inputs tx') \<and>
      in_total (tx_inputs tx') < out_total (tx_outputs tx') + demanded_fee w tx + 100 + unat ?m"
    proof (cases "b - (?A + f) > ?m")
      case True
      then obtain ch where ch: "change = [ch]" "out_amount ch = b - (?A + f)" using c(6) by auto
      then have oc: "out_total change = utxos_total w us1 - (out_total outputs + unat f)" using rest by (simp add: out_total_def)
      have "out_total (tx_outputs tx') + demanded_fee w tx \<le> in_total (tx_inputs tx')"
        "in_total (tx_inputs tx') < out_total (tx_outputs tx') + demanded_fee w tx + 100 + unat ?m"
        using oc tot enough d it by linarith+
      then show ?thesis using ch True by simp
    next
      case False
      then have ch: "change = []" using c(6) by simp
      have "utxos_total w us1 - (out_total outputs + unat f) \<le> unat ?m" using False rest by (simp add: word_less_nat_alt)
      moreover have "out_total (tx_outputs tx') = out_total outputs" using tot ch by (simp add: out_total_def)
      ultimately have "out_total (tx_outputs tx') + demanded_fee w tx \<le> in_total (tx_inputs tx')"
        "in_total (tx_inputs tx') < out_total (tx_outputs tx') + demanded_fee w tx + 100 + unat ?m"
        using enough d it by linarith+
      then show ?thesis using ch by simp
    qed
    then show ?thesis using run c us base
      by (intro exI [of _ "Some tx'"] exI [of _ w']) (simp, blast)
  qed
qed

section \<open>Properties\<close>

text \<open>A wallet with the one unspent output of \<open>demo_tx\<close>, of 7000 satoshi.\<close>

definition demo_rich :: BRWallet where
  "demo_rich = wallet_empty\<lparr>wl_transactions := [1], wl_allTx := [1 \<mapsto> demo_tx], wl_externalChain := [[50]],
     wl_allAddrs := {[50]}, wl_utxos := [\<lparr>utxo_hash = 1, utxo_n = 1\<rparr>], wl_balance := 7000, wl_balanceHist := [7000]\<rparr>"

lemma demo_rich_inv: "wallet_inv demo_rich"
proof -
  have "ranked (\<lambda>_. 0) (wl_allTx demo_rich)" by (auto simp: ranked_def demo_rich_def demo_tx_def split: if_splits)
  then show ?thesis
    by (auto simp: wallet_inv_def wallet_order_def wallet_store_def wallet_sorted_def addrs_consistent_def
      wallet_funds_def demo_rich_def wallet_empty_def height_def tx_of_def own_output_def utxo_output_def nth_opt_def
      demo_tx_def TX_UNCONFIRMED_def BRWalletContainsTx_def utxo_total_def utxo_amount_def split: if_splits)
qed

text \<open>C6: when the wallet's unspent outputs fit into one transaction, the creation of a transaction for given
  outputs returns. A created transaction spends a first part of the unspent outputs, pays the given outputs, in
  some order, and at most one more, the change, above the minimal amount; its inputs are worth its outputs plus
  a fee that is at least the one demanded for its size, and at most 99 satoshi and a minimal output more. None
  is created only if the funds do not cover the outputs and a fee. The wallet's invariant is kept.\<close>

theorem BRWalletCreateTx_funded:
  assumes "wallet_inv w" "outputs \<noteq> []" "\<forall>out\<in>set outputs. bytes_of (out_script out) \<noteq> []"
    "fits (length (wl_utxos w)) outputs" "unat (wl_feePerKb w) \<le> 2 ^ 32"
    "utxos_total w (wl_utxos w) + out_total outputs < 2 ^ 61"
    "gap_ahead (chain_derive env True) (wl_usedAddrs w) 1 (length (wl_internalChain w))"
  shows "\<exists>r w'. BRWalletCreateTxForOutputs env w outputs = Some (r, w') \<and> wallet_inv w' \<and> wl_utxos w' = wl_utxos w \<and>
    (case r of
       None \<Rightarrow> utxos_total w (wl_utxos w) < out_total outputs + 100 +
         fee_nat (unat (wl_feePerKb w)) (17 + TX_INPUT_SIZE * length (wl_utxos w) + outputs_size outputs + TX_OUTPUT_SIZE)
     | Some tx \<Rightarrow> \<exists>us1 us2 change base. wl_utxos w = us1 @ us2 \<and> map utxo_of (tx_inputs tx) = us1 \<and>
         in_total (tx_inputs tx) = utxos_total w us1 \<and>
         mset (tx_outputs tx) = mset (map created_output outputs @ change) \<and> length change \<le> 1 \<and>
         (\<forall>c\<in>set change. out_amount c > BRWalletMinOutputAmount w) \<and>
         base = demanded_fee w (tx\<lparr>tx_outputs := map created_output outputs\<rparr>) \<and>
         out_total (tx_outputs tx) + base \<le> in_total (tx_inputs tx) \<and>
         in_total (tx_inputs tx) < out_total (tx_outputs tx) + base + 100 + unat (BRWalletMinOutputAmount w))"
  by (rule CreateTx_ok [OF assms])

theorem BRWalletCreateTx_funded_witness:
  "\<exists>r w'. BRWalletCreateTxForOutputs demo_env (BRWalletSetFeePerKb demo_rich 1000) [\<lparr>out_address = [], out_amount = 5000, out_script = Some [1]\<rparr>] =
    Some (r, w') \<and> wallet_inv w'"
proof -
  let ?w = "BRWalletSetFeePerKb demo_rich 1000" and ?o = "[\<lparr>out_address = [], out_amount = 5000, out_script = Some [1]\<rparr>]"
  have inv: "wallet_inv ?w" by (rule inv_cong [OF demo_rich_inv]) (simp_all add: BRWalletSetFeePerKb_def)
  have u: "wl_utxos ?w = [\<lparr>utxo_hash = 1, utxo_n = 1\<rparr>]" "utxos_total ?w (wl_utxos ?w) = 7000"
    by (simp_all add: BRWalletSetFeePerKb_def demo_rich_def utxos_total_def utxo_amount_def utxo_output_def nth_opt_def demo_tx_def)
  have f: "fits (length (wl_utxos ?w)) ?o"
    using BRVarIntSize_bound(2) [of 1]
    by (simp add: u fits_def outputs_size_def bytes_of_def TX_INPUT_SIZE_def TX_OUTPUT_SIZE_def TX_MAX_SIZE_def)
  have o: "out_total ?o = 5000" by (simp add: out_total_def)
  have g: "gap_ahead (chain_derive demo_env True) (wl_usedAddrs ?w) 1 (length (wl_internalChain ?w))"
    by (auto simp: gap_ahead_def BRWalletSetFeePerKb_def demo_rich_def wallet_empty_def)
  have k: "unat (wl_feePerKb ?w) \<le> 2 ^ 32" by (simp add: BRWalletSetFeePerKb_def)
  have m: "utxos_total ?w (wl_utxos ?w) + out_total ?o < 2 ^ 61" unfolding u(2) o by simp
  have n: "?o \<noteq> []" "\<forall>out\<in>set ?o. bytes_of (out_script out) \<noteq> []" by (simp_all add: bytes_of_def)
  show ?thesis using BRWalletCreateTx_funded [OF inv n f k m g] by blast
qed

end
