(* ===== verification/WalletSign.thy ===== *)
theory WalletSign
  imports WalletCreate TransactionSign
begin

text \<open>
  \<open>BRWalletSignTransaction\<close>: the keys that the wallet derives for the inputs of a transaction, and that its index arrays
  are large enough. The witness is a wallet that owns the two inputs of a transaction and signs both.
\<close>

section \<open>Signing with the wallet's keys\<close>

lemma chain_indices_eq: "chain_indices chain a n = rev (filter (\<lambda>j. BRAddressEq a (chain ! j)) [0..<n])"
  by (induction n) auto

text \<open>The addresses are C strings that fit into their 36 bytes.\<close>

definition short_addrs :: "u8 list set \<Rightarrow> bool" where
  "short_addrs A \<longleftrightarrow> (\<forall>a\<in>A. length a < 36)"

lemma short_eq: "length a < 36 \<Longrightarrow> length b < 36 \<Longrightarrow> BRAddressEq a b \<longleftrightarrow> a = b"
  by (simp add: BRAddressEq_def)

lemma chain_indices_once:
  assumes "distinct chain" "short_addrs (set chain)" "length a < 36"
  shows "length (chain_indices chain a (length chain)) \<le> 1"
proof -
  let ?f = "filter (\<lambda>j. BRAddressEq a (chain ! j)) [0..<length chain]"
  have "card (set ?f) \<le> 1"
  proof (rule card_le_Suc0_iff_eq [THEN iffD2, unfolded One_nat_def [symmetric]])
    show "\<forall>i\<in>set ?f. \<forall>j\<in>set ?f. i = j"
      using assms by (auto simp: short_eq short_addrs_def nth_eq_iff_index_eq)
  qed simp
  moreover have "length ?f = card (set ?f)" by (rule distinct_card [symmetric]) simp
  ultimately show ?thesis by (simp only: chain_indices_eq length_rev)
qed

lemma sign_indices_fit:
  assumes "distinct chain" "short_addrs (set chain)" "short_addrs (in_address ` set (tx_inputs tx))"
  shows "length (sign_indices chain tx) \<le> length (tx_inputs tx)"
proof -
  have "short_addrs (in_address ` set ins) \<Longrightarrow>
    length (concat (map (\<lambda>i. chain_indices chain (in_address i) (length chain)) ins)) \<le> length ins" for ins
  proof (induction ins)
    case (Cons i ins)
    then show ?case using chain_indices_once [OF assms(1,2), of "in_address i"] by (simp add: short_addrs_def)
  qed simp
  then show ?thesis using assms(3) by (simp add: sign_indices_def)
qed

lemma sign_indices_set:
  assumes "short_addrs (set chain)" "short_addrs (in_address ` set (tx_inputs tx))"
  shows "set (sign_indices chain tx) = {j. j < length chain \<and> chain ! j \<in> in_address ` set (tx_inputs tx)}"
proof -
  have "BRAddressEq (in_address i) (chain ! j) \<longleftrightarrow> in_address i = chain ! j"
    if "i \<in> set (tx_inputs tx)" "j < length chain" for i j
    using assms that by (intro short_eq) (auto simp: short_addrs_def)
  then have "(\<exists>i\<in>set (tx_inputs tx). BRAddressEq (in_address i) (chain ! j)) \<longleftrightarrow> chain ! j \<in> in_address ` set (tx_inputs tx)"
    if "j < length chain" for j
    unfolding image_iff by (metis that)
  moreover have "set (sign_indices chain tx) =
    {j. j < length chain \<and> (\<exists>i\<in>set (tx_inputs tx). BRAddressEq (in_address i) (chain ! j))}"
    by (auto simp: sign_indices_def chain_indices_eq)
  ultimately show ?thesis by auto
qed

text \<open>The address of a script with a 20-byte hash fits in a \<open>BRAddress\<close>.\<close>

lemma length_b58_string: "zcount_of 0 data = 0 \<Longrightarrow> length (b58_string data) \<le> length data * 138 div 100 + 1"
proof -
  assume z: "zcount_of 0 data = 0"
  have "length (enc_carry bs c) = length bs" for bs c by (induction bs arbitrary: c) (simp_all add: Let_def)
  then have "length (foldl enc_step buf xs) = length buf" for buf xs
    by (induction xs arbitrary: buf) (simp_all add: enc_step_def)
  then show ?thesis
    using length_dropWhile_le [of "\<lambda>b. b = 0" "foldl enc_step (replicate (length data * 138 div 100 + 1) 0) data"] z
    by (simp add: b58_string_def b58_digits_def Let_def)
qed

lemma script_address:
  assumes "length h = 20" "v = BITCOIN_PUBKEY_ADDRESS \<or> v = BITCOIN_SCRIPT_ADDRESS"
  obtains s where "BRAddressFromScriptPubKey (script_of v h) buf36 = Some (length s + 1, Some (s @ replicate (36 - length s) 0))"
    "length s < 36" "0 \<notin> set s"
proof -
  let ?q = "(v # h) @ take 4 (BRSHA256_2 (v # h))"
  have z: "zcount_of 0 ?q = 0" using assms(2) by (auto simp: zcount_of_def BITCOIN_PUBKEY_ADDRESS_def BITCOIN_SCRIPT_ADDRESS_def)
  have "length (b58_string ?q) \<le> 35" using length_b58_string [OF z] assms(1) by simp
  moreover have "BRAddressFromScriptPubKey (script_of v h) buf36 =
      Some (length (b58_string ?q) + 1, Some (b58_string ?q @ replicate (36 - length (b58_string ?q)) 0))"
    using \<open>length (b58_string ?q) \<le> 35\<close>
    unfolding from_script_templates script_of_template [OF assms] encode_or_0_def option.case CheckEncode_eq buf36_def
    by (simp add: BRBase58Encode_def Let_def put_def memcpy_at_0 replicate_append_same Suc_diff_le flip: replicate_Suc)
  ultimately show thesis using that [of "b58_string ?q"] b58_string_nonzero [of ?q] by simp
qed

lemma addr36_padded: "0 \<notin> set s \<Longrightarrow> length s < 36 \<Longrightarrow> addr36 (Some (n, Some (s @ replicate (36 - length s) 0))) = s"
proof -
  assume s: "0 \<notin> set s" "length s < 36"
  obtain k where "36 - length s = Suc k" using s(2) by (cases "36 - length s") auto
  moreover have "\<forall>x\<in>set s. x \<noteq> 0" using s(1) by metis
  ultimately show ?thesis by (simp add: addr36_def takeWhile_append)
qed

text \<open>C34: signing with the wallet's seed stays in its index arrays when no address occurs twice in a chain, so that
  it returns, with the private keys of exactly the chain positions whose addresses the inputs have, and its result is
  whether \<open>BRTransactionSign\<close> found every input signed after that. Without a seed, a cancelled authentication, it leaves
  the transaction as it is and returns -1; the comment of the function promises false unless all inputs were signed, and
  -1 counts as true in C.\<close>

theorem BRWalletSignTransaction_keys:
  assumes "distinct (wl_internalChain w)" "distinct (wl_externalChain w)"
    "short_addrs (set (wl_internalChain w))" "short_addrs (set (wl_externalChain w))"
    "short_addrs (in_address ` set (tx_inputs tx))"
  shows "BRWalletSignTransaction env w tx forkId None = Some (-1, tx) \<and>
    (\<exists>keys. BRWalletSignTransaction env w tx forkId (Some seed) =
        Some (case BRTransactionSign (we_keys env) forkId keys tx of (r, tx') \<Rightarrow> (if r then 1 else 0, tx')) \<and>
      set keys =
        (\<lambda>j. we_privKey env seed SEQUENCE_INTERNAL_CHAIN (word_of_nat j)) `
          {j. j < length (wl_internalChain w) \<and> wl_internalChain w ! j \<in> in_address ` set (tx_inputs tx)} \<union>
        (\<lambda>j. we_privKey env seed SEQUENCE_EXTERNAL_CHAIN (word_of_nat j)) `
          {j. j < length (wl_externalChain w) \<and> wl_externalChain w ! j \<in> in_address ` set (tx_inputs tx)})"
proof -
  let ?i = "sign_indices (wl_internalChain w) tx" and ?e = "sign_indices (wl_externalChain w) tx"
  let ?keys = "map (\<lambda>i. we_privKey env seed SEQUENCE_INTERNAL_CHAIN (word_of_nat i)) ?i @
        map (\<lambda>i. we_privKey env seed SEQUENCE_EXTERNAL_CHAIN (word_of_nat i)) ?e"
  have l: "\<not> length ?i > length (tx_inputs tx)" "\<not> length ?e > length (tx_inputs tx)"
    using sign_indices_fit [OF assms(1,3,5)] sign_indices_fit [OF assms(2,4,5)] by simp_all
  have "BRWalletSignTransaction env w tx forkId (Some seed) =
    Some (case BRTransactionSign (we_keys env) forkId ?keys tx of (r, tx') \<Rightarrow> (if r then 1 else 0, tx'))"
    using l by (simp add: BRWalletSignTransaction_def Let_def split: prod.split)
  moreover have "BRWalletSignTransaction env w tx forkId None = Some (-1, tx)"
    using l by (simp add: BRWalletSignTransaction_def Let_def)
  ultimately show ?thesis
    by (intro conjI exI [of _ ?keys]) (simp_all add: sign_indices_set [OF assms(3,5)] sign_indices_set [OF assms(4,5)])
qed

definition sign_env :: "u8 wallet_env" where
  "sign_env = \<lparr>we_pubKey = (\<lambda>chain i. UInt32SetLE i), we_setPubKey = (\<lambda>p. Some 7), we_keys = demo_api,
     we_privKey = (\<lambda>seed chain i. 7), we_now = 0, we_rands = [], we_moved = False\<rparr>"

definition sign_wallet :: BRWallet where
  "sign_wallet = wallet_empty\<lparr>wl_externalChain := [addr36 (BRAddressFromScriptPubKey demo_script buf36)]\<rparr>"

theorem BRWalletSignTransaction_keys_witness:
  "\<exists>tx'. BRWalletSignTransaction sign_env sign_wallet demo_unsigned SIGHASH_FORKID (Some [1]) = Some (1, tx') \<and>
    map in_signature (tx_inputs demo_unsigned) = [None, None] \<and> length (tx_inputs tx') = 2 \<and>
    (\<forall>i\<in>set (tx_inputs tx'). in_signature i \<noteq> None) \<and>
    BRWalletSignTransaction sign_env sign_wallet demo_unsigned SIGHASH_FORKID None = Some (-1, demo_unsigned)"
proof -
  obtain s where s: "BRAddressFromScriptPubKey demo_script buf36 = Some (length s + 1, Some (s @ replicate (36 - length s) 0))"
    "length s < 36" "0 \<notin> set s"
    unfolding demo_script_def by (rule script_address [of "replicate 20 7" BITCOIN_PUBKEY_ADDRESS]) simp_all
  let ?a = "addr36 (BRAddressFromScriptPubKey demo_script buf36)"
  have a: "?a = s" using s by (simp add: addr36_padded)
  have ins: "map in_address (tx_inputs demo_unsigned) = [?a, ?a]" "map in_script (tx_inputs demo_unsigned) = [Some demo_script, Some demo_script]"
    "map in_signature (tx_inputs demo_unsigned) = [None, None]" "length (tx_inputs demo_unsigned) = 2"
    by (simp_all add: demo_unsigned_def BRTransactionAddInput_def BRTransactionNew_def BRTxInputSetScript_def Let_def)
  have addrs: "in_address ` set (tx_inputs demo_unsigned) = {s}" using arg_cong [OF ins(1), of set] a by simp
  have w: "wl_internalChain sign_wallet = []" "wl_externalChain sign_wallet = [s]" "we_keys sign_env = demo_api"
    "we_privKey sign_env [1] c j = 7" for c j
    by (simp_all add: sign_wallet_def wallet_empty_def sign_env_def a)
  have z: "{j. j < length [s] \<and> [s] ! j \<in> {s}} = {0}" by auto
  have "distinct (wl_internalChain sign_wallet)" "distinct (wl_externalChain sign_wallet)"
    "short_addrs (set (wl_internalChain sign_wallet))" "short_addrs (set (wl_externalChain sign_wallet))"
    "short_addrs (in_address ` set (tx_inputs demo_unsigned))"
    using s(2) by (simp_all add: w addrs short_addrs_def)
  from BRWalletSignTransaction_keys [OF this, of sign_env SIGHASH_FORKID "[1]"]
  obtain keys where keys: "BRWalletSignTransaction sign_env sign_wallet demo_unsigned SIGHASH_FORKID (Some [1]) =
      Some (case BRTransactionSign demo_api SIGHASH_FORKID keys demo_unsigned of (r, tx') \<Rightarrow> (if r then 1 else 0, tx'))"
    "set keys = {7}" "BRWalletSignTransaction sign_env sign_wallet demo_unsigned SIGHASH_FORKID None = Some (-1, demo_unsigned)"
    unfolding addrs w z by auto
  have k: "script_key demo_api keys demo_script = Some 7"
    using keys(2) s a by (cases keys) (auto simp: script_key_def find_key_def demo_api_def demo_script_def BRAddressEq_def)
  have "in_signature (signed_input demo_api SIGHASH_FORKID keys demo_unsigned i) \<noteq> None" if "i < 2" for i
  proof -
    have "in_script (tx_inputs demo_unsigned ! i) = Some demo_script"
      using ins(2,4) that by (metis nth_map nth_Cons_0 nth_Cons_Suc less_2_cases One_nat_def)
    then show ?thesis by (simp add: signed_input_def bytes_of_def k BRTxInputSetSignature_def Let_def)
  qed
  then show ?thesis
    using keys(1,3) ins(3,4) BRTransactionSign_eq [of keys demo_api demo_unsigned SIGHASH_FORKID] keys(2)
    by (auto simp: demo_api_def SIZE_MAX_def Let_def)
qed

end
