(* ===== verification/Peer.thy ===== *)
theory Peer
  imports Complex_Main Transaction MerkleBlock "HOL-Library.Monad_Syntax"
begin

text \<open>
  \<^verbatim>\<open>Libraries/loafwallet-core/BRPeer.c\<close> (and \<^verbatim>\<open>BRPeer.h\<close>), first part: the state of a connection and the operations
  that send messages. The state is the record of the C struct, without the parts that only serve logging, and
  with two additions. \<open>pc_events\<close> lists everything that leaves the peer, in order: bytes handed to the socket
  and calls of the callbacks. \<open>pc_callbacks\<close> says which of the callback pointers are set. A callback of the
  client may call operations of the same peer: its effect on the state is \<open>pe_react\<close> of the environment.

  The environment also has the clocks, random numbers, the outcomes of sending, whether an array is moved when
  it grows, and the client's answer to a request for a transaction. A \<open>double\<close> is a real number: the rounding
  of time stamps is not modelled, and no lemma depends on it. The socket is written by this thread only.
\<close>

section \<open>State\<close>

definition MAGIC_NUMBER :: u32 where "MAGIC_NUMBER = 0xdbb6c0fb"
definition HEADER_LENGTH :: nat where "HEADER_LENGTH = 24"
definition MAX_MSG_LENGTH :: nat where "MAX_MSG_LENGTH = 0x02000000"
definition MAX_GETDATA_HASHES :: nat where "MAX_GETDATA_HASHES = 50000"
definition ENABLED_SERVICES :: u64 where "ENABLED_SERVICES = 0"
definition PROTOCOL_VERSION :: u32 where "PROTOCOL_VERSION = 70015"
definition MIN_PROTO_VERSION :: u32 where "MIN_PROTO_VERSION = 70002"
definition CONNECT_TIMEOUT :: real where "CONNECT_TIMEOUT = 3"
definition MESSAGE_TIMEOUT :: real where "MESSAGE_TIMEOUT = 10"
definition STANDARD_PORT :: u16 where "STANDARD_PORT = 9333"
definition SERVICES_NODE_NETWORK :: u64 where "SERVICES_NODE_NETWORK = 1"
definition USER_AGENT :: "u8 list" where "USER_AGENT = map of_char ''/loaf:2.0.0/''"
definition DBL_MAX :: real where "DBL_MAX = (2 ^ 53 - 1) * 2 ^ 971"

definition LOCAL_HOST :: UInt128 where
  "LOCAL_HOST = UInt128Get [0, 0, 0, 0, 0, 0, 0, 0, 0, 0, 0xff, 0xff, 0x7f, 0x00, 0x00, 0x01]"

definition MSG_VERSION :: "u8 list" where "MSG_VERSION = map of_char ''version''"
definition MSG_VERACK :: "u8 list" where "MSG_VERACK = map of_char ''verack''"
definition MSG_ADDR :: "u8 list" where "MSG_ADDR = map of_char ''addr''"
definition MSG_INV :: "u8 list" where "MSG_INV = map of_char ''inv''"
definition MSG_GETDATA :: "u8 list" where "MSG_GETDATA = map of_char ''getdata''"
definition MSG_NOTFOUND :: "u8 list" where "MSG_NOTFOUND = map of_char ''notfound''"
definition MSG_GETBLOCKS :: "u8 list" where "MSG_GETBLOCKS = map of_char ''getblocks''"
definition MSG_GETHEADERS :: "u8 list" where "MSG_GETHEADERS = map of_char ''getheaders''"
definition MSG_TX :: "u8 list" where "MSG_TX = map of_char ''tx''"
definition MSG_HEADERS :: "u8 list" where "MSG_HEADERS = map of_char ''headers''"
definition MSG_GETADDR :: "u8 list" where "MSG_GETADDR = map of_char ''getaddr''"
definition MSG_MEMPOOL :: "u8 list" where "MSG_MEMPOOL = map of_char ''mempool''"
definition MSG_PING :: "u8 list" where "MSG_PING = map of_char ''ping''"
definition MSG_PONG :: "u8 list" where "MSG_PONG = map of_char ''pong''"
definition MSG_FILTERLOAD :: "u8 list" where "MSG_FILTERLOAD = map of_char ''filterload''"
definition MSG_MERKLEBLOCK :: "u8 list" where "MSG_MERKLEBLOCK = map of_char ''merkleblock''"
definition MSG_REJECT :: "u8 list" where "MSG_REJECT = map of_char ''reject''"
definition MSG_FEEFILTER :: "u8 list" where "MSG_FEEFILTER = map of_char ''feefilter''"

definition inv_tx :: u32 where "inv_tx = 1"
definition inv_block :: u32 where "inv_block = 2"
definition inv_filtered_block :: u32 where "inv_filtered_block = 3"

datatype BRPeerStatus = BRPeerStatusDisconnected | BRPeerStatusConnecting | BRPeerStatusConnected

record BRPeer =
  pr_address :: UInt128
  pr_port :: u16
  pr_services :: u64
  pr_timestamp :: u64
  pr_flags :: u8

definition BR_PEER_NONE :: BRPeer where
  "BR_PEER_NONE = \<lparr>pr_address = 0, pr_port = 0, pr_services = 0, pr_timestamp = 0, pr_flags = 0\<rparr>"

definition BRPeerIsIPv4 :: "'a BRPeer_scheme \<Rightarrow> bool" where
  "BRPeerIsIPv4 peer \<longleftrightarrow> ucast (pr_address peer) = (0 :: u64) \<and> ucast (drop_bit 64 (pr_address peer)) = (0 :: u16) \<and>
     ucast (drop_bit 80 (pr_address peer)) = (0xffff :: u16)"

datatype callback = CbConnected | CbDisconnected | CbRelayedPeers | CbRelayedTx | CbHasTx | CbRejectedTx
  | CbRelayedBlock | CbNotfound | CbSetFeePerKb | CbRequestedTx | CbNetworkIsReachable

datatype peer_event =
    Sent "u8 list"
  | Connected
  | Disconnected int
  | RelayedPeers "BRPeer list"
  | RelayedTx BRTransaction
  | HasTx UInt256
  | RejectedTx UInt256 u8
  | RelayedBlock BRMerkleBlock
  | Notfound "UInt256 list" "UInt256 list"
  | SetFeePerKb u64
  | RequestedTx UInt256
  | Pong nat nat bool
  | Mempool nat nat bool
  | ThreadStarted

text \<open>A client's completion callback is a number, \<open>None\<close> for \<open>NULL\<close>, and its \<open>info\<close> pointer another.\<close>

record BRPeerContext = BRPeer +
  pc_status :: BRPeerStatus
  pc_waitingForNetwork :: bool
  pc_needsFilterUpdate :: bool
  pc_nonce :: u64
  pc_feePerKb :: u64
  pc_useragent :: "u8 list"
  pc_version :: u32
  pc_lastblock :: u32
  pc_earliestKeyTime :: u32
  pc_currentBlockHeight :: u32
  pc_startTime :: real
  pc_pingTime :: real
  pc_disconnectTime :: real
  pc_mempoolTime :: real
  pc_sentVerack :: bool
  pc_gotVerack :: bool
  pc_sentGetaddr :: bool
  pc_sentFilter :: bool
  pc_sentGetdata :: bool
  pc_sentMempool :: bool
  pc_sentGetblocks :: bool
  pc_lastBlockHash :: UInt256
  pc_currentBlock :: "BRMerkleBlock option"
  pc_currentBlockTxHashes :: "UInt256 list"
  pc_knownBlockHashes :: "UInt256 list"
  pc_knownTxHashes :: "UInt256 list"
  pc_knownTxHashSet :: "UInt256 set"
  pc_socket :: int
  pc_callbacks :: "callback set"
  pc_pongInfo :: "nat list"
  pc_pongCallback :: "nat option list"
  pc_mempoolInfo :: nat
  pc_mempoolCallback :: "nat option"
  pc_events :: "peer_event list"

record peer_env =
  pe_time :: u64
  pe_tod :: real
  pe_rand :: u64
  pe_moved :: "nat \<Rightarrow> bool"
  pe_send :: "nat \<Rightarrow> u8 list \<Rightarrow> nat \<times> int"
  pe_requestedTx :: "UInt256 \<Rightarrow> BRTransaction option"
  pe_reachable :: bool
  pe_thread_error :: bool
  pe_react :: "peer_event \<Rightarrow> BRPeerContext \<Rightarrow> BRPeerContext"

definition event :: "peer_event \<Rightarrow> BRPeerContext \<Rightarrow> BRPeerContext" where
  "event e ctx = ctx\<lparr>pc_events := pc_events ctx @ [e]\<rparr>"

text \<open>A call of the client.\<close>

definition call :: "peer_env \<Rightarrow> peer_event \<Rightarrow> BRPeerContext \<Rightarrow> BRPeerContext" where
  "call E e ctx = pe_react E e (event e ctx)"

definition notify :: "peer_env \<Rightarrow> callback \<Rightarrow> peer_event \<Rightarrow> BRPeerContext \<Rightarrow> BRPeerContext" where
  "notify E cb e ctx = (if cb \<in> pc_callbacks ctx then call E e ctx else ctx)"

definition BRPeerNew :: BRPeerContext where
  "BRPeerNew = \<lparr>pr_address = 0, pr_port = 0, pr_services = 0, pr_timestamp = 0, pr_flags = 0,
     pc_status = BRPeerStatusDisconnected, pc_waitingForNetwork = False, pc_needsFilterUpdate = False, pc_nonce = 0,
     pc_feePerKb = 0, pc_useragent = [], pc_version = 0, pc_lastblock = 0, pc_earliestKeyTime = 0,
     pc_currentBlockHeight = 0, pc_startTime = 0, pc_pingTime = DBL_MAX, pc_disconnectTime = DBL_MAX,
     pc_mempoolTime = DBL_MAX, pc_sentVerack = False, pc_gotVerack = False, pc_sentGetaddr = False,
     pc_sentFilter = False, pc_sentGetdata = False, pc_sentMempool = False, pc_sentGetblocks = False,
     pc_lastBlockHash = 0, pc_currentBlock = None, pc_currentBlockTxHashes = [], pc_knownBlockHashes = [],
     pc_knownTxHashes = [], pc_knownTxHashSet = {}, pc_socket = -1, pc_callbacks = {}, pc_pongInfo = [],
     pc_pongCallback = [], pc_mempoolInfo = 0, pc_mempoolCallback = None, pc_events = []\<rparr>"

definition BRPeerSetCallbacks :: "BRPeerContext \<Rightarrow> callback set \<Rightarrow> BRPeerContext" where
  "BRPeerSetCallbacks ctx cbs = ctx\<lparr>pc_callbacks := cbs\<rparr>"

definition BRPeerSetEarliestKeyTime :: "BRPeerContext \<Rightarrow> u32 \<Rightarrow> BRPeerContext" where
  "BRPeerSetEarliestKeyTime ctx t = ctx\<lparr>pc_earliestKeyTime := t\<rparr>"

definition BRPeerSetCurrentBlockHeight :: "BRPeerContext \<Rightarrow> u32 \<Rightarrow> BRPeerContext" where
  "BRPeerSetCurrentBlockHeight ctx h = ctx\<lparr>pc_currentBlockHeight := h\<rparr>"

definition BRPeerConnectStatus :: "BRPeerContext \<Rightarrow> BRPeerStatus" where
  "BRPeerConnectStatus ctx = pc_status ctx"

definition BRPeerSetNeedsFilterUpdate :: "BRPeerContext \<Rightarrow> bool \<Rightarrow> BRPeerContext" where
  "BRPeerSetNeedsFilterUpdate ctx b = ctx\<lparr>pc_needsFilterUpdate := b\<rparr>"

definition BRPeerVersion :: "BRPeerContext \<Rightarrow> u32" where "BRPeerVersion ctx = pc_version ctx"

definition BRPeerUserAgent :: "BRPeerContext \<Rightarrow> u8 list" where "BRPeerUserAgent ctx = pc_useragent ctx"

definition BRPeerLastBlock :: "BRPeerContext \<Rightarrow> u32" where "BRPeerLastBlock ctx = pc_lastblock ctx"

definition BRPeerPingTime :: "BRPeerContext \<Rightarrow> real" where "BRPeerPingTime ctx = pc_pingTime ctx"

definition BRPeerFeePerKb :: "BRPeerContext \<Rightarrow> u64" where "BRPeerFeePerKb ctx = pc_feePerKb ctx"

section \<open>Connecting\<close>

definition BRPeerConnect :: "peer_env \<Rightarrow> BRPeerContext \<Rightarrow> BRPeerContext" where
  "BRPeerConnect E ctx =
     (if pc_status ctx = BRPeerStatusDisconnected \<or> pc_waitingForNetwork ctx
      then let ctx = ctx\<lparr>pc_status := BRPeerStatusConnecting\<rparr> in
        if CbNetworkIsReachable \<in> pc_callbacks ctx \<and> \<not> pe_reachable E
        then ctx\<lparr>pc_waitingForNetwork := True\<rparr>
        else let ctx = ctx\<lparr>pc_waitingForNetwork := False, pc_disconnectTime := pe_tod E + CONNECT_TIMEOUT\<rparr> in
          if pe_thread_error E then ctx\<lparr>pc_status := BRPeerStatusDisconnected\<rparr> else event ThreadStarted ctx
      else ctx)"

definition BRPeerDisconnect :: "BRPeerContext \<Rightarrow> BRPeerContext" where
  "BRPeerDisconnect ctx = (if pc_socket ctx \<ge> 0 then ctx\<lparr>pc_socket := -1\<rparr> else ctx)"

definition BRPeerScheduleDisconnect :: "peer_env \<Rightarrow> BRPeerContext \<Rightarrow> real \<Rightarrow> BRPeerContext" where
  "BRPeerScheduleDisconnect E ctx seconds =
     ctx\<lparr>pc_disconnectTime := (if seconds < 0 then DBL_MAX else pe_tod E + seconds)\<rparr>"

section \<open>Known transactions\<close>

text \<open>When the array moves, the set of pointers into it is built again.\<close>

definition add_known :: "peer_env \<Rightarrow> UInt256 \<Rightarrow> BRPeerContext \<Rightarrow> BRPeerContext" where
  "add_known E h ctx =
     (if h \<notin> pc_knownTxHashSet ctx
      then let ctx = ctx\<lparr>pc_knownTxHashes := pc_knownTxHashes ctx @ [h]\<rparr> in
        if pe_moved E (length (pc_knownTxHashes ctx))
        then ctx\<lparr>pc_knownTxHashSet := set (rev (pc_knownTxHashes ctx))\<rparr>
        else ctx\<lparr>pc_knownTxHashSet := insert (last (pc_knownTxHashes ctx)) (pc_knownTxHashSet ctx)\<rparr>
      else ctx)"

definition BRPeerAddKnownTxHashes :: "peer_env \<Rightarrow> UInt256 list \<Rightarrow> BRPeerContext \<Rightarrow> BRPeerContext" where
  "BRPeerAddKnownTxHashes E txHashes ctx = fold (add_known E) txHashes ctx"

section \<open>Sending\<close>

definition msg_header :: "u8 list \<Rightarrow> u8 list \<Rightarrow> u8 list" where
  "msg_header msg type =
     UInt32SetLE MAGIC_NUMBER @ take 12 (type @ replicate 12 0) @ UInt32SetLE (word_of_nat (length msg)) @
     take 4 (BRSHA256_2 msg)"

text \<open>The loop around \<open>send\<close>: the bytes that went out and the error that ended it, 0 for none.\<close>

definition BRPeerSendMessage :: "peer_env \<Rightarrow> u8 list \<Rightarrow> u8 list \<Rightarrow> BRPeerContext \<Rightarrow> BRPeerContext" where
  "BRPeerSendMessage E msg type ctx =
     (if length msg > MAX_MSG_LENGTH then ctx
      else if pc_socket ctx < 0 then BRPeerDisconnect ctx
      else let buf = msg_header msg type @ msg;
               (n, error) = pe_send E (length (pc_events ctx)) buf;
               ctx = event (Sent (take n buf)) ctx
           in if error \<noteq> 0 then BRPeerDisconnect ctx else ctx)"

definition BRPeerSendVersionMessage :: "peer_env \<Rightarrow> BRPeerContext \<Rightarrow> BRPeerContext" where
  "BRPeerSendVersionMessage E ctx =
     (let nonce = pe_rand E;
          msg = UInt32SetLE PROTOCOL_VERSION @ UInt64SetLE ENABLED_SERVICES @ UInt64SetLE (pe_time E) @
            UInt64SetLE (pr_services ctx) @ UInt128Set (pr_address ctx) @ UInt16SetBE (pr_port ctx) @
            UInt64SetLE ENABLED_SERVICES @ UInt128Set LOCAL_HOST @ UInt16SetBE STANDARD_PORT @ UInt64SetLE nonce @
            bytes_written (BRVarIntSet (word_of_nat (length USER_AGENT))) @ USER_AGENT @ UInt32SetLE 0 @ [0]
      in BRPeerSendMessage E msg MSG_VERSION (ctx\<lparr>pc_nonce := nonce\<rparr>))"

definition BRPeerSendVerackMessage :: "peer_env \<Rightarrow> BRPeerContext \<Rightarrow> BRPeerContext" where
  "BRPeerSendVerackMessage E ctx = (BRPeerSendMessage E [] MSG_VERACK ctx)\<lparr>pc_sentVerack := True\<rparr>"

definition BRPeerSendAddr :: "peer_env \<Rightarrow> BRPeerContext \<Rightarrow> BRPeerContext" where
  "BRPeerSendAddr E ctx = BRPeerSendMessage E (bytes_written (BRVarIntSet 0)) MSG_ADDR ctx"

definition BRPeerSendFilterload :: "peer_env \<Rightarrow> u8 list \<Rightarrow> BRPeerContext \<Rightarrow> BRPeerContext" where
  "BRPeerSendFilterload E flt ctx =
     BRPeerSendMessage E flt MSG_FILTERLOAD (ctx\<lparr>pc_sentFilter := True, pc_sentMempool := False\<rparr>)"

definition BRPeerSendMempool ::
    "peer_env \<Rightarrow> UInt256 list \<Rightarrow> nat \<Rightarrow> nat option \<Rightarrow> BRPeerContext \<Rightarrow> BRPeerContext" where
  "BRPeerSendMempool E knownTxHashes info callback ctx =
     (let sentMempool = pc_sentMempool ctx; ctx = ctx\<lparr>pc_sentMempool := True\<rparr> in
      if \<not> sentMempool \<and> pc_mempoolCallback ctx = None
      then let ctx = BRPeerAddKnownTxHashes E knownTxHashes ctx;
               ctx = (if callback \<noteq> None
                 then ctx\<lparr>pc_mempoolTime := pe_tod E + 10, pc_mempoolInfo := info, pc_mempoolCallback := callback\<rparr>
                 else ctx)
           in BRPeerSendMessage E [] MSG_MEMPOOL ctx
      else (case callback of None \<Rightarrow> ctx | Some f \<Rightarrow> call E (Mempool f info False) ctx))"

definition locator_message :: "UInt256 list \<Rightarrow> UInt256 \<Rightarrow> u8 list" where
  "locator_message locators hashStop =
     UInt32SetLE PROTOCOL_VERSION @ bytes_written (BRVarIntSet (word_of_nat (length locators))) @
     concat (map UInt256Set locators) @ UInt256Set hashStop"

definition BRPeerSendGetheaders :: "peer_env \<Rightarrow> UInt256 list \<Rightarrow> UInt256 \<Rightarrow> BRPeerContext \<Rightarrow> BRPeerContext" where
  "BRPeerSendGetheaders E locators hashStop ctx =
     (if length locators > 0 then BRPeerSendMessage E (locator_message locators hashStop) MSG_GETHEADERS ctx else ctx)"

definition BRPeerSendGetblocks :: "peer_env \<Rightarrow> UInt256 list \<Rightarrow> UInt256 \<Rightarrow> BRPeerContext \<Rightarrow> BRPeerContext" where
  "BRPeerSendGetblocks E locators hashStop ctx =
     (if length locators > 0 then BRPeerSendMessage E (locator_message locators hashStop) MSG_GETBLOCKS ctx else ctx)"

definition inv_items :: "u32 \<Rightarrow> UInt256 list \<Rightarrow> u8 list" where
  "inv_items t hashes = concat (map (\<lambda>h. UInt32SetLE t @ UInt256Set h) hashes)"

definition BRPeerSendInv :: "peer_env \<Rightarrow> UInt256 list \<Rightarrow> BRPeerContext \<Rightarrow> BRPeerContext" where
  "BRPeerSendInv E txHashes ctx =
     (let knownCount = length (pc_knownTxHashes ctx);
          ctx = BRPeerAddKnownTxHashes E txHashes ctx;
          txCount = length (pc_knownTxHashes ctx) - knownCount
      in if txCount > 0
         then BRPeerSendMessage E (bytes_written (BRVarIntSet (word_of_nat txCount)) @
                inv_items inv_tx (take txCount (drop knownCount (pc_knownTxHashes ctx)))) MSG_INV ctx
         else ctx)"

definition BRPeerSendGetdata :: "peer_env \<Rightarrow> UInt256 list \<Rightarrow> UInt256 list \<Rightarrow> BRPeerContext \<Rightarrow> BRPeerContext" where
  "BRPeerSendGetdata E txHashes blockHashes ctx =
     (let count = length txHashes + length blockHashes in
      if count > MAX_GETDATA_HASHES then ctx
      else if count > 0
      then BRPeerSendMessage E (bytes_written (BRVarIntSet (word_of_nat count)) @ inv_items inv_tx txHashes @
             inv_items inv_filtered_block blockHashes) MSG_GETDATA (ctx\<lparr>pc_sentGetdata := True\<rparr>)
      else ctx)"

definition BRPeerSendGetaddr :: "peer_env \<Rightarrow> BRPeerContext \<Rightarrow> BRPeerContext" where
  "BRPeerSendGetaddr E ctx = BRPeerSendMessage E [] MSG_GETADDR (ctx\<lparr>pc_sentGetaddr := True\<rparr>)"

definition BRPeerSendPing :: "peer_env \<Rightarrow> nat \<Rightarrow> nat option \<Rightarrow> BRPeerContext \<Rightarrow> BRPeerContext" where
  "BRPeerSendPing E info pongCallback ctx =
     (let ctx = ctx\<lparr>pc_startTime := pe_tod E, pc_pongInfo := pc_pongInfo ctx @ [info],
            pc_pongCallback := pc_pongCallback ctx @ [pongCallback]\<rparr>
      in BRPeerSendMessage E (UInt64SetLE (pc_nonce ctx)) MSG_PING ctx)"

text \<open>\<open>while (i > 0 && ! UInt256Eq(hashes[i - 1], fromBlock)) i--;\<close>\<close>

fun last_pos :: "UInt256 list \<Rightarrow> UInt256 \<Rightarrow> nat \<Rightarrow> nat" where
  "last_pos hashes h 0 = 0"
| "last_pos hashes h (Suc i) = (if \<not> UInt256Eq (hashes ! i) h then last_pos hashes h i else Suc i)"

definition BRPeerRerequestBlocks :: "peer_env \<Rightarrow> UInt256 \<Rightarrow> BRPeerContext \<Rightarrow> BRPeerContext" where
  "BRPeerRerequestBlocks E fromBlock ctx =
     (let i = last_pos (pc_knownBlockHashes ctx) fromBlock (length (pc_knownBlockHashes ctx)) in
      if i > 0
      then let ctx = ctx\<lparr>pc_knownBlockHashes := drop (i - 1) (pc_knownBlockHashes ctx)\<rparr>
           in BRPeerSendGetdata E [] (pc_knownBlockHashes ctx) ctx
      else ctx)"

end
