(* ===== verification/PeerAccept.thy ===== *)
theory PeerAccept
  imports Peer Reader
begin

text \<open>
  \<^verbatim>\<open>Libraries/loafwallet-core/BRPeer.c\<close>, second part: what the peer does with a message, one definition per
  message type. The result is the \<open>int\<close> of the code as a truth value, and the new state; \<open>None\<close> says that
  the handler reads outside the message. Lengths and indices computed from a count in the message are
  reduced modulo \<open>2 ^ 64\<close>, as in the code. Text that is only logged is left out.
\<close>

section \<open>Reading a message\<close>

text \<open>\<open>get(&msg[off])\<close> of \<open>n\<close> bytes, without a test.\<close>

definition get_at :: "nat \<Rightarrow> (u8 list \<Rightarrow> 'a) \<Rightarrow> size_t \<Rightarrow> u8 list \<Rightarrow> 'a option" where
  "get_at n get off msg = (if off + n \<le> length msg then Some (get (drop off msg)) else None)"

text \<open>\<open>(size_t)BRVarInt(msg, msgLen, &off)\<close>\<close>

definition get_count :: "u8 list \<Rightarrow> size_t \<times> size_t" where
  "get_count msg = (let (v, off) = BRVarInt msg in (unat v, off))"

text \<open>\<open>strncpy(s, &msg[off], n)\<close>: the characters copied. It reads up to a 0, which may be behind the message.\<close>

definition str_at :: "nat \<Rightarrow> size_t \<Rightarrow> u8 list \<Rightarrow> u8 list option" where
  "str_at n off msg =
     (let bs = take n (drop off msg) in
      if off + n \<le> length msg \<or> 0 \<in> set bs then Some (takeWhile (\<lambda>b. b \<noteq> 0) bs) else None)"

section \<open>Handshake\<close>

definition BRPeerDidConnect :: "peer_env \<Rightarrow> BRPeerContext \<Rightarrow> BRPeerContext" where
  "BRPeerDidConnect E ctx =
     (if pc_status ctx = BRPeerStatusConnecting \<and> pc_sentVerack ctx \<and> pc_gotVerack ctx
      then notify E CbConnected Connected (ctx\<lparr>pc_disconnectTime := DBL_MAX, pc_status := BRPeerStatusConnected\<rparr>)
      else ctx)"

definition AcceptVersionMessage :: "peer_env \<Rightarrow> u8 list \<Rightarrow> BRPeerContext \<Rightarrow> (bool \<times> BRPeerContext) option" where
  "AcceptVersionMessage E msg ctx =
     (if 85 > length msg then Some (False, ctx)
      else
      do {
        version \<leftarrow> get_at 4 UInt32GetLE 0 msg;
        services \<leftarrow> get_at 8 UInt64GetLE 4 msg;
        timestamp \<leftarrow> get_at 8 UInt64GetLE 12 msg;
        let ctx = ctx\<lparr>pc_version := version, pr_services := services, pr_timestamp := timestamp\<rparr>;
        recvServices \<leftarrow> get_at 8 UInt64GetLE 20 msg;
        recvAddr \<leftarrow> get_at 16 UInt128Get 28 msg;
        recvPort \<leftarrow> get_at 2 UInt16GetBE 44 msg;
        fromServices \<leftarrow> get_at 8 UInt64GetLE 46 msg;
        fromAddr \<leftarrow> get_at 16 UInt128Get 54 msg;
        fromPort \<leftarrow> get_at 2 UInt16GetBE 70 msg;
        nonce \<leftarrow> get_at 8 UInt64GetLE 72 msg;
        let off = 80;
        let (strLen, len) = get_count (drop off msg);
        let off = off + len;
        if sz (off + strLen + 4) > length msg then Some (False, ctx)
        else if pc_version ctx < MIN_PROTO_VERSION then Some (False, ctx)
        else do {
          agent \<leftarrow> sub_bytes off strLen msg;
          let ctx = ctx\<lparr>pc_useragent := agent @ [0]\<rparr>;
          let off = off + strLen;
          lastblock \<leftarrow> get_at 4 UInt32GetLE off msg;
          let ctx = ctx\<lparr>pc_lastblock := lastblock\<rparr>;
          Some (True, BRPeerSendVerackMessage E ctx)
        }
      })"

text \<open>With its 85 bytes the reads at fixed offsets stay inside the message.\<close>

lemma AcceptVersionMessage_eq:
  "AcceptVersionMessage E msg ctx =
     (if 85 > length msg then Some (False, ctx)
      else
        let ctx = ctx\<lparr>pc_version := UInt32GetLE msg, pr_services := UInt64GetLE (drop 4 msg),
               pr_timestamp := UInt64GetLE (drop 12 msg)\<rparr>;
            off = 80; (strLen, len) = get_count (drop off msg); off = off + len
        in if sz (off + strLen + 4) > length msg then Some (False, ctx)
           else if pc_version ctx < MIN_PROTO_VERSION then Some (False, ctx)
           else do {
             agent \<leftarrow> sub_bytes off strLen msg;
             let ctx = ctx\<lparr>pc_useragent := agent @ [0]\<rparr>;
             let off = off + strLen;
             lastblock \<leftarrow> get_at 4 UInt32GetLE off msg;
             let ctx = ctx\<lparr>pc_lastblock := lastblock\<rparr>;
             Some (True, BRPeerSendVerackMessage E ctx)
           })"
  by (cases "85 > length msg") (simp_all add: AcceptVersionMessage_def get_at_def Let_def)

definition AcceptVerackMessage :: "peer_env \<Rightarrow> BRPeerContext \<Rightarrow> bool \<times> BRPeerContext" where
  "AcceptVerackMessage E ctx =
     (if pc_gotVerack ctx then (True, ctx)
      else let ctx = ctx\<lparr>pc_pingTime := pe_tod E - pc_startTime ctx, pc_startTime := 0, pc_gotVerack := True\<rparr>
           in (True, BRPeerDidConnect E ctx))"

section \<open>Addresses\<close>

text \<open>One entry; the field \<open>flags\<close> of the local variable is not set by the code and is 0 here.\<close>

definition addr_entry :: "u8 list \<Rightarrow> size_t \<Rightarrow> BRPeer option" where
  "addr_entry msg off = do {
     t \<leftarrow> get_at 4 UInt32GetLE off msg;
     s \<leftarrow> get_at 8 UInt64GetLE (off + 4) msg;
     a \<leftarrow> get_at 16 UInt128Get (off + 12) msg;
     p \<leftarrow> get_at 2 UInt16GetBE (off + 28) msg;
     Some \<lparr>pr_address = a, pr_port = p, pr_services = s, pr_timestamp = ucast t, pr_flags = 0\<rparr>
   }"

definition addr_usable :: "BRPeer \<Rightarrow> bool" where
  "addr_usable p \<longleftrightarrow> pr_services p AND SERVICES_NODE_NETWORK \<noteq> 0 \<and> BRPeerIsIPv4 p"

definition addr_aged :: "u64 \<Rightarrow> BRPeer \<Rightarrow> BRPeer" where
  "addr_aged now p =
     (let t = (if pr_timestamp p > now + 10 * 60 \<or> pr_timestamp p = 0 then now - 5 * 24 * 60 * 60 else pr_timestamp p)
      in p\<lparr>pr_timestamp := t - 2 * 60 * 60\<rparr>)"

fun addr_loop :: "u64 \<Rightarrow> u8 list \<Rightarrow> nat \<Rightarrow> size_t \<Rightarrow> BRPeer list \<Rightarrow> BRPeer list option" where
  "addr_loop now msg 0 off peers = Some peers"
| "addr_loop now msg (Suc n) off peers = do {
     p \<leftarrow> addr_entry msg off;
     addr_loop now msg n (off + 30) (if addr_usable p then peers @ [addr_aged now p] else peers)
   }"

definition AcceptAddrMessage :: "peer_env \<Rightarrow> u8 list \<Rightarrow> BRPeerContext \<Rightarrow> (bool \<times> BRPeerContext) option" where
  "AcceptAddrMessage E msg ctx =
     (let (count, off) = get_count msg in
      if off = 0 \<or> sz (off + count * 30) > length msg then Some (False, ctx)
      else if count > 1000 then Some (True, ctx)
      else if pc_sentGetaddr ctx
      then do {
        peers \<leftarrow> addr_loop (pe_time E) msg count off [];
        Some (True, if peers \<noteq> [] then notify E CbRelayedPeers (RelayedPeers peers) ctx else ctx)
      }
      else Some (True, ctx))"

section \<open>Inventories\<close>

text \<open>The pointers to the hashes of transactions and of blocks.\<close>

fun inv_split :: "u8 list \<Rightarrow> nat \<Rightarrow> size_t \<Rightarrow> nat list \<Rightarrow> nat list \<Rightarrow> (nat list \<times> nat list) option" where
  "inv_split msg 0 off txs blks = Some (txs, blks)"
| "inv_split msg (Suc n) off txs blks = do {
     type \<leftarrow> get_at 4 UInt32GetLE off msg;
     inv_split msg n (off + 36) (if type = inv_tx then txs @ [off + 4] else txs)
       (if type = inv_block then blks @ [off + 4] else blks)
   }"

function trim_known :: "UInt256 list \<Rightarrow> UInt256 list" where
  "trim_known hashes =
     (if length hashes > MAX_GETDATA_HASHES then trim_known (drop (length hashes div 3) hashes) else hashes)"
  by auto
termination by (relation "measure length") (auto simp: MAX_GETDATA_HASHES_def)

declare trim_known.simps [simp del]

fun inv_unknown :: "peer_env \<Rightarrow> UInt256 list \<Rightarrow> BRPeerContext \<Rightarrow> UInt256 list \<Rightarrow> BRPeerContext \<times> UInt256 list" where
  "inv_unknown E [] ctx unknown = (ctx, unknown)"
| "inv_unknown E (h # hs) ctx unknown =
     (if h \<in> pc_knownTxHashSet ctx then inv_unknown E hs (notify E CbHasTx (HasTx h) ctx) unknown
      else inv_unknown E hs ctx (unknown @ [h]))"

definition inv_request :: "peer_env \<Rightarrow> UInt256 list \<Rightarrow> UInt256 list \<Rightarrow> BRPeerContext \<Rightarrow> BRPeerContext" where
  "inv_request E txs blks ctx =
     (let ctx = ctx\<lparr>pc_knownBlockHashes := trim_known (pc_knownBlockHashes ctx @ blks)\<rparr>;
          blks = (if pc_needsFilterUpdate ctx then [] else blks);
          (ctx, unknown) = inv_unknown E txs ctx [];
          ctx = BRPeerAddKnownTxHashes E unknown ctx;
          ctx = (if length unknown > 0 \<or> length blks > 0 then BRPeerSendGetdata E unknown blks ctx else ctx);
          ctx = (if length blks \<ge> 500
                 then BRPeerSendGetblocks E [blks ! (length blks - 1), blks ! 0] 0 ctx else ctx)
      in if length txs > 0 \<and> pc_mempoolCallback ctx \<noteq> None
         then (BRPeerSendPing E (pc_mempoolInfo ctx) (pc_mempoolCallback ctx) ctx)
                \<lparr>pc_mempoolCallback := None, pc_mempoolTime := DBL_MAX\<rparr>
         else ctx)"

definition AcceptInvMessage :: "peer_env \<Rightarrow> u8 list \<Rightarrow> BRPeerContext \<Rightarrow> (bool \<times> BRPeerContext) option" where
  "AcceptInvMessage E msg ctx =
     (let (count, off) = get_count msg in
      if off = 0 \<or> sz (off + count * 36) > length msg then Some (False, ctx)
      else if count > MAX_GETDATA_HASHES then Some (True, ctx)
      else do {
        (transactions, blks) \<leftarrow> inv_split msg count off [] [];
        let txCount = length transactions; let blockCount = length blks;
        if txCount > 0 \<and> \<not> pc_sentFilter ctx \<and> \<not> pc_sentMempool ctx \<and> \<not> pc_sentGetblocks ctx then Some (False, ctx)
        else if txCount > 10000 then Some (False, ctx)
        else if pc_currentBlockHeight ctx > 0 \<and> blockCount > 2 \<and> blockCount < 500 \<and>
           unat (pc_currentBlockHeight ctx) + length (pc_knownBlockHashes ctx) + blockCount < unat (pc_lastblock ctx)
        then Some (False, ctx)
        else do {
          let blks = (if \<not> pc_sentFilter ctx \<and> \<not> pc_sentGetblocks ctx then [] else blks);
          blks \<leftarrow> those (map (\<lambda>p. get_at 32 UInt256Get p msg) blks);
          let blks = (if length blks = 1 \<and> UInt256Eq (pc_lastBlockHash ctx) (blks ! 0) then [] else blks);
          let ctx = (if length blks = 1 then ctx\<lparr>pc_lastBlockHash := blks ! 0\<rparr> else ctx);
          txs \<leftarrow> those (map (\<lambda>p. get_at 32 UInt256Get p msg) transactions);
          Some (True, inv_request E txs blks ctx)
        }
      })"

section \<open>Transactions and merkle blocks\<close>

text \<open>\<open>for (i = count; i > 0; i--) { if (! UInt256Eq(txHash, hashes[i - 1])) continue; array_rm(hashes, i - 1); break; }\<close>\<close>

fun rm_hash :: "UInt256 \<Rightarrow> UInt256 list \<Rightarrow> nat \<Rightarrow> UInt256 list" where
  "rm_hash h hashes 0 = hashes"
| "rm_hash h hashes (Suc i) =
     (if \<not> UInt256Eq h (hashes ! i) then rm_hash h hashes i else take i hashes @ drop (Suc i) hashes)"

definition collect_tx :: "peer_env \<Rightarrow> UInt256 \<Rightarrow> BRPeerContext \<Rightarrow> BRPeerContext" where
  "collect_tx E txHash ctx =
     (case pc_currentBlock ctx of
        None \<Rightarrow> ctx
      | Some block \<Rightarrow>
          let ctx = ctx\<lparr>pc_currentBlockTxHashes :=
                rm_hash txHash (pc_currentBlockTxHashes ctx) (length (pc_currentBlockTxHashes ctx))\<rparr>
          in if length (pc_currentBlockTxHashes ctx) = 0
             then notify E CbRelayedBlock (RelayedBlock block) (ctx\<lparr>pc_currentBlock := None\<rparr>)
             else ctx)"

definition AcceptTxMessage :: "peer_env \<Rightarrow> u8 list \<Rightarrow> BRPeerContext \<Rightarrow> (bool \<times> BRPeerContext) option" where
  "AcceptTxMessage E msg ctx = do {
     tx \<leftarrow> BRTransactionParse msg;
     case tx of
       None \<Rightarrow> Some (False, ctx)
     | Some tx \<Rightarrow>
         if \<not> pc_sentFilter ctx \<and> \<not> pc_sentGetdata ctx then Some (False, ctx)
         else Some (True, collect_tx E (tx_txHash tx) (notify E CbRelayedTx (RelayedTx tx) ctx))
   }"

definition AcceptMerkleblockMessage :: "peer_env \<Rightarrow> u8 list \<Rightarrow> BRPeerContext \<Rightarrow> (bool \<times> BRPeerContext) option" where
  "AcceptMerkleblockMessage E msg ctx =
     (case BRMerkleBlockParse msg of
        None \<Rightarrow> Some (False, ctx)
      | Some block \<Rightarrow> do {
          valid \<leftarrow> BRMerkleBlockIsValid block (ucast (pe_time E));
          if \<not> valid then Some (False, ctx)
          else if \<not> pc_sentFilter ctx \<and> \<not> pc_sentGetdata ctx then Some (False, ctx)
          else do {
            (count, _) \<leftarrow> BRMerkleBlockTxHashes block None;
            (count, hashes) \<leftarrow> BRMerkleBlockTxHashes block (Some count);
            let ctx = ctx\<lparr>pc_currentBlockTxHashes := pc_currentBlockTxHashes ctx @
                  filter (\<lambda>h. h \<notin> pc_knownTxHashSet ctx) (rev (take count hashes))\<rparr>;
            Some (True, if length (pc_currentBlockTxHashes ctx) > 0 then ctx\<lparr>pc_currentBlock := Some block\<rparr>
              else notify E CbRelayedBlock (RelayedBlock block) ctx)
          }
        })"

section \<open>Headers\<close>

definition header_time :: "u8 list \<Rightarrow> size_t \<Rightarrow> size_t \<Rightarrow> u32 option" where
  "header_time msg off i = get_at 4 UInt32GetLE (sz (off + 81 * i + 68)) msg"

definition header_hash :: "u8 list \<Rightarrow> size_t \<Rightarrow> size_t \<Rightarrow> UInt256 option" where
  "header_hash msg off i = map_option (\<lambda>hdr. UInt256Get (BRSHA256_2 hdr)) (sub_bytes (sz (off + 81 * i)) 80 msg)"

definition recent :: "BRPeerContext \<Rightarrow> u32 \<Rightarrow> bool" where
  "recent ctx timestamp \<longleftrightarrow>
     timestamp > 0 \<and> timestamp + 7 * 24 * 60 * 60 + BLOCK_MAX_TIME_DRIFT \<ge> pc_earliestKeyTime ctx"

text \<open>\<open>timestamp = (++last < count) ? ... : 0\<close>, repeated while the header is too old.\<close>

function next_recent :: "BRPeerContext \<Rightarrow> u8 list \<Rightarrow> size_t \<Rightarrow> size_t \<Rightarrow> size_t \<Rightarrow> size_t option" where
  "next_recent ctx msg off count i = do {
     timestamp \<leftarrow> (if i + 1 < count then header_time msg off (i + 1) else Some 0);
     if i + 1 < count \<and> timestamp > 0 \<and>
        timestamp + 7 * 24 * 60 * 60 + BLOCK_MAX_TIME_DRIFT < pc_earliestKeyTime ctx
     then next_recent ctx msg off count (i + 1) else Some (i + 1)
   }"
  by auto
termination by (relation "measure (\<lambda>(ctx, msg, off, count, i). count - i)") auto

declare next_recent.simps [simp del]

function relay_headers :: "peer_env \<Rightarrow> u8 list \<Rightarrow> size_t \<Rightarrow> size_t \<Rightarrow> size_t \<Rightarrow> BRPeerContext \<Rightarrow> (bool \<times> BRPeerContext) option" where
  "relay_headers E msg off count i ctx =
     (if i < count
      then do {
        hdr \<leftarrow> sub_bytes (sz (off + 81 * i)) 81 msg;
        block \<leftarrow> BRMerkleBlockParse hdr;
        valid \<leftarrow> BRMerkleBlockIsValid block (ucast (pe_time E));
        if \<not> valid then Some (False, ctx)
        else relay_headers E msg off count (i + 1) (notify E CbRelayedBlock (RelayedBlock block) ctx)
      }
      else Some (True, ctx))"
  by auto
termination by (relation "measure (\<lambda>(E, msg, off, count, i, ctx). count - i)") auto

declare relay_headers.simps [simp del]

definition AcceptHeadersMessage :: "peer_env \<Rightarrow> u8 list \<Rightarrow> BRPeerContext \<Rightarrow> (bool \<times> BRPeerContext) option" where
  "AcceptHeadersMessage E msg ctx =
     (let (count, off) = get_count msg in
      if off = 0 \<or> sz (off + 81 * count) > length msg then Some (False, ctx)
      else do {
        timestamp \<leftarrow> (if count > 0 then header_time msg off (count - 1) else Some 0);
        if count \<ge> 2000 \<or> recent ctx timestamp
        then do {
          newest \<leftarrow> header_hash msg off (count - 1);
          oldest \<leftarrow> header_hash msg off 0;
          ctx \<leftarrow> (if recent ctx timestamp
            then do {
              i \<leftarrow> next_recent ctx msg off count 0;
              newest \<leftarrow> header_hash msg off (i - 1);
              Some (BRPeerSendGetblocks E [newest, oldest] 0 ctx)
            }
            else Some (BRPeerSendGetheaders E [newest, oldest] 0 ctx));
          relay_headers E msg off count 0 ctx
        }
        else Some (False, ctx)
      })"

section \<open>Requests of the other side\<close>

definition AcceptGetaddrMessage :: "peer_env \<Rightarrow> BRPeerContext \<Rightarrow> bool \<times> BRPeerContext" where
  "AcceptGetaddrMessage E ctx = (True, BRPeerSendAddr E ctx)"

fun getdata_loop ::
    "peer_env \<Rightarrow> u8 list \<Rightarrow> nat \<Rightarrow> size_t \<Rightarrow> u8 list list \<Rightarrow> BRPeerContext \<Rightarrow> (u8 list list \<times> BRPeerContext) option" where
  "getdata_loop E msg 0 off notfound ctx = Some (notfound, ctx)"
| "getdata_loop E msg (Suc n) off notfound ctx = do {
     type \<leftarrow> get_at 4 UInt32GetLE off msg;
     hash \<leftarrow> get_at 32 UInt256Get (off + 4) msg;
     item \<leftarrow> sub_bytes off 36 msg;
     let asked = (type = inv_tx \<and> CbRequestedTx \<in> pc_callbacks ctx);
     let tx = (if asked then pe_requestedTx E hash else None);
     let ctx = (if asked then call E (RequestedTx hash) ctx else ctx);
     case tx of
       Some t \<Rightarrow>
         if BRTransactionSize t < TX_MAX_SIZE
         then getdata_loop E msg n (off + 36) notfound
                (BRPeerSendMessage E (bytes_written (BRTransactionSerialize t)) MSG_TX ctx)
         else getdata_loop E msg n (off + 36) (notfound @ [item]) ctx
     | None \<Rightarrow> getdata_loop E msg n (off + 36) (notfound @ [item]) ctx
   }"

definition AcceptGetdataMessage :: "peer_env \<Rightarrow> u8 list \<Rightarrow> BRPeerContext \<Rightarrow> (bool \<times> BRPeerContext) option" where
  "AcceptGetdataMessage E msg ctx =
     (let (count, off) = get_count msg in
      if off = 0 \<or> sz (off + 36 * count) > length msg then Some (False, ctx)
      else if count > MAX_GETDATA_HASHES then Some (True, ctx)
      else do {
        (notfound, ctx) \<leftarrow> getdata_loop E msg count off [] ctx;
        Some (True, if notfound \<noteq> []
          then BRPeerSendMessage E
            (bytes_written (BRVarIntSet (word_of_nat (length notfound))) @ concat notfound) MSG_NOTFOUND ctx
          else ctx)
      })"

fun notfound_loop :: "u8 list \<Rightarrow> nat \<Rightarrow> size_t \<Rightarrow> UInt256 list \<Rightarrow> UInt256 list \<Rightarrow> (UInt256 list \<times> UInt256 list) option" where
  "notfound_loop msg 0 off txs blks = Some (txs, blks)"
| "notfound_loop msg (Suc n) off txs blks = do {
     type \<leftarrow> get_at 4 UInt32GetLE off msg;
     hash \<leftarrow> get_at 32 UInt256Get (off + 4) msg;
     notfound_loop msg n (off + 36) (if type = inv_tx then txs @ [hash] else txs)
       (if type = inv_filtered_block \<or> type = inv_block then blks @ [hash] else blks)
   }"

definition AcceptNotfoundMessage :: "peer_env \<Rightarrow> u8 list \<Rightarrow> BRPeerContext \<Rightarrow> (bool \<times> BRPeerContext) option" where
  "AcceptNotfoundMessage E msg ctx =
     (let (count, off) = get_count msg in
      if off = 0 \<or> sz (off + 36 * count) > length msg then Some (False, ctx)
      else if count > MAX_GETDATA_HASHES then Some (True, ctx)
      else do {
        (txs, blks) \<leftarrow> notfound_loop msg count off [] [];
        Some (True, notify E CbNotfound (Notfound txs blks) ctx)
      })"

section \<open>Ping, reject, fee filter\<close>

definition AcceptPingMessage :: "peer_env \<Rightarrow> u8 list \<Rightarrow> BRPeerContext \<Rightarrow> bool \<times> BRPeerContext" where
  "AcceptPingMessage E msg ctx =
     (if 8 > length msg then (False, ctx) else (True, BRPeerSendMessage E msg MSG_PONG ctx))"

definition pop_pong :: "peer_env \<Rightarrow> bool \<Rightarrow> BRPeerContext \<Rightarrow> BRPeerContext" where
  "pop_pong E success ctx =
     (let f = hd (pc_pongCallback ctx); info = hd (pc_pongInfo ctx);
          ctx = ctx\<lparr>pc_pongCallback := tl (pc_pongCallback ctx), pc_pongInfo := tl (pc_pongInfo ctx)\<rparr>
      in case f of None \<Rightarrow> ctx | Some f \<Rightarrow> call E (Pong f info success) ctx)"

definition AcceptPongMessage :: "peer_env \<Rightarrow> u8 list \<Rightarrow> BRPeerContext \<Rightarrow> (bool \<times> BRPeerContext) option" where
  "AcceptPongMessage E msg ctx =
     (if 8 > length msg then Some (False, ctx)
      else do {
        nonce \<leftarrow> get_at 8 UInt64GetLE 0 msg;
        if nonce \<noteq> pc_nonce ctx then Some (False, ctx)
        else if length (pc_pongCallback ctx) = 0 then Some (False, ctx)
        else let ctx = (if pc_startTime ctx > 1
                   then ctx\<lparr>pc_pingTime := pc_pingTime ctx * 0.5 + (pe_tod E - pc_startTime ctx) * 0.5, pc_startTime := 0\<rparr>
                   else ctx)
             in Some (True, pop_pong E True ctx)
      })"

definition AcceptRejectMessage :: "peer_env \<Rightarrow> u8 list \<Rightarrow> BRPeerContext \<Rightarrow> (bool \<times> BRPeerContext) option" where
  "AcceptRejectMessage E msg ctx =
     (let (strLen, off) = get_count msg in
      if sz (off + strLen + 1) > length msg then Some (False, ctx)
      else do {
        type \<leftarrow> str_at (if strLen < 0x1000 then strLen else 0xfff) off msg;
        let off = sz (off + strLen);
        code \<leftarrow> get_at 1 (\<lambda>b. b ! 0) off msg;
        let off = off + 1;
        let (strLen, len) = get_count (drop off msg);
        let off = off + len;
        let hashLen = (if type = MSG_TX then 32 else 0);
        if sz (off + strLen + hashLen) > length msg then Some (False, ctx)
        else do {
          _ \<leftarrow> str_at (if strLen < 0x1000 then strLen else 0xfff) off msg;
          let off = sz (off + strLen);
          txHash \<leftarrow> (if hashLen = 32 then get_at 32 UInt256Get off msg else Some 0);
          Some (True, if \<not> UInt256IsZero txHash then notify E CbRejectedTx (RejectedTx txHash code) ctx else ctx)
        }
      })"

definition AcceptFeeFilterMessage :: "peer_env \<Rightarrow> u8 list \<Rightarrow> BRPeerContext \<Rightarrow> (bool \<times> BRPeerContext) option" where
  "AcceptFeeFilterMessage E msg ctx =
     (if 8 > length msg then Some (False, ctx)
      else do {
        feePerKb \<leftarrow> get_at 8 UInt64GetLE 0 msg;
        let ctx = ctx\<lparr>pc_feePerKb := feePerKb\<rparr>;
        Some (True, notify E CbSetFeePerKb (SetFeePerKb (pc_feePerKb ctx)) ctx)
      })"

section \<open>All messages\<close>

text \<open>The type is the C string in the header, of at most 11 characters.\<close>

definition BRPeerAcceptMessage :: "peer_env \<Rightarrow> u8 list \<Rightarrow> u8 list \<Rightarrow> BRPeerContext \<Rightarrow> (bool \<times> BRPeerContext) option" where
  "BRPeerAcceptMessage E msg type ctx =
     (if pc_currentBlock ctx \<noteq> None \<and> type \<noteq> MSG_TX
      then Some (False, ctx\<lparr>pc_currentBlockTxHashes := [], pc_currentBlock := None\<rparr>)
      else if type = MSG_VERSION then AcceptVersionMessage E msg ctx
      else if type = MSG_VERACK then Some (AcceptVerackMessage E ctx)
      else if type = MSG_ADDR then AcceptAddrMessage E msg ctx
      else if type = MSG_INV then AcceptInvMessage E msg ctx
      else if type = MSG_TX then AcceptTxMessage E msg ctx
      else if type = MSG_HEADERS then AcceptHeadersMessage E msg ctx
      else if type = MSG_GETADDR then Some (AcceptGetaddrMessage E ctx)
      else if type = MSG_GETDATA then AcceptGetdataMessage E msg ctx
      else if type = MSG_NOTFOUND then AcceptNotfoundMessage E msg ctx
      else if type = MSG_PING then Some (AcceptPingMessage E msg ctx)
      else if type = MSG_PONG then AcceptPongMessage E msg ctx
      else if type = MSG_MERKLEBLOCK then AcceptMerkleblockMessage E msg ctx
      else if type = MSG_REJECT then AcceptRejectMessage E msg ctx
      else if type = MSG_FEEFILTER then AcceptFeeFilterMessage E msg ctx
      else Some (True, ctx))"

end
