(* ===== verification/PeerLaws.thy ===== *)
theory PeerLaws
  imports PeerAccept TransactionLaws MerkleLaws "HOL-Library.Multiset" "HOL-Library.Sublist"
begin

text \<open>
  Properties of the peer. The client's callbacks are assumed to do nothing with a peer but call its public
  operations (\<open>well_behaved\<close>). Then the state that only the message handlers write is safe from them
  (\<open>frame\<close>), the transactions of a merkle block are collected until it is complete and it is handed on
  once, and the handshake is followed. Handlers stay inside the message unless a length in it wraps around.
\<close>

lemma msg_distinct:
  "distinct [MSG_VERSION, MSG_VERACK, MSG_ADDR, MSG_INV, MSG_TX, MSG_HEADERS, MSG_GETADDR, MSG_GETDATA, MSG_NOTFOUND,
     MSG_PING, MSG_PONG, MSG_MERKLEBLOCK, MSG_REJECT, MSG_FEEFILTER]"
  "distinct [MSG_FEEFILTER, MSG_REJECT, MSG_MERKLEBLOCK, MSG_PONG, MSG_PING, MSG_NOTFOUND, MSG_GETDATA, MSG_GETADDR,
     MSG_HEADERS, MSG_TX, MSG_INV, MSG_ADDR, MSG_VERACK, MSG_VERSION]"
  by code_simp+

lemmas msg_neq [simp] = msg_distinct(1) [simplified] msg_distinct(2) [simplified]

section \<open>What the client does in a callback\<close>

inductive client_steps :: "peer_env \<Rightarrow> BRPeerContext \<Rightarrow> BRPeerContext \<Rightarrow> bool" for E where
  client_none: "client_steps E a a"
| client_key_time: "client_steps E a b \<Longrightarrow> client_steps E a (BRPeerSetEarliestKeyTime b t)"
| client_height: "client_steps E a b \<Longrightarrow> client_steps E a (BRPeerSetCurrentBlockHeight b h)"
| client_needs_filter: "client_steps E a b \<Longrightarrow> client_steps E a (BRPeerSetNeedsFilterUpdate b f)"
| client_connect: "client_steps E a b \<Longrightarrow> client_steps E a (BRPeerConnect E b)"
| client_disconnect: "client_steps E a b \<Longrightarrow> client_steps E a (BRPeerDisconnect b)"
| client_schedule: "client_steps E a b \<Longrightarrow> client_steps E a (BRPeerScheduleDisconnect E b s)"
| client_message: "client_steps E a b \<Longrightarrow> client_steps E a (BRPeerSendMessage E msg type b)"
| client_filterload: "client_steps E a b \<Longrightarrow> client_steps E a (BRPeerSendFilterload E flt b)"
| client_mempool: "client_steps E a b \<Longrightarrow> \<not> pc_sentMempool b \<and> pc_mempoolCallback b = None \<or> cb = None \<Longrightarrow>
    client_steps E a (BRPeerSendMempool E hashes info cb b)"
| client_mempool_busy: "client_steps E a b \<Longrightarrow> pc_sentMempool b \<or> pc_mempoolCallback b \<noteq> None \<Longrightarrow>
    client_steps E (event (Mempool f info False) (b\<lparr>pc_sentMempool := True\<rparr>)) c \<Longrightarrow> client_steps E a c"
| client_getheaders: "client_steps E a b \<Longrightarrow> client_steps E a (BRPeerSendGetheaders E locators stop b)"
| client_getblocks: "client_steps E a b \<Longrightarrow> client_steps E a (BRPeerSendGetblocks E locators stop b)"
| client_inv: "client_steps E a b \<Longrightarrow> client_steps E a (BRPeerSendInv E hashes b)"
| client_getdata: "client_steps E a b \<Longrightarrow> client_steps E a (BRPeerSendGetdata E txs blks b)"
| client_getaddr: "client_steps E a b \<Longrightarrow> client_steps E a (BRPeerSendGetaddr E b)"
| client_ping: "client_steps E a b \<Longrightarrow> client_steps E a (BRPeerSendPing E info cb b)"
| client_rerequest: "client_steps E a b \<Longrightarrow> client_steps E a (BRPeerRerequestBlocks E h b)"

definition well_behaved :: "peer_env \<Rightarrow> bool" where
  "well_behaved E \<longleftrightarrow> (\<forall>e ctx. client_steps E ctx (pe_react E e ctx))"

text \<open>The events that only message handlers cause.\<close>

fun own_event :: "peer_event \<Rightarrow> bool" where
  "own_event (Sent bs) \<longleftrightarrow> False"
| "own_event (Mempool f info s) \<longleftrightarrow> False"
| "own_event ThreadStarted \<longleftrightarrow> False"
| "own_event e \<longleftrightarrow> True"

definition own_events :: "BRPeerContext \<Rightarrow> peer_event list" where
  "own_events ctx = filter own_event (pc_events ctx)"

text \<open>What public operations leave as it is, and what they only let grow.\<close>

definition peer_inv :: "BRPeerContext \<Rightarrow> bool" where
  "peer_inv ctx \<longleftrightarrow> pc_knownTxHashSet ctx = set (pc_knownTxHashes ctx) \<and>
     (pc_currentBlock ctx = None \<longleftrightarrow> pc_currentBlockTxHashes ctx = []) \<and>
     length (pc_knownBlockHashes ctx) \<le> MAX_GETDATA_HASHES \<and> length (pc_pongInfo ctx) = length (pc_pongCallback ctx)"

text \<open>While its thread runs a peer does not wait for the network and is not disconnected.\<close>

definition running :: "BRPeerContext \<Rightarrow> bool" where
  "running ctx \<longleftrightarrow> \<not> pc_waitingForNetwork ctx \<and> pc_status ctx \<noteq> BRPeerStatusDisconnected"

definition frame :: "BRPeerContext \<Rightarrow> BRPeerContext \<Rightarrow> bool" where
  "frame a b \<longleftrightarrow> pc_currentBlock b = pc_currentBlock a \<and> pc_currentBlockTxHashes b = pc_currentBlockTxHashes a \<and>
     pc_sentVerack b = pc_sentVerack a \<and> pc_gotVerack b = pc_gotVerack a \<and> pc_version b = pc_version a \<and>
     pc_callbacks b = pc_callbacks a \<and> own_events b = own_events a \<and>
     (pc_sentFilter a \<longrightarrow> pc_sentFilter b) \<and> (pc_sentGetdata a \<longrightarrow> pc_sentGetdata b) \<and>
     (peer_inv a \<longrightarrow> peer_inv b) \<and> (running a \<longrightarrow> running b \<and> pc_status b = pc_status a)"

lemma frame_refl [simp]: "frame a a"
  by (simp add: frame_def)

lemma frame_trans: "frame a b \<Longrightarrow> frame b c \<Longrightarrow> frame a c"
  by (simp add: frame_def)

lemma event_fields [simp]:
  "pc_currentBlock (event e a) = pc_currentBlock a" "pc_currentBlockTxHashes (event e a) = pc_currentBlockTxHashes a"
  "pc_callbacks (event e a) = pc_callbacks a" "pc_sentFilter (event e a) = pc_sentFilter a"
  "pc_sentGetdata (event e a) = pc_sentGetdata a" "pc_status (event e a) = pc_status a"
  "pc_sentVerack (event e a) = pc_sentVerack a" "pc_gotVerack (event e a) = pc_gotVerack a"
  "pc_version (event e a) = pc_version a" "pc_knownTxHashes (event e a) = pc_knownTxHashes a"
  "pc_knownTxHashSet (event e a) = pc_knownTxHashSet a" "peer_inv (event e a) = peer_inv a"
  "own_events (event e a) = own_events a @ (if own_event e then [e] else [])"
  "running (event e a) = running a"
  by (simp_all add: event_def peer_inv_def running_def own_events_def)

named_theorems frames \<open>the frame of the operations\<close>

lemma frame_Disconnect [frames]: "frame a (BRPeerDisconnect a)"
  by (simp add: BRPeerDisconnect_def frame_def peer_inv_def running_def own_events_def)

lemma frame_SendMessage [frames]: "frame a (BRPeerSendMessage E msg type a)"
proof -
  have "frame a (event (Sent bs) a)" for bs by (simp add: frame_def)
  then show ?thesis
    unfolding BRPeerSendMessage_def by (auto simp: Let_def split: prod.split intro: frames frame_trans)
qed

lemma frame_add_known [frames]: "frame a (add_known E h a)"
  by (auto simp: add_known_def Let_def frame_def peer_inv_def running_def own_events_def)

lemma frame_AddKnown [frames]: "frame a (BRPeerAddKnownTxHashes E hs a)"
proof -
  have "frame a (fold (add_known E) hs a)"
    by (induction hs arbitrary: a) (auto intro: frame_trans frames)
  then show ?thesis by (simp add: BRPeerAddKnownTxHashes_def)
qed

lemma frame_fields:
  "frame a (a\<lparr>pc_sentGetdata := True\<rparr>)" "frame a (a\<lparr>pc_sentFilter := True, pc_sentMempool := False\<rparr>)"
  "frame a (a\<lparr>pc_sentMempool := True\<rparr>)" "frame a (a\<lparr>pc_sentGetaddr := s\<rparr>)" "frame a (a\<lparr>pc_knownBlockHashes := drop n (pc_knownBlockHashes a)\<rparr>)"
  "frame a (a\<lparr>pc_mempoolTime := t, pc_mempoolInfo := info, pc_mempoolCallback := cb\<rparr>)"
  "frame a (a\<lparr>pc_mempoolCallback := cb, pc_mempoolTime := t\<rparr>)" "frame a (a\<lparr>pc_lastBlockHash := h\<rparr>)"
  "frame a (a\<lparr>pc_startTime := t, pc_pongInfo := pc_pongInfo a @ [i], pc_pongCallback := pc_pongCallback a @ [cb]\<rparr>)" "frame a (a\<lparr>pc_nonce := nonce\<rparr>)"
  by (auto simp: frame_def peer_inv_def running_def own_events_def)

lemma frame_senders [frames]:
  "frame a (BRPeerSendFilterload E flt a)" "frame a (BRPeerSendGetheaders E locators stop a)"
  "frame a (BRPeerSendGetblocks E locators stop a)" "frame a (BRPeerSendInv E hashes a)"
  "frame a (BRPeerSendGetdata E txs blks a)" "frame a (BRPeerSendGetaddr E a)" "frame a (BRPeerSendPing E info cb a)"
  "frame a (BRPeerSendAddr E a)"
  unfolding BRPeerSendFilterload_def BRPeerSendGetheaders_def BRPeerSendGetblocks_def BRPeerSendInv_def
    BRPeerSendGetdata_def BRPeerSendGetaddr_def BRPeerSendPing_def BRPeerSendAddr_def Let_def
  by (auto intro: frame_trans [OF frame_fields(1)] frame_trans [OF frame_fields(2)] frame_trans [OF frame_fields(4)]
      frame_trans [OF frame_fields(9)] frame_trans [OF frame_AddKnown] frames)

lemma frame_rest [frames]:
  "frame a (BRPeerSetEarliestKeyTime a t)" "frame a (BRPeerSetCurrentBlockHeight a h)"
  "frame a (BRPeerSetNeedsFilterUpdate a f)" "frame a (BRPeerScheduleDisconnect E a s)"
  "frame a (BRPeerConnect E a)" "frame a (BRPeerRerequestBlocks E start a)"
proof -
  show "frame a (BRPeerRerequestBlocks E start a)"
    unfolding BRPeerRerequestBlocks_def Let_def by (auto intro: frame_trans [OF frame_fields(5)] frames)
qed (auto simp: BRPeerSetEarliestKeyTime_def BRPeerSetCurrentBlockHeight_def BRPeerSetNeedsFilterUpdate_def
    BRPeerScheduleDisconnect_def BRPeerConnect_def Let_def frame_def peer_inv_def running_def own_events_def event_def)

lemma frame_Mempool:
  assumes "\<not> pc_sentMempool a \<and> pc_mempoolCallback a = None \<or> cb = None"
  shows "frame a (BRPeerSendMempool E hashes info cb a)"
proof -
  let ?b = "BRPeerAddKnownTxHashes E hashes (a\<lparr>pc_sentMempool := True\<rparr>)"
  have b: "frame a ?b" by (rule frame_trans [OF frame_fields(3) frame_AddKnown])
  have "frame a (BRPeerSendMessage E msg type ?b)" for msg type by (rule frame_trans [OF b frame_SendMessage])
  moreover have "frame a (BRPeerSendMessage E msg type (?b\<lparr>pc_mempoolTime := t, pc_mempoolInfo := info, pc_mempoolCallback := cb\<rparr>))"
    for msg type t by (rule frame_trans [OF frame_trans [OF b frame_fields(6)] frame_SendMessage])
  ultimately show ?thesis
    using assms by (auto simp: BRPeerSendMempool_def Let_def frame_fields(3))
qed

lemma frame_client: "client_steps E a b \<Longrightarrow> frame a b"
proof (induction rule: client_steps.induct)
  case (client_mempool a b cb hashes info)
  then show ?case by (blast intro: frame_trans frame_Mempool)
next
  case (client_mempool_busy a b f info c)
  have "frame b (event (Mempool f info False) (b\<lparr>pc_sentMempool := True\<rparr>))"
    by (simp add: frame_def peer_inv_def running_def own_events_def event_def)
  then show ?case using client_mempool_busy by (blast intro: frame_trans)
qed (auto intro: frame_trans frames)

lemma frame_react: "well_behaved E \<Longrightarrow> frame ctx (pe_react E e ctx)"
  unfolding well_behaved_def by (intro frame_client) blast

lemma frame_client_fields:
  assumes "frame a b"
  shows "pc_currentBlock b = pc_currentBlock a" "pc_currentBlockTxHashes b = pc_currentBlockTxHashes a"
    "pc_callbacks b = pc_callbacks a" "own_events b = own_events a" "pc_sentFilter a \<Longrightarrow> pc_sentFilter b"
    "pc_sentGetdata a \<Longrightarrow> pc_sentGetdata b"
  using assms by (simp_all add: frame_def)

lemma frame_call: "well_behaved E \<Longrightarrow> frame (event e ctx) (call E e ctx)"
  by (simp add: call_def frame_react)

section \<open>Collecting the transactions of a block\<close>

definition relayed :: "BRPeerContext \<Rightarrow> BRMerkleBlock list" where
  "relayed ctx = concat (map (\<lambda>e. case e of RelayedBlock b \<Rightarrow> [b] | _ \<Rightarrow> []) (pc_events ctx))"

text \<open>The messages in turn, until one is refused.\<close>

fun accept_all :: "peer_env \<Rightarrow> (u8 list \<times> u8 list) list \<Rightarrow> BRPeerContext \<Rightarrow> (bool \<times> BRPeerContext) option" where
  "accept_all E [] ctx = Some (True, ctx)"
| "accept_all E ((type, msg) # ms) ctx = do {
     (r, ctx) \<leftarrow> BRPeerAcceptMessage E msg type ctx;
     if r then accept_all E ms ctx else Some (False, ctx)
   }"

lemma relayed_own: "relayed ctx = concat (map (\<lambda>e. case e of RelayedBlock b \<Rightarrow> [b] | _ \<Rightarrow> []) (own_events ctx))"
proof -
  have "concat (map (\<lambda>e. case e of RelayedBlock b \<Rightarrow> [b] | _ \<Rightarrow> []) es) =
      concat (map (\<lambda>e. case e of RelayedBlock b \<Rightarrow> [b] | _ \<Rightarrow> []) (filter own_event es))" for es
    by (induction es) (auto split: peer_event.splits)
  then show ?thesis by (simp add: relayed_def own_events_def)
qed

lemma relayed_update [simp]:
  "relayed (ctx\<lparr>pc_currentBlock := b\<rparr>) = relayed ctx" "relayed (ctx\<lparr>pc_currentBlockTxHashes := hs\<rparr>) = relayed ctx"
  by (simp_all add: relayed_def)

lemma relayed_event: "relayed (event e ctx) = relayed ctx @ (case e of RelayedBlock b \<Rightarrow> [b] | _ \<Rightarrow> [])"
  by (simp add: relayed_def event_def)

lemma relayed_frame: "frame a b \<Longrightarrow> relayed b = relayed a"
  by (simp add: relayed_own frame_def)

lemma mset_rm_hash_le: "n \<le> length hs \<Longrightarrow> mset (rm_hash h hs n) = mset hs - (if h \<in> set (take n hs) then {#h#} else {#})"
proof (induction n)
  case (Suc i)
  then have t: "take (Suc i) hs = take i hs @ [hs ! i]" by (simp add: take_Suc_conv_app_nth)
  have "mset hs = mset (take i hs @ hs ! i # drop (Suc i) hs)" using Suc.prems by (simp add: id_take_nth_drop [symmetric])
  then have m: "mset hs = mset (take i hs @ drop (Suc i) hs) + {#hs ! i#}" by simp
  show ?case
  proof (cases "UInt256Eq h (hs ! i)")
    case True
    then show ?thesis using m by (simp add: t UInt256Eq_iff)
  next
    case False
    then show ?thesis using Suc by (simp add: t UInt256Eq_iff)
  qed
qed simp

lemma mset_rm_hash: "mset (rm_hash h hs (length hs)) = mset hs - {#h#}"
  using mset_rm_hash_le [of "length hs" hs h] by (simp add: diff_single_trivial)

lemma AcceptTx_collect:
  assumes wb: "well_behaved E" and b: "pc_currentBlock ctx = Some b"
    and cb: "CbRelayedBlock \<in> pc_callbacks ctx" and sent: "pc_sentFilter ctx \<or> pc_sentGetdata ctx"
    and t: "BRTransactionParse m = Some (Some t)"
  defines "H \<equiv> mset (pc_currentBlockTxHashes ctx) - {#tx_txHash t#}"
  obtains ctx' where "BRPeerAcceptMessage E m MSG_TX ctx = Some (True, ctx')"
    "pc_callbacks ctx' = pc_callbacks ctx" "pc_sentFilter ctx' \<or> pc_sentGetdata ctx'"
    "mset (pc_currentBlockTxHashes ctx') = H" "pc_currentBlock ctx' = (if H = {#} then None else Some b)"
    "relayed ctx' = relayed ctx @ (if H = {#} then [b] else [])"
proof -
  let ?c = "notify E CbRelayedTx (RelayedTx t) ctx"
  define hs where "hs = rm_hash (tx_txHash t) (pc_currentBlockTxHashes ctx) (length (pc_currentBlockTxHashes ctx))"
  have hs: "mset hs = H" by (simp add: hs_def H_def mset_rm_hash)
  have c: "pc_currentBlock ?c = Some b" "pc_currentBlockTxHashes ?c = pc_currentBlockTxHashes ctx"
    "pc_callbacks ?c = pc_callbacks ctx" "relayed ?c = relayed ctx" "pc_sentFilter ?c \<or> pc_sentGetdata ?c"
    using frame_client_fields [OF frame_call [OF wb, of "RelayedTx t" ctx]] relayed_frame [OF frame_call [OF wb, of "RelayedTx t" ctx]]
      b sent by (auto simp: notify_def relayed_event)
  define d where "d = ?c\<lparr>pc_currentBlockTxHashes := hs, pc_currentBlock := None\<rparr>"
  have d: "pc_currentBlock (call E (RelayedBlock b) d) = None" "pc_currentBlockTxHashes (call E (RelayedBlock b) d) = hs"
    "pc_callbacks (call E (RelayedBlock b) d) = pc_callbacks ctx" "relayed (call E (RelayedBlock b) d) = relayed ctx @ [b]"
    "pc_sentFilter (call E (RelayedBlock b) d) \<or> pc_sentGetdata (call E (RelayedBlock b) d)"
    using frame_client_fields [OF frame_call [OF wb, of "RelayedBlock b" d]] relayed_frame [OF frame_call [OF wb, of "RelayedBlock b" d]]
      c by (auto simp: relayed_event d_def)
  have a: "BRPeerAcceptMessage E m MSG_TX ctx = Some (True, collect_tx E (tx_txHash t) ?c)"
    using t sent by (auto simp: BRPeerAcceptMessage_def AcceptTxMessage_def)
  have e: "H = {#} \<longleftrightarrow> hs = []" using hs by auto
  show thesis
  proof (cases "hs = []")
    case True
    then have "collect_tx E (tx_txHash t) ?c = call E (RelayedBlock b) d"
      using c cb by (simp add: collect_tx_def notify_def d_def hs_def Let_def)
    then show thesis using that [of "call E (RelayedBlock b) d"] a d hs e True by simp
  next
    case False
    then have "collect_tx E (tx_txHash t) ?c = ?c\<lparr>pc_currentBlockTxHashes := hs\<rparr>"
      using c by (simp add: collect_tx_def hs_def Let_def)
    then show thesis using that [of "?c\<lparr>pc_currentBlockTxHashes := hs\<rparr>"] a c hs e False by (simp add: relayed_def)
  qed
qed

lemma accept_txs_idle:
  assumes "well_behaved E" "pc_currentBlock ctx = None" "pc_sentFilter ctx \<or> pc_sentGetdata ctx"
    "list_all2 (\<lambda>m t. BRTransactionParse m = Some (Some t)) ms txs"
  shows "\<exists>ctx'. accept_all E (map (Pair MSG_TX) ms) ctx = Some (True, ctx') \<and> relayed ctx' = relayed ctx \<and>
    pc_currentBlock ctx' = None \<and> pc_currentBlockTxHashes ctx' = pc_currentBlockTxHashes ctx"
  using assms(4,2,3)
proof (induction arbitrary: ctx rule: list_all2_induct)
  case (Cons m ms t txs)
  let ?c = "notify E CbRelayedTx (RelayedTx t) ctx"
  have c: "pc_currentBlock ?c = None" "pc_currentBlockTxHashes ?c = pc_currentBlockTxHashes ctx"
    "relayed ?c = relayed ctx" "pc_sentFilter ?c \<or> pc_sentGetdata ?c"
    using frame_client_fields [OF frame_call [OF assms(1), of "RelayedTx t" ctx]]
      relayed_frame [OF frame_call [OF assms(1), of "RelayedTx t" ctx]] Cons.prems by (auto simp: notify_def relayed_event)
  have "BRPeerAcceptMessage E m MSG_TX ctx = Some (True, ?c)"
    using Cons.hyps Cons.prems c(1)
    by (auto simp: BRPeerAcceptMessage_def AcceptTxMessage_def collect_tx_def)
  then show ?case using Cons.IH [OF c(1,4)] c(2,3) by auto
qed simp

lemma accept_txs_collect:
  assumes wb: "well_behaved E" and ms: "list_all2 (\<lambda>m t. BRTransactionParse m = Some (Some t)) ms txs"
    and ctx: "pc_currentBlock ctx = Some b" "CbRelayedBlock \<in> pc_callbacks ctx" "pc_sentFilter ctx \<or> pc_sentGetdata ctx"
      "pc_currentBlockTxHashes ctx \<noteq> []"
  defines "R \<equiv> mset (pc_currentBlockTxHashes ctx) - mset (map tx_txHash txs)"
  shows "\<exists>ctx'. accept_all E (map (Pair MSG_TX) ms) ctx = Some (True, ctx') \<and> mset (pc_currentBlockTxHashes ctx') = R \<and>
    pc_currentBlock ctx' = (if R = {#} then None else Some b) \<and>
    relayed ctx' = relayed ctx @ (if R = {#} then [b] else [])"
  using ms ctx unfolding R_def
proof (induction arbitrary: ctx rule: list_all2_induct)
  case (Cons m ms t txs)
  obtain c where c: "BRPeerAcceptMessage E m MSG_TX ctx = Some (True, c)"
    "pc_callbacks c = pc_callbacks ctx" "pc_sentFilter c \<or> pc_sentGetdata c"
    "mset (pc_currentBlockTxHashes c) = mset (pc_currentBlockTxHashes ctx) - {#tx_txHash t#}"
    "pc_currentBlock c = (if mset (pc_currentBlockTxHashes ctx) - {#tx_txHash t#} = {#} then None else Some b)"
    "relayed c = relayed ctx @ (if mset (pc_currentBlockTxHashes ctx) - {#tx_txHash t#} = {#} then [b] else [])"
    by (rule AcceptTx_collect [OF wb Cons.prems(1-3) Cons.hyps(1)])
  have m: "mset (pc_currentBlockTxHashes ctx) - mset (map tx_txHash (t # txs)) =
      mset (pc_currentBlockTxHashes c) - mset (map tx_txHash txs)" by (simp add: c(4) diff_add_mset_swap)
  show ?case
  proof (cases "pc_currentBlockTxHashes c = []")
    case True
    then show ?thesis using accept_txs_idle [OF wb _ c(3) Cons.hyps(2)] c m by auto
  next
    case False
    then have "mset (pc_currentBlockTxHashes ctx) - {#tx_txHash t#} \<noteq> {#}" using c(4) by (metis mset_zero_iff)
    then show ?thesis using Cons.IH [of c] c Cons.prems(2) False m by auto
  qed
qed simp

section \<open>What the handlers leave as it is\<close>

definition connections :: "BRPeerContext \<Rightarrow> nat" where
  "connections ctx = count_list (pc_events ctx) Connected"

definition hframe :: "BRPeerContext \<Rightarrow> BRPeerContext \<Rightarrow> bool" where
  "hframe a b \<longleftrightarrow> (peer_inv a \<longrightarrow> peer_inv b) \<and> pc_sentVerack b = pc_sentVerack a \<and> pc_gotVerack b = pc_gotVerack a \<and>
     pc_version b = pc_version a \<and> pc_callbacks b = pc_callbacks a \<and> connections b = connections a \<and>
     (running a \<longrightarrow> running b \<and> pc_status b = pc_status a)"

lemma connections_own: "connections ctx = count_list (own_events ctx) Connected"
proof -
  have "count_list es Connected = count_list (filter own_event es) Connected" for es by (induction es) auto
  then show ?thesis by (simp add: connections_def own_events_def)
qed

lemma hframe_refl [simp]: "hframe a a"
  by (simp add: hframe_def)

lemma hframe_trans: "hframe a b \<Longrightarrow> hframe b c \<Longrightarrow> hframe a c"
  by (simp add: hframe_def)

lemma hframe_frame: "frame a b \<Longrightarrow> hframe a b"
  by (simp add: hframe_def frame_def connections_own)

lemma hframe_event: "e \<noteq> Connected \<Longrightarrow> hframe a (event e a)"
  by (simp add: hframe_def) (simp add: connections_def event_def)

lemma hframe_call: "well_behaved E \<Longrightarrow> e \<noteq> Connected \<Longrightarrow> hframe a (call E e a)"
  by (blast intro: hframe_trans hframe_event hframe_frame frame_call)

lemma hframe_notify: "well_behaved E \<Longrightarrow> e \<noteq> Connected \<Longrightarrow> hframe a (notify E cb e a)"
  by (simp add: notify_def hframe_call)

text \<open>The same as rules that peel the last operation off.\<close>

lemmas hframe_peel =
  frames [THEN hframe_frame, THEN hframe_trans [rotated]] frame_fields [THEN hframe_frame, THEN hframe_trans [rotated]]
  hframe_call [THEN hframe_trans [rotated]] hframe_notify [THEN hframe_trans [rotated]]

text \<open>Every defined outcome of a handler keeps the frame: one rule for each construct a handler is made of.\<close>

definition keeps :: "BRPeerContext \<Rightarrow> ('r \<times> BRPeerContext) option \<Rightarrow> bool" where
  "keeps a x \<longleftrightarrow> (\<forall>r b. x = Some (r, b) \<longrightarrow> hframe a b)"

lemma keepsD: "keeps a (Some (r, b)) \<Longrightarrow> hframe a b"
  by (simp add: keeps_def)

lemma keeps_rules [intro]:
  "hframe a b \<Longrightarrow> keeps a (Some (r, b))"
  "(c \<Longrightarrow> keeps a x) \<Longrightarrow> (\<not> c \<Longrightarrow> keeps a y) \<Longrightarrow> keeps a (if c then x else y)"
  "(\<And>v. m = Some v \<Longrightarrow> keeps a (f v)) \<Longrightarrow> keeps a (Option.bind m f)"
  "(\<And>u v. p = (u, v) \<Longrightarrow> keeps a (g u v)) \<Longrightarrow> keeps a (case p of (u, v) \<Rightarrow> g u v)"
  "(opt = None \<Longrightarrow> keeps a x) \<Longrightarrow> (\<And>w. opt = Some w \<Longrightarrow> keeps a (h w)) \<Longrightarrow>
     keeps a (case opt of None \<Rightarrow> x | Some w \<Rightarrow> h w)"
  by (auto simp: keeps_def bind_eq_Some_conv split: prod.splits option.splits)

lemma keeps_Pair: "hframe a (snd p) \<Longrightarrow> keeps a (Some p)"
  by (cases p) (simp add: keeps_def)

lemma hframe_if: "(c \<Longrightarrow> hframe a x) \<Longrightarrow> (\<not> c \<Longrightarrow> hframe a y) \<Longrightarrow> hframe a (if c then x else y)"
  by simp

lemma trim_known_bound: "length (trim_known hs) \<le> MAX_GETDATA_HASHES"
  by (induction hs rule: trim_known.induct) (subst trim_known.simps, simp)

lemmas peel = hframe_peel hframe_if hframe_refl

lemma keeps_addr:
  assumes wb: "well_behaved E"
  shows "keeps a (AcceptAddrMessage E msg a)"
  unfolding AcceptAddrMessage_def Let_def by (intro keeps_rules peel wb) simp_all

lemma hframe_unknown:
  assumes wb: "well_behaved E"
  shows "hframe a b \<Longrightarrow> hframe a (fst (inv_unknown E hs b us))"
  by (induction hs arbitrary: b us) (auto intro: hframe_notify [THEN hframe_trans [rotated], OF wb])

lemma hframe_request:
  assumes wb: "well_behaved E" and a: "hframe a0 a"
  shows "hframe a0 (inv_request E txs blks a)"
proof -
  define b where "b = a\<lparr>pc_knownBlockHashes := trim_known (pc_knownBlockHashes a @ blks)\<rparr>"
  have "hframe a b" using trim_known_bound by (simp add: b_def hframe_def peer_inv_def running_def connections_def)
  then have "hframe a0 b" by (rule hframe_trans [OF a])
  then have "hframe a0 (fst (inv_unknown E txs b []))" by (rule hframe_unknown [OF wb])
  then obtain c us where c: "inv_unknown E txs b [] = (c, us)" "hframe a0 c" by (cases "inv_unknown E txs b []") auto
  show ?thesis
    unfolding inv_request_def Let_def b_def [symmetric] c(1) prod.case
    by (intro hframe_if hframe_peel c(2))
qed

lemma keeps_inv:
  assumes wb: "well_behaved E"
  shows "keeps a (AcceptInvMessage E msg a)"
  unfolding AcceptInvMessage_def Let_def by (intro keeps_rules hframe_request [OF wb] peel wb)

lemma hframe_collect:
  assumes wb: "well_behaved E"
  shows "hframe a c \<Longrightarrow> hframe a (collect_tx E h c)"
proof (cases "pc_currentBlock c")
  case (Some block)
  assume a: "hframe a c"
  define d where "d = c\<lparr>pc_currentBlockTxHashes := rm_hash h (pc_currentBlockTxHashes c) (length (pc_currentBlockTxHashes c))\<rparr>"
  have "hframe c (if pc_currentBlockTxHashes d = [] then d\<lparr>pc_currentBlock := None\<rparr> else d)"
    using Some by (simp add: hframe_def d_def peer_inv_def running_def connections_def)
  then have "hframe a (if pc_currentBlockTxHashes d = [] then d\<lparr>pc_currentBlock := None\<rparr> else d)" by (rule hframe_trans [OF a])
  moreover have "collect_tx E h c =
      (if pc_currentBlockTxHashes d = [] then notify E CbRelayedBlock (RelayedBlock block) (d\<lparr>pc_currentBlock := None\<rparr>) else d)"
    using Some by (simp add: collect_tx_def d_def Let_def)
  ultimately show ?thesis by (auto intro: hframe_notify [THEN hframe_trans [rotated], OF wb] split: if_splits)
qed (simp add: collect_tx_def)

lemma keeps_tx:
  assumes wb: "well_behaved E"
  shows "keeps a (AcceptTxMessage E msg a)"
  unfolding AcceptTxMessage_def by (intro keeps_rules hframe_collect [OF wb] peel wb) simp_all

lemma keeps_merkleblock:
  assumes wb: "well_behaved E" and a: "pc_currentBlock a = None"
  shows "keeps a (AcceptMerkleblockMessage E msg a)"
proof -
  have "hframe a (if length (pc_currentBlockTxHashes c) > 0 then c\<lparr>pc_currentBlock := Some block\<rparr>
      else notify E CbRelayedBlock (RelayedBlock block) c)"
    if c: "c = a\<lparr>pc_currentBlockTxHashes := pc_currentBlockTxHashes a @ hs\<rparr>" for c block hs
  proof (rule hframe_if)
    assume "\<not> 0 < length (pc_currentBlockTxHashes c)"
    then have "hframe a c" using c by (simp add: hframe_def peer_inv_def running_def connections_def)
    then show "hframe a (notify E CbRelayedBlock (RelayedBlock block) c)" by (intro peel wb) simp_all
  next
    assume "0 < length (pc_currentBlockTxHashes c)"
    then show "hframe a (c\<lparr>pc_currentBlock := Some block\<rparr>)"
      using c a by (auto simp: hframe_def peer_inv_def running_def connections_def)
  qed
  then show ?thesis unfolding AcceptMerkleblockMessage_def Let_def by (intro keeps_rules hframe_refl) simp_all
qed

lemma keeps_relay:
  assumes wb: "well_behaved E"
  shows "hframe a b \<Longrightarrow> keeps a (relay_headers E msg off n i b)"
proof (induction "n - i" arbitrary: i b)
  case 0
  then show ?case by (subst relay_headers.simps) auto
next
  case (Suc k)
  then show ?case by (subst relay_headers.simps) (intro keeps_rules Suc.hyps peel wb; simp)
qed

lemma keeps_headers:
  assumes wb: "well_behaved E"
  shows "keeps a (AcceptHeadersMessage E msg a)"
  unfolding AcceptHeadersMessage_def Let_def
  by (intro keeps_rules hframe_refl keeps_relay [OF wb])
    (auto simp: bind_eq_Some_conv split: if_splits intro: hframe_peel)

lemma keeps_getdata_loop:
  assumes wb: "well_behaved E"
  shows "hframe a b \<Longrightarrow> keeps a (getdata_loop E msg n off nf b)"
proof (induction n arbitrary: off nf b)
  case (Suc n)
  then show ?case unfolding getdata_loop.simps Let_def by (intro keeps_rules Suc.IH peel wb) simp_all
qed auto

lemma keeps_getdata:
  assumes wb: "well_behaved E"
  shows "keeps a (AcceptGetdataMessage E msg a)"
  unfolding AcceptGetdataMessage_def Let_def
  by (intro keeps_rules hframe_refl)
    (use keeps_getdata_loop [OF wb hframe_refl] in \<open>auto simp: keeps_def intro: hframe_peel\<close>)

lemma keeps_notfound:
  assumes wb: "well_behaved E"
  shows "keeps a (AcceptNotfoundMessage E msg a)"
  unfolding AcceptNotfoundMessage_def Let_def by (intro keeps_rules peel wb) simp_all

lemma keeps_pong:
  assumes wb: "well_behaved E"
  shows "keeps a (AcceptPongMessage E msg a)"
proof -
  have "hframe a (pop_pong E s b)" if a: "hframe a b" and "pc_pongCallback b \<noteq> []" for b s
  proof -
    define d where "d = b\<lparr>pc_pongCallback := tl (pc_pongCallback b), pc_pongInfo := tl (pc_pongInfo b)\<rparr>"
    have "hframe b d" by (auto simp: d_def hframe_def peer_inv_def running_def connections_def)
    then have "hframe a d" by (rule hframe_trans [OF a])
    then show ?thesis unfolding pop_pong_def Let_def d_def [symmetric]
      by (auto split: option.split intro: hframe_call [THEN hframe_trans [rotated], OF wb])
  qed
  moreover have "hframe a (a\<lparr>pc_pingTime := t, pc_startTime := u\<rparr>)" for t u
    by (auto simp: hframe_def peer_inv_def running_def connections_def)
  ultimately show ?thesis by (simp add: AcceptPongMessage_def Let_def get_at_def keeps_def)
qed

lemma keeps_reject:
  assumes wb: "well_behaved E"
  shows "keeps a (AcceptRejectMessage E msg a)"
  unfolding AcceptRejectMessage_def Let_def by (intro keeps_rules peel wb) simp_all

lemma keeps_feefilter:
  assumes wb: "well_behaved E"
  shows "keeps a (AcceptFeeFilterMessage E msg a)"
proof -
  have "hframe a (a\<lparr>pc_feePerKb := f\<rparr>)" for f by (auto simp: hframe_def peer_inv_def running_def connections_def)
  then have "hframe a (notify E cb (SetFeePerKb g) (a\<lparr>pc_feePerKb := f\<rparr>))" for cb g f by (intro peel wb) simp_all
  then show ?thesis by (simp add: AcceptFeeFilterMessage_def Let_def get_at_def keeps_def)
qed

text \<open>All messages but the two of the handshake.\<close>

lemma hframe_message:
  assumes wb: "well_behaved E" and acc: "BRPeerAcceptMessage E msg type a = Some (r, b)"
    and t: "pc_currentBlock a = None \<Longrightarrow> type \<noteq> MSG_VERSION \<and> type \<noteq> MSG_VERACK"
  shows "hframe a b"
proof -
  have "hframe a (a\<lparr>pc_currentBlockTxHashes := [], pc_currentBlock := None\<rparr>)"
    by (auto simp: hframe_def peer_inv_def running_def connections_def)
  moreover have "hframe a (BRPeerSendMessage E msg MSG_PONG a)" "hframe a (BRPeerSendAddr E a)" by (auto intro: hframe_peel)
  ultimately have "keeps a (BRPeerAcceptMessage E msg type a)"
    unfolding BRPeerAcceptMessage_def AcceptGetaddrMessage_def AcceptPingMessage_def
    using t by (intro keeps_rules keeps_Pair keeps_addr [OF wb] keeps_inv [OF wb] keeps_tx [OF wb] keeps_headers [OF wb]
        keeps_getdata [OF wb] keeps_notfound [OF wb] keeps_pong [OF wb] keeps_merkleblock [OF wb] keeps_reject [OF wb]
        keeps_feefilter [OF wb]) auto
  then show ?thesis using acc by (simp add: keeps_def)
qed

section \<open>Runs of a connection\<close>

text \<open>What happens to a peer while its thread runs: accepted messages, operations of the client from other
  threads, and the messages that the reading loop sends itself. The environment may differ in every step.\<close>

inductive peer_run :: "BRPeerContext \<Rightarrow> BRPeerContext \<Rightarrow> bool" where
  run_start: "peer_run a a"
| run_accept: "peer_run a b \<Longrightarrow> well_behaved E \<Longrightarrow> BRPeerAcceptMessage E msg type b = Some (True, c) \<Longrightarrow> peer_run a c"
| run_client: "peer_run a b \<Longrightarrow> client_steps E b c \<Longrightarrow> peer_run a c"
| run_version: "peer_run a b \<Longrightarrow> peer_run a (BRPeerSendVersionMessage E b)"
| run_mempool: "peer_run a b \<Longrightarrow> peer_run a
    ((BRPeerSendPing E (pc_mempoolInfo b) (pc_mempoolCallback b) b)\<lparr>pc_mempoolCallback := None, pc_mempoolTime := DBL_MAX\<rparr>)"

lemma hframe_run_sends:
  "hframe b (BRPeerSendVersionMessage E b)"
  "hframe b ((BRPeerSendPing E info cb b)\<lparr>pc_mempoolCallback := None, pc_mempoolTime := DBL_MAX\<rparr>)"
  unfolding BRPeerSendVersionMessage_def Let_def by (intro hframe_peel hframe_refl)+

text \<open>The two messages of the handshake.\<close>

lemma accept_version:
  assumes "AcceptVersionMessage E msg a = Some (True, b)"
  shows "pc_sentVerack b" "MIN_PROTO_VERSION \<le> pc_version b" "pc_gotVerack b = pc_gotVerack a" "pc_callbacks b = pc_callbacks a"
    "connections b = connections a" "running a \<Longrightarrow> running b \<and> pc_status b = pc_status a" "peer_inv a \<Longrightarrow> peer_inv b"
    "pc_currentBlock b = pc_currentBlock a"
proof -
  obtain c where c: "b = BRPeerSendVerackMessage E c" "MIN_PROTO_VERSION \<le> pc_version c" "pc_gotVerack c = pc_gotVerack a"
    "pc_callbacks c = pc_callbacks a" "connections c = connections a" "running c = running a" "pc_status c = pc_status a"
    "peer_inv c = peer_inv a" "pc_currentBlock c = pc_currentBlock a"
    using assms unfolding AcceptVersionMessage_eq Let_def
    by (auto simp: connections_def running_def peer_inv_def split: if_splits prod.splits bind_splits)
  have f: "hframe c (BRPeerSendMessage E [] MSG_VERACK c)" by (intro hframe_peel hframe_refl)
  show "pc_currentBlock b = pc_currentBlock a"
    using frame_client_fields(1) [OF frame_SendMessage] c(9) by (simp add: c(1) BRPeerSendVerackMessage_def)
  show "pc_sentVerack b" by (simp add: c(1) BRPeerSendVerackMessage_def)
  show "MIN_PROTO_VERSION \<le> pc_version b" "pc_gotVerack b = pc_gotVerack a" "pc_callbacks b = pc_callbacks a"
    "connections b = connections a" "running a \<Longrightarrow> running b \<and> pc_status b = pc_status a" "peer_inv a \<Longrightarrow> peer_inv b"
    using f c(2-) by (auto simp: c(1) BRPeerSendVerackMessage_def hframe_def connections_def running_def peer_inv_def)
qed

lemma accept_verack:
  assumes wb: "well_behaved E" and acc: "AcceptVerackMessage E a = (r, b)"
  shows "pc_gotVerack b" "pc_sentVerack b = pc_sentVerack a" "pc_version b = pc_version a" "pc_callbacks b = pc_callbacks a"
    "peer_inv a \<Longrightarrow> peer_inv b" "running a \<Longrightarrow> running b"
    "running a \<Longrightarrow> CbConnected \<in> pc_callbacks a \<Longrightarrow>
       (if \<not> pc_gotVerack a \<and> pc_status a = BRPeerStatusConnecting \<and> pc_sentVerack a
        then pc_status b = BRPeerStatusConnected \<and> connections b = Suc (connections a)
        else pc_status b = pc_status a \<and> connections b = connections a)"
proof -
  have f: "hframe (event Connected c) (call E Connected c)" for c by (rule hframe_frame [OF frame_call [OF wb]])
  have g: "connections (event Connected c) = Suc (connections c)" for c by (simp add: connections_def event_def)
  have *: "pc_gotVerack b \<and> pc_sentVerack b = pc_sentVerack a \<and> pc_version b = pc_version a \<and> pc_callbacks b = pc_callbacks a \<and>
    (peer_inv a \<longrightarrow> peer_inv b) \<and> (running a \<longrightarrow> running b) \<and> (running a \<and> CbConnected \<in> pc_callbacks a \<longrightarrow>
       (if \<not> pc_gotVerack a \<and> pc_status a = BRPeerStatusConnecting \<and> pc_sentVerack a
        then pc_status b = BRPeerStatusConnected \<and> connections b = Suc (connections a)
        else pc_status b = pc_status a \<and> connections b = connections a))"
  proof (cases "pc_gotVerack a")
    case False
    define c where "c = a\<lparr>pc_pingTime := pe_tod E - pc_startTime a, pc_startTime := 0, pc_gotVerack := True\<rparr>"
    have b: "b = BRPeerDidConnect E c" using acc False by (simp add: AcceptVerackMessage_def c_def)
    have c: "peer_inv a \<Longrightarrow> peer_inv c" "running a \<Longrightarrow> running c" "connections c = connections a"
      by (simp_all add: c_def peer_inv_def running_def connections_def)
    show ?thesis
    proof (cases "pc_status a = BRPeerStatusConnecting \<and> pc_sentVerack a")
      case True
      define d where "d = c\<lparr>pc_disconnectTime := DBL_MAX, pc_status := BRPeerStatusConnected\<rparr>"
      have d: "peer_inv a \<Longrightarrow> peer_inv d" "running a \<Longrightarrow> running d" "connections d = connections a"
        using c by (simp_all add: d_def peer_inv_def running_def connections_def)
      have "b = notify E CbConnected Connected d" using True by (simp add: b BRPeerDidConnect_def d_def c_def)
      then show ?thesis using f [of d] g [of d] d True False by (auto simp: notify_def hframe_def d_def c_def)
    qed (use c False in \<open>auto simp: b BRPeerDidConnect_def c_def\<close>)
  qed (use acc in \<open>auto simp: AcceptVerackMessage_def\<close>)
  then show "pc_gotVerack b" "pc_sentVerack b = pc_sentVerack a" "pc_version b = pc_version a" "pc_callbacks b = pc_callbacks a"
    "peer_inv a \<Longrightarrow> peer_inv b" "running a \<Longrightarrow> running b"
    "running a \<Longrightarrow> CbConnected \<in> pc_callbacks a \<Longrightarrow>
       (if \<not> pc_gotVerack a \<and> pc_status a = BRPeerStatusConnecting \<and> pc_sentVerack a
        then pc_status b = BRPeerStatusConnected \<and> connections b = Suc (connections a)
        else pc_status b = pc_status a \<and> connections b = connections a)" by blast+
qed

lemma accept_cases:
  assumes "well_behaved E" "BRPeerAcceptMessage E msg type a = Some (True, b)"
  obtains "hframe a b" | "AcceptVersionMessage E msg a = Some (True, b)" | "AcceptVerackMessage E a = (True, b)"
proof (cases "pc_currentBlock a = None \<and> (type = MSG_VERSION \<or> type = MSG_VERACK)")
  case True
  show thesis using True assms(2) that(2,3) by (auto simp: BRPeerAcceptMessage_def)
next
  case False
  then show thesis using hframe_message [OF assms] that(1) by blast
qed

definition link_ok :: "BRPeerContext \<Rightarrow> bool" where
  "link_ok c \<longleftrightarrow> running c \<and> CbConnected \<in> pc_callbacks c \<and> peer_inv c \<and>
     (pc_sentVerack c \<longrightarrow> MIN_PROTO_VERSION \<le> pc_version c) \<and>
     (pc_status c = BRPeerStatusConnected \<longrightarrow> pc_sentVerack c \<and> pc_gotVerack c) \<and>
     connections c = (if pc_status c = BRPeerStatusConnected then 1 else 0)"

lemma link_ok_hframe: "link_ok a \<Longrightarrow> hframe a b \<Longrightarrow> link_ok b"
  by (auto simp: link_ok_def hframe_def)

lemma link_ok_run: "peer_run a b \<Longrightarrow> link_ok a \<Longrightarrow> link_ok b"
proof (induction rule: peer_run.induct)
  case (run_accept a b E msg type c)
  then have b: "link_ok b" by blast
  show ?case
  proof (rule accept_cases [OF run_accept.hyps(2,3)])
    assume "AcceptVersionMessage E msg b = Some (True, c)"
    note v = accept_version [OF this]
    show ?thesis using v b by (auto simp: link_ok_def)
  next
    assume "AcceptVerackMessage E b = (True, c)"
    note v = accept_verack [OF run_accept.hyps(2) this]
    show ?thesis using v(1-6) v(7) b by (auto simp: link_ok_def split: if_splits)
  qed (rule link_ok_hframe [OF b])
qed (auto intro: link_ok_hframe hframe_frame frame_client hframe_run_sends)

lemma early_verack_run:
  "peer_run a b \<Longrightarrow> running a \<and> CbConnected \<in> pc_callbacks a \<and> pc_gotVerack a \<Longrightarrow>
   running b \<and> CbConnected \<in> pc_callbacks b \<and> pc_gotVerack b \<and> pc_status b = pc_status a \<and> connections b = connections a"
proof (induction rule: peer_run.induct)
  case (run_accept a b E msg type c)
  show ?case
  proof (rule accept_cases [OF run_accept.hyps(2,3)])
    assume "AcceptVersionMessage E msg b = Some (True, c)"
    note v = accept_version [OF this]
    show ?thesis using v run_accept by auto
  next
    assume "AcceptVerackMessage E b = (True, c)"
    note v = accept_verack [OF run_accept.hyps(2) this]
    show ?thesis using v(1-6) v(7) run_accept by auto
  next
    assume "hframe b c"
    then show ?thesis using run_accept by (auto simp: hframe_def)
  qed
next
  case (run_client a b E c)
  then show ?case using hframe_frame [OF frame_client] by (auto simp: hframe_def)
qed (use hframe_run_sends in \<open>auto simp: hframe_def\<close>)

section \<open>Staying inside the message\<close>

lemma get_at_Some: "off + n \<le> length msg \<Longrightarrow> get_at n get off msg = Some (get (drop off msg))"
  by (simp add: get_at_def)

lemma get_count_bounds:
  "get_count msg = (n, off) \<Longrightarrow> n < 2 ^ 64 \<and> 1 \<le> off \<and> off \<le> 9"
proof -
  assume n: "get_count msg = (n, off)"
  obtain v l where v: "BRVarInt msg = (v, l)" by fastforce
  have "unat v < 2 ^ 64" using unsigned_less [of v, where 'a = nat] by simp
  moreover have "1 \<le> l \<and> l \<le> 9" using v by (auto simp: BRVarInt_def Let_def split: if_splits)
  ultimately show ?thesis using n v by (simp add: get_count_def)
qed

lemma bind_defined: "m \<noteq> None \<Longrightarrow> (\<And>v. m = Some v \<Longrightarrow> f v \<noteq> None) \<Longrightarrow> Option.bind m f \<noteq> None"
  by (cases m) simp_all

lemma addr_loop_defined: "off + 30 * n \<le> length msg \<Longrightarrow> addr_loop now msg n off ps \<noteq> None"
  by (induction n arbitrary: off ps) (simp_all add: addr_entry_def get_at_Some)

lemma inv_split_defined:
  "off + 36 * n \<le> length msg \<Longrightarrow> \<exists>ts bs. inv_split msg n off txs blks = Some (ts, bs) \<and>
     (\<forall>p\<in>set ts - set txs \<union> (set bs - set blks). p + 32 \<le> length msg)"
proof (induction n arbitrary: off txs blks)
  case (Suc n)
  let ?t = "UInt32GetLE (drop off msg)"
  let ?txs = "if ?t = inv_tx then txs @ [off + 4] else txs" and ?blks = "if ?t = inv_block then blks @ [off + 4] else blks"
  have "off + 36 + 36 * n \<le> length msg" using Suc.prems by simp
  then obtain ts bs where *: "inv_split msg n (off + 36) ?txs ?blks = Some (ts, bs)"
    "\<forall>p\<in>set ts - set ?txs \<union> (set bs - set ?blks). p + 32 \<le> length msg" using Suc.IH [of "off + 36" ?txs ?blks] by blast
  have "inv_split msg (Suc n) off txs blks = Some (ts, bs)" using * Suc.prems by (simp add: get_at_Some)
  moreover have "off + 4 + 32 \<le> length msg" using Suc.prems by simp
  ultimately show ?case using *(2) by (auto split: if_splits)
qed simp

lemma those_defined: "\<forall>x\<in>set xs. f x \<noteq> None \<Longrightarrow> those (map f xs) \<noteq> None"
  by (induction xs) auto

lemma getdata_loop_defined: "off + 36 * n \<le> length msg \<Longrightarrow> getdata_loop E msg n off nf ctx \<noteq> None"
  by (induction n arbitrary: off nf ctx)
    (simp_all add: get_at_Some sub_bytes_def Let_def split: option.split)

lemma notfound_loop_defined: "off + 36 * n \<le> length msg \<Longrightarrow> notfound_loop msg n off txs blks \<noteq> None"
  by (induction n arbitrary: off txs blks) (simp_all add: get_at_Some)

lemma count_fits:
  assumes "\<not> sz (off + n * k) > length msg" "n \<le> 50000" "off \<le> 9" "k \<le> 81" "length msg \<le> MAX_MSG_LENGTH"
  shows "off + n * k \<le> length msg"
proof -
  have "n * k \<le> 50000 * 81" by (rule mult_le_mono) (use assms in auto)
  then have "off + n * k < 2 ^ 64" using assms(3) by simp
  then show ?thesis using assms(1) by simp
qed

lemma accept_lists_defined:
  assumes "length msg \<le> MAX_MSG_LENGTH"
  shows "AcceptAddrMessage E msg ctx \<noteq> None" "AcceptGetdataMessage E msg ctx \<noteq> None"
    "AcceptNotfoundMessage E msg ctx \<noteq> None" "AcceptInvMessage E msg ctx \<noteq> None"
proof -
  obtain n off where n: "get_count msg = (n, off)" by fastforce
  have off: "off \<le> 9" using get_count_bounds [OF n] by simp
  note fits = count_fits [OF _ _ off _ assms]
  show "AcceptAddrMessage E msg ctx \<noteq> None"
    using fits [of n 30] addr_loop_defined [of off n msg "pe_time E" "[]"]
    by (auto simp: AcceptAddrMessage_def n Let_def mult.commute split: bind_splits)
  show "AcceptGetdataMessage E msg ctx \<noteq> None"
    using fits [of n 36] getdata_loop_defined [of off n msg E "[]" ctx]
    by (auto simp: AcceptGetdataMessage_def n Let_def MAX_GETDATA_HASHES_def mult.commute split: bind_splits)
  show "AcceptNotfoundMessage E msg ctx \<noteq> None"
    using fits [of n 36] notfound_loop_defined [of off n msg "[]" "[]"]
    by (auto simp: AcceptNotfoundMessage_def n Let_def MAX_GETDATA_HASHES_def mult.commute split: bind_splits)
  show "AcceptInvMessage E msg ctx \<noteq> None"
  proof (cases "off = 0 \<or> sz (off + n * 36) > length msg \<or> n > MAX_GETDATA_HASHES")
    case False
    then have "off + 36 * n \<le> length msg" using fits [of n 36] by (simp add: MAX_GETDATA_HASHES_def mult.commute)
    then obtain ts bs where *: "inv_split msg n off [] [] = Some (ts, bs)" "\<forall>p\<in>set ts \<union> set bs. p + 32 \<le> length msg"
      using inv_split_defined [of off n msg "[]" "[]"] by auto
    have th: "those (map (\<lambda>p. get_at 32 UInt256Get p msg) ps) \<noteq> None" if "set ps \<subseteq> set ts \<union> set bs" for ps
      using that *(2) by (intro those_defined) (auto simp: get_at_def)
    have "those (map (\<lambda>p. get_at 32 UInt256Get p msg) ts) \<noteq> None"
      "those (map (\<lambda>p. get_at 32 UInt256Get p msg) (if c then [] else bs)) \<noteq> None" for c
      by (rule th; simp)+
    note th2 = this
    show ?thesis
      using False unfolding AcceptInvMessage_def n Let_def prod.case *(1) bind.bind_lunit
      by (intro if_not_None bind_defined th2) simp_all
  qed (auto simp: AcceptInvMessage_def n Let_def)
qed

lemma version_defined: "fst (get_count (drop 80 msg)) < 2 ^ 63 \<Longrightarrow> AcceptVersionMessage E msg ctx \<noteq> None"
proof -
  assume s: "fst (get_count (drop 80 msg)) < 2 ^ 63"
  obtain n len where n: "get_count (drop 80 msg) = (n, len)" by fastforce
  have "len \<le> 9" "n < 2 ^ 63" using get_count_bounds [OF n] s n by simp_all
  then have "80 + len + n + 4 < 2 ^ 64" by simp
  then show ?thesis
    unfolding AcceptVersionMessage_eq n Let_def prod.case
    by (intro if_not_None bind_defined) (simp_all add: sub_bytes_def get_at_def)
qed

lemma str_at_defined: "off + n \<le> length msg \<Longrightarrow> str_at n off msg \<noteq> None"
  by (simp add: str_at_def Let_def)

lemma reject_defined:
  assumes "get_count msg = (n, off)" "n < 2 ^ 63" "fst (get_count (drop (off + n + 1) msg)) < 2 ^ 63"
    and l: "length msg \<le> MAX_MSG_LENGTH"
  shows "AcceptRejectMessage E msg ctx \<noteq> None"
proof -
  obtain m len where m: "get_count (drop (off + n + 1) msg) = (m, len)" by fastforce
  have b: "off \<le> 9" "len \<le> 9" "m < 2 ^ 63" using get_count_bounds [OF assms(1)] get_count_bounds [OF m] assms(3) m by simp_all
  have s: "off + n + 1 < 2 ^ 64" using b(1) assms(2) by simp
  show ?thesis
  proof (cases "off + n + 1 \<le> length msg")
    case True
    have s2: "off + n + 1 + len + m + 32 < 2 ^ 64" using True b l by (simp add: MAX_MSG_LENGTH_def)
    show ?thesis
      unfolding AcceptRejectMessage_def assms(1) Let_def prod.case
    proof (intro if_not_None bind_defined)
      show "str_at (if n < 0x1000 then n else 0xfff) off msg \<noteq> None" using True by (intro str_at_defined) simp
      have e: "sz (off + n) = off + n" using s by simp
      show "get_at 1 (\<lambda>b. b ! 0) (sz (off + n)) msg \<noteq> None" unfolding e using True by (simp add: get_at_def)
      fix type
      show "(case get_count (drop (sz (off + n) + 1) msg) of (strLen, len) \<Rightarrow>
          if length msg < sz (sz (off + n) + 1 + len + strLen + (if type = MSG_TX then 32 else 0)) then Some (False, ctx)
          else str_at (if strLen < 0x1000 then strLen else 0xfff) (sz (off + n) + 1 + len) msg \<bind> (\<lambda>_.
               (if (if type = MSG_TX then 32 else 0) = (32 :: nat)
                then get_at 32 UInt256Get (sz (sz (off + n) + 1 + len + strLen)) msg else Some 0) \<bind> (\<lambda>txHash.
               Some (True, if \<not> UInt256IsZero txHash then notify E CbRejectedTx (RejectedTx txHash code) ctx else ctx)))) \<noteq> None" for code
        unfolding e m prod.case
      proof (intro if_not_None bind_defined str_at_defined)
        assume *: "\<not> length msg < sz (off + n + 1 + len + m + (if type = MSG_TX then 32 else 0))"
        then have le: "off + n + 1 + len + m + (if type = MSG_TX then 32 else 0) \<le> length msg" using s2 by (auto split: if_splits)
        then show "off + n + 1 + len + (if m < 0x1000 then m else 0xfff) \<le> length msg" by (auto split: if_splits)
        show "get_at 32 UInt256Get (sz (off + n + 1 + len + m)) msg \<noteq> None"
          if "(if type = MSG_TX then 32 else 0) = (32 :: nat)"
          using le that s2 by (auto simp: get_at_def split: if_splits)
      qed simp_all
    qed simp_all
  qed (use s in \<open>simp add: AcceptRejectMessage_def assms(1) Let_def\<close>)
qed

lemma pong_defined: "AcceptPongMessage E msg ctx \<noteq> None"
  by (cases "length msg < 8") (auto simp: AcceptPongMessage_def get_at_def Let_def)

lemma feefilter_defined: "AcceptFeeFilterMessage E msg ctx \<noteq> None"
  by (cases "length msg < 8") (simp_all add: AcceptFeeFilterMessage_def get_at_def Let_def)

text \<open>A header alone has no transactions: only the size byte of its target can make the test undefined.\<close>

lemma header_valid_defined:
  assumes "length hdr = 81" "unat (drop_bit 24 (UInt32GetLE (drop 72 hdr))) \<le> 31"
  shows "\<exists>b. BRMerkleBlockParse hdr = Some b \<and> BRMerkleBlockIsValid b now \<noteq> None"
proof -
  obtain b where b: "BRMerkleBlockParse hdr = Some b" "mb_flagsLen b = 0" "mb_target b = UInt32GetLE (drop 72 hdr)"
    using assms(1) by (auto simp: BRMerkleBlockParse_def Let_def BRMerkleBlockNew_def sz_add_def)
  have "from_root b (\<lambda>h. root_r b h (0, 0)) = Some (UINT256_ZERO, 0, 0)"
    using root_r.simps [of b _ 0 0] b(2) by (simp add: from_root_def split: option.split)
  then show ?thesis using b assms(2) by (simp add: IsValid_spec)
qed

lemma relay_headers_defined:
  assumes "off + 81 * n \<le> length msg" "length msg < 2 ^ 64"
    and "\<forall>i<n. unat (drop_bit 24 (UInt32GetLE (drop (off + 81 * i + 72) msg))) \<le> 31"
  shows "relay_headers E msg off n i ctx \<noteq> None"
proof (induction "n - i" arbitrary: i ctx)
  case 0
  then show ?case by (subst relay_headers.simps) simp
next
  case (Suc k)
  then have i1: "i < n" by simp
  then have "81 * Suc i \<le> 81 * n" by (intro mult_le_mono2) simp
  then have i: "i < n" "off + 81 * i + 81 \<le> length msg" using assms(1) i1 by simp_all
  define hdr where "hdr = take 81 (drop (off + 81 * i) msg)"
  have s: "sub_bytes (sz (off + 81 * i)) 81 msg = Some hdr" "length hdr = 81"
    using i(2) assms(2) by (simp_all add: sub_bytes_def hdr_def)
  have "UInt32GetLE (drop 72 hdr) = UInt32GetLE (drop (off + 81 * i + 72) msg)"
    using i(2) by (simp add: hdr_def drop_take UInt32GetLE_def add.commute)
  then obtain b where b: "BRMerkleBlockParse hdr = Some b" "BRMerkleBlockIsValid b (ucast (pe_time E)) \<noteq> None"
    using header_valid_defined [OF s(2), of "ucast (pe_time E)"] assms(3) i(1) by auto
  show ?case using b i(1) s(1) Suc.hyps
    by (subst relay_headers.simps) (intro if_not_None bind_defined, simp_all)
qed

lemma next_recent_defined:
  assumes "off + 81 * n \<le> length msg" "length msg < 2 ^ 64"
  shows "i < n \<Longrightarrow> \<exists>j. next_recent ctx msg off n i = Some j \<and> i < j \<and> j \<le> n"
proof (induction "n - i" arbitrary: i)
  case (Suc k)
  have h: "i + 1 < n \<Longrightarrow> header_time msg off (i + 1) \<noteq> None"
    using assms by (simp add: header_time_def get_at_def)
  show ?case
  proof (cases "i + 1 < n")
    case True
    then obtain t where t: "header_time msg off (i + 1) = Some t" using h by auto
    obtain j where "next_recent ctx msg off n (i + 1) = Some j \<and> i + 1 < j \<and> j \<le> n"
      using Suc.hyps(1) [of "i + 1"] Suc.hyps(2) True by fastforce
    then show ?thesis using True t by (subst next_recent.simps) auto
  next
    case False
    then show ?thesis using Suc.prems by (subst next_recent.simps) auto
  qed
qed simp

lemma headers_defined:
  assumes n: "get_count msg = (n, off)" "n < 2 ^ 56" and l: "length msg \<le> MAX_MSG_LENGTH"
    and t: "\<forall>i<n. unat (drop_bit 24 (UInt32GetLE (drop (off + 81 * i + 72) msg))) \<le> 31"
  shows "AcceptHeadersMessage E msg ctx \<noteq> None"
proof (cases "off = 0 \<or> sz (off + 81 * n) > length msg")
  case False
  have off: "1 \<le> off" "off \<le> 9" using get_count_bounds [OF n(1)] by simp_all
  have "off + 81 * n < 2 ^ 64" using off(2) n(2) by simp
  then have le: "off + 81 * n \<le> length msg" using False by simp
  have lm: "length msg < 2 ^ 64" using l by (simp add: MAX_MSG_LENGTH_def)
  have hh: "header_hash msg off i \<noteq> None" if "i < n" for i
    using that le lm by (simp add: header_hash_def sub_bytes_def)
  have ht: "header_time msg off i \<noteq> None" if "i < n" for i
    using that le lm by (simp add: header_time_def get_at_def)
  show ?thesis
    unfolding AcceptHeadersMessage_def n(1) Let_def prod.case
  proof (intro if_not_None bind_defined relay_headers_defined [OF le lm t])
    show "header_time msg off (n - 1) \<noteq> None" if "0 < n" using ht that by simp
    fix v assume v: "(if 0 < n then header_time msg off (n - 1) else Some 0) = Some v" "2000 \<le> n \<or> recent ctx v"
    then have pos: "0 < n" by (cases "n = 0") (auto simp: recent_def)
    show "header_hash msg off (n - 1) \<noteq> None" "header_hash msg off 0 \<noteq> None" using hh pos by simp_all
    show "next_recent ctx msg off n 0 \<noteq> None" using next_recent_defined [OF le lm pos, of ctx] by auto
    show "header_hash msg off (j - 1) \<noteq> None" if "next_recent ctx msg off n 0 = Some j" for j
      using next_recent_defined [OF le lm pos, of ctx] that by (intro hh) auto
  qed simp_all
qed (auto simp: AcceptHeadersMessage_def n Let_def)

definition lengths_ok :: "u8 list \<Rightarrow> u8 list \<Rightarrow> bool" where
  "lengths_ok type msg \<longleftrightarrow>
     (type = MSG_VERSION \<longrightarrow> fst (get_count (drop 80 msg)) < 2 ^ 63) \<and>
     (type = MSG_REJECT \<longrightarrow> (let (n, off) = get_count msg in n < 2 ^ 63 \<and> fst (get_count (drop (off + n + 1) msg)) < 2 ^ 63)) \<and>
     (type = MSG_HEADERS \<longrightarrow> (let (n, off) = get_count msg in n < 2 ^ 56 \<and>
        (\<forall>i<n. unat (drop_bit 24 (UInt32GetLE (drop (off + 81 * i + 72) msg))) \<le> 31)))"

lemma message_defined:
  assumes "length msg \<le> MAX_MSG_LENGTH" "lengths_ok type msg" "type \<noteq> MSG_TX" "type \<noteq> MSG_MERKLEBLOCK"
  shows "BRPeerAcceptMessage E msg type ctx \<noteq> None"
proof -
  obtain n off where n: "get_count msg = (n, off)" by fastforce
  have "type = MSG_REJECT \<Longrightarrow> AcceptRejectMessage E msg ctx \<noteq> None" "type = MSG_HEADERS \<Longrightarrow> AcceptHeadersMessage E msg ctx \<noteq> None"
    "type = MSG_VERSION \<Longrightarrow> AcceptVersionMessage E msg ctx \<noteq> None"
    using assms(2) reject_defined [OF n _ _ assms(1)] headers_defined [OF n _ assms(1)] version_defined
    by (simp_all add: lengths_ok_def n)
  then show ?thesis
    unfolding BRPeerAcceptMessage_def using assms(3,4) by (intro if_not_None accept_lists_defined [OF assms(1)] pong_defined feefilter_defined) simp_all
qed

section \<open>Properties\<close>

definition demo_env :: peer_env where
  "demo_env = \<lparr>pe_time = 1600000000, pe_tod = 1600000000, pe_rand = 7, pe_moved = (\<lambda>n. n mod 4 = 0),
     pe_send = (\<lambda>n buf. (length buf, 0)), pe_requestedTx = (\<lambda>h. None), pe_reachable = True, pe_thread_error = False,
     pe_react = (\<lambda>e ctx. BRPeerSetNeedsFilterUpdate ctx True)\<rparr>"

lemma demo_env_ok: "well_behaved demo_env"
  using client_steps.intros by (simp add: well_behaved_def demo_env_def)

definition demo_peer :: BRPeerContext where
  "demo_peer = BRPeerConnect demo_env (BRPeerSetCallbacks BRPeerNew UNIV)"

lemma demo_peer_link: "running demo_peer" "pc_status demo_peer = BRPeerStatusConnecting" "CbConnected \<in> pc_callbacks demo_peer"
  "peer_inv demo_peer" "\<not> pc_sentVerack demo_peer" "\<not> pc_gotVerack demo_peer" "connections demo_peer = 0"
  by (simp_all add: demo_peer_def BRPeerConnect_def BRPeerSetCallbacks_def BRPeerNew_def demo_env_def Let_def running_def
      peer_inv_def connections_def event_def MAX_GETDATA_HASHES_def)

text \<open>C11: the handshake: from the start of the thread on, whatever messages are accepted and whatever the client
  does, the hash sets and lists of the peer stay consistent and bounded; the peer counts as connected only after
  both verack messages and with a supported protocol version, and the client is told so exactly once.\<close>

theorem peer_handshake:
  assumes "running a" "pc_status a = BRPeerStatusConnecting" "CbConnected \<in> pc_callbacks a" "peer_inv a"
    and "\<not> pc_sentVerack a" "\<not> pc_gotVerack a" "connections a = 0" and "peer_run a b"
  shows "peer_inv b \<and> connections b = (if pc_status b = BRPeerStatusConnected then 1 else 0) \<and>
    (pc_status b = BRPeerStatusConnected \<longrightarrow>
       pc_sentVerack b \<and> pc_gotVerack b \<and> MIN_PROTO_VERSION \<le> pc_version b)"
proof -
  have "link_ok b" by (rule link_ok_run [OF assms(8)]) (use assms in \<open>simp add: link_ok_def\<close>)
  then show ?thesis by (auto simp: link_ok_def)
qed

definition demo_version :: "u8 list" where
  "demo_version = UInt32SetLE 70015 @ replicate 81 0"

theorem peer_handshake_witness:
  "\<exists>b c. BRPeerAcceptMessage demo_env demo_version MSG_VERSION demo_peer = Some (True, b) \<and>
     BRPeerAcceptMessage demo_env [] MSG_VERACK b = Some (True, c) \<and> pc_status c = BRPeerStatusConnected \<and> connections c = 1"
proof -
  have d: "pc_currentBlock demo_peer = None"
    by (simp add: demo_peer_def BRPeerConnect_def BRPeerSetCallbacks_def BRPeerNew_def demo_env_def Let_def event_def)
  have "length demo_version = 85" "UInt32GetLE demo_version = 70015" "get_count (drop 80 demo_version) = (0, 1)" by code_simp+
  then obtain b where "AcceptVersionMessage demo_env demo_version demo_peer = Some (True, b)"
    by (simp add: AcceptVersionMessage_eq MIN_PROTO_VERSION_def sub_bytes_def get_at_def)
  note v = accept_version [OF this]
  have b: "BRPeerAcceptMessage demo_env demo_version MSG_VERSION demo_peer = Some (True, b)" "pc_currentBlock b = None"
    using d v(8) \<open>AcceptVersionMessage _ _ _ = _\<close> by (auto simp: BRPeerAcceptMessage_def)
  obtain c where c: "AcceptVerackMessage demo_env b = (True, c)"
    by (cases "AcceptVerackMessage demo_env b") (auto simp: AcceptVerackMessage_def Let_def split: if_splits)
  have c': "BRPeerAcceptMessage demo_env [] MSG_VERACK b = Some (True, c)" using c b(2) by (simp add: BRPeerAcceptMessage_def)
  have "pc_status c = BRPeerStatusConnected"
    using accept_verack(7) [OF demo_env_ok c] v(1,3,4,6) demo_peer_link by simp
  moreover have "peer_run demo_peer c" by (rule run_accept [OF run_accept [OF run_start demo_env_ok b(1)] demo_env_ok c'])
  ultimately show ?thesis using peer_handshake [OF demo_peer_link, of c] b(1) c' by auto
qed

text \<open>C30: a peer whose verack arrives before its version message never counts as connected, whatever follows:
  only the verack handler completes the handshake, and the second verack is ignored. The connection is
  only ended by the time-out of the handshake.\<close>

theorem peer_early_verack:
  assumes "running a" "CbConnected \<in> pc_callbacks a" "pc_currentBlock a = None" "well_behaved E"
    and "\<not> pc_gotVerack a" "\<not> pc_sentVerack a" "pc_status a = BRPeerStatusConnecting"
    and "BRPeerAcceptMessage E msg MSG_VERACK a = Some (r, b)" "peer_run b c"
  shows "pc_status c = BRPeerStatusConnecting \<and> connections c = connections a"
proof -
  have "AcceptVerackMessage E a = (r, b)" using assms(3,8) by (simp add: BRPeerAcceptMessage_def)
  note v = accept_verack [OF assms(4) this]
  have b: "running b \<and> CbConnected \<in> pc_callbacks b \<and> pc_gotVerack b" "pc_status b = BRPeerStatusConnecting"
    "connections b = connections a" using v(1-6) v(7) assms(1,2,5-7) by auto
  show ?thesis using early_verack_run [OF assms(9) b(1)] b(2,3) by simp
qed

theorem peer_early_verack_witness:
  "\<exists>b. BRPeerAcceptMessage demo_env [] MSG_VERACK demo_peer = Some (True, b) \<and> pc_status b = BRPeerStatusConnecting"
proof -
  have d: "pc_currentBlock demo_peer = None"
    by (simp add: demo_peer_def BRPeerConnect_def BRPeerSetCallbacks_def BRPeerNew_def demo_env_def Let_def event_def)
  then obtain b where "BRPeerAcceptMessage demo_env [] MSG_VERACK demo_peer = Some (True, b)"
    using demo_peer_link(6) by (simp add: BRPeerAcceptMessage_def AcceptVerackMessage_def Let_def)
  then show ?thesis
    using peer_early_verack [OF demo_peer_link(1,3) d demo_env_ok demo_peer_link(6,5,2) _ run_start] by blast
qed

text \<open>C12: while the transactions of a merkle block are awaited, each transaction message takes its hash out of
  the awaited ones; the block is handed to the client exactly once, when the last awaited transaction has
  arrived, in whatever order they come and however many others come in between; and any other message drops it.\<close>

theorem peer_collects_block:
  assumes "well_behaved E" "pc_currentBlock ctx = Some b" "pc_currentBlockTxHashes ctx \<noteq> []"
    and "CbRelayedBlock \<in> pc_callbacks ctx" "pc_sentFilter ctx \<or> pc_sentGetdata ctx"
    and "list_all2 (\<lambda>m t. BRTransactionParse m = Some (Some t)) ms txs"
  shows "\<exists>ctx'. accept_all E (map (Pair MSG_TX) ms) ctx = Some (True, ctx') \<and>
    (let awaited = mset (pc_currentBlockTxHashes ctx) - mset (map tx_txHash txs) in
      mset (pc_currentBlockTxHashes ctx') = awaited \<and> pc_currentBlock ctx' = (if awaited = {#} then None else Some b) \<and>
      relayed ctx' = relayed ctx @ (if awaited = {#} then [b] else []) \<and>
      (\<forall>msg type. awaited \<noteq> {#} \<and> type \<noteq> MSG_TX \<longrightarrow>
         BRPeerAcceptMessage E msg type ctx' = Some (False, ctx'\<lparr>pc_currentBlockTxHashes := [], pc_currentBlock := None\<rparr>)))"
  using accept_txs_collect [OF assms(1,6,2,4,5,3)] unfolding Let_def
  by (auto simp: BRPeerAcceptMessage_def)

lemma parse_serialized_demo:
  "\<exists>m t. BRTransactionParse m = Some (Some t)"
  using parse_tx_bytes [OF demo_tx_wf(1), of "[]"] demo_tx_wf(2) by auto

theorem peer_collects_block_witness:
  "\<exists>m t ctx'. BRTransactionParse m = Some (Some t) \<and>
     accept_all demo_env [(MSG_TX, m)] (demo_peer\<lparr>pc_sentFilter := True, pc_currentBlock := Some BRMerkleBlockNew,
       pc_currentBlockTxHashes := [tx_txHash t]\<rparr>) = Some (True, ctx') \<and> relayed ctx' = [BRMerkleBlockNew]"
proof -
  obtain m t where m: "BRTransactionParse m = Some (Some t)" using parse_serialized_demo by blast
  define ctx where "ctx = demo_peer\<lparr>pc_sentFilter := True, pc_currentBlock := Some BRMerkleBlockNew,
       pc_currentBlockTxHashes := [tx_txHash t]\<rparr>"
  have "CbRelayedBlock \<in> pc_callbacks ctx" "relayed ctx = []"
    by (simp_all add: ctx_def demo_peer_def BRPeerConnect_def BRPeerSetCallbacks_def BRPeerNew_def demo_env_def Let_def
        relayed_def event_def)
  then show ?thesis
    using peer_collects_block [of demo_env ctx BRMerkleBlockNew "[m]" "[t]"] demo_env_ok m
    unfolding ctx_def [symmetric] by (auto simp: ctx_def Let_def)
qed

text \<open>C28: a message of any type but transactions and merkle blocks, which have parsers of their own, never makes a handler
  read outside of it, whatever its length: the fixed fields of a version message, a pong or a fee filter are read only behind
  their length tests, the items of lists only behind the test of the count. The conditions are on what the peer declares: the
  string lengths of a version and a reject message and the count of a headers message are not so large that the bounds test
  wraps around, and no header has a target whose size byte is out of range.\<close>

theorem peer_message_safe:
  assumes "length msg \<le> MAX_MSG_LENGTH" "lengths_ok type msg" "type \<noteq> MSG_TX" "type \<noteq> MSG_MERKLEBLOCK"
  shows "BRPeerAcceptMessage E msg type ctx \<noteq> None"
  by (rule message_defined [OF assms])

theorem peer_message_safe_witness:
  "BRPeerAcceptMessage demo_env (replicate 84 7) MSG_VERSION demo_peer \<noteq> None \<and>
   BRPeerAcceptMessage demo_env [1, 2, 3] MSG_PONG demo_peer \<noteq> None \<and>
   BRPeerAcceptMessage demo_env demo_version MSG_VERSION demo_peer \<noteq> None"
proof (intro conjI)
  show "BRPeerAcceptMessage demo_env (replicate 84 7) MSG_VERSION demo_peer \<noteq> None"
    by (rule peer_message_safe) (simp_all add: MAX_MSG_LENGTH_def lengths_ok_def get_count_def BRVarInt_def Let_def
      VAR_INT16_HEADER_def VAR_INT32_HEADER_def VAR_INT64_HEADER_def MSG_VERSION_def MSG_TX_def MSG_MERKLEBLOCK_def MSG_REJECT_def MSG_HEADERS_def)
  show "BRPeerAcceptMessage demo_env [1, 2, 3] MSG_PONG demo_peer \<noteq> None"
    by (rule peer_message_safe) (simp_all add: MAX_MSG_LENGTH_def lengths_ok_def
      MSG_VERSION_def MSG_TX_def MSG_MERKLEBLOCK_def MSG_REJECT_def MSG_HEADERS_def MSG_PONG_def)
  show "BRPeerAcceptMessage demo_env demo_version MSG_VERSION demo_peer \<noteq> None"
    by (rule peer_message_safe) (simp_all add: MAX_MSG_LENGTH_def lengths_ok_def get_count_def BRVarInt_def Let_def demo_version_def
      VAR_INT16_HEADER_def VAR_INT32_HEADER_def VAR_INT64_HEADER_def MSG_VERSION_def MSG_TX_def MSG_MERKLEBLOCK_def MSG_REJECT_def MSG_HEADERS_def)
qed

definition bad_headers :: "u8 list" where
  "bad_headers = 0xff # UInt64SetLE 3188326136196712625 @ [0]"

definition bad_version :: "u8 list" where
  "bad_version = UInt32SetLE 70015 @ replicate 76 0 @ 0xff # UInt64SetLE (- 93)"

definition bad_reject :: "u8 list" where
  "bad_reject = 0xff # UInt64SetLE (- 10)"

text \<open>C29: where the bounds tests wrap around, three short messages make the code read outside of them: a headers
  message whose count is the inverse of 81 modulo \<open>2 ^ 64\<close>, and a version and a reject message that declare a string of
  almost \<open>2 ^ 64\<close> bytes.\<close>

theorem peer_message_overread:
  assumes "pc_currentBlock ctx = None"
  shows "BRPeerAcceptMessage E bad_headers MSG_HEADERS ctx = None \<and>
    BRPeerAcceptMessage E bad_version MSG_VERSION ctx = None \<and> BRPeerAcceptMessage E bad_reject MSG_REJECT ctx = None"
proof -
  have g: "get_count (varint_bytes i @ r) = (unat i, length (varint_bytes i))" for i r
    by (simp add: get_count_def BRVarInt_append)
  have b: "varint_bytes i = 0xff # UInt64SetLE i" if "0xffffffff < i" for i
  proof -
    have "0xfd < i" "0xffff < i" by (rule less_trans [OF _ that], simp)+
    then have "\<not> i < 0xfd" "\<not> i \<le> 0xffff" "\<not> i \<le> 0xffffffff" using that by (simp_all only: not_le less_imp_not_less not_False_eq_True)
    then show ?thesis by (simp only: varint_bytes_def if_False)
  qed
  have h: "length bad_headers = 10" "get_count bad_headers = (3188326136196712625, 9)"
    using g [of 3188326136196712625 "[0]"] by (simp_all add: b bad_headers_def len_simps)
  have d: "drop 80 bad_version = 0xff # UInt64SetLE (- 93)" "UInt32GetLE bad_version = 70015"
    by (simp_all add: bad_version_def len_simps cint_simps)
  then have v: "length bad_version = 89" "get_count (drop 80 bad_version) = (2 ^ 64 - 93, 9)"
    using g [of "- 93" "[]"] by (simp_all add: b bad_version_def len_simps)
  have r: "length bad_reject = 9" "get_count bad_reject = (2 ^ 64 - 10, 9)"
    using g [of "- 10" "[]"] by (simp_all add: b bad_reject_def len_simps)
  have "AcceptHeadersMessage E bad_headers ctx = None"
    by (simp add: AcceptHeadersMessage_def h header_time_def get_at_def sz_def)
  moreover have "AcceptVersionMessage E bad_version ctx = None"
    by (simp add: AcceptVersionMessage_eq v d(2) MIN_PROTO_VERSION_def sub_bytes_def sz_def)
  moreover have "AcceptRejectMessage E bad_reject ctx = None"
    by (simp add: AcceptRejectMessage_def r str_at_def sz_def)
  ultimately show ?thesis using assms by (simp add: BRPeerAcceptMessage_def)
qed

theorem peer_message_overread_witness:
  "BRPeerAcceptMessage demo_env bad_headers MSG_HEADERS BRPeerNew = None"
  using peer_message_overread [of BRPeerNew demo_env] by (simp add: BRPeerNew_def)

end
