(* ===== verification/PeerLoop.thy ===== *)
theory PeerLoop
  imports PeerLaws
begin

text \<open>
  \<^verbatim>\<open>Libraries/loafwallet-core/BRPeer.c\<close>, third part: the thread that reads from the socket, \<^verbatim>\<open>_peerThreadRoutine\<close>.
  What \<open>read\<close> returns is a list: bytes that have arrived, the end of the connection, an error, or nothing yet,
  each with the time after the call. A list that is used up means that the thread waits for more. The
  header is the array of the code with the number of its bytes that are valid; its first content is an
  argument. The lemmas show that the messages that reach the handlers do not depend on how the network
  splits the stream, nor on bytes between the messages in which the magic number does not occur.
\<close>

section \<open>Model\<close>

definition ETIMEDOUT :: int where "ETIMEDOUT = 60"
definition ECONNRESET :: int where "ECONNRESET = 54"
definition EPROTO :: int where "EPROTO = 100"

datatype net_input = Data "u8 list" | EndOfStream | Failure int | WouldBlock

type_synonym net = "(net_input \<times> real) list"

text \<open>\<open>read(socket, buf, n)\<close>: at most \<open>n\<close> bytes; what does not fit is left for the next call.\<close>

fun read_sock :: "nat \<Rightarrow> net \<Rightarrow> (net_input \<times> real \<times> net) option" where
  "read_sock n [] = None"
| "read_sock n ((Data bs, t) # inp) =
     (if bs = [] then Some (EndOfStream, t, inp)
      else if length bs \<le> n then Some (Data bs, t, inp)
      else Some (Data (take n bs), t, (Data (drop n bs), t) # inp))"
| "read_sock n ((r, t) # inp) = Some (r, t, inp)"

fun net_size :: "net \<Rightarrow> nat" where
  "net_size [] = 0"
| "net_size ((Data bs, t) # inp) = Suc (length bs) + net_size inp"
| "net_size ((r, t) # inp) = Suc (net_size inp)"

datatype 'a io = Blocked BRPeerContext | Undefined | Ended 'a

definition read_error :: "net_input \<Rightarrow> int" where
  "read_error r = (case r of Data bs \<Rightarrow> 0 | EndOfStream \<Rightarrow> ECONNRESET | Failure e \<Rightarrow> e | WouldBlock \<Rightarrow> 0)"

definition read_bytes :: "net_input \<Rightarrow> u8 list" where
  "read_bytes r = (case r of Data bs \<Rightarrow> bs | _ \<Rightarrow> [])"

text \<open>\<open>while (4 <= len && magic differs) memmove(header, &header[1], --len);\<close>\<close>

fun sync_magic :: "u8 list \<Rightarrow> nat \<Rightarrow> u8 list \<times> nat" where
  "sync_magic header len =
     (if 4 \<le> len \<and> UInt32GetLE header \<noteq> MAGIC_NUMBER
      then sync_magic (memcpy_at header 0 (take (len - 1) (drop 1 header))) (len - 1)
      else (header, len))"

declare sync_magic.simps [simp del]

definition mempool_timeout :: "peer_env \<Rightarrow> real \<Rightarrow> BRPeerContext \<Rightarrow> BRPeerContext" where
  "mempool_timeout E time ctx =
     (if time \<ge> pc_mempoolTime ctx
      then (BRPeerSendPing E (pc_mempoolInfo ctx) (pc_mempoolCallback ctx) ctx)
             \<lparr>pc_mempoolCallback := None, pc_mempoolTime := DBL_MAX\<rparr>
      else ctx)"

lemma read_sock_size:
  "read_sock n inp = Some (r, t, inp') \<Longrightarrow> 0 < n \<Longrightarrow> net_size inp' < net_size inp"
  by (cases "(n, inp)" rule: read_sock.cases) (auto split: if_splits)

function header_loop ::
    "peer_env \<Rightarrow> net \<Rightarrow> BRPeerContext \<Rightarrow> u8 list \<Rightarrow> nat \<Rightarrow> real \<Rightarrow>
     (int \<times> net \<times> BRPeerContext \<times> u8 list \<times> nat \<times> real) io" where
  "header_loop E inp ctx header len time =
     (if pc_socket ctx \<ge> 0 \<and> len < HEADER_LENGTH
      then (case read_sock (HEADER_LENGTH - len) inp of
          None \<Rightarrow> Blocked ctx
        | Some (r, time, inp') \<Rightarrow>
            let header = memcpy_at header len (read_bytes r);
                len = len + length (read_bytes r);
                error = read_error r;
                error = (if error = 0 \<and> time \<ge> pc_disconnectTime ctx then ETIMEDOUT else error);
                ctx = (if error = 0 then mempool_timeout E time ctx else ctx);
                (header, len) = sync_magic header len
            in if error = 0 then header_loop E inp' ctx header len time
               else Ended (error, inp', ctx, header, len, time))
      else Ended (0, inp, ctx, header, len, time))"
  by auto
termination
  by (relation "measure (\<lambda>(E, inp, ctx, header, len, time). net_size inp)") (auto dest: read_sock_size)

declare header_loop.simps [simp del]

function payload_loop ::
    "net \<Rightarrow> BRPeerContext \<Rightarrow> u8 list \<Rightarrow> nat \<Rightarrow> real \<Rightarrow> real \<Rightarrow> (int \<times> net \<times> u8 list \<times> real) io" where
  "payload_loop inp ctx payload msgLen time msgTimeout =
     (if pc_socket ctx \<ge> 0 \<and> length payload < msgLen
      then (case read_sock (msgLen - length payload) inp of
          None \<Rightarrow> Blocked ctx
        | Some (r, time, inp') \<Rightarrow>
            let payload = payload @ read_bytes r;
                msgTimeout = (if read_bytes r \<noteq> [] then time + MESSAGE_TIMEOUT else msgTimeout);
                error = read_error r;
                error = (if error = 0 \<and> time \<ge> msgTimeout then ETIMEDOUT else error)
            in if error = 0 then payload_loop inp' ctx payload msgLen time msgTimeout
               else Ended (error, inp', payload, time))
      else Ended (0, inp, payload, time))"
  by auto
termination
  by (relation "measure (\<lambda>(inp, ctx, payload, msgLen, time, msgTimeout). net_size inp)") (auto dest: read_sock_size)

declare payload_loop.simps [simp del]

lemma header_loop_size:
  "header_loop E inp ctx header len time = Ended (e, inp', ctx', header', len', time') \<Longrightarrow>
    net_size inp' \<le> net_size inp \<and> (pc_socket ctx \<ge> 0 \<and> len < HEADER_LENGTH \<longrightarrow> net_size inp' < net_size inp)"
proof (induction "net_size inp" arbitrary: inp ctx header len time rule: less_induct)
  case less
  note unf = header_loop.simps [of E inp ctx header len time]
  show ?case
  proof (cases "pc_socket ctx \<ge> 0 \<and> len < HEADER_LENGTH")
    case True
    then obtain r t inp1 where r: "read_sock (HEADER_LENGTH - len) inp = Some (r, t, inp1)"
      using less.prems unf by (cases "read_sock (HEADER_LENGTH - len) inp") auto
    have lt: "net_size inp1 < net_size inp" by (rule read_sock_size [OF r]) (use True in simp)
    obtain h l where sync: "sync_magic (memcpy_at header len (read_bytes r)) (len + length (read_bytes r)) = (h, l)" by fastforce
    have "net_size inp' \<le> net_size inp1"
      using less.prems less.hyps [OF lt] True by (auto simp: unf r Let_def sync split: if_splits)
    then show ?thesis using lt by simp
  qed (use less.prems unf in auto)
qed

lemma header_loop_less:
  "header_loop E inp ctx header 0 time = Ended (e, inp', ctx', header', len', time') \<Longrightarrow> pc_socket ctx \<ge> 0 \<Longrightarrow>
    net_size inp' < net_size inp"
  by (drule header_loop_size) (simp add: HEADER_LENGTH_def)

lemma payload_loop_size:
  "payload_loop inp ctx payload msgLen time msgTimeout = Ended (e, inp', payload', time') \<Longrightarrow> net_size inp' \<le> net_size inp"
proof (induction "net_size inp" arbitrary: inp payload time msgTimeout rule: less_induct)
  case less
  note unf = payload_loop.simps [of inp ctx payload msgLen time msgTimeout]
  show ?case
  proof (cases "pc_socket ctx \<ge> 0 \<and> length payload < msgLen")
    case True
    then obtain r t inp1 where r: "read_sock (msgLen - length payload) inp = Some (r, t, inp1)"
      using less.prems unf by (cases "read_sock (msgLen - length payload) inp") auto
    have lt: "net_size inp1 < net_size inp" by (rule read_sock_size [OF r]) (use True in simp)
    have "net_size inp' \<le> net_size inp1"
      using less.prems less.hyps [OF lt] True by (auto simp: unf r Let_def split: if_splits)
    then show ?thesis using lt by simp
  qed (use less.prems unf in auto)
qed

text \<open>One turn of the outer loop: the error, the input that is left, and the state after it.\<close>

definition thread_step :: "peer_env \<Rightarrow> net \<Rightarrow> BRPeerContext \<Rightarrow> u8 list \<Rightarrow> real \<Rightarrow>
    (int \<times> net \<times> BRPeerContext \<times> u8 list \<times> real) io" where
  "thread_step E inp ctx header time =
     (case header_loop E inp ctx header 0 time of
        Blocked c \<Rightarrow> Blocked c
      | Undefined \<Rightarrow> Undefined
      | Ended (error, inp, ctx, header, len, time) \<Rightarrow>
          if error \<noteq> 0 then Ended (error, inp, ctx, header, time)
          else if header ! 15 \<noteq> 0 then Ended (EPROTO, inp, ctx, header, time)
          else if len = HEADER_LENGTH
          then let type = takeWhile (\<lambda>b. b \<noteq> 0) (take 12 (drop 4 header));
                   msgLen = unat (UInt32GetLE (drop 16 header));
                   checksum = UInt32GetLE (drop 20 header)
               in if msgLen > MAX_MSG_LENGTH then Ended (EPROTO, inp, ctx, header, time)
                  else (case payload_loop inp ctx [] msgLen time (time + MESSAGE_TIMEOUT) of
                      Blocked c \<Rightarrow> Blocked c
                    | Undefined \<Rightarrow> Undefined
                    | Ended (error, inp, payload, time) \<Rightarrow>
                        if error \<noteq> 0 then Ended (error, inp, ctx, header, time)
                        else if length payload = msgLen
                        then if UInt32GetLE (BRSHA256_2 payload) \<noteq> checksum then Ended (EPROTO, inp, ctx, header, time)
                             else (case BRPeerAcceptMessage E payload type ctx of
                                 None \<Rightarrow> Undefined
                               | Some (r, ctx) \<Rightarrow> Ended (if r then 0 else EPROTO, inp, ctx, header, time))
                        else Ended (0, inp, ctx, header, time))
          else Ended (0, inp, ctx, header, time))"

lemma thread_step_size:
  assumes "thread_step E inp ctx header time = Ended (e, inp', ctx', header', time')" "pc_socket ctx \<ge> 0"
  shows "net_size inp' < net_size inp"
proof -
  obtain error inp1 ctx1 h len t where l: "header_loop E inp ctx header 0 time = Ended (error, inp1, ctx1, h, len, t)"
    using assms(1) by (auto simp: thread_step_def split: io.splits)
  have "net_size inp1 < net_size inp" by (rule header_loop_less [OF l assms(2)])
  moreover have "net_size inp' \<le> net_size inp1"
    using assms(1) payload_loop_size [of inp1 ctx1 "[]"]
    by (auto simp: thread_step_def l Let_def split: if_splits io.splits option.splits)
  ultimately show ?thesis by simp
qed

function thread_loop :: "peer_env \<Rightarrow> net \<Rightarrow> BRPeerContext \<Rightarrow> u8 list \<Rightarrow> real \<Rightarrow> (int \<times> BRPeerContext) io" where
  "thread_loop E inp ctx header time =
     (if pc_socket ctx \<ge> 0
      then (case thread_step E inp ctx header time of
          Blocked c \<Rightarrow> Blocked c
        | Undefined \<Rightarrow> Undefined
        | Ended (error, inp', ctx, header, time) \<Rightarrow>
            if error = 0 then thread_loop E inp' ctx header time else Ended (error, ctx))
      else Ended (0, ctx))"
  by auto
termination
  by (relation "measure (\<lambda>(E, inp, ctx, header, time). net_size inp)") (auto dest: thread_step_size)

declare thread_loop.simps [simp del]

text \<open>The callbacks of outstanding pings are told of the failure; one that sends another ping prolongs the loop.\<close>

partial_function (option) flush_pongs :: "peer_env \<Rightarrow> BRPeerContext \<Rightarrow> BRPeerContext option" where
  "flush_pongs E ctx = (if pc_pongCallback ctx \<noteq> [] then flush_pongs E (pop_pong E False ctx) else Some ctx)"

definition thread_end :: "peer_env \<Rightarrow> int \<Rightarrow> BRPeerContext \<Rightarrow> BRPeerContext option" where
  "thread_end E error ctx = do {
     ctx \<leftarrow> flush_pongs E (ctx\<lparr>pc_socket := -1, pc_status := BRPeerStatusDisconnected\<rparr>);
     let ctx = (case pc_mempoolCallback ctx of None \<Rightarrow> ctx | Some f \<Rightarrow> call E (Mempool f (pc_mempoolInfo ctx) False) ctx);
     Some (notify E CbDisconnected (Disconnected error) (ctx\<lparr>pc_mempoolCallback := None\<rparr>))
   }"

text \<open>The whole thread; \<open>opened\<close> is the outcome of opening the socket: its number, success, and the error.\<close>

definition peerThreadRoutine ::
    "peer_env \<Rightarrow> int \<times> bool \<times> int \<Rightarrow> net \<Rightarrow> u8 list \<Rightarrow> BRPeerContext \<Rightarrow> BRPeerContext option io" where
  "peerThreadRoutine E opened inp header ctx =
     (let (socket, r, error) = opened; ctx = ctx\<lparr>pc_socket := socket\<rparr> in
      if r
      then (case thread_loop E inp (BRPeerSendVersionMessage E (ctx\<lparr>pc_startTime := pe_tod E\<rparr>)) header 0 of
          Blocked c \<Rightarrow> Blocked c
        | Undefined \<Rightarrow> Undefined
        | Ended (error, ctx) \<Rightarrow> Ended (thread_end E error ctx))
      else Ended (thread_end E error ctx))"

section \<open>Streams\<close>

definition bytes_in :: "net \<Rightarrow> u8 list" where
  "bytes_in inp = concat (map (\<lambda>(r, t). read_bytes r) inp)"

text \<open>The network delivers bytes only, and before the time \<open>T\<close>.\<close>

definition calm :: "real \<Rightarrow> net \<Rightarrow> bool" where
  "calm T inp \<longleftrightarrow> (\<forall>(r, t)\<in>set inp. read_error r = 0 \<and> read_bytes r \<noteq> [] \<and> t < T)"

lemma calm_read:
  assumes "calm T inp" "bytes_in inp \<noteq> []" "0 < n"
  obtains bs t inp' where "read_sock n inp = Some (Data bs, t, inp')" "bs \<noteq> []" "length bs \<le> n"
    "bytes_in inp = bs @ bytes_in inp'" "calm T inp'" "t < T" "net_size inp' < net_size inp"
proof -
  obtain r t rest where i: "inp = (r, t) # rest" using assms(2) by (cases inp) (auto simp: bytes_in_def)
  then obtain bs where bs: "r = Data bs" "bs \<noteq> []" "t < T" "calm T rest"
    using assms(1) by (auto simp: calm_def read_bytes_def split: net_input.splits)
  show thesis
  proof (cases "length bs \<le> n")
    case True
    then show thesis using that [of bs t rest] bs i by (simp add: bytes_in_def read_bytes_def)
  next
    case False
    then have "calm T ((Data (drop n bs), t) # rest)" using bs by (simp add: calm_def read_bytes_def read_error_def)
    then show thesis
      using that [of "take n bs" t "(Data (drop n bs), t) # rest"] bs i False assms(3)
      by (simp add: bytes_in_def read_bytes_def)
  qed
qed

lemma calm_empty: "calm T inp \<Longrightarrow> bytes_in inp = [] \<Longrightarrow> inp = []"
  by (cases inp) (auto simp: calm_def bytes_in_def)

section \<open>Finding a header\<close>

definition magic_at :: "u8 list \<Rightarrow> nat \<Rightarrow> bool" where
  "magic_at bs i \<longleftrightarrow> take 4 (drop i bs) = UInt32SetLE MAGIC_NUMBER"

definition first_magic :: "u8 list \<Rightarrow> nat \<Rightarrow> bool" where
  "first_magic bs p \<longleftrightarrow> magic_at bs p \<and> (\<forall>i<p. \<not> magic_at bs i)"

lemma magic_header:
  assumes "4 \<le> length header"
  shows "UInt32GetLE header = MAGIC_NUMBER \<longleftrightarrow> magic_at header 0"
proof
  assume "UInt32GetLE header = MAGIC_NUMBER"
  moreover have "UInt32GetLE header = UInt32GetLE (take 4 header)" by (simp add: UInt32GetLE_def)
  moreover have "UInt32SetLE (UInt32GetLE (take 4 header)) = take 4 header" using assms by (intro UIntSetLE_Get) simp
  ultimately show "magic_at header 0" by (simp add: magic_at_def)
next
  assume "magic_at header 0"
  then have "header = UInt32SetLE MAGIC_NUMBER @ drop 4 header" by (simp add: magic_at_def) (metis append_take_drop_id)
  then show "UInt32GetLE header = MAGIC_NUMBER" using UIntGetLE_append(2) [of MAGIC_NUMBER "drop 4 header"] by metis
qed

lemma first_magic_drop: "first_magic bs p \<Longrightarrow> q \<le> p \<Longrightarrow> first_magic (drop q bs) (p - q)"
  by (auto simp: first_magic_def magic_at_def)

lemma sync_magic_ok:
  assumes "len \<le> length header" "first_magic (take len header @ rest) p"
  shows "\<exists>q h. sync_magic header len = (h, len - q) \<and> q \<le> p \<and> q \<le> len \<and> (len - q < 4 \<or> q = p) \<and>
    length h = length header \<and> take (len - q) h = drop q (take len header)"
  using assms
proof (induction header len arbitrary: p rule: sync_magic.induct)
  case (1 header len)
  show ?case
  proof (cases "4 \<le> len \<and> UInt32GetLE header \<noteq> MAGIC_NUMBER")
    case True
    define h where "h = memcpy_at header 0 (take (len - 1) (drop 1 header))"
    have l: "length h = length header" using "1.prems"(1) by (simp add: h_def len_simps)
    have t: "take (len - 1) h = drop 1 (take len header)"
      using "1.prems"(1) by (simp add: h_def memcpy_at_0 take_drop [symmetric]) (simp add: drop_take)
    have "\<not> magic_at (take len header @ rest) 0"
      using True "1.prems"(1) magic_header [of header] by (simp add: magic_at_def)
    then have p: "0 < p" using "1.prems"(2) by (cases p) (auto simp: first_magic_def)
    have fm: "first_magic (take (len - 1) h @ rest) (p - 1)"
      using first_magic_drop [OF "1.prems"(2), of 1] p True t "1.prems"(1) by (simp add: drop_append)
    have le: "len - 1 \<le> length h" using "1.prems"(1) l by simp
    obtain q g where q: "sync_magic h (len - 1) = (g, len - 1 - q)" "q \<le> p - 1" "q \<le> len - 1" "len - 1 - q < 4 \<or> q = p - 1"
      "length g = length h" "take (len - 1 - q) g = drop q (take (len - 1) h)"
      using "1.IH" [OF True, folded h_def, OF le fm] by blast
    have "sync_magic header len = (g, len - Suc q)"
      using q(1) True by (subst sync_magic.simps) (simp add: h_def)
    moreover have "take (len - Suc q) g = drop (Suc q) (take len header)" using q(6) t by simp
    moreover have "len - Suc q < 4 \<or> Suc q = p" using q(4) p by (cases "len - Suc q < 4") simp_all
    moreover have "Suc q \<le> p" "Suc q \<le> len" "length g = length header" using q(2,3,5) p conjunct1 [OF True] l by linarith+
    ultimately have "sync_magic header len = (g, len - Suc q) \<and> Suc q \<le> p \<and> Suc q \<le> len \<and> (len - Suc q < 4 \<or> Suc q = p) \<and>
      length g = length header \<and> take (len - Suc q) g = drop (Suc q) (take len header)"
      by (intro conjI)
    then show ?thesis by blast
  next
    case False
    have "len < 4 \<or> 0 = p"
    proof (rule disjCI)
      assume "0 \<noteq> p"
      then have "\<not> magic_at (take len header @ rest) 0" using "1.prems"(2) by (auto simp: first_magic_def)
      then show "len < 4" using False "1.prems"(1) magic_header [of header]
        by (intro notI [THEN linorder_not_le [THEN iffD1]]) (simp add: magic_at_def)
    qed
    then show ?thesis using False by (subst sync_magic.simps) (auto intro!: exI [of _ 0])
  qed
qed

lemma header_loop_finds:
  assumes "calm T inp" "0 \<le> pc_socket ctx" "T \<le> pc_disconnectTime ctx" "T \<le> pc_mempoolTime ctx"
    and "length header = HEADER_LENGTH" "len \<le> HEADER_LENGTH"
    and "first_magic (take len header @ bytes_in inp) p" "p + HEADER_LENGTH \<le> len + length (bytes_in inp)" "4 \<le> len \<Longrightarrow> p = 0"
  shows "\<exists>inp' header' t. header_loop E inp ctx header len time = Ended (0, inp', ctx, header', HEADER_LENGTH, t) \<and>
    header' = take HEADER_LENGTH (drop p (take len header @ bytes_in inp)) \<and>
    bytes_in inp' = drop (p + HEADER_LENGTH) (take len header @ bytes_in inp) \<and> calm T inp'"
  using assms
proof (induction "net_size inp" arbitrary: inp header len p time rule: less_induct)
  case less
  note prems = less.prems
  show ?case
  proof (cases "len = HEADER_LENGTH")
    case True
    then show ?thesis using prems by (subst header_loop.simps) (simp add: HEADER_LENGTH_def)
  next
    case False
    then have len: "len < HEADER_LENGTH" using prems(6) by simp
    then have "bytes_in inp \<noteq> []" using prems(8) by auto
    then obtain bs t inp1 where r: "read_sock (HEADER_LENGTH - len) inp = Some (Data bs, t, inp1)" "bs \<noteq> []"
      "length bs \<le> HEADER_LENGTH - len" "bytes_in inp = bs @ bytes_in inp1" "calm T inp1" "t < T" "net_size inp1 < net_size inp"
      using len by (elim calm_read [OF prems(1), of "HEADER_LENGTH - len"]) auto
    define h l where "h = memcpy_at header len bs" and "l = len + length bs"
    have hl: "length h = HEADER_LENGTH" "l \<le> HEADER_LENGTH" "take l h = take len header @ bs"
      using prems(5) len r(3) by (simp_all add: h_def l_def len_simps memcpy_at_def)
    have B: "take len header @ bytes_in inp = take l h @ bytes_in inp1" by (simp add: hl(3) r(4))
    obtain q g where q: "sync_magic h l = (g, l - q)" "q \<le> p" "q \<le> l" "l - q < 4 \<or> q = p" "length g = length h"
      "take (l - q) g = drop q (take l h)"
      using sync_magic_ok [of l h "bytes_in inp1" p] hl prems(7) B by auto
    have B': "drop q (take len header @ bytes_in inp) = take (l - q) g @ bytes_in inp1"
      using q(3) hl(1,2) by (simp add: B q(6))
    have f: "first_magic (take (l - q) g @ bytes_in inp1) (p - q)" 
      unfolding B' [symmetric] by (rule first_magic_drop [OF prems(7) q(2)])
    have n: "p - q + HEADER_LENGTH \<le> l - q + length (bytes_in inp1)"
      using prems(8) q(2,3) r(4) by (simp add: l_def)
    have z: "4 \<le> l - q \<Longrightarrow> p - q = 0" using q(4) by linarith
    obtain inp' header' t' where ih: "header_loop E inp1 ctx g (l - q) t = Ended (0, inp', ctx, header', HEADER_LENGTH, t')"
      "header' = take HEADER_LENGTH (drop (p - q) (take (l - q) g @ bytes_in inp1))"
      "bytes_in inp' = drop (p - q + HEADER_LENGTH) (take (l - q) g @ bytes_in inp1)" "calm T inp'"
      using less.hyps [OF r(7,5) prems(2-4) _ _ f n z] q(5) hl(1,2) by fastforce
    have e: "read_error (Data bs) = 0" "read_bytes (Data bs) = bs" by (simp_all add: read_error_def read_bytes_def)
    have m: "mempool_timeout E t ctx = ctx" "\<not> pc_disconnectTime ctx \<le> t"
      using r(6) prems(3,4) by (simp_all add: mempool_timeout_def)
    have "header_loop E inp ctx header len time = Ended (0, inp', ctx, header', HEADER_LENGTH, t')"
      using ih(1) prems(2) len by (subst header_loop.simps) (simp add: r(1) e m h_def [symmetric] l_def [symmetric] q(1))
    moreover have "header' = take HEADER_LENGTH (drop p (take len header @ bytes_in inp))"
      "bytes_in inp' = drop (p + HEADER_LENGTH) (take len header @ bytes_in inp)"
      unfolding ih(2,3) B' [symmetric] using q(2) by (simp_all only: drop_drop) (simp_all add: add.commute)
    ultimately show ?thesis using ih(4) by blast
  qed
qed

lemma payload_loop_reads:
  assumes "calm T inp" "0 \<le> pc_socket ctx" "length payload \<le> msgLen" "msgLen \<le> length (payload @ bytes_in inp)"
  shows "\<exists>inp' t. payload_loop inp ctx payload msgLen time timeout = Ended (0, inp', take msgLen (payload @ bytes_in inp), t) \<and>
    bytes_in inp' = drop msgLen (payload @ bytes_in inp) \<and> calm T inp'"
  using assms
proof (induction "net_size inp" arbitrary: inp payload time timeout rule: less_induct)
  case less
  note prems = less.prems
  show ?case
  proof (cases "length payload = msgLen")
    case True
    then show ?thesis using prems by (subst payload_loop.simps) simp
  next
    case False
    then have len: "length payload < msgLen" using prems(3) by simp
    then have "bytes_in inp \<noteq> []" using prems(4) by auto
    then obtain bs t inp1 where r: "read_sock (msgLen - length payload) inp = Some (Data bs, t, inp1)" "bs \<noteq> []"
      "length bs \<le> msgLen - length payload" "bytes_in inp = bs @ bytes_in inp1" "calm T inp1" "net_size inp1 < net_size inp"
      using len by (elim calm_read [OF prems(1), of "msgLen - length payload"]) auto
    have e: "read_error (Data bs) = 0" "read_bytes (Data bs) = bs" by (simp_all add: read_error_def read_bytes_def)
    have le: "length (payload @ bs) \<le> msgLen" "msgLen \<le> length ((payload @ bs) @ bytes_in inp1)"
      using r(3,4) len prems(4) by simp_all
    obtain inp' t' where ih: "payload_loop inp1 ctx (payload @ bs) msgLen t (t + MESSAGE_TIMEOUT) =
        Ended (0, inp', take msgLen ((payload @ bs) @ bytes_in inp1), t')"
      "bytes_in inp' = drop msgLen ((payload @ bs) @ bytes_in inp1)" "calm T inp'"
      using less.hyps [OF r(6,5) prems(2), OF le, of t "t + MESSAGE_TIMEOUT"] by blast
    have "payload_loop inp ctx payload msgLen time timeout = Ended (0, inp', take msgLen (payload @ bytes_in inp), t')"
      using ih(1) prems(2) len r(2) by (subst payload_loop.simps) (simp add: r(1,4) e MESSAGE_TIMEOUT_def)
    then show ?thesis using ih(2,3) r(4) by (intro exI conjI) simp_all
  qed
qed

section \<open>Messages out of the stream\<close>

text \<open>An item of the stream: bytes without the magic number, then a message of the network, as \<open>BRPeerSendMessage\<close> writes it.\<close>

type_synonym item = "u8 list \<times> u8 list \<times> u8 list"

fun valid_item :: "item \<Rightarrow> bool" where
  "valid_item (g, type, msg) \<longleftrightarrow> (\<forall>i<length g. \<not> magic_at (g @ UInt32SetLE MAGIC_NUMBER) i) \<and>
     length type \<le> 11 \<and> 0 \<notin> set type \<and> length msg \<le> MAX_MSG_LENGTH"

fun stream :: "item list \<Rightarrow> u8 list" where
  "stream [] = []"
| "stream ((g, type, msg) # items) = g @ msg_header msg type @ msg @ stream items"

definition calm_peer :: "real \<Rightarrow> BRPeerContext \<Rightarrow> bool" where
  "calm_peer T ctx \<longleftrightarrow> 0 \<le> pc_socket ctx \<and> T \<le> pc_disconnectTime ctx \<and> T \<le> pc_mempoolTime ctx"

text \<open>No handler closes the connection or sets a timer that ends before \<open>T\<close>.\<close>

fun calm_run :: "peer_env \<Rightarrow> real \<Rightarrow> (u8 list \<times> u8 list) list \<Rightarrow> BRPeerContext \<Rightarrow> bool" where
  "calm_run E T [] ctx \<longleftrightarrow> calm_peer T ctx"
| "calm_run E T ((type, msg) # ms) ctx \<longleftrightarrow> calm_peer T ctx \<and>
     (case BRPeerAcceptMessage E msg type ctx of Some (True, ctx) \<Rightarrow> calm_run E T ms ctx | _ \<Rightarrow> True)"

lemma calm_run_peer: "calm_run E T ms ctx \<Longrightarrow> calm_peer T ctx"
  by (cases "(E, T, ms, ctx)" rule: calm_run.cases) auto

lemma magic_at_append: "i + 4 \<le> length bs \<Longrightarrow> magic_at (bs @ rest) i \<longleftrightarrow> magic_at bs i"
  by (simp add: magic_at_def)

lemma item_first_magic:
  assumes "valid_item (g, type, msg)"
  shows "first_magic (g @ msg_header msg type @ rest) (length g)"
proof -
  have "magic_at (g @ msg_header msg type @ rest) i \<longleftrightarrow> magic_at (g @ UInt32SetLE MAGIC_NUMBER) i" if "i \<le> length g" for i
    using magic_at_append [of i "g @ UInt32SetLE MAGIC_NUMBER"] that by (simp add: msg_header_def len_simps)
  then show ?thesis using assms by (simp add: first_magic_def) (simp add: magic_at_def len_simps)
qed

lemma length_msg_header: "length (msg_header msg type) = HEADER_LENGTH"
  by (simp add: msg_header_def len_simps HEADER_LENGTH_def)

lemma msg_header_fields:
  assumes "length type \<le> 11" "0 \<notin> set type" "length msg \<le> MAX_MSG_LENGTH"
  defines "h \<equiv> msg_header msg type"
  shows "h ! 15 = 0" "takeWhile (\<lambda>b. b \<noteq> 0) (take 12 (drop 4 h)) = type"
    "unat (UInt32GetLE (drop 16 h)) = length msg" "UInt32GetLE (drop 20 h) = UInt32GetLE (BRSHA256_2 msg)"
proof -
  have t: "take 12 (type @ replicate 12 0) = type @ replicate (12 - length type) 0" using assms(1) by simp
  have h: "h = UInt32SetLE MAGIC_NUMBER @ (type @ replicate (12 - length type) 0) @
      UInt32SetLE (word_of_nat (length msg)) @ take 4 (BRSHA256_2 msg)"
    unfolding h_def msg_header_def t ..
  have l: "length (type @ replicate (12 - length type) (0::u8)) = 12" using assms(1) by simp
  have d4: "take 12 (drop 4 h) = type @ replicate (12 - length type) 0" using l by (simp add: h len_simps)
  have "12 - length type = Suc (11 - length type)" using assms(1) by simp
  then show "takeWhile (\<lambda>b. b \<noteq> 0) (take 12 (drop 4 h)) = type" unfolding d4 using assms(2)
    by (subst takeWhile_append2) auto
  have "h ! 15 = take 12 (drop 4 h) ! 11" using length_msg_header [of msg type] by (simp add: h_def HEADER_LENGTH_def)
  then show "h ! 15 = 0" unfolding d4 using assms(1) by (simp add: nth_append)
  have d: "drop 16 h = UInt32SetLE (word_of_nat (length msg)) @ take 4 (BRSHA256_2 msg)"
    using l by (simp add: h len_simps)
  have "length msg < 2 ^ 32" using assms(3) by (simp add: MAX_MSG_LENGTH_def)
  then show "unat (UInt32GetLE (drop 16 h)) = length msg"
    unfolding d UIntGetLE_append by (simp add: unsigned_of_nat take_bit_nat_eq_self)
  have "drop 20 h = drop 4 (drop 16 h)" by simp
  then have "drop 20 h = take 4 (BRSHA256_2 msg)" unfolding d by (simp add: len_simps)
  then show "UInt32GetLE (drop 20 h) = UInt32GetLE (BRSHA256_2 msg)" by (simp add: UInt32GetLE_def)
qed

lemma thread_loop_empty: "0 \<le> pc_socket ctx \<Longrightarrow> thread_loop E [] ctx header time = Blocked ctx"
  by (subst thread_loop.simps, simp only: thread_step_def, subst header_loop.simps) (simp add: HEADER_LENGTH_def)

text \<open>What the thread does with the messages that the stream holds.\<close>

fun delivered :: "(bool \<times> BRPeerContext) option \<Rightarrow> (int \<times> BRPeerContext) io" where
  "delivered None = Undefined"
| "delivered (Some (True, ctx)) = Blocked ctx"
| "delivered (Some (False, ctx)) = Ended (EPROTO, ctx)"

lemma thread_loop_item:
  assumes "calm T inp" "calm_peer T ctx" "bytes_in inp = stream ((g, type, msg) # items)"
    and "valid_item (g, type, msg)" "length header = HEADER_LENGTH"
  shows "\<exists>inp' header' t. calm T inp' \<and> bytes_in inp' = stream items \<and> length header' = HEADER_LENGTH \<and>
    thread_loop E inp ctx header time = (case BRPeerAcceptMessage E msg type ctx of
        None \<Rightarrow> Undefined
      | Some (r, ctx) \<Rightarrow> if r then thread_loop E inp' ctx header' t else Ended (EPROTO, ctx))"
proof -
  let ?h = "msg_header msg type"
  have b: "bytes_in inp = g @ ?h @ msg @ stream items" using assms(3) by simp
  have peer: "0 \<le> pc_socket ctx" "T \<le> pc_disconnectTime ctx" "T \<le> pc_mempoolTime ctx" using assms(2) by (simp_all add: calm_peer_def)
  obtain inp1 h t where h: "header_loop E inp ctx header 0 time = Ended (0, inp1, ctx, h, HEADER_LENGTH, t)"
    "h = ?h" "bytes_in inp1 = msg @ stream items" "calm T inp1"
    using header_loop_finds [OF assms(1) peer assms(5), of 0 "length g" E time] item_first_magic [OF assms(4), of "msg @ stream items"]
    by (auto simp: b length_msg_header)
  obtain inp2 t2 where p: "payload_loop inp1 ctx [] (length msg) t (t + MESSAGE_TIMEOUT) = Ended (0, inp2, msg, t2)"
    "bytes_in inp2 = stream items" "calm T inp2"
    using payload_loop_reads [OF h(4) peer(1), of "[]" "length msg" t "t + MESSAGE_TIMEOUT"] by (auto simp: h(3))
  have f: "h ! 15 = 0" "takeWhile (\<lambda>b. b \<noteq> 0) (take 12 (drop 4 h)) = type"
    "unat (UInt32GetLE (drop 16 h)) = length msg" "UInt32GetLE (drop 20 h) = UInt32GetLE (BRSHA256_2 msg)"
    "\<not> MAX_MSG_LENGTH < length msg"
    unfolding h(2) using assms(4) by (simp_all only: valid_item.simps msg_header_fields not_less simp_thms)
  have "thread_step E inp ctx header time = (case BRPeerAcceptMessage E msg type ctx of
        None \<Rightarrow> Undefined | Some (r, ctx) \<Rightarrow> Ended (if r then 0 else EPROTO, inp2, ctx, h, t2))"
    by (simp only: thread_step_def h(1) f p(1) Let_def io.case prod.case if_True if_False simp_thms)
  then have "thread_loop E inp ctx header time = (case BRPeerAcceptMessage E msg type ctx of
        None \<Rightarrow> Undefined
      | Some (r, ctx) \<Rightarrow> if r then thread_loop E inp2 ctx h t2 else Ended (EPROTO, ctx))"
    using peer(1) by (subst thread_loop.simps) (simp add: EPROTO_def split: option.split prod.split)
  moreover have "length h = HEADER_LENGTH" unfolding h(2) by (rule length_msg_header)
  ultimately show ?thesis using p(2,3) by blast
qed

lemma thread_loop_delivers:
  assumes "calm T inp" "calm_run E T (map snd items) ctx" "bytes_in inp = stream items" "\<forall>i\<in>set items. valid_item i"
    and "length header = HEADER_LENGTH"
  shows "thread_loop E inp ctx header time = delivered (accept_all E (map snd items) ctx)"
  using assms
proof (induction items arbitrary: inp ctx header time)
  case Nil
  then have "inp = []" using calm_empty by simp
  then show ?case using Nil.prems(2) by (simp add: thread_loop_empty calm_peer_def)
next
  case (Cons i items)
  obtain g type msg where i: "i = (g, type, msg)" by (cases i)
  have peer: "calm_peer T ctx" using calm_run_peer [OF Cons.prems(2)] .
  obtain inp' header' t where l: "calm T inp'" "bytes_in inp' = stream items" "length header' = HEADER_LENGTH"
    "thread_loop E inp ctx header time = (case BRPeerAcceptMessage E msg type ctx of
        None \<Rightarrow> Undefined
      | Some (r, ctx) \<Rightarrow> if r then thread_loop E inp' ctx header' t else Ended (EPROTO, ctx))"
    using thread_loop_item [OF Cons.prems(1) peer, of g type msg items header E time] Cons.prems(3-5) i by auto
  show ?case
  proof (cases "BRPeerAcceptMessage E msg type ctx")
    case (Some rc)
    then show ?thesis using Cons.IH [OF l(1) _ l(2) _ l(3)] Cons.prems(2,4)
      by (cases rc) (auto simp: l(4) i)
  qed (simp add: l(4) i)
qed

text \<open>C13: the thread of a peer. While bytes arrive in time and the handlers leave the connection open, what reaches the
  handlers depends on the bytes alone and not on how \<open>read\<close> splits them: the messages of the network arrive in order,
  complete and with the type that was sent, the bytes between them in which the magic number does not occur are
  skipped, a handler that refuses a message ends the loop with \<open>EPROTO\<close>, and after the last message the thread waits.\<close>

theorem peer_stream:
  assumes "calm T inp" "bytes_in inp = stream items" "\<forall>i\<in>set items. valid_item i"
    and "calm_run E T (map snd items) ctx" "length header = HEADER_LENGTH"
  shows "thread_loop E inp ctx header time = delivered (accept_all E (map snd items) ctx)"
  by (rule thread_loop_delivers [OF assms(1,4,2,3,5)])

theorem peer_stream_witness:
  "\<exists>ctx. thread_loop demo_env [(Data [7], 1), (Data (8 # msg_header (UInt64SetLE 1000) MSG_FEEFILTER @ [232]), 2),
      (Data [3, 0, 0, 0, 0, 0, 0], 3)] (demo_peer\<lparr>pc_socket := 5\<rparr>) (replicate HEADER_LENGTH 0) 0 = Blocked ctx \<and>
    pc_feePerKb ctx = 1000"
proof -
  let ?msg = "UInt64SetLE 1000" and ?peer = "demo_peer\<lparr>pc_socket := 5\<rparr>"
  let ?inp = "[(Data [7], 1), (Data (8 # msg_header ?msg MSG_FEEFILTER @ [232]), 2), (Data [3, 0, 0, 0, 0, 0, 0], 3)]"
  let ?items = "[([7, 8], MSG_FEEFILTER, ?msg)]"
  have m: "UInt32SetLE MAGIC_NUMBER = [251, 192, 182, 219]" by code_simp
  have msg: "?msg = [232, 3, 0, 0, 0, 0, 0, 0]" by code_simp
  let ?ctx = "notify demo_env CbSetFeePerKb (SetFeePerKb 1000) (?peer\<lparr>pc_feePerKb := 1000\<rparr>)"
  have accept: "BRPeerAcceptMessage demo_env ?msg MSG_FEEFILTER ?peer = Some (True, ?ctx)"
    using UIntGetLE_append(3) [of 1000 "[]"]
    by (simp add: BRPeerAcceptMessage_def AcceptFeeFilterMessage_def get_at_def demo_peer_def demo_env_def BRPeerConnect_def
        BRPeerSetCallbacks_def BRPeerNew_def Let_def MSG_VERSION_def MSG_VERACK_def MSG_ADDR_def MSG_INV_def MSG_GETDATA_def MSG_NOTFOUND_def MSG_GETBLOCKS_def MSG_GETHEADERS_def MSG_TX_def MSG_HEADERS_def MSG_GETADDR_def MSG_MEMPOOL_def MSG_PING_def MSG_PONG_def MSG_FILTERLOAD_def MSG_MERKLEBLOCK_def MSG_REJECT_def MSG_FEEFILTER_def )
  have calm: "calm 10 ?inp" by (simp add: calm_def read_error_def read_bytes_def)
  have bytes: "bytes_in ?inp = stream ?items" by (simp add: bytes_in_def read_bytes_def) (simp add: msg)
  have valid: "\<forall>i\<in>set ?items. valid_item i"
    by (simp add: m magic_at_def less_Suc_eq MSG_FEEFILTER_def MAX_MSG_LENGTH_def)
  have run: "calm_run demo_env 10 (map snd ?items) ?peer"
    by (simp add: accept) (simp add: calm_peer_def demo_peer_def demo_env_def notify_def call_def event_def
        BRPeerConnect_def BRPeerSetCallbacks_def BRPeerNew_def BRPeerSetNeedsFilterUpdate_def Let_def DBL_MAX_def CONNECT_TIMEOUT_def)
  have fee: "pc_feePerKb ?ctx = 1000"
    by (simp add: notify_def call_def event_def demo_env_def BRPeerSetNeedsFilterUpdate_def)
  show ?thesis
    using peer_stream [OF calm bytes valid run, of "replicate HEADER_LENGTH 0" 0] accept fee by auto
qed

end
