(* ===== verification/PeerManager.thy ===== *)
theory PeerManager
  imports PeerLoop WalletOps Bloom
begin

text \<open>
  \<^verbatim>\<open>Libraries/loafwallet-core/BRPeerManager.c\<close>, first part: the state of the peer manager and the chain of blocks. The
  manager owns the peers, the bloom filter and the known blocks, and hands the wallet what the peers relay.
  \<^item> Blocks are shared: the same object is in \<open>blocks\<close>, \<open>orphans\<close> or \<open>checkpoints\<close> and pointed to by \<open>lastBlock\<close>
    and \<open>lastOrphan\<close>. So the manager has a store \<open>pm_heap\<close> from addresses to blocks; freeing a block removes it, and
    the dereference of a freed block or of \<open>NULL\<close> is \<open>None\<close>. The hash sets are maps from the key of an element to
    its address.
  \<^item> A peer is an address; its connection (\<open>Peer\<close>) is \<open>pm_ctx\<close>, and the operations of \<^verbatim>\<open>BRPeer.c\<close> are applied to it.
    The completion callbacks given to a peer are numbered below; their \<open>info\<close> is the address of the peer.
  \<^item> The callbacks of the application are a list of events. The lock, the log, and doubles as opposed to real
    numbers, are left out; the two floating-point expressions of a new bloom filter are an environment.
\<close>

section \<open>Data\<close>

definition PROTOCOL_TIMEOUT :: real where "PROTOCOL_TIMEOUT = 20"
definition MAX_CONNECT_FAILURES :: nat where "MAX_CONNECT_FAILURES = 20"
definition PEER_FLAG_SYNCED :: u8 where "PEER_FLAG_SYNCED = 0x01"
definition PEER_FLAG_NEEDSUPDATE :: u8 where "PEER_FLAG_NEEDSUPDATE = 0x02"
definition PEER_MAX_CONNECTIONS :: nat where "PEER_MAX_CONNECTIONS = 3"
definition BLOOM_DEFAULT_FALSEPOSITIVE_RATE :: real where "BLOOM_DEFAULT_FALSEPOSITIVE_RATE = 5 / 10000"
definition BLOOM_REDUCED_FALSEPOSITIVE_RATE :: real where "BLOOM_REDUCED_FALSEPOSITIVE_RATE = 5 / 100000"
definition BLOOM_UPDATE_ALL :: u8 where "BLOOM_UPDATE_ALL = 1"

definition checkpoint_array :: "(u32 \<times> string \<times> u32 \<times> u32) list" where
  "checkpoint_array =
    [(0, ''12a765e31ffd4059bada1e25190f6e98c99d9714d334efa41a195a7e7e04bfe2'', 1317972665, 0x1e0ffff0),
     (20160, ''633036c8df655531c2449b2d09b264cc0b49d945a89be23fd3c1a97361ca198c'', 1319798300, 0x1d055262),
     (40320, ''d148cdd2cf44069cef4b63f0feaf30a8d291ca9ea9ba7e83f226b9738c1d5e9c'', 1322522019, 0x1d018053),
     (60480, ''3250f0a560d55f039c34bfaee1b71297aa5104ac6641778f9a87d73232d12c6c'', 1325540574, 0x1d00e848),
     (80640, ''bedc0a090b740b1902d870aeb6caa89040a24e7d670d46f8ef035fd9d2e9ce80'', 1328779944, 0x1d00ab92),
     (100800, ''7b0b620d15f781faaaa73b43607a49d5becb2b803ef19b4010014646cc177a61'', 1331873688, 0x1d00ae9f),
     (120960, ''dbd6249f30e5690890bc03dabcc0a526c46adcde572be06af4075b6ea28aa251'', 1334881566, 0x1d009e48),
     (141120, ''5d5e15a45cecf2b9528e36e63c407167423a2f9963a96bbce3b67b75fd10be2a'', 1338009318, 0x1d00d6a6),
     (161280, ''f595c754d0abcfe3616573bfabee01b230ec0ea6b2f2894c40214ea23d772b6c'', 1340918301, 0x1d008881),
     (181440, ''d7fa3152959f3c25e33edf825f7cbef75ee651d5f9183cc4ed8d19d57b8f35a4'', 1343534530, 0x1c1cd430),
     (201600, ''d481df8e8ce144fca9ae6b3157cc706e903c6ea161a13d2c421270354a02d6d0'', 1346567025, 0x1c1c89e8),
     (221760, ''88cf3446129161a633050244f112e3041a2d53152ee9293984b20f468fbadb8a'', 1349481542, 0x1c135d42),
     (241920, ''8619aa9c734b517bd3a707278ee3632c96570f3e1fd804194bdfc0b02d1b6c4e'', 1352384870, 0x1c0b39e8),
     (262080, ''13a5d47f01fe3ab17ebf2b15b605efa41efe06b02bb685bc2ad4cec22af0b478'', 1355560195, 0x1c0a01e5),
     (282240, ''8932095fba44bd6860fd71745c0dca908769221a47166ab1fb442b6cefcd53fb'', 1358801720, 0x1c0ced21),
     (302400, ''e798d897a837bf4989d329266128754ec1cbeff1eb0c0afd67f71d2b7c44bdaa'', 1361913149, 0x1c102ea7),
     (322560, ''3e5857760633de4604d388fed7126a22ba840ea320c8cde6a84df981bc8b751d'', 1364498291, 0x1c02a944),
     (342720, ''33f62e026a202be550e8a9df37d638d38991553544e279cb264123378bf46042'', 1367113967, 0x1c0095a5),
     (362880, ''77a4b194e8c7f6600ed622b8f60cb9d96eeb0a0b837201e605de14016edfda39'', 1370052623, 0x1b6929f2),
     (383040, ''5c0a443361c1356796a7db472c69433b6ce6108d61e4403fd9a9d91e01009ce3'', 1372971948, 0x1b481262),
     (403200, ''ef78aa1925cc51ff8dc3a1e59f389c89845fb8b9e566348222e663e963e67640'', 1376014028, 0x1b4b858d),
     (423360, ''7b23f9447b8078c8fc0e832e4b56f1d2afa758382e254593b6b72a8fc6020150'', 1379024440, 0x1b438e6a),
     (443520, ''37d668803ed1efc24ffab4a2a90da9ac92679acf68370d7570f042c2bd6d651b'', 1382034998, 0x1b3f864f),
     (463680, ''260c78e92a390b9eb4d8f5d9324a33d0222943f119b324de53452d48bd7bd7f4'', 1384968613, 0x1b2ddc00),
     (483840, ''759de6c4e6161fc8c996cf0d5e012ee0afc52a037e657dd54e85da9a9f803633'', 1387792541, 0x1b167254),
     (504000, ''97db0624d3d5137bc085f0d731607314972bb4124b85b73420ef9aa5fc10d640'', 1390892377, 0x1b1aa868),
     (524160, ''1d033d3abedb7faa15dad1bbe9c7fc7151746537cf091584be567d321e7c5cd0'', 1393845878, 0x1b120577),
     (544320, ''95ae252971d1ec9deeed1ed19fe9537e04348a82839a9e2bf8856faaa03e324e'', 1396719779, 0x1b0a9622),
     (564480, ''c876276bf12754c2b265787d9e7ab83d429e59761dc63057f728529018db7834'', 1399724592, 0x1b099dce),
     (584640, ''df5454af79491c392fe740b5efd47afbe1cb53cd8d86be3ab9c97fdd2786d237'', 1402630524, 0x1b065b94),
     (604800, ''43c1a80b8abaf57817e5daea9cfdde99ea5f324705779045792ccad52d54f3d4'', 1405459509, 0x1b033d34),
     (624960, ''ccac71fafe98107b81ac3e0eed41190e4d47600962c93c49db8843b53f760bda'', 1408389228, 0x1b02552d),
     (645120, ''9b7ddc3753c5138fc471accd15f9730020e828bc69058f2e382549c7c0ffba0f'', 1411376787, 0x1b020a10),
     (665280, ''163c902de2306f22922754f83edacc97a87617d1e3413af7c9808e702bf1a383'', 1414354222, 0x1b01bce9),
     (685440, ''29d2328990dda4c4870846d4e3d573785452bed68e6013930a83fc8d5fe89b09'', 1417289378, 0x1b01473b),
     (705600, ''e350118d9047c1ca5f047a1b1ee400562fb0cfb8b3c8032b56b8545b456a03ab'', 1420305710, 0x1b01399e),
     (725760, ''6b2ac7ffb71fc5056c00fee8404813d7ea98e5f303a5ddb26c09fb397b51b7e7'', 1423407371, 0x1b01905e),
     (745920, ''04809a35ff6e5054e21d14582072605b812b7d4ae11d3450e7c03a7237e1d35d'', 1426441593, 0x1b019b8c),
     (766080, ''ba9e143a958c917753785f11c143ca62f928748c33888278fcaea96f054f15d2'', 1429473619, 0x1b019e8f),
     (786240, ''d1b9fa6999f7a09d1dc52511750e47d263aaa7ea4a262762fff8665890d631a5'', 1432507384, 0x1b01a8ec),
     (806400, ''e2363e8b3e8f237b9b1bfc1c72ede80fef2c7bd1aabcd78afed82065a194b960'', 1435516150, 0x1b019268),
     (826560, ''e12ce49268950a38fd7f0bab0d2a5edd9799201c1f3e9441a7602428556c839d'', 1438510426, 0x1b016999),
     (846720, ''6f5d94d7cfd01f1dbf4aa631b987f8e2ec9d0c57720604787b816bafe34192a8'', 1441561050, 0x1b0187a3),
     (866880, ''72a9f3d3710fc6c96f87dd8fca0e033a1a89f69a4c2fd8944fd1d50e6772021e'', 1444547836, 0x1b0157fd),
     (887040, ''089c03de0c0dd0dffaa044fd5a3b51679be2ae34b048a8d6bcc39aab664c156a'', 1447578790, 0x1b015f6a),
     (889056, ''910af99e39a6f9436bf4710a09ee19483e9b9b3f131dc9bef37dbe5eac72031f'', 1447887833, 0x1b016720),
     (901152, ''cfccdf8e3830ae4879e910051ac3dc583b4fb45b83be3a38019e5d9326dfa223'', 1449698771, 0x1b015b0e),
     (913248, ''9784249cbeccd4df8d7701287da3002a6de4a56618248f84f37187dbf4ec6efc'', 1451495881, 0x1b014465),
     (921312, ''ab2357460c0a20caebfab76a7939c4e64a5068eddce4fbec749089be2e88e702'', 1452685882, 0x1b012ee0),
     (933408, ''f9f3fbcbb1fa40d0f9a1724085ac7cadaa414edd97c436571d06b3b5f3b46956'', 1454513411, 0x1b01386f),
     (941472, ''4fddb941d414f071c29f100da2a160cf527397fc9a7a9c9d0a849b6f67799042'', 1455719547, 0x1b0133ec),
     (953568, ''e46e01cf1239cffa69408ac162d517bac5a4899972e0328fd0ba4d93e8ad3764'', 1457542869, 0x1b013c91),
     (961632, ''bfc01091cb21ea81dd079fcee6cf7910087281bfdbcb1ad9e5dbc226b5f45a86'', 1458730622, 0x1b012535),
     (973728, ''6316b454ead6c97be48c98979ec9ebb49763c21d436f47ff6918f02a58b46cec'', 1460575822, 0x1b014319),
     (981792, ''155bc8fb717564bd2dd600cedcb39d8a7a64070e3bc1b90e7be62168e7b35c82'', 1461788191, 0x1b01436f),
     (993888, ''1d80e7793bd9e16e0ce84d93b105d6732ed63e1a6fe491c1b7ea310e75eb504e'', 1463613744, 0x1b014cbd),
     (1001952, ''eccbede26ac99ea996377972d5bd05b9306bcc6ac1f4071f1587e3094a704dff'', 1464900396, 0x1b01a29e),
     (1058400, ''76ce37c66d449a4ffbfc35674cf932da701066a001dc223754f9250dd2bdbc62'', 1473296285, 0x1b013ca7),
     (1260000, ''85a22b528d805bf7a641d1d7c6d96ef5054beda3dcab6be7b83f2e3df24b33a8'', 1502976600, 0x1a25a0d3),
     (1411200, ''92c85b76f3d4bffca76b23717e4eb1b667c77c96fd52d4dd5dd843bbee64cd73'', 1524838967, 0x1a0203a7)]"

definition checkpoint_hash :: "string \<Rightarrow> UInt256" where
  "checkpoint_hash s = UInt256Reverse (u256_hex_decode (map of_char s))"

definition GENESIS_BLOCK_HASH :: UInt256 where
  "GENESIS_BLOCK_HASH = checkpoint_hash (fst (snd (checkpoint_array ! 0)))"

type_synonym block_ptr = nat
type_synonym peer_ptr = nat
type_synonym BRTxPeerList = "(UInt256 \<times> BRPeer list) list"

record BRPublishedTx =
  pub_tx :: BRTransaction
  pub_info :: nat
  pub_callback :: "nat option"

datatype manager_callback = CbSyncStarted | CbSyncStopped | CbTxStatusUpdate | CbSaveBlocks | CbSavePeers

datatype manager_output =
    SyncStarted
  | SyncStopped int
  | TxStatusUpdate
  | SaveBlocks bool "BRMerkleBlock list"
  | SavePeers bool "BRPeer list"
  | TxPublished nat nat int

record BRPeerManager =
  pm_wallet :: BRWallet
  pm_isConnected :: bool
  pm_connectFailureCount :: nat
  pm_misbehavinCount :: nat
  pm_maxConnectCount :: nat
  pm_peers :: "BRPeer list"
  pm_downloadPeer :: "peer_ptr option"
  pm_fixedPeer :: BRPeer
  pm_connectedPeers :: "peer_ptr list"
  pm_earliestKeyTime :: u32
  pm_syncStartHeight :: u32
  pm_filterUpdateHeight :: u32
  pm_estimatedHeight :: u32
  pm_bloomFilter :: "BRBloomFilter option"
  pm_fpRate :: real
  pm_averageTxPerBlock :: real
  pm_blocks :: "UInt256 \<rightharpoonup> block_ptr"
  pm_orphans :: "UInt256 \<rightharpoonup> block_ptr"
  pm_checkpoints :: "u32 \<rightharpoonup> block_ptr"
  pm_lastBlock :: block_ptr
  pm_lastOrphan :: "block_ptr option"
  pm_txRelays :: BRTxPeerList
  pm_txRequests :: BRTxPeerList
  pm_publishedTx :: "BRPublishedTx list"
  pm_publishedTxHashes :: "UInt256 list"
  pm_callbacks :: "manager_callback set"
  pm_events :: "manager_output list"
  pm_ctx :: "peer_ptr \<Rightarrow> BRPeerContext"
  pm_heap :: "block_ptr \<rightharpoonup> BRMerkleBlock"
  pm_next :: block_ptr

text \<open>\<open>me_time\<close> is \<open>time(NULL)\<close>; \<open>me_bloomLength\<close> and \<open>me_bloomFuncs\<close> are the results of \<open>BRBloomFilterNew\<close>'s
  floating-point expressions for a rate and a number of elements.\<close>

record 'k manager_env =
  me_peer :: peer_env
  me_wallet :: "'k wallet_env"
  me_time :: int
  me_bloomLength :: "real \<Rightarrow> nat \<Rightarrow> nat"
  me_bloomFuncs :: "real \<Rightarrow> nat \<Rightarrow> nat \<Rightarrow> u32"

definition manager_event :: "manager_callback \<Rightarrow> manager_output \<Rightarrow> BRPeerManager \<Rightarrow> BRPeerManager" where
  "manager_event cb e pm = (if cb \<in> pm_callbacks pm then pm\<lparr>pm_events := pm_events pm @ [e]\<rparr> else pm)"

definition on_peer :: "peer_ptr \<Rightarrow> (BRPeerContext \<Rightarrow> BRPeerContext) \<Rightarrow> BRPeerManager \<Rightarrow> BRPeerManager" where
  "on_peer p f pm = pm\<lparr>pm_ctx := (pm_ctx pm)(p := f (pm_ctx pm p))\<rparr>"

text \<open>The peers' callbacks of the code.\<close>

definition updateFilterRerequestDone_cb :: nat where "updateFilterRerequestDone_cb = 1"
definition updateFilterLoadDone_cb :: nat where "updateFilterLoadDone_cb = 2"
definition updateFilterPingDone_cb :: nat where "updateFilterPingDone_cb = 3"
definition requestUnrelayedTxGetdataDone_cb :: nat where "requestUnrelayedTxGetdataDone_cb = 4"
definition mempoolDone_cb :: nat where "mempoolDone_cb = 5"
definition loadBloomFilterDone_cb :: nat where "loadBloomFilterDone_cb = 6"
definition publishTxInvDone_cb :: nat where "publishTxInvDone_cb = 7"

section \<open>Which peer has which transaction\<close>

definition BRPeerEq :: "'a BRPeer_scheme \<Rightarrow> 'b BRPeer_scheme \<Rightarrow> bool" where
  "BRPeerEq peer otherPeer \<longleftrightarrow> pr_address peer = pr_address otherPeer \<and> pr_port peer = pr_port otherPeer"

text \<open>The loops run from the end of the list; at most one entry of \<open>list\<close> is looked at.\<close>

fun last_entry :: "BRTxPeerList \<Rightarrow> UInt256 \<Rightarrow> nat \<Rightarrow> nat option" where
  "last_entry list txHash 0 = None"
| "last_entry list txHash (Suc i) = (if \<not> UInt256Eq (fst (list ! i)) txHash then last_entry list txHash i else Some i)"

fun last_peer :: "BRPeer list \<Rightarrow> 'a BRPeer_scheme \<Rightarrow> nat \<Rightarrow> nat option" where
  "last_peer peers peer 0 = None"
| "last_peer peers peer (Suc j) = (if \<not> BRPeerEq (peers ! j) peer then last_peer peers peer j else Some j)"

definition BRTxPeerListHasPeer :: "BRTxPeerList \<Rightarrow> UInt256 \<Rightarrow> 'a BRPeer_scheme \<Rightarrow> bool" where
  "BRTxPeerListHasPeer list txHash peer =
     (case last_entry list txHash (length list) of
        None \<Rightarrow> False
      | Some i \<Rightarrow> last_peer (snd (list ! i)) peer (length (snd (list ! i))) \<noteq> None)"

definition BRTxPeerListCount :: "BRTxPeerList \<Rightarrow> UInt256 \<Rightarrow> nat" where
  "BRTxPeerListCount list txHash =
     (case last_entry list txHash (length list) of None \<Rightarrow> 0 | Some i \<Rightarrow> length (snd (list ! i)))"

definition BRTxPeerListAddPeer :: "BRTxPeerList \<Rightarrow> UInt256 \<Rightarrow> 'a BRPeer_scheme \<Rightarrow> BRTxPeerList \<times> nat" where
  "BRTxPeerListAddPeer list txHash peer =
     (case last_entry list txHash (length list) of
        None \<Rightarrow> (list @ [(txHash, [BRPeer.truncate peer])], 1)
      | Some i \<Rightarrow>
          let (h, peers) = list ! i in
          if last_peer peers peer (length peers) \<noteq> None then (list, length peers)
          else (list[i := (h, peers @ [BRPeer.truncate peer])], length peers + 1))"

definition BRTxPeerListRemovePeer :: "BRTxPeerList \<Rightarrow> UInt256 \<Rightarrow> 'a BRPeer_scheme \<Rightarrow> BRTxPeerList \<times> bool" where
  "BRTxPeerListRemovePeer list txHash peer =
     (case last_entry list txHash (length list) of
        None \<Rightarrow> (list, False)
      | Some i \<Rightarrow>
          let (h, peers) = list ! i in
          (case last_peer peers peer (length peers) of
             None \<Rightarrow> (list, False)
           | Some j \<Rightarrow> (list[i := (h, rm_at peers j)], True)))"

section \<open>Peers and the synchronization\<close>

definition BRPeerManagerPeerMisbehavin :: "peer_ptr \<Rightarrow> BRPeerManager \<Rightarrow> BRPeerManager" where
  "BRPeerManagerPeerMisbehavin p pm =
     (let pm = pm\<lparr>pm_peers := filter (\<lambda>q. \<not> BRPeerEq q (pm_ctx pm p)) (pm_peers pm),
            pm_misbehavinCount := pm_misbehavinCount pm + 1\<rparr>;
          pm = (if pm_misbehavinCount pm \<ge> 10 then pm\<lparr>pm_misbehavinCount := 0, pm_peers := []\<rparr> else pm)
      in on_peer p BRPeerDisconnect pm)"

definition pending_callback :: "BRPeerManager \<Rightarrow> bool" where
  "pending_callback pm \<longleftrightarrow> list_ex (\<lambda>t. pub_callback t \<noteq> None) (pm_publishedTx pm)"

definition BRPeerManagerSyncStopped :: "'k manager_env \<Rightarrow> BRPeerManager \<Rightarrow> BRPeerManager" where
  "BRPeerManagerSyncStopped E pm =
     (let pm = pm\<lparr>pm_syncStartHeight := 0\<rparr> in
      case pm_downloadPeer pm of
        None \<Rightarrow> pm
      | Some p \<Rightarrow> if pending_callback pm then pm
          else on_peer p (\<lambda>ctx. BRPeerScheduleDisconnect (me_peer E) ctx (-1)) pm)"

section \<open>The chain\<close>

text \<open>\<open>BRSetGet(manager->blocks, &block->prevBlock)\<close>\<close>

definition prev_of :: "BRPeerManager \<Rightarrow> block_ptr \<Rightarrow> block_ptr option option" where
  "prev_of pm p = do { b \<leftarrow> pm_heap pm p; Some (pm_blocks pm (mb_prevBlock b)) }"

fun step_back :: "BRPeerManager \<Rightarrow> nat \<Rightarrow> block_ptr option \<Rightarrow> block_ptr option option" where
  "step_back pm 0 b = Some b"
| "step_back pm (Suc n) None = Some None"
| "step_back pm (Suc n) (Some p) = do { q \<leftarrow> prev_of pm p; step_back pm n q }"

text \<open>The hashes in order; \<open>step\<close> is an \<open>int32_t\<close>, whose overflow is undefined.\<close>

partial_function (option) locator_loop ::
    "BRPeerManager \<Rightarrow> int \<Rightarrow> block_ptr option \<Rightarrow> UInt256 list \<Rightarrow> UInt256 list option" where
  "locator_loop pm step block acc =
     (case block of
        None \<Rightarrow> Some acc
      | Some p \<Rightarrow> do {
          b \<leftarrow> pm_heap pm p;
          if mb_height b > 0
          then do {
            let acc = acc @ [mb_blockHash b];
            let step = (if length acc \<ge> 10 then step * 2 else step);
            if step \<ge> 2 ^ 31 then None
            else do { block \<leftarrow> step_back pm (nat step) block; locator_loop pm step block acc }
          }
          else Some acc
        })"

definition BRPeerManagerBlockLocators :: "BRPeerManager \<Rightarrow> nat option \<Rightarrow> (nat \<times> UInt256 list) option" where
  "BRPeerManagerBlockLocators pm locatorsCount = do {
     hashes \<leftarrow> locator_loop pm 1 (Some (pm_lastBlock pm)) [];
     let hashes = hashes @ [GENESIS_BLOCK_HASH];
     Some (length hashes, case locatorsCount of None \<Rightarrow> [] | Some n \<Rightarrow> take n hashes)
   }"

definition locators :: "BRPeerManager \<Rightarrow> UInt256 list option" where
  "locators pm = do {
     (n, _) \<leftarrow> BRPeerManagerBlockLocators pm None;
     (count, hashes) \<leftarrow> BRPeerManagerBlockLocators pm (Some n);
     Some (take count hashes)
   }"

definition alloc_block :: "BRMerkleBlock \<Rightarrow> BRPeerManager \<Rightarrow> block_ptr \<times> BRPeerManager" where
  "alloc_block b pm = (pm_next pm, pm\<lparr>pm_heap := (pm_heap pm)(pm_next pm \<mapsto> b), pm_next := pm_next pm + 1\<rparr>)"

definition free_block :: "block_ptr \<Rightarrow> BRPeerManager \<Rightarrow> BRPeerManager option" where
  "free_block p pm = (if pm_heap pm p = None then None else Some (pm\<lparr>pm_heap := (pm_heap pm)(p := None)\<rparr>))"

text \<open>\<open>while (b)\<close>: free the blocks that are no transitions, until one is missing.\<close>

partial_function (option) free_older :: "UInt256 \<Rightarrow> BRPeerManager \<Rightarrow> BRPeerManager option" where
  "free_older prevBlock pm =
     (case pm_blocks pm prevBlock of
        None \<Rightarrow> Some pm
      | Some p \<Rightarrow> do {
          b \<leftarrow> pm_heap pm p;
          pm \<leftarrow> (if mb_height b mod BLOCK_DIFFICULTY_INTERVAL \<noteq> 0
                then free_block p (pm\<lparr>pm_blocks := (pm_blocks pm)(mb_blockHash b := None)\<rparr>)
                else Some pm);
          free_older (mb_prevBlock b) pm
        })"

definition BRPeerManagerVerifyBlock ::
    "block_ptr \<Rightarrow> block_ptr \<Rightarrow> BRPeerManager \<Rightarrow> (bool \<times> BRPeerManager) option" where
  "BRPeerManagerVerifyBlock p prev pm = do {
     block \<leftarrow> pm_heap pm p;
     (r, transitionTime, pm) \<leftarrow>
       (if mb_height block mod BLOCK_DIFFICULTY_INTERVAL = 0
        then do {
          b \<leftarrow> step_back pm (unat BLOCK_DIFFICULTY_INTERVAL) (Some p);
          case b of
            None \<Rightarrow> Some (False, 0, pm)
          | Some q \<Rightarrow> do {
              b \<leftarrow> pm_heap pm q;
              pm \<leftarrow> free_older (mb_prevBlock b) pm;
              Some (True, mb_timestamp b, pm)
            }
        }
        else Some (True, 0, pm));
     prevBlock \<leftarrow> (if r then map_option Some (pm_heap pm prev) else Some None);
     let r = (r \<and> BRMerkleBlockVerifyDifficulty block prevBlock transitionTime);
     if \<not> r then Some (False, pm)
     else (case pm_checkpoints pm (mb_height block) of
        None \<Rightarrow> Some (True, pm)
      | Some c \<Rightarrow> do { checkpoint \<leftarrow> pm_heap pm c; Some (BRMerkleBlockEq block checkpoint, pm) })
   }"

section \<open>The bloom filter\<close>

definition BRPeerHash :: "'a BRPeer_scheme \<Rightarrow> u32" where
  "BRPeerHash peer = ((0x811C9dc5 XOR ucast (drop_bit 96 (pr_address peer))) * 0x01000193 XOR ucast (pr_port peer)) * 0x01000193"

definition insert_new :: "u8 list \<Rightarrow> BRBloomFilter \<Rightarrow> BRBloomFilter option" where
  "insert_new data f = do {
     c \<leftarrow> BRBloomFilterContainsData f (Some data);
     if c then Some f else BRBloomFilterInsertData f (Some data)
   }"

definition filter_address :: "u8 list \<Rightarrow> BRBloomFilter \<Rightarrow> BRBloomFilter option" where
  "filter_address addr f =
     (let hash = (case BRAddressHash160 addr of Some h \<Rightarrow> h | None \<Rightarrow> replicate 20 0) in
      if hash \<noteq> replicate 20 0 then insert_new hash f else Some f)"

definition outpoint :: "BRUTXO \<Rightarrow> u8 list" where
  "outpoint u = UInt256Set (utxo_hash u) @ UInt32SetLE (utxo_n u)"

definition filter_input :: "BRWallet \<Rightarrow> BRTxInput \<Rightarrow> BRBloomFilter \<Rightarrow> BRBloomFilter option" where
  "filter_input w input f = do {
     tx \<leftarrow> BRWalletTransactionForHash w (in_txHash input);
     case tx of
       None \<Rightarrow> Some f
     | Some t \<Rightarrow>
         if unat (in_index input) < length (tx_outputs t) \<and>
            BRWalletContainsAddress w (out_address (tx_outputs t ! unat (in_index input)))
         then insert_new (outpoint (utxo_of input)) f else Some f
   }"

definition filter_tx :: "BRWallet \<Rightarrow> UInt256 \<Rightarrow> BRBloomFilter \<Rightarrow> BRBloomFilter option" where
  "filter_tx w txHash f = do { tx \<leftarrow> wl_allTx w txHash; fold_opt (filter_input w) (tx_inputs tx) f }"

text \<open>\<open>BRSetApply(manager->orphans, NULL, _setApplyFreeBlock)\<close>\<close>

definition free_orphans :: "BRPeerManager \<Rightarrow> BRPeerManager option" where
  "free_orphans pm =
     (if ran (pm_orphans pm) \<subseteq> dom (pm_heap pm)
      then Some (pm\<lparr>pm_heap := (\<lambda>p. if p \<in> ran (pm_orphans pm) then None else pm_heap pm p)\<rparr>) else None)"

definition wallet_filter :: "'k manager_env \<Rightarrow> real \<Rightarrow> u32 \<Rightarrow> u32 \<Rightarrow> BRWallet \<Rightarrow> BRBloomFilter option" where
  "wallet_filter E rate lastHeight tweak w = do {
     let addrs = snd (BRWalletAllAddrs w (Some (fst (BRWalletAllAddrs w None))));
     let utxos = snd (BRWalletUTXOs w (Some (fst (BRWalletUTXOs w None))));
     let blockHeight = (if lastHeight > 100 then lastHeight - 100 else 0);
     (n, _) \<leftarrow> BRWalletTxUnconfirmedBefore w None blockHeight;
     (_, txs) \<leftarrow> BRWalletTxUnconfirmedBefore w (Some n) blockHeight;
     let count = length addrs + length utxos + length txs + 100;
     let f = BRBloomFilterNew (me_bloomLength E rate count) (me_bloomFuncs E rate count) tweak BLOOM_UPDATE_ALL;
     f \<leftarrow> fold_opt filter_address addrs f;
     f \<leftarrow> fold_opt (\<lambda>u. insert_new (outpoint u)) utxos f;
     fold_opt (filter_tx w) txs f
   }"

definition BRPeerManagerLoadBloomFilter :: "'k manager_env \<Rightarrow> peer_ptr \<Rightarrow> BRPeerManager \<Rightarrow> BRPeerManager option" where
  "BRPeerManagerLoadBloomFilter E p pm = do {
     (_, w) \<leftarrow> BRWalletUnusedAddrs (me_wallet E) (pm_wallet pm) False (SEQUENCE_GAP_LIMIT_EXTERNAL + 100) False;
     (_, w) \<leftarrow> BRWalletUnusedAddrs (me_wallet E) w False (SEQUENCE_GAP_LIMIT_INTERNAL + 100) True;
     pm \<leftarrow> free_orphans (pm\<lparr>pm_wallet := w\<rparr>);
     lastBlock \<leftarrow> pm_heap pm (pm_lastBlock pm);
     let pm = pm\<lparr>pm_orphans := (\<lambda>h. None), pm_lastOrphan := None, pm_filterUpdateHeight := mb_height lastBlock,
           pm_fpRate := BLOOM_REDUCED_FALSEPOSITIVE_RATE\<rparr>;
     f \<leftarrow> wallet_filter E (pm_fpRate pm) (mb_height lastBlock) (BRPeerHash (pm_ctx pm p)) w;
     let data = (case BRBloomFilterSerialize f (Some (replicate (fst (BRBloomFilterSerialize f None)) 0)) of
        (len, buf) \<Rightarrow> take len (the buf));
     Some (on_peer p (BRPeerSendFilterload (me_peer E) data) (pm\<lparr>pm_bloomFilter := Some f\<rparr>))
   }"

definition BRPeerManagerUpdateFilter :: "'k manager_env \<Rightarrow> BRPeerManager \<Rightarrow> BRPeerManager" where
  "BRPeerManagerUpdateFilter E pm =
     (case pm_downloadPeer pm of
        None \<Rightarrow> pm
      | Some p \<Rightarrow>
          if pr_flags (pm_ctx pm p) AND PEER_FLAG_NEEDSUPDATE = 0
          then on_peer p (\<lambda>ctx. BRPeerSendPing (me_peer E) p (Some updateFilterPingDone_cb)
                 ((BRPeerSetNeedsFilterUpdate ctx True)\<lparr>pr_flags := pr_flags ctx OR PEER_FLAG_NEEDSUPDATE\<rparr>)) pm
          else pm)"

definition updateFilterRerequestDone :: "'k manager_env \<Rightarrow> peer_ptr \<Rightarrow> bool \<Rightarrow> BRPeerManager \<Rightarrow> BRPeerManager option" where
  "updateFilterRerequestDone E p success pm =
     (if success \<and> pr_flags (pm_ctx pm p) AND PEER_FLAG_NEEDSUPDATE = 0
      then do { hashes \<leftarrow> locators pm; Some (on_peer p (BRPeerSendGetblocks (me_peer E) hashes 0) pm) }
      else Some pm)"

definition updateFilterLoadDone :: "'k manager_env \<Rightarrow> peer_ptr \<Rightarrow> bool \<Rightarrow> BRPeerManager \<Rightarrow> BRPeerManager option" where
  "updateFilterLoadDone E p success pm =
     (if success
      then do {
        let pm = on_peer p (\<lambda>ctx. (BRPeerSetNeedsFilterUpdate ctx False)
              \<lparr>pr_flags := pr_flags ctx AND NOT PEER_FLAG_NEEDSUPDATE\<rparr>) pm;
        lastBlock \<leftarrow> pm_heap pm (pm_lastBlock pm);
        if mb_height lastBlock < pm_estimatedHeight pm
        then do {
          d \<leftarrow> pm_downloadPeer pm;
          Some (on_peer d (\<lambda>ctx. BRPeerSendPing (me_peer E) p (Some updateFilterRerequestDone_cb)
                 (BRPeerRerequestBlocks (me_peer E) (mb_blockHash lastBlock) ctx)) pm)
        }
        else Some (on_peer p (BRPeerSendMempool (me_peer E) [] 0 None) pm)
      }
      else Some pm)"

text \<open>The connected peers from the end of the list.\<close>

definition each_connected ::
    "(peer_ptr \<Rightarrow> BRPeerManager \<Rightarrow> BRPeerManager option) \<Rightarrow> BRPeerManager \<Rightarrow> BRPeerManager option" where
  "each_connected f pm =
     fold_opt (\<lambda>p pm. if BRPeerConnectStatus (pm_ctx pm p) = BRPeerStatusConnected then f p pm else Some pm)
       (rev (pm_connectedPeers pm)) pm"

definition updateFilterPingDone :: "'k manager_env \<Rightarrow> peer_ptr \<Rightarrow> bool \<Rightarrow> BRPeerManager \<Rightarrow> BRPeerManager option" where
  "updateFilterPingDone E p success pm =
     (if success
      then do {
        let pm = pm\<lparr>pm_bloomFilter := None\<rparr>;
        lastBlock \<leftarrow> pm_heap pm (pm_lastBlock pm);
        if mb_height lastBlock < pm_estimatedHeight pm
        then (case pm_downloadPeer pm of
            None \<Rightarrow> Some pm
          | Some d \<Rightarrow> do {
              pm \<leftarrow> BRPeerManagerLoadBloomFilter E d pm;
              Some (on_peer d (BRPeerSendPing (me_peer E) p (Some updateFilterLoadDone_cb)) pm)
            })
        else each_connected (\<lambda>q pm. do {
            pm \<leftarrow> BRPeerManagerLoadBloomFilter E q pm;
            Some (on_peer q (BRPeerSendPing (me_peer E) q (Some updateFilterLoadDone_cb)) pm)
          }) pm
      }
      else Some pm)"

section \<open>Published and unrelayed transactions\<close>

text \<open>Which entries of the two parallel arrays are left.\<close>

definition keep_published :: "(BRPublishedTx \<Rightarrow> bool) \<Rightarrow> BRPeerManager \<Rightarrow> BRPeerManager" where
  "keep_published P pm =
     (let js = filter (\<lambda>j. P (pm_publishedTx pm ! j)) [0..<length (pm_publishedTx pm)]
      in pm\<lparr>pm_publishedTx := map (\<lambda>j. pm_publishedTx pm ! j) js,
            pm_publishedTxHashes := map (\<lambda>j. pm_publishedTxHashes pm ! j) js\<rparr>)"

definition BRPeerManagerUpdateTx ::
    "'k manager_env \<Rightarrow> UInt256 list \<Rightarrow> u32 \<Rightarrow> u32 \<Rightarrow> BRPeerManager \<Rightarrow> BRPeerManager option" where
  "BRPeerManagerUpdateTx E txHashes blockHeight timestamp pm = do {
     let pm = (if blockHeight \<noteq> TX_UNCONFIRMED
       then (keep_published (\<lambda>t. tx_txHash (pub_tx t) \<notin> set txHashes) pm)
              \<lparr>pm_txRelays := filter (\<lambda>(h, _). h \<notin> set txHashes) (pm_txRelays pm)\<rparr>
       else pm);
     w \<leftarrow> BRWalletUpdateTransactions (we_now (me_wallet E)) (pm_wallet pm) txHashes blockHeight timestamp;
     Some (pm\<lparr>pm_wallet := w\<rparr>)
   }"

fun synced_count :: "(peer_ptr \<Rightarrow> BRPeerContext) \<Rightarrow> peer_ptr list \<Rightarrow> nat \<Rightarrow> nat" where
  "synced_count ctx [] n = n"
| "synced_count ctx (p # ps) n =
     (let n = (if BRPeerConnectStatus (ctx p) = BRPeerStatusConnected then n + 1 else n)
      in if pr_flags (ctx p) AND PEER_FLAG_SYNCED \<noteq> 0 then synced_count ctx ps n else 0)"

text \<open>One transaction of the array: it is looked at through its pointer, so it must not have been freed.\<close>

definition unrelayed_step :: "'k manager_env \<Rightarrow> UInt256 \<Rightarrow> BRPeerManager \<Rightarrow> BRPeerManager option" where
  "unrelayed_step E h pm = do {
     tx \<leftarrow> wl_allTx (pm_wallet pm) h;
     let isPublishing = list_ex (\<lambda>t. BRTransactionEq (pub_tx t) tx \<and> pub_callback t \<noteq> None) (pm_publishedTx pm);
     if \<not> isPublishing \<and> BRTxPeerListCount (pm_txRelays pm) (tx_txHash tx) = 0 \<and>
        BRTxPeerListCount (pm_txRequests pm) (tx_txHash tx) = 0
     then do {
       w \<leftarrow> BRWalletRemoveTransaction (we_now (me_wallet E)) (tx_txHash tx) (pm_wallet pm);
       Some (pm\<lparr>pm_wallet := w\<rparr>)
     }
     else if \<not> isPublishing \<and> BRTxPeerListCount (pm_txRelays pm) (tx_txHash tx) < pm_maxConnectCount pm
     then BRPeerManagerUpdateTx E [tx_txHash tx] TX_UNCONFIRMED 0 pm
     else Some pm
   }"

definition requestUnrelayedTxGetdataDone :: "'k manager_env \<Rightarrow> peer_ptr \<Rightarrow> bool \<Rightarrow> BRPeerManager \<Rightarrow> BRPeerManager option" where
  "requestUnrelayedTxGetdataDone E p success pm = do {
     let pm = (if success then on_peer p (\<lambda>ctx. ctx\<lparr>pr_flags := pr_flags ctx OR PEER_FLAG_SYNCED\<rparr>) pm else pm);
     let count = synced_count (pm_ctx pm) (rev (pm_connectedPeers pm)) 0;
     if count \<ge> pm_maxConnectCount pm
     then do {
       (txCount, _) \<leftarrow> BRWalletTxUnconfirmedBefore (pm_wallet pm) None TX_UNCONFIRMED;
       (_, txs) \<leftarrow> BRWalletTxUnconfirmedBefore (pm_wallet pm) (Some (if txCount < 10000 then txCount else 10000)) TX_UNCONFIRMED;
       fold_opt (unrelayed_step E) txs pm
     }
     else Some pm
   }"

definition request_step :: "peer_ptr \<Rightarrow> UInt256 \<Rightarrow> UInt256 list \<times> BRPeerManager \<Rightarrow> (UInt256 list \<times> BRPeerManager) option" where
  "request_step p h s = (case s of (hashes, pm) \<Rightarrow> do {
     tx \<leftarrow> wl_allTx (pm_wallet pm) h;
     Some (if \<not> BRTxPeerListHasPeer (pm_txRelays pm) (tx_txHash tx) (pm_ctx pm p) \<and>
              \<not> BRTxPeerListHasPeer (pm_txRequests pm) (tx_txHash tx) (pm_ctx pm p)
       then (hashes @ [tx_txHash tx],
             pm\<lparr>pm_txRequests := fst (BRTxPeerListAddPeer (pm_txRequests pm) (tx_txHash tx) (pm_ctx pm p))\<rparr>)
       else (hashes, pm))
   })"

definition BRPeerManagerRequestUnrelayedTx :: "'k manager_env \<Rightarrow> peer_ptr \<Rightarrow> BRPeerManager \<Rightarrow> BRPeerManager option" where
  "BRPeerManagerRequestUnrelayedTx E p pm = do {
     (txCount, _) \<leftarrow> BRWalletTxUnconfirmedBefore (pm_wallet pm) None TX_UNCONFIRMED;
     (_, txs) \<leftarrow> BRWalletTxUnconfirmedBefore (pm_wallet pm) (Some txCount) TX_UNCONFIRMED;
     (hashes, pm) \<leftarrow> fold_opt (request_step p) txs ([], pm);
     Some (if hashes \<noteq> []
       then let pm = on_peer p (BRPeerSendGetdata (me_peer E) hashes []) pm in
         if pr_flags (pm_ctx pm p) AND PEER_FLAG_SYNCED = 0
         then on_peer p (BRPeerSendPing (me_peer E) p (Some requestUnrelayedTxGetdataDone_cb)) pm else pm
       else on_peer p (\<lambda>ctx. ctx\<lparr>pr_flags := pr_flags ctx OR PEER_FLAG_SYNCED\<rparr>) pm)
   }"

definition BRPeerManagerPublishPendingTx :: "'k manager_env \<Rightarrow> peer_ptr \<Rightarrow> BRPeerManager \<Rightarrow> BRPeerManager" where
  "BRPeerManagerPublishPendingTx E p pm =
     on_peer p (\<lambda>ctx. BRPeerSendInv (me_peer E) (pm_publishedTxHashes pm)
       (if pending_callback pm then BRPeerScheduleDisconnect (me_peer E) ctx PROTOCOL_TIMEOUT else ctx)) pm"

definition mempoolDone :: "'k manager_env \<Rightarrow> peer_ptr \<Rightarrow> bool \<Rightarrow> BRPeerManager \<Rightarrow> BRPeerManager option" where
  "mempoolDone E p success pm =
     (if success
      then do {
        let syncFinished = (pm_syncStartHeight pm > 0);
        let pm = (if syncFinished then BRPeerManagerSyncStopped E pm else pm);
        pm \<leftarrow> BRPeerManagerRequestUnrelayedTx E p pm;
        let pm = on_peer p (BRPeerSendGetaddr (me_peer E)) pm;
        let pm = manager_event CbTxStatusUpdate TxStatusUpdate pm;
        Some (if syncFinished then manager_event CbSyncStopped (SyncStopped 0) pm else pm)
      }
      else Some pm)"

definition send_mempool :: "'k manager_env \<Rightarrow> peer_ptr \<Rightarrow> BRPeerManager \<Rightarrow> BRPeerManager" where
  "send_mempool E p pm = on_peer p (BRPeerSendMempool (me_peer E) (pm_publishedTxHashes pm) p (Some mempoolDone_cb)) pm"

definition loadBloomFilterDone :: "'k manager_env \<Rightarrow> peer_ptr \<Rightarrow> bool \<Rightarrow> BRPeerManager \<Rightarrow> BRPeerManager" where
  "loadBloomFilterDone E p success pm =
     (if success then send_mempool E p pm
      else if pm_downloadPeer pm = Some p
      then manager_event CbSyncStopped (SyncStopped 0) (BRPeerManagerSyncStopped E pm)
      else pm)"

definition BRPeerManagerLoadMempools :: "'k manager_env \<Rightarrow> BRPeerManager \<Rightarrow> BRPeerManager option" where
  "BRPeerManagerLoadMempools E pm =
     each_connected (\<lambda>p pm.
       if pm_downloadPeer pm \<noteq> Some p \<or> pm_fpRate pm > BLOOM_REDUCED_FALSEPOSITIVE_RATE * 5
       then do {
         pm \<leftarrow> BRPeerManagerLoadBloomFilter E p pm;
         Some (on_peer p (BRPeerSendPing (me_peer E) p (Some loadBloomFilterDone_cb)) (BRPeerManagerPublishPendingTx E p pm))
       }
       else Some (send_mempool E p pm)) pm"

section \<open>A block is relayed\<close>

text \<open>The observed rate of false positives; the number of transactions that are not the wallet's is counted.\<close>

definition track_rate :: "'k manager_env \<Rightarrow> peer_ptr \<Rightarrow> BRMerkleBlock \<Rightarrow> UInt256 list \<Rightarrow> BRPeerManager \<Rightarrow> BRPeerManager option" where
  "track_rate E p block txHashes pm =
     (if pm_downloadPeer pm = Some p \<and> mb_totalTx block > 0
      then do {
        fpCount \<leftarrow> fold_opt (\<lambda>h n. do {
            tx \<leftarrow> BRWalletTransactionForHash (pm_wallet pm) h;
            Some (if tx = None then n + 1 else n) }) txHashes (0 :: nat);
        let total = real (unat (mb_totalTx block));
        let avg = pm_averageTxPerBlock pm * (999 / 1000) + total * (1 / 1000);
        let rate = pm_fpRate pm * (1 - 1 / 100 * total / avg) + 1 / 100 * real fpCount / avg;
        let pm = pm\<lparr>pm_averageTxPerBlock := avg, pm_fpRate := rate\<rparr>;
        if BRPeerConnectStatus (pm_ctx pm p) = BRPeerStatusConnected \<and> rate > BLOOM_DEFAULT_FALSEPOSITIVE_RATE * 10
        then Some (on_peer p BRPeerDisconnect pm)
        else do {
          lastBlock \<leftarrow> pm_heap pm (pm_lastBlock pm);
          Some (if mb_height lastBlock + 500 < BRPeerLastBlock (pm_ctx pm p) \<and> rate > BLOOM_REDUCED_FALSEPOSITIVE_RATE * 10
                then BRPeerManagerUpdateFilter E pm else pm)
        }
      }
      else Some pm)"

definition reset_timeout :: "'k manager_env \<Rightarrow> peer_ptr \<Rightarrow> BRPeerManager \<Rightarrow> BRPeerManager" where
  "reset_timeout E p pm =
     (on_peer p (\<lambda>ctx. BRPeerScheduleDisconnect (me_peer E) ctx PROTOCOL_TIMEOUT) pm)\<lparr>pm_connectFailureCount := 0\<rparr>"

definition blocks_add :: "block_ptr \<Rightarrow> BRMerkleBlock \<Rightarrow> BRPeerManager \<Rightarrow> BRPeerManager" where
  "blocks_add p b pm = pm\<lparr>pm_blocks := (pm_blocks pm)(mb_blockHash b \<mapsto> p)\<rparr>"

definition orphans_add :: "block_ptr \<Rightarrow> BRMerkleBlock \<Rightarrow> BRPeerManager \<Rightarrow> BRPeerManager" where
  "orphans_add p b pm = pm\<lparr>pm_orphans := (pm_orphans pm)(mb_prevBlock b \<mapsto> p), pm_lastOrphan := Some p\<rparr>"

text \<open>A block whose previous block is unknown; \<open>None\<close> as a result means that it was freed.\<close>

definition relay_orphan :: "'k manager_env \<Rightarrow> peer_ptr \<Rightarrow> block_ptr \<Rightarrow> BRMerkleBlock \<Rightarrow> BRMerkleBlock \<Rightarrow> BRPeerManager \<Rightarrow>
    (block_ptr option \<times> BRPeerManager) option" where
  "relay_orphan E p bp block lastBlock pm =
     (if uint (mb_timestamp block + 7 * 24 * 60 * 60) < me_time E
      then do { pm \<leftarrow> free_block bp pm; Some (None, pm) }
      else do {
        ask \<leftarrow> (if mb_height lastBlock \<ge> BRPeerLastBlock (pm_ctx pm p)
               then (case pm_lastOrphan pm of
                   None \<Rightarrow> Some True
                 | Some q \<Rightarrow> do { ob \<leftarrow> pm_heap pm q; Some (\<not> UInt256Eq (mb_blockHash ob) (mb_prevBlock block)) })
               else Some False);
        pm \<leftarrow> (if ask then do { hashes \<leftarrow> locators pm; Some (on_peer p (BRPeerSendGetblocks (me_peer E) hashes 0) pm) }
              else Some pm);
        Some (Some bp, orphans_add bp block pm)
      })"

text \<open>How many blocks are saved when the download of the chain is complete.\<close>

definition full_save :: "BRMerkleBlock \<Rightarrow> nat" where
  "full_save block = unat (mb_height block mod BLOCK_DIFFICULTY_INTERVAL) + unat BLOCK_DIFFICULTY_INTERVAL + 1"

definition relay_extends :: "'k manager_env \<Rightarrow> peer_ptr \<Rightarrow> block_ptr \<Rightarrow> BRMerkleBlock \<Rightarrow> UInt256 list \<Rightarrow> u32 \<Rightarrow> BRPeerManager \<Rightarrow>
    (nat \<times> BRPeerManager) option" where
  "relay_extends E p bp block txHashes txTime pm = do {
     let pm = (blocks_add bp block pm)\<lparr>pm_lastBlock := bp\<rparr>;
     pm \<leftarrow> (if txHashes \<noteq> [] then BRPeerManagerUpdateTx E txHashes (mb_height block) txTime pm else Some pm);
     let pm = (case pm_downloadPeer pm of None \<Rightarrow> pm
       | Some d \<Rightarrow> on_peer d (\<lambda>ctx. BRPeerSetCurrentBlockHeight ctx (mb_height block)) pm);
     let pm = (if mb_height block < pm_estimatedHeight pm \<and> pm_downloadPeer pm = Some p then reset_timeout E p pm else pm);
     let saveCount = (if mb_height block mod BLOCK_DIFFICULTY_INTERVAL = 0 then 1 else 0);
     if mb_height block = pm_estimatedHeight pm
     then do { pm \<leftarrow> BRPeerManagerLoadMempools E pm; Some (full_save block, pm) }
     else Some (saveCount, pm)
   }"

text \<open>\<open>while (b && b->height > block->height) b = BRSetGet(manager->blocks, &b->prevBlock);\<close>\<close>

partial_function (option) down_to :: "BRPeerManager \<Rightarrow> u32 \<Rightarrow> block_ptr option \<Rightarrow> block_ptr option option" where
  "down_to pm height b =
     (case b of
        None \<Rightarrow> Some None
      | Some p \<Rightarrow> do {
          ob \<leftarrow> pm_heap pm p;
          if mb_height ob > height then do { q \<leftarrow> prev_of pm p; down_to pm height q } else Some b
        })"

text \<open>The block takes the place of the object which had its hash, and that one is freed.\<close>

definition replace_block :: "block_ptr \<Rightarrow> BRMerkleBlock \<Rightarrow> BRPeerManager \<Rightarrow> BRPeerManager option" where
  "replace_block bp block pm = do {
     old \<leftarrow> pm_blocks pm (mb_blockHash block);
     let pm = blocks_add bp block pm;
     if old \<noteq> bp
     then do {
       ob \<leftarrow> pm_heap pm old;
       let pm = (if pm_orphans pm (mb_prevBlock ob) = Some old
         then pm\<lparr>pm_orphans := (pm_orphans pm)(mb_prevBlock ob := None)\<rparr> else pm);
       let pm = (if pm_lastOrphan pm = Some old then pm\<lparr>pm_lastOrphan := None\<rparr> else pm);
       free_block old pm
     }
     else Some pm
   }"

definition relay_existing :: "'k manager_env \<Rightarrow> block_ptr \<Rightarrow> BRMerkleBlock \<Rightarrow> UInt256 list \<Rightarrow> u32 \<Rightarrow> BRPeerManager \<Rightarrow>
    BRPeerManager option" where
  "relay_existing E bp block txHashes txTime pm = do {
     b \<leftarrow> down_to pm (mb_height block) (Some (pm_lastBlock pm));
     q \<leftarrow> b;
     ob \<leftarrow> pm_heap pm q;
     pm \<leftarrow> (if BRMerkleBlockEq ob block
       then do {
         pm \<leftarrow> (if txHashes \<noteq> [] then BRPeerManagerUpdateTx E txHashes (mb_height block) txTime pm else Some pm);
         lastBlock \<leftarrow> pm_heap pm (pm_lastBlock pm);
         Some (if mb_height block = mb_height lastBlock then pm\<lparr>pm_lastBlock := bp\<rparr> else pm)
       }
       else Some pm);
     replace_block bp block pm
   }"

text \<open>Where the fork joins the main chain: \<open>b\<close> and \<open>b2\<close> of the code.\<close>

partial_function (option) join_point ::
    "BRPeerManager \<Rightarrow> block_ptr option \<Rightarrow> block_ptr option \<Rightarrow> (block_ptr option \<times> block_ptr option) option" where
  "join_point pm b b2 =
     (case (b, b2) of
        (Some p, Some p2) \<Rightarrow> do {
          o1 \<leftarrow> pm_heap pm p;
          o2 \<leftarrow> pm_heap pm p2;
          if BRMerkleBlockEq o1 o2 then Some (b, b2)
          else do {
            b \<leftarrow> prev_of pm p;
            b2 \<leftarrow> (case b of
                None \<Rightarrow> Some b2
              | Some q \<Rightarrow> do {
                  o1 \<leftarrow> pm_heap pm q;
                  if mb_height o1 < mb_height o2 then prev_of pm p2 else Some b2
                });
            join_point pm b b2
          }
        }
      | _ \<Rightarrow> Some (b, b2))"

text \<open>\<open>while (b && b2 && b->height > b2->height)\<close>: the transactions of the new main chain, from its end on.\<close>

partial_function (option) confirm_chain ::
    "'k manager_env \<Rightarrow> u32 \<Rightarrow> block_ptr option \<Rightarrow> BRPeerManager \<Rightarrow> BRPeerManager option" where
  "confirm_chain E joinHeight b pm =
     (case b of
        None \<Rightarrow> Some pm
      | Some p \<Rightarrow> do {
          ob \<leftarrow> pm_heap pm p;
          if mb_height ob > joinHeight
          then do {
            (n, _) \<leftarrow> BRMerkleBlockTxHashes ob None;
            (n, txHashes) \<leftarrow> BRMerkleBlockTxHashes ob (Some n);
            b \<leftarrow> prev_of pm p;
            timestamp \<leftarrow> (case b of
                None \<Rightarrow> Some (mb_timestamp ob)
              | Some q \<Rightarrow> do { o' \<leftarrow> pm_heap pm q; Some (mb_timestamp ob div 2 + mb_timestamp o' div 2) });
            w \<leftarrow> (if n > 0 then BRWalletUpdateTransactions (we_now (me_wallet E)) (pm_wallet pm) txHashes (mb_height ob) timestamp
                 else Some (pm_wallet pm));
            confirm_chain E joinHeight b (pm\<lparr>pm_wallet := w\<rparr>)
          }
          else Some pm
        })"

text \<open>The transactions behind the join are unconfirmed, then those of the fork confirmed.\<close>

definition reorganize :: "'k manager_env \<Rightarrow> block_ptr \<Rightarrow> BRPeerManager \<Rightarrow> BRPeerManager option" where
  "reorganize E bp pm = do {
     (b, b2) \<leftarrow> join_point pm (Some bp) (Some (pm_lastBlock pm));
     q \<leftarrow> b;
     ob \<leftarrow> pm_heap pm q;
     w \<leftarrow> BRWalletSetTxUnconfirmedAfter (we_now (me_wallet E)) (pm_wallet pm) (mb_height ob);
     let pm = pm\<lparr>pm_wallet := w\<rparr>;
     case b2 of
       None \<Rightarrow> Some pm
     | Some q2 \<Rightarrow> do { o2 \<leftarrow> pm_heap pm q2; confirm_chain E (mb_height o2) (Some bp) pm }
   }"

definition relay_fork :: "'k manager_env \<Rightarrow> block_ptr \<Rightarrow> BRMerkleBlock \<Rightarrow> BRMerkleBlock \<Rightarrow> BRPeerManager \<Rightarrow>
    (nat \<times> BRPeerManager) option" where
  "relay_fork E bp block lastBlock pm = do {
     let pm = blocks_add bp block pm;
     if mb_height block > mb_height lastBlock
     then do {
       pm \<leftarrow> reorganize E bp pm;
       let pm = pm\<lparr>pm_lastBlock := bp\<rparr>;
       if mb_height block = pm_estimatedHeight pm
       then do { pm \<leftarrow> BRPeerManagerLoadMempools E pm; Some (full_save block, pm) }
       else Some (0, pm)
     }
     else Some (0, pm)
   }"

text \<open>The blocks that are handed out to be saved: up to \<open>saveCount\<close> of them from \<open>b\<close> on, cut so that the last one is a
  transition.\<close>

fun collect_blocks :: "BRPeerManager \<Rightarrow> nat \<Rightarrow> block_ptr option \<Rightarrow> BRMerkleBlock list option" where
  "collect_blocks pm 0 b = Some []"
| "collect_blocks pm (Suc n) None = Some []"
| "collect_blocks pm (Suc n) (Some p) = do {
     ob \<leftarrow> pm_heap pm p;
     r \<leftarrow> collect_blocks pm n (pm_blocks pm (mb_prevBlock ob));
     Some (ob # r)
   }"

definition cut_blocks :: "BRMerkleBlock list \<Rightarrow> BRMerkleBlock list option" where
  "cut_blocks saved =
     (let i = length saved;
          j = (if i > 0 then unat (mb_height (saved ! (i - 1)) mod BLOCK_DIFFICULTY_INTERVAL) else 0);
          interval = unat BLOCK_DIFFICULTY_INTERVAL;
          i = (if j > 0 then i - (if i > interval - j then interval - j else i) else i)
      in if i = 0 \<or> mb_height (saved ! (i - 1)) mod BLOCK_DIFFICULTY_INTERVAL = 0 then Some (take i saved) else None)"

text \<open>The cases of a block whose previous block \<open>q\<close> is known.\<close>

definition relay_known :: "'k manager_env \<Rightarrow> peer_ptr \<Rightarrow> block_ptr \<Rightarrow> BRMerkleBlock \<Rightarrow> block_ptr \<Rightarrow> UInt256 list \<Rightarrow> u32 \<Rightarrow>
    BRPeerManager \<Rightarrow> (block_ptr option \<times> nat \<times> BRPeerManager) option" where
  "relay_known E p bp block q txHashes txTime pm = do {
     (r, pm) \<leftarrow> BRPeerManagerVerifyBlock bp q pm;
     if \<not> r
     then do { pm \<leftarrow> free_block bp pm; Some (None, 0, BRPeerManagerPeerMisbehavin p pm) }
     else do {
       lastBlock \<leftarrow> pm_heap pm (pm_lastBlock pm);
       if UInt256Eq (mb_prevBlock block) (mb_blockHash lastBlock)
       then do { (n, pm) \<leftarrow> relay_extends E p bp block txHashes txTime pm; Some (Some bp, n, pm) }
       else if pm_blocks pm (mb_blockHash block) \<noteq> None
       then do { pm \<leftarrow> relay_existing E bp block txHashes txTime pm; Some (Some bp, 0, pm) }
       else if mb_height lastBlock < BRPeerLastBlock (pm_ctx pm p) \<and> mb_height block > mb_height lastBlock + 1
       then Some (Some bp, 0, orphans_add bp block pm)
       else if mb_height block \<le> fst (last checkpoint_array)
       then do { pm \<leftarrow> free_block bp pm; Some (None, 0, pm) }
       else do { (n, pm) \<leftarrow> relay_fork E bp block lastBlock pm; Some (Some bp, n, pm) }
     }
   }"

text \<open>What is done with the block, by the cases of the code: whether it is kept, how many blocks to save, the state.\<close>

definition relay_cases :: "'k manager_env \<Rightarrow> peer_ptr \<Rightarrow> block_ptr \<Rightarrow> BRMerkleBlock \<Rightarrow> block_ptr option \<Rightarrow> UInt256 list \<Rightarrow> u32 \<Rightarrow>
    BRPeerManager \<Rightarrow> (block_ptr option \<times> nat \<times> BRPeerManager) option" where
  "relay_cases E p bp block prev txHashes txTime pm =
     (if mb_totalTx block = 0 \<and> mb_timestamp block + 7 * 24 * 60 * 60 > pm_earliestKeyTime pm + 2 * 60 * 60
      then do { pm \<leftarrow> free_block bp pm; Some (None, 0, pm) }
      else if pm_bloomFilter pm = None
      then do {
        pm \<leftarrow> free_block bp pm;
        if pm_downloadPeer pm = Some p
        then do {
          lastBlock \<leftarrow> pm_heap pm (pm_lastBlock pm);
          Some (None, 0, if mb_height lastBlock < pm_estimatedHeight pm then reset_timeout E p pm else pm)
        }
        else Some (None, 0, pm)
      }
      else (case prev of
          None \<Rightarrow> do {
            lastBlock \<leftarrow> pm_heap pm (pm_lastBlock pm);
            (b, pm) \<leftarrow> relay_orphan E p bp block lastBlock pm;
            Some (b, 0, pm)
          }
        | Some q \<Rightarrow> relay_known E p bp block q txHashes txTime pm))"

text \<open>After the cases: the orphan that waits for the block, the blocks to save.\<close>

definition relay_finish :: "peer_ptr \<Rightarrow> BRMerkleBlock \<Rightarrow> block_ptr option \<Rightarrow> nat \<Rightarrow> BRPeerManager \<Rightarrow>
    (block_ptr option \<times> BRPeerManager) option" where
  "relay_finish p block b saveCount pm = do {
     let (next, pm) = (if b \<noteq> None \<and> mb_height block \<noteq> BLOCK_UNKNOWN_HEIGHT
       then (pm_orphans pm (mb_blockHash block),
             pm\<lparr>pm_estimatedHeight := (if mb_height block > pm_estimatedHeight pm then mb_height block else pm_estimatedHeight pm),
                pm_orphans := (pm_orphans pm)(mb_blockHash block := None)\<rparr>)
       else (None, pm));
     saved \<leftarrow> collect_blocks pm saveCount b;
     saved \<leftarrow> cut_blocks saved;
     let pm = (if saved \<noteq> [] then manager_event CbSaveBlocks (SaveBlocks (length saved > 1) saved) pm else pm);
     Some (next,
       if b \<noteq> None \<and> mb_height block \<noteq> BLOCK_UNKNOWN_HEIGHT \<and> mb_height block \<ge> BRPeerLastBlock (pm_ctx pm p)
       then manager_event CbTxStatusUpdate TxStatusUpdate pm else pm)
   }"

text \<open>One block; the result is the next block to relay, which was received as an orphan.\<close>

definition relay_step :: "'k manager_env \<Rightarrow> peer_ptr \<Rightarrow> block_ptr \<Rightarrow> BRPeerManager \<Rightarrow> (block_ptr option \<times> BRPeerManager) option" where
  "relay_step E p bp pm = do {
     block \<leftarrow> pm_heap pm bp;
     (txCount, _) \<leftarrow> BRMerkleBlockTxHashes block None;
     (_, txHashes) \<leftarrow> BRMerkleBlockTxHashes block (Some txCount);
     let prev = pm_blocks pm (mb_prevBlock block);
     (txTime, block) \<leftarrow> (case prev of
         None \<Rightarrow> Some (0, block)
       | Some q \<Rightarrow> do {
           ob \<leftarrow> pm_heap pm q;
           Some (mb_timestamp block div 2 + mb_timestamp ob div 2, block\<lparr>mb_height := mb_height ob + 1\<rparr>) });
     let pm = pm\<lparr>pm_heap := (pm_heap pm)(bp \<mapsto> block)\<rparr>;
     pm \<leftarrow> track_rate E p block txHashes pm;
     (b, saveCount, pm) \<leftarrow> relay_cases E p bp block prev txHashes txTime pm;
     relay_finish p block b saveCount pm
   }"

partial_function (option) relay_from :: "'k manager_env \<Rightarrow> peer_ptr \<Rightarrow> block_ptr \<Rightarrow> BRPeerManager \<Rightarrow> BRPeerManager option" where
  "relay_from E p bp pm = do {
     (next, pm) \<leftarrow> relay_step E p bp pm;
     case next of None \<Rightarrow> Some pm | Some q \<Rightarrow> relay_from E p q pm
   }"

definition peerRelayedBlock :: "'k manager_env \<Rightarrow> peer_ptr \<Rightarrow> BRMerkleBlock \<Rightarrow> BRPeerManager \<Rightarrow> BRPeerManager option" where
  "peerRelayedBlock E p block pm = (case alloc_block block pm of (bp, pm) \<Rightarrow> relay_from E p bp pm)"

end
