(* ===== verification/ManagerLaws.thy ===== *)
theory ManagerLaws
  imports PeerManager WalletInv
begin

text \<open>
  The chain of the peer manager. \<open>depth\<close> is the true height of a hash in the tree of all blocks, of which the manager knows
  a part; \<open>chain_inv\<close> says that the known blocks are live, found under their hash, and have their true height. What the
  peers, the filters and the wallet do in between leaves the blocks alone, up to the orphans that a new filter
  drops (\<open>orphans_dropped\<close>).
\<close>

section \<open>The invariant\<close>

definition in_tree :: "(UInt256 \<Rightarrow> nat) \<Rightarrow> BRMerkleBlock \<Rightarrow> bool" where
  "in_tree depth b \<longleftrightarrow> mb_blockHash b \<noteq> 0 \<and> depth (mb_blockHash b) < 2 ^ 32 \<and>
     (mb_prevBlock b = 0 \<or> depth (mb_blockHash b) = Suc (depth (mb_prevBlock b)))"

definition blocks_ok :: "(UInt256 \<Rightarrow> nat) \<Rightarrow> BRPeerManager \<Rightarrow> bool" where
  "blocks_ok depth pm \<longleftrightarrow> (\<forall>h p. pm_blocks pm h = Some p \<longrightarrow>
     (\<exists>b. pm_heap pm p = Some b \<and> mb_blockHash b = h \<and> unat (mb_height b) = depth h))"

definition orphans_ok :: "BRPeerManager \<Rightarrow> bool" where
  "orphans_ok pm \<longleftrightarrow> (\<forall>h p. pm_orphans pm h = Some p \<longrightarrow>
     p \<notin> ran (pm_blocks pm) \<and> (\<exists>b. pm_heap pm p = Some b \<and> mb_prevBlock b = h))"

definition heap_ok :: "(UInt256 \<Rightarrow> nat) \<Rightarrow> BRPeerManager \<Rightarrow> bool" where
  "heap_ok depth pm \<longleftrightarrow> (\<forall>p b. pm_heap pm p = Some b \<longrightarrow> p < pm_next pm \<and> in_tree depth b)"

definition last_ok :: "BRPeerManager \<Rightarrow> bool" where
  "last_ok pm \<longleftrightarrow> (\<exists>b. pm_heap pm (pm_lastBlock pm) = Some b \<and> pm_blocks pm (mb_blockHash b) = Some (pm_lastBlock pm))"

definition chain_inv :: "(UInt256 \<Rightarrow> nat) \<Rightarrow> BRPeerManager \<Rightarrow> bool" where
  "chain_inv depth pm \<longleftrightarrow> blocks_ok depth pm \<and> orphans_ok pm \<and> heap_ok depth pm \<and> last_ok pm"

definition last_height :: "BRPeerManager \<Rightarrow> nat" where
  "last_height pm = (case pm_heap pm (pm_lastBlock pm) of Some b \<Rightarrow> unat (mb_height b) | None \<Rightarrow> 0)"

lemma blocks_okD:
  "blocks_ok depth pm \<Longrightarrow> pm_blocks pm h = Some p \<Longrightarrow>
    \<exists>b. pm_heap pm p = Some b \<and> mb_blockHash b = h \<and> unat (mb_height b) = depth h"
  by (simp add: blocks_ok_def)

lemma blocks_inj: "blocks_ok depth pm \<Longrightarrow> pm_blocks pm h = Some p \<Longrightarrow> pm_blocks pm h' = Some p \<Longrightarrow> h = h'"
  by (metis blocks_okD option.inject)

section \<open>What leaves the blocks alone\<close>

definition orphans_dropped :: "BRPeerManager \<Rightarrow> BRPeerManager \<Rightarrow> bool" where
  "orphans_dropped pm pm' \<longleftrightarrow> pm_blocks pm' = pm_blocks pm \<and> pm_lastBlock pm' = pm_lastBlock pm \<and>
     pm_checkpoints pm' = pm_checkpoints pm \<and> pm_next pm' = pm_next pm \<and>
     pm_orphans pm' \<subseteq>\<^sub>m pm_orphans pm \<and> pm_heap pm' \<subseteq>\<^sub>m pm_heap pm \<and>
     (\<forall>p. p \<notin> ran (pm_orphans pm) \<or> p \<in> ran (pm_orphans pm') \<longrightarrow> pm_heap pm' p = pm_heap pm p)"

lemma ran_mono: "f \<subseteq>\<^sub>m g \<Longrightarrow> ran f \<subseteq> ran g"
  by (auto simp: map_le_def ran_def dom_def) metis

lemma orphans_dropped_refl [simp, intro]: "orphans_dropped pm pm"
  by (simp add: orphans_dropped_def)

lemma orphans_dropped_trans: "orphans_dropped a b \<Longrightarrow> orphans_dropped b c \<Longrightarrow> orphans_dropped a c"
  using ran_mono unfolding orphans_dropped_def by (smt (verit, best) map_le_trans subset_iff)

lemma orphans_droppedI:
  assumes "pm_blocks b = pm_blocks a" "pm_lastBlock b = pm_lastBlock a" "pm_checkpoints b = pm_checkpoints a"
    "pm_next b = pm_next a" "pm_orphans b = pm_orphans a" "pm_heap b = pm_heap a"
  shows "orphans_dropped a b"
  using assms by (simp add: orphans_dropped_def)

lemma orphans_dropped_fold:
  "fold_opt f xs s = Some s' \<Longrightarrow> (\<And>x a b. f x a = Some b \<Longrightarrow> orphans_dropped a b) \<Longrightarrow> orphans_dropped s s'"
proof (induction xs arbitrary: s)
  case (Cons x xs)
  then obtain t where "f x s = Some t" "fold_opt f xs t = Some s'" by (auto split: bind_splits)
  then show ?case using Cons.IH Cons.prems(2) orphans_dropped_trans by metis
qed simp

lemma dropped_on_peer [simp, intro]: "orphans_dropped a (on_peer p f a)"
  by (rule orphans_droppedI) (simp_all add: on_peer_def)

lemma dropped_event [simp, intro]: "orphans_dropped a (manager_event cb e a)"
  by (rule orphans_droppedI) (simp_all add: manager_event_def)

lemma dropped_sync_stopped [simp, intro]: "orphans_dropped a (BRPeerManagerSyncStopped E a)"
  by (rule orphans_droppedI) (simp_all add: BRPeerManagerSyncStopped_def on_peer_def Let_def split: option.split)

lemma dropped_misbehavin [simp, intro]: "orphans_dropped a (BRPeerManagerPeerMisbehavin p a)"
  by (rule orphans_droppedI) (simp_all add: BRPeerManagerPeerMisbehavin_def on_peer_def Let_def)

lemma dropped_update_filter [simp, intro]: "orphans_dropped a (BRPeerManagerUpdateFilter E a)"
  by (rule orphans_droppedI) (simp_all add: BRPeerManagerUpdateFilter_def on_peer_def split: option.split)

lemma dropped_publish [simp, intro]: "orphans_dropped a (BRPeerManagerPublishPendingTx E p a)"
  by (simp add: BRPeerManagerPublishPendingTx_def)

lemma dropped_reset [simp, intro]: "orphans_dropped a (reset_timeout E p a)"
  by (rule orphans_droppedI) (simp_all add: reset_timeout_def on_peer_def)

lemma dropped_update_tx: "BRPeerManagerUpdateTx E hs h t a = Some b \<Longrightarrow> orphans_dropped a b"
  by (rule orphans_droppedI) (auto simp: BRPeerManagerUpdateTx_def keep_published_def Let_def split: bind_splits if_splits)

lemma dropped_track: "track_rate E p block hs a = Some b \<Longrightarrow> orphans_dropped a b"
  by (rule orphans_droppedI)
    (auto simp: track_rate_def Let_def BRPeerManagerUpdateFilter_def on_peer_def split: bind_splits if_splits option.splits)

lemma dropped_free_orphans:
  assumes "free_orphans a = Some b"
  shows "orphans_dropped a (b\<lparr>pm_orphans := (\<lambda>h. None)\<rparr>)"
  using assms by (auto simp: free_orphans_def orphans_dropped_def map_le_def ran_def split: if_splits)

lemma dropped_load_filter:
  assumes "BRPeerManagerLoadBloomFilter E p a = Some b"
  shows "orphans_dropped a b"
proof -
  have "\<exists>w c. free_orphans (a\<lparr>pm_wallet := w\<rparr>) = Some c \<and> pm_blocks b = pm_blocks c \<and> pm_lastBlock b = pm_lastBlock c \<and>
      pm_checkpoints b = pm_checkpoints c \<and> pm_next b = pm_next c \<and> pm_orphans b = (\<lambda>h. None) \<and> pm_heap b = pm_heap c"
    using assms by (auto simp: BRPeerManagerLoadBloomFilter_def Let_def on_peer_def split: bind_splits)
      (intro exI conjI, assumption, simp_all)
  then show ?thesis by (auto simp: free_orphans_def orphans_dropped_def map_le_def ran_def split: if_splits)
qed

lemma dropped_load_mempools:
  assumes "BRPeerManagerLoadMempools E a = Some b"
  shows "orphans_dropped a b"
  using assms unfolding BRPeerManagerLoadMempools_def each_connected_def
proof (rule orphans_dropped_fold)
  fix p a b
  assume "(if BRPeerConnectStatus (pm_ctx a p) = BRPeerStatusConnected
      then if pm_downloadPeer a \<noteq> Some p \<or> pm_fpRate a > BLOOM_REDUCED_FALSEPOSITIVE_RATE * 5
        then do {
          pm \<leftarrow> BRPeerManagerLoadBloomFilter E p a;
          Some (on_peer p (BRPeerSendPing (me_peer E) p (Some loadBloomFilterDone_cb)) (BRPeerManagerPublishPendingTx E p pm))
        }
        else Some (send_mempool E p a)
      else Some a) = Some b"
  then consider "b = a" | "b = send_mempool E p a" | c f where "BRPeerManagerLoadBloomFilter E p a = Some c"
      "b = on_peer p f (BRPeerManagerPublishPendingTx E p c)"
    by (auto split: bind_splits if_splits)
  then show "orphans_dropped a b"
  proof cases
    case 3
    then show ?thesis
      using orphans_dropped_trans [OF dropped_load_filter orphans_dropped_trans [OF dropped_publish dropped_on_peer]] by simp
  qed (simp_all add: send_mempool_def)
qed

lemmas orphans_dropped_rules = dropped_on_peer dropped_event dropped_sync_stopped dropped_misbehavin dropped_update_filter
  dropped_publish dropped_reset dropped_update_tx dropped_track dropped_load_filter dropped_load_mempools

section \<open>The invariant under the operations\<close>

lemma chain_inv_dropped:
  assumes "chain_inv depth a" "orphans_dropped a b"
  shows "chain_inv depth b" "last_height b = last_height a"
proof -
  have o: "pm_blocks b = pm_blocks a" "pm_lastBlock b = pm_lastBlock a" "pm_next b = pm_next a"
    "pm_orphans b \<subseteq>\<^sub>m pm_orphans a" "pm_heap b \<subseteq>\<^sub>m pm_heap a"
    "\<And>p. p \<notin> ran (pm_orphans a) \<or> p \<in> ran (pm_orphans b) \<Longrightarrow> pm_heap b p = pm_heap a p"
    using assms(2) by (auto simp: orphans_dropped_def)
  have inv: "blocks_ok depth a" "orphans_ok a" "heap_ok depth a" "last_ok a" using assms(1) by (simp_all add: chain_inv_def)
  have blocks: "pm_heap b p = pm_heap a p" if "pm_blocks a h = Some p" for h p
  proof -
    have "p \<notin> ran (pm_orphans a)" using inv(2) that by (auto simp: orphans_ok_def ran_def)
    then show ?thesis using o(6) by blast
  qed
  have orphans: "pm_orphans a h = Some p \<and> pm_heap b p = pm_heap a p" if "pm_orphans b h = Some p" for h p
    using o(4) that o(6) [of p] by (auto simp: map_le_def ran_def dom_def)
  have last: "pm_heap b (pm_lastBlock a) = pm_heap a (pm_lastBlock a)" using inv(4) blocks by (auto simp: last_ok_def)
  have "blocks_ok depth b" using inv(1) blocks o(1) by (auto simp: blocks_ok_def)
  moreover have "orphans_ok b" unfolding orphans_ok_def o(1) using inv(2) orphans by (fastforce simp: orphans_ok_def)
  moreover have "heap_ok depth b" using inv(3) o(3,5) by (auto simp: heap_ok_def map_le_def dom_def)
  moreover have "last_ok b" using inv(4) o(1,2) last by (simp add: last_ok_def)
  ultimately show "chain_inv depth b" by (simp add: chain_inv_def)
  show "last_height b = last_height a" by (simp add: last_height_def o(2) last)
qed

text \<open>A block that is neither among the known blocks nor among the orphans.\<close>

definition loose :: "block_ptr \<Rightarrow> BRPeerManager \<Rightarrow> bool" where
  "loose p pm \<longleftrightarrow> p \<notin> ran (pm_blocks pm) \<and> p \<notin> ran (pm_orphans pm)"

lemma chain_inv_last:
  assumes "chain_inv depth pm"
  obtains b where "pm_heap pm (pm_lastBlock pm) = Some b" "pm_blocks pm (mb_blockHash b) = Some (pm_lastBlock pm)"
    "last_height pm = depth (mb_blockHash b)" "unat (mb_height b) = depth (mb_blockHash b)"
  using assms by (auto simp: chain_inv_def last_ok_def last_height_def dest!: blocks_okD)

lemma chain_inv_heap:
  assumes "chain_inv depth pm" "loose p pm" "in_tree depth b" "p < pm_next pm"
  shows "chain_inv depth (pm\<lparr>pm_heap := (pm_heap pm)(p \<mapsto> b)\<rparr>)" "last_height (pm\<lparr>pm_heap := (pm_heap pm)(p \<mapsto> b)\<rparr>) = last_height pm"
  using assms by (auto simp: chain_inv_def blocks_ok_def orphans_ok_def heap_ok_def last_ok_def last_height_def loose_def ran_def)

lemma chain_inv_free_loose:
  assumes "chain_inv depth pm" "loose p pm" "free_block p pm = Some pm'"
  shows "chain_inv depth pm'" "last_height pm' = last_height pm"
  using assms by (auto simp: chain_inv_def blocks_ok_def orphans_ok_def heap_ok_def last_ok_def last_height_def loose_def ran_def
      free_block_def split: if_splits)

lemma chain_inv_orphans_add:
  assumes "chain_inv depth pm" "pm_heap pm p = Some b" "p \<notin> ran (pm_blocks pm)"
  shows "chain_inv depth (orphans_add p b pm)" "last_height (orphans_add p b pm) = last_height pm"
  using assms by (auto simp: chain_inv_def blocks_ok_def orphans_ok_def heap_ok_def last_ok_def last_height_def ran_def orphans_add_def)

lemma chain_inv_blocks_add:
  assumes "chain_inv depth pm" "pm_heap pm p = Some b" "unat (mb_height b) = depth (mb_blockHash b)" "p \<notin> ran (pm_orphans pm)"
    and "pm_blocks pm (mb_blockHash b) \<noteq> Some (pm_lastBlock pm)"
  shows "chain_inv depth (blocks_add p b pm)" "last_height (blocks_add p b pm) = last_height pm"
  using assms by (auto simp: chain_inv_def blocks_ok_def orphans_ok_def heap_ok_def last_ok_def last_height_def ran_def blocks_add_def
      split: if_splits)

lemma chain_inv_new_last:
  assumes "chain_inv depth pm" "pm_heap pm p = Some b" "unat (mb_height b) = depth (mb_blockHash b)" "p \<notin> ran (pm_orphans pm)"
  shows "chain_inv depth ((blocks_add p b pm)\<lparr>pm_lastBlock := p\<rparr>)"
    "last_height ((blocks_add p b pm)\<lparr>pm_lastBlock := p\<rparr>) = depth (mb_blockHash b)"
  using assms by (auto simp: chain_inv_def blocks_ok_def orphans_ok_def heap_ok_def last_ok_def last_height_def ran_def blocks_add_def
      split: if_splits)

lemma chain_inv_set_last:
  assumes "chain_inv depth pm" "pm_heap pm p = Some b" "pm_blocks pm (mb_blockHash b) = Some p"
  shows "chain_inv depth (pm\<lparr>pm_lastBlock := p\<rparr>)" "last_height (pm\<lparr>pm_lastBlock := p\<rparr>) = depth (mb_blockHash b)"
  using assms by (auto simp: chain_inv_def last_ok_def last_height_def blocks_ok_def orphans_ok_def heap_ok_def)
    (metis option.inject)

text \<open>Freeing a known block which is not the last one.\<close>

lemma chain_inv_free_known:
  assumes inv: "chain_inv depth pm" and p: "pm_blocks pm (mb_blockHash b) = Some p" "pm_heap pm p = Some b" "p \<noteq> pm_lastBlock pm"
    and free: "free_block p (pm\<lparr>pm_blocks := (pm_blocks pm)(mb_blockHash b := None)\<rparr>) = Some pm'"
  shows "chain_inv depth pm'" "last_height pm' = last_height pm"
proof -
  have pm': "pm' = pm\<lparr>pm_blocks := (pm_blocks pm)(mb_blockHash b := None), pm_heap := (pm_heap pm)(p := None)\<rparr>"
    using free by (auto simp: free_block_def split: if_splits)
  have k: "blocks_ok depth pm" "orphans_ok pm" "heap_ok depth pm" "last_ok pm" using inv by (simp_all add: chain_inv_def)
  have other: "q \<noteq> p" if "pm_blocks pm h = Some q" "h \<noteq> mb_blockHash b" for h q
    using blocks_inj [OF k(1) that(1)] p(1) that(2) by metis
  have "blocks_ok depth pm'" using k(1) other by (auto simp: pm' blocks_ok_def)
  moreover have "orphans_ok pm'" using k(2) p(1) by (fastforce simp: pm' orphans_ok_def ran_def)
  moreover have "heap_ok depth pm'" using k(3) by (auto simp: pm' heap_ok_def)
  moreover obtain l where l: "pm_heap pm (pm_lastBlock pm) = Some l" "pm_blocks pm (mb_blockHash l) = Some (pm_lastBlock pm)"
    using k(4) by (auto simp: last_ok_def)
  then have "mb_blockHash l \<noteq> mb_blockHash b" using p(1,3) by auto
  then have "last_ok pm'" using p(3) l by (auto simp: pm' last_ok_def)
  ultimately show "chain_inv depth pm'" by (simp add: chain_inv_def)
  show "last_height pm' = last_height pm" using p(3) by (simp add: pm' last_height_def)
qed

text \<open>Walking back \<open>n\<close> steps from a known block.\<close>

lemma step_back_Suc: "step_back pm (Suc n) (Some p) = (case prev_of pm p of None \<Rightarrow> None | Some q \<Rightarrow> step_back pm n q)"
  by (simp split: bind_split option.split)

lemma step_back_None [simp]: "step_back pm n None = Some None"
  by (cases n) simp_all

lemma prev_depth:
  assumes "chain_inv depth pm" "pm_heap pm p = Some b" "pm_blocks pm (mb_prevBlock b) = Some q"
  obtains c where "pm_heap pm q = Some c" "mb_blockHash c = mb_prevBlock b" "depth (mb_blockHash b) = Suc (depth (mb_blockHash c))"
    "unat (mb_height c) = depth (mb_blockHash c)" "pm_blocks pm (mb_blockHash c) = Some q"
proof -
  obtain c where c: "pm_heap pm q = Some c" "mb_blockHash c = mb_prevBlock b" "unat (mb_height c) = depth (mb_prevBlock b)"
    using assms(1) blocks_okD [OF _ assms(3)] by (auto simp: chain_inv_def)
  moreover have "in_tree depth b" "in_tree depth c" using assms(1,2) c(1) by (auto simp: chain_inv_def heap_ok_def)
  ultimately show thesis using that [of c] assms(3) by (auto simp: in_tree_def)
qed

lemma step_back_depth:
  assumes "chain_inv depth pm" "step_back pm n (Some p) = Some (Some q)" "pm_heap pm p = Some b"
  obtains c where "pm_heap pm q = Some c" "depth (mb_blockHash b) = depth (mb_blockHash c) + n"
  using assms(2,3)
proof (induction n arbitrary: p b thesis)
  case (Suc n)
  have "\<exists>r. pm_blocks pm (mb_prevBlock b) = Some r \<and> step_back pm n (Some r) = Some (Some q)"
    using Suc.prems(2,3) by (cases "pm_blocks pm (mb_prevBlock b)") (auto simp: prev_of_def)
  then obtain r where r: "pm_blocks pm (mb_prevBlock b) = Some r" "step_back pm n (Some r) = Some (Some q)" by blast
  obtain c where c: "pm_heap pm r = Some c" "depth (mb_blockHash b) = Suc (depth (mb_blockHash c))"
    using prev_depth [OF assms(1) Suc.prems(3) r(1)] by blast
  show ?case using Suc.IH [OF _ r(2) c(1)] Suc.prems(1) c(2) by auto
qed auto

section \<open>Freeing old blocks\<close>

text \<open>Only known blocks not above a depth are freed.\<close>

definition freed_below :: "(UInt256 \<Rightarrow> nat) \<Rightarrow> nat \<Rightarrow> BRPeerManager \<Rightarrow> BRPeerManager \<Rightarrow> bool" where
  "freed_below depth d pm pm' \<longleftrightarrow> chain_inv depth pm' \<and> last_height pm' = last_height pm \<and> pm_lastBlock pm' = pm_lastBlock pm \<and>
     pm_orphans pm' = pm_orphans pm \<and> pm_checkpoints pm' = pm_checkpoints pm \<and> pm_next pm' = pm_next pm \<and>
     pm_blocks pm' \<subseteq>\<^sub>m pm_blocks pm \<and> pm_heap pm' \<subseteq>\<^sub>m pm_heap pm \<and>
     (\<forall>h. d < depth h \<longrightarrow> pm_blocks pm' h = pm_blocks pm h) \<and>
     (\<forall>p. p \<notin> ran (pm_blocks pm) \<or> p \<in> ran (pm_blocks pm') \<longrightarrow> pm_heap pm' p = pm_heap pm p)"

lemma freed_below_refl: "chain_inv depth pm \<Longrightarrow> freed_below depth d pm pm"
  by (simp add: freed_below_def)

lemma freed_below_trans:
  assumes "freed_below depth d a b" "freed_below depth e b c" "e \<le> d"
  shows "freed_below depth d a c"
proof -
  have r: "ran (pm_blocks b) \<subseteq> ran (pm_blocks a)" "ran (pm_blocks c) \<subseteq> ran (pm_blocks b)"
    using assms(1,2) by (auto simp: freed_below_def dest!: ran_mono)
  then have "pm_heap c p = pm_heap a p" if "p \<notin> ran (pm_blocks a) \<or> p \<in> ran (pm_blocks c)" for p
    using assms(1,2) that unfolding freed_below_def by (metis subsetD)
  moreover have "pm_blocks c \<subseteq>\<^sub>m pm_blocks a" "pm_heap c \<subseteq>\<^sub>m pm_heap a"
    using assms(1,2) by (auto simp: freed_below_def intro: map_le_trans)
  ultimately show ?thesis using assms by (simp add: freed_below_def)
qed

lemma free_known_below:
  assumes inv: "chain_inv depth pm" and p: "pm_blocks pm h = Some p" "pm_heap pm p = Some b" "depth h < last_height pm"
    and free: "free_block p (pm\<lparr>pm_blocks := (pm_blocks pm)(mb_blockHash b := None)\<rparr>) = Some pm'"
  shows "freed_below depth (depth h) pm pm'"
proof -
  have pm': "pm' = pm\<lparr>pm_blocks := (pm_blocks pm)(mb_blockHash b := None), pm_heap := (pm_heap pm)(p := None)\<rparr>"
    using free by (auto simp: free_block_def split: if_splits)
  have ok: "blocks_ok depth pm" using inv by (simp add: chain_inv_def)
  have h: "mb_blockHash b = h" using blocks_okD [OF ok p(1)] p(2) by auto
  have pb: "pm_blocks pm (mb_blockHash b) = Some p" using p(1) h by simp
  have ne: "p \<noteq> pm_lastBlock pm"
  proof
    assume "p = pm_lastBlock pm"
    moreover obtain l where "pm_heap pm (pm_lastBlock pm) = Some l" "last_height pm = depth (mb_blockHash l)"
      by (rule chain_inv_last [OF inv])
    ultimately show False using p(2,3) h by simp
  qed
  have "chain_inv depth pm'" "last_height pm' = last_height pm"
    by (rule chain_inv_free_known [OF inv pb p(2) ne free])+
  moreover have "pm_heap pm' q = pm_heap pm q" if "q \<notin> ran (pm_blocks pm) \<or> q \<in> ran (pm_blocks pm')" for q
  proof -
    have "q \<noteq> p" using that
    proof
      assume "q \<notin> ran (pm_blocks pm)" then show ?thesis using p(1) by (auto simp: ran_def)
    next
      assume "q \<in> ran (pm_blocks pm')"
      then obtain h' where "h' \<noteq> h" "pm_blocks pm h' = Some q" by (auto simp: pm' h ran_def split: if_splits)
      then show ?thesis using blocks_inj [OF ok _ p(1)] by metis
    qed
    then show ?thesis by (simp add: pm')
  qed
  moreover have "pm_blocks pm' \<subseteq>\<^sub>m pm_blocks pm" "pm_heap pm' \<subseteq>\<^sub>m pm_heap pm" by (auto simp: pm' map_le_def)
  moreover have "\<forall>h'. depth h < depth h' \<longrightarrow> pm_blocks pm' h' = pm_blocks pm h'" by (auto simp: pm' h)
  moreover have "pm_lastBlock pm' = pm_lastBlock pm" "pm_orphans pm' = pm_orphans pm" "pm_checkpoints pm' = pm_checkpoints pm"
    "pm_next pm' = pm_next pm" by (simp_all add: pm')
  ultimately show ?thesis unfolding freed_below_def by blast
qed

lemma free_older_below:
  assumes "free_older h pm = Some pm'" "chain_inv depth pm" "pm_blocks pm h \<noteq> None \<Longrightarrow> depth h \<le> d \<and> depth h < last_height pm"
  shows "freed_below depth d pm pm'"
proof -
  have "chain_inv depth pm \<longrightarrow> (\<forall>d. (pm_blocks pm h \<noteq> None \<longrightarrow> depth h \<le> d \<and> depth h < last_height pm) \<longrightarrow>
      freed_below depth d pm pm')"
  proof (rule free_older.raw_induct [where P = "\<lambda>h pm pm'. chain_inv depth pm \<longrightarrow>
      (\<forall>d. (pm_blocks pm h \<noteq> None \<longrightarrow> depth h \<le> d \<and> depth h < last_height pm) \<longrightarrow> freed_below depth d pm pm')",
      OF _ assms(1)], intro impI allI, goal_cases)
    case (1 free_older h pm pm' d)
    show ?case
    proof (cases "pm_blocks pm h")
      case None
      then show ?thesis using 1 freed_below_refl by simp
    next
      case (Some p)
      then obtain b c where b: "pm_heap pm p = Some b"
        and c: "(if mb_height b mod BLOCK_DIFFICULTY_INTERVAL \<noteq> 0
          then free_block p (pm\<lparr>pm_blocks := (pm_blocks pm)(mb_blockHash b := None)\<rparr>) else Some pm) = Some c"
        and pm': "free_older (mb_prevBlock b) c = Some pm'"
        using 1(2) by (auto split: bind_splits)
      have d: "depth h < last_height pm" "depth h \<le> d" using 1(4) Some by simp_all
      have step: "freed_below depth (depth h) pm c"
        using c freed_below_refl [OF 1(3)] free_known_below [OF 1(3) Some b d(1)] by (auto split: if_splits)
      have tree: "in_tree depth b" "mb_blockHash b = h"
        using 1(3) b blocks_okD [OF _ Some] by (auto simp: chain_inv_def heap_ok_def)
      have inv: "chain_inv depth c" "last_height c = last_height pm" using step by (simp_all add: freed_below_def)
      have "depth (mb_prevBlock b) \<le> depth h \<and> depth (mb_prevBlock b) < last_height c" if "pm_blocks c (mb_prevBlock b) = Some q" for q
      proof -
        have "mb_prevBlock b \<noteq> 0" using inv(1) that by (force simp: chain_inv_def in_tree_def heap_ok_def dest: blocks_okD)
        then show ?thesis using tree d inv(2) by (auto simp: in_tree_def)
      qed
      then have "freed_below depth (depth h) c pm'" using 1(1) [OF pm'] inv(1) by blast
      then have "freed_below depth (depth h) pm pm'" using freed_below_trans [OF step] by simp
      then show ?thesis using d(2) by (simp add: freed_below_def)
    qed
  qed
  then show ?thesis using assms(2,3) by blast
qed

section \<open>Relaying a block\<close>

definition near :: "(UInt256 \<Rightarrow> nat) \<Rightarrow> BRPeerManager \<Rightarrow> bool" where
  "near depth pm \<longleftrightarrow> (\<forall>h p b. pm_orphans pm h = Some p \<longrightarrow> pm_heap pm p = Some b \<longrightarrow>
     depth (mb_blockHash b) \<le> last_height pm + 2016)"

definition kept :: "(UInt256 \<Rightarrow> nat) \<Rightarrow> BRPeerManager \<Rightarrow> BRPeerManager \<Rightarrow> bool" where
  "kept depth pm pm' \<longleftrightarrow> chain_inv depth pm' \<and> last_height pm \<le> last_height pm' \<and> (near depth pm \<longrightarrow> near depth pm')"

lemma kept_refl: "chain_inv depth pm \<Longrightarrow> kept depth pm pm"
  by (simp add: kept_def)

lemma kept_trans: "kept depth a b \<Longrightarrow> kept depth b c \<Longrightarrow> kept depth a c"
  by (auto simp: kept_def)

lemma kept_inv: "kept depth a b \<Longrightarrow> chain_inv depth b" "kept depth a b \<Longrightarrow> last_height a \<le> last_height b"
  by (simp_all add: kept_def)

lemma kept_dropped:
  assumes "chain_inv depth a" "orphans_dropped a b"
  shows "kept depth a b"
proof -
  have "pm_orphans a h = Some p \<and> pm_heap b p = pm_heap a p" if "pm_orphans b h = Some p" for h p
    using assms(2) that by (force simp: orphans_dropped_def map_le_def ran_def dom_def)
  then have "near depth a \<Longrightarrow> near depth b" unfolding near_def chain_inv_dropped(2) [OF assms] by metis
  then show ?thesis using chain_inv_dropped [OF assms] by (simp add: kept_def)
qed

lemma kept_freed: "freed_below depth d a b \<Longrightarrow> kept depth a b"
  by (auto simp: kept_def freed_below_def near_def map_le_def dom_def)

lemma kept_free_loose:
  assumes "chain_inv depth pm" "loose p pm" "free_block p pm = Some pm'"
  shows "kept depth pm pm'"
  using chain_inv_free_loose [OF assms] assms(3) by (auto simp: kept_def near_def free_block_def split: if_splits)

lemma kept_orphans_add:
  assumes "chain_inv depth pm" "pm_heap pm p = Some b" "p \<notin> ran (pm_blocks pm)" "depth (mb_blockHash b) \<le> last_height pm + 2016"
  shows "kept depth pm (orphans_add p b pm)"
  using chain_inv_orphans_add [OF assms(1-3)] assms(2,4) by (auto simp: kept_def near_def orphans_add_def)

lemma kept_blocks_add:
  assumes "chain_inv depth pm" "pm_heap pm p = Some b" "unat (mb_height b) = depth (mb_blockHash b)" "loose p pm"
    "pm_blocks pm (mb_blockHash b) \<noteq> Some (pm_lastBlock pm)"
  shows "kept depth pm (blocks_add p b pm)"
  using chain_inv_blocks_add [OF assms(1-3) _ assms(5)] assms(4)
  by (auto simp: kept_def near_def loose_def) (auto simp: blocks_add_def)

lemma kept_new_last:
  assumes "chain_inv depth pm" "pm_heap pm p = Some b" "unat (mb_height b) = depth (mb_blockHash b)" "loose p pm"
    "last_height pm \<le> depth (mb_blockHash b)"
  shows "kept depth pm ((blocks_add p b pm)\<lparr>pm_lastBlock := p\<rparr>)"
proof -
  have l: "chain_inv depth ((blocks_add p b pm)\<lparr>pm_lastBlock := p\<rparr>)"
    "last_height ((blocks_add p b pm)\<lparr>pm_lastBlock := p\<rparr>) = depth (mb_blockHash b)"
    using chain_inv_new_last [OF assms(1-3)] assms(4) by (simp_all add: loose_def)
  have "depth (mb_blockHash c) \<le> depth (mb_blockHash b) + 2016"
    if "near depth pm" "pm_orphans pm h = Some q" "pm_heap pm q = Some c" for h q c
    using that assms(5) by (fastforce simp: near_def)
  then show ?thesis using l assms(5) unfolding kept_def near_def l(2) by (auto simp: near_def blocks_add_def)
qed

lemma kept_set_last:
  assumes "chain_inv depth pm" "pm_heap pm p = Some b" "pm_blocks pm (mb_blockHash b) = Some p"
    "last_height pm \<le> depth (mb_blockHash b)"
  shows "kept depth pm (pm\<lparr>pm_lastBlock := p\<rparr>)"
proof -
  note l = chain_inv_set_last [OF assms(1-3)]
  have "depth (mb_blockHash c) \<le> depth (mb_blockHash b) + 2016"
    if "near depth pm" "pm_orphans pm h = Some q" "pm_heap pm q = Some c" for h q c
    using that assms(4) by (fastforce simp: near_def)
  then show ?thesis using l assms(4) unfolding kept_def near_def l(2) by (auto simp: near_def)
qed

lemma loose_dropped:
  assumes "orphans_dropped a b" "loose p a"
  shows "loose p b" "pm_heap b p = pm_heap a p"
  using assms ran_mono by (fastforce simp: orphans_dropped_def loose_def)+

lemma loose_freed:
  assumes "freed_below depth d a b" "loose p a"
  shows "loose p b" "pm_heap b p = pm_heap a p"
  using assms ran_mono by (fastforce simp: freed_below_def loose_def)+

text \<open>A known predecessor fixes the height.\<close>

lemma verify_freed:
  assumes "BRPeerManagerVerifyBlock bp q pm = Some (r, pm')" "chain_inv depth pm" "pm_heap pm bp = Some block"
    and "depth (mb_blockHash block) \<le> last_height pm + 2016"
  shows "freed_below depth (depth (mb_blockHash block) - 2017) pm pm'"
proof -
  have "pm' = pm \<or> (\<exists>c p. step_back pm 2016 (Some bp) = Some (Some p) \<and> pm_heap pm p = Some c \<and>
      free_older (mb_prevBlock c) pm = Some pm')"
    using assms(1,3) by (auto simp: BRPeerManagerVerifyBlock_def BLOCK_DIFFICULTY_INTERVAL_def Let_def
        split: bind_splits if_splits option.splits)
  then show ?thesis
  proof (elim disjE exE conjE)
    fix c p assume p: "step_back pm 2016 (Some bp) = Some (Some p)" "pm_heap pm p = Some c" "free_older (mb_prevBlock c) pm = Some pm'"
    have d: "depth (mb_blockHash block) = depth (mb_blockHash c) + 2016"
      using step_back_depth [OF assms(2) p(1) assms(3)] p(2) by auto
    show ?thesis
    proof (rule free_older_below [OF p(3) assms(2)])
      assume "pm_blocks pm (mb_prevBlock c) \<noteq> None"
      then obtain q where q: "pm_blocks pm (mb_prevBlock c) = Some q" by blast
      obtain e where "pm_heap pm q = Some e" "mb_blockHash e = mb_prevBlock c" "depth (mb_blockHash c) = Suc (depth (mb_blockHash e))"
        "unat (mb_height e) = depth (mb_blockHash e)" "pm_blocks pm (mb_blockHash e) = Some q"
        by (rule prev_depth [OF assms(2) p(2) q])
      then show "depth (mb_prevBlock c) \<le> depth (mb_blockHash block) - 2017 \<and> depth (mb_prevBlock c) < last_height pm"
        using d assms(4) by simp
    qed
  qed (use assms(2) freed_below_refl in simp)
qed


lemma relay_orphan_kept:
  assumes "relay_orphan E p bp block l pm = Some (b, pm')" "chain_inv depth pm" "pm_heap pm bp = Some block" "loose bp pm"
    and "depth (mb_blockHash block) \<le> last_height pm + 2016"
  shows "kept depth pm pm' \<and> bp \<notin> ran (pm_blocks pm')"
proof -
  consider "free_block bp pm = Some pm'" | "pm' = orphans_add bp block pm" | f where "pm' = orphans_add bp block (on_peer p f pm)"
    using assms(1) by (auto simp: relay_orphan_def split: bind_splits if_splits)
  then show ?thesis
  proof cases
    case 1
    then show ?thesis using kept_free_loose [OF assms(2,4) 1] assms(4)
      by (auto simp: free_block_def loose_def split: if_splits)
  next
    case 2
    then show ?thesis using kept_orphans_add [OF assms(2,3) _ assms(5)] assms(4) by (simp add: loose_def orphans_add_def)
  next
    case 3
    let ?pm = "on_peer p f pm"
    have d: "orphans_dropped pm ?pm" by simp
    note inv = chain_inv_dropped [OF assms(2) d] loose_dropped [OF d assms(4)]
    have "kept depth ?pm pm'"
      unfolding 3 by (rule kept_orphans_add) (use inv assms(3,5) in \<open>simp_all add: loose_def\<close>)
    then show ?thesis using kept_trans [OF kept_dropped [OF assms(2) d]] inv(3) by (simp add: 3 orphans_add_def loose_def)
  qed
qed

lemma relay_extends_kept:
  assumes "relay_extends E p bp block hs t pm = Some (n, pm')" "chain_inv depth pm" "pm_heap pm bp = Some block" "loose bp pm"
    and "unat (mb_height block) = depth (mb_blockHash block)" "last_height pm \<le> depth (mb_blockHash block)"
  shows "kept depth pm pm'" "last_height pm' = depth (mb_blockHash block)"
proof -
  let ?a = "(blocks_add bp block pm)\<lparr>pm_lastBlock := bp\<rparr>"
  have a: "kept depth pm ?a" by (rule kept_new_last [OF assms(2,3,5,4,6)])
  have h: "last_height ?a = depth (mb_blockHash block)"
    using chain_inv_new_last [OF assms(2,3,5)] assms(4) by (simp add: loose_def)
  obtain b where b: "(if hs \<noteq> [] then BRPeerManagerUpdateTx E hs (mb_height block) t ?a else Some ?a) = Some b"
    using assms(1) by (auto simp: relay_extends_def Let_def split: bind_splits)
  define c where "c = (case pm_downloadPeer b of None \<Rightarrow> b
    | Some d \<Rightarrow> on_peer d (\<lambda>ctx. BRPeerSetCurrentBlockHeight ctx (mb_height block)) b)"
  define d where "d = (if mb_height block < pm_estimatedHeight c \<and> pm_downloadPeer c = Some p then reset_timeout E p c else c)"
  have "orphans_dropped ?a b" using b by (auto split: if_splits intro: dropped_update_tx)
  moreover have "orphans_dropped b c" by (simp add: c_def split: option.split)
  moreover have "orphans_dropped c d" by (simp add: d_def)
  moreover have "orphans_dropped d pm'"
    using assms(1) b dropped_load_mempools [of E d pm'] by (auto simp: relay_extends_def Let_def c_def d_def split: bind_splits if_splits)
  ultimately have "orphans_dropped ?a pm'" by (meson orphans_dropped_trans)
  then show "kept depth pm pm'" "last_height pm' = depth (mb_blockHash block)"
    using kept_trans [OF a kept_dropped] chain_inv_dropped [of depth ?a pm'] kept_inv(1) [OF a] h by simp_all
qed

lemma confirm_chain_wallet:
  assumes "confirm_chain E h b pm = Some pm'"
  shows "\<exists>w. pm' = pm\<lparr>pm_wallet := w\<rparr>"
proof (rule confirm_chain.raw_induct [where P = "\<lambda>E h b pm pm'. \<exists>w. pm' = pm\<lparr>pm_wallet := w\<rparr>", OF _ assms], goal_cases)
  case (1 confirm_chain E h b pm pm')
  have id: "\<exists>w. pm = pm\<lparr>pm_wallet := w\<rparr>" by (rule exI [of _ "pm_wallet pm"]) simp
  show ?case
  proof (cases b)
    case None
    then have "pm' = pm" using 1(2) by simp
    then show ?thesis using id by simp
  next
    case (Some p)
    then consider "pm' = pm" | b' w where "confirm_chain E h b' (pm\<lparr>pm_wallet := w\<rparr>) = Some pm'"
    proof -
      obtain ob where ob: "pm_heap pm p = Some ob" using 1(2) Some by (cases "pm_heap pm p") simp_all
      show thesis
      proof (cases "mb_height ob > h")
        case True
        then obtain b' w where "confirm_chain E h b' (pm\<lparr>pm_wallet := w\<rparr>) = Some pm'"
          using 1(2) by (simp add: Some ob bind_eq_Some_conv split_beta) (elim exE conjE, blast)
        then show thesis by (rule that(2))
      next
        case False
        then show thesis using 1(2) that(1) by (simp add: Some ob)
      qed
    qed
    then show ?thesis
    proof cases
      case 2
      then show ?thesis using 1(1) [OF 2] by auto
    qed (use id in simp)
  qed
qed

lemma reorganize_wallet:
  assumes "reorganize E bp pm = Some pm'"
  shows "\<exists>w. pm' = pm\<lparr>pm_wallet := w\<rparr>"
proof -
  consider w where "pm' = pm\<lparr>pm_wallet := w\<rparr>" | h w where "confirm_chain E h (Some bp) (pm\<lparr>pm_wallet := w\<rparr>) = Some pm'"
    using assms by (auto simp: reorganize_def Let_def split: bind_splits option.splits)
  then show ?thesis
  proof cases
    case 2
    then show ?thesis using confirm_chain_wallet [OF 2] by auto
  qed blast
qed

lemma relay_fork_kept:
  assumes "relay_fork E bp block l pm = Some (n, pm')" "chain_inv depth pm" "pm_heap pm bp = Some block" "loose bp pm"
    and "unat (mb_height block) = depth (mb_blockHash block)" "pm_heap pm (pm_lastBlock pm) = Some l"
    and "pm_blocks pm (mb_blockHash block) = None"
  shows "kept depth pm pm'"
proof -
  let ?a = "blocks_add bp block pm"
  have a: "kept depth pm ?a" by (rule kept_blocks_add [OF assms(2,3,5,4)]) (simp add: assms(7))
  show ?thesis
  proof (cases "mb_height block > mb_height l")
    case False
    then show ?thesis using assms(1) a by (simp add: relay_fork_def)
  next
    case True
    obtain b where r: "reorganize E bp ?a = Some b"
      and f: "(if mb_height block = pm_estimatedHeight b
        then do { pm \<leftarrow> BRPeerManagerLoadMempools E (b\<lparr>pm_lastBlock := bp\<rparr>); Some (full_save block, pm) }
        else Some (0, b\<lparr>pm_lastBlock := bp\<rparr>)) = Some (n, pm')"
      using assms(1) True by (cases "reorganize E bp ?a") (simp_all add: relay_fork_def Let_def)
    obtain w where w: "b = ?a\<lparr>pm_wallet := w\<rparr>" using reorganize_wallet [OF r] by blast
    have ab: "orphans_dropped ?a b" by (rule orphans_droppedI) (simp_all add: w)
    have inv: "chain_inv depth b" "last_height b = last_height ?a" using chain_inv_dropped [OF kept_inv(1) [OF a] ab] .
    have "last_height ?a = unat (mb_height l)"
      using assms(6) by (simp add: last_height_def blocks_add_def)
    then have "last_height b \<le> depth (mb_blockHash block)"
      using True assms(5) inv(2) by (simp add: word_less_nat_alt)
    then have "kept depth b (b\<lparr>pm_lastBlock := bp\<rparr>)"
      by (intro kept_set_last [OF inv(1), of _ block]) (simp_all add: w assms(3) blocks_add_def)
    moreover have "orphans_dropped (b\<lparr>pm_lastBlock := bp\<rparr>) pm'"
      using f by (auto split: bind_splits if_splits intro: dropped_load_mempools)
    ultimately show ?thesis
      using kept_trans [OF a kept_trans [OF kept_dropped [OF kept_inv(1) [OF a] ab]]] kept_trans kept_dropped kept_inv(1) by metis
  qed
qed

text \<open>An existing block takes the place of the old object.\<close>

lemma down_to_here: "pm_heap pm p = Some ob \<Longrightarrow> \<not> mb_height ob > h \<Longrightarrow> down_to pm h (Some p) = Some (Some p)"
  by (subst down_to.simps) simp

lemma replace_block_kept:
  assumes inv: "chain_inv depth pm" and bp: "pm_heap pm bp = Some block" "loose bp pm"
    and h: "unat (mb_height block) = depth (mb_blockHash block)"
    and old: "pm_blocks pm (mb_blockHash block) = Some old"
  shows "kept depth pm (pm\<lparr>pm_blocks := (pm_blocks pm)(mb_blockHash block \<mapsto> bp), pm_heap := (pm_heap pm)(old := None),
    pm_lastBlock := (if pm_lastBlock pm = old then bp else pm_lastBlock pm), pm_lastOrphan := lo\<rparr>)" (is "kept depth pm ?pm")
proof -
  have k: "blocks_ok depth pm" "orphans_ok pm" "heap_ok depth pm" using inv by (simp_all add: chain_inv_def)
  obtain l where l: "pm_heap pm (pm_lastBlock pm) = Some l" "pm_blocks pm (mb_blockHash l) = Some (pm_lastBlock pm)"
    "last_height pm = depth (mb_blockHash l)" by (rule chain_inv_last [OF inv])
  have ne: "bp \<noteq> old" using bp(2) old by (auto simp: loose_def ran_def)
  have other: "q \<noteq> old" if "pm_blocks pm g = Some q" "g \<noteq> mb_blockHash block" for g q
    using blocks_inj [OF k(1) that(1)] old that(2) by metis
  have orph: "q \<noteq> old \<and> q \<noteq> bp" if "pm_orphans pm g = Some q" for g q
    using k(2) that old bp(2) by (auto simp: orphans_ok_def loose_def ran_def)
  have "blocks_ok depth ?pm" using k(1) other bp(1) h ne by (auto simp: blocks_ok_def)
  moreover have "orphans_ok ?pm"
    unfolding orphans_ok_def
  proof (intro allI impI)
    fix g q assume g: "pm_orphans ?pm g = Some q"
    then have "q \<noteq> old" "q \<noteq> bp" using orph by auto
    moreover have "q \<notin> ran (pm_blocks pm)" "\<exists>b. pm_heap pm q = Some b \<and> mb_prevBlock b = g"
      using k(2) g by (auto simp: orphans_ok_def)
    ultimately show "q \<notin> ran (pm_blocks ?pm) \<and> (\<exists>b. pm_heap ?pm q = Some b \<and> mb_prevBlock b = g)" by (auto simp: ran_def)
  qed
  moreover have "heap_ok depth ?pm" using k(3) by (auto simp: heap_ok_def)
  moreover have lh: "last_ok ?pm \<and> last_height ?pm = last_height pm"
  proof (cases "pm_lastBlock pm = old")
    case True
    then have "mb_blockHash l = mb_blockHash block" using blocks_inj [OF k(1) l(2)] old by simp
    then show ?thesis using True bp(1) ne h l(3) by (simp add: last_ok_def last_height_def)
  next
    case False
    then have "mb_blockHash l \<noteq> mb_blockHash block" using l(2) old by auto
    then show ?thesis using False l by (simp add: last_ok_def last_height_def)
  qed
  moreover have "near depth pm \<Longrightarrow> near depth ?pm"
    using lh orph by (auto simp: near_def)
  ultimately show ?thesis by (simp add: kept_def chain_inv_def)
qed

lemma replace_block_form:
  assumes "replace_block bp block a = Some pm'" "pm_blocks a (mb_blockHash block) = Some old" "old \<noteq> bp"
    and "\<And>g. pm_orphans a g \<noteq> Some old"
  shows "\<exists>lo. pm' = a\<lparr>pm_blocks := (pm_blocks a)(mb_blockHash block \<mapsto> bp), pm_heap := (pm_heap a)(old := None),
    pm_lastOrphan := lo\<rparr>"
proof -
  obtain ob where ob: "pm_heap a old = Some ob"
    using assms(1-3) by (cases "pm_heap a old") (simp_all add: replace_block_def blocks_add_def Let_def)
  show ?thesis
  proof (cases "pm_lastOrphan a = Some old")
    case True
    then show ?thesis
      using assms ob by (intro exI [of _ None]) (auto simp: replace_block_def blocks_add_def Let_def free_block_def)
  next
    case False
    then show ?thesis
      using assms ob by (intro exI [of _ "pm_lastOrphan a"]) (auto simp: replace_block_def blocks_add_def Let_def free_block_def)
  qed
qed

lemma relay_existing_kept:
  assumes "relay_existing E bp block hs t pm = Some pm'" "chain_inv depth pm" "pm_heap pm bp = Some block" "loose bp pm"
    and h: "unat (mb_height block) = depth (mb_blockHash block)"
  shows "kept depth pm pm'"
proof -
  obtain l where l: "pm_heap pm (pm_lastBlock pm) = Some l" "pm_blocks pm (mb_blockHash l) = Some (pm_lastBlock pm)"
    "unat (mb_height l) = depth (mb_blockHash l)" by (rule chain_inv_last [OF assms(2)])
  obtain q ob where q: "down_to pm (mb_height block) (Some (pm_lastBlock pm)) = Some (Some q)" "pm_heap pm q = Some ob"
    using assms(1) by (auto simp: relay_existing_def split: bind_splits)
  obtain a where a: "(if BRMerkleBlockEq ob block
      then do {
        pm \<leftarrow> (if hs \<noteq> [] then BRPeerManagerUpdateTx E hs (mb_height block) t pm else Some pm);
        lastBlock \<leftarrow> pm_heap pm (pm_lastBlock pm);
        Some (if mb_height block = mb_height lastBlock then pm\<lparr>pm_lastBlock := bp\<rparr> else pm)
      }
      else Some pm) = Some a"
    using assms(1) q by (auto simp: relay_existing_def split: bind_splits)
  have "\<exists>c. orphans_dropped pm c \<and> (a = c \<or> a = c\<lparr>pm_lastBlock := bp\<rparr> \<and> mb_height block = mb_height l) \<and>
      (BRMerkleBlockEq ob block \<longrightarrow> mb_height block = mb_height l \<longrightarrow> a = c\<lparr>pm_lastBlock := bp\<rparr>) \<and>
      (\<not> BRMerkleBlockEq ob block \<longrightarrow> a = c)"
  proof (cases "BRMerkleBlockEq ob block")
    case True
    then obtain c l' where c: "(if hs \<noteq> [] then BRPeerManagerUpdateTx E hs (mb_height block) t pm else Some pm) = Some c"
      "pm_heap c (pm_lastBlock c) = Some l'" "a = (if mb_height block = mb_height l' then c\<lparr>pm_lastBlock := bp\<rparr> else c)"
      using a by (auto split: bind_splits)
    have d: "orphans_dropped pm c" using c(1) by (auto split: if_splits intro: dropped_update_tx)
    then have "l' = l" using c(2) l(1) by (auto simp: orphans_dropped_def map_le_def dom_def)
    then show ?thesis using c(3) d True by (intro exI [of _ c]) auto
  qed (use a in auto)
  then obtain c where c: "orphans_dropped pm c" "a = c \<or> a = c\<lparr>pm_lastBlock := bp\<rparr> \<and> mb_height block = mb_height l"
    "BRMerkleBlockEq ob block \<Longrightarrow> mb_height block = mb_height l \<Longrightarrow> a = c\<lparr>pm_lastBlock := bp\<rparr>"
    "\<not> BRMerkleBlockEq ob block \<Longrightarrow> a = c" by blast
  note inv = chain_inv_dropped [OF assms(2) c(1)]
  have fields: "pm_blocks c = pm_blocks pm" "pm_lastBlock c = pm_lastBlock pm" "pm_heap c bp = Some block" "loose bp c"
    using c(1) loose_dropped [OF c(1) assms(4)] assms(3) by (simp_all add: orphans_dropped_def)
  obtain old where old: "pm_blocks pm (mb_blockHash block) = Some old"
    using assms(1) q a c(2) fields(1) by (cases "pm_blocks pm (mb_blockHash block)") (auto simp: relay_existing_def replace_block_def)
  have ne: "old \<noteq> bp" using old assms(4) by (auto simp: loose_def ran_def)
  have here: "q = pm_lastBlock pm \<and> ob = l" if "mb_height block = mb_height l"
    using down_to_here [OF l(1), of "mb_height block"] q l(1) that by auto
  have ok: "blocks_ok depth pm" using assms(2) by (simp add: chain_inv_def)
  have last: "a = c\<lparr>pm_lastBlock := (if pm_lastBlock c = old then bp else pm_lastBlock c)\<rparr>"
  proof (cases "old = pm_lastBlock pm")
    case True
    then have e: "mb_blockHash l = mb_blockHash block" using blocks_inj [OF ok l(2)] old by simp
    then have "mb_height block = mb_height l" using l(3) h by (intro word_unat_eq_iff [THEN iffD2]) (simp add: e)
    then have "a = c\<lparr>pm_lastBlock := bp\<rparr>" using here e c(3) by (simp add: BRMerkleBlockEq_def UInt256Eq_def)
    then show ?thesis using True fields(2) by simp
  next
    case False
    then have "mb_blockHash l \<noteq> mb_blockHash block" using l(2) old by auto
    then have "a = c" using c(2,4) here by (auto simp: BRMerkleBlockEq_def UInt256Eq_def)
    then show ?thesis using False fields(2) by simp
  qed
  have orph: "pm_orphans c g \<noteq> Some old" for g
    using inv(1) old fields(1) by (auto simp: chain_inv_def orphans_ok_def ran_def)
  have "replace_block bp block a = Some pm'" using assms(1) q a by (simp add: relay_existing_def)
  then obtain lo where lo: "pm' = a\<lparr>pm_blocks := (pm_blocks a)(mb_blockHash block \<mapsto> bp), pm_heap := (pm_heap a)(old := None),
      pm_lastOrphan := lo\<rparr>"
    using replace_block_form [of bp block a pm' old] by (auto simp: last fields(1) old ne orph)
  have "pm' = c\<lparr>pm_blocks := (pm_blocks c)(mb_blockHash block \<mapsto> bp), pm_heap := (pm_heap c)(old := None),
      pm_lastBlock := (if pm_lastBlock c = old then bp else pm_lastBlock c), pm_lastOrphan := lo\<rparr>"
    unfolding lo last by (rule BRPeerManager.equality) simp_all
  then have "kept depth c pm'" using replace_block_kept [OF inv(1) fields(3,4) h] old fields(1) by simp
  then show ?thesis by (rule kept_trans [OF kept_dropped [OF assms(2) c(1)]])
qed

text \<open>A block with a known predecessor has its true height, and the predecessor bounds it.\<close>

lemma known_height:
  assumes "chain_inv depth pm" "pm_heap pm q = Some ob" "pm_blocks pm (mb_prevBlock block) = Some q"
    and "in_tree depth block" "mb_height block = mb_height ob + 1"
  shows "unat (mb_height block) = depth (mb_blockHash block)"
proof -
  have b: "unat (mb_height ob) = depth (mb_prevBlock block)" "mb_blockHash ob = mb_prevBlock block"
    using assms(1,2) blocks_okD [OF _ assms(3)] by (auto simp: chain_inv_def)
  then have "mb_prevBlock block \<noteq> 0" using assms(1,2) by (auto simp: chain_inv_def heap_ok_def in_tree_def)
  then have d: "depth (mb_blockHash block) = Suc (unat (mb_height ob))" "depth (mb_blockHash block) < 2 ^ 32"
    using assms(4) b by (auto simp: in_tree_def)
  then have "unat (mb_height ob + 1) = unat (mb_height ob) + unat (1 :: u32)"
    by (intro unat_add_lem [THEN iffD1]) simp
  then show ?thesis using d assms(5) by simp
qed

lemma relay_cases_kept:
  assumes "relay_cases E p bp block prev hs t pm = Some (b, n, pm')" "chain_inv depth pm" "pm_heap pm bp = Some block" "loose bp pm"
    and prev: "prev = pm_blocks pm (mb_prevBlock block)"
    and h: "\<And>q. prev = Some q \<Longrightarrow> unat (mb_height block) = depth (mb_blockHash block)"
    and near: "depth (mb_blockHash block) \<le> last_height pm + 2016"
  shows "kept depth pm pm'"
proof -
  consider (freed) c where "free_block bp pm = Some c" "orphans_dropped c pm'"
    | (orphan) l b' where "relay_orphan E p bp block l pm = Some (b', pm')"
    | (known) q r c where "prev = Some q" "BRPeerManagerVerifyBlock bp q pm = Some (r, c)" "\<not> r"
        "\<exists>d. free_block bp c = Some d \<and> pm' = BRPeerManagerPeerMisbehavin p d"
    | (good) q c l where "prev = Some q" "BRPeerManagerVerifyBlock bp q pm = Some (True, c)" "pm_heap c (pm_lastBlock c) = Some l"
        "UInt256Eq (mb_prevBlock block) (mb_blockHash l) \<and> (\<exists>n. relay_extends E p bp block hs t c = Some (n, pm')) \<or>
         relay_existing E bp block hs t c = Some pm' \<or> pm' = orphans_add bp block c \<or> free_block bp c = Some pm' \<or>
         pm_blocks c (mb_blockHash block) = None \<and> (\<exists>n. relay_fork E bp block l c = Some (n, pm'))"
  proof (cases "mb_totalTx block = 0 \<and> mb_timestamp block + 7 * 24 * 60 * 60 > pm_earliestKeyTime pm + 2 * 60 * 60 \<or>
      pm_bloomFilter pm = None")
    case True
    then show thesis using assms(1) that(1)
      by (auto simp: relay_cases_def split: bind_splits if_splits intro: dropped_reset)
  next
    case False
    then have r: "relay_cases E p bp block prev hs t pm = (case prev of
          None \<Rightarrow> do {
            lastBlock \<leftarrow> pm_heap pm (pm_lastBlock pm);
            (b, pm) \<leftarrow> relay_orphan E p bp block lastBlock pm;
            Some (b, 0, pm)
          }
        | Some q \<Rightarrow> relay_known E p bp block q hs t pm)"
      by (auto simp: relay_cases_def)
    show thesis
    proof (cases prev)
      case None
      then show thesis using assms(1) that(2) unfolding r by (auto split: bind_splits)
    next
      case (Some q)
      then have k: "relay_known E p bp block q hs t pm = Some (b, n, pm')" using assms(1) r by simp
      obtain ok c where v: "BRPeerManagerVerifyBlock bp q pm = Some (ok, c)"
        using k by (cases "BRPeerManagerVerifyBlock bp q pm") (auto simp: relay_known_def)
      show thesis
      proof (cases ok)
        case False
        then show thesis using k v that(3) [OF Some v] by (auto simp: relay_known_def split: bind_splits)
      next
        case True
        obtain l where l: "pm_heap c (pm_lastBlock c) = Some l"
          using k v True by (cases "pm_heap c (pm_lastBlock c)") (auto simp: relay_known_def)
        show thesis using k v True l that(4) [OF Some _ l]
          by (auto simp: relay_known_def split: bind_splits if_splits)
      qed
    qed
  qed
  then show ?thesis
  proof cases
    case freed
    note k = kept_free_loose [OF assms(2,4) freed(1)]
    show ?thesis by (rule kept_trans [OF k kept_dropped [OF kept_inv(1) [OF k] freed(2)]])
  next
    case orphan
    then show ?thesis using relay_orphan_kept [OF _ assms(2-4) near] by blast
  next
    case known
    note f = verify_freed [OF known(2) assms(2,3) near]
    obtain d where d: "free_block bp c = Some d" "pm' = BRPeerManagerPeerMisbehavin p d" using known(4) by blast
    note k = kept_free_loose [OF kept_inv(1) [OF kept_freed [OF f]] loose_freed(1) [OF f assms(4)] d(1)]
    have "kept depth d pm'" unfolding d(2) by (rule kept_dropped [OF kept_inv(1) [OF k] dropped_misbehavin])
    then show ?thesis using kept_trans [OF kept_freed [OF f] kept_trans [OF k]] by blast
  next
    case good
    note f = verify_freed [OF good(2) assms(2,3) near]
    note inv = kept_inv(1) [OF kept_freed [OF f]]
    note loose = loose_freed [OF f assms(4)]
    have bp: "pm_heap c bp = Some block" using loose(2) assms(3) by simp
    note h' = h [OF good(1)]
    have lh: "last_height c = last_height pm" "last_height c = depth (mb_blockHash l)"
      using f good(3) chain_inv_last [OF inv] by (auto simp: freed_below_def)
    have le: "last_height c \<le> depth (mb_blockHash block)" if "UInt256Eq (mb_prevBlock block) (mb_blockHash l)"
    proof -
      have t: "in_tree depth block" "in_tree depth l"
        using assms(2,3) inv good(3) by (auto simp: chain_inv_def heap_ok_def)
      then show ?thesis using that lh(2) by (auto simp: in_tree_def UInt256Eq_def)
    qed
    have "kept depth c pm'"
      using good(4)
    proof (elim disjE conjE exE)
      fix n assume "UInt256Eq (mb_prevBlock block) (mb_blockHash l)" "relay_extends E p bp block hs t c = Some (n, pm')"
      then show ?thesis using relay_extends_kept(1) [OF _ inv bp loose(1) h'] le by blast
    next
      assume "relay_existing E bp block hs t c = Some pm'"
      then show ?thesis by (rule relay_existing_kept [OF _ inv bp loose(1) h'])
    next
      assume "pm' = orphans_add bp block c"
      then show ?thesis using kept_orphans_add [OF inv bp] loose(1) near lh(1) by (simp add: loose_def)
    next
      assume "free_block bp c = Some pm'"
      then show ?thesis by (rule kept_free_loose [OF inv loose(1)])
    next
      fix n assume "pm_blocks c (mb_blockHash block) = None" "relay_fork E bp block l c = Some (n, pm')"
      then show ?thesis by (intro relay_fork_kept [OF _ inv bp loose(1) h' good(3)])
    qed
    then show ?thesis by (rule kept_trans [OF kept_freed [OF f]])
  qed
qed

lemma kept_heap:
  assumes "chain_inv depth pm" "loose p pm" "in_tree depth b" "p < pm_next pm"
  shows "kept depth pm (pm\<lparr>pm_heap := (pm_heap pm)(p \<mapsto> b)\<rparr>)"
  using chain_inv_heap [OF assms] assms(2) by (auto simp: kept_def near_def loose_def ran_def)

text \<open>The orphan that waits for a block is taken out of the orphans.\<close>

lemma take_orphan:
  fixes e :: u32 and h :: UInt256
  assumes "chain_inv depth pm" "near depth pm"
  defines "pm' \<equiv> pm\<lparr>pm_estimatedHeight := e, pm_orphans := (pm_orphans pm)(h := None)\<rparr>"
  shows "kept depth pm pm'"
    "pm_orphans pm h = Some q \<Longrightarrow> loose q pm' \<and> (\<exists>b. pm_heap pm' q = Some b \<and> depth (mb_blockHash b) \<le> last_height pm' + 2016)"
proof -
  have lh: "last_height pm' = last_height pm" by (simp add: pm'_def last_height_def)
  have o: "orphans_ok pm" using assms(1) by (simp add: chain_inv_def)
  have "orphans_ok pm'" using o by (auto simp: pm'_def orphans_ok_def)
  then have "chain_inv depth pm'"
    using assms(1) by (simp add: chain_inv_def) (simp add: pm'_def blocks_ok_def heap_ok_def last_ok_def)
  moreover have "near depth pm'" using assms(2) lh by (auto simp: near_def) (auto simp: pm'_def split: if_splits)
  ultimately show "kept depth pm pm'" using lh by (simp add: kept_def)
  assume q: "pm_orphans pm h = Some q"
  then obtain b where b: "q \<notin> ran (pm_blocks pm)" "pm_heap pm q = Some b" "mb_prevBlock b = h" using o by (auto simp: orphans_ok_def)
  have "g = h" if "pm_orphans pm g = Some q" for g using o that b by (force simp: orphans_ok_def)
  then have "loose q pm'" using b(1) by (auto simp: loose_def pm'_def ran_def)
  moreover have "depth (mb_blockHash b) \<le> last_height pm' + 2016" using assms(2) q b(2) lh by (simp add: near_def)
  ultimately show "loose q pm' \<and> (\<exists>b. pm_heap pm' q = Some b \<and> depth (mb_blockHash b) \<le> last_height pm' + 2016)"
    using b(2) by (simp add: pm'_def)
qed

lemma event_leaves [simp]: "loose q (manager_event cb e a) = loose q a" "pm_heap (manager_event cb e a) = pm_heap a"
  by (simp_all add: manager_event_def loose_def)

lemma relay_finish_kept:
  assumes "relay_finish p block b n pm = Some (next, pm')" "chain_inv depth pm" "near depth pm"
  shows "kept depth pm pm'"
    "next = Some q \<Longrightarrow> loose q pm' \<and> (\<exists>b. pm_heap pm' q = Some b \<and> depth (mb_blockHash b) \<le> last_height pm' + 2016)"
proof -
  let ?found = "b \<noteq> None \<and> mb_height block \<noteq> BLOCK_UNKNOWN_HEIGHT"
  let ?s = "if mb_height block > pm_estimatedHeight pm then mb_height block else pm_estimatedHeight pm"
  let ?e = "if ?found then pm\<lparr>pm_estimatedHeight := ?s, pm_orphans := (pm_orphans pm)(mb_blockHash block := None)\<rparr> else pm"
  have next_eq: "next = (if ?found then pm_orphans pm (mb_blockHash block) else None)"
    using assms(1) by (auto simp: relay_finish_def Let_def split: bind_splits if_splits)
  define e where "e = ?e"
  have "\<exists>saved c. c = (if saved \<noteq> [] then manager_event CbSaveBlocks (SaveBlocks (length saved > 1) saved) e else e) \<and>
      (pm' = c \<or> pm' = manager_event CbTxStatusUpdate TxStatusUpdate c)"
    using assms(1) unfolding e_def by (auto simp: relay_finish_def Let_def split: bind_splits if_splits)
  then obtain saved c where c: "c = (if saved \<noteq> [] then manager_event CbSaveBlocks (SaveBlocks (length saved > 1) saved) e else e)"
    "pm' = c \<or> pm' = manager_event CbTxStatusUpdate TxStatusUpdate c" by blast
  have "orphans_dropped e pm' \<and> (\<forall>q. loose q pm' = loose q e) \<and> pm_heap pm' = pm_heap e"
    using c by (cases "saved = []") (auto intro: orphans_dropped_trans)
  then have ev: "orphans_dropped ?e pm'" "\<And>q. loose q pm' = loose q ?e" "pm_heap pm' = pm_heap ?e"
    unfolding e_def by blast+
  have ke: "kept depth pm ?e" using kept_refl [OF assms(2)] take_orphan(1) [OF assms(2,3)] by simp
  show "kept depth pm pm'" by (rule kept_trans [OF ke kept_dropped [OF kept_inv(1) [OF ke] ev(1)]])
  assume "next = Some q"
  then have q: ?found "pm_orphans pm (mb_blockHash block) = Some q" using next_eq by (auto split: if_splits)
  then have "loose q ?e \<and> (\<exists>b. pm_heap ?e q = Some b \<and> depth (mb_blockHash b) \<le> last_height ?e + 2016)"
    using take_orphan(2) [OF assms(2,3) q(2)] by simp
  then show "loose q pm' \<and> (\<exists>b. pm_heap pm' q = Some b \<and> depth (mb_blockHash b) \<le> last_height pm' + 2016)"
    using ev(2,3) chain_inv_dropped(2) [OF kept_inv(1) [OF ke] ev(1)] by simp
qed

lemma relay_step_kept:
  assumes "relay_step E p bp pm = Some (next, pm')" "chain_inv depth pm" "near depth pm" "loose bp pm" "pm_heap pm bp = Some block"
    and near: "depth (mb_blockHash block) \<le> last_height pm + 2016"
  shows "kept depth pm pm' \<and> (\<forall>q. next = Some q \<longrightarrow> loose q pm' \<and>
    (\<exists>b. pm_heap pm' q = Some b \<and> depth (mb_blockHash b) \<le> last_height pm' + 2016))"
proof -
  let ?prev = "pm_blocks pm (mb_prevBlock block)"
  obtain t blk where t: "(case ?prev of None \<Rightarrow> Some (0, block)
       | Some q \<Rightarrow> do {
           ob \<leftarrow> pm_heap pm q;
           Some (mb_timestamp block div 2 + mb_timestamp ob div 2, block\<lparr>mb_height := mb_height ob + 1\<rparr>) }) = Some (t, blk)"
    using assms(1,5) by (auto simp: relay_step_def Let_def split: bind_splits)
  let ?a = "pm\<lparr>pm_heap := (pm_heap pm)(bp \<mapsto> blk)\<rparr>"
  have blk: "mb_blockHash blk = mb_blockHash block" "mb_prevBlock blk = mb_prevBlock block"
    using t by (auto split: option.splits bind_splits)
  have tree: "in_tree depth block" "bp < pm_next pm" using assms(2,5) by (auto simp: chain_inv_def heap_ok_def)
  then have "in_tree depth blk" by (simp add: in_tree_def blk)
  note ka = kept_heap [OF assms(2,4) this tree(2)]
  have h: "unat (mb_height blk) = depth (mb_blockHash blk)" if q: "?prev = Some q" for q
  proof -
    obtain ob where "pm_heap pm q = Some ob" "mb_height blk = mb_height ob + 1" using t q by (auto split: bind_splits)
    then show ?thesis using known_height [OF assms(2), of q ob blk] q \<open>in_tree depth blk\<close> blk by simp
  qed
  obtain hs c b n d where r: "track_rate E p blk hs ?a = Some c" "relay_cases E p bp blk ?prev hs t c = Some (b, n, d)"
    "relay_finish p blk b n d = Some (next, pm')"
    using assms(1,5) t by (auto simp: relay_step_def Let_def split: bind_splits)
  have oc: "orphans_dropped ?a c" by (rule dropped_track [OF r(1)])
  have loose: "loose bp ?a" "pm_heap ?a bp = Some blk" using assms(4) by (simp_all add: loose_def)
  have inv: "chain_inv depth c" "last_height c = last_height pm"
    using chain_inv_dropped [OF kept_inv(1) [OF ka] oc] chain_inv_heap(2) [OF assms(2,4) _ tree(2)] \<open>in_tree depth blk\<close> by simp_all
  have kd: "kept depth c d"
  proof (rule relay_cases_kept [OF r(2) inv(1)])
    show "pm_heap c bp = Some blk" "loose bp c" using loose_dropped [OF oc loose(1)] loose(2) by simp_all
    show "?prev = pm_blocks c (mb_prevBlock blk)" using oc by (simp add: orphans_dropped_def blk)
  qed (use h near inv(2) blk in auto)
  have k: "kept depth pm d" by (rule kept_trans [OF ka kept_trans [OF kept_dropped [OF kept_inv(1) [OF ka] oc] kd]])
  then have nd: "chain_inv depth d" "near depth d" using assms(3) by (simp_all add: kept_def)
  note f = relay_finish_kept [OF r(3) nd]
  then show ?thesis using kept_trans [OF k f(1)] by blast
qed

lemma relay_from_kept:
  assumes "relay_from E p bp pm = Some pm'" "chain_inv depth pm" "near depth pm" "loose bp pm" "pm_heap pm bp = Some block"
    and "depth (mb_blockHash block) \<le> last_height pm + 2016"
  shows "kept depth pm pm'"
proof -
  have "chain_inv depth pm \<and> near depth pm \<and> loose bp pm \<and>
      (\<exists>b. pm_heap pm bp = Some b \<and> depth (mb_blockHash b) \<le> last_height pm + 2016) \<longrightarrow> kept depth pm pm'"
  proof (rule relay_from.raw_induct [where P = "\<lambda>E p bp pm pm'. chain_inv depth pm \<and> near depth pm \<and> loose bp pm \<and>
      (\<exists>b. pm_heap pm bp = Some b \<and> depth (mb_blockHash b) \<le> last_height pm + 2016) \<longrightarrow> kept depth pm pm'",
      OF _ assms(1)], intro impI, elim conjE exE, goal_cases)
    case (1 relay_from E p bp pm pm' b)
    obtain nx c where c: "relay_step E p bp pm = Some (nx, c)"
      "(case nx of None \<Rightarrow> Some c | Some q \<Rightarrow> relay_from E p q c) = Some pm'"
      using 1(2) by (auto split: bind_splits)
    note k = relay_step_kept [OF c(1) 1(3,4,5,6,7)]
    show ?case
    proof (cases nx)
      case None
      then show ?thesis using c(2) k by simp
    next
      case (Some q)
      then have "relay_from E p q c = Some pm'" using c(2) by simp
      moreover have "chain_inv depth c" "near depth c" using k 1(4) by (auto simp: kept_def)
      ultimately have "kept depth c pm'" using 1(1) k Some by blast
      then show ?thesis using kept_trans k by blast
    qed
  qed
  then show ?thesis using assms(2-6) by blast
qed

lemma relayed_kept:
  assumes "peerRelayedBlock E p block pm = Some pm'" "chain_inv depth pm" "near depth pm" "in_tree depth block"
    and "depth (mb_blockHash block) \<le> last_height pm + 2016"
  shows "chain_inv depth pm' \<and> near depth pm' \<and> last_height pm \<le> last_height pm'"
proof -
  let ?p = "pm_next pm"
  let ?a = "pm\<lparr>pm_heap := (pm_heap pm)(?p \<mapsto> block), pm_next := ?p + 1\<rparr>"
  have inv: "blocks_ok depth pm" "orphans_ok pm" "heap_ok depth pm" "last_ok pm" using assms(2) by (simp_all add: chain_inv_def)
  have fresh: "pm_heap pm ?p = None" using inv(3) by (cases "pm_heap pm ?p") (auto simp: heap_ok_def)
  have loose: "loose ?p ?a" using inv(1,2) fresh by (fastforce simp: loose_def ran_def orphans_ok_def dest: blocks_okD)
  have other: "q \<noteq> ?p" if "pm_blocks pm h = Some q \<or> pm_orphans pm h = Some q" for h q
    using that loose by (auto simp: loose_def ran_def)
  have l: "pm_lastBlock pm \<noteq> ?p" using inv(4) other by (auto simp: last_ok_def)
  then have lh: "last_height ?a = last_height pm" by (simp add: last_height_def)
  have "blocks_ok depth ?a" "orphans_ok ?a" using inv(1,2) other by (fastforce simp: blocks_ok_def orphans_ok_def)+
  moreover have "heap_ok depth ?a" using inv(3) assms(4) by (auto simp: heap_ok_def less_Suc_eq)
  moreover have "last_ok ?a" using inv(4) l by (auto simp: last_ok_def)
  moreover have near: "near depth ?a"
    unfolding near_def lh using assms(3) other by (fastforce simp: near_def)
  ultimately have ia: "chain_inv depth ?a" by (simp add: chain_inv_def)
  have "relay_from E p ?p ?a = Some pm'" using assms(1) by (simp add: peerRelayedBlock_def alloc_block_def)
  then have "kept depth ?a pm'" by (rule relay_from_kept [OF _ ia near loose]) (use assms(5) lh in simp_all)
  then show ?thesis using near lh by (simp add: kept_def)
qed

text \<open>C8: relaying a block, with the orphans that wait for it, keeps the chain: every known block is live, found under its
  hash and has its true height in the tree of blocks, the last block is known, and its height never decreases. The
  orphans and the relayed block must not be more than a difficulty interval above the last block.\<close>

theorem relay_keeps_chain:
  assumes "peerRelayedBlock E p block pm = Some pm'" "chain_inv depth pm" "near depth pm" "in_tree depth block"
    and "depth (mb_blockHash block) \<le> last_height pm + 2016"
  shows "chain_inv depth pm' \<and> near depth pm' \<and> last_height pm \<le> last_height pm'"
  by (rule relayed_kept [OF assms])

definition chain_block :: "nat \<Rightarrow> u32 \<Rightarrow> BRMerkleBlock" where
  "chain_block n h = BRMerkleBlockNew\<lparr>mb_blockHash := word_of_nat n, mb_prevBlock := word_of_nat (n - 1), mb_totalTx := 1,
     mb_height := h\<rparr>"

text \<open>Block 10 is the last one; 12 waits for 11.\<close>

definition chain_pm :: BRPeerManager where
  "chain_pm = \<lparr>pm_wallet = demo_start, pm_isConnected = True, pm_connectFailureCount = 0, pm_misbehavinCount = 0,
     pm_maxConnectCount = 3, pm_peers = [], pm_downloadPeer = None, pm_fixedPeer = BRPeer.truncate demo_peer,
     pm_connectedPeers = [7], pm_earliestKeyTime = 0, pm_syncStartHeight = 0, pm_filterUpdateHeight = 0,
     pm_estimatedHeight = 20, pm_bloomFilter = Some (BRBloomFilterNew 10 (\<lambda>l. 3) 0 0), pm_fpRate = 0, pm_averageTxPerBlock = 1400,
     pm_blocks = [10 \<mapsto> 1], pm_orphans = [11 \<mapsto> 2], pm_checkpoints = (\<lambda>h. None), pm_lastBlock = 1, pm_lastOrphan = Some 2,
     pm_txRelays = [], pm_txRequests = [], pm_publishedTx = [], pm_publishedTxHashes = [], pm_callbacks = UNIV, pm_events = [],
     pm_ctx = (\<lambda>p. demo_peer), pm_heap = [1 \<mapsto> chain_block 10 10, 2 \<mapsto> chain_block 12 BLOCK_UNKNOWN_HEIGHT], pm_next = 3\<rparr>"

definition chain_env :: "u8 list manager_env" where
  "chain_env = \<lparr>me_peer = PeerLaws.demo_env, me_wallet = WalletInv.demo_env, me_time = 1600000000,
     me_bloomLength = (\<lambda>r n. 10), me_bloomFuncs = (\<lambda>r n l. 3)\<rparr>"

lemma chain_pm_inv: "chain_inv unat chain_pm" "near unat chain_pm" "last_height chain_pm = 10"
  by (auto simp: chain_inv_def blocks_ok_def orphans_ok_def heap_ok_def last_ok_def near_def last_height_def in_tree_def
      chain_pm_def chain_block_def BRMerkleBlockNew_def split: if_splits)

theorem relay_keeps_chain_witness:
  "\<exists>pm'. peerRelayedBlock chain_env 7 (chain_block 11 BLOCK_UNKNOWN_HEIGHT) chain_pm = Some pm' \<and> chain_inv unat pm' \<and>
    near unat pm' \<and> 10 \<le> last_height pm' \<and> last_height pm' = 12"
proof -
  have "\<exists>pm'. peerRelayedBlock chain_env 7 (chain_block 11 BLOCK_UNKNOWN_HEIGHT) chain_pm = Some pm' \<and> last_height pm' = 12"
    by (simp add: peerRelayedBlock_def alloc_block_def chain_pm_def relay_from.simps relay_step_def chain_block_def
      BRMerkleBlockNew_def BRMerkleBlockTxHashes_def from_root_def tx_hashes_r.simps ceil_log2_def track_rate_def relay_cases_def
      relay_known_def BRPeerManagerVerifyBlock_def BRMerkleBlockVerifyDifficulty_def relay_extends_def blocks_add_def
      relay_finish_def cut_blocks_def last_height_def manager_event_def Let_def UInt256Eq_def BLOCK_DIFFICULTY_INTERVAL_def
      BLOCK_UNKNOWN_HEIGHT_def)
  then obtain pm' where "peerRelayedBlock chain_env 7 (chain_block 11 BLOCK_UNKNOWN_HEIGHT) chain_pm = Some pm'"
    "last_height pm' = 12" by blast
  then show ?thesis
    using relay_keeps_chain [of chain_env 7 "chain_block 11 BLOCK_UNKNOWN_HEIGHT" chain_pm pm' unat] chain_pm_inv
    by (simp add: in_tree_def chain_block_def BRMerkleBlockNew_def)
qed

end
