(* ===== verification/ManagerOps.thy ===== *)
theory ManagerOps
  imports ManagerLaws
begin

text \<open>
  \<^verbatim>\<open>Libraries/loafwallet-core/BRPeerManager.c\<close>, second part: creating a manager, finding and connecting peers, what is
  done when a peer connects, disconnects, relays peers or transactions, and publishing. What the host system gives, the
  results of \<open>getaddrinfo\<close>, random numbers, and the lookups of other threads that end in time, is a second environment.
  \<open>qsort\<close> is a stable sort. The address of a new peer is one that no connected peer has.
\<close>

section \<open>Data\<close>

definition MAX_PEERS :: nat where "MAX_PEERS = 2500"
definition SERVICES_NODE_BLOOM :: u64 where "SERVICES_NODE_BLOOM = 4"
definition SERVICES_NODE_BCASH :: u64 where "SERVICES_NODE_BCASH = 0x20"
definition REJECT_SPENT :: u8 where "REJECT_SPENT = 0x12"
definition EINVAL :: int where "EINVAL = 22"
definition ENETUNREACH :: int where "ENETUNREACH = 51"
definition ENOTCONN :: int where "ENOTCONN = 57"

definition dns_seeds :: "string list" where
  "dns_seeds = [''dnsseed.litecoinpool.org.'', ''seed-a.litecoin.loshan.co.uk.'', ''dnsseed.thrasher.io.'',
     ''dnsseed.koin-project.com.'', ''dnsseed.litecointools.com.'']"

datatype addrinfo = AF_INET u32 | AF_INET6 UInt128 | AF_other

text \<open>\<open>mn_arrived\<close> are the seeds whose lookup in a thread of its own has ended when the wait for peers is over;
  \<open>mn_age\<close> are the random ages of its peers, and \<open>mn_rand k n\<close> is the \<open>k\<close>th random number below \<open>n\<close>.\<close>

record manager_net =
  mn_getaddrinfo :: "string \<Rightarrow> addrinfo list option"
  mn_arrived :: "string list"
  mn_age :: "string \<Rightarrow> nat \<Rightarrow> int"
  mn_rand :: "nat \<Rightarrow> nat \<Rightarrow> nat"
  mn_reachable :: "bool option"

section \<open>A new manager\<close>

definition sort_peers :: "BRPeer list \<Rightarrow> BRPeer list" where
  "sort_peers = sort_key (\<lambda>p. - int (unat (pr_timestamp p)))"

definition checkpoint_block :: "u32 \<times> string \<times> u32 \<times> u32 \<Rightarrow> BRMerkleBlock" where
  "checkpoint_block c = (case c of (h, s, t, target) \<Rightarrow>
     BRMerkleBlockNew\<lparr>mb_height := h, mb_blockHash := checkpoint_hash s, mb_timestamp := t, mb_target := target\<rparr>)"

definition add_checkpoint :: "nat \<Rightarrow> BRPeerManager \<Rightarrow> BRPeerManager" where
  "add_checkpoint i pm =
     (let b = checkpoint_block (checkpoint_array ! i); (p, pm) = alloc_block b pm;
          pm = pm\<lparr>pm_checkpoints := (pm_checkpoints pm)(mb_height b \<mapsto> p), pm_blocks := (pm_blocks pm)(mb_blockHash b \<mapsto> p)\<rparr>
      in if i = 0 \<or> mb_timestamp b + 7 * 24 * 60 * 60 < pm_earliestKeyTime pm then pm\<lparr>pm_lastBlock := p\<rparr> else pm)"

text \<open>The saved blocks are orphans at first; \<open>block\<close> is the last transition among them.\<close>

fun add_saved :: "BRMerkleBlock list \<Rightarrow> block_ptr option \<Rightarrow> BRPeerManager \<Rightarrow> (block_ptr option \<times> BRPeerManager) option" where
  "add_saved [] block pm = Some (block, pm)"
| "add_saved (b # bs) block pm =
     (if mb_height b = BLOCK_UNKNOWN_HEIGHT then None
      else (case alloc_block b pm of (p, pm) \<Rightarrow> do {
        let pm = pm\<lparr>pm_orphans := (pm_orphans pm)(mb_prevBlock b \<mapsto> p)\<rparr>;
        higher \<leftarrow> (case block of None \<Rightarrow> Some True | Some q \<Rightarrow> do { ob \<leftarrow> pm_heap pm q; Some (mb_height b > mb_height ob) });
        add_saved bs (if mb_height b mod BLOCK_DIFFICULTY_INTERVAL = 0 \<and> higher then Some p else block) pm
      }))"

partial_function (option) connect_saved :: "block_ptr option \<Rightarrow> BRPeerManager \<Rightarrow> BRPeerManager option" where
  "connect_saved block pm =
     (case block of
        None \<Rightarrow> Some pm
      | Some p \<Rightarrow> do {
          b \<leftarrow> pm_heap pm p;
          let pm = pm\<lparr>pm_blocks := (pm_blocks pm)(mb_blockHash b \<mapsto> p), pm_lastBlock := p,
                pm_orphans := (pm_orphans pm)(mb_prevBlock b := None)\<rparr>;
          connect_saved (pm_orphans pm (mb_blockHash b)) pm
        })"

definition manager_start :: "BRWallet \<Rightarrow> u32 \<Rightarrow> BRPeer list \<Rightarrow> BRPeerManager" where
  "manager_start wallet earliestKeyTime peers =
     \<lparr>pm_wallet = wallet, pm_isConnected = False, pm_connectFailureCount = 0, pm_misbehavinCount = 0,
      pm_maxConnectCount = PEER_MAX_CONNECTIONS, pm_peers = sort_peers peers, pm_downloadPeer = None,
      pm_fixedPeer = BR_PEER_NONE, pm_connectedPeers = [], pm_earliestKeyTime = earliestKeyTime, pm_syncStartHeight = 0,
      pm_filterUpdateHeight = 0, pm_estimatedHeight = 0, pm_bloomFilter = None, pm_fpRate = 0, pm_averageTxPerBlock = 1400,
      pm_blocks = (\<lambda>h. None), pm_orphans = (\<lambda>h. None), pm_checkpoints = (\<lambda>h. None), pm_lastBlock = 0, pm_lastOrphan = None,
      pm_txRelays = [], pm_txRequests = [], pm_publishedTx = [], pm_publishedTxHashes = [], pm_callbacks = {}, pm_events = [],
      pm_ctx = (\<lambda>p. BRPeerNew), pm_heap = (\<lambda>p. None), pm_next = 1\<rparr>"

definition BRPeerManagerNew :: "BRWallet \<Rightarrow> u32 \<Rightarrow> BRMerkleBlock list \<Rightarrow> BRPeer list \<Rightarrow> BRPeerManager option" where
  "BRPeerManagerNew wallet earliestKeyTime saved peers = do {
     let pm = fold add_checkpoint [0..<length checkpoint_array] (manager_start wallet earliestKeyTime peers);
     (block, pm) \<leftarrow> add_saved saved None pm;
     connect_saved block pm
   }"

definition BRPeerManagerSetCallbacks :: "manager_callback set \<Rightarrow> BRPeerManager \<Rightarrow> BRPeerManager" where
  "BRPeerManagerSetCallbacks callbacks pm = pm\<lparr>pm_callbacks := callbacks\<rparr>"

section \<open>Finding peers\<close>

definition addr_of :: "addrinfo \<Rightarrow> UInt128 list" where
  "addr_of a = (case a of AF_INET s \<Rightarrow> [push_bit 80 0xffff OR push_bit 96 (ucast s)] | AF_INET6 s \<Rightarrow> [s] | AF_other \<Rightarrow> [])"

text \<open>The addresses up to the zero one that ends the array.\<close>

definition addressLookup :: "manager_net \<Rightarrow> string \<Rightarrow> UInt128 list" where
  "addressLookup N hostname =
     (case mn_getaddrinfo N hostname of None \<Rightarrow> [] | Some servinfo \<Rightarrow> takeWhile (\<lambda>a. a \<noteq> 0) (concat (map addr_of servinfo)))"

definition dns_peer :: "u64 \<Rightarrow> UInt128 \<Rightarrow> int \<Rightarrow> BRPeer" where
  "dns_peer services addr timestamp =
     \<lparr>pr_address = addr, pr_port = STANDARD_PORT, pr_services = services, pr_timestamp = word_of_int timestamp, pr_flags = 0\<rparr>"

definition findPeersThreadRoutine :: "'k manager_env \<Rightarrow> manager_net \<Rightarrow> u64 \<Rightarrow> string \<Rightarrow> BRPeerManager \<Rightarrow> BRPeerManager" where
  "findPeersThreadRoutine E N services hostname pm =
     (let addrs = addressLookup N hostname in
      pm\<lparr>pm_peers := pm_peers pm @
        map (\<lambda>k. dns_peer services (addrs ! k) (me_time E - (24 * 60 * 60 + mn_age N hostname k))) [0..<length addrs]\<rparr>)"

definition BRPeerManagerFindPeers :: "'k manager_env \<Rightarrow> manager_net \<Rightarrow> BRPeerManager \<Rightarrow> BRPeerManager" where
  "BRPeerManagerFindPeers E N pm =
     (let services = SERVICES_NODE_NETWORK OR SERVICES_NODE_BLOOM in
      if pr_address (pm_fixedPeer pm) \<noteq> 0
      then pm\<lparr>pm_peers := [(pm_fixedPeer pm)\<lparr>pr_services := services, pr_timestamp := word_of_int (me_time E)\<rparr>]\<rparr>
      else
        let pm = pm\<lparr>pm_peers := pm_peers pm @ map (\<lambda>a. dns_peer services a (me_time E)) (addressLookup N (dns_seeds ! 0))\<rparr>;
            pm = fold (findPeersThreadRoutine E N services) (mn_arrived N) pm
        in pm\<lparr>pm_peers := sort_peers (pm_peers pm)\<rparr>)"

section \<open>Connecting\<close>

definition fresh_peer :: "BRPeerManager \<Rightarrow> peer_ptr" where
  "fresh_peer pm = Suc (fold max (pm_connectedPeers pm) 0)"

definition connect_peer :: "'k manager_env \<Rightarrow> BRPeer \<Rightarrow> BRPeerManager \<Rightarrow> BRPeerManager" where
  "connect_peer E peer pm =
     (let p = fresh_peer pm;
          ctx = BRPeerNew\<lparr>pr_address := pr_address peer, pr_port := pr_port peer, pr_services := pr_services peer,
                  pr_timestamp := pr_timestamp peer, pr_flags := pr_flags peer\<rparr>;
          ctx = BRPeerSetEarliestKeyTime (BRPeerSetCallbacks ctx UNIV) (pm_earliestKeyTime pm)
      in pm\<lparr>pm_connectedPeers := pm_connectedPeers pm @ [p], pm_ctx := (pm_ctx pm)(p := BRPeerConnect (me_peer E) ctx)\<rparr>)"

text \<open>\<open>peers\<close> are the candidates that are left; the choice is biased towards the first ones.\<close>

function connect_loop :: "'k manager_env \<Rightarrow> manager_net \<Rightarrow> nat \<Rightarrow> BRPeer list \<Rightarrow> BRPeerManager \<Rightarrow> BRPeerManager option" where
  "connect_loop E N k peers pm =
     (if peers = [] \<or> length (pm_connectedPeers pm) \<ge> pm_maxConnectCount pm then Some pm
      else
        let i = mn_rand N k (length peers); i = i * i div length peers in
        if i \<ge> length peers then None
        else connect_loop E N (k + 1) (rm_at peers i)
          (if list_ex (\<lambda>q. BRPeerEq (peers ! i) (pm_ctx pm q)) (pm_connectedPeers pm) then pm else connect_peer E (peers ! i) pm))"
  by pat_completeness auto
termination
  by (relation "measure (\<lambda>(E, N, k, peers, pm). length peers)") (auto simp: rm_at_def)

declare connect_loop.simps [simp del]

text \<open>The last block is looked at unless there is neither a download peer nor a need to start.\<close>

definition sync_start :: "BRPeerManager \<Rightarrow> BRPeerManager option" where
  "sync_start pm =
     (if pm_downloadPeer pm = None \<and> pm_syncStartHeight pm \<noteq> 0 then Some pm
      else do {
        lastBlock \<leftarrow> pm_heap pm (pm_lastBlock pm);
        Some (if (pm_downloadPeer pm = None \<or> mb_height lastBlock < pm_estimatedHeight pm) \<and> pm_syncStartHeight pm = 0
          then manager_event CbSyncStarted SyncStarted (pm\<lparr>pm_syncStartHeight := mb_height lastBlock + 1\<rparr>) else pm)
      })"

definition retry_connecting :: "'k manager_env \<Rightarrow> BRPeerManager \<Rightarrow> BRPeerManager" where
  "retry_connecting E pm =
     fold (\<lambda>p pm. if BRPeerConnectStatus (pm_ctx pm p) = BRPeerStatusConnecting
       then on_peer p (BRPeerConnect (me_peer E)) pm else pm) (rev (pm_connectedPeers pm)) pm"

text \<open>The list of peers is used as it is, or looked up when it is short or old.\<close>

definition fresh_peers :: "'k manager_env \<Rightarrow> manager_net \<Rightarrow> BRPeerManager \<Rightarrow> BRPeerManager" where
  "fresh_peers E N pm =
     (if length (pm_peers pm) < pm_maxConnectCount pm \<or>
         pr_timestamp (pm_peers pm ! (pm_maxConnectCount pm - 1)) + 3 * 24 * 60 * 60 < word_of_int (me_time E)
      then BRPeerManagerFindPeers E N pm else pm)"

definition fill_connections :: "'k manager_env \<Rightarrow> manager_net \<Rightarrow> BRPeerManager \<Rightarrow> BRPeerManager option" where
  "fill_connections E N pm =
     (if length (pm_connectedPeers pm) < pm_maxConnectCount pm
      then let pm = fresh_peers E N pm in connect_loop E N 0 (take 100 (pm_peers pm)) pm
      else Some pm)"

definition BRPeerManagerConnect :: "'k manager_env \<Rightarrow> manager_net \<Rightarrow> BRPeerManager \<Rightarrow> BRPeerManager option" where
  "BRPeerManagerConnect E N pm = do {
     let pm = (if pm_connectFailureCount pm \<ge> MAX_CONNECT_FAILURES then pm\<lparr>pm_connectFailureCount := 0\<rparr> else pm);
     pm \<leftarrow> sync_start pm;
     pm \<leftarrow> fill_connections E N (retry_connecting E pm);
     Some (if pm_connectedPeers pm = []
       then manager_event CbSyncStopped (SyncStopped ENETUNREACH) (BRPeerManagerSyncStopped E pm) else pm)
   }"

text \<open>Before the wait until the peers are gone.\<close>

definition BRPeerManagerDisconnect :: "BRPeerManager \<Rightarrow> BRPeerManager" where
  "BRPeerManagerDisconnect pm =
     fold (\<lambda>p pm. on_peer p BRPeerDisconnect (pm\<lparr>pm_connectFailureCount := MAX_CONNECT_FAILURES\<rparr>)) (rev (pm_connectedPeers pm)) pm"

text \<open>After \<open>BRPeerManagerDisconnect\<close> has returned.\<close>

definition BRPeerManagerSetFixedPeer :: "UInt128 \<Rightarrow> u16 \<Rightarrow> BRPeerManager \<Rightarrow> BRPeerManager" where
  "BRPeerManagerSetFixedPeer address port pm =
     pm\<lparr>pm_maxConnectCount := (if address = 0 then PEER_MAX_CONNECTIONS else 1),
        pm_fixedPeer := \<lparr>pr_address = address, pr_port = port, pr_services = 0, pr_timestamp = 0, pr_flags = 0\<rparr>, pm_peers := []\<rparr>"

definition BRPeerManagerIsConnected :: "BRPeerManager \<Rightarrow> bool" where
  "BRPeerManagerIsConnected pm = pm_isConnected pm"

text \<open>Which checkpoint a scan starts from.\<close>

fun scan_start :: "u32 \<Rightarrow> nat \<Rightarrow> nat" where
  "scan_start earliestKeyTime 0 = 0"
| "scan_start earliestKeyTime (Suc i) =
     (if i = 0 \<or> fst (snd (snd (checkpoint_array ! i))) + 7 * 24 * 60 * 60 < earliestKeyTime then i
      else scan_start earliestKeyTime i)"

definition BRPeerManagerRescan :: "'k manager_env \<Rightarrow> manager_net \<Rightarrow> BRPeerManager \<Rightarrow> BRPeerManager option" where
  "BRPeerManagerRescan E N pm =
     (if pm_isConnected pm
      then do {
        let i = scan_start (pm_earliestKeyTime pm) (length checkpoint_array);
        lastBlock \<leftarrow> pm_blocks pm (checkpoint_hash (fst (snd (checkpoint_array ! i))));
        let pm = pm\<lparr>pm_lastBlock := lastBlock\<rparr>;
        let pm = (case pm_downloadPeer pm of None \<Rightarrow> pm
          | Some d \<Rightarrow> on_peer d BRPeerDisconnect (pm\<lparr>pm_peers := filter (\<lambda>q. \<not> BRPeerEq q (pm_ctx pm d)) (pm_peers pm)\<rparr>));
        BRPeerManagerConnect E N (pm\<lparr>pm_syncStartHeight := 0\<rparr>)
      }
      else Some pm)"

section \<open>Publishing\<close>

definition published :: "nat option \<Rightarrow> nat \<Rightarrow> int \<Rightarrow> BRPeerManager \<Rightarrow> BRPeerManager" where
  "published callback info error pm =
     (case callback of None \<Rightarrow> pm | Some cb \<Rightarrow> pm\<lparr>pm_events := pm_events pm @ [TxPublished cb info error]\<rparr>)"

text \<open>A transaction and its unconfirmed inputs are added, each once.\<close>

partial_function (option) BRPeerManagerAddTxToPublishList ::
    "BRTransaction option \<Rightarrow> nat \<Rightarrow> nat option \<Rightarrow> BRPeerManager \<Rightarrow> BRPeerManager option" where
  "BRPeerManagerAddTxToPublishList tx info callback pm =
     (case tx of
        None \<Rightarrow> Some pm
      | Some t \<Rightarrow>
          if tx_blockHeight t = TX_UNCONFIRMED \<and> \<not> list_ex (\<lambda>p. BRTransactionEq (pub_tx p) t) (pm_publishedTx pm)
          then fold_opt (\<lambda>i pm. do {
                 parent \<leftarrow> BRWalletTransactionForHash (pm_wallet pm) (in_txHash i);
                 BRPeerManagerAddTxToPublishList parent 0 None pm
               }) (tx_inputs t)
               (pm\<lparr>pm_publishedTx := pm_publishedTx pm @ [\<lparr>pub_tx = t, pub_info = info, pub_callback = callback\<rparr>],
                   pm_publishedTxHashes := pm_publishedTxHashes pm @ [tx_txHash t]\<rparr>)
          else Some pm)"

definition publishTxInvDone :: "'k manager_env \<Rightarrow> peer_ptr \<Rightarrow> bool \<Rightarrow> BRPeerManager \<Rightarrow> BRPeerManager option" where
  "publishTxInvDone E p success pm = BRPeerManagerRequestUnrelayedTx E p pm"

definition connected_count :: "BRPeerManager \<Rightarrow> nat" where
  "connected_count pm = length (filter (\<lambda>p. BRPeerConnectStatus (pm_ctx pm p) = BRPeerStatusConnected) (pm_connectedPeers pm))"

definition publish_to_peers :: "'k manager_env \<Rightarrow> BRPeerManager \<Rightarrow> BRPeerManager" where
  "publish_to_peers E pm =
     (let count = connected_count pm in
      fold (\<lambda>p pm. if BRPeerConnectStatus (pm_ctx pm p) = BRPeerStatusConnected \<and> (pm_downloadPeer pm \<noteq> Some p \<or> count = 1)
          then on_peer p (BRPeerSendPing (me_peer E) p (Some publishTxInvDone_cb)) (BRPeerManagerPublishPendingTx E p pm)
          else pm) (rev (pm_connectedPeers pm)) pm)"

definition BRPeerManagerPublishTx :: "'k manager_env \<Rightarrow> manager_net \<Rightarrow> BRTransaction \<Rightarrow> nat \<Rightarrow> nat option \<Rightarrow> BRPeerManager \<Rightarrow>
    BRPeerManager option" where
  "BRPeerManagerPublishTx E N tx info callback pm =
     (if \<not> BRTransactionIsSigned tx then None
      else if \<not> pm_isConnected pm \<and> (pm_connectFailureCount pm \<ge> MAX_CONNECT_FAILURES \<or> mn_reachable N = Some False)
      then Some (published callback info ENOTCONN pm)
      else do {
        pm \<leftarrow> BRPeerManagerAddTxToPublishList (Some (tx\<lparr>tx_timestamp := word_of_int (me_time E)\<rparr>)) info callback pm;
        Some (publish_to_peers E pm)
      })"

definition BRPeerManagerRelayCount :: "BRPeerManager \<Rightarrow> UInt256 \<Rightarrow> nat option" where
  "BRPeerManagerRelayCount pm txHash = (if UInt256IsZero txHash then None else Some (BRTxPeerListCount (pm_txRelays pm) txHash))"

section \<open>The handlers of a peer\<close>

text \<open>The connected peer with the lowest ping time among those with the highest last block.\<close>

definition better_peer :: "BRPeerManager \<Rightarrow> peer_ptr \<Rightarrow> peer_ptr \<Rightarrow> peer_ptr" where
  "better_peer pm p peer =
     (let c = pm_ctx pm p; d = pm_ctx pm peer in
      if BRPeerConnectStatus c = BRPeerStatusConnected \<and>
         (BRPeerPingTime c < BRPeerPingTime d \<and> BRPeerLastBlock c \<ge> BRPeerLastBlock d \<or> BRPeerLastBlock c > BRPeerLastBlock d)
      then p else peer)"

text \<open>The blocks of a peer that has more are asked for, headers only up to a week before the first key.\<close>

definition start_sync :: "'k manager_env \<Rightarrow> peer_ptr \<Rightarrow> BRMerkleBlock \<Rightarrow> BRPeerManager \<Rightarrow> BRPeerManager option" where
  "start_sync E p lastBlock pm =
     (if mb_height lastBlock < BRPeerLastBlock (pm_ctx pm p)
      then do {
        hashes \<leftarrow> locators pm;
        let pm = on_peer p (\<lambda>ctx. BRPeerScheduleDisconnect (me_peer E) ctx PROTOCOL_TIMEOUT) pm;
        Some (on_peer p (if mb_timestamp lastBlock + 7 * 24 * 60 * 60 \<ge> pm_earliestKeyTime pm
          then BRPeerSendGetblocks (me_peer E) hashes 0 else BRPeerSendGetheaders (me_peer E) hashes 0) pm)
      }
      else BRPeerManagerLoadMempools E (pm\<lparr>pm_connectFailureCount := 0\<rparr>))"

definition start_download :: "'k manager_env \<Rightarrow> peer_ptr \<Rightarrow> BRMerkleBlock \<Rightarrow> BRPeerManager \<Rightarrow> BRPeerManager option" where
  "start_download E peer lastBlock pm = do {
     let p = fold (better_peer pm) (rev (pm_connectedPeers pm)) peer;
     let pm = (case pm_downloadPeer pm of None \<Rightarrow> pm | Some d \<Rightarrow> on_peer d BRPeerDisconnect pm);
     let pm = pm\<lparr>pm_downloadPeer := Some p, pm_isConnected := True, pm_estimatedHeight := BRPeerLastBlock (pm_ctx pm p)\<rparr>;
     pm \<leftarrow> BRPeerManagerLoadBloomFilter E p pm;
     let pm = on_peer p (\<lambda>ctx. BRPeerSetCurrentBlockHeight ctx (mb_height lastBlock)) pm;
     let pm = BRPeerManagerPublishPendingTx E p pm;
     start_sync E p lastBlock pm
   }"

definition peerConnected :: "'k manager_env \<Rightarrow> peer_ptr \<Rightarrow> BRPeerManager \<Rightarrow> BRPeerManager option" where
  "peerConnected E p pm = do {
     let now = word_of_int (me_time E);
     let ts = pr_timestamp (pm_ctx pm p);
     let pm = (if ts > now + 2 * 60 * 60 \<or> ts < now - 2 * 60 * 60 then on_peer p (\<lambda>ctx. ctx\<lparr>pr_timestamp := now\<rparr>) pm else pm);
     let ctx = pm_ctx pm p;
     if pr_services ctx AND SERVICES_NODE_NETWORK = 0 then Some (on_peer p BRPeerDisconnect pm) else do {
     lastBlock \<leftarrow> pm_heap pm (pm_lastBlock pm);
     if BRPeerLastBlock ctx + 10 < mb_height lastBlock \<or>
        pr_services ctx AND SERVICES_NODE_BCASH = SERVICES_NODE_BCASH \<or>
        BRPeerVersion ctx \<ge> 70011 \<and> pr_services ctx AND SERVICES_NODE_BLOOM = 0
     then Some (on_peer p BRPeerDisconnect pm)
     else (case pm_downloadPeer pm of
         None \<Rightarrow> start_download E p lastBlock pm
       | Some d \<Rightarrow>
           if BRPeerLastBlock (pm_ctx pm d) \<ge> BRPeerLastBlock ctx \<or> mb_height lastBlock \<ge> BRPeerLastBlock ctx
           then (if mb_height lastBlock \<ge> BRPeerLastBlock ctx
             then do {
               pm \<leftarrow> BRPeerManagerLoadBloomFilter E p (pm\<lparr>pm_connectFailureCount := 0\<rparr>);
               Some (on_peer p (BRPeerSendPing (me_peer E) p (Some loadBloomFilterDone_cb)) (BRPeerManagerPublishPendingTx E p pm))
             }
             else Some pm)
           else start_download E p lastBlock pm)
     }
   }"

text \<open>The pending callbacks are called, and their transactions dropped, when publishing has failed.\<close>

definition cancel_published :: "BRPeerManager \<Rightarrow> (nat \<times> nat) list \<times> BRPeerManager" where
  "cancel_published pm =
     (map (\<lambda>t. (the (pub_callback t), pub_info t)) (filter (\<lambda>t. pub_callback t \<noteq> None) (rev (pm_publishedTx pm))),
      keep_published (\<lambda>t. pub_callback t = None) pm)"

text \<open>What the error of the connection means for the known peers, and for what is being published.\<close>

definition disconnect_error :: "peer_ptr \<Rightarrow> int \<Rightarrow> BRPeerManager \<Rightarrow> int \<times> BRPeerManager" where
  "disconnect_error p error pm =
     (if error = EPROTO then (0, BRPeerManagerPeerMisbehavin p pm)
      else if error \<noteq> 0
      then (if error = ETIMEDOUT \<and> (pm_downloadPeer pm \<noteq> Some p \<or> pm_syncStartHeight pm = 0 \<or> length (pm_connectedPeers pm) = 1)
            then ETIMEDOUT else 0,
            pm\<lparr>pm_peers := filter (\<lambda>q. \<not> BRPeerEq q (pm_ctx pm p)) (pm_peers pm),
               pm_connectFailureCount := pm_connectFailureCount pm + 1\<rparr>)
      else (0, pm))"

definition forget_peer :: "peer_ptr \<Rightarrow> BRPeerManager \<Rightarrow> BRPeerManager" where
  "forget_peer p pm =
     (let pm = pm\<lparr>pm_txRelays := map (\<lambda>(h, ps). (h, filter (\<lambda>q. \<not> BRPeerEq q (pm_ctx pm p)) ps)) (pm_txRelays pm)\<rparr>
      in if pm_downloadPeer pm = Some p
         then pm\<lparr>pm_isConnected := False, pm_downloadPeer := None,
                 pm_connectFailureCount := min (pm_connectFailureCount pm) MAX_CONNECT_FAILURES\<rparr> else pm)"

text \<open>The end of the handler, without the lock: what was published has failed with \<open>txError\<close>.\<close>

definition disconnect_notify :: "(nat \<times> nat) list \<Rightarrow> int \<Rightarrow> bool \<Rightarrow> int \<Rightarrow> BRPeerManager \<Rightarrow> BRPeerManager" where
  "disconnect_notify cbs txError failed error pm =
     (let pm = fold (\<lambda>(cb, info). published (Some cb) info txError) cbs pm
      in if failed then manager_event CbSyncStopped (SyncStopped error) (manager_event CbSavePeers (SavePeers True []) pm) else pm)"

definition peerDisconnected :: "'k manager_env \<Rightarrow> manager_net \<Rightarrow> peer_ptr \<Rightarrow> int \<Rightarrow> BRPeerManager \<Rightarrow> BRPeerManager option" where
  "peerDisconnected E N p error pm =
     (case disconnect_error p error pm of (txError, pm) \<Rightarrow> do {
        let pm = forget_peer p pm;
        let failed = (\<not> pm_isConnected pm \<and> pm_connectFailureCount pm = MAX_CONNECT_FAILURES);
        let willReconnect = (\<not> failed \<and> pm_connectFailureCount pm < MAX_CONNECT_FAILURES);
        let txError = (if failed then ENOTCONN else txError);
        let pm = (if failed then (BRPeerManagerSyncStopped E pm)\<lparr>pm_peers := []\<rparr> else pm);
        let cbs = (if txError \<noteq> 0 then fst (cancel_published pm) else []);
        let pm = (if txError \<noteq> 0 then snd (cancel_published pm) else pm);
        let pm = pm\<lparr>pm_connectedPeers := rev (remove1 p (rev (pm_connectedPeers pm)))\<rparr>;
        let pm = disconnect_notify cbs txError failed error pm;
        pm \<leftarrow> (if willReconnect then BRPeerManagerConnect E N pm else Some pm);
        Some (manager_event CbTxStatusUpdate TxStatusUpdate pm)
      })"

fun drop_old :: "u64 \<Rightarrow> BRPeer list \<Rightarrow> nat \<Rightarrow> nat" where
  "drop_old now peers 0 = 0"
| "drop_old now peers (Suc n) =
     (if Suc n > 1000 \<and> pr_timestamp (peers ! n) + 3 * 60 * 60 < now then drop_old now peers n else Suc n)"

definition peerRelayedPeers :: "'k manager_env \<Rightarrow> BRPeer list \<Rightarrow> BRPeerManager \<Rightarrow> BRPeerManager" where
  "peerRelayedPeers E peers pm =
     (let ps = sort_peers (pm_peers pm @ peers);
          ps = (if length ps > MAX_PEERS then take MAX_PEERS ps else ps);
          n = drop_old (word_of_int (me_time E)) ps (length ps);
          pm = pm\<lparr>pm_peers := take n ps\<rparr>
      in if n > 1 \<and> n < 1000 then manager_event CbSavePeers (SavePeers True (take n ps)) pm else pm)"

text \<open>A peer has a published transaction: its callback is taken, the last one found; \<open>pending\<close> says that there are others.\<close>

definition claim_step :: "UInt256 \<Rightarrow> peer_ptr \<Rightarrow> nat \<Rightarrow> nat \<times> nat option \<times> bool \<times> nat \<times> BRPeerManager \<Rightarrow>
    nat \<times> nat option \<times> bool \<times> nat \<times> BRPeerManager" where
  "claim_step txHash p i s = (case s of (info, callback, pending, n, pm) \<Rightarrow>
     let t = pm_publishedTx pm ! i in
     if UInt256Eq (pm_publishedTxHashes pm ! i) txHash
     then let (relays, n) = BRTxPeerListAddPeer (pm_txRelays pm) txHash (pm_ctx pm p) in
       (pub_info t, pub_callback t, pending, n,
        pm\<lparr>pm_publishedTx := (pm_publishedTx pm)[i := t\<lparr>pub_info := 0, pub_callback := None\<rparr>], pm_txRelays := relays\<rparr>)
     else (info, callback, pending \<or> pub_callback t \<noteq> None, n, pm))"

definition claim :: "UInt256 \<Rightarrow> peer_ptr \<Rightarrow> BRPeerManager \<Rightarrow> nat \<times> nat option \<times> bool \<times> nat \<times> BRPeerManager" where
  "claim txHash p pm = fold (claim_step txHash p) (rev [0..<length (pm_publishedTx pm)]) (0, None, False, 0, pm)"

definition cancel_timeout :: "'k manager_env \<Rightarrow> peer_ptr \<Rightarrow> bool \<Rightarrow> BRPeerManager \<Rightarrow> BRPeerManager" where
  "cancel_timeout E p pending pm =
     (if \<not> pending \<and> (pm_syncStartHeight pm = 0 \<or> pm_downloadPeer pm \<noteq> Some p)
      then on_peer p (\<lambda>ctx. BRPeerScheduleDisconnect (me_peer E) ctx (-1)) pm else pm)"

text \<open>Is one of the next unused addresses not in the filter?\<close>

definition filter_misses :: "BRBloomFilter \<Rightarrow> u8 list list \<Rightarrow> bool option" where
  "filter_misses f addrs = any_opt (\<lambda>a. case BRAddressHash160 a of None \<Rightarrow> Some False
     | Some hash \<Rightarrow> do { c \<leftarrow> BRBloomFilterContainsData f (Some hash); Some (\<not> c) }) addrs"

definition check_filter :: "'k manager_env \<Rightarrow> BRPeerManager \<Rightarrow> BRPeerManager option" where
  "check_filter E pm =
     (case pm_bloomFilter pm of
        None \<Rightarrow> Some pm
      | Some f \<Rightarrow> do {
          (xs, w) \<leftarrow> BRWalletUnusedAddrs (me_wallet E) (pm_wallet pm) True SEQUENCE_GAP_LIMIT_EXTERNAL False;
          (ys, w) \<leftarrow> BRWalletUnusedAddrs (me_wallet E) w True SEQUENCE_GAP_LIMIT_INTERNAL True;
          if length xs \<noteq> SEQUENCE_GAP_LIMIT_EXTERNAL \<or> length ys \<noteq> SEQUENCE_GAP_LIMIT_INTERNAL then None
          else do {
            missed \<leftarrow> filter_misses f (xs @ ys);
            let pm = pm\<lparr>pm_wallet := w\<rparr>;
            Some (if missed then BRPeerManagerUpdateFilter E (pm\<lparr>pm_bloomFilter := None\<rparr>) else pm)
          }
        })"

text \<open>Enough peers have the transaction: it is verified.\<close>

definition mark_verified :: "'k manager_env \<Rightarrow> BRTransaction option \<Rightarrow> UInt256 \<Rightarrow> nat \<Rightarrow> BRPeerManager \<Rightarrow> BRPeerManager option" where
  "mark_verified E tx txHash relayCount pm =
     (case tx of
        None \<Rightarrow> Some pm
      | Some t \<Rightarrow>
          if relayCount \<ge> pm_maxConnectCount pm \<and> tx_blockHeight t = TX_UNCONFIRMED \<and> tx_timestamp t = 0
          then BRPeerManagerUpdateTx E [txHash] TX_UNCONFIRMED (word_of_int (me_time E)) pm else Some pm)"

definition own_tx_relayed :: "'k manager_env \<Rightarrow> peer_ptr \<Rightarrow> BRTransaction \<Rightarrow> nat \<Rightarrow> BRPeerManager \<Rightarrow> (nat \<times> BRPeerManager) option" where
  "own_tx_relayed E p tx relayCount pm = do {
     let pm = (if pm_syncStartHeight pm > 0 \<and> pm_downloadPeer pm = Some p
       then on_peer p (\<lambda>ctx. BRPeerScheduleDisconnect (me_peer E) ctx PROTOCOL_TIMEOUT) pm else pm);
     send \<leftarrow> (if BRWalletAmountSentByTx (pm_wallet pm) tx > 0 then BRWalletTransactionIsValid (pm_wallet pm) tx else Some False);
     pm \<leftarrow> (if send then BRPeerManagerAddTxToPublishList (Some tx) 0 None pm else Some pm);
     let (relayCount, pm) = (if pm_syncStartHeight pm = 0
       then (case BRTxPeerListAddPeer (pm_txRelays pm) (tx_txHash tx) (pm_ctx pm p) of (l, n) \<Rightarrow> (n, pm\<lparr>pm_txRelays := l\<rparr>))
       else (relayCount, pm));
     let pm = pm\<lparr>pm_txRequests := fst (BRTxPeerListRemovePeer (pm_txRequests pm) (tx_txHash tx) (pm_ctx pm p))\<rparr>;
     pm \<leftarrow> check_filter E pm;
     Some (relayCount, pm)
   }"

definition peerRelayedTx :: "'k manager_env \<Rightarrow> peer_ptr \<Rightarrow> BRTransaction \<Rightarrow> BRPeerManager \<Rightarrow> BRPeerManager option" where
  "peerRelayedTx E p tx pm = do {
     let (info, callback, pending, relayCount, pm) = claim (tx_txHash tx) p pm;
     let pm = cancel_timeout E p pending pm;
     (isWalletTx, t, pm) \<leftarrow> (if pm_syncStartHeight pm = 0 \<or> BRWalletContainsTransaction (pm_wallet pm) tx
       then do {
         (r, w) \<leftarrow> BRWalletRegisterTransaction (me_wallet E) (pm_wallet pm) tx;
         t \<leftarrow> (if r then BRWalletTransactionForHash w (tx_txHash tx) else Some (Some tx));
         Some (r, t, pm\<lparr>pm_wallet := w\<rparr>)
       }
       else Some (False, None, pm));
     (relayCount, pm) \<leftarrow> (case t of Some t' \<Rightarrow> if isWalletTx then own_tx_relayed E p t' relayCount pm else Some (relayCount, pm)
       | None \<Rightarrow> Some (relayCount, pm));
     pm \<leftarrow> mark_verified E t (case t of Some t' \<Rightarrow> tx_txHash t' | None \<Rightarrow> 0) relayCount pm;
     Some (published callback info 0 pm)
   }"

definition peerHasTx :: "'k manager_env \<Rightarrow> peer_ptr \<Rightarrow> UInt256 \<Rightarrow> BRPeerManager \<Rightarrow> BRPeerManager option" where
  "peerHasTx E p txHash pm = do {
     t \<leftarrow> BRWalletTransactionForHash (pm_wallet pm) txHash;
     let known = filter (\<lambda>i. UInt256Eq (pm_publishedTxHashes pm ! i) txHash) (rev [0..<length (pm_publishedTx pm)]);
     let t = (if t = None \<and> known \<noteq> [] then Some (pub_tx (pm_publishedTx pm ! hd known)) else t);
     let (info, callback, pending, relayCount, pm) = claim txHash p pm;
     let pm = cancel_timeout E p pending pm;
     pm \<leftarrow> (case t of
         None \<Rightarrow> Some pm
       | Some tx \<Rightarrow> do {
           (r, w) \<leftarrow> BRWalletRegisterTransaction (me_wallet E) (pm_wallet pm) tx;
           t \<leftarrow> (if r then BRWalletTransactionForHash w (tx_txHash tx) else Some (Some tx));
           let pm = pm\<lparr>pm_wallet := w\<rparr>;
           let pm = (if pm_syncStartHeight pm > 0 \<and> pm_downloadPeer pm = Some p \<and> r
             then on_peer p (\<lambda>ctx. BRPeerScheduleDisconnect (me_peer E) ctx PROTOCOL_TIMEOUT) pm else pm);
           let (relayCount, pm) = (if pm_syncStartHeight pm = 0
             then (case BRTxPeerListAddPeer (pm_txRelays pm) txHash (pm_ctx pm p) of (l, n) \<Rightarrow> (n, pm\<lparr>pm_txRelays := l\<rparr>))
             else (relayCount, pm));
           pm \<leftarrow> mark_verified E t txHash relayCount pm;
           Some (pm\<lparr>pm_txRequests := fst (BRTxPeerListRemovePeer (pm_txRequests pm) txHash (pm_ctx pm p))\<rparr>)
         });
     Some (published callback info 0 pm)
   }"

definition peerRejectedTx :: "'k manager_env \<Rightarrow> peer_ptr \<Rightarrow> UInt256 \<Rightarrow> u8 \<Rightarrow> BRPeerManager \<Rightarrow> BRPeerManager option" where
  "peerRejectedTx E p txHash code pm = do {
     t \<leftarrow> BRWalletTransactionForHash (pm_wallet pm) txHash;
     let pm = pm\<lparr>pm_txRequests := fst (BRTxPeerListRemovePeer (pm_txRequests pm) txHash (pm_ctx pm p))\<rparr>;
     pm \<leftarrow> (case t of
         None \<Rightarrow> Some pm
       | Some tx \<Rightarrow> do {
           let (relays, removed) = BRTxPeerListRemovePeer (pm_txRelays pm) txHash (pm_ctx pm p);
           let pm = pm\<lparr>pm_txRelays := relays\<rparr>;
           pm \<leftarrow> (if removed \<and> tx_blockHeight tx = TX_UNCONFIRMED then BRPeerManagerUpdateTx E [txHash] TX_UNCONFIRMED 0 pm else Some pm);
           tx \<leftarrow> wl_allTx (pm_wallet pm) txHash;
           if code \<noteq> REJECT_SPENT \<and> BRWalletAmountSentByTx (pm_wallet pm) tx > 0
           then do {
             unconfirmed \<leftarrow> any_opt (\<lambda>i. do {
               t \<leftarrow> BRWalletTransactionForHash (pm_wallet pm) (in_txHash i);
               Some (case t of None \<Rightarrow> False | Some t \<Rightarrow> tx_blockHeight t = TX_UNCONFIRMED) }) (tx_inputs tx);
             Some (if unconfirmed then pm else BRPeerManagerPeerMisbehavin p pm)
           }
           else Some pm
         });
     Some (manager_event CbTxStatusUpdate TxStatusUpdate pm)
   }"

definition peerDataNotfound :: "peer_ptr \<Rightarrow> UInt256 list \<Rightarrow> BRPeerManager \<Rightarrow> BRPeerManager" where
  "peerDataNotfound p txHashes pm =
     fold (\<lambda>h pm. pm\<lparr>pm_txRelays := fst (BRTxPeerListRemovePeer (pm_txRelays pm) h (pm_ctx pm p)),
       pm_txRequests := fst (BRTxPeerListRemovePeer (pm_txRequests pm) h (pm_ctx pm p))\<rparr>) txHashes pm"

text \<open>The highest fee rate of the connected peers, and the one it replaced.\<close>

definition fee_step :: "u64 \<Rightarrow> u64 \<times> u64 \<Rightarrow> u64 \<times> u64" where
  "fee_step fee s = (case s of (maxFee, secondFee) \<Rightarrow> if fee > maxFee then (fee, maxFee) else s)"

definition peerSetFeePerKb :: "BRPeerManager \<Rightarrow> BRPeerManager" where
  "peerSetFeePerKb pm =
     (let ps = filter (\<lambda>p. BRPeerConnectStatus (pm_ctx pm p) = BRPeerStatusConnected) (rev (pm_connectedPeers pm));
          (maxFee, secondFee) = fold fee_step (map (\<lambda>p. BRPeerFeePerKb (pm_ctx pm p)) ps) (0, 0);
          fee = secondFee * 3 div 2
      in if fee > DEFAULT_FEE_PER_KB \<and> fee \<le> MAX_FEE_PER_KB \<and> fee > BRWalletFeePerKb (pm_wallet pm)
         then pm\<lparr>pm_wallet := BRWalletSetFeePerKb (pm_wallet pm) fee\<rparr> else pm)"

text \<open>One published transaction is looked at for a request; the state is \<open>tx\<close>, the callback with its \<open>info\<close>, whether others are
  pending, and the error.\<close>

definition requested_step :: "UInt256 \<Rightarrow> nat \<Rightarrow> BRTransaction option \<times> nat \<times> nat option \<times> bool \<times> int \<times> BRPeerManager \<Rightarrow>
    (BRTransaction option \<times> nat \<times> nat option \<times> bool \<times> int \<times> BRPeerManager) option" where
  "requested_step txHash i s = (case s of (tx, info, callback, pending, error, pm) \<Rightarrow>
     let t = pm_publishedTx pm ! i in
     if UInt256Eq (pm_publishedTxHashes pm ! i) txHash
     then do {
       let pm = pm\<lparr>pm_publishedTx := (pm_publishedTx pm)[i := t\<lparr>pub_info := 0, pub_callback := None\<rparr>]\<rparr>;
       valid \<leftarrow> BRWalletTransactionIsValid (pm_wallet pm) (pub_tx t);
       if valid then Some (Some (pub_tx t), pub_info t, pub_callback t, pending, error, pm)
       else do {
         let pm = pm\<lparr>pm_publishedTx := rm_at (pm_publishedTx pm) i, pm_publishedTxHashes := rm_at (pm_publishedTxHashes pm) i\<rparr>;
         w \<leftarrow> BRWalletTransactionForHash (pm_wallet pm) txHash;
         Some (if w = None then None else Some (pub_tx t), pub_info t, pub_callback t, pending, EINVAL, pm)
       }
     }
     else Some (tx, info, callback, pending \<or> pub_callback t \<noteq> None, error, pm))"

definition peerRequestedTx :: "'k manager_env \<Rightarrow> peer_ptr \<Rightarrow> UInt256 \<Rightarrow> BRPeerManager \<Rightarrow> (BRTransaction option \<times> BRPeerManager) option" where
  "peerRequestedTx E p txHash pm = do {
     (tx, info, callback, pending, error, pm) \<leftarrow>
       fold_opt (requested_step txHash) (rev [0..<length (pm_publishedTx pm)]) (None, 0, None, False, 0, pm);
     let pm = cancel_timeout E p pending pm;
     pm \<leftarrow> (case tx of
         Some t \<Rightarrow> if error = 0
           then do {
             (r, w) \<leftarrow> BRWalletRegisterTransaction (me_wallet E) (pm_wallet pm) t;
             Some (pm\<lparr>pm_txRelays := fst (BRTxPeerListAddPeer (pm_txRelays pm) txHash (pm_ctx pm p)), pm_wallet := w\<rparr>)
           }
           else Some pm
       | None \<Rightarrow> Some pm);
     Some (tx, published callback info error pm)
   }"

definition peerNetworkIsReachable :: "manager_net \<Rightarrow> bool" where
  "peerNetworkIsReachable N = (case mn_reachable N of None \<Rightarrow> True | Some r \<Rightarrow> r)"

section \<open>What the application asks\<close>

definition BRPeerManagerEstimatedBlockHeight :: "BRPeerManager \<Rightarrow> u32 option" where
  "BRPeerManagerEstimatedBlockHeight pm = do {
     lastBlock \<leftarrow> pm_heap pm (pm_lastBlock pm);
     Some (if mb_height lastBlock < pm_estimatedHeight pm then pm_estimatedHeight pm else mb_height lastBlock)
   }"

definition BRPeerManagerLastBlockHeight :: "BRPeerManager \<Rightarrow> u32 option" where
  "BRPeerManagerLastBlockHeight pm = do { lastBlock \<leftarrow> pm_heap pm (pm_lastBlock pm); Some (mb_height lastBlock) }"

definition BRPeerManagerLastBlockTimestamp :: "BRPeerManager \<Rightarrow> u32 option" where
  "BRPeerManagerLastBlockTimestamp pm = do { lastBlock \<leftarrow> pm_heap pm (pm_lastBlock pm); Some (mb_timestamp lastBlock) }"

definition BRPeerManagerSyncProgress :: "BRPeerManager \<Rightarrow> u32 \<Rightarrow> real option" where
  "BRPeerManagerSyncProgress pm startHeight = do {
     let startHeight = (if startHeight = 0 then pm_syncStartHeight pm else startHeight);
     if pm_downloadPeer pm = None \<and> pm_syncStartHeight pm = 0 then Some 0 else do {
     lastBlock \<leftarrow> pm_heap pm (pm_lastBlock pm);
     Some (if pm_downloadPeer pm = None \<or> mb_height lastBlock < pm_estimatedHeight pm
       then (if mb_height lastBlock > startHeight \<and> pm_estimatedHeight pm > startHeight
         then 1 / 10 + 9 / 10 * real (unat (mb_height lastBlock - startHeight)) / real (unat (pm_estimatedHeight pm - startHeight))
         else 5 / 100)
       else 1)
     }
   }"

definition BRPeerManagerPeerCount :: "BRPeerManager \<Rightarrow> nat" where
  "BRPeerManagerPeerCount pm = connected_count pm"

end
