(* ===== verification/ManagerChain.thy ===== *)
theory ManagerChain
  imports ManagerLaws
begin

text \<open>
  Walking and cutting the chain: the block locators, the verification of a block with the freeing of old blocks, and the
  blocks that are saved. The walks end because every known block is one higher than its predecessor.
\<close>

section \<open>Walks\<close>

lemma step_back_add: "step_back pm (m + n) b = do { c \<leftarrow> step_back pm m b; step_back pm n c }"
  by (induction pm m b rule: step_back.induct) (simp_all split: bind_split)

lemma known_step:
  assumes "blocks_ok depth pm" "heap_ok depth pm" "pm_heap pm p = Some b" "pm_blocks pm (mb_prevBlock b) = Some q"
  obtains c where "pm_heap pm q = Some c" "mb_blockHash c = mb_prevBlock b" "depth (mb_blockHash b) = Suc (depth (mb_blockHash c))"
    "unat (mb_height c) = depth (mb_blockHash c)"
proof -
  obtain c where c: "pm_heap pm q = Some c" "mb_blockHash c = mb_prevBlock b" "unat (mb_height c) = depth (mb_prevBlock b)"
    using blocks_okD [OF assms(1,4)] by auto
  moreover have "in_tree depth b" "in_tree depth c" using assms(2,3) c(1) by (auto simp: heap_ok_def)
  ultimately show thesis using that [of c] by (auto simp: in_tree_def)
qed

lemma step_back_total:
  assumes "blocks_ok depth pm" "heap_ok depth pm" "pm_heap pm p = Some b"
  shows "\<exists>r. step_back pm n (Some p) = Some r"
  using assms(3)
proof (induction n arbitrary: p b)
  case (Suc n)
  show ?case
  proof (cases "pm_blocks pm (mb_prevBlock b)")
    case None
    then show ?thesis using Suc.prems by (simp add: prev_of_def)
  next
    case (Some q)
    then obtain c where "pm_heap pm q = Some c" using known_step [OF assms(1,2) Suc.prems] by metis
    then show ?thesis using Suc Some by (simp add: prev_of_def)
  qed
qed simp

section \<open>Block locators\<close>

text \<open>The block \<open>n\<close> steps below the last one, and how far below it the hash number \<open>i\<close> of the locators is.\<close>

definition ancestor :: "BRPeerManager \<Rightarrow> nat \<Rightarrow> BRMerkleBlock option" where
  "ancestor pm n = do { r \<leftarrow> step_back pm n (Some (pm_lastBlock pm)); p \<leftarrow> r; pm_heap pm p }"

definition locator_distance :: "nat \<Rightarrow> nat" where
  "locator_distance i = (if i < 10 then i else 2 ^ (i - 8) + 7)"

definition locator_hashes :: "BRPeerManager \<Rightarrow> UInt256 list \<Rightarrow> bool" where
  "locator_hashes pm hs \<longleftrightarrow> (\<forall>i < length hs. \<exists>b. ancestor pm (locator_distance i) = Some b \<and> hs ! i = mb_blockHash b \<and> mb_height b > 0)"

lemma locator_hashes_snoc:
  "locator_hashes pm hs \<Longrightarrow> ancestor pm (locator_distance (length hs)) = Some b \<Longrightarrow> mb_height b > 0 \<Longrightarrow>
    locator_hashes pm (hs @ [mb_blockHash b])"
  by (auto simp: locator_hashes_def nth_append less_Suc_eq)

lemma locator_distance_Suc:
  "locator_distance (Suc i) = locator_distance i + (if Suc i < 10 then 1 else 2 ^ (i - 8))"
proof (cases "i < 10")
  case True
  then have "i < 9 \<or> i = 9" by linarith
  then show ?thesis by (auto simp: locator_distance_def)
next
  case False
  then obtain k where "i = k + 10" by (metis add.commute le_Suc_ex not_less)
  then show ?thesis by (simp add: locator_distance_def power_add)
qed

lemma locator_loop_ok:
  assumes inv: "chain_inv depth pm" and last: "last_height pm < 2 ^ 31"
  shows "locator_hashes pm acc \<Longrightarrow> step_back pm (locator_distance (length acc)) (Some (pm_lastBlock pm)) = Some b \<Longrightarrow>
    step = (if length acc < 10 then 1 else 2 ^ (length acc - 9)) \<Longrightarrow>
    \<exists>hs. locator_loop pm step b acc = Some hs \<and> locator_hashes pm hs \<and>
      (\<forall>c. ancestor pm (locator_distance (length hs)) = Some c \<longrightarrow> mb_height c = 0)"
proof (induction "last_height pm + 1 - locator_distance (length acc)" arbitrary: acc b step rule: less_induct)
  case less
  have k: "blocks_ok depth pm" "heap_ok depth pm" using inv by (simp_all add: chain_inv_def)
  obtain l where l: "pm_heap pm (pm_lastBlock pm) = Some l" "last_height pm = depth (mb_blockHash l)" by (rule chain_inv_last [OF inv])
  show ?case
  proof (cases b)
    case None
    then show ?thesis using less.prems by (auto simp: locator_loop.simps ancestor_def)
  next
    case (Some p)
    then obtain c where c: "pm_heap pm p = Some c" "depth (mb_blockHash l) = depth (mb_blockHash c) + locator_distance (length acc)"
      using step_back_depth [OF inv _ l(1)] less.prems(2) by blast
    have a: "ancestor pm (locator_distance (length acc)) = Some c" using less.prems(2) Some c(1) by (simp add: ancestor_def)
    show ?thesis
    proof (cases "mb_height c > 0")
      case False
      then have "mb_height c = 0" by (simp add: word_gt_0)
      then show ?thesis using less.prems a c(1) Some by (auto simp: locator_loop.simps [of pm _ "Some p"])
    next
      case True
      let ?acc = "acc @ [mb_blockHash c]"
      let ?step = "if length ?acc < 10 then 1 else 2 ^ (length ?acc - 9) :: int"
      have s: "(if length ?acc \<ge> 10 then step * 2 else step) = ?step"
      proof (cases "length acc < 10")
        case True
        then consider "length acc < 9" | "length acc = 9" by linarith
        then show ?thesis by cases (use less.prems(3) in simp_all)
      next
        case False
        then obtain k where "length acc = k + 10" by (metis add.commute le_Suc_ex not_less)
        then show ?thesis using less.prems(3) by simp
      qed
      have d: "locator_distance (length ?acc) = locator_distance (length acc) + nat ?step"
        by (simp add: locator_distance_Suc nat_power_eq)
      have small: "?step < 2 ^ 31"
      proof (cases "length acc < 9")
        case False
        have "2 ^ (length acc - 8) \<le> locator_distance (length acc)"
        proof (cases "length acc = 9")
          case True
          then show ?thesis by (simp add: locator_distance_def)
        next
          case False
          then show ?thesis using \<open>\<not> length acc < 9\<close> by (simp add: locator_distance_def)
        qed
        then have "(2 :: nat) ^ (length acc - 8) < 2 ^ 31" using c(2) l(2) last by linarith
        then have "length acc - 8 < 31" by (rule power_less_imp_less_exp [rotated]) simp
        then have "(2 :: int) ^ (length acc - 8) < 2 ^ 31" by (rule power_strict_increasing) simp
        then show ?thesis using False by simp
      qed simp
      obtain r where r: "step_back pm (nat ?step) (Some p) = Some r" using step_back_total [OF k c(1)] by blast
      have "step_back pm (locator_distance (length ?acc)) (Some (pm_lastBlock pm)) = Some r"
        using less.prems(2) Some r by (simp only: d step_back_add) simp
      moreover have "last_height pm + 1 - locator_distance (length ?acc) < last_height pm + 1 - locator_distance (length acc)"
      proof -
        have "locator_distance (length acc) < last_height pm + 1" using c(2) l(2) by linarith
        moreover have "0 < nat ?step" by simp
        ultimately show ?thesis unfolding d by linarith
      qed
      ultimately obtain hs where hs: "locator_loop pm ?step r ?acc = Some hs" "locator_hashes pm hs"
        "\<forall>c. ancestor pm (locator_distance (length hs)) = Some c \<longrightarrow> mb_height c = 0"
        using less.hyps [of ?acc r ?step] locator_hashes_snoc [OF less.prems(1) a True] by blast
      have "locator_loop pm step b acc = locator_loop pm ?step r ?acc"
        unfolding Some by (subst locator_loop.simps) (use c(1) True s small r in \<open>simp add: Let_def not_le\<close>)
      then show ?thesis using hs by metis
    qed
  qed
qed

text \<open>C18: the block locators always return: the hashes of the last block, of the nine below it, and then of the
  blocks at doubling distances, as far as the known chain goes, and last the genesis block.\<close>

theorem block_locators:
  assumes "chain_inv depth pm" "last_height pm < 2 ^ 31"
  shows "\<exists>hs. BRPeerManagerBlockLocators pm None = Some (length hs + 1, []) \<and> locators pm = Some (hs @ [GENESIS_BLOCK_HASH]) \<and>
    locator_hashes pm hs \<and> (\<forall>c. ancestor pm (locator_distance (length hs)) = Some c \<longrightarrow> mb_height c = 0)"
proof -
  obtain hs where "locator_loop pm 1 (Some (pm_lastBlock pm)) [] = Some hs" "locator_hashes pm hs"
    "\<forall>c. ancestor pm (locator_distance (length hs)) = Some c \<longrightarrow> mb_height c = 0"
    using locator_loop_ok [OF assms, of "[]" "Some (pm_lastBlock pm)" 1] by (auto simp: locator_hashes_def locator_distance_def)
  then show ?thesis by (intro exI [of _ hs]) (simp add: BRPeerManagerBlockLocators_def locators_def)
qed

theorem block_locators_witness:
  "locators chain_pm = Some [10, GENESIS_BLOCK_HASH]"
proof -
  obtain hs where hs: "locators chain_pm = Some (hs @ [GENESIS_BLOCK_HASH])" "locator_hashes chain_pm hs"
    "\<forall>c. ancestor chain_pm (locator_distance (length hs)) = Some c \<longrightarrow> mb_height c = 0"
    using block_locators [OF chain_pm_inv(1)] chain_pm_inv(3) by auto
  have a: "ancestor chain_pm 0 = Some (chain_block 10 10)" "ancestor chain_pm 1 = None"
    by (simp_all add: ancestor_def chain_pm_def chain_block_def prev_of_def)
  have "length hs \<noteq> 0" using hs(3) a(1) by (auto simp: locator_distance_def chain_block_def)
  moreover have "\<not> length hs > 1" using hs(2) a(2) by (force simp: locator_hashes_def locator_distance_def)
  ultimately have "length hs = 1" by linarith
  then have "hs = [10]"
    using hs(2) a(1) by (auto simp: locator_hashes_def locator_distance_def chain_block_def length_Suc_conv)
  then show ?thesis using hs(1) by simp
qed

section \<open>Verifying a block\<close>

text \<open>What the freeing of old blocks does, also where it takes away the last block: it ends, frees every known ancestor
  that is no transition, and leaves the transitions and the blocks above.\<close>

definition transition :: "BRMerkleBlock \<Rightarrow> bool" where
  "transition b \<longleftrightarrow> mb_height b mod BLOCK_DIFFICULTY_INTERVAL = 0"

definition frees_ancestors :: "(UInt256 \<Rightarrow> nat) \<Rightarrow> UInt256 \<Rightarrow> BRPeerManager \<Rightarrow> BRPeerManager \<Rightarrow> bool" where
  "frees_ancestors depth h pm pm' \<longleftrightarrow> pm_heap pm' \<subseteq>\<^sub>m pm_heap pm \<and> pm_lastBlock pm' = pm_lastBlock pm \<and>
     pm_checkpoints pm' = pm_checkpoints pm \<and>
     (\<forall>q b. pm_heap pm q = Some b \<and> (pm_blocks pm h = None \<or> depth h < depth (mb_blockHash b) \<or> transition b) \<longrightarrow>
        pm_heap pm' q = Some b) \<and>
     (\<forall>n q b. step_back pm n (pm_blocks pm h) = Some (Some q) \<and> pm_heap pm q = Some b \<and>
        \<not> transition b \<longrightarrow> pm_heap pm' q = None)"

lemma step_back_below:
  assumes ok: "blocks_ok depth pm" "heap_ok depth pm" and h: "h \<noteq> 0"
    and agree: "\<And>g. g \<noteq> h \<Longrightarrow> pm_blocks c g = pm_blocks pm g"
      "\<And>q b. pm_heap pm q = Some b \<Longrightarrow> mb_blockHash b \<noteq> h \<Longrightarrow> pm_heap c q = Some b"
  shows "pm_heap pm p = Some b \<Longrightarrow> depth (mb_blockHash b) < depth h \<Longrightarrow> step_back c n (Some p) = step_back pm n (Some p)"
proof (induction n arbitrary: p b)
  case (Suc n)
  have "in_tree depth b" using ok(2) Suc.prems(1) by (auto simp: heap_ok_def)
  then have ne: "mb_prevBlock b \<noteq> h" using Suc.prems(2) h by (auto simp: in_tree_def)
  have hb: "pm_heap c p = Some b" using agree(2) [OF Suc.prems(1)] Suc.prems(2) by auto
  show ?case
  proof (cases "pm_blocks pm (mb_prevBlock b)")
    case None
    then show ?thesis using Suc.prems(1) hb ne agree(1) by (simp add: prev_of_def)
  next
    case (Some q)
    obtain e where "pm_heap pm q = Some e" "depth (mb_blockHash b) = Suc (depth (mb_blockHash e))"
      using known_step [OF ok Suc.prems(1) Some] by metis
    then have "step_back c n (Some q) = step_back pm n (Some q)" using Suc.IH Suc.prems(2) by simp
    then show ?thesis using Suc.prems(1) hb ne agree(1) Some by (simp add: prev_of_def)
  qed
qed simp

lemma map_le_None: "f \<subseteq>\<^sub>m g \<Longrightarrow> g x = None \<Longrightarrow> f x = None"
  by (cases "f x") (force simp: map_le_def)+

lemma frees_none: "pm_blocks pm h = None \<Longrightarrow> frees_ancestors depth h pm pm"
  by (simp add: frees_ancestors_def)

lemma free_older_frees:
  assumes "blocks_ok depth pm" "heap_ok depth pm"
  shows "\<exists>pm'. free_older h pm = Some pm' \<and> frees_ancestors depth h pm pm'"
  using assms
proof (induction "if pm_blocks pm h = None then 0 else Suc (depth h)" arbitrary: pm h rule: less_induct)
  case less
  show ?case
  proof (cases "pm_blocks pm h")
    case None
    then show ?thesis using frees_none by (simp add: free_older.simps)
  next
    case (Some p)
    obtain b where b: "pm_heap pm p = Some b" "mb_blockHash b = h" using blocks_okD [OF less.prems(1) Some] by blast
    have t: "in_tree depth b" using less.prems(2) b(1) by (auto simp: heap_ok_def)
    then have h: "h \<noteq> 0" using b(2) by (auto simp: in_tree_def)
    define c where "c = (if \<not> transition b
      then pm\<lparr>pm_blocks := (pm_blocks pm)(h := None), pm_heap := (pm_heap pm)(p := None)\<rparr> else pm)"
    have step: "free_older h pm = free_older (mb_prevBlock b) c"
      by (subst free_older.simps) (simp add: Some b c_def free_block_def transition_def)
    have other: "q \<noteq> p" if "pm_blocks pm g = Some q" "g \<noteq> h" for g q
      using blocks_inj [OF less.prems(1) that(1)] Some that(2) by metis
    have "blocks_ok depth c"
      unfolding blocks_ok_def
    proof (intro allI impI)
      fix g q assume g: "pm_blocks c g = Some q"
      then have k: "pm_blocks pm g = Some q" by (auto simp: c_def split: if_splits)
      have "pm_heap c q = pm_heap pm q" using g other [OF k] by (auto simp: c_def split: if_splits)
      then show "\<exists>b. pm_heap c q = Some b \<and> mb_blockHash b = g \<and> unat (mb_height b) = depth g"
        using blocks_okD [OF less.prems(1) k] by simp
    qed
    moreover have "heap_ok depth c"
      unfolding heap_ok_def
    proof (intro allI impI)
      fix q e assume "pm_heap c q = Some e"
      then have "pm_heap pm q = Some e" by (auto simp: c_def split: if_splits)
      moreover have "pm_next c = pm_next pm" by (simp add: c_def)
      ultimately show "q < pm_next c \<and> in_tree depth e" using less.prems(2) by (simp add: heap_ok_def)
    qed
    ultimately have ok: "blocks_ok depth c" "heap_ok depth c" .
    have prev: "mb_prevBlock b \<noteq> h" using t b(2) h unfolding in_tree_def by (metis n_not_Suc_n)
    have lower: "depth (mb_prevBlock b) < depth h" if "pm_blocks c (mb_prevBlock b) \<noteq> None"
    proof -
      have "mb_prevBlock b \<noteq> 0" using that ok by (force simp: in_tree_def heap_ok_def dest: blocks_okD)
      then show ?thesis using t b(2) by (auto simp: in_tree_def)
    qed
    then have "\<exists>pm'. free_older (mb_prevBlock b) c = Some pm' \<and> frees_ancestors depth (mb_prevBlock b) c pm'"
      by (intro less.hyps ok) (use Some in auto)
    then obtain pm' where pm': "free_older (mb_prevBlock b) c = Some pm'" "frees_ancestors depth (mb_prevBlock b) c pm'" by blast
    have le: "pm_heap pm' \<subseteq>\<^sub>m pm_heap c" using pm'(2) by (simp add: frees_ancestors_def)
    have "frees_ancestors depth h pm pm'"
      unfolding frees_ancestors_def
    proof (intro conjI allI impI; (elim conjE)?)
      have "pm_heap c \<subseteq>\<^sub>m pm_heap pm" by (simp add: c_def map_le_def)
      then show "pm_heap pm' \<subseteq>\<^sub>m pm_heap pm" by (rule map_le_trans [OF le])
      show "pm_lastBlock pm' = pm_lastBlock pm" "pm_checkpoints pm' = pm_checkpoints pm"
        using pm'(2) by (simp_all add: frees_ancestors_def c_def)
    next
      fix q e assume "pm_heap pm q = Some e"
        "pm_blocks pm h = None \<or> depth h < depth (mb_blockHash e) \<or> transition e"
      then have q: "pm_heap pm q = Some e" "depth h < depth (mb_blockHash e) \<or> transition e"
        using Some by auto
      have "c = pm" if "transition b" using that by (simp add: c_def)
      moreover have "pm_heap c q = Some e" if "q \<noteq> p" using q(1) that by (simp add: c_def)
      ultimately have "pm_heap c q = Some e" using q b by (cases "q = p") auto
      moreover have "pm' = c" if "pm_blocks c (mb_prevBlock b) = None"
        using pm'(1) that by (simp add: free_older.simps)
      ultimately show "pm_heap pm' q = Some e"
        using pm'(2) q(2) lower by (cases "pm_blocks c (mb_prevBlock b)") (auto simp: frees_ancestors_def)
    next
      fix n q e assume q: "step_back pm n (pm_blocks pm h) = Some (Some q)" "pm_heap pm q = Some e"
        "\<not> transition e"
      have gone: "pm_heap pm' q = None" if "pm_heap c q = None" for q
        by (rule map_le_None [OF le that])
      show "pm_heap pm' q = None"
      proof (cases n)
        case 0
        then show ?thesis using q Some b(1) gone [of p] by (simp add: c_def)
      next
        case (Suc m)
        then have "step_back pm m (pm_blocks pm (mb_prevBlock b)) = Some (Some q)" using q(1) Some b(1) by (simp add: prev_of_def)
        moreover from this obtain r where r: "pm_blocks pm (mb_prevBlock b) = Some r"
          by (cases "pm_blocks pm (mb_prevBlock b)") simp_all
        moreover obtain e' where "pm_heap pm r = Some e'" "depth (mb_blockHash e') < depth h"
          using known_step [OF less.prems b(1) r] b(2) by (metis lessI)
        moreover have "pm_heap c s = Some x" if "pm_heap pm s = Some x" "mb_blockHash x \<noteq> h" for s x
          using that b by (auto simp: c_def)
        moreover have "pm_blocks c g = pm_blocks pm g" if "g \<noteq> h" for g using that by (simp add: c_def)
        ultimately have "step_back c m (pm_blocks c (mb_prevBlock b)) = Some (Some q)"
          using step_back_below [OF less.prems h, of c r e' m] prev by simp
        then show ?thesis using pm'(2) q(2,3) gone [of q] by (cases "pm_heap c q") (auto simp: frees_ancestors_def c_def split: if_splits)
      qed
    qed
    then show ?thesis using pm'(1) step by simp
  qed
qed

text \<open>The checkpoints are live transitions.\<close>

definition checkpoints_ok :: "BRPeerManager \<Rightarrow> bool" where
  "checkpoints_ok pm \<longleftrightarrow> (\<forall>h c. pm_checkpoints pm h = Some c \<longrightarrow>
     (\<exists>b. pm_heap pm c = Some b \<and> transition b))"

lemma verify_outcome:
  assumes "chain_inv depth pm" "checkpoints_ok pm" "pm_heap pm bp = Some block" "pm_blocks pm (mb_prevBlock block) = Some q"
  shows "\<exists>r pm'. BRPeerManagerVerifyBlock bp q pm = Some (r, pm') \<and>
    (pm' = pm \<or> (\<exists>p c. transition block \<and> step_back pm 2016 (Some bp) = Some (Some p) \<and>
       pm_heap pm p = Some c \<and> frees_ancestors depth (mb_prevBlock c) pm pm')) \<and>
    (transition block \<longrightarrow> (\<forall>p c. step_back pm 2016 (Some bp) = Some (Some p) \<longrightarrow>
       pm_heap pm p = Some c \<longrightarrow> frees_ancestors depth (mb_prevBlock c) pm pm' \<and>
       (pm_checkpoints pm (mb_height block) = None \<longrightarrow> r = BRMerkleBlockVerifyDifficulty block (pm_heap pm q) (mb_timestamp c))))"
proof -
  have k: "blocks_ok depth pm" "heap_ok depth pm" using assms(1) by (simp_all add: chain_inv_def)
  obtain ob where ob: "pm_heap pm q = Some ob" "depth (mb_blockHash block) = Suc (depth (mb_blockHash ob))"
    using known_step [OF k assms(3,4)] by metis
  have checks: "\<exists>r. (case pm_checkpoints pm' (mb_height block) of
        None \<Rightarrow> Some (True, pm')
      | Some c \<Rightarrow> do { checkpoint \<leftarrow> pm_heap pm' c; Some (BRMerkleBlockEq block checkpoint, pm') }) = Some (r, pm')"
    if "pm' = pm \<or> (\<exists>h. frees_ancestors depth h pm pm')" for pm'
    using that assms(2)
    by (auto simp: checkpoints_ok_def frees_ancestors_def split: option.split) (metis bind.bind_lunit)+
  show ?thesis
  proof (cases "transition block")
    case False
    then show ?thesis using assms(3) ob(1) checks [of pm]
      by (auto simp: BRPeerManagerVerifyBlock_def transition_def)
  next
    case True
    have I: "unat BLOCK_DIFFICULTY_INTERVAL = 2016" by (simp add: BLOCK_DIFFICULTY_INTERVAL_def)
    obtain r where r: "step_back pm 2016 (Some bp) = Some r" using step_back_total [OF k assms(3)] by blast
    show ?thesis
    proof (cases r)
      case None
      then show ?thesis using True assms(3) r
        by (auto simp: BRPeerManagerVerifyBlock_def I transition_def)
    next
      case (Some p)
      obtain c where c: "pm_heap pm p = Some c" "depth (mb_blockHash block) = depth (mb_blockHash c) + 2016"
        using step_back_depth [OF assms(1) _ assms(3)] r Some by blast
      obtain pm' where pm': "free_older (mb_prevBlock c) pm = Some pm'" "frees_ancestors depth (mb_prevBlock c) pm pm'"
        using free_older_frees [OF k] by blast
      have "pm_heap pm' q = Some ob"
      proof (cases "pm_blocks pm (mb_prevBlock c)")
        case (Some g)
        have "depth (mb_blockHash c) = Suc (depth (mb_prevBlock c))" by (rule known_step [OF k c(1) Some]) metis
        then have "depth (mb_prevBlock c) < depth (mb_blockHash ob)" using c(2) ob(2) by linarith
        then show ?thesis using pm'(2) ob(1) by (simp add: frees_ancestors_def)
      qed (use pm'(2) ob(1) in \<open>simp add: frees_ancestors_def\<close>)
      then have "BRPeerManagerVerifyBlock bp q pm = (let r = BRMerkleBlockVerifyDifficulty block (Some ob) (mb_timestamp c)
        in if \<not> r then Some (False, pm') else (case pm_checkpoints pm' (mb_height block) of
            None \<Rightarrow> Some (True, pm')
          | Some c \<Rightarrow> do { checkpoint \<leftarrow> pm_heap pm' c; Some (BRMerkleBlockEq block checkpoint, pm') }))"
        using True assms(3) r Some c(1) pm'(1)
        by (simp add: BRPeerManagerVerifyBlock_def I transition_def)
      moreover have "pm_checkpoints pm' = pm_checkpoints pm" using pm'(2) by (simp add: frees_ancestors_def)
      ultimately have "\<exists>r. BRPeerManagerVerifyBlock bp q pm = Some (r, pm') \<and>
          (pm_checkpoints pm (mb_height block) = None \<longrightarrow> r = BRMerkleBlockVerifyDifficulty block (pm_heap pm q) (mb_timestamp c))"
        using checks [of pm'] pm'(2) ob(1) by (cases "pm_checkpoints pm (mb_height block)") (auto simp: Let_def)
      then show ?thesis using True r Some c(1) pm'(2) by auto
    qed
  qed
qed

section \<open>Properties\<close>




text \<open>C16: a use after free. While the chain is scanned again, the last block is behind blocks that are still known. When
  a peer then relays a valid block at a difficulty transition whose known ancestors reach the last block more than 2016
  blocks below, verifying it frees the last block, and relaying it dereferences the freed object.\<close>

theorem rescan_frees_last_block:
  assumes "chain_inv depth pm" "checkpoints_ok pm" "pm_heap pm bp = Some block" "pm_blocks pm (mb_prevBlock block) = Some q"
    and "transition block" "step_back pm n (Some bp) = Some (Some (pm_lastBlock pm))" "2016 < n"
    and "pm_heap pm (pm_lastBlock pm) = Some l" "\<not> transition l"
    and "step_back pm 2016 (Some bp) = Some (Some p')" "pm_heap pm p' = Some c" "pm_checkpoints pm (mb_height block) = None"
    and "BRMerkleBlockVerifyDifficulty block (pm_heap pm q) (mb_timestamp c)"
  shows "\<exists>pm'. BRPeerManagerVerifyBlock bp q pm = Some (True, pm') \<and> pm_heap pm' (pm_lastBlock pm) = None \<and>
    relay_known E p bp block q hs t pm = None"
proof -
  obtain m where m: "n = 2016 + Suc m" using assms(7) by (metis add_Suc_right less_iff_Suc_add)
  then have "step_back pm (Suc m) (Some p') = Some (Some (pm_lastBlock pm))"
    using assms(6,10) by (simp only: step_back_add) simp
  then have below: "step_back pm m (pm_blocks pm (mb_prevBlock c)) = Some (Some (pm_lastBlock pm))"
    using assms(11) by (simp add: prev_of_def)
  obtain pm' where v: "BRPeerManagerVerifyBlock bp q pm = Some (True, pm')" "frees_ancestors depth (mb_prevBlock c) pm pm'"
    using verify_outcome [OF assms(1-4)] assms(5,10-13) by auto
  have "pm_heap pm' (pm_lastBlock pm) = None" "pm_lastBlock pm' = pm_lastBlock pm"
    using v(2) below assms(8,9) by (auto simp: frees_ancestors_def)
  then show ?thesis using v(1) by (simp add: relay_known_def)
qed

text \<open>A chain of 4031 known blocks, scanned again up to block 2000, and block 4032.\<close>

definition scan_block :: "nat \<Rightarrow> BRMerkleBlock" where
  "scan_block p = (chain_block p (word_of_nat p))\<lparr>mb_timestamp := 1\<rparr>"

definition scan_pm :: BRPeerManager where
  "scan_pm = chain_pm\<lparr>pm_blocks := (\<lambda>h. if 0 < unat h \<and> unat h \<le> 4031 then Some (unat h) else None),
     pm_heap := (\<lambda>p. if 0 < p \<and> p \<le> 4032 then Some (scan_block p) else None), pm_orphans := (\<lambda>h. None),
     pm_lastOrphan := None, pm_lastBlock := 2000, pm_next := 4033\<rparr>"

lemma scan_number: "p \<le> 4032 \<Longrightarrow> unat (word_of_nat p :: u32) = p" "p \<le> 4032 \<Longrightarrow> unat (word_of_nat p :: UInt256) = p"
  by (simp_all add: unat_of_nat)

lemma scan_block: "mb_blockHash (scan_block p) = word_of_nat p" "mb_prevBlock (scan_block p) = word_of_nat (p - 1)"
  "mb_height (scan_block p) = word_of_nat p" "mb_timestamp (scan_block p) = 1"
  by (simp_all add: scan_block_def chain_block_def)

lemma scan_back: "p \<le> 4032 \<Longrightarrow> n < p \<Longrightarrow> step_back scan_pm n (Some p) = Some (Some (p - n))"
proof (induction n arbitrary: p)
  case (Suc n)
  have "pm_blocks scan_pm (word_of_nat (p - 1)) = Some (p - 1)"
    using Suc.prems scan_number(2) [of "p - 1"] by (simp only: scan_pm_def) simp
  moreover have "pm_heap scan_pm p = Some (scan_block p)" using Suc.prems by (simp add: scan_pm_def)
  ultimately have "prev_of scan_pm p = Some (Some (p - 1))" by (simp only: prev_of_def scan_block bind.bind_lunit)
  then show ?case using Suc by simp
qed simp

lemma scan_pm_ok: "chain_inv unat scan_pm" "checkpoints_ok scan_pm"
proof -
  have "in_tree unat (scan_block p)" if "0 < p" "p \<le> 4032" for p
    unfolding in_tree_def scan_block using that scan_number(2) [of p] scan_number(2) [of "p - 1"] by (auto simp: unat_eq_zero)
  then show "chain_inv unat scan_pm"
    using scan_number by (auto simp: chain_inv_def blocks_ok_def orphans_ok_def heap_ok_def last_ok_def scan_pm_def scan_block
        split: if_splits)
qed (simp add: checkpoints_ok_def scan_pm_def chain_pm_def)

theorem rescan_frees_last_block_witness:
  "relay_known chain_env 7 4032 (scan_block 4032) 4031 [] 0 scan_pm = None"
proof -
  have h: "pm_heap scan_pm 4032 = Some (scan_block 4032)" "pm_heap scan_pm 2000 = Some (scan_block 2000)"
    "pm_blocks scan_pm (mb_prevBlock (scan_block 4032)) = Some 4031" "pm_lastBlock scan_pm = 2000"
    "pm_heap scan_pm 4031 = Some (scan_block 4031)" "pm_heap scan_pm 2016 = Some (scan_block 2016)"
    "pm_checkpoints scan_pm 4032 = None"
    by (simp_all add: scan_pm_def scan_block chain_pm_def)
  have "transition (scan_block 4032)" "\<not> transition (scan_block 2000)"
    by (simp_all add: transition_def scan_block BLOCK_DIFFICULTY_INTERVAL_def)
  moreover have "BRMerkleBlockVerifyDifficulty (scan_block 4032) (pm_heap scan_pm 4031) (mb_timestamp (scan_block 2016))"
    by (simp add: BRMerkleBlockVerifyDifficulty_def h scan_block UInt256Eq_def)
  moreover have "step_back scan_pm 2032 (Some 4032) = Some (Some (pm_lastBlock scan_pm))"
    "step_back scan_pm 2016 (Some 4032) = Some (Some 2016)"
    using scan_back [of 4032 2032] scan_back [of 4032 2016] h(4) by simp_all
  ultimately show ?thesis
    using rescan_frees_last_block [OF scan_pm_ok h(1,3), of 2032 "scan_block 2000" 2016 "scan_block 2016" chain_env 7 "[]" 0] h
    by (auto simp: scan_block)
qed

end
