(* ===== verification/ManagerTx.thy ===== *)
theory ManagerTx
  imports ManagerChain
begin

text \<open>
  What happens to the transactions that no peer relays, in \<^verbatim>\<open>_requestUnrelayedTxGetdataDone\<close>: they are removed from the
  wallet, and with them the transactions that depend on them.
\<close>

section \<open>Transactions only disappear\<close>

definition tx_gone :: "BRWallet \<Rightarrow> BRWallet \<Rightarrow> bool" where
  "tx_gone w w' \<longleftrightarrow> (\<forall>h. wl_allTx w h = None \<longrightarrow> wl_allTx w' h = None)"

lemma tx_gone_refl: "tx_gone w w"
  by (simp add: tx_gone_def)

lemma tx_gone_trans: "tx_gone a b \<Longrightarrow> tx_gone b c \<Longrightarrow> tx_gone a c"
  by (simp add: tx_gone_def)

lemma add_outputs_allTx: "wl_allTx (fst (add_outputs h j outs s)) = wl_allTx (fst s)"
  by (induction h j outs s rule: add_outputs.induct) (auto simp: Let_def)

lemma prune_utxos_allTx: "prune_utxos j s = Some s' \<Longrightarrow> wl_allTx (fst s') = wl_allTx (fst s)"
  by (induction j s rule: prune_utxos.induct) (auto split: if_splits bind_splits)

lemma balance_step_allTx:
  assumes "balance_step now h s = Some s'"
  shows "wl_allTx (fst s') = wl_allTx (fst s)"
proof -
  obtain w b p where s: "s = (w, b, p)" by (cases s)
  obtain tx where tx: "wl_allTx w h = Some tx" using assms by (auto simp: s balance_step_def split: bind_splits)
  show ?thesis
  proof (cases "tx_invalid w tx")
    case True
    then show ?thesis using assms by (auto simp: s balance_step_def tx)
  next
    case False
    define w1 where "w1 = w\<lparr>wl_spentOutputs := foldl (\<lambda>s i. insert (utxo_of i) s) (wl_spentOutputs w) (tx_inputs tx)\<rparr>"
    have w1: "wl_allTx w1 = wl_allTx w" by (simp add: w1_def)
    show ?thesis
    proof (cases "tx_pending w1 now tx")
      case True
      then show ?thesis using assms False w1 by (auto simp: s balance_step_def tx w1_def [symmetric] Let_def)
    next
      case pending: False
      obtain w2 b2 where a: "add_outputs (tx_txHash tx) 0 (tx_outputs tx) (w1, b) = (w2, b2)" by fastforce
      obtain w3 b3 where p: "prune_utxos (length (wl_utxos w2)) (w2, b2) = Some (w3, b3)"
        using assms False pending by (auto simp: s balance_step_def tx w1_def [symmetric] Let_def a split: bind_splits)
      have "wl_allTx w3 = wl_allTx w"
        using add_outputs_allTx [of "tx_txHash tx" 0 "tx_outputs tx" "(w1, b)"] prune_utxos_allTx [OF p] a w1 by simp
      then show ?thesis
        using assms False pending by (auto simp: s balance_step_def tx w1_def [symmetric] Let_def a p)
    qed
  qed
qed

lemma fold_opt_rel:
  assumes "fold_opt f xs s = Some s'" "\<And>x a b. x \<in> set xs \<Longrightarrow> f x a = Some b \<Longrightarrow> R a b"
    and "\<And>a. R a a" "\<And>a b c. R a b \<Longrightarrow> R b c \<Longrightarrow> R a c"
  shows "R s s'"
  using assms(1,2)
proof (induction xs arbitrary: s)
  case Nil
  then show ?case using assms(3) by simp
next
  case (Cons x xs)
  obtain t where t: "f x s = Some t" "fold_opt f xs t = Some s'" using Cons.prems(1) by (auto split: bind_splits)
  have "R t s'" by (rule Cons.IH [OF t(2)]) (use Cons.prems(2) in auto)
  moreover have "R s t" by (rule Cons.prems(2) [OF _ t(1)]) simp
  ultimately show ?case using assms(4) by blast
qed

lemma UpdateBalance_allTx:
  assumes "BRWalletUpdateBalance now w = Some w'"
  shows "wl_allTx w' = wl_allTx w"
proof -
  let ?s = "(w\<lparr>wl_utxos := [], wl_balanceHist := [], wl_spentOutputs := {}, wl_invalidTx := {}, wl_pendingTx := {},
            wl_usedAddrs := {}, wl_totalSent := 0, wl_totalReceived := 0\<rparr>, 0, 0)"
  obtain v b p where f: "fold_opt (balance_step now) (wl_transactions w) ?s = Some (v, b, p)" "wl_allTx w' = wl_allTx v"
    using assms by (auto simp: BRWalletUpdateBalance_def split: bind_splits if_splits)
  have "wl_allTx (fst (v, b, p)) = wl_allTx (fst ?s)"
    using fold_opt_rel [OF f(1), of "\<lambda>a b. wl_allTx (fst b) = wl_allTx (fst a)"] balance_step_allTx by simp
  then show ?thesis using f(2) by simp
qed

section \<open>Removing a transaction\<close>

lemma remove_single_gone:
  assumes "remove_single now tx w = Some w'"
  shows "wl_allTx w' = (wl_allTx w)(tx_txHash tx := None)"
  using assms by (auto simp: remove_single_def Let_def wallet_event_def split: bind_splits dest!: UpdateBalance_allTx)

definition hashed :: "BRWallet \<Rightarrow> bool" where
  "hashed w \<longleftrightarrow> (\<forall>h t. wl_allTx w h = Some t \<longrightarrow> tx_txHash t = h)"

definition removes :: "BRWallet \<Rightarrow> UInt256 set \<Rightarrow> BRWallet \<Rightarrow> bool" where
  "removes w S w' \<longleftrightarrow> wl_allTx w' \<subseteq>\<^sub>m wl_allTx w \<and> (\<forall>h\<in>S. wl_allTx w' h = None)"

lemma removes_hashed: "removes w S w' \<Longrightarrow> hashed w \<Longrightarrow> hashed w'"
  by (auto simp: removes_def hashed_def map_le_def dom_def)

lemma removes_trans: "removes a S b \<Longrightarrow> removes b T c \<Longrightarrow> removes a (S \<union> T) c"
  by (auto simp: removes_def map_le_def dom_def)

lemma removes_fold:
  assumes "\<And>x a b. f x a = Some b \<Longrightarrow> hashed a \<Longrightarrow> removes a {x} b"
  shows "fold_opt f xs s = Some s' \<Longrightarrow> hashed s \<Longrightarrow> removes s (set xs) s'"
proof (induction xs arbitrary: s)
  case (Cons x xs)
  then obtain t where t: "f x s = Some t" "fold_opt f xs t = Some s'" by (auto split: bind_splits)
  have "removes s {x} t" by (rule assms [OF t(1) Cons.prems(2)])
  then show ?case using Cons.IH [OF t(2)] removes_hashed Cons.prems(2) removes_trans [of s "{x}" t "set xs" s'] by simp
qed (simp add: removes_def)

text \<open>The transaction goes, and all that directly depend on it.\<close>

lemma Remove_removes:
  assumes "BRWalletRemoveTransaction now h w = Some w'" "hashed w"
  shows "removes w {h} w'"
    "wl_allTx w h = Some t \<Longrightarrow> find_dependents (wl_allTx w) t h (rev (wl_transactions w)) = Some hs \<Longrightarrow> removes w (set hs) w'"
proof -
  let ?deps = "\<lambda>w h. case wl_allTx w h of None \<Rightarrow> {}
    | Some t \<Rightarrow> (case find_dependents (wl_allTx w) t h (rev (wl_transactions w)) of None \<Rightarrow> {} | Some hs \<Rightarrow> set hs)"
  have "hashed w \<longrightarrow> removes w (insert h (?deps w h)) w'"
  proof (rule BRWalletRemoveTransaction.raw_induct [where P = "\<lambda>now h w w'. hashed w \<longrightarrow> removes w (insert h (?deps w h)) w'",
      OF _ assms(1)], intro impI, goal_cases)
    case (1 remove now h w w')
    show ?case
    proof (cases "wl_allTx w h")
      case None
      then show ?thesis using 1(2) by (simp add: removes_def split: if_splits)
    next
      case (Some t)
      then obtain hs where hs: "find_dependents (wl_allTx w) t h (rev (wl_transactions w)) = Some hs"
        using 1(2) by (auto split: bind_splits if_splits)
      have t: "tx_txHash t = h" using 1(3) Some by (simp add: hashed_def)
      show ?thesis
      proof (cases "hs = []")
        case True
        then have "remove_single now t w = Some w'" using 1(2) Some hs by (simp split: if_splits)
        then show ?thesis using remove_single_gone t Some hs True by (simp add: removes_def map_le_def)
      next
        case False
        then obtain v where v: "fold_opt (\<lambda>h w. remove now h w) (rev hs) w = Some v" "remove now h v = Some w'"
          using 1(2) Some hs by (auto split: bind_splits if_splits)
        have "removes w (set (rev hs)) v"
        proof (rule removes_fold [OF _ v(1) 1(3)])
          fix x a b assume "remove now x a = Some b" "hashed a"
          then show "removes a {x} b" using 1(1) by (fastforce simp: removes_def)
        qed
        moreover have "removes v {h} w'"
          using 1(1) [OF v(2)] removes_hashed [OF calculation 1(3)] by (simp add: removes_def)
        ultimately have "removes w (set (rev hs) \<union> {h}) w'" by (rule removes_trans)
        then show ?thesis using Some hs by simp
      qed
    qed
  qed
  then have r: "removes w (insert h (?deps w h)) w'" using assms(2) by blast
  then show "removes w {h} w'" by (simp add: removes_def)
  assume "wl_allTx w h = Some t" "find_dependents (wl_allTx w) t h (rev (wl_transactions w)) = Some hs"
  then show "removes w (set hs) w'" using r by (simp add: removes_def)
qed

lemma find_dependents_in:
  assumes "find_dependents (wl_allTx w) t h xs = Some hs" "sorted (map (height w) (rev xs))" "hashed w"
    and "g \<in> set xs" "wl_allTx w g = Some u" "\<not> BRTransactionEq t u" "tx_blockHeight t \<le> tx_blockHeight u"
    and "\<exists>i\<in>set (tx_inputs u). in_txHash i = h"
  shows "g \<in> set hs"
  using assms(1,2,4)
proof (induction xs arbitrary: hs)
  case (Cons x xs)
  obtain v where v: "wl_allTx w x = Some v" using Cons.prems(1) by (auto split: bind_splits)
  have g: "tx_txHash u = g" "height w g = tx_blockHeight u" using assms(3,5) by (auto simp: hashed_def height_def tx_of_def)
  have x: "height w x = tx_blockHeight v" using v by (simp add: height_def tx_of_def)
  have "height w g \<le> height w x" using Cons.prems(2,3) by (auto simp: sorted_append)
  then have ge: "\<not> tx_blockHeight v < tx_blockHeight t" using g(2) x assms(7) by (simp add: not_less)
  then obtain r where r: "find_dependents (wl_allTx w) t h xs = Some r"
    "hs = (if \<not> BRTransactionEq t v \<and> list_ex (\<lambda>i. UInt256Eq (in_txHash i) h) (tx_inputs v) then tx_txHash v # r else r)"
    using Cons.prems(1) v by (auto split: bind_splits)
  show ?case
  proof (cases "x = g")
    case True
    then have "v = u" using v assms(5) by simp
    then show ?thesis using r(2) assms(6,8) g(1) by (auto simp: list_ex_iff UInt256Eq_def)
  next
    case False
    then have "g \<in> set r" using Cons.IH [OF r(1)] Cons.prems(2,3) by (simp add: sorted_append)
    then show ?thesis using r(2) by simp
  qed
qed simp

section \<open>Updating transactions\<close>

definition tx_kept :: "BRWallet \<Rightarrow> BRWallet \<Rightarrow> bool" where
  "tx_kept w w' \<longleftrightarrow> (hashed w \<longrightarrow> hashed w' \<and> tx_gone w w')"

lemma tx_kept_refl: "tx_kept w w"
  by (simp add: tx_kept_def tx_gone_refl)

lemma tx_kept_trans: "tx_kept a b \<Longrightarrow> tx_kept b c \<Longrightarrow> tx_kept a c"
  using tx_gone_trans by (auto simp: tx_kept_def)

lemma tx_kept_eq: "wl_allTx w' = wl_allTx w \<Longrightarrow> tx_kept w w'"
  by (simp add: tx_kept_def tx_gone_def hashed_def)

lemma removes_kept:
  assumes "hashed w \<Longrightarrow> removes w S w'"
  shows "tx_kept w w'"
  unfolding tx_kept_def
proof
  assume h: "hashed w"
  have "tx_gone w w'" unfolding tx_gone_def using assms [OF h] by (auto simp: removes_def intro: map_le_None)
  then show "hashed w' \<and> tx_gone w w'" using removes_hashed [OF assms [OF h] h] by simp
qed

lemma tx_kept_retimed: "wl_allTx w h = Some t \<Longrightarrow> tx_txHash t' = tx_txHash t \<Longrightarrow> wl_allTx w' = (wl_allTx w)(h \<mapsto> t') \<Longrightarrow> tx_kept w w'"
  unfolding tx_kept_def tx_gone_def hashed_def by (metis fun_upd_apply option.inject option.distinct(1))

lemma tx_kept_freed: "wl_allTx w' = (wl_allTx w)(h := None) \<Longrightarrow> tx_kept w w'"
  unfolding tx_kept_def tx_gone_def hashed_def by (metis fun_upd_apply option.distinct(1))

lemma update_step_kept:
  assumes "update_step bh ts h s = Some s'"
  shows "tx_kept (fst s) (fst s')"
proof -
  obtain w hs n where s: "s = (w, hs, n)" by (cases s)
  show ?thesis
  proof (cases "wl_allTx w h")
    case None
    then show ?thesis using assms by (simp add: s update_step_def tx_kept_refl)
  next
    case (Some t)
    let ?t = "t\<lparr>tx_timestamp := ts, tx_blockHeight := bh\<rparr>"
    let ?w = "w\<lparr>wl_allTx := (wl_allTx w)(h \<mapsto> ?t)\<rparr>"
    have k: "tx_kept w ?w" by (rule tx_kept_retimed [OF Some]) simp_all
    have r: "tx_kept ?w v" if "reinsert_tx ?t ?w = Some v" for v
      by (rule tx_kept_eq) (use that in \<open>auto simp: reinsert_tx_def BRWalletInsertTx_def split: option.splits bind_splits\<close>)
    have d: "tx_kept ?w (?w\<lparr>wl_allTx := (wl_allTx ?w)(h := None)\<rparr>)" by (rule tx_kept_freed [of _ _ h]) simp
    have "s' = s \<or> fst s' = ?w \<or> reinsert_tx ?t ?w = Some (fst s') \<or> fst s' = ?w\<lparr>wl_allTx := (wl_allTx ?w)(h := None)\<rparr>"
      using assms Some by (auto simp: s update_step_def Let_def split: bind_splits if_splits)
    then show ?thesis
    proof (elim disjE)
      assume "reinsert_tx ?t ?w = Some (fst s')"
      then show ?thesis using tx_kept_trans [OF k r] s by simp
    next
      assume "fst s' = ?w\<lparr>wl_allTx := (wl_allTx ?w)(h := None)\<rparr>"
      then show ?thesis using tx_kept_trans [OF k d] s by simp
    qed (use k s in \<open>simp_all add: tx_kept_refl\<close>)
  qed
qed

lemma UpdateTransactions_kept:
  assumes "BRWalletUpdateTransactions now w hs bh ts = Some w'"
  shows "tx_kept w w'"
proof -
  let ?a = "if bh > wl_blockHeight w then w\<lparr>wl_blockHeight := bh\<rparr> else w"
  obtain b us n c where b: "fold_opt (update_step bh ts) hs (?a, [], False) = Some (b, us, n)"
    "(if n then BRWalletUpdateBalance now b else Some b) = Some c" "wl_allTx w' = wl_allTx c"
    using assms by (auto simp: BRWalletUpdateTransactions_def Let_def wallet_event_def split: bind_splits if_splits)
  have "tx_kept (fst (?a, [], False)) (fst (b, us, n))"
    using fold_opt_rel [where R = "\<lambda>a b. tx_kept (fst a) (fst b)", OF b(1) update_step_kept tx_kept_refl tx_kept_trans] by simp
  moreover have "tx_kept w ?a" by (rule tx_kept_eq) simp
  moreover have "tx_kept b c" using b(2) UpdateBalance_allTx tx_kept_eq by (auto split: if_splits)
  moreover have "tx_kept c w'" using b(3) by (rule tx_kept_eq)
  ultimately show ?thesis using tx_kept_trans by (metis fst_conv)
qed

lemma unrelayed_step_kept:
  assumes "unrelayed_step E h pm = Some pm'"
  shows "tx_kept (pm_wallet pm) (pm_wallet pm')"
proof -
  obtain t where t: "wl_allTx (pm_wallet pm) h = Some t" using assms by (auto simp: unrelayed_step_def split: bind_splits)
  have "pm' = pm \<or> BRWalletRemoveTransaction (we_now (me_wallet E)) (tx_txHash t) (pm_wallet pm) = Some (pm_wallet pm') \<or>
      BRPeerManagerUpdateTx E [tx_txHash t] TX_UNCONFIRMED 0 pm = Some pm'"
    using assms t by (auto simp: unrelayed_step_def Let_def split: bind_splits if_splits)
  then show ?thesis
  proof (elim disjE)
    assume "BRPeerManagerUpdateTx E [tx_txHash t] TX_UNCONFIRMED 0 pm = Some pm'"
    then have "BRWalletUpdateTransactions (we_now (me_wallet E)) (pm_wallet pm) [tx_txHash t] TX_UNCONFIRMED 0 = Some (pm_wallet pm')"
      by (auto simp: BRPeerManagerUpdateTx_def Let_def split: bind_splits)
    then show ?thesis by (rule UpdateTransactions_kept)
  next
    assume "BRWalletRemoveTransaction (we_now (me_wallet E)) (tx_txHash t) (pm_wallet pm) = Some (pm_wallet pm')"
    then show ?thesis using Remove_removes(1) by (intro removes_kept)
  qed (simp add: tx_kept_refl)
qed

lemma unrelayed_dangling:
  assumes "hashed (pm_wallet pm)" "wl_allTx (pm_wallet pm) g = None" "g \<in> set hs"
  shows "fold_opt (unrelayed_step E) hs pm = None"
  using assms
proof (induction hs arbitrary: pm)
  case (Cons x xs)
  show ?case
  proof (cases "unrelayed_step E x pm")
    case (Some pm')
    have "g \<noteq> x" using Some Cons.prems(2) by (auto simp: unrelayed_step_def)
    moreover have "hashed (pm_wallet pm') \<and> wl_allTx (pm_wallet pm') g = None"
      using unrelayed_step_kept [OF Some] Cons.prems(1,2) by (simp add: tx_kept_def tx_gone_def)
    ultimately show ?thesis using Some Cons by simp
  qed simp
qed simp

section \<open>Properties\<close>

lemma all_synced:
  "\<forall>q\<in>set ps. BRPeerConnectStatus (ctx q) = BRPeerStatusConnected \<and> pr_flags (ctx q) AND PEER_FLAG_SYNCED \<noteq> 0 \<Longrightarrow>
    synced_count ctx ps n = n + length ps"
  by (induction ps arbitrary: n) simp_all

lemma flag_again: "x AND f \<noteq> 0 \<Longrightarrow> (x OR f) AND f \<noteq> (0 :: u8)"
proof -
  assume "x AND f \<noteq> 0"
  then have "f \<noteq> 0" by auto
  moreover have "(x OR f) AND f = f" by (rule bit_eqI) (auto simp: bit_simps)
  ultimately show ?thesis by simp
qed

text \<open>C17: a use after free. When all peers have relayed their transactions, a transaction that none of them has is removed
  from the wallet, and the transactions that depend on it are freed with it; but these are still in the array the
  loop runs over, and the next access to them is to freed memory.\<close>

theorem unrelayed_use_after_free:
  assumes "wallet_inv (pm_wallet pm)"
    and "\<forall>q\<in>set (pm_connectedPeers pm). BRPeerConnectStatus (pm_ctx pm q) = BRPeerStatusConnected \<and>
      pr_flags (pm_ctx pm q) AND PEER_FLAG_SYNCED \<noteq> 0"
    and "pm_maxConnectCount pm \<le> length (pm_connectedPeers pm)"
    and "BRWalletTxUnconfirmedBefore (pm_wallet pm) None TX_UNCONFIRMED = Some (n, ns)"
    and "BRWalletTxUnconfirmedBefore (pm_wallet pm) (Some (if n < 10000 then n else 10000)) TX_UNCONFIRMED = Some (k, h # hs)"
    and "wl_allTx (pm_wallet pm) h = Some t" "wl_allTx (pm_wallet pm) g = Some u" "g \<in> set hs" "g \<noteq> h"
    and "tx_blockHeight t = TX_UNCONFIRMED" "tx_blockHeight u = TX_UNCONFIRMED" "\<exists>i\<in>set (tx_inputs u). in_txHash i = h"
    and "\<forall>p\<in>set (pm_publishedTx pm). BRTransactionEq (pub_tx p) t \<longrightarrow> pub_callback p = None"
    and "BRTxPeerListCount (pm_txRelays pm) h = 0" "BRTxPeerListCount (pm_txRequests pm) h = 0"
  shows "requestUnrelayedTxGetdataDone E p success pm = None"
proof -
  define pm1 where "pm1 = (if success then on_peer p (\<lambda>ctx. ctx\<lparr>pr_flags := pr_flags ctx OR PEER_FLAG_SYNCED\<rparr>) pm else pm)"
  have same: "pm_wallet pm1 = pm_wallet pm" "pm_connectedPeers pm1 = pm_connectedPeers pm" "pm_maxConnectCount pm1 = pm_maxConnectCount pm"
    "pm_publishedTx pm1 = pm_publishedTx pm" "pm_txRelays pm1 = pm_txRelays pm" "pm_txRequests pm1 = pm_txRequests pm"
    by (simp_all add: pm1_def on_peer_def)
  have "\<forall>q\<in>set (rev (pm_connectedPeers pm1)). BRPeerConnectStatus (pm_ctx pm1 q) = BRPeerStatusConnected \<and>
      pr_flags (pm_ctx pm1 q) AND PEER_FLAG_SYNCED \<noteq> 0"
  proof
    fix q assume "q \<in> set (rev (pm_connectedPeers pm1))"
    then have "BRPeerConnectStatus (pm_ctx pm q) = BRPeerStatusConnected" "pr_flags (pm_ctx pm q) AND PEER_FLAG_SYNCED \<noteq> 0"
      using assms(2) same(2) by simp_all
    then show "BRPeerConnectStatus (pm_ctx pm1 q) = BRPeerStatusConnected \<and> pr_flags (pm_ctx pm1 q) AND PEER_FLAG_SYNCED \<noteq> 0"
      using flag_again by (cases "success \<and> q = p") (auto simp: pm1_def on_peer_def BRPeerConnectStatus_def)
  qed
  then have count: "synced_count (pm_ctx pm1) (rev (pm_connectedPeers pm1)) 0 \<ge> pm_maxConnectCount pm1"
    using all_synced [of "rev (pm_connectedPeers pm1)" "pm_ctx pm1" 0] assms(3) same by simp
  note st = wallet_orderD(1,2) [OF inv_order [OF assms(1)]]
  have hashed: "hashed (pm_wallet pm)" using st(1) by (simp add: hashed_def wallet_store_def)
  have "fold_opt (unrelayed_step E) (h # hs) pm1 = None"
  proof (cases "unrelayed_step E h pm1")
    case (Some pm2)
    have th: "tx_txHash t = h" "tx_txHash u = g" using hashed assms(6,7) by (simp_all add: hashed_def)
    have "BRWalletRemoveTransaction (we_now (me_wallet E)) h (pm_wallet pm) = Some (pm_wallet pm2)"
      using Some assms(6,13-15) th(1)
      by (auto simp: unrelayed_step_def same Let_def list_ex_iff split: bind_splits if_splits)
    note r = this
    obtain ds where ds: "find_dependents (wl_allTx (pm_wallet pm)) t h (rev (wl_transactions (pm_wallet pm))) = Some ds"
      using r assms(6) by (subst (asm) BRWalletRemoveTransaction.simps) (auto split: bind_splits if_splits)
    have "g \<in> set hs \<Longrightarrow> g \<in> set (wl_transactions (pm_wallet pm))"
      using assms(5) by (auto simp: BRWalletTxUnconfirmedBefore_def Let_def split: bind_splits if_splits)
        (metis in_set_dropD in_set_takeD list.set_intros(2))+
    then have "g \<in> set ds"
      using find_dependents_in [OF ds _ hashed _ assms(7)] st(2) assms(8-12) th by (simp add: wallet_sorted_def BRTransactionEq_def UInt256Eq_def)
    then have "wl_allTx (pm_wallet pm2) g = None"
      using Remove_removes(2) [OF r hashed assms(6) ds] by (simp add: removes_def)
    moreover have "hashed (pm_wallet pm2)" using removes_hashed [OF Remove_removes(1) [OF r hashed] hashed] .
    ultimately have "fold_opt (unrelayed_step E) hs pm2 = None" using unrelayed_dangling assms(8) by blast
    then show ?thesis using Some by simp
  qed simp
  then show ?thesis using assms(4,5) count by (simp add: requestUnrelayedTxGetdataDone_def pm1_def [symmetric] same Let_def)
qed

text \<open>Transaction 1 pays the wallet, transaction 2 spends that; no peer has them.\<close>

definition two_wallet :: BRWallet where
  "two_wallet = demo_wallet\<lparr>wl_allTx := [1 \<mapsto> demo_tx\<lparr>tx_blockHeight := TX_UNCONFIRMED\<rparr>, 2 \<mapsto> demo_spend], wl_balanceHist := [7000, 0]\<rparr>"

definition two_pm :: BRPeerManager where
  "two_pm = chain_pm\<lparr>pm_wallet := two_wallet, pm_maxConnectCount := 1,
     pm_ctx := (\<lambda>p. demo_peer\<lparr>pc_status := BRPeerStatusConnected, pr_flags := PEER_FLAG_SYNCED\<rparr>)\<rparr>"

lemma two_wallet_inv: "wallet_inv two_wallet"
proof -
  have s: "wl_transactions two_wallet = [1, 2]" "wl_utxos two_wallet = []" "wl_balance two_wallet = 0"
    "wl_allAddrs two_wallet = {[50]}" "length (wl_balanceHist two_wallet) = 2" "wl_internalChain two_wallet = []"
    "wl_externalChain two_wallet = [[50]]"
    "wl_allTx two_wallet = [1 \<mapsto> demo_tx\<lparr>tx_blockHeight := TX_UNCONFIRMED\<rparr>, 2 \<mapsto> demo_spend]"
    by (simp_all add: two_wallet_def demo_wallet_def wallet_empty_def)
  have "ranked (\<lambda>h. unat h) (wl_allTx two_wallet)"
    by (auto simp: ranked_def s demo_tx_def demo_spend_def split: if_splits)
  moreover have "wallet_store two_wallet" "wallet_sorted two_wallet" "addrs_consistent two_wallet"
    by (auto simp: wallet_store_def wallet_sorted_def addrs_consistent_def s height_def tx_of_def demo_tx_def demo_spend_def
        split: if_splits)
  moreover have "BRWalletContainsTx two_wallet (tx_of two_wallet 1)" "BRWalletContainsTx two_wallet (tx_of two_wallet 2)"
    by (simp_all add: BRWalletContainsTx_def tx_of_def s demo_tx_def demo_spend_def)
  moreover have "height two_wallet 1 \<le> TX_UNCONFIRMED" "height two_wallet 2 \<le> TX_UNCONFIRMED"
    by (simp_all add: height_def tx_of_def s demo_tx_def demo_spend_def)
  ultimately show ?thesis by (auto simp: wallet_inv_def wallet_order_def wallet_funds_def s utxo_total_def)
qed

theorem unrelayed_use_after_free_witness:
  "requestUnrelayedTxGetdataDone chain_env 7 True two_pm = None"
proof (rule unrelayed_use_after_free [where h = 1 and g = 2 and hs = "[2]" and n = 2 and k = 2 and ns = "[]"])
  show "wallet_inv (pm_wallet two_pm)" using two_wallet_inv by (simp add: two_pm_def)
  show "wl_allTx (pm_wallet two_pm) 1 = Some (demo_tx\<lparr>tx_blockHeight := TX_UNCONFIRMED\<rparr>)"
    "wl_allTx (pm_wallet two_pm) 2 = Some demo_spend" by (simp_all add: two_pm_def two_wallet_def)
  show "BRWalletTxUnconfirmedBefore (pm_wallet two_pm) None TX_UNCONFIRMED = Some (2, [])"
    "BRWalletTxUnconfirmedBefore (pm_wallet two_pm) (Some (if 2 < (10000 :: nat) then 2 else 10000)) TX_UNCONFIRMED = Some (2, [1, 2])"
    by (simp_all add: BRWalletTxUnconfirmedBefore_def two_pm_def two_wallet_def demo_wallet_def demo_tx_def demo_spend_def Let_def)
qed (simp_all add: two_pm_def chain_pm_def demo_spend_def BRPeerConnectStatus_def PEER_FLAG_SYNCED_def BRTxPeerListCount_def)

end
