(* ===== verification/ManagerRun.thy ===== *)
theory ManagerRun
  imports ManagerOps ManagerTx
begin

text \<open>
  The whole manager: what a peer does to it is a step; \<open>manager_run\<close> are the sequences of steps. Apart from the relayed
  blocks, all steps leave the chain alone up to dropped orphans, and the two arrays of published transactions stay
  parallel. A new manager satisfies the invariant.
\<close>

section \<open>Quiet operations\<close>

definition published_ok :: "BRPeerManager \<Rightarrow> bool" where
  "published_ok pm \<longleftrightarrow> pm_publishedTxHashes pm = map (\<lambda>t. tx_txHash (pub_tx t)) (pm_publishedTx pm)"

definition pub_kept :: "BRPeerManager \<Rightarrow> BRPeerManager \<Rightarrow> bool" where
  "pub_kept a b \<longleftrightarrow> (published_ok a \<longrightarrow> published_ok b)"

definition quiet :: "BRPeerManager \<Rightarrow> BRPeerManager \<Rightarrow> bool" where
  "quiet a b \<longleftrightarrow> orphans_dropped a b \<and> pub_kept a b"

lemma pub_kept_refl [simp]: "pub_kept a a"
  by (simp add: pub_kept_def)

lemma pub_kept_trans: "pub_kept a b \<Longrightarrow> pub_kept b c \<Longrightarrow> pub_kept a c"
  by (simp add: pub_kept_def)

lemma pub_keptI: "pm_publishedTx b = pm_publishedTx a \<Longrightarrow> pm_publishedTxHashes b = pm_publishedTxHashes a \<Longrightarrow> pub_kept a b"
  by (simp add: pub_kept_def published_ok_def)

lemma quiet_refl [simp]: "quiet a a"
  by (simp add: quiet_def)

lemma quiet_trans: "quiet a b \<Longrightarrow> quiet b c \<Longrightarrow> quiet a c"
  using orphans_dropped_trans pub_kept_trans by (auto simp: quiet_def)

lemma quietI:
  assumes "pm_blocks b = pm_blocks a" "pm_lastBlock b = pm_lastBlock a" "pm_checkpoints b = pm_checkpoints a"
    "pm_next b = pm_next a" "pm_orphans b = pm_orphans a" "pm_heap b = pm_heap a" "pub_kept a b"
  shows "quiet a b"
  using assms by (simp add: quiet_def orphans_droppedI)

lemma keep_published_kept: "pub_kept a (keep_published P a)"
  by (auto simp: pub_kept_def published_ok_def keep_published_def Let_def)

lemma pub_update_tx: "BRPeerManagerUpdateTx E hs h t a = Some b \<Longrightarrow> pub_kept a b"
  using keep_published_kept [of a]
  by (auto simp: BRPeerManagerUpdateTx_def Let_def pub_kept_def published_ok_def split: bind_splits if_splits)

lemma quiet_on_peer [simp]: "quiet a (on_peer p f a)"
  by (rule quietI) (simp_all add: on_peer_def pub_keptI)

lemma quiet_event [simp]: "quiet a (manager_event cb e a)"
  by (rule quietI) (simp_all add: manager_event_def pub_keptI)

lemma quiet_sync_stopped [simp]: "quiet a (BRPeerManagerSyncStopped E a)"
  by (rule quietI) (simp_all add: BRPeerManagerSyncStopped_def on_peer_def Let_def pub_keptI split: option.split)

lemma quiet_misbehavin [simp]: "quiet a (BRPeerManagerPeerMisbehavin p a)"
  by (rule quietI) (simp_all add: BRPeerManagerPeerMisbehavin_def on_peer_def Let_def pub_keptI)

lemma quiet_update_filter [simp]: "quiet a (BRPeerManagerUpdateFilter E a)"
  by (rule quietI) (simp_all add: BRPeerManagerUpdateFilter_def on_peer_def pub_keptI split: option.split)

lemma quiet_publish [simp]: "quiet a (BRPeerManagerPublishPendingTx E p a)"
  by (simp add: BRPeerManagerPublishPendingTx_def)

lemma quiet_mempool [simp]: "quiet a (send_mempool E p a)"
  by (simp add: send_mempool_def)

lemma quiet_steps:
  assumes "quiet a b"
  shows "quiet a (on_peer p f b)" "quiet a (manager_event cb e b)" "quiet a (BRPeerManagerSyncStopped E b)"
    "quiet a (BRPeerManagerPeerMisbehavin p b)" "quiet a (BRPeerManagerUpdateFilter E b)"
    "quiet a (BRPeerManagerPublishPendingTx E p b)" "quiet a (send_mempool E p b)"
  by (rule quiet_trans [OF assms], simp)+

lemma quiet_sets:
  assumes "quiet a b"
  shows "quiet a (pm_wallet_update f b)" "quiet a (pm_isConnected_update g b)" "quiet a (pm_connectFailureCount_update n b)"
    "quiet a (pm_peers_update ps b)" "quiet a (pm_downloadPeer_update d b)" "quiet a (pm_connectedPeers_update cs b)"
    "quiet a (pm_syncStartHeight_update h b)" "quiet a (pm_estimatedHeight_update h b)" "quiet a (pm_bloomFilter_update bf b)"
    "quiet a (pm_txRelays_update l b)" "quiet a (pm_txRequests_update l b)" "quiet a (pm_events_update es b)"
    "quiet a (pm_maxConnectCount_update n b)" "quiet a (pm_fixedPeer_update fp b)" "quiet a (pm_ctx_update c b)"
  by (rule quiet_trans [OF assms quietI]; simp add: pub_keptI)+

lemma quiet_update_tx: "BRPeerManagerUpdateTx E hs h t a = Some b \<Longrightarrow> quiet a b"
  by (simp add: quiet_def dropped_update_tx pub_update_tx)

lemma quiet_load_filter: "BRPeerManagerLoadBloomFilter E p a = Some b \<Longrightarrow> quiet a b"
  using dropped_load_filter [of E p a b]
  by (auto simp: quiet_def BRPeerManagerLoadBloomFilter_def free_orphans_def on_peer_def Let_def split: bind_splits if_splits
      intro!: pub_keptI)

lemma quiet_fold_opt:
  assumes "fold_opt f xs a = Some b" "\<And>x a b. f x a = Some b \<Longrightarrow> quiet a b"
  shows "quiet a b"
  by (rule fold_opt_rel [OF assms(1), of quiet]) (auto intro: assms(2) quiet_trans)

lemma quiet_fold: "(\<And>x a. quiet a (f x a)) \<Longrightarrow> quiet a (fold f xs a)"
  by (induction xs arbitrary: a) (auto intro: quiet_trans)

lemma quiet_each:
  assumes "each_connected f a = Some b" "\<And>p a b. f p a = Some b \<Longrightarrow> quiet a b"
  shows "quiet a b"
  using assms(1) unfolding each_connected_def
  by (rule quiet_fold_opt) (auto split: if_splits intro: assms(2))

lemma quiet_on_load:
  assumes "BRPeerManagerLoadBloomFilter E q a = Some b" "quiet b c"
  shows "quiet a c"
  using quiet_trans [OF quiet_load_filter [OF assms(1)] assms(2)] .

lemma quiet_load_mempools:
  assumes "BRPeerManagerLoadMempools E a = Some b"
  shows "quiet a b"
  using assms unfolding BRPeerManagerLoadMempools_def
  by (rule quiet_each)
    (auto split: bind_splits if_splits intro: quiet_on_load quiet_trans [OF quiet_publish quiet_on_peer])

section \<open>The handlers are quiet\<close>

lemma quiet_rerequest: "updateFilterRerequestDone E p s a = Some b \<Longrightarrow> quiet a b"
  by (auto simp: updateFilterRerequestDone_def split: bind_splits if_splits)

lemma quiet_load_done: "updateFilterLoadDone E p s a = Some b \<Longrightarrow> quiet a b"
  by (auto simp: updateFilterLoadDone_def Let_def split: bind_splits if_splits intro!: quiet_steps)

lemma quiet_no_filter: "quiet (a\<lparr>pm_bloomFilter := None\<rparr>) b \<Longrightarrow> quiet a b"
  by (rule quiet_trans [OF quietI]) (simp_all add: pub_keptI)

lemma quiet_ping_done:
  assumes "updateFilterPingDone E p s a = Some b"
  shows "quiet a b"
proof -
  let ?a = "a\<lparr>pm_bloomFilter := None\<rparr>"
  show ?thesis
  proof (cases s)
    case True
    obtain l where l: "pm_heap a (pm_lastBlock a) = Some l"
      using assms True by (cases "pm_heap a (pm_lastBlock a)") (simp_all add: updateFilterPingDone_def)
    show ?thesis
    proof (cases "mb_height l < pm_estimatedHeight a")
      case True
      show ?thesis
      proof (cases "pm_downloadPeer a")
        case None
        then have "b = ?a" using assms True \<open>s\<close> l by (simp add: updateFilterPingDone_def)
        then show ?thesis using quiet_no_filter by simp
      next
        case (Some d)
        then obtain c where c: "BRPeerManagerLoadBloomFilter E d ?a = Some c"
          "b = on_peer d (BRPeerSendPing (me_peer E) p (Some updateFilterLoadDone_cb)) c"
          using assms True \<open>s\<close> l by (cases "BRPeerManagerLoadBloomFilter E d ?a") (simp_all add: updateFilterPingDone_def)
        show ?thesis unfolding c(2) by (rule quiet_no_filter [OF quiet_on_load [OF c(1) quiet_on_peer]])
      qed
    next
      case False
      then have "each_connected (\<lambda>q pm. do {
            pm \<leftarrow> BRPeerManagerLoadBloomFilter E q pm;
            Some (on_peer q (BRPeerSendPing (me_peer E) q (Some updateFilterLoadDone_cb)) pm)
          }) ?a = Some b" using assms \<open>s\<close> l by (simp add: updateFilterPingDone_def)
      then have "quiet ?a b" by (rule quiet_each) (auto split: bind_splits intro: quiet_on_load)
      then show ?thesis by (rule quiet_no_filter)
    qed
  qed (use assms in \<open>simp add: updateFilterPingDone_def\<close>)
qed

lemma quiet_unrelayed:
  assumes "unrelayed_step E h a = Some b"
  shows "quiet a b"
proof -
  obtain tx where tx: "wl_allTx (pm_wallet a) h = Some tx" using assms by (auto simp: unrelayed_step_def split: bind_splits)
  define c where "c \<longleftrightarrow> list_ex (\<lambda>t. BRTransactionEq (pub_tx t) tx \<and> pub_callback t \<noteq> None) (pm_publishedTx a)"
  define n where "n = BRTxPeerListCount (pm_txRelays a) (tx_txHash tx)"
  define m where "m = BRTxPeerListCount (pm_txRequests a) (tx_txHash tx)"
  have e: "(if \<not> c \<and> n = 0 \<and> m = 0
      then BRWalletRemoveTransaction (we_now (me_wallet E)) (tx_txHash tx) (pm_wallet a) \<bind> (\<lambda>w. Some (a\<lparr>pm_wallet := w\<rparr>))
      else if \<not> c \<and> n < pm_maxConnectCount a then BRPeerManagerUpdateTx E [tx_txHash tx] TX_UNCONFIRMED 0 a else Some a) = Some b"
    using assms unfolding unrelayed_step_def tx Let_def c_def n_def m_def by (simp only: Option.bind.bind_lunit)
  show ?thesis
  proof (cases "\<not> c \<and> n = 0 \<and> m = 0")
    case True
    then obtain w where w: "b = a\<lparr>pm_wallet := w\<rparr>" using e
      by (cases "BRWalletRemoveTransaction (we_now (me_wallet E)) (tx_txHash tx) (pm_wallet a)") (simp_all, metis)
    show ?thesis unfolding w by (rule quietI) (simp_all add: pub_keptI)
  next
    case False
    show ?thesis
    proof (cases "\<not> c \<and> n < pm_maxConnectCount a")
      case True
      show ?thesis using e unfolding if_not_P [OF False] if_P [OF True] by (rule quiet_update_tx)
    next
      case f: False
      then show ?thesis using e unfolding if_not_P [OF False] if_not_P [OF f] by simp
    qed
  qed
qed

lemma quiet_getdata_done:
  assumes "requestUnrelayedTxGetdataDone E p s a = Some b"
  shows "quiet a b"
proof -
  define c where "c = (if s then on_peer p (\<lambda>ctx. ctx\<lparr>pr_flags := pr_flags ctx OR PEER_FLAG_SYNCED\<rparr>) a else a)"
  have "quiet c b"
    using assms quiet_fold_opt [OF _ quiet_unrelayed]
    by (auto simp: requestUnrelayedTxGetdataDone_def c_def [symmetric] Let_def split: bind_splits if_splits)
  then show ?thesis using quiet_trans [of a c b] by (simp add: c_def split: if_splits)
qed

lemma request_step_quiet:
  assumes "request_step p h s = Some s'"
  shows "quiet (snd s) (snd s')"
  using assms by (auto simp: request_step_def split: prod.splits bind_splits if_splits intro!: quietI pub_keptI)

lemma quiet_request:
  assumes "BRPeerManagerRequestUnrelayedTx E p a = Some b"
  shows "quiet a b"
proof -
  obtain hs c txs where c: "fold_opt (request_step p) txs ([], a) = Some (hs, c)"
    "b = (if hs \<noteq> []
       then let pm = on_peer p (BRPeerSendGetdata (me_peer E) hs []) c in
         if pr_flags (pm_ctx pm p) AND PEER_FLAG_SYNCED = 0
         then on_peer p (BRPeerSendPing (me_peer E) p (Some requestUnrelayedTxGetdataDone_cb)) pm else pm
       else on_peer p (\<lambda>ctx. ctx\<lparr>pr_flags := pr_flags ctx OR PEER_FLAG_SYNCED\<rparr>) c)"
    using assms unfolding BRPeerManagerRequestUnrelayedTx_def by (auto split: bind_splits)
  have "quiet (snd ([] :: UInt256 list, a)) (snd (hs, c))"
    using fold_opt_rel [where R = "\<lambda>s s'. quiet (snd s) (snd s')", OF c(1) request_step_quiet quiet_refl quiet_trans] by simp
  moreover have "quiet c b" unfolding c(2) Let_def by (auto intro!: quiet_steps)
  ultimately show ?thesis using quiet_trans by simp
qed

lemma quiet_mempool_done:
  assumes "mempoolDone E p s a = Some b"
  shows "quiet a b"
proof (cases s)
  case True
  define c where "c = (if pm_syncStartHeight a > 0 then BRPeerManagerSyncStopped E a else a)"
  obtain d where d: "BRPeerManagerRequestUnrelayedTx E p c = Some d"
    using assms True by (cases "BRPeerManagerRequestUnrelayedTx E p c") (simp_all add: mempoolDone_def c_def)
  have "quiet a c" by (simp add: c_def)
  then have "quiet a d" using quiet_request [OF d] by (rule quiet_trans)
  then show ?thesis using assms True d by (auto simp: mempoolDone_def c_def [symmetric] Let_def intro!: quiet_steps)
qed (use assms in \<open>simp add: mempoolDone_def\<close>)

lemma quiet_filter_done: "quiet a (loadBloomFilterDone E p s a)"
  by (auto simp: loadBloomFilterDone_def intro!: quiet_steps)

lemma quiet_reset [simp]: "quiet a (reset_timeout E p a)"
  by (rule quietI) (simp_all add: reset_timeout_def on_peer_def pub_keptI)

section \<open>Connecting\<close>

lemma quiet_find [simp]: "quiet a (BRPeerManagerFindPeers E N a)"
proof -
  have f: "quiet a (fold (findPeersThreadRoutine E N s) hs a)" for s hs a
    by (rule quiet_fold, rule quietI) (simp_all add: findPeersThreadRoutine_def Let_def pub_keptI)
  have p: "quiet a (a\<lparr>pm_peers := ps\<rparr>)" for a ps by (rule quietI) (simp_all add: pub_keptI)
  show ?thesis unfolding BRPeerManagerFindPeers_def Let_def using p quiet_trans [OF p quiet_trans [OF f p]] by simp
qed

lemma quiet_connect_peer: "quiet a (connect_peer E q a)"
  by (rule quietI) (simp_all add: connect_peer_def Let_def pub_keptI)

lemma quiet_connect_loop: "connect_loop E N k peers a = Some b \<Longrightarrow> quiet a b"
proof (induction E N k peers a rule: connect_loop.induct)
  case (1 E N k peers a)
  show ?case
  proof (cases "peers = [] \<or> length (pm_connectedPeers a) \<ge> pm_maxConnectCount a")
    case True
    then show ?thesis using 1(2) by (simp add: connect_loop.simps [of E N k peers a])
  next
    case False
    let ?r = "mn_rand N k (length peers)" let ?i = "?r * ?r div length peers"
    let ?c = "if list_ex (\<lambda>q. BRPeerEq (peers ! ?i) (pm_ctx a q)) (pm_connectedPeers a) then a else connect_peer E (peers ! ?i) a"
    have i: "\<not> ?i \<ge> length peers" using 1(2) False by (auto simp: connect_loop.simps [of E N k peers a] Let_def split: if_splits)
    have c: "connect_loop E N (k + 1) (rm_at peers ?i) ?c = Some b"
      using 1(2) False i by (simp add: connect_loop.simps [of E N k peers a] Let_def)
    have "quiet ?c b" by (rule 1(1) [OF False refl refl i c])
    then show ?thesis using quiet_trans [of a ?c b] by (simp add: quiet_connect_peer)
  qed
qed

lemma quiet_sync_start:
  assumes "sync_start a = Some b"
  shows "quiet a b"
proof (cases "pm_downloadPeer a = None \<and> pm_syncStartHeight a \<noteq> 0")
  case False
  then obtain l where "pm_heap a (pm_lastBlock a) = Some l"
    using assms by (cases "pm_heap a (pm_lastBlock a)") (auto simp: sync_start_def)
  then have "b = (if (pm_downloadPeer a = None \<or> mb_height l < pm_estimatedHeight a) \<and> pm_syncStartHeight a = 0
      then manager_event CbSyncStarted SyncStarted (a\<lparr>pm_syncStartHeight := mb_height l + 1\<rparr>) else a)"
    using assms False by (simp add: sync_start_def)
  then show ?thesis by (auto intro!: quiet_steps quiet_sets)
qed (use assms in \<open>simp add: sync_start_def\<close>)

lemma quiet_fill:
  assumes "fill_connections E N a = Some b"
  shows "quiet a b"
proof (cases "length (pm_connectedPeers a) < pm_maxConnectCount a")
  case True
  then have "quiet (fresh_peers E N a) b" using assms quiet_connect_loop by (simp add: fill_connections_def Let_def)
  moreover have "quiet a (fresh_peers E N a)" by (simp add: fresh_peers_def)
  ultimately show ?thesis using quiet_trans by blast
qed (use assms in \<open>simp add: fill_connections_def\<close>)

lemma quiet_connect:
  assumes "BRPeerManagerConnect E N a = Some b"
  shows "quiet a b"
proof -
  define a1 where "a1 = (if pm_connectFailureCount a \<ge> MAX_CONNECT_FAILURES then a\<lparr>pm_connectFailureCount := 0\<rparr> else a)"
  obtain a2 where a2: "sync_start a1 = Some a2"
    using assms by (auto simp: BRPeerManagerConnect_def a1_def [symmetric] Let_def split: bind_splits)
  obtain a3 where a3: "fill_connections E N (retry_connecting E a2) = Some a3"
    using assms a2 by (auto simp: BRPeerManagerConnect_def a1_def [symmetric] Let_def split: bind_splits)
  have b: "b = (if pm_connectedPeers a3 = []
       then manager_event CbSyncStopped (SyncStopped ENETUNREACH) (BRPeerManagerSyncStopped E a3) else a3)"
    using assms a2 a3 by (simp add: BRPeerManagerConnect_def a1_def [symmetric] Let_def)
  have "quiet a a1" by (simp add: a1_def quiet_sets)
  then have "quiet a a2" using quiet_sync_start [OF a2] by (rule quiet_trans)
  moreover have "quiet a2 (retry_connecting E a2)" unfolding retry_connecting_def by (rule quiet_fold) simp
  ultimately have "quiet a (retry_connecting E a2)" by (rule quiet_trans)
  then have "quiet a a3" using quiet_fill [OF a3] by (rule quiet_trans)
  then show ?thesis unfolding b by (auto intro!: quiet_steps)
qed

section \<open>Peers that connect, disconnect and relay\<close>

lemma quiet_start_sync:
  assumes "start_sync E q l a = Some b"
  shows "quiet a b"
proof (cases "mb_height l < BRPeerLastBlock (pm_ctx a q)")
  case True
  obtain hs where "locators a = Some hs"
    using assms True by (cases "locators a") (simp_all add: start_sync_def)
  then have b: "b = on_peer q (if mb_timestamp l + 7 * 24 * 60 * 60 \<ge> pm_earliestKeyTime a
       then BRPeerSendGetblocks (me_peer E) hs 0 else BRPeerSendGetheaders (me_peer E) hs 0)
       (on_peer q (\<lambda>ctx. BRPeerScheduleDisconnect (me_peer E) ctx PROTOCOL_TIMEOUT) a)"
    using assms True by (simp add: start_sync_def on_peer_def)
  show ?thesis unfolding b by (intro quiet_steps quiet_refl)
next
  case False
  then have "BRPeerManagerLoadMempools E (a\<lparr>pm_connectFailureCount := 0\<rparr>) = Some b" using assms by (simp add: start_sync_def)
  then show ?thesis by (rule quiet_trans [OF quiet_sets(3) [OF quiet_refl] quiet_load_mempools])
qed

lemma quiet_start_download:
  assumes "start_download E p l a = Some b"
  shows "quiet a b"
proof -
  define q where "q = fold (better_peer a) (rev (pm_connectedPeers a)) p"
  define a1 where "a1 = (case pm_downloadPeer a of None \<Rightarrow> a | Some d \<Rightarrow> on_peer d BRPeerDisconnect a)"
  define a2 where "a2 = a1\<lparr>pm_downloadPeer := Some q, pm_isConnected := True, pm_estimatedHeight := BRPeerLastBlock (pm_ctx a1 q)\<rparr>"
  note u = assms [unfolded start_download_def Let_def, folded q_def, folded a1_def, folded a2_def]
  obtain a3 where a3: "BRPeerManagerLoadBloomFilter E q a2 = Some a3"
    using u by (cases "BRPeerManagerLoadBloomFilter E q a2") simp_all
  note v = u [unfolded a3 Option.bind.bind_lunit]
  have "quiet a a1" by (simp add: a1_def split: option.split)
  then have "quiet a a2" unfolding a2_def by (intro quiet_sets)
  then have "quiet a a3" using quiet_load_filter [OF a3] by (rule quiet_trans)
  then have "quiet a (BRPeerManagerPublishPendingTx E q (on_peer q (\<lambda>ctx. BRPeerSetCurrentBlockHeight ctx (mb_height l)) a3))"
    by (intro quiet_steps)
  then show ?thesis using quiet_start_sync [OF v] by (rule quiet_trans)
qed

lemma quiet_connected:
  assumes "peerConnected E p a = Some b"
  shows "quiet a b"
proof -
  define now :: u64 where "now = word_of_int (me_time E)"
  define a1 where "a1 = (if pr_timestamp (pm_ctx a p) > now + 2 * 60 * 60 \<or> pr_timestamp (pm_ctx a p) < now - 2 * 60 * 60
    then on_peer p (\<lambda>ctx. ctx\<lparr>pr_timestamp := now\<rparr>) a else a)"
  have q: "quiet a a1" by (simp add: a1_def)
  note u = assms [unfolded peerConnected_def Let_def, folded now_def, folded a1_def]
  show ?thesis
  proof (cases "pr_services (pm_ctx a1 p) AND SERVICES_NODE_NETWORK = 0")
    case True
    then have "b = on_peer p BRPeerDisconnect a1" using u by simp
    then show ?thesis using q by (simp add: quiet_steps)
  next
    case False
    then obtain l where l: "pm_heap a1 (pm_lastBlock a1) = Some l" using u by (cases "pm_heap a1 (pm_lastBlock a1)") simp_all
    note v = u [unfolded if_not_P [OF False] l Option.bind.bind_lunit]
    have d: ?thesis if "start_download E p l a1 = Some b" using quiet_trans [OF q quiet_start_download [OF that]] .
    show ?thesis
    proof (cases "BRPeerLastBlock (pm_ctx a1 p) + 10 < mb_height l \<or>
        pr_services (pm_ctx a1 p) AND SERVICES_NODE_BCASH = SERVICES_NODE_BCASH \<or>
        BRPeerVersion (pm_ctx a1 p) \<ge> 70011 \<and> pr_services (pm_ctx a1 p) AND SERVICES_NODE_BLOOM = 0")
      case True
      have "b = on_peer p BRPeerDisconnect a1" using v unfolding if_P [OF True] by simp
      then show ?thesis using q by (simp add: quiet_steps)
    next
      case f: False
      note w = v [unfolded if_not_P [OF f]]
      show ?thesis
      proof (cases "pm_downloadPeer a1")
        case None
        then show ?thesis using w d by simp
      next
        case (Some dl)
        note x = w [unfolded Some option.case]
        show ?thesis
        proof (cases "BRPeerLastBlock (pm_ctx a1 dl) \<ge> BRPeerLastBlock (pm_ctx a1 p) \<or> mb_height l \<ge> BRPeerLastBlock (pm_ctx a1 p)")
          case True
          note y = x [unfolded if_P [OF True]]
          show ?thesis
          proof (cases "mb_height l \<ge> BRPeerLastBlock (pm_ctx a1 p)")
            case True
            obtain c where c: "BRPeerManagerLoadBloomFilter E p (a1\<lparr>pm_connectFailureCount := 0\<rparr>) = Some c"
              "b = on_peer p (BRPeerSendPing (me_peer E) p (Some loadBloomFilterDone_cb)) (BRPeerManagerPublishPendingTx E p c)"
              using y unfolding if_P [OF True] by (cases "BRPeerManagerLoadBloomFilter E p (a1\<lparr>pm_connectFailureCount := 0\<rparr>)") simp_all
            have "quiet a c" by (rule quiet_trans [OF quiet_sets(3) [OF q] quiet_load_filter [OF c(1)]])
            then show ?thesis unfolding c(2) by (intro quiet_steps)
          next
            case False
            then show ?thesis using y q by simp
          qed
        next
          case False
          show ?thesis using x unfolding if_not_P [OF False] by (rule d)
        qed
      qed
    qed
  qed
qed

lemma quiet_disconnect_error: "quiet a (snd (disconnect_error p e a))"
  by (simp add: disconnect_error_def quiet_sets)

lemma quiet_forget_peer: "quiet a (forget_peer p a)"
  by (simp add: forget_peer_def Let_def quiet_sets)

lemma quiet_published: "quiet a b \<Longrightarrow> quiet a (published cb info e b)"
  by (simp add: published_def quiet_sets split: option.split)

lemma quiet_notify: "quiet a b \<Longrightarrow> quiet a (disconnect_notify cbs te f e b)"
proof -
  have "quiet b (fold (\<lambda>(cb, info). published (Some cb) info te) cbs b)"
    by (rule quiet_fold) (auto intro: quiet_published)
  moreover assume "quiet a b"
  ultimately show ?thesis by (auto simp: disconnect_notify_def Let_def intro: quiet_steps quiet_trans)
qed

lemma quiet_keep: "quiet a (keep_published P a)"
  by (rule quietI) (simp_all add: keep_published_kept, simp_all add: keep_published_def Let_def)

lemma quiet_disconnected:
  assumes "peerDisconnected E N p e a = Some b"
  shows "quiet a b"
proof -
  obtain t a1 where d: "disconnect_error p e a = (t, a1)" by fastforce
  define a2 where "a2 = forget_peer p a1"
  define f where "f \<longleftrightarrow> \<not> pm_isConnected a2 \<and> pm_connectFailureCount a2 = MAX_CONNECT_FAILURES"
  define t' where "t' = (if f then ENOTCONN else t)"
  define a3 where "a3 = (if f then (BRPeerManagerSyncStopped E a2)\<lparr>pm_peers := []\<rparr> else a2)"
  define a4 where "a4 = (if t' \<noteq> 0 then snd (cancel_published a3) else a3)"
  define cbs where "cbs = (if t' \<noteq> 0 then fst (cancel_published a3) else [])"
  define a5 where "a5 = disconnect_notify cbs t' f e (a4\<lparr>pm_connectedPeers := rev (remove1 p (rev (pm_connectedPeers a4)))\<rparr>)"
  have "quiet a a1" using quiet_disconnect_error [of a p e] d by simp
  then have "quiet a a2" using quiet_forget_peer quiet_trans by (auto simp: a2_def)
  then have "quiet a a3" by (simp add: a3_def quiet_sets quiet_steps)
  moreover have "quiet a3 a4" using quiet_keep by (simp add: a4_def cancel_published_def)
  ultimately have "quiet a a5" using quiet_trans by (simp add: a5_def quiet_notify quiet_sets)
  then have q: "quiet a a5" .
  obtain a6 where a6: "(if \<not> f \<and> pm_connectFailureCount a2 < MAX_CONNECT_FAILURES then BRPeerManagerConnect E N a5 else Some a5) = Some a6"
    "b = manager_event CbTxStatusUpdate TxStatusUpdate a6"
    using assms unfolding peerDisconnected_def d Let_def split_conv a2_def [symmetric] f_def [symmetric] t'_def [symmetric]
      a3_def [symmetric] a4_def [symmetric] cbs_def [symmetric] a5_def [symmetric]
    by (auto simp del: if_split split: bind_splits)
  have "quiet a5 a6"
  proof (cases "\<not> f \<and> pm_connectFailureCount a2 < MAX_CONNECT_FAILURES")
    case True
    show ?thesis using a6(1) unfolding if_P [OF True] by (rule quiet_connect)
  next
    case False
    show ?thesis using a6(1) unfolding if_not_P [OF False] by simp
  qed
  with q have "quiet a a6" by (rule quiet_trans)
  then show ?thesis unfolding a6(2) by (intro quiet_steps)
qed

lemma quiet_relayed_peers: "quiet a (peerRelayedPeers E ps a)"
  by (simp add: peerRelayedPeers_def Let_def quiet_steps quiet_sets)

lemma quiet_notfound: "quiet a (peerDataNotfound p hs a)"
  unfolding peerDataNotfound_def by (rule quiet_fold) (simp add: quiet_sets)

lemma quiet_fee: "quiet a (peerSetFeePerKb a)"
  by (simp add: peerSetFeePerKb_def Let_def split_def quiet_sets)

section \<open>Published transactions\<close>

lemma rm_at_map: "rm_at (map f xs) i = map f (rm_at xs i)"
  by (simp add: rm_at_def take_map drop_map)

lemma pub_set_info: "pub_kept a (a\<lparr>pm_publishedTx := (pm_publishedTx a)[i := (pm_publishedTx a ! i)\<lparr>pub_info := n, pub_callback := c\<rparr>]\<rparr>)"
proof -
  have "map (\<lambda>t. tx_txHash (pub_tx t)) (xs[i := (xs ! i)\<lparr>pub_info := n, pub_callback := c\<rparr>]) = map (\<lambda>t. tx_txHash (pub_tx t)) xs" for xs :: "BRPublishedTx list"
    proof (rule nth_equalityI)
    show "map (\<lambda>t. tx_txHash (pub_tx t)) (xs[i := (xs ! i)\<lparr>pub_info := n, pub_callback := c\<rparr>]) ! j = map (\<lambda>t. tx_txHash (pub_tx t)) xs ! j"
      if "j < length (map (\<lambda>t. tx_txHash (pub_tx t)) (xs[i := (xs ! i)\<lparr>pub_info := n, pub_callback := c\<rparr>]))" for j
      using that by (cases "j = i") simp_all
  qed simp
  then show ?thesis by (simp add: pub_kept_def published_ok_def)
qed

lemma quiet_set_info: "quiet a (a\<lparr>pm_publishedTx := (pm_publishedTx a)[i := (pm_publishedTx a ! i)\<lparr>pub_info := n, pub_callback := c\<rparr>]\<rparr>)"
  by (rule quietI) (simp_all add: pub_set_info)

lemma quiet_claim_step: "quiet (snd (snd (snd (snd s)))) (snd (snd (snd (snd (claim_step h p i s)))))"
proof -
  obtain info cb pd n a where s: "s = (info, cb, pd, n, a)" by (cases s) auto
  show ?thesis using quiet_sets(10) [OF quiet_set_info [where n = 0 and c = None and a = a and i = i]]
    by (simp add: s claim_step_def Let_def split_def)
qed

lemma quiet_claim: "quiet a (snd (snd (snd (snd (claim h p a)))))"
proof -
  have "quiet (snd (snd (snd (snd s)))) (snd (snd (snd (snd (fold (claim_step h p) js s)))))" for js s
  proof (induction js arbitrary: s)
    case (Cons i js)
    show ?case using quiet_trans [OF quiet_claim_step Cons] by simp
  qed simp
  from this [of "(0, None, False, 0, a)"] show ?thesis by (simp add: claim_def)
qed

lemma quiet_cancel: "quiet a b \<Longrightarrow> quiet a (cancel_timeout E p pd b)"
  by (simp add: cancel_timeout_def quiet_steps)

lemma quiet_add_published:
  assumes "BRPeerManagerAddTxToPublishList tx info cb a = Some b"
  shows "quiet a b"
proof (rule BRPeerManagerAddTxToPublishList.raw_induct [where P = "\<lambda>tx info cb a b. quiet a b", OF _ assms], goal_cases)
  case (1 add tx info cb a b)
  show ?case
  proof (cases tx)
    case (Some t)
    show ?thesis
    proof (cases "tx_blockHeight t = TX_UNCONFIRMED \<and> \<not> list_ex (\<lambda>p. BRTransactionEq (pub_tx p) t) (pm_publishedTx a)")
      case True
      let ?a = "a\<lparr>pm_publishedTx := pm_publishedTx a @ [\<lparr>pub_tx = t, pub_info = info, pub_callback = cb\<rparr>],
                   pm_publishedTxHashes := pm_publishedTxHashes a @ [tx_txHash t]\<rparr>"
      have "fold_opt (\<lambda>i pm. do {
                 parent \<leftarrow> BRWalletTransactionForHash (pm_wallet pm) (in_txHash i);
                 add parent 0 None pm
               }) (tx_inputs t) ?a = Some b" using 1(2) Some True by simp
      then have "quiet ?a b" by (rule quiet_fold_opt) (auto split: bind_splits intro: 1(1))
      moreover have "quiet a ?a" by (rule quietI) (simp_all add: pub_kept_def published_ok_def)
      ultimately show ?thesis using quiet_trans by blast
    next
      case False
      have "Some a = Some b" using 1(2) unfolding Some option.case if_not_P [OF False] .
      then show ?thesis by simp
    qed
  qed (use 1(2) in simp)
qed

lemma quiet_check_filter:
  assumes "check_filter E a = Some b"
  shows "quiet a b"
proof (cases "pm_bloomFilter a")
  case (Some f)
  then show ?thesis using assms
    by (auto simp: check_filter_def Let_def split: bind_splits if_splits intro!: quiet_steps quiet_sets)
qed (use assms in \<open>simp add: check_filter_def\<close>)

lemma quiet_verified: "mark_verified E tx h n a = Some b \<Longrightarrow> quiet a b"
  by (auto simp: mark_verified_def quiet_update_tx split: option.splits if_splits)

lemma quiet_own:
  assumes "own_tx_relayed E p tx n a = Some (n', b)"
  shows "quiet a b"
proof -
  define a1 where "a1 = (if pm_syncStartHeight a > 0 \<and> pm_downloadPeer a = Some p
       then on_peer p (\<lambda>ctx. BRPeerScheduleDisconnect (me_peer E) ctx PROTOCOL_TIMEOUT) a else a)"
  note u = assms [unfolded own_tx_relayed_def Let_def, folded a1_def]
  obtain s where s: "(if BRWalletAmountSentByTx (pm_wallet a1) tx > 0 then BRWalletTransactionIsValid (pm_wallet a1) tx else Some False) = Some s"
    using u by (auto split: bind_splits)
  obtain a2 where a2: "(if s then BRPeerManagerAddTxToPublishList (Some tx) 0 None a1 else Some a1) = Some a2"
    using u s by (auto split: bind_splits)
  define r where "r = (if pm_syncStartHeight a2 = 0
       then (case BRTxPeerListAddPeer (pm_txRelays a2) (tx_txHash tx) (pm_ctx a2 p) of (l, n) \<Rightarrow> (n, a2\<lparr>pm_txRelays := l\<rparr>))
       else (n, a2))"
  define a3 where "a3 = (snd r)\<lparr>pm_txRequests := fst (BRTxPeerListRemovePeer (pm_txRequests (snd r)) (tx_txHash tx) (pm_ctx (snd r) p))\<rparr>"
  note v = u [unfolded s Option.bind.bind_lunit a2, folded r_def, unfolded split_def, folded a3_def]
  have b: "check_filter E a3 = Some b" using v by (auto split: bind_splits)
  have "quiet a a1" by (simp add: a1_def)
  moreover have "quiet a1 a2" using a2 quiet_add_published by (auto split: if_splits)
  moreover have "quiet a2 (snd r)" by (simp add: r_def split_def quiet_sets)
  moreover have "quiet (snd r) a3" by (simp add: a3_def quiet_sets)
  ultimately show ?thesis using quiet_check_filter [OF b] quiet_trans by metis
qed

lemma quiet_relayed_tx:
  assumes "peerRelayedTx E p tx a = Some b"
  shows "quiet a b"
proof -
  obtain info cb pd n a1 where c: "claim (tx_txHash tx) p a = (info, cb, pd, n, a1)" by (cases "claim (tx_txHash tx) p a") auto
  define a2 where "a2 = cancel_timeout E p pd a1"
  note u = assms [unfolded peerRelayedTx_def c Let_def split_conv, folded a2_def]
  obtain r t a3 where a3: "(if pm_syncStartHeight a2 = 0 \<or> BRWalletContainsTransaction (pm_wallet a2) tx
       then do {
         (r, w) \<leftarrow> BRWalletRegisterTransaction (me_wallet E) (pm_wallet a2) tx;
         t \<leftarrow> (if r then BRWalletTransactionForHash w (tx_txHash tx) else Some (Some tx));
         Some (r, t, a2\<lparr>pm_wallet := w\<rparr>)
       }
       else Some (False, None, a2)) = Some (r, t, a3)"
    using u by (auto split: bind_splits)
  obtain m a4 where a4: "(case t of Some t' \<Rightarrow> if r then own_tx_relayed E p t' n a3 else Some (n, a3) | None \<Rightarrow> Some (n, a3)) = Some (m, a4)"
    using u unfolding a3 by (auto split: bind_splits)
  obtain a5 where a5: "mark_verified E t (case t of Some t' \<Rightarrow> tx_txHash t' | None \<Rightarrow> 0) m a4 = Some a5" "b = published cb info 0 a5"
    using u unfolding a3 by (auto simp: a4 split: bind_splits)
  have q: "quiet a a2" using quiet_claim [of a "tx_txHash tx" p] c by (simp add: a2_def quiet_cancel)
  have "quiet a2 a3"
  proof (cases "pm_syncStartHeight a2 = 0 \<or> BRWalletContainsTransaction (pm_wallet a2) tx")
    case True
    then obtain w where "a3 = a2\<lparr>pm_wallet := w\<rparr>" using a3 unfolding if_P [OF True] by (auto split: bind_splits)
    then show ?thesis by (simp add: quiet_sets)
  next
    case False
    then show ?thesis using a3 unfolding if_not_P [OF False] by simp
  qed
  with q have "quiet a a3" by (rule quiet_trans)
  moreover have "quiet a3 a4" using a4 quiet_own by (auto split: option.splits if_splits)
  ultimately have "quiet a a4" by (rule quiet_trans)
  then have "quiet a a5" using quiet_verified [OF a5(1)] by (rule quiet_trans)
  then show ?thesis unfolding a5(2) by (rule quiet_published)
qed

lemma quiet_rejected:
  assumes "peerRejectedTx E p h code a = Some b"
  shows "quiet a b"
proof -
  define a1 where "a1 = a\<lparr>pm_txRequests := fst (BRTxPeerListRemovePeer (pm_txRequests a) h (pm_ctx a p))\<rparr>"
  note u = assms [unfolded peerRejectedTx_def Let_def, folded a1_def]
  obtain t where t: "BRWalletTransactionForHash (pm_wallet a) h = Some t" using u by (auto split: bind_splits)
  have q: "quiet a a1" by (simp add: a1_def quiet_sets)
  show ?thesis
  proof (cases t)
    case None
    then have "b = manager_event CbTxStatusUpdate TxStatusUpdate a1" using u t by simp
    then show ?thesis using q by (simp add: quiet_steps)
  next
    case (Some tx)
    define rr where "rr = BRTxPeerListRemovePeer (pm_txRelays a1) h (pm_ctx a1 p)"
    define a2 where "a2 = a1\<lparr>pm_txRelays := fst rr\<rparr>"
    note v = u [unfolded t Option.bind.bind_lunit Some option.case, folded rr_def, unfolded split_def, folded a2_def]
    obtain a3 where a3: "(if snd rr \<and> tx_blockHeight tx = TX_UNCONFIRMED then BRPeerManagerUpdateTx E [h] TX_UNCONFIRMED 0 a2 else Some a2) = Some a3"
      using v by (auto split: bind_splits)
    obtain a4 where a4: "b = manager_event CbTxStatusUpdate TxStatusUpdate a4" "a4 = a3 \<or> a4 = BRPeerManagerPeerMisbehavin p a3"
      using v unfolding a3 by (auto split: bind_splits if_splits)
    have "quiet a a2" using q by (simp add: a2_def quiet_sets)
    moreover have "quiet a2 a3" using a3 quiet_update_tx by (auto split: if_splits)
    ultimately have "quiet a a3" by (rule quiet_trans)
    then have "quiet a a4" using a4(2) quiet_steps(4) by blast
    then show ?thesis unfolding a4(1) by (intro quiet_steps)
  qed
qed

lemma quiet_has_tx:
  assumes "peerHasTx E p h a = Some b"
  shows "quiet a b"
proof -
  obtain info cb pd n a1 where c: "claim h p a = (info, cb, pd, n, a1)" by (cases "claim h p a") auto
  define a2 where "a2 = cancel_timeout E p pd a1"
  have q: "quiet a a2" using quiet_claim [of a h p] c by (simp add: a2_def quiet_cancel)
  obtain t where t: "BRWalletTransactionForHash (pm_wallet a) h = Some t" using assms by (auto simp: peerHasTx_def split: bind_splits)
  define t' where "t' = (if t = None \<and> filter (\<lambda>i. UInt256Eq (pm_publishedTxHashes a ! i) h) (rev [0..<length (pm_publishedTx a)]) \<noteq> []
    then Some (pub_tx (pm_publishedTx a ! hd (filter (\<lambda>i. UInt256Eq (pm_publishedTxHashes a ! i) h) (rev [0..<length (pm_publishedTx a)])))) else t)"
  note u = assms [unfolded peerHasTx_def t Option.bind.bind_lunit c Let_def split_conv, folded a2_def t'_def]
  show ?thesis
  proof (cases t')
    case None
    then have "b = published cb info 0 a2" using u by simp
    then show ?thesis using q by (simp add: quiet_published)
  next
    case (Some tx)
    obtain r w where r: "BRWalletRegisterTransaction (me_wallet E) (pm_wallet a2) tx = Some (r, w)"
      using u Some by (auto split: bind_splits)
    obtain s where s: "(if r then BRWalletTransactionForHash w (tx_txHash tx) else Some (Some tx)) = Some s"
      using u Some r by (auto split: bind_splits)
    define a3 where "a3 = a2\<lparr>pm_wallet := w\<rparr>"
    define a4 where "a4 = (if pm_syncStartHeight a3 > 0 \<and> pm_downloadPeer a3 = Some p \<and> r
             then on_peer p (\<lambda>ctx. BRPeerScheduleDisconnect (me_peer E) ctx PROTOCOL_TIMEOUT) a3 else a3)"
    define x where "x = (if pm_syncStartHeight a4 = 0
             then (case BRTxPeerListAddPeer (pm_txRelays a4) h (pm_ctx a4 p) of (l, n) \<Rightarrow> (n, a4\<lparr>pm_txRelays := l\<rparr>))
             else (n, a4))"
    note v = u [unfolded Some option.case r Option.bind.bind_lunit split_conv s, folded a3_def, folded a4_def, folded x_def,
        unfolded split_def]
    obtain a5 where a5: "mark_verified E s h (fst x) (snd x) = Some a5"
      "b = published cb info 0 (a5\<lparr>pm_txRequests := fst (BRTxPeerListRemovePeer (pm_txRequests a5) h (pm_ctx a5 p))\<rparr>)"
      using v by (auto split: bind_splits)
    have "quiet a a3" using q by (simp add: a3_def quiet_sets)
    then have "quiet a a4" by (simp add: a4_def quiet_steps)
    then have "quiet a (snd x)" by (simp add: x_def split_def quiet_sets)
    then have "quiet a a5" using quiet_verified [OF a5(1)] by (rule quiet_trans)
    then show ?thesis unfolding a5(2) by (intro quiet_published quiet_sets)
  qed
qed

lemma pub_rm: "pub_kept a (a\<lparr>pm_publishedTx := rm_at (pm_publishedTx a) i, pm_publishedTxHashes := rm_at (pm_publishedTxHashes a) i\<rparr>)"
  by (simp add: pub_kept_def published_ok_def rm_at_map)

lemma quiet_requested_step:
  assumes "requested_step h i s = Some s'"
  shows "quiet (snd (snd (snd (snd (snd s))))) (snd (snd (snd (snd (snd s')))))"
proof -
  obtain tx info cb pd e a where s: "s = (tx, info, cb, pd, e, a)" by (cases s) auto
  define a1 where "a1 = a\<lparr>pm_publishedTx := (pm_publishedTx a)[i := (pm_publishedTx a ! i)\<lparr>pub_info := 0, pub_callback := None\<rparr>]\<rparr>"
  define a2 where "a2 = a1\<lparr>pm_publishedTx := rm_at (pm_publishedTx a1) i, pm_publishedTxHashes := rm_at (pm_publishedTxHashes a1) i\<rparr>"
  note u = assms [unfolded s requested_step_def split_conv Let_def, folded a1_def, folded a2_def]
  have q: "quiet a a1" unfolding a1_def by (rule quiet_set_info)
  moreover have "quiet a1 a2" unfolding a2_def by (rule quietI) (simp_all add: pub_rm)
  ultimately have q2: "quiet a a2" by (rule quiet_trans)
  have "snd (snd (snd (snd (snd s')))) \<in> {a, a1, a2}"
    using u by (auto split: bind_splits if_splits)
  then show ?thesis using q q2 by (auto simp: s)
qed

lemma quiet_requested_tx:
  assumes "peerRequestedTx E p h a = Some (t, b)"
  shows "quiet a b"
proof -
  let ?f = "\<lambda>s :: BRTransaction option \<times> nat \<times> nat option \<times> bool \<times> int \<times> BRPeerManager. snd (snd (snd (snd (snd s))))"
  obtain tx info cb pd e a1 where s: "fold_opt (requested_step h) (rev [0..<length (pm_publishedTx a)]) (None, 0, None, False, 0, a) =
      Some (tx, info, cb, pd, e, a1)"
    using assms by (auto simp: peerRequestedTx_def split: bind_splits)
  have "quiet (?f (None, 0, None, False, 0, a)) (?f (tx, info, cb, pd, e, a1))"
    using fold_opt_rel [where R = "\<lambda>s s'. quiet (?f s) (?f s')", OF s quiet_requested_step quiet_refl quiet_trans] by simp
  then have q1: "quiet a a1" by simp
  define a2 where "a2 = cancel_timeout E p pd a1"
  have q: "quiet a a2" using q1 by (simp add: a2_def quiet_cancel)
  note u = assms [unfolded peerRequestedTx_def s Option.bind.bind_lunit split_conv Let_def, folded a2_def]
  obtain a3 where a3: "(case tx of
         Some t \<Rightarrow> if e = 0
           then do {
             (r, w) \<leftarrow> BRWalletRegisterTransaction (me_wallet E) (pm_wallet a2) t;
             Some (a2\<lparr>pm_txRelays := fst (BRTxPeerListAddPeer (pm_txRelays a2) h (pm_ctx a2 p)), pm_wallet := w\<rparr>)
           }
           else Some a2
       | None \<Rightarrow> Some a2) = Some a3" "b = published cb info e a3"
    using u by (auto split: bind_splits)
  have "quiet a a3"
  proof (cases "tx = None \<or> e \<noteq> 0")
    case True
    then have "a3 = a2" using a3(1) by (auto split: option.splits)
    then show ?thesis using q by simp
  next
    case False
    then obtain w where "a3 = a2\<lparr>pm_txRelays := fst (BRTxPeerListAddPeer (pm_txRelays a2) h (pm_ctx a2 p)), pm_wallet := w\<rparr>"
      using a3(1) by (auto split: bind_splits)
    then show ?thesis using q by (simp add: quiet_sets)
  qed
  then show ?thesis unfolding a3(2) by (rule quiet_published)
qed

lemma quiet_publish_tx:
  assumes "BRPeerManagerPublishTx E N tx info cb a = Some b"
  shows "quiet a b"
proof -
  have f: "quiet a (publish_to_peers E a)" for a
    unfolding publish_to_peers_def Let_def by (rule quiet_fold) (simp add: quiet_steps)
  consider e where "b = published cb info e a" | c t where "BRPeerManagerAddTxToPublishList t info cb a = Some c" "b = publish_to_peers E c"
    using assms by (auto simp: BRPeerManagerPublishTx_def split: if_splits bind_splits)
  then show ?thesis
  proof cases
    case 2
    show ?thesis unfolding 2(2) using quiet_add_published [OF 2(1)] f by (rule quiet_trans)
  qed (simp add: quiet_published)
qed

section \<open>A relayed block keeps what is published\<close>

definition pub_same :: "BRPeerManager \<Rightarrow> BRPeerManager \<Rightarrow> bool" where
  "pub_same a b \<longleftrightarrow> pm_publishedTx b = pm_publishedTx a \<and> pm_publishedTxHashes b = pm_publishedTxHashes a"

lemma same_pub: "pub_same a b \<Longrightarrow> pub_kept a b"
  by (simp add: pub_same_def pub_keptI)

lemma pub_quiet: "quiet a b \<Longrightarrow> pub_kept a b"
  by (simp add: quiet_def)

lemma same_free: "free_block p a = Some b \<Longrightarrow> pub_same a b"
  by (auto simp: free_block_def pub_same_def split: if_splits)

lemma same_older:
  assumes "free_older h a = Some b"
  shows "pub_same a b"
proof (rule free_older.raw_induct [where P = "\<lambda>h a b. pub_same a b", OF _ assms], goal_cases)
  case (1 free_older h a b)
  show ?case
  proof (cases "pm_blocks a h")
    case (Some p)
    obtain k c where c: "pm_heap a p = Some k" "(if mb_height k mod BLOCK_DIFFICULTY_INTERVAL \<noteq> 0
        then free_block p (a\<lparr>pm_blocks := (pm_blocks a)(mb_blockHash k := None)\<rparr>) else Some a) = Some c"
      "free_older (mb_prevBlock k) c = Some b"
      using 1(2) Some by (auto split: bind_splits)
    have "pub_same c b" by (rule 1(1) [OF c(3)])
    moreover have "pub_same a c"
    proof (cases "mb_height k mod BLOCK_DIFFICULTY_INTERVAL \<noteq> 0")
      case True
      show ?thesis using same_free [OF c(2) [unfolded if_P [OF True]]] by (simp add: pub_same_def)
    next
      case False
      then show ?thesis using c(2) by (simp add: pub_same_def)
    qed
    ultimately show ?thesis by (simp add: pub_same_def)
  qed (use 1(2) in \<open>simp add: pub_same_def\<close>)
qed

lemma same_verify:
  assumes "BRPeerManagerVerifyBlock p q a = Some (r, b)"
  shows "pub_same a b"
proof -
  obtain k where k: "pm_heap a p = Some k" using assms by (auto simp: BRPeerManagerVerifyBlock_def split: bind_splits)
  obtain r' t c where c: "(if mb_height k mod BLOCK_DIFFICULTY_INTERVAL = 0
        then do {
          b \<leftarrow> step_back a (unat BLOCK_DIFFICULTY_INTERVAL) (Some p);
          case b of
            None \<Rightarrow> Some (False, 0, a)
          | Some q \<Rightarrow> do {
              b \<leftarrow> pm_heap a q;
              pm \<leftarrow> free_older (mb_prevBlock b) a;
              Some (True, mb_timestamp b, pm)
            }
        }
        else Some (True, 0, a)) = Some (r', t, c)"
    using assms k by (auto simp: BRPeerManagerVerifyBlock_def split: bind_splits)
  note u = assms [unfolded BRPeerManagerVerifyBlock_def k Option.bind.bind_lunit c split_conv]
  have "b = c" using u by (auto simp: Let_def split: bind_splits if_splits option.splits)
  moreover have "pub_same a c"
  proof (cases "mb_height k mod BLOCK_DIFFICULTY_INTERVAL = 0")
    case True
    show ?thesis using c [unfolded if_P [OF True]] by (auto simp: pub_same_def split: bind_splits option.splits dest!: same_older)
  next
    case False
    show ?thesis using c [unfolded if_not_P [OF False]] by (simp add: pub_same_def)
  qed
  ultimately show ?thesis by simp
qed

lemma same_replace:
  assumes "replace_block bp k a = Some b"
  shows "pub_same a b"
proof -
  obtain old where o: "pm_blocks a (mb_blockHash k) = Some old" using assms by (auto simp: replace_block_def split: bind_splits)
  define a1 where "a1 = blocks_add bp k a"
  note u = assms [unfolded replace_block_def o Option.bind.bind_lunit Let_def, folded a1_def]
  have q: "pub_same a a1" by (simp add: a1_def blocks_add_def pub_same_def)
  show ?thesis
  proof (cases "old \<noteq> bp")
    case True
    obtain ob where ob: "pm_heap a1 old = Some ob" using u unfolding if_P [OF True] by (auto split: bind_splits)
    define a2 where "a2 = (if pm_orphans a1 (mb_prevBlock ob) = Some old
         then a1\<lparr>pm_orphans := (pm_orphans a1)(mb_prevBlock ob := None)\<rparr> else a1)"
    define a3 where "a3 = (if pm_lastOrphan a2 = Some old then a2\<lparr>pm_lastOrphan := None\<rparr> else a2)"
    have "free_block old a3 = Some b" using u [unfolded if_P [OF True] ob Option.bind.bind_lunit, folded a2_def, folded a3_def] .
    then have "pub_same a3 b" by (rule same_free)
    moreover have "pub_same a1 a3" by (simp add: a2_def a3_def pub_same_def)
    ultimately show ?thesis using q by (simp add: pub_same_def)
  next
    case False
    have "b = a1" using u unfolding if_not_P [OF False] by simp
    then show ?thesis using q by simp
  qed
qed

lemma same_confirm:
  assumes "confirm_chain E h p a = Some b"
  shows "pub_same a b"
proof (rule confirm_chain.raw_induct [where P = "\<lambda>E h p a b. pub_same a b", OF _ assms], goal_cases)
  case (1 confirm_chain E h p a b)
  show ?case
  proof (cases p)
    case (Some q)
    obtain k where k: "pm_heap a q = Some k" using 1(2) Some by (auto split: bind_splits)
    show ?thesis
    proof (cases "mb_height k > h")
      case True
      obtain p' w where "confirm_chain E h p' (a\<lparr>pm_wallet := w\<rparr>) = Some b"
        using 1(2) unfolding Some option.case k Option.bind.bind_lunit if_P [OF True] by (auto split: bind_splits)
      from 1(1) [OF this] show ?thesis by (simp add: pub_same_def)
    next
      case False
      show ?thesis using 1(2) unfolding Some option.case k Option.bind.bind_lunit if_not_P [OF False] by (simp add: pub_same_def)
    qed
  qed (use 1(2) in \<open>simp add: pub_same_def\<close>)
qed

lemma same_reorganize:
  assumes "reorganize E bp a = Some b"
  shows "pub_same a b"
proof -
  obtain p p2 where j: "join_point a (Some bp) (Some (pm_lastBlock a)) = Some (p, p2)"
    using assms by (auto simp: reorganize_def split: bind_splits)
  note u = assms [unfolded reorganize_def j Option.bind.bind_lunit split_conv]
  obtain q where q: "p = Some q" using u by (cases p) simp_all
  obtain k where k: "pm_heap a q = Some k" using u q by (auto split: bind_splits)
  obtain w where w: "BRWalletSetTxUnconfirmedAfter (we_now (me_wallet E)) (pm_wallet a) (mb_height k) = Some w"
    using u q k by (auto split: bind_splits)
  note v = u [unfolded q Option.bind.bind_lunit k w Let_def]
  show ?thesis
  proof (cases p2)
    case (Some q2)
    obtain k2 :: BRMerkleBlock where "confirm_chain E (mb_height k2) (Some bp) (a\<lparr>pm_wallet := w\<rparr>) = Some b"
      using v unfolding Some option.case by (auto split: bind_splits)
    from same_confirm [OF this] show ?thesis by (simp add: pub_same_def)
  qed (use v in \<open>auto simp: pub_same_def\<close>)
qed

lemma pub_fork:
  assumes "relay_fork E bp k l a = Some (n, b)"
  shows "pub_kept a b"
proof -
  define a1 where "a1 = blocks_add bp k a"
  note u = assms [unfolded relay_fork_def Let_def, folded a1_def]
  have q: "pub_kept a a1" by (rule pub_keptI) (simp_all add: a1_def blocks_add_def)
  show ?thesis
  proof (cases "mb_height k > mb_height l")
    case True
    obtain a2 where a2: "reorganize E bp a1 = Some a2" using u unfolding if_P [OF True] by (auto split: bind_splits)
    define a3 where "a3 = a2\<lparr>pm_lastBlock := bp\<rparr>"
    note v = u [unfolded if_P [OF True] a2 Option.bind.bind_lunit, folded a3_def]
    have "pub_kept a1 a2" by (rule same_pub [OF same_reorganize [OF a2]])
    moreover have "pub_kept a2 a3" by (rule pub_keptI) (simp_all add: a3_def)
    moreover have "pub_kept a3 b"
    proof (cases "mb_height k = pm_estimatedHeight a3")
      case True
      then have "BRPeerManagerLoadMempools E a3 = Some b" using v by (auto split: bind_splits)
      then show ?thesis by (rule pub_quiet [OF quiet_load_mempools])
    next
      case False
      then show ?thesis using v by simp
    qed
    ultimately show ?thesis using q pub_kept_trans by metis
  next
    case False
    then show ?thesis using u q by simp
  qed
qed

lemma pub_extends:
  assumes "relay_extends E p bp k hs t a = Some (n, b)"
  shows "pub_kept a b"
proof -
  define a1 where "a1 = (blocks_add bp k a)\<lparr>pm_lastBlock := bp\<rparr>"
  note u = assms [unfolded relay_extends_def Let_def, folded a1_def]
  obtain a2 where a2: "(if hs \<noteq> [] then BRPeerManagerUpdateTx E hs (mb_height k) t a1 else Some a1) = Some a2"
    using u by (auto split: bind_splits)
  define a3 where "a3 = (case pm_downloadPeer a2 of None \<Rightarrow> a2
       | Some d \<Rightarrow> on_peer d (\<lambda>ctx. BRPeerSetCurrentBlockHeight ctx (mb_height k)) a2)"
  define a4 where "a4 = (if mb_height k < pm_estimatedHeight a3 \<and> pm_downloadPeer a3 = Some p then reset_timeout E p a3 else a3)"
  note v = u [unfolded a2 Option.bind.bind_lunit, folded a3_def, folded a4_def]
  have "pub_kept a a1" by (rule pub_keptI) (simp_all add: a1_def blocks_add_def)
  moreover have "pub_kept a1 a2" using a2 pub_update_tx by (auto split: if_splits)
  moreover have "pub_kept a2 a4" by (rule pub_quiet, rule quiet_trans [of _ a3]) (simp_all add: a3_def a4_def split: option.split)
  moreover have "pub_kept a4 b"
  proof (cases "mb_height k = pm_estimatedHeight a4")
    case True
    then have "BRPeerManagerLoadMempools E a4 = Some b" using v by (auto split: bind_splits)
    then show ?thesis by (rule pub_quiet [OF quiet_load_mempools])
  next
    case False
    then show ?thesis using v by simp
  qed
  ultimately show ?thesis using pub_kept_trans by metis
qed

lemma pub_existing:
  assumes "relay_existing E bp k hs t a = Some b"
  shows "pub_kept a b"
proof -
  obtain q ob where q: "down_to a (mb_height k) (Some (pm_lastBlock a)) = Some (Some q)" "pm_heap a q = Some ob"
    using assms by (auto simp: relay_existing_def split: bind_splits)
  note u = assms [unfolded relay_existing_def q Option.bind.bind_lunit]
  obtain a1 where a1: "(if BRMerkleBlockEq ob k
       then do {
         pm \<leftarrow> (if hs \<noteq> [] then BRPeerManagerUpdateTx E hs (mb_height k) t a else Some a);
         lastBlock \<leftarrow> pm_heap pm (pm_lastBlock pm);
         Some (if mb_height k = mb_height lastBlock then pm\<lparr>pm_lastBlock := bp\<rparr> else pm)
       }
       else Some a) = Some a1" "replace_block bp k a1 = Some b"
    using u by (auto split: bind_splits)
  have "pub_kept a a1"
  proof (cases "BRMerkleBlockEq ob k")
    case True
    obtain a2 and l :: BRMerkleBlock where a2: "(if hs \<noteq> [] then BRPeerManagerUpdateTx E hs (mb_height k) t a else Some a) = Some a2"
      "a1 = (if mb_height k = mb_height l then a2\<lparr>pm_lastBlock := bp\<rparr> else a2)"
      using a1(1) [unfolded if_P [OF True]] by (auto split: bind_splits)
    have "pub_kept a a2" using a2(1) pub_update_tx by (auto split: if_splits)
    moreover have "pub_kept a2 a1" unfolding a2(2) by (rule pub_keptI) simp_all
    ultimately show ?thesis by (rule pub_kept_trans)
  next
    case False
    show ?thesis using a1(1) unfolding if_not_P [OF False] by simp
  qed
  then show ?thesis using same_pub [OF same_replace [OF a1(2)]] by (rule pub_kept_trans)
qed

lemma same_orphans_add: "pub_same a (orphans_add bp k a)"
  by (simp add: orphans_add_def pub_same_def)

lemma pub_orphan:
  assumes "relay_orphan E p bp k l a = Some (r, b)"
  shows "pub_kept a b"
proof (cases "uint (mb_timestamp k + 7 * 24 * 60 * 60) < me_time E")
  case True
  then have "free_block bp a = Some b" using assms by (auto simp: relay_orphan_def split: bind_splits)
  then show ?thesis by (rule same_pub [OF same_free])
next
  case False
  obtain ask a1 where a1: "(if ask then do { hashes \<leftarrow> locators a; Some (on_peer p (BRPeerSendGetblocks (me_peer E) hashes 0) a) }
              else Some a) = Some a1" "b = orphans_add bp k a1"
    using assms [unfolded relay_orphan_def if_not_P [OF False]] by (auto split: bind_splits)
  have "pub_kept a a1" using a1(1) by (auto split: if_splits bind_splits intro!: pub_quiet)
  then show ?thesis unfolding a1(2) using same_pub [OF same_orphans_add] by (rule pub_kept_trans)
qed

lemma pub_known:
  assumes "relay_known E p bp k q hs t a = Some (r, n, b)"
  shows "pub_kept a b"
proof -
  obtain v a1 where v: "BRPeerManagerVerifyBlock bp q a = Some (v, a1)" using assms by (auto simp: relay_known_def split: bind_splits)
  note u = assms [unfolded relay_known_def v Option.bind.bind_lunit split_conv]
  have k: "pub_kept a a1" by (rule same_pub [OF same_verify [OF v]])
  have "pub_kept a1 b"
  proof (cases v)
    case False
    then obtain c where c: "free_block bp a1 = Some c" "b = BRPeerManagerPeerMisbehavin p c" using u by (auto split: bind_splits)
    show ?thesis unfolding c(2) using same_pub [OF same_free [OF c(1)]] pub_quiet [OF quiet_misbehavin] by (rule pub_kept_trans)
  next
    case True
    then show ?thesis using u
      by (auto split: bind_splits if_splits intro: pub_extends pub_existing pub_fork same_pub [OF same_free] same_pub [OF same_orphans_add])
  qed
  with k show ?thesis by (rule pub_kept_trans)
qed

lemma quiet_track:
  assumes "track_rate E p k hs a = Some b"
  shows "quiet a b"
proof (cases "pm_downloadPeer a = Some p \<and> mb_totalTx k > 0")
  case True
  obtain f where f: "fold_opt (\<lambda>h n. do {
            tx \<leftarrow> BRWalletTransactionForHash (pm_wallet a) h;
            Some (if tx = None then n + 1 else n) }) hs (0 :: nat) = Some f"
    using assms True by (auto simp: track_rate_def split: bind_splits)
  define avg where "avg = pm_averageTxPerBlock a * (999 / 1000) + real (unat (mb_totalTx k)) * (1 / 1000)"
  define rate where "rate = pm_fpRate a * (1 - 1 / 100 * real (unat (mb_totalTx k)) / avg) + 1 / 100 * real f / avg"
  define a1 where "a1 = a\<lparr>pm_averageTxPerBlock := avg, pm_fpRate := rate\<rparr>"
  note u = assms [unfolded track_rate_def if_P [OF True] f Option.bind.bind_lunit Let_def, folded avg_def, folded rate_def, folded a1_def]
  have q: "quiet a a1" by (rule quietI) (simp_all add: a1_def pub_keptI)
  show ?thesis
  proof (cases "BRPeerConnectStatus (pm_ctx a1 p) = BRPeerStatusConnected \<and> rate > BLOOM_DEFAULT_FALSEPOSITIVE_RATE * 10")
    case True
    have "b = on_peer p BRPeerDisconnect a1" using u unfolding if_P [OF True] by simp
    then show ?thesis using q by (simp add: quiet_steps)
  next
    case False
    obtain l where l: "pm_heap a1 (pm_lastBlock a1) = Some l"
      using u unfolding if_not_P [OF False] by (cases "pm_heap a1 (pm_lastBlock a1)") simp_all
    have "b = (if mb_height l + 500 < BRPeerLastBlock (pm_ctx a1 p) \<and> rate > BLOOM_REDUCED_FALSEPOSITIVE_RATE * 10
                then BRPeerManagerUpdateFilter E a1 else a1)"
      using u unfolding if_not_P [OF False] l by simp
    then show ?thesis using q by (simp add: quiet_steps)
  qed
next
  case False
  show ?thesis using assms unfolding track_rate_def if_not_P [OF False] by simp
qed

lemma pub_cases:
  assumes "relay_cases E p bp k prev hs t a = Some (r, n, b)"
  shows "pub_kept a b"
proof -
  consider (freed) "free_block bp a = Some b"
    | (wait) c where "free_block bp a = Some c" "b = c \<or> b = reset_timeout E p c"
    | (orphan) l r' where "relay_orphan E p bp k l a = Some (r', b)"
    | (known) q where "relay_known E p bp k q hs t a = Some (r, n, b)"
    using assms by (auto simp: relay_cases_def split: bind_splits if_splits option.splits)
  then show ?thesis
  proof cases
    case freed
    then show ?thesis by (rule same_pub [OF same_free])
  next
    case wait
    then show ?thesis using pub_kept_trans [OF same_pub [OF same_free [OF wait(1)]] pub_quiet [OF quiet_reset [of c E p]]]
      same_pub [OF same_free [OF wait(1)]] by blast
  qed (simp_all add: pub_orphan pub_known)
qed

lemma pub_finish:
  assumes "relay_finish p k r n a = Some (q, b)"
  shows "pub_kept a b"
proof -
  define x where "x = (if r \<noteq> None \<and> mb_height k \<noteq> BLOCK_UNKNOWN_HEIGHT
       then (pm_orphans a (mb_blockHash k),
             a\<lparr>pm_estimatedHeight := (if mb_height k > pm_estimatedHeight a then mb_height k else pm_estimatedHeight a),
                pm_orphans := (pm_orphans a)(mb_blockHash k := None)\<rparr>)
       else (None, a))"
  note u = assms [unfolded relay_finish_def Let_def, folded x_def, unfolded split_def]
  obtain s where b: "b = (let pm = (if s \<noteq> [] then manager_event CbSaveBlocks (SaveBlocks (length s > 1) s) (snd x) else snd x) in
       if r \<noteq> None \<and> mb_height k \<noteq> BLOCK_UNKNOWN_HEIGHT \<and> mb_height k \<ge> BRPeerLastBlock (pm_ctx pm p)
       then manager_event CbTxStatusUpdate TxStatusUpdate pm else pm)"
    using u by (auto simp: Let_def simp del: if_split split: bind_splits)
  have "pub_kept a (snd x)" by (rule pub_keptI) (simp_all add: x_def)
  moreover have "quiet (snd x) b" unfolding b Let_def by (auto intro!: quiet_steps)
  ultimately show ?thesis using pub_quiet pub_kept_trans by blast
qed

lemma pub_step:
  assumes "relay_step E p bp a = Some (q, b)"
  shows "pub_kept a b"
proof -
  obtain k :: BRMerkleBlock and hs t c r n d prev where c: "track_rate E p k hs (a\<lparr>pm_heap := (pm_heap a)(bp \<mapsto> k)\<rparr>) = Some c"
    "relay_cases E p bp k prev hs t c = Some (r, n, d)" "relay_finish p k r n d = Some (q, b)"
    using assms by (auto simp: relay_step_def Let_def split: bind_splits)
  have "pub_kept a (a\<lparr>pm_heap := (pm_heap a)(bp \<mapsto> k)\<rparr>)" by (rule pub_keptI) simp_all
  then show ?thesis using pub_quiet [OF quiet_track [OF c(1)]] pub_cases [OF c(2)] pub_finish [OF c(3)] pub_kept_trans by metis
qed

lemma pub_from:
  assumes "relay_from E p bp a = Some b"
  shows "pub_kept a b"
proof (rule relay_from.raw_induct [where P = "\<lambda>E p bp a b. pub_kept a b", OF _ assms], goal_cases)
  case (1 relay_from E p bp a b)
  obtain q c where c: "relay_step E p bp a = Some (q, c)" "(case q of None \<Rightarrow> Some c | Some q \<Rightarrow> relay_from E p q c) = Some b"
    using 1(2) by (auto split: bind_splits)
  have "pub_kept c b" using c(2) 1(1) by (cases q) auto
  with pub_step [OF c(1)] show ?case by (rule pub_kept_trans)
qed

lemma pub_relayed:
  assumes "peerRelayedBlock E p k a = Some b"
  shows "pub_kept a b"
proof -
  let ?a = "a\<lparr>pm_heap := (pm_heap a)(pm_next a \<mapsto> k), pm_next := pm_next a + 1\<rparr>"
  have "relay_from E p (pm_next a) ?a = Some b" using assms by (simp add: peerRelayedBlock_def alloc_block_def)
  then have "pub_kept ?a b" by (rule pub_from)
  moreover have "pub_kept a ?a" by (rule pub_keptI) simp_all
  ultimately show ?thesis using pub_kept_trans by blast
qed

section \<open>Runs of the manager\<close>

text \<open>What the application or a peer makes the manager do. In between the connections change: \<open>received\<close>. The blocks that
  are relayed come from the tree of blocks; they, and the orphans that wait, are not more than a difficulty interval above
  the last block.\<close>

inductive manager_step :: "'k manager_env \<Rightarrow> manager_net \<Rightarrow> (UInt256 \<Rightarrow> nat) \<Rightarrow> BRPeerManager \<Rightarrow> BRPeerManager \<Rightarrow> bool"
  for E :: "'k manager_env" and N :: manager_net and depth :: "UInt256 \<Rightarrow> nat" where
  received: "manager_step E N depth a (a\<lparr>pm_ctx := c\<rparr>)"
| connect: "BRPeerManagerConnect E N a = Some b \<Longrightarrow> manager_step E N depth a b"
| rescan: "BRPeerManagerRescan E N a = Some b \<Longrightarrow> manager_step E N depth a b"
| disconnect: "manager_step E N depth a (BRPeerManagerDisconnect a)"
| callbacks: "manager_step E N depth a (BRPeerManagerSetCallbacks cbs a)"
| fixed: "manager_step E N depth a (BRPeerManagerSetFixedPeer address port a)"
| lookup: "manager_step E N depth a (findPeersThreadRoutine E N services host a)"
| publish: "BRPeerManagerPublishTx E N tx info cb a = Some b \<Longrightarrow> manager_step E N depth a b"
| connected: "peerConnected E p a = Some b \<Longrightarrow> manager_step E N depth a b"
| disconnected: "peerDisconnected E N p err a = Some b \<Longrightarrow> manager_step E N depth a b"
| relayed_peers: "manager_step E N depth a (peerRelayedPeers E ps a)"
| relayed_tx: "peerRelayedTx E p tx a = Some b \<Longrightarrow> manager_step E N depth a b"
| has_tx: "peerHasTx E p h a = Some b \<Longrightarrow> manager_step E N depth a b"
| rejected_tx: "peerRejectedTx E p h code a = Some b \<Longrightarrow> manager_step E N depth a b"
| relayed_block: "peerRelayedBlock E p k a = Some b \<Longrightarrow> in_tree depth k \<Longrightarrow> depth (mb_blockHash k) \<le> last_height a + 2016 \<Longrightarrow>
    near depth a \<Longrightarrow> manager_step E N depth a b"
| notfound: "manager_step E N depth a (peerDataNotfound p hs a)"
| fee: "manager_step E N depth a (peerSetFeePerKb a)"
| requested_tx: "peerRequestedTx E p h a = Some (t, b) \<Longrightarrow> manager_step E N depth a b"
| rerequest_done: "updateFilterRerequestDone E p s a = Some b \<Longrightarrow> manager_step E N depth a b"
| load_done: "updateFilterLoadDone E p s a = Some b \<Longrightarrow> manager_step E N depth a b"
| ping_done: "updateFilterPingDone E p s a = Some b \<Longrightarrow> manager_step E N depth a b"
| getdata_done: "requestUnrelayedTxGetdataDone E p s a = Some b \<Longrightarrow> manager_step E N depth a b"
| mempool_done: "mempoolDone E p s a = Some b \<Longrightarrow> manager_step E N depth a b"
| filter_done: "manager_step E N depth a (loadBloomFilterDone E p s a)"
| inv_done: "publishTxInvDone E p s a = Some b \<Longrightarrow> manager_step E N depth a b"

definition run_inv :: "(UInt256 \<Rightarrow> nat) \<Rightarrow> BRPeerManager \<Rightarrow> bool" where
  "run_inv depth pm \<longleftrightarrow> chain_inv depth pm \<and> near depth pm \<and> published_ok pm"

lemma near_dropped:
  assumes "near depth a" "orphans_dropped a b" "last_height b = last_height a"
  shows "near depth b"
proof -
  have "pm_orphans a h = Some p \<and> pm_heap b p = pm_heap a p" if "pm_orphans b h = Some p" for h p
    using assms(2) that by (auto simp: orphans_dropped_def map_le_def ran_def dom_def)
  then show ?thesis unfolding near_def assms(3) using assms(1) [unfolded near_def] by metis
qed

lemma quiet_disconnect: "quiet a (BRPeerManagerDisconnect a)"
  unfolding BRPeerManagerDisconnect_def by (rule quiet_fold) (simp add: quiet_steps quiet_sets)

text \<open>What every step keeps: the chain and the published transactions. A step other than a rescan does not lower the last block, and
  keeps the orphans within reach.\<close>

definition steady :: "(UInt256 \<Rightarrow> nat) \<Rightarrow> BRPeerManager \<Rightarrow> BRPeerManager \<Rightarrow> bool" where
  "steady depth a b \<longleftrightarrow> chain_inv depth b \<and> published_ok b \<and> last_height a \<le> last_height b \<and> (near depth a \<longrightarrow> near depth b)"

lemma steady_quiet:
  assumes "quiet a b" "chain_inv depth a" "published_ok a"
  shows "steady depth a b"
proof -
  have d: "chain_inv depth b" "last_height b = last_height a"
    using chain_inv_dropped [of depth a b] assms by (simp_all add: quiet_def)
  moreover have "near depth a \<longrightarrow> near depth b" using near_dropped [OF _ _ d(2)] assms(1) by (simp add: quiet_def)
  ultimately show ?thesis using assms by (simp add: steady_def quiet_def pub_kept_def)
qed

text \<open>A rescan sets the last block back to the checkpoint from which the wallet's key time is searched.\<close>

lemma rescan_connected:
  assumes "BRPeerManagerRescan E N a = Some b" "pm_isConnected a" "chain_inv depth a" "published_ok a"
  shows "chain_inv depth b" "published_ok b"
    "last_height b = depth (checkpoint_hash (fst (snd (checkpoint_array ! scan_start (pm_earliestKeyTime a) (length checkpoint_array)))))"
proof -
  define h where "h = checkpoint_hash (fst (snd (checkpoint_array ! scan_start (pm_earliestKeyTime a) (length checkpoint_array))))"
  obtain l where l: "pm_blocks a h = Some l" using assms(1,2) by (auto simp: BRPeerManagerRescan_def h_def Let_def split: bind_splits)
  define a1 where "a1 = a\<lparr>pm_lastBlock := l\<rparr>"
  define a2 where "a2 = (case pm_downloadPeer a1 of None \<Rightarrow> a1
    | Some d \<Rightarrow> on_peer d BRPeerDisconnect (a1\<lparr>pm_peers := filter (\<lambda>q. \<not> BRPeerEq q (pm_ctx a1 d)) (pm_peers a1)\<rparr>))"
  have c: "BRPeerManagerConnect E N (a2\<lparr>pm_syncStartHeight := 0\<rparr>) = Some b"
    using assms(1,2) l unfolding a2_def a1_def by (simp add: BRPeerManagerRescan_def h_def [symmetric] Let_def)
  obtain k where k: "pm_heap a l = Some k" "mb_blockHash k = h" "unat (mb_height k) = depth h"
    using blocks_okD [of depth a h l] assms(3) l by (auto simp: chain_inv_def)
  have "last_ok a1" using k l by (simp add: last_ok_def a1_def)
  then have inv: "chain_inv depth a1"
    using assms(3) by (simp add: chain_inv_def blocks_ok_def orphans_ok_def heap_ok_def a1_def)
  have "quiet a1 (a2\<lparr>pm_syncStartHeight := 0\<rparr>)" by (simp add: a2_def quiet_sets quiet_steps split: option.split)
  then have q: "quiet a1 b" using quiet_connect [OF c] by (rule quiet_trans)
  have "published_ok a1" using assms(4) by (simp add: published_ok_def a1_def)
  from steady_quiet [OF q inv this] show "chain_inv depth b" "published_ok b" by (simp_all add: steady_def)
  have "last_height b = last_height a1" using chain_inv_dropped [of depth a1 b] q inv by (simp add: quiet_def)
  then show "last_height b = depth (checkpoint_hash (fst (snd (checkpoint_array ! scan_start (pm_earliestKeyTime a) (length checkpoint_array)))))"
    using k by (simp add: last_height_def a1_def h_def)
qed

lemma rescan_inv:
  assumes "BRPeerManagerRescan E N a = Some b" "chain_inv depth a" "published_ok a"
  shows "chain_inv depth b \<and> published_ok b"
proof (cases "pm_isConnected a")
  case True
  then show ?thesis using rescan_connected [OF assms(1) _ assms(2,3)] by simp
next
  case False
  then show ?thesis using assms by (simp add: BRPeerManagerRescan_def)
qed

lemma step_steady:
  assumes "manager_step E N depth a b" "chain_inv depth a" "published_ok a"
  shows "steady depth a b \<or> BRPeerManagerRescan E N a = Some b"
  using assms(1)
proof cases
  case (relayed_block p k)
  then show ?thesis using relayed_kept [OF relayed_block(1) assms(2) relayed_block(4,2,3)] pub_relayed [OF relayed_block(1)] assms(3)
    by (simp add: steady_def pub_kept_def)
next
  case (lookup services host)
  have "quiet a b" unfolding lookup by (rule quietI) (simp_all add: findPeersThreadRoutine_def Let_def pub_keptI)
  then show ?thesis using steady_quiet assms(2,3) by blast
next
  case (callbacks cbs)
  have "quiet a b" unfolding callbacks by (rule quietI) (simp_all add: BRPeerManagerSetCallbacks_def pub_keptI)
  then show ?thesis using steady_quiet assms(2,3) by blast
qed (use assms(2,3) in \<open>auto intro!: steady_quiet intro: quiet_connect quiet_disconnect quiet_publish_tx quiet_connected
  quiet_disconnected quiet_relayed_peers quiet_relayed_tx quiet_has_tx quiet_rejected quiet_notfound quiet_fee quiet_requested_tx
  quiet_rerequest quiet_load_done quiet_ping_done quiet_getdata_done quiet_mempool_done quiet_filter_done
  simp: quiet_sets BRPeerManagerSetFixedPeer_def quiet_request publishTxInvDone_def\<close>)

lemma run_keeps:
  assumes "(manager_step E N depth)\<^sup>*\<^sup>* a b" "chain_inv depth a" "published_ok a"
  shows "chain_inv depth b \<and> published_ok b"
  using assms(1)
proof (induction rule: rtranclp_induct)
  case (step b c)
  then show ?case using step_steady [OF step(2)] rescan_inv [of E N b c depth] by (auto simp: steady_def)
qed (simp add: assms(2,3))

end
