(* ===== verification/ManagerStart.thy ===== *)
theory ManagerStart
  imports ManagerRun
begin

text \<open>
  A new manager satisfies the invariant of the runs: the checkpoints are in the tree of blocks, the saved blocks are
  connected to the last transition among them, and the search for the next block ends. So the invariant holds
  throughout every run of the manager.
\<close>

section \<open>The checkpoints\<close>

definition digits :: "string \<Rightarrow> u8 \<times> u8" where
  "digits s = (push_bit 4 (hexu (of_char (s ! 2))) OR hexu (of_char (s ! 3)), push_bit 4 (hexu (of_char (s ! 0))) OR hexu (of_char (s ! 1)))"

lemma checkpoint_bytes:
  assumes "length s = 64"
  shows "(u8_of (checkpoint_hash s) 0, u8_of (checkpoint_hash s) 1) = digits (drop 60 s)"
  using assms by (simp add: checkpoint_hash_def UInt256Reverse_def u256_hex_decode_def u8_of_Get digits_def)

lemma checkpoint_lengths: "list_all (\<lambda>c. length (fst (snd c)) = 64) checkpoint_array"
  by (simp add: checkpoint_array_def)

lemma checkpoint_suffixes:
  "map (\<lambda>c. drop 60 (fst (snd c))) checkpoint_array =
    [''bfe2'', ''198c'', ''5e9c'', ''2c6c'', ''ce80'', ''7a61'', ''a251'', ''be2a'', ''2b6c'', ''35a4'', ''d6d0'',
    ''db8a'', ''6c4e'', ''b478'', ''53fb'', ''bdaa'', ''751d'', ''6042'', ''da39'', ''9ce3'', ''7640'', ''0150'',
    ''651b'', ''d7f4'', ''3633'', ''d640'', ''5cd0'', ''324e'', ''7834'', ''d237'', ''f3d4'', ''0bda'', ''ba0f'',
    ''a383'', ''9b09'', ''03ab'', ''b7e7'', ''d35d'', ''15d2'', ''31a5'', ''b960'', ''839d'', ''92a8'', ''021e'',
    ''156a'', ''031f'', ''a223'', ''6efc'', ''e702'', ''6956'', ''9042'', ''3764'', ''5a86'', ''6cec'', ''5c82'',
    ''504e'', ''4dff'', ''bc62'', ''33a8'', ''cd73'']"
  by (simp add: checkpoint_array_def)

lemma checkpoint_digits:
  "map digits (map (\<lambda>c. drop 60 (fst (snd c))) checkpoint_array) =
    [(226, 191), (140, 25), (156, 94), (108, 44), (128, 206), (97, 122), (81, 162), (42, 190), (108, 43), (164, 53),
    (208, 214), (138, 219), (78, 108), (120, 180), (251, 83), (170, 189), (29, 117), (66, 96), (57, 218), (227, 156),
    (64, 118), (80, 1), (27, 101), (244, 215), (51, 54), (64, 214), (208, 92), (78, 50), (52, 120), (55, 210), (212,
    243), (218, 11), (15, 186), (131, 163), (9, 155), (171, 3), (231, 183), (93, 211), (210, 21), (165, 49), (96, 185),
    (157, 131), (168, 146), (30, 2), (106, 21), (31, 3), (35, 162), (252, 110), (2, 231), (86, 105), (66, 144), (100,
    55), (134, 90), (236, 108), (130, 92), (78, 80), (255, 77), (98, 188), (168, 51), (115, 205)]"
  unfolding checkpoint_suffixes by (simp add: digits_def hexu_def)

lemma digits_nonzero: "list_all (\<lambda>d. fst d \<noteq> 0) (map digits (map (\<lambda>c. drop 60 (fst (snd c))) checkpoint_array))"
  unfolding checkpoint_digits by simp

lemma digits_distinct: "distinct (map digits (map (\<lambda>c. drop 60 (fst (snd c))) checkpoint_array))"
  unfolding checkpoint_digits by simp

lemma checkpoint_heights: "sorted_wrt (<) (map (\<lambda>c. unat (fst c)) checkpoint_array)"
  by (simp add: checkpoint_array_def)

lemma checkpoint_transitions: "list_all (\<lambda>c. fst c mod BLOCK_DIFFICULTY_INTERVAL = 0) checkpoint_array"
  by (simp add: checkpoint_array_def BLOCK_DIFFICULTY_INTERVAL_def)

abbreviation check_hash :: "nat \<Rightarrow> UInt256" where
  "check_hash i \<equiv> checkpoint_hash (fst (snd (checkpoint_array ! i)))"

abbreviation CHECKPOINT_COUNT :: nat where
  "CHECKPOINT_COUNT \<equiv> length checkpoint_array"

lemma check_hash_bytes:
  assumes "i < CHECKPOINT_COUNT"
  shows "(u8_of (check_hash i) 0, u8_of (check_hash i) 1) = digits (drop 60 (fst (snd (checkpoint_array ! i))))"
  using checkpoint_lengths assms by (intro checkpoint_bytes) (simp add: list_all_length)

lemma check_hash_nonzero:
  assumes "i < CHECKPOINT_COUNT"
  shows "check_hash i \<noteq> 0"
proof
  have z: "u8_of (0 :: UInt256) 0 = 0" by (simp add: u8_of_def)
  assume "check_hash i = 0"
  then have "fst (digits (drop 60 (fst (snd (checkpoint_array ! i))))) = 0"
    using check_hash_bytes [OF assms] by (metis fst_conv z)
  then show False using digits_nonzero assms by (auto simp: list_all_length)
qed

lemma check_hash_inject:
  assumes "i < CHECKPOINT_COUNT" "j < CHECKPOINT_COUNT" "check_hash i = check_hash j"
  shows "i = j"
proof -
  have "digits (drop 60 (fst (snd (checkpoint_array ! i)))) = digits (drop 60 (fst (snd (checkpoint_array ! j))))"
    using check_hash_bytes [OF assms(1)] check_hash_bytes [OF assms(2)] assms(3) by metis
  then show ?thesis using nth_eq_iff_index_eq [OF digits_distinct, of i j] assms by simp
qed

section \<open>The invariant after the checkpoints\<close>

definition checkpoint_at :: "nat \<Rightarrow> BRMerkleBlock" where
  "checkpoint_at i = checkpoint_block (checkpoint_array ! i)"

lemma checkpoint_at:
  "mb_height (checkpoint_at i) = fst (checkpoint_array ! i)" "mb_blockHash (checkpoint_at i) = check_hash i"
  "mb_prevBlock (checkpoint_at i) = 0"
  by (simp_all add: checkpoint_at_def checkpoint_block_def split_def BRMerkleBlockNew_def)

definition has_checkpoints :: "nat \<Rightarrow> BRPeerManager \<Rightarrow> bool" where
  "has_checkpoints n pm \<longleftrightarrow> pm_next pm = Suc n \<and> pm_orphans pm = (\<lambda>h. None) \<and> pm_publishedTx pm = [] \<and> pm_publishedTxHashes pm = [] \<and>
     (\<forall>p. pm_heap pm p = (if 1 \<le> p \<and> p \<le> n then Some (checkpoint_at (p - 1)) else None)) \<and>
     (\<forall>h p. pm_blocks pm h = Some p \<longleftrightarrow> 1 \<le> p \<and> p \<le> n \<and> h = check_hash (p - 1)) \<and>
     (\<forall>h p. pm_checkpoints pm h = Some p \<longrightarrow> 1 \<le> p \<and> p \<le> n) \<and>
     (0 < n \<longrightarrow> 1 \<le> pm_lastBlock pm \<and> pm_lastBlock pm \<le> n)"

lemma has_checkpoints_add:
  assumes "has_checkpoints n pm" "n < CHECKPOINT_COUNT"
  shows "has_checkpoints (Suc n) (add_checkpoint n pm)"
proof -
  let ?b = "checkpoint_at n"
  let ?pm = "pm\<lparr>pm_heap := (pm_heap pm)(Suc n \<mapsto> ?b), pm_next := Suc (Suc n),
    pm_checkpoints := (pm_checkpoints pm)(mb_height ?b \<mapsto> Suc n), pm_blocks := (pm_blocks pm)(check_hash n \<mapsto> Suc n)\<rparr>"
  note c = assms(1) [unfolded has_checkpoints_def]
  have n: "pm_next pm = Suc n" using c by simp
  have "add_checkpoint n pm = (if n = 0 \<or> mb_timestamp ?b + 7 * 24 * 60 * 60 < pm_earliestKeyTime pm
      then ?pm\<lparr>pm_lastBlock := Suc n\<rparr> else ?pm)"
    by (simp add: add_checkpoint_def checkpoint_at_def [symmetric] checkpoint_at alloc_block_def n Let_def)
  then have e: "add_checkpoint n pm = ?pm\<lparr>pm_lastBlock := (if n = 0 \<or> mb_timestamp ?b + 7 * 24 * 60 * 60 < pm_earliestKeyTime pm
      then Suc n else pm_lastBlock pm)\<rparr>" by simp
  have "(((pm_blocks pm)(check_hash n \<mapsto> Suc n)) h = Some p) = (1 \<le> p \<and> p \<le> Suc n \<and> h = check_hash (p - 1))" for h p
  proof (cases "h = check_hash n")
    case True
    have "Suc n = p" if "1 \<le> p" "p \<le> Suc n" "check_hash n = check_hash (p - 1)"
    proof -
      have "p - 1 < CHECKPOINT_COUNT" using that(1,2) assms(2) by linarith
      from check_hash_inject [OF assms(2) this that(3)] show ?thesis using that(1) by linarith
    qed
    then show ?thesis unfolding True fun_upd_same option.inject by (metis diff_Suc_1 le_refl le_add1 plus_1_eq_Suc)
  next
    case False
    then have "p \<noteq> Suc n" if "h = check_hash (p - 1)" using that by auto
    then show ?thesis using c False by (auto simp: le_Suc_eq)
  qed
  moreover have "((pm_heap pm)(Suc n \<mapsto> ?b)) p = (if 1 \<le> p \<and> p \<le> Suc n then Some (checkpoint_at (p - 1)) else None)" for p
    using c by (auto simp: le_Suc_eq)
  moreover have "((pm_checkpoints pm)(mb_height ?b \<mapsto> Suc n)) h = Some p \<Longrightarrow> 1 \<le> p \<and> p \<le> Suc n" for h p
    using c by (fastforce split: if_splits)
  ultimately show ?thesis unfolding e has_checkpoints_def using c by (cases "n = 0") simp_all
qed

lemma has_checkpoints_fold:
  "n \<le> CHECKPOINT_COUNT \<Longrightarrow> has_checkpoints n (fold add_checkpoint [0..<n] (manager_start w t ps))"
proof (induction n)
  case 0
  show ?case by (simp add: has_checkpoints_def manager_start_def)
next
  case (Suc n)
  then show ?case using has_checkpoints_add [of n] by simp
qed

text \<open>What the theorems assume of the tree of blocks: the checkpoints are in it with their heights.\<close>

definition checkpoint_depths :: "(UInt256 \<Rightarrow> nat) \<Rightarrow> bool" where
  "checkpoint_depths depth \<longleftrightarrow> (\<forall>i<CHECKPOINT_COUNT. depth (check_hash i) = unat (fst (checkpoint_array ! i)))"

lemma has_checkpoints_inv:
  assumes "has_checkpoints CHECKPOINT_COUNT pm" "checkpoint_depths depth"
  shows "chain_inv depth pm" "near depth pm" "published_ok pm" "checkpoints_ok pm"
proof -
  note c = assms(1) [unfolded has_checkpoints_def]
  have l: "0 < CHECKPOINT_COUNT" by (simp add: checkpoint_array_def)
  have h: "pm_heap pm p = Some (checkpoint_at (p - 1))" "p - 1 < CHECKPOINT_COUNT" if "1 \<le> p" "p \<le> CHECKPOINT_COUNT" for p
    using c that by auto
  have t: "in_tree depth (checkpoint_at i)" if "i < CHECKPOINT_COUNT" for i
    using assms(2) that check_hash_nonzero [OF that] unsigned_less [of "fst (checkpoint_array ! i)"]
    by (simp add: in_tree_def checkpoint_at checkpoint_depths_def)
  have "blocks_ok depth pm"
    using c h assms(2) by (auto simp: blocks_ok_def checkpoint_at checkpoint_depths_def)
  moreover have "orphans_ok pm" using c by (simp add: orphans_ok_def)
  moreover have "heap_ok depth pm" using c t by (auto simp: heap_ok_def split: if_splits)
  moreover have "last_ok pm" using c l h by (auto simp: last_ok_def checkpoint_at)
  ultimately show "chain_inv depth pm" by (simp add: chain_inv_def)
  show "near depth pm" "published_ok pm" using c by (simp_all add: near_def published_ok_def)
  have "transition (checkpoint_at i)" if "i < CHECKPOINT_COUNT" for i
    using checkpoint_transitions that by (simp add: transition_def checkpoint_at list_all_length)
  then show "checkpoints_ok pm" using c h by (auto simp: checkpoints_ok_def)
qed

section \<open>The saved blocks\<close>

definition saved_blocks :: "(UInt256 \<Rightarrow> nat) \<Rightarrow> BRMerkleBlock list \<Rightarrow> bool" where
  "saved_blocks depth saved \<longleftrightarrow> (\<forall>b\<in>set saved. in_tree depth b \<and> unat (mb_height b) = depth (mb_blockHash b) \<and>
     mb_height b \<noteq> BLOCK_UNKNOWN_HEIGHT)"

definition from_saved :: "BRMerkleBlock list \<Rightarrow> BRPeerManager \<Rightarrow> bool" where
  "from_saved saved pm \<longleftrightarrow> (\<forall>h p. pm_orphans pm h = Some p \<longrightarrow> (\<exists>b\<in>set saved. pm_heap pm p = Some b))"

text \<open>The state after some of the saved blocks: \<open>block\<close> is the highest transition among them.\<close>

definition collected :: "(UInt256 \<Rightarrow> nat) \<Rightarrow> BRMerkleBlock list \<Rightarrow> BRMerkleBlock set \<Rightarrow> block_ptr option \<Rightarrow> BRPeerManager \<Rightarrow> bool" where
  "collected depth saved seen block pm \<longleftrightarrow> chain_inv depth pm \<and> published_ok pm \<and> checkpoints_ok pm \<and> from_saved saved pm \<and>
     (\<forall>q. block = Some q \<longrightarrow> q \<notin> ran (pm_blocks pm) \<and> (\<exists>t\<in>set saved. pm_heap pm q = Some t)) \<and>
     (\<forall>b\<in>seen. transition b \<longrightarrow> (\<exists>q t. block = Some q \<and> pm_heap pm q = Some t \<and> mb_height b \<le> mb_height t))"

lemma alloc_orphan_inv:
  assumes "chain_inv depth pm" "in_tree depth b"
  defines "pm' \<equiv> pm\<lparr>pm_heap := (pm_heap pm)(pm_next pm \<mapsto> b), pm_next := pm_next pm + 1,
    pm_orphans := (pm_orphans pm)(mb_prevBlock b \<mapsto> pm_next pm)\<rparr>"
  shows "chain_inv depth pm'" "pm_next pm \<notin> ran (pm_blocks pm)" "pm_heap pm (pm_next pm) = None"
proof -
  note c = assms(1) [unfolded chain_inv_def]
  have b: "blocks_ok depth pm" and o: "orphans_ok pm" and h: "heap_ok depth pm" and l: "last_ok pm" using c by simp_all
  show n: "pm_heap pm (pm_next pm) = None" using h by (cases "pm_heap pm (pm_next pm)") (auto simp: heap_ok_def)
  have nb: "pm_blocks pm g \<noteq> Some (pm_next pm)" for g using b n by (fastforce simp: blocks_ok_def)
  have no: "pm_orphans pm g \<noteq> Some (pm_next pm)" for g using o n by (fastforce simp: orphans_ok_def)
  show nr: "pm_next pm \<notin> ran (pm_blocks pm)" using nb by (auto simp: ran_def)
  have nl: "pm_lastBlock pm \<noteq> pm_next pm" using l n by (auto simp: last_ok_def)
  have "blocks_ok depth pm'" using b nb by (fastforce simp: blocks_ok_def pm'_def)
  moreover have "orphans_ok pm'" using o nr no by (fastforce simp: orphans_ok_def pm'_def)
  moreover have "heap_ok depth pm'" using h assms(2) by (auto simp: heap_ok_def pm'_def less_Suc_eq)
  moreover have "last_ok pm'" using l nl by (auto simp: last_ok_def pm'_def)
  ultimately show "chain_inv depth pm'" by (simp add: chain_inv_def)
qed

lemma collected_add:
  assumes "collected depth saved seen block pm" "b \<in> set saved" "saved_blocks depth saved"
  defines "pm' \<equiv> pm\<lparr>pm_heap := (pm_heap pm)(pm_next pm \<mapsto> b), pm_next := pm_next pm + 1,
    pm_orphans := (pm_orphans pm)(mb_prevBlock b \<mapsto> pm_next pm)\<rparr>"
  defines "higher \<equiv> (case block of None \<Rightarrow> True | Some q \<Rightarrow> mb_height b > mb_height (the (pm_heap pm q)))"
  shows "collected depth saved (insert b seen) (if transition b \<and> higher then Some (pm_next pm) else block) pm'"
    "(case block of None \<Rightarrow> Some True | Some q \<Rightarrow> do { ob \<leftarrow> pm_heap pm' q; Some (mb_height b > mb_height ob) }) = Some higher"
proof -
  note c = assms(1) [unfolded collected_def]
  have t: "in_tree depth b" using assms(2,3) by (simp add: saved_blocks_def)
  note a = alloc_orphan_inv [OF _ t, of pm, folded pm'_def]
  have inv: "chain_inv depth pm" using c by blast
  have n: "pm_heap pm (pm_next pm) = None" by (rule a(3) [OF inv])
  have same: "pm_heap pm' q = pm_heap pm q" if "pm_heap pm q \<noteq> None" for q using that n by (auto simp: pm'_def)
  have new: "pm_heap pm' (pm_next pm) = Some b" "pm_blocks pm' = pm_blocks pm" by (simp_all add: pm'_def)
  show "(case block of None \<Rightarrow> Some True | Some q \<Rightarrow> do { ob \<leftarrow> pm_heap pm' q; Some (mb_height b > mb_height ob) }) = Some higher"
    using c same by (fastforce simp: higher_def split: option.split)
  have f: "from_saved saved pm'" using c assms(2) same by (fastforce simp: from_saved_def pm'_def)
  have p: "published_ok pm'" using c by (simp add: published_ok_def pm'_def)
  have k: "checkpoints_ok pm'" using c same by (fastforce simp: checkpoints_ok_def pm'_def)
  note base = a(1) [OF inv] p k f
  show "collected depth saved (insert b seen) (if transition b \<and> higher then Some (pm_next pm) else block) pm'"
  proof (cases "transition b \<and> higher")
    case True
    have "mb_height b' \<le> mb_height b" if b': "b' \<in> seen" "transition b'" for b'
    proof -
      obtain q t where q: "block = Some q" "pm_heap pm q = Some t" "mb_height b' \<le> mb_height t" using c b' by blast
      then have "mb_height t < mb_height b" using True by (simp add: higher_def)
      with q(3) show ?thesis by (rule order_trans [OF _ less_imp_le])
    qed
    then have "\<forall>b'\<in>insert b seen. transition b' \<longrightarrow> (\<exists>q t. Some (pm_next pm) = Some q \<and> pm_heap pm' q = Some t \<and> mb_height b' \<le> mb_height t)"
      using new(1) by auto
    moreover have "pm_next pm \<notin> ran (pm_blocks pm')" using a(2) [OF inv] new(2) by simp
    ultimately show ?thesis using base new(1) assms(2) True by (simp add: collected_def)
  next
    case False
    have q: "q \<notin> ran (pm_blocks pm') \<and> (\<exists>t\<in>set saved. pm_heap pm' q = Some t)" if "block = Some q" for q
      using c that same new(2) by fastforce
    have s: "\<exists>q t. block = Some q \<and> pm_heap pm' q = Some t \<and> mb_height b' \<le> mb_height t" if b': "b' \<in> insert b seen" "transition b'" for b'
    proof (cases "b' \<in> seen")
      case True
      then obtain q t where "block = Some q" "pm_heap pm q = Some t" "mb_height b' \<le> mb_height t" using c b'(2) by blast
      then show ?thesis using same by auto
    next
      case f: False
      then have e: "b' = b" using b'(1) by simp
      then have "\<not> higher" using False b'(2) by simp
      then obtain q where q: "block = Some q" "\<not> mb_height b > mb_height (the (pm_heap pm q))" by (auto simp: higher_def split: option.splits)
      moreover obtain t where "pm_heap pm q = Some t" using c q(1) by blast
      ultimately show ?thesis using same e by (auto simp: not_less)
    qed
    show ?thesis unfolding if_not_P [OF False] using base q s by (simp add: collected_def)
  qed
qed

lemma add_saved_ok:
  assumes "collected depth saved seen block pm" "set bs \<subseteq> set saved" "saved_blocks depth saved"
  shows "\<exists>block' pm'. add_saved bs block pm = Some (block', pm') \<and> collected depth saved (seen \<union> set bs) block' pm' \<and>
    pm_lastBlock pm' = pm_lastBlock pm"
  using assms(1,2)
proof (induction bs arbitrary: seen block pm)
  case (Cons b bs)
  have b: "b \<in> set saved" using Cons(3) by simp
  note c = collected_add [OF Cons(2) b assms(3)]
  let ?pm = "pm\<lparr>pm_heap := (pm_heap pm)(pm_next pm \<mapsto> b), pm_next := pm_next pm + 1,
    pm_orphans := (pm_orphans pm)(mb_prevBlock b \<mapsto> pm_next pm)\<rparr>"
  let ?h = "case block of None \<Rightarrow> True | Some q \<Rightarrow> mb_height b > mb_height (the (pm_heap pm q))"
  let ?block = "if transition b \<and> ?h then Some (pm_next pm) else block"
  obtain block' pm' where r: "add_saved bs ?block ?pm = Some (block', pm')" "collected depth saved (insert b seen \<union> set bs) block' pm'"
    "pm_lastBlock pm' = pm_lastBlock ?pm" using Cons(1) [OF c(1)] Cons(3) by auto
  have o: "pm_orphans (pm\<lparr>pm_heap := (pm_heap pm)(pm_next pm \<mapsto> b), pm_next := pm_next pm + 1\<rparr>) = pm_orphans pm" by simp
  have "mb_height b \<noteq> BLOCK_UNKNOWN_HEIGHT" using b assms(3) by (simp add: saved_blocks_def)
  have "add_saved (b # bs) block pm = Some (block', pm')"
    unfolding add_saved.simps if_not_P [OF \<open>mb_height b \<noteq> BLOCK_UNKNOWN_HEIGHT\<close>] alloc_block_def prod.case Let_def o c(2)
      Option.bind.bind_lunit using r(1) by (simp only: transition_def)
  then show ?case using r(2,3) by simp
qed simp

text \<open>Connecting the saved blocks upwards from one of them.\<close>

lemma connect_step:
  assumes "chain_inv depth pm" "pm_heap pm p = Some b" "p \<notin> ran (pm_blocks pm)" "unat (mb_height b) = depth (mb_blockHash b)"
  defines "pm' \<equiv> pm\<lparr>pm_blocks := (pm_blocks pm)(mb_blockHash b \<mapsto> p), pm_lastBlock := p,
    pm_orphans := (pm_orphans pm)(mb_prevBlock b := None)\<rparr>"
  shows "chain_inv depth pm'" "last_height pm' = unat (mb_height b)"
    "pm_orphans pm' h = Some q \<Longrightarrow> q \<notin> ran (pm_blocks pm') \<and> pm_orphans pm h = Some q"
proof -
  have b: "blocks_ok depth pm" and o: "orphans_ok pm" and h: "heap_ok depth pm" using assms(1) by (simp_all add: chain_inv_def)
  have orphan: "q \<notin> ran (pm_blocks pm') \<and> (\<exists>c. pm_heap pm q = Some c \<and> mb_prevBlock c = h) \<and> pm_orphans pm h = Some q"
    if q: "pm_orphans pm' h = Some q" for h q
  proof -
    have n: "h \<noteq> mb_prevBlock b" "pm_orphans pm h = Some q" using q by (auto simp: pm'_def split: if_splits)
    then obtain c where c: "q \<notin> ran (pm_blocks pm)" "pm_heap pm q = Some c" "mb_prevBlock c = h" using o by (auto simp: orphans_ok_def)
    then have "q \<noteq> p" using assms(2) n(1) by auto
    then have "q \<notin> ran (pm_blocks pm')" using c(1) by (auto simp: pm'_def ran_def split: if_splits)
    then show ?thesis using c n by blast
  qed
  have "blocks_ok depth pm'" using b assms(2,4) by (auto simp: blocks_ok_def pm'_def)
  moreover have "orphans_ok pm'" using orphan by (auto simp: orphans_ok_def) (auto simp: pm'_def)
  moreover have "heap_ok depth pm'" using h by (simp add: heap_ok_def pm'_def)
  moreover have "last_ok pm'" using assms(2) by (simp add: last_ok_def pm'_def)
  ultimately show "chain_inv depth pm'" by (simp add: chain_inv_def)
  show "last_height pm' = unat (mb_height b)" using assms(2) by (simp add: last_height_def pm'_def)
  show "pm_orphans pm' h = Some q \<Longrightarrow> q \<notin> ran (pm_blocks pm') \<and> pm_orphans pm h = Some q" using orphan by blast
qed

lemma connect_saved_ok:
  assumes "chain_inv depth pm" "from_saved saved pm" "saved_blocks depth saved"
    and "pm_heap pm p = Some b" "b \<in> set saved" "p \<notin> ran (pm_blocks pm)"
  shows "\<exists>pm'. connect_saved (Some p) pm = Some pm' \<and> chain_inv depth pm' \<and> unat (mb_height b) \<le> last_height pm' \<and>
    pm_heap pm' = pm_heap pm \<and> pm_orphans pm' \<subseteq>\<^sub>m pm_orphans pm \<and> pm_checkpoints pm' = pm_checkpoints pm \<and>
    pm_publishedTx pm' = pm_publishedTx pm \<and> pm_publishedTxHashes pm' = pm_publishedTxHashes pm"
  using assms(1,2,4,5,6)
proof (induction "2 ^ 32 - depth (mb_blockHash b)" arbitrary: pm p b rule: less_induct)
  case less
  let ?a = "pm\<lparr>pm_blocks := (pm_blocks pm)(mb_blockHash b \<mapsto> p), pm_lastBlock := p,
    pm_orphans := (pm_orphans pm)(mb_prevBlock b := None)\<rparr>"
  have sb: "in_tree depth b" "unat (mb_height b) = depth (mb_blockHash b)" using assms(3) less(5) by (simp_all add: saved_blocks_def)
  note s = connect_step [OF less(2,4,6) sb(2)]
  have e: "connect_saved (Some p) pm = connect_saved (pm_orphans ?a (mb_blockHash b)) ?a"
    using less(4) by (simp add: connect_saved.simps [of "Some p"] Let_def)
  have m: "pm_orphans ?a \<subseteq>\<^sub>m pm_orphans pm" by (simp add: map_le_def)
  show ?case
  proof (cases "pm_orphans ?a (mb_blockHash b)")
    case None
    have "connect_saved (Some p) pm = Some ?a" unfolding e None by (simp add: connect_saved.simps)
    then show ?thesis using s(1,2) m by (intro exI [of _ ?a]) simp
  next
    case (Some q)
    have q: "q \<notin> ran (pm_blocks ?a)" "pm_orphans pm (mb_blockHash b) = Some q" using s(3) [OF Some] by blast+
    obtain c where c: "c \<in> set saved" "pm_heap pm q = Some c" "mb_prevBlock c = mb_blockHash b"
      using less(2,3) q(2) by (fastforce simp: from_saved_def chain_inv_def orphans_ok_def)
    have sc: "in_tree depth c" "unat (mb_height c) = depth (mb_blockHash c)" using assms(3) c(1) by (simp_all add: saved_blocks_def)
    have d: "depth (mb_blockHash c) = Suc (depth (mb_blockHash b))" "depth (mb_blockHash c) < 2 ^ 32"
      using sb(1) sc(1) c(3) by (auto simp: in_tree_def)
    have fa: "from_saved saved ?a"
      unfolding from_saved_def
    proof (intro allI impI)
      fix h r
      assume "pm_orphans ?a h = Some r"
      from s(3) [OF this] have "pm_orphans pm h = Some r" by blast
      then show "\<exists>b\<in>set saved. pm_heap ?a r = Some b" using less(3) by (simp add: from_saved_def)
    qed
    have ha: "pm_heap ?a q = Some c" using c(2) by simp
    have lt: "2 ^ 32 - depth (mb_blockHash c) < 2 ^ 32 - depth (mb_blockHash b)" using d by linarith
    from less(1) [OF lt s(1) fa ha c(1) q(1)] obtain pm' where r: "connect_saved (Some q) ?a = Some pm'" "chain_inv depth pm'" "unat (mb_height c) \<le> last_height pm'"
      "pm_heap pm' = pm_heap ?a" "pm_orphans pm' \<subseteq>\<^sub>m pm_orphans ?a" "pm_checkpoints pm' = pm_checkpoints ?a"
      "pm_publishedTx pm' = pm_publishedTx ?a" "pm_publishedTxHashes pm' = pm_publishedTxHashes ?a"
      by blast
    have "unat (mb_height b) \<le> last_height pm'" using r(3) sb(2) sc(2) d(1) by simp
    moreover have "pm_orphans pm' \<subseteq>\<^sub>m pm_orphans pm" by (rule map_le_trans [OF r(5) m])
    ultimately show ?thesis unfolding e Some using r(1,2,4,6,7,8) by (intro exI [of _ pm']) simp
  qed
qed

lemma new_inv:
  assumes "checkpoint_depths depth" "saved_blocks depth saved"
    and "\<forall>b\<in>set saved. \<exists>t\<in>set saved. transition t \<and> unat (mb_height b) \<le> unat (mb_height t) + 2016"
  shows "\<exists>pm. BRPeerManagerNew wallet earliestKeyTime saved peers = Some pm \<and> run_inv depth pm \<and> checkpoints_ok pm \<and>
    (\<forall>t\<in>set saved. transition t \<longrightarrow> unat (mb_height t) \<le> last_height pm)"
proof -
  define a where "a = fold add_checkpoint [0..<CHECKPOINT_COUNT] (manager_start wallet earliestKeyTime peers)"
  have h: "has_checkpoints CHECKPOINT_COUNT a" unfolding a_def by (rule has_checkpoints_fold) simp
  note c = has_checkpoints_inv [OF h assms(1)]
  have "collected depth saved {} None a" using c h by (simp add: collected_def from_saved_def has_checkpoints_def)
  from add_saved_ok [OF this subset_refl assms(2)] obtain block b where
    b: "add_saved saved None a = Some (block, b)" "collected depth saved (set saved) block b" by auto
  note s = b(2) [unfolded collected_def]
  have new: "BRPeerManagerNew wallet earliestKeyTime saved peers = connect_saved block b"
    by (simp add: BRPeerManagerNew_def a_def [symmetric] b(1) Let_def)
  show ?thesis
  proof (cases block)
    case None
    then have "\<forall>t\<in>set saved. \<not> transition t" using s by blast
    then have "saved = []" using assms(3) by (cases saved) auto
    moreover have "connect_saved block b = Some b" by (simp add: None connect_saved.simps)
    moreover have "pm_orphans b h = None" for h using s \<open>saved = []\<close> by (cases "pm_orphans b h") (auto simp: from_saved_def)
    ultimately show ?thesis unfolding new using s by (intro exI [of _ b]) (simp add: run_inv_def near_def)
  next
    case (Some q)
    obtain t where t: "t \<in> set saved" "pm_heap b q = Some t" "q \<notin> ran (pm_blocks b)" using s Some by blast
    have f: "chain_inv depth b" "from_saved saved b" using s by blast+
    from connect_saved_ok [OF f assms(2) t(2,1,3)] obtain pm where
      p: "connect_saved (Some q) b = Some pm" "chain_inv depth pm" "unat (mb_height t) \<le> last_height pm"
      "pm_heap pm = pm_heap b" "pm_orphans pm \<subseteq>\<^sub>m pm_orphans b" "pm_checkpoints pm = pm_checkpoints b"
      "pm_publishedTx pm = pm_publishedTx b" "pm_publishedTxHashes pm = pm_publishedTxHashes b" by blast
    have top: "unat (mb_height x) \<le> last_height pm" if "x \<in> set saved" "transition x" for x
    proof -
      have "mb_height x \<le> mb_height t" using s that Some t(2) by fastforce
      then show ?thesis using p(3) by (simp add: word_le_nat_alt)
    qed
    have "near depth pm"
      unfolding near_def
    proof (intro allI impI)
      fix h r x
      assume r: "pm_orphans pm h = Some r" "pm_heap pm r = Some x"
      then have "pm_orphans b h = Some r" using p(5) by (auto simp: map_le_def dom_def)
      then have x: "x \<in> set saved" using s p(4) r(2) by (fastforce simp: from_saved_def)
      then obtain y where "y \<in> set saved" "transition y" "unat (mb_height x) \<le> unat (mb_height y) + 2016" using assms(3) by blast
      then show "depth (mb_blockHash x) \<le> last_height pm + 2016" using top [of y] assms(2) x by (simp add: saved_blocks_def)
    qed
    moreover have "published_ok pm" "checkpoints_ok pm" using s p by (simp_all add: published_ok_def checkpoints_ok_def)
    ultimately show ?thesis using new Some p(1,2) top by (intro exI [of _ pm]) (simp add: run_inv_def)
  qed
qed

text \<open>A tree of blocks with the checkpoints, for the witnesses.\<close>

definition tree_depth :: "UInt256 \<Rightarrow> nat" where
  "tree_depth h = (case map_of (map (\<lambda>c. (digits (drop 60 (fst (snd c))), unat (fst c))) checkpoint_array) (u8_of h 0, u8_of h 1) of
     Some n \<Rightarrow> n | None \<Rightarrow> 0)"

lemma tree_depth_checkpoints: "checkpoint_depths tree_depth"
  unfolding checkpoint_depths_def
proof (intro allI impI)
  fix i
  assume i: "i < CHECKPOINT_COUNT"
  let ?l = "map (\<lambda>c. (digits (drop 60 (fst (snd c))), unat (fst c))) checkpoint_array"
  have m: "map fst ?l = map digits (map (\<lambda>c. drop 60 (fst (snd c))) checkpoint_array)" by simp
  have "distinct (map fst ?l)" unfolding m by (rule digits_distinct)
  moreover have "?l ! i \<in> set ?l" using i by (intro nth_mem) simp
  ultimately have "map_of ?l (digits (drop 60 (fst (snd (checkpoint_array ! i))))) = Some (unat (fst (checkpoint_array ! i)))"
    using i by (intro map_of_is_SomeI) simp_all
  then show "tree_depth (check_hash i) = unat (fst (checkpoint_array ! i))"
    by (simp only: tree_depth_def check_hash_bytes [OF i] option.case)
qed

lemma last_checkpoint: "CHECKPOINT_COUNT = 60" "fst (checkpoint_array ! 59) = 1411200"
  by (simp_all add: checkpoint_array_def)

lemma saved_checkpoint: "saved_blocks tree_depth [checkpoint_at 59]" "transition (checkpoint_at 59)"
proof -
  have "tree_depth (check_hash 59) = 1411200"
    using tree_depth_checkpoints last_checkpoint by (simp add: checkpoint_depths_def)
  then show "saved_blocks tree_depth [checkpoint_at 59]"
    using check_hash_nonzero [of 59] last_checkpoint by (simp add: saved_blocks_def in_tree_def checkpoint_at BLOCK_UNKNOWN_HEIGHT_def)
  show "transition (checkpoint_at 59)"
    by (simp add: transition_def checkpoint_at last_checkpoint BLOCK_DIFFICULTY_INTERVAL_def)
qed

section \<open>Properties\<close>

text \<open>C14: creating a manager succeeds and establishes the invariant of its runs, when the checkpoints and the saved blocks are
  in the tree of blocks and no saved block is more than a difficulty interval above a saved transition. The last block is
  at least as high as every saved transition.\<close>

theorem manager_new:
  assumes "checkpoint_depths depth" "saved_blocks depth saved"
    and "\<forall>b\<in>set saved. \<exists>t\<in>set saved. transition t \<and> unat (mb_height b) \<le> unat (mb_height t) + 2016"
  shows "\<exists>pm. BRPeerManagerNew wallet earliestKeyTime saved peers = Some pm \<and> run_inv depth pm \<and> checkpoints_ok pm \<and>
    (\<forall>t\<in>set saved. transition t \<longrightarrow> unat (mb_height t) \<le> last_height pm)"
  by (rule new_inv [OF assms])

theorem manager_new_witness:
  "\<exists>pm. BRPeerManagerNew demo_start 0 [checkpoint_at 59] [] = Some pm \<and> run_inv tree_depth pm \<and> 1411200 \<le> last_height pm"
  using manager_new [OF tree_depth_checkpoints saved_checkpoint(1), of demo_start 0 "[]"] saved_checkpoint(2)
  by (auto simp: checkpoint_at last_checkpoint)

end
