(* ===== verification/WalletDiverge.thy ===== *)
theory WalletDiverge
  imports WalletCreate
begin

text \<open>
  The recursion of \<open>BRWalletCreateTxForOutputs\<close>, for a wallet whose unspent outputs do not all fit into one
  transaction, need not end: two amounts for the last output that the code computes from each other, since the
  fee that rounds the remaining balance to 100 satoshi depends on the amount it changes.
\<close>

section \<open>A wallet with 676 unspent outputs\<close>

definition many_out :: BRTxOutput where
  "many_out = \<lparr>out_address = [50], out_amount = 10000050, out_script = Some [1]\<rparr>"

definition many_tx :: BRTransaction where
  "many_tx = demo_tx\<lparr>tx_outputs := replicate 676 many_out\<rparr>"

definition many_utxos :: "BRUTXO list" where
  "many_utxos = map (\<lambda>i. \<lparr>utxo_hash = 1, utxo_n = word_of_nat i\<rparr>) [0..<676]"

definition many_wallet :: BRWallet where
  "many_wallet = wallet_empty\<lparr>wl_transactions := [1], wl_allTx := [1 \<mapsto> many_tx], wl_externalChain := [[50]],
     wl_allAddrs := {[50]}, wl_utxos := many_utxos, wl_balance := 6760033800, wl_balanceHist := [6760033800]\<rparr>"

lemma many_output: "u \<in> set many_utxos \<Longrightarrow> utxo_output many_wallet u = Some many_out"
  by (auto simp: many_utxos_def many_wallet_def many_tx_def utxo_output_def nth_opt_def unat_of_nat)

lemma many_wallet_inv: "wallet_inv many_wallet"
proof -
  have t: "length (tx_outputs many_tx) = 676" "tx_txHash many_tx = 1" "tx_blockHeight many_tx = 100"
    "tx_inputs many_tx = tx_inputs demo_tx" "many_out \<in> set (tx_outputs many_tx)"
    by (simp_all add: many_tx_def demo_tx_def)
  have "wallet_store many_wallet" "wallet_sorted many_wallet" "addrs_consistent many_wallet"
    using t by (auto simp: wallet_store_def wallet_sorted_def addrs_consistent_def many_wallet_def wallet_empty_def split: if_splits)
  moreover have "ranked (\<lambda>_. 0) (wl_allTx many_wallet)"
    using t(4) by (auto simp: ranked_def many_wallet_def demo_tx_def split: if_splits)
  moreover have "owned_by many_wallet many_tx"
    unfolding owned_by_def by (rule bexI [OF _ t(5)]) (simp add: many_wallet_def many_out_def)
  then have "BRWalletContainsTx many_wallet many_tx" by (simp add: contains_iff)
  ultimately have "wallet_order many_wallet"
    using t(3) by (auto simp: wallet_order_def many_wallet_def height_def tx_of_def TX_UNCONFIRMED_def)
  moreover have "utxo_total many_wallet us = word_of_nat (length us) * 10000050" if "set us \<subseteq> set many_utxos" for us
    using that by (induction us) (auto simp: utxo_amount_def many_output many_out_def algebra_simps)
  then have "utxo_total many_wallet many_utxos = 6760033800" by (simp add: many_utxos_def)
  moreover have "distinct many_utxos"
    by (auto simp: many_utxos_def distinct_map inj_on_def word_of_nat_eq_iff take_bit_nat_eq_self)
  moreover have "own_output many_wallet u" if "u \<in> set many_utxos" for u
    using many_output [OF that] by (simp add: own_output_def many_out_def many_wallet_def)
  moreover have "wl_utxos many_wallet = many_utxos" "wl_balance many_wallet = 6760033800"
    "length (wl_balanceHist many_wallet) = length (wl_transactions many_wallet)" by (simp_all add: many_wallet_def)
  ultimately show ?thesis by (simp add: wallet_inv_def wallet_funds_def)
qed

section \<open>The loop ends with a transaction that is too large\<close>

definition pay :: "u8 list \<Rightarrow> u8 list \<Rightarrow> u64 \<Rightarrow> BRTxOutput" where
  "pay address script amount = \<lparr>out_address = address, out_amount = amount, out_script = Some script\<rparr>"

lemma varint_size: "n < 253 \<Longrightarrow> BRVarIntSize (word_of_nat n) = 1" "253 \<le> n \<Longrightarrow> n < 65536 \<Longrightarrow> BRVarIntSize (word_of_nat n) = 3"
  by (simp_all add: BRVarIntSize_length varint_bytes_def word_less_nat_alt word_le_nat_alt unat_of_nat)

lemma pay_size:
  assumes "length script = 25"
  shows "outputs_size [created_output (pay address script amount)] = 35"
  using assms varint_size(1) [of 25] varint_size(1) [of 1]
  by (simp add: outputs_size_def pay_def bytes_of_def)

text \<open>A transaction under construction with \<open>k\<close> inputs.\<close>

definition building :: "u8 list \<Rightarrow> u8 list \<Rightarrow> u64 \<Rightarrow> nat \<Rightarrow> BRTransaction \<Rightarrow> bool" where
  "building address script amount k tx \<longleftrightarrow>
     unsigned tx \<and> length (tx_inputs tx) = k \<and> tx_outputs tx = [created_output (pay address script amount)]"

lemma building_size:
  assumes "length script = 25" "building address script amount k tx"
  shows "BRTransactionSize tx + TX_OUTPUT_SIZE = 77 + BRVarIntSize (word_of_nat k) + 148 * k"
  using assms size_unsigned [of tx] pay_size [OF assms(1)]
  by (simp add: building_def unsigned_def TX_INPUT_SIZE_def TX_OUTPUT_SIZE_def)

lemma building_snoc:
  "building address script amount k tx \<Longrightarrow>
   building address script amount (Suc k) (tx\<lparr>tx_inputs := tx_inputs tx @ [utxo_input u out]\<rparr>)"
  by (auto simp: building_def unsigned_def)

lemma many_fee: "wl_feePerKb many_wallet = 50000" "unat (wl_feePerKb many_wallet) = 50000"
  "wl_balance many_wallet = 6760033800"
  by (simp_all add: many_wallet_def wallet_empty_def DEFAULT_FEE_PER_KB_def)

text \<open>The fee of the transaction with 675 inputs, the largest one that is not too large.\<close>

lemma full_fee:
  assumes "length script = 25" "building address script amount 675 tx"
  shows "txFee (wl_feePerKb many_wallet) (BRTransactionSize tx + TX_OUTPUT_SIZE) = 4999000"
proof -
  have s: "BRTransactionSize tx + TX_OUTPUT_SIZE = 99980"
    using building_size [OF assms] varint_size(2) [of 675] by simp
  have "unat (txFee (wl_feePerKb many_wallet) 99980) = fee_nat 50000 99980"
    using txFee_nat [of 99980 "wl_feePerKb many_wallet"] by (simp add: many_fee TX_MAX_SIZE_def)
  then have "unat (txFee (wl_feePerKb many_wallet) 99980) = unat (4999000 :: u64)" by (simp add: fee_nat_def)
  then have "txFee (wl_feePerKb many_wallet) 99980 = 4999000" by (simp only: word_unat_eq_iff)
  then show ?thesis by (simp only: s)
qed

text \<open>The two amounts, with the fee that each of them gives.\<close>

definition bad_amount :: "u64 \<Rightarrow> u64 \<Rightarrow> bool" where
  "bad_amount amount feeAmount \<longleftrightarrow> (amount, feeAmount) = (6745034750, 4999050) \<or> (amount, feeAmount) = (6745034700, 4999000)"

lemma bad_loop:
  assumes len: "length script = 25" and bad: "bad_amount amount F" and m: "m = BRWalletMinOutputAmount many_wallet"
  shows "set us \<subseteq> set many_utxos \<Longrightarrow> building address script amount k tx \<Longrightarrow> k + length us = 676 \<Longrightarrow> k \<le> 675 \<Longrightarrow>
    b = word_of_nat (k * 10000050) \<Longrightarrow> (k = 675 \<Longrightarrow> f = F) \<Longrightarrow>
    \<exists>tx'. fund_loop many_wallet amount m us (tx, b, f) = (tx', 6750033750, F, True)"
proof (induction us arbitrary: k tx b f)
  case Nil
  then show ?case by simp
next
  case (Cons u us)
  have o: "utxo_output many_wallet u = Some many_out" using Cons.prems(1) many_output by simp
  have mo: "out_amount many_out = 10000050" by (simp add: many_out_def)
  define tx1 where "tx1 = tx\<lparr>tx_inputs := tx_inputs tx @ [utxo_input u many_out]\<rparr>"
  have b1: "building address script amount (Suc k) tx1"
    unfolding tx1_def by (rule building_snoc [OF Cons.prems(2)])
  note size1 = building_size [OF len b1]
  show ?case
  proof (cases "k = 675")
    case True
    then have "BRTransactionSize tx1 + TX_OUTPUT_SIZE > TX_MAX_SIZE"
      using size1 varint_size(2) [of 676] by (simp add: TX_MAX_SIZE_def)
    then show ?thesis
      using o True Cons.prems(5,6) by (simp add: AddInput_eq tx1_def [symmetric] Let_def)
  next
    case False
    then have k: "Suc k \<le> 675" using Cons.prems(4) by simp
    have small: "\<not> BRTransactionSize tx1 + TX_OUTPUT_SIZE > TX_MAX_SIZE"
      using size1 k varint_size [of "Suc k"] by (cases "Suc k < 253") (simp_all add: TX_MAX_SIZE_def)
    define b2 f2 where "b2 = b + 10000050" "f2 = fund_fee many_wallet amount tx1"
    have ub2: "b2 = word_of_nat (Suc k * 10000050)" using Cons.prems(5) by (simp add: b2_f2_def algebra_simps)
    have un: "unat b2 = Suc k * 10000050" unfolding ub2 unat_of_nat by (rule mod_less) (use k in simp)
    have am: "unat amount < 6745034751" "6745034700 \<le> unat amount" using bad by (auto simp: bad_amount_def)
    have full: "f2 = F" "b2 = 6750033750" if "Suc k = 675"
      using that full_fee [OF len, of address amount tx1] b1 ub2 bad
      by (auto simp: b2_f2_def fund_fee_def bad_amount_def many_fee)
    have go: "\<not> (b2 = amount + f2 \<or> b2 \<ge> amount + f2 + m)"
    proof (cases "Suc k = 675")
      case True
      then show ?thesis using full [OF True] bad m
        by (auto simp: bad_amount_def BRWalletMinOutputAmount_def many_fee TX_MIN_OUTPUT_AMOUNT_def TX_FEE_PER_KB_def
            MIN_FEE_PER_KB_def Let_def)
    next
      case False
      have "unat f2 < 2 ^ 41"
        using fund_fee_nat(2) [of tx1 many_wallet amount] small am(1) many_fee(2)
          fee_nat_bound [of "BRTransactionSize tx1 + TX_OUTPUT_SIZE" 50000]
        by (simp add: b2_f2_def TX_MAX_SIZE_def)
      then have af: "unat (amount + f2) = unat amount + unat f2" by (intro unat_add_small) (use am in simp_all)
      have "unat m < 2 ^ 52" unfolding m by (rule minAmount_nat(1)) (simp add: many_fee)
      then have "unat (amount + f2 + m) = unat amount + unat f2 + unat m"
        unfolding af [symmetric] using \<open>unat f2 < 2 ^ 41\<close> af am by (intro unat_add_small) simp_all
      moreover have "unat b2 < unat amount" using un am(2) k False by simp
      ultimately show ?thesis using af by (auto simp: word_le_nat_alt)
    qed
    have step: "fund_loop many_wallet amount m (u # us) (tx, b, f) = fund_loop many_wallet amount m us (tx1, b2, f2)"
      using o small go by (simp add: AddInput_eq [of tx u many_out, unfolded mo, folded tx1_def] Let_def mo b2_f2_def)
    show ?thesis unfolding step
      by (rule Cons.IH [OF _ b1]) (use Cons.prems k full ub2 in simp_all)
  qed
qed

section \<open>The recursion\<close>

lemma bad_step:
  assumes len: "length script = 25" and bad: "bad_amount amount F"
  shows "\<exists>tx. fund_loop many_wallet amount (BRWalletMinOutputAmount many_wallet) (wl_utxos many_wallet)
      (created_start [pay address script amount], 0, f) = (tx, 6750033750, F, True)"
proof -
  have "building address script amount 0 (created_start [pay address script amount])"
    by (simp add: building_def created_start_eq BRTransactionNew_def unsigned_def)
  from bad_loop [OF len bad refl order.refl this, of 0 f] show ?thesis
    by (simp add: many_wallet_def) (simp add: many_utxos_def)
qed

lemma many_min: "BRWalletMinOutputAmount many_wallet = 5214"
  by (simp add: BRWalletMinOutputAmount_def many_fee TX_MIN_OUTPUT_AMOUNT_def TX_FEE_PER_KB_def MIN_FEE_PER_KB_def Let_def)

lemma many_enough:
  "bad_amount amount F \<Longrightarrow> \<not> wl_balance many_wallet < amount + txFee (wl_feePerKb many_wallet)
     (10 + length (wl_utxos many_wallet) * TX_INPUT_SIZE + (1 + 1) * TX_OUTPUT_SIZE)"
  by (auto simp: bad_amount_def many_fee many_wallet_def many_utxos_def TX_INPUT_SIZE_def TX_OUTPUT_SIZE_def txFee_def
      TX_FEE_PER_KB_def Let_def wallet_empty_def DEFAULT_FEE_PER_KB_def)

lemma bad_again:
  "bad_amount amount F \<Longrightarrow> amount > amount + F + 5214 - 6750033750 \<and>
     (\<exists>F'. bad_amount (amount - (amount + F - 6750033750)) F')"
  by (auto simp: bad_amount_def)

lemma diverges:
  assumes len: "length script = 25" and run: "BRWalletCreateTxForOutputs env w outs = Some y"
  shows "\<not> (w = many_wallet \<and> (\<exists>amount F. bad_amount amount F \<and> outs = [pay address script amount]))"
proof (rule BRWalletCreateTxForOutputs.raw_induct [where P =
      "\<lambda>env w outs y. \<not> (w = many_wallet \<and> (\<exists>amount F. bad_amount amount F \<and> outs = [pay address script amount]))", OF _ run], goal_cases)
  case (1 create env w outputs y)
  show ?case
  proof (intro notI, elim conjE exE)
    fix amount F assume w: "w = many_wallet" and bad: "bad_amount amount F" and o: "outputs = [pay address script amount]"
    let ?f = "txFee (wl_feePerKb many_wallet) (BRTransactionSize (created_start [pay address script amount]) + TX_OUTPUT_SIZE)"
    let ?again = "[pay address script (amount - (amount + F - 6750033750))]"
    obtain tx where l: "fund_loop many_wallet amount 5214 (wl_utxos many_wallet)
        (created_start [pay address script amount], 0, ?f) = (tx, 6750033750, F, True)"
      using bad_step [OF len bad, of address ?f] by (auto simp: many_min)
    have p: "out_amount (pay address script amount) = amount" "out_script (pay address script amount) = Some script"
      "pay address script amount\<lparr>out_amount := c\<rparr> = pay address script c" for c by (simp_all add: pay_def)
    have "script \<noteq> []" using len by auto
    then have "\<exists>z. create env many_wallet ?again = Some z"
      using 1(2) l many_enough [OF bad] bad_again [OF bad]
      unfolding w o created_start_def [symmetric]
      by (simp add: created_start_def [symmetric] p bytes_of_def many_min Let_def bind_eq_Some_conv split: if_splits) blast
    then show False using 1(1) bad_again [OF bad] by blast
  qed
qed

text \<open>C7: with 676 unspent outputs of 10000050 satoshi, at the default fee, the creation of a transaction that
  pays 6745034700 or 6745034750 satoshi to any address with a script of 25 bytes does not return: the 675 outputs
  that fit leave it short by, or over by, 50 satoshi, it changes the amount by as much, and calls itself. The
  wallet satisfies its invariant and holds more than it is to pay.\<close>

theorem BRWalletCreateTx_diverges:
  assumes "length script = 25" "amount = 6745034700 \<or> amount = 6745034750"
  shows "wallet_inv many_wallet \<and> amount < wl_balance many_wallet \<and>
    BRWalletCreateTxForOutputs env many_wallet [pay address script amount] = None"
proof -
  have "\<exists>F. bad_amount amount F" using assms(2) by (auto simp: bad_amount_def)
  then have "BRWalletCreateTxForOutputs env many_wallet [pay address script amount] \<noteq> Some y" for y
    using diverges [OF assms(1), of env many_wallet "[pay address script amount]" y address] by blast
  then have "BRWalletCreateTxForOutputs env many_wallet [pay address script amount] = None"
    by (cases "BRWalletCreateTxForOutputs env many_wallet [pay address script amount]") blast+
  then show ?thesis using assms(2) many_wallet_inv by (auto simp: many_fee)
qed

theorem BRWalletCreateTx_diverges_witness:
  "BRWalletCreateTxForOutputs demo_env many_wallet [pay [51] (replicate 25 0) 6745034700] = None"
  using BRWalletCreateTx_diverges [of "replicate 25 0" 6745034700 demo_env "[51]"] by simp

end
