(* ===== verification/ManagerFilter.thy ===== *)
theory ManagerFilter
  imports ManagerLaws WalletDiverge
begin

text \<open>
  The bloom filter of the wallet, from \<^verbatim>\<open>BRPeerManager.c\<close>, \<^verbatim>\<open>BRWallet.c\<close> and \<^verbatim>\<open>BRBloomFilter.c\<close> together: the peers
  find with it everything that concerns the wallet.
\<close>

section \<open>Filters that grow\<close>

definition filter_has :: "BRBloomFilter \<Rightarrow> u8 list set \<Rightarrow> bool" where
  "filter_has f S \<longleftrightarrow> (\<forall>d\<in>S. BRBloomFilterContainsData f (Some d) = Some True)"

lemma filter_has_more: "more_bits f g \<Longrightarrow> bloom_ok f \<Longrightarrow> filter_has f S \<Longrightarrow> filter_has g S"
  by (auto simp: filter_has_def contains_data_more)

lemma filter_has_simps [simp]: "filter_has f {}" "filter_has f (S \<union> T) \<longleftrightarrow> filter_has f S \<and> filter_has f T"
  by (auto simp: filter_has_def)

lemma contains_total: "bloom_ok f \<Longrightarrow> \<exists>b. contains_from f d n i = Some b"
proof (induction n arbitrary: i)
  case (Suc n)
  obtain idx where "BRBloomFilterHash f d i = Some idx" using hash_in_range [OF Suc.prems] .
  then show ?case using Suc by (cases "bit (bf_filter f ! (idx div 8)) (idx mod 8)") auto
qed auto

definition inserts :: "('a \<Rightarrow> BRBloomFilter \<Rightarrow> BRBloomFilter option) \<Rightarrow> 'a \<Rightarrow> u8 list set \<Rightarrow> bool" where
  "inserts step x S \<longleftrightarrow> (\<forall>f. bloom_ok f \<longrightarrow> (\<exists>g. step x f = Some g \<and> more_bits f g \<and> filter_has g S))"

lemma insertsD: "inserts step x S \<Longrightarrow> bloom_ok f \<Longrightarrow> \<exists>g. step x f = Some g \<and> more_bits f g \<and> bloom_ok g \<and> filter_has g S"
  using more_bits_ok by (fastforce simp: inserts_def)

lemma inserts_new: "inserts insert_new d {d}"
  unfolding inserts_def
proof (intro allI impI)
  fix f assume ok: "bloom_ok f"
  obtain b where b: "BRBloomFilterContainsData f (Some d) = Some b"
    using contains_total [OF ok, of d "unat (bf_hashFuncs f)" 0] by (auto simp: BRBloomFilterContainsData_def)
  show "\<exists>g. insert_new d f = Some g \<and> more_bits f g \<and> filter_has g {d}"
  proof (cases b)
    case True
    then show ?thesis using b by (simp add: insert_new_def filter_has_def more_bits_refl)
  next
    case False
    then show ?thesis using b insert_ok [OF ok, of d] by (auto simp: insert_new_def filter_has_def)
  qed
qed

lemma inserts_fold:
  assumes "\<And>x. x \<in> set xs \<Longrightarrow> inserts step x (D x)"
  shows "inserts (fold_opt step) xs (\<Union>x\<in>set xs. D x)"
  using assms
proof (induction xs)
  case Nil
  then show ?case by (simp add: inserts_def more_bits_refl)
next
  case (Cons x xs)
  show ?case
    unfolding inserts_def
  proof (intro allI impI)
    fix f assume "bloom_ok f"
    then obtain g where g: "step x f = Some g" "more_bits f g" "bloom_ok g" "filter_has g (D x)"
      using insertsD Cons.prems [of x] by (metis list.set_intros(1))
    then obtain h where h: "fold_opt step xs g = Some h" "more_bits g h" "filter_has h (\<Union>x\<in>set xs. D x)"
      using insertsD [OF Cons.IH, of g] Cons.prems by auto
    moreover have "more_bits f h" "filter_has h (D x)"
      using more_bits_trans [OF g(2) h(2)] filter_has_more [OF h(2) g(3,4)] .
    ultimately show "\<exists>h. fold_opt step (x # xs) f = Some h \<and> more_bits f h \<and> filter_has h (\<Union>x\<in>set (x # xs). D x)"
      using g(1) by simp
  qed
qed

section \<open>What the wallet wants to see\<close>

definition address_hashes :: "u8 list \<Rightarrow> u8 list set" where
  "address_hashes a = (case BRAddressHash160 a of None \<Rightarrow> {} | Some h \<Rightarrow> {h} - {replicate 20 0})"

lemma inserts_address: "inserts filter_address a (address_hashes a)"
  using inserts_new [of "the (BRAddressHash160 a)"]
  by (auto simp: inserts_def filter_address_def address_hashes_def more_bits_refl split: option.split)

lemma inserts_outpoint: "inserts (\<lambda>u. insert_new (outpoint u)) u {outpoint u}"
  using inserts_new [of "outpoint u"] by (simp add: inserts_def)

text \<open>The inputs that spend an output of the wallet.\<close>

definition own_inputs :: "BRWallet \<Rightarrow> UInt256 \<Rightarrow> BRUTXO set" where
  "own_inputs w h = {u \<in> inputs_of w h. \<exists>out. utxo_output w u = Some out \<and> out_address out \<in> wl_allAddrs w}"

lemma inserts_input:
  assumes "in_txHash i \<noteq> 0"
  shows "inserts (filter_input w) i (if \<exists>out. utxo_output w (utxo_of i) = Some out \<and> out_address out \<in> wl_allAddrs w
    then {outpoint (utxo_of i)} else {})"
proof -
  have u: "utxo_output w (utxo_of i) = (case wl_allTx w (in_txHash i) of None \<Rightarrow> None
      | Some t \<Rightarrow> if unat (in_index i) < length (tx_outputs t) then Some (tx_outputs t ! unat (in_index i)) else None)"
    by (simp add: utxo_output_def utxo_of_def nth_opt_def split: option.split)
  show ?thesis
    using assms inserts_new [of "outpoint (utxo_of i)"]
    by (auto simp: inserts_def filter_input_def u BRWalletTransactionForHash_def UInt256IsZero_def BRWalletContainsAddress_def
        more_bits_refl split: option.splits if_splits)
qed

lemma inserts_tx:
  assumes "wl_allTx w h \<noteq> None" "\<forall>i\<in>set (tx_inputs (tx_of w h)). in_txHash i \<noteq> 0"
  shows "inserts (filter_tx w) h (outpoint ` own_inputs w h)"
proof -
  obtain t where t: "wl_allTx w h = Some t" using assms(1) by blast
  let ?D = "\<lambda>i. if \<exists>out. utxo_output w (utxo_of i) = Some out \<and> out_address out \<in> wl_allAddrs w
    then {outpoint (utxo_of i)} else {}"
  have "inserts (fold_opt (filter_input w)) (tx_inputs t) (\<Union>i\<in>set (tx_inputs t). ?D i)"
    by (rule inserts_fold, rule inserts_input) (use assms(2) t in \<open>simp add: tx_of_def\<close>)
  moreover have "(\<Union>i\<in>set (tx_inputs t). ?D i) = outpoint ` own_inputs w h"
    using t by (auto simp: own_inputs_def inputs_of_def tx_of_def split: if_splits)
  ultimately show ?thesis using t by (simp add: inserts_def filter_tx_def)
qed

section \<open>The transactions that are not yet deep in the chain\<close>

lemma unconfirmed_count_ok:
  assumes "set hs \<subseteq> dom (wl_allTx w)" "sorted (map (height w) (rev hs))"
  shows "\<exists>n. unconfirmed_count (wl_allTx w) b hs = Some n \<and> n \<le> length hs \<and> (\<forall>i<length hs. i < n \<longleftrightarrow> b \<le> height w (hs ! i))"
  using assms
proof (induction hs)
  case (Cons h hs)
  obtain t where t: "wl_allTx w h = Some t" using Cons.prems(1) by auto
  have ht: "height w h = tx_blockHeight t" using t by (simp add: height_def tx_of_def)
  obtain n where n: "unconfirmed_count (wl_allTx w) b hs = Some n" "n \<le> length hs"
    "\<forall>i<length hs. i < n \<longleftrightarrow> b \<le> height w (hs ! i)"
    using Cons.IH Cons.prems by (auto simp: sorted_append)
  have le: "height w g \<le> height w h" if "g \<in> set hs" for g using Cons.prems(2) that by (auto simp: sorted_append)
  show ?case
  proof (cases "b \<le> tx_blockHeight t")
    case True
    then show ?thesis using n t ht by (auto simp: nth_Cons split: nat.split)
  next
    case False
    then have "\<not> b \<le> height w ((h # hs) ! i)" if "i < Suc (length hs)" for i
      using le [of "hs ! (i - 1)"] ht that by (cases i) auto
    then show ?thesis using False t by auto
  qed
qed simp

lemma take_where:
  assumes "n \<le> length xs" "\<forall>i<length xs. i < n \<longleftrightarrow> P (xs ! i)"
  shows "set (take n xs) = {x \<in> set xs. P x}"
proof (intro set_eqI iffI)
  fix x assume "x \<in> set (take n xs)"
  then obtain i where i: "i < n" "x = xs ! i" using assms(1) by (auto simp: in_set_conv_nth)
  moreover have "i < length xs" using i(1) assms(1) by linarith
  ultimately show "x \<in> {x \<in> set xs. P x}" using assms(2) by auto
next
  fix x assume "x \<in> {x \<in> set xs. P x}"
  then obtain i where i: "i < length xs" "x = xs ! i" "P x" by (auto simp: in_set_conv_nth)
  then have "i < n" using assms(2) by blast
  then show "x \<in> set (take n xs)" using i(1,2) assms(1) by (auto simp: in_set_conv_nth intro!: exI [of _ i])
qed

lemma recent_txs:
  assumes "wallet_order w"
  shows "\<exists>n txs. BRWalletTxUnconfirmedBefore w None b = Some (n, []) \<and> BRWalletTxUnconfirmedBefore w (Some n) b = Some (n, txs) \<and>
    set txs = {h \<in> set (wl_transactions w). b \<le> height w h}"
proof -
  let ?hs = "wl_transactions w"
  have "set (rev ?hs) \<subseteq> dom (wl_allTx w)" "sorted (map (height w) (rev (rev ?hs)))"
    using wallet_orderD(1,2) [OF assms] by (auto simp: wallet_store_def wallet_sorted_def)
  then obtain n where n: "unconfirmed_count (wl_allTx w) b (rev ?hs) = Some n" "n \<le> length ?hs"
    "\<forall>i<length ?hs. i < n \<longleftrightarrow> b \<le> height w (rev ?hs ! i)"
    using unconfirmed_count_ok [of "rev ?hs" w b] by auto
  let ?txs = "drop (length ?hs - n) ?hs"
  have "set (rev ?txs) = {h \<in> set (rev ?hs). b \<le> height w h}"
    using take_where [of n "rev ?hs"] n(2,3) by (simp add: rev_drop)
  then have "set ?txs = {h \<in> set ?hs. b \<le> height w h}" by simp
  then show ?thesis using n(1,2)
    by (intro exI [of _ n] exI [of _ ?txs]) (simp add: BRWalletTxUnconfirmedBefore_def Let_def)
qed

section \<open>Properties\<close>

lemma wallet_filter_ok:
  assumes "wallet_inv w"
    and "\<forall>h\<in>set (wl_transactions w). \<forall>i\<in>set (tx_inputs (tx_of w h)). in_txHash i \<noteq> 0"
  shows "\<exists>f. wallet_filter E rate lastHeight tweak w = Some f \<and> bloom_ok f \<and>
    filter_has f (\<Union>a\<in>wl_allAddrs w. address_hashes a) \<and> filter_has f (outpoint ` set (wl_utxos w)) \<and>
    filter_has f (\<Union>h\<in>{h \<in> set (wl_transactions w). (if lastHeight > 100 then lastHeight - 100 else 0) \<le> height w h}.
      outpoint ` own_inputs w h)"
proof -
  let ?b = "if lastHeight > 100 then lastHeight - 100 else 0 :: u32"
  note o = wallet_orderD [OF inv_order [OF assms(1)]]
  obtain n txs where t: "BRWalletTxUnconfirmedBefore w None ?b = Some (n, [])" "BRWalletTxUnconfirmedBefore w (Some n) ?b = Some (n, txs)"
    "set txs = {h \<in> set (wl_transactions w). ?b \<le> height w h}" using recent_txs [OF inv_order [OF assms(1)]] by blast
  let ?as = "snd (BRWalletAllAddrs w (Some (fst (BRWalletAllAddrs w None))))"
  let ?us = "snd (BRWalletUTXOs w (Some (fst (BRWalletUTXOs w None))))"
  have as: "set ?as = wl_allAddrs w" using o(3) by (auto simp: BRWalletAllAddrs_def addrs_consistent_def Let_def)
  have us: "?us = wl_utxos w" by (simp add: BRWalletUTXOs_def copy_out_def)
  have i1: "inserts (fold_opt filter_address) ?as (\<Union>a\<in>wl_allAddrs w. address_hashes a)"
    unfolding as [symmetric] by (rule inserts_fold, rule inserts_address)
  have i2: "inserts (fold_opt (\<lambda>u. insert_new (outpoint u))) ?us (\<Union>u\<in>set (wl_utxos w). {outpoint u})"
    unfolding us by (rule inserts_fold, rule inserts_outpoint)
  have i3: "inserts (fold_opt (filter_tx w)) txs (\<Union>h\<in>set txs. outpoint ` own_inputs w h)"
    by (rule inserts_fold, rule inserts_tx) (use t(3) assms(2) o(1) in \<open>auto simp: wallet_store_def\<close>)
  let ?count = "length ?as + length ?us + length txs + 100"
  define f0 where "f0 = BRBloomFilterNew (me_bloomLength E rate ?count) (me_bloomFuncs E rate ?count) tweak BLOOM_UPDATE_ALL"
  have ok0: "bloom_ok f0" by (simp add: f0_def New_ok)
  obtain f1 where f1: "fold_opt filter_address ?as f0 = Some f1" "bloom_ok f1" "filter_has f1 (\<Union>a\<in>wl_allAddrs w. address_hashes a)"
    using insertsD [OF i1 ok0] by blast
  obtain f2 where f2: "fold_opt (\<lambda>u. insert_new (outpoint u)) ?us f1 = Some f2" "more_bits f1 f2" "bloom_ok f2"
    "filter_has f2 (\<Union>u\<in>set (wl_utxos w). {outpoint u})"
    using insertsD [OF i2 f1(2)] by blast
  obtain f3 where f3: "fold_opt (filter_tx w) txs f2 = Some f3" "more_bits f2 f3" "bloom_ok f3"
    "filter_has f3 (\<Union>h\<in>set txs. outpoint ` own_inputs w h)"
    using insertsD [OF i3 f2(3)] by blast
  have "wallet_filter E rate lastHeight tweak w = Some f3"
    using t(1,2) f1(1) f2(1) f3(1) by (simp add: wallet_filter_def f0_def Let_def)
  moreover have "filter_has f3 (\<Union>a\<in>wl_allAddrs w. address_hashes a)"
    using filter_has_more [OF more_bits_trans [OF f2(2) f3(2)] f1(2,3)] .
  moreover have "filter_has f3 (outpoint ` set (wl_utxos w))"
    using filter_has_more [OF f3(2) f2(3,4)] by (simp add: filter_has_def)
  ultimately show ?thesis using f3(3,4) t(3) by (intro exI [of _ f3]) simp
qed

text \<open>C10: the filter a peer is loaded with lets everything of the wallet through: the hash of every address, every unspent
  output, and every output of the wallet that is spent by a transaction not yet 100 blocks deep. Building it always
  succeeds, when no such transaction has an input with a zero hash.\<close>

theorem wallet_filter_complete:
  assumes "wallet_inv w"
    and "\<forall>h\<in>set (wl_transactions w). \<forall>i\<in>set (tx_inputs (tx_of w h)). in_txHash i \<noteq> 0"
  shows "\<exists>f. wallet_filter E rate lastHeight tweak w = Some f \<and> bloom_ok f \<and>
    filter_has f (\<Union>a\<in>wl_allAddrs w. address_hashes a) \<and> filter_has f (outpoint ` set (wl_utxos w)) \<and>
    filter_has f (\<Union>h\<in>{h \<in> set (wl_transactions w). (if lastHeight > 100 then lastHeight - 100 else 0) \<le> height w h}.
      outpoint ` own_inputs w h)"
  by (rule wallet_filter_ok [OF assms])

theorem wallet_filter_complete_witness:
  "\<exists>f. wallet_filter chain_env (1 / 1000) 50 7 many_wallet = Some f \<and>
    filter_has f (outpoint ` set many_utxos) \<and> filter_has f {outpoint \<lparr>utxo_hash = 1, utxo_n = 675\<rparr>}"
proof -
  have "\<forall>h\<in>set (wl_transactions many_wallet). \<forall>i\<in>set (tx_inputs (tx_of many_wallet h)). in_txHash i \<noteq> 0"
    by (simp add: many_wallet_def tx_of_def many_tx_def demo_tx_def)
  then obtain f where f: "wallet_filter chain_env (1 / 1000) 50 7 many_wallet = Some f"
    "filter_has f (outpoint ` set (wl_utxos many_wallet))"
    using wallet_filter_complete [OF many_wallet_inv, of chain_env "1 / 1000" 50 7] by blast
  have "wl_utxos many_wallet = many_utxos" "\<lparr>utxo_hash = 1, utxo_n = 675\<rparr> \<in> set many_utxos"
    by (auto simp: many_wallet_def many_utxos_def intro!: image_eqI [of _ _ 675])
  then show ?thesis using f by (auto simp: filter_has_def)
qed

end
