(* ===== verification/ManagerLife.thy ===== *)
theory ManagerLife
  imports ManagerStart ManagerFilter
begin

text \<open>
  The life of a manager: what holds after any sequence of steps of a new manager, a rescan included. The witness is a
  sequence that does all the work: connecting to a peer, loading its filter, asking it for blocks, a block that extends
  the chain, and the rescan.
\<close>

section \<open>A new manager\<close>

definition no_net :: manager_net where
  "no_net = \<lparr>mn_getaddrinfo = (\<lambda>s. Some [AF_INET 0x01020304]), mn_arrived = [], mn_age = (\<lambda>s k. 0), mn_rand = (\<lambda>k n. 0),
     mn_reachable = None\<rparr>"

text \<open>After \<open>n\<close> checkpoints, with key time 0: only the chain has changed, and the first checkpoint is the last block.\<close>

lemma checkpoints_start:
  "n \<le> CHECKPOINT_COUNT \<Longrightarrow> \<exists>hp nx cps bl. fold add_checkpoint [0..<n] (manager_start w 0 ps) =
     (manager_start w 0 ps)\<lparr>pm_heap := hp, pm_next := nx, pm_checkpoints := cps, pm_blocks := bl,
       pm_lastBlock := (if n = 0 then 0 else 1)\<rparr> \<and> (\<forall>h. cps h \<noteq> None \<longrightarrow> h mod BLOCK_DIFFICULTY_INTERVAL = 0)"
proof (induction n)
  case 0
  show ?case by (intro exI [of _ "\<lambda>p. None"] exI [of _ 1]) (simp add: manager_start_def)
next
  case (Suc n)
  then obtain hp nx cps bl where ih: "fold add_checkpoint [0..<n] (manager_start w 0 ps) =
     (manager_start w 0 ps)\<lparr>pm_heap := hp, pm_next := nx, pm_checkpoints := cps, pm_blocks := bl,
       pm_lastBlock := (if n = 0 then 0 else 1)\<rparr>" "\<forall>h. cps h \<noteq> None \<longrightarrow> h mod BLOCK_DIFFICULTY_INTERVAL = 0" by auto
  let ?pm = "fold add_checkpoint [0..<n] (manager_start w 0 ps)"
  have "has_checkpoints n ?pm" using Suc.prems by (intro has_checkpoints_fold) simp
  then have nx: "nx = Suc n" using ih(1) by (simp add: has_checkpoints_def)
  have m: "fst (checkpoint_array ! n) mod BLOCK_DIFFICULTY_INTERVAL = 0"
    using checkpoint_transitions Suc.prems by (simp add: list_all_length)
  have "add_checkpoint n ?pm = (manager_start w 0 ps)\<lparr>pm_heap := hp(Suc n \<mapsto> checkpoint_at n), pm_next := Suc (Suc n),
      pm_checkpoints := cps(fst (checkpoint_array ! n) \<mapsto> Suc n), pm_blocks := bl(check_hash n \<mapsto> Suc n), pm_lastBlock := 1\<rparr>"
    unfolding ih(1)
    by (simp add: add_checkpoint_def checkpoint_at_def [symmetric] checkpoint_at alloc_block_def nx Let_def manager_start_def)
  then have "fold add_checkpoint [0..<Suc n] (manager_start w 0 ps) = (manager_start w 0 ps)\<lparr>pm_heap := hp(Suc n \<mapsto> checkpoint_at n),
      pm_next := Suc (Suc n), pm_checkpoints := cps(fst (checkpoint_array ! n) \<mapsto> Suc n), pm_blocks := bl(check_hash n \<mapsto> Suc n),
      pm_lastBlock := (if Suc n = 0 then 0 else 1)\<rparr>" by simp
  moreover have "\<forall>h. (cps(fst (checkpoint_array ! n) \<mapsto> Suc n)) h \<noteq> None \<longrightarrow> h mod BLOCK_DIFFICULTY_INTERVAL = 0"
    using ih(2) m by (simp add: fun_upd_apply)
  ultimately show ?case by blast
qed

lemma new_start:
  obtains hp cps bl where
    "BRPeerManagerNew w 0 [] ps = Some ((manager_start w 0 ps)\<lparr>pm_heap := hp, pm_next := 61, pm_checkpoints := cps, pm_blocks := bl, pm_lastBlock := 1\<rparr>)"
    "\<And>h. h mod BLOCK_DIFFICULTY_INTERVAL \<noteq> 0 \<Longrightarrow> cps h = None" "hp 1 = Some (checkpoint_at 0)" "hp 61 = None"
    "\<And>h p. bl h = Some p \<longleftrightarrow> 1 \<le> p \<and> p \<le> 60 \<and> h = check_hash (p - 1)"
proof -
  let ?pm = "fold add_checkpoint [0..<CHECKPOINT_COUNT] (manager_start w 0 ps)"
  obtain hp nx cps bl where e: "?pm = (manager_start w 0 ps)\<lparr>pm_heap := hp, pm_next := nx, pm_checkpoints := cps, pm_blocks := bl,
       pm_lastBlock := (if CHECKPOINT_COUNT = 0 then 0 else 1)\<rparr>" "\<forall>h. cps h \<noteq> None \<longrightarrow> h mod BLOCK_DIFFICULTY_INTERVAL = 0"
    using checkpoints_start [OF order_refl, of w ps] by blast
  have "has_checkpoints CHECKPOINT_COUNT ?pm" by (rule has_checkpoints_fold) simp
  then have "has_checkpoints 60 ?pm" by (simp only: last_checkpoint(1))
  note c = this [unfolded has_checkpoints_def e(1)]
  have nx: "nx = 61" using c by simp
  have z: "(if CHECKPOINT_COUNT = 0 then 0 else 1) = (1 :: nat)" by (simp add: last_checkpoint(1))
  have "BRPeerManagerNew w 0 [] ps = Some ?pm" by (simp add: BRPeerManagerNew_def connect_saved.simps)
  then have new: "BRPeerManagerNew w 0 [] ps = Some ((manager_start w 0 ps)\<lparr>pm_heap := hp, pm_next := 61, pm_checkpoints := cps,
      pm_blocks := bl, pm_lastBlock := 1\<rparr>)" unfolding e(1) nx z .
  have h: "hp 1 = Some (checkpoint_at 0)" "hp 61 = None" using c by simp_all
  have k: "cps h = None" if "h mod BLOCK_DIFFICULTY_INTERVAL \<noteq> 0" for h using e(2) that by blast
  have b: "bl h = Some p \<longleftrightarrow> 1 \<le> p \<and> p \<le> 60 \<and> h = check_hash (p - 1)" for h p using c by simp
  show thesis by (rule that [OF new k h b])
qed

section \<open>Handlers that return\<close>

lemma demo_filter:
  assumes "pm_wallet a = demo_start" "pm_orphans a = (\<lambda>h. None)" "pm_heap a (pm_lastBlock a) = Some l"
  shows "\<exists>w f data. BRPeerManagerLoadBloomFilter chain_env p a = Some (on_peer p (BRPeerSendFilterload (me_peer chain_env) data) (a\<lparr>pm_wallet := w, pm_lastOrphan := None,
    pm_filterUpdateHeight := mb_height l, pm_fpRate := BLOOM_REDUCED_FALSEPOSITIVE_RATE, pm_bloomFilter := Some f\<rparr>))"
proof -
  let ?g1 = "SEQUENCE_GAP_LIMIT_EXTERNAL + 100" and ?g2 = "SEQUENCE_GAP_LIMIT_INTERNAL + 100"
  have w0: "addrs_consistent demo_start" using wallet_orderD(3) [OF inv_order [OF demo_start_inv]] .
  have u: "wl_usedAddrs demo_start = {}" "wl_transactions demo_start = []" by (simp_all add: demo_start_def wallet_empty_def)
  have g: "gap_ahead d {} gap n" for d gap n by (auto simp: gap_ahead_def)
  obtain n1 where n1: "BRWalletUnusedAddrs (me_wallet chain_env) demo_start False ?g1 False = Some ([], extend_chain demo_start False n1)"
    using UnusedAddrs_ok [OF w0, of ?g1 "me_wallet chain_env" False False] g u by (auto simp: SEQUENCE_GAP_LIMIT_EXTERNAL_def)
  let ?w1 = "extend_chain demo_start False n1"
  obtain n2 where n2: "BRWalletUnusedAddrs (me_wallet chain_env) ?w1 False ?g2 True = Some ([], extend_chain ?w1 True n2)"
    using UnusedAddrs_ok [OF extend_chain_consistent [OF w0], of ?g2 "me_wallet chain_env" True False n1 False] g u
    by (auto simp: SEQUENCE_GAP_LIMIT_INTERNAL_def extend_chain_same)
  let ?w2 = "extend_chain ?w1 True n2"
  have w2: "wallet_inv ?w2" by (intro extend_chain_inv demo_start_inv)
  have "\<forall>h\<in>set (wl_transactions ?w2). \<forall>i\<in>set (tx_inputs (tx_of ?w2 h)). in_txHash i \<noteq> 0" by (simp add: extend_chain_same u)
  from wallet_filter_ok [OF w2 this] obtain f where
    f: "wallet_filter chain_env BLOOM_REDUCED_FALSEPOSITIVE_RATE (mb_height l) (BRPeerHash (pm_ctx a p)) ?w2 = Some f" by blast
  have "(\<lambda>p. if p \<in> ran (\<lambda>h. None) then None else pm_heap a p) = pm_heap a" by simp
  then have o: "free_orphans (a\<lparr>pm_wallet := ?w2\<rparr>) = Some (a\<lparr>pm_wallet := ?w2\<rparr>)"
    using assms(2) by (cases a) (simp add: free_orphans_def)
  obtain data where g: "BRPeerManagerLoadBloomFilter chain_env p a = Some (on_peer p (BRPeerSendFilterload (me_peer chain_env) data) (a\<lparr>pm_wallet := ?w2, pm_orphans := (\<lambda>h. None),
      pm_lastOrphan := None, pm_filterUpdateHeight := mb_height l, pm_fpRate := BLOOM_REDUCED_FALSEPOSITIVE_RATE,
      pm_bloomFilter := Some f\<rparr>))"
    unfolding BRPeerManagerLoadBloomFilter_def assms(1) n1 n2 o Option.bind.bind_lunit split_conv
    by (simp add: assms(3) f Let_def)
  have "a\<lparr>pm_wallet := ?w2, pm_orphans := (\<lambda>h. None), pm_lastOrphan := None\<rparr> = a\<lparr>pm_wallet := ?w2, pm_lastOrphan := None\<rparr>"
    using assms(2) by (cases a) simp
  then show ?thesis using g by metis
qed

lemma loop_returns: "\<exists>b. connect_loop E no_net k peers a = Some b"
proof (induction E no_net k peers a rule: connect_loop.induct)
  case (1 E k peers a)
  show ?case
  proof (cases "peers = [] \<or> length (pm_connectedPeers a) \<ge> pm_maxConnectCount a")
    case True
    then show ?thesis by (simp add: connect_loop.simps [of E no_net k peers a])
  next
    case False
    have r: "mn_rand no_net k (length peers) = 0" by (simp add: no_net_def)
    obtain b where "connect_loop E no_net (k + 1) (rm_at peers 0)
        (if list_ex (\<lambda>q. BRPeerEq (peers ! 0) (pm_ctx a q)) (pm_connectedPeers a) then a else connect_peer E (peers ! 0) a) = Some b"
      using 1 [OF False refl refl, unfolded r mult_0 div_0] False by auto
    then show ?thesis using False unfolding connect_loop.simps [of E no_net k peers a] Let_def r mult_0 div_0 by (simp split del: if_split)
  qed
qed

lemma connect_returns:
  assumes "pm_heap a (pm_lastBlock a) = Some l"
  shows "\<exists>b. BRPeerManagerConnect E no_net a = Some b"
proof -
  define a1 where "a1 = (if pm_connectFailureCount a \<ge> MAX_CONNECT_FAILURES then a\<lparr>pm_connectFailureCount := 0\<rparr> else a)"
  have "\<exists>b. sync_start a1 = Some b" using assms by (simp add: sync_start_def a1_def)
  then obtain b where b: "sync_start a1 = Some b" by blast
  have "\<exists>c. fill_connections E no_net d = Some c" for d by (simp add: fill_connections_def Let_def loop_returns)
  then obtain c where c: "fill_connections E no_net (retry_connecting E b) = Some c" by blast
  show ?thesis unfolding BRPeerManagerConnect_def a1_def [symmetric] Let_def b Option.bind.bind_lunit c by blast
qed

lemma rescan_returns:
  assumes "pm_blocks a (check_hash (scan_start (pm_earliestKeyTime a) CHECKPOINT_COUNT)) = Some p" "pm_heap a p = Some l"
  shows "\<exists>b. BRPeerManagerRescan E no_net a = Some b"
proof (cases "pm_isConnected a")
  case True
  let ?a = "a\<lparr>pm_lastBlock := p\<rparr>"
  have "\<exists>b. BRPeerManagerConnect E no_net ((case pm_downloadPeer ?a of None \<Rightarrow> ?a
      | Some d \<Rightarrow> on_peer d BRPeerDisconnect (?a\<lparr>pm_peers := filter (\<lambda>q. \<not> BRPeerEq q (pm_ctx ?a d)) (pm_peers ?a)\<rparr>))
      \<lparr>pm_syncStartHeight := 0\<rparr>) = Some b"
    using assms(2) by (intro connect_returns [where l = l]) (simp add: on_peer_def split: option.split)
  then show ?thesis using True assms(1) by (simp add: BRPeerManagerRescan_def Let_def)
qed (simp add: BRPeerManagerRescan_def)

section \<open>A run\<close>

definition node :: BRPeerContext where
  "node = demo_peer\<lparr>pr_services := 5, pr_timestamp := 1600000000, pc_version := 70013, pc_lastblock := 5, pc_status := BRPeerStatusConnected\<rparr>"

lemma genesis_height: "mb_height (checkpoint_at 0) = 0" "fst (checkpoint_array ! 0) = 0"
  by (simp_all add: checkpoint_at checkpoint_array_def)

lemma lastblock_sent:
  "pc_lastblock (BRPeerSendMessage E msg type ctx) = pc_lastblock ctx"
  "pc_lastblock (BRPeerSendFilterload E data ctx) = pc_lastblock ctx"
  "pc_lastblock (BRPeerSendInv E hs ctx) = pc_lastblock ctx"
  "pc_lastblock (BRPeerScheduleDisconnect E ctx t) = pc_lastblock ctx"
  "pc_lastblock (BRPeerSetCurrentBlockHeight ctx h) = pc_lastblock ctx"
proof -
  show m: "pc_lastblock (BRPeerSendMessage E msg type ctx) = pc_lastblock ctx" for msg type ctx
    by (simp add: BRPeerSendMessage_def BRPeerDisconnect_def event_def Let_def split: prod.split)
  have "pc_lastblock (fold (add_known E) hs ctx) = pc_lastblock ctx"
    by (induction hs arbitrary: ctx) (simp_all add: add_known_def Let_def)
  then show "pc_lastblock (BRPeerSendInv E hs ctx) = pc_lastblock ctx"
    by (simp add: BRPeerSendInv_def BRPeerAddKnownTxHashes_def Let_def m)
qed (simp_all add: BRPeerSendFilterload_def BRPeerScheduleDisconnect_def BRPeerSetCurrentBlockHeight_def BRPeerSendMessage_def
    BRPeerDisconnect_def event_def Let_def split: prod.split)

lemma run_connect:
  fixes cps :: "u32 \<rightharpoonup> block_ptr" and bl :: "UInt256 \<rightharpoonup> block_ptr"
  assumes "hp 1 = Some (checkpoint_at 0)"
  defines "s \<equiv> (manager_start demo_start 0 [])\<lparr>pm_heap := hp, pm_next := 61, pm_checkpoints := cps, pm_blocks := bl, pm_lastBlock := 1\<rparr>"
  shows "\<exists>ps cs. BRPeerManagerConnect chain_env no_net (BRPeerManagerSetFixedPeer 7 9333 s) =
    Some ((BRPeerManagerSetFixedPeer 7 9333 s)\<lparr>pm_peers := ps, pm_syncStartHeight := 1, pm_connectedPeers := [1], pm_ctx := cs\<rparr>)"
  using assms(1)
  by (simp add: s_def BRPeerManagerConnect_def BRPeerManagerSetFixedPeer_def manager_start_def sync_start_def fill_connections_def
      fresh_peers_def BRPeerManagerFindPeers_def connect_loop.simps retry_connecting_def manager_event_def connect_peer_def
      fresh_peer_def genesis_height Let_def rm_at_def no_net_def MAX_CONNECT_FAILURES_def)

lemma run_connected:
  assumes "pm_wallet a = demo_start" "pm_orphans a = (\<lambda>h. None)" "pm_heap a (pm_lastBlock a) = Some l" "mb_height l = 0"
    "pm_downloadPeer a = None" "pm_connectedPeers a = [p]" "pm_ctx a p = node" "chain_inv depth a"
  shows "\<exists>b. peerConnected chain_env p a = Some b \<and> pm_isConnected b \<and> pm_downloadPeer b = Some p \<and> pm_bloomFilter b \<noteq> None \<and>
    pm_estimatedHeight b = 5 \<and> pm_fpRate b = BLOOM_REDUCED_FALSEPOSITIVE_RATE \<and> pm_averageTxPerBlock b = pm_averageTxPerBlock a \<and>
    pm_orphans b = (\<lambda>h. None) \<and> pm_heap b = pm_heap a \<and> pm_blocks b = pm_blocks a \<and> pm_lastBlock b = pm_lastBlock a \<and>
    pm_next b = pm_next a \<and> pm_checkpoints b = pm_checkpoints a \<and> pm_earliestKeyTime b = pm_earliestKeyTime a"
proof -
  define a1 where "a1 = a\<lparr>pm_downloadPeer := Some p, pm_isConnected := True, pm_estimatedHeight := 5\<rparr>"
  have "pm_wallet a1 = demo_start" "pm_orphans a1 = (\<lambda>h. None)" "pm_heap a1 (pm_lastBlock a1) = Some l"
    using assms by (simp_all add: a1_def)
  from demo_filter [OF this] obtain w f data where f: "BRPeerManagerLoadBloomFilter chain_env p a1 =
    Some (on_peer p (BRPeerSendFilterload (me_peer chain_env) data) (a1\<lparr>pm_wallet := w,
    pm_lastOrphan := None, pm_filterUpdateHeight := mb_height l, pm_fpRate := BLOOM_REDUCED_FALSEPOSITIVE_RATE, pm_bloomFilter := Some f\<rparr>))"
    by blast
  define a2 where "a2 = BRPeerManagerPublishPendingTx chain_env p (on_peer p (\<lambda>ctx. BRPeerSetCurrentBlockHeight ctx (mb_height l))
    (on_peer p (BRPeerSendFilterload (me_peer chain_env) data) (a1\<lparr>pm_wallet := w, pm_lastOrphan := None, pm_filterUpdateHeight := mb_height l,
       pm_fpRate := BLOOM_REDUCED_FALSEPOSITIVE_RATE, pm_bloomFilter := Some f\<rparr>)))"
  have n: "pr_services node = 5" "pr_timestamp node = 1600000000" "BRPeerVersion node = 70013" "BRPeerLastBlock node = 5"
    by (simp_all add: node_def BRPeerVersion_def BRPeerLastBlock_def)
  have c: "peerConnected chain_env p a = start_sync chain_env p l a2"
    using assms(3-7) f
    by (simp add: peerConnected_def start_download_def n better_peer_def a1_def [symmetric] a2_def chain_env_def Let_def
        SERVICES_NODE_NETWORK_def SERVICES_NODE_BCASH_def SERVICES_NODE_BLOOM_def)
  have "chain_inv depth a2" "last_height a2 = 0"
    using assms(3,4,8) by (simp_all add: a2_def a1_def on_peer_def BRPeerManagerPublishPendingTx_def chain_inv_def blocks_ok_def
        orphans_ok_def heap_ok_def last_ok_def last_height_def)
  then obtain hs where hs: "locators a2 = Some hs"
    using locator_loop_ok [of depth a2 "[]" "Some (pm_lastBlock a2)" 1]
    by (auto simp: locators_def BRPeerManagerBlockLocators_def locator_hashes_def locator_distance_def)
  have "BRPeerLastBlock (pm_ctx a2 p) = 5"
    using assms(7) n(4) by (simp add: a2_def a1_def BRPeerManagerPublishPendingTx_def on_peer_def BRPeerLastBlock_def lastblock_sent)
  then have "mb_height l < BRPeerLastBlock (pm_ctx a2 p)" using assms(4) by simp
  then show ?thesis
    unfolding c start_sync_def hs Option.bind.bind_lunit Let_def
    using assms(2) by (simp add: a2_def a1_def BRPeerManagerPublishPendingTx_def on_peer_def)
qed

text \<open>The first block above the genesis block.\<close>

definition block_one :: BRMerkleBlock where
  "block_one = BRMerkleBlockNew\<lparr>mb_blockHash := 5, mb_prevBlock := check_hash 0, mb_totalTx := 1\<rparr>"

lemma run_relayed:
  assumes "pm_downloadPeer a = Some p" "pm_bloomFilter a = Some f" "pm_estimatedHeight a = 5"
    "pm_fpRate a = BLOOM_REDUCED_FALSEPOSITIVE_RATE" "pm_averageTxPerBlock a = 1400" "pm_orphans a = (\<lambda>h. None)"
    "pm_blocks a (check_hash 0) = Some q" "pm_lastBlock a = q" "pm_heap a q = Some (checkpoint_at 0)" "pm_checkpoints a 1 = None"
    "q \<noteq> pm_next a" "pm_earliestKeyTime a = 0" "pm_isConnected a"
  shows "\<exists>b. peerRelayedBlock chain_env p block_one a = Some b \<and> last_height b = 1 \<and> pm_isConnected b \<and>
    pm_earliestKeyTime b = 0 \<and> pm_heap b q = Some (checkpoint_at 0) \<and> pm_blocks b = (pm_blocks a)(5 \<mapsto> pm_next a)"
  using assms
  by (simp add: peerRelayedBlock_def alloc_block_def relay_from.simps relay_step_def block_one_def
      BRMerkleBlockNew_def BRMerkleBlockTxHashes_def from_root_def tx_hashes_r.simps ceil_log2_def track_rate_def relay_cases_def
      relay_known_def BRPeerManagerVerifyBlock_def BRMerkleBlockVerifyDifficulty_def relay_extends_def blocks_add_def
      relay_finish_def cut_blocks_def last_height_def manager_event_def Let_def UInt256Eq_def BLOCK_DIFFICULTY_INTERVAL_def
      BLOCK_UNKNOWN_HEIGHT_def checkpoint_at genesis_height BLOOM_REDUCED_FALSEPOSITIVE_RATE_def BLOOM_DEFAULT_FALSEPOSITIVE_RATE_def
      on_peer_def reset_timeout_def)

lemma scan_start_0: "scan_start 0 n = 0"
proof (induction n)
  case (Suc n)
  show ?case using Suc by simp
qed simp

section \<open>The property\<close>

lemma scan_start_less: "0 < n \<Longrightarrow> scan_start t n < n"
proof (induction n)
  case (Suc n)
  show ?case
  proof (cases "n = 0")
    case False
    then have "scan_start t n < Suc n" using Suc.IH by simp
    then show ?thesis by simp
  qed simp
qed simp

text \<open>C9: a new manager, whatever the peers and the application make it do, a rescan included, keeps its chain and its
  published transactions consistent: every known block is live, found under its hash and has its true height, the last
  block is known, and the array of the published hashes has the hashes of the published transactions, in order. A step
  that is not a rescan never lowers the last block and keeps the waiting orphans within a difficulty interval above it;
  a rescan of a connected manager sets the last block to the checkpoint from which the wallet's key time is searched. The
  steps are those that return. The blocks that are relayed come from the tree of blocks, and they and the waiting orphans are
  not more than a difficulty interval above the last one, which a rescan may leave behind the orphans. The published transactions are
  values here: that the wallet frees an object which the list still refers to is not seen.\<close>

theorem manager_run:
  assumes "checkpoint_depths depth" "saved_blocks depth saved"
    and "\<forall>b\<in>set saved. \<exists>t\<in>set saved. transition t \<and> unat (mb_height b) \<le> unat (mb_height t) + 2016"
    and "BRPeerManagerNew wallet earliestKeyTime saved peers = Some start"
    and "(manager_step E N depth)\<^sup>*\<^sup>* start pm"
  shows "near depth start \<and> chain_inv depth pm \<and> published_ok pm \<and>
    (\<forall>pm'. manager_step E N depth pm pm' \<longrightarrow>
       last_height pm \<le> last_height pm' \<and> (near depth pm \<longrightarrow> near depth pm') \<or> BRPeerManagerRescan E N pm = Some pm') \<and>
    (\<forall>pm'. BRPeerManagerRescan E N pm = Some pm' \<and> pm_isConnected pm \<longrightarrow>
       last_height pm' = unat (fst (checkpoint_array ! scan_start (pm_earliestKeyTime pm) CHECKPOINT_COUNT)))"
proof -
  have "run_inv depth start" using new_inv [OF assms(1-3), of wallet earliestKeyTime peers] assms(4) by simp
  then have s: "chain_inv depth start" "published_ok start" "near depth start" by (simp_all add: run_inv_def)
  have r: "chain_inv depth pm" "published_ok pm" using run_keeps [OF assms(5) s(1,2)] by simp_all
  have "scan_start t CHECKPOINT_COUNT < CHECKPOINT_COUNT" for t by (rule scan_start_less) (simp add: last_checkpoint)
  then have h: "depth (check_hash (scan_start t CHECKPOINT_COUNT)) = unat (fst (checkpoint_array ! scan_start t CHECKPOINT_COUNT))" for t
    using assms(1) by (simp add: checkpoint_depths_def)
  show ?thesis using s(3) r step_steady [OF _ r] rescan_connected(3) [OF _ _ r] h by (auto simp: steady_def)
qed

text \<open>A tree of blocks with the checkpoints and the block.\<close>

definition life_depth :: "UInt256 \<Rightarrow> nat" where
  "life_depth = tree_depth(5 := 1)"

lemma check_hash_5: "i < CHECKPOINT_COUNT \<Longrightarrow> check_hash i \<noteq> 5"
proof
  assume i: "i < CHECKPOINT_COUNT" "check_hash i = 5"
  have "(u8_of (5 :: UInt256) 0, u8_of (5 :: UInt256) 1) = (5, 0)" by (simp add: u8_of_def)
  then have "(5, 0) = map digits (map (\<lambda>c. drop 60 (fst (snd c))) checkpoint_array) ! i"
    using check_hash_bytes [OF i(1)] i by simp
  then have "(5, 0) \<in> set (map digits (map (\<lambda>c. drop 60 (fst (snd c))) checkpoint_array))"
    using i(1) by (metis length_map nth_mem)
  then show False unfolding checkpoint_digits by simp
qed

lemma life_depth: "checkpoint_depths life_depth" "in_tree life_depth block_one"
proof -
  show "checkpoint_depths life_depth"
    using tree_depth_checkpoints check_hash_5 by (simp add: checkpoint_depths_def life_depth_def)
  have "tree_depth (check_hash 0) = 0"
    using tree_depth_checkpoints genesis_height(2) last_checkpoint(1) by (simp add: checkpoint_depths_def)
  then show "in_tree life_depth block_one"
    using check_hash_5 [of 0] last_checkpoint(1) by (simp add: in_tree_def life_depth_def block_one_def)
qed

theorem manager_run_witness:
  "\<exists>start c1 c2 c3 c4. BRPeerManagerNew demo_start 0 [] [] = Some start \<and>
    BRPeerManagerConnect chain_env no_net (BRPeerManagerSetFixedPeer 7 9333 start) = Some c1 \<and>
    peerConnected chain_env 1 (c1\<lparr>pm_ctx := \<lambda>p. node\<rparr>) = Some c2 \<and>
    peerRelayedBlock chain_env 1 block_one c2 = Some c3 \<and> last_height c3 = 1 \<and>
    BRPeerManagerRescan chain_env no_net c3 = Some c4 \<and> last_height c4 = 0 \<and> chain_inv life_depth c4 \<and> published_ok c4"
proof -
  obtain hp cps bl where s: "BRPeerManagerNew demo_start 0 [] [] =
      Some ((manager_start demo_start 0 [])\<lparr>pm_heap := hp, pm_next := 61, pm_checkpoints := cps, pm_blocks := bl, pm_lastBlock := 1\<rparr>)"
    "\<And>h. h mod BLOCK_DIFFICULTY_INTERVAL \<noteq> 0 \<Longrightarrow> cps h = None" "hp 1 = Some (checkpoint_at 0)" "hp 61 = None"
    "\<And>h p. bl h = Some p \<longleftrightarrow> 1 \<le> p \<and> p \<le> 60 \<and> h = check_hash (p - 1)" by (rule new_start [of demo_start "[]"], rule that)
  let ?s = "(manager_start demo_start 0 [])\<lparr>pm_heap := hp, pm_next := 61, pm_checkpoints := cps, pm_blocks := bl, pm_lastBlock := 1\<rparr>"
  note steps = manager_step.intros [where E = chain_env and N = no_net and depth = life_depth]
  have "saved_blocks life_depth []" "\<forall>b\<in>set []. \<exists>t\<in>set []. transition t \<and> unat (mb_height b) \<le> unat (mb_height t) + 2016"
    by (simp_all add: saved_blocks_def)
  note keep = manager_run [OF life_depth(1) this s(1), of chain_env no_net]
  obtain ps cs where c1: "BRPeerManagerConnect chain_env no_net (BRPeerManagerSetFixedPeer 7 9333 ?s) =
    Some ((BRPeerManagerSetFixedPeer 7 9333 ?s)\<lparr>pm_peers := ps, pm_syncStartHeight := 1, pm_connectedPeers := [1], pm_ctx := cs\<rparr>)"
    using run_connect [where hp = hp and cps = cps and bl = bl, OF s(3)] by blast
  let ?c1 = "(BRPeerManagerSetFixedPeer 7 9333 ?s)\<lparr>pm_peers := ps, pm_syncStartHeight := 1, pm_connectedPeers := [1], pm_ctx := cs\<rparr>"
  let ?d = "?c1\<lparr>pm_ctx := \<lambda>p. node\<rparr>"
  have r1: "(manager_step chain_env no_net life_depth)\<^sup>*\<^sup>* ?s ?d"
    by (rule rtranclp.rtrancl_into_rtrancl [OF rtranclp.rtrancl_into_rtrancl [OF r_into_rtranclp]])
      (rule steps(6) steps(2) [OF c1] steps(1))+
  have d: "pm_wallet ?d = demo_start" "pm_orphans ?d = (\<lambda>h. None)" "pm_heap ?d (pm_lastBlock ?d) = Some (checkpoint_at 0)"
    "pm_downloadPeer ?d = None" "pm_connectedPeers ?d = [1]" "pm_ctx ?d 1 = node" "pm_averageTxPerBlock ?d = 1400"
    "pm_blocks ?d = bl" "pm_lastBlock ?d = 1" "pm_next ?d = 61" "pm_checkpoints ?d = cps" "pm_earliestKeyTime ?d = 0" "pm_heap ?d = hp"
    using s(3) by (simp_all add: BRPeerManagerSetFixedPeer_def manager_start_def)
  have "chain_inv life_depth ?d" using keep [OF r1] by blast
  from run_connected [OF d(1-3) genesis_height(1) d(4-6) this] obtain c2 where
    c2: "peerConnected chain_env 1 ?d = Some c2" "pm_isConnected c2" "pm_downloadPeer c2 = Some 1" "pm_bloomFilter c2 \<noteq> None"
      "pm_estimatedHeight c2 = 5" "pm_fpRate c2 = BLOOM_REDUCED_FALSEPOSITIVE_RATE" "pm_averageTxPerBlock c2 = 1400"
      "pm_orphans c2 = (\<lambda>h. None)" "pm_heap c2 = hp" "pm_blocks c2 = bl" "pm_lastBlock c2 = 1" "pm_next c2 = 61"
      "pm_checkpoints c2 = cps" "pm_earliestKeyTime c2 = 0"
    unfolding d(7-13) by blast
  have r2: "(manager_step chain_env no_net life_depth)\<^sup>*\<^sup>* ?s c2" by (rule rtranclp.rtrancl_into_rtrancl [OF r1 steps(9) [OF c2(1)]])
  obtain f where f: "pm_bloomFilter c2 = Some f" using c2(4) by blast
  have b0: "pm_blocks c2 (check_hash 0) = Some 1" using s(5) [of "check_hash 0" 1] c2(10) by simp
  have k1: "pm_checkpoints c2 1 = None" using s(2) [of 1] c2(13) by (simp add: BLOCK_DIFFICULTY_INTERVAL_def)
  have q: "(1 :: nat) \<noteq> pm_next c2" "pm_heap c2 1 = Some (checkpoint_at 0)" using c2(9,12) s(3) by simp_all
  from run_relayed [OF c2(3) f c2(5-8) b0 c2(11) q(2) k1 q(1) c2(14,2)] obtain c3 where
    c3: "peerRelayedBlock chain_env 1 block_one c2 = Some c3" "last_height c3 = 1" "pm_isConnected c3" "pm_earliestKeyTime c3 = 0"
      "pm_heap c3 1 = Some (checkpoint_at 0)" "pm_blocks c3 = bl(5 \<mapsto> 61)" unfolding c2(10,12) by blast
  have "near life_depth c2" using c2(8) by (simp add: near_def)
  moreover have "life_depth (mb_blockHash block_one) \<le> last_height c2 + 2016" by (simp add: life_depth_def block_one_def)
  ultimately have r3: "(manager_step chain_env no_net life_depth)\<^sup>*\<^sup>* ?s c3"
    using steps(15) [OF c3(1) life_depth(2)] r2 by (metis rtranclp.rtrancl_into_rtrancl)
  have st: "scan_start 0 CHECKPOINT_COUNT = 0" by (rule scan_start_0)
  have "pm_blocks c3 (check_hash (scan_start (pm_earliestKeyTime c3) CHECKPOINT_COUNT)) = Some 1"
    using b0 c2(10) check_hash_5 [of 0] last_checkpoint(1) unfolding c3(4,6) st by simp
  from rescan_returns [OF this c3(5), of chain_env] obtain c4 where c4: "BRPeerManagerRescan chain_env no_net c3 = Some c4" by blast
  have "last_height c4 = 0" using keep [OF r3] c4 c3(3) unfolding c3(4) st genesis_height(2) by simp
  moreover have "chain_inv life_depth c4 \<and> published_ok c4"
    using keep [OF rtranclp.rtrancl_into_rtrancl [OF r3 steps(3) [OF c4]]] by blast
  ultimately show ?thesis using s(1) c1 c2(1) c3(1,2) c4 by blast
qed

end
