(* ===== verification/Spec2Isabelle.thy ===== *)
theory Spec2Isabelle
  imports TransactionSign HashSetLaws MerkleLaws Bloom Aead Bip32 Bip39 WalletSign ManagerLife
begin

text \<open>
  \<^bold>\<open>The program.\<close> The SDK is an iOS wallet for Litecoin and other currencies. Its core is the C library
  under \<^verbatim>\<open>src/Libraries/loafwallet-core\<close>: \<^verbatim>\<open>BRWallet.c\<close> keeps the transactions, addresses and balance of a
  wallet and builds new transactions; \<^verbatim>\<open>BRPeerManager.c\<close> and \<^verbatim>\<open>BRPeer.c\<close> speak the network protocol, hand
  the wallet the transactions they receive, and check the merkle blocks (\<^verbatim>\<open>BRMerkleBlock.c\<close>) of a bloom
  filtered (\<^verbatim>\<open>BRBloomFilter.c\<close>) chain; \<^verbatim>\<open>BRTransaction.c\<close>, \<^verbatim>\<open>BRAddress.c\<close> and \<^verbatim>\<open>BRBase58.c\<close> are the
  formats of transactions, scripts and addresses; \<^verbatim>\<open>BRCrypto.c\<close> has the hashes and the constructions on
  them; \<^verbatim>\<open>BRSet.c\<close>, \<^verbatim>\<open>BRArray.h\<close> and \<^verbatim>\<open>BRInt.h\<close> are the containers and integers everything uses. The
  development models this core bottom up, each theory importing those whose code its code calls. All
  paths below are relative to that directory.

  \<^bold>\<open>Conventions.\<close> C integers are words of their width, so arithmetic wraps as in C. A \<open>size_t\<close> is a
  natural number; where it is computed from untrusted input the reduction modulo \<open>2 ^ 64\<close> is written out.
  A buffer is the list of its bytes, a C string the list without the final 0. A 256-bit union of
  \<^verbatim>\<open>BRInt.h\<close> is a word whose byte \<open>i\<close> is the byte \<open>u8[i]\<close> in memory of the little-endian targets. A
  struct is a record, with a short prefix on its fields. The outer \<open>None\<close> of a result always says that
  the C code does not return or has no defined behaviour (an access outside an object, a division by
  zero, a failed assertion, an endless loop or recursion), never that the code reports an error: an
  error result of the code (\<open>NULL\<close>, 0) is a value of the model. So a lemma \<open>f x = Some y\<close> states
  safety, termination and result together. Loops are structural recursions, or recursive functions with a
  measure; the recursion of \<open>BRWalletCreateTx\<close>, which need not end, and the walks over the blocks of the peer
  manager, which end only on a well-formed chain, are partial functions. The build is
  the one without \<^verbatim>\<open>BITCOIN_TESTNET\<close>. Wiping of temporaries, freeing, locks and threads are left out.

  \<^bold>\<open>The theories.\<close>
  \<^item> \<open>Prelude\<close>: the types, buffers, generic lemmas, and the locales \<open>serializer\<close> and \<open>strict_serializer\<close>
    with the contract of every routine that writes into a buffer which may be \<open>NULL\<close> or too small; they
    are interpreted on the serializers of scripts and transactions.
  \<^item> \<open>CInt\<close> (\<^verbatim>\<open>BRInt.h\<close>): the unions, comparison, hex strings and unaligned little- and big-endian access,
    with their round trips.
  \<^item> \<open>HashSet\<close>, \<open>HashSetOps\<close>, \<open>HashSetRemove\<close>, \<open>HashSetLaws\<close> (\<^verbatim>\<open>BRSet.c\<close>): the linear-probed hash table,
    its invariant \<open>shape\<close>/\<open>set_ok\<close> (every item is on the probe path of its hash, no two items are equal,
    one bucket is empty), that each operation keeps it, returns, and acts on \<open>items\<close> as the operation on
    sets of the same name. The locale \<open>set_laws\<close> is what the clients of a set rely on; the hash table is an
    interpretation of it. The wallet's model uses sets and maps on the strength of these laws.
  \<^item> \<open>Script\<close>, \<open>Address\<close> (\<^verbatim>\<open>BRAddress.c\<close>): variable length integers, script elements and their tiling of
    a script, output and input scripts to addresses and back; no script makes them read out of bounds.
  \<^item> \<open>Base58\<close> (\<^verbatim>\<open>BRBase58.c\<close>): both digit conversions preserve the number, the buffers are large enough,
    base58 and base58check round trips.
  \<^item> \<open>Hash\<close>, \<open>Kdf\<close> (\<^verbatim>\<open>BRCrypto.c\<close>): SHA-1, SHA-2, RIPEMD-160, SHA-3, MD5, MurmurHash3, HMAC, the
    random bit generator, PBKDF2, scrypt. The streaming loops with their in-place padding are equal to the
    compression folded over the padded message, and PBKDF2 and scrypt to their specifications.
  \<^item> \<open>Chacha\<close>, \<open>Poly1305\<close>, \<open>Aead\<close> (\<^verbatim>\<open>BRCrypto.c\<close>): ChaCha20 is the xor with a key stream by block counters;
    the limb arithmetic of Poly1305 is refined to arithmetic on numbers modulo \<open>2 ^ 130 - 5\<close>. \<open>Rfc7539\<close>
    states the document, apart from the code, with its 32-bit block counter and 96-bit nonce; the authenticated encryption
    writes the bytes of the document and decryption accepts nothing else.
  \<^item> \<open>Key\<close> (\<^verbatim>\<open>BRKey.c\<close>): private and public keys, their text formats, addresses and signatures, over the
    curve library \<^verbatim>\<open>secp256k1\<close> as a record of functions; signatures verify and recover the signing key,
    the wallet import format round-trips, and some hexadecimal keys are misread.
  \<^item> \<open>Bip32\<close> (\<^verbatim>\<open>BRBIP32Sequence.c\<close>): hierarchical key derivation; private and public derivation agree.
  \<^item> \<open>Bip39\<close> (\<^verbatim>\<open>BRBIP39Mnemonic.c\<close>): mnemonic phrases over an arbitrary word list; encoding and decoding are
    inverse to each other, and the accepted phrases are exactly the encodings.
  \<^item> \<open>Writer\<close>, \<open>Reader\<close>: the steps in which serializers write at an offset, and the guarded reads of the
    parsers, shared by the formats below.
  \<^item> \<open>Transaction\<close>, \<open>TransactionLaws\<close>, \<open>TransactionSign\<close> (\<^verbatim>\<open>BRTransaction.c\<close>): data, serializing,
    signature hashes, parsing, sizes and signing; parse after serialize, exact and estimated sizes, which
    inputs signing fills and with what.
  \<^item> \<open>MerkleBlock\<close>, \<open>MerkleLaws\<close> (\<^verbatim>\<open>BRMerkleBlock.c\<close>): blocks with their partial merkle tree. The recursive
    walks over flat flags and hashes are refined to a datatype of trees: they compute its root and matches.
    Validity is characterised, with the compact target as a number.
  \<^item> \<open>Bloom\<close> (\<^verbatim>\<open>BRBloomFilter.c\<close>): the filter has no false negatives under any sequence of insertions;
    round trip of its wire format.
  \<^item> \<open>Wallet\<close>, \<open>WalletOps\<close> (\<^verbatim>\<open>BRWallet.c\<close>): the state of the wallet and all its operations.
    \<open>WalletBalance\<close>: the balance loop \<open>_BRWalletUpdateBalance\<close> establishes the invariant of utxos, spent
    outputs, status sets and balances, stated from the transactions alone. \<open>WalletLaws\<close>, \<open>WalletInv\<close>: the
    order of transactions, address generation up to the gap limits, and the wallet invariant kept by
    registering and updating transactions. \<open>WalletCreate\<close>: a created transaction spends registered unspent
    outputs once, pays the requested outputs, and its amounts balance with the fee. \<open>WalletSign\<close>: signing uses the key
    of each input's address. \<open>WalletDiverge\<close>: a wallet on which the creation of a transaction never returns.
  \<^item> \<open>Peer\<close>, \<open>PeerAccept\<close>, \<open>PeerLoop\<close> (\<^verbatim>\<open>BRPeer.c\<close>): the state of a connection and the messages it sends, the
    handlers of the messages it receives, and the thread that reads the stream. What a peer sends and
    tells its client is a list of events in its state; after each the client may react by any sequence of the public
    operations (\<open>client_steps\<close>). \<open>PeerLaws\<close>: the handshake and the consistency of the peer's sets under all
    messages and reactions, the collection of the transactions of a block, and which messages make the
    handlers read out of bounds. \<open>PeerLoop\<close> ends with the independence of the delivered messages from the
    way the network splits the stream.
  \<^item> \<open>PeerManager\<close>, \<open>ManagerOps\<close> (\<^verbatim>\<open>BRPeerManager.c\<close>): the manager of the connected peers. It applies the
    operations of \<open>Peer\<close> to the connections and those of \<open>WalletOps\<close> to its wallet. Blocks are objects in a store, since
    the same one is pointed to by several sets and by \<open>lastBlock\<close>, and freed ones must not be used. \<open>PeerManager\<close> has the
    chain of blocks, the bloom filter and the completion callbacks; \<open>ManagerOps\<close> the rest: creating the manager, finding
    and connecting peers, publishing, and the handlers of a peer. \<open>ManagerLaws\<close>: the invariant \<open>chain_inv\<close> of the known
    blocks, stated against the true heights in the tree of all blocks, is kept by relayed blocks with forks and orphans.
    \<open>ManagerChain\<close>: block locators, verification of blocks, and a rescan that frees the last block. \<open>ManagerFilter\<close>: the
    filter of a wallet misses none of its addresses and outputs (composing \<open>Bloom\<close> and the wallet's invariant).
    \<open>ManagerTx\<close>: a use after free when unrelayed transactions are removed.
    \<open>ManagerRun\<close>: the steps of the manager as an inductive relation \<open>manager_step\<close>, and that each step keeps the chain and the
    published transactions consistent and, unless it is a rescan, does not lower the last block.
    \<open>ManagerStart\<close>: a new manager, with its checkpoints and saved blocks, satisfies it. \<open>ManagerLife\<close>: so it holds along
    every sequence of steps, with a run that connects, loads a filter, extends the chain and scans again.

  \<^bold>\<open>Parameters.\<close> Code outside the repository is an argument. The curve library \<^verbatim>\<open>secp256k1\<close> (a submodule) is a
  record of functions in \<open>Key\<close>, with its documented promises \<open>ec_laws\<close> as a named hypothesis that a small
  concrete library satisfies. Signing and keys enter transactions and the wallet as functions from key and
  digest to signature and from chain and index to public key; \<open>time(NULL)\<close>, random numbers, and whether \<open>realloc\<close> moves an array are fields of the
  wallet's environment. Theorems quantify over all of them, with their assumptions stated.

  \<^bold>\<open>Bounds.\<close> A hash table has at most \<open>set_capacity\<close> items, the load limit of the last table size. Theorems
  on transactions bound counts and lengths below \<open>2 ^ 32\<close> or by a total below \<open>2 ^ 64\<close>, which every
  object in memory satisfies. Amounts are assumed to add up below \<open>2 ^ 64\<close> where the code adds them unchecked.

  \<^bold>\<open>Not modelled.\<close>
  \<^item> In the core library: the payment protocol, BIP38 keys.
  \<^item> In \<^verbatim>\<open>BRPeerManager.c\<close>: the lock and the interleavings that it does not exclude, freeing the manager, the name of
    the download peer, the loops that wait for threads. The wallet and the list of published transactions hold values,
    so the freeing of a transaction that both point to is not seen. Doubles are real numbers.
  \<^item> In \<^verbatim>\<open>BRPeer.c\<close>: opening the socket (its outcome is an argument of \<open>peerThreadRoutine\<close>), the log, and the
    text form of an address.
  \<^item> In the modelled files: floating-point conversions of currencies (\<^verbatim>\<open>BRLocalAmount\<close>,
    \<^verbatim>\<open>BRBitcoinAmount\<close>), the free functions and the setters of callbacks, which have no result to speak of.
  \<^item> Outside it: the Objective-C and Swift code of the application and SDK, vendored sources and headers
    (OpenSSL, ed25519, sockets, logging), the test program and the word list of BIP39.
\<close>

end
